(* ===== verification/Prelude.thy ===== *)
theory Prelude
  imports Complex_Main "HOL-Library.AList" "HOL-Library.List_Lexorder"
begin

text \<open>
  Shared vocabulary of the development.

  \<^item> A Python \<open>str\<close> is the list of its code points (\<open>ustr\<close>); \<open>lit\<close> writes a literal, \<open>utf8_len\<close>
    is \<open>len(s.encode("utf-8"))\<close>, and the order of \<open>HOL-Library.List_Lexorder\<close> is Python's
    comparison of strings.
  \<^item> A clock reading is a rational (\<open>time\<close>): every double is one; rounding is not modelled.
  \<^item> A Python \<open>dict\<close> is an association list in insertion order with distinct keys. \<open>AList.update\<close>
    overwrites in place or appends, and \<open>AList.delete\<close> removes, exactly as \<open>d[k] = v\<close> and
    \<open>d.pop(k, None)\<close> do.
  \<^item> A sweep \<open>for k, v in tuple(d.items()): if p(k, v): d.pop(k)\<close> is \<open>dict_sweep\<close>.
  \<^item> A retry loop over random candidates takes the values the random source yields as a list.
  \<^item> A state machine is an initial predicate and a step relation; \<open>reach\<close> is its reachable states.
\<close>

named_theorems dict_facts \<open>lookup, membership and shape of dictionaries\<close>

section \<open>Strings and time\<close>

type_synonym ustr = "nat list"

type_synonym time = rat

definition lit :: "string \<Rightarrow> ustr" where
  "lit s = map of_char s"

lemma lit_simps [simp]:
  "lit [] = []"
  "lit (c # s) = of_char c # lit s"
  by (simp_all add: lit_def)

fun utf8_width :: "nat \<Rightarrow> nat" where
  "utf8_width c = (if c < 128 then 1 else if c < 2048 then 2 else if c < 65536 then 3 else 4)"

definition utf8_len :: "ustr \<Rightarrow> nat" where
  "utf8_len s = sum_list (map utf8_width s)"

lemma utf8_len_simps [simp]:
  "utf8_len [] = 0"
  "utf8_len (c # s) = utf8_width c + utf8_len s"
  "utf8_len (s @ t) = utf8_len s + utf8_len t"
  by (simp_all add: utf8_len_def)

lemma length_le_utf8_len: "length s \<le> utf8_len s"
  by (induction s) auto

text \<open>\<open>str.isspace\<close> of one code point, and \<open>str.strip()\<close>.\<close>

definition py_isspace :: "nat \<Rightarrow> bool" where
  "py_isspace c \<longleftrightarrow>
     9 \<le> c \<and> c \<le> 13 \<or> 28 \<le> c \<and> c \<le> 32 \<or> c = 133 \<or> c = 160 \<or> c = 5760 \<or>
     8192 \<le> c \<and> c \<le> 8202 \<or> c = 8232 \<or> c = 8233 \<or> c = 8239 \<or> c = 8287 \<or> c = 12288"

definition py_strip :: "ustr \<Rightarrow> ustr" where
  "py_strip s = rev (dropWhile py_isspace (rev (dropWhile py_isspace s)))"

lemma utf8_len_dropWhile: "utf8_len (dropWhile p s) \<le> utf8_len s"
  by (induction s) auto

lemma utf8_len_rev [simp]: "utf8_len (rev s) = utf8_len s"
  by (simp add: utf8_len_def rev_map [symmetric] sum_list_rev)

lemma utf8_len_strip: "utf8_len (py_strip s) \<le> utf8_len s"
  unfolding py_strip_def
  by (metis le_trans utf8_len_dropWhile utf8_len_rev)

lemma dropWhile_idem [simp]: "dropWhile p (dropWhile p s) = dropWhile p s"
  by (induction s) auto

text \<open>ASCII character classes used by the identifier patterns.\<close>

definition is_digit :: "nat \<Rightarrow> bool" where
  "is_digit c \<longleftrightarrow> 48 \<le> c \<and> c \<le> 57"

definition is_upper :: "nat \<Rightarrow> bool" where
  "is_upper c \<longleftrightarrow> 65 \<le> c \<and> c \<le> 90"

definition is_lower :: "nat \<Rightarrow> bool" where
  "is_lower c \<longleftrightarrow> 97 \<le> c \<and> c \<le> 122"

definition is_hex :: "nat \<Rightarrow> bool" where
  "is_hex c \<longleftrightarrow> is_digit c \<or> 97 \<le> c \<and> c \<le> 102"

definition starts_with :: "ustr \<Rightarrow> ustr \<Rightarrow> bool" where
  "starts_with p s \<longleftrightarrow> take (length p) s = p"

lemma starts_with_append [simp]: "starts_with p (p @ s)"
  by (simp add: starts_with_def)

lemma starts_withE:
  assumes "starts_with p s"
  obtains t where "s = p @ t"
  using assms unfolding starts_with_def by (metis append_take_drop_id)

section \<open>Dictionaries\<close>

type_synonym ('k, 'v) dict = "('k \<times> 'v) list"

abbreviation dict_ok :: "('k, 'v) dict \<Rightarrow> bool" where
  "dict_ok d \<equiv> distinct (map fst d)"

abbreviation dict_keys :: "('k, 'v) dict \<Rightarrow> 'k list" where
  "dict_keys d \<equiv> map fst d"

abbreviation dict_values :: "('k, 'v) dict \<Rightarrow> 'v list" where
  "dict_values d \<equiv> map snd d"

lemma map_of_put [dict_facts, simp]:
  "map_of (AList.update k v d) = (map_of d)(k \<mapsto> v)"
  by (rule update_conv')

lemma map_of_pop [dict_facts, simp]:
  "map_of (AList.delete k d) = (map_of d)(k := None)"
  by (rule delete_conv')

lemma dict_ok_put [dict_facts, simp]: "dict_ok d \<Longrightarrow> dict_ok (AList.update k v d)"
  by (rule distinct_update)

lemma dict_ok_pop [dict_facts, simp]: "dict_ok d \<Longrightarrow> dict_ok (AList.delete k d)"
  by (rule distinct_delete)

lemma dict_ok_filter [dict_facts, simp]: "dict_ok d \<Longrightarrow> dict_ok (filter p d)"
  by (induction d) auto

lemma dict_mem_iff: "dict_ok d \<Longrightarrow> (k, v) \<in> set d \<longleftrightarrow> map_of d k = Some v"
  by (auto simp: map_of_eq_Some_iff)

lemma dict_keys_iff: "k \<in> set (dict_keys d) \<longleftrightarrow> map_of d k \<noteq> None"
  by (auto simp: map_of_eq_None_iff)

lemma map_of_filter_dict:
  "dict_ok d \<Longrightarrow>
   map_of (filter (\<lambda>(k, v). p k v) d) x =
     (case map_of d x of None \<Rightarrow> None | Some v \<Rightarrow> if p x v then Some v else None)"
  by (induction d) (auto split: option.splits simp: map_of_eq_None_iff)

lemma pop_absent: "k \<notin> fst ` set d \<Longrightarrow> AList.delete k d = d"
  by (force simp: AList.delete_eq filter_id_conv)

lemma pop_append: "AList.delete k (d @ e) = AList.delete k d @ AList.delete k e"
  by (simp add: AList.delete_eq)

lemma length_pop_le: "length (AList.delete k d) \<le> length d"
  by (simp add: AList.delete_eq)

lemma length_put_fresh:
  "map_of d k = None \<Longrightarrow> length (AList.update k v d) = Suc (length d)"
  by (induction d) (auto split: if_splits)

lemma length_put_present:
  "map_of d k \<noteq> None \<Longrightarrow> length (AList.update k v d) = length d"
  by (induction d) (auto split: if_splits)

lemma put_fresh: "map_of d k = None \<Longrightarrow> AList.update k v d = d @ [(k, v)]"
  by (induction d) (auto split: if_splits)

subsection \<open>Sweeping a dictionary\<close>

definition dict_sweep :: "('k \<Rightarrow> 'v \<Rightarrow> bool) \<Rightarrow> ('k, 'v) dict \<Rightarrow> ('k, 'v) dict" where
  "dict_sweep p d = fold (\<lambda>(k, v) acc. if p k v then AList.delete k acc else acc) d d"

lemma sweep_fold:
  "dict_ok (pre @ d) \<Longrightarrow>
   fold (\<lambda>(k, v) acc. if p k v then AList.delete k acc else acc) d (pre @ d) =
     pre @ filter (\<lambda>(k, v). \<not> p k v) d"
proof (induction d arbitrary: pre)
  case Nil
  then show ?case by simp
next
  case (Cons kv d)
  obtain k v where kv: "kv = (k, v)" by (cases kv)
  from Cons.prems kv have k: "k \<notin> fst ` set pre" "k \<notin> fst ` set d"
    by auto
  show ?case
  proof (cases "p k v")
    case True
    from k have "AList.delete k (pre @ (k, v) # d) = pre @ d"
      by (simp add: pop_append pop_absent)
    with Cons.IH [of pre] Cons.prems True kv show ?thesis by simp
  next
    case False
    with Cons.IH [of "pre @ [kv]"] Cons.prems kv show ?thesis by simp
  qed
qed

lemma dict_sweep_filter: "dict_ok d \<Longrightarrow> dict_sweep p d = filter (\<lambda>(k, v). \<not> p k v) d"
  using sweep_fold [of "[]" d p] by (simp add: dict_sweep_def)

lemma dict_ok_sweep [dict_facts, simp]: "dict_ok d \<Longrightarrow> dict_ok (dict_sweep p d)"
  by (simp add: dict_sweep_filter)

lemma map_of_sweep:
  "dict_ok d \<Longrightarrow>
   map_of (dict_sweep p d) x =
     (case map_of d x of None \<Rightarrow> None | Some v \<Rightarrow> if p x v then None else Some v)"
  by (auto simp: dict_sweep_filter map_of_filter_dict split: option.splits)

lemma length_sweep_le: "dict_ok d \<Longrightarrow> length (dict_sweep p d) \<le> length d"
  by (simp add: dict_sweep_filter)

section \<open>Fresh names\<close>

text \<open>
  \<open>while True: c = new(); if c not in used: return c\<close> over the candidates \<open>draws\<close>; \<open>None\<close> means
  that the loop is still drawing when the candidates run out. The bounded loop gives up after
  \<open>n\<close> candidates.
\<close>

fun draw_fresh :: "'k list \<Rightarrow> 'k list \<Rightarrow> 'k option" where
  "draw_fresh [] used = None"
| "draw_fresh (c # cs) used = (if c \<in> set used then draw_fresh cs used else Some c)"

definition draw_bounded :: "nat \<Rightarrow> 'k list \<Rightarrow> 'k list \<Rightarrow> 'k option" where
  "draw_bounded n draws used = draw_fresh (take n draws) used"

locale name_source =
  fixes draw :: "'k list \<Rightarrow> 'k list \<Rightarrow> 'k option"
    and window :: "'k list \<Rightarrow> 'k list"
  assumes draw_unused: "draw cs used = Some c \<Longrightarrow> c \<notin> set used"
    and draw_member: "draw cs used = Some c \<Longrightarrow> c \<in> set (window cs)"
    and draw_progress: "c \<in> set (window cs) \<Longrightarrow> c \<notin> set used \<Longrightarrow> draw cs used \<noteq> None"
begin

lemma draw_none_iff: "draw cs used = None \<longleftrightarrow> set (window cs) \<subseteq> set used"
  using draw_unused draw_member draw_progress by (cases "draw cs used") blast+

lemma draw_fresh_key: "draw cs (map fst d) = Some c \<Longrightarrow> map_of d c = None"
  using draw_unused [of cs "map fst d" c] by (simp add: map_of_eq_None_iff)

lemma draw_fresh_insert: "draw cs (map fst d) = Some c \<Longrightarrow> AList.update c v d = d @ [(c, v)]"
  by (rule put_fresh) (rule draw_fresh_key)

end

lemma draw_fresh_Some: "draw_fresh cs used = Some c \<Longrightarrow> c \<in> set cs \<and> c \<notin> set used"
  by (induction cs) (auto split: if_splits)

lemma draw_fresh_None: "draw_fresh cs used = None \<longleftrightarrow> set cs \<subseteq> set used"
  by (induction cs) (auto split: if_splits)

interpretation unbounded: name_source draw_fresh "\<lambda>cs. cs"
  by unfold_locales (auto dest: draw_fresh_Some simp: draw_fresh_None)

interpretation bounded: name_source "draw_bounded n" "take n" for n
  by unfold_locales (auto simp: draw_bounded_def draw_fresh_None dest: draw_fresh_Some)

section \<open>State machines\<close>

inductive reach :: "('s \<Rightarrow> bool) \<Rightarrow> ('s \<Rightarrow> 's \<Rightarrow> bool) \<Rightarrow> 's \<Rightarrow> bool" for init step where
  reach_init: "init s \<Longrightarrow> reach init step s"
| reach_step: "reach init step s \<Longrightarrow> step s t \<Longrightarrow> reach init step t"

locale invariant_machine =
  fixes init :: "'s \<Rightarrow> bool"
    and step :: "'s \<Rightarrow> 's \<Rightarrow> bool"
    and inv :: "'s \<Rightarrow> bool"
  assumes init_inv: "init s \<Longrightarrow> inv s"
    and step_inv: "inv s \<Longrightarrow> step s t \<Longrightarrow> inv t"
begin

lemma reach_inv: "reach init step s \<Longrightarrow> inv s"
  by (induction rule: reach.induct) (auto intro: init_inv step_inv)

lemma steps_inv: "step\<^sup>*\<^sup>* s t \<Longrightarrow> inv s \<Longrightarrow> inv t"
  by (induction rule: rtranclp_induct) (auto intro: step_inv)

end

end
