(* ===== verification/State_Store.thy ===== *)
theory State_Store
  imports Prelude
begin

text \<open>
  The file-backed private state store, \<open>src/src/workgate/persistence/store.py\<close>.

  A JSON value is \<open>json\<close>; an object is kept in key order, the form in which \<open>write_json\<close> puts it
  on disk (\<open>sort_keys=True\<close>), so that equality of two values is Python's equality of the parsed
  dictionaries. A missing file and a file holding \<open>null\<close> both read as \<open>None\<close>, which is \<open>JNull\<close>.
  What one path of the state directory holds is a \<open>cell\<close>. A write is atomic, so it has three
  outcomes: it landed, it raised before the replacement, or it raised after it. A process that
  dies during a write leaves the disk as one of the last two does.

  The store also keeps one reference-counted thread lock per durable identity
  (\<open>_thread_lock\<close>, \<open>_release_thread_lock\<close>); the second half models that table.
\<close>

section \<open>JSON documents\<close>

datatype json =
    JNull
  | JBool bool
  | JNum rat
  | JStr ustr
  | JList "json list"
  | JObj "(ustr \<times> json) list"

definition obj_put :: "ustr \<Rightarrow> json \<Rightarrow> (ustr \<times> json) list \<Rightarrow> (ustr \<times> json) list" where
  "obj_put k v kvs = insort_key fst (k, v) (AList.delete k kvs)"

definition obj_get :: "(ustr \<times> json) list \<Rightarrow> ustr \<Rightarrow> json" where
  "obj_get kvs k = (case map_of kvs k of None \<Rightarrow> JNull | Some v \<Rightarrow> v)"

lemma map_of_insort:
  "k \<notin> fst ` set kvs \<Longrightarrow> map_of (insort_key fst (k, v) kvs) = (map_of kvs)(k \<mapsto> v)"
  by (induction kvs) auto

lemma map_of_obj_put [simp]: "map_of (obj_put k v kvs) = (map_of kvs)(k \<mapsto> v)"
proof -
  have "k \<notin> fst ` set (AList.delete k kvs)"
    by (auto simp: AList.delete_eq)
  then show ?thesis by (simp add: obj_put_def map_of_insort)
qed

lemma obj_get_put [simp]:
  "obj_get (obj_put k v kvs) k' = (if k' = k then v else obj_get kvs k')"
  by (simp add: obj_get_def)

section \<open>Files\<close>

datatype exn = OSError | ValueError | RuntimeError

datatype cell =
    Absent
  | Dangling
  | Blocked
  | Garbage
  | Doc json

text \<open>
  \<open>fsize\<close> is the size of the file on disk, which depends on the encoder of the standard library.
\<close>

definition read_json :: "(json \<Rightarrow> nat) \<Rightarrow> nat option \<Rightarrow> cell \<Rightarrow> exn + json" where
  "read_json fsize max_bytes c =
     (case c of
        Absent \<Rightarrow> Inr JNull
      | Dangling \<Rightarrow> Inr JNull
      | Blocked \<Rightarrow> Inl OSError
      | Garbage \<Rightarrow> Inl ValueError
      | Doc v \<Rightarrow>
          (case max_bytes of
             None \<Rightarrow> Inr v
           | Some m \<Rightarrow> if m < fsize v then Inl ValueError else Inr v))"

text \<open>\<open>path.exists() or path.is_symlink()\<close>\<close>

definition present :: "cell \<Rightarrow> bool" where
  "present c \<longleftrightarrow> c \<noteq> Absent"

datatype outcome = Landed | Lost | Late

fun lands :: "outcome \<Rightarrow> bool" where
  "lands Lost = False"
| "lands _ = True"

fun reports :: "outcome \<Rightarrow> bool" where
  "reports Landed = True"
| "reports _ = False"

text \<open>One atomic write: the new cell, and whether the call returned without an error.\<close>

definition write_json :: "outcome \<Rightarrow> json \<Rightarrow> cell \<Rightarrow> cell \<times> bool" where
  "write_json w v c = (if lands w then Doc v else c, reports w)"

lemma read_json_unbounded [simp]:
  "read_json fs None Absent = Inr JNull"
  "read_json fs None Dangling = Inr JNull"
  "read_json fs None Blocked = Inl OSError"
  "read_json fs None Garbage = Inl ValueError"
  "read_json fs None (Doc v) = Inr v"
  by (simp_all add: read_json_def)

lemma read_json_Inr:
  "read_json fs m c = Inr v \<Longrightarrow> v \<noteq> JNull \<Longrightarrow> c = Doc v"
  by (cases c) (auto simp: read_json_def split: option.splits if_splits)

lemma reports_lands: "reports w \<Longrightarrow> lands w"
  by (cases w) auto

section \<open>Reference-counted thread locks\<close>

text \<open>
  A lock object is its number; \<open>next_lock\<close> numbers the objects \<open>threading.RLock()\<close> creates.
\<close>

record lock_table =
  tl_locks :: "(ustr, nat \<times> int) dict"
  next_lock :: nat

definition thread_lock :: "ustr \<Rightarrow> lock_table \<Rightarrow> nat \<times> lock_table" where
  "thread_lock key t =
     (case map_of (tl_locks t) key of
        None \<Rightarrow>
          (next_lock t,
           t\<lparr>tl_locks := AList.update key (next_lock t, 1) (tl_locks t),
             next_lock := Suc (next_lock t)\<rparr>)
      | Some (lock, users) \<Rightarrow>
          (lock, t\<lparr>tl_locks := AList.update key (lock, users + 1) (tl_locks t)\<rparr>))"

definition release_thread_lock :: "ustr \<Rightarrow> lock_table \<Rightarrow> lock_table" where
  "release_thread_lock key t =
     (case map_of (tl_locks t) key of
        None \<Rightarrow> t
      | Some (lock, users) \<Rightarrow>
          if users \<le> 1 then t\<lparr>tl_locks := AList.delete key (tl_locks t)\<rparr>
          else t\<lparr>tl_locks := AList.update key (lock, users - 1) (tl_locks t)\<rparr>)"

text \<open>
  The transactions in flight: each thread inside \<open>transaction(path)\<close> holds the key and the lock
  object it was handed. Entering and leaving are the two steps.
\<close>

record lock_world =
  table :: lock_table
  inside :: "(ustr \<times> nat) list"

definition lock_init :: "lock_world \<Rightarrow> bool" where
  "lock_init w \<longleftrightarrow> w = \<lparr>table = \<lparr>tl_locks = [], next_lock = 0\<rparr>, inside = []\<rparr>"

definition enter_transaction :: "ustr \<Rightarrow> lock_world \<Rightarrow> lock_world" where
  "enter_transaction key w =
     (case thread_lock key (table w) of
        (lock, t) \<Rightarrow> w\<lparr>table := t, inside := (key, lock) # inside w\<rparr>)"

definition leave_transaction :: "(ustr \<times> nat) \<Rightarrow> lock_world \<Rightarrow> lock_world" where
  "leave_transaction h w =
     w\<lparr>table := release_thread_lock (fst h) (table w), inside := remove1 h (inside w)\<rparr>"

inductive lock_step :: "lock_world \<Rightarrow> lock_world \<Rightarrow> bool" where
  enter: "lock_step w (enter_transaction key w)"
| leave: "h \<in> set (inside w) \<Longrightarrow> lock_step w (leave_transaction h w)"

definition holders :: "ustr \<Rightarrow> lock_world \<Rightarrow> nat list" where
  "holders key w = map snd (filter (\<lambda>h. fst h = key) (inside w))"

fun entry_ok :: "(nat \<times> int) option \<Rightarrow> nat list \<Rightarrow> bool" where
  "entry_ok None hs = (hs = [])"
| "entry_ok (Some (lock, users)) hs = (hs \<noteq> [] \<and> users = int (length hs) \<and> (\<forall>h \<in> set hs. h = lock))"

definition lock_inv :: "lock_world \<Rightarrow> bool" where
  "lock_inv w \<longleftrightarrow> (\<forall>key. entry_ok (map_of (tl_locks (table w)) key) (holders key w))"

lemma holders_enter:
  "holders k (enter_transaction key w) =
     (if k = key then fst (thread_lock key (table w)) # holders k w else holders k w)"
  by (auto simp: holders_def enter_transaction_def split: prod.splits)

lemma filter_remove1_pair:
  "map snd (filter (\<lambda>h. fst h = k) (remove1 (k, l) hs)) =
   remove1 l (map snd (filter (\<lambda>h. fst h = k) hs))"
  by (induction hs) auto

lemma filter_remove1_other:
  "k \<noteq> key \<Longrightarrow>
   filter (\<lambda>h. fst h = k) (remove1 (key, l) hs) = filter (\<lambda>h. fst h = k) hs"
  by (induction hs) auto

lemma holders_leave:
  "holders k (leave_transaction (key, l) w) =
     (if k = key then remove1 l (holders k w) else holders k w)"
  by (simp add: holders_def leave_transaction_def filter_remove1_pair filter_remove1_other)

lemma holders_mem: "(key, l) \<in> set (inside w) \<Longrightarrow> l \<in> set (holders key w)"
  by (force simp: holders_def)

lemma lock_inv_init: "lock_init w \<Longrightarrow> lock_inv w"
  by (simp add: lock_init_def lock_inv_def holders_def)

lemma lock_inv_enter:
  assumes "lock_inv w"
  shows "lock_inv (enter_transaction key w)"
  unfolding lock_inv_def
proof
  fix k
  have k: "entry_ok (map_of (tl_locks (table w)) k) (holders k w)"
    using assms by (simp add: lock_inv_def)
  show "entry_ok (map_of (tl_locks (table (enter_transaction key w))) k)
      (holders k (enter_transaction key w))"
    unfolding holders_enter using k
    by (cases "map_of (tl_locks (table w)) key")
      (auto simp: enter_transaction_def thread_lock_def)
qed

lemma lock_inv_leave:
  assumes inv: "lock_inv w" and h: "(key, l) \<in> set (inside w)"
  shows "lock_inv (leave_transaction (key, l) w)"
  unfolding lock_inv_def
proof
  fix k
  have k: "entry_ok (map_of (tl_locks (table w)) j) (holders j w)" for j
    using inv by (simp add: lock_inv_def)
  obtain users where tab: "map_of (tl_locks (table w)) key = Some (l, users)"
    using k [of key] holders_mem [OF h] by (cases "map_of (tl_locks (table w)) key") auto
  have len: "users = int (length (holders key w))" "\<forall>h \<in> set (holders key w). h = l"
    using k [of key] tab by simp_all
  have "holders key w \<noteq> []" using holders_mem [OF h] by auto
  then have short: "length (remove1 l (holders key w)) = length (holders key w) - 1"
    using holders_mem [OF h] by (simp add: length_remove1)
  show "entry_ok (map_of (tl_locks (table (leave_transaction (key, l) w))) k)
      (holders k (leave_transaction (key, l) w))"
  proof (cases "k = key")
    case False
    with k [of k] tab show ?thesis
      by (simp add: holders_leave) (simp add: leave_transaction_def release_thread_lock_def)
  next
    case True
    have sub: "\<forall>h \<in> set (remove1 l (holders key w)). h = l"
      using len(2) set_remove1_subset by fastforce
    from True tab len short sub show ?thesis
      unfolding holders_leave
      by (cases "length (holders key w) \<le> 1")
        (auto simp: leave_transaction_def release_thread_lock_def simp flip: length_0_conv)
  qed
qed

interpretation locks: invariant_machine lock_init lock_step lock_inv
  by unfold_locales (auto elim!: lock_step.cases intro: lock_inv_init lock_inv_enter lock_inv_leave)

lemma lock_table_agrees:
  assumes "reach lock_init lock_step w" and "(key, l) \<in> set (inside w)"
  shows "map_of (tl_locks (table w)) key = Some (l, int (length (holders key w)))"
proof -
  have "entry_ok (map_of (tl_locks (table w)) key) (holders key w)"
    using locks.reach_inv [OF assms(1)] by (simp add: lock_inv_def)
  with holders_mem [OF assms(2)] show ?thesis
    by (cases "map_of (tl_locks (table w)) key") auto
qed

end
