(* ===== verification/Protocol.thy ===== *)
theory Protocol
  imports Prelude
begin

text \<open>
  The small vocabulary shared by Control and the executors: opaque identifiers
  (\<open>src/src/workgate/protocol/ids.py\<close>), bearer credentials and their durable verifiers
  (\<open>protocol/credentials.py\<close>), error codes (\<open>protocol/errors.py\<close>) and the pairing wire models
  (\<open>protocol/pairing.py\<close>). SHA-256 is the parameter \<open>sha\<close>: the hexadecimal digest of a string.
\<close>

section \<open>Identifiers\<close>

text \<open>The class \<open>[A-Za-z0-9_-]\<close> of the identifier patterns.\<close>

definition is_token_char :: "nat \<Rightarrow> bool" where
  "is_token_char c \<longleftrightarrow> is_upper c \<or> is_lower c \<or> is_digit c \<or> c = 95 \<or> c = 45"

text \<open>\<open>^<prefix>[A-Za-z0-9_-]{n,}$\<close> with a maximal length\<close>

definition opaque_id :: "ustr \<Rightarrow> nat \<Rightarrow> nat \<Rightarrow> ustr \<Rightarrow> bool" where
  "opaque_id prefix n max_length s \<longleftrightarrow>
     starts_with prefix s \<and> n \<le> length s - length prefix \<and>
     list_all is_token_char (drop (length prefix) s) \<and> length s \<le> max_length"

definition executor_id_ok :: "ustr \<Rightarrow> bool" where
  "executor_id_ok = opaque_id (lit ''exec_'') 22 128"

definition session_id_ok :: "ustr \<Rightarrow> bool" where
  "session_id_ok = opaque_id (lit ''sess_'') 22 128"

definition task_id_ok :: "ustr \<Rightarrow> bool" where
  "task_id_ok = opaque_id (lit ''task_'') 22 128"

definition device_code_ok :: "ustr \<Rightarrow> bool" where
  "device_code_ok = opaque_id (lit ''pair_'') 43 160"

text \<open>\<open>_USER_CODE_ALPHABET\<close> and \<open>^[A-HJ-NP-Z2-9]{4}-[A-HJ-NP-Z2-9]{4}$\<close>\<close>

definition user_code_char :: "nat \<Rightarrow> bool" where
  "user_code_char c \<longleftrightarrow> is_upper c \<and> c \<noteq> 73 \<and> c \<noteq> 79 \<or> 50 \<le> c \<and> c \<le> 57"

definition user_code_ok :: "ustr \<Rightarrow> bool" where
  "user_code_ok s \<longleftrightarrow>
     length s = 9 \<and> list_all user_code_char (take 4 s) \<and> s ! 4 = 45 \<and>
     list_all user_code_char (drop 5 s)"

text \<open>\<open>raw\<close> is the eight characters \<open>secrets.choice\<close> draws from the alphabet.\<close>

definition new_user_code :: "ustr \<Rightarrow> ustr" where
  "new_user_code raw = take 4 raw @ [45] @ drop 4 raw"

text \<open>\<open>token\<close> is what \<open>secrets.token_urlsafe\<close> returns.\<close>

definition new_opaque_id :: "ustr \<Rightarrow> ustr \<Rightarrow> ustr" where
  "new_opaque_id prefix token = prefix @ token"

lemma new_opaque_id_ok:
  "list_all is_token_char token \<Longrightarrow> n \<le> length token \<Longrightarrow> length prefix + length token \<le> m \<Longrightarrow>
   opaque_id prefix n m (new_opaque_id prefix token)"
  by (simp add: opaque_id_def new_opaque_id_def)

lemma new_user_code_ok:
  assumes "length raw = 8" and "list_all user_code_char raw"
  shows "user_code_ok (new_user_code raw)"
proof -
  have "list_all user_code_char (take 4 raw)" "list_all user_code_char (drop 4 raw)"
    using assms(2) by (auto simp: list_all_iff dest: in_set_takeD in_set_dropD)
  then show ?thesis
    using assms(1) by (simp add: user_code_ok_def new_user_code_def nth_append)
qed

section \<open>Credentials\<close>

definition verifier_prefix :: ustr where
  "verifier_prefix = lit ''sha256:''"

definition verifier_ok :: "ustr \<Rightarrow> bool" where
  "verifier_ok v \<longleftrightarrow> starts_with verifier_prefix v \<and> length v = 71 \<and> list_all is_hex (drop 7 v)"

definition executor_credential_verifier :: "(ustr \<Rightarrow> ustr) \<Rightarrow> ustr \<Rightarrow> ustr" where
  "executor_credential_verifier sha credential = verifier_prefix @ sha credential"

definition executor_credential_matches :: "(ustr \<Rightarrow> ustr) \<Rightarrow> ustr \<Rightarrow> ustr \<Rightarrow> bool" where
  "executor_credential_matches sha credential verifier =
     (if \<not> starts_with verifier_prefix verifier then False
      else executor_credential_verifier sha credential = verifier)"

definition executor_credential_is_trusted ::
  "(ustr \<Rightarrow> ustr) \<Rightarrow> ustr \<Rightarrow> ustr \<Rightarrow> time option \<Rightarrow> bool" where
  "executor_credential_is_trusted sha credential verifier revoked_at \<longleftrightarrow>
     revoked_at = None \<and> executor_credential_matches sha credential verifier"

lemma matches_iff [simp]:
  "executor_credential_matches sha c v \<longleftrightarrow> v = executor_credential_verifier sha c"
  by (auto simp: executor_credential_matches_def executor_credential_verifier_def)

section \<open>Errors and pairing messages\<close>

datatype protocol_error_code =
    UNAUTHORIZED_EXECUTOR
  | EXECUTOR_REVOKED
  | PAIRING_REQUIRED
  | PAIRING_PENDING
  | PAIRING_DENIED
  | PAIRING_EXPIRED
  | PAIRING_CAPACITY_EXHAUSTED
  | UNKNOWN_COMMAND
  | EXECUTOR_OVERLOADED
  | OPERATION_UNSUPPORTED
  | SESSION_NOT_FOUND
  | EXECUTOR_OFFLINE
  | EXECUTOR_INCOMPATIBLE
  | EXECUTOR_RESET

datatype pair_decision = APPROVE | DENY

record pairing_metadata =
  md_hostname :: "ustr option"
  md_platform :: "ustr option"
  md_build :: "ustr option"

record pair_start_request =
  requested_name :: "ustr option"
  existing_executor_id :: "ustr option"
  psr_metadata :: pairing_metadata

record pair_approval_request =
  apr_user_code :: ustr
  apr_decision :: pair_decision
  replace_executor_id :: "ustr option"
  apr_name :: "ustr option"

record pair_start_response =
  resp_device_code :: ustr
  resp_user_code :: ustr
  resp_expires_in :: int
  resp_poll_interval :: int

end
