(* ===== verification/Payload_Store.thy ===== *)
theory Payload_Store
  imports State_Store Protocol "HOL-Library.Word"
begin

text \<open>
  Immutable payloads, \<open>src/src/workgate/control/payload_store.py\<close>, which public file links and session
  copies share.

  One namespace of the store is a directory with two kinds of leaves: committed payloads, known by
  their identity (the file name without its suffix), and staging files, known by their name, each with
  its modification time. A leaf that is not a regular file is \<open>Special\<close>. \<open>busy\<close> says for which names
  \<open>unlink\<close> raises \<open>OSError\<close>; \<open>sha\<close> is the hexadecimal SHA-256 digest.

  The locale \<open>payload_client\<close> is the contract between the store and a registry that references it:
  what the registry still promises is among the payloads it protects from pruning. Its lemmas say when
  a promise keeps its bytes.
\<close>

type_synonym octets = "8 word list"

datatype leaf = Regular octets | Special

record payload_dir =
  pd_payloads :: "(ustr, leaf) dict"
  pd_staging :: "(ustr, leaf \<times> time) dict"

record payload_descriptor =
  py_id :: ustr
  py_size :: int
  py_sha :: ustr

definition payload_suffix :: ustr where
  "payload_suffix = lit ''.bin''"

definition staging_suffix :: ustr where
  "staging_suffix = lit ''.tmp''"

definition staging_prune_grace :: time where
  "staging_prune_grace = 3600"

text \<open>\<open>^payload_[A-Za-z0-9_-]{22,}$\<close> and \<open>^[a-z][a-z0-9_-]{0,31}$\<close>, both with \<open>fullmatch\<close>\<close>

definition payload_path_ok :: "ustr \<Rightarrow> bool" where
  "payload_path_ok s \<longleftrightarrow> opaque_id (lit ''payload_'') 22 (length s) s"

definition payload_namespace_ok :: "ustr \<Rightarrow> bool" where
  "payload_namespace_ok s \<longleftrightarrow>
     s \<noteq> [] \<and> is_lower (hd s) \<and> length s \<le> 32 \<and>
     list_all (\<lambda>c. is_lower c \<or> is_digit c \<or> c = 95 \<or> c = 45) (tl s)"

definition ends_with :: "ustr \<Rightarrow> ustr \<Rightarrow> bool" where
  "ends_with p s \<longleftrightarrow> starts_with (rev p) (rev s)"

text \<open>\<open>hex\<close> is the random part of the name.\<close>

definition new_staging_name :: "ustr \<Rightarrow> ustr" where
  "new_staging_name hex = 46 # hex @ staging_suffix"

definition open_private_staging :: "bool \<Rightarrow> time \<Rightarrow> ustr \<Rightarrow> payload_dir \<Rightarrow> payload_dir \<times> (exn + unit)" where
  "open_private_staging local now name d =
     (if \<not> local then (d, Inl ValueError)
      else if map_of (pd_staging d) name \<noteq> None then (d, Inl OSError)
      else (d\<lparr>pd_staging := AList.update name (Regular [], now) (pd_staging d)\<rparr>, Inr ()))"

text \<open>The bytes written through the handle of a staging file.\<close>

definition write_staging :: "time \<Rightarrow> ustr \<Rightarrow> octets \<Rightarrow> payload_dir \<Rightarrow> payload_dir" where
  "write_staging now name bytes d =
     (case map_of (pd_staging d) name of
        Some (Regular old, _) \<Rightarrow>
          d\<lparr>pd_staging := AList.update name (Regular (old @ bytes), now) (pd_staging d)\<rparr>
      | _ \<Rightarrow> d)"

text \<open>
  \<open>local\<close>: the path lies in the directory; \<open>fresh\<close>: the identity \<open>new_payload_id\<close> draws;
  \<open>moved\<close>: whether \<open>os.replace\<close> succeeds.
\<close>

definition commit_staging ::
  "bool \<Rightarrow> ustr \<Rightarrow> bool \<Rightarrow> ustr \<Rightarrow> int \<Rightarrow> ustr \<Rightarrow> payload_dir \<Rightarrow> payload_dir \<times> (exn + payload_descriptor)" where
  "commit_staging local fresh moved name n digest d =
     (if \<not> local \<or> \<not> ends_with staging_suffix name then (d, Inl ValueError)
      else if \<not> payload_path_ok fresh then (d, Inl ValueError)
      else if map_of (pd_payloads d) fresh \<noteq> None then (d, Inl OSError)
      else case map_of (pd_staging d) name of
             None \<Rightarrow> (d, Inl OSError)
           | Some (Special, _) \<Rightarrow> (d, Inl ValueError)
           | Some (Regular bytes, _) \<Rightarrow>
               if int (length bytes) \<noteq> n then (d, Inl ValueError)
               else if \<not> moved then (d, Inl OSError)
               else (d\<lparr>pd_payloads := AList.update fresh (Regular bytes) (pd_payloads d),
                       pd_staging := AList.delete name (pd_staging d)\<rparr>,
                 Inr \<lparr>py_id = fresh, py_size = n, py_sha = digest\<rparr>))"

definition open_payload ::
  "(octets \<Rightarrow> ustr) \<Rightarrow> ustr \<Rightarrow> int \<Rightarrow> ustr \<Rightarrow> payload_dir \<Rightarrow> exn + octets" where
  "open_payload sha pid n digest d =
     (if \<not> payload_path_ok pid then Inl ValueError
      else case map_of (pd_payloads d) pid of
             None \<Rightarrow> Inl OSError
           | Some Special \<Rightarrow> Inl ValueError
           | Some (Regular bytes) \<Rightarrow>
               if int (length bytes) \<noteq> n then Inl ValueError
               else if sha bytes \<noteq> digest then Inl ValueError
               else Inr bytes)"

definition unlink_payload :: "(ustr \<Rightarrow> bool) \<Rightarrow> ustr \<Rightarrow> payload_dir \<Rightarrow> payload_dir" where
  "unlink_payload busy pid d =
     (if busy pid then d else d\<lparr>pd_payloads := AList.delete pid (pd_payloads d)\<rparr>)"

definition remove_payload :: "(ustr \<Rightarrow> bool) \<Rightarrow> ustr \<Rightarrow> payload_dir \<Rightarrow> payload_dir" where
  "remove_payload busy pid d = (if payload_path_ok pid then unlink_payload busy pid d else d)"

definition prune_staging_files :: "(ustr \<Rightarrow> bool) \<Rightarrow> time \<Rightarrow> payload_dir \<Rightarrow> payload_dir \<times> bool" where
  "prune_staging_files busy now d =
     (let stale = (\<lambda>name (_, mtime). mtime \<le> now - staging_prune_grace \<and> \<not> busy name)
      in (d\<lparr>pd_staging := dict_sweep stale (pd_staging d)\<rparr>,
          list_ex (\<lambda>(name, f). stale name f) (pd_staging d)))"

definition prune_unreferenced_payloads ::
  "(ustr \<Rightarrow> bool) \<Rightarrow> ustr list \<Rightarrow> payload_dir \<Rightarrow> payload_dir \<times> bool" where
  "prune_unreferenced_payloads busy referenced d =
     (let orphan = (\<lambda>pid _. pid \<notin> set referenced \<and> \<not> busy pid)
      in (d\<lparr>pd_payloads := dict_sweep orphan (pd_payloads d)\<rparr>,
          list_ex (\<lambda>(pid, f). orphan pid f) (pd_payloads d)))"

definition payload_dir_ok :: "payload_dir \<Rightarrow> bool" where
  "payload_dir_ok d \<longleftrightarrow> dict_ok (pd_payloads d) \<and> dict_ok (pd_staging d)"

section \<open>What each operation does to the payloads\<close>

lemma commit_cases:
  assumes "commit_staging i fresh moved name n digest d = (d', r)"
  obtains (refused) e where "d' = d" "r = Inl e"
  | (stored) bytes t where
      "map_of (pd_staging d) name = Some (Regular bytes, t)" "int (length bytes) = n"
      "map_of (pd_payloads d) fresh = None" "payload_path_ok fresh"
      "d' = d\<lparr>pd_payloads := AList.update fresh (Regular bytes) (pd_payloads d),
              pd_staging := AList.delete name (pd_staging d)\<rparr>"
      "r = Inr \<lparr>py_id = fresh, py_size = n, py_sha = digest\<rparr>"
proof -
  have "(d' = d \<and> (\<exists>e. r = Inl e)) \<or>
    (\<exists>bytes t. map_of (pd_staging d) name = Some (Regular bytes, t) \<and> int (length bytes) = n \<and>
      map_of (pd_payloads d) fresh = None \<and> payload_path_ok fresh \<and>
      d' = d\<lparr>pd_payloads := AList.update fresh (Regular bytes) (pd_payloads d),
              pd_staging := AList.delete name (pd_staging d)\<rparr> \<and>
      r = Inr \<lparr>py_id = fresh, py_size = n, py_sha = digest\<rparr>)"
    using assms unfolding commit_staging_def
    by (simp split: if_split_asm option.split_asm prod.split_asm leaf.split_asm del: map_of_eq_Some_iff)
      (elim conjE; hypsubst?; simp)+
  then show thesis using refused stored by blast
qed

lemma payload_ok_unlink [simp]:
  "payload_dir_ok d \<Longrightarrow> payload_dir_ok (unlink_payload busy pid d)"
  "payload_dir_ok d \<Longrightarrow> payload_dir_ok (remove_payload busy pid d)"
  by (simp_all add: payload_dir_ok_def unlink_payload_def remove_payload_def)

lemma payload_ok_prune [simp]:
  "payload_dir_ok d \<Longrightarrow> payload_dir_ok (fst (prune_staging_files busy now d))"
  "payload_dir_ok d \<Longrightarrow> payload_dir_ok (fst (prune_unreferenced_payloads busy refs d))"
  by (simp_all add: payload_dir_ok_def prune_staging_files_def prune_unreferenced_payloads_def Let_def)

lemma payload_ok_commit:
  assumes "commit_staging i fresh moved name n digest d = (d', r)" and "payload_dir_ok d"
  shows "payload_dir_ok d'"
  using assms(1) by (cases rule: commit_cases) (use assms(2) in \<open>simp_all add: payload_dir_ok_def\<close>)

lemma payload_ok_staging [simp]:
  "payload_dir_ok d \<Longrightarrow> payload_dir_ok (fst (open_private_staging i now name d))"
  "payload_dir_ok d \<Longrightarrow> payload_dir_ok (write_staging now name bytes d)"
  by (simp_all add: payload_dir_ok_def open_private_staging_def write_staging_def split: option.split leaf.split)

lemma map_of_prune_unreferenced:
  "payload_dir_ok d \<Longrightarrow>
   map_of (pd_payloads (fst (prune_unreferenced_payloads busy refs d))) pid =
     (if pid \<in> set refs \<or> busy pid then map_of (pd_payloads d) pid else None)"
  by (auto simp: prune_unreferenced_payloads_def payload_dir_ok_def map_of_sweep Let_def split: option.split)

lemma payloads_prune_staging [simp]:
  "pd_payloads (fst (prune_staging_files busy now d)) = pd_payloads d"
  by (simp add: prune_staging_files_def Let_def)

lemma payloads_staging_ops [simp]:
  "pd_payloads (fst (open_private_staging i now name d)) = pd_payloads d"
  "pd_payloads (write_staging now name bytes d) = pd_payloads d"
  by (auto simp: open_private_staging_def write_staging_def split: option.split leaf.split)

lemma open_payload_cong:
  "map_of (pd_payloads d) pid = map_of (pd_payloads d') pid \<Longrightarrow>
   open_payload sha pid n digest d = open_payload sha pid n digest d'"
  by (simp add: open_payload_def)

lemma open_payload_Inr:
  "open_payload sha pid n digest d = Inr bytes \<longleftrightarrow>
   payload_path_ok pid \<and> map_of (pd_payloads d) pid = Some (Regular bytes) \<and>
   int (length bytes) = n \<and> sha bytes = digest"
  by (auto simp: open_payload_def split: option.splits leaf.splits)

section \<open>A registry that references payloads\<close>

locale payload_client =
  fixes promised :: "'r \<Rightarrow> payload_descriptor set"
    and referenced :: "'r \<Rightarrow> ustr list"
  assumes promised_referenced: "p \<in> promised r \<Longrightarrow> py_id p \<in> set (referenced r)"
begin

definition backed :: "(octets \<Rightarrow> ustr) \<Rightarrow> 'r \<Rightarrow> payload_dir \<Rightarrow> bool" where
  "backed sha r d \<longleftrightarrow>
     (\<forall>p \<in> promised r. \<exists>bytes. open_payload sha (py_id p) (py_size p) (py_sha p) d = Inr bytes)"

lemma backed_open:
  assumes "backed sha r d" and "p \<in> promised r"
  obtains bytes where "open_payload sha (py_id p) (py_size p) (py_sha p) d = Inr bytes"
  using assms unfolding backed_def by blast

lemma backed_frame:
  assumes "backed sha r d"
    and "\<And>p. p \<in> promised r \<Longrightarrow> map_of (pd_payloads d') (py_id p) = map_of (pd_payloads d) (py_id p)"
  shows "backed sha r d'"
  unfolding backed_def
proof
  fix p assume p: "p \<in> promised r"
  then have "open_payload sha (py_id p) (py_size p) (py_sha p) d' = open_payload sha (py_id p) (py_size p) (py_sha p) d"
    by (intro open_payload_cong assms(2))
  with assms(1) p show "\<exists>bytes. open_payload sha (py_id p) (py_size p) (py_sha p) d' = Inr bytes"
    by (simp add: backed_def)
qed

lemma backed_mono: "backed sha r d \<Longrightarrow> promised r' \<subseteq> promised r \<Longrightarrow> backed sha r' d"
  unfolding backed_def by blast

lemma backed_prune:
  assumes "backed sha r d" and "payload_dir_ok d"
  shows "backed sha r (fst (prune_unreferenced_payloads busy (referenced r) d))"
  by (rule backed_frame [OF assms(1)]) (simp add: map_of_prune_unreferenced assms(2) promised_referenced)

lemma backed_prune_staging: "backed sha r d \<Longrightarrow> backed sha r (fst (prune_staging_files busy now d))"
  by (erule backed_frame) simp

lemma backed_unlink:
  assumes "backed sha r d" and "\<And>p. p \<in> promised r \<Longrightarrow> py_id p \<noteq> pid"
  shows "backed sha r (unlink_payload busy pid d)" and "backed sha r (remove_payload busy pid d)"
proof -
  show u: "backed sha r (unlink_payload busy pid d)"
    by (rule backed_frame [OF assms(1)]) (use assms(2) in \<open>auto simp: unlink_payload_def\<close>)
  show "backed sha r (remove_payload busy pid d)"
    using u assms(1) by (simp add: remove_payload_def)
qed

lemma backed_commit:
  assumes "backed sha r d" and c: "commit_staging i fresh moved name n digest d = (d', res)"
  shows "backed sha r d'"
  using c
proof (cases rule: commit_cases)
  case (refused e)
  with assms(1) show ?thesis by simp
next
  case (stored bytes t)
  have "py_id p \<noteq> fresh" if "p \<in> promised r" for p
    using backed_open [OF assms(1) that] stored(3) by (metis open_payload_Inr option.distinct(1))
  then show ?thesis
    by (intro backed_frame [OF assms(1)]) (auto simp: stored(5))
qed

lemma backed_new:
  assumes "backed sha r d" and "open_payload sha (py_id q) (py_size q) (py_sha q) d = Inr bytes"
    and "promised r' \<subseteq> insert q (promised r)"
  shows "backed sha r' d"
  using assms unfolding backed_def by blast

end

end
