(* ===== verification/File_Links.thy ===== *)
theory File_Links
  imports Payload_Store
begin

text \<open>
  Public file links: their durable store, \<open>src/src/workgate/control/download_store.py\<close>, and the
  operations on it, \<open>src/src/workgate/control/downloads.py\<close>.

  The store is two files, the primary and its backup, each a \<open>links_cell\<close>: the decoded object with
  its version, or a file that is missing or cannot be read or decoded. Loading and saving validate
  every row. A save is an \<open>unlink\<close> of the backup and two atomic writes; \<open>store_faults\<close> says how these
  end. A process that dies during a save leaves the files as one of the failing outcomes does.

  One call of an operation is one transaction under the store's lock. Its clock readings are one
  reading \<open>now\<close>. A bearer token is known by its digest. \<open>base_name\<close> is \<open>remote_path_name\<close>, and the
  media type that \<open>mimetypes\<close> guesses is an argument.
\<close>

section \<open>Durable rows\<close>

record file_link =
  lk_link_id :: ustr
  lk_token_sha :: ustr
  lk_fingerprint :: ustr
  lk_payload_id :: ustr
  lk_display_path :: "ustr option"
  lk_filename :: ustr
  lk_inline :: bool
  lk_media_type :: ustr
  lk_bytes :: int
  lk_sha :: ustr
  lk_created_at :: time
  lk_expires_at :: time
  lk_downloads :: int
  lk_max_downloads :: int
  lk_session_id :: "ustr option"
  lk_last_download_at :: "time option"

type_synonym links = "(ustr, file_link) dict"

definition payload_id_ok :: "ustr \<Rightarrow> bool" where
  "payload_id_ok = opaque_id (lit ''payload_'') 22 128"

definition link_id_ok :: "ustr \<Rightarrow> bool" where
  "link_id_ok = opaque_id (lit ''link_'') 22 128"

definition sha256_ok :: "ustr \<Rightarrow> bool" where
  "sha256_ok s \<longleftrightarrow> length s = 64 \<and> list_all is_hex s"

definition link_ok :: "file_link \<Rightarrow> bool" where
  "link_ok l \<longleftrightarrow>
     link_id_ok (lk_link_id l) \<and> sha256_ok (lk_token_sha l) \<and>
     lk_fingerprint l = take 16 (lk_token_sha l) \<and> payload_id_ok (lk_payload_id l) \<and>
     lk_filename l \<noteq> [] \<and> lk_media_type l \<noteq> [] \<and> 0 \<le> lk_bytes l \<and> sha256_ok (lk_sha l) \<and>
     0 \<le> lk_created_at l \<and> lk_created_at l < lk_expires_at l \<and>
     0 \<le> lk_downloads l \<and> 0 \<le> lk_max_downloads l \<and>
     (0 < lk_max_downloads l \<longrightarrow> lk_downloads l \<le> lk_max_downloads l) \<and>
     (case lk_session_id l of None \<Rightarrow> True | Some s \<Rightarrow> session_id_ok s) \<and>
     (case lk_last_download_at l of None \<Rightarrow> True | Some t \<Rightarrow> 0 \<le> t)"

definition links_ok :: "links \<Rightarrow> bool" where
  "links_ok ls \<longleftrightarrow>
     dict_ok ls \<and> list_all (\<lambda>(k, l). link_id_ok k \<and> link_ok l \<and> k = lk_link_id l) ls"

section \<open>The two files\<close>

datatype links_cell = LinksAbsent | LinksUnreadable | LinksDoc int links

record link_files =
  lf_primary :: links_cell
  lf_backup :: links_cell

record store_faults =
  ft_unlinked :: bool
  ft_primary :: outcome
  ft_backup :: outcome

definition link_store_version :: int where
  "link_store_version = 3"

definition no_faults :: store_faults where
  "no_faults = \<lparr>ft_unlinked = True, ft_primary = Landed, ft_backup = Landed\<rparr>"

definition load_links_file :: "links_cell \<Rightarrow> exn + links" where
  "load_links_file c =
     (case c of
        LinksDoc v ls \<Rightarrow> if v = link_store_version \<and> links_ok ls then Inr ls else Inl ValueError
      | LinksUnreadable \<Rightarrow> Inl ValueError
      | LinksAbsent \<Rightarrow> Inl OSError)"

text \<open>\<open>json.dumps(..., sort_keys=True)\<close> of the validated store\<close>

definition serialize_current_store :: "links \<Rightarrow> exn + links" where
  "serialize_current_store ls = (if links_ok ls then Inr (sort_key fst ls) else Inl ValueError)"

definition put_backup :: "outcome \<Rightarrow> links \<Rightarrow> link_files \<Rightarrow> link_files" where
  "put_backup w doc f = (if lands w then f\<lparr>lf_backup := LinksDoc link_store_version doc\<rparr> else f)"

definition save_locked :: "store_faults \<Rightarrow> links \<Rightarrow> link_files \<Rightarrow> link_files \<times> (exn + unit)" where
  "save_locked ft ls f =
     (case serialize_current_store ls of
        Inl e \<Rightarrow> (f, Inl e)
      | Inr doc \<Rightarrow>
          if \<not> ft_unlinked ft then (f, Inl RuntimeError)
          else let f1 = f\<lparr>lf_backup := LinksAbsent\<rparr>;
                   f2 = (if lands (ft_primary ft) then f1\<lparr>lf_primary := LinksDoc link_store_version doc\<rparr> else f1)
               in if \<not> reports (ft_primary ft) then (f2, Inl OSError)
                  else (put_backup (ft_backup ft) doc f2, Inr ()))"

definition dict_equal :: "('k, 'v) dict \<Rightarrow> ('k, 'v) dict \<Rightarrow> bool" where
  "dict_equal a b \<longleftrightarrow>
     list_all (\<lambda>(k, v). map_of b k = Some v) a \<and> list_all (\<lambda>(k, v). map_of a k = Some v) b"

definition backup_matches_current_store :: "links \<Rightarrow> link_files \<Rightarrow> bool" where
  "backup_matches_current_store ls f \<longleftrightarrow>
     lf_backup f = LinksAbsent \<or>
     (case load_links_file (lf_backup f) of Inl _ \<Rightarrow> False | Inr b \<Rightarrow> dict_equal b ls)"

definition refresh_unsafe_backup :: "store_faults \<Rightarrow> links \<Rightarrow> link_files \<Rightarrow> link_files \<times> (exn + unit)" where
  "refresh_unsafe_backup ft ls f =
     (case serialize_current_store ls of
        Inl e \<Rightarrow> (f, Inl e)
      | Inr doc \<Rightarrow>
          if \<not> ft_unlinked ft then (f, Inl RuntimeError)
          else (put_backup (ft_backup ft) doc (f\<lparr>lf_backup := LinksAbsent\<rparr>), Inr ()))"

definition restore_primary_from_backup ::
  "store_faults \<Rightarrow> links \<Rightarrow> link_files \<Rightarrow> link_files \<times> (exn + unit)" where
  "restore_primary_from_backup ft ls f =
     (case serialize_current_store ls of
        Inl e \<Rightarrow> (f, Inl e)
      | Inr doc \<Rightarrow>
          (if lands (ft_primary ft) then f\<lparr>lf_primary := LinksDoc link_store_version doc\<rparr> else f,
           if reports (ft_primary ft) then Inr () else Inl OSError))"

definition load_locked :: "store_faults \<Rightarrow> link_files \<Rightarrow> link_files \<times> (exn + links)" where
  "load_locked ft f =
     (if lf_primary f = LinksAbsent \<and> lf_backup f = LinksAbsent then (f, Inr [])
      else case load_links_file (lf_primary f) of
             Inr current \<Rightarrow>
               if backup_matches_current_store current f then (f, Inr current)
               else (case refresh_unsafe_backup ft current f of
                       (f', Inl e) \<Rightarrow> (f', Inl e)
                     | (f', Inr _) \<Rightarrow> (f', Inr current))
           | Inl _ \<Rightarrow>
               (case load_links_file (lf_backup f) of
                  Inl _ \<Rightarrow> (f, Inl RuntimeError)
                | Inr loaded \<Rightarrow>
                    (case restore_primary_from_backup ft loaded f of
                       (f', Inl e) \<Rightarrow> (f', Inl e)
                     | (f', Inr _) \<Rightarrow> (f', Inr loaded))))"

section \<open>Pruning\<close>

record link_store =
  ls_files :: link_files
  ls_payloads :: payload_dir

definition link_spent :: "file_link \<Rightarrow> bool" where
  "link_spent l \<longleftrightarrow> 0 < lk_max_downloads l \<and> lk_max_downloads l \<le> lk_downloads l"

definition link_stale :: "time \<Rightarrow> file_link \<Rightarrow> bool" where
  "link_stale now l \<longleftrightarrow> \<not> payload_path_ok (lk_payload_id l) \<or> lk_expires_at l \<le> now \<or> link_spent l"

definition prune_locked ::
  "(ustr \<Rightarrow> bool) \<Rightarrow> time \<Rightarrow> ustr option \<Rightarrow> links \<Rightarrow> payload_dir \<Rightarrow> links \<times> payload_dir \<times> bool" where
  "prune_locked busy now exclude ls d =
     (let gone = (\<lambda>k l. Some k \<noteq> exclude \<and> link_stale now l);
          (d', staged) = prune_staging_files busy now d
      in (dict_sweep gone ls, d', list_ex (\<lambda>(k, l). gone k l) ls \<or> staged))"

definition link_references :: "links \<Rightarrow> ustr list" where
  "link_references ls = map lk_payload_id (dict_values ls)"

definition cleanup_unreferenced_payloads_locked ::
  "(ustr \<Rightarrow> bool) \<Rightarrow> links \<Rightarrow> payload_dir \<Rightarrow> payload_dir" where
  "cleanup_unreferenced_payloads_locked busy ls d = fst (prune_unreferenced_payloads busy (link_references ls) d)"

text \<open>\<open>save_locked\<close> followed by the cleanup that every caller runs after it.\<close>

definition save_and_cleanup ::
  "store_faults \<Rightarrow> (ustr \<Rightarrow> bool) \<Rightarrow> links \<Rightarrow> link_store \<Rightarrow> link_store \<times> (exn + unit)" where
  "save_and_cleanup ft busy ls s =
     (case save_locked ft ls (ls_files s) of
        (f, Inl e) \<Rightarrow> (s\<lparr>ls_files := f\<rparr>, Inl e)
      | (f, Inr _) \<Rightarrow>
          (s\<lparr>ls_files := f, ls_payloads := cleanup_unreferenced_payloads_locked busy ls (ls_payloads s)\<rparr>, Inr ()))"

text \<open>\<open>transaction()\<close> followed by the cleanup that every operation starts with.\<close>

definition begin_transaction ::
  "store_faults \<Rightarrow> (ustr \<Rightarrow> bool) \<Rightarrow> link_store \<Rightarrow> link_store \<times> (exn + links)" where
  "begin_transaction ft busy s =
     (case load_locked ft (ls_files s) of
        (f, Inl e) \<Rightarrow> (s\<lparr>ls_files := f\<rparr>, Inl e)
      | (f, Inr ls) \<Rightarrow>
          (s\<lparr>ls_files := f, ls_payloads := cleanup_unreferenced_payloads_locked busy ls (ls_payloads s)\<rparr>, Inr ls))"

section \<open>Registering a snapshot\<close>

record link_config =
  cf_enabled :: bool
  cf_default_ttl :: int
  cf_max_ttl :: int
  cf_default_max_downloads :: int
  cf_max_file_bytes :: int

record snapshot =
  sn_staging :: ustr
  sn_display_path :: ustr
  sn_source_name :: ustr
  sn_size :: int
  sn_sha :: ustr

definition assert_shareable_size :: "int \<Rightarrow> int \<Rightarrow> exn + unit" where
  "assert_shareable_size maximum n =
     (if n < 0 then Inl ValueError else if 0 < maximum \<and> maximum < n then Inl ValueError else Inr ())"

definition coerce_download_ttl :: "link_config \<Rightarrow> int option \<Rightarrow> exn + int" where
  "coerce_download_ttl cf ttl =
     (let requested = (case ttl of None \<Rightarrow> cf_default_ttl cf | Some t \<Rightarrow> t)
      in if requested \<le> 0 then Inl ValueError else Inr (min requested (cf_max_ttl cf)))"

definition coerce_max_downloads :: "link_config \<Rightarrow> int option \<Rightarrow> exn + int" where
  "coerce_max_downloads cf m =
     (let requested = (case m of None \<Rightarrow> cf_default_max_downloads cf | Some n \<Rightarrow> n)
      in if requested < 0 then Inl ValueError else Inr requested)"

definition safe_download_filename :: "(ustr \<Rightarrow> ustr) \<Rightarrow> ustr option \<Rightarrow> ustr \<Rightarrow> ustr" where
  "safe_download_filename base_name filename source =
     (let candidate = (case filename of Some f \<Rightarrow> if f \<noteq> [] then f else base_name source | None \<Rightarrow> base_name source);
          flat = map (\<lambda>c. if c = 47 \<or> c = 92 then 95 else c) candidate;
          plain = filter (\<lambda>c. 32 \<le> c \<and> c \<noteq> 127) (py_strip flat)
      in if take 255 plain = [] then lit ''download'' else take 255 plain)"

record link_request =
  rq_ttl :: "int option"
  rq_filename :: "ustr option"
  rq_max_downloads :: "int option"
  rq_inline :: bool
  rq_session_id :: "ustr option"

text \<open>
  What the random source and the environment contribute to one registration: the digest of the
  token, the two identities, the guessed media type, whether the move of the staging file works, and
  whether the process dies instead of handling an exception.
\<close>

record link_draws =
  dr_token_sha :: ustr
  dr_link_id :: ustr
  dr_payload_id :: ustr
  dr_media_type :: ustr
  dr_moved :: bool
  dr_dies :: bool

definition link_row ::
  "link_config \<Rightarrow> (ustr \<Rightarrow> ustr) \<Rightarrow> time \<Rightarrow> snapshot \<Rightarrow> link_request \<Rightarrow> link_draws \<Rightarrow> exn + file_link" where
  "link_row cf base_name now sn rq dr =
     (case coerce_download_ttl cf (rq_ttl rq) of
        Inl e \<Rightarrow> Inl e
      | Inr ttl \<Rightarrow>
          (case coerce_max_downloads cf (rq_max_downloads rq) of
             Inl e \<Rightarrow> Inl e
           | Inr m \<Rightarrow>
               Inr \<lparr>lk_link_id = dr_link_id dr, lk_token_sha = dr_token_sha dr,
                 lk_fingerprint = take 16 (dr_token_sha dr), lk_payload_id = dr_payload_id dr,
                 lk_display_path = Some (sn_display_path sn),
                 lk_filename = safe_download_filename base_name (rq_filename rq) (sn_source_name sn),
                 lk_inline = rq_inline rq, lk_media_type = dr_media_type dr, lk_bytes = sn_size sn,
                 lk_sha = sn_sha sn, lk_created_at = now, lk_expires_at = now + of_int ttl,
                 lk_downloads = 0, lk_max_downloads = m, lk_session_id = rq_session_id rq,
                 lk_last_download_at = None\<rparr>))"

text \<open>The body of the transaction: the state, and the row or the error with the payload committed so far.\<close>

definition register_body ::
  "link_config \<Rightarrow> (ustr \<Rightarrow> ustr) \<Rightarrow> store_faults \<Rightarrow> store_faults \<Rightarrow> (ustr \<Rightarrow> bool) \<Rightarrow> time \<Rightarrow> snapshot \<Rightarrow>
   link_request \<Rightarrow> link_draws \<Rightarrow> link_store \<Rightarrow> link_store \<times> (exn \<times> bool + file_link)" where
  "register_body cf base_name lft sft busy now sn rq dr s =
     (case begin_transaction lft busy s of
        (s, Inl e) \<Rightarrow> (s, Inl (e, False))
      | (s, Inr ls) \<Rightarrow>
          (case prune_locked busy now None ls (ls_payloads s) of
             (ls, d, _) \<Rightarrow>
               (case commit_staging True (dr_payload_id dr) (dr_moved dr) (sn_staging sn) (sn_size sn) (sn_sha sn) d of
                  (d, Inl e) \<Rightarrow> (s\<lparr>ls_payloads := d\<rparr>, Inl (e, False))
                | (d, Inr _) \<Rightarrow>
                    (case link_row cf base_name now sn rq dr of
                       Inl e \<Rightarrow> (s\<lparr>ls_payloads := d\<rparr>, Inl (e, True))
                     | Inr l \<Rightarrow>
                         (case save_and_cleanup sft busy (AList.update (dr_link_id dr) l ls) (s\<lparr>ls_payloads := d\<rparr>) of
                            (s, Inl e) \<Rightarrow> (s, Inl (e, True))
                          | (s, Inr _) \<Rightarrow> (s, Inr l))))))"

definition unlink_staging :: "(ustr \<Rightarrow> bool) \<Rightarrow> ustr \<Rightarrow> payload_dir \<Rightarrow> payload_dir" where
  "unlink_staging busy name d =
     (if busy name then d else d\<lparr>pd_staging := AList.delete name (pd_staging d)\<rparr>)"

definition register_snapshot ::
  "link_config \<Rightarrow> (ustr \<Rightarrow> ustr) \<Rightarrow> store_faults \<Rightarrow> store_faults \<Rightarrow> (ustr \<Rightarrow> bool) \<Rightarrow> time \<Rightarrow> snapshot \<Rightarrow>
   link_request \<Rightarrow> link_draws \<Rightarrow> link_store \<Rightarrow> link_store \<times> (exn + file_link)" where
  "register_snapshot cf base_name lft sft busy now sn rq dr s =
     (case register_body cf base_name lft sft busy now sn rq dr s of
        (s, Inr l) \<Rightarrow> (s\<lparr>ls_payloads := unlink_staging busy (sn_staging sn) (ls_payloads s)\<rparr>, Inr l)
      | (s, Inl (e, committed)) \<Rightarrow>
          if dr_dies dr then (s, Inl e)
          else let d = (if committed then remove_payload busy (dr_payload_id dr) (ls_payloads s) else ls_payloads s)
               in (s\<lparr>ls_payloads := unlink_staging busy (sn_staging sn) d\<rparr>,
                   Inl (if busy (sn_staging sn) then OSError else e)))"

section \<open>Listing and revoking\<close>

record link_summary =
  su_link_id :: ustr
  su_fingerprint :: ustr
  su_path :: "ustr option"
  su_filename :: ustr
  su_inline :: bool
  su_media_type :: ustr
  su_bytes :: int
  su_created_at :: time
  su_expires_at :: time
  su_ttl_remaining :: int
  su_downloads :: int
  su_max_downloads :: int

definition download_link_summary :: "time \<Rightarrow> ustr \<Rightarrow> file_link \<Rightarrow> link_summary" where
  "download_link_summary now k l =
     \<lparr>su_link_id = k, su_fingerprint = lk_fingerprint l, su_path = lk_display_path l,
      su_filename = lk_filename l, su_inline = lk_inline l, su_media_type = lk_media_type l,
      su_bytes = lk_bytes l, su_created_at = lk_created_at l, su_expires_at = lk_expires_at l,
      su_ttl_remaining = max 0 \<lfloor>lk_expires_at l - now\<rfloor>, su_downloads = lk_downloads l,
      su_max_downloads = lk_max_downloads l\<rparr>"

definition owns_link :: "ustr option \<Rightarrow> file_link \<Rightarrow> bool" where
  "owns_link session l \<longleftrightarrow> session = None \<or> lk_session_id l = session"

definition list_file_links_owned ::
  "store_faults \<Rightarrow> store_faults \<Rightarrow> (ustr \<Rightarrow> bool) \<Rightarrow> time \<Rightarrow> bool \<Rightarrow> ustr option \<Rightarrow> link_store \<Rightarrow>
   link_store \<times> (exn + link_summary list)" where
  "list_file_links_owned lft sft busy now include_expired session s =
     (case begin_transaction lft busy s of
        (s, Inl e) \<Rightarrow> (s, Inl e)
      | (s, Inr ls) \<Rightarrow>
          (let (ls, d, changed) = (if include_expired then (ls, ls_payloads s, False)
                                   else prune_locked busy now None ls (ls_payloads s));
               s = s\<lparr>ls_payloads := d\<rparr>;
               found = map (\<lambda>(k, l). download_link_summary now k l) (filter (\<lambda>(k, l). owns_link session l) ls);
               shown = sort_key (\<lambda>u. - su_created_at u) found
           in if changed
              then (case save_and_cleanup sft busy ls s of (s, Inl e) \<Rightarrow> (s, Inl e) | (s, Inr _) \<Rightarrow> (s, Inr shown))
              else (s, Inr shown)))"

definition revoke_file_link_owned ::
  "store_faults \<Rightarrow> store_faults \<Rightarrow> (ustr \<Rightarrow> bool) \<Rightarrow> ustr \<Rightarrow> ustr option \<Rightarrow> link_store \<Rightarrow>
   link_store \<times> (exn + bool)" where
  "revoke_file_link_owned lft sft busy k session s =
     (case begin_transaction lft busy s of
        (s, Inl e) \<Rightarrow> (s, Inl e)
      | (s, Inr ls) \<Rightarrow>
          (case map_of ls k of
             None \<Rightarrow> (s, Inr False)
           | Some l \<Rightarrow>
               if \<not> owns_link session l then (s, Inr False)
               else (case save_and_cleanup sft busy (AList.delete k ls) s of
                       (s, Inl e) \<Rightarrow> (s, Inl e)
                     | (s, Inr _) \<Rightarrow> (s, Inr True))))"

section \<open>Claiming a download\<close>

record claimed_download =
  cd_content :: octets
  cd_link :: file_link
  cd_remove :: bool

datatype claim_status =
    DownloadDisabled
  | DownloadNotFound
  | DownloadExpired
  | DownloadExhausted
  | DownloadTooLarge
  | DownloadMissing
  | DownloadStoreUnavailable

definition status_code :: "claim_status \<Rightarrow> nat" where
  "status_code c =
     (case c of
        DownloadDisabled \<Rightarrow> 404 | DownloadNotFound \<Rightarrow> 404 | DownloadExpired \<Rightarrow> 410 | DownloadExhausted \<Rightarrow> 410
      | DownloadTooLarge \<Rightarrow> 403 | DownloadMissing \<Rightarrow> 404 | DownloadStoreUnavailable \<Rightarrow> 500)"

text \<open>\<open>ClaimRaised\<close> is the \<open>ValueError\<close> that the handler does not catch.\<close>

datatype claim_result = Claimed claimed_download | Refused claim_status | ClaimRaised

definition link_for_token :: "ustr \<Rightarrow> links \<Rightarrow> (ustr \<times> file_link) option" where
  "link_for_token digest ls = find (\<lambda>(k, l). lk_token_sha l = digest) ls"

definition claim_error :: "exn \<Rightarrow> claim_result" where
  "claim_error e = (if e = ValueError then ClaimRaised else Refused DownloadStoreUnavailable)"

text \<open>The branches that drop the link they found.\<close>

definition drop_link ::
  "store_faults \<Rightarrow> (ustr \<Rightarrow> bool) \<Rightarrow> ustr \<Rightarrow> links \<Rightarrow> claim_status \<Rightarrow> link_store \<Rightarrow> link_store \<times> claim_result" where
  "drop_link sft busy k ls status s =
     (case save_and_cleanup sft busy (AList.delete k ls) s of
        (s, Inl e) \<Rightarrow> (s, claim_error e)
      | (s, Inr _) \<Rightarrow> (s, Refused status))"

definition open_snapshot :: "(octets \<Rightarrow> ustr) \<Rightarrow> file_link \<Rightarrow> payload_dir \<Rightarrow> exn + octets" where
  "open_snapshot sha l d = open_payload sha (lk_payload_id l) (lk_bytes l) (lk_sha l) d"

definition count_download :: "time \<Rightarrow> file_link \<Rightarrow> file_link" where
  "count_download now l = l\<lparr>lk_downloads := lk_downloads l + 1, lk_last_download_at := Some now\<rparr>"

text \<open>The tail of a claim whose snapshot is open.\<close>

definition grant_claim ::
  "store_faults \<Rightarrow> (ustr \<Rightarrow> bool) \<Rightarrow> time \<Rightarrow> bool \<Rightarrow> ustr \<Rightarrow> file_link \<Rightarrow> octets \<Rightarrow> links \<Rightarrow> link_store \<Rightarrow>
   link_store \<times> claim_result" where
  "grant_claim sft busy now consume k l bytes ls s =
     (let l' = (if consume then count_download now l else l);
          (ls, d, pruned) = prune_locked busy now (Some k) (AList.update k l' ls) (ls_payloads s);
          s = s\<lparr>ls_payloads := d\<rparr>;
          granted = Claimed \<lparr>cd_content = bytes, cd_link = l',
                      cd_remove = consume \<and> 0 < lk_max_downloads l \<and> lk_max_downloads l \<le> lk_downloads l + 1\<rparr>
      in if consume \<or> pruned
         then (case save_and_cleanup sft busy ls s of
                 (s, Inl e) \<Rightarrow> (s, claim_error e)
               | (s, Inr _) \<Rightarrow> (s, granted))
         else (s, granted))"

definition claim_download ::
  "(octets \<Rightarrow> ustr) \<Rightarrow> link_config \<Rightarrow> store_faults \<Rightarrow> store_faults \<Rightarrow> (ustr \<Rightarrow> bool) \<Rightarrow> time \<Rightarrow> ustr \<Rightarrow> bool \<Rightarrow>
   link_store \<Rightarrow> link_store \<times> claim_result" where
  "claim_download sha cf lft sft busy now digest consume s =
     (if \<not> cf_enabled cf then (s, Refused DownloadDisabled)
      else case begin_transaction lft busy s of
             (s, Inl e) \<Rightarrow> (s, claim_error e)
           | (s, Inr ls) \<Rightarrow>
               (case link_for_token digest ls of
                  None \<Rightarrow>
                    (case prune_locked busy now None ls (ls_payloads s) of
                       (ls, d, changed) \<Rightarrow>
                         if changed
                         then (case save_and_cleanup sft busy ls (s\<lparr>ls_payloads := d\<rparr>) of
                                 (s, Inl e) \<Rightarrow> (s, claim_error e)
                               | (s, Inr _) \<Rightarrow> (s, Refused DownloadNotFound))
                         else (s\<lparr>ls_payloads := d\<rparr>, Refused DownloadNotFound))
                | Some (k, l) \<Rightarrow>
                    if lk_expires_at l \<le> now then drop_link sft busy k ls DownloadExpired s
                    else if link_spent l then drop_link sft busy k ls DownloadExhausted s
                    else if 0 < cf_max_file_bytes cf \<and> cf_max_file_bytes cf < lk_bytes l
                    then (s, Refused DownloadTooLarge)
                    else (case open_snapshot sha l (ls_payloads s) of
                            Inl _ \<Rightarrow> drop_link sft busy k ls DownloadMissing s
                          | Inr bytes \<Rightarrow> grant_claim sft busy now consume k l bytes ls s)))"

text \<open>\<open>release_claim\<close>: the payload goes once the last allowed response is complete.\<close>

definition release_claim :: "(ustr \<Rightarrow> bool) \<Rightarrow> claimed_download \<Rightarrow> link_store \<Rightarrow> link_store" where
  "release_claim busy c s =
     (if cd_remove c then s\<lparr>ls_payloads := unlink_payload busy (lk_payload_id (cd_link c)) (ls_payloads s)\<rparr> else s)"

end
