(* ===== verification/Link_Safety.thy ===== *)
theory Link_Safety
  imports File_Links
begin

text \<open>
  Safety of public file links over any run of transactions, failed or interrupted saves, damaged
  store files and completed responses.

  What the store shows, \<open>loaded\<close>, is the content of the primary, or of the backup when the primary
  cannot be read. A save removes the backup before it replaces the primary, so the two never disagree
  (\<open>agree\<close>), and losing either file shows the newest rows or none: a count or a revocation is never
  undone. An operation other than a registration only drops rows or counts downloads (\<open>shrinks\<close>),
  and keeps the payload of every row that can still be served.
\<close>

section \<open>What the two files show\<close>

definition loaded :: "link_files \<Rightarrow> links" where
  "loaded f =
     (case load_links_file (lf_primary f) of
        Inr ls \<Rightarrow> ls
      | Inl _ \<Rightarrow> (case load_links_file (lf_backup f) of Inr ls \<Rightarrow> ls | Inl _ \<Rightarrow> []))"

abbreviation view :: "link_files \<Rightarrow> ustr \<Rightarrow> file_link option" where
  "view f \<equiv> map_of (loaded f)"

definition agree :: "link_files \<Rightarrow> bool" where
  "agree f \<longleftrightarrow>
     (\<forall>p b. load_links_file (lf_primary f) = Inr p \<longrightarrow> load_links_file (lf_backup f) = Inr b \<longrightarrow>
        map_of p = map_of b)"

lemma load_links_simps [simp]:
  "load_links_file LinksAbsent = Inl OSError"
  "load_links_file LinksUnreadable = Inl ValueError"
  "load_links_file (LinksDoc link_store_version ls) = (if links_ok ls then Inr ls else Inl ValueError)"
  by (simp_all add: load_links_file_def)

lemma load_links_ok: "load_links_file c = Inr ls \<Longrightarrow> links_ok ls"
  by (auto simp: load_links_file_def split: links_cell.splits if_splits)

lemma links_ok_nil [simp]: "links_ok []"
  by (simp add: links_ok_def)

lemma links_ok_dict: "links_ok ls \<Longrightarrow> dict_ok ls"
  by (simp add: links_ok_def)

lemma loaded_ok [simp]: "links_ok (loaded f)"
  by (auto simp: loaded_def split: sum.split dest: load_links_ok)

lemma links_ok_row:
  assumes "links_ok ls" and "map_of ls k = Some l"
  shows "link_ok l" and "lk_link_id l = k" and "link_id_ok k"
  using assms map_of_SomeD [OF assms(2)] by (auto simp: links_ok_def list_all_iff)

lemma map_of_sort_key: "dict_ok d \<Longrightarrow> map_of (sort_key fst d) = map_of d"
proof (rule map_of_eqI)
  assume d: "dict_ok d"
  show "set (map fst (sort_key fst d)) = set (map fst d)" by simp
  show "\<forall>k \<in> set (map fst (sort_key fst d)). map_of (sort_key fst d) k = map_of d k"
  proof
    fix k
    have "dict_ok (sort_key fst d)" using d by (simp add: distinct_map)
    with d show "map_of (sort_key fst d) k = map_of d k"
      by (metis dict_mem_iff not_Some_eq set_sort)
  qed
qed

lemma links_ok_sort [simp]: "links_ok (sort_key fst ls) = links_ok ls"
  by (auto simp: links_ok_def list_all_iff distinct_map)

lemma serialize_Inr:
  assumes "serialize_current_store ls = Inr doc"
  shows "links_ok ls" and "links_ok doc" and "map_of doc = map_of ls"
  using assms map_of_sort_key [OF links_ok_dict] by (auto simp: serialize_current_store_def split: if_splits)

lemma dict_equal_map: "dict_ok a \<Longrightarrow> dict_ok b \<Longrightarrow> dict_equal a b \<Longrightarrow> map_of a = map_of b"
proof
  fix k assume *: "dict_ok a" "dict_ok b" "dict_equal a b"
  show "map_of a k = map_of b k"
  proof (cases "map_of a k")
    case None
    have "map_of b k = None"
    proof (rule ccontr)
      assume "map_of b k \<noteq> None"
      then obtain v where "(k, v) \<in> set b" by (meson map_of_SomeD not_Some_eq)
      with * None show False by (auto simp: dict_equal_def list_all_iff)
    qed
    with None show ?thesis by simp
  next
    case (Some v)
    then have "(k, v) \<in> set a" by (rule map_of_SomeD)
    with * Some show ?thesis by (auto simp: dict_equal_def list_all_iff)
  qed
qed

subsection \<open>Saving and loading\<close>

lemma save_view:
  assumes "save_locked ft ls f = (f', r)"
  shows "r = Inr () \<Longrightarrow> agree f' \<and> links_ok ls \<and> view f' = map_of ls"
    and "agree f \<Longrightarrow> agree f'"
    and "agree f \<Longrightarrow> view f' = view f \<or> view f' = map_of ls \<or> view f' = Map.empty"
proof -
  note def = assms [unfolded save_locked_def Let_def put_backup_def]
  have *: "(r = Inr () \<longrightarrow> agree f' \<and> links_ok ls \<and> view f' = map_of ls) \<and> (agree f \<longrightarrow> agree f') \<and>
    (agree f \<longrightarrow> view f' = view f \<or> view f' = map_of ls \<or> view f' = Map.empty)"
  proof (cases "serialize_current_store ls")
    case (Inl e)
    with def show ?thesis by auto
  next
    case (Inr doc)
    note doc = serialize_Inr [OF Inr]
    show ?thesis
    proof (cases "ft_unlinked ft")
      case True
      then show ?thesis
        using def Inr doc
        by (cases "ft_primary ft"; cases "ft_backup ft") (auto simp: agree_def loaded_def split: sum.splits)
    qed (use def Inr in auto)
  qed
  show "r = Inr () \<Longrightarrow> agree f' \<and> links_ok ls \<and> view f' = map_of ls"
    and "agree f \<Longrightarrow> agree f'"
    and "agree f \<Longrightarrow> view f' = view f \<or> view f' = map_of ls \<or> view f' = Map.empty"
    using * by blast+
qed

lemma load_view:
  assumes "load_locked ft f = (f', r)" and "agree f"
  shows "agree f'" and "view f' = view f" and "r = Inr ls \<Longrightarrow> links_ok ls \<and> map_of ls = view f"
proof -
  have *: "agree f' \<and> view f' = view f \<and> (r = Inr ls \<longrightarrow> links_ok ls \<and> map_of ls = view f)"
  proof (cases "load_links_file (lf_primary f)")
    case (Inr cur)
    note ok = load_links_ok [OF Inr]
    have v: "view f = map_of cur" by (simp add: loaded_def Inr)
    have p: "lf_primary f \<noteq> LinksAbsent" using Inr by auto
    show ?thesis
    proof (cases "backup_matches_current_store cur f")
      case True
      with assms Inr p have "f' = f" "r = Inr cur" by (auto simp: load_locked_def)
      with assms(2) v ok show ?thesis by auto
    next
      case False
      obtain doc where doc: "serialize_current_store cur = Inr doc"
        using ok by (simp add: serialize_current_store_def)
      note d = serialize_Inr [OF doc]
      have "f' = (if ft_unlinked ft then put_backup (ft_backup ft) doc (f\<lparr>lf_backup := LinksAbsent\<rparr>) else f)"
        and "r = (if ft_unlinked ft then Inr cur else Inl RuntimeError)"
        using assms(1) p by (simp_all add: load_locked_def refresh_unsafe_backup_def Inr False doc split: if_splits)
      then show ?thesis
        using assms(2) d ok v by (auto simp: put_backup_def agree_def loaded_def Inr)
    qed
  next
    case (Inl e)
    show ?thesis
    proof (cases "load_links_file (lf_backup f)")
      case (Inl e')
      then show ?thesis
        using assms \<open>load_links_file (lf_primary f) = Inl e\<close>
        by (auto simp: load_locked_def loaded_def split: if_splits)
    next
      case (Inr b)
      note ok = load_links_ok [OF Inr]
      obtain doc where doc: "serialize_current_store b = Inr doc"
        using ok by (simp add: serialize_current_store_def)
      note d = serialize_Inr [OF doc]
      have b: "lf_backup f \<noteq> LinksAbsent" using Inr by auto
      have "f' = (if lands (ft_primary ft) then f\<lparr>lf_primary := LinksDoc link_store_version doc\<rparr> else f)"
        and "r = (if reports (ft_primary ft) then Inr b else Inl OSError)"
        using assms(1) b
        by (simp_all add: load_locked_def restore_primary_from_backup_def Inl Inr doc split: if_splits)
      then show ?thesis
        using d ok Inl Inr by (auto simp: agree_def loaded_def)
    qed
  qed
  then show "agree f'" "view f' = view f" "r = Inr ls \<Longrightarrow> links_ok ls \<and> map_of ls = view f" by blast+
qed

text \<open>A store file that is lost or spoilt shows the newest rows or none.\<close>

definition spoil :: "bool \<Rightarrow> links_cell \<Rightarrow> link_files \<Rightarrow> link_files" where
  "spoil primary c f = (if primary then f\<lparr>lf_primary := c\<rparr> else f\<lparr>lf_backup := c\<rparr>)"

lemma spoil_view:
  assumes "agree f" and "c = LinksAbsent \<or> c = LinksUnreadable"
  shows "agree (spoil primary c f)"
    and "view (spoil primary c f) = view f \<or> view (spoil primary c f) = Map.empty"
  using assms by (auto simp: agree_def loaded_def spoil_def split: sum.split)

section \<open>Operations that only drop and count\<close>

definition follows :: "file_link \<Rightarrow> file_link \<Rightarrow> bool" where
  "follows l l' \<longleftrightarrow> (\<exists>n t. lk_downloads l \<le> n \<and> l' = l\<lparr>lk_downloads := n, lk_last_download_at := t\<rparr>)"

definition shrinks :: "(ustr \<Rightarrow> file_link option) \<Rightarrow> (ustr \<Rightarrow> file_link option) \<Rightarrow> bool" where
  "shrinks V V' \<longleftrightarrow> (\<forall>k l'. V' k = Some l' \<longrightarrow> (\<exists>l. V k = Some l \<and> follows l l'))"

lemma follows_refl [simp]: "follows l l"
  unfolding follows_def by (rule exI [of _ "lk_downloads l"], rule exI [of _ "lk_last_download_at l"]) simp

lemma follows_trans: "follows a b \<Longrightarrow> follows b c \<Longrightarrow> follows a c"
  unfolding follows_def by (elim exE conjE, intro exI conjI) (auto intro: order_trans)

lemma follows_count [simp]: "follows l (count_download now l)"
  by (auto simp: follows_def count_download_def intro!: exI [of _ "lk_downloads l + 1"])

lemma follows_frame:
  assumes "follows l l'"
  shows "lk_link_id l' = lk_link_id l" "lk_payload_id l' = lk_payload_id l" "lk_bytes l' = lk_bytes l"
    "lk_sha l' = lk_sha l" "lk_token_sha l' = lk_token_sha l" "lk_max_downloads l' = lk_max_downloads l"
    "lk_expires_at l' = lk_expires_at l" "lk_downloads l \<le> lk_downloads l'" "link_spent l \<Longrightarrow> link_spent l'"
  using assms by (auto simp: follows_def link_spent_def)

lemma shrinks_refl [simp]: "shrinks V V"
  by (auto simp: shrinks_def)

lemma shrinks_empty [simp]: "shrinks V Map.empty"
  by (simp add: shrinks_def)

lemma shrinks_trans: "shrinks V V' \<Longrightarrow> shrinks V' V'' \<Longrightarrow> shrinks V V''"
  unfolding shrinks_def by (meson follows_trans)

lemma shrinksE:
  assumes "shrinks V V'" and "V' k = Some l'"
  obtains l where "V k = Some l" "follows l l'"
  using assms unfolding shrinks_def by blast

lemma shrinks_pop: "shrinks V (V(k := None))"
  by (simp add: shrinks_def)

lemma shrinks_put: "V k = Some l \<Longrightarrow> follows l l' \<Longrightarrow> shrinks V (V(k \<mapsto> l'))"
  by (simp add: shrinks_def)

lemma shrinks_prune:
  assumes "dict_ok ls" and "prune_locked busy now ex ls d = (ls', d', c)"
  shows "shrinks (map_of ls) (map_of ls')" and "d' = fst (prune_staging_files busy now d)"
    and "Some k = ex \<Longrightarrow> map_of ls' k = map_of ls k"
  using assms
  by (auto simp: prune_locked_def shrinks_def map_of_sweep Let_def split: prod.splits option.splits if_splits)

subsection \<open>The payloads that the rows promise\<close>

definition descriptor :: "file_link \<Rightarrow> payload_descriptor" where
  "descriptor l = \<lparr>py_id = lk_payload_id l, py_size = lk_bytes l, py_sha = lk_sha l\<rparr>"

text \<open>Of a set of links, the rows present that still have a download left.\<close>

definition link_promises :: "ustr set \<times> links \<Rightarrow> payload_descriptor set" where
  "link_promises r = {descriptor l |k l. map_of (snd r) k = Some l \<and> k \<in> fst r \<and> \<not> link_spent l}"

definition link_protects :: "ustr set \<times> links \<Rightarrow> ustr list" where
  "link_protects r = link_references (snd r)"

interpretation link_payloads: payload_client link_promises link_protects
proof
  fix p r assume "p \<in> link_promises r"
  then obtain k l where "map_of (snd r) k = Some l" "py_id p = lk_payload_id l"
    by (auto simp: link_promises_def descriptor_def)
  then show "py_id p \<in> set (link_protects r)"
    using map_of_SomeD by (force simp: link_protects_def link_references_def)
qed

abbreviation supported :: "(octets \<Rightarrow> ustr) \<Rightarrow> ustr set \<Rightarrow> links \<Rightarrow> payload_dir \<Rightarrow> bool" where
  "supported sha K ls d \<equiv> link_payloads.backed sha (K, ls) d"

lemma promises_shrink: "shrinks (map_of ls) (map_of ls') \<Longrightarrow> link_promises (K, ls') \<subseteq> link_promises (K, ls)"
proof
  fix p assume sh: "shrinks (map_of ls) (map_of ls')" and "p \<in> link_promises (K, ls')"
  then obtain k l' where l': "map_of ls' k = Some l'" "k \<in> K" "\<not> link_spent l'" "p = descriptor l'"
    by (auto simp: link_promises_def)
  obtain l where l: "map_of ls k = Some l" "follows l l'" by (rule shrinksE [OF sh l'(1)])
  have "p = descriptor l" "\<not> link_spent l"
    using l' follows_frame [OF l(2)] by (auto simp: descriptor_def)
  with l(1) l'(2) show "p \<in> link_promises (K, ls)" by (auto simp: link_promises_def)
qed

lemma supported_shrink:
  "supported sha K ls d \<Longrightarrow> shrinks (map_of ls) (map_of ls') \<Longrightarrow> supported sha K ls' d"
  by (rule link_payloads.backed_mono) (auto dest: promises_shrink)

lemma supported_cleanup:
  assumes "supported sha K ls d" and "payload_dir_ok d"
  shows "supported sha K ls (cleanup_unreferenced_payloads_locked busy ls d)"
  using link_payloads.backed_prune [OF assms, of busy]
  by (simp add: cleanup_unreferenced_payloads_locked_def link_protects_def)

definition sound :: "link_store \<Rightarrow> bool" where
  "sound s \<longleftrightarrow> agree (ls_files s) \<and> payload_dir_ok (ls_payloads s)"

abbreviation rows :: "link_store \<Rightarrow> links" where
  "rows s \<equiv> loaded (ls_files s)"

definition calm :: "(octets \<Rightarrow> ustr) \<Rightarrow> link_store \<Rightarrow> link_store \<Rightarrow> bool" where
  "calm sha s s' \<longleftrightarrow>
     sound s \<longrightarrow> sound s' \<and> shrinks (map_of (rows s)) (map_of (rows s')) \<and>
       (\<forall>K. supported sha K (rows s) (ls_payloads s) \<longrightarrow> supported sha K (rows s') (ls_payloads s'))"

lemma calm_refl [simp]: "calm sha s s"
  by (simp add: calm_def)

lemma calm_trans [trans]: "calm sha s s' \<Longrightarrow> calm sha s' s'' \<Longrightarrow> calm sha s s''"
  unfolding calm_def using shrinks_trans by blast

lemma calm_sound: "calm sha s s' \<Longrightarrow> sound s \<Longrightarrow> sound s'"
  by (simp add: calm_def)

lemma calm_staging: "calm sha s (s\<lparr>ls_payloads := fst (prune_staging_files busy now (ls_payloads s))\<rparr>)"
  by (simp add: calm_def sound_def link_payloads.backed_prune_staging)

lemma cleanup_dir_ok [simp]:
  "payload_dir_ok d \<Longrightarrow> payload_dir_ok (cleanup_unreferenced_payloads_locked busy ls d)"
  by (simp add: cleanup_unreferenced_payloads_locked_def)

lemma begin_view:
  assumes "begin_transaction ft busy s = (s', r)" and "sound s"
  shows "sound s'" and "map_of (rows s') = map_of (rows s)"
    and "r = Inr ls \<Longrightarrow> links_ok ls \<and> map_of ls = map_of (rows s)"
    and "supported sha K (rows s) (ls_payloads s) \<Longrightarrow> supported sha K (rows s') (ls_payloads s')"
proof -
  obtain f r' where l: "load_locked ft (ls_files s) = (f, r')" by (metis surj_pair)
  note v = load_view [OF l] assms(2) [unfolded sound_def]
  have ls: "links_ok x \<and> map_of x = map_of (rows s)" if "r' = Inr x" for x
    using v that by blast
  have s': "ls_files s' = f" "ls_payloads s' = (case r' of Inl e \<Rightarrow> ls_payloads s
      | Inr x \<Rightarrow> cleanup_unreferenced_payloads_locked busy x (ls_payloads s))" "r = r'"
    using assms(1) l by (auto simp: begin_transaction_def split: sum.splits)
  show "sound s'" "map_of (rows s') = map_of (rows s)"
    using v s' by (auto simp: sound_def split: sum.split)
  show "r = Inr ls \<Longrightarrow> links_ok ls \<and> map_of ls = map_of (rows s)" using ls s' by simp
  assume b: "supported sha K (rows s) (ls_payloads s)"
  have "supported sha K (rows s) (ls_payloads s')"
  proof (cases r')
    case (Inl e)
    with s' b show ?thesis by simp
  next
    case (Inr x)
    have "supported sha K x (ls_payloads s)"
      using supported_shrink [OF b] ls [OF Inr] by simp
    then have "supported sha K x (ls_payloads s')"
      using supported_cleanup v s' Inr by simp
    then show ?thesis by (rule supported_shrink) (use ls [OF Inr] in simp)
  qed
  then show "supported sha K (rows s') (ls_payloads s')"
    by (rule supported_shrink) (use v s' in simp)
qed

lemma begin_calm: "begin_transaction ft busy s = (s', r) \<Longrightarrow> calm sha s s'"
  unfolding calm_def using begin_view by auto

lemma supported_cong: "map_of ls = map_of ls' \<Longrightarrow> supported sha K ls d = supported sha K ls' d"
  using supported_shrink [of sha K ls d ls'] supported_shrink [of sha K ls' d ls] by auto

lemma supported_empty [simp]: "map_of ls = Map.empty \<Longrightarrow> supported sha K ls d"
  by (simp add: link_payloads.backed_def link_promises_def)

lemma finish_done:
  assumes "save_and_cleanup ft busy ls s = (s', Inr ())"
  shows "links_ok ls \<and> map_of (rows s') = map_of ls"
proof -
  obtain f r' where l: "save_locked ft ls (ls_files s) = (f, r')" by (metis surj_pair)
  then have "ls_files s' = f" "r' = Inr ()"
    using assms by (auto simp: save_and_cleanup_def split: sum.splits)
  then show ?thesis using save_view(1) [OF l] by simp
qed

lemma finish_view:
  assumes "save_and_cleanup ft busy ls s = (s', r)" and so: "sound s"
  shows "sound s'"
    and "map_of (rows s') = map_of (rows s) \<or> map_of (rows s') = map_of ls \<or> map_of (rows s') = Map.empty"
    and "r = Inr () \<Longrightarrow> links_ok ls \<and> map_of (rows s') = map_of ls"
    and "supported sha K (rows s) (ls_payloads s) \<Longrightarrow> supported sha K ls (ls_payloads s) \<Longrightarrow>
      supported sha K (rows s') (ls_payloads s')"
    and "pd_payloads (ls_payloads s') = pd_payloads (ls_payloads s) \<or> r = Inr ()"
proof -
  obtain f r' where l: "save_locked ft ls (ls_files s) = (f, r')" by (metis surj_pair)
  have s': "ls_files s' = f" "ls_payloads s' = (case r' of Inl e \<Rightarrow> ls_payloads s
      | Inr _ \<Rightarrow> cleanup_unreferenced_payloads_locked busy ls (ls_payloads s))" "r = r'"
    using assms(1) l by (auto simp: save_and_cleanup_def split: sum.splits)
  have a: "agree (ls_files s)" "payload_dir_ok (ls_payloads s)" using so by (simp_all add: sound_def)
  note v = save_view [OF l]
  show "sound s'" using v(2) a s' by (auto simp: sound_def split: sum.split)
  show c: "map_of (rows s') = map_of (rows s) \<or> map_of (rows s') = map_of ls \<or> map_of (rows s') = Map.empty"
    using v(3) [OF a(1)] s' by simp
  show d: "r = Inr () \<Longrightarrow> links_ok ls \<and> map_of (rows s') = map_of ls" using finish_done assms(1) by simp
  show "pd_payloads (ls_payloads s') = pd_payloads (ls_payloads s) \<or> r = Inr ()"
    using s' by (cases r') simp_all
  assume b: "supported sha K (rows s) (ls_payloads s)" "supported sha K ls (ls_payloads s)"
  show "supported sha K (rows s') (ls_payloads s')"
  proof (cases r')
    case (Inl e)
    then have "ls_payloads s' = ls_payloads s" using s' by simp
    with b c show ?thesis by (metis supported_cong supported_empty)
  next
    case (Inr u)
    have "supported sha K ls (ls_payloads s')" using supported_cleanup b(2) a s' Inr by simp
    moreover have "map_of (rows s') = map_of ls" using d s'(3) Inr by simp
    ultimately show ?thesis using supported_cong by blast
  qed
qed

lemma finish_calm:
  assumes f: "save_and_cleanup ft busy ls s = (s', r)" and sh: "shrinks (map_of (rows s)) (map_of ls)"
  shows "calm sha s s'" and "r = Inr () \<Longrightarrow> links_ok ls \<and> map_of (rows s') = map_of ls"
proof -
  show "r = Inr () \<Longrightarrow> links_ok ls \<and> map_of (rows s') = map_of ls"
    using f finish_done by simp
  show "calm sha s s'"
    unfolding calm_def
  proof (intro impI conjI allI)
    assume so: "sound s"
    note v = finish_view [OF f so]
    show "sound s'" by (rule v(1))
    show "shrinks (map_of (rows s)) (map_of (rows s'))" using v(2) sh by auto
    show "supported sha K (rows s') (ls_payloads s')" if "supported sha K (rows s) (ls_payloads s)" for K
      by (rule v(4) [OF that supported_shrink [OF that sh]])
  qed
qed

section \<open>The operations\<close>

lemma link_for_token_Some:
  assumes "link_for_token digest ls = Some (k, l)" and "dict_ok ls"
  shows "map_of ls k = Some l" and "lk_token_sha l = digest"
  using assms by (auto simp: link_for_token_def find_Some_iff) (metis dict_mem_iff nth_mem)

lemma list_calm:
  assumes "list_file_links_owned lft sft busy now expired session s = (s', r)"
  shows "calm sha s s'"
proof -
  obtain s1 r1 where b: "begin_transaction lft busy s = (s1, r1)" by (metis surj_pair)
  show ?thesis
  proof (cases "sound s")
    case True
    note v = begin_view [OF b True]
    show ?thesis
    proof (cases r1)
      case (Inl e)
      then show ?thesis using assms b begin_calm [OF b] by (simp add: list_file_links_owned_def)
    next
      case (Inr ls)
      obtain ls' d' c where p: "prune_locked busy now None ls (ls_payloads s1) = (ls', d', c)"
        by (metis surj_pair)
      have ok: "dict_ok ls" "map_of ls = map_of (rows s1)"
        using v(2) v(3) [of ls] Inr by (auto simp: links_ok_dict)
      note sh = shrinks_prune [OF ok(1) p]
      let ?s2 = "s1\<lparr>ls_payloads := d'\<rparr>"
      have c2: "calm sha s ?s2"
        using calm_trans [OF begin_calm [OF b] calm_staging, of sha busy now] sh(2) by simp
      obtain s3 r3 where f: "save_and_cleanup sft busy ls' ?s2 = (s3, r3)" by (metis surj_pair)
      have c3: "calm sha s s3"
        by (rule calm_trans [OF c2 finish_calm(1) [OF f]]) (use sh(1) ok in simp)
      show ?thesis
        using assms b Inr p f c2 c3 begin_calm [OF b]
        by (auto simp: list_file_links_owned_def Let_def split: if_splits sum.splits)
    qed
  qed (simp add: calm_def)
qed

lemma revoke_calm:
  assumes "revoke_file_link_owned lft sft busy k session s = (s', r)"
  shows "calm sha s s'"
    and "sound s \<Longrightarrow> r = Inr True \<Longrightarrow> map_of (rows s') k = None"
    and "sound s \<Longrightarrow> r = Inr True \<Longrightarrow> \<exists>l. map_of (rows s) k = Some l \<and> owns_link session l"
proof -
  obtain s1 r1 where b: "begin_transaction lft busy s = (s1, r1)" by (metis surj_pair)
  have "calm sha s s' \<and> (sound s \<longrightarrow> r = Inr True \<longrightarrow> map_of (rows s') k = None \<and>
      (\<exists>l. map_of (rows s) k = Some l \<and> owns_link session l))"
  proof (cases "sound s")
    case True
    note v = begin_view [OF b True]
    show ?thesis
    proof (cases r1)
      case (Inl e)
      then show ?thesis using assms b begin_calm [OF b] by (auto simp: revoke_file_link_owned_def)
    next
      case (Inr ls)
      have ok: "map_of ls = map_of (rows s1)" "map_of ls = map_of (rows s)" using v(2) v(3) [of ls] Inr by auto
      obtain s2 r2 where f: "save_and_cleanup sft busy (AList.delete k ls) s1 = (s2, r2)" by (metis surj_pair)
      have sh: "shrinks (map_of (rows s1)) (map_of (AList.delete k ls))" using ok by (simp add: shrinks_pop)
      note c = calm_trans [OF begin_calm [OF b] finish_calm(1) [OF f sh]] finish_calm(2) [OF f sh]
      show ?thesis
        using assms b Inr f c begin_calm [OF b] ok
        by (auto simp: revoke_file_link_owned_def split: option.splits if_splits sum.splits)
    qed
  qed (simp add: calm_def)
  then show "calm sha s s'"
    and "sound s \<Longrightarrow> r = Inr True \<Longrightarrow> map_of (rows s') k = None"
    and "sound s \<Longrightarrow> r = Inr True \<Longrightarrow> \<exists>l. map_of (rows s) k = Some l \<and> owns_link session l" by blast+
qed

lemma claim_error_refuses [simp]: "claim_error e \<noteq> Claimed c" "Claimed c \<noteq> claim_error e"
  by (simp_all add: claim_error_def)

lemma drop_calm:
  assumes "drop_link sft busy k ls status s = (s', r)" and "map_of ls = map_of (rows s)"
  shows "calm sha s s'" and "r \<noteq> Claimed c"
proof -
  obtain s2 r2 where f: "save_and_cleanup sft busy (AList.delete k ls) s = (s2, r2)" by (metis surj_pair)
  have sh: "shrinks (map_of (rows s)) (map_of (AList.delete k ls))" using assms(2) by (simp add: shrinks_pop)
  show "calm sha s s'"
    using assms(1) f finish_calm(1) [OF f sh] by (auto simp: drop_link_def split: sum.splits)
  show "r \<noteq> Claimed c" using assms(1) by (auto simp: drop_link_def split: sum.splits prod.splits)
qed

lemma grant_calm:
  assumes "grant_claim sft busy now consume k l bytes ls s = (s', r)"
    and ls: "map_of ls = map_of (rows s)" "dict_ok ls" "map_of ls k = Some l"
  shows "calm sha s s'"
    and "r = Claimed c \<Longrightarrow> cd_content c = bytes \<and> cd_link c = (if consume then count_download now l else l) \<and>
      (cd_remove c \<longleftrightarrow> consume \<and> link_spent (count_download now l)) \<and>
      (consume \<longrightarrow> map_of (rows s') k = Some (count_download now l))"
proof -
  let ?l = "if consume then count_download now l else l"
  let ?ls = "AList.update k ?l ls"
  obtain ls' d' ch where p: "prune_locked busy now (Some k) ?ls (ls_payloads s) = (ls', d', ch)"
    by (metis surj_pair)
  have ok: "dict_ok ?ls" using ls(2) by (rule dict_ok_put)
  note sh = shrinks_prune [OF ok p]
  have k: "map_of ls' k = Some ?l" using sh(3) [OF refl] by (simp split del: if_split)
  have sh2: "shrinks (map_of (rows s)) (map_of ls')"
    by (rule shrinks_trans [OF shrinks_put [of _ k l ?l] sh(1) [unfolded map_of_put ls(1)]]) (use ls in auto)
  let ?s2 = "s\<lparr>ls_payloads := d'\<rparr>"
  have c2: "calm sha s ?s2" using calm_staging [of sha s busy now] sh(2) by simp
  obtain s3 r3 where f: "save_and_cleanup sft busy ls' ?s2 = (s3, r3)" by (metis surj_pair)
  have sh3: "shrinks (map_of (rows ?s2)) (map_of ls')" using sh2 by simp
  note c3 = calm_trans [OF c2 finish_calm(1) [OF f sh3]] finish_calm(2) [OF f sh3]
  have spent: "link_spent (count_download now l) \<longleftrightarrow> 0 < lk_max_downloads l \<and> lk_max_downloads l \<le> lk_downloads l + 1"
    by (simp add: link_spent_def count_download_def)
  note g = assms(1) [unfolded grant_claim_def Let_def p prod.case f]
  show "calm sha s s'"
    using g c2 c3(1) by (auto split: if_splits sum.splits)
  show "r = Claimed c \<Longrightarrow> cd_content c = bytes \<and> cd_link c = ?l \<and>
      (cd_remove c \<longleftrightarrow> consume \<and> link_spent (count_download now l)) \<and>
      (consume \<longrightarrow> map_of (rows s') k = Some (count_download now l))"
    using g c3(2) k spent by (auto split: if_splits sum.splits)
qed

text \<open>What a granted claim says about the rows before and after it.\<close>

definition granted ::
  "(octets \<Rightarrow> ustr) \<Rightarrow> ustr \<Rightarrow> time \<Rightarrow> bool \<Rightarrow> link_store \<Rightarrow> link_store \<Rightarrow> claimed_download \<Rightarrow> bool" where
  "granted sha digest now consume s s' c \<longleftrightarrow>
     (\<exists>k l. map_of (rows s) k = Some l \<and> lk_token_sha l = digest \<and> now < lk_expires_at l \<and>
        \<not> link_spent l \<and> sha (cd_content c) = lk_sha l \<and>
        cd_link c = (if consume then count_download now l else l) \<and>
        (cd_remove c \<longleftrightarrow> consume \<and> link_spent (count_download now l)) \<and>
        (consume \<longrightarrow> map_of (rows s') k = Some (count_download now l)))"

lemma claim_cases:
  assumes "claim_download sha cf lft sft busy now digest consume s = (s', r)" and so: "sound s"
  shows "calm sha s s'"
    and "r = Claimed c \<Longrightarrow> granted sha digest now consume s s' c"
proof -
  let ?G = "r = Claimed c \<longrightarrow> granted sha digest now consume s s' c"
  obtain s1 r1 where b: "begin_transaction lft busy s = (s1, r1)" by (metis surj_pair)
  note v = begin_view [OF b so] and c1 = begin_calm [OF b, of sha]
  have "calm sha s s' \<and> ?G"
  proof (cases "cf_enabled cf")
    case False
    with assms(1) show ?thesis by (auto simp: claim_download_def)
  next
    case en: True
    show ?thesis
    proof (cases r1)
      case (Inl e)
      then show ?thesis using assms(1) b c1 en by (auto simp: claim_download_def)
    next
      case (Inr ls)
      have ok: "dict_ok ls" "map_of ls = map_of (rows s1)" "map_of ls = map_of (rows s)"
        using v(2) v(3) [of ls] Inr by (auto simp: links_ok_dict)
      note cl = assms(1) [unfolded claim_download_def b Inr prod.case sum.case]
      show ?thesis
      proof (cases "link_for_token digest ls")
        case None
        obtain ls' d' ch where p: "prune_locked busy now None ls (ls_payloads s1) = (ls', d', ch)"
          by (metis surj_pair)
        note sh = shrinks_prune [OF ok(1) p]
        let ?s2 = "s1\<lparr>ls_payloads := d'\<rparr>"
        have c2: "calm sha s ?s2"
          using calm_trans [OF c1 calm_staging, of busy now] sh(2) by simp
        obtain s3 r3 where f: "save_and_cleanup sft busy ls' ?s2 = (s3, r3)" by (metis surj_pair)
        have c3: "calm sha s s3"
          by (rule calm_trans [OF c2 finish_calm(1) [OF f]]) (use sh(1) ok in simp)
        show ?thesis
          using cl en None p f c2 c3 by (auto split: if_splits sum.splits)
      next
        case (Some kl)
        obtain k l where kl: "kl = (k, l)" by (cases kl)
        note t = link_for_token_Some [OF Some [unfolded kl] ok(1)]
        have drop: "calm sha s s' \<and> ?G" if "drop_link sft busy k ls st s1 = (s', r)" for st
          using calm_trans [OF c1 drop_calm(1) [OF that ok(2)]] drop_calm(2) [OF that ok(2), of c] by blast
        consider "lk_expires_at l \<le> now \<or> link_spent l" |
          "\<not> (lk_expires_at l \<le> now \<or> link_spent l)" "0 < cf_max_file_bytes cf \<and> cf_max_file_bytes cf < lk_bytes l" |
          "\<not> (lk_expires_at l \<le> now \<or> link_spent l)" "\<not> (0 < cf_max_file_bytes cf \<and> cf_max_file_bytes cf < lk_bytes l)"
          by blast
        then show ?thesis
        proof cases
          case 1
          with cl en Some kl drop show ?thesis by (auto split: if_splits)
        next
          case 2
          with cl en Some kl c1 show ?thesis by (auto split: if_splits)
        next
          case 3
          show ?thesis
          proof (cases "open_snapshot sha l (ls_payloads s1)")
            case (Inl e)
            with cl en Some kl drop 3 show ?thesis by (auto split: if_splits)
          next
            case (Inr bytes)
            have g: "grant_claim sft busy now consume k l bytes ls s1 = (s', r)"
              using cl en Some kl Inr 3 by (auto split: if_splits)
            note gc = grant_calm [OF g ok(2) ok(1) t(1)]
            have "sha bytes = lk_sha l" using Inr by (simp add: open_snapshot_def open_payload_Inr)
            then show ?thesis
              using calm_trans [OF c1 gc(1)] gc(2) [of c] t ok(3) 3(1) unfolding granted_def by (metis not_le)
          qed
        qed
      qed
    qed
  qed
  then show "calm sha s s'" and "r = Claimed c \<Longrightarrow> granted sha digest now consume s s' c" by blast+
qed

section \<open>Registration and release\<close>

definition fresh_draws :: "link_draws \<Rightarrow> link_store \<Rightarrow> bool" where
  "fresh_draws dr s \<longleftrightarrow>
     map_of (rows s) (dr_link_id dr) = None \<and>
     (\<forall>k l. map_of (rows s) k = Some l \<longrightarrow> lk_payload_id l \<noteq> dr_payload_id dr)"

definition staged_ok :: "(octets \<Rightarrow> ustr) \<Rightarrow> snapshot \<Rightarrow> payload_dir \<Rightarrow> bool" where
  "staged_ok sha sn d \<longleftrightarrow>
     (\<forall>bytes t. map_of (pd_staging d) (sn_staging sn) = Some (Regular bytes, t) \<longrightarrow> sha bytes = sn_sha sn)"

definition adds :: "ustr \<Rightarrow> exn + file_link \<Rightarrow> (ustr \<Rightarrow> file_link option) \<Rightarrow> (ustr \<Rightarrow> file_link option) \<Rightarrow> bool" where
  "adds k row V V' \<longleftrightarrow>
     (\<forall>k' l'. V' k' = Some l' \<longrightarrow> k' = k \<and> row = Inr l' \<or> (\<exists>l. V k' = Some l \<and> follows l l'))"

lemma adds_shrinks: "shrinks V V' \<Longrightarrow> adds k row V V'"
  by (auto simp: adds_def shrinks_def)

lemma adds_put: "shrinks V V' \<Longrightarrow> adds k (Inr l) V (V'(k \<mapsto> l))"
  by (auto simp: adds_def shrinks_def)

lemma addsE:
  assumes "adds k row V V'" and "V' k' = Some l'"
  obtains (new) "k' = k" "row = Inr l'" | (old) l where "V k' = Some l" "follows l l'"
  using assms unfolding adds_def by blast

lemma pop_staging_payloads [simp]: "pd_payloads (unlink_staging busy name d) = pd_payloads d"
  "payload_dir_ok d \<Longrightarrow> payload_dir_ok (unlink_staging busy name d)"
  by (simp_all add: unlink_staging_def payload_dir_ok_def)

lemma staging_cleanup [simp]: "pd_staging (cleanup_unreferenced_payloads_locked busy ls d) = pd_staging d"
  by (simp add: cleanup_unreferenced_payloads_locked_def prune_unreferenced_payloads_def Let_def)

lemma prune_staging_subset:
  "payload_dir_ok d \<Longrightarrow> map_of (pd_staging (fst (prune_staging_files busy now d))) name = Some f \<Longrightarrow>
   map_of (pd_staging d) name = Some f"
  by (auto simp: prune_staging_files_def payload_dir_ok_def map_of_sweep Let_def split: option.splits if_splits)

lemma link_row_fields:
  assumes "link_row cf base_name now sn rq dr = Inr l"
  shows "lk_link_id l = dr_link_id dr" "lk_payload_id l = dr_payload_id dr" "lk_bytes l = sn_size sn"
    "lk_sha l = sn_sha sn" "lk_token_sha l = dr_token_sha dr" "lk_downloads l = 0"
  using assms by (auto simp: link_row_def split: sum.splits)

lemma begin_staging:
  "begin_transaction ft busy s = (s', r) \<Longrightarrow> pd_staging (ls_payloads s') = pd_staging (ls_payloads s)"
  by (auto simp: begin_transaction_def split: sum.splits prod.splits)

lemma register_body_cases:
  assumes rb: "register_body cf base_name lft sft busy now sn rq dr s = (s', r)"
    and so: "sound s" and fr: "fresh_draws dr s" and st: "staged_ok sha sn (ls_payloads s)"
    and K: "dr_link_id dr \<notin> K" and sup: "supported sha K (rows s) (ls_payloads s)"
  shows "sound s'"
    and "adds (dr_link_id dr) (link_row cf base_name now sn rq dr) (map_of (rows s)) (map_of (rows s'))"
    and "supported sha K (rows s') (ls_payloads s')"
    and "r = Inr l \<Longrightarrow> link_row cf base_name now sn rq dr = Inr l \<and>
      supported sha (insert (dr_link_id dr) K) (rows s') (ls_payloads s')"
proof -
  let ?k = "dr_link_id dr" and ?row = "link_row cf base_name now sn rq dr"
  let ?goal = "sound s' \<and> adds ?k ?row (map_of (rows s)) (map_of (rows s')) \<and>
    supported sha K (rows s') (ls_payloads s') \<and>
    (r = Inr l \<longrightarrow> ?row = Inr l \<and> supported sha (insert ?k K) (rows s') (ls_payloads s'))"
  obtain s1 r1 where b: "begin_transaction lft busy s = (s1, r1)" by (metis surj_pair)
  note v = begin_view(1,2) [OF b so] begin_view(4) [OF b so sup]
  have ?goal
  proof (cases r1)
    case (Inl e)
    then show ?thesis using rb b v by (auto simp: register_body_def adds_shrinks)
  next
    case (Inr ls)
    have ls: "links_ok ls" "map_of ls = map_of (rows s)" using begin_view(3) [OF b so] Inr by auto
    obtain ls2 d2 ch where p: "prune_locked busy now None ls (ls_payloads s1) = (ls2, d2, ch)"
      by (metis surj_pair)
    note sh = shrinks_prune [OF links_ok_dict [OF ls(1)] p]
    have sh2: "shrinks (map_of (rows s)) (map_of ls2)" using sh(1) ls(2) by simp
    have d1: "payload_dir_ok (ls_payloads s1)" using v(1) by (simp add: sound_def)
    have d2: "payload_dir_ok d2" using d1 sh(2) by simp
    have sup2: "supported sha K (rows s1) d2" using v(3) sh(2) link_payloads.backed_prune_staging by simp
    obtain d3 r3 where c: "commit_staging True (dr_payload_id dr) (dr_moved dr) (sn_staging sn) (sn_size sn) (sn_sha sn) d2 = (d3, r3)"
      by (metis surj_pair)
    have d3: "payload_dir_ok d3" by (rule payload_ok_commit [OF c d2])
    have sup3: "supported sha K (rows s1) d3" by (rule link_payloads.backed_commit [OF sup2 c])
    let ?s3 = "s1\<lparr>ls_payloads := d3\<rparr>"
    have so3: "sound ?s3" using v(1) d3 by (simp add: sound_def)
    note g = rb [unfolded register_body_def b Inr prod.case sum.case p c]
    have early: ?goal if "s' = ?s3" "\<And>x. r \<noteq> Inr x"
      using that so3 sup3 v(2) by (auto simp: adds_shrinks)
    show ?thesis
    proof (cases r3)
      case (Inl e)
      show ?thesis by (rule early) (use g Inl in auto)
    next
      case r3: (Inr y)
      show ?thesis
      proof (cases ?row)
        case (Inl e)
        show ?thesis by (rule early) (use g Inl r3 in auto)
      next
        case row: (Inr x)
        let ?ls = "AList.update ?k x ls2"
        obtain s4 r4 where f: "save_and_cleanup sft busy ?ls ?s3 = (s4, r4)" by (metis surj_pair)
        note w = finish_view [OF f so3]
        have s': "s' = s4" "r = Inr l \<longleftrightarrow> r4 = Inr () \<and> l = x"
          using g r3 row f by (auto split: sum.splits)
        have ad: "adds ?k ?row (map_of (rows s)) (map_of ?ls)"
          unfolding row map_of_put by (rule adds_put [OF sh2])
        have "adds ?k ?row (map_of (rows s)) (map_of (rows s4))"
          using w(2) ad v(2) by (auto simp: adds_shrinks)
        moreover have prom: "link_promises (K, ?ls) \<subseteq> link_promises (K, rows s1)"
        proof -
          have "link_promises (K, ?ls) \<subseteq> link_promises (K, ls2)"
            using K by (auto simp: link_promises_def split: if_splits)
          also have "\<dots> \<subseteq> link_promises (K, rows s1)"
            by (rule promises_shrink) (use sh2 v(2) in simp)
          finally show ?thesis .
        qed
        have supK: "supported sha K ?ls d3" by (rule link_payloads.backed_mono [OF sup3 prom])
        have s4K: "supported sha K (rows s4) (ls_payloads s4)"
          by (rule w(4)) (use sup3 supK in simp_all)
        moreover have "supported sha (insert ?k K) (rows s4) (ls_payloads s4)" if "r4 = Inr ()"
        proof -
          from c r3 obtain bytes t where cc: "map_of (pd_staging d2) (sn_staging sn) = Some (Regular bytes, t)"
            "int (length bytes) = sn_size sn" "payload_path_ok (dr_payload_id dr)"
            "map_of (pd_payloads d3) (dr_payload_id dr) = Some (Regular bytes)"
            by (cases rule: commit_cases) auto
          have "map_of (pd_staging (ls_payloads s)) (sn_staging sn) = Some (Regular bytes, t)"
            using prune_staging_subset [OF d1] cc(1) sh(2) begin_staging [OF b] by simp
          then have "sha bytes = sn_sha sn" using st by (auto simp: staged_ok_def)
          then have "open_payload sha (py_id (descriptor x)) (py_size (descriptor x)) (py_sha (descriptor x)) d3 = Inr bytes"
            using cc link_row_fields [OF row] by (simp add: open_payload_Inr descriptor_def)
          moreover have "link_promises (insert ?k K, ?ls) \<subseteq> insert (descriptor x) (link_promises (K, ?ls))"
            by (auto simp: link_promises_def)
          ultimately have "supported sha (insert ?k K) ?ls d3"
            by (rule link_payloads.backed_new [OF supK])
          then have "supported sha (insert ?k K) ?ls (ls_payloads s4)"
            using f that d3 supported_cleanup by (auto simp: save_and_cleanup_def split: sum.splits prod.splits)
          then show ?thesis using supported_cong finish_done [OF f [unfolded that]] by blast
        qed
        ultimately show ?thesis using w(1) s' row by simp
      qed
    qed
  qed
  then show "sound s'"
    and "adds (dr_link_id dr) ?row (map_of (rows s)) (map_of (rows s'))"
    and "supported sha K (rows s') (ls_payloads s')"
    and "r = Inr l \<Longrightarrow> ?row = Inr l \<and> supported sha (insert (dr_link_id dr) K) (rows s') (ls_payloads s')"
    by blast+
qed

lemma register_link_cases:
  assumes rg: "register_snapshot cf base_name lft sft busy now sn rq dr s = (s', r)"
    and so: "sound s" and fr: "fresh_draws dr s" and st: "staged_ok sha sn (ls_payloads s)"
    and K: "dr_link_id dr \<notin> K" and sup: "supported sha K (rows s) (ls_payloads s)"
  shows "sound s'"
    and "adds (dr_link_id dr) (link_row cf base_name now sn rq dr) (map_of (rows s)) (map_of (rows s'))"
    and "supported sha K (rows s') (ls_payloads s')"
    and "r = Inr l \<Longrightarrow> link_row cf base_name now sn rq dr = Inr l \<and>
      supported sha (insert (dr_link_id dr) K) (rows s') (ls_payloads s')"
proof -
  let ?k = "dr_link_id dr" and ?row = "link_row cf base_name now sn rq dr"
  obtain s1 r1 where b: "register_body cf base_name lft sft busy now sn rq dr s = (s1, r1)" by (metis surj_pair)
  note v = register_body_cases [OF b so fr st K sup]
  have f: "ls_files s' = ls_files s1"
    using rg b by (auto simp: register_snapshot_def Let_def split: sum.splits prod.splits if_splits)
  have pid: "py_id p \<noteq> dr_payload_id dr" if p: "p \<in> link_promises (K, rows s1)" for p
  proof -
    obtain k' l' where kl: "map_of (rows s1) k' = Some l'" "k' \<in> K" "py_id p = lk_payload_id l'"
      using p by (auto simp: link_promises_def descriptor_def)
    from v(2) kl(1) show ?thesis
    proof (cases rule: addsE)
      case new
      with K kl(2) show ?thesis by simp
    next
      case (old l)
      with fr kl(3) follows_frame(2) [OF old(2)] show ?thesis by (auto simp: fresh_draws_def)
    qed
  qed
  have rem: "supported sha K (rows s1) (remove_payload busy (dr_payload_id dr) (ls_payloads s1))"
    by (rule link_payloads.backed_unlink(2) [OF v(3) pid])
  have unst: "supported sha J (rows s1) (unlink_staging busy n d)" if "supported sha J (rows s1) d" for J n d
    by (rule link_payloads.backed_frame [OF that]) simp
  show "adds ?k ?row (map_of (rows s)) (map_of (rows s'))" using v(2) f by simp
  show "sound s'"
    using rg b v(1) by (auto simp: register_snapshot_def sound_def Let_def split: sum.splits prod.splits if_splits)
  show "supported sha K (rows s') (ls_payloads s')"
  proof (cases r1)
    case (Inr x)
    with rg b unst [OF v(3)] show ?thesis by (auto simp: register_snapshot_def)
  next
    case (Inl ec)
    obtain e c where "ec = (e, c)" by (cases ec)
    with Inl rg b unst [OF v(3)] unst [OF rem] v(3) show ?thesis
      by (auto simp: register_snapshot_def Let_def split: if_splits)
  qed
  show "?row = Inr l \<and> supported sha (insert ?k K) (rows s') (ls_payloads s')" if "r = Inr l"
  proof -
    from that rg b have "r1 = Inr l" "s' = s1\<lparr>ls_payloads := unlink_staging busy (sn_staging sn) (ls_payloads s1)\<rparr>"
      by (auto simp: register_snapshot_def Let_def split: sum.splits prod.splits if_splits)
    with v(4) [of l] unst show ?thesis by simp
  qed
qed

section \<open>Runs\<close>

datatype link_event = Issued file_link | Reported ustr | Served ustr | Revoked ustr

record link_world =
  lw_store :: link_store
  lw_claims :: "claimed_download list"
  lw_log :: "link_event list"

definition issued :: "link_event list \<Rightarrow> file_link list" where
  "issued hist = List.map_filter (\<lambda>e. case e of Issued l \<Rightarrow> Some l | _ \<Rightarrow> None) hist"

abbreviation reported :: "link_event list \<Rightarrow> ustr set" where
  "reported hist \<equiv> {k. Reported k \<in> set hist}"

abbreviation served :: "ustr \<Rightarrow> link_event list \<Rightarrow> int" where
  "served k hist \<equiv> int (count_list hist (Served k))"

lemma issued_simps [simp]:
  "issued [] = []"
  "issued (Issued l # hist) = l # issued hist"
  "issued (Reported k # hist) = issued hist"
  "issued (Served k # hist) = issued hist"
  "issued (Revoked k # hist) = issued hist"
  by (simp_all add: issued_def List.map_filter_simps)

definition new_draws :: "link_draws \<Rightarrow> link_event list \<Rightarrow> bool" where
  "new_draws dr hist \<longleftrightarrow>
     dr_link_id dr \<notin> lk_link_id ` set (issued hist) \<and> dr_payload_id dr \<notin> lk_payload_id ` set (issued hist) \<and>
     dr_token_sha dr \<notin> lk_token_sha ` set (issued hist)"

definition register_log :: "exn + file_link \<Rightarrow> exn + file_link \<Rightarrow> link_event list" where
  "register_log row r =
     (case r of Inr l \<Rightarrow> [Reported (lk_link_id l)] | Inl _ \<Rightarrow> []) @
     (case row of Inr l \<Rightarrow> [Issued l] | Inl _ \<Rightarrow> [])"

definition claim_log :: "bool \<Rightarrow> claim_result \<Rightarrow> link_event list" where
  "claim_log consume r =
     (case r of Claimed c \<Rightarrow> if consume then [Served (lk_link_id (cd_link c))] else [] | _ \<Rightarrow> [])"

definition claims_of :: "claim_result \<Rightarrow> claimed_download list" where
  "claims_of r = (case r of Claimed c \<Rightarrow> [c] | _ \<Rightarrow> [])"

text \<open>
  The random draws of a registration are new, and the staged bytes have the digest of the snapshot, as
  \<open>_export_snapshot\<close> checks.
\<close>

inductive link_step :: "(octets \<Rightarrow> ustr) \<Rightarrow> link_world \<Rightarrow> link_world \<Rightarrow> bool" for sha where
  stage: "d = fst (open_private_staging True now name (ls_payloads (lw_store w))) \<or>
      d = write_staging now name bytes (ls_payloads (lw_store w)) \<Longrightarrow>
    link_step sha w (w\<lparr>lw_store := (lw_store w)\<lparr>ls_payloads := d\<rparr>\<rparr>)"
| register: "new_draws dr (lw_log w) \<Longrightarrow> staged_ok sha sn (ls_payloads (lw_store w)) \<Longrightarrow>
    register_snapshot cf base_name lft sft busy now sn rq dr (lw_store w) = (s, r) \<Longrightarrow>
    link_step sha w (w\<lparr>lw_store := s,
      lw_log := register_log (link_row cf base_name now sn rq dr) r @ lw_log w\<rparr>)"
| listing: "list_file_links_owned lft sft busy now expired session (lw_store w) = (s, r) \<Longrightarrow>
    link_step sha w (w\<lparr>lw_store := s\<rparr>)"
| revoke: "revoke_file_link_owned lft sft busy k session (lw_store w) = (s, r) \<Longrightarrow>
    link_step sha w (w\<lparr>lw_store := s, lw_log := (if r = Inr True then [Revoked k] else []) @ lw_log w\<rparr>)"
| claim: "claim_download sha cf lft sft busy now digest consume (lw_store w) = (s, r) \<Longrightarrow>
    link_step sha w (w\<lparr>lw_store := s, lw_claims := claims_of r @ lw_claims w,
      lw_log := claim_log consume r @ lw_log w\<rparr>)"
| finish: "c \<in> set (lw_claims w) \<Longrightarrow>
    link_step sha w (w\<lparr>lw_store := release_claim busy c (lw_store w), lw_claims := remove1 c (lw_claims w)\<rparr>)"
| damage: "c = LinksAbsent \<or> c = LinksUnreadable \<Longrightarrow>
    link_step sha w (w\<lparr>lw_store := (lw_store w)\<lparr>ls_files := spoil primary c (ls_files (lw_store w))\<rparr>\<rparr>)"

definition link_init :: "link_world \<Rightarrow> bool" where
  "link_init w \<longleftrightarrow>
     w = \<lparr>lw_store = \<lparr>ls_files = \<lparr>lf_primary = LinksAbsent, lf_backup = LinksAbsent\<rparr>,
                       ls_payloads = \<lparr>pd_payloads = [], pd_staging = []\<rparr>\<rparr>,
          lw_claims = [], lw_log = []\<rparr>"

section \<open>The invariant\<close>

definition log_inv :: "link_event list \<Rightarrow> bool" where
  "log_inv hist \<longleftrightarrow>
     distinct (map lk_link_id (issued hist)) \<and> distinct (map lk_payload_id (issued hist)) \<and>
     distinct (map lk_token_sha (issued hist)) \<and>
     (\<forall>k. Served k \<in> set hist \<or> Reported k \<in> set hist \<or> Revoked k \<in> set hist \<longrightarrow> k \<in> lk_link_id ` set (issued hist)) \<and>
     (\<forall>l \<in> set (issued hist). 0 < lk_max_downloads l \<longrightarrow> served (lk_link_id l) hist \<le> lk_max_downloads l)"

definition row_inv :: "link_event list \<Rightarrow> ustr \<Rightarrow> file_link \<Rightarrow> bool" where
  "row_inv hist k l \<longleftrightarrow>
     (\<exists>i \<in> set (issued hist). lk_link_id i = k \<and> follows i l) \<and> served k hist \<le> lk_downloads l \<and>
     Revoked k \<notin> set hist"

definition claim_inv :: "link_event list \<Rightarrow> (ustr \<Rightarrow> file_link option) \<Rightarrow> claimed_download \<Rightarrow> bool" where
  "claim_inv hist V c \<longleftrightarrow>
     cd_remove c \<longrightarrow> (\<exists>i \<in> set (issued hist). follows i (cd_link c) \<and>
       (\<forall>l. V (lk_link_id i) = Some l \<longrightarrow> link_spent l))"

definition link_inv :: "(octets \<Rightarrow> ustr) \<Rightarrow> link_world \<Rightarrow> bool" where
  "link_inv sha w \<longleftrightarrow>
     sound (lw_store w) \<and> log_inv (lw_log w) \<and>
     (\<forall>k l. map_of (rows (lw_store w)) k = Some l \<longrightarrow> row_inv (lw_log w) k l) \<and>
     supported sha (reported (lw_log w)) (rows (lw_store w)) (ls_payloads (lw_store w)) \<and>
     (\<forall>c \<in> set (lw_claims w). claim_inv (lw_log w) (map_of (rows (lw_store w))) c)"

lemma link_invE:
  assumes "link_inv sha w"
  obtains "sound (lw_store w)" "log_inv (lw_log w)"
    "\<And>k l. map_of (rows (lw_store w)) k = Some l \<Longrightarrow> row_inv (lw_log w) k l"
    "supported sha (reported (lw_log w)) (rows (lw_store w)) (ls_payloads (lw_store w))"
    "\<And>c. c \<in> set (lw_claims w) \<Longrightarrow> claim_inv (lw_log w) (map_of (rows (lw_store w))) c"
  using assms unfolding link_inv_def by blast

lemma row_inv_follows: "row_inv hist k l \<Longrightarrow> follows l l' \<Longrightarrow> row_inv hist k l'"
  unfolding row_inv_def using follows_trans follows_frame(8) by (metis order_trans)

lemma claim_inv_shrinks: "claim_inv hist V c \<Longrightarrow> shrinks V V' \<Longrightarrow> claim_inv hist V' c"
  unfolding claim_inv_def by (metis follows_frame(9) shrinksE)

lemma link_inv_calm:
  assumes inv: "link_inv sha w" and c: "calm sha (lw_store w) s"
  shows "link_inv sha (w\<lparr>lw_store := s\<rparr>)"
proof -
  note i = link_invE [OF inv]
  have so: "sound (lw_store w)" using inv by (simp add: link_inv_def)
  have sh: "shrinks (map_of (rows (lw_store w))) (map_of (rows s))" using c so by (simp add: calm_def)
  show ?thesis
    unfolding link_inv_def
  proof (intro conjI allI impI ballI)
    fix k l' assume l': "map_of (rows (lw_store (w\<lparr>lw_store := s\<rparr>))) k = Some l'"
    then have "map_of (rows s) k = Some l'" by simp
    then obtain l where "map_of (rows (lw_store w)) k = Some l" "follows l l'" by (rule shrinksE [OF sh])
    with inv show "row_inv (lw_log (w\<lparr>lw_store := s\<rparr>)) k l'"
      by (auto simp: link_inv_def intro: row_inv_follows)
  next
    fix c' assume "c' \<in> set (lw_claims (w\<lparr>lw_store := s\<rparr>))"
    then show "claim_inv (lw_log (w\<lparr>lw_store := s\<rparr>)) (map_of (rows (lw_store (w\<lparr>lw_store := s\<rparr>)))) c'"
      using inv sh by (auto simp: link_inv_def intro: claim_inv_shrinks)
  qed (use inv c so in \<open>auto simp: link_inv_def calm_def\<close>)
qed

subsection \<open>Steps that leave the history alone\<close>

lemma calm_payloads:
  assumes "pd_payloads d = pd_payloads (ls_payloads s)"
    and "payload_dir_ok (ls_payloads s) \<Longrightarrow> payload_dir_ok d"
  shows "calm sha s (s\<lparr>ls_payloads := d\<rparr>)"
  unfolding calm_def
proof (intro impI conjI allI)
  fix K assume "supported sha K (rows s) (ls_payloads s)"
  then have "supported sha K (rows s) d" by (rule link_payloads.backed_frame) (simp add: assms(1))
  then show "supported sha K (rows (s\<lparr>ls_payloads := d\<rparr>)) (ls_payloads (s\<lparr>ls_payloads := d\<rparr>))" by simp
qed (use assms(2) in \<open>simp_all add: sound_def\<close>)

lemma calm_spoil:
  assumes "c = LinksAbsent \<or> c = LinksUnreadable"
  shows "calm sha s (s\<lparr>ls_files := spoil primary c (ls_files s)\<rparr>)"
  unfolding calm_def
proof (intro impI conjI allI)
  assume so: "sound s"
  let ?s = "s\<lparr>ls_files := spoil primary c (ls_files s)\<rparr>"
  have a: "agree (ls_files s)" using so by (simp add: sound_def)
  note v = spoil_view [OF a assms, of primary]
  show "sound ?s" using so v(1) by (simp add: sound_def)
  show "shrinks (map_of (rows s)) (map_of (rows ?s))" using v(2) by auto
  fix K assume b: "supported sha K (rows s) (ls_payloads s)"
  from v(2) show "supported sha K (rows ?s) (ls_payloads ?s)"
  proof
    assume "view (spoil primary c (ls_files s)) = view (ls_files s)"
    then have eq: "map_of (rows ?s) = map_of (rows s)" by simp
    show ?thesis unfolding supported_cong [OF eq] using b by simp
  qed simp
qed

lemma inv_finish:
  assumes inv: "link_inv sha w" and c: "c \<in> set (lw_claims w)"
  shows "link_inv sha (w\<lparr>lw_store := release_claim busy c (lw_store w), lw_claims := remove1 c (lw_claims w)\<rparr>)"
proof -
  let ?s = "release_claim busy c (lw_store w)" and ?K = "reported (lw_log w)"
  have f: "ls_files ?s = ls_files (lw_store w)" by (simp add: release_claim_def)
  have so: "sound ?s" using inv by (simp add: link_inv_def sound_def release_claim_def)
  have sup: "supported sha ?K (rows ?s) (ls_payloads ?s)"
  proof (cases "cd_remove c")
    case True
    then obtain i where i: "i \<in> set (issued (lw_log w))" "follows i (cd_link c)"
      "\<And>l. map_of (rows (lw_store w)) (lk_link_id i) = Some l \<Longrightarrow> link_spent l"
      using inv c by (auto simp: link_inv_def claim_inv_def)
    have "py_id p \<noteq> lk_payload_id (cd_link c)" if p: "p \<in> link_promises (?K, rows (lw_store w))" for p
    proof
      assume eq: "py_id p = lk_payload_id (cd_link c)"
      obtain k l where kl: "map_of (rows (lw_store w)) k = Some l" "\<not> link_spent l" "py_id p = lk_payload_id l"
        using p by (auto simp: link_promises_def descriptor_def)
      then obtain j where j: "j \<in> set (issued (lw_log w))" "lk_link_id j = k" "follows j l"
        using inv by (auto simp: link_inv_def row_inv_def)
      have "lk_payload_id i = lk_payload_id j"
        using eq kl(3) follows_frame(2) [OF i(2)] follows_frame(2) [OF j(3)] by simp
      then have "i = j"
        using inv i(1) j(1) by (auto simp: link_inv_def log_inv_def distinct_map inj_on_def)
      with i(3) kl j(2) show False by blast
    qed
    then have "supported sha ?K (rows (lw_store w)) (unlink_payload busy (lk_payload_id (cd_link c)) (ls_payloads (lw_store w)))"
      using inv by (intro link_payloads.backed_unlink) (auto simp: link_inv_def)
    with True f show ?thesis by (simp add: release_claim_def)
  next
    case False
    with inv show ?thesis by (simp add: release_claim_def link_inv_def)
  qed
  show ?thesis
    using inv f so sup by (auto simp: link_inv_def dest: notin_set_remove1)
qed

subsection \<open>Steps that extend the history\<close>

lemma inv_revoked:
  assumes inv: "link_inv sha w" and "map_of (rows (lw_store w)) k = None"
    and "k \<in> lk_link_id ` set (issued (lw_log w))"
  shows "link_inv sha (w\<lparr>lw_log := Revoked k # lw_log w\<rparr>)"
  using assms by (auto simp: link_inv_def log_inv_def row_inv_def claim_inv_def)

lemma inv_served:
  assumes inv: "link_inv sha w" and l: "map_of (rows (lw_store w)) k = Some l"
    and n: "served k (lw_log w) + 1 \<le> lk_downloads l"
  shows "link_inv sha (w\<lparr>lw_log := Served k # lw_log w\<rparr>)"
proof -
  obtain i where i: "i \<in> set (issued (lw_log w))" "lk_link_id i = k" "follows i l"
    using inv l by (auto simp: link_inv_def row_inv_def)
  have "link_ok l" by (rule links_ok_row [OF loaded_ok l])
  then have m: "0 < lk_max_downloads i \<Longrightarrow> served k (lw_log w) + 1 \<le> lk_max_downloads i"
    using n follows_frame(6) [OF i(3)] by (simp add: link_ok_def)
  have "0 < lk_max_downloads j \<longrightarrow> served (lk_link_id j) (Served k # lw_log w) \<le> lk_max_downloads j"
    if j: "j \<in> set (issued (lw_log w))" for j
  proof (cases "lk_link_id j = k")
    case True
    then have "j = i" using inv i j by (auto simp: link_inv_def log_inv_def distinct_map inj_on_def)
    with m i(2) show ?thesis by (auto simp: add.commute)
  next
    case False
    with inv j show ?thesis by (auto simp: link_inv_def log_inv_def)
  qed
  with inv i l n show ?thesis
    by (auto simp: link_inv_def log_inv_def row_inv_def claim_inv_def)
qed

lemma row_issued:
  assumes "link_inv sha w" and "map_of (rows (lw_store w)) k = Some l"
  shows "k \<in> lk_link_id ` set (issued (lw_log w))"
  using assms by (auto simp: link_inv_def row_inv_def)

lemma inv_revoke:
  assumes inv: "link_inv sha w" and r: "revoke_file_link_owned lft sft busy k session (lw_store w) = (s, r)"
  shows "link_inv sha (w\<lparr>lw_store := s, lw_log := (if r = Inr True then [Revoked k] else []) @ lw_log w\<rparr>)"
proof -
  have so: "sound (lw_store w)" using inv by (simp add: link_inv_def)
  note c = revoke_calm [OF r]
  have w: "link_inv sha (w\<lparr>lw_store := s\<rparr>)" by (rule link_inv_calm [OF inv c(1)])
  show ?thesis
  proof (cases "r = Inr True")
    case True
    have "k \<in> lk_link_id ` set (issued (lw_log w))" using c(3) [OF so True] row_issued [OF inv] by blast
    with inv_revoked [OF w] c(2) [OF so True] True show ?thesis by simp
  qed (use w in simp)
qed

lemma inv_claim:
  assumes inv: "link_inv sha w"
    and r: "claim_download sha cf lft sft busy now digest consume (lw_store w) = (s, r)"
  shows "link_inv sha (w\<lparr>lw_store := s, lw_claims := claims_of r @ lw_claims w,
      lw_log := claim_log consume r @ lw_log w\<rparr>)"
proof -
  have so: "sound (lw_store w)" using inv by (simp add: link_inv_def)
  note cc = claim_cases [OF r so]
  have w: "link_inv sha (w\<lparr>lw_store := s\<rparr>)" by (rule link_inv_calm [OF inv cc(1)])
  show ?thesis
  proof (cases r)
    case (Claimed c)
    then obtain k l where g: "map_of (rows (lw_store w)) k = Some l"
      "cd_link c = (if consume then count_download now l else l)"
      "cd_remove c \<longleftrightarrow> consume \<and> link_spent (count_download now l)"
      "consume \<Longrightarrow> map_of (rows s) k = Some (count_download now l)"
      using cc(2) [of c] unfolding granted_def by blast
    have k: "lk_link_id (cd_link c) = k"
      using links_ok_row(2) [OF loaded_ok g(1)] g(2) by (simp add: count_download_def)
    show ?thesis
    proof (cases consume)
      case False
      with w g(3) show ?thesis by (auto simp: Claimed claim_log_def claims_of_def link_inv_def claim_inv_def)
    next
      case True
      have ri: "row_inv (lw_log w) k l" using inv g(1) by (simp add: link_inv_def)
      then obtain i where i: "i \<in> set (issued (lw_log w))" "lk_link_id i = k" "follows i l"
        by (auto simp: row_inv_def)
      have "link_inv sha (w\<lparr>lw_store := s\<rparr>\<lparr>lw_log := Served k # lw_log (w\<lparr>lw_store := s\<rparr>)\<rparr>)"
        by (rule inv_served [OF w, of k "count_download now l"])
          (use g(4) True ri in \<open>simp_all add: row_inv_def count_download_def\<close>)
      moreover have "claim_inv (Served k # lw_log w) (map_of (rows s)) c"
        unfolding claim_inv_def
      proof (intro impI bexI conjI allI)
        assume "cd_remove c"
        then show "follows i (cd_link c)" using True g(2) follows_trans [OF i(3) follows_count] by simp
        fix l' assume "map_of (rows s) (lk_link_id i) = Some l'"
        with g(4) True i(2) have "l' = count_download now l" by simp
        with \<open>cd_remove c\<close> g(3) show "link_spent l'" by simp
      qed (use i(1) in simp)
      ultimately show ?thesis using True k by (auto simp: Claimed claim_log_def claims_of_def link_inv_def)
    qed
  qed (use w in \<open>simp_all add: claim_log_def claims_of_def\<close>)
qed

lemma inv_register:
  assumes inv: "link_inv sha w" and new: "new_draws dr (lw_log w)"
    and st: "staged_ok sha sn (ls_payloads (lw_store w))"
    and r: "register_snapshot cf base_name lft sft busy now sn rq dr (lw_store w) = (s, r)"
  shows "link_inv sha (w\<lparr>lw_store := s,
      lw_log := register_log (link_row cf base_name now sn rq dr) r @ lw_log w\<rparr>)"
proof -
  let ?row = "link_row cf base_name now sn rq dr" and ?k = "dr_link_id dr"
  let ?es = "register_log ?row r"
  have so: "sound (lw_store w)" using inv by (simp add: link_inv_def)
  have li: "log_inv (lw_log w)" using inv by (simp add: link_inv_def)
  have ri: "\<And>k l. map_of (rows (lw_store w)) k = Some l \<Longrightarrow> row_inv (lw_log w) k l"
    using inv by (simp add: link_inv_def)
  have fr: "fresh_draws dr (lw_store w)"
    unfolding fresh_draws_def
  proof (intro conjI allI impI)
    show "map_of (rows (lw_store w)) ?k = None"
      using row_issued [OF inv, of ?k] new by (auto simp: new_draws_def)
    fix k l assume "map_of (rows (lw_store w)) k = Some l"
    then obtain i where i: "i \<in> set (issued (lw_log w))" "follows i l" using ri by (auto simp: row_inv_def)
    then show "lk_payload_id l \<noteq> dr_payload_id dr"
      using new follows_frame(2) [OF i(2)] by (force simp: new_draws_def)
  qed
  have K: "?k \<notin> reported (lw_log w)" using li new by (auto simp: log_inv_def new_draws_def)
  have old: "Served ?k \<notin> set (lw_log w)" "Revoked ?k \<notin> set (lw_log w)"
    using li new by (auto simp: log_inv_def new_draws_def)
  note c = register_link_cases [OF r so fr st K] inv [unfolded link_inv_def]
  have sup: "supported sha (reported (lw_log w)) (rows (lw_store w)) (ls_payloads (lw_store w))"
    using inv by (simp add: link_inv_def)
  have es: "issued (?es @ hist) = (case ?row of Inr l \<Rightarrow> [l] | Inl _ \<Rightarrow> []) @ issued hist"
    "Served x \<in> set (?es @ hist) \<longleftrightarrow> Served x \<in> set hist" "Revoked x \<in> set (?es @ hist) \<longleftrightarrow> Revoked x \<in> set hist"
    "served x (?es @ hist) = served x hist" for x hist
    by (auto simp: register_log_def split: sum.split)
  have rl: "?row = Inr l \<Longrightarrow> lk_link_id l = ?k" for l by (rule link_row_fields)
  have rr: "?row = Inr l" if "r = Inr l" for l using c(4) [OF sup that] by blast
  have rep: "reported (?es @ lw_log w) = (case r of Inr _ \<Rightarrow> insert ?k (reported (lw_log w)) | Inl _ \<Rightarrow> reported (lw_log w))"
  proof (cases r)
    case (Inl e)
    then show ?thesis by (auto simp: register_log_def split: sum.split)
  next
    case (Inr l)
    then show ?thesis using rr [OF Inr] rl [OF rr [OF Inr]] by (auto simp: register_log_def)
  qed
  have li': "log_inv (?es @ lw_log w)"
  proof (cases ?row)
    case (Inl e)
    then have "r \<noteq> Inr l" for l using rr by auto
    then have "?es = []" using Inl by (auto simp: register_log_def split: sum.split)
    with li show ?thesis by simp
  next
    case (Inr l)
    note f = link_row_fields [OF Inr]
    have "served ?k (lw_log w) = 0" using old by (simp add: count_list_0_iff)
    moreover have "Reported x \<in> set (?es @ lw_log w) \<longleftrightarrow> Reported x \<in> set (lw_log w) \<or> (x = ?k \<and> (\<exists>y. r = Inr y))" for x
      using rep by (cases r) auto
    ultimately show ?thesis
      unfolding log_inv_def es using li new f by (auto simp: log_inv_def Inr new_draws_def)
  qed
  have ri': "row_inv (?es @ lw_log w) k l'" if l': "map_of (rows s) k = Some l'" for k l'
    using c(2) [OF sup] l'
  proof (cases rule: addsE)
    case new
    note f = link_row_fields [OF new(2)]
    have "served ?k (lw_log w) = 0" using old by (simp add: count_list_0_iff)
    then show ?thesis
      unfolding row_inv_def es using new f old by (auto intro!: bexI [of _ l'])
  next
    case (old l)
    then have "row_inv (lw_log w) k l'" using ri row_inv_follows by blast
    then show ?thesis unfolding row_inv_def es by auto
  qed
  have ci': "claim_inv (?es @ lw_log w) (map_of (rows s)) x" if x: "x \<in> set (lw_claims w)" for x
    unfolding claim_inv_def
  proof
    assume "cd_remove x"
    then obtain i where i: "i \<in> set (issued (lw_log w))" "follows i (cd_link x)"
      "\<And>l. map_of (rows (lw_store w)) (lk_link_id i) = Some l \<Longrightarrow> link_spent l"
      using inv x by (auto simp: link_inv_def claim_inv_def)
    have "link_spent l'" if l': "map_of (rows s) (lk_link_id i) = Some l'" for l'
      using c(2) [OF sup] l'
    proof (cases rule: addsE)
      case new
      with i(1) \<open>new_draws dr (lw_log w)\<close> show ?thesis by (force simp: new_draws_def)
    next
      case (old l)
      then show ?thesis using i(3) follows_frame(9) by blast
    qed
    then show "\<exists>i \<in> set (issued (?es @ lw_log w)). follows i (cd_link x) \<and>
        (\<forall>l. map_of (rows s) (lk_link_id i) = Some l \<longrightarrow> link_spent l)"
      using i(1,2) by (auto simp: es)
  qed
  have "supported sha (reported (?es @ lw_log w)) (rows s) (ls_payloads s)"
    using rep c(3) [OF sup] c(4) [OF sup] by (cases r) auto
  with c(1) [OF sup] li' ri' ci' show ?thesis by (simp add: link_inv_def)
qed

interpretation link_machine: invariant_machine link_init "link_step sha" "link_inv sha" for sha
proof
  fix w assume "link_init w"
  then show "link_inv sha w"
    by (auto simp: link_init_def link_inv_def sound_def agree_def payload_dir_ok_def log_inv_def loaded_def)
next
  fix w w' assume inv: "link_inv sha w" and "link_step sha w w'"
  from this(2) show "link_inv sha w'"
  proof cases
    case (stage d now name bytes)
    then have "calm sha (lw_store w) ((lw_store w)\<lparr>ls_payloads := d\<rparr>)"
      by (intro calm_payloads) auto
    with inv stage show ?thesis by (auto intro: link_inv_calm)
  next
    case (revoke lft sft busy k session s r)
    show ?thesis unfolding revoke(1) by (rule inv_revoke [OF inv revoke(2)])
  qed (use inv in \<open>auto intro: link_inv_calm inv_register inv_claim inv_finish calm_spoil list_calm\<close>)
qed

end
