(* ===== verification/Link_Service.thy ===== *)
theory Link_Service
  imports Link_Safety
begin

text \<open>
  The transfer of a snapshot from an executor, \<open>_export_snapshot\<close> and \<open>_decode_chunk\<close> of
  \<open>src/src/workgate/control/downloads.py\<close>, and the properties of public file links.

  The executor is a function \<open>reply\<close> from the number of the request, the offset and the requested
  length to its answer, so that it may answer the same request differently each time. The loop writes
  the chunks to the staging file as they arrive; here the file is written once, at the end. A failed
  base64 decoding is \<open>None\<close>.
\<close>

section \<open>Exporting a snapshot\<close>

record chunk_output =
  ck_offset :: int
  ck_size :: int
  ck_data :: "octets option"
  ck_bytes :: int
  ck_sha :: ustr
  ck_eof :: bool

datatype chunk_reply = ResultUploadRejected | CallFailed | ChunkReply chunk_output

record stat_output =
  so_regular :: bool
  so_size :: "int option"
  so_sha :: "ustr option"
  so_path :: ustr

datatype export_error =
    NotRegularFile
  | NotShareable
  | StagingFailed
  | ExecutorCallFailed
  | UploadRejected
  | FileChanged
  | BadBase64
  | BadChunkLength
  | BadChunkChecksum
  | EndedEarly
  | EofEarly
  | EofMissing
  | SizeMismatch

definition default_transfer_chunk_bytes :: nat where
  "default_transfer_chunk_bytes = 1024 * 1024"

definition decode_chunk :: "(octets \<Rightarrow> ustr) \<Rightarrow> nat \<Rightarrow> nat \<Rightarrow> chunk_output \<Rightarrow> export_error + octets" where
  "decode_chunk sha off n c =
     (if ck_offset c \<noteq> int off \<or> ck_size c \<noteq> int n then Inl FileChanged
      else case ck_data c of
             None \<Rightarrow> Inl BadBase64
           | Some bytes \<Rightarrow>
               if int (length bytes) \<noteq> ck_bytes c then Inl BadChunkLength
               else if sha bytes \<noteq> ck_sha c then Inl BadChunkChecksum
               else Inr bytes)"

function export_loop ::
  "(octets \<Rightarrow> ustr) \<Rightarrow> (nat \<Rightarrow> nat \<Rightarrow> nat \<Rightarrow> chunk_reply) \<Rightarrow> nat \<Rightarrow> nat \<Rightarrow> nat \<Rightarrow> nat \<Rightarrow> octets \<Rightarrow> export_error + octets"
  where
  "export_loop sha reply n i chunk_size off acc =
     (if n \<le> off then Inr acc
      else let requested = min chunk_size (n - off) in
        case reply i off requested of
          ResultUploadRejected \<Rightarrow>
            if requested \<le> 1 then Inl UploadRejected
            else export_loop sha reply n (Suc i) (max 1 (requested div 2)) off acc
        | CallFailed \<Rightarrow> Inl ExecutorCallFailed
        | ChunkReply c \<Rightarrow>
            (case decode_chunk sha off n c of
               Inl e \<Rightarrow> Inl e
             | Inr bytes \<Rightarrow>
                 if bytes = [] then Inl EndedEarly
                 else if ck_eof c \<and> off + length bytes \<noteq> n then Inl EofEarly
                 else if \<not> ck_eof c \<and> n \<le> off + length bytes then Inl EofMissing
                 else export_loop sha reply n (Suc i) chunk_size (off + length bytes) (acc @ bytes)))"
  by pat_completeness auto
termination
  by (relation "measures [\<lambda>(sha, reply, n, i, chunk_size, off, acc). n - off,
      \<lambda>(sha, reply, n, i, chunk_size, off, acc). chunk_size]") (auto simp flip: length_greater_0_conv)

declare export_loop.simps [simp del]

text \<open>\<open>remote_path_name(stat.path or path) or remote_path_name(path)\<close>\<close>

definition snapshot_source_name :: "(ustr \<Rightarrow> ustr) \<Rightarrow> ustr \<Rightarrow> ustr \<Rightarrow> ustr" where
  "snapshot_source_name base_name stat_path path =
     (let name = base_name (if stat_path = [] then path else stat_path)
      in if name = [] then base_name path else name)"

definition export_snapshot ::
  "(octets \<Rightarrow> ustr) \<Rightarrow> (ustr \<Rightarrow> ustr) \<Rightarrow> int \<Rightarrow> (nat \<Rightarrow> nat \<Rightarrow> nat \<Rightarrow> chunk_reply) \<Rightarrow> (ustr \<Rightarrow> bool) \<Rightarrow> time \<Rightarrow>
   ustr \<Rightarrow> ustr \<Rightarrow> stat_output \<Rightarrow> payload_dir \<Rightarrow> payload_dir \<times> (export_error + snapshot)" where
  "export_snapshot sha base_name maximum reply busy now path name st d =
     (case (so_regular st, so_size st, so_sha st) of
        (True, Some size_n, Some digest) \<Rightarrow>
          (case assert_shareable_size maximum size_n of
             Inl _ \<Rightarrow> (d, Inl NotShareable)
           | Inr _ \<Rightarrow>
               (case open_private_staging True now name d of
                  (d, Inl _) \<Rightarrow> (unlink_staging busy name d, Inl StagingFailed)
                | (d, Inr _) \<Rightarrow>
                    (case export_loop sha reply (nat size_n) 0 default_transfer_chunk_bytes 0 [] of
                       Inl e \<Rightarrow> (unlink_staging busy name d, Inl e)
                     | Inr bytes \<Rightarrow>
                         let d = write_staging now name bytes d in
                         if length bytes \<noteq> nat size_n then (unlink_staging busy name d, Inl SizeMismatch)
                         else if sha bytes \<noteq> digest then (unlink_staging busy name d, Inl FileChanged)
                         else (d, Inr \<lparr>sn_staging = name, sn_display_path = so_path st,
                                sn_source_name = snapshot_source_name base_name (so_path st) path, sn_size = size_n, sn_sha = sha bytes\<rparr>))))
      | _ \<Rightarrow> (d, Inl NotRegularFile))"

subsection \<open>The loop\<close>

text \<open>An executor that holds the file \<open>content\<close>, behind a proxy that rejects answers longer than \<open>limit\<close>.\<close>

definition honest_reply :: "(octets \<Rightarrow> ustr) \<Rightarrow> octets \<Rightarrow> nat \<Rightarrow> nat \<Rightarrow> nat \<Rightarrow> nat \<Rightarrow> chunk_reply" where
  "honest_reply sha content limit i off requested =
     (let part = take requested (drop off content)
      in if limit < requested then ResultUploadRejected
         else ChunkReply \<lparr>ck_offset = int off, ck_size = int (length content), ck_data = Some part,
           ck_bytes = int (length part), ck_sha = sha part, ck_eof = (length content \<le> off + requested)\<rparr>)"

lemma export_loop_honest:
  assumes "1 \<le> limit" and "1 \<le> c" and "off \<le> length content" and "acc = take off content"
  shows "export_loop sha (honest_reply sha content limit) (length content) i c off acc = Inr content"
  using assms(2-)
proof (induction sha "honest_reply sha content limit" "length content" i c off acc rule: export_loop.induct)
  case (1 sha i c off acc)
  let ?n = "length content" and ?r = "honest_reply sha content limit"
  let ?q = "min c (?n - off)"
  note unfold = export_loop.simps [of sha ?r ?n i c off acc]
  show ?case
  proof (cases "?n \<le> off")
    case True
    with "1.prems" show ?thesis by (subst unfold) simp
  next
    case False
    then have q: "1 \<le> ?q" using "1.prems" by auto
    show ?thesis
    proof (cases "limit < ?q")
      case True
      then have r: "?r i off ?q = ResultUploadRejected" by (simp add: honest_reply_def)
      have "export_loop sha ?r ?n (Suc i) (max 1 (?q div 2)) off acc = Inr content"
        by (rule "1.hyps"(1) [OF False refl r]) (use True assms(1) "1.prems" in auto)
      moreover have "\<not> ?q \<le> 1" using True assms(1) by linarith
      then have "export_loop sha ?r ?n i c off acc = export_loop sha ?r ?n (Suc i) (max 1 (?q div 2)) off acc"
        by (subst unfold) (simp add: False r Let_def)
      ultimately show ?thesis by simp
    next
      case le: False
      define part where "part = take ?q (drop off content)"
      define x where "x = \<lparr>ck_offset = int off, ck_size = int ?n, ck_data = Some part,
           ck_bytes = int (length part), ck_sha = sha part, ck_eof = (?n \<le> off + ?q)\<rparr>"
      have r: "?r i off ?q = ChunkReply x" using le by (simp add: honest_reply_def Let_def x_def part_def)
      have d: "decode_chunk sha off ?n x = Inr part" by (simp add: decode_chunk_def x_def)
      have len: "length part = ?q" by (simp add: part_def)
      then have ne: "part \<noteq> []" using q by (metis list.size(3) not_one_le_zero)
      have eof: "ck_eof x \<longleftrightarrow> off + length part = ?n" using False by (auto simp: x_def len)
      have le_n: "\<not> ck_eof x \<Longrightarrow> off + length part < ?n" using False by (auto simp: eof len)
      have "export_loop sha ?r ?n (Suc i) c (off + length part) (acc @ part) = Inr content"
        by (rule "1.hyps"(2) [OF False refl r d ne])
          (use "1.prems" len eof le_n False in \<open>auto simp: take_add part_def\<close>)
      moreover have "export_loop sha ?r ?n i c off acc =
          export_loop sha ?r ?n (Suc i) c (off + length part) (acc @ part)"
        using False ne eof le_n by (subst unfold) (auto simp: r d Let_def)
      ultimately show ?thesis by simp
    qed
  qed
qed

text \<open>The loop asks at most \<open>n - off + chunk_size\<close> times: what later answers would be does not matter.\<close>

lemma export_loop_bounded:
  assumes "\<And>j. i \<le> j \<Longrightarrow> j < i + (n - off) + c \<Longrightarrow> reply j = reply' j"
  shows "export_loop sha reply n i c off acc = export_loop sha reply' n i c off acc"
  using assms
proof (induction sha reply n i c off acc rule: export_loop.induct)
  case (1 sha reply n i c off acc)
  let ?q = "min c (n - off)"
  note unfold = export_loop.simps [of sha reply n i c off acc] export_loop.simps [of sha reply' n i c off acc]
  show ?case
  proof (cases "n \<le> off")
    case True
    then show ?thesis by (simp add: unfold)
  next
    case False
    then have eq: "reply' i = reply i" using "1.prems" [of i] by simp
    show ?thesis
    proof (cases "reply i off ?q")
      case ResultUploadRejected
      show ?thesis
      proof (cases "?q \<le> 1")
        case True
        with False ResultUploadRejected eq show ?thesis by (simp add: unfold)
      next
        case big: False
        have "export_loop sha reply n (Suc i) (max 1 (?q div 2)) off acc =
            export_loop sha reply' n (Suc i) (max 1 (?q div 2)) off acc"
          by (rule "1.IH"(1) [OF False refl ResultUploadRejected big]) (rule "1.prems"; use big in linarith)
        with False ResultUploadRejected eq big show ?thesis by (simp add: unfold)
      qed
    next
      case CallFailed
      with False eq show ?thesis by (simp add: unfold)
    next
      case (ChunkReply x)
      show ?thesis
      proof (cases "decode_chunk sha off n x")
        case (Inl e)
        with False eq ChunkReply show ?thesis by (simp add: unfold)
      next
        case (Inr b)
        show ?thesis
        proof (cases "b = [] \<or> (ck_eof x \<and> off + length b \<noteq> n) \<or> (\<not> ck_eof x \<and> n \<le> off + length b)")
          case True
          with False eq ChunkReply Inr show ?thesis by (auto simp: unfold)
        next
          case go: False
          then have "0 < length b" by simp
          have "export_loop sha reply n (Suc i) c (off + length b) (acc @ b) =
              export_loop sha reply' n (Suc i) c (off + length b) (acc @ b)"
          proof (rule "1.IH"(2) [OF False refl ChunkReply Inr])
            fix j assume "Suc i \<le> j" "j < Suc i + (n - (off + length b)) + c"
            then show "reply j = reply' j"
              using \<open>0 < length b\<close> False by (intro "1.prems") linarith+
          qed (use go in auto)
          with False eq ChunkReply Inr go show ?thesis by (auto simp: unfold)
        qed
      qed
    qed
  qed
qed


section \<open>Properties\<close>

lemma issued_row: "Issued l \<in> set hist \<longleftrightarrow> l \<in> set (issued hist)"
  by (induction hist) (auto simp: issued_def List.map_filter_simps split: link_event.split)

text \<open>
  C25. A link whose use limit is positive is never served more often than the limit, over any run of
  registrations, claims, revocations and listings with failing or interrupted saves, and whichever of
  the two store files is lost or spoilt.
\<close>

theorem link_uses_bounded:
  assumes "reach link_init (link_step sha) w" and "Issued l \<in> set (lw_log w)" and "0 < lk_max_downloads l"
  shows "served (lk_link_id l) (lw_log w) \<le> lk_max_downloads l"
  using link_machine.reach_inv [OF assms(1)] assms(2,3) by (simp add: link_inv_def log_inv_def issued_row)

text \<open>
  C26. Once a revocation has been reported, no later claim is granted for the link, with any token, after
  any run, restart or loss of a store file.
\<close>

theorem revoked_link_stays_dead:
  assumes "reach link_init (link_step sha) w" and "Revoked k \<in> set (lw_log w)"
    and "lk_link_id (cd_link c) = k"
  shows "snd (claim_download sha cf lft sft busy now digest consume (lw_store w)) \<noteq> Claimed c"
proof
  assume "snd (claim_download sha cf lft sft busy now digest consume (lw_store w)) = Claimed c"
  then obtain s where r: "claim_download sha cf lft sft busy now digest consume (lw_store w) = (s, Claimed c)"
    by (metis prod.collapse)
  have inv: "link_inv sha w" by (rule link_machine.reach_inv [OF assms(1)])
  then have so: "sound (lw_store w)" by (simp add: link_inv_def)
  obtain k' l where g: "map_of (rows (lw_store w)) k' = Some l"
    "cd_link c = (if consume then count_download now l else l)"
    using claim_cases(2) [OF r so refl] unfolding granted_def by blast
  have "k' = k"
    using assms(3) g(2) links_ok_row(2) [OF loaded_ok g(1)] by (simp add: count_download_def split: if_splits)
  with g(1) inv assms(2) show False by (auto simp: link_inv_def row_inv_def)
qed

subsection \<open>A live link is served\<close>

lemma links_ok_alt:
  "links_ok ls \<longleftrightarrow> dict_ok ls \<and>
     (\<forall>k l. map_of ls k = Some l \<longrightarrow> link_id_ok k \<and> link_ok l \<and> k = lk_link_id l)"
proof (cases "dict_ok ls")
  case True
  have "links_ok ls \<longleftrightarrow> (\<forall>k l. (k, l) \<in> set ls \<longrightarrow> link_id_ok k \<and> link_ok l \<and> k = lk_link_id l)"
    using True unfolding links_ok_def list_all_iff by blast
  then show ?thesis unfolding dict_mem_iff [OF True] using True by blast
qed (simp add: links_ok_def)

lemma links_ok_put:
  "links_ok ls \<Longrightarrow> link_id_ok k \<Longrightarrow> link_ok l \<Longrightarrow> lk_link_id l = k \<Longrightarrow> links_ok (AList.update k l ls)"
  by (auto simp: links_ok_alt)

lemma links_ok_prune:
  assumes "links_ok ls" and "prune_locked busy now ex ls d = (ls', d', c)"
  shows "links_ok ls'"
  using assms
  by (auto simp: links_ok_alt prune_locked_def map_of_sweep Let_def split: prod.splits option.splits if_splits)

lemma begin_no_faults:
  assumes "map_of (rows s) k = Some l"
  obtains s' ls where "begin_transaction no_faults busy s = (s', Inr ls)"
proof -
  have ser: "\<exists>doc. serialize_current_store ls = Inr doc" if "links_ok ls" for ls
    using that by (simp add: serialize_current_store_def)
  have "\<exists>f ls. load_locked no_faults (ls_files s) = (f, Inr ls)"
  proof (cases "load_links_file (lf_primary (ls_files s))")
    case (Inr cur)
    obtain doc where "serialize_current_store cur = Inr doc" using ser load_links_ok [OF Inr] by blast
    with Inr show ?thesis
      by (auto simp: load_locked_def refresh_unsafe_backup_def no_faults_def)
  next
    case (Inl e)
    with assms obtain b where b: "load_links_file (lf_backup (ls_files s)) = Inr b"
      by (auto simp: loaded_def split: sum.splits)
    obtain doc where "serialize_current_store b = Inr doc" using ser load_links_ok [OF b] by blast
    with Inl b show ?thesis
      by (auto simp: load_locked_def restore_primary_from_backup_def no_faults_def)
  qed
  then show thesis using that by (auto simp: begin_transaction_def)
qed

lemma save_no_faults:
  assumes "links_ok ls"
  obtains s' where "save_and_cleanup no_faults busy ls s = (s', Inr ())"
  using assms
  by (simp add: save_and_cleanup_def save_locked_def serialize_current_store_def no_faults_def Let_def)

lemma count_ok: "link_ok l \<Longrightarrow> \<not> link_spent l \<Longrightarrow> 0 \<le> now \<Longrightarrow> link_ok (count_download now l)"
  by (auto simp: link_ok_def link_spent_def count_download_def)

lemma grant_no_faults:
  assumes "links_ok ls" and "map_of ls k = Some l" and "\<not> link_spent l" and "0 \<le> now"
  obtains s' c where "grant_claim no_faults busy now consume k l bytes ls s = (s', Claimed c)"
proof -
  let ?l = "if consume then count_download now l else l"
  note ok = links_ok_row [OF assms(1,2)]
  obtain ls' d ch where p: "prune_locked busy now (Some k) (AList.update k ?l ls) (ls_payloads s) = (ls', d, ch)"
    by (metis surj_pair)
  have "links_ok (AList.update k ?l ls)"
    by (rule links_ok_put [OF assms(1) ok(3)]) (use ok count_ok [OF ok(1) assms(3,4)] in \<open>auto simp: count_download_def\<close>)
  then have "links_ok ls'" using p by (rule links_ok_prune)
  then obtain s' where "save_and_cleanup no_faults busy ls' (s\<lparr>ls_payloads := d\<rparr>) = (s', Inr ())"
    by (rule save_no_faults)
  with p have "\<exists>s' c. grant_claim no_faults busy now consume k l bytes ls s = (s', Claimed c)"
    by (cases "consume \<or> ch") (simp_all add: grant_claim_def Let_def)
  then show thesis using that by blast
qed

lemma token_unique:
  assumes inv: "link_inv sha w" and "map_of (rows (lw_store w)) k = Some l"
    and "map_of (rows (lw_store w)) k' = Some l'" and "lk_token_sha l = lk_token_sha l'"
  shows "k = k'"
proof -
  obtain i i' where i: "i \<in> set (issued (lw_log w))" "lk_link_id i = k" "follows i l"
    "i' \<in> set (issued (lw_log w))" "lk_link_id i' = k'" "follows i' l'"
    using inv assms(2,3) unfolding link_inv_def row_inv_def by blast
  then have "lk_token_sha i = lk_token_sha i'"
    using follows_frame(5) [OF i(3)] follows_frame(5) [OF i(6)] assms(4) by simp
  then have "i = i'" using inv i(1,4) by (auto simp: link_inv_def log_inv_def distinct_map inj_on_def)
  with i(2,5) show ?thesis by simp
qed

text \<open>
  A row that is neither stale nor revoked stays through every operation, whatever its saves do: a save
  leaves the old rows or the new ones, since the transaction it ends has read, or restored, the primary.
\<close>

definition primary_reads :: "link_files \<Rightarrow> bool" where
  "primary_reads f \<longleftrightarrow> (\<exists>p. load_links_file (lf_primary f) = Inr p)"

lemma load_primary_reads:
  assumes "load_locked ft f = (f', Inr ls)" and "map_of ls k = Some l"
  shows "primary_reads f'"
proof (cases "load_links_file (lf_primary f)")
  case (Inr p)
  with assms show ?thesis
    by (auto simp: load_locked_def primary_reads_def refresh_unsafe_backup_def put_backup_def split: if_splits sum.splits)
next
  case (Inl e)
  have ne: "\<not> (lf_primary f = LinksAbsent \<and> lf_backup f = LinksAbsent)"
    using assms by (auto simp: load_locked_def)
  with assms(1) Inl obtain b where b: "load_links_file (lf_backup f) = Inr b" "restore_primary_from_backup ft b f = (f', Inr ())"
    by (auto simp: load_locked_def split: sum.splits prod.splits if_splits)
  obtain doc where d: "serialize_current_store b = Inr doc" "links_ok doc"
    using load_links_ok [OF b(1)] by (simp add: serialize_current_store_def)
  with b(2) reports_lands have "f' = f\<lparr>lf_primary := LinksDoc link_store_version doc\<rparr>"
    by (auto simp: restore_primary_from_backup_def split: if_splits)
  with d(2) show ?thesis by (simp add: primary_reads_def)
qed

lemma begin_primary_reads:
  assumes "begin_transaction ft busy s = (s', Inr ls)" and "map_of ls k = Some l"
  shows "primary_reads (ls_files s')"
proof -
  obtain f r where l: "load_locked ft (ls_files s) = (f, r)" by (metis surj_pair)
  with assms(1) have "r = Inr ls" "ls_files s' = f" by (auto simp: begin_transaction_def split: sum.splits)
  with l load_primary_reads assms(2) show ?thesis by blast
qed

lemma save_primary_reads:
  assumes "save_locked ft ls f = (f', r)" and "primary_reads f"
  shows "view f' = view f \<or> view f' = map_of ls"
proof -
  obtain p where p: "load_links_file (lf_primary f) = Inr p" using assms(2) by (auto simp: primary_reads_def)
  show ?thesis
  proof (cases "serialize_current_store ls")
    case (Inl e)
    with assms(1) show ?thesis by (simp add: save_locked_def)
  next
    case (Inr doc)
    note d = serialize_Inr [OF Inr]
    show ?thesis
      using assms(1) [unfolded save_locked_def Let_def put_backup_def] p Inr d
      by (cases "ft_unlinked ft"; cases "ft_primary ft"; cases "ft_backup ft") (auto simp: loaded_def)
  qed
qed

lemma finish_keeps:
  assumes "save_and_cleanup ft busy ls s = (s', r)" and "primary_reads (ls_files s)"
    and "map_of (rows s) k = Some l" and "map_of ls k = Some l'"
  shows "map_of (rows s') k = Some l \<or> map_of (rows s') k = Some l'"
proof -
  obtain f r' where l: "save_locked ft ls (ls_files s) = (f, r')" by (metis surj_pair)
  then have "ls_files s' = f" using assms(1) by (auto simp: save_and_cleanup_def split: sum.splits)
  with save_primary_reads [OF l assms(2)] assms(3,4) show ?thesis by auto
qed

lemma prune_keeps:
  assumes "prune_locked busy now ex ls d = (ls', d', c)" and "dict_ok ls" and "map_of ls k = Some l" and "\<not> link_stale now l"
  shows "map_of ls' k = Some l"
  using assms by (auto simp: prune_locked_def map_of_sweep Let_def split: prod.splits option.splits if_splits)

lemma live_not_stale:
  assumes "map_of (rows s) k = Some l" and "now < lk_expires_at l" and "\<not> link_spent l"
  shows "\<not> link_stale now l"
proof -
  have "payload_id_ok (lk_payload_id l)" using links_ok_row(1) [OF loaded_ok assms(1)] by (simp add: link_ok_def)
  then have "payload_path_ok (lk_payload_id l)" by (simp add: payload_id_ok_def payload_path_ok_def opaque_id_def)
  with assms(2,3) show ?thesis by (simp add: link_stale_def)
qed

text \<open>A transaction that began shows the rows it read.\<close>

lemma begin_rows:
  assumes "begin_transaction ft busy s = (s', r)" and "sound s" and "map_of (rows s) k = Some l"
  shows "map_of (rows s') k = Some l"
    and "r = Inr ls \<Longrightarrow> links_ok ls \<and> map_of ls k = Some l \<and> primary_reads (ls_files s')"
proof -
  show "map_of (rows s') k = Some l" using begin_view(2) [OF assms(1,2)] assms(3) by simp
  assume r: "r = Inr ls"
  with begin_view(3) [OF assms(1,2) r] assms(3) have "links_ok ls" "map_of ls k = Some l" by simp_all
  with begin_primary_reads assms(1) r show "links_ok ls \<and> map_of ls k = Some l \<and> primary_reads (ls_files s')" by blast
qed

lemma list_keeps:
  assumes "list_file_links_owned lft sft busy now expired session s = (s', r)" and so: "sound s"
    and row: "map_of (rows s) k = Some l" and live: "now < lk_expires_at l" "\<not> link_spent l"
  shows "map_of (rows s') k = Some l"
proof -
  obtain s1 r1 where b: "begin_transaction lft busy s = (s1, r1)" by (metis surj_pair)
  note br = begin_rows [OF b so row]
  show ?thesis
  proof (cases r1)
    case (Inl e)
    with assms(1) b br show ?thesis by (simp add: list_file_links_owned_def)
  next
    case (Inr ls)
    obtain ls' d c where p: "prune_locked busy now None ls (ls_payloads s1) = (ls', d, c)" by (metis surj_pair)
    have k: "map_of ls' k = Some l"
      by (rule prune_keeps [OF p]) (use br(2) [OF Inr] links_ok_dict live_not_stale [OF row live] in auto)
    obtain s2 r2 where f: "save_and_cleanup sft busy ls' (s1\<lparr>ls_payloads := d\<rparr>) = (s2, r2)" by (metis surj_pair)
    have "map_of (rows s2) k = Some l" using finish_keeps [OF f _ _ k] br(1) br(2) [OF Inr] by simp
    with assms(1) b Inr p f br(1) show ?thesis
      by (auto simp: list_file_links_owned_def Let_def split: if_splits sum.splits)
  qed
qed

lemma revoke_keeps:
  assumes "revoke_file_link_owned lft sft busy k' session s = (s', r)" and so: "sound s"
    and row: "map_of (rows s) k = Some l" and "k' \<noteq> k \<or> \<not> owns_link session l"
  shows "map_of (rows s') k = Some l"
proof -
  obtain s1 r1 where b: "begin_transaction lft busy s = (s1, r1)" by (metis surj_pair)
  note br = begin_rows [OF b so row]
  show ?thesis
  proof (cases r1)
    case (Inl e)
    with assms(1) b br show ?thesis by (simp add: revoke_file_link_owned_def)
  next
    case (Inr ls)
    obtain s2 r2 where f: "save_and_cleanup sft busy (AList.delete k' ls) s1 = (s2, r2)" by (metis surj_pair)
    have "map_of (rows s2) k = Some l" if "k' \<noteq> k"
      using finish_keeps [OF f, of k l l] br(1) br(2) [OF Inr] that by simp
    with assms(1,4) b Inr f br(1) br(2) [OF Inr] show ?thesis
      by (cases "k' = k") (auto simp: revoke_file_link_owned_def split: option.splits if_splits sum.splits)
  qed
qed

lemma claim_keeps:
  assumes "claim_download sha cf lft sft busy now digest consume s = (s', r)" and so: "sound s"
    and row: "map_of (rows s) k = Some l" and live: "now < lk_expires_at l" "\<not> link_spent l"
    and sup: "supported sha K (rows s) (ls_payloads s)" "k \<in> K"
  shows "map_of (rows s') k = Some l \<or> map_of (rows s') k = Some (count_download now l)"
proof -
  obtain s1 r1 where b: "begin_transaction lft busy s = (s1, r1)" by (metis surj_pair)
  note br = begin_rows [OF b so row]
  show ?thesis
  proof (cases "cf_enabled cf \<and> (\<exists>ls. r1 = Inr ls)")
    case False
    with assms(1) b br(1) row show ?thesis by (auto simp: claim_download_def split: if_splits sum.splits)
  next
    case True
    then obtain ls where en: "cf_enabled cf" and r1: "r1 = Inr ls" by blast
    note ls = br(2) [OF r1]
    have d: "dict_ok ls" using ls links_ok_dict by blast
    note cl = assms(1) [unfolded claim_download_def b r1 prod.case sum.case]
    show ?thesis
    proof (cases "link_for_token digest ls")
      case None
      obtain ls' d' c where p: "prune_locked busy now None ls (ls_payloads s1) = (ls', d', c)" by (metis surj_pair)
      have k: "map_of ls' k = Some l"
        by (rule prune_keeps [OF p d]) (use ls live_not_stale [OF row live] in auto)
      obtain s2 r2 where f: "save_and_cleanup sft busy ls' (s1\<lparr>ls_payloads := d'\<rparr>) = (s2, r2)" by (metis surj_pair)
      have "map_of (rows s2) k = Some l" using finish_keeps [OF f _ _ k] br(1) ls by simp
      with cl en None p f br(1) show ?thesis by (auto split: if_splits sum.splits)
    next
      case (Some kl)
      obtain k' l' where kl: "kl = (k', l')" by (cases kl)
      note t = link_for_token_Some [OF Some [unfolded kl] d]
      have drop: "map_of (rows s') k = Some l" if dl: "drop_link sft busy k' ls st s1 = (s', r)" "k' \<noteq> k" for st
      proof -
        obtain s2 r2 where f: "save_and_cleanup sft busy (AList.delete k' ls) s1 = (s2, r2)" by (metis surj_pair)
        have "map_of (rows s2) k = Some l" using finish_keeps [OF f, of k l l] br(1) ls that(2) by simp
        with dl f show ?thesis by (auto simp: drop_link_def split: sum.splits)
      qed
      have grant: "map_of (rows s') k = Some l \<or> map_of (rows s') k = Some (count_download now l)"
        if g: "grant_claim sft busy now consume k' l' bytes ls s1 = (s', r)" for bytes
      proof -
        let ?u = "if consume then count_download now l' else l'"
        obtain ls' d' c where p: "prune_locked busy now (Some k') (AList.update k' ?u ls) (ls_payloads s1) = (ls', d', c)"
          by (metis surj_pair)
        have k: "map_of ls' k = Some (if k' = k then ?u else l)"
        proof (cases "k' = k")
          case True
          with shrinks_prune(3) [OF dict_ok_put [OF d] p, of k] show ?thesis by (simp split del: if_split)
        next
          case False
          then have "map_of ls' k = Some l"
            by (intro prune_keeps [OF p dict_ok_put [OF d]]) (use ls live_not_stale [OF row live] in auto)
          with False show ?thesis by simp
        qed
        have same: "k' = k \<Longrightarrow> l' = l" using t(1) ls by simp
        obtain s2 r2 where f: "save_and_cleanup sft busy ls' (s1\<lparr>ls_payloads := d'\<rparr>) = (s2, r2)" by (metis surj_pair)
        have "map_of (rows s2) k = Some l \<or> map_of (rows s2) k = Some (if k' = k then ?u else l)"
          using finish_keeps [OF f _ _ k] br(1) ls by simp
        with g p f br(1) same show ?thesis
          by (cases "k' = k"; cases consume) (auto simp: grant_claim_def Let_def split: if_splits sum.splits)
      qed
      have opened: "\<exists>bytes. open_snapshot sha l' (ls_payloads s1) = Inr bytes" if "k' = k"
      proof -
        have l': "l' = l" using t(1) ls that by simp
        have "supported sha K (rows s1) (ls_payloads s1)" by (rule begin_view(4) [OF b so sup(1)])
        moreover have "descriptor l \<in> link_promises (K, rows s1)"
          using br(1) live(2) sup(2) by (auto simp: link_promises_def)
        ultimately obtain bytes where "open_snapshot sha l (ls_payloads s1) = Inr bytes"
          by (rule link_payloads.backed_open) (simp add: open_snapshot_def descriptor_def)
        with l' show ?thesis by blast
      qed
      have dead: "k' \<noteq> k" if "lk_expires_at l' \<le> now \<or> link_spent l'"
        using that t(1) ls live by auto
      show ?thesis
        using cl en Some kl drop [of DownloadExpired] drop [of DownloadExhausted] drop [of DownloadMissing] grant opened dead br(1)
        by (auto split: if_splits sum.splits)
    qed
  qed
qed

lemma register_keeps:
  assumes "register_snapshot cf base_name lft sft busy now sn rq dr s = (s', r)" and so: "sound s"
    and row: "map_of (rows s) k = Some l" and live: "now < lk_expires_at l" "\<not> link_spent l"
    and new: "dr_link_id dr \<noteq> k"
  shows "map_of (rows s') k = Some l"
proof -
  obtain s0 r0 where rb: "register_body cf base_name lft sft busy now sn rq dr s = (s0, r0)" by (metis surj_pair)
  have files: "ls_files s' = ls_files s0"
    using assms(1) rb by (auto simp: register_snapshot_def Let_def split: sum.splits prod.splits if_splits)
  obtain s1 r1 where b: "begin_transaction lft busy s = (s1, r1)" by (metis surj_pair)
  note br = begin_rows [OF b so row]
  have "map_of (rows s0) k = Some l"
  proof (cases r1)
    case (Inl e)
    with rb b br(1) show ?thesis by (simp add: register_body_def)
  next
    case (Inr ls)
    note ls = br(2) [OF Inr]
    obtain ls' d c where p: "prune_locked busy now None ls (ls_payloads s1) = (ls', d, c)" by (metis surj_pair)
    have k: "map_of ls' k = Some l"
      by (rule prune_keeps [OF p]) (use ls links_ok_dict live_not_stale [OF row live] in auto)
    have saved: "map_of (rows s2) k = Some l"
      if "save_and_cleanup sft busy (AList.update (dr_link_id dr) x ls') (s1\<lparr>ls_payloads := d3\<rparr>) = (s2, r2)" for x d3 s2 r2
      using finish_keeps [OF that, of k l l] br(1) ls k new by simp
    show ?thesis
      using rb b Inr p br(1) saved by (auto simp: register_body_def split: sum.splits prod.splits)
  qed
  with files show ?thesis by simp
qed

lemma register_present:
  assumes "register_snapshot cf base_name lft sft busy now sn rq dr s = (s', Inr l)"
  shows "map_of (rows s') (lk_link_id l) = Some l" and "link_row cf base_name now sn rq dr = Inr l"
proof -
  obtain s0 r0 where rb: "register_body cf base_name lft sft busy now sn rq dr s = (s0, r0)" by (metis surj_pair)
  with assms have r0: "r0 = Inr l" and files: "ls_files s' = ls_files s0"
    by (auto simp: register_snapshot_def Let_def split: sum.splits prod.splits if_splits)
  from rb r0 obtain ls s1 where row: "link_row cf base_name now sn rq dr = Inr l"
    and f: "save_and_cleanup sft busy (AList.update (dr_link_id dr) l ls) s1 = (s0, Inr ())"
    by (auto simp: register_body_def split: sum.splits prod.splits)
  from finish_done [OF f] files link_row_fields(1) [OF row] show "map_of (rows s') (lk_link_id l) = Some l" by simp
  show "link_row cf base_name now sn rq dr = Inr l" by (rule row)
qed

lemma unspent_link_is_served:
  assumes inv: "link_inv sha w" and "Reported k \<in> set (lw_log w)"
    and l: "map_of (rows (lw_store w)) k = Some l"
    and now: "0 \<le> now" "now < lk_expires_at l" and spent: "\<not> link_spent l"
    and cf: "cf_enabled cf" "cf_max_file_bytes cf \<le> 0 \<or> lk_bytes l \<le> cf_max_file_bytes cf"
  shows "\<exists>s c. claim_download sha cf no_faults no_faults busy now (lk_token_sha l) consume (lw_store w) = (s, Claimed c) \<and>
    lk_link_id (cd_link c) = k \<and> sha (cd_content c) = lk_sha l \<and> int (length (cd_content c)) = lk_bytes l"
proof -
  have so: "sound (lw_store w)" using inv by (simp add: link_inv_def)
  obtain s1 ls where b: "begin_transaction no_faults busy (lw_store w) = (s1, Inr ls)"
    by (rule begin_no_faults [OF l])
  note v = begin_view(1,2) [OF b so] begin_view(3) [OF b so refl]
  have ls: "links_ok ls" "map_of ls k = Some l" using v(3) l by simp_all
  obtain k' l' where t: "link_for_token (lk_token_sha l) ls = Some (k', l')"
    using map_of_SomeD [OF ls(2)] by (cases "link_for_token (lk_token_sha l) ls") (auto simp: link_for_token_def find_None_iff)
  note t' = link_for_token_Some [OF t links_ok_dict [OF ls(1)]]
  have k': "k' = k" using token_unique [OF inv _ l, of k' l'] t' v(3) by simp
  with t'(1) ls(2) have l': "l' = l" by simp
  have "supported sha (reported (lw_log w)) (rows s1) (ls_payloads s1)"
    using begin_view(4) [OF b so] inv by (simp add: link_inv_def)
  moreover have "descriptor l \<in> link_promises (reported (lw_log w), rows s1)"
    using l v(2) spent assms(2) by (auto simp: link_promises_def)
  ultimately obtain bytes where o: "open_snapshot sha l (ls_payloads s1) = Inr bytes"
    by (rule link_payloads.backed_open) (simp add: open_snapshot_def descriptor_def)
  obtain s c where g: "grant_claim no_faults busy now consume k l bytes ls s1 = (s, Claimed c)"
    by (rule grant_no_faults [OF ls spent now(1)])
  note gc = grant_calm(2) [OF g _ links_ok_dict [OF ls(1)] ls(2) refl]
  have "claim_download sha cf no_faults no_faults busy now (lk_token_sha l) consume (lw_store w) = (s, Claimed c)"
    using b t k' l' o g now cf spent by (auto simp: claim_download_def)
  moreover have "lk_link_id (cd_link c) = k"
    using gc v links_ok_row(2) [OF ls] by (auto simp: count_download_def)
  moreover have "cd_content c = bytes" using gc v by simp
  ultimately show ?thesis using o by (auto simp: open_snapshot_def open_payload_Inr)
qed

text \<open>
  The only ways in which the row of a link may go: its uses are spent, an operation reads the clock at or
  past its expiry, an owner revokes it, or a store file is damaged while the other one cannot be read.
\<close>

inductive may_end :: "(octets \<Rightarrow> ustr) \<Rightarrow> ustr \<Rightarrow> file_link \<Rightarrow> link_world \<Rightarrow> link_world \<Rightarrow> bool" for sha k l u v where
  used_up: "link_spent l \<Longrightarrow> may_end sha k l u v"
| register_past_expiry: "lk_expires_at l \<le> now \<Longrightarrow>
    register_snapshot cf base_name lft sft busy now sn rq dr (lw_store u) = (lw_store v, res) \<Longrightarrow> may_end sha k l u v"
| list_past_expiry: "lk_expires_at l \<le> now \<Longrightarrow>
    list_file_links_owned lft sft busy now include_expired session (lw_store u) = (lw_store v, lres) \<Longrightarrow> may_end sha k l u v"
| claim_past_expiry: "lk_expires_at l \<le> now \<Longrightarrow>
    claim_download sha cf lft sft busy now digest consume (lw_store u) = (lw_store v, cres) \<Longrightarrow> may_end sha k l u v"
| owner_revokes: "owns_link session l \<Longrightarrow>
    revoke_file_link_owned lft sft busy k session (lw_store u) = (lw_store v, bres) \<Longrightarrow> may_end sha k l u v"
| both_damaged: "load_links_file (if primary then lf_backup (ls_files (lw_store u)) else lf_primary (ls_files (lw_store u))) = Inl e \<Longrightarrow>
    c = LinksAbsent \<or> c = LinksUnreadable \<Longrightarrow>
    lw_store v = (lw_store u)\<lparr>ls_files := spoil primary c (ls_files (lw_store u))\<rparr> \<Longrightarrow> may_end sha k l u v"

definition keeps_live :: "(octets \<Rightarrow> ustr) \<Rightarrow> ustr \<Rightarrow> link_world \<Rightarrow> link_world \<Rightarrow> bool" where
  "keeps_live sha k u v \<longleftrightarrow> link_step sha u v \<and>
     (\<forall>l. map_of (rows (lw_store u)) k = Some l \<longrightarrow> \<not> may_end sha k l u v)"

lemma spoil_keeps:
  assumes "agree f" and "load_links_file (if primary then lf_backup f else lf_primary f) = Inr ls"
    and "c = LinksAbsent \<or> c = LinksUnreadable"
  shows "view (spoil primary c f) = view f"
  using assms by (cases primary) (auto simp: spoil_def loaded_def agree_def split: sum.split)

lemma row_step:
  assumes inv: "link_inv sha u" and row: "map_of (rows (lw_store u)) k = Some l" and rep: "Reported k \<in> set (lw_log u)"
    and step: "link_step sha u v" and keep: "\<not> may_end sha k l u v"
  shows "\<exists>l'. map_of (rows (lw_store v)) k = Some l' \<and> follows l l'"
proof -
  have so: "sound (lw_store u)" using inv by (simp add: link_inv_def)
  have unspent: "\<not> link_spent l" using keep used_up [of l sha k u v] by blast
  have "map_of (rows (lw_store v)) k = Some l \<or> (\<exists>now. map_of (rows (lw_store v)) k = Some (count_download now l))"
    using step
  proof cases
    case (stage d now name bytes)
    with row show ?thesis by simp
  next
    case (register dr sn cf base_name lft sft busy now rq s r)
    have v: "lw_store v = s" using register by simp
    have "now < lk_expires_at l"
      using register_past_expiry [of l now cf base_name lft sft busy sn rq dr u v r sha k] register(4) v keep
      unfolding not_le [symmetric] by blast
    moreover have "dr_link_id dr \<noteq> k" using register(2) row_issued [OF inv row] by (auto simp: new_draws_def)
    ultimately show ?thesis using register_keeps [OF register(4) so row _ unspent] v by simp
  next
    case (listing lft sft busy now expired session s r)
    have v: "lw_store v = s" using listing by simp
    have "now < lk_expires_at l"
      using list_past_expiry [of l now lft sft busy expired session u v r sha k] listing(2) v keep
      unfolding not_le [symmetric] by blast
    then show ?thesis using list_keeps [OF listing(2) so row _ unspent] v by simp
  next
    case (revoke lft sft busy k' session s r)
    have v: "lw_store v = s" using revoke by simp
    have "k' \<noteq> k \<or> \<not> owns_link session l"
      using owner_revokes [of session l lft sft busy k u v r sha] revoke(2) v keep by blast
    then show ?thesis using revoke_keeps [OF revoke(2) so row] v by simp
  next
    case (claim cf lft sft busy now digest consume s r)
    have v: "lw_store v = s" using claim by simp
    have "now < lk_expires_at l"
      using claim_past_expiry [of l now sha cf lft sft busy digest consume u v r k] claim(2) v keep
      unfolding not_le [symmetric] by blast
    moreover have "supported sha (reported (lw_log u)) (rows (lw_store u)) (ls_payloads (lw_store u))"
      using inv by (simp add: link_inv_def)
    ultimately show ?thesis using claim_keeps [OF claim(2) so row _ unspent, of "reported (lw_log u)"] rep v by auto
  next
    case (finish c busy)
    with row show ?thesis by (simp add: release_claim_def)
  next
    case (damage c primary)
    have v: "lw_store v = (lw_store u)\<lparr>ls_files := spoil primary c (ls_files (lw_store u))\<rparr>" using damage by simp
    have "load_links_file (if primary then lf_backup (ls_files (lw_store u)) else lf_primary (ls_files (lw_store u))) \<noteq> Inl e" for e
      using both_damaged [OF _ damage(2) v] keep by blast
    then obtain ls where "load_links_file (if primary then lf_backup (ls_files (lw_store u)) else lf_primary (ls_files (lw_store u))) = Inr ls"
      by (cases "load_links_file (if primary then lf_backup (ls_files (lw_store u)) else lf_primary (ls_files (lw_store u)))") auto
    from spoil_keeps [OF _ this damage(2)] so row v show ?thesis by (simp add: sound_def)
  qed
  then show ?thesis by (auto intro: follows_count)
qed

lemma step_log: "link_step sha u v \<Longrightarrow> set (lw_log u) \<subseteq> set (lw_log v)"
  by (erule link_step.cases) auto

lemma row_run:
  assumes "reach ((=) u) (keeps_live sha k) v" and "link_inv sha u"
    and "map_of (rows (lw_store u)) k = Some l" and "Reported k \<in> set (lw_log u)"
  shows "link_inv sha v \<and> Reported k \<in> set (lw_log v) \<and>
    (\<exists>l'. map_of (rows (lw_store v)) k = Some l' \<and> follows l l')"
  using assms(1)
proof induction
  case (reach_init s)
  with assms(2-4) show ?case by (auto intro: follows_refl)
next
  case (reach_step s t)
  then obtain l' where l': "map_of (rows (lw_store s)) k = Some l'" "follows l l'" and inv: "link_inv sha s"
    and rep: "Reported k \<in> set (lw_log s)" by blast
  have step: "link_step sha s t" and keep: "\<not> may_end sha k l' s t"
    using reach_step.hyps(2) l'(1) by (auto simp: keeps_live_def)
  have "link_inv sha t" by (rule link_machine.step_inv [OF inv step])
  with row_step [OF inv l'(1) rep step keep] step_log [OF step] rep follows_trans [OF l'(2)] show ?case by blast
qed

text \<open>
  C27. A link is served until it expires, is spent or is revoked. Take a registration that reported a new
  link, and any later run of registrations, listings, revocations and claims, with failing or interrupted
  saves, completed responses and restarts between them, in which no operation reads the clock at or past the
  expiry of the link, its uses are not spent, no owner revokes it, and no store file is damaged while the
  other one cannot be read. Then the link is still in the store, and unless it is spent by now a claim with
  its token, before its expiry, while links are enabled and the file is within the size limit, whose own
  reads and saves do not fail, returns bytes with the digest and length the link was created with.
\<close>

theorem live_link_is_served:
  assumes "reach link_init (link_step sha) w"
    and "new_draws dr (lw_log w)" and "staged_ok sha sn (ls_payloads (lw_store w))"
    and "register_snapshot cf base_name lft sft busy now sn rq dr (lw_store w) = (s, Inr l)"
    and "reach ((=) (w\<lparr>lw_store := s, lw_log := register_log (Inr l) (Inr l) @ lw_log w\<rparr>)) (keeps_live sha (lk_link_id l)) v"
    and "0 \<le> now'" and "now' < lk_expires_at l"
    and "cf_enabled cf'" and "cf_max_file_bytes cf' \<le> 0 \<or> lk_bytes l \<le> cf_max_file_bytes cf'"
  shows "\<exists>l'. map_of (rows (lw_store v)) (lk_link_id l) = Some l' \<and> follows l l' \<and>
    (link_spent l' \<or> (\<exists>s' c. claim_download sha cf' no_faults no_faults busy' now' (lk_token_sha l) consume (lw_store v) = (s', Claimed c) \<and>
       lk_link_id (cd_link c) = lk_link_id l \<and> sha (cd_content c) = lk_sha l \<and> int (length (cd_content c)) = lk_bytes l))"
proof -
  let ?k = "lk_link_id l" and ?u = "w\<lparr>lw_store := s, lw_log := register_log (Inr l) (Inr l) @ lw_log w\<rparr>"
  note present = register_present [OF assms(4)]
  from link_step.register [OF assms(2-4)] have step: "link_step sha w ?u" by (simp add: present(2))
  have inv0: "link_inv sha ?u" by (rule link_machine.step_inv [OF link_machine.reach_inv [OF assms(1)] step])
  have "map_of (rows (lw_store ?u)) ?k = Some l" "Reported ?k \<in> set (lw_log ?u)"
    using present(1) by (simp_all add: register_log_def)
  from row_run [OF assms(5) inv0 this] obtain l' where inv: "link_inv sha v" and rep: "Reported ?k \<in> set (lw_log v)"
    and l: "map_of (rows (lw_store v)) ?k = Some l'" and fl: "follows l l'" by blast
  note fr = follows_frame [OF fl]
  have "\<exists>s' c. claim_download sha cf' no_faults no_faults busy' now' (lk_token_sha l') consume (lw_store v) = (s', Claimed c) \<and>
       lk_link_id (cd_link c) = ?k \<and> sha (cd_content c) = lk_sha l' \<and> int (length (cd_content c)) = lk_bytes l'"
    if "\<not> link_spent l'"
    by (rule unspent_link_is_served [OF inv rep l]) (use that assms(6-9) fr in simp_all)
  with l fl fr show ?thesis by auto
qed

subsection \<open>Exports\<close>

lemma export_snapshot_staged:
  assumes "export_snapshot sha base_name maximum reply busy now path name st d = (d', Inr sn)"
  obtains bytes where "map_of (pd_staging d') name = Some (Regular bytes, now)" "sn_staging sn = name"
    "int (length bytes) = sn_size sn" "sha bytes = sn_sha sn" "so_sha st = Some (sn_sha sn)"
    "pd_payloads d' = pd_payloads d"
proof -
  from assms obtain n digest d1 bytes where e: "so_size st = Some n" "so_sha st = Some digest" "0 \<le> n"
    "open_private_staging True now name d = (d1, Inr ())" "length bytes = nat n" "sha bytes = digest"
    "d' = write_staging now name bytes d1" "sn_staging sn = name" "sn_size sn = n" "sn_sha sn = digest"
    by (auto simp: export_snapshot_def assert_shareable_size_def Let_def
        split: bool.splits option.splits sum.splits prod.splits if_splits)
  from e(4) have d1: "d1 = d\<lparr>pd_staging := AList.update name (Regular [], now) (pd_staging d)\<rparr>"
    by (auto simp: open_private_staging_def split: if_splits)
  have d': "d' = d1\<lparr>pd_staging := AList.update name (Regular bytes, now) (pd_staging d1)\<rparr>"
    unfolding e(7) by (simp add: write_staging_def d1)
  show thesis
    by (rule that [of bytes]) (use e(1-3,5,6,8-10) in \<open>simp_all add: d' d1\<close>)
qed

lemma exported_snapshot_staged_ok:
  "export_snapshot sha base_name maximum reply busy now path name st d = (d', Inr sn) \<Longrightarrow> staged_ok sha sn d'"
  by (erule export_snapshot_staged) (simp add: staged_ok_def)

text \<open>
  C28. Exporting a file of an executor ends after a bounded number of requests, whatever the executor
  answers: at most one per byte of the file and one per byte of the first chunk size.
\<close>

theorem export_calls_bounded:
  assumes "so_size st = Some (int n)"
    and "\<And>j. j < n + default_transfer_chunk_bytes \<Longrightarrow> reply j = reply' j"
  shows "export_snapshot sha base_name maximum reply busy now path name st d =
    export_snapshot sha base_name maximum reply' busy now path name st d"
proof -
  have "export_loop sha reply n 0 default_transfer_chunk_bytes 0 [] =
      export_loop sha reply' n 0 default_transfer_chunk_bytes 0 []"
    by (rule export_loop_bounded) (use assms(2) in simp)
  then show ?thesis using assms(1) by (cases "so_regular st"; cases "so_sha st") (simp_all add: export_snapshot_def split: sum.split prod.split)
qed

text \<open>
  C29. Exporting a shareable file from an executor that answers truthfully succeeds, however small the
  answers that a proxy on the way lets through: the staging file holds exactly the bytes of the file,
  and the snapshot carries their length and digest.
\<close>

theorem export_delivers_file:
  assumes "1 \<le> limit" and "maximum \<le> 0 \<or> int (length content) \<le> maximum"
    and "map_of (pd_staging d) name = None"
    and "so_regular st" "so_size st = Some (int (length content))" "so_sha st = Some (sha content)"
  shows "\<exists>d' sn. export_snapshot sha base_name maximum (honest_reply sha content limit) busy now path name st d = (d', Inr sn) \<and>
    map_of (pd_staging d') name = Some (Regular content, now) \<and> sn_staging sn = name \<and>
    sn_size sn = int (length content) \<and> sn_sha sn = sha content \<and> pd_payloads d' = pd_payloads d"
proof -
  have "export_loop sha (honest_reply sha content limit) (length content) 0 default_transfer_chunk_bytes 0 [] = Inr content"
    by (rule export_loop_honest) (use assms(1) in \<open>simp_all add: default_transfer_chunk_bytes_def\<close>)
  then show ?thesis
    using assms(2-)
    by (auto simp: export_snapshot_def assert_shareable_size_def open_private_staging_def write_staging_def Let_def)
qed

section \<open>Witnesses\<close>

definition link_demo_sha :: "octets \<Rightarrow> ustr" where
  "link_demo_sha bytes = replicate 64 (48 + length bytes mod 10)"

definition link_demo_token :: ustr where
  "link_demo_token = replicate 64 97"

definition link_demo_staging :: ustr where
  "link_demo_staging = lit ''.a.tmp''"

definition link_demo_link_id :: ustr where
  "link_demo_link_id = lit ''link_aaaaaaaaaaaaaaaaaaaaaa''"

definition link_demo_payload_id :: ustr where
  "link_demo_payload_id = lit ''payload_aaaaaaaaaaaaaaaaaaaaaa''"

definition link_demo_stat :: stat_output where
  "link_demo_stat = \<lparr>so_regular = True, so_size = Some 3, so_sha = Some (link_demo_sha [1, 2, 3]), so_path = lit ''a''\<rparr>"

theorem export_delivers_file_witness:
  "\<exists>d' sn. export_snapshot link_demo_sha (\<lambda>p. p) 10 (honest_reply link_demo_sha [1, 2, 3] 2) (\<lambda>_. False) 0 (lit ''a'')
      link_demo_staging link_demo_stat \<lparr>pd_payloads = [], pd_staging = []\<rparr> = (d', Inr sn) \<and> sn_size sn = 3"
  using export_delivers_file [of 2 10 "[1, 2, 3]" "\<lparr>pd_payloads = [], pd_staging = []\<rparr>" link_demo_staging link_demo_stat link_demo_sha
      "\<lambda>p. p" "\<lambda>_. False" 0 "lit ''a''"]
  by (auto simp: link_demo_stat_def)

theorem export_calls_bounded_witness:
  "export_snapshot link_demo_sha (\<lambda>p. p) 10 (honest_reply link_demo_sha [1, 2, 3] 2) (\<lambda>_. False) 0 (lit ''a'')
     link_demo_staging link_demo_stat \<lparr>pd_payloads = [], pd_staging = []\<rparr> =
   export_snapshot link_demo_sha (\<lambda>p. p) 10
     (\<lambda>j. if j < 2000000 then honest_reply link_demo_sha [1, 2, 3] 2 j else (\<lambda>_ _. CallFailed)) (\<lambda>_. False) 0 (lit ''a'')
     link_demo_staging link_demo_stat \<lparr>pd_payloads = [], pd_staging = []\<rparr>"
  by (rule export_calls_bounded [of _ 3]) (simp_all add: link_demo_stat_def default_transfer_chunk_bytes_def)

definition link_demo_cf :: link_config where
  "link_demo_cf = \<lparr>cf_enabled = True, cf_default_ttl = 100, cf_max_ttl = 1000, cf_default_max_downloads = 2, cf_max_file_bytes = 0\<rparr>"

definition link_demo_snapshot :: snapshot where
  "link_demo_snapshot = \<lparr>sn_staging = link_demo_staging, sn_display_path = lit ''a'', sn_source_name = lit ''a'', sn_size = 3,
     sn_sha = link_demo_sha [1, 2, 3]\<rparr>"

definition link_demo_draws :: link_draws where
  "link_demo_draws = \<lparr>dr_token_sha = link_demo_token, dr_link_id = link_demo_link_id, dr_payload_id = link_demo_payload_id,
     dr_media_type = lit ''text/plain'', dr_moved = True, dr_dies = False\<rparr>"

definition link_demo_request :: link_request where
  "link_demo_request = \<lparr>rq_ttl = None, rq_filename = None, rq_max_downloads = None, rq_inline = False, rq_session_id = None\<rparr>"

definition link_demo_store :: "links_cell \<Rightarrow> links_cell \<Rightarrow> (ustr, leaf) dict \<Rightarrow> (ustr, leaf \<times> time) dict \<Rightarrow> link_store" where
  "link_demo_store p b ps st =
     \<lparr>ls_files = \<lparr>lf_primary = p, lf_backup = b\<rparr>, ls_payloads = \<lparr>pd_payloads = ps, pd_staging = st\<rparr>\<rparr>"

definition link_demo_row :: file_link where
  "link_demo_row = \<lparr>lk_link_id = link_demo_link_id, lk_token_sha = link_demo_token, lk_fingerprint = take 16 link_demo_token,
     lk_payload_id = link_demo_payload_id, lk_display_path = Some (lit ''a''), lk_filename = lit ''a'', lk_inline = False,
     lk_media_type = lit ''text/plain'', lk_bytes = 3, lk_sha = link_demo_sha [1, 2, 3], lk_created_at = 5, lk_expires_at = 105,
     lk_downloads = 0, lk_max_downloads = 2, lk_session_id = None, lk_last_download_at = None\<rparr>"

lemma link_demo_row_ok: "link_ok link_demo_row" "link_ok (count_download 6 link_demo_row)"
  by code_simp+

lemma link_demo_register:
  "register_snapshot link_demo_cf (\<lambda>p. p) no_faults no_faults (\<lambda>_. False) 5 link_demo_snapshot link_demo_request link_demo_draws
     (link_demo_store LinksAbsent LinksAbsent [] [(link_demo_staging, Regular [1, 2, 3], 4)]) =
   (link_demo_store (LinksDoc 3 [(link_demo_link_id, link_demo_row)]) (LinksDoc 3 [(link_demo_link_id, link_demo_row)])
      [(link_demo_payload_id, Regular [1, 2, 3])] [], Inr link_demo_row)"
  by code_simp

definition link_demo_staged :: link_world where
  "link_demo_staged = \<lparr>lw_store = link_demo_store LinksAbsent LinksAbsent [] [(link_demo_staging, Regular [1, 2, 3], 4)],
     lw_claims = [], lw_log = []\<rparr>"

definition link_demo_created :: link_world where
  "link_demo_created = \<lparr>lw_store = link_demo_store (LinksDoc 3 [(link_demo_link_id, link_demo_row)]) (LinksDoc 3 [(link_demo_link_id, link_demo_row)])
       [(link_demo_payload_id, Regular [1, 2, 3])] [],
     lw_claims = [], lw_log = [Reported link_demo_link_id, Issued link_demo_row]\<rparr>"

definition link_demo_revoked :: link_world where
  "link_demo_revoked = \<lparr>lw_store = link_demo_store (LinksDoc 3 []) (LinksDoc 3 []) [] [], lw_claims = [],
     lw_log = [Revoked link_demo_link_id, Reported link_demo_link_id, Issued link_demo_row]\<rparr>"

definition link_demo_claimed :: link_world where
  "link_demo_claimed = \<lparr>lw_store = link_demo_store (LinksDoc 3 [(link_demo_link_id, count_download 6 link_demo_row)])
       (LinksDoc 3 [(link_demo_link_id, count_download 6 link_demo_row)]) [(link_demo_payload_id, Regular [1, 2, 3])] [],
     lw_claims = [\<lparr>cd_content = [1, 2, 3], cd_link = count_download 6 link_demo_row, cd_remove = False\<rparr>],
     lw_log = [Served link_demo_link_id, Reported link_demo_link_id, Issued link_demo_row]\<rparr>"

lemma link_demo_staged_reach: "reach link_init (link_step link_demo_sha) link_demo_staged"
proof -
  let ?e = "\<lparr>pd_payloads = [], pd_staging = []\<rparr>"
  let ?w0 = "\<lparr>lw_store = link_demo_store LinksAbsent LinksAbsent [] [], lw_claims = [], lw_log = []\<rparr>"
  let ?w1 = "\<lparr>lw_store = link_demo_store LinksAbsent LinksAbsent [] [(link_demo_staging, Regular [], 4)], lw_claims = [], lw_log = []\<rparr>"
  have "reach link_init (link_step link_demo_sha) ?w0"
    by (rule reach_init) (simp add: link_init_def link_demo_store_def)
  moreover have "link_step link_demo_sha ?w0 ?w1"
    using link_step.stage [of "?e\<lparr>pd_staging := [(link_demo_staging, Regular [], 4)]\<rparr>" 4 link_demo_staging ?w0 "[]" link_demo_sha]
    by (simp add: link_demo_store_def open_private_staging_def)
  moreover have "link_step link_demo_sha ?w1 link_demo_staged"
    using link_step.stage [of "?e\<lparr>pd_staging := [(link_demo_staging, Regular [1, 2, 3], 4)]\<rparr>" 4 link_demo_staging ?w1 "[1, 2, 3]" link_demo_sha]
    by (simp add: link_demo_store_def write_staging_def link_demo_staged_def)
  ultimately show ?thesis by (blast intro: reach_step)
qed

lemma link_demo_created_reach: "reach link_init (link_step link_demo_sha) link_demo_created"
proof (rule reach_step [OF link_demo_staged_reach])
  have row: "link_row link_demo_cf (\<lambda>p. p) 5 link_demo_snapshot link_demo_request link_demo_draws = Inr link_demo_row"
    by code_simp
  have r: "register_snapshot link_demo_cf (\<lambda>p. p) no_faults no_faults (\<lambda>_. False) 5 link_demo_snapshot link_demo_request link_demo_draws
      (lw_store link_demo_staged) = (lw_store link_demo_created, Inr link_demo_row)"
    by (simp add: link_demo_staged_def link_demo_created_def link_demo_register)
  have n: "new_draws link_demo_draws (lw_log link_demo_staged)" "staged_ok link_demo_sha link_demo_snapshot (ls_payloads (lw_store link_demo_staged))"
    by (simp_all add: new_draws_def link_demo_staged_def staged_ok_def link_demo_store_def link_demo_snapshot_def)
  from link_step.register [OF n r] show "link_step link_demo_sha link_demo_staged link_demo_created"
    by (simp add: row link_demo_created_def link_demo_staged_def register_log_def link_demo_row_def)
qed

lemma link_demo_revoke:
  "revoke_file_link_owned no_faults no_faults (\<lambda>_. False) link_demo_link_id None (lw_store link_demo_created) =
     (lw_store link_demo_revoked, Inr True)"
  unfolding link_demo_created_def link_demo_revoked_def by code_simp

lemma link_demo_revoked_reach: "reach link_init (link_step link_demo_sha) link_demo_revoked"
  by (rule reach_step [OF link_demo_created_reach])
    (use link_step.revoke [OF link_demo_revoke] in \<open>simp add: link_demo_revoked_def link_demo_created_def\<close>)

lemma link_demo_claim:
  "claim_download link_demo_sha link_demo_cf no_faults no_faults (\<lambda>_. False) 6 link_demo_token True (lw_store link_demo_created) =
     (lw_store link_demo_claimed, Claimed \<lparr>cd_content = [1, 2, 3], cd_link = count_download 6 link_demo_row, cd_remove = False\<rparr>)"
  unfolding link_demo_created_def link_demo_claimed_def by code_simp

lemma link_demo_claimed_reach: "reach link_init (link_step link_demo_sha) link_demo_claimed"
  by (rule reach_step [OF link_demo_created_reach])
    (use link_step.claim [OF link_demo_claim] in
      \<open>simp add: link_demo_claimed_def link_demo_created_def claims_of_def claim_log_def count_download_def link_demo_row_def\<close>)

theorem link_uses_bounded_witness:
  "served link_demo_link_id (lw_log link_demo_claimed) = 1 \<and> served link_demo_link_id (lw_log link_demo_claimed) \<le> 2"
  using link_uses_bounded [OF link_demo_claimed_reach, of link_demo_row]
  by (simp add: link_demo_claimed_def link_demo_row_def)

theorem revoked_link_stays_dead_witness:
  "snd (claim_download link_demo_sha link_demo_cf no_faults no_faults (\<lambda>_. False) 6 link_demo_token True (lw_store link_demo_revoked)) \<noteq>
     Claimed \<lparr>cd_content = [1, 2, 3], cd_link = count_download 6 link_demo_row, cd_remove = False\<rparr>"
  by (rule revoked_link_stays_dead [OF link_demo_revoked_reach, of link_demo_link_id])
    (simp_all add: link_demo_revoked_def count_download_def link_demo_row_def)

theorem live_link_is_served_witness:
  "\<exists>s c. claim_download link_demo_sha link_demo_cf no_faults no_faults (\<lambda>_. False) 6 link_demo_token True (lw_store link_demo_created) = (s, Claimed c) \<and>
     link_demo_sha (cd_content c) = link_demo_sha [1, 2, 3]"
proof -
  have r: "register_snapshot link_demo_cf (\<lambda>p. p) no_faults no_faults (\<lambda>_. False) 5 link_demo_snapshot link_demo_request link_demo_draws
      (lw_store link_demo_staged) = (lw_store link_demo_created, Inr link_demo_row)"
    by (simp add: link_demo_staged_def link_demo_created_def link_demo_register)
  have n: "new_draws link_demo_draws (lw_log link_demo_staged)" "staged_ok link_demo_sha link_demo_snapshot (ls_payloads (lw_store link_demo_staged))"
    by (simp_all add: new_draws_def link_demo_staged_def staged_ok_def link_demo_store_def link_demo_snapshot_def)
  have v: "link_demo_staged\<lparr>lw_store := lw_store link_demo_created, lw_log := register_log (Inr link_demo_row) (Inr link_demo_row) @ lw_log link_demo_staged\<rparr>
      = link_demo_created"
    by (simp add: link_demo_created_def link_demo_staged_def register_log_def link_demo_row_def)
  have run: "reach ((=) link_demo_created) (keeps_live link_demo_sha (lk_link_id link_demo_row)) link_demo_created"
    by (rule reach_init) (rule refl)
  have m: "map_of (rows (lw_store link_demo_created)) (lk_link_id link_demo_row) = Some link_demo_row"
    by (rule register_present [OF r])
  show ?thesis
    using live_link_is_served [OF link_demo_staged_reach n r, unfolded v, OF run, of 6 link_demo_cf "\<lambda>_. False" True] m
    by (auto simp: link_demo_row_def link_spent_def link_demo_cf_def)
qed

end
