(* ===== verification/Registry_Recovery.thy ===== *)
theory Registry_Recovery
  imports State_Store
begin

text \<open>
  Generation-fenced recovery of the two restart-critical Control registries,
  \<open>src/src/workgate/control/registry_recovery.py\<close>.

  A registry is three files: the primary, its mirror (\<open>.bak\<close>) and the fence
  (\<open>.generation\<close>). \<open>write_registry\<close> publishes a fresh generation in the fence, then the
  primary, then the mirror; \<open>load_registry\<close> trusts a valid primary, or else the mirror only if
  the fence names its generation. \<open>validate\<close> is the caller's parser: \<open>None\<close> when it raises one of
  the exceptions the loader catches. Every write takes its \<open>outcome\<close>, which also covers a crash.

  The second half is the world these calls run in: any sequence of writes with any outcomes,
  of restarts, and of damage to the primary. What was last committed is a ghost field.
\<close>

section \<open>The two operations\<close>

record registry =
  primary :: cell
  backup :: cell
  marker :: cell

text \<open>\<open>_GENERATION_RE\<close> and \<open>_generation\<close>\<close>

definition generation_re :: "ustr \<Rightarrow> bool" where
  "generation_re g \<longleftrightarrow> length g = 32 \<and> list_all is_hex g"

definition generation :: "json \<Rightarrow> exn + ustr option" where
  "generation v =
     (case v of
        JNull \<Rightarrow> Inr None
      | JStr g \<Rightarrow> if generation_re g then Inr (Some g) else Inl ValueError
      | _ \<Rightarrow> Inl ValueError)"

abbreviation gen_key :: ustr where
  "gen_key \<equiv> lit ''generation''"

definition marker_doc :: "ustr \<Rightarrow> json" where
  "marker_doc g = JObj [(gen_key, JStr g)]"

definition write_registry ::
  "ustr \<Rightarrow> outcome \<times> outcome \<times> outcome \<Rightarrow> (ustr \<times> json) list \<Rightarrow> registry \<Rightarrow> registry \<times> bool" where
  "write_registry g ws value r =
     (case ws of (w1, w2, w3) \<Rightarrow>
      let payload = JObj (obj_put gen_key (JStr g) value);
          (m, ok1) = write_json w1 (marker_doc g) (marker r);
          r = r\<lparr>marker := m\<rparr>
      in if \<not> ok1 then (r, False)
         else let (p, ok2) = write_json w2 payload (primary r);
                  r = r\<lparr>primary := p\<rparr>
              in if \<not> ok2 then (r, False)
                 else (r\<lparr>backup := fst (write_json w3 payload (backup r))\<rparr>, True))"

abbreviation read_whole :: "cell \<Rightarrow> exn + json" where
  "read_whole \<equiv> read_json (\<lambda>_. 0) None"

text \<open>The first \<open>try\<close>: the parsed primary, whether it failed, and the result with its fields.\<close>

definition read_primary ::
  "(json \<Rightarrow> 't option) \<Rightarrow> cell \<Rightarrow> json \<times> bool \<times> ('t \<times> (ustr \<times> json) list \<times> ustr option) option" where
  "read_primary validate c =
     (case read_whole c of
        Inl e \<Rightarrow> (JNull, True, None)
      | Inr v \<Rightarrow>
          if v = JNull then (JNull, False, None)
          else case validate v of
                 None \<Rightarrow> (v, True, None)
               | Some t \<Rightarrow>
                   (case v of
                      JObj kvs \<Rightarrow>
                        (case generation (obj_get kvs gen_key) of
                           Inl e \<Rightarrow> (v, True, None)
                         | Inr g \<Rightarrow> (v, False, Some (t, kvs, g)))
                    | _ \<Rightarrow> (v, True, None)))"

definition needs_repair :: "ustr \<Rightarrow> json \<Rightarrow> registry \<Rightarrow> bool" where
  "needs_repair g p r =
     (case (read_whole (marker r), read_whole (backup r)) of
        (Inr (JObj kvs), Inr b) \<Rightarrow> obj_get kvs gen_key \<noteq> JStr g \<or> b \<noteq> p
      | _ \<Rightarrow> True)"

definition repair :: "outcome \<times> outcome \<Rightarrow> ustr \<Rightarrow> json \<Rightarrow> registry \<Rightarrow> registry" where
  "repair ws g p r =
     (let (m, ok) = write_json (fst ws) (marker_doc g) (marker r);
          r = r\<lparr>marker := m\<rparr>
      in if ok then r\<lparr>backup := fst (write_json (snd ws) p (backup r))\<rparr> else r)"

text \<open>The second \<open>try\<close>: a mirror of the fenced generation, with its parsed value.\<close>

definition fenced_backup :: "(json \<Rightarrow> 't option) \<Rightarrow> registry \<Rightarrow> (json \<times> 't) option" where
  "fenced_backup validate r =
     (case (read_whole (marker r), read_whole (backup r)) of
        (Inr (JObj mk), Inr (JObj bk)) \<Rightarrow>
          (case (generation (obj_get mk gen_key), generation (obj_get bk gen_key)) of
             (Inr (Some expected), Inr (Some g)) \<Rightarrow>
               if g \<noteq> expected then None
               else map_option (Pair (JObj bk)) (validate (JObj bk))
           | _ \<Rightarrow> None)
      | _ \<Rightarrow> None)"

text \<open>
  \<open>io_generation\<close> and \<open>io_upgrade\<close> are the generation and the outcomes of upgrading a primary that
  has no generation, \<open>io_repair\<close> those of a repair, \<open>io_restore\<close> that of restoring the primary.
\<close>

record load_io =
  io_generation :: ustr
  io_upgrade :: "outcome \<times> outcome \<times> outcome"
  io_repair :: "outcome \<times> outcome"
  io_restore :: outcome

definition load_registry ::
  "(json \<Rightarrow> 't option) \<Rightarrow> load_io \<Rightarrow> registry \<Rightarrow> registry \<times> (exn + 't)" where
  "load_registry validate io r =
     (case read_primary validate (primary r) of
        (p, _, Some (t, kvs, None)) \<Rightarrow> (fst (write_registry (io_generation io) (io_upgrade io) kvs r), Inr t)
      | (p, _, Some (t, kvs, Some g)) \<Rightarrow> (if needs_repair g p r then repair (io_repair io) g p r else r, Inr t)
      | (p, failed, None) \<Rightarrow>
          (case fenced_backup validate r of
             Some (b, t) \<Rightarrow>
               (case write_json (io_restore io) b (primary r) of
                  (c, ok) \<Rightarrow> (r\<lparr>primary := c\<rparr>, if ok then Inr t else Inl OSError))
           | None \<Rightarrow>
               if p = JNull \<and> \<not> failed \<and>
                  \<not> (present (primary r) \<or> present (backup r) \<or> present (marker r))
               then (r, case validate JNull of None \<Rightarrow> Inl RuntimeError | Some t \<Rightarrow> Inr t)
               else (r, Inl RuntimeError)))"

section \<open>What the operations read and write\<close>

definition doc_gen :: "json \<Rightarrow> ustr option" where
  "doc_gen v =
     (case v of
        JObj kvs \<Rightarrow>
          (case generation (obj_get kvs gen_key) of Inr (Some g) \<Rightarrow> Some g | _ \<Rightarrow> None)
      | _ \<Rightarrow> None)"

definition cell_gen :: "cell \<Rightarrow> ustr option" where
  "cell_gen c = (case c of Doc v \<Rightarrow> doc_gen v | _ \<Rightarrow> None)"

definition payload :: "ustr \<Rightarrow> (ustr \<times> json) list \<Rightarrow> json" where
  "payload g value = JObj (obj_put gen_key (JStr g) value)"

lemma payload_not_null [simp]: "payload g value \<noteq> JNull"
  by (simp add: payload_def)

lemma doc_gen_payload [simp]: "generation_re g \<Longrightarrow> doc_gen (payload g value) = Some g"
  by (simp add: doc_gen_def payload_def generation_def)

lemma doc_gen_marker [simp]: "generation_re g \<Longrightarrow> doc_gen (marker_doc g) = Some g"
  by (simp add: doc_gen_def marker_doc_def generation_def obj_get_def)

lemma cell_gen_simps [simp]:
  "cell_gen (Doc v) = doc_gen v"
  "cell_gen Absent = None" "cell_gen Dangling = None"
  "cell_gen Blocked = None" "cell_gen Garbage = None"
  by (simp_all add: cell_gen_def)

lemma doc_gen_JObj: "doc_gen v = Some g \<Longrightarrow> \<exists>kvs. v = JObj kvs"
  by (cases v) (auto simp: doc_gen_def)

lemma generation_re_doc_gen: "doc_gen v = Some g \<Longrightarrow> generation_re g"
  by (auto simp: doc_gen_def generation_def split: json.splits sum.splits option.splits if_splits)

definition primary_lands :: "outcome \<times> outcome \<times> outcome \<Rightarrow> bool" where
  "primary_lands ws = (case ws of (w1, w2, w3) \<Rightarrow> reports w1 \<and> lands w2)"

lemma write_registry_files:
  "fst (write_registry g (w1, w2, w3) value r) =
     \<lparr>primary = (if reports w1 \<and> lands w2 then Doc (payload g value) else primary r),
      backup = (if reports w1 \<and> reports w2 \<and> lands w3 then Doc (payload g value) else backup r),
      marker = (if lands w1 then Doc (marker_doc g) else marker r)\<rparr>"
  by (cases w1; cases w2; cases w3)
    (simp_all add: write_registry_def write_json_def payload_def Let_def)

lemma write_registry_ok:
  "snd (write_registry g (w1, w2, w3) value r) \<longleftrightarrow> reports w1 \<and> reports w2"
  by (cases w1; cases w2) (simp_all add: write_registry_def write_json_def Let_def)

lemma repair_files:
  "repair (w1, w2) g p r =
     r\<lparr>marker := (if lands w1 then Doc (marker_doc g) else marker r),
       backup := (if reports w1 \<and> lands w2 then Doc p else backup r)\<rparr>"
  by (cases w1; cases w2) (simp_all add: repair_def write_json_def Let_def)

lemma read_primary_Some:
  assumes "read_primary validate c = (p, f, Some (t, kvs, g))"
  shows "c = Doc (JObj kvs) \<and> p = JObj kvs \<and> validate (JObj kvs) = Some t \<and>
    generation (obj_get kvs gen_key) = Inr g"
  using assms by (cases c)
    (auto simp: read_primary_def split: if_splits option.splits json.splits sum.splits)

lemma read_primary_Doc:
  "doc_gen p = Some g \<Longrightarrow> validate p = Some t \<Longrightarrow>
   \<exists>kvs. p = JObj kvs \<and> read_primary validate (Doc p) = (p, False, Some (t, kvs, Some g))"
  by (cases p) (auto simp: doc_gen_def read_primary_def split: sum.splits option.splits)

lemma read_primary_damaged: "(\<forall>v. c \<noteq> Doc v) \<Longrightarrow> \<exists>f. read_primary validate c = (JNull, f, None)"
  by (cases c) (auto simp: read_primary_def)

lemma fenced_backup_Some:
  assumes "fenced_backup validate r = Some (b, t)"
  shows "\<exists>g. backup r = Doc b \<and> doc_gen b = Some g \<and> cell_gen (marker r) = Some g \<and> validate b = Some t"
  using assms by (cases "marker r"; cases "backup r")
    (auto simp: fenced_backup_def doc_gen_def split: json.splits sum.splits option.splits if_splits)

lemma fenced_backup_intro:
  assumes "backup r = Doc b" "doc_gen b = Some g" "cell_gen (marker r) = Some g" "validate b = Some t"
  shows "fenced_backup validate r = Some (b, t)"
proof -
  obtain m where "marker r = Doc m" using assms(3) by (cases "marker r") auto
  with assms show ?thesis
    by (auto simp: fenced_backup_def doc_gen_def split: json.splits sum.splits option.splits)
qed

lemma needs_repair_False:
  "\<not> needs_repair g p r \<Longrightarrow> generation_re g \<Longrightarrow> backup r = Doc p \<and> cell_gen (marker r) = Some g \<or> p = JNull"
  by (cases "marker r"; cases "backup r")
    (auto simp: needs_repair_def doc_gen_def generation_def split: json.splits)

lemmas registry_io = write_registry_files write_registry_ok repair_files

section \<open>Writes, restarts and damage\<close>

record reg_world =
  reg_files :: registry
  committed :: "json option"
  used :: "ustr set"

definition reg_init :: "reg_world \<Rightarrow> bool" where
  "reg_init w \<longleftrightarrow>
     reg_files w = \<lparr>primary = Absent, backup = Absent, marker = Absent\<rparr> \<and>
     committed w = None \<and> used w = {}"

text \<open>
  \<open>secrets.token_hex(16)\<close> yields 32 hexadecimal digits; that it never repeats a value is the
  assumption \<open>g \<notin> used w\<close> of a write. Damage turns a file into anything that is not a document;
  a deleted fence is not damage (nothing then distinguishes the state from a first run).
\<close>

inductive reg_step :: "(json \<Rightarrow> 't option) \<Rightarrow> reg_world \<Rightarrow> reg_world \<Rightarrow> bool" for validate where
  reg_write: "generation_re g \<Longrightarrow> g \<notin> used w \<Longrightarrow>
     reg_step validate w
       (w\<lparr>reg_files := fst (write_registry g ws value (reg_files w)),
          committed := (if primary_lands ws then Some (payload g value) else committed w),
          used := insert g (used w)\<rparr>)"
| reg_restart:
     "reg_step validate w (w\<lparr>reg_files := fst (load_registry validate io (reg_files w))\<rparr>)"
| damage_primary: "\<forall>v. c \<noteq> Doc v \<Longrightarrow>
     reg_step validate w (w\<lparr>reg_files := (reg_files w)\<lparr>primary := c\<rparr>\<rparr>)"
| damage_backup: "\<forall>v. c \<noteq> Doc v \<Longrightarrow>
     reg_step validate w (w\<lparr>reg_files := (reg_files w)\<lparr>backup := c\<rparr>\<rparr>)"
| damage_marker: "\<forall>v. c \<noteq> Doc v \<Longrightarrow> present c \<Longrightarrow>
     reg_step validate w (w\<lparr>reg_files := (reg_files w)\<lparr>marker := c\<rparr>\<rparr>)"

text \<open>
  The mirror is current whenever the fence or the last commit names its generation, and the
  fence exists as soon as something was committed.
\<close>

definition mirror_current :: "registry \<Rightarrow> json option \<Rightarrow> bool" where
  "mirror_current r com \<longleftrightarrow>
     (\<forall>g. cell_gen (backup r) = Some g \<longrightarrow>
        cell_gen (marker r) = Some g \<or> Option.bind com doc_gen = Some g \<longrightarrow>
        map_option Doc com = Some (backup r))"

definition reg_inv :: "reg_world \<Rightarrow> bool" where
  "reg_inv w \<longleftrightarrow>
     (\<forall>p. primary (reg_files w) = Doc p \<longrightarrow> committed w = Some p) \<and>
     mirror_current (reg_files w) (committed w) \<and>
     (\<forall>g. cell_gen (backup (reg_files w)) = Some g \<longrightarrow> g \<in> used w) \<and>
     (\<forall>g. Option.bind (committed w) doc_gen = Some g \<longrightarrow> g \<in> used w) \<and>
     (\<forall>p. committed w = Some p \<longrightarrow> doc_gen p \<noteq> None \<and> present (marker (reg_files w)))"

lemma reg_inv_init: "reg_init w \<Longrightarrow> reg_inv w"
  by (simp add: reg_init_def reg_inv_def mirror_current_def)

lemma reg_inv_write:
  assumes "reg_inv w" "generation_re g" "g \<notin> used w"
  shows "reg_inv (w\<lparr>reg_files := fst (write_registry g ws value (reg_files w)),
          committed := (if primary_lands ws then Some (payload g value) else committed w),
          used := insert g (used w)\<rparr>)"
proof -
  obtain w1 w2 w3 where ws: "ws = (w1, w2, w3)" by (cases ws)
  show ?thesis
    using assms unfolding ws
    by (cases w1; cases w2; cases w3; cases "committed w"; cases "backup (reg_files w)")
      (auto simp: reg_inv_def mirror_current_def primary_lands_def write_registry_files present_def)
qed

lemma load_registry_files:
  assumes "reg_inv w"
  obtains (same) "fst (load_registry validate io (reg_files w)) = reg_files w"
  | (repaired) p g ws where "committed w = Some p" "doc_gen p = Some g"
      "fst (load_registry validate io (reg_files w)) = repair ws g p (reg_files w)"
  | (restored) b where "committed w = Some b"
      "fst (load_registry validate io (reg_files w)) = (reg_files w)\<lparr>primary := Doc b\<rparr>"
proof -
  obtain p f res where rp: "read_primary validate (primary (reg_files w)) = (p, f, res)"
    by (cases "read_primary validate (primary (reg_files w))")
  show thesis
  proof (cases res)
    case (Some tkg)
    obtain t kvs g where tkg: "tkg = (t, kvs, g)" by (cases tkg)
    from read_primary_Some [OF rp [unfolded Some tkg]]
    have doc: "primary (reg_files w) = Doc (JObj kvs)" "p = JObj kvs"
      "generation (obj_get kvs gen_key) = Inr g" by auto
    with assms have com: "committed w = Some p" "doc_gen p \<noteq> None"
      by (auto simp: reg_inv_def)
    with doc obtain g' where g: "g = Some g'" "doc_gen p = Some g'"
      by (cases g) (auto simp: doc_gen_def)
    show thesis
      using that(1) that(2) [of p g' "io_repair io"] rp Some tkg g com
      by (cases "needs_repair g' p (reg_files w)") (simp_all add: load_registry_def)
  next
    case None
    show thesis
    proof (cases "fenced_backup validate (reg_files w)")
      case None
      with \<open>res = None\<close> rp that(1) show thesis by (auto simp: load_registry_def split: if_splits)
    next
      case (Some bt)
      obtain b t where bt: "bt = (b, t)" by (cases bt)
      from fenced_backup_Some [OF Some [unfolded bt]] assms have "committed w = Some b"
        by (auto simp: reg_inv_def mirror_current_def)
      moreover have "fst (load_registry validate io (reg_files w)) =
          (reg_files w)\<lparr>primary := fst (write_json (io_restore io) b (primary (reg_files w)))\<rparr>"
        using \<open>res = None\<close> rp Some bt by (simp add: load_registry_def split: prod.splits)
      ultimately show thesis
        using that(1,3) by (cases "lands (io_restore io)") (auto simp: write_json_def)
    qed
  qed
qed

lemma reg_inv_repair:
  assumes "reg_inv w" "committed w = Some p" "doc_gen p = Some g"
  shows "reg_inv (w\<lparr>reg_files := repair ws g p (reg_files w)\<rparr>)"
proof -
  obtain w1 w2 where ws: "ws = (w1, w2)" by (cases ws)
  from assms(3) have "generation_re g" by (rule generation_re_doc_gen)
  with assms show ?thesis
    unfolding ws
    by (cases w1; cases w2)
      (auto simp: reg_inv_def mirror_current_def repair_files present_def)
qed

lemma reg_inv_load:
  assumes "reg_inv w"
  shows "reg_inv (w\<lparr>reg_files := fst (load_registry validate io (reg_files w))\<rparr>)"
  using assms
proof (cases rule: load_registry_files [where io = io and validate = validate])
  case same
  with assms show ?thesis by simp
next
  case (repaired p g ws)
  with assms show ?thesis by (simp add: reg_inv_repair)
next
  case (restored b)
  with assms show ?thesis by (auto simp: reg_inv_def mirror_current_def)
qed

lemma reg_inv_damage:
  assumes "reg_inv w" "\<forall>v. c \<noteq> Doc v"
  shows "reg_inv (w\<lparr>reg_files := (reg_files w)\<lparr>primary := c\<rparr>\<rparr>)"
    and "reg_inv (w\<lparr>reg_files := (reg_files w)\<lparr>backup := c\<rparr>\<rparr>)"
    and "present c \<Longrightarrow> reg_inv (w\<lparr>reg_files := (reg_files w)\<lparr>marker := c\<rparr>\<rparr>)"
proof -
  have gen: "cell_gen c = None" using assms(2) by (cases c) auto
  show "reg_inv (w\<lparr>reg_files := (reg_files w)\<lparr>primary := c\<rparr>\<rparr>)"
    and "reg_inv (w\<lparr>reg_files := (reg_files w)\<lparr>backup := c\<rparr>\<rparr>)"
    using assms gen by (simp_all add: reg_inv_def mirror_current_def)
  show "reg_inv (w\<lparr>reg_files := (reg_files w)\<lparr>marker := c\<rparr>\<rparr>)" if "present c"
    using assms(1) gen that by (simp add: reg_inv_def mirror_current_def)
qed

interpretation recovery: invariant_machine reg_init "reg_step validate" reg_inv
  for validate :: "json \<Rightarrow> 't option"
  by unfold_locales
    (auto elim!: reg_step.cases intro: reg_inv_init reg_inv_write reg_inv_load reg_inv_damage)

section \<open>Correctness of recovery\<close>

lemma load_registry_result:
  assumes "snd (load_registry validate io r) = Inr t"
  obtains (from_primary) p where "primary r = Doc p" "validate p = Some t"
  | (from_backup) b g where "backup r = Doc b" "doc_gen b = Some g" "cell_gen (marker r) = Some g"
      "validate b = Some t"
  | (first_run) "r = \<lparr>primary = Absent, backup = Absent, marker = Absent\<rparr>" "validate JNull = Some t"
proof -
  obtain p f res where rp: "read_primary validate (primary r) = (p, f, res)"
    by (cases "read_primary validate (primary r)")
  show thesis
  proof (cases res)
    case (Some tkg)
    obtain t' kvs g where tkg: "tkg = (t', kvs, g)" by (cases tkg)
    from read_primary_Some [OF rp [unfolded Some tkg]] assms rp Some tkg that(1) show thesis
      by (cases g) (auto simp: load_registry_def)
  next
    case None
    show thesis
    proof (cases "fenced_backup validate r")
      case (Some bt)
      obtain b t' where bt: "bt = (b, t')" by (cases bt)
      have "t' = t" using assms rp None Some bt
        by (auto simp: load_registry_def split: prod.splits if_splits)
      with fenced_backup_Some [OF Some [unfolded bt]] that(2) show thesis by blast
    next
      case none: None
      with assms rp None that(3) show thesis
        by (cases r) (auto simp: load_registry_def present_def split: if_splits option.splits)
    qed
  qed
qed

text \<open>
  C1. Recovery is never stale. In every state that writes with any outcome, restarts and damage
  can produce, a load that succeeds returns the parse of the last document whose primary write
  reached the disk (or of the empty registry when nothing was ever committed): a mirror of an
  older generation is never trusted.
\<close>

theorem recovery_never_stale:
  assumes "reach reg_init (reg_step validate) w"
    and "snd (load_registry validate io (reg_files w)) = Inr t"
  shows "validate (case committed w of None \<Rightarrow> JNull | Some p \<Rightarrow> p) = Some t"
proof -
  have inv: "reg_inv w" using assms(1) by (rule recovery.reach_inv)
  from assms(2) show ?thesis
  proof (cases rule: load_registry_result)
    case (from_primary p)
    with inv show ?thesis by (auto simp: reg_inv_def)
  next
    case (from_backup b g)
    with inv have "committed w = Some b" by (auto simp: reg_inv_def mirror_current_def)
    with from_backup show ?thesis by simp
  next
    case first_run
    with inv have "committed w = None" by (cases "committed w") (simp_all add: reg_inv_def present_def)
    with first_run show ?thesis by simp
  qed
qed

text \<open>A concrete run: one complete write, then a destroyed primary.\<close>

definition demo_gen :: ustr where
  "demo_gen = replicate 32 48"

definition demo_io :: load_io where
  "demo_io = \<lparr>io_generation = demo_gen, io_upgrade = (Landed, Landed, Landed),
     io_repair = (Landed, Landed), io_restore = Landed\<rparr>"

definition demo_files :: registry where
  "demo_files = \<lparr>primary = Garbage, backup = Doc (payload demo_gen []), marker = Doc (marker_doc demo_gen)\<rparr>"

definition demo_world :: reg_world where
  "demo_world = \<lparr>reg_files = demo_files, committed = Some (payload demo_gen []), used = {demo_gen}\<rparr>"

lemma demo_gen_re [simp]: "generation_re demo_gen"
  by (simp add: generation_re_def demo_gen_def is_hex_def is_digit_def list_all_iff)

lemma demo_reach: "reach reg_init (reg_step validate) demo_world"
proof -
  let ?w0 = "\<lparr>reg_files = \<lparr>primary = Absent, backup = Absent, marker = Absent\<rparr>,
    committed = None, used = {}\<rparr>"
  let ?w1 = "?w0\<lparr>reg_files := fst (write_registry demo_gen (Landed, Landed, Landed) [] (reg_files ?w0)),
    committed := (if primary_lands (Landed, Landed, Landed) then Some (payload demo_gen [])
      else committed ?w0), used := insert demo_gen (used ?w0)\<rparr>"
  have "reach reg_init (reg_step validate) ?w0"
    by (rule reach_init) (simp add: reg_init_def)
  moreover have "reg_step validate ?w0 ?w1"
    by (rule reg_write) simp_all
  moreover have "reg_step validate ?w1 (?w1\<lparr>reg_files := (reg_files ?w1)\<lparr>primary := Garbage\<rparr>\<rparr>)"
    by (rule damage_primary) simp
  ultimately have "reach reg_init (reg_step validate) (?w1\<lparr>reg_files := (reg_files ?w1)\<lparr>primary := Garbage\<rparr>\<rparr>)"
    by (blast intro: reach_step)
  then show ?thesis
    by (simp add: demo_world_def demo_files_def write_registry_files primary_lands_def)
qed

lemma load_fenced:
  assumes "\<forall>v. primary r \<noteq> Doc v" "backup r = Doc b" "doc_gen b = Some g"
    "cell_gen (marker r) = Some g" "validate b = Some t" "io_restore io = Landed"
  shows "load_registry validate io r = (r\<lparr>primary := Doc b\<rparr>, Inr t)"
  using read_primary_damaged [OF assms(1), of validate]
    fenced_backup_intro [where validate = validate, OF assms(2-5)] assms(6)
  by (auto simp: load_registry_def write_json_def)

theorem recovery_never_stale_witness:
  "reach reg_init (reg_step Some) demo_world \<and>
   snd (load_registry Some demo_io (reg_files demo_world)) = Inr (payload demo_gen []) \<and>
   Some (case committed demo_world of None \<Rightarrow> JNull | Some p \<Rightarrow> p) = Some (payload demo_gen [])"
proof -
  have load: "snd (load_registry Some demo_io (reg_files demo_world)) = Inr (payload demo_gen [])"
    by (simp add: demo_world_def demo_files_def demo_io_def load_fenced [where g = demo_gen])
  from recovery_never_stale [OF demo_reach load] demo_reach load show ?thesis by simp
qed

text \<open>
  A complete write is recoverable. Once a write has gone through its three files, whatever
  happens to the primary short of leaving a document in it, the next load returns the value
  written and puts all three files back.
\<close>

theorem complete_write_recoverable:
  assumes "generation_re g" and "validate (payload g value) = Some t"
    and "\<forall>v. c \<noteq> Doc v" and "io_restore io = Landed"
  shows "load_registry validate io
      ((fst (write_registry g (Landed, Landed, Landed) value r))\<lparr>primary := c\<rparr>) =
    (fst (write_registry g (Landed, Landed, Landed) value r), Inr t)"
  using assms
  by (subst load_fenced [where b = "payload g value" and g = g]) (simp_all add: write_registry_files)

theorem complete_write_recoverable_witness:
  "load_registry Some demo_io
      ((fst (write_registry demo_gen (Landed, Landed, Landed) [] demo_files))\<lparr>primary := Blocked\<rparr>) =
    (fst (write_registry demo_gen (Landed, Landed, Landed) [] demo_files), Inr (payload demo_gen []))"
  by (rule complete_write_recoverable) (simp_all add: demo_io_def)



text \<open>
  C3. A first write that is interrupted between the fence and the primary cannot be recovered
  from: every later load of the registry fails and changes nothing, although nothing had been
  committed.
\<close>

theorem interrupted_first_write_blocks_start:
  assumes "lands w1" and "\<not> (reports w1 \<and> lands w2)"
  shows "load_registry validate io
      (fst (write_registry g (w1, w2, w3) value \<lparr>primary = Absent, backup = Absent, marker = Absent\<rparr>)) =
    (\<lparr>primary = Absent, backup = Absent, marker = Doc (marker_doc g)\<rparr>, Inl RuntimeError)"
proof -
  have "\<not> (reports w1 \<and> reports w2 \<and> lands w3)"
    using assms(2) reports_lands by blast
  with assms show ?thesis
    by (auto simp: write_registry_files load_registry_def read_primary_def fenced_backup_def
        marker_doc_def present_def)
qed

theorem interrupted_first_write_blocks_start_witness:
  "load_registry Some demo_io
      (fst (write_registry demo_gen (Landed, Lost, Lost) [] \<lparr>primary = Absent, backup = Absent, marker = Absent\<rparr>)) =
    (\<lparr>primary = Absent, backup = Absent, marker = Doc (marker_doc demo_gen)\<rparr>, Inl RuntimeError)"
  by (rule interrupted_first_write_blocks_start) simp_all

end
