(* ===== verification/Control_State.thy ===== *)
theory Control_State
  imports Protocol Registry_Recovery
begin

text \<open>
  Restart-critical facts of the control runtime, \<open>src/src/workgate/control/state.py\<close>.

  \<open>ControlState\<close> keeps two dictionaries, the trusted executors and the sessions, and publishes
  each change through the generation-fenced registry before exposing it in memory. A record's
  own constraints (field patterns, non-negative timestamps, the model validators) are
  \<open>executor_ok\<close> and \<open>session_ok\<close>. A record is written as the JSON object of its fields and read back
  by a strict decoder that forbids other fields; the coercions pydantic also accepts (a number
  written as a string, say) never appear in files this code writes and are not modelled.
\<close>

section \<open>Records\<close>

record executor_record =
  executor_id :: ustr
  er_name :: ustr
  credential_verifier :: ustr
  er_created_at :: time
  revoked_at :: "time option"
  draining :: bool

datatype session_status = Creating | Active | Terminating | Ended

record session_record =
  session_id :: ustr
  sr_executor_id :: ustr
  task_id :: "ustr option"
  task_created :: bool
  workdir :: "ustr option"
  label :: "ustr option"
  status :: session_status
  executor_absence_confirmed :: bool
  sr_created_at :: time
  sr_updated_at :: time

definition executor_ok :: "executor_record \<Rightarrow> bool" where
  "executor_ok r \<longleftrightarrow>
     executor_id_ok (executor_id r) \<and>
     1 \<le> length (er_name r) \<and> length (er_name r) \<le> 80 \<and>
     verifier_ok (credential_verifier r) \<and> 0 \<le> er_created_at r \<and>
     (case revoked_at r of None \<Rightarrow> True | Some t \<Rightarrow> 0 \<le> t \<and> er_created_at r \<le> t)"

definition session_ok :: "session_record \<Rightarrow> bool" where
  "session_ok r \<longleftrightarrow>
     session_id_ok (session_id r) \<and> executor_id_ok (sr_executor_id r) \<and>
     (case task_id r of None \<Rightarrow> True | Some t \<Rightarrow> task_id_ok t) \<and>
     (case workdir r of None \<Rightarrow> True | Some w \<Rightarrow> length w \<le> 4096) \<and>
     (case label r of None \<Rightarrow> True | Some l \<Rightarrow> length l \<le> 256) \<and>
     0 \<le> sr_created_at r \<and> 0 \<le> sr_updated_at r \<and> sr_created_at r \<le> sr_updated_at r"

section \<open>Records as JSON\<close>

fun enc_opt :: "('a \<Rightarrow> json) \<Rightarrow> 'a option \<Rightarrow> json" where
  "enc_opt f None = JNull"
| "enc_opt f (Some x) = f x"

fun dec_str :: "json \<Rightarrow> ustr option" where
  "dec_str (JStr s) = Some s"
| "dec_str _ = None"

fun dec_num :: "json \<Rightarrow> time option" where
  "dec_num (JNum q) = Some q"
| "dec_num _ = None"

fun dec_bool :: "json \<Rightarrow> bool option" where
  "dec_bool (JBool b) = Some b"
| "dec_bool _ = None"

fun dec_opt :: "(json \<Rightarrow> 'a option) \<Rightarrow> json \<Rightarrow> 'a option option" where
  "dec_opt f JNull = Some None"
| "dec_opt f v = map_option Some (f v)"

fun enc_status :: "session_status \<Rightarrow> json" where
  "enc_status Creating = JStr (lit ''creating'')"
| "enc_status Active = JStr (lit ''active'')"
| "enc_status Terminating = JStr (lit ''terminating'')"
| "enc_status Ended = JStr (lit ''ended'')"

definition dec_status :: "json \<Rightarrow> session_status option" where
  "dec_status v =
     (if v = enc_status Creating then Some Creating
      else if v = enc_status Active then Some Active
      else if v = enc_status Terminating then Some Terminating
      else if v = enc_status Ended then Some Ended else None)"

lemma dec_enc_simps [simp]:
  "dec_opt dec_str (enc_opt JStr s) = Some s"
  "dec_opt dec_num (enc_opt JNum q) = Some q"
  "dec_status (enc_status st) = Some st"
  by (cases s, simp_all, cases q, simp_all, cases st, simp_all add: dec_status_def)

text \<open>A field with a default may be missing.\<close>

definition field_or :: "json \<Rightarrow> (ustr \<times> json) list \<Rightarrow> ustr \<Rightarrow> json" where
  "field_or d kvs k = (case map_of kvs k of None \<Rightarrow> d | Some v \<Rightarrow> v)"

abbreviation missing :: json where
  "missing \<equiv> JList []"

definition executor_dump :: "executor_record \<Rightarrow> json" where
  "executor_dump r = JObj
     [(lit ''created_at'', JNum (er_created_at r)),
      (lit ''credential_verifier'', JStr (credential_verifier r)),
      (lit ''draining'', JBool (draining r)),
      (lit ''executor_id'', JStr (executor_id r)),
      (lit ''name'', JStr (er_name r)),
      (lit ''revoked_at'', enc_opt JNum (revoked_at r))]"

definition executor_fields :: "ustr list" where
  "executor_fields = [lit ''created_at'', lit ''credential_verifier'', lit ''draining'',
     lit ''executor_id'', lit ''name'', lit ''revoked_at'']"

definition executor_validate :: "json \<Rightarrow> executor_record option" where
  "executor_validate v =
     (case v of
        JObj kvs \<Rightarrow>
          (if \<not> set (map fst kvs) \<subseteq> set executor_fields then None
           else case (dec_num (field_or missing kvs (lit ''created_at'')),
                      dec_str (field_or missing kvs (lit ''credential_verifier'')),
                      dec_bool (field_or (JBool False) kvs (lit ''draining'')),
                      dec_str (field_or missing kvs (lit ''executor_id'')),
                      dec_str (field_or missing kvs (lit ''name'')),
                      dec_opt dec_num (field_or JNull kvs (lit ''revoked_at''))) of
                  (Some c, Some ver, Some dr, Some i, Some n, Some rv) \<Rightarrow>
                    (let r = \<lparr>executor_id = i, er_name = n, credential_verifier = ver,
                        er_created_at = c, revoked_at = rv, draining = dr\<rparr>
                     in if executor_ok r then Some r else None)
                | _ \<Rightarrow> None)
      | _ \<Rightarrow> None)"

definition session_dump :: "session_record \<Rightarrow> json" where
  "session_dump r = JObj
     [(lit ''created_at'', JNum (sr_created_at r)),
      (lit ''executor_absence_confirmed'', JBool (executor_absence_confirmed r)),
      (lit ''executor_id'', JStr (sr_executor_id r)),
      (lit ''label'', enc_opt JStr (label r)),
      (lit ''session_id'', JStr (session_id r)),
      (lit ''status'', enc_status (status r)),
      (lit ''task_created'', JBool (task_created r)),
      (lit ''task_id'', enc_opt JStr (task_id r)),
      (lit ''updated_at'', JNum (sr_updated_at r)),
      (lit ''workdir'', enc_opt JStr (workdir r))]"

definition session_fields :: "ustr list" where
  "session_fields = [lit ''created_at'', lit ''executor_absence_confirmed'', lit ''executor_id'',
     lit ''label'', lit ''session_id'', lit ''status'', lit ''task_created'', lit ''task_id'',
     lit ''updated_at'', lit ''workdir'']"

definition session_validate :: "json \<Rightarrow> session_record option" where
  "session_validate v =
     (case v of
        JObj kvs \<Rightarrow>
          (if \<not> set (map fst kvs) \<subseteq> set session_fields then None
           else case (dec_num (field_or missing kvs (lit ''created_at'')),
                      dec_bool (field_or (JBool False) kvs (lit ''executor_absence_confirmed'')),
                      dec_str (field_or missing kvs (lit ''executor_id'')),
                      dec_opt dec_str (field_or JNull kvs (lit ''label'')),
                      dec_str (field_or missing kvs (lit ''session_id'')),
                      dec_status (field_or missing kvs (lit ''status'')),
                      dec_bool (field_or (JBool False) kvs (lit ''task_created'')),
                      dec_opt dec_str (field_or JNull kvs (lit ''task_id'')),
                      dec_num (field_or missing kvs (lit ''updated_at'')),
                      dec_opt dec_str (field_or JNull kvs (lit ''workdir''))) of
                  (Some c, Some ab, Some ex, Some lb, Some sid, Some st, Some tc, Some tid, Some up, Some wd) \<Rightarrow>
                    (let r = \<lparr>session_id = sid, sr_executor_id = ex, task_id = tid, task_created = tc,
                        workdir = wd, label = lb, status = st, executor_absence_confirmed = ab,
                        sr_created_at = c, sr_updated_at = up\<rparr>
                     in if session_ok r then Some r else None)
                | _ \<Rightarrow> None)
      | _ \<Rightarrow> None)"

lemma executor_validate_dump: "executor_ok r \<Longrightarrow> executor_validate (executor_dump r) = Some r"
  by (cases r) (simp add: executor_validate_def executor_dump_def executor_fields_def field_or_def Let_def)

lemma session_validate_dump: "session_ok r \<Longrightarrow> session_validate (session_dump r) = Some r"
  by (cases r) (simp add: session_validate_def session_dump_def session_fields_def field_or_def Let_def)

lemma executor_validate_ok: "executor_validate v = Some r \<Longrightarrow> executor_ok r"
  unfolding executor_validate_def Let_def by (simp split: json.splits if_splits option.splits)

lemma session_validate_ok: "session_validate v = Some r \<Longrightarrow> session_ok r"
  unfolding session_validate_def Let_def by (simp split: json.splits if_splits option.splits)

section \<open>A registry of records\<close>

text \<open>\<open>payload.get("version") != _REGISTRY_VERSION\<close>: Python's \<open>True\<close> equals \<open>1\<close>.\<close>

definition version_one :: "json \<Rightarrow> bool" where
  "version_one v \<longleftrightarrow> v = JNum 1 \<or> v = JBool True"

definition registry_rows :: "ustr \<Rightarrow> json \<Rightarrow> json list option" where
  "registry_rows field v =
     (case v of
        JNull \<Rightarrow> Some []
      | JObj kvs \<Rightarrow>
          (if \<not> version_one (obj_get kvs (lit ''version'')) then None
           else case obj_get kvs field of JList rows \<Rightarrow> Some rows | _ \<Rightarrow> None)
      | _ \<Rightarrow> None)"

fun parse_rows ::
  "(json \<Rightarrow> 'r option) \<Rightarrow> ('r \<Rightarrow> ustr) \<Rightarrow> json list \<Rightarrow> (ustr, 'r) dict \<Rightarrow> (ustr, 'r) dict option" where
  "parse_rows dec key [] records = Some records"
| "parse_rows dec key (row # rows) records =
     (case dec row of
        None \<Rightarrow> None
      | Some r \<Rightarrow>
          if key r \<in> set (dict_keys records) then None
          else parse_rows dec key rows (AList.update (key r) r records))"

definition parse_registry ::
  "ustr \<Rightarrow> (json \<Rightarrow> 'r option) \<Rightarrow> ('r \<Rightarrow> ustr) \<Rightarrow> json \<Rightarrow> (ustr, 'r) dict option" where
  "parse_registry field dec key v =
     (case registry_rows field v of None \<Rightarrow> None | Some rows \<Rightarrow> parse_rows dec key rows [])"

definition parse_executors :: "json \<Rightarrow> (ustr, executor_record) dict option" where
  "parse_executors = parse_registry (lit ''executors'') executor_validate executor_id"

definition parse_sessions :: "json \<Rightarrow> (ustr, session_record) dict option" where
  "parse_sessions = parse_registry (lit ''sessions'') session_validate session_id"

text \<open>\<open>[records[key].model_dump(mode="json") for key in sorted(records)]\<close>\<close>

definition sorted_dump :: "('r \<Rightarrow> json) \<Rightarrow> (ustr, 'r) dict \<Rightarrow> json list" where
  "sorted_dump enc d = map (\<lambda>k. enc (the (map_of d k))) (sort (dict_keys d))"

definition registry_payload :: "ustr \<Rightarrow> ('r \<Rightarrow> json) \<Rightarrow> (ustr, 'r) dict \<Rightarrow> (ustr \<times> json) list" where
  "registry_payload field enc d =
     [(field, JList (sorted_dump enc d)), (lit ''version'', JNum 1)]"

text \<open>A dictionary of valid records, each under its own identity.\<close>

definition table_ok :: "('r \<Rightarrow> bool) \<Rightarrow> ('r \<Rightarrow> ustr) \<Rightarrow> (ustr, 'r) dict \<Rightarrow> bool" where
  "table_ok ok key d \<longleftrightarrow> dict_ok d \<and> (\<forall>(k, r) \<in> set d. ok r \<and> key r = k)"

lemma table_ok_Nil [simp]: "table_ok ok key []"
  by (simp add: table_ok_def)

lemma table_okD: "table_ok ok key d \<Longrightarrow> map_of d k = Some r \<Longrightarrow> ok r \<and> key r = k"
  by (auto simp: table_ok_def dest: map_of_SomeD)

lemma table_okI:
  assumes "dict_ok d" and "\<And>k r. map_of d k = Some r \<Longrightarrow> ok r \<and> key r = k"
  shows "table_ok ok key d"
  using assms by (auto simp: table_ok_def)

lemma table_ok_put:
  assumes "table_ok ok key d" and "ok r"
  shows "table_ok ok key (AList.update (key r) r d)"
proof (rule table_okI)
  show "dict_ok (AList.update (key r) r d)" using assms(1) by (simp add: table_ok_def)
next
  fix x y
  assume "map_of (AList.update (key r) r d) x = Some y"
  then have "x = key r \<and> y = r \<or> map_of d x = Some y" by (simp split: if_split_asm)
  with assms(2) table_okD [OF assms(1)] show "ok y \<and> key y = x" by blast
qed

lemma table_ok_pop:
  assumes "table_ok ok key d"
  shows "table_ok ok key (AList.delete k d)"
proof (rule table_okI)
  show "dict_ok (AList.delete k d)" using assms by (simp add: table_ok_def)
next
  fix x y
  assume "map_of (AList.delete k d) x = Some y"
  then have "map_of d x = Some y" by (simp split: if_split_asm)
  with table_okD [OF assms] show "ok y \<and> key y = x" by blast
qed

text \<open>What the registry code relies on of a record's encoding.\<close>

locale record_codec =
  fixes enc :: "'r \<Rightarrow> json"
    and dec :: "json \<Rightarrow> 'r option"
    and key :: "'r \<Rightarrow> ustr"
    and ok :: "'r \<Rightarrow> bool"
    and field :: ustr
  assumes dec_enc: "ok r \<Longrightarrow> dec (enc r) = Some r"
    and field_distinct: "field \<noteq> lit ''version''" "field \<noteq> gen_key"
begin

lemma parse_rows_dump:
  assumes "table_ok ok key d" and "distinct ks" and "set ks \<subseteq> dom (map_of d)"
    and "set ks \<inter> dom (map_of acc) = {}"
  shows "\<exists>out. parse_rows dec key (map (\<lambda>k. enc (the (map_of d k))) ks) acc = Some out \<and>
    map_of out = map_of acc ++ (map_of d |` set ks)"
  using assms(2-4)
proof (induction ks arbitrary: acc)
  case Nil
  then show ?case by simp
next
  case (Cons k ks)
  then obtain r where r: "map_of d k = Some r" by auto
  with assms(1) have ok: "ok r" "key r = k" by (auto dest: table_okD)
  have new: "map_of acc k = None" "k \<notin> set ks" using Cons.prems by auto
  have "distinct ks" "set ks \<subseteq> dom (map_of d)" "set ks \<inter> dom (map_of (AList.update k r acc)) = {}"
    using Cons.prems new by auto
  from Cons.IH [OF this] obtain out where out:
    "parse_rows dec key (map (\<lambda>k. enc (the (map_of d k))) ks) (AList.update k r acc) = Some out"
    "map_of out = map_of (AList.update k r acc) ++ (map_of d |` set ks)"
    by blast
  have "map_of (AList.update k r acc) ++ (map_of d |` set ks) =
      map_of acc ++ (map_of d |` set (k # ks))"
    by (rule ext) (use new r in \<open>simp add: map_add_def restrict_map_def split: option.split\<close>)
  with out r ok new show ?case
    by (simp add: dec_enc dict_keys_iff del: set_map)
qed

lemma parse_payload:
  assumes "table_ok ok key d"
  shows "\<exists>out. parse_registry field dec key (payload g (registry_payload field enc d)) = Some out \<and>
    map_of out = map_of d"
proof -
  have ks: "distinct (sort (dict_keys d))" "set (sort (dict_keys d)) = dom (map_of d)"
    using assms by (auto simp: table_ok_def dom_map_of_conv_image_fst)
  have all: "map_of d |` dom (map_of d) = map_of d"
    by (rule ext) (simp add: restrict_map_def domIff)
  have "obj_get (obj_put gen_key (JStr g) (registry_payload field enc d)) field =
      JList (sorted_dump enc d)"
    "obj_get (obj_put gen_key (JStr g) (registry_payload field enc d)) (lit ''version'') = JNum 1"
    using field_distinct by (simp_all add: registry_payload_def) (simp_all add: obj_get_def)
  then have rows: "registry_rows field (payload g (registry_payload field enc d)) =
      Some (sorted_dump enc d)"
    by (simp add: registry_rows_def payload_def version_one_def)
  obtain out where "parse_rows dec key (sorted_dump enc d) [] = Some out" "map_of out = map_of d"
    using parse_rows_dump [OF assms ks(1), of "[]"] unfolding ks(2) all sorted_dump_def by auto
  with rows show ?thesis
    by (simp add: parse_registry_def)
qed

lemma parse_rows_ok:
  assumes "parse_rows dec key rows acc = Some out" and "table_ok ok key acc"
    and "\<And>v r. dec v = Some r \<Longrightarrow> ok r"
  shows "table_ok ok key out"
  using assms(1,2)
  by (induction rows arbitrary: acc)
    (auto simp: table_ok_put assms(3) split: option.splits if_splits)

end

interpretation executor_codec:
  record_codec executor_dump executor_validate executor_id executor_ok "lit ''executors''"
  by unfold_locales (simp_all add: executor_validate_dump)

interpretation session_codec:
  record_codec session_dump session_validate session_id session_ok "lit ''sessions''"
  by unfold_locales (simp_all add: session_validate_dump)

section \<open>The control state and its operations\<close>

record control_state =
  cs_executors :: "(ustr, executor_record) dict"
  cs_sessions :: "(ustr, session_record) dict"
  cs_executor_files :: registry
  cs_session_files :: registry
  cs_started :: bool
  cs_closed :: bool

datatype control_error =
    NotRunning
  | CannotRestart
  | UnknownKey
  | ExecutorRevoked
  | BindingFixed
  | AttachmentFixed
  | UnsupportedField
  | InvalidRecord
  | WriteFailed
  | LoadFailed exn

text \<open>The generation drawn for one publication and the outcomes of its three writes.\<close>

type_synonym write_io = "ustr \<times> outcome \<times> outcome \<times> outcome"

definition require_started :: "control_state \<Rightarrow> bool" where
  "require_started s \<longleftrightarrow> \<not> (cs_closed s \<or> \<not> cs_started s)"

definition write_executors ::
  "write_io \<Rightarrow> (ustr, executor_record) dict \<Rightarrow> control_state \<Rightarrow> control_state \<times> bool" where
  "write_executors io d s =
     (case write_registry (fst io) (snd io) (registry_payload (lit ''executors'') executor_dump d)
        (cs_executor_files s) of (r, ok) \<Rightarrow> (s\<lparr>cs_executor_files := r\<rparr>, ok))"

definition write_sessions ::
  "write_io \<Rightarrow> (ustr, session_record) dict \<Rightarrow> control_state \<Rightarrow> control_state \<times> bool" where
  "write_sessions io d s =
     (case write_registry (fst io) (snd io) (registry_payload (lit ''sessions'') session_dump d)
        (cs_session_files s) of (r, ok) \<Rightarrow> (s\<lparr>cs_session_files := r\<rparr>, ok))"

text \<open>\<open>self._write_executors(candidate); self._executors = candidate\<close>\<close>

definition publish_executors ::
  "write_io \<Rightarrow> (ustr, executor_record) dict \<Rightarrow> control_state \<Rightarrow> control_state \<times> (control_error + unit)" where
  "publish_executors io candidate s =
     (case write_executors io candidate s of
        (s', ok) \<Rightarrow> if ok then (s'\<lparr>cs_executors := candidate\<rparr>, Inr ()) else (s', Inl WriteFailed))"

definition publish_sessions ::
  "write_io \<Rightarrow> (ustr, session_record) dict \<Rightarrow> control_state \<Rightarrow> control_state \<times> (control_error + unit)" where
  "publish_sessions io candidate s =
     (case write_sessions io candidate s of
        (s', ok) \<Rightarrow> if ok then (s'\<lparr>cs_sessions := candidate\<rparr>, Inr ()) else (s', Inl WriteFailed))"

definition put_executor ::
  "write_io \<Rightarrow> executor_record \<Rightarrow> control_state \<Rightarrow> control_state \<times> (control_error + unit)" where
  "put_executor io r s =
     (if \<not> require_started s then (s, Inl NotRunning)
      else publish_executors io (AList.update (executor_id r) r (cs_executors s)) s)"

text \<open>The part the three mutations of one trust record share: look up, copy, validate, publish.\<close>

definition mutate_executor ::
  "write_io \<Rightarrow> ustr \<Rightarrow> (executor_record \<Rightarrow> control_error + executor_record) \<Rightarrow> control_state \<Rightarrow>
   control_state \<times> (control_error + executor_record)" where
  "mutate_executor io i f s =
     (if \<not> require_started s then (s, Inl NotRunning)
      else case map_of (cs_executors s) i of
             None \<Rightarrow> (s, Inl UnknownKey)
           | Some current \<Rightarrow>
               (case f current of
                  Inl e \<Rightarrow> (s, Inl e)
                | Inr updated \<Rightarrow>
                    if \<not> executor_ok updated then (s, Inl InvalidRecord)
                    else case publish_executors io (AList.update i updated (cs_executors s)) s of
                           (s', Inl e) \<Rightarrow> (s', Inl e)
                         | (s', Inr _) \<Rightarrow> (s', Inr updated)))"

definition revoke_executor ::
  "write_io \<Rightarrow> ustr \<Rightarrow> time \<Rightarrow> control_state \<Rightarrow> control_state \<times> (control_error + executor_record)" where
  "revoke_executor io i t = mutate_executor io i (\<lambda>r. Inr (r\<lparr>revoked_at := Some t\<rparr>))"

definition set_executor_draining ::
  "write_io \<Rightarrow> ustr \<Rightarrow> bool \<Rightarrow> control_state \<Rightarrow> control_state \<times> (control_error + executor_record)" where
  "set_executor_draining io i b =
     mutate_executor io i
       (\<lambda>r. if revoked_at r \<noteq> None then Inl ExecutorRevoked else Inr (r\<lparr>draining := b\<rparr>))"

definition rename_executor ::
  "write_io \<Rightarrow> ustr \<Rightarrow> ustr \<Rightarrow> control_state \<Rightarrow> control_state \<times> (control_error + executor_record)" where
  "rename_executor io i n = mutate_executor io i (\<lambda>r. Inr (r\<lparr>er_name := n\<rparr>))"

definition put_session ::
  "write_io \<Rightarrow> session_record \<Rightarrow> control_state \<Rightarrow> control_state \<times> (control_error + unit)" where
  "put_session io r s =
     (if \<not> require_started s then (s, Inl NotRunning)
      else let current = map_of (cs_sessions s) (session_id r) in
        if current \<noteq> None \<and> sr_executor_id (the current) \<noteq> sr_executor_id r
        then (s, Inl BindingFixed)
        else if current \<noteq> None \<and> task_id r \<noteq> task_id (the current)
        then (s, Inl AttachmentFixed)
        else publish_sessions io (AList.update (session_id r) r (cs_sessions s)) s)"

text \<open>The keyword arguments of \<open>update_session\<close>; \<open>OtherField\<close> is any other keyword.\<close>

datatype session_change =
    SetStatus session_status
  | SetWorkdir "ustr option"
  | SetUpdatedAt time
  | SetAbsence bool
  | OtherField ustr

fun change_session :: "session_change \<Rightarrow> session_record \<Rightarrow> session_record" where
  "change_session (SetStatus x) r = r\<lparr>status := x\<rparr>"
| "change_session (SetWorkdir x) r = r\<lparr>workdir := x\<rparr>"
| "change_session (SetUpdatedAt x) r = r\<lparr>sr_updated_at := x\<rparr>"
| "change_session (SetAbsence x) r = r\<lparr>executor_absence_confirmed := x\<rparr>"
| "change_session (OtherField x) r = r"

fun supported_change :: "session_change \<Rightarrow> bool" where
  "supported_change (OtherField x) = False"
| "supported_change _ = True"

definition update_session ::
  "write_io \<Rightarrow> ustr \<Rightarrow> session_change list \<Rightarrow> control_state \<Rightarrow>
   control_state \<times> (control_error + session_record)" where
  "update_session io i changes s =
     (if \<not> list_all supported_change changes then (s, Inl UnsupportedField)
      else if \<not> require_started s then (s, Inl NotRunning)
      else case map_of (cs_sessions s) i of
             None \<Rightarrow> (s, Inl UnknownKey)
           | Some current \<Rightarrow>
               let updated = fold change_session changes current in
               if \<not> session_ok updated then (s, Inl InvalidRecord)
               else case publish_sessions io (AList.update i updated (cs_sessions s)) s of
                      (s', Inl e) \<Rightarrow> (s', Inl e)
                    | (s', Inr _) \<Rightarrow> (s', Inr updated))"

text \<open>\<open>str(record.task_id or "")\<close>\<close>

definition task_text :: "session_record \<Rightarrow> ustr" where
  "task_text r = (case task_id r of None \<Rightarrow> [] | Some t \<Rightarrow> t)"

definition detached :: "session_record \<Rightarrow> session_record" where
  "detached r = r\<lparr>task_id := None, task_created := False\<rparr>"

definition detach_rows :: "ustr \<Rightarrow> (ustr, session_record) dict \<Rightarrow> (ustr, session_record) dict" where
  "detach_rows tid d = map (\<lambda>(k, r). (k, if task_text r = tid then detached r else r)) d"

definition detach_task ::
  "write_io \<Rightarrow> ustr \<Rightarrow> control_state \<Rightarrow> control_state \<times> (control_error + unit)" where
  "detach_task io tid s =
     (if \<not> require_started s then (s, Inl NotRunning)
      else if \<not> list_all (\<lambda>(k, r). task_text r = tid \<longrightarrow> session_ok (detached r)) (cs_sessions s)
      then (s, Inl InvalidRecord)
      else if list_ex (\<lambda>(k, r). task_text r = tid) (cs_sessions s)
      then publish_sessions io (detach_rows tid (cs_sessions s)) s
      else (s, Inr ()))"

definition remove_session ::
  "write_io \<Rightarrow> ustr \<Rightarrow> control_state \<Rightarrow> control_state \<times> (control_error + unit)" where
  "remove_session io i s =
     (if \<not> require_started s then (s, Inl NotRunning)
      else if i \<notin> set (dict_keys (cs_sessions s)) then (s, Inr ())
      else publish_sessions io (AList.delete i (cs_sessions s)) s)"

definition start :: "load_io \<Rightarrow> load_io \<Rightarrow> control_state \<Rightarrow> control_state \<times> (control_error + unit)" where
  "start io_e io_s s =
     (if cs_closed s then (s, Inl CannotRestart)
      else if cs_started s then (s, Inr ())
      else case load_registry parse_executors io_e (cs_executor_files s) of
             (re, Inl e) \<Rightarrow> (s\<lparr>cs_executor_files := re\<rparr>, Inl (LoadFailed e))
           | (re, Inr executors) \<Rightarrow>
               (case load_registry parse_sessions io_s (cs_session_files s) of
                  (rs, Inl e) \<Rightarrow> (s\<lparr>cs_executor_files := re, cs_session_files := rs\<rparr>, Inl (LoadFailed e))
                | (rs, Inr sessions) \<Rightarrow>
                    (s\<lparr>cs_executor_files := re, cs_session_files := rs,
                       cs_executors := executors, cs_sessions := sessions, cs_started := True\<rparr>, Inr ())))"

definition close :: "control_state \<Rightarrow> control_state" where
  "close s =
     (if cs_closed s then s
      else s\<lparr>cs_executors := [], cs_sessions := [], cs_started := False, cs_closed := True\<rparr>)"

section \<open>Runs of operations\<close>

datatype control_op =
    PutExecutor executor_record
  | RevokeExecutor ustr time
  | SetDraining ustr bool
  | RenameExecutor ustr ustr
  | PutSession session_record
  | UpdateSession ustr "session_change list"
  | DetachTask ustr
  | RemoveSession ustr

definition discard :: "control_state \<times> (control_error + 'a) \<Rightarrow> control_state \<times> (control_error + unit)" where
  "discard x = (case x of (s, Inl e) \<Rightarrow> (s, Inl e) | (s, Inr _) \<Rightarrow> (s, Inr ()))"

fun apply_op :: "write_io \<Rightarrow> control_op \<Rightarrow> control_state \<Rightarrow> control_state \<times> (control_error + unit)" where
  "apply_op io (PutExecutor r) s = put_executor io r s"
| "apply_op io (RevokeExecutor i t) s = discard (revoke_executor io i t s)"
| "apply_op io (SetDraining i b) s = discard (set_executor_draining io i b s)"
| "apply_op io (RenameExecutor i n) s = discard (rename_executor io i n s)"
| "apply_op io (PutSession r) s = put_session io r s"
| "apply_op io (UpdateSession i cs) s = discard (update_session io i cs s)"
| "apply_op io (DetachTask t) s = detach_task io t s"
| "apply_op io (RemoveSession i) s = remove_session io i s"

text \<open>A record handed to \<open>put_*\<close> is an instance of its model, hence valid.\<close>

fun op_ok :: "control_op \<Rightarrow> bool" where
  "op_ok (PutExecutor r) = executor_ok r"
| "op_ok (PutSession r) = session_ok r"
| "op_ok _ = True"

definition tables_ok :: "control_state \<Rightarrow> bool" where
  "tables_ok s \<longleftrightarrow>
     table_ok executor_ok executor_id (cs_executors s) \<and> table_ok session_ok session_id (cs_sessions s)"

text \<open>What a restart would load from the files is the dictionary \<open>d\<close>.\<close>

definition durable :: "(json \<Rightarrow> (ustr, 'r) dict option) \<Rightarrow> registry \<Rightarrow> (ustr, 'r) dict \<Rightarrow> bool" where
  "durable parse r d \<longleftrightarrow>
     (\<forall>io. \<exists>out. snd (load_registry parse io r) = Inr out \<and> map_of out = map_of d)"

definition both_durable :: "control_state \<Rightarrow> bool" where
  "both_durable s \<longleftrightarrow>
     durable parse_executors (cs_executor_files s) (cs_executors s) \<and>
     durable parse_sessions (cs_session_files s) (cs_sessions s)"

lemma durable_write:
  assumes "write_registry g ws value r = (r', True)" and "generation_re g"
    and "parse (payload g value) = Some out" and "map_of out = map_of d"
  shows "durable parse r' d"
proof -
  obtain w1 w2 w3 where ws: "ws = (w1, w2, w3)" by (cases ws)
  have "primary r' = Doc (payload g value)"
    using write_registry_files [of g w1 w2 w3 "value" r] write_registry_ok [of g w1 w2 w3 "value" r]
      assms(1) reports_lands unfolding ws by auto
  moreover obtain kvs where "read_primary parse (Doc (payload g value)) =
      (payload g value, False, Some (out, kvs, Some g))"
    using read_primary_Doc [where validate = parse, OF doc_gen_payload [OF assms(2)] assms(3)] by blast
  ultimately show ?thesis
    using assms(4) by (simp add: durable_def load_registry_def)
qed

text \<open>How a publication can end: with the candidate exposed and durable, or with memory untouched.\<close>

lemma publish_executors_cases:
  assumes "publish_executors io cand s = (s', res)"
  obtains (published) "res = Inr ()" "s' = s\<lparr>cs_executor_files := cs_executor_files s', cs_executors := cand\<rparr>"
      "generation_re (fst io) \<Longrightarrow> table_ok executor_ok executor_id cand \<Longrightarrow>
         durable parse_executors (cs_executor_files s') cand"
  | (failed) "res = Inl WriteFailed" "s' = s\<lparr>cs_executor_files := cs_executor_files s'\<rparr>"
proof -
  obtain r ok where w: "write_registry (fst io) (snd io)
      (registry_payload (lit ''executors'') executor_dump cand) (cs_executor_files s) = (r, ok)"
    by fastforce
  show thesis
  proof (cases ok)
    case True
    with w have w': "write_registry (fst io) (snd io)
        (registry_payload (lit ''executors'') executor_dump cand) (cs_executor_files s) = (r, True)"
      by simp
    have "durable parse_executors r cand"
      if "generation_re (fst io)" "table_ok executor_ok executor_id cand"
      using executor_codec.parse_payload [OF that(2), of "fst io"] durable_write [OF w' that(1)]
      by (auto simp: parse_executors_def)
    with assms w True that(1) show thesis
      by (auto simp: publish_executors_def write_executors_def)
  next
    case False
    with assms w that(2) show thesis
      by (auto simp: publish_executors_def write_executors_def)
  qed
qed

lemma publish_sessions_cases:
  assumes "publish_sessions io cand s = (s', res)"
  obtains (published) "res = Inr ()" "s' = s\<lparr>cs_session_files := cs_session_files s', cs_sessions := cand\<rparr>"
      "generation_re (fst io) \<Longrightarrow> table_ok session_ok session_id cand \<Longrightarrow>
         durable parse_sessions (cs_session_files s') cand"
  | (failed) "res = Inl WriteFailed" "s' = s\<lparr>cs_session_files := cs_session_files s'\<rparr>"
proof -
  obtain r ok where w: "write_registry (fst io) (snd io)
      (registry_payload (lit ''sessions'') session_dump cand) (cs_session_files s) = (r, ok)"
    by fastforce
  show thesis
  proof (cases ok)
    case True
    with w have w': "write_registry (fst io) (snd io)
        (registry_payload (lit ''sessions'') session_dump cand) (cs_session_files s) = (r, True)"
      by simp
    have "durable parse_sessions r cand"
      if "generation_re (fst io)" "table_ok session_ok session_id cand"
      using session_codec.parse_payload [OF that(2), of "fst io"] durable_write [OF w' that(1)]
      by (auto simp: parse_sessions_def)
    with assms w True that(1) show thesis
      by (auto simp: publish_sessions_def write_sessions_def)
  next
    case False
    with assms w that(2) show thesis
      by (auto simp: publish_sessions_def write_sessions_def)
  qed
qed

text \<open>
  Every operation either publishes one candidate dictionary or leaves the state alone.
\<close>

definition executor_candidate :: "control_op \<Rightarrow> control_state \<Rightarrow> (ustr, executor_record) dict \<Rightarrow> bool" where
  "executor_candidate op s cand \<longleftrightarrow>
     (\<exists>i r. cand = AList.update i r (cs_executors s) \<and>
        (op = PutExecutor r \<and> i = executor_id r \<or>
         (\<exists>c. map_of (cs_executors s) i = Some c \<and> executor_ok r \<and> executor_id r = executor_id c \<and>
            er_created_at r = er_created_at c)))"

definition session_candidate :: "control_op \<Rightarrow> control_state \<Rightarrow> (ustr, session_record) dict \<Rightarrow> bool" where
  "session_candidate op s cand \<longleftrightarrow>
     (\<exists>r. op = PutSession r \<and> cand = AList.update (session_id r) r (cs_sessions s) \<and>
        (\<forall>c. map_of (cs_sessions s) (session_id r) = Some c \<longrightarrow>
           sr_executor_id c = sr_executor_id r \<and> task_id c = task_id r)) \<or>
     (\<exists>i r c. cand = AList.update i r (cs_sessions s) \<and> map_of (cs_sessions s) i = Some c \<and>
        session_ok r \<and> session_id r = session_id c \<and> sr_executor_id r = sr_executor_id c \<and>
        task_id r = task_id c) \<or>
     (\<exists>t. op = DetachTask t \<and> cand = detach_rows t (cs_sessions s) \<and>
        list_all (\<lambda>(k, r). task_text r = t \<longrightarrow> session_ok (detached r)) (cs_sessions s)) \<or>
     (\<exists>i. op = RemoveSession i \<and> cand = AList.delete i (cs_sessions s))"

lemma change_session_frame:
  "session_id (fold change_session cs r) = session_id r \<and>
   sr_executor_id (fold change_session cs r) = sr_executor_id r \<and>
   task_id (fold change_session cs r) = task_id r"
proof (induction cs arbitrary: r)
  case (Cons c cs)
  then show ?case by (cases c) simp_all
qed simp

lemma discard_simps [simp]:
  "discard (s, Inl e) = (s, Inl e)"
  "discard (s, Inr x) = (s, Inr ())"
  by (simp_all add: discard_def)

lemma mutate_executor_cases:
  assumes "discard (mutate_executor io i f s) = (s', res)"
  obtains (published) c r where "map_of (cs_executors s) i = Some c" "f c = Inr r" "executor_ok r"
      "publish_executors io (AList.update i r (cs_executors s)) s = (s', res)"
  | (same) "s' = s" "res \<noteq> Inl WriteFailed \<or> (\<exists>r. f r = Inl WriteFailed)"
proof (cases "require_started s")
  case False
  with assms that(2) show thesis by (auto simp: mutate_executor_def)
next
  case started: True
  show thesis
  proof (cases "map_of (cs_executors s) i")
    case None
    with started assms that(2) show thesis by (auto simp: mutate_executor_def)
  next
    case (Some c)
    show thesis
    proof (cases "f c")
      case (Inl e)
      with started Some assms that(2) show thesis by (auto simp: mutate_executor_def)
    next
      case (Inr r)
      obtain t x where p: "publish_executors io (AList.update i r (cs_executors s)) s = (t, x)"
        by fastforce
      with started Some Inr assms(1) that show thesis
        by (cases "executor_ok r"; cases x) (auto simp: mutate_executor_def)
    qed
  qed
qed

lemma update_session_cases:
  assumes "discard (update_session io i cs s) = (s', res)"
  obtains (published) c where "map_of (cs_sessions s) i = Some c" "session_ok (fold change_session cs c)"
      "publish_sessions io (AList.update i (fold change_session cs c) (cs_sessions s)) s = (s', res)"
  | (same) "s' = s" "res \<noteq> Inl WriteFailed"
proof (cases "list_all supported_change cs \<and> require_started s")
  case False
  with assms that(2) show thesis by (auto simp: update_session_def split: if_splits)
next
  case started: True
  show thesis
  proof (cases "map_of (cs_sessions s) i")
    case None
    with started assms that(2) show thesis by (auto simp: update_session_def)
  next
    case (Some c)
    obtain t x where p: "publish_sessions io (AList.update i (fold change_session cs c) (cs_sessions s)) s = (t, x)"
      by fastforce
    with started Some assms that show thesis
      by (cases "session_ok (fold change_session cs c)"; cases x) (auto simp: update_session_def)
  qed
qed

lemma executor_candidate_mutate:
  "map_of (cs_executors s) i = Some c \<Longrightarrow> executor_ok r \<Longrightarrow> executor_id r = executor_id c \<Longrightarrow>
   er_created_at r = er_created_at c \<Longrightarrow> executor_candidate op s (AList.update i r (cs_executors s))"
  unfolding executor_candidate_def by blast

lemma session_candidate_update:
  "map_of (cs_sessions s) i = Some c \<Longrightarrow> session_ok (fold change_session cs c) \<Longrightarrow>
   session_candidate op s (AList.update i (fold change_session cs c) (cs_sessions s))"
  using change_session_frame [of cs c] unfolding session_candidate_def by blast

lemma session_candidate_intros:
  "(\<And>c. map_of (cs_sessions s) (session_id r) = Some c \<Longrightarrow>
       sr_executor_id c = sr_executor_id r \<and> task_id c = task_id r) \<Longrightarrow>
     session_candidate (PutSession r) s (AList.update (session_id r) r (cs_sessions s))"
  "list_all (\<lambda>(k, r). task_text r = t \<longrightarrow> session_ok (detached r)) (cs_sessions s) \<Longrightarrow>
     session_candidate (DetachTask t) s (detach_rows t (cs_sessions s))"
  "session_candidate (RemoveSession i) s (AList.delete i (cs_sessions s))"
  unfolding session_candidate_def by blast+

lemma apply_op_cases:
  assumes "apply_op io op s = (s', res)"
  obtains (executors) cand where "executor_candidate op s cand" "publish_executors io cand s = (s', res)"
  | (sessions) cand where "session_candidate op s cand" "publish_sessions io cand s = (s', res)"
  | (unchanged) "s' = s" "res \<noteq> Inl WriteFailed"
proof (cases op)
  case (PutExecutor r)
  with assms that show thesis
    by (auto simp: put_executor_def executor_candidate_def split: if_splits)
next
  case (RevokeExecutor i t)
  from assms show thesis
    unfolding RevokeExecutor apply_op.simps revoke_executor_def
  proof (cases rule: mutate_executor_cases)
    case (published c r)
    then show thesis by (intro that(1) [OF executor_candidate_mutate [of s i c r]]) auto
  qed (auto intro: that(3))
next
  case (SetDraining i b)
  from assms show thesis
    unfolding SetDraining apply_op.simps set_executor_draining_def
  proof (cases rule: mutate_executor_cases)
    case (published c r)
    then show thesis
      by (intro that(1) [OF executor_candidate_mutate [of s i c r]]) (auto split: if_splits)
  qed (auto intro: that(3) split: if_splits)
next
  case (RenameExecutor i n)
  from assms show thesis
    unfolding RenameExecutor apply_op.simps rename_executor_def
  proof (cases rule: mutate_executor_cases)
    case (published c r)
    then show thesis by (intro that(1) [OF executor_candidate_mutate [of s i c r]]) auto
  qed (auto intro: that(3))
next
  case (PutSession r)
  with assms session_candidate_intros(1) [of s r] that(3)
    that(2) [of "AList.update (session_id r) r (cs_sessions s)"] show thesis
    by (cases "map_of (cs_sessions s) (session_id r)")
      (auto simp: put_session_def Let_def split: if_splits)
next
  case (UpdateSession i cs)
  from assms show thesis
    unfolding UpdateSession apply_op.simps
    by (cases rule: update_session_cases) (auto intro: that(2,3) session_candidate_update)
next
  case (DetachTask t)
  with assms session_candidate_intros(2) [of t s] that(3)
    that(2) [of "detach_rows t (cs_sessions s)"] show thesis
    by (auto simp: detach_task_def split: if_splits)
next
  case (RemoveSession i)
  with assms session_candidate_intros(3) [of i s] that(3)
    that(2) [of "AList.delete i (cs_sessions s)"] show thesis
    by (auto simp: remove_session_def split: if_splits)
qed

lemma map_of_detach_rows:
  "map_of (detach_rows t d) k =
     map_option (\<lambda>r. if task_text r = t then detached r else r) (map_of d k)"
  by (simp add: detach_rows_def map_of_map)

lemma dict_keys_detach_rows [simp]: "dict_keys (detach_rows t d) = dict_keys d"
  by (auto simp: detach_rows_def)

lemma executor_candidate_ok:
  assumes "executor_candidate op s cand" and "op_ok op" and "tables_ok s"
  shows "table_ok executor_ok executor_id cand"
proof -
  have tab: "table_ok executor_ok executor_id (cs_executors s)" using assms(3) by (simp add: tables_ok_def)
  obtain i r where "cand = AList.update i r (cs_executors s)" "executor_ok r" "i = executor_id r"
    using assms(1,2) table_okD [OF tab] unfolding executor_candidate_def by fastforce
  with table_ok_put [OF tab] show ?thesis by simp
qed

lemma session_candidate_ok:
  assumes "session_candidate op s cand" and "op_ok op" and "tables_ok s"
  shows "table_ok session_ok session_id cand"
proof -
  have tab: "table_ok session_ok session_id (cs_sessions s)" using assms(3) by (simp add: tables_ok_def)
  from assms(1) consider r where "cand = AList.update (session_id r) r (cs_sessions s)" "session_ok r"
    | t where "cand = detach_rows t (cs_sessions s)"
        "list_all (\<lambda>(k, r). task_text r = t \<longrightarrow> session_ok (detached r)) (cs_sessions s)"
    | i where "cand = AList.delete i (cs_sessions s)"
    using assms(2) table_okD [OF tab] unfolding session_candidate_def by fastforce
  then show ?thesis
  proof cases
    case 1
    with table_ok_put [OF tab] show ?thesis by simp
  next
    case 2
    have "session_ok r' \<and> session_id r' = k" if "map_of cand k = Some r'" for k r'
    proof -
      from that 2(1) obtain r where r: "map_of (cs_sessions s) k = Some r"
        "r' = (if task_text r = t then detached r else r)"
        by (auto simp: map_of_detach_rows)
      from r(1) have "(k, r) \<in> set (cs_sessions s)" by (rule map_of_SomeD)
      with 2(2) r table_okD [OF tab r(1)] show ?thesis
        by (auto simp: list_all_iff detached_def)
    qed
    with 2 tab show ?thesis by (auto simp: table_ok_def intro!: table_okI)
  next
    case 3
    with table_ok_pop [OF tab] show ?thesis by simp
  qed
qed

lemma apply_op_error_frame:
  assumes "apply_op io op s = (s', Inl e)"
  shows "cs_executors s' = cs_executors s \<and> cs_sessions s' = cs_sessions s \<and>
    cs_started s' = cs_started s \<and> cs_closed s' = cs_closed s"
  using assms
proof (cases rule: apply_op_cases)
  case (executors cand)
  from executors(2) show ?thesis
    by (cases rule: publish_executors_cases) (simp, metis control_state.select_convs control_state.surjective control_state.update_convs(3))
next
  case (sessions cand)
  from sessions(2) show ?thesis
    by (cases rule: publish_sessions_cases) (simp, metis control_state.select_convs control_state.surjective control_state.update_convs(4))
qed simp

lemma apply_op_inv:
  assumes "apply_op io op s = (s', res)" and "res \<noteq> Inl WriteFailed"
    and "op_ok op" and "generation_re (fst io)" and "tables_ok s" and "both_durable s"
  shows "tables_ok s' \<and> both_durable s' \<and> cs_started s' = cs_started s \<and> cs_closed s' = cs_closed s"
  using assms(1)
proof (cases rule: apply_op_cases)
  case (executors cand)
  note ok = executor_candidate_ok [OF executors(1) assms(3,5)]
  from executors(2) show ?thesis
  proof (cases rule: publish_executors_cases)
    case published
    obtain files where s': "s' = s\<lparr>cs_executor_files := files, cs_executors := cand\<rparr>"
      using published(2) by blast
    with published(3) [OF assms(4) ok] ok assms(5,6) show ?thesis
      by (simp add: tables_ok_def both_durable_def)
  next
    case failed
    with assms(2) show ?thesis by simp
  qed
next
  case (sessions cand)
  note ok = session_candidate_ok [OF sessions(1) assms(3,5)]
  from sessions(2) show ?thesis
  proof (cases rule: publish_sessions_cases)
    case published
    obtain files where s': "s' = s\<lparr>cs_session_files := files, cs_sessions := cand\<rparr>"
      using published(2) by blast
    with published(3) [OF assms(4) ok] ok assms(5,6) show ?thesis
      by (simp add: tables_ok_def both_durable_def)
  next
    case failed
    with assms(2) show ?thesis by simp
  qed
next
  case unchanged
  with assms(5,6) show ?thesis by simp
qed

text \<open>
  The runs of control from a first start. Any of the three writes of a publication may fail, before or
  after it landed; the process may stop and start again, and a start may fail. \<open>cw_tried_executors\<close> and
  \<open>cw_tried_sessions\<close> are history variables: the dictionaries whose publication has failed since the
  last publication of that registry that returned, or since the last start.
\<close>

definition empty_files :: registry where
  "empty_files = \<lparr>primary = Absent, backup = Absent, marker = Absent\<rparr>"

definition stopped :: "registry \<Rightarrow> registry \<Rightarrow> control_state" where
  "stopped fe fs = \<lparr>cs_executors = [], cs_sessions = [], cs_executor_files = fe, cs_session_files = fs,
     cs_started = False, cs_closed = False\<rparr>"

abbreviation stop :: "control_state \<Rightarrow> control_state" where
  "stop s \<equiv> stopped (cs_executor_files s) (cs_session_files s)"

record ctl_world =
  cw_state :: control_state
  cw_tried_executors :: "(ustr, executor_record) dict list"
  cw_tried_sessions :: "(ustr, session_record) dict list"

definition ctl_init :: "ctl_world \<Rightarrow> bool" where
  "ctl_init w \<longleftrightarrow> (\<exists>io_e io_s. start io_e io_s (stopped empty_files empty_files) = (cw_state w, Inr ())) \<and>
     cw_tried_executors w = [] \<and> cw_tried_sessions w = []"

inductive ctl_step :: "ctl_world \<Rightarrow> ctl_world \<Rightarrow> bool" where
  ctl_same: "apply_op io op (cw_state w) = (cw_state w, res) \<Longrightarrow> ctl_step w w"
| ctl_executors: "op_ok op \<Longrightarrow> generation_re (fst io) \<Longrightarrow> executor_candidate op (cw_state w) cand \<Longrightarrow>
     apply_op io op (cw_state w) = (s', res) \<Longrightarrow> publish_executors io cand (cw_state w) = (s', res) \<Longrightarrow>
     ctl_step w (w\<lparr>cw_state := s', cw_tried_executors := if res = Inr () then [] else cand # cw_tried_executors w\<rparr>)"
| ctl_sessions: "op_ok op \<Longrightarrow> generation_re (fst io) \<Longrightarrow> session_candidate op (cw_state w) cand \<Longrightarrow>
     apply_op io op (cw_state w) = (s', res) \<Longrightarrow> publish_sessions io cand (cw_state w) = (s', res) \<Longrightarrow>
     ctl_step w (w\<lparr>cw_state := s', cw_tried_sessions := if res = Inr () then [] else cand # cw_tried_sessions w\<rparr>)"
| ctl_restart: "start io_e io_s (stop (cw_state w)) = (s', Inr ()) \<Longrightarrow>
     ctl_step w (w\<lparr>cw_state := s', cw_tried_executors := [], cw_tried_sessions := []\<rparr>)"
| ctl_no_start: "start io_e io_s (stop (cw_state w)) = (s', Inl e) \<Longrightarrow>
     ctl_step w (w\<lparr>cw_state := (cw_state w)\<lparr>cs_executor_files := cs_executor_files s',
       cs_session_files := cs_session_files s'\<rparr>\<rparr>)"

text \<open>Every call of an operation, whatever its writes do, is a step.\<close>

lemma every_op_steps:
  assumes "op_ok op" and "generation_re (fst io)" and "apply_op io op (cw_state w) = (s', res)"
  shows "\<exists>v. ctl_step w v \<and> cw_state v = s'"
  using assms(3)
proof (cases rule: apply_op_cases)
  case (executors cand)
  from ctl_executors [OF assms(1,2) executors(1) assms(3) executors(2)] show ?thesis by fastforce
next
  case (sessions cand)
  from ctl_sessions [OF assms(1,2) sessions(1) assms(3) sessions(2)] show ?thesis by fastforce
next
  case unchanged
  with assms(3) have "ctl_step w w" by (intro ctl_same) simp
  with unchanged show ?thesis by auto
qed

text \<open>
  What the files of one registry hold: a dictionary that is in memory or was tried, or nothing that was ever
  published.
\<close>

definition holds_one_of ::
  "(json \<Rightarrow> (ustr, 'r) dict option) \<Rightarrow> registry \<Rightarrow> (ustr, 'r) dict \<Rightarrow> (ustr, 'r) dict list \<Rightarrow> bool" where
  "holds_one_of parse r m tried \<longleftrightarrow>
     (\<exists>v g out d. primary r = Doc v \<and> doc_gen v = Some g \<and> parse v = Some out \<and> d \<in> set (m # tried) \<and> map_of out = map_of d) \<or>
     primary r = Absent \<and> backup r = Absent \<and> m = [] \<and> (marker r = Absent \<or> tried \<noteq> [])"

text \<open>What a load of these files gives, and that it keeps them.\<close>

lemma load_one_of:
  assumes "holds_one_of parse r m tried" and "parse JNull = Some []" and "load_registry parse io r = (r', x)"
  shows "holds_one_of parse r' m tried"
    and "x = Inr out \<Longrightarrow> map_of out \<in> map_of ` set (m # tried) \<and> holds_one_of parse r' out [] \<and> (\<exists>v. parse v = Some out)"
    and "x = Inl e \<Longrightarrow> m = [] \<and> tried \<noteq> []"
    and "tried = [] \<Longrightarrow> \<exists>out. x = Inr out \<and> map_of out = map_of m"
proof -
  from assms(1) consider
      (good) v g t d where "primary r = Doc v" "doc_gen v = Some g" "parse v = Some t" "d \<in> set (m # tried)" "map_of t = map_of d"
    | (none) "primary r = Absent" "backup r = Absent" "m = []" "marker r = Absent \<or> tried \<noteq> []"
    unfolding holds_one_of_def by blast
  then have "holds_one_of parse r' m tried \<and>
      (\<forall>out. x = Inr out \<longrightarrow> map_of out \<in> map_of ` set (m # tried) \<and> holds_one_of parse r' out [] \<and> (\<exists>v. parse v = Some out)) \<and>
      (\<forall>e. x = Inl e \<longrightarrow> m = [] \<and> tried \<noteq> []) \<and>
      (tried = [] \<longrightarrow> (\<exists>out. x = Inr out \<and> map_of out = map_of m))"
  proof cases
    case good
    obtain kvs where v: "v = JObj kvs" and rp: "read_primary parse (Doc v) = (v, False, Some (t, kvs, Some g))"
      using read_primary_Doc [where validate = parse, OF good(2,3)] by blast
    obtain w1 w2 where ws: "io_repair io = (w1, w2)" by fastforce
    have x: "x = Inr t" and r': "primary r' = Doc v"
      using assms(3) good(1) by (auto simp: load_registry_def rp ws repair_files split: if_splits)
    have "holds_one_of parse r' m tried" unfolding holds_one_of_def using r' good by blast
    moreover have "holds_one_of parse r' t []" unfolding holds_one_of_def using r' good by simp
    ultimately show ?thesis using x good(3-5) by auto
  next
    case none
    have miss: "read_primary parse Absent = (JNull, False, None)" "fenced_backup parse r = None"
      using none(2) by (simp_all add: read_primary_def fenced_backup_def split: sum.splits json.splits)
    have r': "r' = r" and x: "x = (if marker r = Absent then Inr [] else Inl RuntimeError)"
      using assms(2,3) none(1,2) miss by (auto simp: load_registry_def present_def split: if_splits)
    have "marker r = Absent \<Longrightarrow> holds_one_of parse r [] []" using none by (simp add: holds_one_of_def)
    then show ?thesis using assms(1,2) none(3,4) by (auto simp: r' x split: if_splits)
  qed
  then show "holds_one_of parse r' m tried" "x = Inr out \<Longrightarrow> map_of out \<in> map_of ` set (m # tried) \<and> holds_one_of parse r' out [] \<and> (\<exists>v. parse v = Some out)"
    "x = Inl e \<Longrightarrow> m = [] \<and> tried \<noteq> []" "tried = [] \<Longrightarrow> \<exists>out. x = Inr out \<and> map_of out = map_of m"
    by blast+
qed

text \<open>What a publication leaves, whatever becomes of its writes.\<close>

lemma write_one_of:
  assumes "holds_one_of parse r m tried" and "write_registry g ws kvs r = (r', ok)" and "generation_re g"
    and "parse (payload g kvs) = Some out" and "map_of out = map_of cand"
  shows "holds_one_of parse r' m (cand # tried)" and "ok \<Longrightarrow> holds_one_of parse r' cand []"
proof -
  obtain w1 w2 w3 where ws: "ws = (w1, w2, w3)" by (cases ws)
  have r': "r' = \<lparr>primary = (if reports w1 \<and> lands w2 then Doc (payload g kvs) else primary r),
      backup = (if reports w1 \<and> reports w2 \<and> lands w3 then Doc (payload g kvs) else backup r),
      marker = (if lands w1 then Doc (marker_doc g) else marker r)\<rparr>" and ok: "ok \<longleftrightarrow> reports w1 \<and> reports w2"
    using write_registry_files [of g w1 w2 w3 kvs r] write_registry_ok [of g w1 w2 w3 kvs r] assms(2) by (simp_all add: ws)
  have new: "primary r' = Doc (payload g kvs) \<Longrightarrow> holds_one_of parse r' m (cand # tried)"
    "primary r' = Doc (payload g kvs) \<Longrightarrow> holds_one_of parse r' cand []"
    using doc_gen_payload [OF assms(3)] assms(4,5) unfolding holds_one_of_def by (metis list.set_intros)+
  then show "ok \<Longrightarrow> holds_one_of parse r' cand []" using ok reports_lands by (simp add: r')
  show "holds_one_of parse r' m (cand # tried)"
  proof (cases "reports w1 \<and> lands w2")
    case True
    with new(1) show ?thesis by (simp add: r')
  next
    case False
    then have "primary r' = primary r" "backup r' = backup r" using reports_lands by (auto simp: r')
    with assms(1) show ?thesis unfolding holds_one_of_def by (metis list.discI list.set_intros set_ConsD)
  qed
qed

definition ctl_inv :: "ctl_world \<Rightarrow> bool" where
  "ctl_inv w \<longleftrightarrow> tables_ok (cw_state w) \<and> cs_started (cw_state w) \<and> \<not> cs_closed (cw_state w) \<and>
     holds_one_of parse_executors (cs_executor_files (cw_state w)) (cs_executors (cw_state w)) (cw_tried_executors w) \<and>
     holds_one_of parse_sessions (cs_session_files (cw_state w)) (cs_sessions (cw_state w)) (cw_tried_sessions w)"

lemma parse_empty [simp]: "parse_executors JNull = Some []" "parse_sessions JNull = Some []"
  by (simp_all add: parse_executors_def parse_sessions_def parse_registry_def registry_rows_def)

lemma load_empty:
  "parse JNull = Some out \<Longrightarrow> load_registry parse io empty_files = (empty_files, Inr out)"
  by (simp add: load_registry_def read_primary_def fenced_backup_def empty_files_def present_def)

lemma parsed_ok:
  "parse_executors v = Some d \<Longrightarrow> table_ok executor_ok executor_id d"
  "parse_sessions v' = Some d' \<Longrightarrow> table_ok session_ok session_id d'"
  by (auto simp: parse_executors_def parse_sessions_def parse_registry_def executor_validate_ok session_validate_ok
      split: option.splits intro: executor_codec.parse_rows_ok session_codec.parse_rows_ok)

lemma ctl_inv_init: "ctl_init w \<Longrightarrow> ctl_inv w"
  by (cases w) (auto simp: ctl_init_def start_def stopped_def load_empty ctl_inv_def tables_ok_def
      holds_one_of_def empty_files_def [symmetric], auto simp: empty_files_def)

lemma start_files:
  assumes "ctl_inv w" and "start io_e io_s (stop (cw_state w)) = (s', res)"
  shows "holds_one_of parse_executors (cs_executor_files s') (cs_executors (cw_state w)) (cw_tried_executors w)"
    and "holds_one_of parse_sessions (cs_session_files s') (cs_sessions (cw_state w)) (cw_tried_sessions w)"
    and "res = Inr u \<Longrightarrow> map_of (cs_executors s') \<in> map_of ` set (cs_executors (cw_state w) # cw_tried_executors w) \<and>
          map_of (cs_sessions s') \<in> map_of ` set (cs_sessions (cw_state w) # cw_tried_sessions w) \<and> cs_started s'"
    and "res = Inr u \<Longrightarrow> ctl_inv (w\<lparr>cw_state := s', cw_tried_executors := [], cw_tried_sessions := []\<rparr>)"
    and "res = Inl x \<Longrightarrow> cs_executors (cw_state w) = [] \<and> cw_tried_executors w \<noteq> [] \<or>
          cs_sessions (cw_state w) = [] \<and> cw_tried_sessions w \<noteq> []"
proof -
  let ?c = "cw_state w"
  have e: "holds_one_of parse_executors (cs_executor_files ?c) (cs_executors ?c) (cw_tried_executors w)"
    and s: "holds_one_of parse_sessions (cs_session_files ?c) (cs_sessions ?c) (cw_tried_sessions w)"
    using assms(1) by (simp_all add: ctl_inv_def)
  obtain re xe where le: "load_registry parse_executors io_e (cs_executor_files ?c) = (re, xe)" by fastforce
  obtain rs xs where ls: "load_registry parse_sessions io_s (cs_session_files ?c) = (rs, xs)" by fastforce
  note he = load_one_of [OF e parse_empty(1) le] and hs = load_one_of [OF s parse_empty(2) ls]
  from assms(2) le ls consider
      (ok) de ds where "xe = Inr de" "xs = Inr ds" "res = Inr ()" "s' = (stop ?c)\<lparr>cs_executor_files := re,
        cs_session_files := rs, cs_executors := de, cs_sessions := ds, cs_started := True\<rparr>"
    | (bad_s) f where "xs = Inl f" "res = Inl (LoadFailed f)" "s' = (stop ?c)\<lparr>cs_executor_files := re, cs_session_files := rs\<rparr>"
    | (bad_e) f where "xe = Inl f" "res = Inl (LoadFailed f)" "s' = (stop ?c)\<lparr>cs_executor_files := re\<rparr>"
    by (auto simp: start_def stopped_def split: sum.splits)
  then have "holds_one_of parse_executors (cs_executor_files s') (cs_executors ?c) (cw_tried_executors w) \<and>
    holds_one_of parse_sessions (cs_session_files s') (cs_sessions ?c) (cw_tried_sessions w) \<and>
    (res = Inr u \<longrightarrow> map_of (cs_executors s') \<in> map_of ` set (cs_executors ?c # cw_tried_executors w) \<and>
       map_of (cs_sessions s') \<in> map_of ` set (cs_sessions ?c # cw_tried_sessions w) \<and> cs_started s') \<and>
    (res = Inr u \<longrightarrow> ctl_inv (w\<lparr>cw_state := s', cw_tried_executors := [], cw_tried_sessions := []\<rparr>)) \<and>
    (res = Inl x \<longrightarrow> cs_executors ?c = [] \<and> cw_tried_executors w \<noteq> [] \<or> cs_sessions ?c = [] \<and> cw_tried_sessions w \<noteq> [])"
  proof cases
    case ok
    from he(2) [OF ok(1)] hs(2) [OF ok(2)] have
      "map_of de \<in> map_of ` set (cs_executors ?c # cw_tried_executors w)" "holds_one_of parse_executors re de []"
      "table_ok executor_ok executor_id de"
      "map_of ds \<in> map_of ` set (cs_sessions ?c # cw_tried_sessions w)" "holds_one_of parse_sessions rs ds []"
      "table_ok session_ok session_id ds" using parsed_ok by blast+
    with he(1) hs(1) ok(3) show ?thesis by (simp add: ok(4) ctl_inv_def tables_ok_def stopped_def)
  next
    case bad_s
    with he(1) hs(1,3) show ?thesis by (simp add: stopped_def)
  next
    case bad_e
    with he(1,3) s show ?thesis by (simp add: stopped_def)
  qed
  then show "holds_one_of parse_executors (cs_executor_files s') (cs_executors ?c) (cw_tried_executors w)"
    "holds_one_of parse_sessions (cs_session_files s') (cs_sessions ?c) (cw_tried_sessions w)"
    "res = Inr u \<Longrightarrow> map_of (cs_executors s') \<in> map_of ` set (cs_executors ?c # cw_tried_executors w) \<and>
       map_of (cs_sessions s') \<in> map_of ` set (cs_sessions ?c # cw_tried_sessions w) \<and> cs_started s'"
    "res = Inr u \<Longrightarrow> ctl_inv (w\<lparr>cw_state := s', cw_tried_executors := [], cw_tried_sessions := []\<rparr>)"
    "res = Inl x \<Longrightarrow> cs_executors ?c = [] \<and> cw_tried_executors w \<noteq> [] \<or> cs_sessions ?c = [] \<and> cw_tried_sessions w \<noteq> []"
    by blast+
qed

lemma publish_executors_inv:
  assumes "ctl_inv w" and "op_ok op" and "generation_re (fst io)" and "executor_candidate op (cw_state w) cand"
    and "publish_executors io cand (cw_state w) = (s', res)"
  shows "ctl_inv (w\<lparr>cw_state := s', cw_tried_executors := if res = Inr () then [] else cand # cw_tried_executors w\<rparr>)"
proof -
  let ?c = "cw_state w"
  have ok: "table_ok executor_ok executor_id cand"
    using executor_candidate_ok [OF assms(4,2)] assms(1) by (simp add: ctl_inv_def)
  obtain out where out: "parse_executors (payload (fst io) (registry_payload (lit ''executors'') executor_dump cand)) = Some out"
    "map_of out = map_of cand" using executor_codec.parse_payload [OF ok] by (auto simp: parse_executors_def)
  obtain r b where w: "write_registry (fst io) (snd io) (registry_payload (lit ''executors'') executor_dump cand)
      (cs_executor_files ?c) = (r, b)" by fastforce
  have "holds_one_of parse_executors (cs_executor_files ?c) (cs_executors ?c) (cw_tried_executors w)"
    using assms(1) by (simp add: ctl_inv_def)
  note files = write_one_of [OF this w assms(3) out]
  from assms(1,5) w files ok show ?thesis
    by (cases b) (auto simp: publish_executors_def write_executors_def ctl_inv_def tables_ok_def)
qed

lemma publish_sessions_inv:
  assumes "ctl_inv w" and "op_ok op" and "generation_re (fst io)" and "session_candidate op (cw_state w) cand"
    and "publish_sessions io cand (cw_state w) = (s', res)"
  shows "ctl_inv (w\<lparr>cw_state := s', cw_tried_sessions := if res = Inr () then [] else cand # cw_tried_sessions w\<rparr>)"
proof -
  let ?c = "cw_state w"
  have ok: "table_ok session_ok session_id cand"
    using session_candidate_ok [OF assms(4,2)] assms(1) by (simp add: ctl_inv_def)
  obtain out where out: "parse_sessions (payload (fst io) (registry_payload (lit ''sessions'') session_dump cand)) = Some out"
    "map_of out = map_of cand" using session_codec.parse_payload [OF ok] by (auto simp: parse_sessions_def)
  obtain r b where w: "write_registry (fst io) (snd io) (registry_payload (lit ''sessions'') session_dump cand)
      (cs_session_files ?c) = (r, b)" by fastforce
  have "holds_one_of parse_sessions (cs_session_files ?c) (cs_sessions ?c) (cw_tried_sessions w)"
    using assms(1) by (simp add: ctl_inv_def)
  note files = write_one_of [OF this w assms(3) out]
  from assms(1,5) w files ok show ?thesis
    by (cases b) (auto simp: publish_sessions_def write_sessions_def ctl_inv_def tables_ok_def)
qed

lemma ctl_inv_step: "ctl_inv w \<Longrightarrow> ctl_step w v \<Longrightarrow> ctl_inv v"
proof (erule ctl_step.cases)
  fix io_e io_s w' s' e
  assume inv: "ctl_inv w" and w: "w = w'" and v: "v = w'\<lparr>cw_state := (cw_state w')\<lparr>cs_executor_files := cs_executor_files s',
      cs_session_files := cs_session_files s'\<rparr>\<rparr>" and run: "start io_e io_s (stop (cw_state w')) = (s', Inl e)"
  from start_files(1,2) [OF inv run [folded w]] inv show "ctl_inv v" by (simp add: v w ctl_inv_def tables_ok_def)
qed (auto dest: publish_executors_inv publish_sessions_inv start_files(4))

interpretation control: invariant_machine ctl_init ctl_step ctl_inv
  by unfold_locales (fact ctl_inv_init, fact ctl_inv_step)

section \<open>Correctness of the control state\<close>



text \<open>A concrete run: an executor is paired and then revoked.\<close>

definition demo_executor :: executor_record where
  "demo_executor = \<lparr>executor_id = lit ''exec_aaaaaaaaaaaaaaaaaaaaaa'', er_name = lit ''box'',
     credential_verifier = verifier_prefix @ replicate 64 97,
     er_created_at = 10, revoked_at = None, draining = False\<rparr>"

definition demo_write :: write_io where
  "demo_write = (demo_gen, Landed, Landed, Landed)"

lemma demo_write_gen [simp]: "fst demo_write = demo_gen"
  by (simp add: demo_write_def)

definition demo_started :: control_state where
  "demo_started = (stopped empty_files empty_files)\<lparr>cs_started := True\<rparr>"

definition demo_paired :: control_state where
  "demo_paired = fst (put_executor demo_write demo_executor demo_started)"

lemma demo_executor_ok [simp]: "executor_ok demo_executor"
  by (simp add: executor_ok_def demo_executor_def executor_id_ok_def opaque_id_def starts_with_def
      is_token_char_def is_upper_def is_lower_def is_digit_def verifier_ok_def verifier_prefix_def
      list_all_iff is_hex_def)

lemma demo_paired_executors: "cs_executors demo_paired = [(executor_id demo_executor, demo_executor)]"
  by (simp add: demo_paired_def put_executor_def demo_started_def stopped_def require_started_def
      publish_executors_def write_executors_def demo_write_def write_registry_def write_json_def Let_def)

lemma demo_paired_result: "put_executor demo_write demo_executor demo_started = (demo_paired, Inr ())"
  by (simp add: demo_paired_def put_executor_def demo_started_def stopped_def require_started_def
      publish_executors_def write_executors_def demo_write_def write_registry_def write_json_def Let_def)

lemma demo_paired_running [simp]: "require_started demo_paired"
  using arg_cong [OF demo_paired_result, of "\<lambda>x. require_started (fst x)"]
  by (simp add: put_executor_def demo_started_def stopped_def require_started_def publish_executors_def
      write_executors_def demo_write_def write_registry_def write_json_def Let_def)

definition demo_ctl :: ctl_world where
  "demo_ctl = \<lparr>cw_state = demo_paired, cw_tried_executors = [], cw_tried_sessions = []\<rparr>"

lemma demo_ctl_reach: "reach ctl_init ctl_step demo_ctl"
proof (rule reach_step)
  let ?w = "\<lparr>cw_state = demo_started, cw_tried_executors = [], cw_tried_sessions = []\<rparr>"
  show "reach ctl_init ctl_step ?w"
    by (rule reach_init) (simp add: ctl_init_def start_def stopped_def load_empty demo_started_def)
  have "publish_executors demo_write (AList.update (executor_id demo_executor) demo_executor (cs_executors demo_started))
      demo_started = (demo_paired, Inr ())"
    using demo_paired_result by (simp add: put_executor_def demo_started_def require_started_def stopped_def)
  moreover have "executor_candidate (PutExecutor demo_executor) demo_started
      (AList.update (executor_id demo_executor) demo_executor (cs_executors demo_started))"
    by (auto simp: executor_candidate_def)
  ultimately show "ctl_step ?w demo_ctl"
    using ctl_executors [of "PutExecutor demo_executor" demo_write ?w _ demo_paired "Inr ()"] demo_paired_result
    by (simp add: demo_ctl_def)
qed




text \<open>
  Session bindings are immutable. Whatever operation runs, a session that is there before and
  after it keeps its executor, and its task attachment either stays or is cleared by the deletion
  of exactly that task.
\<close>

theorem session_bindings_immutable:
  assumes "apply_op io op s = (s', res)" and "tables_ok s"
    and "map_of (cs_sessions s) i = Some r" and "map_of (cs_sessions s') i = Some r'"
  shows "sr_executor_id r' = sr_executor_id r \<and>
    (task_id r' = task_id r \<or> op = DetachTask (task_text r) \<and> task_id r' = None)"
  using assms(1)
proof (cases rule: apply_op_cases)
  case (executors cand)
  from executors(2) have "cs_sessions s' = cs_sessions s"
    by (auto simp: publish_executors_def write_executors_def split: prod.splits if_splits)
  with assms(3,4) show ?thesis by simp
next
  case (sessions cand)
  from sessions(2) have "cs_sessions s' = cs_sessions s \<or> cs_sessions s' = cand"
    by (auto simp: publish_sessions_def write_sessions_def split: prod.splits if_splits)
  with assms(3,4) sessions(1) show ?thesis
    by (auto simp: session_candidate_def map_of_detach_rows detached_def split: if_splits)
next
  case unchanged
  with assms(3,4) show ?thesis by simp
qed

definition demo_session :: session_record where
  "demo_session = \<lparr>session_id = lit ''sess_aaaaaaaaaaaaaaaaaaaaaa'',
     sr_executor_id = lit ''exec_aaaaaaaaaaaaaaaaaaaaaa'', task_id = Some (lit ''task_aaaaaaaaaaaaaaaaaaaaaa''),
     task_created = True, workdir = None, label = None, status = Creating,
     executor_absence_confirmed = False, sr_created_at = 10, sr_updated_at = 10\<rparr>"

lemma demo_session_ok [simp]: "session_ok demo_session"
  by (simp add: session_ok_def demo_session_def session_id_ok_def executor_id_ok_def task_id_ok_def
      opaque_id_def starts_with_def is_token_char_def is_upper_def is_lower_def is_digit_def)

theorem session_bindings_immutable_witness:
  "\<exists>r'. map_of (cs_sessions (fst (apply_op demo_write (DetachTask (task_text demo_session))
        (demo_started\<lparr>cs_sessions := [(session_id demo_session, demo_session)]\<rparr>)))) (session_id demo_session) =
      Some r' \<and> sr_executor_id r' = sr_executor_id demo_session \<and> task_id r' = None"
proof -
  let ?s = "demo_started\<lparr>cs_sessions := [(session_id demo_session, demo_session)]\<rparr>"
  let ?r = "apply_op demo_write (DetachTask (task_text demo_session)) ?s"
  have ok: "session_ok (detached demo_session)"
    using demo_session_ok by (simp add: session_ok_def detached_def demo_session_def)
  have tab: "tables_ok ?s"
    by (simp add: tables_ok_def table_ok_def demo_started_def stopped_def)
  have r': "map_of (cs_sessions (fst ?r)) (session_id demo_session) = Some (detached demo_session)"
    using ok by (simp add: detach_task_def require_started_def demo_started_def stopped_def detach_rows_def
        publish_sessions_def write_sessions_def demo_write_def write_registry_def write_json_def Let_def)
  have "sr_executor_id (detached demo_session) = sr_executor_id demo_session"
    using session_bindings_immutable [of demo_write "DetachTask (task_text demo_session)" ?s "fst ?r" "snd ?r"
        "session_id demo_session" demo_session "detached demo_session"] tab r' by simp
  with r' show ?thesis by (simp add: detached_def)
qed

section \<open>The trust registry as its clients see it\<close>

text \<open>
  The transport and the pairing service use the control state through three operations: the lookup
  of a trust record, its publication and its revocation. These are the laws they rely on.
\<close>

locale trust_registry =
  fixes lookup :: "'s \<Rightarrow> ustr \<Rightarrow> executor_record option"
    and put :: "write_io \<Rightarrow> executor_record \<Rightarrow> 's \<Rightarrow> 's \<times> ('e + unit)"
    and revoke :: "write_io \<Rightarrow> ustr \<Rightarrow> time \<Rightarrow> 's \<Rightarrow> 's \<times> ('e + executor_record)"
  assumes put_ok: "put io r s = (s', Inr u) \<Longrightarrow> lookup s' = (lookup s)(executor_id r \<mapsto> r)"
    and put_fail: "put io r s = (s', Inl e) \<Longrightarrow> lookup s' = lookup s"
    and revoke_ok: "revoke io i t s = (s', Inr r) \<Longrightarrow>
      \<exists>c. lookup s i = Some c \<and> r = c\<lparr>revoked_at := Some t\<rparr> \<and> lookup s' = (lookup s)(i \<mapsto> r)"
    and revoke_fail: "revoke io i t s = (s', Inl e) \<Longrightarrow> lookup s' = lookup s"
begin

lemma revoke_revokes: "revoke io i t s = (s', Inr r) \<Longrightarrow> \<exists>r. lookup s' i = Some r \<and> revoked_at r = Some t"
  by (auto dest: revoke_ok)

lemma revoke_others: "revoke io i t s = (s', res) \<Longrightarrow> j \<noteq> i \<Longrightarrow> lookup s' j = lookup s j"
  by (cases res) (auto dest: revoke_ok revoke_fail)

lemma put_others: "put io r s = (s', res) \<Longrightarrow> j \<noteq> executor_id r \<Longrightarrow> lookup s' j = lookup s j"
  by (cases res) (auto dest: put_ok put_fail)

lemma put_replaces_credential:
  "put io r s = (s', Inr u) \<Longrightarrow> lookup s' (executor_id r) = Some r' \<Longrightarrow>
   executor_credential_matches sha c (credential_verifier r') \<Longrightarrow>
   credential_verifier r = executor_credential_verifier sha c"
  by (auto dest: put_ok)

end

lemma put_executor_result:
  "put_executor io r s = (s', res) \<Longrightarrow>
   cs_executors s' = (if res = Inr () then AList.update (executor_id r) r (cs_executors s) else cs_executors s)"
  by (auto simp: put_executor_def publish_executors_def write_executors_def split: if_splits prod.splits)

lemma revoke_executor_result:
  "revoke_executor io i t s = (s', res) \<Longrightarrow>
   (case res of
      Inl e \<Rightarrow> cs_executors s' = cs_executors s
    | Inr r \<Rightarrow> \<exists>c. map_of (cs_executors s) i = Some c \<and> r = c\<lparr>revoked_at := Some t\<rparr> \<and>
        cs_executors s' = AList.update i r (cs_executors s))"
  by (auto simp: revoke_executor_def mutate_executor_def publish_executors_def write_executors_def
      split: if_splits prod.splits option.splits sum.splits)

interpretation control_trust:
  trust_registry "\<lambda>s. map_of (cs_executors s)" put_executor revoke_executor
proof unfold_locales
  fix io r s s' u
  assume "put_executor io r s = (s', Inr u)"
  from put_executor_result [OF this] show "map_of (cs_executors s') = (map_of (cs_executors s))(executor_id r \<mapsto> r)"
    by simp
next
  fix io r s s' e
  assume "put_executor io r s = (s', Inl e)"
  from put_executor_result [OF this] show "map_of (cs_executors s') = map_of (cs_executors s)"
    by simp
next
  fix io i t s s' r
  assume "revoke_executor io i t s = (s', Inr r)"
  from revoke_executor_result [OF this] show "\<exists>c. map_of (cs_executors s) i = Some c \<and>
      r = c\<lparr>revoked_at := Some t\<rparr> \<and> map_of (cs_executors s') = (map_of (cs_executors s))(i \<mapsto> r)"
    by auto
next
  fix io i t s s' e
  assume "revoke_executor io i t s = (s', Inl e)"
  from revoke_executor_result [OF this] show "map_of (cs_executors s') = map_of (cs_executors s)"
    by simp
qed

text \<open>A revocation stays until the trust record is put again.\<close>

definition is_revoked :: "ustr \<Rightarrow> control_state \<Rightarrow> bool" where
  "is_revoked i s \<longleftrightarrow> (\<exists>r. map_of (cs_executors s) i = Some r \<and> revoked_at r \<noteq> None)"

lemma mutate_executor_result:
  assumes "mutate_executor io j f s = (s', res)"
  shows "cs_executors s' = cs_executors s \<or>
    (\<exists>c r. map_of (cs_executors s) j = Some c \<and> f c = Inr r \<and> cs_executors s' = AList.update j r (cs_executors s))"
  using assms
  by (auto simp: mutate_executor_def publish_executors_def write_executors_def
      split: if_splits prod.splits option.splits sum.splits)

lemma publish_sessions_executors: "publish_sessions io d s = (s', res) \<Longrightarrow> cs_executors s' = cs_executors s"
  by (auto simp: publish_sessions_def write_sessions_def split: if_splits prod.splits)

lemma mutate_keeps_revoked:
  assumes "is_revoked i s" and "mutate_executor io j f s = (s', res)"
    and "\<And>c r. revoked_at c \<noteq> None \<Longrightarrow> f c = Inr r \<Longrightarrow> revoked_at r \<noteq> None"
  shows "is_revoked i s'"
proof -
  obtain r0 where r0: "map_of (cs_executors s) i = Some r0" "revoked_at r0 \<noteq> None"
    using assms(1) by (auto simp: is_revoked_def)
  from mutate_executor_result [OF assms(2)] show ?thesis
  proof
    assume "cs_executors s' = cs_executors s"
    with r0 show ?thesis by (simp add: is_revoked_def)
  next
    assume "\<exists>c r. map_of (cs_executors s) j = Some c \<and> f c = Inr r \<and> cs_executors s' = AList.update j r (cs_executors s)"
    then obtain c r where r: "map_of (cs_executors s) j = Some c" "f c = Inr r" "cs_executors s' = AList.update j r (cs_executors s)"
      by blast
    have "revoked_at r \<noteq> None" if "i = j" using assms(3) [OF _ r(2)] r0 r(1) that by simp
    with r0 r(3) show ?thesis by (simp add: is_revoked_def)
  qed
qed

lemma revoke_keeps_revoked: "is_revoked i s \<Longrightarrow> revoke_executor io j t s = (s', res) \<Longrightarrow> is_revoked i s'"
  unfolding revoke_executor_def by (erule mutate_keeps_revoked) auto

lemma rename_keeps_revoked: "is_revoked i s \<Longrightarrow> rename_executor io j n s = (s', res) \<Longrightarrow> is_revoked i s'"
  unfolding rename_executor_def by (erule mutate_keeps_revoked) auto

lemma put_keeps_revoked:
  "is_revoked i s \<Longrightarrow> put_executor io r s = (s', res) \<Longrightarrow> executor_id r \<noteq> i \<or> res \<noteq> Inr () \<Longrightarrow> is_revoked i s'"
  by (auto simp: is_revoked_def dest!: put_executor_result)

lemma op_keeps_revoked:
  assumes "is_revoked i s" and "apply_op io op s = (s', res)"
    and "\<nexists>r. op = PutExecutor r \<and> executor_id r = i \<and> res = Inr ()"
  shows "is_revoked i s'"
proof (cases op)
  case (PutExecutor r)
  with assms put_keeps_revoked [OF assms(1), of io r s' res] show ?thesis by auto
next
  case (RevokeExecutor j t)
  obtain u q where "revoke_executor io j t s = (u, q)" by fastforce
  with assms(1,2) RevokeExecutor revoke_keeps_revoked show ?thesis by (cases q) auto
next
  case (SetDraining j b)
  obtain u q where m: "set_executor_draining io j b s = (u, q)" by fastforce
  then have "is_revoked i u"
    unfolding set_executor_draining_def by (rule mutate_keeps_revoked [OF assms(1)]) (simp split: if_splits)
  with m assms(2) SetDraining show ?thesis by (cases q) auto
next
  case (RenameExecutor j n)
  obtain u q where "rename_executor io j n s = (u, q)" by fastforce
  with assms(1,2) RenameExecutor rename_keeps_revoked show ?thesis by (cases q) auto
qed (use assms in \<open>auto simp: is_revoked_def put_session_def update_session_def detach_task_def remove_session_def Let_def
    dest!: publish_sessions_executors split: if_splits option.splits sum.splits prod.splits\<close>)

end
