(* ===== verification/Executor_Transport.thy ===== *)
theory Executor_Transport
  imports Control_State
begin

text \<open>
  Ordinary-RPC coordination between Control and its executors,
  \<open>src/src/workgate/control/executor_transport.py\<close>.

  Each executor has a channel: a queue of command identities, the table of pending commands
  (queued or offered), the token of the delivery poll in progress, and its presence. A caller waits
  on the future of its command; futures are kept by command identity in \<open>xt_futures\<close>, where they
  stay after the command has left the table, since the caller still holds them.

  Every \<open>async with channel.lock\<close> block is one atomic step here. The handlers that authenticate
  first and lock later are split at the lock (\<open>*_locked\<close>), so that the state machine at the end
  may run any other step in between. \<open>now\<close> and \<open>wall\<close> are the two clocks, \<open>sha\<close> is SHA-256 and
  \<open>ver\<close> the running version. Callbacks into other components are returned, in order.
\<close>

section \<open>State\<close>

record executor_command =
  cmd_id :: ustr
  cmd_op :: ustr
  cmd_session_id :: "ustr option"
  cmd_args :: "(ustr \<times> json) list"

record executor_result =
  res_id :: ustr
  res_ok :: bool
  res_body :: json

record hello_request =
  workgate_version :: ustr
  hello_inventory :: json

datatype delivery = Queued | Offered

datatype transport_error =
    TNotRunning
  | TCannotRestart
  | TClosed
  | TProtocol protocol_error_code "delivery option"
  | TControl control_error

datatype future =
    FPending
  | FResult executor_result
  | FError transport_error
  | FCancelled

record pending_command =
  pc_command :: executor_command
  pc_state :: delivery

record channel =
  ch_wake :: bool
  ch_queue :: "ustr list"
  ch_pending :: "(ustr, pending_command) dict"
  ch_poll_token :: "nat option"
  ch_last_activity :: "time option"
  ch_last_seen_at :: "time option"
  ch_hello :: "hello_request option"

record transport =
  xt_control :: control_state
  xt_max_pending :: nat
  xt_heartbeat_interval :: int
  xt_offline_after :: int
  xt_poll_timeout :: int
  xt_channels :: "(ustr, channel) dict"
  xt_futures :: "(ustr, future) dict"
  xt_next_token :: nat
  xt_proof_callback :: bool
  xt_hello_callback :: bool
  xt_invalidated_callback :: bool
  xt_started :: bool
  xt_closed :: bool

datatype callback =
    AuthenticatedProof ustr ustr
  | AuthenticatedHello ustr ustr
  | ExecutorInvalidated ustr

definition empty_channel :: channel where
  "empty_channel = \<lparr>ch_wake = False, ch_queue = [], ch_pending = [], ch_poll_token = None,
     ch_last_activity = None, ch_last_seen_at = None, ch_hello = None\<rparr>"

definition new_transport ::
  "control_state \<Rightarrow> nat \<Rightarrow> int \<Rightarrow> int \<Rightarrow> int \<Rightarrow> transport option" where
  "new_transport ctl max_pending heartbeat offline poll_timeout =
     (if max_pending < 1 then None
      else if heartbeat < 1 \<or> poll_timeout < 1 then None
      else if offline \<le> heartbeat then None
      else Some \<lparr>xt_control = ctl, xt_max_pending = max_pending, xt_heartbeat_interval = heartbeat,
        xt_offline_after = offline, xt_poll_timeout = poll_timeout, xt_channels = [], xt_futures = [],
        xt_next_token = 0, xt_proof_callback = False, xt_hello_callback = False,
        xt_invalidated_callback = False, xt_started = False, xt_closed = False\<rparr>)"

definition require_running :: "transport \<Rightarrow> bool" where
  "require_running t \<longleftrightarrow> \<not> (xt_closed t \<or> \<not> xt_started t)"

definition transport_start :: "transport \<Rightarrow> transport \<times> (transport_error + unit)" where
  "transport_start t =
     (if xt_closed t then (t, Inl TCannotRestart) else (t\<lparr>xt_started := True\<rparr>, Inr ()))"

text \<open>\<open>_channel\<close>: the channel of an executor, created when there is none.\<close>

definition channel_of :: "ustr \<Rightarrow> transport \<Rightarrow> channel" where
  "channel_of eid t = (case map_of (xt_channels t) eid of None \<Rightarrow> empty_channel | Some c \<Rightarrow> c)"

definition put_channel :: "ustr \<Rightarrow> channel \<Rightarrow> transport \<Rightarrow> transport" where
  "put_channel eid c t = t\<lparr>xt_channels := AList.update eid c (xt_channels t)\<rparr>"

definition ensure_channel :: "ustr \<Rightarrow> transport \<Rightarrow> transport" where
  "ensure_channel eid t = (case map_of (xt_channels t) eid of
     None \<Rightarrow> put_channel eid empty_channel t | Some c \<Rightarrow> t)"

section \<open>Authentication\<close>

fun authenticate_rows ::
  "(ustr \<Rightarrow> ustr) \<Rightarrow> ustr \<Rightarrow> (ustr, executor_record) dict \<Rightarrow> transport_error + executor_record" where
  "authenticate_rows sha credential [] = Inl (TProtocol UNAUTHORIZED_EXECUTOR None)"
| "authenticate_rows sha credential ((k, r) # rows) =
     (if \<not> executor_credential_matches sha credential (credential_verifier r)
      then authenticate_rows sha credential rows
      else if revoked_at r \<noteq> None then Inl (TProtocol EXECUTOR_REVOKED None)
      else Inr r)"

definition authenticate ::
  "(ustr \<Rightarrow> ustr) \<Rightarrow> ustr \<Rightarrow> transport \<Rightarrow> transport_error + executor_record" where
  "authenticate sha credential t = authenticate_rows sha credential (cs_executors (xt_control t))"

definition reauthenticate ::
  "(ustr \<Rightarrow> ustr) \<Rightarrow> ustr \<Rightarrow> ustr \<Rightarrow> transport \<Rightarrow> transport_error + unit" where
  "reauthenticate sha eid credential t =
     (case map_of (cs_executors (xt_control t)) eid of
        None \<Rightarrow> Inl (TProtocol UNAUTHORIZED_EXECUTOR None)
      | Some r \<Rightarrow>
          if \<not> executor_credential_matches sha credential (credential_verifier r)
          then Inl (TProtocol UNAUTHORIZED_EXECUTOR None)
          else if revoked_at r \<noteq> None then Inl (TProtocol EXECUTOR_REVOKED None)
          else Inr ())"

definition require_target_trusted :: "ustr \<Rightarrow> transport \<Rightarrow> transport_error + unit" where
  "require_target_trusted eid t =
     (case map_of (cs_executors (xt_control t)) eid of
        None \<Rightarrow> Inl (TProtocol UNAUTHORIZED_EXECUTOR None)
      | Some r \<Rightarrow> if revoked_at r \<noteq> None then Inl (TProtocol EXECUTOR_REVOKED None) else Inr ())"

section \<open>Channel primitives\<close>

definition touch :: "time \<Rightarrow> time \<Rightarrow> channel \<Rightarrow> channel" where
  "touch now wall c = c\<lparr>ch_last_activity := Some now, ch_last_seen_at := Some wall\<rparr>"

definition channel_online :: "time \<Rightarrow> transport \<Rightarrow> channel \<Rightarrow> bool" where
  "channel_online now t c =
     (case ch_last_activity c of
        None \<Rightarrow> False
      | Some seen \<Rightarrow> now - seen \<le> of_int (xt_offline_after t))"

definition runtime_compatible :: "ustr \<Rightarrow> channel \<Rightarrow> bool" where
  "runtime_compatible ver c =
     (case ch_hello c of None \<Rightarrow> False | Some h \<Rightarrow> workgate_version h = ver)"

text \<open>\<open>if not future.done(): future.set_...\<close>\<close>

definition resolve :: "ustr \<Rightarrow> future \<Rightarrow> (ustr, future) dict \<Rightarrow> (ustr, future) dict" where
  "resolve cid f futs = (if map_of futs cid = Some FPending then AList.update cid f futs else futs)"

fun interrupt_queued ::
  "ustr list \<Rightarrow> (ustr, pending_command) dict \<Rightarrow> (ustr, future) dict \<Rightarrow>
   (ustr, pending_command) dict \<times> (ustr, future) dict" where
  "interrupt_queued [] pend futs = (pend, futs)"
| "interrupt_queued (cid # cids) pend futs =
     (case map_of pend cid of
        None \<Rightarrow> interrupt_queued cids pend futs
      | Some p \<Rightarrow>
          if pc_state p \<noteq> Queued then interrupt_queued cids pend futs
          else interrupt_queued cids (AList.delete cid pend)
                 (resolve cid (FError (TProtocol EXECUTOR_INCOMPATIBLE (Some Queued))) futs))"

text \<open>\<open>_interrupt_queued_incompatible\<close> on one channel of the transport\<close>

definition interrupt_queued_incompatible :: "ustr \<Rightarrow> transport \<Rightarrow> transport" where
  "interrupt_queued_incompatible eid t =
     (let c = channel_of eid t;
          (pend, futs) = interrupt_queued (ch_queue c) (ch_pending c) (xt_futures t)
      in put_channel eid (c\<lparr>ch_queue := [], ch_pending := pend\<rparr>) (t\<lparr>xt_futures := futs\<rparr>))"

text \<open>\<open>_interrupt_channel\<close>; \<open>exc\<close> is the exception, tagged with the command's delivery state.\<close>

definition interrupt_channel ::
  "(delivery \<Rightarrow> transport_error) \<Rightarrow> ustr \<Rightarrow> transport \<Rightarrow> transport" where
  "interrupt_channel exc eid t =
     (let c = channel_of eid t;
          futs = fold (\<lambda>(cid, p). resolve cid (FError (exc (pc_state p)))) (ch_pending c) (xt_futures t)
      in put_channel eid (c\<lparr>ch_queue := [], ch_pending := []\<rparr>) (t\<lparr>xt_futures := futs\<rparr>))"

fun offer_next :: "ustr list \<Rightarrow> (ustr, pending_command) dict \<Rightarrow>
  ustr list \<times> (ustr, pending_command) dict \<times> executor_command option" where
  "offer_next [] pend = ([], pend, None)"
| "offer_next (cid # q) pend =
     (case map_of pend cid of
        None \<Rightarrow> offer_next q pend
      | Some p \<Rightarrow>
          if pc_state p \<noteq> Queued then offer_next q pend
          else (q, AList.update cid (p\<lparr>pc_state := Offered\<rparr>) pend, Some (pc_command p)))"

section \<open>Executor-side handlers\<close>

definition hello_locked ::
  "(ustr \<Rightarrow> ustr) \<Rightarrow> ustr \<Rightarrow> time \<Rightarrow> time \<Rightarrow> ustr \<Rightarrow> ustr \<Rightarrow> hello_request \<Rightarrow> transport \<Rightarrow>
   transport \<times> (transport_error + unit)" where
  "hello_locked sha ver now wall eid credential request t =
     (case reauthenticate sha eid credential t of
        Inl e \<Rightarrow> (t, Inl e)
      | Inr _ \<Rightarrow>
          let c = channel_of eid t;
              c = (if ch_poll_token c \<noteq> None then c\<lparr>ch_poll_token := None, ch_wake := True\<rparr> else c);
              t = put_channel eid (c\<lparr>ch_hello := Some request\<rparr>) t;
              t = (if workgate_version request \<noteq> ver then interrupt_queued_incompatible eid t else t)
          in (put_channel eid (touch now wall (channel_of eid t)) t, Inr ()))"

definition hello_callbacks :: "ustr \<Rightarrow> ustr \<Rightarrow> transport \<Rightarrow> callback list" where
  "hello_callbacks eid credential t =
     (if xt_proof_callback t then [AuthenticatedProof eid credential] else []) @
     (if xt_hello_callback t then [AuthenticatedHello eid credential] else [])"

record hello_response =
  hr_heartbeat_interval :: int
  hr_offline_after :: int
  hr_poll_timeout :: int
  hr_required_version :: ustr
  hr_update_required :: bool

definition hello ::
  "(ustr \<Rightarrow> ustr) \<Rightarrow> ustr \<Rightarrow> time \<Rightarrow> time \<Rightarrow> ustr \<Rightarrow> hello_request \<Rightarrow> transport \<Rightarrow>
   transport \<times> (transport_error + hello_response) \<times> callback list" where
  "hello sha ver now wall credential request t =
     (if \<not> require_running t then (t, Inl TNotRunning, [])
      else case authenticate sha credential t of
             Inl e \<Rightarrow> (t, Inl e, [])
           | Inr r \<Rightarrow>
               (case hello_locked sha ver now wall (executor_id r) credential request
                       (ensure_channel (executor_id r) t) of
                  (t', Inl e) \<Rightarrow> (t', Inl e, [])
                | (t', Inr _) \<Rightarrow>
                    (t', Inr \<lparr>hr_heartbeat_interval = xt_heartbeat_interval t,
                        hr_offline_after = xt_offline_after t, hr_poll_timeout = xt_poll_timeout t,
                        hr_required_version = ver,
                        hr_update_required = (workgate_version request \<noteq> ver)\<rparr>,
                     hello_callbacks (executor_id r) credential t')))"

definition authenticate_live_bearer ::
  "(ustr \<Rightarrow> ustr) \<Rightarrow> ustr \<Rightarrow> transport \<Rightarrow> transport_error + ustr" where
  "authenticate_live_bearer sha credential t =
     (if \<not> require_running t then Inl TNotRunning
      else case authenticate sha credential t of
             Inl e \<Rightarrow> Inl e
           | Inr r \<Rightarrow>
               (case reauthenticate sha (executor_id r) credential t of
                  Inl e \<Rightarrow> Inl e
                | Inr _ \<Rightarrow> Inr (executor_id r)))"

definition validate_bearer ::
  "(ustr \<Rightarrow> ustr) \<Rightarrow> ustr \<Rightarrow> transport \<Rightarrow> (transport_error + unit) \<times> callback list" where
  "validate_bearer sha credential t =
     (case authenticate_live_bearer sha credential t of
        Inl e \<Rightarrow> (Inl e, [])
      | Inr eid \<Rightarrow>
          (Inr (), if xt_proof_callback t then [AuthenticatedProof eid credential] else []))"

text \<open>The result of a heartbeat is whether a fresh hello is required.\<close>

definition heartbeat_locked ::
  "(ustr \<Rightarrow> ustr) \<Rightarrow> ustr \<Rightarrow> time \<Rightarrow> time \<Rightarrow> ustr \<Rightarrow> ustr \<Rightarrow> transport \<Rightarrow>
   transport \<times> (transport_error + bool)" where
  "heartbeat_locked sha ver now wall eid credential t =
     (case reauthenticate sha eid credential t of
        Inl e \<Rightarrow> (t, Inl e)
      | Inr _ \<Rightarrow>
          let c = touch now wall (channel_of eid t)
          in (put_channel eid c t, Inr (\<not> runtime_compatible ver c)))"

definition heartbeat ::
  "(ustr \<Rightarrow> ustr) \<Rightarrow> ustr \<Rightarrow> time \<Rightarrow> time \<Rightarrow> ustr \<Rightarrow> transport \<Rightarrow>
   transport \<times> (transport_error + bool)" where
  "heartbeat sha ver now wall credential t =
     (if \<not> require_running t then (t, Inl TNotRunning)
      else case authenticate sha credential t of
             Inl e \<Rightarrow> (t, Inl e)
           | Inr r \<Rightarrow>
               heartbeat_locked sha ver now wall (executor_id r) credential
                 (ensure_channel (executor_id r) t))"

subsection \<open>The delivery poll\<close>

text \<open>
  \<open>poll\<close> takes the channel's poll token, then loops: one locked round, then a wait for the wake
  event or the deadline. The \<open>finally\<close> gives the token back if it is still the poll's own.
\<close>

definition poll_begin ::
  "(ustr \<Rightarrow> ustr) \<Rightarrow> ustr \<Rightarrow> time \<Rightarrow> time \<Rightarrow> ustr \<Rightarrow> ustr \<Rightarrow> transport \<Rightarrow>
   transport \<times> (transport_error + nat)" where
  "poll_begin sha ver now wall eid credential t =
     (case reauthenticate sha eid credential t of
        Inl e \<Rightarrow> (t, Inl e)
      | Inr _ \<Rightarrow>
          let c = channel_of eid t in
          if \<not> runtime_compatible ver c then (t, Inl (TProtocol EXECUTOR_INCOMPATIBLE None))
          else if ch_poll_token c \<noteq> None then (t, Inl (TProtocol EXECUTOR_OVERLOADED None))
          else let token = xt_next_token t in
            (put_channel eid (touch now wall (c\<lparr>ch_poll_token := Some token\<rparr>))
               (t\<lparr>xt_next_token := Suc token\<rparr>), Inr token))"

datatype poll_outcome = PollReturn "executor_command option" | PollWait time

definition poll_round ::
  "(ustr \<Rightarrow> ustr) \<Rightarrow> time \<Rightarrow> time \<Rightarrow> ustr \<Rightarrow> ustr \<Rightarrow> nat \<Rightarrow> time \<Rightarrow> transport \<Rightarrow>
   transport \<times> (transport_error + poll_outcome)" where
  "poll_round sha now wall eid credential token deadline t =
     (if ch_poll_token (channel_of eid t) \<noteq> Some token then (t, Inr (PollReturn None))
      else if \<not> require_running t then (t, Inl TNotRunning)
      else case reauthenticate sha eid credential t of
             Inl e \<Rightarrow> (t, Inl e)
           | Inr _ \<Rightarrow>
               let c = touch now wall (channel_of eid t);
                   (q, pend, cmd) = offer_next (ch_queue c) (ch_pending c);
                   c = c\<lparr>ch_queue := q, ch_pending := pend\<rparr>
               in case cmd of
                    Some command \<Rightarrow> (put_channel eid c t, Inr (PollReturn (Some command)))
                  | None \<Rightarrow>
                      (put_channel eid (c\<lparr>ch_wake := False\<rparr>) t,
                       Inr (if deadline - now \<le> 0 then PollReturn None else PollWait (deadline - now))))"

definition poll_finish :: "ustr \<Rightarrow> nat \<Rightarrow> transport \<Rightarrow> transport" where
  "poll_finish eid token t =
     (let c = channel_of eid t
      in if ch_poll_token c = Some token then put_channel eid (c\<lparr>ch_poll_token := None\<rparr>) t else t)"

text \<open>
  The loop over its rounds. Before a round, anything may happen to the transport (the function in
  the list); the flag says whether the wait after the round ended by the wake event. \<open>None\<close> means
  that the poll is still open when the list ends.
\<close>

fun poll_loop ::
  "(ustr \<Rightarrow> ustr) \<Rightarrow> ustr \<Rightarrow> ustr \<Rightarrow> nat \<Rightarrow> time \<Rightarrow> ((transport \<Rightarrow> transport) \<times> time \<times> time \<times> bool) list \<Rightarrow>
   transport \<Rightarrow> transport \<times> (transport_error + executor_command option) option" where
  "poll_loop sha eid credential token deadline [] t = (t, None)"
| "poll_loop sha eid credential token deadline ((env, now, wall, woken) # rounds) t =
     (case poll_round sha now wall eid credential token deadline (env t) of
        (t', Inl e) \<Rightarrow> (poll_finish eid token t', Some (Inl e))
      | (t', Inr (PollReturn r)) \<Rightarrow> (poll_finish eid token t', Some (Inr r))
      | (t', Inr (PollWait remaining)) \<Rightarrow>
          if woken then poll_loop sha eid credential token deadline rounds t'
          else (poll_finish eid token t', Some (Inr None)))"

definition poll ::
  "(ustr \<Rightarrow> ustr) \<Rightarrow> ustr \<Rightarrow> time \<Rightarrow> time \<Rightarrow> ustr \<Rightarrow>
   ((transport \<Rightarrow> transport) \<times> time \<times> time \<times> bool) list \<Rightarrow> transport \<Rightarrow>
   transport \<times> (transport_error + executor_command option) option" where
  "poll sha ver now wall credential rounds t =
     (if \<not> require_running t then (t, Some (Inl TNotRunning))
      else case authenticate sha credential t of
             Inl e \<Rightarrow> (t, Some (Inl e))
           | Inr r \<Rightarrow>
               (case poll_begin sha ver now wall (executor_id r) credential
                       (ensure_channel (executor_id r) t) of
                  (t', Inl e) \<Rightarrow> (t', Some (Inl e))
                | (t', Inr token) \<Rightarrow>
                    poll_loop sha (executor_id r) credential token
                      (now + of_int (xt_poll_timeout t)) rounds t'))"

section \<open>Control-side handlers\<close>

text \<open>The locked block of \<open>call\<close>; \<open>cid\<close> is the fresh command identity.\<close>

definition call_enqueue ::
  "ustr \<Rightarrow> time \<Rightarrow> ustr \<Rightarrow> ustr \<Rightarrow> (ustr \<times> json) list \<Rightarrow> ustr option \<Rightarrow> ustr \<Rightarrow> transport \<Rightarrow>
   transport \<times> (transport_error + ustr)" where
  "call_enqueue ver now eid op args session cid t =
     (if \<not> require_running t then (t, Inl TNotRunning)
      else let t = ensure_channel eid t; c = channel_of eid t in
        case require_target_trusted eid t of
          Inl e \<Rightarrow> (t, Inl e)
        | Inr _ \<Rightarrow>
            if \<not> channel_online now t c then (t, Inl (TProtocol EXECUTOR_OFFLINE None))
            else if \<not> runtime_compatible ver c then (t, Inl (TProtocol EXECUTOR_INCOMPATIBLE None))
            else if xt_max_pending t \<le> length (ch_pending c)
            then (t, Inl (TProtocol EXECUTOR_OVERLOADED None))
            else let command = \<lparr>cmd_id = cid, cmd_op = op, cmd_session_id = session, cmd_args = args\<rparr>;
                     p = \<lparr>pc_command = command, pc_state = Queued\<rparr>
                 in (put_channel eid
                       (c\<lparr>ch_pending := AList.update cid p (ch_pending c),
                          ch_queue := ch_queue c @ [cid], ch_wake := True\<rparr>)
                       (t\<lparr>xt_futures := AList.update cid FPending (xt_futures t)\<rparr>),
                     Inr cid))"

text \<open>\<open>_abandon\<close>, which \<open>call\<close> runs when its wait is cancelled or times out.\<close>

definition abandon :: "ustr \<Rightarrow> ustr \<Rightarrow> transport \<Rightarrow> transport \<times> delivery option" where
  "abandon eid cid t =
     (case map_of (xt_channels t) eid of
        None \<Rightarrow> (t, None)
      | Some c \<Rightarrow>
          (case map_of (ch_pending c) cid of
             None \<Rightarrow> (t, None)
           | Some p \<Rightarrow>
               (put_channel eid
                  (c\<lparr>ch_pending := AList.delete cid (ch_pending c),
                     ch_queue := (if pc_state p = Queued then remove1 cid (ch_queue c) else ch_queue c)\<rparr>)
                  (t\<lparr>xt_futures := resolve cid FCancelled (xt_futures t)\<rparr>),
                Some (pc_state p))))"

text \<open>How the wait of \<open>call\<close> ends: by its future, or by abandoning the command.\<close>

datatype call_end =
    CallReturn executor_result
  | CallRaise transport_error
  | CallAbandoned "delivery option"

definition call_wait :: "bool \<Rightarrow> ustr \<Rightarrow> ustr \<Rightarrow> transport \<Rightarrow> transport \<times> call_end option" where
  "call_wait interrupted eid cid t =
     (if interrupted then (case abandon eid cid t of (t', d) \<Rightarrow> (t', Some (CallAbandoned d)))
      else case map_of (xt_futures t) cid of
             Some (FResult r) \<Rightarrow> (t, Some (CallReturn r))
           | Some (FError e) \<Rightarrow> (t, Some (CallRaise e))
           | _ \<Rightarrow> (t, None))"

definition submit_result_locked ::
  "(ustr \<Rightarrow> ustr) \<Rightarrow> time \<Rightarrow> time \<Rightarrow> ustr \<Rightarrow> ustr \<Rightarrow> executor_result \<Rightarrow> transport \<Rightarrow>
   transport \<times> (transport_error + unit)" where
  "submit_result_locked sha now wall eid credential result t =
     (case reauthenticate sha eid credential t of
        Inl e \<Rightarrow> (t, Inl e)
      | Inr _ \<Rightarrow>
          let c = touch now wall (channel_of eid t); t = put_channel eid c t in
          (case map_of (ch_pending c) (res_id result) of
             None \<Rightarrow> (t, Inl (TProtocol UNKNOWN_COMMAND None))
           | Some p \<Rightarrow>
               if pc_state p \<noteq> Offered then (t, Inl (TProtocol UNKNOWN_COMMAND None))
               else (put_channel eid (c\<lparr>ch_pending := AList.delete (res_id result) (ch_pending c)\<rparr>)
                       (t\<lparr>xt_futures := resolve (res_id result) (FResult result) (xt_futures t)\<rparr>),
                     Inr ())))"

definition submit_result ::
  "(ustr \<Rightarrow> ustr) \<Rightarrow> time \<Rightarrow> time \<Rightarrow> ustr \<Rightarrow> executor_result \<Rightarrow> transport \<Rightarrow>
   transport \<times> (transport_error + unit)" where
  "submit_result sha now wall credential result t =
     (if \<not> require_running t then (t, Inl TNotRunning)
      else case authenticate sha credential t of
             Inl e \<Rightarrow> (t, Inl e)
           | Inr r \<Rightarrow>
               submit_result_locked sha now wall (executor_id r) credential result
                 (ensure_channel (executor_id r) t))"

definition is_online :: "time \<Rightarrow> ustr \<Rightarrow> transport \<Rightarrow> bool" where
  "is_online now eid t =
     (case map_of (xt_channels t) eid of None \<Rightarrow> False | Some c \<Rightarrow> channel_online now t c)"

definition pending_count :: "ustr \<Rightarrow> transport \<Rightarrow> nat" where
  "pending_count eid t =
     (case map_of (xt_channels t) eid of None \<Rightarrow> 0 | Some c \<Rightarrow> length (ch_pending c))"

definition count_state :: "delivery \<Rightarrow> channel \<Rightarrow> nat" where
  "count_state d c = length (filter (\<lambda>p. pc_state p = d) (dict_values (ch_pending c)))"

definition command_status :: "ustr \<Rightarrow> transport \<Rightarrow> nat \<times> nat \<times> nat" where
  "command_status eid t =
     (case map_of (xt_channels t) eid of
        None \<Rightarrow> (0, 0, xt_max_pending t)
      | Some c \<Rightarrow> (count_state Queued c, count_state Offered c, xt_max_pending t))"

text \<open>The loop of \<open>reset_queued\<close> over the identities it collected first.\<close>

fun reset_ids :: "ustr list \<Rightarrow> channel \<Rightarrow> (ustr, future) dict \<Rightarrow> channel \<times> (ustr, future) dict" where
  "reset_ids [] c futs = (c, futs)"
| "reset_ids (cid # cids) c futs =
     (case map_of (ch_pending c) cid of
        None \<Rightarrow> reset_ids cids c futs
      | Some p \<Rightarrow>
          reset_ids cids
            (c\<lparr>ch_pending := AList.delete cid (ch_pending c), ch_queue := remove1 cid (ch_queue c)\<rparr>)
            (resolve cid (FError (TProtocol EXECUTOR_RESET (Some Queued))) futs))"

definition reset_queued ::
  "ustr \<Rightarrow> transport \<Rightarrow> transport \<times> (transport_error + nat \<times> nat)" where
  "reset_queued eid t =
     (if \<not> require_running t then (t, Inl TNotRunning)
      else let t = ensure_channel eid t; c = channel_of eid t in
        case require_target_trusted eid t of
          Inl e \<Rightarrow> (t, Inl e)
        | Inr _ \<Rightarrow>
            let ids = map fst (filter (\<lambda>(cid, p). pc_state p = Queued) (ch_pending c));
                (c', futs) = reset_ids ids c (xt_futures t)
            in (put_channel eid c' (t\<lparr>xt_futures := futs\<rparr>), Inr (length ids, count_state Offered c')))"

definition inventory :: "ustr \<Rightarrow> transport \<Rightarrow> hello_request option" where
  "inventory eid t =
     (case map_of (xt_channels t) eid of None \<Rightarrow> None | Some c \<Rightarrow> ch_hello c)"

definition last_seen_at :: "ustr \<Rightarrow> transport \<Rightarrow> time option" where
  "last_seen_at eid t =
     (case map_of (xt_channels t) eid of None \<Rightarrow> None | Some c \<Rightarrow> ch_last_seen_at c)"

section \<open>Trust mutations under the handoff lock\<close>

definition transport_rename ::
  "write_io \<Rightarrow> ustr \<Rightarrow> ustr \<Rightarrow> transport \<Rightarrow> transport \<times> (transport_error + executor_record)" where
  "transport_rename io eid name t =
     (if \<not> require_running t then (t, Inl TNotRunning)
      else case rename_executor io eid name (xt_control t) of
             (ctl, Inl e) \<Rightarrow> ((ensure_channel eid t)\<lparr>xt_control := ctl\<rparr>, Inl (TControl e))
           | (ctl, Inr r) \<Rightarrow> ((ensure_channel eid t)\<lparr>xt_control := ctl\<rparr>, Inr r))"

text \<open>What revocation and replacement do to the channel once the trust record is durable.\<close>

definition fence_channel :: "protocol_error_code \<Rightarrow> ustr \<Rightarrow> transport \<Rightarrow> transport" where
  "fence_channel code eid t =
     (let t = interrupt_channel (\<lambda>d. TProtocol code (Some d)) eid t;
          c = channel_of eid t
      in put_channel eid (c\<lparr>ch_last_activity := None, ch_hello := None, ch_wake := True\<rparr>) t)"

definition invalidated_callbacks :: "ustr \<Rightarrow> transport \<Rightarrow> callback list" where
  "invalidated_callbacks eid t = (if xt_invalidated_callback t then [ExecutorInvalidated eid] else [])"

definition transport_revoke ::
  "write_io \<Rightarrow> ustr \<Rightarrow> time \<Rightarrow> transport \<Rightarrow>
   transport \<times> (transport_error + executor_record) \<times> callback list" where
  "transport_revoke io eid instant t =
     (if \<not> require_running t then (t, Inl TNotRunning, [])
      else case revoke_executor io eid instant (xt_control t) of
             (ctl, Inl e) \<Rightarrow> ((ensure_channel eid t)\<lparr>xt_control := ctl\<rparr>, Inl (TControl e), [])
           | (ctl, Inr r) \<Rightarrow>
               let t = fence_channel EXECUTOR_REVOKED eid ((ensure_channel eid t)\<lparr>xt_control := ctl\<rparr>)
               in (t, Inr r, invalidated_callbacks (executor_id r) t))"

definition transport_replace ::
  "write_io \<Rightarrow> executor_record \<Rightarrow> transport \<Rightarrow>
   transport \<times> (transport_error + unit) \<times> callback list" where
  "transport_replace io r t =
     (if \<not> require_running t then (t, Inl TNotRunning, [])
      else let eid = executor_id r in
        case put_executor io r (xt_control t) of
          (ctl, Inl e) \<Rightarrow> ((ensure_channel eid t)\<lparr>xt_control := ctl\<rparr>, Inl (TControl e), [])
        | (ctl, Inr _) \<Rightarrow>
            let t = fence_channel UNAUTHORIZED_EXECUTOR eid ((ensure_channel eid t)\<lparr>xt_control := ctl\<rparr>)
            in (t, Inr (), invalidated_callbacks eid t))"

text \<open>The loop of \<open>aclose\<close> over the channels.\<close>

definition close_channel :: "ustr \<Rightarrow> transport \<Rightarrow> transport" where
  "close_channel eid t =
     (let t = interrupt_channel (\<lambda>_. TClosed) eid t; c = channel_of eid t
      in put_channel eid (c\<lparr>ch_wake := True\<rparr>) t)"

definition transport_close :: "transport \<Rightarrow> transport" where
  "transport_close t =
     (if xt_closed t then t
      else fold close_channel (dict_keys (xt_channels t)) (t\<lparr>xt_closed := True, xt_started := False\<rparr>))"

section \<open>Channels one at a time\<close>

lemma channel_of_put [simp]:
  "channel_of e (put_channel eid c t) = (if e = eid then c else channel_of e t)"
  by (simp add: channel_of_def put_channel_def)

lemma put_channel_frame [simp]:
  "xt_control (put_channel eid c t) = xt_control t"
  "xt_futures (put_channel eid c t) = xt_futures t"
  "xt_max_pending (put_channel eid c t) = xt_max_pending t"
  "xt_next_token (put_channel eid c t) = xt_next_token t"
  "xt_started (put_channel eid c t) = xt_started t"
  "xt_closed (put_channel eid c t) = xt_closed t"
  "xt_offline_after (put_channel eid c t) = xt_offline_after t"
  "xt_invalidated_callback (put_channel eid c t) = xt_invalidated_callback t"
  by (simp_all add: put_channel_def)

lemma channel_of_ensure [simp]: "channel_of e (ensure_channel eid t) = channel_of e t"
  by (auto simp: ensure_channel_def put_channel_def channel_of_def split: option.splits)

lemma ensure_channel_frame [simp]:
  "xt_control (ensure_channel eid t) = xt_control t"
  "xt_futures (ensure_channel eid t) = xt_futures t"
  "xt_max_pending (ensure_channel eid t) = xt_max_pending t"
  "xt_next_token (ensure_channel eid t) = xt_next_token t"
  "xt_started (ensure_channel eid t) = xt_started t"
  "xt_closed (ensure_channel eid t) = xt_closed t"
  "xt_offline_after (ensure_channel eid t) = xt_offline_after t"
  "xt_invalidated_callback (ensure_channel eid t) = xt_invalidated_callback t"
  by (auto simp: ensure_channel_def split: option.splits)

lemma channel_of_frame [simp]:
  "channel_of e (t\<lparr>xt_futures := f\<rparr>) = channel_of e t"
  "channel_of e (t\<lparr>xt_control := ctl\<rparr>) = channel_of e t"
  "channel_of e (t\<lparr>xt_next_token := n\<rparr>) = channel_of e t"
  "channel_of e (t\<lparr>xt_started := b\<rparr>) = channel_of e t"
  "channel_of e (t\<lparr>xt_closed := b\<rparr>) = channel_of e t"
  by (simp_all add: channel_of_def)

abbreviation pending_at :: "transport \<Rightarrow> ustr \<Rightarrow> ustr \<Rightarrow> pending_command option" where
  "pending_at t eid cid \<equiv> map_of (ch_pending (channel_of eid t)) cid"

lemma map_of_resolve:
  "map_of (resolve cid f futs) x =
     (if x = cid \<and> map_of futs cid = Some FPending then Some f else map_of futs x)"
  by (simp add: resolve_def)

text \<open>
  Well-formedness of a channel: the queue lists exactly the commands still queued, each once, and
  the table never holds more than \<open>m\<close> commands, each under its own identity.
\<close>

definition channel_inv :: "nat \<Rightarrow> channel \<Rightarrow> bool" where
  "channel_inv m c \<longleftrightarrow>
     dict_ok (ch_pending c) \<and> distinct (ch_queue c) \<and> length (ch_pending c) \<le> m \<and>
     (\<forall>cid. cid \<in> set (ch_queue c) \<longleftrightarrow> map_option pc_state (map_of (ch_pending c) cid) = Some Queued) \<and>
     (\<forall>cid p. map_of (ch_pending c) cid = Some p \<longrightarrow> cmd_id (pc_command p) = cid)"

lemma channel_inv_empty [simp]: "channel_inv m empty_channel"
  by (simp add: channel_inv_def empty_channel_def)

lemma channel_inv_frame [simp]:
  "channel_inv m (touch now wall c) = channel_inv m c"
  "channel_inv m (c\<lparr>ch_wake := b\<rparr>) = channel_inv m c"
  "channel_inv m (c\<lparr>ch_poll_token := tk\<rparr>) = channel_inv m c"
  "channel_inv m (c\<lparr>ch_hello := h\<rparr>) = channel_inv m c"
  "channel_inv m (c\<lparr>ch_last_activity := l\<rparr>) = channel_inv m c"
  by (simp_all add: channel_inv_def touch_def)

lemma touch_frame [simp]:
  "ch_pending (touch now wall c) = ch_pending c" "ch_queue (touch now wall c) = ch_queue c"
  "ch_hello (touch now wall c) = ch_hello c" "ch_poll_token (touch now wall c) = ch_poll_token c"
  by (simp_all add: touch_def)

lemma channel_inv_cleared: "channel_inv m (c\<lparr>ch_queue := [], ch_pending := []\<rparr>)"
  by (simp add: channel_inv_def)

text \<open>Removing one command from the table and the queue.\<close>

definition drop_command :: "ustr \<Rightarrow> channel \<Rightarrow> channel" where
  "drop_command cid c = c\<lparr>ch_pending := AList.delete cid (ch_pending c), ch_queue := remove1 cid (ch_queue c)\<rparr>"

lemma channel_inv_drop: "channel_inv m c \<Longrightarrow> channel_inv m (drop_command cid c)"
  using length_pop_le [of cid "ch_pending c"]
  by (auto simp: channel_inv_def drop_command_def)

lemma drop_command_not_queued:
  assumes "channel_inv m c" and "map_of (ch_pending c) cid = Some p" and "pc_state p \<noteq> Queued"
  shows "drop_command cid c = c\<lparr>ch_pending := AList.delete cid (ch_pending c)\<rparr>"
proof -
  have "cid \<notin> set (ch_queue c)" using assms by (simp add: channel_inv_def)
  then show ?thesis by (simp add: drop_command_def remove1_idem)
qed

lemma drop_command_pending [simp]:
  "ch_pending (drop_command cid c) = AList.delete cid (ch_pending c)"
  by (simp add: drop_command_def)

text \<open>Dropping a set of commands, and resolving exactly their futures.\<close>

definition drops :: "ustr set \<Rightarrow> channel \<Rightarrow> channel \<Rightarrow> bool" where
  "drops X c c' \<longleftrightarrow>
     (\<forall>cid. map_of (ch_pending c') cid = (if cid \<in> X then None else map_of (ch_pending c) cid))"

definition settles :: "ustr set \<Rightarrow> (ustr, future) dict \<Rightarrow> (ustr, future) dict \<Rightarrow> bool" where
  "settles X futs futs' \<longleftrightarrow>
     (\<forall>cid. if cid \<in> X \<and> map_of futs cid = Some FPending
            then \<exists>f. map_of futs' cid = Some f \<and> f \<noteq> FPending
            else map_of futs' cid = map_of futs cid)"

lemma drops_empty [simp]: "ch_pending c' = ch_pending c \<Longrightarrow> drops {} c c'"
  by (simp add: drops_def)

lemma drops_drop_command:
  "ch_pending c' = ch_pending c \<Longrightarrow> drops {cid} c' (drop_command cid c)"
  by (simp add: drops_def)

lemma settles_empty [simp]: "settles {} futs futs"
  by (simp add: settles_def)

lemma settles_resolve: "f \<noteq> FPending \<Longrightarrow> settles {cid} futs (resolve cid f futs)"
  by (auto simp: settles_def map_of_resolve)

lemma settles_trans:
  "settles X futs futs' \<Longrightarrow> settles Y futs' futs'' \<Longrightarrow> settles (X \<union> Y) futs futs''"
  unfolding settles_def by (metis (no_types, lifting) UnE UnI1 UnI2 option.inject)

lemma interrupt_queued_spec:
  assumes "\<And>cid. cid \<in> set cids \<Longrightarrow> map_option pc_state (map_of pend cid) = Some Queued"
    and "distinct cids" and "interrupt_queued cids pend futs = (pend', futs')"
  shows "map_of pend' = (\<lambda>x. if x \<in> set cids then None else map_of pend x) \<and>
    settles (set cids) futs futs' \<and> (dict_ok pend \<longrightarrow> dict_ok pend') \<and> length pend' \<le> length pend"
  using assms
proof (induction cids arbitrary: pend futs)
  case Nil
  then show ?case by simp
next
  case (Cons cid cids)
  from Cons.prems(1) [of cid] obtain p where p: "map_of pend cid = Some p" "pc_state p = Queued"
    by auto
  let ?futs = "resolve cid (FError (TProtocol EXECUTOR_INCOMPATIBLE (Some Queued))) futs"
  have "interrupt_queued cids (AList.delete cid pend) ?futs = (pend', futs')"
    using Cons.prems(3) p by simp
  moreover have "map_option pc_state (map_of (AList.delete cid pend) x) = Some Queued" if "x \<in> set cids" for x
    using that Cons.prems(1) [of x] Cons.prems(2) by auto
  ultimately have IH: "map_of pend' = (\<lambda>x. if x \<in> set cids then None else map_of (AList.delete cid pend) x)"
    "settles (set cids) ?futs futs'" "dict_ok (AList.delete cid pend) \<longrightarrow> dict_ok pend'"
    "length pend' \<le> length (AList.delete cid pend)"
    using Cons.IH [of "AList.delete cid pend" ?futs] Cons.prems(2) by auto
  moreover have "settles ({cid} \<union> set cids) futs futs'"
    using settles_trans [OF settles_resolve IH(2)] by simp
  ultimately show ?case
    using length_pop_le [of cid pend] by (auto simp: fun_eq_iff)
qed

lemma fold_resolve_settles:
  "(\<And>x. x \<in> set ps \<Longrightarrow> exc (snd x) \<noteq> FPending) \<Longrightarrow>
   settles (fst ` set ps) futs (fold (\<lambda>(cid, p). resolve cid (exc p)) ps futs)"
proof (induction ps arbitrary: futs)
  case (Cons x ps)
  obtain cid p where x: "x = (cid, p)" by (cases x)
  have "settles {cid} futs (resolve cid (exc p) futs)"
    using Cons.prems [of x] x by (simp add: settles_resolve)
  with Cons.IH [of "resolve cid (exc p) futs"] Cons.prems settles_trans [of "{cid}"] x show ?case
    by fastforce
qed simp

lemma reset_ids_spec:
  assumes "reset_ids cids c futs = (c', futs')" and "channel_inv m c"
    and "distinct cids" and "set cids \<subseteq> dom (map_of (ch_pending c))"
  shows "drops (set cids) c c' \<and> settles (set cids) futs futs' \<and> channel_inv m c' \<and>
    ch_poll_token c' = ch_poll_token c \<and> ch_last_activity c' = ch_last_activity c \<and> ch_hello c' = ch_hello c"
  using assms
proof (induction cids arbitrary: c futs)
  case Nil
  then show ?case by simp
next
  case (Cons cid cids)
  then obtain p where p: "map_of (ch_pending c) cid = Some p" by auto
  let ?futs = "resolve cid (FError (TProtocol EXECUTOR_RESET (Some Queued))) futs"
  have rec: "reset_ids cids (drop_command cid c) ?futs = (c', futs')"
    using Cons.prems(1) p by (simp add: drop_command_def)
  have sub: "set cids \<subseteq> dom (map_of (ch_pending (drop_command cid c)))"
    using Cons.prems(3,4) by auto
  have dist: "distinct cids" using Cons.prems(3) by simp
  note IH = Cons.IH [OF rec channel_inv_drop [OF Cons.prems(2)] dist sub]
  have "drops (set (cid # cids)) c c'"
    using IH by (auto simp: drops_def)
  moreover have "settles ({cid} \<union> set cids) futs futs'"
    using settles_trans [OF settles_resolve] IH by blast
  ultimately show ?case using IH by (simp add: drop_command_def)
qed

lemma offer_next_spec:
  assumes "\<And>cid. cid \<in> set q \<Longrightarrow> map_option pc_state (map_of pend cid) = Some Queued"
  shows "offer_next q pend =
    (case q of
       [] \<Rightarrow> ([], pend, None)
     | cid # q' \<Rightarrow>
         (q', AList.update cid ((the (map_of pend cid))\<lparr>pc_state := Offered\<rparr>) pend,
          Some (pc_command (the (map_of pend cid)))))"
  using assms [of "hd q"] by (cases q) auto

section \<open>The state machine\<close>

text \<open>
  The ghost fields record every command identity issued, with the executor it was addressed to,
  and every offer, with the executor that received it.
\<close>

record xt_world =
  xt :: transport
  issued :: "(ustr \<times> ustr) list"
  offers :: "(ustr \<times> ustr) list"

definition offered_by :: "ustr \<Rightarrow> transport_error + poll_outcome \<Rightarrow> (ustr \<times> ustr) list" where
  "offered_by eid res =
     (case res of Inr (PollReturn (Some command)) \<Rightarrow> [(cmd_id command, eid)] | _ \<Rightarrow> [])"

inductive xt_step :: "(ustr \<Rightarrow> ustr) \<Rightarrow> ustr \<Rightarrow> xt_world \<Rightarrow> xt_world \<Rightarrow> bool" for sha ver where
  xt_start: "xt_step sha ver w (w\<lparr>xt := fst (transport_start (xt w))\<rparr>)"
| xt_hello:
    "xt_step sha ver w (w\<lparr>xt := fst (hello_locked sha ver now wall eid cred request (xt w))\<rparr>)"
| xt_heartbeat:
    "xt_step sha ver w (w\<lparr>xt := fst (heartbeat_locked sha ver now wall eid cred (xt w))\<rparr>)"
| xt_poll_begin:
    "xt_step sha ver w (w\<lparr>xt := fst (poll_begin sha ver now wall eid cred (xt w))\<rparr>)"
| xt_poll_round:
    "poll_round sha now wall eid cred token deadline (xt w) = (t, res) \<Longrightarrow>
     xt_step sha ver w (w\<lparr>xt := t, offers := offered_by eid res @ offers w\<rparr>)"
| xt_poll_finish: "xt_step sha ver w (w\<lparr>xt := poll_finish eid token (xt w)\<rparr>)"
| xt_call: "map_of (issued w) cid = None \<Longrightarrow>
     call_enqueue ver now eid op args session cid (xt w) = (t, Inr cid) \<Longrightarrow>
     xt_step sha ver w (w\<lparr>xt := t, issued := (cid, eid) # issued w\<rparr>)"
| xt_call_refused: "call_enqueue ver now eid op args session cid (xt w) = (t, Inl e) \<Longrightarrow>
     xt_step sha ver w (w\<lparr>xt := t\<rparr>)"
| xt_abandon: "xt_step sha ver w (w\<lparr>xt := fst (abandon eid cid (xt w))\<rparr>)"
| xt_submit:
    "xt_step sha ver w (w\<lparr>xt := fst (submit_result_locked sha now wall eid cred result (xt w))\<rparr>)"
| xt_reset: "xt_step sha ver w (w\<lparr>xt := fst (reset_queued eid (xt w))\<rparr>)"
| xt_rename: "xt_step sha ver w (w\<lparr>xt := fst (transport_rename io eid name (xt w))\<rparr>)"
| xt_revoke: "xt_step sha ver w (w\<lparr>xt := fst (transport_revoke io eid instant (xt w))\<rparr>)"
| xt_replace: "xt_step sha ver w (w\<lparr>xt := fst (transport_replace io r (xt w))\<rparr>)"
| xt_control_op:
    "xt_step sha ver w (w\<lparr>xt := (xt w)\<lparr>xt_control := fst (apply_op io op (xt_control (xt w)))\<rparr>\<rparr>)"
| xt_close: "xt_step sha ver w (w\<lparr>xt := transport_close (xt w)\<rparr>)"

definition xt_init :: "xt_world \<Rightarrow> bool" where
  "xt_init w \<longleftrightarrow>
     (\<exists>ctl m h off p. new_transport ctl m h off p = Some (xt w)) \<and> issued w = [] \<and> offers w = []"

definition xt_inv :: "xt_world \<Rightarrow> bool" where
  "xt_inv w \<longleftrightarrow>
     (\<forall>eid. channel_inv (xt_max_pending (xt w)) (channel_of eid (xt w))) \<and>
     (\<forall>eid cid. pending_at (xt w) eid cid \<noteq> None \<longrightarrow>
        map_of (issued w) cid = Some eid \<and> map_of (xt_futures (xt w)) cid = Some FPending) \<and>
     (\<forall>cid. map_of (xt_futures (xt w)) cid = Some FPending \<longrightarrow> (\<exists>eid. pending_at (xt w) eid cid \<noteq> None)) \<and>
     (\<forall>cid. map_of (xt_futures (xt w)) cid = None \<longleftrightarrow> map_of (issued w) cid = None) \<and>
     distinct (map fst (offers w)) \<and>
     (\<forall>cid eid. (cid, eid) \<in> set (offers w) \<longrightarrow> map_of (issued w) cid = Some eid) \<and>
     (\<forall>eid cid p. pending_at (xt w) eid cid = Some p \<longrightarrow>
        (pc_state p = Offered \<longleftrightarrow> (cid, eid) \<in> set (offers w)))"

lemma xt_invD:
  assumes "xt_inv w"
  shows "channel_inv (xt_max_pending (xt w)) (channel_of eid (xt w))"
    and "pending_at (xt w) eid cid = Some p \<Longrightarrow> map_of (issued w) cid = Some eid"
    and "pending_at (xt w) eid cid = Some p \<Longrightarrow> map_of (xt_futures (xt w)) cid = Some FPending"
    and "map_of (xt_futures (xt w)) cid = Some FPending \<Longrightarrow> \<exists>eid. pending_at (xt w) eid cid \<noteq> None"
    and "map_of (xt_futures (xt w)) cid = None \<longleftrightarrow> map_of (issued w) cid = None"
    and "distinct (map fst (offers w))"
    and "(cid, eid) \<in> set (offers w) \<Longrightarrow> map_of (issued w) cid = Some eid"
    and "pending_at (xt w) eid cid = Some p \<Longrightarrow> pc_state p = Offered \<longleftrightarrow> (cid, eid) \<in> set (offers w)"
  using assms unfolding xt_inv_def by blast+

text \<open>
  The common step: one channel drops a set of its commands and their futures are settled; no other
  channel changes.
\<close>

lemma xt_inv_shrink:
  assumes inv: "xt_inv w"
    and other: "\<And>e. e \<noteq> eid \<Longrightarrow> ch_pending (channel_of e t) = ch_pending (channel_of e (xt w)) \<and>
      ch_queue (channel_of e t) = ch_queue (channel_of e (xt w))"
    and chan: "channel_inv (xt_max_pending (xt w)) (channel_of eid t)"
    and drop: "drops X (channel_of eid (xt w)) (channel_of eid t)"
    and sub: "X \<subseteq> dom (pending_at (xt w) eid)"
    and futs: "settles X (xt_futures (xt w)) (xt_futures t)"
    and m: "xt_max_pending t = xt_max_pending (xt w)"
  shows "xt_inv (w\<lparr>xt := t\<rparr>)"
proof -
  have pend: "pending_at t e cid = (if e = eid \<and> cid \<in> X then None else pending_at (xt w) e cid)" for e cid
    using other [of e] drop by (cases "e = eid") (auto simp: drops_def)
  have X: "map_of (issued w) cid = Some eid" "map_of (xt_futures (xt w)) cid = Some FPending" if "cid \<in> X" for cid
    using sub that xt_invD(2,3) [OF inv, of eid cid] by auto
  have F: "cid \<notin> X \<Longrightarrow> map_of (xt_futures t) cid = map_of (xt_futures (xt w)) cid"
    "cid \<in> X \<Longrightarrow> \<exists>f. map_of (xt_futures t) cid = Some f \<and> f \<noteq> FPending" for cid
    using futs X(2) [of cid] unfolding settles_def by (auto split: if_splits)
  show ?thesis
    unfolding xt_inv_def
  proof (intro conjI allI impI)
    fix e
    have "channel_inv (xt_max_pending (xt w)) (channel_of e t)"
      using chan other [of e] xt_invD(1) [OF inv, of e]
      by (cases "e = eid") (auto simp: channel_inv_def)
    then show "channel_inv (xt_max_pending (xt (w\<lparr>xt := t\<rparr>))) (channel_of e (xt (w\<lparr>xt := t\<rparr>)))"
      using m by simp
  next
    fix e cid
    assume "pending_at (xt (w\<lparr>xt := t\<rparr>)) e cid \<noteq> None"
    then obtain p where "pending_at (xt w) e cid = Some p" "\<not> (e = eid \<and> cid \<in> X)"
      using pend [of e cid] by (auto split: if_splits)
    moreover from this have "cid \<notin> X"
      using xt_invD(2) [OF inv, of e cid p] X(1) [of cid] by auto
    ultimately show "map_of (issued (w\<lparr>xt := t\<rparr>)) cid = Some e"
      and "map_of (xt_futures (xt (w\<lparr>xt := t\<rparr>))) cid = Some FPending"
      using xt_invD(2,3) [OF inv, of e cid p] F(1) [of cid] by auto
  next
    fix cid
    assume "map_of (xt_futures (xt (w\<lparr>xt := t\<rparr>))) cid = Some FPending"
    then have X': "cid \<notin> X" and "map_of (xt_futures (xt w)) cid = Some FPending"
      using F [of cid] by fastforce+
    with xt_invD(4) [OF inv, of cid] pend show "\<exists>e. pending_at (xt (w\<lparr>xt := t\<rparr>)) e cid \<noteq> None"
      by auto
  next
    fix cid
    show "map_of (xt_futures (xt (w\<lparr>xt := t\<rparr>))) cid = None \<longleftrightarrow> map_of (issued (w\<lparr>xt := t\<rparr>)) cid = None"
      using xt_invD(5) [OF inv, of cid] F [of cid] X(1) [of cid] by (cases "cid \<in> X") auto
  next
    show "distinct (map fst (offers (w\<lparr>xt := t\<rparr>)))" using xt_invD(6) [OF inv] by simp
  next
    fix cid e
    assume "(cid, e) \<in> set (offers (w\<lparr>xt := t\<rparr>))"
    then show "map_of (issued (w\<lparr>xt := t\<rparr>)) cid = Some e" using xt_invD(7) [OF inv] by simp
  next
    fix e cid p
    assume "pending_at (xt (w\<lparr>xt := t\<rparr>)) e cid = Some p"
    then have "pending_at (xt w) e cid = Some p" using pend [of e cid] by (auto split: if_splits)
    then show "pc_state p = Offered \<longleftrightarrow> (cid, e) \<in> set (offers (w\<lparr>xt := t\<rparr>))"
      using xt_invD(8) [OF inv, of e cid p] by simp
  qed
qed

lemma xt_inv_same:
  assumes "xt_inv w" and "\<And>e. ch_pending (channel_of e t) = ch_pending (channel_of e (xt w)) \<and>
      ch_queue (channel_of e t) = ch_queue (channel_of e (xt w))"
    and "xt_futures t = xt_futures (xt w)" and "xt_max_pending t = xt_max_pending (xt w)"
  shows "xt_inv (w\<lparr>xt := t\<rparr>)"
proof (rule xt_inv_shrink [where X = "{}" and eid = "[]"])
  show "channel_inv (xt_max_pending (xt w)) (channel_of [] t)"
    using xt_invD(1) [OF assms(1), of "[]"] assms(2) [of "[]"] by (simp add: channel_inv_def)
qed (use assms in simp_all)

lemma xt_inv_interrupt:
  assumes inv: "xt_inv w" and t0: "\<And>e. channel_of e t0 = channel_of e (xt w)"
    and "xt_futures t0 = xt_futures (xt w)" and "xt_max_pending t0 = xt_max_pending (xt w)"
  shows "xt_inv (w\<lparr>xt := interrupt_channel exc eid t0\<rparr>)"
proof (rule xt_inv_shrink [where X = "dom (pending_at (xt w) eid)" and eid = eid])
  show "settles (dom (pending_at (xt w) eid)) (xt_futures (xt w)) (xt_futures (interrupt_channel exc eid t0))"
    unfolding interrupt_channel_def Let_def t0 assms(3) put_channel_frame transport.select_convs
      transport.update_convs dom_map_of_conv_image_fst
    by (simp, rule fold_resolve_settles [where exc = "\<lambda>p. FError (exc (pc_state p))"]) simp
  show "drops (dom (pending_at (xt w) eid)) (channel_of eid (xt w))
      (channel_of eid (interrupt_channel exc eid t0))"
    by (auto simp: interrupt_channel_def drops_def Let_def domIff)
qed (use inv assms in \<open>simp_all add: interrupt_channel_def Let_def channel_inv_cleared\<close>)

lemma xt_inv_incompatible:
  assumes inv: "xt_inv w" and t0: "\<And>e. ch_pending (channel_of e t0) = ch_pending (channel_of e (xt w)) \<and>
      ch_queue (channel_of e t0) = ch_queue (channel_of e (xt w))"
    and "xt_futures t0 = xt_futures (xt w)" and "xt_max_pending t0 = xt_max_pending (xt w)"
  shows "xt_inv (w\<lparr>xt := interrupt_queued_incompatible eid t0\<rparr>)"
proof -
  let ?c = "channel_of eid (xt w)"
  note ci = xt_invD(1) [OF inv, of eid]
  obtain pend futs where iq: "interrupt_queued (ch_queue ?c) (ch_pending ?c) (xt_futures (xt w)) = (pend, futs)"
    by fastforce
  have spec: "map_of pend = (\<lambda>x. if x \<in> set (ch_queue ?c) then None else map_of (ch_pending ?c) x)"
    "settles (set (ch_queue ?c)) (xt_futures (xt w)) futs" "dict_ok pend" "length pend \<le> length (ch_pending ?c)"
    using interrupt_queued_spec [OF _ _ iq] ci by (auto simp: channel_inv_def)
  have q: "set (ch_queue ?c) \<subseteq> dom (map_of (ch_pending ?c))"
    using ci by (auto simp: channel_inv_def)
  show ?thesis
  proof (rule xt_inv_shrink [where X = "set (ch_queue ?c)" and eid = eid])
    show "drops (set (ch_queue ?c)) ?c (channel_of eid (interrupt_queued_incompatible eid t0))"
      using iq t0 [of eid] assms(3) spec(1)
      by (simp add: interrupt_queued_incompatible_def Let_def drops_def)
    show "channel_inv (xt_max_pending (xt w)) (channel_of eid (interrupt_queued_incompatible eid t0))"
      using iq t0 [of eid] assms(3) spec ci
      by (auto simp: interrupt_queued_incompatible_def Let_def channel_inv_def split: if_splits)
    show "settles (set (ch_queue ?c)) (xt_futures (xt w)) (xt_futures (interrupt_queued_incompatible eid t0))"
      using iq t0 [of eid] assms(3) spec(2) by (simp add: interrupt_queued_incompatible_def Let_def)
  qed (use inv assms q in \<open>simp_all add: interrupt_queued_incompatible_def Let_def split: prod.splits\<close>)
qed

lemma xt_inv_hello:
  assumes "xt_inv w"
  shows "xt_inv (w\<lparr>xt := fst (hello_locked sha ver now wall eid cred request (xt w))\<rparr>)"
proof (cases "reauthenticate sha eid cred (xt w)")
  case (Inl e)
  with assms show ?thesis by (simp add: hello_locked_def)
next
  case (Inr u)
  define c where "c = (let c = channel_of eid (xt w) in
    if ch_poll_token c \<noteq> None then c\<lparr>ch_poll_token := None, ch_wake := True\<rparr> else c)"
  define t1 where "t1 = put_channel eid (c\<lparr>ch_hello := Some request\<rparr>) (xt w)"
  define t2 where "t2 = (if workgate_version request \<noteq> ver then interrupt_queued_incompatible eid t1 else t1)"
  have "xt_inv (w\<lparr>xt := t2\<rparr>)"
    using xt_inv_incompatible [OF assms, of t1 eid] xt_inv_same [OF assms, of t1]
    by (auto simp: t2_def t1_def c_def Let_def)
  then have "xt_inv (w\<lparr>xt := t2\<rparr>\<lparr>xt := put_channel eid (touch now wall (channel_of eid t2)) t2\<rparr>)"
    by (rule xt_inv_same) simp_all
  moreover have "fst (hello_locked sha ver now wall eid cred request (xt w)) =
      put_channel eid (touch now wall (channel_of eid t2)) t2"
    using Inr by (simp add: hello_locked_def t2_def t1_def c_def Let_def)
  ultimately show ?thesis by simp
qed

lemma xt_inv_heartbeat:
  "xt_inv w \<Longrightarrow> xt_inv (w\<lparr>xt := fst (heartbeat_locked sha ver now wall eid cred (xt w))\<rparr>)"
  by (cases "reauthenticate sha eid cred (xt w)")
    (auto simp: heartbeat_locked_def Let_def intro: xt_inv_same)

lemma xt_inv_poll_begin:
  "xt_inv w \<Longrightarrow> xt_inv (w\<lparr>xt := fst (poll_begin sha ver now wall eid cred (xt w))\<rparr>)"
  by (cases "reauthenticate sha eid cred (xt w)")
    (auto simp: poll_begin_def Let_def intro: xt_inv_same)

lemma xt_inv_poll_finish: "xt_inv w \<Longrightarrow> xt_inv (w\<lparr>xt := poll_finish eid token (xt w)\<rparr>)"
  by (auto simp: poll_finish_def Let_def intro: xt_inv_same)

lemma xt_inv_abandon:
  assumes "xt_inv w"
  shows "xt_inv (w\<lparr>xt := fst (abandon eid cid (xt w))\<rparr>)"
proof (cases "map_of (xt_channels (xt w)) eid")
  case None
  with assms show ?thesis by (simp add: abandon_def)
next
  case (Some c)
  then have c: "channel_of eid (xt w) = c" by (simp add: channel_of_def)
  show ?thesis
  proof (cases "map_of (ch_pending c) cid")
    case None
    with assms Some show ?thesis by (simp add: abandon_def)
  next
    case p: (Some p)
    have ci: "channel_inv (xt_max_pending (xt w)) c" using xt_invD(1) [OF assms, of eid] c by simp
    let ?t = "put_channel eid (drop_command cid c) ((xt w)\<lparr>xt_futures := resolve cid FCancelled (xt_futures (xt w))\<rparr>)"
    have "fst (abandon eid cid (xt w)) = ?t"
      using Some p drop_command_not_queued [OF ci p]
      by (cases "pc_state p = Queued") (simp_all add: abandon_def drop_command_def)
    moreover have "xt_inv (w\<lparr>xt := ?t\<rparr>)"
      by (rule xt_inv_shrink [where X = "{cid}" and eid = eid])
        (use assms ci p c in \<open>auto simp: channel_inv_drop drops_drop_command settles_resolve\<close>)
    ultimately show ?thesis by simp
  qed
qed

lemma xt_inv_submit:
  assumes "xt_inv w"
  shows "xt_inv (w\<lparr>xt := fst (submit_result_locked sha now wall eid cred result (xt w))\<rparr>)"
proof (cases "reauthenticate sha eid cred (xt w)")
  case (Inl e)
  with assms show ?thesis by (simp add: submit_result_locked_def)
next
  case (Inr u)
  let ?c = "touch now wall (channel_of eid (xt w))"
  let ?t = "put_channel eid ?c (xt w)"
  have base: "xt_inv (w\<lparr>xt := ?t\<rparr>)" by (rule xt_inv_same [OF assms]) simp_all
  have ci: "channel_inv (xt_max_pending (xt w)) ?c" using xt_invD(1) [OF assms] by simp
  show ?thesis
  proof (cases "\<exists>p. map_of (ch_pending ?c) (res_id result) = Some p \<and> pc_state p = Offered")
    case False
    with Inr base show ?thesis
      by (auto simp: submit_result_locked_def Let_def split: option.splits)
  next
    case True
    then obtain p where p: "map_of (ch_pending ?c) (res_id result) = Some p" "pc_state p = Offered" by auto
    let ?u = "put_channel eid (drop_command (res_id result) ?c)
        (?t\<lparr>xt_futures := resolve (res_id result) (FResult result) (xt_futures (xt w))\<rparr>)"
    have "fst (submit_result_locked sha now wall eid cred result (xt w)) = ?u"
      using Inr p drop_command_not_queued [OF ci p(1)] by (simp add: submit_result_locked_def Let_def)
    moreover have "xt_inv (w\<lparr>xt := ?u\<rparr>)"
      by (rule xt_inv_shrink [where X = "{res_id result}" and eid = eid])
        (use assms ci p in \<open>auto simp: channel_inv_drop drops_drop_command settles_resolve\<close>)
    ultimately show ?thesis by simp
  qed
qed

lemma queued_ids:
  assumes "channel_inv m c"
  shows "distinct (map fst (filter (\<lambda>(cid, p). pc_state p = Queued) (ch_pending c)))"
    and "set (map fst (filter (\<lambda>(cid, p). pc_state p = Queued) (ch_pending c))) = set (ch_queue c)"
proof -
  have ok: "dict_ok (ch_pending c)" using assms by (simp add: channel_inv_def)
  then show "distinct (map fst (filter (\<lambda>(cid, p). pc_state p = Queued) (ch_pending c)))" by simp
  have "cid \<in> set (map fst (filter (\<lambda>(cid, p). pc_state p = Queued) (ch_pending c))) \<longleftrightarrow>
      map_option pc_state (map_of (ch_pending c) cid) = Some Queued" for cid
    unfolding dict_keys_iff map_of_filter_dict [OF ok] by (simp split: option.split)
  then show "set (map fst (filter (\<lambda>(cid, p). pc_state p = Queued) (ch_pending c))) = set (ch_queue c)"
    using assms unfolding channel_inv_def by blast
qed

lemma xt_inv_reset:
  assumes "xt_inv w"
  shows "xt_inv (w\<lparr>xt := fst (reset_queued eid (xt w))\<rparr>)"
proof -
  have base: "xt_inv (w\<lparr>xt := ensure_channel eid (xt w)\<rparr>)" by (rule xt_inv_same [OF assms]) simp_all
  let ?c = "channel_of eid (xt w)"
  let ?ids = "map fst (filter (\<lambda>(cid, p). pc_state p = Queued) (ch_pending ?c))"
  note ci = xt_invD(1) [OF assms, of eid]
  have sub: "set ?ids \<subseteq> dom (map_of (ch_pending ?c))"
    using queued_ids(2) [OF ci] ci by (auto simp: channel_inv_def)
  obtain c' futs where r: "reset_ids ?ids ?c (xt_futures (xt w)) = (c', futs)" by fastforce
  note spec = reset_ids_spec [OF r ci queued_ids(1) [OF ci] sub]
  let ?t = "put_channel eid c' ((ensure_channel eid (xt w))\<lparr>xt_futures := futs\<rparr>)"
  have "xt_inv (w\<lparr>xt := ?t\<rparr>)"
    by (rule xt_inv_shrink [where X = "set ?ids" and eid = eid]) (use assms spec sub in simp_all)
  with base r assms show ?thesis
    by (auto simp: reset_queued_def Let_def split: sum.splits)
qed

lemma xt_inv_poll_round:
  assumes inv: "xt_inv w" and round: "poll_round sha now wall eid cred token deadline (xt w) = (t, res)"
  shows "xt_inv (w\<lparr>xt := t, offers := offered_by eid res @ offers w\<rparr>)"
proof -
  let ?c = "channel_of eid (xt w)"
  note ci = xt_invD(1) [OF inv, of eid]
  have q: "map_option pc_state (map_of (ch_pending ?c) cid) = Some Queued" if "cid \<in> set (ch_queue ?c)" for cid
    using ci that by (auto simp: channel_inv_def)
  have quiet: "xt_inv (w\<lparr>xt := t, offers := offered_by eid res @ offers w\<rparr>)"
    if "\<And>e. ch_pending (channel_of e t) = ch_pending (channel_of e (xt w)) \<and>
        ch_queue (channel_of e t) = ch_queue (channel_of e (xt w))"
      "xt_futures t = xt_futures (xt w)" "xt_max_pending t = xt_max_pending (xt w)" "offered_by eid res = []"
    using xt_inv_same [OF inv that(1-3)] that(4) by simp
  show ?thesis
  proof (cases "ch_poll_token ?c = Some token \<and> require_running (xt w) \<and> reauthenticate sha eid cred (xt w) = Inr ()")
    case False
    with round quiet show ?thesis
      by (auto simp: poll_round_def offered_by_def split: if_splits sum.splits)
  next
    case run: True
    show ?thesis
    proof (cases "ch_queue ?c")
      case Nil
      with run round quiet show ?thesis
        by (auto simp: poll_round_def offered_by_def Let_def split: if_splits)
    next
      case (Cons cid q')
      obtain p where p: "map_of (ch_pending ?c) cid = Some p" "pc_state p = Queued"
        using q [of cid] Cons by auto
      let ?c' = "(touch now wall ?c)\<lparr>ch_queue := q',
        ch_pending := AList.update cid (p\<lparr>pc_state := Offered\<rparr>) (ch_pending ?c)\<rparr>"
      have t: "t = put_channel eid ?c' (xt w)" "res = Inr (PollReturn (Some (pc_command p)))"
        using run round Cons p by (auto simp: poll_round_def Let_def)
      have id: "cmd_id (pc_command p) = cid" using ci p by (simp add: channel_inv_def)
      have issued: "map_of (issued w) cid = Some eid" using xt_invD(2) [OF inv p(1)] .
      have new: "cid \<notin> fst ` set (offers w)"
        using xt_invD(7) [OF inv, of cid] xt_invD(8) [OF inv p(1)] issued p(2) by fastforce
      have "channel_inv (xt_max_pending (xt w)) ?c'"
        unfolding channel_inv_def
      proof (intro conjI allI impI)
        fix x
        have "x \<in> set (ch_queue ?c) \<longleftrightarrow> map_option pc_state (map_of (ch_pending ?c) x) = Some Queued" "distinct (cid # q')"
          using ci Cons unfolding channel_inv_def by metis+
        then show "x \<in> set (ch_queue ?c') \<longleftrightarrow> map_option pc_state (map_of (ch_pending ?c') x) = Some Queued"
          using Cons by (cases "x = cid") simp_all
      qed (use ci p Cons length_put_present [of "ch_pending ?c" cid] in \<open>auto simp: channel_inv_def split: if_splits\<close>)
      then have chan: "channel_inv (xt_max_pending (xt w)) (channel_of e t)" for e
        using xt_invD(1) [OF inv, of e] t by simp
      have pend: "pending_at t e x = (if e = eid \<and> x = cid then Some (p\<lparr>pc_state := Offered\<rparr>) else pending_at (xt w) e x)" for e x
        using t by simp
      have off: "offered_by eid res = [(cid, eid)]" using t id by (simp add: offered_by_def)
      show ?thesis
        unfolding xt_inv_def
      proof (intro conjI allI impI)
        fix e x pp
        assume "pending_at (xt (w\<lparr>xt := t, offers := offered_by eid res @ offers w\<rparr>)) e x = Some pp"
        then show "pc_state pp = Offered \<longleftrightarrow> (x, e) \<in> set (offers (w\<lparr>xt := t, offers := offered_by eid res @ offers w\<rparr>))"
          using pend [of e x] xt_invD(8) [OF inv, of e x pp] off by (auto split: if_splits)
      next
        fix x
        assume "map_of (xt_futures (xt (w\<lparr>xt := t, offers := offered_by eid res @ offers w\<rparr>))) x = Some FPending"
        then have "map_of (xt_futures (xt w)) x = Some FPending" using t by simp
        then obtain e where "pending_at (xt w) e x \<noteq> None" using xt_invD(4) [OF inv] by blast
        then have "pending_at t e x \<noteq> None" using pend [of e x] by simp
        then show "\<exists>e. pending_at (xt (w\<lparr>xt := t, offers := offered_by eid res @ offers w\<rparr>)) e x \<noteq> None"
          by (intro exI [of _ e]) simp
      next
        fix e x
        assume "pending_at (xt (w\<lparr>xt := t, offers := offered_by eid res @ offers w\<rparr>)) e x \<noteq> None"
        then have "pending_at t e x \<noteq> None" by simp
        then obtain pp where "pending_at (xt w) e x = Some pp"
          unfolding pend using p by (cases "e = eid \<and> x = cid") auto
        with xt_invD(2,3) [OF inv] t
        show "map_of (issued (w\<lparr>xt := t, offers := offered_by eid res @ offers w\<rparr>)) x = Some e"
          and "map_of (xt_futures (xt (w\<lparr>xt := t, offers := offered_by eid res @ offers w\<rparr>))) x = Some FPending"
          by simp_all
      qed (use inv chan t off new issued xt_invD(5,6,7) [OF inv] in auto)
    qed
  qed
qed

lemma call_enqueue_Inr:
  assumes "call_enqueue ver now eid op args session cid t = (t', Inr x)"
  shows "x = cid \<and> require_running t \<and> length (ch_pending (channel_of eid t)) < xt_max_pending t \<and>
    require_target_trusted eid t = Inr () \<and>
    channel_online now t (channel_of eid t) \<and> runtime_compatible ver (channel_of eid t) \<and>
    (\<exists>p. pc_state p = Queued \<and> cmd_id (pc_command p) = cid \<and> cmd_op (pc_command p) = op \<and>
       channel_of eid t' = (channel_of eid t)\<lparr>ch_pending := AList.update cid p (ch_pending (channel_of eid t)),
         ch_queue := ch_queue (channel_of eid t) @ [cid], ch_wake := True\<rparr>) \<and>
    (\<forall>e. e \<noteq> eid \<longrightarrow> channel_of e t' = channel_of e t) \<and>
    xt_futures t' = AList.update cid FPending (xt_futures t) \<and> xt_max_pending t' = xt_max_pending t \<and>
    xt_control t' = xt_control t"
proof -
  have tr: "require_target_trusted eid (ensure_channel eid t) = require_target_trusted eid t"
    "channel_online now (ensure_channel eid t) c = channel_online now t c" for c
    by (simp_all add: require_target_trusted_def channel_online_def cong: option.case_cong)
  from assms show ?thesis
    unfolding call_enqueue_def Let_def tr
    by (auto split: if_splits sum.splits
        intro!: exI [of _ "\<lparr>pc_command = \<lparr>cmd_id = cid, cmd_op = op, cmd_session_id = session, cmd_args = args\<rparr>,
          pc_state = Queued\<rparr>"])
qed

lemma call_enqueue_Inl:
  assumes "call_enqueue ver now eid op args session cid t = (t', Inl e)"
  shows "t' = t \<or> t' = ensure_channel eid t"
  using assms by (auto simp: call_enqueue_def Let_def split: if_splits sum.splits)

lemma xt_inv_call:
  assumes inv: "xt_inv w" and fresh: "map_of (issued w) cid = None"
    and call: "call_enqueue ver now eid op args session cid (xt w) = (t, Inr cid)"
  shows "xt_inv (w\<lparr>xt := t, issued := (cid, eid) # issued w\<rparr>)"
proof -
  let ?c = "channel_of eid (xt w)"
  note ci = xt_invD(1) [OF inv, of eid]
  from call_enqueue_Inr [OF call] obtain p where
    p: "pc_state p = Queued" "cmd_id (pc_command p) = cid"
    and c': "channel_of eid t = ?c\<lparr>ch_pending := AList.update cid p (ch_pending ?c),
         ch_queue := ch_queue ?c @ [cid], ch_wake := True\<rparr>"
    and other: "\<And>e. e \<noteq> eid \<Longrightarrow> channel_of e t = channel_of e (xt w)"
    and futs: "xt_futures t = AList.update cid FPending (xt_futures (xt w))"
    and m: "xt_max_pending t = xt_max_pending (xt w)" "length (ch_pending ?c) < xt_max_pending (xt w)"
    by blast
  have none: "pending_at (xt w) e cid = None" for e
    using xt_invD(2) [OF inv, of e cid] fresh by (cases "pending_at (xt w) e cid") auto
  have pend: "pending_at t e x = (if e = eid \<and> x = cid then Some p else pending_at (xt w) e x)" for e x
    using c' other [of e] by (cases "e = eid") simp_all
  have "cid \<notin> set (ch_queue ?c)" using ci none [of eid] by (simp add: channel_inv_def)
  then have "channel_inv (xt_max_pending (xt w)) (channel_of eid t)"
    using ci c' p m none [of eid] length_put_fresh [of "ch_pending ?c" cid p]
    by (auto simp: channel_inv_def)
  then have chan: "channel_inv (xt_max_pending t) (channel_of e t)" for e
    using xt_invD(1) [OF inv, of e] other [of e] m by (cases "e = eid") simp_all
  have noff: "(cid, e) \<notin> set (offers w)" for e using xt_invD(7) [OF inv, of cid e] fresh by auto
  let ?w = "w\<lparr>xt := t, issued := (cid, eid) # issued w\<rparr>"
  show ?thesis
    unfolding xt_inv_def
  proof (intro conjI allI impI)
    fix e x
    assume "pending_at (xt ?w) e x \<noteq> None"
    then show "map_of (issued ?w) x = Some e" and "map_of (xt_futures (xt ?w)) x = Some FPending"
      using pend [of e x] xt_invD(2,3) [OF inv, of e x] none [of e] futs fresh by (auto split: if_splits)
  next
    fix x
    assume "map_of (xt_futures (xt ?w)) x = Some FPending"
    then show "\<exists>e. pending_at (xt ?w) e x \<noteq> None"
      using pend xt_invD(4) [OF inv, of x] futs none by (cases "x = cid") auto
  next
    fix e x pp
    assume "pending_at (xt ?w) e x = Some pp"
    then show "pc_state pp = Offered \<longleftrightarrow> (x, e) \<in> set (offers ?w)"
      using pend [of e x] xt_invD(8) [OF inv, of e x pp] p noff by (auto split: if_splits)
  next
    fix x e
    assume "(x, e) \<in> set (offers ?w)"
    then show "map_of (issued ?w) x = Some e" using xt_invD(7) [OF inv, of x e] noff fresh by auto
  next
    fix x
    show "map_of (xt_futures (xt ?w)) x = None \<longleftrightarrow> map_of (issued ?w) x = None"
      using xt_invD(5) [OF inv, of x] futs by simp
  qed (use chan xt_invD(6) [OF inv] in simp_all)
qed

lemma xt_inv_call_refused:
  "xt_inv w \<Longrightarrow> call_enqueue ver now eid op args session cid (xt w) = (t, Inl e) \<Longrightarrow> xt_inv (w\<lparr>xt := t\<rparr>)"
  using call_enqueue_Inl [of ver now eid op args session cid "xt w" t e]
  by (auto intro: xt_inv_same)

lemma xt_inv_fence:
  assumes "xt_inv w" and "\<And>e. channel_of e t0 = channel_of e (xt w)"
    and "xt_futures t0 = xt_futures (xt w)" and "xt_max_pending t0 = xt_max_pending (xt w)"
  shows "xt_inv (w\<lparr>xt := fence_channel code eid t0\<rparr>)"
proof -
  let ?t = "interrupt_channel (\<lambda>d. TProtocol code (Some d)) eid t0"
  have "xt_inv (w\<lparr>xt := ?t\<rparr>)" by (rule xt_inv_interrupt [OF assms])
  then have "xt_inv (w\<lparr>xt := ?t\<rparr>\<lparr>xt := fence_channel code eid t0\<rparr>)"
    by (rule xt_inv_same) (simp_all add: fence_channel_def Let_def)
  then show ?thesis by simp
qed

lemma xt_inv_rename: "xt_inv w \<Longrightarrow> xt_inv (w\<lparr>xt := fst (transport_rename io eid name (xt w))\<rparr>)"
  by (auto simp: transport_rename_def intro!: xt_inv_same split: prod.splits sum.splits)

lemma xt_inv_revoke: "xt_inv w \<Longrightarrow> xt_inv (w\<lparr>xt := fst (transport_revoke io eid instant (xt w))\<rparr>)"
  by (auto simp: transport_revoke_def Let_def intro!: xt_inv_same xt_inv_fence split: prod.splits sum.splits)

lemma xt_inv_replace: "xt_inv w \<Longrightarrow> xt_inv (w\<lparr>xt := fst (transport_replace io r (xt w))\<rparr>)"
  by (auto simp: transport_replace_def Let_def intro!: xt_inv_same xt_inv_fence split: prod.splits sum.splits)

lemma xt_inv_close_channel:
  assumes "xt_inv (w\<lparr>xt := t\<rparr>)"
  shows "xt_inv (w\<lparr>xt := close_channel eid t\<rparr>)"
proof -
  let ?t = "interrupt_channel (\<lambda>_. TClosed) eid t"
  have "xt_inv (w\<lparr>xt := t\<rparr>\<lparr>xt := ?t\<rparr>)" by (rule xt_inv_interrupt [OF assms]) simp_all
  then have "xt_inv (w\<lparr>xt := t\<rparr>\<lparr>xt := ?t\<rparr>\<lparr>xt := close_channel eid t\<rparr>)"
    by (rule xt_inv_same) (simp_all add: close_channel_def Let_def)
  then show ?thesis by simp
qed

lemma xt_inv_close_channels:
  "xt_inv (w\<lparr>xt := t\<rparr>) \<Longrightarrow> xt_inv (w\<lparr>xt := fold close_channel eids t\<rparr>)"
  by (induction eids arbitrary: t) (simp_all add: xt_inv_close_channel)

lemma xt_inv_close:
  assumes "xt_inv w"
  shows "xt_inv (w\<lparr>xt := transport_close (xt w)\<rparr>)"
proof -
  have "xt_inv (w\<lparr>xt := (xt w)\<lparr>xt_closed := True, xt_started := False\<rparr>\<rparr>)"
    by (rule xt_inv_same [OF assms]) simp_all
  with assms show ?thesis by (simp add: transport_close_def xt_inv_close_channels)
qed

lemma xt_inv_init:
  assumes "xt_init w"
  shows "xt_inv w"
proof -
  have "xt_channels (xt w) = [] \<and> xt_futures (xt w) = [] \<and> issued w = [] \<and> offers w = []"
    using assms by (auto simp: xt_init_def new_transport_def split: if_splits dest!: sym [of _ "xt w"])
  then show ?thesis by (simp add: xt_inv_def channel_of_def empty_channel_def channel_inv_def)
qed

lemma xt_inv_step: "xt_inv w \<Longrightarrow> xt_step sha ver w w' \<Longrightarrow> xt_inv w'"
  by (erule xt_step.cases)
    (simp_all add: xt_inv_hello xt_inv_heartbeat xt_inv_poll_begin xt_inv_poll_round xt_inv_poll_finish
      xt_inv_call xt_inv_call_refused xt_inv_abandon xt_inv_submit xt_inv_reset xt_inv_rename xt_inv_revoke
      xt_inv_replace xt_inv_close xt_inv_same transport_start_def)

interpretation rpc: invariant_machine xt_init "xt_step sha ver" xt_inv for sha ver
  by unfold_locales (fact xt_inv_init, fact xt_inv_step)


section \<open>Correctness of the transport\<close>

text \<open>
  C6. Bookkeeping. In every reachable state of the transport, under any interleaving of its
  operations, a queue lists exactly the queued commands of its channel and each once, no channel
  holds more than the configured number of commands, and a caller is still waiting on a future if
  and only if exactly one executor has its command in the table.
\<close>

theorem rpc_bookkeeping:
  assumes "reach xt_init (xt_step sha ver) w"
  shows "(\<forall>eid. distinct (ch_queue (channel_of eid (xt w))) \<and>
      (\<forall>cid. cid \<in> set (ch_queue (channel_of eid (xt w))) \<longleftrightarrow>
        map_option pc_state (pending_at (xt w) eid cid) = Some Queued) \<and>
      pending_count eid (xt w) \<le> xt_max_pending (xt w)) \<and>
    (\<forall>cid. map_of (xt_futures (xt w)) cid = Some FPending \<longleftrightarrow> (\<exists>!eid. pending_at (xt w) eid cid \<noteq> None))"
proof -
  note inv = rpc.reach_inv [OF assms]
  have "pending_count eid (xt w) \<le> length (ch_pending (channel_of eid (xt w)))" for eid
    by (simp add: pending_count_def channel_of_def split: option.split)
  moreover have "channel_inv (xt_max_pending (xt w)) (channel_of eid (xt w))" for eid
    by (rule xt_invD(1) [OF inv])
  moreover have "map_of (xt_futures (xt w)) cid = Some FPending \<longleftrightarrow> (\<exists>!eid. pending_at (xt w) eid cid \<noteq> None)" for cid
    using xt_invD(2-4) [OF inv, where cid = cid] by (metis not_Some_eq option.inject)
  ultimately show ?thesis unfolding channel_inv_def by (intro conjI allI) (blast intro: order_trans)+
qed

text \<open>
  C7. Delivery is at most once and never misdirected. In every run, each command identity is
  offered to at most one poll, once, and that poll belongs to the executor the command was issued
  to; a command still in the table is marked offered if and only if it has been offered.
\<close>

theorem offered_at_most_once:
  assumes "reach xt_init (xt_step sha ver) w"
  shows "distinct (map fst (offers w)) \<and>
    (\<forall>cid eid. (cid, eid) \<in> set (offers w) \<longrightarrow> map_of (issued w) cid = Some eid) \<and>
    (\<forall>eid cid p. pending_at (xt w) eid cid = Some p \<longrightarrow>
      (pc_state p = Offered \<longleftrightarrow> (cid, eid) \<in> set (offers w)))"
  using xt_invD(6-8) [OF rpc.reach_inv [OF assms]] by blast

lemma map_of_fold_resolve:
  "dict_ok ps \<Longrightarrow>
   map_of (fold (\<lambda>(cid, p). resolve cid (exc p)) ps futs) x =
     (case map_of ps x of
        None \<Rightarrow> map_of futs x
      | Some p \<Rightarrow> if map_of futs x = Some FPending then Some (exc p) else map_of futs x)"
proof (induction ps arbitrary: futs)
  case (Cons kp ps)
  obtain k p where "kp = (k, p)" by (cases kp)
  moreover from this Cons.prems have "map_of ps k = None" "dict_ok ps"
    by (simp_all add: map_of_eq_None_iff)
  ultimately show ?case by (simp add: Cons.IH map_of_resolve split: option.split)
qed simp

text \<open>What one channel looks like after it was fenced.\<close>

lemma fence_channel_spec:
  assumes "dict_ok (ch_pending (channel_of eid t))"
  shows "ch_queue (channel_of eid (fence_channel code eid t)) = [] \<and>
    ch_pending (channel_of eid (fence_channel code eid t)) = [] \<and>
    ch_last_activity (channel_of eid (fence_channel code eid t)) = None \<and>
    ch_hello (channel_of eid (fence_channel code eid t)) = None \<and>
    (\<forall>e. e \<noteq> eid \<longrightarrow> channel_of e (fence_channel code eid t) = channel_of e t) \<and>
    xt_control (fence_channel code eid t) = xt_control t \<and>
    (\<forall>cid p. pending_at t eid cid = Some p \<longrightarrow> map_of (xt_futures t) cid = Some FPending \<longrightarrow>
       map_of (xt_futures (fence_channel code eid t)) cid = Some (FError (TProtocol code (Some (pc_state p))))) \<and>
    (\<forall>cid. pending_at t eid cid = None \<longrightarrow>
       map_of (xt_futures (fence_channel code eid t)) cid = map_of (xt_futures t) cid)"
  using assms by (simp add: fence_channel_def interrupt_channel_def Let_def
      map_of_fold_resolve [where exc = "\<lambda>p. FError (TProtocol code (Some (pc_state p)))"])

lemma revoked_refused:
  assumes "map_of (cs_executors (xt_control t)) eid = Some r" and "revoked_at r \<noteq> None"
  shows "\<exists>c. reauthenticate sha eid cred t = Inl (TProtocol c None) \<and>
      (c = EXECUTOR_REVOKED \<or> c = UNAUTHORIZED_EXECUTOR)"
    and "require_target_trusted eid t = Inl (TProtocol EXECUTOR_REVOKED None)"
  using assms by (simp_all add: reauthenticate_def require_target_trusted_def)

text \<open>
  Steps that put the trust record of an executor again: a replacement that returned, by the transport or directly.
\<close>

definition puts_trust :: "ustr \<Rightarrow> xt_world \<Rightarrow> xt_world \<Rightarrow> bool" where
  "puts_trust eid u v \<longleftrightarrow>
     (\<exists>io r t cbs. executor_id r = eid \<and> transport_replace io r (xt u) = (t, Inr (), cbs) \<and> v = u\<lparr>xt := t\<rparr>) \<or>
     (\<exists>io r ctl. executor_id r = eid \<and> apply_op io (PutExecutor r) (xt_control (xt u)) = (ctl, Inr ()) \<and>
        v = u\<lparr>xt := (xt u)\<lparr>xt_control := ctl\<rparr>\<rparr>)"

text \<open>What a revocation leaves: no trust, nothing queued or pending, no presence.\<close>

definition fenced :: "ustr \<Rightarrow> transport \<Rightarrow> bool" where
  "fenced eid t \<longleftrightarrow> is_revoked eid (xt_control t) \<and> ch_queue (channel_of eid t) = [] \<and>
     ch_pending (channel_of eid t) = [] \<and> ch_last_activity (channel_of eid t) = None"

lemma is_revoked_refused:
  assumes "is_revoked eid (xt_control t)"
  shows "\<exists>c. reauthenticate sha eid cred t = Inl (TProtocol c None)"
    and "require_target_trusted eid t = Inl (TProtocol EXECUTOR_REVOKED None)"
  using assms revoked_refused unfolding is_revoked_def by blast+

text \<open>Every handler for a fenced executor is refused and changes nothing.\<close>

lemma fenced_refuses:
  assumes "fenced eid t"
  shows "fst (hello_locked sha ver now wall eid cred request t) = t \<and> fst (heartbeat_locked sha ver now wall eid cred t) = t \<and>
       fst (poll_begin sha ver now wall eid cred t) = t \<and> fst (submit_result_locked sha now wall eid cred result t) = t \<and>
       fst (poll_round sha now wall eid cred token deadline t) = t \<and>
       offered_by eid (snd (poll_round sha now wall eid cred token deadline t)) = []"
    and "snd (call_enqueue ver now eid op args session cid t) \<in> {Inl (TProtocol EXECUTOR_REVOKED None), Inl TNotRunning}"
    and "pending_count eid t = 0" and "\<not> is_online now eid t"
proof -
  have rev: "is_revoked eid (xt_control t)" using assms by (simp add: fenced_def)
  obtain c where c: "reauthenticate sha eid cred t = Inl (TProtocol c None)" using is_revoked_refused(1) [OF rev] by blast
  show "fst (hello_locked sha ver now wall eid cred request t) = t \<and> fst (heartbeat_locked sha ver now wall eid cred t) = t \<and>
       fst (poll_begin sha ver now wall eid cred t) = t \<and> fst (submit_result_locked sha now wall eid cred result t) = t \<and>
       fst (poll_round sha now wall eid cred token deadline t) = t \<and>
       offered_by eid (snd (poll_round sha now wall eid cred token deadline t)) = []"
    using c by (simp add: hello_locked_def heartbeat_locked_def poll_begin_def submit_result_locked_def poll_round_def offered_by_def)
  have "require_target_trusted eid (ensure_channel eid t) = require_target_trusted eid t"
    by (simp add: require_target_trusted_def)
  then show "snd (call_enqueue ver now eid op args session cid t) \<in> {Inl (TProtocol EXECUTOR_REVOKED None), Inl TNotRunning}"
    using is_revoked_refused(2) [OF rev] by (simp add: call_enqueue_def Let_def)
  have chan: "ch_pending c = [] \<and> ch_last_activity c = None" if "map_of (xt_channels t) eid = Some c" for c
    using assms that by (simp add: fenced_def channel_of_def)
  then show "pending_count eid t = 0" "\<not> is_online now eid t"
    by (auto simp: pending_count_def is_online_def channel_online_def split: option.split)
qed

lemma fenced_same:
  "fenced eid t \<Longrightarrow> xt_control u = xt_control t \<Longrightarrow> channel_of eid u = channel_of eid t \<Longrightarrow> fenced eid u"
  by (simp add: fenced_def)

lemma interrupt_channel_other: "e \<noteq> eid \<Longrightarrow> channel_of e (interrupt_channel exc eid t) = channel_of e t"
  by (simp add: interrupt_channel_def Let_def)

lemma interrupt_incompatible_other:
  "e \<noteq> eid \<Longrightarrow> channel_of e (interrupt_queued_incompatible eid t) = channel_of e t"
  "xt_control (interrupt_queued_incompatible eid t) = xt_control t"
  by (simp_all add: interrupt_queued_incompatible_def Let_def split: prod.splits)

lemma fence_channel_other: "e \<noteq> eid \<Longrightarrow> channel_of e (fence_channel code eid t) = channel_of e t"
  by (simp add: fence_channel_def Let_def interrupt_channel_other)

lemma fence_channel_cleared:
  "ch_queue (channel_of eid (fence_channel code eid t)) = []" "ch_pending (channel_of eid (fence_channel code eid t)) = []"
  "ch_last_activity (channel_of eid (fence_channel code eid t)) = None" "xt_control (fence_channel code eid t) = xt_control t"
  by (simp_all add: fence_channel_def interrupt_channel_def Let_def)

text \<open>A handler of one executor leaves the channel of another, and the trust, alone.\<close>

lemma handlers_other:
  assumes "e \<noteq> eid"
  shows "channel_of eid (fst (hello_locked sha ver now wall e cred request t)) = channel_of eid t \<and>
      xt_control (fst (hello_locked sha ver now wall e cred request t)) = xt_control t"
    and "channel_of eid (fst (heartbeat_locked sha ver now wall e cred t)) = channel_of eid t \<and>
      xt_control (fst (heartbeat_locked sha ver now wall e cred t)) = xt_control t"
    and "channel_of eid (fst (poll_begin sha ver now wall e cred t)) = channel_of eid t \<and>
      xt_control (fst (poll_begin sha ver now wall e cred t)) = xt_control t"
    and "channel_of eid (fst (poll_round sha now wall e cred token deadline t)) = channel_of eid t \<and>
      xt_control (fst (poll_round sha now wall e cred token deadline t)) = xt_control t"
    and "channel_of eid (fst (submit_result_locked sha now wall e cred result t)) = channel_of eid t \<and>
      xt_control (fst (submit_result_locked sha now wall e cred result t)) = xt_control t"
proof -
  show "channel_of eid (fst (hello_locked sha ver now wall e cred request t)) = channel_of eid t \<and>
      xt_control (fst (hello_locked sha ver now wall e cred request t)) = xt_control t"
    using assms by (cases "reauthenticate sha e cred t") (simp_all add: hello_locked_def Let_def interrupt_incompatible_other)
  show "channel_of eid (fst (heartbeat_locked sha ver now wall e cred t)) = channel_of eid t \<and>
      xt_control (fst (heartbeat_locked sha ver now wall e cred t)) = xt_control t"
    using assms by (cases "reauthenticate sha e cred t") (simp_all add: heartbeat_locked_def Let_def)
  show "channel_of eid (fst (poll_begin sha ver now wall e cred t)) = channel_of eid t \<and>
      xt_control (fst (poll_begin sha ver now wall e cred t)) = xt_control t"
    using assms by (cases "reauthenticate sha e cred t") (simp_all add: poll_begin_def Let_def)
  show "channel_of eid (fst (poll_round sha now wall e cred token deadline t)) = channel_of eid t \<and>
      xt_control (fst (poll_round sha now wall e cred token deadline t)) = xt_control t"
    using assms by (cases "reauthenticate sha e cred t") (auto simp: poll_round_def Let_def split: prod.splits option.splits)
  show "channel_of eid (fst (submit_result_locked sha now wall e cred result t)) = channel_of eid t \<and>
      xt_control (fst (submit_result_locked sha now wall e cred result t)) = xt_control t"
    using assms by (cases "reauthenticate sha e cred t") (auto simp: submit_result_locked_def Let_def split: option.splits)
qed

lemma fenced_call: "fenced eid t \<Longrightarrow> fenced eid (fst (call_enqueue ver now e op args session cid t))"
proof (cases "e = eid")
  case True
  assume f: "fenced eid t"
  then have "is_revoked eid (xt_control (ensure_channel eid t))" by (simp add: fenced_def)
  from is_revoked_refused(2) [OF this] f True show ?thesis
    by (simp add: call_enqueue_def Let_def fenced_def)
next
  case False
  assume f: "fenced eid t"
  have "channel_of eid (fst (call_enqueue ver now e op args session cid t)) = channel_of eid t \<and>
      xt_control (fst (call_enqueue ver now e op args session cid t)) = xt_control t"
    using False by (auto simp: call_enqueue_def Let_def split: sum.splits)
  with f show ?thesis by (simp add: fenced_def)
qed

lemma fenced_abandon: "fenced eid t \<Longrightarrow> fenced eid (fst (abandon e cid t))"
proof -
  assume f: "fenced eid t"
  show "fenced eid (fst (abandon e cid t))"
  proof (cases "map_of (xt_channels t) e")
    case None
    with f show ?thesis by (simp add: abandon_def)
  next
    case (Some c)
    then have c: "channel_of e t = c" by (simp add: channel_of_def)
    show ?thesis
    proof (cases "map_of (ch_pending c) cid")
      case None
      with f Some show ?thesis by (simp add: abandon_def)
    next
      case p: (Some p)
      with f c have "e \<noteq> eid" by (auto simp: fenced_def)
      with f Some p show ?thesis by (simp add: abandon_def fenced_def)
    qed
  qed
qed

lemma fenced_reset: "fenced eid t \<Longrightarrow> fenced eid (fst (reset_queued e t))"
proof (cases "e = eid")
  case True
  assume f: "fenced eid t"
  then have "is_revoked eid (xt_control (ensure_channel eid t))" by (simp add: fenced_def)
  from is_revoked_refused(2) [OF this] f True show ?thesis by (simp add: reset_queued_def Let_def fenced_def)
next
  case False
  assume f: "fenced eid t"
  with False show ?thesis by (auto simp: reset_queued_def Let_def fenced_def split: sum.splits prod.splits)
qed

lemma fenced_rename: "fenced eid t \<Longrightarrow> fenced eid (fst (transport_rename io e name t))"
  by (auto simp: transport_rename_def fenced_def split: prod.splits sum.splits dest: rename_keeps_revoked)

lemma fenced_fence: "fenced eid t \<Longrightarrow> fenced eid (fence_channel code e t)"
  by (cases "e = eid") (simp_all add: fenced_def fence_channel_cleared fence_channel_other)

lemma fenced_revoke: "fenced eid t \<Longrightarrow> fenced eid (fst (transport_revoke io e instant t))"
proof -
  assume f: "fenced eid t"
  obtain ctl q where r: "revoke_executor io e instant (xt_control t) = (ctl, q)" by fastforce
  have "is_revoked eid ctl" by (rule revoke_keeps_revoked [OF _ r]) (use f in \<open>simp add: fenced_def\<close>)
  with f have "fenced eid ((ensure_channel e t)\<lparr>xt_control := ctl\<rparr>)" by (simp add: fenced_def)
  with f r show ?thesis by (cases q) (simp_all add: transport_revoke_def Let_def fenced_fence)
qed

lemma fenced_replace:
  assumes "fenced eid t" and "executor_id r = eid \<Longrightarrow> fst (snd (transport_replace io r t)) \<noteq> Inr ()"
  shows "fenced eid (fst (transport_replace io r t))"
proof -
  obtain ctl q where p: "put_executor io r (xt_control t) = (ctl, q)" by fastforce
  show ?thesis
  proof (cases "require_running t")
    case True
    with assms(2) p have "executor_id r \<noteq> eid \<or> q \<noteq> Inr ()" by (cases q) (auto simp: transport_replace_def Let_def)
    with assms(1) p have "is_revoked eid ctl" using put_keeps_revoked unfolding fenced_def by blast
    with assms(1) have "fenced eid ((ensure_channel (executor_id r) t)\<lparr>xt_control := ctl\<rparr>)" by (simp add: fenced_def)
    with True p show ?thesis by (cases q) (simp_all add: transport_replace_def Let_def fenced_fence)
  qed (use assms(1) in \<open>simp add: transport_replace_def\<close>)
qed

lemma fenced_close: "fenced eid t \<Longrightarrow> fenced eid (transport_close t)"
proof -
  assume f: "fenced eid t"
  have one: "fenced eid (close_channel e u)" if "fenced eid u" for e u
    using that by (cases "e = eid") (simp_all add: fenced_def close_channel_def Let_def interrupt_channel_def)
  have "fenced eid (fold close_channel es u)" if "fenced eid u" for es u
    using that by (induction es arbitrary: u) (simp_all add: one)
  moreover have "fenced eid (t\<lparr>xt_closed := True, xt_started := False\<rparr>)" using f by (simp add: fenced_def channel_of_def)
  ultimately show ?thesis using f by (simp add: transport_close_def)
qed

lemma fenced_step:
  assumes f: "fenced eid (xt u)" and step: "xt_step sha ver u v" and keep: "\<not> puts_trust eid u v"
  shows "fenced eid (xt v) \<and> filter (\<lambda>(c, e). e = eid) (offers v) = filter (\<lambda>(c, e). e = eid) (offers u)"
  using step
proof cases
  case xt_start
  with f show ?thesis by (auto simp: transport_start_def fenced_def channel_of_def)
next
  case (xt_hello now wall e cred request)
  with f fenced_refuses(1) [OF f] handlers_other(1) [of e eid] show ?thesis by (cases "e = eid") (auto simp: fenced_def)
next
  case (xt_heartbeat now wall e cred)
  with f fenced_refuses(1) [OF f] handlers_other(2) [of e eid] show ?thesis by (cases "e = eid") (auto simp: fenced_def)
next
  case (xt_poll_begin now wall e cred)
  with f fenced_refuses(1) [OF f] handlers_other(3) [of e eid] show ?thesis by (cases "e = eid") (auto simp: fenced_def)
next
  case (xt_poll_round now wall e cred token deadline t res)
  show ?thesis
  proof (cases "e = eid")
    case True
    from fenced_refuses(1) [OF f, of sha ver now wall cred _ _ token deadline] True xt_poll_round(2) have "t = xt u" "offered_by eid res = []"
      by (metis fst_conv) (metis True fenced_refuses(1) [OF f] snd_conv xt_poll_round(2))
    with xt_poll_round(1) True f show ?thesis by simp
  next
    case False
    from handlers_other(4) [OF False, of sha now wall cred token deadline "xt u"] xt_poll_round(2)
    have "channel_of eid t = channel_of eid (xt u)" "xt_control t = xt_control (xt u)" by simp_all
    moreover have "filter (\<lambda>(c, e). e = eid) (offered_by e res) = []"
      using False by (auto simp: offered_by_def split: sum.splits poll_outcome.splits option.splits)
    ultimately show ?thesis using xt_poll_round(1) f by (simp add: fenced_def)
  qed
next
  case (xt_poll_finish e token)
  with f show ?thesis by (auto simp: poll_finish_def Let_def fenced_def)
next
  case (xt_call cid now e op args session t)
  with fenced_call [OF f, of ver now e op args session cid] show ?thesis by simp
next
  case (xt_call_refused now e op args session cid t x)
  with fenced_call [OF f, of ver now e op args session cid] show ?thesis by simp
next
  case (xt_abandon e cid)
  with fenced_abandon [OF f] show ?thesis by simp
next
  case (xt_submit now wall e cred result)
  with f fenced_refuses(1) [OF f] handlers_other(5) [of e eid] show ?thesis by (cases "e = eid") (auto simp: fenced_def)
next
  case (xt_reset e)
  with fenced_reset [OF f] show ?thesis by simp
next
  case (xt_rename io e name)
  with fenced_rename [OF f] show ?thesis by simp
next
  case (xt_revoke io e instant)
  with fenced_revoke [OF f] show ?thesis by simp
next
  case (xt_replace io r)
  have "fst (snd (transport_replace io r (xt u))) \<noteq> Inr ()" if "executor_id r = eid"
  proof
    assume "fst (snd (transport_replace io r (xt u))) = Inr ()"
    then obtain t cbs where tr: "transport_replace io r (xt u) = (t, Inr (), cbs)" by (metis prod.collapse)
    then have "v = u\<lparr>xt := t\<rparr>" using xt_replace by simp
    with tr that have "puts_trust eid u v" unfolding puts_trust_def by blast
    with keep show False ..
  qed
  with fenced_replace [OF f] xt_replace show ?thesis by simp
next
  case (xt_control_op io op)
  obtain ctl q where a: "apply_op io op (xt_control (xt u)) = (ctl, q)" by fastforce
  have "\<nexists>r. op = PutExecutor r \<and> executor_id r = eid \<and> q = Inr ()"
    using keep a xt_control_op unfolding puts_trust_def by fastforce
  with op_keeps_revoked a f have "is_revoked eid ctl" unfolding fenced_def by blast
  with f a xt_control_op show ?thesis by (simp add: fenced_def)
next
  case xt_close
  with fenced_close [OF f] show ?thesis by simp
qed

lemma fenced_run:
  assumes "reach ((=) u) (\<lambda>u v. xt_step sha ver u v \<and> \<not> puts_trust eid u v) v" and "fenced eid (xt u)"
  shows "fenced eid (xt v) \<and> filter (\<lambda>(c, e). e = eid) (offers v) = filter (\<lambda>(c, e). e = eid) (offers u)"
  using assms(1)
proof induction
  case (reach_init s)
  with assms(2) show ?case by simp
next
  case (reach_step s t)
  with fenced_step show ?case by metis
qed

text \<open>
  C8. Revocation is a fence. When a revocation returns, the trust record is revoked, every caller
  that waited on this executor has been answered EXECUTOR_REVOKED with the delivery state of its
  command, and no other executor's channel is touched. From then on, in every run of the transport in
  which the trust record of this executor is not put again, whatever else happens: the record stays
  revoked, no command is offered to the executor, its table is empty and it is offline; every handler that
  takes the channel lock, with whatever credential, is refused without changing the transport, and no
  command is accepted for it.
\<close>

theorem revocation_fences:
  assumes "reach xt_init (xt_step sha ver) w"
    and "transport_revoke io eid instant (xt w) = (t, Inr r, cbs)"
    and "reach ((=) (w\<lparr>xt := t\<rparr>)) (\<lambda>u v. xt_step sha ver u v \<and> \<not> puts_trust eid u v) v"
  shows "map_of (cs_executors (xt_control t)) eid = Some r \<and> revoked_at r = Some instant \<and>
    (\<forall>cid p. pending_at (xt w) eid cid = Some p \<longrightarrow>
       map_of (xt_futures t) cid = Some (FError (TProtocol EXECUTOR_REVOKED (Some (pc_state p))))) \<and>
    (\<forall>e. e \<noteq> eid \<longrightarrow> channel_of e t = channel_of e (xt w)) \<and>
    is_revoked eid (xt_control (xt v)) \<and>
    (\<forall>cid. (cid, eid) \<in> set (offers v) \<longrightarrow> (cid, eid) \<in> set (offers w)) \<and>
    pending_count eid (xt v) = 0 \<and> \<not> is_online now eid (xt v) \<and>
    (\<forall>cred request result wall token deadline.
       fst (hello_locked sha ver now wall eid cred request (xt v)) = xt v \<and>
       fst (heartbeat_locked sha ver now wall eid cred (xt v)) = xt v \<and>
       fst (poll_begin sha ver now wall eid cred (xt v)) = xt v \<and>
       fst (submit_result_locked sha now wall eid cred result (xt v)) = xt v \<and>
       fst (poll_round sha now wall eid cred token deadline (xt v)) = xt v \<and>
       offered_by eid (snd (poll_round sha now wall eid cred token deadline (xt v))) = []) \<and>
    snd (call_enqueue ver now eid op args session cid' (xt v)) \<in>
      {Inl (TProtocol EXECUTOR_REVOKED None), Inl TNotRunning}"
proof -
  note inv = rpc.reach_inv [OF assms(1)]
  from assms(2) obtain ctl where rev: "revoke_executor io eid instant (xt_control (xt w)) = (ctl, Inr r)"
    and t: "t = fence_channel EXECUTOR_REVOKED eid ((ensure_channel eid (xt w))\<lparr>xt_control := ctl\<rparr>)"
    by (auto simp: transport_revoke_def Let_def split: if_splits prod.splits sum.splits)
  from control_trust.revoke_ok [OF rev] have r: "map_of (cs_executors ctl) eid = Some r" "revoked_at r = Some instant"
    by auto
  have "dict_ok (ch_pending (channel_of eid (xt w)))"
    using xt_invD(1) [OF inv, of eid] by (simp add: channel_inv_def)
  then have ok: "dict_ok (ch_pending (channel_of eid ((ensure_channel eid (xt w))\<lparr>xt_control := ctl\<rparr>)))"
    by simp
  note fence = fence_channel_spec [OF ok, of EXECUTOR_REVOKED, folded t, simplified]
  have answered: "map_of (xt_futures t) cid = Some (FError (TProtocol EXECUTOR_REVOKED (Some (pc_state p))))"
    if "pending_at (xt w) eid cid = Some p" for cid p
    using fence that xt_invD(3) [OF inv that] by simp
  have "fenced eid (xt (w\<lparr>xt := t\<rparr>))" using fence r by (simp add: fenced_def is_revoked_def)
  from fenced_run [OF assms(3) this] have v: "fenced eid (xt v)"
    and offers: "filter (\<lambda>(c, e). e = eid) (offers v) = filter (\<lambda>(c, e). e = eid) (offers w)" by simp_all
  have "(cid, eid) \<in> set (offers w)" if "(cid, eid) \<in> set (offers v)" for cid
  proof -
    have "(cid, eid) \<in> set (filter (\<lambda>(c, e). e = eid) (offers v))" using that by simp
    then show ?thesis unfolding offers by simp
  qed
  with answered fence r v fenced_refuses [OF v] show ?thesis by (simp add: fenced_def)
qed


text \<open>
  The poll is a first-in first-out queue. A round of the poll that owns the channel, with a
  current credential, hands over exactly the command that has been queued longest, takes it off the
  queue and marks it offered; when no command is queued it hands over nothing, and ends the poll
  once the deadline has passed.
\<close>

theorem poll_is_fifo:
  assumes "reach xt_init (xt_step sha ver) w" and "require_running (xt w)"
    and "ch_poll_token (channel_of eid (xt w)) = Some token"
    and "reauthenticate sha eid cred (xt w) = Inr ()"
    and "poll_round sha now wall eid cred token deadline (xt w) = (t, res)"
  shows "case ch_queue (channel_of eid (xt w)) of
      [] \<Rightarrow> res = Inr (if deadline - now \<le> 0 then PollReturn None else PollWait (deadline - now)) \<and>
        ch_queue (channel_of eid t) = [] \<and> ch_pending (channel_of eid t) = ch_pending (channel_of eid (xt w))
    | cid # q \<Rightarrow> \<exists>p. pending_at (xt w) eid cid = Some p \<and> cmd_id (pc_command p) = cid \<and>
        res = Inr (PollReturn (Some (pc_command p))) \<and> ch_queue (channel_of eid t) = q \<and>
        pending_at t eid cid = Some (p\<lparr>pc_state := Offered\<rparr>)"
proof -
  have ci: "channel_inv (xt_max_pending (xt w)) (channel_of eid (xt w))"
    by (rule xt_invD(1) [OF rpc.reach_inv [OF assms(1)]])
  show ?thesis
  proof (cases "ch_queue (channel_of eid (xt w))")
    case Nil
    with assms(2-5) show ?thesis by (auto simp: poll_round_def Let_def)
  next
    case (Cons cid q)
    with ci have "map_option pc_state (pending_at (xt w) eid cid) = Some Queued"
      unfolding channel_inv_def by (metis list.set_intros(1))
    then obtain p where p: "pending_at (xt w) eid cid = Some p" "pc_state p = Queued" by auto
    with ci have "cmd_id (pc_command p) = cid" by (simp add: channel_inv_def)
    with Cons p assms(2-5) show ?thesis by (auto simp: poll_round_def Let_def)
  qed
qed

text \<open>
  C9. Results answer one caller, once. In a reachable state a result is accepted if and only if
  the bearer's credential is current and the command is one that this same executor was offered
  and that still awaits its result; its caller, and no other, is then answered with this result,
  and submitting for the same command again is refused.
\<close>

theorem result_answers_one_caller:
  assumes "reach xt_init (xt_step sha ver) w"
    and "submit_result_locked sha now wall eid cred result (xt w) = (t, res)"
  shows "(res = Inr () \<longleftrightarrow> reauthenticate sha eid cred (xt w) = Inr () \<and>
      (\<exists>p. pending_at (xt w) eid (res_id result) = Some p \<and> pc_state p = Offered)) \<and>
    (res = Inr () \<longrightarrow>
      (res_id result, eid) \<in> set (offers w) \<and>
      map_of (xt_futures t) = (map_of (xt_futures (xt w)))(res_id result \<mapsto> FResult result) \<and>
      (\<forall>e. pending_at t e (res_id result) = None) \<and>
      (\<forall>now wall cred result'. res_id result' = res_id result \<longrightarrow>
         snd (submit_result_locked sha now wall eid cred result' t) \<noteq> Inr ())) \<and>
    (res \<noteq> Inr () \<longrightarrow> xt_futures t = xt_futures (xt w) \<and> (\<forall>e x. pending_at t e x = pending_at (xt w) e x))"
proof -
  note inv = rpc.reach_inv [OF assms(1)]
  show ?thesis
  proof (cases "reauthenticate sha eid cred (xt w) = Inr () \<and>
      (\<exists>p. pending_at (xt w) eid (res_id result) = Some p \<and> pc_state p = Offered)")
    case True
    then obtain p where p: "reauthenticate sha eid cred (xt w) = Inr ()"
      "pending_at (xt w) eid (res_id result) = Some p" "pc_state p = Offered" by blast
    let ?c = "touch now wall (channel_of eid (xt w))"
    have t: "t = put_channel eid (?c\<lparr>ch_pending := AList.delete (res_id result) (ch_pending ?c)\<rparr>)
        ((put_channel eid ?c (xt w))\<lparr>xt_futures := resolve (res_id result) (FResult result) (xt_futures (xt w))\<rparr>)"
      and res: "res = Inr ()"
      using assms(2) p by (auto simp: submit_result_locked_def Let_def)
    have "map_of (xt_futures t) = (map_of (xt_futures (xt w)))(res_id result \<mapsto> FResult result)"
      using xt_invD(3) [OF inv p(2)] t by (simp add: fun_eq_iff map_of_resolve)
    moreover have gone: "pending_at t e (res_id result) = None" for e
      using xt_invD(2) [OF inv, of e "res_id result"] xt_invD(2) [OF inv p(2)] t
      by (cases "e = eid"; cases "pending_at (xt w) e (res_id result)") auto
    moreover have "snd (submit_result_locked sha now' wall' eid cred' result' t) \<noteq> Inr ()"
      if "res_id result' = res_id result" for now' wall' cred' result'
      using gone [of eid] that by (auto simp: submit_result_locked_def Let_def split: sum.split option.split)
    moreover have "(res_id result, eid) \<in> set (offers w)" using xt_invD(8) [OF inv p(2)] p(3) by simp
    ultimately show ?thesis using True res by blast
  next
    case False
    have "res \<noteq> Inr () \<and> xt_futures t = xt_futures (xt w) \<and> (\<forall>e x. pending_at t e x = pending_at (xt w) e x)"
    proof (cases "reauthenticate sha eid cred (xt w)")
      case (Inl e)
      with assms(2) show ?thesis by (auto simp: submit_result_locked_def)
    next
      case (Inr u)
      with False assms(2) show ?thesis
        by (auto simp: submit_result_locked_def Let_def split: option.splits if_splits)
    qed
    with False show ?thesis by blast
  qed
qed


section \<open>A concrete run\<close>

text \<open>
  The paired executor says hello, a command is queued for it, polled, and answered.
\<close>

definition demo_sha :: "ustr \<Rightarrow> ustr" where
  "demo_sha c = replicate 64 97"

definition demo_ver :: ustr where
  "demo_ver = lit ''1.0''"

abbreviation demo_eid :: ustr where
  "demo_eid \<equiv> executor_id demo_executor"

definition demo_hello :: hello_request where
  "demo_hello = \<lparr>workgate_version = demo_ver, hello_inventory = JNull\<rparr>"

definition demo_command :: executor_command where
  "demo_command = \<lparr>cmd_id = lit ''c1'', cmd_op = lit ''read'', cmd_session_id = None, cmd_args = []\<rparr>"

definition demo_new :: xt_world where
  "demo_new = \<lparr>xt = the (new_transport demo_paired 1 10 30 20), issued = [], offers = []\<rparr>"

definition demo_ready :: xt_world where
  "demo_ready = demo_new\<lparr>xt := fst (hello_locked demo_sha demo_ver 0 0 demo_eid [] demo_hello
     (fst (transport_start (xt demo_new))))\<rparr>"

definition demo_called :: xt_world where
  "demo_called = demo_ready\<lparr>xt := fst (call_enqueue demo_ver 1 demo_eid (lit ''read'') [] None (lit ''c1'') (xt demo_ready)),
     issued := [(lit ''c1'', demo_eid)]\<rparr>"

definition demo_polling :: xt_world where
  "demo_polling = demo_called\<lparr>xt := fst (poll_begin demo_sha demo_ver 2 2 demo_eid [] (xt demo_called))\<rparr>"

definition demo_offered :: xt_world where
  "demo_offered = demo_polling\<lparr>xt := fst (poll_round demo_sha 3 3 demo_eid [] 0 22 (xt demo_polling)),
     offers := [(lit ''c1'', demo_eid)]\<rparr>"

lemma demo_trusted [simp]:
  "xt_control t = demo_paired \<Longrightarrow> reauthenticate demo_sha demo_eid [] t = Inr ()"
  "xt_control t = demo_paired \<Longrightarrow> require_target_trusted demo_eid t = Inr ()"
  by (simp_all add: reauthenticate_def require_target_trusted_def demo_paired_executors,
      simp_all add: demo_executor_def executor_credential_verifier_def demo_sha_def)

lemma demo_new_init: "xt_init demo_new"
proof -
  have "new_transport demo_paired 1 10 30 20 = Some (xt demo_new)"
    by (simp add: demo_new_def new_transport_def)
  then have "\<exists>ctl m h off p. new_transport ctl m h off p = Some (xt demo_new)" by blast
  then show ?thesis unfolding xt_init_def by (simp add: demo_new_def)
qed

lemma demo_ready_fields:
  "xt_control (xt demo_ready) = demo_paired" "require_running (xt demo_ready)"
  "channel_of demo_eid (xt demo_ready) = empty_channel\<lparr>ch_hello := Some demo_hello,
     ch_last_activity := Some 0, ch_last_seen_at := Some 0\<rparr>"
  "xt_max_pending (xt demo_ready) = 1" "xt_futures (xt demo_ready) = []"
  "xt_next_token (xt demo_ready) = 0" "xt_offline_after (xt demo_ready) = 30"
  "issued demo_ready = []" "offers demo_ready = []"
  by (simp_all add: demo_ready_def demo_new_def new_transport_def transport_start_def hello_locked_def
      demo_hello_def channel_of_def require_running_def empty_channel_def touch_def put_channel_def)

lemma demo_ready_reach: "reach xt_init (xt_step demo_sha demo_ver) demo_ready"
  using xt_step.xt_hello [of demo_sha demo_ver "demo_new\<lparr>xt := fst (transport_start (xt demo_new))\<rparr>" 0 0 demo_eid "[]" demo_hello]
  by (auto simp: demo_ready_def intro!: reach_step [OF reach_step [OF reach_init [of xt_init, OF demo_new_init]]] xt_step.xt_start)


lemma running_frame:
  "require_running (put_channel eid c t) = require_running t"
  "require_running (ensure_channel eid t) = require_running t"
  "require_running (t\<lparr>xt_futures := f\<rparr>) = require_running t"
  "require_running (t\<lparr>xt_next_token := n\<rparr>) = require_running t"
  by (simp_all add: require_running_def)

lemma demo_call:
  "call_enqueue demo_ver 1 demo_eid (lit ''read'') [] None (lit ''c1'') (xt demo_ready) =
     (xt demo_called, Inr (lit ''c1''))"
  "xt_control (xt demo_called) = demo_paired" "require_running (xt demo_called)"
  "channel_of demo_eid (xt demo_called) = (channel_of demo_eid (xt demo_ready))\<lparr>
     ch_pending := [(lit ''c1'', \<lparr>pc_command = demo_command, pc_state = Queued\<rparr>)],
     ch_queue := [lit ''c1''], ch_wake := True\<rparr>"
  "xt_next_token (xt demo_called) = 0" "xt_offline_after (xt demo_called) = 30"
  by (simp_all add: demo_called_def call_enqueue_def Let_def demo_ready_fields demo_command_def empty_channel_def
      channel_online_def runtime_compatible_def demo_hello_def running_frame cong: if_cong)

lemma demo_called_reach: "reach xt_init (xt_step demo_sha demo_ver) demo_called"
  by (rule reach_step [OF demo_ready_reach])
    (use xt_step.xt_call [of demo_ready "lit ''c1''" demo_ver 1 demo_eid "lit ''read''" "[]" None, OF _ demo_call(1), of demo_sha]
      in \<open>simp add: demo_ready_fields demo_called_def\<close>)

lemma demo_poll_begin:
  "poll_begin demo_sha demo_ver 2 2 demo_eid [] (xt demo_called) = (xt demo_polling, Inr 0)"
  "xt_control (xt demo_polling) = demo_paired" "require_running (xt demo_polling)"
  "channel_of demo_eid (xt demo_polling) =
     touch 2 2 ((channel_of demo_eid (xt demo_called))\<lparr>ch_poll_token := Some 0\<rparr>)"
  by (simp_all add: demo_polling_def poll_begin_def Let_def demo_call demo_ready_fields empty_channel_def
      runtime_compatible_def demo_hello_def running_frame)

lemma demo_polling_reach: "reach xt_init (xt_step demo_sha demo_ver) demo_polling"
  by (rule reach_step [OF demo_called_reach])
    (use xt_step.xt_poll_begin [of demo_sha demo_ver demo_called 2 2 demo_eid "[]"] in \<open>simp add: demo_polling_def\<close>)

lemma demo_poll_round:
  "poll_round demo_sha 3 3 demo_eid [] 0 22 (xt demo_polling) =
     (xt demo_offered, Inr (PollReturn (Some demo_command)))"
  "xt_control (xt demo_offered) = demo_paired" "require_running (xt demo_offered)"
  "pending_at (xt demo_offered) demo_eid (lit ''c1'') = Some \<lparr>pc_command = demo_command, pc_state = Offered\<rparr>"
  by (simp_all add: demo_offered_def poll_round_def Let_def demo_poll_begin demo_call demo_ready_fields empty_channel_def
      running_frame cong: if_cong)

lemma demo_offered_reach: "reach xt_init (xt_step demo_sha demo_ver) demo_offered"
proof (rule reach_step [OF demo_polling_reach])
  have "offered_by demo_eid (Inr (PollReturn (Some demo_command))) @ offers demo_polling = [(lit ''c1'', demo_eid)]"
    by (simp add: offered_by_def demo_command_def demo_polling_def demo_called_def demo_ready_def demo_new_def)
  with xt_step.xt_poll_round [OF demo_poll_round(1), of demo_ver]
  show "xt_step demo_sha demo_ver demo_polling demo_offered" by (simp add: demo_offered_def)
qed

theorem rpc_bookkeeping_witness:
  "pending_count demo_eid (xt demo_offered) \<le> xt_max_pending (xt demo_offered) \<and>
   lit ''c1'' \<notin> set (ch_queue (channel_of demo_eid (xt demo_offered)))"
  using rpc_bookkeeping [OF demo_offered_reach] demo_poll_round(4) by auto

theorem offered_at_most_once_witness:
  "offers demo_offered = [(lit ''c1'', demo_eid)] \<and> map_of (issued demo_offered) (lit ''c1'') = Some demo_eid"
proof -
  have "offers demo_offered = [(lit ''c1'', demo_eid)]" by (simp add: demo_offered_def)
  with offered_at_most_once [OF demo_offered_reach] show ?thesis by simp
qed

theorem poll_is_fifo_witness:
  "ch_queue (channel_of demo_eid (xt demo_polling)) = [lit ''c1''] \<and> cmd_id demo_command = lit ''c1'' \<and>
   ch_queue (channel_of demo_eid (xt demo_offered)) = []"
  using poll_is_fifo [OF demo_polling_reach demo_poll_begin(3) _ _ demo_poll_round(1)]
  by (auto simp: demo_poll_begin demo_call)

theorem result_answers_one_caller_witness:
  "map_of (xt_futures (fst (submit_result_locked demo_sha 4 4 demo_eid []
      \<lparr>res_id = lit ''c1'', res_ok = True, res_body = JNull\<rparr> (xt demo_offered)))) (lit ''c1'') =
    Some (FResult \<lparr>res_id = lit ''c1'', res_ok = True, res_body = JNull\<rparr>)"
proof -
  let ?s = "submit_result_locked demo_sha 4 4 demo_eid []
      \<lparr>res_id = lit ''c1'', res_ok = True, res_body = JNull\<rparr> (xt demo_offered)"
  have "?s = (fst ?s, snd ?s)" by simp
  from result_answers_one_caller [OF demo_offered_reach this] demo_poll_round
  show ?thesis by simp
qed

theorem revocation_fences_witness:
  "map_of (xt_futures (fst (transport_revoke demo_write demo_eid 20 (xt demo_offered)))) (lit ''c1'') =
     Some (FError (TProtocol EXECUTOR_REVOKED (Some Offered)))"
proof -
  let ?r = "transport_revoke demo_write demo_eid 20 (xt demo_offered)"
  have started: "require_started demo_paired"
    by simp
  have "executor_ok (demo_executor\<lparr>revoked_at := Some 20\<rparr>)"
    using demo_executor_ok by (simp add: executor_ok_def demo_executor_def)
  then have "\<exists>ctl. revoke_executor demo_write demo_eid 20 demo_paired = (ctl, Inr (demo_executor\<lparr>revoked_at := Some 20\<rparr>))"
    using started by (simp add: revoke_executor_def mutate_executor_def demo_paired_executors publish_executors_def
        write_executors_def demo_write_def write_registry_def write_json_def Let_def)
  then obtain t cbs where "?r = (t, Inr (demo_executor\<lparr>revoked_at := Some 20\<rparr>), cbs)"
    using demo_poll_round(2,3) by (auto simp: transport_revoke_def Let_def)
  with revocation_fences [OF demo_offered_reach this, of "demo_offered\<lparr>xt := t\<rparr>" 0] demo_poll_round(4) show ?thesis
    by (simp add: reach_init)
qed

end
