(* ===== verification/Pairing.thy ===== *)
theory Pairing
  imports Executor_Transport
begin

text \<open>
  Device-code pairing of executors, \<open>src/src/workgate/control/pairing.py\<close>.

  The service keeps the live attempts by device code, an index from user codes, and the recent
  events of two rate windows. Every operation runs under one lock and is one step here; \<open>decide\<close>
  calls into the control state and the transport, whose state \<open>t\<close> it takes and returns. \<open>now\<close> is the
  monotonic clock, \<open>wall\<close> the wall clock; device codes, user codes and executor identities come from
  lists of random draws, and \<open>None\<close> means that a retry loop is still drawing.
\<close>

section \<open>State\<close>

datatype pairing_error =
    PairingError protocol_error_code
  | PairingInvalidRecord
  | PairingControl control_error
  | PairingTransport transport_error

datatype attempt_status = AttemptPending | AttemptApproved | AttemptDenied

record attempt_view =
  av_user_code :: ustr
  av_requested_name :: "ustr option"
  av_existing_executor_id :: "ustr option"
  av_metadata :: pairing_metadata
  av_expires_in :: int
  av_status :: attempt_status
  av_executor_id :: "ustr option"
  av_name :: "ustr option"

record attempt =
  at_request :: pair_start_request
  at_user_code :: ustr
  at_expires_at :: time
  at_device_code :: ustr
  at_next_poll_at :: time
  at_decision :: "pair_decision option"
  at_executor_id :: "ustr option"
  at_name :: "ustr option"
  at_credential :: "ustr option"

record pairing =
  pg_max_pending :: nat
  pg_ttl :: int
  pg_poll_interval :: int
  pg_start_limit :: nat
  pg_code_limit :: nat
  pg_attempts :: "(ustr, attempt) dict"
  pg_device_by_code :: "(ustr, ustr) dict"
  pg_start_events :: "time list"
  pg_code_events :: "time list"

definition rate_window :: time where
  "rate_window = 60"

definition new_pairing :: "nat \<Rightarrow> int \<Rightarrow> int \<Rightarrow> nat \<Rightarrow> nat \<Rightarrow> pairing option" where
  "new_pairing max_pending ttl interval start_limit code_limit =
     (if max_pending < 1 then None
      else if ttl < 1 \<or> interval < 1 then None
      else if start_limit < 1 \<or> code_limit < 1 then None
      else Some \<lparr>pg_max_pending = max_pending, pg_ttl = ttl, pg_poll_interval = interval,
        pg_start_limit = start_limit, pg_code_limit = code_limit, pg_attempts = [],
        pg_device_by_code = [], pg_start_events = [], pg_code_events = []\<rparr>)"

section \<open>Helpers under the lock\<close>

definition remove_attempt :: "ustr \<Rightarrow> pairing \<Rightarrow> pairing" where
  "remove_attempt device p =
     (case map_of (pg_attempts p) device of
        None \<Rightarrow> p
      | Some a \<Rightarrow> p\<lparr>pg_attempts := AList.delete device (pg_attempts p),
          pg_device_by_code := AList.delete (at_user_code a) (pg_device_by_code p)\<rparr>)"

text \<open>\<open>for device_code, attempt in tuple(self._attempts.items()): if ...: remove\<close>\<close>

definition remove_where :: "(ustr \<Rightarrow> attempt \<Rightarrow> bool) \<Rightarrow> pairing \<Rightarrow> pairing" where
  "remove_where dead p =
     fold (\<lambda>(device, a) q. if dead device a then remove_attempt device q else q) (pg_attempts p) p"

definition prune_expired :: "time \<Rightarrow> pairing \<Rightarrow> pairing" where
  "prune_expired now = remove_where (\<lambda>_ a. at_expires_at a \<le> now)"

definition drop_other_delivery :: "ustr \<Rightarrow> ustr \<Rightarrow> pairing \<Rightarrow> pairing" where
  "drop_other_delivery eid keep =
     remove_where (\<lambda>device a. device \<noteq> keep \<and> at_executor_id a = Some eid \<and> at_credential a \<noteq> None)"

definition attempt_for_user_code :: "ustr \<Rightarrow> pairing \<Rightarrow> pairing_error + attempt" where
  "attempt_for_user_code code p =
     (case map_of (pg_device_by_code p) code of
        None \<Rightarrow> Inl (PairingError PAIRING_REQUIRED)
      | Some device \<Rightarrow>
          (case map_of (pg_attempts p) device of
             None \<Rightarrow> Inl (PairingError PAIRING_REQUIRED)
           | Some a \<Rightarrow> Inr a))"

definition view :: "attempt \<Rightarrow> time \<Rightarrow> attempt_view" where
  "view a now =
     \<lparr>av_user_code = at_user_code a, av_requested_name = requested_name (at_request a),
      av_existing_executor_id = existing_executor_id (at_request a),
      av_metadata = psr_metadata (at_request a),
      av_expires_in = max 0 \<lceil>at_expires_at a - now\<rceil>,
      av_status = (case at_decision a of
          Some APPROVE \<Rightarrow> AttemptApproved | Some DENY \<Rightarrow> AttemptDenied | None \<Rightarrow> AttemptPending),
      av_executor_id = at_executor_id a, av_name = at_name a\<rparr>"

definition admit_rate :: "time list \<Rightarrow> time \<Rightarrow> nat \<Rightarrow> time list \<times> bool" where
  "admit_rate events now limit =
     (let events = dropWhile (\<lambda>e. e \<le> now - rate_window) events
      in if limit \<le> length events then (events, False) else (events @ [now], True))"

definition truthy :: "ustr option \<Rightarrow> bool" where
  "truthy s \<longleftrightarrow> s \<noteq> None \<and> s \<noteq> Some []"

definition approved_name :: "pair_approval_request \<Rightarrow> attempt \<Rightarrow> ustr" where
  "approved_name request a =
     (if truthy (apr_name request) then the (apr_name request)
      else if truthy (requested_name (at_request a)) then the (requested_name (at_request a))
      else if truthy (md_hostname (psr_metadata (at_request a)))
      then the (md_hostname (psr_metadata (at_request a)))
      else lit ''executor'')"

section \<open>Operations\<close>

definition start_pairing ::
  "time \<Rightarrow> ustr list \<Rightarrow> ustr list \<Rightarrow> pair_start_request \<Rightarrow> pairing \<Rightarrow>
   (pairing \<times> (pairing_error + pair_start_response)) option" where
  "start_pairing now devices codes request p =
     (let p = prune_expired now p;
          (events, ok) = admit_rate (pg_start_events p) now (pg_start_limit p);
          p = p\<lparr>pg_start_events := events\<rparr>
      in if \<not> ok then Some (p, Inl (PairingError PAIRING_CAPACITY_EXHAUSTED))
         else if pg_max_pending p \<le> length (pg_attempts p)
         then Some (p, Inl (PairingError PAIRING_CAPACITY_EXHAUSTED))
         else case (draw_fresh devices (dict_keys (pg_attempts p)),
                    draw_fresh codes (dict_keys (pg_device_by_code p))) of
                (Some device, Some code) \<Rightarrow>
                  let a = \<lparr>at_request = request, at_user_code = code, at_expires_at = now + of_int (pg_ttl p),
                        at_device_code = device, at_next_poll_at = 0, at_decision = None,
                        at_executor_id = None, at_name = None, at_credential = None\<rparr>
                  in Some (p\<lparr>pg_attempts := AList.update device a (pg_attempts p),
                         pg_device_by_code := AList.update code device (pg_device_by_code p)\<rparr>,
                       Inr \<lparr>resp_device_code = device, resp_user_code = code, resp_expires_in = pg_ttl p,
                         resp_poll_interval = pg_poll_interval p\<rparr>)
              | _ \<Rightarrow> None)"

definition lookup_user_code ::
  "time \<Rightarrow> ustr \<Rightarrow> pairing \<Rightarrow> pairing \<times> (pairing_error + attempt_view)" where
  "lookup_user_code now code p =
     (let p = prune_expired now p;
          (events, ok) = admit_rate (pg_code_events p) now (pg_code_limit p);
          p = p\<lparr>pg_code_events := events\<rparr>
      in if \<not> ok then (p, Inl (PairingError PAIRING_CAPACITY_EXHAUSTED))
         else case attempt_for_user_code code p of
                Inl e \<Rightarrow> (p, Inl e)
              | Inr a \<Rightarrow> (p, Inr (view a now)))"

text \<open>
  The trust record of an approval, and its publication. A new executor is put into the control state
  at once; a replacement is built from the snapshot and handed to the transport, which may first
  have to wait for the channel lock while other steps (\<open>env\<close>) run.
\<close>

definition approve_trust ::
  "(ustr \<Rightarrow> ustr) \<Rightarrow> time \<Rightarrow> ustr \<Rightarrow> ustr list \<Rightarrow> write_io \<Rightarrow> (transport \<Rightarrow> transport) \<Rightarrow>
   pair_approval_request \<Rightarrow> attempt \<Rightarrow> transport \<Rightarrow>
   (transport \<times> callback list \<times> (pairing_error + ustr \<times> ustr)) option" where
  "approve_trust sha wall credential ids io env request a t =
     (let records = cs_executors (xt_control t) in
      case replace_executor_id request of
        None \<Rightarrow>
          (case draw_fresh ids (dict_keys records) of
             None \<Rightarrow> None
           | Some eid \<Rightarrow>
               let name = approved_name request a;
                   r = \<lparr>executor_id = eid, er_name = name,
                     credential_verifier = executor_credential_verifier sha credential,
                     er_created_at = wall, revoked_at = None, draining = False\<rparr>
               in if \<not> executor_ok r then Some (t, [], Inl PairingInvalidRecord)
                  else case put_executor io r (xt_control t) of
                         (ctl, Inl e) \<Rightarrow> Some (t\<lparr>xt_control := ctl\<rparr>, [], Inl (PairingControl e))
                       | (ctl, Inr _) \<Rightarrow> Some (t\<lparr>xt_control := ctl\<rparr>, [], Inr (eid, name)))
      | Some replace \<Rightarrow>
          (case map_of records replace of
             None \<Rightarrow> Some (t, [], Inl (PairingError PAIRING_REQUIRED))
           | Some current \<Rightarrow>
               let name = (if truthy (apr_name request) then the (apr_name request) else er_name current);
                   r = current\<lparr>er_name := name,
                     credential_verifier := executor_credential_verifier sha credential,
                     revoked_at := None\<rparr>
               in case transport_replace io r (env t) of
                    (t', Inl e, cbs) \<Rightarrow> Some (t', cbs, Inl (PairingTransport e))
                  | (t', Inr _, cbs) \<Rightarrow> Some (t', cbs, Inr (executor_id current, name))))"

definition decide ::
  "(ustr \<Rightarrow> ustr) \<Rightarrow> time \<Rightarrow> time \<Rightarrow> ustr \<Rightarrow> ustr list \<Rightarrow> write_io \<Rightarrow> (transport \<Rightarrow> transport) \<Rightarrow>
   pair_approval_request \<Rightarrow> pairing \<times> transport \<Rightarrow>
   ((pairing \<times> transport) \<times> callback list \<times> (pairing_error + attempt_view)) option" where
  "decide sha now wall credential ids io env request pt =
     (let p = prune_expired now (fst pt); t = snd pt in
      case attempt_for_user_code (apr_user_code request) p of
        Inl e \<Rightarrow> Some ((p, t), [], Inl e)
      | Inr a \<Rightarrow>
          if at_decision a \<noteq> None
          then (if at_decision a = Some (apr_decision request) then Some ((p, t), [], Inr (view a now))
                else Some ((p, t), [], Inl (PairingError PAIRING_DENIED)))
          else if apr_decision request = DENY
          then (let a' = a\<lparr>at_decision := Some DENY\<rparr>
                in Some ((p\<lparr>pg_attempts := AList.update (at_device_code a) a' (pg_attempts p)\<rparr>, t), [],
                     Inr (view a' now)))
          else case approve_trust sha wall credential ids io env request a t of
                 None \<Rightarrow> None
               | Some (t', cbs, Inl e) \<Rightarrow> Some ((p, t'), cbs, Inl e)
               | Some (t', cbs, Inr (eid, name)) \<Rightarrow>
                   let p = drop_other_delivery eid (at_device_code a) p;
                       a' = a\<lparr>at_decision := Some APPROVE, at_executor_id := Some eid, at_name := Some name,
                         at_credential := Some credential\<rparr>
                   in Some ((p\<lparr>pg_attempts := AList.update (at_device_code a) a' (pg_attempts p)\<rparr>, t'),
                        cbs, Inr (view a' now)))"

definition pairing_poll ::
  "time \<Rightarrow> ustr \<Rightarrow> pairing \<Rightarrow> pairing \<times> (pairing_error + ustr \<times> ustr)" where
  "pairing_poll now device p =
     (let p = prune_expired now p in
      case map_of (pg_attempts p) device of
        None \<Rightarrow> (p, Inl (PairingError PAIRING_EXPIRED))
      | Some a \<Rightarrow>
          if now < at_next_poll_at a then (p, Inl (PairingError PAIRING_PENDING))
          else let a = a\<lparr>at_next_poll_at := now + of_int (pg_poll_interval p)\<rparr>;
                   p = p\<lparr>pg_attempts := AList.update device a (pg_attempts p)\<rparr>
               in case at_decision a of
                    None \<Rightarrow> (p, Inl (PairingError PAIRING_PENDING))
                  | Some DENY \<Rightarrow> (p, Inl (PairingError PAIRING_DENIED))
                  | Some APPROVE \<Rightarrow>
                      (case (at_executor_id a, at_credential a) of
                         (Some eid, Some credential) \<Rightarrow> (p, Inr (eid, credential))
                       | _ \<Rightarrow> (p, Inl (PairingError PAIRING_EXPIRED))))"

definition complete_authenticated_proof :: "time \<Rightarrow> ustr \<Rightarrow> ustr \<Rightarrow> pairing \<Rightarrow> pairing" where
  "complete_authenticated_proof now eid credential p =
     remove_where (\<lambda>_ a. at_executor_id a = Some eid \<and> at_credential a = Some credential)
       (prune_expired now p)"

definition clear_executor_delivery :: "time \<Rightarrow> ustr \<Rightarrow> pairing \<Rightarrow> pairing" where
  "clear_executor_delivery now eid p =
     remove_where (\<lambda>_ a. at_executor_id a = Some eid \<and> at_credential a \<noteq> None)
       (prune_expired now p)"

definition pairing_close :: "pairing \<Rightarrow> pairing" where
  "pairing_close p =
     p\<lparr>pg_attempts := [], pg_device_by_code := [], pg_start_events := [], pg_code_events := []\<rparr>"

definition attempt_count :: "time \<Rightarrow> pairing \<Rightarrow> pairing \<times> nat" where
  "attempt_count now p = (let p = prune_expired now p in (p, length (pg_attempts p)))"


section \<open>Removing attempts\<close>

text \<open>
  Well-formedness: the index from user codes is the inverse of the attempts' own codes, all bounds
  hold, an attempt carries an executor, a name and a bearer exactly when it was approved, and at
  most one attempt holds a bearer for an executor.
\<close>

definition delivery_ok :: "attempt \<Rightarrow> bool" where
  "delivery_ok a \<longleftrightarrow>
     (at_executor_id a \<noteq> None \<longleftrightarrow> at_decision a = Some APPROVE) \<and>
     (at_name a \<noteq> None \<longleftrightarrow> at_decision a = Some APPROVE) \<and>
     (at_credential a \<noteq> None \<longleftrightarrow> at_decision a = Some APPROVE)"

definition pairing_inv :: "pairing \<Rightarrow> bool" where
  "pairing_inv p \<longleftrightarrow>
     dict_ok (pg_attempts p) \<and> dict_ok (pg_device_by_code p) \<and>
     (\<forall>d a. map_of (pg_attempts p) d = Some a \<longrightarrow>
        at_device_code a = d \<and> map_of (pg_device_by_code p) (at_user_code a) = Some d \<and> delivery_ok a) \<and>
     (\<forall>u d. map_of (pg_device_by_code p) u = Some d \<longrightarrow>
        (\<exists>a. map_of (pg_attempts p) d = Some a \<and> at_user_code a = u)) \<and>
     length (pg_attempts p) \<le> pg_max_pending p \<and>
     length (pg_start_events p) \<le> pg_start_limit p \<and> length (pg_code_events p) \<le> pg_code_limit p \<and>
     (\<forall>d d' a a'. map_of (pg_attempts p) d = Some a \<longrightarrow> map_of (pg_attempts p) d' = Some a' \<longrightarrow>
        at_executor_id a \<noteq> None \<longrightarrow> at_executor_id a' = at_executor_id a \<longrightarrow> d' = d)"

lemma pairing_invD:
  assumes "pairing_inv p"
  shows "dict_ok (pg_attempts p)" and "dict_ok (pg_device_by_code p)"
    and "map_of (pg_attempts p) d = Some a \<Longrightarrow> at_device_code a = d"
    and "map_of (pg_attempts p) d = Some a \<Longrightarrow> map_of (pg_device_by_code p) (at_user_code a) = Some d"
    and "map_of (pg_attempts p) d = Some a \<Longrightarrow> delivery_ok a"
    and "map_of (pg_device_by_code p) u = Some d \<Longrightarrow> \<exists>a. map_of (pg_attempts p) d = Some a \<and> at_user_code a = u"
    and "length (pg_attempts p) \<le> pg_max_pending p"
    and "length (pg_start_events p) \<le> pg_start_limit p" and "length (pg_code_events p) \<le> pg_code_limit p"
    and "map_of (pg_attempts p) d = Some a \<Longrightarrow> map_of (pg_attempts p) d' = Some a' \<Longrightarrow>
      at_executor_id a = Some e \<Longrightarrow> at_executor_id a' = Some e \<Longrightarrow> d' = d"
proof -
  note p = assms [unfolded pairing_inv_def]
  show "dict_ok (pg_attempts p)" "dict_ok (pg_device_by_code p)" "length (pg_attempts p) \<le> pg_max_pending p"
    "length (pg_start_events p) \<le> pg_start_limit p" "length (pg_code_events p) \<le> pg_code_limit p"
    using p by simp_all
  show "map_of (pg_attempts p) d = Some a \<Longrightarrow> at_device_code a = d"
    "map_of (pg_attempts p) d = Some a \<Longrightarrow> map_of (pg_device_by_code p) (at_user_code a) = Some d"
    "map_of (pg_attempts p) d = Some a \<Longrightarrow> delivery_ok a"
    using p by blast+
  show "map_of (pg_device_by_code p) u = Some d \<Longrightarrow> \<exists>a. map_of (pg_attempts p) d = Some a \<and> at_user_code a = u"
    using p by blast
  have "\<forall>d d' a a'. map_of (pg_attempts p) d = Some a \<longrightarrow> map_of (pg_attempts p) d' = Some a' \<longrightarrow>
        at_executor_id a \<noteq> None \<longrightarrow> at_executor_id a' = at_executor_id a \<longrightarrow> d' = d"
    using p by (elim conjE) assumption
  then show "map_of (pg_attempts p) d = Some a \<Longrightarrow> map_of (pg_attempts p) d' = Some a' \<Longrightarrow>
      at_executor_id a = Some e \<Longrightarrow> at_executor_id a' = Some e \<Longrightarrow> d' = d"
    by (metis option.distinct(1))
qed

lemma attempts_remove_attempt [simp]:
  "pg_attempts (remove_attempt d p) = AList.delete d (pg_attempts p)"
  by (auto simp: remove_attempt_def map_of_eq_None_iff pop_absent split: option.split)

lemma remove_attempt_frame [simp]:
  "pg_max_pending (remove_attempt d p) = pg_max_pending p"
  "pg_ttl (remove_attempt d p) = pg_ttl p"
  "pg_poll_interval (remove_attempt d p) = pg_poll_interval p"
  "pg_start_limit (remove_attempt d p) = pg_start_limit p"
  "pg_code_limit (remove_attempt d p) = pg_code_limit p"
  "pg_start_events (remove_attempt d p) = pg_start_events p"
  "pg_code_events (remove_attempt d p) = pg_code_events p"
  by (auto simp: remove_attempt_def split: option.split)

lemma remove_attempt_inv:
  assumes inv: "pairing_inv p"
  shows "pairing_inv (remove_attempt d p)"
proof (cases "map_of (pg_attempts p) d")
  case None
  with inv show ?thesis by (simp add: remove_attempt_def)
next
  case (Some a)
  note D = pairing_invD [OF inv]
  have codes: "pg_device_by_code (remove_attempt d p) = AList.delete (at_user_code a) (pg_device_by_code p)"
    using Some by (simp add: remove_attempt_def)
  have other: "at_user_code a' \<noteq> at_user_code a" if "map_of (pg_attempts p) d' = Some a'" "d' \<noteq> d" for d' a'
    using D(4) [OF that(1)] D(4) [OF Some] that(2) by auto
  show ?thesis
    unfolding pairing_inv_def
  proof (intro conjI allI impI)
    fix u d'
    assume "map_of (pg_device_by_code (remove_attempt d p)) u = Some d'"
    then have u: "map_of (pg_device_by_code p) u = Some d'" "u \<noteq> at_user_code a"
      by (auto simp: codes split: if_splits)
    then obtain a' where "map_of (pg_attempts p) d' = Some a'" "at_user_code a' = u" using D(6) by blast
    with u(2) Some show "\<exists>a. map_of (pg_attempts (remove_attempt d p)) d' = Some a \<and> at_user_code a = u"
      by (cases "d' = d") auto
  next
    show "length (pg_attempts (remove_attempt d p)) \<le> pg_max_pending (remove_attempt d p)"
      using D(7) length_pop_le [of d "pg_attempts p"] by simp
  next
    fix d1 b
    assume "map_of (pg_attempts (remove_attempt d p)) d1 = Some b"
    then have b: "map_of (pg_attempts p) d1 = Some b" "d1 \<noteq> d" by (auto split: if_splits)
    show "at_device_code b = d1" and "delivery_ok b" using D(3,5) [OF b(1)] by blast+
    show "map_of (pg_device_by_code (remove_attempt d p)) (at_user_code b) = Some d1"
      using D(4) [OF b(1)] other [OF b] codes by simp
    fix d2 c
    assume "map_of (pg_attempts (remove_attempt d p)) d2 = Some c"
    then have c: "map_of (pg_attempts p) d2 = Some c" by (auto split: if_splits)
    assume "at_executor_id b \<noteq> None" "at_executor_id c = at_executor_id b"
    then obtain e where "at_executor_id b = Some e" "at_executor_id c = Some e" by auto
    then show "d2 = d1" by (rule D(10) [OF b(1) c])
  qed (use D(1,2,8,9) codes in simp_all)
qed

lemma remove_where_induct:
  assumes "P p" and "\<And>d q. P q \<Longrightarrow> P (remove_attempt d q)"
  shows "P (remove_where dead p)"
proof -
  have "P (fold (\<lambda>(device, a) q. if dead device a then remove_attempt device q else q) xs q)" if "P q" for xs q
    using that by (induction xs arbitrary: q) (auto simp: assms(2))
  with assms(1) show ?thesis by (simp add: remove_where_def)
qed

lemma remove_where_inv: "pairing_inv p \<Longrightarrow> pairing_inv (remove_where dead p)"
  by (rule remove_where_induct) (auto intro: remove_attempt_inv)

lemma attempts_remove_where: "pg_attempts (remove_where dead p) = dict_sweep dead (pg_attempts p)"
proof -
  have "pg_attempts (fold (\<lambda>(device, a) q. if dead device a then remove_attempt device q else q) xs q) =
      fold (\<lambda>(k, v) acc. if dead k v then AList.delete k acc else acc) xs (pg_attempts q)" for xs q
    by (induction xs arbitrary: q) auto
  then show ?thesis by (simp add: remove_where_def dict_sweep_def)
qed

lemma remove_where_frame [simp]:
  "pg_max_pending (remove_where dead p) = pg_max_pending p"
  "pg_ttl (remove_where dead p) = pg_ttl p"
  "pg_poll_interval (remove_where dead p) = pg_poll_interval p"
  "pg_start_limit (remove_where dead p) = pg_start_limit p"
  "pg_code_limit (remove_where dead p) = pg_code_limit p"
  "pg_start_events (remove_where dead p) = pg_start_events p"
  "pg_code_events (remove_where dead p) = pg_code_events p"
  by (rule remove_where_induct, simp, simp)+

lemma remove_where_lookup:
  "pairing_inv p \<Longrightarrow>
   map_of (pg_attempts (remove_where dead p)) d =
     (case map_of (pg_attempts p) d of None \<Rightarrow> None | Some a \<Rightarrow> if dead d a then None else Some a)"
  by (simp add: attempts_remove_where map_of_sweep pairing_invD(1))

lemma prune_inv: "pairing_inv p \<Longrightarrow> pairing_inv (prune_expired now p)"
  unfolding prune_expired_def by (rule remove_where_inv)

text \<open>Replacing an attempt in place.\<close>

lemma put_attempt_inv:
  assumes inv: "pairing_inv p" and a: "map_of (pg_attempts p) d = Some a"
    and a': "at_device_code a' = d" "at_user_code a' = at_user_code a" "delivery_ok a'"
    and alone: "\<And>d2 b e. at_executor_id a' = Some e \<Longrightarrow> map_of (pg_attempts p) d2 = Some b \<Longrightarrow>
      at_executor_id b = Some e \<Longrightarrow> d2 = d"
  shows "pairing_inv (p\<lparr>pg_attempts := AList.update d a' (pg_attempts p)\<rparr>)"
proof -
  note D = pairing_invD [OF inv]
  show ?thesis
    unfolding pairing_inv_def
  proof (intro conjI allI impI)
    fix u d'
    assume "map_of (pg_device_by_code (p\<lparr>pg_attempts := AList.update d a' (pg_attempts p)\<rparr>)) u = Some d'"
    then obtain b where "map_of (pg_attempts p) d' = Some b" "at_user_code b = u" using D(6) by auto
    with a a' show "\<exists>a. map_of (pg_attempts (p\<lparr>pg_attempts := AList.update d a' (pg_attempts p)\<rparr>)) d' = Some a \<and>
        at_user_code a = u"
      by (cases "d' = d") auto
  next
    show "length (pg_attempts (p\<lparr>pg_attempts := AList.update d a' (pg_attempts p)\<rparr>)) \<le>
        pg_max_pending (p\<lparr>pg_attempts := AList.update d a' (pg_attempts p)\<rparr>)"
      using D(7) a length_put_present [of "pg_attempts p" d a'] by simp
  next
    fix d1 d2 b c
    assume b: "map_of (pg_attempts (p\<lparr>pg_attempts := AList.update d a' (pg_attempts p)\<rparr>)) d1 = Some b"
      and c: "map_of (pg_attempts (p\<lparr>pg_attempts := AList.update d a' (pg_attempts p)\<rparr>)) d2 = Some c"
      and e: "at_executor_id b \<noteq> None" "at_executor_id c = at_executor_id b"
    then obtain e where "at_executor_id b = Some e" "at_executor_id c = Some e" by auto
    note e = this
    show "d2 = d1"
    proof (cases "d1 = d")
      case True
      then show ?thesis using alone [of e d2 c] b c e by (cases "d2 = d") simp_all
    next
      case False
      then have "map_of (pg_attempts p) d1 = Some b" using b by simp
      then show ?thesis using alone [of e d1 b] D(10) [of d1 b d2 c e] b c e False by (cases "d2 = d") simp_all
    qed
  next
    fix d1 b
    assume b: "map_of (pg_attempts (p\<lparr>pg_attempts := AList.update d a' (pg_attempts p)\<rparr>)) d1 = Some b"
    have "at_device_code b = d1 \<and> map_of (pg_device_by_code p) (at_user_code b) = Some d1 \<and> delivery_ok b"
    proof (cases "d1 = d")
      case True
      with b a' D(4) [OF a] show ?thesis by simp
    next
      case False
      with b have "map_of (pg_attempts p) d1 = Some b" by simp
      then show ?thesis using D(3-5) by blast
    qed
    then show "at_device_code b = d1" and "delivery_ok b"
      and "map_of (pg_device_by_code (p\<lparr>pg_attempts := AList.update d a' (pg_attempts p)\<rparr>)) (at_user_code b) = Some d1"
      by simp_all
  qed (use D(1,2,8,9) in simp_all)
qed


section \<open>Every operation keeps the invariant\<close>

lemma admit_rate_length:
  assumes "admit_rate events now limit = (events', ok)" and "length events \<le> limit"
  shows "length events' \<le> limit"
  using assms length_dropWhile_le [of "\<lambda>e. e \<le> now - rate_window" events]
  by (auto simp: admit_rate_def Let_def split: if_splits)

lemma pairing_inv_events:
  "pairing_inv p \<Longrightarrow> length es \<le> pg_start_limit p \<Longrightarrow> pairing_inv (p\<lparr>pg_start_events := es\<rparr>)"
  "pairing_inv p \<Longrightarrow> length es \<le> pg_code_limit p \<Longrightarrow> pairing_inv (p\<lparr>pg_code_events := es\<rparr>)"
  by (simp_all add: pairing_inv_def del: map_of_eq_Some_iff)

lemma add_attempt_inv:
  assumes inv: "pairing_inv p" and room: "length (pg_attempts p) < pg_max_pending p"
    and fresh: "map_of (pg_attempts p) d = None" "map_of (pg_device_by_code p) u = None"
    and a: "at_device_code a = d" "at_user_code a = u" "delivery_ok a" "at_executor_id a = None"
  shows "pairing_inv (p\<lparr>pg_attempts := AList.update d a (pg_attempts p),
    pg_device_by_code := AList.update u d (pg_device_by_code p)\<rparr>)" (is "pairing_inv ?q")
proof -
  note D = pairing_invD [OF inv]
  have at: "map_of (pg_attempts ?q) d1 = (if d1 = d then Some a else map_of (pg_attempts p) d1)"
    and code: "map_of (pg_device_by_code ?q) u1 = (if u1 = u then Some d else map_of (pg_device_by_code p) u1)" for d1 u1
    by simp_all
  show ?thesis
    unfolding pairing_inv_def
  proof (intro conjI allI impI)
    fix d1 b
    assume b: "map_of (pg_attempts ?q) d1 = Some b"
    have "at_device_code b = d1 \<and> map_of (pg_device_by_code ?q) (at_user_code b) = Some d1 \<and> delivery_ok b"
    proof (cases "d1 = d")
      case True
      with b a show ?thesis by simp
    next
      case False
      with b have b': "map_of (pg_attempts p) d1 = Some b" by simp
      have "at_user_code b \<noteq> u" using D(4) [OF b'] fresh(2) by auto
      then show ?thesis using D(3-5) [OF b'] by simp
    qed
    then show "at_device_code b = d1" and "delivery_ok b"
      and "map_of (pg_device_by_code ?q) (at_user_code b) = Some d1" by simp_all
    fix d2 c
    assume c: "map_of (pg_attempts ?q) d2 = Some c"
      and e: "at_executor_id b \<noteq> None" "at_executor_id c = at_executor_id b"
    obtain e where e': "at_executor_id b = Some e" "at_executor_id c = Some e" using e by auto
    with b c a have "map_of (pg_attempts p) d1 = Some b" "map_of (pg_attempts p) d2 = Some c"
      by (auto split: if_splits)
    then show "d2 = d1" using D(10) e' by blast
  next
    fix u1 d1
    assume u1: "map_of (pg_device_by_code ?q) u1 = Some d1"
    show "\<exists>b. map_of (pg_attempts ?q) d1 = Some b \<and> at_user_code b = u1"
    proof (cases "u1 = u")
      case True
      with u1 a show ?thesis by simp
    next
      case False
      with u1 obtain b where "map_of (pg_attempts p) d1 = Some b" "at_user_code b = u1" using D(6) by auto
      moreover from this fresh have "d1 \<noteq> d" by auto
      ultimately show ?thesis by simp
    qed
  qed (use D(1,2,8,9) room fresh length_put_fresh [of "pg_attempts p" d a] in simp_all)
qed

lemma start_pairing_inv:
  assumes "pairing_inv p" and "start_pairing now ds us request p = Some (p', res)"
  shows "pairing_inv p'"
proof -
  let ?p = "prune_expired now p"
  obtain es ok where es: "admit_rate (pg_start_events ?p) now (pg_start_limit ?p) = (es, ok)" by fastforce
  have inv: "pairing_inv (?p\<lparr>pg_start_events := es\<rparr>)"
    using prune_inv [OF assms(1), of now] pairing_invD(8) [OF prune_inv [OF assms(1), of now]]
      admit_rate_length [OF es] by (blast intro: pairing_inv_events)
  from assms(2) es consider "p' = ?p\<lparr>pg_start_events := es\<rparr>"
    | d u where "length (pg_attempts ?p) < pg_max_pending ?p"
      "draw_fresh ds (dict_keys (pg_attempts ?p)) = Some d" "draw_fresh us (dict_keys (pg_device_by_code ?p)) = Some u"
      "p' = ?p\<lparr>pg_start_events := es,
         pg_attempts := AList.update d \<lparr>at_request = request, at_user_code = u,
           at_expires_at = now + of_int (pg_ttl ?p), at_device_code = d, at_next_poll_at = 0, at_decision = None,
           at_executor_id = None, at_name = None, at_credential = None\<rparr> (pg_attempts ?p),
         pg_device_by_code := AList.update u d (pg_device_by_code ?p)\<rparr>"
    by (auto simp: start_pairing_def Let_def split: if_splits option.splits)
  then show ?thesis
  proof cases
    case 2
    then show ?thesis
      using add_attempt_inv [OF inv, of d u "\<lparr>at_request = request, at_user_code = u,
           at_expires_at = now + of_int (pg_ttl ?p), at_device_code = d, at_next_poll_at = 0, at_decision = None,
           at_executor_id = None, at_name = None, at_credential = None\<rparr>"]
        unbounded.draw_fresh_key [of ds "pg_attempts ?p" d] unbounded.draw_fresh_key [of us "pg_device_by_code ?p" u]
      by (simp add: delivery_ok_def)
  qed (use inv in simp)
qed

lemma lookup_user_code_inv:
  assumes "pairing_inv p"
  shows "pairing_inv (fst (lookup_user_code now code p))"
proof -
  let ?p = "prune_expired now p"
  obtain es ok where es: "admit_rate (pg_code_events ?p) now (pg_code_limit ?p) = (es, ok)" by fastforce
  have "pairing_inv (?p\<lparr>pg_code_events := es\<rparr>)"
    using prune_inv [OF assms, of now] pairing_invD(9) [OF prune_inv [OF assms, of now]]
      admit_rate_length [OF es] by (blast intro: pairing_inv_events)
  with es show ?thesis by (auto simp: lookup_user_code_def Let_def split: sum.split)
qed

text \<open>The bearers: every undelivered bearer is the executor's current credential.\<close>

definition verifiers :: "transport \<Rightarrow> ustr \<Rightarrow> ustr option" where
  "verifiers t e = map_option credential_verifier (map_of (cs_executors (xt_control t)) e)"

definition bearers_current :: "(ustr \<Rightarrow> ustr) \<Rightarrow> pairing \<Rightarrow> transport \<Rightarrow> bool" where
  "bearers_current sha p t \<longleftrightarrow>
     (\<forall>d a e c. map_of (pg_attempts p) d = Some a \<longrightarrow> at_executor_id a = Some e \<longrightarrow>
        at_credential a = Some c \<longrightarrow> verifiers t e = Some (executor_credential_verifier sha c))"

lemma fence_control [simp]: "xt_control (fence_channel code eid t) = xt_control t"
  by (simp add: fence_channel_def interrupt_channel_def Let_def)

lemma approve_trust_verifiers:
  assumes "approve_trust sha wall credential ids io env request a t = Some (t', cbs, res)"
    and "\<And>t. verifiers (env t) = verifiers t"
  shows "case res of
      Inl e \<Rightarrow> verifiers t' = verifiers t
    | Inr (eid, name) \<Rightarrow> verifiers t' = (verifiers t)(eid \<mapsto> executor_credential_verifier sha credential)"
proof (cases "replace_executor_id request")
  case None
  with assms(1) show ?thesis
    by (auto simp: approve_trust_def Let_def verifiers_def fun_eq_iff split: option.splits if_splits prod.splits sum.splits
        dest!: control_trust.put_ok control_trust.put_fail)
next
  case (Some replace)
  show ?thesis
  proof (cases "map_of (cs_executors (xt_control t)) replace")
    case None
    with assms(1) Some show ?thesis by (auto simp: approve_trust_def)
  next
    case current: (Some current)
    define r where "r = current\<lparr>er_name := (if truthy (apr_name request) then the (apr_name request) else er_name current),
      credential_verifier := executor_credential_verifier sha credential, revoked_at := None\<rparr>"
    obtain t1 res1 where tr: "transport_replace io r (env t) = (t1, res1, cbs)" and "t' = t1"
      and res: "res = (case res1 of Inl e \<Rightarrow> Inl (PairingTransport e)
        | Inr _ \<Rightarrow> Inr (executor_id current, er_name r))"
      using assms(1) Some current
      by (auto simp: approve_trust_def Let_def r_def split: prod.splits sum.splits)
    have eid: "executor_id r = executor_id current"
      "credential_verifier r = executor_credential_verifier sha credential" by (simp_all add: r_def)
    show ?thesis
    proof (cases res1)
      case (Inl e)
      then have "verifiers t1 = verifiers (env t)"
        using tr by (auto simp: transport_replace_def Let_def verifiers_def fun_eq_iff
          split: if_splits prod.splits sum.splits dest!: control_trust.put_fail)
      with Inl res assms(2) \<open>t' = t1\<close> show ?thesis by simp
    next
      case (Inr u)
      then have "verifiers t1 = (verifiers (env t))(executor_id r \<mapsto> credential_verifier r)"
        using tr by (auto simp: transport_replace_def Let_def verifiers_def fun_eq_iff
          split: if_splits prod.splits sum.splits dest!: control_trust.put_ok)
      with Inr res eid assms(2) \<open>t' = t1\<close> show ?thesis by simp
    qed
  qed
qed


lemma attempt_for_user_code_Inr:
  assumes "pairing_inv p" and "attempt_for_user_code u p = Inr a"
  shows "map_of (pg_attempts p) (at_device_code a) = Some a \<and> at_user_code a = u"
proof -
  from assms(2) obtain d where d: "map_of (pg_device_by_code p) u = Some d" "map_of (pg_attempts p) d = Some a"
    by (auto simp: attempt_for_user_code_def split: option.splits)
  from pairing_invD(6) [OF assms(1) d(1)] d(2) have "at_user_code a = u" by auto
  with d pairing_invD(3) [OF assms(1) d(2)] show ?thesis by simp
qed

text \<open>How a decision can end.\<close>

lemma decide_cases [consumes 1, case_names unknown decided denied failed approved]:
  assumes "decide sha now wall credential ids io env request (p0, t0) = Some ((p, t), cbs, res)"
  obtains e where "attempt_for_user_code (apr_user_code request) (prune_expired now p0) = Inl e"
      "p = prune_expired now p0" "t = t0" "res = Inl e"
    | a where "attempt_for_user_code (apr_user_code request) (prune_expired now p0) = Inr a"
      "at_decision a \<noteq> None" "p = prune_expired now p0" "t = t0"
      "res = (if at_decision a = Some (apr_decision request) then Inr (view a now) else Inl (PairingError PAIRING_DENIED))"
    | a where "attempt_for_user_code (apr_user_code request) (prune_expired now p0) = Inr a"
      "at_decision a = None" "apr_decision request = DENY" "t = t0"
      "p = (prune_expired now p0)\<lparr>pg_attempts :=
         AList.update (at_device_code a) (a\<lparr>at_decision := Some DENY\<rparr>) (pg_attempts (prune_expired now p0))\<rparr>"
      "res = Inr (view (a\<lparr>at_decision := Some DENY\<rparr>) now)"
    | a e where "attempt_for_user_code (apr_user_code request) (prune_expired now p0) = Inr a"
      "at_decision a = None" "apr_decision request = APPROVE" "p = prune_expired now p0" "res = Inl e"
      "approve_trust sha wall credential ids io env request a t0 = Some (t, cbs, Inl e)"
    | a eid name q where "attempt_for_user_code (apr_user_code request) (prune_expired now p0) = Inr a"
      "at_decision a = None" "apr_decision request = APPROVE"
      "approve_trust sha wall credential ids io env request a t0 = Some (t, cbs, Inr (eid, name))"
      "q = drop_other_delivery eid (at_device_code a) (prune_expired now p0)"
      "p = q\<lparr>pg_attempts := AList.update (at_device_code a)
         (a\<lparr>at_decision := Some APPROVE, at_executor_id := Some eid, at_name := Some name,
            at_credential := Some credential\<rparr>) (pg_attempts q)\<rparr>"
      "res = Inr (view (a\<lparr>at_decision := Some APPROVE, at_executor_id := Some eid, at_name := Some name,
            at_credential := Some credential\<rparr>) now)"
proof (cases "attempt_for_user_code (apr_user_code request) (prune_expired now p0)")
  case (Inl e)
  with assms have "p = prune_expired now p0" "t = t0" "res = Inl e" by (simp_all add: decide_def Let_def)
  then show thesis by (rule that(1) [OF Inl])
next
  case (Inr a)
  show thesis
  proof (cases "at_decision a")
    case (Some d)
    with assms Inr have "p = prune_expired now p0" "t = t0"
      "res = (if at_decision a = Some (apr_decision request) then Inr (view a now) else Inl (PairingError PAIRING_DENIED))"
      by (simp_all add: decide_def Let_def split: if_splits)
    moreover have "at_decision a \<noteq> None" using Some by simp
    ultimately show thesis by (intro that(2) [OF Inr])
  next
    case None
    show thesis
    proof (cases "apr_decision request")
      case APPROVE
      from assms Inr None APPROVE obtain r where
        r: "approve_trust sha wall credential ids io env request a t0 = Some (t, cbs, r)"
        by (auto simp: decide_def Let_def split: option.splits prod.splits sum.splits)
      show thesis
      proof (cases r)
        case (Inl e)
        with assms Inr None APPROVE r have "p = prune_expired now p0" "res = Inl e"
          by (simp_all add: decide_def Let_def)
        with Inl r show thesis by (intro that(4) [OF Inr None APPROVE]) simp_all
      next
        case ok: (Inr u)
        obtain eid name where u: "u = (eid, name)" by (cases u)
        define q where "q = drop_other_delivery eid (at_device_code a) (prune_expired now p0)"
        from assms Inr None APPROVE r ok u have
          "p = q\<lparr>pg_attempts := AList.update (at_device_code a)
             (a\<lparr>at_decision := Some APPROVE, at_executor_id := Some eid, at_name := Some name,
                at_credential := Some credential\<rparr>) (pg_attempts q)\<rparr>"
          "res = Inr (view (a\<lparr>at_decision := Some APPROVE, at_executor_id := Some eid, at_name := Some name,
             at_credential := Some credential\<rparr>) now)"
          by (simp_all add: decide_def Let_def q_def)
        with ok u r q_def show thesis by (intro that(5) [OF Inr None APPROVE]) simp_all
      qed
    next
      case DENY
      show thesis by (rule that(3) [OF Inr None DENY]) (use assms Inr None DENY in \<open>simp_all add: decide_def Let_def\<close>)
    qed
  qed
qed

lemma decide_inv:
  assumes inv: "pairing_inv p0" and cur: "bearers_current sha p0 t0"
    and env: "\<And>t. verifiers (env t) = verifiers t"
    and step: "decide sha now wall credential ids io env request (p0, t0) = Some ((p, t), cbs, res)"
  shows "pairing_inv p \<and> bearers_current sha p t"
proof -
  let ?p = "prune_expired now p0"
  have inv': "pairing_inv ?p" by (rule prune_inv [OF inv])
  have sub: "map_of (pg_attempts p0) d = Some a" if "map_of (pg_attempts ?p) d = Some a" for d a
    using that by (auto simp: prune_expired_def remove_where_lookup [OF inv] split: option.splits if_splits)
  have cur': "bearers_current sha ?p t0" using cur sub unfolding bearers_current_def by blast
  from step show ?thesis
  proof (cases rule: decide_cases)
    case (denied a)
    note a = attempt_for_user_code_Inr [OF inv' denied(1)]
    have ok: "delivery_ok a" using pairing_invD(5) [OF inv'] a by blast
    then have ok': "delivery_ok (a\<lparr>at_decision := Some DENY\<rparr>)" "at_executor_id a = None"
      using denied(2) by (simp_all add: delivery_ok_def)
    have "pairing_inv p"
      unfolding denied(5) by (rule put_attempt_inv [OF inv', of _ a]) (use a ok' in simp_all)
    moreover have "bearers_current sha p t"
      using cur' denied(4,5) ok'(2) by (auto simp: bearers_current_def simp del: map_of_eq_Some_iff split: if_splits)
    ultimately show ?thesis ..
  next
    case (failed a e)
    with approve_trust_verifiers [OF failed(6) env] inv' cur' show ?thesis
      by (simp add: bearers_current_def del: map_of_eq_Some_iff)
  next
    case (approved a eid name q)
    note a = attempt_for_user_code_Inr [OF inv' approved(1)]
    let ?a = "a\<lparr>at_decision := Some APPROVE, at_executor_id := Some eid, at_name := Some name,
            at_credential := Some credential\<rparr>"
    have invq: "pairing_inv q" unfolding approved(5) drop_other_delivery_def by (rule remove_where_inv [OF inv'])
    have q: "map_of (pg_attempts q) d = Some b \<longleftrightarrow> map_of (pg_attempts ?p) d = Some b \<and>
        (d = at_device_code a \<or> at_executor_id b \<noteq> Some eid)" for d b
    proof -
      have "at_credential b \<noteq> None \<longleftrightarrow> at_executor_id b \<noteq> None" if "map_of (pg_attempts ?p) d = Some b"
        using pairing_invD(5) [OF inv' that] by (simp add: delivery_ok_def)
      then show ?thesis
        by (auto simp: approved(5) drop_other_delivery_def remove_where_lookup [OF inv'] simp del: map_of_eq_Some_iff
          split: option.splits if_splits)
    qed
    have "pairing_inv p"
      unfolding approved(6)
      by (rule put_attempt_inv [OF invq, of _ a]) (use a q in \<open>auto simp: delivery_ok_def simp del: map_of_eq_Some_iff\<close>)
    moreover have "bearers_current sha p t"
      unfolding bearers_current_def
    proof (intro allI impI)
      fix d b e c
      assume b: "map_of (pg_attempts p) d = Some b" "at_executor_id b = Some e" "at_credential b = Some c"
      have v: "verifiers t = (verifiers t0)(eid \<mapsto> executor_credential_verifier sha credential)"
        using approve_trust_verifiers [OF approved(4) env] by simp
      show "verifiers t e = Some (executor_credential_verifier sha c)"
      proof (cases "d = at_device_code a")
        case True
        with b approved(6) v show ?thesis by auto
      next
        case False
        with b(1) approved(6) have "map_of (pg_attempts q) d = Some b" by simp
        with q False b have "map_of (pg_attempts ?p) d = Some b" "e \<noteq> eid" by auto
        with cur' b v show ?thesis unfolding bearers_current_def by auto
      qed
    qed
    ultimately show ?thesis ..
  qed (use inv' cur' in simp_all)
qed

lemma pairing_poll_inv:
  assumes "pairing_inv p" and "bearers_current sha p t"
  shows "pairing_inv (fst (pairing_poll now d p)) \<and> bearers_current sha (fst (pairing_poll now d p)) t"
proof -
  let ?p = "prune_expired now p"
  have inv: "pairing_inv ?p" by (rule prune_inv [OF assms(1)])
  have cur: "bearers_current sha ?p t"
    using assms(2) by (auto simp: bearers_current_def prune_expired_def remove_where_lookup [OF assms(1)]
        simp del: map_of_eq_Some_iff split: option.splits if_splits)
  show ?thesis
  proof (cases "map_of (pg_attempts ?p) d")
    case None
    with inv cur show ?thesis by (simp add: pairing_poll_def Let_def)
  next
    case (Some a)
    let ?a = "a\<lparr>at_next_poll_at := now + of_int (pg_poll_interval ?p)\<rparr>"
    let ?q = "?p\<lparr>pg_attempts := AList.update d ?a (pg_attempts ?p)\<rparr>"
    note D = pairing_invD [OF inv]
    have "pairing_inv ?q"
    proof (rule put_attempt_inv [OF inv Some])
      show "at_device_code ?a = d" using D(3) [OF Some] by simp
      show "delivery_ok ?a" using D(5) [OF Some] by (simp add: delivery_ok_def)
      show "d2 = d" if "at_executor_id ?a = Some e" "map_of (pg_attempts ?p) d2 = Some b" "at_executor_id b = Some e"
        for d2 b e using D(10) [OF Some that(2) _ that(3)] that(1) by simp
    qed simp
    moreover have "bearers_current sha ?q t"
      using cur Some unfolding bearers_current_def by (auto simp del: map_of_eq_Some_iff split: if_splits)
    moreover have "fst (pairing_poll now d p) \<in> {?p, ?q}"
      using Some by (auto simp: pairing_poll_def Let_def split: option.split pair_decision.split)
    ultimately show ?thesis using inv cur by auto
  qed
qed


section \<open>The state machine\<close>

text \<open>
  The pairing service beside a transport that takes any step that keeps the credential verifiers:
  only pairing itself publishes trust records, and the lemmas below say that every other operation
  on them keeps the verifier.
\<close>

record pg_world =
  pw :: pairing
  pw_transport :: transport

inductive pg_step :: "(ustr \<Rightarrow> ustr) \<Rightarrow> pg_world \<Rightarrow> pg_world \<Rightarrow> bool" for sha where
  pg_start: "start_pairing now ds us request (pw w) = Some (p, res) \<Longrightarrow> pg_step sha w (w\<lparr>pw := p\<rparr>)"
| pg_lookup: "pg_step sha w (w\<lparr>pw := fst (lookup_user_code now code (pw w))\<rparr>)"
| pg_decide: "(\<And>t. verifiers (env t) = verifiers t) \<Longrightarrow>
    decide sha now wall credential ids io env request (pw w, pw_transport w) = Some ((p, t), cbs, res) \<Longrightarrow>
    pg_step sha w (w\<lparr>pw := p, pw_transport := t\<rparr>)"
| pg_poll: "pg_step sha w (w\<lparr>pw := fst (pairing_poll now device (pw w))\<rparr>)"
| pg_proof: "pg_step sha w (w\<lparr>pw := complete_authenticated_proof now eid credential (pw w)\<rparr>)"
| pg_clear: "pg_step sha w (w\<lparr>pw := clear_executor_delivery now eid (pw w)\<rparr>)"
| pg_close: "pg_step sha w (w\<lparr>pw := pairing_close (pw w)\<rparr>)"
| pg_count: "pg_step sha w (w\<lparr>pw := fst (attempt_count now (pw w))\<rparr>)"
| pg_env: "verifiers t = verifiers (pw_transport w) \<Longrightarrow> pg_step sha w (w\<lparr>pw_transport := t\<rparr>)"

definition pg_init :: "pg_world \<Rightarrow> bool" where
  "pg_init w \<longleftrightarrow> (\<exists>m ttl i sl cl. new_pairing m ttl i sl cl = Some (pw w))"

definition pg_inv :: "(ustr \<Rightarrow> ustr) \<Rightarrow> pg_world \<Rightarrow> bool" where
  "pg_inv sha w \<longleftrightarrow> pairing_inv (pw w) \<and> bearers_current sha (pw w) (pw_transport w)"

lemma mutate_verifiers:
  assumes "\<And>r r'. f r = Inr r' \<Longrightarrow> credential_verifier r' = credential_verifier r"
  shows "map_option credential_verifier (map_of (cs_executors (fst (mutate_executor io i f s))) e) =
    map_option credential_verifier (map_of (cs_executors s) e)"
  using assms by (auto simp: mutate_executor_def publish_executors_def write_executors_def
      split: option.splits sum.splits prod.splits if_splits)

lemma rename_verifiers: "verifiers (fst (transport_rename io i n t)) = verifiers t"
proof -
  have "map_option credential_verifier (map_of (cs_executors (fst (rename_executor io i n (xt_control t)))) e) =
      map_option credential_verifier (map_of (cs_executors (xt_control t)) e)" for e
    unfolding rename_executor_def by (rule mutate_verifiers) auto
  then show ?thesis
    by (auto simp: transport_rename_def verifiers_def fun_eq_iff split: prod.split sum.split)
qed

lemma revoke_verifiers: "verifiers (fst (transport_revoke io i instant t)) = verifiers t"
proof -
  have "map_option credential_verifier (map_of (cs_executors (fst (revoke_executor io i instant (xt_control t)))) e) =
      map_option credential_verifier (map_of (cs_executors (xt_control t)) e)" for e
    unfolding revoke_executor_def by (rule mutate_verifiers) auto
  then show ?thesis
    by (auto simp: transport_revoke_def verifiers_def Let_def fun_eq_iff split: prod.split sum.split)
qed

lemma draining_verifiers:
  "verifiers (t\<lparr>xt_control := fst (set_executor_draining io i b (xt_control t))\<rparr>) = verifiers t"
proof -
  have "map_option credential_verifier (map_of (cs_executors (fst (set_executor_draining io i b (xt_control t)))) e) =
      map_option credential_verifier (map_of (cs_executors (xt_control t)) e)" for e
    unfolding set_executor_draining_def by (rule mutate_verifiers) (auto split: if_splits)
  then show ?thesis by (simp add: verifiers_def fun_eq_iff)
qed

lemma bearers_current_sub:
  assumes "bearers_current sha p t"
    and "\<And>d a. map_of (pg_attempts q) d = Some a \<Longrightarrow>
      at_executor_id a = None \<or> (\<exists>d. map_of (pg_attempts p) d = Some a)"
  shows "bearers_current sha q t"
  unfolding bearers_current_def
proof (intro allI impI)
  fix d a e c
  assume a: "map_of (pg_attempts q) d = Some a" "at_executor_id a = Some e" "at_credential a = Some c"
  with assms(2) [OF a(1)] obtain d' where "map_of (pg_attempts p) d' = Some a" by auto
  with a assms(1) show "verifiers t e = Some (executor_credential_verifier sha c)"
    unfolding bearers_current_def by blast
qed

lemma remove_where_sub:
  "pairing_inv p \<Longrightarrow> map_of (pg_attempts (remove_where dead p)) d = Some a \<Longrightarrow> map_of (pg_attempts p) d = Some a"
  by (auto simp: remove_where_lookup simp del: map_of_eq_Some_iff split: option.splits if_splits)

lemma prune_sub:
  "pairing_inv p \<Longrightarrow> map_of (pg_attempts (prune_expired now p)) d = Some a \<Longrightarrow> map_of (pg_attempts p) d = Some a"
  unfolding prune_expired_def by (rule remove_where_sub)

lemma start_pairing_sub:
  assumes "pairing_inv p" and "start_pairing now ds us request p = Some (p', res)"
    and "map_of (pg_attempts p') d = Some a"
  shows "at_executor_id a = None \<or> map_of (pg_attempts p) d = Some a"
proof -
  have sub: "map_of (pg_attempts (prune_expired now p)) d = Some a \<Longrightarrow> map_of (pg_attempts p) d = Some a"
    by (rule prune_sub [OF assms(1)])
  from assms(2,3) show ?thesis
    by (auto simp: start_pairing_def Let_def simp del: map_of_eq_Some_iff
        split: prod.splits if_splits option.splits dest!: sub)
qed

lemma lookup_user_code_attempts:
  "pg_attempts (fst (lookup_user_code now code p)) = pg_attempts (prune_expired now p)"
  by (auto simp: lookup_user_code_def Let_def split: prod.split sum.split)

lemma pg_inv_step:
  assumes "pg_inv sha w" and "pg_step sha w w'"
  shows "pg_inv sha w'"
proof -
  from assms(1) have inv: "pairing_inv (pw w)" and cur: "bearers_current sha (pw w) (pw_transport w)"
    by (simp_all add: pg_inv_def)
  note removed = bearers_current_sub [OF cur]
  have pinv: "pairing_inv (prune_expired now (pw w))" for now by (rule prune_inv [OF inv])
  from assms(2) show ?thesis
  proof cases
    case (pg_start now ds us request p res)
    then have "bearers_current sha p (pw_transport w)"
      using start_pairing_sub [OF inv pg_start(2)] by (intro removed) blast
    with pg_start start_pairing_inv [OF inv pg_start(2)] show ?thesis by (simp add: pg_inv_def)
  next
    case (pg_lookup now code)
    have "bearers_current sha (fst (lookup_user_code now code (pw w))) (pw_transport w)"
      using prune_sub [OF inv] by (intro removed) (auto simp: lookup_user_code_attempts simp del: map_of_eq_Some_iff)
    with pg_lookup lookup_user_code_inv [OF inv] show ?thesis by (simp add: pg_inv_def)
  next
    case (pg_decide env now wall credential ids io request p t cbs res)
    with decide_inv [OF inv cur pg_decide(2,3)] show ?thesis by (simp add: pg_inv_def)
  next
    case (pg_poll now device)
    with pairing_poll_inv [OF inv cur] show ?thesis by (simp add: pg_inv_def)
  next
    case (pg_proof now eid credential)
    have "bearers_current sha (complete_authenticated_proof now eid credential (pw w)) (pw_transport w)"
      unfolding complete_authenticated_proof_def
      using remove_where_sub [OF pinv] prune_sub [OF inv] by (intro removed) blast
    with pg_proof pinv show ?thesis by (simp add: pg_inv_def complete_authenticated_proof_def remove_where_inv)
  next
    case (pg_clear now eid)
    have "bearers_current sha (clear_executor_delivery now eid (pw w)) (pw_transport w)"
      unfolding clear_executor_delivery_def
      using remove_where_sub [OF pinv] prune_sub [OF inv] by (intro removed) blast
    with pg_clear pinv show ?thesis by (simp add: pg_inv_def clear_executor_delivery_def remove_where_inv)
  next
    case pg_close
    then show ?thesis by (simp add: pg_inv_def pairing_close_def pairing_inv_def bearers_current_def)
  next
    case (pg_count now)
    have "bearers_current sha (prune_expired now (pw w)) (pw_transport w)"
      using prune_sub [OF inv] by (intro removed) blast
    with pg_count pinv show ?thesis by (simp add: pg_inv_def attempt_count_def Let_def)
  next
    case (pg_env t)
    with inv cur show ?thesis by (simp add: pg_inv_def bearers_current_def)
  qed
qed

lemma pg_inv_init: "pg_init w \<Longrightarrow> pg_inv sha w"
proof -
  assume "pg_init w"
  then have "pg_attempts (pw w) = [] \<and> pg_device_by_code (pw w) = [] \<and> pg_start_events (pw w) = [] \<and>
      pg_code_events (pw w) = []"
    by (auto simp: pg_init_def new_pairing_def split: if_splits dest!: sym [of _ "pw w"])
  then show "pg_inv sha w" by (simp add: pg_inv_def pairing_inv_def bearers_current_def)
qed

interpretation pairing_machine: invariant_machine pg_init "pg_step sha" "pg_inv sha" for sha
  by unfold_locales (fact pg_inv_init, fact pg_inv_step)


section \<open>Correctness of pairing\<close>

text \<open>
  Bookkeeping of pairing. In every reachable state the index from user codes is exactly the
  inverse of the live attempts, the number of attempts is within its bound, an attempt holds a
  bearer exactly when it was approved, and no two attempts hold a bearer for the same executor.
\<close>

theorem pairing_bookkeeping:
  assumes "reach pg_init (pg_step sha) w"
  shows "(\<forall>u d. map_of (pg_device_by_code (pw w)) u = Some d \<longleftrightarrow>
      (\<exists>a. map_of (pg_attempts (pw w)) d = Some a \<and> at_user_code a = u)) \<and>
    length (pg_attempts (pw w)) \<le> pg_max_pending (pw w) \<and>
    length (pg_start_events (pw w)) \<le> pg_start_limit (pw w) \<and>
    length (pg_code_events (pw w)) \<le> pg_code_limit (pw w) \<and>
    (\<forall>d a. map_of (pg_attempts (pw w)) d = Some a \<longrightarrow>
       (at_credential a \<noteq> None \<longleftrightarrow> at_decision a = Some APPROVE)) \<and>
    (\<forall>d d' a a' e. map_of (pg_attempts (pw w)) d = Some a \<longrightarrow> map_of (pg_attempts (pw w)) d' = Some a' \<longrightarrow>
       at_executor_id a = Some e \<longrightarrow> at_executor_id a' = Some e \<longrightarrow> d' = d)"
proof -
  have inv: "pairing_inv (pw w)" using pairing_machine.reach_inv [OF assms] by (simp add: pg_inv_def)
  note D = pairing_invD [OF inv]
  have "at_credential a \<noteq> None \<longleftrightarrow> at_decision a = Some APPROVE" if "map_of (pg_attempts (pw w)) d = Some a" for d a
    using D(5) [OF that] by (simp add: delivery_ok_def)
  moreover have "map_of (pg_device_by_code (pw w)) u = Some d \<longleftrightarrow>
      (\<exists>a. map_of (pg_attempts (pw w)) d = Some a \<and> at_user_code a = u)" for u d
    using D(4,6) by blast
  ultimately show ?thesis using D(7-9) D(10) by blast
qed

lemma pairing_poll_Inr:
  assumes "pairing_inv p" and "pairing_poll now d p = (p', Inr (eid, c))"
  obtains a where "map_of (pg_attempts p) d = Some a" "now < at_expires_at a" "at_next_poll_at a \<le> now"
    "at_decision a = Some APPROVE" "at_executor_id a = Some eid" "at_credential a = Some c"
    "map_of (pg_attempts p') d = Some (a\<lparr>at_next_poll_at := now + of_int (pg_poll_interval p)\<rparr>)"
    "pg_poll_interval p' = pg_poll_interval p"
proof -
  from assms(2) obtain a where a: "map_of (pg_attempts (prune_expired now p)) d = Some a"
    "at_next_poll_at a \<le> now" "at_decision a = Some APPROVE" "at_executor_id a = Some eid" "at_credential a = Some c"
    "p' = (prune_expired now p)\<lparr>pg_attempts :=
      AList.update d (a\<lparr>at_next_poll_at := now + of_int (pg_poll_interval p)\<rparr>) (pg_attempts (prune_expired now p))\<rparr>"
    by (auto simp: pairing_poll_def Let_def prune_expired_def simp del: map_of_eq_Some_iff
        split: option.splits pair_decision.splits if_splits)
  moreover from a(1) have "map_of (pg_attempts p) d = Some a" "now < at_expires_at a"
    by (auto simp: prune_expired_def remove_where_lookup [OF assms(1)] simp del: map_of_eq_Some_iff
        split: option.splits if_splits)
  ultimately show thesis using that by (simp add: prune_expired_def)
qed

text \<open>
  C10. Pairing hands out live credentials only, and delivery can be retried. Whenever a poll returns
  a bearer for an executor, in whatever reachable state, the attempt was approved and has not
  expired, the trust record of that executor carries exactly the verifier of this bearer, and a
  further poll of the same device after the poll interval and before the expiry returns the same
  executor and the same bearer.
\<close>

theorem delivered_bearer_is_current:
  assumes "reach pg_init (pg_step sha) w" and "pairing_poll now d (pw w) = (p', Inr (eid, c))"
  shows "\<exists>a. map_of (pg_attempts (pw w)) d = Some a \<and> at_decision a = Some APPROVE \<and> now < at_expires_at a \<and>
    (\<exists>r. map_of (cs_executors (xt_control (pw_transport w))) eid = Some r \<and>
       executor_credential_matches sha c (credential_verifier r)) \<and>
    (\<forall>now'. now + of_int (pg_poll_interval (pw w)) \<le> now' \<longrightarrow> now' < at_expires_at a \<longrightarrow>
       snd (pairing_poll now' d p') = Inr (eid, c))"
proof -
  have inv: "pairing_inv (pw w)" and cur: "bearers_current sha (pw w) (pw_transport w)"
    using pairing_machine.reach_inv [OF assms(1)] by (simp_all add: pg_inv_def)
  obtain a where a: "map_of (pg_attempts (pw w)) d = Some a" "now < at_expires_at a"
    "at_decision a = Some APPROVE" "at_executor_id a = Some eid" "at_credential a = Some c"
    "map_of (pg_attempts p') d = Some (a\<lparr>at_next_poll_at := now + of_int (pg_poll_interval (pw w))\<rparr>)"
    by (rule pairing_poll_Inr [OF inv assms(2)]) blast
  have inv': "pairing_inv p'" using pairing_poll_inv [OF inv cur, of now d] assms(2) by simp
  from cur a have "verifiers (pw_transport w) eid = Some (executor_credential_verifier sha c)"
    unfolding bearers_current_def by blast
  then have "\<exists>r. map_of (cs_executors (xt_control (pw_transport w))) eid = Some r \<and>
       executor_credential_matches sha c (credential_verifier r)"
    by (auto simp: verifiers_def)
  moreover have "snd (pairing_poll now' d p') = Inr (eid, c)"
    if "now + of_int (pg_poll_interval (pw w)) \<le> now'" "now' < at_expires_at a" for now'
    using a that by (simp add: pairing_poll_def Let_def prune_expired_def remove_where_lookup [OF inv'] del: map_of_eq_Some_iff)
  ultimately show ?thesis using a by blast
qed

text \<open>
  An owner decision is final and is applied once. After a decision has returned, as long as the
  attempt is live, deciding again on the same user code publishes no trust record, runs no callback
  and changes nothing but the sweep of expired attempts: the same decision returns the same
  executor, the opposite one is refused.
\<close>

theorem decision_is_final:
  assumes "reach pg_init (pg_step sha) w" and "\<And>t. verifiers (env t) = verifiers t"
    and "decide sha now wall credential ids io env request (pw w, pw_transport w) = Some ((p, t), cbs, Inr v)"
    and "attempt_for_user_code (apr_user_code request) (prune_expired now' p) = Inr a'"
    and "apr_user_code request' = apr_user_code request"
  shows "decide sha now' wall' credential' ids' io' env' request' (p, t) =
      Some ((prune_expired now' p, t), [],
        if apr_decision request' = apr_decision request then Inr (view a' now')
        else Inl (PairingError PAIRING_DENIED)) \<and>
    av_executor_id (view a' now') = av_executor_id v \<and> av_status (view a' now') = av_status v"
proof -
  have inv0: "pairing_inv (pw w)" and cur0: "bearers_current sha (pw w) (pw_transport w)"
    using pairing_machine.reach_inv [OF assms(1)] by (simp_all add: pg_inv_def)
  have inv: "pairing_inv p" using decide_inv [OF inv0 cur0 assms(2,3)] by blast
  let ?u = "apr_user_code request"
  note a' = attempt_for_user_code_Inr [OF prune_inv [OF inv] assms(4)]
  have live: "map_of (pg_attempts p) (at_device_code a') = Some a'"
    using prune_sub [OF inv] a' by blast
  have unique: "a' = b" if "map_of (pg_attempts p) d = Some b" "at_user_code b = ?u" for d b
    using pairing_invD(4) [OF inv live] pairing_invD(4) [OF inv that(1)] a' that live by auto
  have "at_decision a' = Some (apr_decision request) \<and> av_executor_id (view a' now') = av_executor_id v \<and>
      av_status (view a' now') = av_status v"
    using assms(3)
  proof (cases rule: decide_cases)
    case (decided a)
    have "map_of (pg_attempts p) (at_device_code a) = Some a" "at_user_code a = ?u"
      using attempt_for_user_code_Inr [OF prune_inv [OF inv0] decided(1)] decided(3) by simp_all
    with unique have "a' = a" by blast
    with decided show ?thesis by (auto simp: view_def split: if_splits)
  next
    case (denied a)
    have "at_user_code a = ?u" using attempt_for_user_code_Inr [OF prune_inv [OF inv0] denied(1)] by simp
    with denied(5) have "a' = a\<lparr>at_decision := Some DENY\<rparr>" by (intro unique [of "at_device_code a"]) simp_all
    with denied show ?thesis by (simp add: view_def)
  next
    case (approved a eid name q)
    have "at_user_code a = ?u" using attempt_for_user_code_Inr [OF prune_inv [OF inv0] approved(1)] by simp
    with approved(6) have "a' = a\<lparr>at_decision := Some APPROVE, at_executor_id := Some eid, at_name := Some name,
        at_credential := Some credential\<rparr>"
      by (intro unique [of "at_device_code a"]) simp_all
    with approved show ?thesis by (simp add: view_def)
  qed simp_all
  moreover from this have "at_decision a' = Some (apr_decision request') \<longleftrightarrow> apr_decision request' = apr_decision request"
    by auto
  ultimately show ?thesis using assms(4,5) by (simp add: decide_def Let_def)
qed

text \<open>
  Bearers are erased as soon as they are not needed. After an authenticated proof no attempt
  holds the proven bearer, and after the owner has fenced an executor none holds any bearer for it,
  so that no later poll can return it; every other live attempt is kept as it was.
\<close>

theorem bearers_are_erased:
  assumes "reach pg_init (pg_step sha) w"
  shows "(\<forall>d now'. snd (pairing_poll now' d (complete_authenticated_proof now eid c (pw w))) \<noteq> Inr (eid, c)) \<and>
    (\<forall>d now' c'. snd (pairing_poll now' d (clear_executor_delivery now eid (pw w))) \<noteq> Inr (eid, c')) \<and>
    (\<forall>d a. map_of (pg_attempts (pw w)) d = Some a \<longrightarrow> now < at_expires_at a \<longrightarrow>
       (at_executor_id a \<noteq> Some eid \<longrightarrow>
          map_of (pg_attempts (clear_executor_delivery now eid (pw w))) d = Some a) \<and>
       (at_executor_id a \<noteq> Some eid \<or> at_credential a \<noteq> Some c \<longrightarrow>
          map_of (pg_attempts (complete_authenticated_proof now eid c (pw w))) d = Some a))"
proof -
  have inv: "pairing_inv (pw w)" using pairing_machine.reach_inv [OF assms] by (simp add: pg_inv_def)
  note pinv = prune_inv [OF inv, of now]
  have proof_at: "map_of (pg_attempts (complete_authenticated_proof now eid c (pw w))) d =
      (case map_of (pg_attempts (prune_expired now (pw w))) d of None \<Rightarrow> None
       | Some a \<Rightarrow> if at_executor_id a = Some eid \<and> at_credential a = Some c then None else Some a)"
    and clear_at: "map_of (pg_attempts (clear_executor_delivery now eid (pw w))) d =
      (case map_of (pg_attempts (prune_expired now (pw w))) d of None \<Rightarrow> None
       | Some a \<Rightarrow> if at_executor_id a = Some eid \<and> at_credential a \<noteq> None then None else Some a)" for d
    by (simp_all add: complete_authenticated_proof_def clear_executor_delivery_def remove_where_lookup [OF pinv]
        cong: option.case_cong)
  have invs: "pairing_inv (complete_authenticated_proof now eid c (pw w))"
    "pairing_inv (clear_executor_delivery now eid (pw w))"
    by (simp_all add: complete_authenticated_proof_def clear_executor_delivery_def remove_where_inv pinv)
  have "snd (pairing_poll now' d (complete_authenticated_proof now eid c (pw w))) \<noteq> Inr (eid, c)" for d now'
  proof
    assume "snd (pairing_poll now' d (complete_authenticated_proof now eid c (pw w))) = Inr (eid, c)"
    then show False
      by (rule pairing_poll_Inr [OF invs(1) surjective_pairing [THEN trans, OF arg_cong [where f = "Pair _"]]])
        (auto simp: proof_at simp del: map_of_eq_Some_iff split: option.splits if_splits)
  qed
  moreover have "snd (pairing_poll now' d (clear_executor_delivery now eid (pw w))) \<noteq> Inr (eid, c')" for d now' c'
  proof
    assume "snd (pairing_poll now' d (clear_executor_delivery now eid (pw w))) = Inr (eid, c')"
    then show False
      by (rule pairing_poll_Inr [OF invs(2) surjective_pairing [THEN trans, OF arg_cong [where f = "Pair _"]]])
        (auto simp: clear_at simp del: map_of_eq_Some_iff split: option.splits if_splits)
  qed
  moreover have "map_of (pg_attempts (prune_expired now (pw w))) d = Some a"
    if "map_of (pg_attempts (pw w)) d = Some a" "now < at_expires_at a" for d a
    using that by (simp add: prune_expired_def remove_where_lookup [OF inv] del: map_of_eq_Some_iff)
  ultimately show ?thesis by (auto simp: proof_at clear_at simp del: map_of_eq_Some_iff)
qed


section \<open>The rate window\<close>

text \<open>A sequence of requests through the window, and the reference: count the whole history.\<close>

fun admitted :: "nat \<Rightarrow> time list \<Rightarrow> time list \<Rightarrow> time list" where
  "admitted limit events [] = []"
| "admitted limit events (now # rest) =
     (case admit_rate events now limit of
        (events', ok) \<Rightarrow> if ok then now # admitted limit events' rest else admitted limit events' rest)"

fun admitted_ref :: "nat \<Rightarrow> time list \<Rightarrow> time list \<Rightarrow> time list" where
  "admitted_ref limit past [] = []"
| "admitted_ref limit past (now # rest) =
     (if length (filter (\<lambda>e. now - rate_window < e) past) < limit
      then now # admitted_ref limit (past @ [now]) rest
      else admitted_ref limit past rest)"

lemma dropWhile_sorted: "sorted xs \<Longrightarrow> dropWhile (\<lambda>e. e \<le> k) xs = filter (\<lambda>e. (k :: time) < e) xs"
proof (induction xs)
  case (Cons x xs)
  show ?case
  proof (cases "x \<le> k")
    case False
    with Cons.prems have "filter (\<lambda>e. k < e) xs = xs" by (auto intro!: filter_True)
    with False show ?thesis by simp
  qed (use Cons in simp)
qed simp

lemma admitted_ref_eq:
  assumes "sorted (past @ nows)" and "events = filter (\<lambda>e. c < e) past" and "\<forall>n\<in>set nows. c \<le> n - rate_window"
  shows "admitted limit events nows = admitted_ref limit past nows"
  using assms
proof (induction nows arbitrary: past events c)
  case (Cons now nows)
  have past: "sorted past" and le: "\<forall>e\<in>set past. e \<le> now" and c: "c \<le> now - rate_window"
    using Cons.prems(1,3) by (auto simp: sorted_append)
  have "sorted events" using past Cons.prems(2) by (simp add: sorted_wrt_filter)
  then have drop: "dropWhile (\<lambda>e. e \<le> now - rate_window) events = filter (\<lambda>e. now - rate_window < e) past"
    using c Cons.prems(2) by (auto simp: dropWhile_sorted intro!: filter_cong)
  have later: "\<forall>n\<in>set nows. now - rate_window \<le> n - rate_window" using Cons.prems(1) by (auto simp: sorted_append)
  have new: "filter (\<lambda>e. now - rate_window < e) past @ [now] = filter (\<lambda>e. now - rate_window < e) (past @ [now])"
    by (simp add: rate_window_def)
  have "sorted ((past @ [now]) @ nows)" using Cons.prems(1) by simp
  note keep = Cons.IH [OF this new later]
  have "sorted (past @ nows)" using Cons.prems(1) by (auto simp: sorted_append)
  note skip = Cons.IH [OF this refl later]
  show ?case using drop keep skip by (simp add: admit_rate_def Let_def)
qed simp

lemma admitted_ref_bound:
  assumes "sorted (past @ nows)" and "\<forall>t. length (filter (\<lambda>e. t - rate_window < e \<and> e \<le> t) past) \<le> limit"
  shows "length (filter (\<lambda>e. t - rate_window < e \<and> e \<le> t) (past @ admitted_ref limit past nows)) \<le> limit"
  using assms
proof (induction nows arbitrary: past)
  case (Cons now nows)
  have le: "\<forall>e\<in>set past. e \<le> now" using Cons.prems(1) by (auto simp: sorted_append)
  show ?case
  proof (cases "length (filter (\<lambda>e. now - rate_window < e) past) < limit")
    case True
    have "length (filter (\<lambda>e. t - rate_window < e \<and> e \<le> t) (past @ [now])) \<le> limit" for t
    proof (cases "now \<le> t")
      case True
      have "length (filter (\<lambda>e. t - rate_window < e \<and> e \<le> t) past) =
          length (filter (\<lambda>e. t - rate_window < e \<and> e \<le> t) (filter (\<lambda>e. now - rate_window < e) past))"
        using True by (auto simp: filter_filter intro!: arg_cong [where f = length] filter_cong)
      also have "\<dots> \<le> length (filter (\<lambda>e. now - rate_window < e) past)" by (rule length_filter_le)
      finally show ?thesis using \<open>length (filter (\<lambda>e. now - rate_window < e) past) < limit\<close> by simp
    next
      case False
      then show ?thesis using Cons.prems(2) by simp
    qed
    with Cons.IH [of "past @ [now]"] Cons.prems(1) True show ?thesis by simp
  next
    case False
    moreover have "sorted (past @ nows)" using Cons.prems(1) by (auto simp: sorted_append)
    ultimately show ?thesis using Cons.IH [of past] Cons.prems(2) by simp
  qed
qed simp

text \<open>
  C11. The rate window throttles exactly. For requests that arrive in clock order, the queue of
  recent events admits exactly the requests a count over the whole history of admissions would
  admit, and no window of sixty seconds ever holds more admissions than the limit.
\<close>

theorem rate_window_exact:
  assumes "sorted nows"
  shows "admitted limit [] nows = admitted_ref limit [] nows \<and>
    length (filter (\<lambda>e. t - rate_window < e \<and> e \<le> t) (admitted limit [] nows)) \<le> limit"
proof -
  define c where "c = (case nows of [] \<Rightarrow> 0 | n # _ \<Rightarrow> n - rate_window)"
  have "\<forall>n\<in>set nows. c \<le> n - rate_window" using assms by (cases nows) (auto simp: c_def)
  then have "admitted limit [] nows = admitted_ref limit [] nows"
    using assms by (intro admitted_ref_eq [of "[]" nows "[]" c]) simp_all
  with admitted_ref_bound [of "[]" nows limit t] assms show ?thesis by simp
qed

theorem rate_window_exact_witness:
  "admitted 2 [] [0, 10, 20, 61, 65] = [0, 10, 61] \<and>
   length (filter (\<lambda>e. 65 - rate_window < e \<and> e \<le> 65) (admitted 2 [] [0, 10, 20, 61, 65])) \<le> 2"
  using rate_window_exact [of "[0, 10, 20, 61, 65]" 2 65] by (simp add: admit_rate_def rate_window_def)

text \<open>
  A long host name cannot be approved. A pairing request that carries no name and a host name of
  more than 80 characters, which the message format allows up to 255, is admitted and shown to the
  owner, but an approval that gives no name either always fails with an invalid trust record and
  leaves the attempt pending, whatever identity is drawn.
\<close>

theorem long_hostname_blocks_approval:
  assumes "attempt_for_user_code (apr_user_code request) (prune_expired now p) = Inr a" and "at_decision a = None"
    and "requested_name (at_request a) = None" and "md_hostname (psr_metadata (at_request a)) = Some host"
    and "80 < length host"
    and "apr_decision request = APPROVE" and "apr_name request = None" and "replace_executor_id request = None"
    and "draw_fresh ids (dict_keys (cs_executors (xt_control t))) = Some eid"
  shows "decide sha now wall credential ids io env request (p, t) =
    Some ((prune_expired now p, t), [], Inl PairingInvalidRecord)"
proof -
  have "approved_name request a = host"
    using assms(3-5,7) by (auto simp: approved_name_def truthy_def)
  then have "approve_trust sha wall credential ids io env request a t = Some (t, [], Inl PairingInvalidRecord)"
    using assms(5,8,9) by (simp add: approve_trust_def Let_def executor_ok_def)
  with assms(1,2,6) show ?thesis by (simp add: decide_def Let_def)
qed


section \<open>A concrete run\<close>

definition demo_request :: "ustr option \<Rightarrow> ustr \<Rightarrow> pair_start_request" where
  "demo_request name host = \<lparr>requested_name = name, existing_executor_id = None,
     psr_metadata = \<lparr>md_hostname = Some host, md_platform = None, md_build = None\<rparr>\<rparr>"

definition demo_approval :: pair_approval_request where
  "demo_approval = \<lparr>apr_user_code = lit ''u'', apr_decision = APPROVE, replace_executor_id = None, apr_name = None\<rparr>"

definition demo_eid2 :: ustr where
  "demo_eid2 = lit ''exec_bbbbbbbbbbbbbbbbbbbbbb''"

definition demo_pg_new :: pg_world where
  "demo_pg_new = \<lparr>pw = the (new_pairing 2 600 2 30 60), pw_transport = xt demo_ready\<rparr>"

definition demo_attempt :: attempt where
  "demo_attempt = \<lparr>at_request = demo_request (Some (lit ''lab'')) (lit ''h''), at_user_code = lit ''u'',
     at_expires_at = 600, at_device_code = lit ''d'', at_next_poll_at = 0, at_decision = None,
     at_executor_id = None, at_name = None, at_credential = None\<rparr>"

definition demo_pg_asked :: pg_world where
  "demo_pg_asked = demo_pg_new\<lparr>pw := (pw demo_pg_new)\<lparr>pg_start_events := [0],
     pg_attempts := [(lit ''d'', demo_attempt)], pg_device_by_code := [(lit ''u'', lit ''d'')]\<rparr>\<rparr>"

definition demo_decision where
  "demo_decision = decide demo_sha 10 10 (lit ''k'') [demo_eid2] demo_write id demo_approval
     (pw demo_pg_asked, pw_transport demo_pg_asked)"

definition demo_approved :: attempt where
  "demo_approved = demo_attempt\<lparr>at_decision := Some APPROVE, at_executor_id := Some demo_eid2,
     at_name := Some (lit ''lab''), at_credential := Some (lit ''k'')\<rparr>"

definition demo_pg_approved :: pg_world where
  "demo_pg_approved = demo_pg_asked\<lparr>pw := (pw demo_pg_asked)\<lparr>pg_attempts := [(lit ''d'', demo_approved)]\<rparr>,
     pw_transport := snd (fst (the demo_decision))\<rparr>"

lemma demo_new_fields: "pw demo_pg_new = \<lparr>pg_max_pending = 2, pg_ttl = 600, pg_poll_interval = 2, pg_start_limit = 30,
    pg_code_limit = 60, pg_attempts = [], pg_device_by_code = [], pg_start_events = [], pg_code_events = []\<rparr>"
  "pw_transport demo_pg_new = xt demo_ready"
  by (simp_all add: demo_pg_new_def new_pairing_def)

lemma demo_asked_reach: "reach pg_init (pg_step demo_sha) demo_pg_asked"
proof (rule reach_step)
  have "new_pairing 2 600 2 30 60 = Some (pw demo_pg_new)" by (simp add: demo_new_fields new_pairing_def)
  then have "\<exists>m ttl i sl cl. new_pairing m ttl i sl cl = Some (pw demo_pg_new)" by blast
  then show "reach pg_init (pg_step demo_sha) demo_pg_new" by (intro reach_init) (simp add: pg_init_def)
  have "start_pairing 0 [lit ''d''] [lit ''u''] (demo_request (Some (lit ''lab'')) (lit ''h'')) (pw demo_pg_new) =
      Some (pw demo_pg_asked, Inr \<lparr>resp_device_code = lit ''d'', resp_user_code = lit ''u'', resp_expires_in = 600,
        resp_poll_interval = 2\<rparr>)"
    by (simp add: start_pairing_def Let_def demo_pg_asked_def demo_new_fields prune_expired_def remove_where_def
        admit_rate_def demo_attempt_def)
  from pg_step.pg_start [OF this] show "pg_step demo_sha demo_pg_new demo_pg_asked"
    by (simp add: demo_pg_asked_def)
qed

lemma demo_eid2_ok: "executor_id_ok demo_eid2" "demo_eid2 \<noteq> demo_eid"
  by (simp_all add: demo_eid2_def executor_id_ok_def opaque_id_def starts_with_def is_token_char_def is_upper_def
      is_lower_def is_digit_def demo_executor_def)

lemma demo_prune [simp]:
  "now < 600 \<Longrightarrow> prune_expired now (pw demo_pg_asked) = pw demo_pg_asked"
  by (simp add: prune_expired_def remove_where_def demo_pg_asked_def demo_attempt_def)

lemma demo_record_ok:
  "executor_ok \<lparr>executor_id = demo_eid2, er_name = lit ''lab'',
     credential_verifier = executor_credential_verifier demo_sha (lit ''k''), er_created_at = 10,
     revoked_at = None, draining = False\<rparr>"
  using demo_eid2_ok by (simp add: executor_ok_def verifier_ok_def executor_credential_verifier_def demo_sha_def
      verifier_prefix_def starts_with_def is_hex_def list_all_iff)

lemma demo_decision_eq:
  "demo_decision = Some ((pw demo_pg_approved, pw_transport demo_pg_approved), [], Inr (view demo_approved 10))"
  "map_of (cs_executors (xt_control (pw_transport demo_pg_approved))) demo_eid2 \<noteq> None"
proof -
  have started: "require_started demo_paired"
    by simp
  have name: "approved_name demo_approval demo_attempt = lit ''lab''"
    by (simp add: approved_name_def demo_approval_def demo_attempt_def demo_request_def truthy_def)
  have "\<exists>ctl. put_executor demo_write \<lparr>executor_id = demo_eid2, er_name = lit ''lab'',
      credential_verifier = executor_credential_verifier demo_sha (lit ''k''), er_created_at = 10,
      revoked_at = None, draining = False\<rparr> demo_paired = (ctl, Inr ()) \<and> map_of (cs_executors ctl) demo_eid2 \<noteq> None"
    using started by (simp add: put_executor_def publish_executors_def write_executors_def demo_write_def
        write_registry_def write_json_def Let_def)
  then obtain ctl where put: "put_executor demo_write \<lparr>executor_id = demo_eid2, er_name = lit ''lab'',
      credential_verifier = executor_credential_verifier demo_sha (lit ''k''), er_created_at = 10,
      revoked_at = None, draining = False\<rparr> demo_paired = (ctl, Inr ())" "map_of (cs_executors ctl) demo_eid2 \<noteq> None"
    by blast
  have trust: "approve_trust demo_sha 10 (lit ''k'') [demo_eid2] demo_write id demo_approval demo_attempt (xt demo_ready) =
      Some ((xt demo_ready)\<lparr>xt_control := ctl\<rparr>, [], Inr (demo_eid2, lit ''lab''))"
    using put name demo_eid2_ok(2) demo_record_ok
    by (simp add: approve_trust_def Let_def demo_approval_def demo_ready_fields demo_paired_executors)
  have "decide demo_sha 10 10 (lit ''k'') [demo_eid2] demo_write id demo_approval
      (pw demo_pg_asked, pw_transport demo_pg_asked) =
    Some (((pw demo_pg_asked)\<lparr>pg_attempts := [(lit ''d'', demo_approved)]\<rparr>, (xt demo_ready)\<lparr>xt_control := ctl\<rparr>), [],
      Inr (view demo_approved 10))"
    using trust by (simp add: decide_def attempt_for_user_code_def demo_approval_def)
       (simp add: demo_pg_asked_def demo_attempt_def demo_new_fields drop_other_delivery_def remove_where_def
         demo_approved_def Let_def)
  then show "demo_decision = Some ((pw demo_pg_approved, pw_transport demo_pg_approved), [], Inr (view demo_approved 10))"
    "map_of (cs_executors (xt_control (pw_transport demo_pg_approved))) demo_eid2 \<noteq> None"
    using put(2) by (simp_all add: demo_decision_def demo_pg_approved_def)
qed


lemma demo_approved_reach: "reach pg_init (pg_step demo_sha) demo_pg_approved"
proof (rule reach_step [OF demo_asked_reach])
  have "\<And>t. verifiers (id t) = verifiers t" by simp
  from pg_step.pg_decide [OF this demo_decision_eq(1) [unfolded demo_decision_def]]
  show "pg_step demo_sha demo_pg_asked demo_pg_approved" by (simp add: demo_pg_approved_def)
qed

lemma demo_approved_poll:
  "pairing_poll 20 (lit ''d'') (pw demo_pg_approved) =
     ((pw demo_pg_approved)\<lparr>pg_attempts := [(lit ''d'', demo_approved\<lparr>at_next_poll_at := 22\<rparr>)]\<rparr>, Inr (demo_eid2, lit ''k''))"
  by (simp add: pairing_poll_def Let_def demo_pg_approved_def demo_pg_asked_def demo_approved_def demo_attempt_def
      prune_expired_def remove_where_def demo_new_fields)

theorem pairing_bookkeeping_witness:
  "map_of (pg_device_by_code (pw demo_pg_approved)) (lit ''u'') = Some (lit ''d'') \<and>
   length (pg_attempts (pw demo_pg_approved)) \<le> pg_max_pending (pw demo_pg_approved)"
  using pairing_bookkeeping [OF demo_approved_reach]
  by (simp add: demo_pg_approved_def demo_pg_asked_def demo_approved_def demo_attempt_def)

theorem delivered_bearer_is_current_witness:
  "\<exists>r. map_of (cs_executors (xt_control (pw_transport demo_pg_approved))) demo_eid2 = Some r \<and>
     executor_credential_matches demo_sha (lit ''k'') (credential_verifier r)"
  using delivered_bearer_is_current [OF demo_approved_reach demo_approved_poll] by blast

theorem bearers_are_erased_witness:
  "snd (pairing_poll 20 (lit ''d'') (pw demo_pg_approved)) = Inr (demo_eid2, lit ''k'') \<and>
   snd (pairing_poll 20 (lit ''d'') (complete_authenticated_proof 15 demo_eid2 (lit ''k'') (pw demo_pg_approved))) \<noteq>
     Inr (demo_eid2, lit ''k'')"
  using bearers_are_erased [OF demo_approved_reach, of 15 demo_eid2 "lit ''k''"] demo_approved_poll
  by auto

theorem decision_is_final_witness:
  "decide demo_sha 20 20 (lit ''k2'') [] demo_write id (demo_approval\<lparr>apr_decision := DENY\<rparr>)
     (pw demo_pg_approved, pw_transport demo_pg_approved) =
   Some ((prune_expired 20 (pw demo_pg_approved), pw_transport demo_pg_approved), [], Inl (PairingError PAIRING_DENIED))"
proof -
  have live: "attempt_for_user_code (apr_user_code demo_approval) (prune_expired 20 (pw demo_pg_approved)) = Inr demo_approved"
    by (simp add: attempt_for_user_code_def demo_approval_def demo_pg_approved_def demo_pg_asked_def demo_new_fields
        demo_approved_def demo_attempt_def prune_expired_def remove_where_def)
  have env: "\<And>t. verifiers (id t) = verifiers t" by simp
  show ?thesis
    using decision_is_final [OF demo_asked_reach env demo_decision_eq(1) [unfolded demo_decision_def] live,
        of "demo_approval\<lparr>apr_decision := DENY\<rparr>" 20 "lit ''k2''" "[]" demo_write id]
    by (simp add: demo_approval_def)
qed

definition demo_long :: pairing where
  "demo_long = (pw demo_pg_asked)\<lparr>pg_attempts :=
     [(lit ''d'', demo_attempt\<lparr>at_request := demo_request None (replicate 81 97)\<rparr>)]\<rparr>"

theorem long_hostname_blocks_approval_witness:
  "decide demo_sha 10 10 (lit ''k'') [demo_eid2] demo_write id demo_approval (demo_long, xt demo_ready) =
    Some ((prune_expired 10 demo_long, xt demo_ready), [], Inl PairingInvalidRecord)"
proof -
  have a: "attempt_for_user_code (apr_user_code demo_approval) (prune_expired 10 demo_long) =
      Inr (demo_attempt\<lparr>at_request := demo_request None (replicate 81 97)\<rparr>)"
    by (simp add: attempt_for_user_code_def demo_approval_def demo_long_def demo_pg_asked_def demo_new_fields
        demo_attempt_def prune_expired_def remove_where_def)
  have d: "draw_fresh [demo_eid2] (dict_keys (cs_executors (xt_control (xt demo_ready)))) = Some demo_eid2"
    using demo_eid2_ok by (simp add: demo_ready_fields demo_paired_executors)
  show ?thesis
    by (rule long_hostname_blocks_approval [OF a _ _ _ _ _ _ _ d, of "replicate 81 97"])
      (simp_all add: demo_attempt_def demo_request_def demo_approval_def)
qed

end
