(* ===== verification/Progress.thy ===== *)
theory Progress
  imports Pairing "HOL-Library.Sublist"
begin

text \<open>
  Progress of the control plane: the retry loops of a pairing request end, and a queued command moves
  towards delivery in every interleaving of the operations of \<open>Executor_Transport\<close>.
\<close>

section \<open>The retry loops of a pairing request\<close>

lemma draw_fresh_enough:
  assumes "length taken < n" and "n \<le> card (set draws)"
  shows "draw_fresh draws taken \<noteq> None"
proof
  assume "draw_fresh draws taken = None"
  then have "card (set draws) \<le> card (set taken)" by (intro card_mono) (simp_all add: draw_fresh_None)
  with assms card_length [of taken] show False by linarith
qed

text \<open>The index from user codes is no longer than the table of attempts.\<close>

lemma code_index_length:
  assumes inv: "pairing_inv p"
  shows "length (pg_device_by_code p) \<le> length (pg_attempts p)"
proof -
  have "set (dict_keys (pg_device_by_code p)) \<subseteq> set (map (at_user_code \<circ> snd) (pg_attempts p))"
  proof
    fix u
    assume "u \<in> set (dict_keys (pg_device_by_code p))"
    then obtain d where "map_of (pg_device_by_code p) u = Some d" by (metis dict_keys_iff not_None_eq)
    then obtain a where "map_of (pg_attempts p) d = Some a" "at_user_code a = u"
      using pairing_invD(6) [OF inv] by blast
    then show "u \<in> set (map (at_user_code \<circ> snd) (pg_attempts p))" by (force dest: map_of_SomeD)
  qed
  then have "card (set (dict_keys (pg_device_by_code p))) \<le> card (set (map (at_user_code \<circ> snd) (pg_attempts p)))"
    by (intro card_mono) simp_all
  also have "\<dots> \<le> length (pg_attempts p)" using card_length [of "map (at_user_code \<circ> snd) (pg_attempts p)"] by simp
  finally show ?thesis using distinct_card [OF pairing_invD(2) [OF inv]] by simp
qed

text \<open>
  A pairing request is always answered. In a reachable state the two loops that draw a device
  code and a user code until they find an unused one both end, as soon as the draws contain as many
  distinct values as the service admits attempts. The answer is a refusal for lack of capacity, which
  admits no attempt, or a pair of codes no other live attempt uses.
\<close>

theorem pairing_request_terminates:
  assumes "reach pg_init (pg_step sha) w"
    and "pg_max_pending (pw w) \<le> card (set devices)" and "pg_max_pending (pw w) \<le> card (set codes)"
  shows "case start_pairing now devices codes request (pw w) of
      None \<Rightarrow> False
    | Some (p, Inl e) \<Rightarrow> e = PairingError PAIRING_CAPACITY_EXHAUSTED \<and>
        pg_attempts p = pg_attempts (prune_expired now (pw w))
    | Some (p, Inr r) \<Rightarrow> length (pg_attempts p) \<le> pg_max_pending p \<and>
        map_of (pg_attempts (prune_expired now (pw w))) (resp_device_code r) = None \<and>
        map_of (pg_device_by_code (prune_expired now (pw w))) (resp_user_code r) = None \<and>
        map_of (pg_device_by_code p) (resp_user_code r) = Some (resp_device_code r)"
proof -
  let ?p = "prune_expired now (pw w)"
  have inv: "pairing_inv ?p"
    using pairing_machine.reach_inv [OF assms(1)] by (simp add: pg_inv_def prune_inv)
  obtain es ok where es: "admit_rate (pg_start_events ?p) now (pg_start_limit ?p) = (es, ok)" by fastforce
  show ?thesis
  proof (cases "ok \<and> length (pg_attempts ?p) < pg_max_pending ?p")
    case False
    with es show ?thesis by (auto simp: start_pairing_def Let_def)
  next
    case True
    have max: "pg_max_pending ?p = pg_max_pending (pw w)" by (simp add: prune_expired_def)
    obtain d where d: "draw_fresh devices (dict_keys (pg_attempts ?p)) = Some d"
      using draw_fresh_enough [of "dict_keys (pg_attempts ?p)" _ devices] True assms(2) max by fastforce
    obtain u where u: "draw_fresh codes (dict_keys (pg_device_by_code ?p)) = Some u"
      using draw_fresh_enough [of "dict_keys (pg_device_by_code ?p)" _ codes] code_index_length [OF inv]
        True assms(3) max by fastforce
    have fresh: "map_of (pg_attempts ?p) d = None" "map_of (pg_device_by_code ?p) u = None"
      by (rule unbounded.draw_fresh_key [OF d], rule unbounded.draw_fresh_key [OF u])
    have len: "length (AList.update d a (pg_attempts ?p)) = Suc (length (pg_attempts ?p))" for a
      using length_put_fresh [OF fresh(1)] .
    show ?thesis
      using True es d u by (simp add: start_pairing_def Let_def len fresh)
  qed
qed

theorem pairing_request_terminates_witness:
  "start_pairing 1 [lit ''d'', lit ''e''] [lit ''u'', lit ''v''] (demo_request None (lit ''h'')) (pw demo_pg_asked) \<noteq> None"
proof -
  have two: "pg_max_pending (pw demo_pg_asked) \<le> card (set [lit ''d'', lit ''e''])"
    "pg_max_pending (pw demo_pg_asked) \<le> card (set [lit ''u'', lit ''v''])"
    by (simp_all add: demo_pg_asked_def demo_new_fields)
  define res where "res = start_pairing 1 [lit ''d'', lit ''e''] [lit ''u'', lit ''v'']
    (demo_request None (lit ''h'')) (pw demo_pg_asked)"
  note always = pairing_request_terminates [OF demo_asked_reach two, of 1 "demo_request None (lit ''h'')", folded res_def]
  have "res \<noteq> None"
  proof
    assume "res = None"
    with always show False by (simp only: option.case)
  qed
  then show ?thesis unfolding res_def .
qed

section \<open>Delivery of queued commands\<close>

text \<open>The commands that were offered to one executor, latest first, and the commands queued before one.\<close>

definition offered_to :: "ustr \<Rightarrow> (ustr \<times> ustr) list \<Rightarrow> ustr list" where
  "offered_to eid offs = map fst (filter (\<lambda>x. snd x = eid) offs)"

definition ahead :: "ustr \<Rightarrow> ustr list \<Rightarrow> nat" where
  "ahead cid q = length (takeWhile (\<lambda>x. x \<noteq> cid) q)"

lemma offered_to_append [simp]: "offered_to eid (xs @ ys) = offered_to eid xs @ offered_to eid ys"
  by (simp add: offered_to_def)

lemma offered_to_Nil [simp]: "offered_to eid [] = []"
  by (simp add: offered_to_def)

lemma ahead_simps [simp]:
  "ahead cid [] = 0" "ahead cid (x # q) = (if x = cid then 0 else Suc (ahead cid q))"
  by (simp_all add: ahead_def)

lemma ahead_append [simp]: "cid \<in> set xs \<Longrightarrow> ahead cid (xs @ ys) = ahead cid xs"
  by (simp add: ahead_def)

lemma ahead_subseq:
  assumes "subseq xs q" and "distinct q" and "cid \<in> set xs"
  shows "ahead cid xs \<le> ahead cid q"
  using assms
proof induction
  case (list_emb_Cons xs ys y)
  then have "y \<noteq> cid" by (auto dest: list_emb_set)
  with list_emb_Cons show ?case by simp
qed auto

text \<open>
  What one step does to the queue of an executor: the head was offered and the others move up, or some
  commands left and none was offered; new commands, never issued before, are put behind. A command that
  stays keeps its entry of the table.
\<close>

definition queue_moves :: "ustr \<Rightarrow> xt_world \<Rightarrow> xt_world \<Rightarrow> bool" where
  "queue_moves eid u v \<longleftrightarrow>
     (\<exists>offs xs new. offers v = offs @ offers u \<and> ch_queue (channel_of eid (xt v)) = xs @ new \<and>
        (\<forall>x\<in>set new. map_of (issued u) x = None) \<and>
        (\<forall>x\<in>set xs. pending_at (xt v) eid x = pending_at (xt u) eid x) \<and>
        (offered_to eid offs = [] \<and> subseq xs (ch_queue (channel_of eid (xt u))) \<or>
         (\<exists>c. offered_to eid offs = [c] \<and> ch_queue (channel_of eid (xt u)) = c # xs))) \<and>
     (\<forall>x e. map_of (issued u) x = Some e \<longrightarrow> map_of (issued v) x = Some e)"

lemma queue_movesI:
  assumes "offers v = offs @ offers u" and "ch_queue (channel_of eid (xt v)) = xs @ new"
    and "\<And>x. x \<in> set new \<Longrightarrow> map_of (issued u) x = None"
    and "\<And>x. x \<in> set xs \<Longrightarrow> pending_at (xt v) eid x = pending_at (xt u) eid x"
    and "offered_to eid offs = [] \<and> subseq xs (ch_queue (channel_of eid (xt u))) \<or>
         (\<exists>c. offered_to eid offs = [c] \<and> ch_queue (channel_of eid (xt u)) = c # xs)"
    and "\<And>x e. map_of (issued u) x = Some e \<Longrightarrow> map_of (issued v) x = Some e"
  shows "queue_moves eid u v"
  unfolding queue_moves_def using assms by blast

lemma queue_moves_shrink:
  assumes "subseq (ch_queue (channel_of eid t)) (ch_queue (channel_of eid (xt u)))"
    and "\<And>x. x \<in> set (ch_queue (channel_of eid t)) \<Longrightarrow> pending_at t eid x = pending_at (xt u) eid x"
  shows "queue_moves eid u (u\<lparr>xt := t\<rparr>)"
  by (rule queue_movesI [of _ "[]" _ _ "ch_queue (channel_of eid t)" "[]"]) (use assms in simp_all)

lemma queue_moves_same:
  "ch_queue (channel_of eid t) = ch_queue (channel_of eid (xt u)) \<Longrightarrow>
   ch_pending (channel_of eid t) = ch_pending (channel_of eid (xt u)) \<Longrightarrow> queue_moves eid u (u\<lparr>xt := t\<rparr>)"
  by (rule queue_moves_shrink) simp_all

lemma queue_moves_refl [simp]: "queue_moves eid u u"
  using queue_moves_same [of eid "xt u" u] by simp

lemma queue_moves_cleared: "ch_queue (channel_of eid t) = [] \<Longrightarrow> queue_moves eid u (u\<lparr>xt := t\<rparr>)"
  by (rule queue_moves_shrink) simp_all

lemma queue_moves_hello: "queue_moves eid u (u\<lparr>xt := fst (hello_locked sha ver now wall e cred request (xt u))\<rparr>)"
proof (cases "reauthenticate sha e cred (xt u)")
  case (Inl x)
  then show ?thesis by (simp add: hello_locked_def queue_moves_same)
next
  case (Inr x)
  show ?thesis
  proof (cases "e = eid \<and> workgate_version request \<noteq> ver")
    case True
    with Inr show ?thesis
      by (intro queue_moves_cleared)
        (simp add: hello_locked_def Let_def interrupt_queued_incompatible_def split: prod.splits)
  next
    case False
    with Inr show ?thesis
      by (intro queue_moves_same)
        (auto simp: hello_locked_def Let_def interrupt_queued_incompatible_def split: prod.splits)
  qed
qed

lemma queue_moves_abandon:
  assumes "xt_inv u"
  shows "queue_moves eid u (u\<lparr>xt := fst (abandon e cid (xt u))\<rparr>)"
proof (cases "\<exists>c p. map_of (xt_channels (xt u)) e = Some c \<and> map_of (ch_pending c) cid = Some p \<and> e = eid")
  case False
  then show ?thesis
    by (auto simp: abandon_def intro!: queue_moves_same split: option.splits)
next
  case True
  then obtain c p where c: "map_of (xt_channels (xt u)) eid = Some c" "map_of (ch_pending c) cid = Some p" "e = eid"
    by auto
  then have ch: "channel_of eid (xt u) = c" by (simp add: channel_of_def)
  have ci: "channel_inv (xt_max_pending (xt u)) c" using xt_invD(1) [OF assms, of eid] ch by simp
  let ?t = "put_channel eid (drop_command cid c) ((xt u)\<lparr>xt_futures := resolve cid FCancelled (xt_futures (xt u))\<rparr>)"
  have t: "fst (abandon e cid (xt u)) = ?t"
    using c drop_command_not_queued [OF ci c(2)] by (cases "pc_state p = Queued") (simp_all add: abandon_def drop_command_def)
  have "distinct (ch_queue c)" using ci by (simp add: channel_inv_def)
  then have "queue_moves eid u (u\<lparr>xt := ?t\<rparr>)"
    by (intro queue_moves_shrink) (auto simp: drop_command_def ch distinct_remove1_removeAll removeAll_filter_not_eq)
  with t show ?thesis by simp
qed

lemma queue_moves_submit:
  assumes "xt_inv u"
  shows "queue_moves eid u (u\<lparr>xt := fst (submit_result_locked sha now wall e cred result (xt u))\<rparr>)"
proof (rule queue_moves_shrink)
  let ?t = "fst (submit_result_locked sha now wall e cred result (xt u))"
  have q: "ch_queue (channel_of eid ?t) = ch_queue (channel_of eid (xt u))"
    by (auto simp: submit_result_locked_def Let_def split: sum.splits option.splits)
  then show "subseq (ch_queue (channel_of eid ?t)) (ch_queue (channel_of eid (xt u)))" by simp
  fix x
  assume "x \<in> set (ch_queue (channel_of eid ?t))"
  with q have "map_option pc_state (pending_at (xt u) eid x) = Some Queued"
    using xt_invD(1) [OF assms, of eid] by (simp add: channel_inv_def)
  then show "pending_at ?t eid x = pending_at (xt u) eid x"
    by (cases "e = eid") (auto simp: submit_result_locked_def Let_def split: sum.splits option.splits)
qed

lemma queue_moves_reset:
  assumes "xt_inv u"
  shows "queue_moves eid u (u\<lparr>xt := fst (reset_queued e (xt u))\<rparr>)"
proof (cases "e = eid \<and> require_running (xt u) \<and> require_target_trusted eid (ensure_channel eid (xt u)) = Inr ()")
  case False
  then show ?thesis
    by (auto simp: reset_queued_def Let_def intro!: queue_moves_same split: sum.splits prod.splits)
next
  case True
  let ?c = "channel_of eid (xt u)"
  let ?ids = "map fst (filter (\<lambda>(cid, p). pc_state p = Queued) (ch_pending ?c))"
  note ci = xt_invD(1) [OF assms, of eid]
  have sub: "set ?ids \<subseteq> dom (map_of (ch_pending ?c))"
    using queued_ids(2) [OF ci] ci by (auto simp: channel_inv_def)
  obtain c' futs where r: "reset_ids ?ids ?c (xt_futures (xt u)) = (c', futs)" by fastforce
  from reset_ids_spec [OF r ci queued_ids(1) [OF ci] sub]
  have spec: "drops (set ?ids) ?c c'" "channel_inv (xt_max_pending (xt u)) c'" by simp_all
  have "x \<notin> set (ch_queue c')" for x
  proof
    assume "x \<in> set (ch_queue c')"
    with spec(2) have m: "map_option pc_state (map_of (ch_pending c') x) = Some Queued" by (simp add: channel_inv_def)
    with spec(1) have "x \<notin> set ?ids" "map_of (ch_pending c') x = map_of (ch_pending ?c) x"
      unfolding drops_def by (cases "x \<in> set ?ids"; auto)+
    with m ci queued_ids(2) [OF ci] show False unfolding channel_inv_def by metis
  qed
  then have "ch_queue c' = []" by (cases "ch_queue c'") auto
  with True r show ?thesis by (auto simp: reset_queued_def Let_def intro!: queue_moves_cleared)
qed

lemma queue_moves_fence:
  assumes "channel_of eid t = channel_of eid (xt u)"
  shows "queue_moves eid u (u\<lparr>xt := fence_channel code e t\<rparr>)"
proof (cases "e = eid")
  case True
  then show ?thesis by (intro queue_moves_cleared) (simp add: fence_channel_def interrupt_channel_def Let_def)
next
  case False
  with assms show ?thesis by (intro queue_moves_same) (simp_all add: fence_channel_other)
qed

lemma close_channels_queue:
  "ch_queue (channel_of eid (fold close_channel es t)) = [] \<or>
   ch_queue (channel_of eid (fold close_channel es t)) = ch_queue (channel_of eid t) \<and>
   ch_pending (channel_of eid (fold close_channel es t)) = ch_pending (channel_of eid t)"
proof (induction es arbitrary: t)
  case (Cons e es)
  have "ch_queue (channel_of eid (close_channel e t)) = [] \<and> ch_pending (channel_of eid (close_channel e t)) = [] \<or>
      channel_of eid (close_channel e t) = channel_of eid t"
    by (cases "e = eid") (simp_all add: close_channel_def interrupt_channel_def Let_def)
  with Cons [of "close_channel e t"] show ?case by auto
qed simp

lemma queue_moves_close: "queue_moves eid u (u\<lparr>xt := transport_close (xt u)\<rparr>)"
proof (cases "xt_closed (xt u)")
  case True
  then show ?thesis by (simp add: transport_close_def)
next
  case False
  let ?t = "transport_close (xt u)"
  from False close_channels_queue [of eid "dict_keys (xt_channels (xt u))" "(xt u)\<lparr>xt_closed := True, xt_started := False\<rparr>"]
  consider "ch_queue (channel_of eid ?t) = []"
    | "ch_queue (channel_of eid ?t) = ch_queue (channel_of eid (xt u))" "ch_pending (channel_of eid ?t) = ch_pending (channel_of eid (xt u))"
    by (auto simp: transport_close_def)
  then show ?thesis by cases (simp_all add: queue_moves_cleared queue_moves_same)
qed

lemma queue_moves_round:
  assumes inv: "xt_inv u" and round: "poll_round sha now wall e cred token deadline (xt u) = (t, res)"
  shows "queue_moves eid u (u\<lparr>xt := t, offers := offered_by e res @ offers u\<rparr>)"
proof -
  let ?c = "channel_of e (xt u)"
  have ci: "channel_inv (xt_max_pending (xt u)) ?c" by (rule xt_invD(1) [OF inv])
  show ?thesis
  proof (cases "ch_poll_token ?c = Some token \<and> require_running (xt u) \<and> reauthenticate sha e cred (xt u) = Inr () \<and>
      ch_queue ?c \<noteq> []")
    case False
    have "ch_queue (channel_of eid t) = ch_queue (channel_of eid (xt u)) \<and>
        ch_pending (channel_of eid t) = ch_pending (channel_of eid (xt u)) \<and> offered_by e res = []"
      using round False
      by (cases "e = eid") (auto simp: poll_round_def offered_by_def Let_def split: if_splits sum.splits)
    with queue_moves_same show ?thesis by simp
  next
    case True
    then obtain cid q where q: "ch_queue ?c = cid # q" by (cases "ch_queue ?c") auto
    have "cid \<in> set (ch_queue ?c)" "distinct (ch_queue ?c)" using ci q by (simp_all add: channel_inv_def)
    then have "map_option pc_state (map_of (ch_pending ?c) cid) = Some Queued" "cid \<notin> set q"
      using ci q unfolding channel_inv_def by (blast, simp)
    then obtain p where p: "map_of (ch_pending ?c) cid = Some p" "pc_state p = Queued" "cid \<notin> set q" by auto
    have id: "cmd_id (pc_command p) = cid" using ci p(1) by (simp add: channel_inv_def)
    have t: "channel_of e t = (touch now wall ?c)\<lparr>ch_queue := q, ch_pending := AList.update cid (p\<lparr>pc_state := Offered\<rparr>) (ch_pending ?c)\<rparr>"
      "\<And>e'. e' \<noteq> e \<Longrightarrow> channel_of e' t = channel_of e' (xt u)" "offered_by e res = [(cid, e)]"
      using round True q p id by (auto simp: poll_round_def offered_by_def Let_def)
    show ?thesis
    proof (cases "e = eid")
      case True
      have "\<forall>x\<in>set q. pending_at t eid x = pending_at (xt u) eid x" using t(1) p(3) True by auto
      with t True q show ?thesis
        by (intro queue_movesI [of _ "[(cid, e)]" _ _ q "[]"]) (simp_all add: offered_to_def)
    next
      case False
      with t show ?thesis
        by (intro queue_movesI [of _ "[(cid, e)]" _ _ "ch_queue (channel_of eid t)" "[]"]) (simp_all add: offered_to_def)
    qed
  qed
qed

lemma queue_moves_call:
  assumes inv: "xt_inv u" and fresh: "map_of (issued u) cid = None"
    and call: "call_enqueue ver now e op args session cid (xt u) = (t, Inr cid)"
  shows "queue_moves eid u (u\<lparr>xt := t, issued := (cid, e) # issued u\<rparr>)"
proof -
  from call_enqueue_Inr [OF call] obtain p where
    c: "channel_of e t = (channel_of e (xt u))\<lparr>ch_pending := AList.update cid p (ch_pending (channel_of e (xt u))),
         ch_queue := ch_queue (channel_of e (xt u)) @ [cid], ch_wake := True\<rparr>"
    and other: "\<And>e'. e' \<noteq> e \<Longrightarrow> channel_of e' t = channel_of e' (xt u)" by blast
  have "pending_at (xt u) eid cid = None"
    using xt_invD(2) [OF inv, of eid cid] fresh by (cases "pending_at (xt u) eid cid") auto
  then have "cid \<notin> set (ch_queue (channel_of eid (xt u)))"
    using xt_invD(1) [OF inv, of eid] by (simp add: channel_inv_def)
  then have "\<forall>x\<in>set (ch_queue (channel_of eid (xt u))). pending_at t eid x = pending_at (xt u) eid x"
    using c other by (cases "e = eid") auto
  with c other fresh show ?thesis
    by (intro queue_movesI [of _ "[]" _ _ "ch_queue (channel_of eid (xt u))" "if e = eid then [cid] else []"])
      (auto split: if_splits)
qed

lemma queue_moves_step:
  assumes inv: "xt_inv u" and step: "xt_step sha ver u v"
  shows "queue_moves eid u v"
  using step
proof cases
  case (xt_heartbeat now wall e cred)
  then show ?thesis
    by (auto simp: heartbeat_locked_def Let_def intro!: queue_moves_same split: sum.splits)
next
  case (xt_poll_begin now wall e cred)
  then show ?thesis
    by (auto simp: poll_begin_def Let_def intro!: queue_moves_same split: sum.splits)
next
  case (xt_call_refused now e op args session cid t x)
  from call_enqueue_Inl [OF xt_call_refused(2)] xt_call_refused(1) show ?thesis by (auto intro: queue_moves_same)
next
  case (xt_rename io e name)
  then show ?thesis
    by (auto simp: transport_rename_def intro!: queue_moves_same split: prod.splits sum.splits)
next
  case (xt_revoke io e instant)
  then show ?thesis
    by (auto simp: transport_revoke_def Let_def intro: queue_moves_same queue_moves_fence split: prod.splits sum.splits)
next
  case (xt_replace io r)
  then show ?thesis
    by (auto simp: transport_replace_def Let_def intro: queue_moves_same queue_moves_fence split: prod.splits sum.splits)
qed (use inv in \<open>simp_all add: queue_moves_hello queue_moves_round queue_moves_call queue_moves_abandon queue_moves_submit
    queue_moves_reset queue_moves_close queue_moves_same transport_start_def poll_finish_def Let_def\<close>)

lemma offered_to_iff: "cid \<in> set (offered_to eid offs) \<longleftrightarrow> (cid, eid) \<in> set offs"
  by (force simp: offered_to_def)

lemma queued_not_offered:
  assumes "xt_inv w" and "cid \<in> set (ch_queue (channel_of eid (xt w)))"
  obtains p where "pending_at (xt w) eid cid = Some p" and "pc_state p = Queued" and "cmd_id (pc_command p) = cid"
    and "map_of (issued w) cid = Some eid" and "map_of (xt_futures (xt w)) cid = Some FPending"
    and "cid \<notin> set (offered_to eid (offers w))"
proof -
  note ci = xt_invD(1) [OF assms(1), of eid]
  have "map_option pc_state (pending_at (xt w) eid cid) = Some Queued"
    using ci assms(2) unfolding channel_inv_def by blast
  then obtain p where p: "pending_at (xt w) eid cid = Some p" "pc_state p = Queued" by auto
  show ?thesis
  proof (rule that [OF p])
    show "cmd_id (pc_command p) = cid" using ci p(1) by (simp add: channel_inv_def)
    show "cid \<notin> set (offered_to eid (offers w))" using xt_invD(8) [OF assms(1) p(1)] p(2) by (simp add: offered_to_iff)
  qed (fact xt_invD(2,3) [OF assms(1) p(1)])+
qed

text \<open>
  Where a command that was queued is after a run: still queued, and nearer to the head by at least the
  commands offered since; or offered, with at most its place in the queue offered before it; or gone.
\<close>

lemma queue_run:
  assumes "reach ((=) w) (xt_step sha ver) v" and "xt_inv w" and "cid \<in> set (ch_queue (channel_of eid (xt w)))"
  shows "xt_inv v \<and> map_of (issued v) cid = Some eid \<and>
    (\<exists>since. offers v = since @ offers w \<and>
      (if cid \<in> set (ch_queue (channel_of eid (xt v)))
       then pending_at (xt v) eid cid = pending_at (xt w) eid cid \<and>
         length (offered_to eid since) + ahead cid (ch_queue (channel_of eid (xt v))) \<le> ahead cid (ch_queue (channel_of eid (xt w)))
       else cid \<in> set (offered_to eid since) \<longrightarrow> (\<exists>later earlier. offered_to eid since = later @ cid # earlier \<and>
         length earlier \<le> ahead cid (ch_queue (channel_of eid (xt w))))))"
  using assms(1)
proof induction
  case (reach_init s)
  have "map_of (issued w) cid = Some eid" by (rule queued_not_offered [OF assms(2,3)])
  with reach_init assms(2,3) show ?case by (auto intro!: exI [of _ "[]"])
next
  case (reach_step u v)
  let ?q = "\<lambda>w. ch_queue (channel_of eid (xt w))"
  from reach_step.IH obtain since where inv: "xt_inv u" and iss: "map_of (issued u) cid = Some eid"
    and since: "offers u = since @ offers w"
    and at: "if cid \<in> set (?q u) then pending_at (xt u) eid cid = pending_at (xt w) eid cid \<and>
         length (offered_to eid since) + ahead cid (?q u) \<le> ahead cid (?q w)
       else cid \<in> set (offered_to eid since) \<longrightarrow> (\<exists>later earlier. offered_to eid since = later @ cid # earlier \<and>
         length earlier \<le> ahead cid (?q w))" by blast
  have inv': "xt_inv v" by (rule xt_inv_step [OF inv reach_step.hyps(2)])
  from queue_moves_step [OF inv reach_step.hyps(2), of eid, unfolded queue_moves_def] obtain offs xs new where
    offs: "offers v = offs @ offers u" and q: "?q v = xs @ new" and new: "\<forall>x\<in>set new. map_of (issued u) x = None"
    and keep: "\<forall>x\<in>set xs. pending_at (xt v) eid x = pending_at (xt u) eid x"
    and mv: "offered_to eid offs = [] \<and> subseq xs (?q u) \<or> (\<exists>c. offered_to eid offs = [c] \<and> ?q u = c # xs)"
    and iss': "\<forall>x e. map_of (issued u) x = Some e \<longrightarrow> map_of (issued v) x = Some e" by blast
  have cid_new: "cid \<notin> set new" using new iss by auto
  have dist: "distinct (?q u)" using xt_invD(1) [OF inv, of eid] by (simp add: channel_inv_def)
  have xs: "set xs \<subseteq> set (?q u)" using mv by (auto dest: list_emb_set)
  have rest: "offers v = (offs @ since) @ offers w" using offs since by simp
  show ?case
  proof (intro conjI exI [of _ "offs @ since"])
    show "xt_inv v" by (rule inv')
    show "map_of (issued v) cid = Some eid" using iss iss' by blast
    show "offers v = (offs @ since) @ offers w" by (rule rest)
    show "if cid \<in> set (?q v) then pending_at (xt v) eid cid = pending_at (xt w) eid cid \<and>
         length (offered_to eid (offs @ since)) + ahead cid (?q v) \<le> ahead cid (?q w)
       else cid \<in> set (offered_to eid (offs @ since)) \<longrightarrow> (\<exists>later earlier. offered_to eid (offs @ since) = later @ cid # earlier \<and>
         length earlier \<le> ahead cid (?q w))"
    proof (cases "cid \<in> set xs")
      case True
      then have u: "cid \<in> set (?q u)" using xs by blast
      have "length (offered_to eid offs) + ahead cid xs \<le> ahead cid (?q u)"
        using mv
      proof
        assume "offered_to eid offs = [] \<and> subseq xs (?q u)"
        with ahead_subseq [of xs "?q u" cid] dist True show ?thesis by simp
      next
        assume "\<exists>c. offered_to eid offs = [c] \<and> ?q u = c # xs"
        with dist True show ?thesis by auto
      qed
      with at u True q keep show ?thesis by simp
    next
      case False
      then have v: "cid \<notin> set (?q v)" using q cid_new by simp
      have "\<exists>later earlier. offered_to eid (offs @ since) = later @ cid # earlier \<and> length earlier \<le> ahead cid (?q w)"
        if c: "cid \<in> set (offered_to eid (offs @ since))"
      proof (cases "cid \<in> set (?q u)")
        case True
        obtain p where "cid \<notin> set (offered_to eid (offers u))" by (rule queued_not_offered [OF inv True]) blast
        then have "cid \<notin> set (offered_to eid since)" using since by simp
        with c mv have "offered_to eid offs = [cid]" by auto
        moreover have "length (offered_to eid since) \<le> ahead cid (?q w)" using at True by simp
        ultimately show ?thesis by (intro exI [of _ "[]"] exI [of _ "offered_to eid since"]) simp
      next
        case not: False
        have "cid \<notin> set (offered_to eid offs)" using mv not by auto
        with c at not obtain later earlier where "offered_to eid since = later @ cid # earlier" "length earlier \<le> ahead cid (?q w)"
          by auto
        then show ?thesis by (intro exI [of _ "offered_to eid offs @ later"] exI [of _ earlier]) simp
      qed
      with v show ?thesis by simp
    qed
  qed
qed



end
