(* ===== verification/Task_Plan.thy ===== *)
theory Task_Plan
  imports Control_State
begin

text \<open>
  Task documents and the normalisation of what agents write into them: the first half of
  \<open>src/src/workgate/control/task_state.py\<close>, with the models of
  \<open>schemas/result_models/task.py\<close>.

  Plan steps and todos arrive as JSON. \<open>repr\<close> is Python's \<open>str\<close> on JSON values that are neither
  strings nor null.
\<close>

section \<open>Documents\<close>

datatype task_status = TaskActive | TaskBlocked | TaskCompleted | TaskCancelled

record plan_step =
  ps_id :: ustr
  ps_content :: ustr
  ps_status :: ustr
  ps_priority :: ustr

record task_progress =
  tp_summary :: "ustr option"
  tp_findings :: "ustr list"
  tp_next_action :: "ustr option"
  tp_blockers :: "ustr list"

record task_document =
  td_created_at :: time
  td_updated_at :: time
  td_label :: "ustr option"
  td_objective :: "ustr option"
  td_status :: task_status
  td_progress :: task_progress
  td_steps :: "plan_step list"

text \<open>The \<open>ValueError\<close>s of the component.\<close>

datatype value_error =
    EmptyText
  | TextTooLong
  | NotEncodable
  | TooManyItems
  | NotAnObject
  | UnsupportedFields
  | StepIdRequired
  | StepIdBlank
  | DuplicateStepId ustr
  | UnsupportedStepStatus ustr
  | NothingToReport
  | TerminalTask
  | CompletedTask
  | UnfinishedSteps "ustr list"
  | WrongStatus task_status
  | TaskTooLarge
  | ContinuationTooLarge
  | ClaimRequired
  | NotReserved
  | NotDeletable
  | SessionCreating
  | TaskIdRequired
  | BadTaskPath
  | OversizedState

section \<open>Bounded text\<close>

text \<open>A lone surrogate cannot be encoded as UTF-8.\<close>

definition encodable :: "ustr \<Rightarrow> bool" where
  "encodable s \<longleftrightarrow> list_all (\<lambda>c. \<not> (55296 \<le> c \<and> c \<le> 57343)) s"

definition bounded_text :: "ustr \<Rightarrow> nat \<Rightarrow> bool \<Rightarrow> value_error + ustr" where
  "bounded_text text max_bytes allow_empty =
     (if text = [] \<and> \<not> allow_empty then Inl EmptyText
      else if \<not> encodable text then Inl NotEncodable
      else if max_bytes < utf8_len text then Inl TextTooLong
      else Inr text)"

definition optional_text :: "ustr \<Rightarrow> nat \<Rightarrow> value_error + ustr option" where
  "optional_text text max_bytes =
     (case bounded_text text max_bytes True of
        Inl e \<Rightarrow> Inl e
      | Inr s \<Rightarrow> Inr (if py_strip s = [] then None else Some (py_strip s)))"

definition text_max_bytes :: nat where "text_max_bytes = 20000"
definition label_max_bytes :: nat where "label_max_bytes = 256"
definition step_id_max_bytes :: nat where "step_id_max_bytes = 256"
definition step_content_max_bytes :: nat where "step_content_max_bytes = 16384"
definition step_label_max_bytes :: nat where "step_label_max_bytes = 64"
definition report_list_limit :: nat where "report_list_limit = 50"

fun report_items :: "ustr list \<Rightarrow> value_error + ustr list" where
  "report_items [] = Inr []"
| "report_items (x # xs) =
     (case optional_text x text_max_bytes of
        Inl e \<Rightarrow> Inl e
      | Inr t \<Rightarrow>
          (case report_items xs of
             Inl e \<Rightarrow> Inl e
           | Inr ts \<Rightarrow> Inr (case t of None \<Rightarrow> ts | Some s \<Rightarrow> s # ts)))"

definition report_list :: "ustr list \<Rightarrow> value_error + ustr list" where
  "report_list xs = (if report_list_limit < length xs then Inl TooManyItems else report_items xs)"

section \<open>Plan steps\<close>

fun falsy :: "json \<Rightarrow> bool" where
  "falsy JNull = True"
| "falsy (JBool b) = (\<not> b)"
| "falsy (JNum q) = (q = 0)"
| "falsy (JStr s) = (s = [])"
| "falsy (JList xs) = (xs = [])"
| "falsy (JObj kvs) = (kvs = [])"

text \<open>\<open>str(value if value is not None else "")\<close>\<close>

fun py_text :: "(json \<Rightarrow> ustr) \<Rightarrow> json \<Rightarrow> ustr" where
  "py_text repr JNull = []"
| "py_text repr (JStr s) = s"
| "py_text repr v = repr v"

text \<open>\<open>str(item.get(key) or default)\<close>\<close>

definition field_text :: "(json \<Rightarrow> ustr) \<Rightarrow> (ustr \<times> json) list \<Rightarrow> ustr \<Rightarrow> ustr \<Rightarrow> ustr" where
  "field_text repr kvs k dflt = (let v = obj_get kvs k in if falsy v then dflt else py_text repr v)"

text \<open>
  \<open>str.lower\<close> as far as its result can be ASCII: besides \<open>A\<close> to \<open>Z\<close>, only the Kelvin sign has an
  ASCII lower case.
\<close>

definition lower_char :: "nat \<Rightarrow> nat" where
  "lower_char c = (if is_upper c then c + 32 else if c = 8490 then 107 else c)"

definition py_lower :: "ustr \<Rightarrow> ustr" where
  "py_lower s = map lower_char s"

definition plan_step_statuses :: "ustr list" where
  "plan_step_statuses = [lit ''pending'', lit ''in_progress'', lit ''completed'', lit ''skipped'', lit ''blocked'']"

definition step_fields :: "ustr list" where
  "step_fields = [lit ''id'', lit ''content'', lit ''status'', lit ''priority'']"

text \<open>The body of the loop of \<open>_normalize_steps\<close>.\<close>

definition normalize_step :: "(json \<Rightarrow> ustr) \<Rightarrow> ustr list \<Rightarrow> json \<Rightarrow> value_error + plan_step" where
  "normalize_step repr seen item =
     (case item of
        JObj kvs \<Rightarrow>
          (if \<not> set (map fst kvs) \<subseteq> set step_fields then Inl UnsupportedFields
           else case obj_get kvs (lit ''id'') of
             JStr raw_id \<Rightarrow>
               (if raw_id = [] then Inl StepIdRequired
                else case bounded_text raw_id step_id_max_bytes False of
                  Inl e \<Rightarrow> Inl e
                | Inr ident \<Rightarrow>
                    let ident = py_strip ident in
                    if ident = [] then Inl StepIdBlank
                    else if ident \<in> set seen then Inl (DuplicateStepId ident)
                    else case bounded_text (field_text repr kvs (lit ''status'') (lit ''pending''))
                                step_label_max_bytes False of
                      Inl e \<Rightarrow> Inl e
                    | Inr st \<Rightarrow>
                        let st = py_lower (py_strip st) in
                        if st \<notin> set plan_step_statuses then Inl (UnsupportedStepStatus st)
                        else case bounded_text (field_text repr kvs (lit ''content'') [])
                                    step_content_max_bytes True of
                          Inl e \<Rightarrow> Inl e
                        | Inr content \<Rightarrow>
                            (case bounded_text (field_text repr kvs (lit ''priority'') (lit ''medium''))
                                    step_label_max_bytes False of
                               Inl e \<Rightarrow> Inl e
                             | Inr priority \<Rightarrow>
                                 Inr \<lparr>ps_id = ident, ps_content = content, ps_status = st,
                                   ps_priority = priority\<rparr>))
           | _ \<Rightarrow> Inl StepIdRequired)
      | _ \<Rightarrow> Inl NotAnObject)"

fun normalize_items :: "(json \<Rightarrow> ustr) \<Rightarrow> ustr list \<Rightarrow> json list \<Rightarrow> value_error + plan_step list" where
  "normalize_items repr seen [] = Inr []"
| "normalize_items repr seen (item # items) =
     (case normalize_step repr seen item of
        Inl e \<Rightarrow> Inl e
      | Inr step \<Rightarrow>
          (case normalize_items repr (ps_id step # seen) items of
             Inl e \<Rightarrow> Inl e
           | Inr steps \<Rightarrow> Inr (step # steps)))"

definition normalize_steps :: "nat \<Rightarrow> (json \<Rightarrow> ustr) \<Rightarrow> json list \<Rightarrow> value_error + plan_step list" where
  "normalize_steps max_todos repr steps =
     (if max_todos < length steps then Inl TooManyItems else normalize_items repr [] steps)"

fun decimal :: "nat \<Rightarrow> ustr" where
  "decimal n = (if n < 10 then [48 + n] else decimal (n div 10) @ [48 + n mod 10])"

declare decimal.simps [simp del]

fun todo_items :: "(json \<Rightarrow> ustr) \<Rightarrow> nat \<Rightarrow> json list \<Rightarrow> value_error + json list" where
  "todo_items repr index [] = Inr []"
| "todo_items repr index (item # items) =
     (case item of
        JObj kvs \<Rightarrow>
          (case todo_items repr (Suc index) items of
             Inl e \<Rightarrow> Inl e
           | Inr steps \<Rightarrow>
               Inr (JObj (obj_put (lit ''id'')
                      (JStr (field_text repr kvs (lit ''id'') (decimal (Suc index)))) kvs) # steps))
      | _ \<Rightarrow> Inl NotAnObject)"

definition normalize_todos :: "nat \<Rightarrow> (json \<Rightarrow> ustr) \<Rightarrow> json list \<Rightarrow> value_error + plan_step list" where
  "normalize_todos max_todos repr todos =
     (case todo_items repr 0 todos of
        Inl e \<Rightarrow> Inl e
      | Inr steps \<Rightarrow> normalize_steps max_todos repr steps)"

section \<open>Document mutations\<close>

definition require_mutable :: "task_document \<Rightarrow> value_error + unit" where
  "require_mutable d =
     (if td_status d = TaskCancelled then Inl TerminalTask
      else if td_status d = TaskCompleted then Inl CompletedTask
      else Inr ())"

definition step_done :: "plan_step \<Rightarrow> bool" where
  "step_done s \<longleftrightarrow> ps_status s \<in> {lit ''completed'', lit ''skipped''}"

definition require_completable :: "task_document \<Rightarrow> value_error + unit" where
  "require_completable d =
     (let unfinished = map ps_id (filter (\<lambda>s. \<not> step_done s) (td_steps d))
      in if unfinished \<noteq> [] then Inl (UnfinishedSteps unfinished) else Inr ())"

record report =
  rp_label :: "ustr option"
  rp_objective :: "ustr option"
  rp_summary :: "ustr option"
  rp_findings :: "ustr list option"
  rp_next_action :: "ustr option"
  rp_blockers :: "ustr list option"

definition report_empty :: "report \<Rightarrow> bool" where
  "report_empty r \<longleftrightarrow> rp_label r = None \<and> rp_objective r = None \<and> rp_summary r = None \<and>
     rp_findings r = None \<and> rp_next_action r = None \<and> rp_blockers r = None"

text \<open>One field of the report: unchanged when it is not given.\<close>

definition given :: "'a option \<Rightarrow> ('a \<Rightarrow> value_error + 'b) \<Rightarrow> ('b \<Rightarrow> 'd \<Rightarrow> 'd) \<Rightarrow> value_error + 'd \<Rightarrow> value_error + 'd" where
  "given field normal upd acc =
     (case acc of
        Inl e \<Rightarrow> Inl e
      | Inr d \<Rightarrow>
          (case field of
             None \<Rightarrow> Inr d
           | Some x \<Rightarrow> (case normal x of Inl e \<Rightarrow> Inl e | Inr v \<Rightarrow> Inr (upd v d))))"

definition report_progress :: "report \<Rightarrow> task_document \<Rightarrow> value_error + task_document" where
  "report_progress r d =
     (case require_mutable d of
        Inl e \<Rightarrow> Inl e
      | Inr _ \<Rightarrow>
          given (rp_blockers r) report_list (\<lambda>v d. d\<lparr>td_progress := (td_progress d)\<lparr>tp_blockers := v\<rparr>\<rparr>)
          (given (rp_next_action r) (\<lambda>s. optional_text s text_max_bytes)
             (\<lambda>v d. d\<lparr>td_progress := (td_progress d)\<lparr>tp_next_action := v\<rparr>\<rparr>)
          (given (rp_findings r) report_list (\<lambda>v d. d\<lparr>td_progress := (td_progress d)\<lparr>tp_findings := v\<rparr>\<rparr>)
          (given (rp_summary r) (\<lambda>s. optional_text s text_max_bytes)
             (\<lambda>v d. d\<lparr>td_progress := (td_progress d)\<lparr>tp_summary := v\<rparr>\<rparr>)
          (given (rp_objective r) (\<lambda>s. optional_text s text_max_bytes) (\<lambda>v d. d\<lparr>td_objective := v\<rparr>)
          (given (rp_label r) (\<lambda>s. optional_text s label_max_bytes) (\<lambda>v d. d\<lparr>td_label := v\<rparr>)
             (Inr d)))))))"

datatype status_action = Block | Resume | Finish | Cancel

definition idle_reason :: ustr where
  "idle_reason = lit ''Automatically blocked after confirmed inactivity.''"

fun set_status :: "status_action \<Rightarrow> task_document \<Rightarrow> value_error + task_document" where
  "set_status Block d =
     (if td_status d \<noteq> TaskActive then Inl (WrongStatus (td_status d))
      else Inr (d\<lparr>td_status := TaskBlocked\<rparr>))"
| "set_status Resume d =
     (if td_status d \<notin> {TaskBlocked, TaskCompleted} then Inl (WrongStatus (td_status d))
      else Inr (d\<lparr>td_status := TaskActive,
        td_progress := (td_progress d)\<lparr>tp_blockers :=
          filter (\<lambda>b. b \<noteq> idle_reason) (tp_blockers (td_progress d))\<rparr>\<rparr>))"
| "set_status Finish d =
     (if td_status d \<notin> {TaskActive, TaskBlocked} then Inl (WrongStatus (td_status d))
      else case require_completable d of
             Inl e \<Rightarrow> Inl e
           | Inr _ \<Rightarrow> Inr (d\<lparr>td_status := TaskCompleted\<rparr>))"
| "set_status Cancel d =
     (if td_status d \<notin> {TaskActive, TaskBlocked} then Inl (WrongStatus (td_status d))
      else Inr (d\<lparr>td_status := TaskCancelled\<rparr>))"

definition replace_plan :: "plan_step list \<Rightarrow> task_document \<Rightarrow> value_error + task_document" where
  "replace_plan steps d =
     (case require_mutable d of Inl e \<Rightarrow> Inl e | Inr _ \<Rightarrow> Inr (d\<lparr>td_steps := steps\<rparr>))"


section \<open>Normalised text\<close>

lemma strip_idem [simp]: "py_strip (py_strip s) = py_strip s"
proof -
  let ?t = "dropWhile py_isspace s"
  let ?u = "rev (dropWhile py_isspace (rev ?t))"
  have "dropWhile py_isspace ?u = ?u"
  proof (cases ?u)
    case (Cons c u)
    obtain v where "rev ?t = v @ rev ?u"
      by (metis rev_rev_ident takeWhile_dropWhile_id)
    then have "?t = ?u @ rev v" by (metis rev_append rev_rev_ident)
    then have "hd ?t = c" "?t \<noteq> []" using Cons by simp_all
    then have "\<not> py_isspace c" using hd_dropWhile by blast
    then show ?thesis using Cons by simp
  next
    case Nil
    show ?thesis unfolding Nil by simp
  qed
  then show ?thesis by (simp add: py_strip_def)
qed

lemma set_strip: "set (py_strip s) \<subseteq> set s"
proof
  fix c
  assume "c \<in> set (py_strip s)"
  then have "c \<in> set (dropWhile py_isspace (rev (dropWhile py_isspace s)))" by (simp add: py_strip_def)
  then have "c \<in> set (dropWhile py_isspace s)" by (drule_tac set_dropWhileD) simp
  then show "c \<in> set s" by (rule set_dropWhileD)
qed

lemma encodable_strip: "encodable s \<Longrightarrow> encodable (py_strip s)"
  using set_strip [of s] by (auto simp: encodable_def list_all_iff)

lemma bounded_text_Inr:
  "bounded_text s m b = Inr t \<longleftrightarrow> t = s \<and> (s = [] \<longrightarrow> b) \<and> encodable s \<and> utf8_len s \<le> m"
  by (auto simp: bounded_text_def)

lemma optional_text_Inr:
  assumes "optional_text s m = Inr (Some t)"
  shows "t \<noteq> [] \<and> py_strip t = t \<and> encodable t \<and> utf8_len t \<le> m"
proof -
  have t: "t = py_strip s" "t \<noteq> []" "encodable s" "utf8_len s \<le> m"
    using assms by (auto simp: optional_text_def bounded_text_Inr split: sum.splits if_splits)
  then show ?thesis using encodable_strip utf8_len_strip [of s] by auto
qed

lemma status_words:
  assumes "s \<in> set plan_step_statuses"
  shows "s \<noteq> [] \<and> py_strip s = s \<and> py_lower s = s \<and> encodable s \<and> utf8_len s \<le> step_label_max_bytes"
  using assms
  by (auto simp: plan_step_statuses_def py_strip_def py_isspace_def py_lower_def lower_char_def is_upper_def
      encodable_def step_label_max_bytes_def)

section \<open>Normalised plans\<close>

definition step_ok :: "plan_step \<Rightarrow> bool" where
  "step_ok s \<longleftrightarrow>
     ps_id s \<noteq> [] \<and> py_strip (ps_id s) = ps_id s \<and> encodable (ps_id s) \<and> utf8_len (ps_id s) \<le> step_id_max_bytes \<and>
     ps_status s \<in> set plan_step_statuses \<and>
     encodable (ps_content s) \<and> utf8_len (ps_content s) \<le> step_content_max_bytes \<and>
     ps_priority s \<noteq> [] \<and> encodable (ps_priority s) \<and> utf8_len (ps_priority s) \<le> step_label_max_bytes"

definition plan_ok :: "nat \<Rightarrow> plan_step list \<Rightarrow> bool" where
  "plan_ok m steps \<longleftrightarrow> length steps \<le> m \<and> distinct (map ps_id steps) \<and> list_all step_ok steps"

definition step_json :: "plan_step \<Rightarrow> json" where
  "step_json s = JObj [(lit ''content'', JStr (ps_content s)), (lit ''id'', JStr (ps_id s)),
     (lit ''priority'', JStr (ps_priority s)), (lit ''status'', JStr (ps_status s))]"

lemma normalize_step_ok:
  assumes "normalize_step repr seen item = Inr s"
  shows "step_ok s \<and> ps_id s \<notin> set seen"
proof -
  from assms obtain kvs raw st pr content where
    s: "s = \<lparr>ps_id = py_strip raw, ps_content = content, ps_status = py_lower (py_strip st), ps_priority = pr\<rparr>"
    and "encodable raw" "utf8_len raw \<le> step_id_max_bytes" "py_strip raw \<noteq> []" "py_strip raw \<notin> set seen"
    "py_lower (py_strip st) \<in> set plan_step_statuses" "encodable content" "utf8_len content \<le> step_content_max_bytes"
    "pr \<noteq> []" "encodable pr" "utf8_len pr \<le> step_label_max_bytes"
    by (auto simp: normalize_step_def bounded_text_Inr Let_def split: json.splits sum.splits if_splits)
  then show ?thesis
    using encodable_strip utf8_len_strip [of raw] by (auto simp: step_ok_def)
qed

lemma normalize_items_ok:
  assumes "normalize_items repr seen items = Inr steps"
  shows "length steps = length items \<and> distinct (map ps_id steps) \<and> list_all step_ok steps \<and>
    set (map ps_id steps) \<inter> set seen = {}"
  using assms
proof (induction items arbitrary: seen steps)
  case (Cons item items)
  from Cons.prems obtain s ss where s: "normalize_step repr seen item = Inr s"
    "normalize_items repr (ps_id s # seen) items = Inr ss" "steps = s # ss"
    by (auto split: sum.splits)
  from Cons.IH [OF s(2)] normalize_step_ok [OF s(1)] s(3) show ?case by auto
qed simp

lemma normalize_step_json:
  assumes "step_ok s" and "ps_id s \<notin> set seen"
  shows "normalize_step repr seen (step_json s) = Inr s"
proof -
  have fields: "set (map fst [(lit ''content'', JStr (ps_content s)), (lit ''id'', JStr (ps_id s)),
      (lit ''priority'', JStr (ps_priority s)), (lit ''status'', JStr (ps_status s))]) \<subseteq> set step_fields"
    by (simp add: step_fields_def)
  have st: "ps_status s \<in> set plan_step_statuses" using assms(1) by (simp add: step_ok_def)
  note w = status_words [OF st]
  have b: "bounded_text (ps_id s) step_id_max_bytes False = Inr (ps_id s)"
    "bounded_text (ps_content s) step_content_max_bytes True = Inr (ps_content s)"
    "bounded_text (ps_priority s) step_label_max_bytes False = Inr (ps_priority s)"
    "bounded_text (ps_status s) step_label_max_bytes False = Inr (ps_status s)"
    using assms(1) w by (simp_all add: bounded_text_Inr step_ok_def)
  have nonempty: "ps_id s \<noteq> []" "ps_priority s \<noteq> []" "py_strip (ps_id s) = ps_id s"
    using assms(1) by (simp_all add: step_ok_def)
  let ?kvs = "[(lit ''content'', JStr (ps_content s)), (lit ''id'', JStr (ps_id s)),
      (lit ''priority'', JStr (ps_priority s)), (lit ''status'', JStr (ps_status s))]"
  have f: "obj_get ?kvs (lit ''id'') = JStr (ps_id s)"
    "field_text repr ?kvs (lit ''status'') (lit ''pending'') = ps_status s"
    "field_text repr ?kvs (lit ''content'') [] = ps_content s"
    "field_text repr ?kvs (lit ''priority'') (lit ''medium'') = ps_priority s"
    using w nonempty by (simp_all add: field_text_def obj_get_def Let_def)
  show ?thesis
    unfolding normalize_step_def step_json_def json.case if_not_P [OF iffD2 [OF not_not fields]] f
    using b nonempty w st assms(2) by (simp add: Let_def)
qed

lemma normalize_items_json:
  "distinct (map ps_id steps) \<Longrightarrow> list_all step_ok steps \<Longrightarrow> set (map ps_id steps) \<inter> set seen = {} \<Longrightarrow>
   normalize_items repr seen (map step_json steps) = Inr steps"
  by (induction steps arbitrary: seen) (auto simp: normalize_step_json)

text \<open>
  Plan normalisation is a projection onto well-formed plans. Whatever JSON an agent sends, a plan
  that is accepted has one step per item, distinct identifiers, and steps whose identifier is
  stripped and not blank, whose status is one of the five known ones and whose texts are encodable
  and within their byte bounds; and every well-formed plan is accepted unchanged. The
  same holds of the plans written through the todo interface.
\<close>

theorem plan_normalisation:
  "(\<forall>items steps. normalize_steps m repr items = Inr steps \<longrightarrow> plan_ok m steps \<and> length steps = length items) \<and>
   (\<forall>todos steps. normalize_todos m repr todos = Inr steps \<longrightarrow> plan_ok m steps) \<and>
   (\<forall>steps. plan_ok m steps \<longrightarrow> normalize_steps m repr (map step_json steps) = Inr steps)"
proof (intro conjI allI impI)
  show ok: "plan_ok m steps" and "length steps = length items"
    if "normalize_steps m repr items = Inr steps" for items steps
  proof -
    from that have "length items \<le> m" and n: "normalize_items repr [] items = Inr steps"
      by (simp_all add: normalize_steps_def split: if_splits)
    with normalize_items_ok [OF n] show "plan_ok m steps" and "length steps = length items"
      by (simp_all add: plan_ok_def)
  qed
  fix todos steps
  assume "normalize_todos m repr todos = Inr steps"
  then show "plan_ok m steps" by (auto simp: normalize_todos_def split: sum.splits dest: ok)
next
  fix steps
  assume "plan_ok m steps"
  then show "normalize_steps m repr (map step_json steps) = Inr steps"
    using normalize_items_json [of steps "[]" repr] by (simp add: normalize_steps_def plan_ok_def)
qed

definition demo_step :: plan_step where
  "demo_step = \<lparr>ps_id = lit ''1'', ps_content = lit ''x'', ps_status = lit ''pending'', ps_priority = lit ''high''\<rparr>"

theorem plan_normalisation_witness:
  "normalize_steps 1 (\<lambda>_. []) [step_json demo_step] = Inr [demo_step]"
proof -
  have "plan_ok 1 [demo_step]"
    by (simp add: plan_ok_def step_ok_def demo_step_def py_strip_def py_isspace_def encodable_def
        plan_step_statuses_def step_id_max_bytes_def step_content_max_bytes_def step_label_max_bytes_def)
  with plan_normalisation [of 1 "\<lambda>_. []"]
  have "normalize_steps 1 (\<lambda>_. []) (map step_json [demo_step]) = Inr [demo_step]" by blast
  then show ?thesis by simp
qed

section \<open>The life of a document\<close>

lemma given_status:
  assumes "given f n upd acc = Inr d'" and "\<And>v d. td_status (upd v d) = td_status d \<and> td_steps (upd v d) = td_steps d"
  obtains d where "acc = Inr d" "td_status d' = td_status d" "td_steps d' = td_steps d"
  using assms by (auto simp: given_def split: sum.splits option.splits)

lemma report_progress_frame:
  assumes "report_progress r d = Inr d'"
  shows "td_status d \<in> {TaskActive, TaskBlocked} \<and> td_status d' = td_status d \<and> td_steps d' = td_steps d"
proof -
  from assms have m: "require_mutable d = Inr ()"
    by (auto simp: report_progress_def split: sum.splits)
  then have "td_status d \<in> {TaskActive, TaskBlocked}"
    by (cases "td_status d") (auto simp: require_mutable_def)
  moreover from assms m have "td_status d' = td_status d \<and> td_steps d' = td_steps d"
    unfolding report_progress_def by (auto elim!: given_status)
  ultimately show ?thesis by blast
qed


text \<open>The life cycle: the status changes there are, and what completion means.\<close>

definition status_moves :: "task_status \<Rightarrow> task_status \<Rightarrow> bool" where
  "status_moves a b \<longleftrightarrow> a = b \<or> (a, b) \<in>
     {(TaskActive, TaskBlocked), (TaskBlocked, TaskActive), (TaskCompleted, TaskActive),
      (TaskActive, TaskCompleted), (TaskBlocked, TaskCompleted), (TaskActive, TaskCancelled),
      (TaskBlocked, TaskCancelled)}"

definition document_ok :: "nat \<Rightarrow> task_document \<Rightarrow> bool" where
  "document_ok m d \<longleftrightarrow> plan_ok m (td_steps d) \<and>
     (td_status d = TaskCompleted \<longrightarrow> list_all step_done (td_steps d))"

definition document_moves :: "nat \<Rightarrow> task_document \<Rightarrow> task_document \<Rightarrow> bool" where
  "document_moves m d d' \<longleftrightarrow> status_moves (td_status d) (td_status d') \<and> (document_ok m d \<longrightarrow> document_ok m d')"

lemma report_moves: "report_progress r d = Inr d' \<Longrightarrow> document_moves m d d'"
  by (drule report_progress_frame) (simp add: document_moves_def document_ok_def status_moves_def)

lemma set_status_moves: "set_status a d = Inr d' \<Longrightarrow> document_moves m d d'"
proof (cases a)
  case Finish
  moreover assume "set_status a d = Inr d'"
  moreover from this Finish have "list_all step_done (td_steps d)"
    by (auto simp: require_completable_def Let_def filter_empty_conv list_all_iff split: if_splits)
  ultimately show ?thesis
    by (auto simp: document_moves_def document_ok_def status_moves_def split: if_splits sum.splits)
qed (auto simp: document_moves_def document_ok_def status_moves_def split: if_splits)

lemma replace_plan_moves: "replace_plan steps d = Inr d' \<Longrightarrow> plan_ok m steps \<Longrightarrow> document_moves m d d'"
  by (cases "td_status d")
    (auto simp: replace_plan_def require_mutable_def document_moves_def document_ok_def status_moves_def)

end
