(* ===== verification/Task_State.thy ===== *)
theory Task_State
  imports Task_Plan "HOL-Library.Product_Lexorder"
begin

text \<open>
  The durable task service, \<open>src/src/workgate/control/task_state.py\<close>: tasks with their automatic
  continuation, one file per task beside the control state's session records.

  \<open>bytes\<close> is the length of \<open>json.dumps\<close> of a value in UTF-8; \<open>now\<close> is \<open>time.time()\<close>. A task
  operation runs under the lock of its file and is one step here. The outcome of each write of a
  task file is an argument; the writes of the control state carry their own. Audit events are left
  out: a failure to append one is caught.
\<close>

section \<open>Stored tasks\<close>

record continuation =
  co_last_activity :: "time option"
  co_attempts :: nat
  co_claim :: "ustr option"
  co_since :: "time option"
  co_reserved :: bool
  co_retry_after :: "time option"

definition new_continuation :: continuation where
  "new_continuation = \<lparr>co_last_activity = None, co_attempts = 0, co_claim = None, co_since = None,
     co_reserved = False, co_retry_after = None\<rparr>"

record stored_task =
  st_task_id :: ustr
  st_subject :: ustr
  st_document :: task_document
  st_session_count :: "nat option"
  st_continuation :: continuation

record task_config =
  tc_max_todos :: nat
  tc_max_bytes :: nat
  tc_idle_s :: nat

text \<open>A task file: a valid task, JSON that is no task, no regular file, or no JSON.\<close>

datatype task_cell =
    TaskDoc stored_task
  | TaskInvalid
  | TaskNotRegular
  | TaskGarbage

record tasks =
  tk_files :: "(ustr, task_cell) dict"
  tk_control :: control_state

datatype task_error =
    TaskValue value_error
  | TaskUnknown
  | TaskForbidden
  | TaskStateInvalid
  | TaskIO exn
  | TaskHasSessions
  | TaskControl control_error

definition idle_s :: time where "idle_s = 15 * 60"
definition max_attempts :: nat where "max_attempts = 10"
definition pending_ttl_s :: time where "pending_ttl_s = 5 * 60"
definition failure_backoff_s :: time where "failure_backoff_s = 5 * 60"
definition storage_overhead_bytes :: nat where "storage_overhead_bytes = 4096"
definition history_limit :: nat where "history_limit = 256"
definition terminal_retention_s :: time where "terminal_retention_s = 30 * 24 * 60 * 60"

text \<open>\<open>sub\<close> is the subject of the current OAuth claims, when there are any.\<close>

definition principal :: "ustr option \<Rightarrow> ustr" where
  "principal sub =
     (let subject = (case sub of None \<Rightarrow> [] | Some s \<Rightarrow> py_strip s)
      in if subject = [] then lit ''local-user'' else subject)"

section \<open>The stored form\<close>

fun enc_task_status :: "task_status \<Rightarrow> json" where
  "enc_task_status TaskActive = JStr (lit ''active'')"
| "enc_task_status TaskBlocked = JStr (lit ''blocked'')"
| "enc_task_status TaskCompleted = JStr (lit ''completed'')"
| "enc_task_status TaskCancelled = JStr (lit ''cancelled'')"

definition document_dump :: "task_document \<Rightarrow> json" where
  "document_dump d = JObj
     [(lit ''created_at'', JNum (td_created_at d)),
      (lit ''label'', enc_opt JStr (td_label d)),
      (lit ''objective'', enc_opt JStr (td_objective d)),
      (lit ''plan'', JObj [(lit ''steps'', JList (map step_json (td_steps d)))]),
      (lit ''progress'', JObj
        [(lit ''blockers'', JList (map JStr (tp_blockers (td_progress d)))),
         (lit ''findings'', JList (map JStr (tp_findings (td_progress d)))),
         (lit ''next_action'', enc_opt JStr (tp_next_action (td_progress d))),
         (lit ''summary'', enc_opt JStr (tp_summary (td_progress d)))]),
      (lit ''status'', enc_task_status (td_status d)),
      (lit ''updated_at'', JNum (td_updated_at d)),
      (lit ''version'', JNum 2)]"

definition continuation_dump :: "continuation \<Rightarrow> json" where
  "continuation_dump c = JObj
     [(lit ''attempt_count'', JNum (of_nat (co_attempts c))),
      (lit ''last_agent_activity'', enc_opt JNum (co_last_activity c)),
      (lit ''pending_claim_id'', enc_opt JStr (co_claim c)),
      (lit ''pending_since'', enc_opt JNum (co_since c)),
      (lit ''reserved'', JBool (co_reserved c)),
      (lit ''retry_after'', enc_opt JNum (co_retry_after c))]"

definition user_dump :: "stored_task \<Rightarrow> (ustr \<times> json) list" where
  "user_dump s =
     [(lit ''document'', document_dump (st_document s)), (lit ''subject'', JStr (st_subject s)),
      (lit ''task_id'', JStr (st_task_id s)), (lit ''version'', JNum 1)]"

definition task_dump :: "stored_task \<Rightarrow> json" where
  "task_dump s = JObj
     (obj_put (lit ''session_count'') (enc_opt (\<lambda>n. JNum (of_nat n)) (st_session_count s))
        (if st_continuation s \<noteq> new_continuation
         then obj_put (lit ''continuation'') (continuation_dump (st_continuation s)) (user_dump s)
         else user_dump s))"

section \<open>Reading and writing a task\<close>

text \<open>\<open>[A-Za-z0-9][A-Za-z0-9._-]{0,255}\<close>\<close>

definition task_path_ok :: "ustr \<Rightarrow> bool" where
  "task_path_ok tid \<longleftrightarrow> tid \<noteq> [] \<and> length tid \<le> 256 \<and> (is_upper (hd tid) \<or> is_lower (hd tid) \<or> is_digit (hd tid)) \<and>
     list_all (\<lambda>c. is_token_char c \<or> c = 46) tid"

datatype task_read = NoTask | BadTask | GoodTask stored_task | ReadRaises exn

text \<open>\<open>read_json\<close> and \<open>model_validate\<close>; the file has one byte more than its JSON text.\<close>

definition read_cell :: "(json \<Rightarrow> nat) \<Rightarrow> task_config \<Rightarrow> (ustr, task_cell) dict \<Rightarrow> ustr \<Rightarrow> task_read" where
  "read_cell bytes cfg files tid =
     (case map_of files tid of
        None \<Rightarrow> NoTask
      | Some TaskNotRegular \<Rightarrow> ReadRaises OSError
      | Some TaskGarbage \<Rightarrow> ReadRaises ValueError
      | Some TaskInvalid \<Rightarrow> BadTask
      | Some (TaskDoc s) \<Rightarrow>
          if tc_max_bytes cfg + storage_overhead_bytes < bytes (task_dump s) + 1 then ReadRaises ValueError
          else GoodTask s)"

definition read_stored ::
  "(json \<Rightarrow> nat) \<Rightarrow> task_config \<Rightarrow> ustr \<Rightarrow> ustr \<Rightarrow> tasks \<Rightarrow> task_error + stored_task" where
  "read_stored bytes cfg subject tid t =
     (if \<not> task_path_ok tid then Inl (TaskValue BadTaskPath)
      else case read_cell bytes cfg (tk_files t) tid of
             ReadRaises e \<Rightarrow> Inl (TaskIO e)
           | NoTask \<Rightarrow> Inl TaskUnknown
           | BadTask \<Rightarrow> Inl TaskStateInvalid
           | GoodTask s \<Rightarrow> if st_subject s \<noteq> subject then Inl TaskForbidden else Inr s)"

definition persist_stored ::
  "(json \<Rightarrow> nat) \<Rightarrow> task_config \<Rightarrow> outcome \<Rightarrow> ustr \<Rightarrow> stored_task \<Rightarrow> tasks \<Rightarrow> tasks \<times> (task_error + unit)" where
  "persist_stored bytes cfg w tid s t =
     (if tc_max_bytes cfg < bytes (JObj (user_dump s)) then (t, Inl (TaskValue TaskTooLarge))
      else if tc_max_bytes cfg + storage_overhead_bytes < bytes (task_dump s)
      then (t, Inl (TaskValue ContinuationTooLarge))
      else (if lands w then t\<lparr>tk_files := AList.update tid (TaskDoc s) (tk_files t)\<rparr> else t,
            if reports w then Inr () else Inl (TaskIO OSError)))"

text \<open>\<open>read\<close>, change, \<open>persist\<close> under the file lock; the caller gets the stored task.\<close>

definition update_stored ::
  "(json \<Rightarrow> nat) \<Rightarrow> task_config \<Rightarrow> outcome \<Rightarrow> ustr \<Rightarrow> ustr \<Rightarrow> (stored_task \<Rightarrow> task_error + stored_task) \<Rightarrow>
   tasks \<Rightarrow> tasks \<times> (task_error + stored_task)" where
  "update_stored bytes cfg w subject tid f t =
     (case read_stored bytes cfg subject tid t of
        Inl e \<Rightarrow> (t, Inl e)
      | Inr s \<Rightarrow>
          (case f s of
             Inl e \<Rightarrow> (t, Inl e)
           | Inr s' \<Rightarrow>
               (case persist_stored bytes cfg w tid s' t of
                  (t', Inl e) \<Rightarrow> (t', Inl e)
                | (t', Inr _) \<Rightarrow> (t', Inr s'))))"

section \<open>Document operations\<close>

definition clear_claim :: "continuation \<Rightarrow> continuation" where
  "clear_claim c = c\<lparr>co_claim := None, co_since := None, co_reserved := False\<rparr>"

text \<open>An agent's action withdraws a claim that no host has been promised yet.\<close>

definition withdraw_claim :: "continuation \<Rightarrow> continuation" where
  "withdraw_claim c = (if co_claim c \<noteq> None \<and> \<not> co_reserved c then clear_claim c else c)"

definition mutate_task ::
  "(json \<Rightarrow> nat) \<Rightarrow> task_config \<Rightarrow> outcome \<Rightarrow> ustr \<Rightarrow> ustr \<Rightarrow> time \<Rightarrow>
   (task_document \<Rightarrow> value_error + task_document) \<Rightarrow> tasks \<Rightarrow> tasks \<times> (task_error + stored_task)" where
  "mutate_task bytes cfg w subject tid now f =
     update_stored bytes cfg w subject tid
       (\<lambda>s. case f (st_document s) of
              Inl e \<Rightarrow> Inl (TaskValue e)
            | Inr d \<Rightarrow> Inr (s\<lparr>st_document := d\<lparr>td_updated_at := now\<rparr>,
                st_continuation := withdraw_claim (st_continuation s)\<rparr>))"

definition task_report ::
  "(json \<Rightarrow> nat) \<Rightarrow> task_config \<Rightarrow> outcome \<Rightarrow> ustr \<Rightarrow> ustr \<Rightarrow> time \<Rightarrow> report \<Rightarrow> tasks \<Rightarrow>
   tasks \<times> (task_error + stored_task)" where
  "task_report bytes cfg w subject tid now r t =
     (if report_empty r then (t, Inl (TaskValue NothingToReport))
      else mutate_task bytes cfg w subject tid now (report_progress r) t)"

definition task_set_status ::
  "(json \<Rightarrow> nat) \<Rightarrow> task_config \<Rightarrow> outcome \<Rightarrow> ustr \<Rightarrow> ustr \<Rightarrow> time \<Rightarrow> status_action \<Rightarrow> tasks \<Rightarrow>
   tasks \<times> (task_error + stored_task)" where
  "task_set_status bytes cfg w subject tid now action = mutate_task bytes cfg w subject tid now (set_status action)"

definition task_update_plan ::
  "(json \<Rightarrow> nat) \<Rightarrow> task_config \<Rightarrow> outcome \<Rightarrow> ustr \<Rightarrow> ustr \<Rightarrow> time \<Rightarrow> (json \<Rightarrow> ustr) \<Rightarrow> json list \<Rightarrow> tasks \<Rightarrow>
   tasks \<times> (task_error + stored_task)" where
  "task_update_plan bytes cfg w subject tid now repr steps t =
     (case normalize_steps (tc_max_todos cfg) repr steps of
        Inl e \<Rightarrow> (t, Inl (TaskValue e))
      | Inr plan \<Rightarrow> mutate_task bytes cfg w subject tid now (replace_plan plan) t)"

definition task_write_todos ::
  "(json \<Rightarrow> nat) \<Rightarrow> task_config \<Rightarrow> outcome \<Rightarrow> ustr \<Rightarrow> ustr \<Rightarrow> time \<Rightarrow> (json \<Rightarrow> ustr) \<Rightarrow> json list \<Rightarrow> tasks \<Rightarrow>
   tasks \<times> (task_error + stored_task)" where
  "task_write_todos bytes cfg w subject tid now repr todos t =
     (case normalize_todos (tc_max_todos cfg) repr todos of
        Inl e \<Rightarrow> (t, Inl (TaskValue e))
      | Inr plan \<Rightarrow> mutate_task bytes cfg w subject tid now (replace_plan plan) t)"


section \<open>Automatic continuation\<close>

definition continuation_unfinished :: "task_document \<Rightarrow> bool" where
  "continuation_unfinished d \<longleftrightarrow> td_steps d \<noteq> [] \<and> list_ex (\<lambda>s. \<not> step_done s) (td_steps d)"

definition continuation_last_activity :: "stored_task \<Rightarrow> time" where
  "continuation_last_activity s =
     max (td_updated_at (st_document s))
       (case co_last_activity (st_continuation s) of None \<Rightarrow> 0 | Some a \<Rightarrow> a)"

record continuation_view =
  cv_eligible :: bool
  cv_pending :: bool
  cv_pending_expires_at :: "time option"
  cv_attempt_count :: nat
  cv_due_at :: time
  cv_exhausted :: bool

definition continuation_state :: "stored_task \<Rightarrow> time \<Rightarrow> continuation_view" where
  "continuation_state s now =
     (let c = st_continuation s;
          due = continuation_last_activity s + idle_s;
          due = (case co_retry_after c of None \<Rightarrow> due | Some r \<Rightarrow> max due r);
          exhausted = (max_attempts \<le> co_attempts c)
      in \<lparr>cv_eligible = (td_status (st_document s) = TaskActive \<and> continuation_unfinished (st_document s) \<and>
            \<not> exhausted \<and> co_claim c = None \<and> due \<le> now),
          cv_pending = (co_claim c \<noteq> None),
          cv_pending_expires_at = map_option (\<lambda>t. t + pending_ttl_s) (co_since c),
          cv_attempt_count = co_attempts c, cv_due_at = due, cv_exhausted = exhausted\<rparr>)"

definition claim_expired :: "time \<Rightarrow> continuation \<Rightarrow> bool" where
  "claim_expired now c \<longleftrightarrow>
     co_claim c \<noteq> None \<and> (case co_since c of None \<Rightarrow> False | Some t \<Rightarrow> pending_ttl_s \<le> now - t)"

definition expire_claim :: "time \<Rightarrow> stored_task \<Rightarrow> stored_task" where
  "expire_claim now s =
     (if claim_expired now (st_continuation s)
      then s\<lparr>st_continuation := clear_claim (st_continuation s)\<rparr> else s)"

definition observe_one ::
  "(json \<Rightarrow> nat) \<Rightarrow> task_config \<Rightarrow> outcome \<Rightarrow> ustr \<Rightarrow> time \<Rightarrow> ustr \<Rightarrow> tasks \<Rightarrow> tasks \<times> (task_error + unit)" where
  "observe_one bytes cfg w subject observed tid t =
     (case read_stored bytes cfg subject tid t of
        Inl e \<Rightarrow> (t, Inl e)
      | Inr s \<Rightarrow>
          let c = st_continuation s in
          if (case co_last_activity c of None \<Rightarrow> False | Some previous \<Rightarrow> observed \<le> previous)
          then (t, Inr ())
          else persist_stored bytes cfg w tid
                 (s\<lparr>st_continuation := withdraw_claim (c\<lparr>co_last_activity := Some observed\<rparr>)\<rparr>) t)"

fun observe_all ::
  "(json \<Rightarrow> nat) \<Rightarrow> task_config \<Rightarrow> (ustr \<Rightarrow> outcome) \<Rightarrow> ustr \<Rightarrow> time \<Rightarrow> ustr list \<Rightarrow> tasks \<Rightarrow>
   tasks \<times> (task_error + unit)" where
  "observe_all bytes cfg ws subject observed [] t = (t, Inr ())"
| "observe_all bytes cfg ws subject observed (tid # tids) t =
     (case observe_one bytes cfg (ws tid) subject observed tid t of
        (t', Inl e) \<Rightarrow> (t', Inl e)
      | (t', Inr _) \<Rightarrow> observe_all bytes cfg ws subject observed tids t')"

text \<open>\<open>dict.fromkeys(task_ids)\<close> keeps the first occurrence of each.\<close>

definition observe_agent_activity ::
  "(json \<Rightarrow> nat) \<Rightarrow> task_config \<Rightarrow> (ustr \<Rightarrow> outcome) \<Rightarrow> ustr \<Rightarrow> time \<Rightarrow> ustr list \<Rightarrow> tasks \<Rightarrow>
   tasks \<times> (task_error + unit)" where
  "observe_agent_activity bytes cfg ws subject observed tids =
     observe_all bytes cfg ws subject observed (rev (remdups (rev tids)))"

definition continuation_status ::
  "(json \<Rightarrow> nat) \<Rightarrow> task_config \<Rightarrow> ustr \<Rightarrow> ustr \<Rightarrow> time \<Rightarrow> tasks \<Rightarrow> task_error + continuation_view" where
  "continuation_status bytes cfg subject tid now t =
     (case read_stored bytes cfg subject tid t of
        Inl e \<Rightarrow> Inl e | Inr s \<Rightarrow> Inr (continuation_state s now))"

text \<open>The result of a claim or a validation is the claim it confirms.\<close>

definition claim_continuation ::
  "(json \<Rightarrow> nat) \<Rightarrow> task_config \<Rightarrow> outcome \<Rightarrow> ustr \<Rightarrow> ustr \<Rightarrow> time \<Rightarrow> ustr \<Rightarrow> tasks \<Rightarrow>
   tasks \<times> (task_error + ustr option \<times> continuation_view)" where
  "claim_continuation bytes cfg w subject tid now claim_id t =
     (case read_stored bytes cfg subject tid t of
        Inl e \<Rightarrow> (t, Inl e)
      | Inr stored \<Rightarrow>
          let expired = claim_expired now (st_continuation stored); s = expire_claim now stored in
          if co_claim (st_continuation s) \<noteq> None then (t, Inr (None, continuation_state s now))
          else if \<not> cv_eligible (continuation_state s now)
          then (if expired
                then case persist_stored bytes cfg w tid s t of
                       (t', Inl e) \<Rightarrow> (t', Inl e)
                     | (t', Inr _) \<Rightarrow> (t', Inr (None, continuation_state s now))
                else (t, Inr (None, continuation_state s now)))
          else let s' = s\<lparr>st_continuation := (st_continuation s)\<lparr>co_claim := Some claim_id,
                     co_since := Some now, co_reserved := False\<rparr>\<rparr>
               in case persist_stored bytes cfg w tid s' t of
                    (t', Inl e) \<Rightarrow> (t', Inl e)
                  | (t', Inr _) \<Rightarrow> (t', Inr (Some claim_id, continuation_state s' now)))"

definition claim_valid :: "ustr \<Rightarrow> time \<Rightarrow> stored_task \<Rightarrow> bool" where
  "claim_valid requested now s \<longleftrightarrow>
     co_claim (st_continuation s) = Some requested \<and> td_status (st_document s) = TaskActive \<and>
     continuation_unfinished (st_document s) \<and>
     (co_reserved (st_continuation s) \<or> co_attempts (st_continuation s) < max_attempts) \<and>
     continuation_last_activity s + idle_s \<le> now"

definition validate_continuation ::
  "(json \<Rightarrow> nat) \<Rightarrow> task_config \<Rightarrow> outcome \<Rightarrow> ustr \<Rightarrow> ustr \<Rightarrow> time \<Rightarrow> ustr \<Rightarrow> tasks \<Rightarrow>
   tasks \<times> (task_error + ustr option \<times> continuation_view)" where
  "validate_continuation bytes cfg w subject tid now claim_id t =
     (let requested = py_strip claim_id in
      if requested = [] then (t, Inl (TaskValue ClaimRequired))
      else case read_stored bytes cfg subject tid t of
        Inl e \<Rightarrow> (t, Inl e)
      | Inr stored \<Rightarrow>
          let expired = claim_expired now (st_continuation stored);
              s = expire_claim now stored;
              c = st_continuation s;
              valid = claim_valid requested now s;
              (c', changed) =
                (if valid \<and> \<not> co_reserved c
                 then (c\<lparr>co_attempts := co_attempts c + 1, co_reserved := True\<rparr>, True)
                 else if \<not> valid \<and> co_claim c = Some requested then (clear_claim c, True)
                 else (c, expired));
              s' = s\<lparr>st_continuation := c'\<rparr>;
              result = Inr (if valid then Some requested else None, continuation_state s' now)
          in if changed
             then case persist_stored bytes cfg w tid s' t of
                    (t', Inl e) \<Rightarrow> (t', Inl e)
                  | (t', Inr _) \<Rightarrow> (t', result)
             else (t, result))"

text \<open>The result of a report is what was reported, if it was.\<close>

definition report_continuation ::
  "(json \<Rightarrow> nat) \<Rightarrow> task_config \<Rightarrow> outcome \<Rightarrow> ustr \<Rightarrow> ustr \<Rightarrow> time \<Rightarrow> ustr \<Rightarrow> bool \<Rightarrow> tasks \<Rightarrow>
   tasks \<times> (task_error + bool option \<times> continuation_view)" where
  "report_continuation bytes cfg w subject tid now claim_id accepted t =
     (let requested = py_strip claim_id in
      if requested = [] then (t, Inl (TaskValue ClaimRequired))
      else case read_stored bytes cfg subject tid t of
        Inl e \<Rightarrow> (t, Inl e)
      | Inr s \<Rightarrow>
          let c = st_continuation s in
          if co_claim c \<noteq> Some requested then (t, Inr (None, continuation_state s now))
          else if \<not> co_reserved c then (t, Inl (TaskValue NotReserved))
          else let c' = (if accepted
                     then c\<lparr>co_last_activity := Some (max now
                              (case co_last_activity c of None \<Rightarrow> 0 | Some a \<Rightarrow> a)), co_retry_after := None\<rparr>
                     else c\<lparr>co_retry_after := Some (now + failure_backoff_s)\<rparr>);
                   s' = s\<lparr>st_continuation := clear_claim c'\<rparr>
               in case persist_stored bytes cfg w tid s' t of
                    (t', Inl e) \<Rightarrow> (t', Inl e)
                  | (t', Inr _) \<Rightarrow> (t', Inr (Some accepted, continuation_state s' now)))"

section \<open>Tasks and sessions\<close>

definition sessions_of :: "ustr \<Rightarrow> tasks \<Rightarrow> session_record list" where
  "sessions_of tid t = filter (\<lambda>r. task_text r = tid) (dict_values (cs_sessions (tk_control t)))"

definition task_session_ids :: "ustr \<Rightarrow> tasks \<Rightarrow> ustr list" where
  "task_session_ids tid t =
     map session_id (sort_key (\<lambda>r. (sr_created_at r, session_id r)) (sessions_of tid t))"

definition has_live_session :: "ustr \<Rightarrow> tasks \<Rightarrow> bool" where
  "has_live_session tid t \<longleftrightarrow> list_ex (\<lambda>r. status r \<noteq> Ended) (sessions_of tid t)"

definition remove_file :: "outcome \<Rightarrow> ustr \<Rightarrow> tasks \<Rightarrow> tasks \<times> (task_error + unit)" where
  "remove_file w tid t =
     (if lands w then t\<lparr>tk_files := AList.delete tid (tk_files t)\<rparr> else t,
      if reports w then Inr () else Inl (TaskIO OSError))"

text \<open>\<open>self._state.detach_task(task_id); self._store.remove(path)\<close>\<close>

definition detach_and_remove ::
  "write_io \<Rightarrow> outcome \<Rightarrow> ustr \<Rightarrow> tasks \<Rightarrow> tasks \<times> (task_error + unit)" where
  "detach_and_remove io w tid t =
     (case detach_task io tid (tk_control t) of
        (ctl, Inl e) \<Rightarrow> (t\<lparr>tk_control := ctl\<rparr>, Inl (TaskControl e))
      | (ctl, Inr _) \<Rightarrow> remove_file w tid (t\<lparr>tk_control := ctl\<rparr>))"

definition task_delete ::
  "(json \<Rightarrow> nat) \<Rightarrow> task_config \<Rightarrow> write_io \<Rightarrow> outcome \<Rightarrow> ustr \<Rightarrow> ustr \<Rightarrow> tasks \<Rightarrow>
   tasks \<times> (task_error + unit)" where
  "task_delete bytes cfg io w subject tid t =
     (case read_stored bytes cfg subject tid t of
        Inl e \<Rightarrow> (t, Inl e)
      | Inr s \<Rightarrow>
          if td_status (st_document s) \<notin> {TaskCompleted, TaskCancelled} then (t, Inl (TaskValue NotDeletable))
          else if list_ex (\<lambda>r. task_created r \<and> status r = Creating) (sessions_of tid t)
          then (t, Inl (TaskValue SessionCreating))
          else detach_and_remove io w tid t)"

definition admit_session_attachment ::
  "(json \<Rightarrow> nat) \<Rightarrow> task_config \<Rightarrow> write_io \<Rightarrow> outcome \<Rightarrow> ustr \<Rightarrow> session_record \<Rightarrow> tasks \<Rightarrow>
   tasks \<times> (task_error + unit)" where
  "admit_session_attachment bytes cfg io w subject r t =
     (let tid = task_text r in
      if tid = [] then (t, Inl (TaskValue TaskIdRequired))
      else case read_stored bytes cfg subject tid t of
        Inl e \<Rightarrow> (t, Inl e)
      | Inr s \<Rightarrow>
          if td_status (st_document s) = TaskCompleted then (t, Inl (TaskValue CompletedTask))
          else if td_status (st_document s) = TaskCancelled then (t, Inl (TaskValue TerminalTask))
          else case persist_stored bytes cfg w tid
                      (s\<lparr>st_session_count := map_option Suc (st_session_count s)\<rparr>) t of
                 (t', Inl e) \<Rightarrow> (t', Inl e)
               | (t', Inr _) \<Rightarrow>
                   (case put_session io r (tk_control t') of
                      (ctl, Inl e) \<Rightarrow> (t'\<lparr>tk_control := ctl\<rparr>, Inl (TaskControl e))
                    | (ctl, Inr _) \<Rightarrow> (t'\<lparr>tk_control := ctl\<rparr>, Inr ())))"

definition discard_failed_attachment ::
  "(json \<Rightarrow> nat) \<Rightarrow> task_config \<Rightarrow> write_io \<Rightarrow> outcome \<Rightarrow> ustr \<Rightarrow> session_record \<Rightarrow> tasks \<Rightarrow>
   tasks \<times> (task_error + unit)" where
  "discard_failed_attachment bytes cfg io w subject r t =
     (let tid = task_text r in
      if \<not> task_path_ok tid then (t, Inl (TaskValue BadTaskPath))
      else case map_of (cs_sessions (tk_control t)) (session_id r) of
        None \<Rightarrow> (t, Inr ())
      | Some retained \<Rightarrow>
          if status retained \<noteq> Creating then (t, Inr ())
          else if task_id retained \<noteq> None \<and> task_id retained \<noteq> task_id r then (t, Inr ())
          else case remove_session io (session_id r) (tk_control t) of
                 (ctl, Inl e) \<Rightarrow> (t\<lparr>tk_control := ctl\<rparr>, Inl (TaskControl e))
               | (ctl, Inr _) \<Rightarrow>
                   let t = t\<lparr>tk_control := ctl\<rparr> in
                   if task_id retained = None then (t, Inr ())
                   else case read_stored bytes cfg subject tid t of
                          Inl e \<Rightarrow> (t, Inl e)
                        | Inr s \<Rightarrow>
                            (case st_session_count s of
                               Some (Suc n) \<Rightarrow>
                                 persist_stored bytes cfg w tid (s\<lparr>st_session_count := Some n\<rparr>) t
                             | _ \<Rightarrow> (t, Inr ())))"

definition discard_implicit_task ::
  "(json \<Rightarrow> nat) \<Rightarrow> task_config \<Rightarrow> outcome \<Rightarrow> ustr \<Rightarrow> ustr \<Rightarrow> tasks \<Rightarrow> tasks \<times> (task_error + unit)" where
  "discard_implicit_task bytes cfg w subject tid t =
     (case read_stored bytes cfg subject tid t of
        Inl e \<Rightarrow> (t, Inl e)
      | Inr _ \<Rightarrow> if sessions_of tid t \<noteq> [] then (t, Inl TaskHasSessions) else remove_file w tid t)"


section \<open>Retention and creation\<close>

definition task_terminal :: "stored_task \<Rightarrow> bool" where
  "task_terminal s \<longleftrightarrow> td_status (st_document s) \<in> {TaskCompleted, TaskCancelled}"

text \<open>The regular files \<open>task_*.json\<close> of the task directory, by name.\<close>

definition task_paths :: "tasks \<Rightarrow> ustr list" where
  "task_paths t = sort_key (\<lambda>tid. tid @ lit ''.json'')
     (map fst (filter (\<lambda>(tid, c). starts_with (lit ''task_'') tid \<and> c \<noteq> TaskNotRegular) (tk_files t)))"

fun read_subject_tasks ::
  "(json \<Rightarrow> nat) \<Rightarrow> task_config \<Rightarrow> ustr \<Rightarrow> tasks \<Rightarrow> ustr list \<Rightarrow> task_error + stored_task list" where
  "read_subject_tasks bytes cfg subject t [] = Inr []"
| "read_subject_tasks bytes cfg subject t (tid # tids) =
     (case read_cell bytes cfg (tk_files t) tid of
        ReadRaises e \<Rightarrow> Inl (TaskIO e)
      | GoodTask s \<Rightarrow>
          (case read_subject_tasks bytes cfg subject t tids of
             Inl e \<Rightarrow> Inl e
           | Inr ss \<Rightarrow> Inr (if st_subject s = subject then s # ss else ss))
      | _ \<Rightarrow> read_subject_tasks bytes cfg subject t tids)"

definition iter_subject_tasks ::
  "(json \<Rightarrow> nat) \<Rightarrow> task_config \<Rightarrow> ustr \<Rightarrow> tasks \<Rightarrow> task_error + stored_task list" where
  "iter_subject_tasks bytes cfg subject t = read_subject_tasks bytes cfg subject t (task_paths t)"

definition task_order :: "stored_task \<Rightarrow> time \<times> time \<times> ustr" where
  "task_order s = (td_updated_at (st_document s), td_created_at (st_document s), st_task_id s)"

text \<open>\<open>_list_tasks_sync\<close>: the principal's tasks, the most recently updated first.\<close>

definition list_tasks ::
  "(json \<Rightarrow> nat) \<Rightarrow> task_config \<Rightarrow> ustr \<Rightarrow> tasks \<Rightarrow> task_error + (stored_task \<times> ustr list) list" where
  "list_tasks bytes cfg subject t =
     (case iter_subject_tasks bytes cfg subject t of
        Inl e \<Rightarrow> Inl e
      | Inr ss \<Rightarrow> Inr (map (\<lambda>s. (s, task_session_ids (st_task_id s) t)) (rev (sort_key task_order (rev ss)))))"

definition remove_retained_terminal ::
  "(json \<Rightarrow> nat) \<Rightarrow> task_config \<Rightarrow> write_io \<Rightarrow> outcome \<Rightarrow> ustr \<Rightarrow> ustr \<Rightarrow> time option \<Rightarrow> tasks \<Rightarrow>
   tasks \<times> (task_error + bool)" where
  "remove_retained_terminal bytes cfg io w subject tid stale_before t =
     (if \<not> task_path_ok tid then (t, Inl (TaskValue BadTaskPath))
      else case read_cell bytes cfg (tk_files t) tid of
        ReadRaises e \<Rightarrow> (t, Inl (TaskIO e))
      | NoTask \<Rightarrow> (t, Inr True)
      | BadTask \<Rightarrow> (t, Inr False)
      | GoodTask s \<Rightarrow>
          if st_subject s \<noteq> subject then (t, Inr False)
          else if \<not> task_terminal s then (t, Inr False)
          else if has_live_session tid t then (t, Inr False)
          else if (case stale_before of None \<Rightarrow> False | Some b \<Rightarrow> b \<le> td_updated_at (st_document s))
          then (t, Inr False)
          else case detach_and_remove io w tid t of
                 (t', Inl e) \<Rightarrow> (t', Inl e)
               | (t', Inr _) \<Rightarrow> (t', Inr True))"

text \<open>The two loops of \<open>_prune_for_create\<close>; \<open>ios\<close> and \<open>ws\<close> are the outcomes by task.\<close>

fun prune_stale ::
  "(json \<Rightarrow> nat) \<Rightarrow> task_config \<Rightarrow> (ustr \<Rightarrow> write_io) \<Rightarrow> (ustr \<Rightarrow> outcome) \<Rightarrow> ustr \<Rightarrow> time \<Rightarrow>
   stored_task list \<Rightarrow> ustr list \<Rightarrow> tasks \<Rightarrow> tasks \<times> (task_error + ustr list)" where
  "prune_stale bytes cfg ios ws subject stale_before [] remaining t = (t, Inr remaining)"
| "prune_stale bytes cfg ios ws subject stale_before (s # ss) remaining t =
     (if stale_before \<le> td_updated_at (st_document s)
      then prune_stale bytes cfg ios ws subject stale_before ss remaining t
      else case remove_retained_terminal bytes cfg (ios (st_task_id s)) (ws (st_task_id s)) subject (st_task_id s)
                  (Some stale_before) t of
             (t', Inl e) \<Rightarrow> (t', Inl e)
           | (t', Inr removed) \<Rightarrow>
               prune_stale bytes cfg ios ws subject stale_before ss
                 (if removed then removeAll (st_task_id s) remaining else remaining) t')"

fun prune_excess ::
  "(json \<Rightarrow> nat) \<Rightarrow> task_config \<Rightarrow> (ustr \<Rightarrow> write_io) \<Rightarrow> (ustr \<Rightarrow> outcome) \<Rightarrow> ustr \<Rightarrow> stored_task list \<Rightarrow>
   ustr list \<Rightarrow> nat \<Rightarrow> tasks \<Rightarrow> tasks \<times> (task_error + unit)" where
  "prune_excess bytes cfg ios ws subject [] remaining count t = (t, Inr ())"
| "prune_excess bytes cfg ios ws subject (s # ss) remaining count t =
     (if st_task_id s \<notin> set remaining then prune_excess bytes cfg ios ws subject ss remaining count t
      else case remove_retained_terminal bytes cfg (ios (st_task_id s)) (ws (st_task_id s)) subject (st_task_id s)
                  None t of
             (t', Inl e) \<Rightarrow> (t', Inl e)
           | (t', Inr removed) \<Rightarrow>
               let count = (if removed then count - 1 else count)
               in if count \<le> history_limit then (t', Inr ())
                  else prune_excess bytes cfg ios ws subject ss remaining count t')"

definition prune_for_create ::
  "(json \<Rightarrow> nat) \<Rightarrow> task_config \<Rightarrow> (ustr \<Rightarrow> write_io) \<Rightarrow> (ustr \<Rightarrow> outcome) \<Rightarrow> ustr \<Rightarrow> time \<Rightarrow> tasks \<Rightarrow>
   tasks \<times> (task_error + unit)" where
  "prune_for_create bytes cfg ios ws subject now t =
     (case iter_subject_tasks bytes cfg subject t of
        Inl e \<Rightarrow> (t, Inl e)
      | Inr ss \<Rightarrow>
          let terminal = sort_key task_order (filter task_terminal ss) in
          case prune_stale bytes cfg ios ws subject (now - terminal_retention_s) terminal (map st_task_id ss) t of
            (t', Inl e) \<Rightarrow> (t', Inl e)
          | (t', Inr remaining) \<Rightarrow>
              let count = length (filter (\<lambda>s. st_task_id s \<in> set remaining) terminal)
              in if history_limit < count
                 then prune_excess bytes cfg ios ws subject terminal remaining count t'
                 else (t', Inr ()))"

definition optional_field :: "ustr option \<Rightarrow> nat \<Rightarrow> value_error + ustr option" where
  "optional_field s m = (case s of None \<Rightarrow> Inr None | Some x \<Rightarrow> optional_text x m)"

definition new_task :: "ustr \<Rightarrow> ustr \<Rightarrow> time \<Rightarrow> ustr option \<Rightarrow> ustr option \<Rightarrow> stored_task" where
  "new_task tid subject now lab objective =
     \<lparr>st_task_id = tid, st_subject = subject,
      st_document = \<lparr>td_created_at = now, td_updated_at = now, td_label = lab, td_objective = objective,
        td_status = TaskActive,
        td_progress = \<lparr>tp_summary = None, tp_findings = [], tp_next_action = None, tp_blockers = []\<rparr>,
        td_steps = []\<rparr>,
      st_session_count = Some 0, st_continuation = new_continuation\<rparr>"

definition create_task ::
  "(json \<Rightarrow> nat) \<Rightarrow> task_config \<Rightarrow> (ustr \<Rightarrow> write_io) \<Rightarrow> (ustr \<Rightarrow> outcome) \<Rightarrow> outcome \<Rightarrow> ustr \<Rightarrow> time \<Rightarrow> time \<Rightarrow>
   ustr \<Rightarrow> ustr option \<Rightarrow> ustr option \<Rightarrow> tasks \<Rightarrow> tasks \<times> (task_error + stored_task)" where
  "create_task bytes cfg ios ws w subject prune_now now tid lab objective t =
     (case prune_for_create bytes cfg ios ws subject prune_now t of
        (t', Inl e) \<Rightarrow> (t', Inl e)
      | (t', Inr _) \<Rightarrow>
          (case optional_field lab label_max_bytes of
             Inl e \<Rightarrow> (t', Inl (TaskValue e))
           | Inr l \<Rightarrow>
               (case optional_field objective text_max_bytes of
                  Inl e \<Rightarrow> (t', Inl (TaskValue e))
                | Inr obj \<Rightarrow>
                    let s = new_task tid subject now l obj in
                    case persist_stored bytes cfg w tid s t' of
                      (t'', Inl e) \<Rightarrow> (t'', Inl e)
                    | (t'', Inr _) \<Rightarrow> (t'', Inr s))))"

definition create_for_session ::
  "(json \<Rightarrow> nat) \<Rightarrow> task_config \<Rightarrow> (ustr \<Rightarrow> write_io) \<Rightarrow> (ustr \<Rightarrow> outcome) \<Rightarrow> outcome \<Rightarrow> write_io \<Rightarrow> outcome \<Rightarrow>
   outcome \<Rightarrow> ustr \<Rightarrow> time \<Rightarrow> time \<Rightarrow> ustr \<Rightarrow> session_record \<Rightarrow> tasks \<Rightarrow> tasks \<times> (task_error + session_record)" where
  "create_for_session bytes cfg ios ws w_create io w_admit w_discard subject prune_now now tid r t =
     (let lab = (case label r of Some l \<Rightarrow> if label_max_bytes < utf8_len l then None else Some l | None \<Rightarrow> None) in
      case create_task bytes cfg ios ws w_create subject prune_now now tid lab None t of
        (t', Inl e) \<Rightarrow> (t', Inl e)
      | (t', Inr s) \<Rightarrow>
          let attached = r\<lparr>task_id := Some (st_task_id s), task_created := True\<rparr> in
          case admit_session_attachment bytes cfg io w_admit subject attached t' of
            (t'', Inr _) \<Rightarrow> (t'', Inr attached)
          | (t'', Inl e) \<Rightarrow>
              (case discard_implicit_task bytes cfg w_discard subject tid t'' of
                 (t3, Inl e') \<Rightarrow> (t3, Inl e')
               | (t3, Inr _) \<Rightarrow> (t3, Inl e)))"

section \<open>The idle sweep\<close>

text \<open>
  The decision on one task with its sessions: the blocked task, when there is evidence. \<open>jobs\<close> is
  the callback into the job store, when there is one.
\<close>

definition job_evidence :: "(ustr list \<Rightarrow> time option) option \<Rightarrow> session_record list \<Rightarrow> time option" where
  "job_evidence jobs sessions =
     (if sessions = [] then Some 0
      else case jobs of None \<Rightarrow> None | Some f \<Rightarrow> f (map session_id sessions))"

definition block_idle :: "time \<Rightarrow> stored_task \<Rightarrow> stored_task" where
  "block_idle now s =
     (let d = st_document s; p = td_progress d
      in s\<lparr>st_document := d\<lparr>td_status := TaskBlocked, td_updated_at := now,
             td_progress := p\<lparr>tp_blockers := tp_blockers p @ [idle_reason]\<rparr>\<rparr>,
           st_continuation := clear_claim (st_continuation s)\<rparr>)"

definition sweep_decision ::
  "task_config \<Rightarrow> (ustr list \<Rightarrow> time option) option \<Rightarrow> time \<Rightarrow> session_record list \<Rightarrow> stored_task \<Rightarrow> stored_task option" where
  "sweep_decision cfg jobs now sessions s =
     (if co_claim (st_continuation s) \<noteq> None then None
      else if st_session_count s \<noteq> Some (length sessions) then None
      else if list_ex (\<lambda>r. status r \<noteq> Ended \<or> \<not> executor_absence_confirmed r) sessions then None
      else case job_evidence jobs sessions of
             None \<Rightarrow> None
           | Some job_activity \<Rightarrow>
               let last_activity = Max (set (continuation_last_activity s # job_activity # map sr_updated_at sessions))
               in if now < last_activity + of_nat (tc_idle_s cfg) then None
                  else if report_list_limit \<le> length (tp_blockers (td_progress (st_document s))) then None
                  else Some (block_idle now s))"

text \<open>
  One task file of the sweep: whether the task was blocked. \<open>w1\<close> and \<open>w2\<close> are the outcomes of its
  two writes.
\<close>

definition sweep_one ::
  "(json \<Rightarrow> nat) \<Rightarrow> task_config \<Rightarrow> outcome \<Rightarrow> outcome \<Rightarrow> (ustr list \<Rightarrow> time option) option \<Rightarrow> time \<Rightarrow> ustr \<Rightarrow>
   tasks \<Rightarrow> tasks \<times> (task_error + bool)" where
  "sweep_one bytes cfg w1 w2 jobs now tid t =
     (case read_cell bytes cfg (tk_files t) tid of
        ReadRaises e \<Rightarrow> (t, Inl (TaskIO e))
      | GoodTask stored \<Rightarrow>
          if \<not> task_path_ok (st_task_id stored) then (t, Inl (TaskValue BadTaskPath))
          else if st_task_id stored \<noteq> tid then (t, Inr False)
          else if td_status (st_document stored) \<noteq> TaskActive then (t, Inr False)
          else
            let s = expire_claim now stored;
                (t, first) = (if claim_expired now (st_continuation stored)
                              then persist_stored bytes cfg w1 tid s t else (t, Inr ()))
            in (case first of
                  Inl e \<Rightarrow> (t, Inl e)
                | Inr _ \<Rightarrow>
                    (case sweep_decision cfg jobs now (sessions_of tid t) s of
                       None \<Rightarrow> (t, Inr False)
                     | Some s' \<Rightarrow>
                         (case persist_stored bytes cfg w2 tid s' t of
                            (t', Inl e) \<Rightarrow> (t', Inl e)
                          | (t', Inr _) \<Rightarrow> (t', Inr True))))
      | _ \<Rightarrow> (t, Inr False))"

fun sweep_all ::
  "(json \<Rightarrow> nat) \<Rightarrow> task_config \<Rightarrow> (ustr \<Rightarrow> outcome \<times> outcome) \<Rightarrow> (ustr list \<Rightarrow> time option) option \<Rightarrow> time \<Rightarrow>
   ustr list \<Rightarrow> tasks \<Rightarrow> tasks \<times> (task_error + nat)" where
  "sweep_all bytes cfg ws jobs now [] t = (t, Inr 0)"
| "sweep_all bytes cfg ws jobs now (tid # tids) t =
     (case sweep_one bytes cfg (fst (ws tid)) (snd (ws tid)) jobs now tid t of
        (t', Inl e) \<Rightarrow> (t', Inl e)
      | (t', Inr b) \<Rightarrow>
          (case sweep_all bytes cfg ws jobs now tids t' of
             (t'', Inl e) \<Rightarrow> (t'', Inl e)
           | (t'', Inr n) \<Rightarrow> (t'', Inr (if b then Suc n else n))))"

definition sweep_idle_tasks ::
  "(json \<Rightarrow> nat) \<Rightarrow> task_config \<Rightarrow> (ustr \<Rightarrow> outcome \<times> outcome) \<Rightarrow> (ustr list \<Rightarrow> time option) option \<Rightarrow> time \<Rightarrow>
   tasks \<Rightarrow> tasks \<times> (task_error + nat)" where
  "sweep_idle_tasks bytes cfg ws jobs now t =
     (if tc_idle_s cfg = 0 then (t, Inr 0) else sweep_all bytes cfg ws jobs now (task_paths t) t)"


section \<open>What one transaction does to a task file\<close>

abbreviation stored_at :: "tasks \<Rightarrow> ustr \<Rightarrow> task_cell option" where
  "stored_at t \<equiv> map_of (tk_files t)"

definition touches :: "ustr \<Rightarrow> (stored_task \<Rightarrow> stored_task \<Rightarrow> bool) \<Rightarrow> tasks \<Rightarrow> tasks \<Rightarrow> bool" where
  "touches tid R t t' \<longleftrightarrow> tk_control t' = tk_control t \<and>
     (stored_at t' = stored_at t \<or>
      task_path_ok tid \<and> (\<exists>s s'. stored_at t tid = Some (TaskDoc s) \<and> R s s' \<and>
        stored_at t' = (stored_at t)(tid \<mapsto> TaskDoc s')))"

lemma touches_refl [simp]: "touches tid R t t"
  by (simp add: touches_def)

lemma touches_mono: "touches tid R t t' \<Longrightarrow> (\<And>s s'. R s s' \<Longrightarrow> Q s s') \<Longrightarrow> touches tid Q t t'"
  unfolding touches_def by blast

lemma read_cell_GoodTask: "read_cell bytes cfg files tid = GoodTask s \<Longrightarrow> map_of files tid = Some (TaskDoc s)"
  by (auto simp: read_cell_def split: option.splits task_cell.splits if_splits)

lemma read_stored_Inr:
  "read_stored bytes cfg subject tid t = Inr s \<Longrightarrow>
   task_path_ok tid \<and> stored_at t tid = Some (TaskDoc s) \<and> st_subject s = subject"
  by (auto simp: read_stored_def dest: read_cell_GoodTask split: if_splits task_read.splits)

lemma persist_stored_effect:
  assumes "persist_stored bytes cfg w tid s t = (t', res)"
  shows "tk_control t' = tk_control t \<and>
    (stored_at t' = stored_at t \<and> res \<noteq> Inr () \<or> stored_at t' = (stored_at t)(tid \<mapsto> TaskDoc s))"
  using assms by (cases w) (auto simp: persist_stored_def split: if_splits)

lemma persist_touches:
  assumes "read_stored bytes cfg subject tid t = Inr s" and "persist_stored bytes cfg w tid s' t = (t', res)"
    and "R s s'"
  shows "touches tid R t t'"
  using read_stored_Inr [OF assms(1)] persist_stored_effect [OF assms(2)] assms(3) unfolding touches_def by blast

definition mutated :: "(task_document \<Rightarrow> value_error + task_document) \<Rightarrow> time \<Rightarrow> stored_task \<Rightarrow> stored_task \<Rightarrow> bool" where
  "mutated f now s s' \<longleftrightarrow> (\<exists>d. f (st_document s) = Inr d \<and>
     s' = s\<lparr>st_document := d\<lparr>td_updated_at := now\<rparr>, st_continuation := withdraw_claim (st_continuation s)\<rparr>)"

lemma mutate_task_cases:
  assumes "mutate_task bytes cfg w subject tid now f t = (t', res)"
  obtains (error) e where "t' = t" "res = Inl e"
  | (wrote) s s' r where "read_stored bytes cfg subject tid t = Inr s" "mutated f now s s'"
      "persist_stored bytes cfg w tid s' t = (t', r)" "res = (case r of Inl e \<Rightarrow> Inl e | Inr _ \<Rightarrow> Inr s')"
proof (cases "read_stored bytes cfg subject tid t")
  case (Inl e)
  with assms show thesis by (intro that(1) [of e]) (simp_all add: mutate_task_def update_stored_def)
next
  case (Inr s)
  show thesis
  proof (cases "f (st_document s)")
    case (Inl e)
    with assms Inr show thesis by (intro that(1) [of "TaskValue e"]) (simp_all add: mutate_task_def update_stored_def)
  next
    case d: (Inr d)
    let ?s = "s\<lparr>st_document := d\<lparr>td_updated_at := now\<rparr>, st_continuation := withdraw_claim (st_continuation s)\<rparr>"
    obtain t1 r where p: "persist_stored bytes cfg w tid ?s t = (t1, r)" by fastforce
    have "mutated f now s ?s" using d by (auto simp: mutated_def)
    with assms Inr d p that(2) show thesis by (cases r) (auto simp: mutate_task_def update_stored_def)
  qed
qed

lemma mutate_touches:
  "mutate_task bytes cfg w subject tid now f t = (t', res) \<Longrightarrow> touches tid (mutated f now) t t'"
  by (erule mutate_task_cases) (auto intro: persist_touches)

definition observed_by :: "time \<Rightarrow> stored_task \<Rightarrow> stored_task \<Rightarrow> bool" where
  "observed_by observed s s' \<longleftrightarrow>
     s' = s\<lparr>st_continuation := withdraw_claim ((st_continuation s)\<lparr>co_last_activity := Some observed\<rparr>)\<rparr>"

lemma observe_touches:
  "observe_one bytes cfg w subject observed tid t = (t', res) \<Longrightarrow> touches tid (observed_by observed) t t'"
  by (auto simp: observe_one_def Let_def observed_by_def intro: persist_touches split: sum.splits if_splits option.splits)

definition claimed_by :: "ustr \<Rightarrow> time \<Rightarrow> stored_task \<Rightarrow> stored_task \<Rightarrow> bool" where
  "claimed_by claim_id now s s' \<longleftrightarrow> s' = expire_claim now s \<or>
     cv_eligible (continuation_state (expire_claim now s) now) \<and>
     s' = (expire_claim now s)\<lparr>st_continuation := (st_continuation (expire_claim now s))\<lparr>co_claim := Some claim_id,
       co_since := Some now, co_reserved := False\<rparr>\<rparr>"

lemma claim_touches:
  "claim_continuation bytes cfg w subject tid now claim_id t = (t', res) \<Longrightarrow>
   touches tid (claimed_by claim_id now) t t'"
  by (auto simp: claim_continuation_def Let_def claimed_by_def split: sum.splits if_splits prod.splits
      elim!: persist_touches)

definition validated_by :: "ustr \<Rightarrow> time \<Rightarrow> stored_task \<Rightarrow> stored_task \<Rightarrow> bool" where
  "validated_by requested now s0 s' \<longleftrightarrow>
     (let s = expire_claim now s0; c = st_continuation s in
      claim_valid requested now s \<and> \<not> co_reserved c \<and>
        s' = s\<lparr>st_continuation := c\<lparr>co_attempts := co_attempts c + 1, co_reserved := True\<rparr>\<rparr> \<or>
      \<not> claim_valid requested now s \<and> co_claim c = Some requested \<and> s' = s\<lparr>st_continuation := clear_claim c\<rparr> \<or>
      s' = s)"

lemma validate_touches:
  "validate_continuation bytes cfg w subject tid now claim_id t = (t', res) \<Longrightarrow>
   touches tid (validated_by (py_strip claim_id) now) t t'"
  by (auto simp: validate_continuation_def Let_def validated_by_def split: sum.splits if_splits prod.splits
      elim!: persist_touches)

definition reported_by :: "ustr \<Rightarrow> stored_task \<Rightarrow> stored_task \<Rightarrow> bool" where
  "reported_by requested s s' \<longleftrightarrow>
     co_claim (st_continuation s) = Some requested \<and> co_reserved (st_continuation s) \<and>
     (\<exists>c. s' = s\<lparr>st_continuation := c\<rparr> \<and> co_claim c = None \<and> co_since c = None \<and> \<not> co_reserved c \<and>
        co_attempts c = co_attempts (st_continuation s))"

lemma report_touches:
  assumes "report_continuation bytes cfg w subject tid now claim_id accepted t = (t', res)"
  shows "touches tid (reported_by (py_strip claim_id)) t t'"
proof -
  have "reported_by r s (s\<lparr>st_continuation := clear_claim c\<rparr>)"
    if "co_claim (st_continuation s) = Some r" "co_reserved (st_continuation s)"
      "co_attempts c = co_attempts (st_continuation s)" for r s c
    using that unfolding reported_by_def by (auto simp: clear_claim_def intro!: exI [of _ "clear_claim c"])
  then show ?thesis
    using assms by (auto simp: report_continuation_def Let_def split: sum.splits if_splits prod.splits
        elim!: persist_touches)
qed


section \<open>What every transaction respects\<close>

definition continuation_ok :: "continuation \<Rightarrow> bool" where
  "continuation_ok c \<longleftrightarrow> (co_claim c = None \<longleftrightarrow> co_since c = None) \<and>
     (co_reserved c \<longrightarrow> co_claim c \<noteq> None \<and> 0 < co_attempts c) \<and> co_attempts c \<le> max_attempts"

definition task_ok :: "nat \<Rightarrow> stored_task \<Rightarrow> bool" where
  "task_ok m s \<longleftrightarrow> document_ok m (st_document s) \<and> continuation_ok (st_continuation s)"

text \<open>
  A lawful change of a task: its identity, owner and session count stay, its status moves along the
  life cycle, it stays well formed, and its attempts never decrease.
\<close>

definition lawful :: "nat \<Rightarrow> stored_task \<Rightarrow> stored_task \<Rightarrow> bool" where
  "lawful m s s' \<longleftrightarrow> st_task_id s' = st_task_id s \<and> st_subject s' = st_subject s \<and>
     st_session_count s' = st_session_count s \<and>
     status_moves (td_status (st_document s)) (td_status (st_document s')) \<and>
     co_attempts (st_continuation s) \<le> co_attempts (st_continuation s') \<and>
     (task_ok m s \<longrightarrow> task_ok m s')"

lemma continuation_ok_clear [simp]:
  "continuation_ok c \<Longrightarrow> continuation_ok (clear_claim c)"
  "continuation_ok c \<Longrightarrow> continuation_ok (withdraw_claim c)"
  by (simp_all add: continuation_ok_def clear_claim_def withdraw_claim_def)

lemma continuation_ok_activity [simp]:
  "continuation_ok (c\<lparr>co_last_activity := a\<rparr>) = continuation_ok c"
  by (simp add: continuation_ok_def)

lemma clear_claim_attempts [simp]:
  "co_attempts (clear_claim c) = co_attempts c" "co_attempts (withdraw_claim c) = co_attempts c"
  by (simp_all add: clear_claim_def withdraw_claim_def)

lemma expire_claim_frame [simp]:
  "st_task_id (expire_claim now s) = st_task_id s" "st_subject (expire_claim now s) = st_subject s"
  "st_session_count (expire_claim now s) = st_session_count s"
  "st_document (expire_claim now s) = st_document s"
  "co_attempts (st_continuation (expire_claim now s)) = co_attempts (st_continuation s)"
  by (simp_all add: expire_claim_def)

lemma expire_claim_ok: "continuation_ok (st_continuation s) \<Longrightarrow> continuation_ok (st_continuation (expire_claim now s))"
  by (simp add: expire_claim_def)

lemma status_moves_refl [simp]: "status_moves a a"
  by (simp add: status_moves_def)

lemma lawful_mutated:
  assumes "mutated f now s s'" and "\<And>d'. f (st_document s) = Inr d' \<Longrightarrow> document_moves m (st_document s) d'"
  shows "lawful m s s'"
proof -
  from assms(1) obtain d where d: "f (st_document s) = Inr d"
    "s' = s\<lparr>st_document := d\<lparr>td_updated_at := now\<rparr>, st_continuation := withdraw_claim (st_continuation s)\<rparr>"
    by (auto simp: mutated_def)
  from assms(2) [OF d(1)] d(2) show ?thesis
    by (simp add: lawful_def task_ok_def document_moves_def document_ok_def)
qed

lemma lawful_observed: "observed_by observed s s' \<Longrightarrow> lawful m s s'"
  by (simp add: observed_by_def lawful_def task_ok_def)

lemma lawful_expired [simp]: "lawful m s (expire_claim now s)"
  by (simp add: lawful_def task_ok_def expire_claim_ok)

lemma lawful_expired_then:
  assumes "continuation_ok (st_continuation (expire_claim now s)) \<Longrightarrow> continuation_ok c"
    and "co_attempts (st_continuation s) \<le> co_attempts c"
  shows "lawful m s ((expire_claim now s)\<lparr>st_continuation := c\<rparr>)"
  using assms expire_claim_ok [of s now] by (simp add: lawful_def task_ok_def)

lemma lawful_claimed:
  assumes "claimed_by claim_id now s s'"
  shows "lawful m s s'"
proof -
  let ?c = "st_continuation (expire_claim now s)"
  have "lawful m s ((expire_claim now s)\<lparr>st_continuation := ?c\<lparr>co_claim := Some claim_id, co_since := Some now,
      co_reserved := False\<rparr>\<rparr>)"
    by (rule lawful_expired_then) (simp_all add: continuation_ok_def)
  with assms show ?thesis unfolding claimed_by_def by auto
qed

lemma lawful_validated:
  assumes "validated_by requested now s s'"
  shows "lawful m s s'"
proof -
  let ?c = "st_continuation (expire_claim now s)"
  have "lawful m s ((expire_claim now s)\<lparr>st_continuation := ?c\<lparr>co_attempts := co_attempts ?c + 1, co_reserved := True\<rparr>\<rparr>)"
    if "claim_valid requested now (expire_claim now s)" "\<not> co_reserved ?c"
    by (rule lawful_expired_then) (use that in \<open>auto simp: continuation_ok_def claim_valid_def\<close>)
  moreover have "lawful m s ((expire_claim now s)\<lparr>st_continuation := clear_claim ?c\<rparr>)"
    by (rule lawful_expired_then) simp_all
  ultimately show ?thesis using assms unfolding validated_by_def Let_def by auto
qed

lemma lawful_reported: "reported_by requested s s' \<Longrightarrow> lawful m s s'"
  by (auto simp: reported_by_def lawful_def task_ok_def continuation_ok_def)

text \<open>The idle sweep of one file: nothing, an expired claim, or the block.\<close>

definition blocked_by_sweep :: "time \<Rightarrow> stored_task \<Rightarrow> stored_task \<Rightarrow> bool" where
  "blocked_by_sweep now s s' \<longleftrightarrow>
     td_status (st_document s) = TaskActive \<and> s' = block_idle now (expire_claim now s)"

lemma lawful_blocked: "blocked_by_sweep now s s' \<Longrightarrow> lawful m s s'"
  by (auto simp: blocked_by_sweep_def block_idle_def Let_def lawful_def task_ok_def document_ok_def
      status_moves_def expire_claim_ok)

lemma sessions_of_control: "tk_control t' = tk_control t \<Longrightarrow> sessions_of tid t' = sessions_of tid t"
  by (simp add: sessions_of_def)


lemma sweep_decision_Some:
  assumes "sweep_decision cfg jobs now sessions s = Some s'"
  obtains a where "s' = block_idle now s" "co_claim (st_continuation s) = None"
    "st_session_count s = Some (length sessions)"
    "\<And>r. r \<in> set sessions \<Longrightarrow> status r = Ended \<and> executor_absence_confirmed r \<and>
      sr_updated_at r + of_nat (tc_idle_s cfg) \<le> now"
    "continuation_last_activity s + of_nat (tc_idle_s cfg) \<le> now"
    "job_evidence jobs sessions = Some a" "a + of_nat (tc_idle_s cfg) \<le> now"
    "length (tp_blockers (td_progress (st_document s))) < report_list_limit"
proof -
  from assms obtain a where a: "job_evidence jobs sessions = Some a"
    and last_le: "Max (set (continuation_last_activity s # a # map sr_updated_at sessions)) + of_nat (tc_idle_s cfg) \<le> now"
    and rest: "s' = block_idle now s" "co_claim (st_continuation s) = None" "st_session_count s = Some (length sessions)"
      "\<not> list_ex (\<lambda>r. status r \<noteq> Ended \<or> \<not> executor_absence_confirmed r) sessions"
      "length (tp_blockers (td_progress (st_document s))) < report_list_limit"
    by (auto simp: sweep_decision_def Let_def split: if_splits option.splits)
  have le: "x + of_nat (tc_idle_s cfg) \<le> now"
    if "x \<in> set (continuation_last_activity s # a # map sr_updated_at sessions)" for x
  proof -
    have "x \<le> Max (set (continuation_last_activity s # a # map sr_updated_at sessions))"
      using that by (intro Max_ge) simp_all
    with last_le show ?thesis by linarith
  qed
  show thesis
    by (rule that [OF rest(1-3) _ _ a _ rest(5)]) (use rest(4) le in \<open>auto simp: list_ex_iff\<close>)
qed

lemma sweep_one_cases:
  assumes "sweep_one bytes cfg w1 w2 jobs now tid t = (t', res)"
  obtains (idle) "stored_at t' = stored_at t" "tk_control t' = tk_control t" "res \<noteq> Inr True"
  | (expired) s where "task_path_ok tid" "stored_at t tid = Some (TaskDoc s)" "tk_control t' = tk_control t"
      "stored_at t' = (stored_at t)(tid \<mapsto> TaskDoc (expire_claim now s))" "res \<noteq> Inr True"
  | (blocked) s where "task_path_ok tid" "stored_at t tid = Some (TaskDoc s)" "tk_control t' = tk_control t"
      "td_status (st_document s) = TaskActive"
      "sweep_decision cfg jobs now (sessions_of tid t) (expire_claim now s) = Some (block_idle now (expire_claim now s))"
      "stored_at t' = (stored_at t)(tid \<mapsto> TaskDoc (block_idle now (expire_claim now s)))"
proof (cases "read_cell bytes cfg (tk_files t) tid")
  case (GoodTask s)
  note doc = read_cell_GoodTask [OF GoodTask]
  let ?s = "expire_claim now s"
  show thesis
  proof (cases "task_path_ok tid \<and> st_task_id s = tid \<and> td_status (st_document s) = TaskActive")
    case False
    with assms GoodTask show thesis
      by (intro that(1)) (auto simp: sweep_one_def split: if_splits)
  next
    case act: True
    obtain t1 r where f: "(if claim_expired now (st_continuation s) then persist_stored bytes cfg w1 tid ?s t else (t, Inr ())) = (t1, r)"
      by fastforce
    have t1: "tk_control t1 = tk_control t \<and> (stored_at t1 = stored_at t \<or>
        stored_at t1 = (stored_at t)(tid \<mapsto> TaskDoc ?s))"
      using f persist_stored_effect [of bytes cfg w1 tid ?s t t1 r] by (auto split: if_splits)
    have ss: "sessions_of tid t1 = sessions_of tid t" using t1 sessions_of_control by blast
    have step: "sweep_one bytes cfg w1 w2 jobs now tid t =
        (case r of Inl e \<Rightarrow> (t1, Inl e) | Inr _ \<Rightarrow>
          (case sweep_decision cfg jobs now (sessions_of tid t) ?s of
             None \<Rightarrow> (t1, Inr False)
           | Some s' \<Rightarrow> (case persist_stored bytes cfg w2 tid s' t1 of
                            (t', Inl e) \<Rightarrow> (t', Inl e)
                          | (t', Inr _) \<Rightarrow> (t', Inr True))))"
      using GoodTask act f ss unfolding sweep_one_def by (simp add: Let_def)
    show thesis
    proof (cases "r = Inr () \<and> sweep_decision cfg jobs now (sessions_of tid t) ?s \<noteq> None")
      case False
      have "t' = t1 \<and> res \<noteq> Inr True"
        using assms False unfolding step by (auto split: sum.splits option.splits)
      with t1 doc act that(1,2) show thesis by metis
    next
      case True
      then obtain s' where s': "r = Inr ()" "sweep_decision cfg jobs now (sessions_of tid t) ?s = Some s'" by auto
      from s'(2) have block: "s' = block_idle now ?s" by (rule sweep_decision_Some)
      obtain t2 r2 where p: "persist_stored bytes cfg w2 tid s' t1 = (t2, r2)" by fastforce
      have res: "t' = t2 \<and> (res = Inr True \<longrightarrow> r2 = Inr ())"
        using assms s' p unfolding step by (auto split: sum.splits)
      have t2: "tk_control t2 = tk_control t"
        using persist_stored_effect [OF p] t1 by auto
      have "stored_at t2 = stored_at t1 \<and> r2 \<noteq> Inr () \<or> stored_at t2 = (stored_at t)(tid \<mapsto> TaskDoc s')"
        using persist_stored_effect [OF p] t1 by fastforce
      then consider "stored_at t2 = stored_at t1" "r2 \<noteq> Inr ()" | "stored_at t2 = (stored_at t)(tid \<mapsto> TaskDoc s')"
        by blast
      then show thesis
      proof cases
        case 1
        with t1 t2 res act doc that(1,2) show thesis by metis
      next
        case 2
        with t2 res act doc s' block show thesis by (intro that(3) [of s]) auto
      qed
    qed
  qed
next
  case NoTask
  with assms show thesis by (intro that(1)) (auto simp: sweep_one_def)
next
  case BadTask
  with assms show thesis by (intro that(1)) (auto simp: sweep_one_def)
next
  case (ReadRaises e)
  with assms show thesis by (intro that(1)) (auto simp: sweep_one_def)
qed

end
