(* ===== verification/Task_Safety.thy ===== *)
theory Task_Safety
  imports Task_State
begin

text \<open>
  The runs of the task service: its state machine over the transactions of \<open>Task_State\<close>, the
  invariant of task files and attached sessions, and the correctness of automatic continuation, of
  the idle sweep, of deletion and of retention.
\<close>

section \<open>Counting attached sessions\<close>

definition attached :: "ustr \<Rightarrow> (ustr, session_record) dict \<Rightarrow> nat" where
  "attached tid d = length (filter (\<lambda>r. task_text r = tid) (dict_values d))"

lemma attached_simps [simp]:
  "attached tid [] = 0"
  "attached tid ((k, r) # d) = (if task_text r = tid then Suc (attached tid d) else attached tid d)"
  by (simp_all add: attached_def)

lemma length_sessions_of: "length (sessions_of tid t) = attached tid (cs_sessions (tk_control t))"
  by (simp add: sessions_of_def attached_def)

lemma attached_put_same:
  "map_of d k = Some c \<Longrightarrow> task_text c = task_text v \<Longrightarrow> attached tid (AList.update k v d) = attached tid d"
  by (induction d) (auto split: if_splits)

lemma attached_put_new:
  "map_of d k = None \<Longrightarrow>
   attached tid (AList.update k v d) = attached tid d + (if task_text v = tid then 1 else 0)"
  by (induction d) (auto split: if_splits)

lemma attached_pop_le: "attached tid (AList.delete k d) \<le> attached tid d"
  by (induction d) auto

lemma attached_pop:
  "dict_ok d \<Longrightarrow> map_of d k = Some v \<Longrightarrow> attached (task_text v) d = Suc (attached (task_text v) (AList.delete k d))"
proof (induction d)
  case (Cons kr d)
  obtain k' r where kr: "kr = (k', r)" by (cases kr)
  show ?case
  proof (cases "k' = k")
    case True
    with Cons.prems kr have "k \<notin> fst ` set d" "r = v" by (auto split: if_splits)
    with True kr pop_absent show ?thesis by simp
  next
    case False
    with Cons kr show ?thesis by simp
  qed
qed simp

lemma task_text_detached [simp]: "task_text (detached r) = []"
  by (simp add: task_text_def detached_def)

lemma attached_detach:
  "tid' \<noteq> [] \<Longrightarrow> attached tid' (detach_rows tid d) = (if tid' = tid then 0 else attached tid' d)"
  by (induction d) (auto simp: detach_rows_def)

text \<open>What a control operation does to the sessions and their attachments.\<close>

definition attaches :: "control_op \<Rightarrow> control_state \<Rightarrow> ustr \<Rightarrow> bool" where
  "attaches op c tid \<longleftrightarrow> (\<exists>r. op = PutSession r \<and> task_text r = tid \<and> map_of (cs_sessions c) (session_id r) = None)"

lemma apply_op_sessions:
  assumes "apply_op io op c = (c', res)"
  shows "cs_sessions c' = cs_sessions c \<or> session_candidate op c (cs_sessions c')"
  using assms
proof (cases rule: apply_op_cases)
  case (executors cand)
  from executors(2) have "cs_sessions c' = cs_sessions c"
    by (auto simp: publish_executors_def write_executors_def split: prod.splits if_splits)
  then show ?thesis ..
next
  case (sessions cand)
  from sessions(2) have "cs_sessions c' = cs_sessions c \<or> cs_sessions c' = cand"
    by (auto simp: publish_sessions_def write_sessions_def split: prod.splits if_splits)
  with sessions(1) show ?thesis by auto
qed simp

lemma candidate_attached:
  assumes "session_candidate op c cand" and "dict_ok (cs_sessions c)" and "tid \<noteq> []"
  shows "dict_ok cand \<and> attached tid cand \<le> attached tid (cs_sessions c) + (if attaches op c tid then 1 else 0) \<and>
    (\<forall>k r. map_of cand k = Some r \<longrightarrow> task_text r = tid \<longrightarrow>
       attaches op c tid \<or> (\<exists>k r. map_of (cs_sessions c) k = Some r \<and> task_text r = tid))"
  using assms(1) unfolding session_candidate_def
proof (elim disjE exE conjE)
  fix r
  assume r: "op = PutSession r" "cand = AList.update (session_id r) r (cs_sessions c)"
    "\<forall>c'. map_of (cs_sessions c) (session_id r) = Some c' \<longrightarrow> sr_executor_id c' = sr_executor_id r \<and> task_id c' = task_id r"
  show ?thesis
  proof (cases "map_of (cs_sessions c) (session_id r)")
    case None
    then have "attaches op c tid \<longleftrightarrow> task_text r = tid" using r(1) by (auto simp: attaches_def)
    with None r assms(2) show ?thesis by (auto simp: attached_put_new simp del: map_of_eq_Some_iff split: if_splits)
  next
    case (Some old)
    then have "task_text old = task_text r" using r(3) by (simp add: task_text_def)
    with Some r assms(2) show ?thesis
      by (auto simp: attached_put_same simp del: map_of_eq_Some_iff split: if_splits)
  qed
next
  fix i r old
  assume r: "cand = AList.update i r (cs_sessions c)" "map_of (cs_sessions c) i = Some old" "task_id r = task_id old"
  then have "task_text old = task_text r" by (simp add: task_text_def)
  with r assms(2) show ?thesis by (auto simp: attached_put_same simp del: map_of_eq_Some_iff split: if_splits)
next
  fix t
  assume t: "cand = detach_rows t (cs_sessions c)"
  have "\<exists>k r. map_of (cs_sessions c) k = Some r \<and> task_text r = tid"
    if "map_of cand k = Some r" "task_text r = tid" for k r
  proof -
    from that(1) t obtain r0 where "map_of (cs_sessions c) k = Some r0" "r = (if task_text r0 = t then detached r0 else r0)"
      by (auto simp: map_of_detach_rows simp del: map_of_eq_Some_iff)
    with that(2) assms(3) show ?thesis by (auto split: if_splits)
  qed
  with t assms(2,3) show ?thesis by (simp add: attached_detach)
next
  fix i
  assume i: "cand = AList.delete i (cs_sessions c)"
  with assms(2) attached_pop_le [of tid i "cs_sessions c"] show ?thesis
    by (auto simp: le_trans simp del: map_of_eq_Some_iff split: if_splits)
qed

section \<open>The state machine\<close>

text \<open>
  The steps are the transactions: each holds the lock of one task file. The control state may take
  any of its operations in between, except that only an admission publishes a new session with a
  task. A new task gets an identity that no file has.
\<close>

inductive tk_step :: "(json \<Rightarrow> nat) \<Rightarrow> task_config \<Rightarrow> tasks \<Rightarrow> tasks \<Rightarrow> bool" for bytes cfg where
  tk_report: "task_report bytes cfg w subject tid now r t = (t', res) \<Longrightarrow> tk_step bytes cfg t t'"
| tk_status: "task_set_status bytes cfg w subject tid now a t = (t', res) \<Longrightarrow> tk_step bytes cfg t t'"
| tk_plan: "task_update_plan bytes cfg w subject tid now repr items t = (t', res) \<Longrightarrow> tk_step bytes cfg t t'"
| tk_todos: "task_write_todos bytes cfg w subject tid now repr items t = (t', res) \<Longrightarrow> tk_step bytes cfg t t'"
| tk_observe: "observe_one bytes cfg w subject observed tid t = (t', ores) \<Longrightarrow> tk_step bytes cfg t t'"
| tk_claim: "claim_continuation bytes cfg w subject tid now claim t = (t', cres) \<Longrightarrow> tk_step bytes cfg t t'"
| tk_validate: "validate_continuation bytes cfg w subject tid now claim t = (t', cres) \<Longrightarrow> tk_step bytes cfg t t'"
| tk_outcome: "report_continuation bytes cfg w subject tid now claim accepted t = (t', rres) \<Longrightarrow> tk_step bytes cfg t t'"
| tk_sweep: "sweep_one bytes cfg w1 w2 jobs now tid t = (t', bres) \<Longrightarrow> tk_step bytes cfg t t'"
| tk_delete: "task_delete bytes cfg io w subject tid t = (t', ures) \<Longrightarrow> tk_step bytes cfg t t'"
| tk_retain: "remove_retained_terminal bytes cfg io w subject tid stale t = (t', bres) \<Longrightarrow> tk_step bytes cfg t t'"
| tk_new: "stored_at t tid = None \<Longrightarrow> task_path_ok tid \<Longrightarrow>
    persist_stored bytes cfg w tid (new_task tid subject now lab objective) t = (t', ures) \<Longrightarrow> tk_step bytes cfg t t'"
| tk_admit: "admit_session_attachment bytes cfg io w subject r t = (t', ures) \<Longrightarrow> tk_step bytes cfg t t'"
| tk_discard: "discard_failed_attachment bytes cfg io w subject r t = (t', ures) \<Longrightarrow> tk_step bytes cfg t t'"
| tk_discard_implicit: "discard_implicit_task bytes cfg w subject tid t = (t', ures) \<Longrightarrow> tk_step bytes cfg t t'"
| tk_control: "apply_op io op (tk_control t) = (ctl, ctlres) \<Longrightarrow> (\<And>tid. tid \<noteq> [] \<Longrightarrow> \<not> attaches op (tk_control t) tid) \<Longrightarrow>
    tk_step bytes cfg t (t\<lparr>tk_control := ctl\<rparr>)"

definition tk_init :: "tasks \<Rightarrow> bool" where
  "tk_init t \<longleftrightarrow> tk_files t = [] \<and> cs_sessions (tk_control t) = []"

text \<open>The bound on the attached sessions of a task.\<close>

definition count_ok :: "stored_task \<Rightarrow> nat \<Rightarrow> bool" where
  "count_ok s n \<longleftrightarrow> (case st_session_count s of None \<Rightarrow> True | Some m \<Rightarrow> n \<le> m)"

definition file_ok :: "nat \<Rightarrow> ustr \<Rightarrow> task_cell \<Rightarrow> nat \<Rightarrow> bool" where
  "file_ok m tid c n \<longleftrightarrow> task_path_ok tid \<and>
     (\<forall>s. c = TaskDoc s \<longrightarrow> st_task_id s = tid \<and> task_ok m s \<and> count_ok s n)"

definition tk_inv :: "nat \<Rightarrow> tasks \<Rightarrow> bool" where
  "tk_inv m t \<longleftrightarrow> dict_ok (cs_sessions (tk_control t)) \<and>
     (\<forall>tid c. stored_at t tid = Some c \<longrightarrow> file_ok m tid c (attached tid (cs_sessions (tk_control t)))) \<and>
     (\<forall>k r. map_of (cs_sessions (tk_control t)) k = Some r \<longrightarrow> task_text r \<noteq> [] \<longrightarrow> stored_at t (task_text r) \<noteq> None)"

lemma tk_invD:
  assumes "tk_inv m t"
  shows "dict_ok (cs_sessions (tk_control t))"
    and "stored_at t tid = Some c \<Longrightarrow> file_ok m tid c (attached tid (cs_sessions (tk_control t)))"
    and "map_of (cs_sessions (tk_control t)) k = Some r \<Longrightarrow> task_text r \<noteq> [] \<Longrightarrow> stored_at t (task_text r) \<noteq> None"
  using assms unfolding tk_inv_def by blast+


lemma path_not_empty: "task_path_ok tid \<Longrightarrow> tid \<noteq> []"
  by (simp add: task_path_ok_def)

lemma file_ok_lawful:
  "file_ok m tid (TaskDoc s) n \<Longrightarrow> lawful m s s' \<Longrightarrow> file_ok m tid (TaskDoc s') n"
  by (auto simp: file_ok_def lawful_def count_ok_def)

lemma file_ok_mono: "file_ok m tid c n \<Longrightarrow> n' \<le> n \<Longrightarrow> file_ok m tid c n'"
  by (auto simp: file_ok_def count_ok_def split: option.splits)

text \<open>The invariant through a change of one file, and through a change of the sessions.\<close>

lemma tk_inv_put:
  assumes inv: "tk_inv m t" and ctl: "tk_control t' = tk_control t"
    and c: "file_ok m tid c (attached tid (cs_sessions (tk_control t)))"
    and at: "stored_at t' = stored_at t \<or> stored_at t' = (stored_at t)(tid \<mapsto> c)"
  shows "tk_inv m t'"
proof (cases "stored_at t' = stored_at t")
  case True
  with inv ctl show ?thesis by (simp add: tk_inv_def)
next
  case False
  with at have at: "stored_at t' x = (if x = tid then Some c else stored_at t x)" for x by auto
  show ?thesis
    unfolding tk_inv_def ctl
  proof (intro conjI allI impI)
    show "file_ok m x d (attached x (cs_sessions (tk_control t)))" if "stored_at t' x = Some d" for x d
      using that c tk_invD(2) [OF inv, of x d] unfolding at by (auto split: if_splits)
    show "stored_at t' (task_text r) \<noteq> None"
      if "map_of (cs_sessions (tk_control t)) k = Some r" "task_text r \<noteq> []" for k r
      using tk_invD(3) [OF inv that] unfolding at by simp
  qed (rule tk_invD(1) [OF inv])
qed

lemma tk_inv_touch:
  assumes inv: "tk_inv m t" and touch: "touches tid (lawful m) t t'"
  shows "tk_inv m t'"
proof -
  from touch have ctl: "tk_control t' = tk_control t" by (simp add: touches_def)
  from touch consider "stored_at t' = stored_at t"
    | s s' where "stored_at t tid = Some (TaskDoc s)" "lawful m s s'" "stored_at t' = (stored_at t)(tid \<mapsto> TaskDoc s')"
    by (auto simp: touches_def)
  then show ?thesis
  proof cases
    case 1
    with inv ctl show ?thesis by (simp add: tk_inv_def)
  next
    case 2
    have "file_ok m tid (TaskDoc s') (attached tid (cs_sessions (tk_control t)))"
      using tk_invD(2) [OF inv 2(1)] 2(2) by (rule file_ok_lawful)
    with ctl 2(3) show ?thesis by (intro tk_inv_put [OF inv]) auto
  qed
qed

lemma tk_inv_sessions:
  assumes inv: "tk_inv m t"
    and "dict_ok d" and "\<And>tid. tid \<noteq> [] \<Longrightarrow> attached tid d \<le> attached tid (cs_sessions (tk_control t))"
    and "\<And>k r. map_of d k = Some r \<Longrightarrow> task_text r \<noteq> [] \<Longrightarrow>
      \<exists>k r'. map_of (cs_sessions (tk_control t)) k = Some r' \<and> task_text r' = task_text r"
    and d: "cs_sessions ctl = d"
  shows "tk_inv m (t\<lparr>tk_control := ctl\<rparr>)"
  unfolding tk_inv_def
proof (intro conjI allI impI)
  fix tid c
  assume "stored_at (t\<lparr>tk_control := ctl\<rparr>) tid = Some c"
  then have f: "file_ok m tid c (attached tid (cs_sessions (tk_control t)))" using tk_invD(2) [OF inv] by simp
  then have "tid \<noteq> []" using path_not_empty by (auto simp: file_ok_def)
  with f assms(3) d show "file_ok m tid c (attached tid (cs_sessions (tk_control (t\<lparr>tk_control := ctl\<rparr>))))"
    by (auto intro: file_ok_mono)
next
  fix k r
  assume "map_of (cs_sessions (tk_control (t\<lparr>tk_control := ctl\<rparr>))) k = Some r" "task_text r \<noteq> []"
  with assms(4) [of k r] d tk_invD(3) [OF inv]
  show "stored_at (t\<lparr>tk_control := ctl\<rparr>) (task_text r) \<noteq> None" by fastforce
qed (use assms(2) d in simp)

lemma tk_inv_control:
  assumes inv: "tk_inv m t" and op: "apply_op io op (tk_control t) = (ctl, res)"
    and quiet: "\<And>tid. tid \<noteq> [] \<Longrightarrow> \<not> attaches op (tk_control t) tid"
  shows "tk_inv m (t\<lparr>tk_control := ctl\<rparr>)"
proof -
  note ok = tk_invD(1) [OF inv]
  from apply_op_sessions [OF op] consider "cs_sessions ctl = cs_sessions (tk_control t)"
    | "session_candidate op (tk_control t) (cs_sessions ctl)" by blast
  then show ?thesis
  proof cases
    case 1
    with inv show ?thesis by (simp add: tk_inv_def)
  next
    case 2
    note c = candidate_attached [OF 2 ok]
    show ?thesis
    proof (rule tk_inv_sessions [OF inv _ _ _ refl])
      show "dict_ok (cs_sessions ctl)" using c [of "[0]"] by simp
      show "attached tid (cs_sessions ctl) \<le> attached tid (cs_sessions (tk_control t))" if "tid \<noteq> []" for tid
        using c [OF that] quiet [OF that] by simp
      show "\<exists>k r'. map_of (cs_sessions (tk_control t)) k = Some r' \<and> task_text r' = task_text r"
        if "map_of (cs_sessions ctl) k = Some r" "task_text r \<noteq> []" for k r
        using c [OF that(2)] quiet [OF that(2)] that(1) by blast
    qed
  qed
qed

text \<open>Removing the file of a task without sessions.\<close>

lemma tk_inv_remove:
  assumes inv: "tk_inv m t" and none: "attached tid (cs_sessions (tk_control t)) = 0"
    and rem: "remove_file w tid t = (t', res)"
  shows "tk_inv m t'"
proof -
  have "task_text r \<noteq> tid" if "map_of (cs_sessions (tk_control t)) k = Some r" for k r
  proof -
    from that have "r \<in> set (dict_values (cs_sessions (tk_control t)))" by (force dest: map_of_SomeD)
    with none show ?thesis by (auto simp: attached_def filter_empty_conv)
  qed
  with inv rem show ?thesis
    by (auto simp: remove_file_def tk_inv_def simp del: map_of_eq_Some_iff split: if_splits)
qed

lemma detach_task_sessions:
  assumes "detach_task io tid c = (c', Inr u)"
  shows "cs_sessions c' = detach_rows tid (cs_sessions c)"
proof -
  have "detach_rows tid d = d" if "\<not> list_ex (\<lambda>(k, r). task_text r = tid) d" for d
    using that by (induction d) (auto simp: detach_rows_def)
  with assms show ?thesis
    by (auto simp: detach_task_def publish_sessions_def write_sessions_def split: if_splits prod.splits)
qed

lemma detach_and_remove_inv:
  assumes inv: "tk_inv m t" and tid: "tid \<noteq> []" and "detach_and_remove io w tid t = (t', res)"
  shows "tk_inv m t'"
proof -
  obtain ctl dres where d: "detach_task io tid (tk_control t) = (ctl, dres)" by fastforce
  then have op: "apply_op io (DetachTask tid) (tk_control t) = (ctl, dres)" by simp
  have inv': "tk_inv m (t\<lparr>tk_control := ctl\<rparr>)"
    by (rule tk_inv_control [OF inv op]) (simp add: attaches_def)
  show ?thesis
  proof (cases dres)
    case (Inl e)
    with assms(3) d inv' show ?thesis by (simp add: detach_and_remove_def)
  next
    case (Inr u)
    have "attached tid (cs_sessions (tk_control (t\<lparr>tk_control := ctl\<rparr>))) = 0"
      using detach_task_sessions d Inr tid by (simp add: attached_detach)
    then show ?thesis
      using assms(3) d Inr tk_inv_remove [OF inv'] by (simp add: detach_and_remove_def)
  qed
qed

lemma tk_inv_admit:
  assumes inv: "tk_inv m t" and step: "admit_session_attachment bytes cfg io w subject r t = (t', res)"
  shows "tk_inv m t'"
proof -
  let ?tid = "task_text r"
  show ?thesis
  proof (cases "?tid = [] \<or> (\<exists>e. read_stored bytes cfg subject ?tid t = Inl e) \<or>
      (\<exists>s. read_stored bytes cfg subject ?tid t = Inr s \<and> td_status (st_document s) \<in> {TaskCompleted, TaskCancelled})")
    case True
    then have "fst (admit_session_attachment bytes cfg io w subject r t) = t"
      by (auto simp: admit_session_attachment_def Let_def)
    with step inv show ?thesis by simp
  next
    case False
    then obtain s where s: "read_stored bytes cfg subject ?tid t = Inr s"
      "td_status (st_document s) \<noteq> TaskCompleted" "td_status (st_document s) \<noteq> TaskCancelled"
      by (cases "read_stored bytes cfg subject ?tid t") auto
    note stored = read_stored_Inr [OF s(1)]
    have tid: "?tid \<noteq> []" using stored path_not_empty by blast
    let ?s = "s\<lparr>st_session_count := map_option Suc (st_session_count s)\<rparr>"
    obtain t1 pr where p: "persist_stored bytes cfg w ?tid ?s t = (t1, pr)" by fastforce
    note eff = persist_stored_effect [OF p]
    let ?n = "attached ?tid (cs_sessions (tk_control t))"
    have fs: "file_ok m ?tid (TaskDoc s) ?n" using tk_invD(2) [OF inv] stored by blast
    then have grown: "file_ok m ?tid (TaskDoc ?s) (Suc ?n)"
      by (auto simp: file_ok_def task_ok_def count_ok_def split: option.splits)
    have "file_ok m ?tid (TaskDoc ?s) ?n" using grown by (rule file_ok_mono) simp
    then have inv1: "tk_inv m t1" using eff by (intro tk_inv_put [OF inv]) auto
    show ?thesis
    proof (cases pr)
      case (Inl e)
      with step s tid p inv1 show ?thesis by (simp add: admit_session_attachment_def Let_def)
    next
      case (Inr u)
      obtain ctl cr where put: "put_session io r (tk_control t1) = (ctl, cr)" by fastforce
      have t': "t' = t1\<lparr>tk_control := ctl\<rparr>"
        using step s tid p Inr put by (auto simp: admit_session_attachment_def Let_def split: sum.splits)
      have files1: "stored_at t1 = (stored_at t)(?tid \<mapsto> TaskDoc ?s)" using eff Inr by auto
      from put have op: "apply_op io (PutSession r) (tk_control t1) = (ctl, cr)" by simp
      show ?thesis
      proof (cases "attaches (PutSession r) (tk_control t1) ?tid \<and> session_candidate (PutSession r) (tk_control t1) (cs_sessions ctl)")
        case False
        then consider "cs_sessions ctl = cs_sessions (tk_control t1)" | "\<And>tid. \<not> attaches (PutSession r) (tk_control t1) tid"
          using apply_op_sessions [OF op] by (auto simp: attaches_def)
        then show ?thesis
        proof cases
          case 1
          with inv1 t' show ?thesis by (simp add: tk_inv_def)
        next
          case 2
          with tk_inv_control [OF inv1 op] t' show ?thesis by simp
        qed
      next
        case new: True
        note c = candidate_attached [OF conjunct2 [OF new] tk_invD(1) [OF inv1]]
        have only: "tid = ?tid" if "attaches (PutSession r) (tk_control t1) tid" for tid
          using that by (simp add: attaches_def)
        show ?thesis
          unfolding tk_inv_def
        proof (intro conjI allI impI)
          show "dict_ok (cs_sessions (tk_control t'))" using c [OF tid] t' by simp
        next
          fix tid cell
          assume at: "stored_at t' tid = Some cell"
          show "file_ok m tid cell (attached tid (cs_sessions (tk_control t')))"
          proof (cases "tid = ?tid")
            case True
            with at t' files1 have "cell = TaskDoc ?s" by simp
            moreover have "attached ?tid (cs_sessions (tk_control t')) \<le> Suc ?n"
              using c [OF tid] new t' eff by simp
            ultimately show ?thesis using grown True by (auto intro: file_ok_mono)
          next
            case False
            with at t' have at1: "stored_at t1 tid = Some cell" by simp
            then have "tid \<noteq> []" using tk_invD(2) [OF inv1] path_not_empty by (auto simp: file_ok_def)
            moreover have "\<not> attaches (PutSession r) (tk_control t1) tid" using only [of tid] False by blast
            ultimately have "attached tid (cs_sessions (tk_control t')) \<le> attached tid (cs_sessions (tk_control t1))"
              using c [of tid] t' by simp
            with tk_invD(2) [OF inv1 at1] show ?thesis by (rule file_ok_mono)
          qed
        next
          fix k q
          assume "map_of (cs_sessions (tk_control t')) k = Some q" "task_text q \<noteq> []"
          with c [of "task_text q"] t' have "attaches (PutSession r) (tk_control t1) (task_text q) \<or>
              (\<exists>k r. map_of (cs_sessions (tk_control t1)) k = Some r \<and> task_text r = task_text q)" by auto
          then have "task_text q = ?tid \<or> stored_at t1 (task_text q) \<noteq> None"
            using only tk_invD(3) [OF inv1] \<open>task_text q \<noteq> []\<close> by metis
          with files1 t' show "stored_at t' (task_text q) \<noteq> None" by auto
        qed
      qed
    qed
  qed
qed


lemma tk_inv_discard:
  assumes inv: "tk_inv m t" and step: "discard_failed_attachment bytes cfg io w subject r t = (t', res)"
  shows "tk_inv m t'"
proof -
  let ?tid = "task_text r"
  show ?thesis
  proof (cases "task_path_ok ?tid \<and> (\<exists>old. map_of (cs_sessions (tk_control t)) (session_id r) = Some old \<and>
      status old = Creating \<and> (task_id old = None \<or> task_id old = task_id r))")
    case False
    then have "fst (discard_failed_attachment bytes cfg io w subject r t) = t"
      by (auto simp: discard_failed_attachment_def Let_def simp del: map_of_eq_Some_iff split: option.split)
    with step inv show ?thesis by simp
  next
    case True
    then obtain old where old: "map_of (cs_sessions (tk_control t)) (session_id r) = Some old"
      "status old = Creating" "task_id old = None \<or> task_id old = task_id r" and path: "task_path_ok ?tid" by blast
    obtain ctl rr where rem: "remove_session io (session_id r) (tk_control t) = (ctl, rr)" by fastforce
    then have op: "apply_op io (RemoveSession (session_id r)) (tk_control t) = (ctl, rr)" by simp
    have inv1: "tk_inv m (t\<lparr>tk_control := ctl\<rparr>)"
      by (rule tk_inv_control [OF inv op]) (simp add: attaches_def)
    let ?t = "t\<lparr>tk_control := ctl\<rparr>"
    show ?thesis
    proof (cases "(\<exists>e. rr = Inl e) \<or> task_id old = None \<or> (\<exists>e. read_stored bytes cfg subject ?tid ?t = Inl e) \<or>
        (\<exists>s. read_stored bytes cfg subject ?tid ?t = Inr s \<and> (st_session_count s = None \<or> st_session_count s = Some 0))")
      case True
      then have "fst (discard_failed_attachment bytes cfg io w subject r t) = ?t"
        using old path rem
        by (auto simp: discard_failed_attachment_def Let_def simp del: map_of_eq_Some_iff split: sum.split option.split nat.split)
      with step inv1 show ?thesis by simp
    next
      case False
      then obtain u s n where u: "rr = Inr u" and tid: "task_id old = task_id r" "task_id old \<noteq> None"
        and s: "read_stored bytes cfg subject ?tid ?t = Inr s" "st_session_count s = Some (Suc n)"
        using old by (cases rr; cases "read_stored bytes cfg subject ?tid ?t") (auto simp: gr0_conv_Suc)
      let ?s = "s\<lparr>st_session_count := Some n\<rparr>"
      obtain t1 pr where p: "persist_stored bytes cfg w ?tid ?s ?t = (t1, pr)" by fastforce
      have t1: "t' = t1"
        using step old path rem u tid s p
        by (auto simp: discard_failed_attachment_def Let_def simp del: map_of_eq_Some_iff)
      have gone: "cs_sessions ctl = AList.delete (session_id r) (cs_sessions (tk_control t))"
        using rem u old(1) by (auto simp: remove_session_def publish_sessions_def write_sessions_def
          split: if_splits prod.splits dest: map_of_SomeD)
      have text_old: "task_text old = ?tid" using tid by (simp add: task_text_def)
      have less: "attached ?tid (cs_sessions (tk_control t)) = Suc (attached ?tid (cs_sessions ctl))"
        using attached_pop [OF tk_invD(1) [OF inv] old(1)] text_old gone by simp
      have stored: "stored_at t ?tid = Some (TaskDoc s)" using read_stored_Inr [OF s(1)] by simp
      have "file_ok m ?tid (TaskDoc s) (attached ?tid (cs_sessions (tk_control t)))"
        using tk_invD(2) [OF inv stored] .
      then have "file_ok m ?tid (TaskDoc ?s) (attached ?tid (cs_sessions ctl))"
        using less s(2) by (auto simp: file_ok_def task_ok_def count_ok_def)
      then show ?thesis
        using persist_stored_effect [OF p] unfolding t1 by (intro tk_inv_put [OF inv1]) auto
    qed
  qed
qed

lemma tk_inv_new:
  assumes inv: "tk_inv m t" and fresh: "stored_at t tid = None" "task_path_ok tid"
    and step: "persist_stored bytes cfg w tid (new_task tid subject now lab objective) t = (t', res)"
  shows "tk_inv m t'"
proof -
  let ?s = "new_task tid subject now lab objective"
  have none: "task_text r \<noteq> tid" if "(k, r) \<in> set (cs_sessions (tk_control t))" for k r
    using tk_invD(3) [OF inv, of k r] that tk_invD(1) [OF inv] fresh path_not_empty by auto
  have "attached tid (cs_sessions (tk_control t)) = 0"
    unfolding attached_def length_0_conv filter_empty_conv using none by fastforce
  then have "file_ok m tid (TaskDoc ?s) (attached tid (cs_sessions (tk_control t)))"
    using fresh(2) by (simp add: file_ok_def new_task_def task_ok_def document_ok_def plan_ok_def
        continuation_ok_def new_continuation_def count_ok_def)
  then show ?thesis
    using persist_stored_effect [OF step] by (intro tk_inv_put [OF inv]) auto
qed

lemma touches_lawful_plan:
  assumes "mutate_task bytes cfg w subject tid now (replace_plan plan) t = (t', res)" and "plan_ok m plan"
  shows "touches tid (lawful m) t t'"
  by (rule touches_mono [OF mutate_touches [OF assms(1)]], rule lawful_mutated)
    (auto intro: replace_plan_moves assms(2))

text \<open>Every transaction either changes one file lawfully, or is one of those that touch sessions.\<close>

lemma plan_ok_normalize: "normalize_steps m repr items = Inr plan \<Longrightarrow> plan_ok m plan"
  using normalize_items_ok [of repr "[]" items plan] by (simp add: normalize_steps_def plan_ok_def split: if_splits)

lemma plan_ok_todos: "normalize_todos m repr items = Inr plan \<Longrightarrow> plan_ok m plan"
  by (auto simp: normalize_todos_def split: sum.splits intro: plan_ok_normalize)

lemma touch_report: "task_report bytes cfg w subject tid now r t = (t', res) \<Longrightarrow> touches tid (lawful m) t t'"
  by (auto simp: task_report_def split: if_splits intro: report_moves
      intro!: touches_mono [OF mutate_touches] lawful_mutated)

lemma touch_status: "task_set_status bytes cfg w subject tid now a t = (t', res) \<Longrightarrow> touches tid (lawful m) t t'"
  by (auto simp: task_set_status_def intro: set_status_moves intro!: touches_mono [OF mutate_touches] lawful_mutated)

lemma touch_plan:
  "task_update_plan bytes cfg w subject tid now repr items t = (t', res) \<Longrightarrow> touches tid (lawful (tc_max_todos cfg)) t t'"
  by (auto simp: task_update_plan_def split: sum.splits intro: touches_lawful_plan plan_ok_normalize)

lemma touch_todos:
  "task_write_todos bytes cfg w subject tid now repr items t = (t', res) \<Longrightarrow> touches tid (lawful (tc_max_todos cfg)) t t'"
  by (auto simp: task_write_todos_def split: sum.splits intro: touches_lawful_plan plan_ok_todos)

lemma touch_sweep: "sweep_one bytes cfg w1 w2 jobs now tid t = (t', res) \<Longrightarrow> touches tid (lawful m) t t'"
proof (erule sweep_one_cases)
  fix s
  assume "task_path_ok tid" "stored_at t tid = Some (TaskDoc s)" "tk_control t' = tk_control t"
    "td_status (st_document s) = TaskActive"
    "stored_at t' = (stored_at t)(tid \<mapsto> TaskDoc (block_idle now (expire_claim now s)))"
  moreover from this have "lawful m s (block_idle now (expire_claim now s))"
    by (intro lawful_blocked) (simp add: blocked_by_sweep_def)
  ultimately show "touches tid (lawful m) t t'" unfolding touches_def by blast
next
  fix s
  assume "task_path_ok tid" "stored_at t tid = Some (TaskDoc s)" "tk_control t' = tk_control t"
    "stored_at t' = (stored_at t)(tid \<mapsto> TaskDoc (expire_claim now s))"
  then show "touches tid (lawful m) t t'" unfolding touches_def using lawful_expired by blast
qed (simp add: touches_def)

lemmas touch_continuation =
  touches_mono [OF observe_touches lawful_observed] touches_mono [OF claim_touches lawful_claimed]
  touches_mono [OF validate_touches lawful_validated] touches_mono [OF report_touches lawful_reported]

lemma tk_inv_step:
  assumes inv: "tk_inv (tc_max_todos cfg) t" and step: "tk_step bytes cfg t t'"
  shows "tk_inv (tc_max_todos cfg) t'"
  using step
proof cases
  case (tk_delete io w subject tid ures)
  then show ?thesis
    using inv by (auto simp: task_delete_def dest!: read_stored_Inr path_not_empty split: sum.splits if_splits
      intro: detach_and_remove_inv)
next
  case (tk_retain io w subject tid stale bres)
  then have "t' = t \<or> tid \<noteq> [] \<and> t' = fst (detach_and_remove io w tid t)"
    by (auto simp: remove_retained_terminal_def path_not_empty split: if_splits task_read.splits sum.splits prod.splits)
  with inv detach_and_remove_inv [OF inv, of tid io w] show ?thesis
    by (cases "detach_and_remove io w tid t") auto
next
  case (tk_discard_implicit w subject tid ures)
  then show ?thesis
    using inv tk_inv_remove [OF inv, of tid w] length_sessions_of [of tid t]
    by (auto simp: discard_implicit_task_def split: sum.splits if_splits)
qed (auto intro: tk_inv_touch [OF inv] tk_inv_admit [OF inv] tk_inv_discard [OF inv] tk_inv_new [OF inv]
    tk_inv_control [OF inv] touch_report touch_status touch_plan touch_todos touch_sweep touch_continuation)

lemma tk_inv_init: "tk_init t \<Longrightarrow> tk_inv m t"
  by (simp add: tk_init_def tk_inv_def)

interpretation task_machine: invariant_machine tk_init "tk_step bytes cfg" "tk_inv (tc_max_todos cfg)" for bytes cfg
  by unfold_locales (fact tk_inv_init, fact tk_inv_step)


section \<open>Loops are runs of transactions\<close>

lemma observe_all_runs:
  "observe_all bytes cfg ws subject observed tids t = (t', res) \<Longrightarrow> (tk_step bytes cfg)\<^sup>*\<^sup>* t t'"
proof (induction tids arbitrary: t)
  case (Cons tid tids)
  obtain t1 r where o: "observe_one bytes cfg (ws tid) subject observed tid t = (t1, r)" by fastforce
  from tk_step.tk_observe [OF o] Cons o show ?case
    by (cases r) (auto intro: converse_rtranclp_into_rtranclp)
qed simp

lemma sweep_all_runs:
  "sweep_all bytes cfg ws jobs now tids t = (t', res) \<Longrightarrow> (tk_step bytes cfg)\<^sup>*\<^sup>* t t'"
proof (induction tids arbitrary: t t' res)
  case (Cons tid tids)
  obtain t1 r where o: "sweep_one bytes cfg (fst (ws tid)) (snd (ws tid)) jobs now tid t = (t1, r)" by fastforce
  obtain t2 r2 where a: "sweep_all bytes cfg ws jobs now tids t1 = (t2, r2)" by fastforce
  have "t' = t1 \<or> t' = t2" using Cons.prems o a by (auto split: sum.splits)
  with tk_step.tk_sweep [OF o] Cons.IH [OF a] show ?case
    by (auto intro: converse_rtranclp_into_rtranclp)
qed simp

lemma prune_stale_runs:
  "prune_stale bytes cfg ios ws subject b ss remaining t = (t', res) \<Longrightarrow> (tk_step bytes cfg)\<^sup>*\<^sup>* t t'"
proof (induction ss arbitrary: t remaining)
  case (Cons s ss)
  obtain t1 r where o: "remove_retained_terminal bytes cfg (ios (st_task_id s)) (ws (st_task_id s)) subject
      (st_task_id s) (Some b) t = (t1, r)" by fastforce
  from tk_step.tk_retain [OF o] Cons o show ?case
    by (auto intro: converse_rtranclp_into_rtranclp split: if_splits sum.splits)
qed simp

lemma prune_excess_runs:
  "prune_excess bytes cfg ios ws subject ss remaining count t = (t', res) \<Longrightarrow> (tk_step bytes cfg)\<^sup>*\<^sup>* t t'"
proof (induction ss arbitrary: t count)
  case (Cons s ss)
  obtain t1 r where o: "remove_retained_terminal bytes cfg (ios (st_task_id s)) (ws (st_task_id s)) subject
      (st_task_id s) None t = (t1, r)" by fastforce
  from tk_step.tk_retain [OF o] Cons o show ?case
    by (auto simp: Let_def intro: converse_rtranclp_into_rtranclp split: if_splits sum.splits)
qed simp

lemma prune_for_create_runs:
  "prune_for_create bytes cfg ios ws subject now t = (t', res) \<Longrightarrow> (tk_step bytes cfg)\<^sup>*\<^sup>* t t'"
  by (auto simp: prune_for_create_def Let_def dest: prune_stale_runs prune_excess_runs intro: rtranclp_trans
      split: sum.splits prod.splits if_splits)

lemma create_task_runs:
  assumes "create_task bytes cfg ios ws w subject now0 now tid lab objective t = (t', res)"
    and "task_path_ok tid" and "stored_at (fst (prune_for_create bytes cfg ios ws subject now0 t)) tid = None"
  shows "(tk_step bytes cfg)\<^sup>*\<^sup>* t t'"
proof -
  obtain t1 r where p: "prune_for_create bytes cfg ios ws subject now0 t = (t1, r)" by fastforce
  note runs = prune_for_create_runs [OF p]
  have fresh: "stored_at t1 tid = None" using assms(3) p by simp
  consider "t' = t1" | l obj ures where "persist_stored bytes cfg w tid (new_task tid subject now l obj) t1 = (t', ures)"
    using assms(1) p by (auto simp: create_task_def Let_def split: sum.splits prod.splits)
  then show ?thesis
  proof cases
    case 2
    with tk_step.tk_new [OF fresh assms(2)] runs show ?thesis by (meson rtranclp.rtrancl_into_rtrancl)
  qed (use runs in simp)
qed

section \<open>Correctness of tasks\<close>

text \<open>
  C12. Tasks stay well formed. In every reachable state, every stored task has a plan with distinct,
  well-formed steps, a completed task has no unfinished step, at most ten continuations were ever
  dispatched for it, a claim always has a start time, and only a pending claim is reserved.
\<close>

theorem tasks_well_formed:
  assumes "reach tk_init (tk_step bytes cfg) t" and "stored_at t tid = Some (TaskDoc s)"
  shows "st_task_id s = tid \<and> plan_ok (tc_max_todos cfg) (td_steps (st_document s)) \<and>
    (td_status (st_document s) = TaskCompleted \<longrightarrow> list_all step_done (td_steps (st_document s))) \<and>
    co_attempts (st_continuation s) \<le> 10 \<and>
    (co_claim (st_continuation s) = None \<longleftrightarrow> co_since (st_continuation s) = None) \<and>
    (co_reserved (st_continuation s) \<longrightarrow> co_claim (st_continuation s) \<noteq> None)"
  using tk_invD(2) [OF task_machine.reach_inv [OF assms(1)] assms(2)]
  by (auto simp: file_ok_def task_ok_def document_ok_def continuation_ok_def max_attempts_def)

text \<open>
  A session count never undercounts. In every reachable state, whatever writes failed or landed
  late, the session count of a task, where there is one, is at least the number of sessions attached
  to the task, and no session is attached to a task without a file; so the idle sweep, which
  requires equality, has seen every session of a task it blocks.
\<close>

theorem session_count_never_undercounts:
  assumes "reach tk_init (tk_step bytes cfg) t"
  shows "(\<forall>tid s n. stored_at t tid = Some (TaskDoc s) \<longrightarrow> st_session_count s = Some n \<longrightarrow>
      length (sessions_of tid t) \<le> n) \<and>
    (\<forall>k r tid. map_of (cs_sessions (tk_control t)) k = Some r \<longrightarrow> task_id r = Some tid \<longrightarrow> tid \<noteq> [] \<longrightarrow>
      stored_at t tid \<noteq> None)"
proof -
  note inv = task_machine.reach_inv [OF assms]
  have "length (sessions_of tid t) \<le> n" if "stored_at t tid = Some (TaskDoc s)" "st_session_count s = Some n" for tid s n
    using tk_invD(2) [OF inv that(1)] that(2) by (simp add: file_ok_def count_ok_def length_sessions_of)
  moreover have "stored_at t tid \<noteq> None"
    if "map_of (cs_sessions (tk_control t)) k = Some r" "task_id r = Some tid" "tid \<noteq> []" for k r tid
    using tk_invD(3) [OF inv that(1)] that(2,3) by (simp add: task_text_def)
  ultimately show ?thesis by blast
qed

text \<open>
  C13. The idle sweep blocks only what is provably idle. When the sweep of a task file reports that
  it blocked the task, the task was active without a live continuation claim, its count was exactly
  the number of its attached sessions, each of them ended with the executor's absence confirmed, and
  neither the task, nor an agent whose activity was recorded for it, nor any of its sessions, nor any of
  their jobs was active within the idle period; there was room for one more blocker. The task is then
  blocked with the reason appended to its blockers and no claim, everything else about its plan and every
  other task being unchanged.
\<close>

theorem idle_sweep_is_safe:
  assumes "sweep_one bytes cfg w1 w2 jobs now tid t = (t', Inr True)"
  shows "\<exists>s s'. stored_at t tid = Some (TaskDoc s) \<and> stored_at t' = (stored_at t)(tid \<mapsto> TaskDoc s') \<and>
    tk_control t' = tk_control t \<and> td_status (st_document s) = TaskActive \<and>
    (co_claim (st_continuation s) = None \<or> claim_expired now (st_continuation s)) \<and>
    st_session_count s = Some (length (sessions_of tid t)) \<and>
    (\<forall>r\<in>set (sessions_of tid t). status r = Ended \<and> executor_absence_confirmed r \<and>
       sr_updated_at r + of_nat (tc_idle_s cfg) \<le> now) \<and>
    td_updated_at (st_document s) + of_nat (tc_idle_s cfg) \<le> now \<and>
    (\<forall>a. co_last_activity (st_continuation s) = Some a \<longrightarrow> a + of_nat (tc_idle_s cfg) \<le> now) \<and>
    (sessions_of tid t \<noteq> [] \<longrightarrow> (\<exists>f a. jobs = Some f \<and> f (map session_id (sessions_of tid t)) = Some a \<and>
       a + of_nat (tc_idle_s cfg) \<le> now)) \<and>
    length (tp_blockers (td_progress (st_document s))) < 50 \<and>
    td_status (st_document s') = TaskBlocked \<and> td_updated_at (st_document s') = now \<and>
    td_steps (st_document s') = td_steps (st_document s) \<and> co_claim (st_continuation s') = None \<and>
    tp_blockers (td_progress (st_document s')) = tp_blockers (td_progress (st_document s)) @ [idle_reason]"
  using assms
proof (cases rule: sweep_one_cases)
  case (blocked s)
  let ?s = "expire_claim now s"
  have co: "co_last_activity (st_continuation ?s) = co_last_activity (st_continuation s)"
    by (simp add: expire_claim_def clear_claim_def)
  from blocked(5) show ?thesis
  proof (rule sweep_decision_Some)
    fix a
    assume d: "co_claim (st_continuation ?s) = None" "st_session_count ?s = Some (length (sessions_of tid t))"
      "\<And>r. r \<in> set (sessions_of tid t) \<Longrightarrow> status r = Ended \<and> executor_absence_confirmed r \<and>
        sr_updated_at r + of_nat (tc_idle_s cfg) \<le> now"
      "continuation_last_activity ?s + of_nat (tc_idle_s cfg) \<le> now"
      "job_evidence jobs (sessions_of tid t) = Some a" "a + of_nat (tc_idle_s cfg) \<le> now"
      "length (tp_blockers (td_progress (st_document ?s))) < report_list_limit"
    have claim: "co_claim (st_continuation s) = None \<or> claim_expired now (st_continuation s)"
      using d(1) by (auto simp: expire_claim_def split: if_splits)
    have upd: "td_updated_at (st_document s) + of_nat (tc_idle_s cfg) \<le> now"
      "\<And>b. co_last_activity (st_continuation s) = Some b \<Longrightarrow> b + of_nat (tc_idle_s cfg) \<le> now"
      using d(4) by (auto simp: continuation_last_activity_def co)
    have jobs: "sessions_of tid t \<noteq> [] \<longrightarrow> (\<exists>f a. jobs = Some f \<and> f (map session_id (sessions_of tid t)) = Some a \<and>
        a + of_nat (tc_idle_s cfg) \<le> now)"
      using d(5,6) by (auto simp: job_evidence_def split: option.splits if_splits)
    show ?thesis
      using blocked d(2,3,7) claim upd jobs
      by (intro exI [of _ s] exI [of _ "block_idle now ?s"])
        (simp add: block_idle_def Let_def report_list_limit_def clear_claim_def)
  qed
qed simp_all

text \<open>
  Deletion detaches and is guarded. A deletion that returns removed the file of a task of this
  principal that was completed or cancelled, left no session attached to it and every other task and
  attachment as it was; a task that is active or blocked, or whose implicit session is still being
  created, is refused without any change.
\<close>

theorem deletion_detaches:
  assumes "task_delete bytes cfg io w subject tid t = (t', res)"
  shows "(res = Inr () \<longrightarrow> (\<exists>s. stored_at t tid = Some (TaskDoc s) \<and> st_subject s = subject \<and>
        td_status (st_document s) \<in> {TaskCompleted, TaskCancelled}) \<and>
      stored_at t' = (stored_at t)(tid := None) \<and> sessions_of tid t' = [] \<and>
      map_of (cs_sessions (tk_control t')) = (\<lambda>k. map_option (\<lambda>r. if task_text r = tid then detached r else r)
        (map_of (cs_sessions (tk_control t)) k))) \<and>
    ((\<exists>s. stored_at t tid = Some (TaskDoc s) \<and> td_status (st_document s) \<in> {TaskActive, TaskBlocked}) \<or>
       (\<exists>r\<in>set (sessions_of tid t). task_created r \<and> status r = Creating) \<longrightarrow> res \<noteq> Inr () \<and> t' = t)"
proof (intro conjI impI)
  assume ok: "res = Inr ()"
  from assms ok obtain s where s: "read_stored bytes cfg subject tid t = Inr s"
    "td_status (st_document s) \<in> {TaskCompleted, TaskCancelled}"
    and del: "detach_and_remove io w tid t = (t', Inr ())"
    by (auto simp: task_delete_def split: sum.splits if_splits)
  note stored = read_stored_Inr [OF s(1)]
  then have tid: "tid \<noteq> []" using path_not_empty by blast
  from del obtain ctl where d: "detach_task io tid (tk_control t) = (ctl, Inr ())"
    "remove_file w tid (t\<lparr>tk_control := ctl\<rparr>) = (t', Inr ())"
    by (auto simp: detach_and_remove_def split: prod.splits sum.splits)
  note det = detach_task_sessions [OF d(1)]
  have lw: "lands w" using d(2) by (cases w) (auto simp: remove_file_def)
  have t': "stored_at t' = (stored_at t)(tid := None)" "tk_control t' = ctl"
    using d(2) lw by (auto simp: remove_file_def)
  have "length (sessions_of tid t') = 0"
    unfolding length_sessions_of using t'(2) det tid by (simp add: attached_detach)
  then show "\<exists>s. stored_at t tid = Some (TaskDoc s) \<and> st_subject s = subject \<and>
        td_status (st_document s) \<in> {TaskCompleted, TaskCancelled}"
    and "stored_at t' = (stored_at t)(tid := None)" and "sessions_of tid t' = []"
    and "map_of (cs_sessions (tk_control t')) = (\<lambda>k. map_option (\<lambda>r. if task_text r = tid then detached r else r)
        (map_of (cs_sessions (tk_control t)) k))"
    using stored s(2) t' det by (auto simp: fun_eq_iff map_of_detach_rows)
next
  assume "(\<exists>s. stored_at t tid = Some (TaskDoc s) \<and> td_status (st_document s) \<in> {TaskActive, TaskBlocked}) \<or>
       (\<exists>r\<in>set (sessions_of tid t). task_created r \<and> status r = Creating)"
  then have "\<exists>e. task_delete bytes cfg io w subject tid t = (t, Inl e)"
  proof
    assume "\<exists>s. stored_at t tid = Some (TaskDoc s) \<and> td_status (st_document s) \<in> {TaskActive, TaskBlocked}"
    then show ?thesis
      using read_stored_Inr [of bytes cfg subject tid t]
      by (cases "read_stored bytes cfg subject tid t") (auto simp: task_delete_def)
  next
    assume "\<exists>r\<in>set (sessions_of tid t). task_created r \<and> status r = Creating"
    then have "list_ex (\<lambda>r. task_created r \<and> status r = Creating) (sessions_of tid t)" by (auto simp: list_ex_iff)
    then show ?thesis
      by (cases "read_stored bytes cfg subject tid t") (auto simp: task_delete_def)
  qed
  with assms show "res \<noteq> Inr ()" and "t' = t" by auto
qed


definition claim_due :: "time \<Rightarrow> stored_task \<Rightarrow> bool" where
  "claim_due now s \<longleftrightarrow> td_status (st_document s) = TaskActive \<and> continuation_unfinished (st_document s) \<and>
     co_attempts (st_continuation s) < 10 \<and>
     (co_claim (st_continuation s) = None \<or> claim_expired now (st_continuation s)) \<and>
     td_updated_at (st_document s) + 900 \<le> now \<and>
     (\<forall>a. co_last_activity (st_continuation s) = Some a \<longrightarrow> a + 900 \<le> now) \<and>
     (co_last_activity (st_continuation s) = None \<longrightarrow> 900 \<le> now) \<and>
     (\<forall>r. co_retry_after (st_continuation s) = Some r \<longrightarrow> r \<le> now)"

lemma eligible_iff_due:
  "co_claim (st_continuation (expire_claim now s)) = None \<and> cv_eligible (continuation_state (expire_claim now s) now) \<longleftrightarrow>
   claim_due now s"
proof -
  have "co_claim (st_continuation (expire_claim now s)) = None \<longleftrightarrow>
      co_claim (st_continuation s) = None \<or> claim_expired now (st_continuation s)"
    by (auto simp: expire_claim_def clear_claim_def)
  moreover have "co_last_activity (st_continuation (expire_claim now s)) = co_last_activity (st_continuation s)"
    "co_retry_after (st_continuation (expire_claim now s)) = co_retry_after (st_continuation s)"
    by (simp_all add: expire_claim_def clear_claim_def)
  moreover have "max a b + 900 \<le> now \<longleftrightarrow> a + 900 \<le> now \<and> b + 900 \<le> now" for a b :: time
    by (auto simp: max_def)
  ultimately show ?thesis
    unfolding claim_due_def continuation_state_def continuation_last_activity_def Let_def max_attempts_def idle_s_def
      continuation_view.select_convs expire_claim_frame
    by (cases "co_last_activity (st_continuation s)"; cases "co_retry_after (st_continuation s)") auto
qed

text \<open>
  The only ways in which a granted claim is given up: an agent acted on the task before the host reserved
  the claim; the host that reserved it reported the outcome, or asked for it when the task was no longer due;
  an operation found it expired by its clock; or the task was removed.
\<close>

definition holds_claim :: "ustr \<Rightarrow> ustr \<Rightarrow> time \<Rightarrow> tasks \<Rightarrow> bool" where
  "holds_claim tid claim since t \<longleftrightarrow> (\<exists>s. stored_at t tid = Some (TaskDoc s) \<and>
     co_claim (st_continuation s) = Some claim \<and> co_since (st_continuation s) = Some since)"

inductive gives_up ::
  "(json \<Rightarrow> nat) \<Rightarrow> task_config \<Rightarrow> ustr \<Rightarrow> ustr \<Rightarrow> time \<Rightarrow> stored_task \<Rightarrow> tasks \<Rightarrow> tasks \<Rightarrow> bool"
  for bytes cfg tid claim since s u v where
  by_mutation: "mutate_task bytes cfg w subject tid now f u = (v, ures) \<Longrightarrow> \<not> co_reserved (st_continuation s) \<Longrightarrow>
    gives_up bytes cfg tid claim since s u v"
| by_activity: "observe_one bytes cfg w subject observed tid u = (v, ores) \<Longrightarrow> \<not> co_reserved (st_continuation s) \<Longrightarrow>
    gives_up bytes cfg tid claim since s u v"
| by_outcome: "report_continuation bytes cfg w subject tid now c accepted u = (v, rres) \<Longrightarrow> py_strip c = claim \<Longrightarrow>
    co_reserved (st_continuation s) \<Longrightarrow> gives_up bytes cfg tid claim since s u v"
| by_validation: "validate_continuation bytes cfg w subject tid now c u = (v, cres) \<Longrightarrow> py_strip c = claim \<Longrightarrow>
    \<not> claim_valid claim now s \<Longrightarrow> gives_up bytes cfg tid claim since s u v"
| validated_late: "validate_continuation bytes cfg w subject tid now c u = (v, cres) \<Longrightarrow> since + 300 \<le> now \<Longrightarrow>
    gives_up bytes cfg tid claim since s u v"
| claimed_late: "claim_continuation bytes cfg w subject tid now c u = (v, cres) \<Longrightarrow> since + 300 \<le> now \<Longrightarrow>
    gives_up bytes cfg tid claim since s u v"
| swept_late: "sweep_one bytes cfg w1 w2 jobs now tid u = (v, bres) \<Longrightarrow> since + 300 \<le> now \<Longrightarrow>
    gives_up bytes cfg tid claim since s u v"

definition releases ::
  "(json \<Rightarrow> nat) \<Rightarrow> task_config \<Rightarrow> ustr \<Rightarrow> ustr \<Rightarrow> time \<Rightarrow> tasks \<Rightarrow> tasks \<Rightarrow> bool" where
  "releases bytes cfg tid claim since u v \<longleftrightarrow> stored_at v tid = None \<or>
     (\<exists>s. stored_at u tid = Some (TaskDoc s) \<and> stored_at v tid \<noteq> stored_at u tid \<and>
        gives_up bytes cfg tid claim since s u v)"

lemma not_released:
  assumes "\<not> releases bytes cfg tid claim since u v" and "stored_at u tid = Some (TaskDoc s)"
    and "stored_at v tid \<noteq> stored_at u tid"
  shows "\<not> gives_up bytes cfg tid claim since s u v"
  using assms by (auto simp: releases_def)

lemma claim_expired_held:
  "co_claim (st_continuation s) = Some claim \<Longrightarrow> co_since (st_continuation s) = Some since \<Longrightarrow>
   claim_expired now (st_continuation s) \<longleftrightarrow> since + 300 \<le> now"
  by (auto simp: claim_expired_def pending_ttl_s_def)

lemma expire_claim_held:
  "co_claim (st_continuation s) = Some claim \<Longrightarrow> co_since (st_continuation s) = Some since \<Longrightarrow> now < since + 300 \<Longrightarrow>
   expire_claim now s = s"
  by (simp add: expire_claim_def claim_expired_held)

text \<open>A transaction on one file keeps the claim unless it changes the claim of this file.\<close>

lemma held_touch:
  assumes "touches x R u v" and "holds_claim tid claim since u"
    and "\<And>s s'. x = tid \<Longrightarrow> stored_at u tid = Some (TaskDoc s) \<Longrightarrow> co_claim (st_continuation s) = Some claim \<Longrightarrow>
      co_since (st_continuation s) = Some since \<Longrightarrow> R s s' \<Longrightarrow> stored_at v tid = Some (TaskDoc s') \<Longrightarrow>
      stored_at v tid \<noteq> stored_at u tid \<Longrightarrow>
      co_claim (st_continuation s') = Some claim \<and> co_since (st_continuation s') = Some since"
  shows "holds_claim tid claim since v"
proof (cases "stored_at v tid = stored_at u tid")
  case True
  with assms(2) show ?thesis by (simp add: holds_claim_def)
next
  case False
  with assms(1) obtain s s' where s: "x = tid" "stored_at u tid = Some (TaskDoc s)" "R s s'" "stored_at v tid = Some (TaskDoc s')"
    unfolding touches_def by (metis fun_upd_apply)
  with assms(2) have "co_claim (st_continuation s) = Some claim" "co_since (st_continuation s) = Some since"
    by (simp_all add: holds_claim_def)
  from assms(3) [OF s(1,2) this s(3,4) False] s(4) show ?thesis by (simp add: holds_claim_def)
qed

lemma held_mutate:
  assumes "mutate_task bytes cfg w subject x now f u = (v, res)" and "holds_claim tid claim since u"
    and "\<not> releases bytes cfg tid claim since u v"
  shows "holds_claim tid claim since v"
proof (rule held_touch [OF mutate_touches [OF assms(1)] assms(2)])
  fix s s'
  assume s: "x = tid" "stored_at u tid = Some (TaskDoc s)" "co_claim (st_continuation s) = Some claim"
    "co_since (st_continuation s) = Some since" "mutated f now s s'" "stored_at v tid \<noteq> stored_at u tid"
  then have "co_reserved (st_continuation s)"
    using by_mutation [of bytes cfg w subject tid now f u v res s] assms(1) not_released [OF assms(3)] by blast
  with s show "co_claim (st_continuation s') = Some claim \<and> co_since (st_continuation s') = Some since"
    by (auto simp: mutated_def withdraw_claim_def)
qed

lemma held_observe:
  assumes "observe_one bytes cfg w subject observed x u = (v, res)" and "holds_claim tid claim since u"
    and "\<not> releases bytes cfg tid claim since u v"
  shows "holds_claim tid claim since v"
proof (rule held_touch [OF observe_touches [OF assms(1)] assms(2)])
  fix s s'
  assume s: "x = tid" "stored_at u tid = Some (TaskDoc s)" "co_claim (st_continuation s) = Some claim"
    "co_since (st_continuation s) = Some since" "observed_by observed s s'" "stored_at v tid \<noteq> stored_at u tid"
  then have "co_reserved (st_continuation s)"
    using by_activity [of bytes cfg w subject observed tid u v res s] assms(1) not_released [OF assms(3)] by blast
  with s show "co_claim (st_continuation s') = Some claim \<and> co_since (st_continuation s') = Some since"
    by (auto simp: observed_by_def withdraw_claim_def)
qed

lemma held_claim:
  assumes "claim_continuation bytes cfg w subject x now c u = (v, res)" and "holds_claim tid claim since u"
    and "\<not> releases bytes cfg tid claim since u v"
  shows "holds_claim tid claim since v"
proof (rule held_touch [OF claim_touches [OF assms(1)] assms(2)])
  fix s s'
  assume s: "x = tid" "stored_at u tid = Some (TaskDoc s)" "co_claim (st_continuation s) = Some claim"
    "co_since (st_continuation s) = Some since" "claimed_by c now s s'" "stored_at v tid \<noteq> stored_at u tid"
  then have "now < since + 300"
    using claimed_late [of bytes cfg w subject tid now c u v res since claim s] assms(1) not_released [OF assms(3)]
    unfolding not_le [symmetric] by blast
  with s show "co_claim (st_continuation s') = Some claim \<and> co_since (st_continuation s') = Some since"
    by (auto simp: claimed_by_def expire_claim_held continuation_state_def Let_def)
qed

lemma held_validate:
  assumes "validate_continuation bytes cfg w subject x now c u = (v, res)" and "holds_claim tid claim since u"
    and "\<not> releases bytes cfg tid claim since u v"
  shows "holds_claim tid claim since v"
proof (rule held_touch [OF validate_touches [OF assms(1)] assms(2)])
  fix s s'
  assume s: "x = tid" "stored_at u tid = Some (TaskDoc s)" "co_claim (st_continuation s) = Some claim"
    "co_since (st_continuation s) = Some since" "validated_by (py_strip c) now s s'" "stored_at v tid \<noteq> stored_at u tid"
  then have "now < since + 300" "py_strip c = claim \<Longrightarrow> claim_valid claim now s"
    using validated_late [of bytes cfg w subject tid now c u v res since claim s]
      by_validation [of bytes cfg w subject tid now c u v res claim s since] assms(1) not_released [OF assms(3)]
    unfolding not_le [symmetric] by blast+
  with s show "co_claim (st_continuation s') = Some claim \<and> co_since (st_continuation s') = Some since"
    by (auto simp: validated_by_def Let_def expire_claim_held)
qed

lemma held_report:
  assumes "report_continuation bytes cfg w subject x now c accepted u = (v, res)" and "holds_claim tid claim since u"
    and "\<not> releases bytes cfg tid claim since u v"
  shows "holds_claim tid claim since v"
proof (rule held_touch [OF report_touches [OF assms(1)] assms(2)])
  fix s s'
  assume s: "x = tid" "stored_at u tid = Some (TaskDoc s)" "co_claim (st_continuation s) = Some claim"
    "co_since (st_continuation s) = Some since" "reported_by (py_strip c) s s'" "stored_at v tid \<noteq> stored_at u tid"
  then have "py_strip c = claim" "co_reserved (st_continuation s)" by (auto simp: reported_by_def)
  with s have False
    using by_outcome [of bytes cfg w subject tid now c accepted u v res claim s] assms(1) not_released [OF assms(3)] by blast
  then show "co_claim (st_continuation s') = Some claim \<and> co_since (st_continuation s') = Some since" ..
qed

lemma held_sweep:
  assumes "sweep_one bytes cfg w1 w2 jobs now x u = (v, res)" and "holds_claim tid claim since u"
    and "\<not> releases bytes cfg tid claim since u v"
  shows "holds_claim tid claim since v"
proof -
  have touch: "touches x (\<lambda>s s'. s' = expire_claim now s \<or>
      s' = block_idle now (expire_claim now s) \<and> co_claim (st_continuation (expire_claim now s)) = None) u v"
    using assms(1)
  proof (cases rule: sweep_one_cases)
    case (blocked s)
    from blocked(5) have "co_claim (st_continuation (expire_claim now s)) = None" by (rule sweep_decision_Some)
    with blocked show ?thesis by (auto simp: touches_def)
  qed (auto simp: touches_def)
  show ?thesis
  proof (rule held_touch [OF touch assms(2)])
    fix s s'
    assume s: "x = tid" "stored_at u tid = Some (TaskDoc s)" "co_claim (st_continuation s) = Some claim"
      "co_since (st_continuation s) = Some since" "stored_at v tid \<noteq> stored_at u tid"
      "s' = expire_claim now s \<or>
       s' = block_idle now (expire_claim now s) \<and> co_claim (st_continuation (expire_claim now s)) = None"
    then have "now < since + 300"
      using swept_late [of bytes cfg w1 w2 jobs now tid u v res since claim s] assms(1) not_released [OF assms(3)]
      unfolding not_le [symmetric] by blast
    with s show "co_claim (st_continuation s') = Some claim \<and> co_since (st_continuation s') = Some since"
      by (auto simp: expire_claim_held)
  qed
qed

lemma held_put:
  assumes "persist_stored bytes cfg w x s' t = (v, res)" and "holds_claim tid claim since t"
    and "x = tid \<Longrightarrow> co_claim (st_continuation s') = Some claim \<and> co_since (st_continuation s') = Some since"
  shows "holds_claim tid claim since v"
  using persist_stored_effect [OF assms(1)] assms(2,3) by (cases "x = tid") (auto simp: holds_claim_def)

lemma holds_claim_control [simp]: "holds_claim tid claim since (t\<lparr>tk_control := ctl\<rparr>) = holds_claim tid claim since t"
  by (simp add: holds_claim_def)

lemma held_remove:
  assumes "holds_claim tid claim since u" and "\<not> releases bytes cfg tid claim since u v"
    and "stored_at v = stored_at u \<or> stored_at v = (stored_at u)(x := None)"
  shows "holds_claim tid claim since v"
  using assms by (cases "x = tid") (auto simp: holds_claim_def releases_def)

lemma remove_file_files: "stored_at (fst (remove_file w x t)) = stored_at t \<or>
    stored_at (fst (remove_file w x t)) = (stored_at t)(x := None)"
  by (auto simp: remove_file_def)

lemma detach_and_remove_files: "stored_at (fst (detach_and_remove io w x t)) = stored_at t \<or>
    stored_at (fst (detach_and_remove io w x t)) = (stored_at t)(x := None)"
proof (cases "detach_task io x (tk_control t)")
  case (Pair ctl res)
  with remove_file_files [of w x "t\<lparr>tk_control := ctl\<rparr>"] show ?thesis
    by (cases res) (simp_all add: detach_and_remove_def)
qed

lemma held_step:
  assumes step: "tk_step bytes cfg u v" and held: "holds_claim tid claim since u"
    and keep: "\<not> releases bytes cfg tid claim since u v"
  shows "holds_claim tid claim since v"
  using step
proof cases
  case (tk_report w subject x now r res)
  then show ?thesis using held held_mutate [OF _ held keep] by (auto simp: task_report_def split: if_splits)
next
  case (tk_status w subject x now a res)
  then show ?thesis using held_mutate [OF _ held keep] by (simp add: task_set_status_def)
next
  case (tk_plan w subject x now repr items res)
  then show ?thesis using held held_mutate [OF _ held keep] by (auto simp: task_update_plan_def split: sum.splits)
next
  case (tk_todos w subject x now repr items res)
  then show ?thesis using held held_mutate [OF _ held keep] by (auto simp: task_write_todos_def split: sum.splits)
next
  case (tk_delete io w subject x ures)
  then have "v = u \<or> v = fst (detach_and_remove io w x u)"
    by (auto simp: task_delete_def split: sum.splits if_splits)
  with held held_remove [OF held keep] detach_and_remove_files [of io w x u] show ?thesis by auto
next
  case (tk_retain io w subject x stale bres)
  then have "v = u \<or> v = fst (detach_and_remove io w x u)"
    by (auto simp: remove_retained_terminal_def split: if_splits task_read.splits sum.splits prod.splits)
  with held held_remove [OF held keep] detach_and_remove_files [of io w x u] show ?thesis by auto
next
  case (tk_new x w subject now lab objective ures)
  have "x \<noteq> tid" using tk_new(1) held by (auto simp: holds_claim_def)
  with held_put [OF tk_new(3) held] show ?thesis by simp
next
  case (tk_admit io w subject r ures)
  show ?thesis
  proof (cases "v = u")
    case False
    with tk_admit obtain s t1 res1 where s: "read_stored bytes cfg subject (task_text r) u = Inr s"
      and p: "persist_stored bytes cfg w (task_text r) (s\<lparr>st_session_count := map_option Suc (st_session_count s)\<rparr>) u = (t1, res1)"
      and v: "v = t1 \<or> (\<exists>ctl. v = t1\<lparr>tk_control := ctl\<rparr>)"
      by (auto simp: admit_session_attachment_def Let_def split: if_splits sum.splits prod.splits)
    have "holds_claim tid claim since t1"
      by (rule held_put [OF p held]) (use held read_stored_Inr [OF s] in \<open>auto simp: holds_claim_def\<close>)
    with v show ?thesis by auto
  qed (use held in simp)
next
  case (tk_discard io w subject r ures)
  show ?thesis
  proof (cases "stored_at v = stored_at u")
    case False
    with tk_discard obtain s t0 n where s: "read_stored bytes cfg subject (task_text r) t0 = Inr s"
      and p: "persist_stored bytes cfg w (task_text r) (s\<lparr>st_session_count := Some n\<rparr>) t0 = (v, ures)"
      and t0: "\<exists>ctl. t0 = u\<lparr>tk_control := ctl\<rparr>"
      by (fastforce simp: discard_failed_attachment_def Let_def split: if_splits sum.splits prod.splits option.splits nat.splits)
    have h0: "holds_claim tid claim since t0" using t0 held by auto
    show ?thesis
      by (rule held_put [OF p h0]) (use h0 read_stored_Inr [OF s] in \<open>auto simp: holds_claim_def\<close>)
  qed (use held in \<open>simp add: holds_claim_def\<close>)
next
  case (tk_discard_implicit w subject x ures)
  then have "v = u \<or> v = fst (remove_file w x u)"
    by (auto simp: discard_implicit_task_def split: sum.splits if_splits)
  with held held_remove [OF held keep] remove_file_files [of w x u] show ?thesis by auto
next
  case (tk_control io op ctl ctlres)
  with held show ?thesis by simp
next
  case (tk_observe w subject observed x ores)
  from held_observe [OF this held keep] show ?thesis .
next
  case (tk_claim w subject x now c cres)
  from held_claim [OF this held keep] show ?thesis .
next
  case (tk_validate w subject x now c cres)
  from held_validate [OF this held keep] show ?thesis .
next
  case (tk_outcome w subject x now c accepted rres)
  from held_report [OF this held keep] show ?thesis .
next
  case (tk_sweep w1 w2 jobs now x bres)
  from held_sweep [OF this held keep] show ?thesis .
qed

lemma held_run:
  assumes "reach ((=) u) (\<lambda>u v. tk_step bytes cfg u v \<and> \<not> releases bytes cfg tid claim since u v) v"
    and "holds_claim tid claim since u"
  shows "holds_claim tid claim since v"
  using assms(1)
proof induction
  case (reach_init s)
  with assms(2) show ?case by simp
next
  case (reach_step s t)
  with held_step show ?case by blast
qed

text \<open>
  C14. Claims are granted exactly when due and one at a time. A claim is granted, once its file is
  written, if and only if the stored task is active with an unfinished plan, fewer than ten
  continuations were dispatched, any earlier claim has expired, and neither the task nor an agent
  was active for fifteen minutes nor a refused dispatch is backing off. In every run of the task service
  after the grant in which the claim is not given up, by an agent that acted on the task before the
  claim was reserved, by the outcome its host reported, by a validation that found the task no longer due,
  by an operation whose clock is five minutes past the grant, or with the task, the claim stays recorded
  and no other claim is granted on the same file within those five minutes.
\<close>

theorem claims_are_exclusive:
  assumes "claim_continuation bytes cfg w subject tid now claim t = (t', res)"
    and "read_stored bytes cfg subject tid t = Inr s"
  shows "((\<exists>v. res = Inr (Some claim, v)) \<longrightarrow> claim_due now s) \<and>
    (claim_due now s \<longrightarrow> (\<exists>v. res = Inr (Some claim, v)) \<or> (\<exists>e. res = Inl e)) \<and>
    ((\<exists>v. res = Inr (Some claim, v)) \<longrightarrow>
       reach ((=) t') (\<lambda>u v. tk_step bytes cfg u v \<and> \<not> releases bytes cfg tid claim now u v) t2 \<longrightarrow>
       holds_claim tid claim now t2 \<and>
       (\<forall>now' w' subject' claim' t3 c v. now' < now + 300 \<longrightarrow>
          claim_continuation bytes cfg w' subject' tid now' claim' t2 \<noteq> (t3, Inr (Some c, v))))"
proof -
  let ?s = "expire_claim now s"
  let ?s' = "?s\<lparr>st_continuation := (st_continuation ?s)\<lparr>co_claim := Some claim, co_since := Some now, co_reserved := False\<rparr>\<rparr>"
  note due = eligible_iff_due [of now s]
  show ?thesis
  proof (cases "claim_due now s")
    case False
    with due assms have "\<not> (\<exists>v. res = Inr (Some claim, v))"
      by (auto simp: claim_continuation_def Let_def split: if_splits prod.splits sum.splits)
    with False show ?thesis by blast
  next
    case True
    obtain t1 r where p: "persist_stored bytes cfg w tid ?s' t = (t1, r)" by fastforce
    from True due assms p have t': "t' = t1" and res: "res = (case r of Inl e \<Rightarrow> Inl e
        | Inr _ \<Rightarrow> Inr (Some claim, continuation_state ?s' now))"
      by (auto simp: claim_continuation_def Let_def split: sum.splits)
    have later: "holds_claim tid claim now t2 \<and>
       (\<forall>now' w' subject' claim' t3 c v. now' < now + 300 \<longrightarrow>
          claim_continuation bytes cfg w' subject' tid now' claim' t2 \<noteq> (t3, Inr (Some c, v)))"
      if "r = Inr ()" and run: "reach ((=) t') (\<lambda>u v. tk_step bytes cfg u v \<and> \<not> releases bytes cfg tid claim now u v) t2"
    proof -
      have "holds_claim tid claim now t'" using persist_stored_effect [OF p] that(1) t' by (auto simp: holds_claim_def)
      with held_run [OF run] have h: "holds_claim tid claim now t2" by blast
      have "claim_continuation bytes cfg w' subject' tid now' claim' t2 \<noteq> (t3, Inr (Some c, v))"
        if "now' < now + 300" for now' w' subject' claim' t3 c v
      proof (cases "read_stored bytes cfg subject' tid t2")
        case (Inl e)
        then show ?thesis by (simp add: claim_continuation_def)
      next
        case (Inr s2)
        with h read_stored_Inr [OF Inr] have c: "co_claim (st_continuation s2) = Some claim" "co_since (st_continuation s2) = Some now"
          by (auto simp: holds_claim_def)
        with expire_claim_held [OF c that] Inr show ?thesis by (auto simp: claim_continuation_def Let_def)
      qed
      with h show ?thesis by blast
    qed
    with res True show ?thesis by (cases r) auto
  qed
qed

lemma withdrawn_never_valid:
  assumes "stored_at t tid = Some (TaskDoc s)" and "co_claim (st_continuation s) = None"
    and "validate_continuation bytes cfg w subject tid now claim t = (t', res)"
  shows "res \<noteq> Inr (Some c, v)"
proof (cases "read_stored bytes cfg subject tid t")
  case (Inl e)
  with assms(3) show ?thesis by (auto simp: validate_continuation_def Let_def split: if_splits)
next
  case (Inr s')
  with read_stored_Inr [OF Inr] assms(1,2) have "co_claim (st_continuation s') = None" by simp
  then have "\<not> claim_valid (py_strip claim) now (expire_claim now s')"
    by (simp add: claim_valid_def expire_claim_def claim_expired_def)
  with Inr assms(3) show ?thesis
    by (auto simp: validate_continuation_def Let_def split: if_splits prod.splits sum.splits)
qed

text \<open>
  Activity withdraws an undispatched claim. After any successful mutation of a task, and after
  any newly observed agent activity that was recorded, a claim that was pending but not yet
  validated is never validated: the host is not told to continue a task that an agent has resumed.
\<close>

theorem activity_withdraws_claims:
  assumes "stored_at t tid = Some (TaskDoc s)" and "\<not> co_reserved (st_continuation s)"
    and "(\<exists>s'. mutate_task bytes cfg w subject tid now f t = (t1, Inr s')) \<or>
      observe_one bytes cfg w subject observed tid t = (t1, Inr ()) \<and>
      (\<forall>a. co_last_activity (st_continuation s) = Some a \<longrightarrow> a < observed)"
    and "validate_continuation bytes cfg w' subject' tid now' claim t1 = (t2, res)"
  shows "res \<noteq> Inr (Some c, v)"
proof -
  have "\<exists>s'. stored_at t1 tid = Some (TaskDoc s') \<and> co_claim (st_continuation s') = None"
    using assms(3)
  proof
    assume "\<exists>s'. mutate_task bytes cfg w subject tid now f t = (t1, Inr s')"
    then obtain s' where "mutate_task bytes cfg w subject tid now f t = (t1, Inr s')" by blast
    then show ?thesis
    proof (cases rule: mutate_task_cases)
      case (wrote s0 s1 r)
      have "s0 = s" using read_stored_Inr [OF wrote(1)] assms(1) by simp
      moreover have "stored_at t1 tid = Some (TaskDoc s1)"
        using persist_stored_effect [OF wrote(3)] wrote(4) by (auto split: sum.splits)
      ultimately show ?thesis
        using wrote(2) assms(2) by (auto simp: mutated_def withdraw_claim_def clear_claim_def)
    qed simp
  next
    assume o: "observe_one bytes cfg w subject observed tid t = (t1, Inr ()) \<and>
      (\<forall>a. co_last_activity (st_continuation s) = Some a \<longrightarrow> a < observed)"
    then obtain s0 where s0: "read_stored bytes cfg subject tid t = Inr s0"
      by (cases "read_stored bytes cfg subject tid t") (auto simp: observe_one_def)
    with assms(1) read_stored_Inr [OF s0] have "s0 = s" by simp
    with o s0 have "persist_stored bytes cfg w tid
        (s\<lparr>st_continuation := withdraw_claim ((st_continuation s)\<lparr>co_last_activity := Some observed\<rparr>)\<rparr>) t = (t1, Inr ())"
      by (auto simp: observe_one_def Let_def split: option.splits if_splits)
    from persist_stored_effect [OF this] assms(2) show ?thesis
      by (auto simp: withdraw_claim_def clear_claim_def)
  qed
  then obtain s' where "stored_at t1 tid = Some (TaskDoc s')" "co_claim (st_continuation s') = None" by blast
  from withdrawn_never_valid [OF this assms(4)] show ?thesis .
qed


section \<open>Retention spares work\<close>

definition protected :: "ustr \<Rightarrow> ustr \<Rightarrow> stored_task \<Rightarrow> tasks \<Rightarrow> bool" where
  "protected subject tid s t \<longleftrightarrow> tid \<noteq> [] \<and> stored_at t tid = Some (TaskDoc s) \<and>
     (\<not> task_terminal s \<or> st_subject s \<noteq> subject \<or> has_live_session tid t)"

lemma detach_task_other:
  assumes "detach_task io tid c = (c', res)" and "tid' \<noteq> tid" and "tid' \<noteq> []"
  shows "filter (\<lambda>r. task_text r = tid') (dict_values (cs_sessions c')) =
    filter (\<lambda>r. task_text r = tid') (dict_values (cs_sessions c))"
proof -
  have "filter (\<lambda>r. task_text r = tid') (dict_values (detach_rows tid d)) =
      filter (\<lambda>r. task_text r = tid') (dict_values d)" for d
    using assms(2,3) by (induction d) (auto simp: detach_rows_def)
  moreover have "cs_sessions c' = cs_sessions c \<or> cs_sessions c' = detach_rows tid (cs_sessions c)"
    using assms(1) by (auto simp: detach_task_def publish_sessions_def write_sessions_def split: if_splits prod.splits)
  ultimately show ?thesis by auto
qed

lemma remove_retained_cases:
  assumes "remove_retained_terminal bytes cfg io w subject tid stale t = (t', res)"
  obtains (kept) "t' = t"
    | (removed) s where "read_cell bytes cfg (tk_files t) tid = GoodTask s" "st_subject s = subject" "task_terminal s"
      "\<not> has_live_session tid t" "t' = fst (detach_and_remove io w tid t)"
proof (cases "read_cell bytes cfg (tk_files t) tid")
  case (GoodTask s)
  let ?go = "task_path_ok tid \<and> st_subject s = subject \<and> task_terminal s \<and> \<not> has_live_session tid t"
  show thesis
  proof (cases ?go)
    case True
    obtain t1 r where d: "detach_and_remove io w tid t = (t1, r)" by fastforce
    from assms GoodTask True d have "t' = t \<or> t' = t1"
      by (simp add: remove_retained_terminal_def split: if_splits sum.splits)
    with True d GoodTask show thesis using kept removed by auto
  next
    case False
    with assms GoodTask have "t' = t" by (simp add: remove_retained_terminal_def split: if_splits)
    then show thesis by (rule kept)
  qed
qed (use assms kept in \<open>simp_all add: remove_retained_terminal_def split: if_splits\<close>)

lemma retained_spares:
  assumes "protected subject tid s t"
    and "remove_retained_terminal bytes cfg io w subject tid2 stale t = (t', res)"
  shows "protected subject tid s t'"
proof -
  from assms(2) consider "t' = t"
    | s2 where "read_cell bytes cfg (tk_files t) tid2 = GoodTask s2" "st_subject s2 = subject" "task_terminal s2"
      "\<not> has_live_session tid2 t" "t' = fst (detach_and_remove io w tid2 t)"
    by (rule remove_retained_cases)
  then show ?thesis
  proof cases
    case 2
    have ne: "tid \<noteq> tid2" using 2 assms(1) read_cell_GoodTask [OF 2(1)] by (auto simp: protected_def)
    obtain ctl dres where d: "detach_task io tid2 (tk_control t) = (ctl, dres)" by fastforce
    have c: "tk_control t' = ctl" "stored_at t' tid = stored_at t tid"
      using 2(5) d ne by (auto simp: detach_and_remove_def remove_file_def split: sum.splits)
    have "sessions_of tid t' = sessions_of tid t"
      unfolding sessions_of_def c(1) using detach_task_other [OF d ne] assms(1) by (auto simp: protected_def)
    with assms(1) c show ?thesis by (simp add: protected_def has_live_session_def)
  qed (use assms(1) in simp)
qed

lemma prune_stale_spares:
  "protected subject tid s t \<Longrightarrow> prune_stale bytes cfg ios ws subject b ss remaining t = (t', res) \<Longrightarrow>
   protected subject tid s t'"
proof (induction ss arbitrary: t remaining)
  case (Cons s2 ss)
  obtain t1 r where o: "remove_retained_terminal bytes cfg (ios (st_task_id s2)) (ws (st_task_id s2)) subject
      (st_task_id s2) (Some b) t = (t1, r)" by fastforce
  from retained_spares [OF Cons.prems(1) o] Cons o show ?case by (auto split: if_splits sum.splits)
qed simp

lemma prune_excess_spares:
  "protected subject tid s t \<Longrightarrow> prune_excess bytes cfg ios ws subject ss remaining count t = (t', res) \<Longrightarrow>
   protected subject tid s t'"
proof (induction ss arbitrary: t count)
  case (Cons s2 ss)
  obtain t1 r where o: "remove_retained_terminal bytes cfg (ios (st_task_id s2)) (ws (st_task_id s2)) subject
      (st_task_id s2) None t = (t1, r)" by fastforce
  note prot = retained_spares [OF Cons.prems(1) o]
  from Cons.prems(2) o consider "t' = t1"
    | count' t2 where "prune_excess bytes cfg ios ws subject ss remaining count' t2 = (t', res)" "t2 = t \<or> t2 = t1"
    by (auto simp: Let_def split: if_splits sum.splits)
  then show ?case using Cons.IH [of t] Cons.IH [of t1] Cons.prems(1) prot by cases auto
qed simp

lemma prune_spares:
  assumes "protected subject tid s t" and "prune_for_create bytes cfg ios ws subject now t = (t', res)"
  shows "protected subject tid s t'"
proof (cases "iter_subject_tasks bytes cfg subject t")
  case (Inl e)
  with assms show ?thesis by (simp add: prune_for_create_def)
next
  case (Inr ss)
  let ?terminal = "sort_key task_order (filter task_terminal ss)"
  obtain t1 r1 where p: "prune_stale bytes cfg ios ws subject (now - terminal_retention_s) ?terminal (map st_task_id ss) t = (t1, r1)"
    by fastforce
  note prot = prune_stale_spares [OF assms(1) p]
  show ?thesis
  proof (cases r1)
    case (Inl e)
    with assms(2) Inr p prot show ?thesis by (simp add: prune_for_create_def)
  next
    case rem: (Inr remaining)
    with assms(2) Inr p prot prune_excess_spares [OF prot] show ?thesis
      by (simp add: prune_for_create_def Let_def split: if_splits)
  qed
qed

text \<open>
  Retention spares work. Creating a task, which prunes the terminal history of the principal
  first, never changes the file of a task that is active or blocked, that belongs to another
  principal, or that has a session which has not ended, however old it is and whatever else fails.
\<close>

theorem retention_spares_work:
  assumes "create_task bytes cfg ios ws w subject now0 now tid lab objective t = (t', res)"
    and "stored_at t tid' = Some (TaskDoc s)" and "tid' \<noteq> []" and "tid' \<noteq> tid"
    and "\<not> task_terminal s \<or> st_subject s \<noteq> subject \<or> has_live_session tid' t"
  shows "stored_at t' tid' = Some (TaskDoc s)"
proof -
  have prot: "protected subject tid' s t" using assms(2,3,5) by (simp add: protected_def)
  obtain t1 r where p: "prune_for_create bytes cfg ios ws subject now0 t = (t1, r)" by fastforce
  have t1: "stored_at t1 tid' = Some (TaskDoc s)" using prune_spares [OF prot p] by (simp add: protected_def)
  from assms(1) p consider "t' = t1" | l obj r2 where "persist_stored bytes cfg w tid (new_task tid subject now l obj) t1 = (t', r2)"
    by (auto simp: create_task_def Let_def split: sum.splits prod.splits)
  then show ?thesis
  proof cases
    case 2
    from persist_stored_effect [OF 2] t1 assms(4) show ?thesis by auto
  qed (use t1 in simp)
qed

section \<open>The life cycle\<close>

definition evolves :: "stored_task \<Rightarrow> stored_task \<Rightarrow> bool" where
  "evolves s s' \<longleftrightarrow> st_task_id s' = st_task_id s \<and> st_subject s' = st_subject s \<and>
     status_moves (td_status (st_document s)) (td_status (st_document s')) \<and>
     co_attempts (st_continuation s) \<le> co_attempts (st_continuation s')"

definition files_evolve :: "tasks \<Rightarrow> tasks \<Rightarrow> bool" where
  "files_evolve t t' \<longleftrightarrow> (\<forall>tid s s'. stored_at t tid = Some (TaskDoc s) \<longrightarrow> stored_at t' tid = Some (TaskDoc s') \<longrightarrow> evolves s s')"

lemma evolves_refl [simp]: "evolves s s"
  by (simp add: evolves_def)

lemma files_evolve_touch: "touches tid (lawful m) t t' \<Longrightarrow> files_evolve t t'"
  by (auto simp: touches_def files_evolve_def evolves_def lawful_def split: if_splits)

lemma files_evolve_less: "(\<And>tid. stored_at t' tid = stored_at t tid \<or> stored_at t' tid = None) \<Longrightarrow> files_evolve t t'"
  unfolding files_evolve_def by (metis evolves_refl option.distinct(1) option.inject task_cell.inject)

lemma files_evolve_persist:
  assumes "persist_stored bytes cfg w tid s' t = (t', res)"
    and "stored_at t tid = None \<or> (\<exists>s. stored_at t tid = Some (TaskDoc s) \<and> evolves s s')"
  shows "files_evolve t t'"
  using persist_stored_effect [OF assms(1)] assms(2) unfolding files_evolve_def by (auto split: if_splits)

lemma files_evolve_files: "files_evolve t1 t2 \<Longrightarrow> tk_files t1 = tk_files t \<Longrightarrow> tk_files t2 = tk_files t' \<Longrightarrow> files_evolve t t'"
  by (simp add: files_evolve_def)

lemma detach_and_remove_less:
  "stored_at (fst (detach_and_remove io w tid t)) x = stored_at t x \<or> stored_at (fst (detach_and_remove io w tid t)) x = None"
  by (auto simp: detach_and_remove_def remove_file_def split: prod.split sum.split)

lemma files_evolve_admit:
  assumes "admit_session_attachment bytes cfg io w subject r t = (t', res)"
  shows "files_evolve t t'"
proof (cases "read_stored bytes cfg subject (task_text r) t")
  case (Inl e)
  with assms have "t' = t" by (auto simp: admit_session_attachment_def Let_def split: if_splits)
  then show ?thesis by (simp add: files_evolve_less)
next
  case (Inr s)
  let ?s = "s\<lparr>st_session_count := map_option Suc (st_session_count s)\<rparr>"
  obtain t1 pr where p: "persist_stored bytes cfg w (task_text r) ?s t = (t1, pr)" by fastforce
  have "files_evolve t t1"
    by (rule files_evolve_persist [OF p]) (use read_stored_Inr [OF Inr] in \<open>simp add: evolves_def\<close>)
  moreover have "t' = t \<or> tk_files t' = tk_files t1"
    using assms Inr p by (auto simp: admit_session_attachment_def Let_def split: if_splits sum.splits prod.splits)
  ultimately show ?thesis by (auto simp: files_evolve_def)
qed

lemma files_evolve_discard:
  assumes "discard_failed_attachment bytes cfg io w subject r t = (t', res)"
  shows "files_evolve t t'"
proof -
  obtain ctl rr where rem: "remove_session io (session_id r) (tk_control t) = (ctl, rr)" by fastforce
  let ?t = "t\<lparr>tk_control := ctl\<rparr>"
  from assms rem consider "tk_files t' = tk_files t"
    | s n pr where "read_stored bytes cfg subject (task_text r) ?t = Inr s"
      "persist_stored bytes cfg w (task_text r) (s\<lparr>st_session_count := Some n\<rparr>) ?t = (t', pr)"
    by (auto simp: discard_failed_attachment_def Let_def simp del: map_of_eq_Some_iff
        split: if_splits option.splits sum.splits prod.splits nat.splits)
  then show ?thesis
  proof cases
    case 1
    then show ?thesis by (simp add: files_evolve_less)
  next
    case 2
    have "files_evolve ?t t'"
      by (rule files_evolve_persist [OF 2(2)]) (use read_stored_Inr [OF 2(1)] in \<open>simp add: evolves_def\<close>)
    then show ?thesis by (simp add: files_evolve_def)
  qed
qed

text \<open>
  A task moves along its life cycle only. Whatever transaction runs, a task that is stored
  before and after it keeps its identity and its owner, its status changes only by block, resume,
  finish and cancel as the life cycle allows (a cancelled task stays cancelled, a completed one can
  only be resumed), and the number of its dispatched continuations never decreases.
\<close>

theorem task_life_cycle:
  assumes "tk_step bytes cfg t t'" and "stored_at t tid = Some (TaskDoc s)" and "stored_at t' tid = Some (TaskDoc s')"
  shows "st_task_id s' = st_task_id s \<and> st_subject s' = st_subject s \<and>
    status_moves (td_status (st_document s)) (td_status (st_document s')) \<and>
    (td_status (st_document s) = TaskCancelled \<longrightarrow> td_status (st_document s') = TaskCancelled) \<and>
    co_attempts (st_continuation s) \<le> co_attempts (st_continuation s')"
proof -
  have "files_evolve t t'"
    using assms(1)
  proof cases
    case (tk_delete io w subject tid ures)
    then have "t' = t \<or> t' = fst (detach_and_remove io w tid t)"
      by (auto simp: task_delete_def split: sum.splits if_splits)
    then show ?thesis using detach_and_remove_less by (intro files_evolve_less) metis
  next
    case (tk_retain io w subject tid stale bres)
    then have "t' = t \<or> t' = fst (detach_and_remove io w tid t)"
      by (cases rule: remove_retained_cases) auto
    then show ?thesis using detach_and_remove_less by (intro files_evolve_less) metis
  next
    case (tk_discard_implicit w subject tid ures)
    then show ?thesis
      by (intro files_evolve_less) (auto simp: discard_implicit_task_def remove_file_def split: sum.splits if_splits)
  next
    case (tk_control io op ctl ctlres)
    then show ?thesis by (intro files_evolve_less) simp
  next
    case (tk_new tid w subject now lab objective ures)
    then show ?thesis by (intro files_evolve_persist [OF tk_new(3)]) simp
  qed (auto intro: files_evolve_admit files_evolve_discard files_evolve_touch touch_report touch_status touch_plan
      touch_todos touch_sweep touch_continuation)
  with assms(2,3) have "evolves s s'" by (auto simp: files_evolve_def)
  then show ?thesis by (auto simp: evolves_def status_moves_def)
qed

section \<open>Concrete runs\<close>

definition demo_tid :: ustr where
  "demo_tid = lit ''task_1''"

definition demo_me :: ustr where
  "demo_me = lit ''me''"

definition demo_cfg :: task_config where
  "demo_cfg = \<lparr>tc_max_todos = 100, tc_max_bytes = 1000, tc_idle_s = 1800\<rparr>"

definition demo_size :: "json \<Rightarrow> nat" where
  "demo_size j = 0"

definition demo_new :: stored_task where
  "demo_new = new_task demo_tid demo_me 0 None None"

definition demo_task :: "task_status \<Rightarrow> stored_task" where
  "demo_task st = demo_new\<lparr>st_document := (st_document demo_new)\<lparr>td_status := st,
     td_steps := [\<lparr>ps_id = lit ''s1'', ps_content = lit ''work'', ps_status = lit ''pending'', ps_priority = lit ''medium''\<rparr>]\<rparr>\<rparr>"

definition demo_tasks :: "(ustr, task_cell) dict \<Rightarrow> tasks" where
  "demo_tasks files = \<lparr>tk_files = files, tk_control = demo_started\<rparr>"

definition demo_holds :: "stored_task \<Rightarrow> tasks" where
  "demo_holds s = demo_tasks [(demo_tid, TaskDoc s)]"

lemma demo_path [simp]: "task_path_ok demo_tid" "demo_tid \<noteq> []"
  by (simp_all add: task_path_ok_def demo_tid_def is_upper_def is_lower_def is_digit_def is_token_char_def)

lemma demo_tasks_simps [simp]:
  "tk_files (demo_tasks files) = files" "tk_control (demo_tasks files) = demo_started"
  "cs_sessions demo_started = []" "sessions_of tid (demo_tasks files) = []"
  by (simp_all add: demo_tasks_def demo_started_def stopped_def sessions_of_def)

lemma demo_task_simps [simp]:
  "st_subject (demo_task st) = demo_me" "st_task_id (demo_task st) = demo_tid"
  "st_continuation (demo_task st) = new_continuation" "st_session_count (demo_task st) = Some 0"
  "td_status (st_document (demo_task st)) = st" "td_updated_at (st_document (demo_task st)) = 0"
  "continuation_unfinished (st_document (demo_task st))"
  "tp_blockers (td_progress (st_document (demo_task st))) = []"
  by (simp_all add: demo_task_def demo_new_def new_task_def continuation_unfinished_def step_done_def)

lemma demo_read [simp]: "st_subject s = demo_me \<Longrightarrow> read_stored demo_size demo_cfg demo_me demo_tid (demo_holds s) = Inr s"
  by (simp add: read_stored_def read_cell_def demo_size_def demo_holds_def storage_overhead_bytes_def)

lemma demo_persist [simp]: "persist_stored demo_size demo_cfg Landed demo_tid s (demo_holds s') = (demo_holds s, Inr ())"
  by (simp add: persist_stored_def demo_size_def demo_holds_def demo_tasks_def)

lemma demo_created: "persist_stored demo_size demo_cfg Landed demo_tid demo_new (demo_tasks []) = (demo_holds demo_new, Inr ())"
  by (simp add: persist_stored_def demo_size_def demo_holds_def demo_tasks_def)

lemma demo_task_reach: "reach tk_init (tk_step demo_size demo_cfg) (demo_holds demo_new)"
proof (rule reach_step)
  show "reach tk_init (tk_step demo_size demo_cfg) (demo_tasks [])"
    by (rule reach_init) (simp add: tk_init_def)
  show "tk_step demo_size demo_cfg (demo_tasks []) (demo_holds demo_new)"
    using tk_new [of "demo_tasks []" demo_tid demo_size demo_cfg Landed demo_me 0 None None] demo_created
    by (simp add: demo_new_def)
qed

lemma demo_stored [simp]: "stored_at (demo_holds s) = [demo_tid \<mapsto> TaskDoc s]"
  by (auto simp: demo_holds_def)

theorem tasks_well_formed_witness:
  "co_attempts (st_continuation demo_new) \<le> 10 \<and> st_task_id demo_new = demo_tid"
  using tasks_well_formed [OF demo_task_reach, of demo_tid demo_new] by simp

theorem session_count_never_undercounts_witness:
  "\<exists>n. st_session_count demo_new = Some n \<and> length (sessions_of demo_tid (demo_holds demo_new)) \<le> n"
proof -
  have "st_session_count demo_new = Some 0" by (simp add: demo_new_def new_task_def)
  moreover have "stored_at (demo_holds demo_new) demo_tid = Some (TaskDoc demo_new)" by simp
  ultimately show ?thesis using session_count_never_undercounts [OF demo_task_reach] by blast
qed

theorem idle_sweep_is_safe_witness:
  "\<exists>s'. sweep_one demo_size demo_cfg Landed Landed None 2000 demo_tid (demo_holds (demo_task TaskActive)) =
      (demo_holds s', Inr True) \<and> td_status (st_document s') = TaskBlocked"
proof -
  let ?s = "demo_task TaskActive" and ?s' = "block_idle 2000 (demo_task TaskActive)"
  have ex: "\<not> claim_expired 2000 (st_continuation ?s)" by (simp add: claim_expired_def new_continuation_def)
  then have "sweep_decision demo_cfg None 2000 [] (expire_claim 2000 ?s) = Some ?s'"
    by (simp add: sweep_decision_def expire_claim_def new_continuation_def job_evidence_def
        continuation_last_activity_def demo_cfg_def report_list_limit_def Let_def)
  moreover have "sessions_of demo_tid (demo_holds ?s) = []" by (simp add: demo_holds_def)
  moreover have "read_cell demo_size demo_cfg (tk_files (demo_holds ?s)) demo_tid = GoodTask ?s"
    by (simp add: read_cell_def demo_size_def demo_holds_def storage_overhead_bytes_def)
  ultimately have step: "sweep_one demo_size demo_cfg Landed Landed None 2000 demo_tid (demo_holds ?s) = (demo_holds ?s', Inr True)"
    using ex by (simp add: sweep_one_def Let_def)
  obtain s2 where "stored_at (demo_holds ?s') = (stored_at (demo_holds ?s))(demo_tid \<mapsto> TaskDoc s2)"
    "td_status (st_document s2) = TaskBlocked"
    using idle_sweep_is_safe [OF step] by blast
  then have "td_status (st_document ?s') = TaskBlocked"
    unfolding demo_stored by (metis fun_upd_same option.inject task_cell.inject)
  with step show ?thesis by blast
qed

theorem deletion_detaches_witness:
  "task_delete demo_size demo_cfg demo_write Landed demo_me demo_tid (demo_holds (demo_task TaskCancelled)) =
      (demo_tasks [], Inr ()) \<and>
   snd (task_delete demo_size demo_cfg demo_write Landed demo_me demo_tid (demo_holds (demo_task TaskActive))) \<noteq> Inr ()"
proof
  have "detach_task demo_write demo_tid demo_started = (demo_started, Inr ())"
    by (simp add: detach_task_def require_started_def demo_started_def stopped_def detach_rows_def)
  then have "detach_and_remove demo_write Landed demo_tid (demo_holds (demo_task TaskCancelled)) = (demo_tasks [], Inr ())"
    by (simp add: detach_and_remove_def remove_file_def demo_holds_def demo_tasks_def)
  moreover have "sessions_of demo_tid (demo_holds (demo_task TaskCancelled)) = []" by (simp add: demo_holds_def)
  ultimately show "task_delete demo_size demo_cfg demo_write Landed demo_me demo_tid (demo_holds (demo_task TaskCancelled)) =
      (demo_tasks [], Inr ())"
    by (simp add: task_delete_def)
  show "snd (task_delete demo_size demo_cfg demo_write Landed demo_me demo_tid (demo_holds (demo_task TaskActive))) \<noteq> Inr ()"
    using deletion_detaches [of demo_size demo_cfg demo_write Landed demo_me demo_tid "demo_holds (demo_task TaskActive)"]
    by (metis (no_types, lifting) demo_stored demo_task_simps(5) fun_upd_same insertI1 prod.collapse)
qed

definition demo_claimed :: stored_task where
  "demo_claimed = (demo_task TaskActive)\<lparr>st_continuation := new_continuation\<lparr>co_claim := Some (lit ''c1''), co_since := Some 1000\<rparr>\<rparr>"

lemma demo_claim:
  "\<exists>v. claim_continuation demo_size demo_cfg Landed demo_me demo_tid 1000 (lit ''c1'') (demo_holds (demo_task TaskActive)) =
    (demo_holds demo_claimed, Inr (Some (lit ''c1''), v))"
  by (simp add: claim_continuation_def Let_def claim_expired_def expire_claim_def new_continuation_def
      continuation_state_def continuation_last_activity_def idle_s_def max_attempts_def demo_claimed_def)

theorem claims_are_exclusive_witness:
  "\<exists>t v. claim_continuation demo_size demo_cfg Landed demo_me demo_tid 1000 (lit ''c1'') (demo_holds (demo_task TaskActive)) =
      (t, Inr (Some (lit ''c1''), v)) \<and>
    (\<forall>t2 c v. claim_continuation demo_size demo_cfg Landed demo_me demo_tid 1200 (lit ''c2'') t \<noteq> (t2, Inr (Some c, v)))"
proof -
  obtain v where v: "claim_continuation demo_size demo_cfg Landed demo_me demo_tid 1000 (lit ''c1'')
      (demo_holds (demo_task TaskActive)) = (demo_holds demo_claimed, Inr (Some (lit ''c1''), v))"
    using demo_claim by blast
  have "read_stored demo_size demo_cfg demo_me demo_tid (demo_holds (demo_task TaskActive)) = Inr (demo_task TaskActive)" by simp
  from claims_are_exclusive [OF v this, of "demo_holds demo_claimed"] v show ?thesis
    by (auto intro: reach_init)
qed

theorem activity_withdraws_claims_witness:
  "\<exists>t1. observe_one demo_size demo_cfg Landed demo_me 1100 demo_tid (demo_holds demo_claimed) = (t1, Inr ()) \<and>
    (\<forall>t2 c v. validate_continuation demo_size demo_cfg Landed demo_me demo_tid 2100 (lit ''c1'') t1 \<noteq> (t2, Inr (Some c, v)))"
proof -
  have o: "\<exists>t1. observe_one demo_size demo_cfg Landed demo_me 1100 demo_tid (demo_holds demo_claimed) = (t1, Inr ())"
    by (simp add: observe_one_def demo_claimed_def new_continuation_def Let_def)
  then obtain t1 where t1: "observe_one demo_size demo_cfg Landed demo_me 1100 demo_tid (demo_holds demo_claimed) = (t1, Inr ())" by blast
  have s: "stored_at (demo_holds demo_claimed) demo_tid = Some (TaskDoc demo_claimed)" by simp
  have c: "\<not> co_reserved (st_continuation demo_claimed)" "co_last_activity (st_continuation demo_claimed) = None"
    by (simp_all add: demo_claimed_def new_continuation_def)
  have "res \<noteq> Inr (Some c, v)"
    if "validate_continuation demo_size demo_cfg Landed demo_me demo_tid 2100 (lit ''c1'') t1 = (t2, res)" for t2 res c v
    by (rule activity_withdraws_claims [OF s c(1) disjI2 that]) (use t1 c(2) in simp)
  with t1 show ?thesis by blast
qed

theorem retention_spares_work_witness:
  "stored_at (fst (create_task demo_size demo_cfg (\<lambda>_. demo_write) (\<lambda>_. Landed) Landed demo_me 9000000 9000000
      (lit ''task_2'') None None (demo_holds (demo_task TaskBlocked)))) demo_tid = Some (TaskDoc (demo_task TaskBlocked))"
proof -
  let ?r = "create_task demo_size demo_cfg (\<lambda>_. demo_write) (\<lambda>_. Landed) Landed demo_me 9000000 9000000
      (lit ''task_2'') None None (demo_holds (demo_task TaskBlocked))"
  have "?r = (fst ?r, snd ?r)" by (rule prod.collapse [symmetric])
  moreover have "stored_at (demo_holds (demo_task TaskBlocked)) demo_tid = Some (TaskDoc (demo_task TaskBlocked))" by simp
  moreover have "demo_tid \<noteq> lit ''task_2''" by (simp add: demo_tid_def)
  moreover have "\<not> task_terminal (demo_task TaskBlocked)" by (simp add: task_terminal_def)
  ultimately show ?thesis by (rule retention_spares_work [OF _ _ demo_path(2) _ disjI1])
qed

theorem task_life_cycle_witness:
  "\<exists>s'. tk_step demo_size demo_cfg (demo_holds (demo_task TaskActive)) (demo_holds s') \<and>
    td_status (st_document s') = TaskBlocked \<and> status_moves TaskActive (td_status (st_document s'))"
proof -
  obtain s' where s': "task_set_status demo_size demo_cfg Landed demo_me demo_tid 50 Block (demo_holds (demo_task TaskActive)) =
      (demo_holds s', Inr s')" "td_status (st_document s') = TaskBlocked"
    by (simp add: task_set_status_def mutate_task_def update_stored_def)
  from tk_status [OF s'(1)] have step: "tk_step demo_size demo_cfg (demo_holds (demo_task TaskActive)) (demo_holds s')" .
  from task_life_cycle [OF step, of demo_tid "demo_task TaskActive" s'] s'(2) step show ?thesis by auto
qed

end
