(* ===== verification/Text_Lines.thy ===== *)
theory Text_Lines
  imports Prelude
begin

text \<open>
  Lines of a Python string: \<open>str.splitlines\<close> with and without its line ends, \<open>sep.join\<close>,
  \<open>str.split\<close> and the affixes, with the laws that relate them.
\<close>

section \<open>Line boundaries\<close>

text \<open>The boundaries of \<open>str.splitlines\<close>; \<open>"\r\n"\<close> counts as one.\<close>

definition is_break :: "nat \<Rightarrow> bool" where
  "is_break c \<longleftrightarrow> c = 10 \<or> c = 13 \<or> c = 11 \<or> c = 12 \<or> c = 28 \<or> c = 29 \<or> c = 30 \<or> c = 133 \<or> c = 8232 \<or> c = 8233"

abbreviation unbroken :: "ustr \<Rightarrow> bool" where
  "unbroken l \<equiv> \<forall>c\<in>set l. \<not> is_break c"

text \<open>Each line with the boundary that ends it; \<open>acc\<close> is the current line, reversed.\<close>

fun cut_lines :: "ustr \<Rightarrow> ustr \<Rightarrow> (ustr \<times> ustr) list" where
  "cut_lines acc [] = (if acc = [] then [] else [(rev acc, [])])"
| "cut_lines acc (c # s) =
     (if c = 13 \<and> s \<noteq> [] \<and> hd s = 10 then (rev acc, [13, 10]) # cut_lines [] (tl s)
      else if is_break c then (rev acc, [c]) # cut_lines [] s
      else cut_lines (c # acc) s)"

definition splitlines :: "ustr \<Rightarrow> ustr list" where
  "splitlines s = map fst (cut_lines [] s)"

definition splitlines_keep :: "ustr \<Rightarrow> ustr list" where
  "splitlines_keep s = map (\<lambda>(l, e). l @ e) (cut_lines [] s)"

fun join :: "ustr \<Rightarrow> ustr list \<Rightarrow> ustr" where
  "join sep [] = []"
| "join sep [x] = x"
| "join sep (x # y # xs) = x @ sep @ join sep (y # xs)"

fun split_on :: "nat \<Rightarrow> ustr \<Rightarrow> ustr list" where
  "split_on d [] = [[]]"
| "split_on d (c # s) =
     (if c = d then [] # split_on d s
      else case split_on d s of [] \<Rightarrow> [[c]] | w # ws \<Rightarrow> (c # w) # ws)"

definition ends_with :: "ustr \<Rightarrow> ustr \<Rightarrow> bool" where
  "ends_with q s \<longleftrightarrow> length q \<le> length s \<and> drop (length s - length q) s = q"

section \<open>Laws\<close>

lemma concat_cut_lines: "concat (map (\<lambda>(l, e). l @ e) (cut_lines acc s)) = rev acc @ s"
  by (induction acc s rule: cut_lines.induct) (auto simp: neq_Nil_conv)

lemma concat_splitlines_keep: "concat (splitlines_keep s) = s"
  using concat_cut_lines [of "[]" s] by (simp add: splitlines_keep_def)

lemma cut_lines_unbroken: "unbroken acc \<Longrightarrow> (l, e) \<in> set (cut_lines acc s) \<Longrightarrow> unbroken l"
proof (induction acc s rule: cut_lines.induct)
  case (1 acc)
  then show ?case by (cases "acc = []") simp_all
next
  case (2 acc c s)
  let ?crlf = "c = 13 \<and> s \<noteq> [] \<and> hd s = 10"
  consider ?crlf | "\<not> ?crlf" "is_break c" | "\<not> ?crlf" "\<not> is_break c" by blast
  then show ?case
  proof cases
    case 1
    then have "cut_lines acc (c # s) = (rev acc, [13, 10]) # cut_lines [] (tl s)" by simp
    with 2(1) [OF 1] 2(4,5) show ?thesis by fastforce
  next
    case b: 2
    then have "cut_lines acc (c # s) = (rev acc, [c]) # cut_lines [] s" by simp
    with 2(2) [OF b] 2(4,5) show ?thesis by fastforce
  next
    case 3
    then have "cut_lines acc (c # s) = cut_lines (c # acc) s" by (simp only: cut_lines.simps if_False)
    with 2(3) [OF 3] 2(4,5) 3 show ?thesis by simp
  qed
qed

lemma splitlines_unbroken: "l \<in> set (splitlines s) \<Longrightarrow> unbroken l"
  using cut_lines_unbroken [of "[]"] by (auto simp: splitlines_def)

definition line_end :: "ustr \<Rightarrow> bool" where
  "line_end nl \<longleftrightarrow> nl = [10] \<or> nl = [13] \<or> nl = [13, 10]"

lemma cut_lines_run: "unbroken l \<Longrightarrow> cut_lines acc (l @ s) = cut_lines (rev l @ acc) s"
  by (induction l arbitrary: acc) (auto simp: is_break_def)

lemma cut_lines_line:
  assumes "unbroken l" and "line_end nl" and "s \<noteq> [] \<Longrightarrow> hd s \<noteq> 10"
  shows "cut_lines [] (l @ nl @ s) = (l, nl) # cut_lines [] s"
  using assms(2,3) unfolding cut_lines_run [OF assms(1)] line_end_def by (auto simp: is_break_def)

lemma hd_join:
  assumes "unbroken x" and "line_end nl" and "nl = [10] \<Longrightarrow> False"
  shows "join nl (x # xs) @ t \<noteq> [] \<Longrightarrow> hd (join nl (x # xs) @ t) \<noteq> 10 \<or> x = [] \<and> xs = [] \<and> hd t = 10"
  using assms by (cases xs; cases x) (auto simp: line_end_def is_break_def)

text \<open>Splitting joined lines gives the lines back, unless the last is empty and not ended.\<close>

lemma splitlines_join:
  assumes "\<forall>l\<in>set ls. unbroken l" and "line_end nl" and "ended \<or> (ls \<noteq> [] \<longrightarrow> last ls \<noteq> [])"
  shows "splitlines (join nl ls @ (if ended \<and> ls \<noteq> [] then nl else [])) = ls"
  using assms(1,3)
proof (induction ls)
  case Nil
  then show ?case by (simp add: splitlines_def)
next
  case (Cons x ls)
  have x: "unbroken x" using Cons.prems by simp
  show ?case
  proof (cases ls)
    case Nil
    show ?thesis
    proof (cases ended)
      case True
      with cut_lines_line [OF x assms(2), of "[]"] Nil show ?thesis by (simp add: splitlines_def)
    next
      case False
      with Cons.prems Nil cut_lines_run [OF x, of "[]" "[]"] show ?thesis by (simp add: splitlines_def)
    qed
  next
    case (Cons y zs)
    let ?s = "join nl ls @ (if ended then nl else [])"
    have rest: "splitlines ?s = ls" using Cons.IH Cons.prems Cons by simp
    have "?s \<noteq> [] \<Longrightarrow> nl \<noteq> [10] \<Longrightarrow> hd ?s \<noteq> 10"
      using hd_join [of y nl zs "if ended then nl else []"] assms(2) Cons Cons.prems
      by (auto simp: line_end_def split: if_splits)
    then have "cut_lines [] (x @ nl @ ?s) = (x, nl) # cut_lines [] ?s"
      using cut_lines_line [OF x assms(2), of ?s] cut_lines_run [OF x, of "[]" "10 # ?s"]
      by (cases "nl = [10]") (auto simp: is_break_def)
    with rest Cons show ?thesis by (simp add: splitlines_def)
  qed
qed

lemma in_join: "c \<in> set (join sep ls) \<Longrightarrow> c \<in> set sep \<or> (\<exists>l\<in>set ls. c \<in> set l)"
  by (induction sep ls rule: join.induct) auto

lemma in_joinI: "w \<in> set ws \<Longrightarrow> set w \<subseteq> set (join sep ws)"
  by (induction sep ws rule: join.induct) auto

lemma split_on_nonempty [simp]: "split_on d s \<noteq> []"
  by (induction s) (auto split: list.splits)

lemma join_Cons_head: "join sep ((c # w) # ws) = c # join sep (w # ws)"
  by (cases ws) simp_all

lemma join_split_on: "join [d] (split_on d s) = s"
proof (induction s)
  case (Cons c s)
  then obtain w ws where "split_on d s = w # ws" by (cases "split_on d s") auto
  with Cons show ?case by (simp add: join_Cons_head)
qed simp

lemma split_on_free: "w \<in> set (split_on d s) \<Longrightarrow> d \<notin> set w"
  by (induction s arbitrary: w) (auto split: list.splits if_splits)

lemma split_on_join:
  "ws \<noteq> [] \<Longrightarrow> \<forall>w\<in>set ws. d \<notin> set w \<Longrightarrow> split_on d (join [d] ws) = ws"
proof (induction ws)
  case (Cons w ws)
  have free: "split_on d w' = [w']" if "d \<notin> set w'" for w'
    using that by (induction w') auto
  have app: "split_on d (w' @ d # s) = w' # split_on d s" if "d \<notin> set w'" for w' s
    using that by (induction w') auto
  show ?case using Cons by (cases ws) (auto simp: free app)
qed simp

lemma set_splitlines: "c \<in> set l \<Longrightarrow> l \<in> set (splitlines s) \<Longrightarrow> c \<in> set s"
proof -
  assume "c \<in> set l" "l \<in> set (splitlines s)"
  then have "c \<in> set (concat (splitlines_keep s))" by (force simp: splitlines_def splitlines_keep_def)
  then show ?thesis by (simp add: concat_splitlines_keep)
qed

end
