(* ===== verification/Patch_Envelope.thy ===== *)
theory Patch_Envelope
  imports Text_Lines
begin

text \<open>
  The patch envelope of the executor, \<open>src/src/workgate/executor/patch/envelope.py\<close>: parsing an
  \<open>apply_patch\<close> envelope, applying its hunks to the files it names, and rendering the result as one
  unified diff.

  The file system is a parameter: \<open>disk p\<close> is what resolving \<open>p\<close> below the working directory finds,
  and \<open>absolute p\<close> where an absolute path leads. \<open>udiff\<close> is \<open>difflib.unified_diff\<close>. POSIX paths
  are modelled. The numbers in the messages are the arguments of the errors.
\<close>

section \<open>Data\<close>

datatype operation = AddFile | UpdateFile | DeleteFile

record patch_action =
  pa_operation :: operation
  pa_path :: ustr
  pa_body :: "ustr list"

record file_state =
  fs_path :: ustr
  fs_original :: "ustr option"
  fs_current :: "ustr option"
  fs_mode :: ustr

datatype abs_path = AbsOutside | AbsRoot | AbsInside ustr

text \<open>The flag of a readable file tells whether an execute bit is set.\<close>

datatype target =
    TargetEscapes
  | TargetOther
  | TargetMissing
  | TargetBinary
  | TargetText ustr bool

datatype patch_error =
    NotEnvelope
  | ContentAfterEnd
  | NoActions
  | ExpectedAction ustr
  | MoveUnsupported
  | MissingEnd
  | InvalidPath ustr
  | PathOutside ustr
  | PathEscapes ustr
  | NotRegularFile ustr
  | NotUtf8Text ustr
  | AddExisting ustr
  | AddLine nat ustr
  | DeleteMissing ustr
  | DeleteBody ustr
  | UpdateMissing ustr
  | UnexpectedEof ustr
  | LineOutsideHunk nat ustr
  | InvalidHunkLine nat ustr
  | NoHunks ustr
  | HunkNoMatch nat
  | HunkAmbiguous nat
  | HunkNoContext nat
  | HunkNotAtEnd nat
  | NoChanges ustr
  | NoFileChanges

definition begin_patch :: ustr where "begin_patch = lit ''*** Begin Patch''"
definition end_patch :: ustr where "end_patch = lit ''*** End Patch''"
definition move_to :: ustr where "move_to = lit ''*** Move to: ''"
definition end_of_file :: ustr where "end_of_file = lit ''*** End of File''"

definition action_prefixes :: "(ustr \<times> operation) list" where
  "action_prefixes =
     [(lit ''*** Add File: '', AddFile), (lit ''*** Update File: '', UpdateFile),
      (lit ''*** Delete File: '', DeleteFile)]"

section \<open>Parsing the envelope\<close>

text \<open>The first prefix that the line has, with the rest of the line.\<close>

definition action_line :: "ustr \<Rightarrow> (operation \<times> ustr) option" where
  "action_line l =
     (case find (\<lambda>(q, _). starts_with q l) action_prefixes of
        None \<Rightarrow> None | Some (q, c) \<Rightarrow> Some (c, drop (length q) l))"

definition path_parts :: "ustr \<Rightarrow> ustr list" where
  "path_parts p = filter (\<lambda>w. w \<noteq> [] \<and> w \<noteq> lit ''.'') (split_on 47 p)"

definition normalize_patch_path :: "(ustr \<Rightarrow> abs_path) \<Rightarrow> ustr \<Rightarrow> patch_error + ustr" where
  "normalize_patch_path absolute raw =
     (let p = py_strip raw in
      if p = [] then Inl (InvalidPath raw)
      else if starts_with (lit ''/'') p
      then (case absolute p of
              AbsOutside \<Rightarrow> Inl (PathOutside raw)
            | AbsRoot \<Rightarrow> Inl (InvalidPath raw)
            | AbsInside q \<Rightarrow> Inr q)
      else if 92 \<in> set p then Inl (InvalidPath raw)
      else let parts = path_parts p in
           if lit ''..'' \<in> set parts then Inl (PathOutside raw)
           else if parts = [] then Inl (InvalidPath raw)
           else Inr (join (lit ''/'') parts))"

text \<open>The inner loop: the lines up to the end of the envelope or the next action.\<close>

fun action_body :: "ustr list \<Rightarrow> patch_error + ustr list \<times> ustr list" where
  "action_body [] = Inr ([], [])"
| "action_body (l # ls) =
     (if l = end_patch \<or> action_line l \<noteq> None then Inr ([], l # ls)
      else if starts_with move_to l then Inl MoveUnsupported
      else case action_body ls of
             Inl e \<Rightarrow> Inl e
           | Inr (body, rest) \<Rightarrow> Inr (l # body, rest))"

lemma action_body_length [termination_simp]:
  "action_body ls = Inr (body, rest) \<Longrightarrow> length rest \<le> length ls"
  by (induction ls arbitrary: body) (auto split: if_splits sum.splits)

fun parse_actions :: "(ustr \<Rightarrow> abs_path) \<Rightarrow> patch_action list \<Rightarrow> ustr list \<Rightarrow> patch_error + patch_action list" where
  "parse_actions absolute actions [] = Inl MissingEnd"
| "parse_actions absolute actions (line # ls) =
     (if line = end_patch
      then (if list_ex (\<lambda>item. py_strip item \<noteq> []) ls then Inl ContentAfterEnd
            else if actions = [] then Inl NoActions
            else Inr actions)
      else case action_line line of
             None \<Rightarrow> Inl (ExpectedAction line)
           | Some (op, raw) \<Rightarrow>
               (case normalize_patch_path absolute raw of
                  Inl e \<Rightarrow> Inl e
                | Inr path \<Rightarrow>
                    (case action_body ls of
                       Inl e \<Rightarrow> Inl e
                     | Inr (body, rest) \<Rightarrow>
                         parse_actions absolute
                           (actions @ [\<lparr>pa_operation = op, pa_path = path, pa_body = body\<rparr>]) rest)))"

definition parse_envelope :: "(ustr \<Rightarrow> abs_path) \<Rightarrow> ustr \<Rightarrow> patch_error + patch_action list" where
  "parse_envelope absolute patch =
     (case splitlines patch of
        [] \<Rightarrow> Inl NotEnvelope
      | l # ls \<Rightarrow> if l \<noteq> begin_patch then Inl NotEnvelope else parse_actions absolute [] ls)"

section \<open>Applying one action\<close>

fun added_lines :: "ustr \<Rightarrow> nat \<Rightarrow> ustr list \<Rightarrow> patch_error + ustr list" where
  "added_lines path n [] = Inr []"
| "added_lines path n (l # ls) =
     (if \<not> starts_with (lit ''+'') l then Inl (AddLine n path)
      else case added_lines path (Suc n) ls of Inl e \<Rightarrow> Inl e | Inr ws \<Rightarrow> Inr (tl l # ws))"

definition parse_added_file :: "patch_action \<Rightarrow> patch_error + ustr" where
  "parse_added_file a =
     (case added_lines (pa_path a) 1 (pa_body a) of
        Inl e \<Rightarrow> Inl e
      | Inr content \<Rightarrow> Inr (join [10] content @ (if content \<noteq> [] then [10] else [])))"

text \<open>A hunk is its lines and whether it must end at the end of the file.\<close>

type_synonym hunk = "ustr list \<times> bool"

fun parse_hunks :: "ustr \<Rightarrow> nat \<Rightarrow> ustr list \<Rightarrow> hunk list \<Rightarrow> ustr list option \<Rightarrow> bool \<Rightarrow> patch_error + hunk list" where
  "parse_hunks path n [] hunks current eof =
     Inr (case current of None \<Rightarrow> hunks | Some h \<Rightarrow> hunks @ [(h, eof)])"
| "parse_hunks path n (l # ls) hunks current eof =
     (if starts_with (lit ''@@'') l
      then parse_hunks path (Suc n) ls (case current of None \<Rightarrow> hunks | Some h \<Rightarrow> hunks @ [(h, eof)]) (Some []) False
      else if l = end_of_file
      then (if current = None then Inl (UnexpectedEof path)
            else parse_hunks path (Suc n) ls hunks current True)
      else case current of
             None \<Rightarrow> Inl (LineOutsideHunk n path)
           | Some h \<Rightarrow>
               if \<not> (starts_with (lit '' '') l \<or> starts_with (lit ''+'') l \<or> starts_with (lit ''-'') l)
               then Inl (InvalidHunkLine n path)
               else parse_hunks path (Suc n) ls hunks (Some (h @ [l])) eof)"

definition old_lines :: "hunk \<Rightarrow> ustr list" where
  "old_lines h = map tl (filter (\<lambda>l. \<not> starts_with (lit ''+'') l) (fst h))"

definition new_lines :: "hunk \<Rightarrow> ustr list" where
  "new_lines h = map tl (filter (\<lambda>l. \<not> starts_with (lit ''-'') l) (fst h))"

fun has_crlf :: "ustr \<Rightarrow> bool" where
  "has_crlf (c # d # s) \<longleftrightarrow> c = 13 \<and> d = 10 \<or> has_crlf (d # s)"
| "has_crlf _ \<longleftrightarrow> False"

definition newline_of :: "ustr \<Rightarrow> ustr" where
  "newline_of text =
     (if has_crlf text then [13, 10] else if 13 \<in> set text \<and> 10 \<notin> set text then [13] else [10])"

definition match_positions :: "ustr list \<Rightarrow> ustr list \<Rightarrow> nat \<Rightarrow> nat list" where
  "match_positions old ls cursor =
     filter (\<lambda>k. take (length old) (drop k ls) = old) [cursor ..< length ls + 1 - length old]"

definition hunk_start :: "nat \<Rightarrow> hunk \<Rightarrow> ustr list \<Rightarrow> nat \<Rightarrow> patch_error + nat" where
  "hunk_start n h ls cursor =
     (let old = old_lines h in
      if old \<noteq> []
      then (case match_positions old ls cursor of
              [] \<Rightarrow> Inl (HunkNoMatch n)
            | [k] \<Rightarrow> Inr k
            | _ \<Rightarrow> Inl (HunkAmbiguous n))
      else if snd h then Inr (length ls)
      else Inl (HunkNoContext n))"

text \<open>The loop over the hunks: the lines, where the next hunk may match, and whether any changed.\<close>

fun apply_hunks :: "nat \<Rightarrow> hunk list \<Rightarrow> ustr list \<Rightarrow> nat \<Rightarrow> bool \<Rightarrow> patch_error + ustr list \<times> bool" where
  "apply_hunks n [] ls cursor changed = Inr (ls, changed)"
| "apply_hunks n (h # hs) ls cursor changed =
     (case hunk_start n h ls cursor of
        Inl e \<Rightarrow> Inl e
      | Inr k \<Rightarrow>
          let old = old_lines h; new = new_lines h in
          if snd h \<and> k + length old \<noteq> length ls then Inl (HunkNotAtEnd n)
          else if old = new then apply_hunks (Suc n) hs ls (k + length old) changed
          else apply_hunks (Suc n) hs (take k ls @ new @ drop (k + length old) ls) (k + length new) True)"

definition apply_update :: "patch_action \<Rightarrow> ustr \<Rightarrow> patch_error + ustr" where
  "apply_update a text =
     (case parse_hunks (pa_path a) 1 (pa_body a) [] None False of
        Inl e \<Rightarrow> Inl e
      | Inr hunks \<Rightarrow>
          if hunks = [] then Inl (NoHunks (pa_path a))
          else case apply_hunks 1 hunks (splitlines text) 0 False of
                 Inl e \<Rightarrow> Inl e
               | Inr (ls, changed) \<Rightarrow>
                   if \<not> changed then Inl (NoChanges (pa_path a))
                   else Inr (join (newline_of text) ls @
                     (if (ends_with [10] text \<or> ends_with [13] text) \<and> ls \<noteq> [] then newline_of text else [])))"

section \<open>The whole envelope\<close>

definition resolve_target :: "(ustr \<Rightarrow> target) \<Rightarrow> ustr \<Rightarrow> patch_error + unit" where
  "resolve_target disk p =
     (case disk p of
        TargetEscapes \<Rightarrow> Inl (PathEscapes p)
      | TargetOther \<Rightarrow> Inl (NotRegularFile p)
      | _ \<Rightarrow> Inr ())"

definition read_existing_text :: "(ustr \<Rightarrow> target) \<Rightarrow> ustr \<Rightarrow> patch_error + ustr option" where
  "read_existing_text disk p =
     (case disk p of
        TargetText s _ \<Rightarrow> Inr (Some s)
      | TargetBinary \<Rightarrow> Inl (NotUtf8Text p)
      | _ \<Rightarrow> Inr None)"

definition target_mode :: "target \<Rightarrow> ustr" where
  "target_mode t =
     (case t of TargetText _ x \<Rightarrow> if x then lit ''100755'' else lit ''100644'' | _ \<Rightarrow> lit ''100644'')"

text \<open>The state of the action's file, read from the disk on its first mention.\<close>

definition file_state_for ::
  "(ustr \<Rightarrow> target) \<Rightarrow> ustr \<Rightarrow> (ustr, file_state) dict \<times> ustr list \<Rightarrow>
   patch_error + file_state \<times> (ustr, file_state) dict \<times> ustr list" where
  "file_state_for disk path so =
     (case so of (states, order) \<Rightarrow>
      (case map_of states path of
         Some st \<Rightarrow> Inr (st, states, order)
       | None \<Rightarrow>
           (case resolve_target disk path of
              Inl e \<Rightarrow> Inl e
            | Inr _ \<Rightarrow>
                (case read_existing_text disk path of
                   Inl e \<Rightarrow> Inl e
                 | Inr original \<Rightarrow>
                     let st = \<lparr>fs_path = path, fs_original = original, fs_current = original,
                       fs_mode = target_mode (disk path)\<rparr>
                     in Inr (st, AList.update path st states, order @ [path])))))"

definition new_content :: "patch_action \<Rightarrow> ustr option \<Rightarrow> patch_error + ustr option" where
  "new_content a current =
     (case pa_operation a of
        AddFile \<Rightarrow>
          if current \<noteq> None then Inl (AddExisting (pa_path a)) else map_sum id Some (parse_added_file a)
      | DeleteFile \<Rightarrow>
          if current = None then Inl (DeleteMissing (pa_path a))
          else if pa_body a \<noteq> [] then Inl (DeleteBody (pa_path a)) else Inr None
      | UpdateFile \<Rightarrow>
          (case current of
             None \<Rightarrow> Inl (UpdateMissing (pa_path a))
           | Some text \<Rightarrow> map_sum id Some (apply_update a text)))"

fun run_actions ::
  "(ustr \<Rightarrow> target) \<Rightarrow> patch_action list \<Rightarrow> (ustr, file_state) dict \<times> ustr list \<Rightarrow>
   patch_error + (ustr, file_state) dict \<times> ustr list" where
  "run_actions disk [] so = Inr so"
| "run_actions disk (a # acts) so =
     (case file_state_for disk (pa_path a) so of
        Inl e \<Rightarrow> Inl e
      | Inr (st, states, order) \<Rightarrow>
          (case new_content a (fs_current st) of
             Inl e \<Rightarrow> Inl e
           | Inr current \<Rightarrow>
               run_actions disk acts (AList.update (pa_path a) (st\<lparr>fs_current := current\<rparr>) states, order)))"

definition text_or_empty :: "ustr option \<Rightarrow> ustr" where
  "text_or_empty x = (case x of None \<Rightarrow> [] | Some s \<Rightarrow> s)"

text \<open>\<open>udiff old new from to\<close> is the list of lines of \<open>difflib.unified_diff\<close>.\<close>

definition diff_line :: "ustr \<Rightarrow> ustr" where
  "diff_line l =
     l @ (if (starts_with (lit '' '') l \<or> starts_with (lit ''+'') l \<or> starts_with (lit ''-'') l) \<and>
             \<not> (ends_with [10] l \<or> ends_with [13] l)
          then 10 # 92 # lit '' No newline at end of file'' @ [10] else [])"

definition render_file_diff ::
  "(ustr list \<Rightarrow> ustr list \<Rightarrow> ustr \<Rightarrow> ustr \<Rightarrow> ustr list) \<Rightarrow> file_state \<Rightarrow> ustr" where
  "render_file_diff udiff st =
     (if fs_original st = fs_current st then []
      else let path = fs_path st;
               from_file = (if fs_original st = None then lit ''/dev/null'' else lit ''a/'' @ path);
               to_file = (if fs_current st = None then lit ''/dev/null'' else lit ''b/'' @ path)
           in lit ''diff --git a/'' @ path @ lit '' b/'' @ path @ [10] @
              (if fs_original st = None then lit ''new file mode 100644'' @ [10]
               else if fs_current st = None then lit ''deleted file mode '' @ fs_mode st @ [10] else []) @
              concat (map diff_line
                (udiff (splitlines_keep (text_or_empty (fs_original st)))
                   (splitlines_keep (text_or_empty (fs_current st))) from_file to_file)))"

definition normalize_patch_text ::
  "(ustr list \<Rightarrow> ustr list \<Rightarrow> ustr \<Rightarrow> ustr \<Rightarrow> ustr list) \<Rightarrow> (ustr \<Rightarrow> target) \<Rightarrow> (ustr \<Rightarrow> abs_path) \<Rightarrow> ustr \<Rightarrow>
   patch_error + ustr" where
  "normalize_patch_text udiff disk absolute patch =
     (let envelope = dropWhile (\<lambda>c. c \<in> {65279, 13, 10}) patch in
      if \<not> starts_with begin_patch envelope then Inr patch
      else case parse_envelope absolute envelope of
             Inl e \<Rightarrow> Inl e
           | Inr actions \<Rightarrow>
               (case run_actions disk actions ([], []) of
                  Inl e \<Rightarrow> Inl e
                | Inr (states, order) \<Rightarrow>
                    let rendered = concat (map (\<lambda>p. case map_of states p of
                          None \<Rightarrow> [] | Some st \<Rightarrow> render_file_diff udiff st) order)
                    in if rendered = [] then Inl NoFileChanges else Inr rendered))"

end
