(* ===== verification/Patch_Refinement.thy ===== *)
theory Patch_Refinement
  imports Patch_Envelope
begin

text \<open>
  What a patch envelope means: the specification of hunks as a relation on lines and of actions on
  an abstract file map, the proofs that \<open>Patch_Envelope\<close> implements them, the round trip of
  envelopes, and the confinement of their paths.
\<close>

section \<open>Hunks\<close>

text \<open>
  \<open>patches hs rest out\<close>: from \<open>rest\<close>, the lines after the previous hunk, the hunks produce \<open>out\<close>. A
  hunk with old lines applies where they occur exactly once; one without is appended.
\<close>

definition once_at :: "ustr list \<Rightarrow> ustr list \<Rightarrow> ustr list \<Rightarrow> ustr list \<Rightarrow> bool" where
  "once_at gap old rest' rest \<longleftrightarrow>
     rest = gap @ old @ rest' \<and> (\<forall>gap2 rest2. rest = gap2 @ old @ rest2 \<longrightarrow> gap2 = gap)"

lemma once_atD: "once_at gap old rest' rest \<Longrightarrow> rest = gap @ old @ rest'"
  unfolding once_at_def by (rule conjunct1)

inductive patches :: "hunk list \<Rightarrow> ustr list \<Rightarrow> ustr list \<Rightarrow> bool" where
  patches_done: "patches [] rest rest"
| patches_replace: "old_lines h \<noteq> [] \<Longrightarrow> once_at gap (old_lines h) rest' rest \<Longrightarrow> (snd h \<Longrightarrow> rest' = []) \<Longrightarrow>
    patches hs rest' out \<Longrightarrow> patches (h # hs) rest (gap @ new_lines h @ out)"
| patches_append: "old_lines h = [] \<Longrightarrow> snd h \<Longrightarrow> patches hs [] out \<Longrightarrow>
    patches (h # hs) rest (rest @ new_lines h @ out)"

inductive_simps patches_Nil [simp]: "patches [] rest out"
inductive_cases patches_ConsE: "patches (h # hs) rest out"

lemma filter_singleton:
  "distinct xs \<Longrightarrow> filter P xs = [x] \<longleftrightarrow> x \<in> set xs \<and> P x \<and> (\<forall>y\<in>set xs. P y \<longrightarrow> y = x)"
proof (induction xs)
  case (Cons a xs)
  have "filter P xs = [] \<longleftrightarrow> (\<forall>y\<in>set xs. \<not> P y)" by (simp add: filter_empty_conv)
  with Cons show ?case by (cases "P a") auto
qed simp

lemma match_positions_iff:
  "k \<in> set (match_positions old (pre @ rest) (length pre)) \<longleftrightarrow>
     (\<exists>gap rest'. rest = gap @ old @ rest' \<and> k = length pre + length gap)"
proof
  assume k: "k \<in> set (match_positions old (pre @ rest) (length pre))"
  let ?g = "take (k - length pre) rest" and ?r = "drop (k - length pre) rest"
  have le: "length pre \<le> k" "k + length old \<le> length pre + length rest"
    and m: "take (length old) (drop k (pre @ rest)) = old"
    using k by (auto simp: match_positions_def)
  have "?r = old @ drop (length old) ?r"
    using m le by (metis append_take_drop_id drop_append drop_all append_Nil)
  moreover have "rest = ?g @ ?r" by simp
  moreover have "k = length pre + length ?g" using le by simp
  ultimately show "\<exists>gap rest'. rest = gap @ old @ rest' \<and> k = length pre + length gap" by metis
qed (auto simp: match_positions_def)

lemma match_positions_single:
  "match_positions old (pre @ rest) (length pre) = [k] \<longleftrightarrow>
     (\<exists>gap rest'. once_at gap old rest' rest \<and> k = length pre + length gap)" (is "?l \<longleftrightarrow> ?r")
proof -
  let ?ms = "match_positions old (pre @ rest) (length pre)"
  have d: "distinct ?ms" by (simp add: match_positions_def)
  have "?l \<longleftrightarrow> k \<in> set ?ms \<and> (\<forall>y\<in>set ?ms. y = k)"
    using filter_singleton [OF d, of "\<lambda>_. True" k] by simp
  also have "\<dots> \<longleftrightarrow> ?r"
  proof
    assume l: "k \<in> set ?ms \<and> (\<forall>y\<in>set ?ms. y = k)"
    then obtain gap rest' where g: "rest = gap @ old @ rest'" "k = length pre + length gap"
      unfolding match_positions_iff by blast
    have "gap2 = gap" if "rest = gap2 @ old @ rest2" for gap2 rest2
    proof -
      have "length pre + length gap2 \<in> set ?ms" using that unfolding match_positions_iff by blast
      with l g have "length gap2 = length gap" by auto
      with that g(1) show ?thesis by (metis append_eq_append_conv)
    qed
    with g show ?r unfolding once_at_def by blast
  next
    assume ?r
    then obtain gap rest' where g: "once_at gap old rest' rest" "k = length pre + length gap" by blast
    have "y = k" if y: "y \<in> set ?ms" for y
    proof -
      obtain gap2 r2 where "rest = gap2 @ old @ r2" "y = length pre + length gap2"
        using y unfolding match_positions_iff by blast
      with g show ?thesis unfolding once_at_def by blast
    qed
    moreover have "k \<in> set ?ms"
      unfolding match_positions_iff using once_atD [OF g(1)] g(2) by blast
    ultimately show "k \<in> set ?ms \<and> (\<forall>y\<in>set ?ms. y = k)" by blast
  qed
  finally show ?thesis .
qed

lemma hunk_start_replace:
  "old_lines h \<noteq> [] \<Longrightarrow> hunk_start n h (pre @ rest) (length pre) = Inr k \<longleftrightarrow>
     match_positions (old_lines h) (pre @ rest) (length pre) = [k]"
  by (auto simp: hunk_start_def split: list.split)

lemma hunk_start_append:
  "old_lines h = [] \<Longrightarrow> hunk_start n h ls cursor = Inr k \<longleftrightarrow> snd h \<and> k = length ls"
  by (auto simp: hunk_start_def)

abbreviation changes :: "hunk list \<Rightarrow> bool" where
  "changes hs \<equiv> \<exists>h\<in>set hs. old_lines h \<noteq> new_lines h"

theorem apply_hunks_patches:
  "apply_hunks n hs (pre @ rest) (length pre) ch = Inr (ls, ch') \<longleftrightarrow>
     (\<exists>out. patches hs rest out \<and> ls = pre @ out \<and> ch' = (ch \<or> changes hs))"
proof (induction hs arbitrary: n pre rest ch)
  case (Cons h hs)
  let ?old = "old_lines h" and ?new = "new_lines h"
  have step: "(if ?old = ?new then apply_hunks (Suc n) hs (pre @ gap @ ?old @ rest') (length (pre @ gap @ ?old)) ch
       else apply_hunks (Suc n) hs (pre @ gap @ ?new @ rest') (length (pre @ gap @ ?new)) True) = Inr (ls, ch') \<longleftrightarrow>
     (\<exists>out. patches hs rest' out \<and> ls = pre @ gap @ ?new @ out \<and> ch' = (ch \<or> changes (h # hs)))" for gap rest'
    using Cons.IH [of "Suc n" "pre @ gap @ ?old" rest' ch] Cons.IH [of "Suc n" "pre @ gap @ ?new" rest' True]
    by auto
  show ?case
  proof (cases "?old = []")
    case True
    have run: "apply_hunks n (h # hs) (pre @ rest) (length pre) ch =
        (if \<not> snd h then Inl (HunkNoContext n)
         else if ?old = ?new then apply_hunks (Suc n) hs (pre @ rest @ ?old @ []) (length (pre @ rest @ ?old)) ch
         else apply_hunks (Suc n) hs (pre @ rest @ ?new @ []) (length (pre @ rest @ ?new)) True)"
      using True by (simp add: hunk_start_def Let_def add.assoc)
    have pat: "patches (h # hs) rest out \<longleftrightarrow> snd h \<and> (\<exists>o2. patches hs [] o2 \<and> out = rest @ ?new @ o2)" for out
      using True by (auto elim: patches_ConsE intro: patches_append)
    show ?thesis unfolding run pat using step [of rest "[]"] by auto
  next
    case False
    let ?once = "\<lambda>gap rest'. once_at gap ?old rest' rest"
    show ?thesis
    proof (cases "\<exists>gap rest'. ?once gap rest'")
      case True
      then obtain gap rest' where g: "?once gap rest'" by blast
      then have "hunk_start n h (pre @ rest) (length pre) = Inr (length pre + length gap)"
        unfolding hunk_start_replace [OF False] match_positions_single by blast
      then have run: "apply_hunks n (h # hs) (pre @ rest) (length pre) ch =
          (if snd h \<and> rest' \<noteq> [] then Inl (HunkNotAtEnd n)
           else if ?old = ?new then apply_hunks (Suc n) hs (pre @ gap @ ?old @ rest') (length (pre @ gap @ ?old)) ch
           else apply_hunks (Suc n) hs (pre @ gap @ ?new @ rest') (length (pre @ gap @ ?new)) True)"
        using once_atD [OF g] by (simp add: Let_def add.assoc)
      have uniq: "gap2 = gap \<and> r2 = rest'" if "once_at gap2 ?old r2 rest" for gap2 r2
        using g that unfolding once_at_def by (metis same_append_eq)
      have pat: "patches (h # hs) rest out \<longleftrightarrow>
          (snd h \<longrightarrow> rest' = []) \<and> (\<exists>o2. patches hs rest' o2 \<and> out = gap @ ?new @ o2)" for out
      proof
        assume "patches (h # hs) rest out"
        then show "(snd h \<longrightarrow> rest' = []) \<and> (\<exists>o2. patches hs rest' o2 \<and> out = gap @ ?new @ o2)"
          by (rule patches_ConsE) (use uniq False in blast)+
      next
        assume "(snd h \<longrightarrow> rest' = []) \<and> (\<exists>o2. patches hs rest' o2 \<and> out = gap @ ?new @ o2)"
        then show "patches (h # hs) rest out"
          using patches_replace [OF False, of gap rest' rest hs] g by blast
      qed
      show ?thesis unfolding run pat using step [of gap rest'] by auto
    next
      case none: False
      have "hunk_start n h (pre @ rest) (length pre) \<noteq> Inr k" for k
        unfolding hunk_start_replace [OF False] match_positions_single using none by blast
      then obtain e where "hunk_start n h (pre @ rest) (length pre) = Inl e"
        by (cases "hunk_start n h (pre @ rest) (length pre)") auto
      moreover have "\<not> patches (h # hs) rest out" for out
      proof
        assume "patches (h # hs) rest out"
        then show False by (rule patches_ConsE) (use none False in blast)+
      qed
      ultimately show ?thesis by simp
    qed
  qed
qed auto

text \<open>
  C15. Updating a file implements its hunks. An update action computes a new text exactly when its
  body is a sequence of hunks of which one changes something, each hunk with old lines applies at
  the only place after the previous hunk where they occur (at the end of the file where the hunk
  says so), and each hunk without is an append; the new text is the lines this specification
  produces, joined by the line end of the old text, every other line untouched.
\<close>

theorem update_implements_hunks:
  "apply_update a text = Inr text' \<longleftrightarrow>
     (\<exists>hs out. parse_hunks (pa_path a) 1 (pa_body a) [] None False = Inr hs \<and>
        patches hs (splitlines text) out \<and> (\<exists>h\<in>set hs. old_lines h \<noteq> new_lines h) \<and>
        text' = join (newline_of text) out @
          (if (ends_with [10] text \<or> ends_with [13] text) \<and> out \<noteq> [] then newline_of text else []))"
proof -
  have run: "apply_hunks 1 hs (splitlines text) 0 False = Inr (ls, True) \<longleftrightarrow>
      patches hs (splitlines text) ls \<and> changes hs" for hs ls
    using apply_hunks_patches [of 1 hs "[]" "splitlines text" False ls True] by auto
  have ne: "changes hs \<Longrightarrow> hs \<noteq> []" for hs by auto
  show ?thesis
  proof
    assume "apply_update a text = Inr text'"
    then obtain hs ls where h: "parse_hunks (pa_path a) 1 (pa_body a) [] None False = Inr hs"
      "apply_hunks 1 hs (splitlines text) 0 False = Inr (ls, True)"
      "text' = join (newline_of text) ls @
        (if (ends_with [10] text \<or> ends_with [13] text) \<and> ls \<noteq> [] then newline_of text else [])"
      by (auto simp: apply_update_def split: sum.splits if_splits prod.splits)
    from h(1,3) h(2) [unfolded run] show "\<exists>hs out. parse_hunks (pa_path a) 1 (pa_body a) [] None False = Inr hs \<and>
        patches hs (splitlines text) out \<and> changes hs \<and> text' = join (newline_of text) out @
          (if (ends_with [10] text \<or> ends_with [13] text) \<and> out \<noteq> [] then newline_of text else [])"
      by blast
  next
    assume "\<exists>hs out. parse_hunks (pa_path a) 1 (pa_body a) [] None False = Inr hs \<and>
        patches hs (splitlines text) out \<and> changes hs \<and> text' = join (newline_of text) out @
          (if (ends_with [10] text \<or> ends_with [13] text) \<and> out \<noteq> [] then newline_of text else [])"
    then obtain hs ls where h: "parse_hunks (pa_path a) 1 (pa_body a) [] None False = Inr hs"
      "patches hs (splitlines text) ls" "changes hs"
      "text' = join (newline_of text) ls @
        (if (ends_with [10] text \<or> ends_with [13] text) \<and> ls \<noteq> [] then newline_of text else [])" by blast
    with run [of hs ls] ne [OF h(3)] show "apply_update a text = Inr text'" by (simp add: apply_update_def)
  qed
qed

section \<open>Line ends\<close>

lemma patches_lines: "patches hs rest out \<Longrightarrow> set out \<subseteq> set rest \<union> (\<Union>h\<in>set hs. set (new_lines h))"
proof (induction rule: patches.induct)
  case (patches_replace h gap rest' rest hs out)
  from once_atD [OF patches_replace(2)] patches_replace(5) show ?case by auto
qed auto

lemma parse_hunks_lines:
  "parse_hunks path n ls hs cur eof = Inr hs' \<Longrightarrow> h \<in> set hs' \<Longrightarrow> l \<in> set (fst h) \<Longrightarrow>
   l \<in> set ls \<or> (\<exists>c. cur = Some c \<and> l \<in> set c) \<or> (\<exists>h\<in>set hs. l \<in> set (fst h))"
proof (induction path n ls hs cur eof rule: parse_hunks.induct)
  case (1 path n hunks current eof)
  then show ?case by (cases current) auto
next
  case (2 path n l1 ls hunks current eof)
  show ?case
  proof (cases "starts_with (lit ''@@'') l1")
    case True
    with 2(1) [OF True] 2(4-) show ?thesis by (cases current) auto
  next
    case no: False
    show ?thesis
    proof (cases "l1 = end_of_file")
      case True
      with no 2(2) [OF no True] 2(4-) show ?thesis by (auto split: if_splits)
    next
      case False
      with no 2(3) [OF no False] 2(4-) show ?thesis by (cases current) (auto split: if_splits)
    qed
  qed
qed

lemma tl_unbroken: "unbroken l \<Longrightarrow> unbroken (tl l)"
  by (cases l) auto

lemma new_lines_unbroken: "\<forall>l\<in>set (fst h). unbroken l \<Longrightarrow> w \<in> set (new_lines h) \<Longrightarrow> unbroken w"
  unfolding new_lines_def using tl_unbroken by auto

text \<open>
  Updating a file rewrites the line ends of all its lines. The text that an update computes has
  one kind of line boundary, the one chosen for the whole file: every other boundary of the old text
  (a form feed, a vertical tab, a Unicode line separator, the other of LF and CRLF) is replaced by
  it, also in lines that no hunk mentions.
\<close>

theorem update_rewrites_line_ends:
  assumes "apply_update a text = Inr text'" and "\<forall>l\<in>set (pa_body a). unbroken l"
  shows "\<forall>c\<in>set text'. is_break c \<longrightarrow> c \<in> set (newline_of text)"
proof -
  obtain hs out where h: "parse_hunks (pa_path a) 1 (pa_body a) [] None False = Inr hs"
      "patches hs (splitlines text) out"
    and t: "text' = join (newline_of text) out @
        (if (ends_with [10] text \<or> ends_with [13] text) \<and> out \<noteq> [] then newline_of text else [])"
    using assms(1) unfolding update_implements_hunks by blast
  have hunk: "unbroken w" if "g \<in> set hs" "w \<in> set (new_lines g)" for g w
  proof (rule new_lines_unbroken [OF _ that(2)], rule)
    fix l assume "l \<in> set (fst g)"
    from parse_hunks_lines [OF h(1) that(1) this] assms(2) show "unbroken l" by auto
  qed
  have "unbroken w" if "w \<in> set out" for w
    using patches_lines [OF h(2)] that hunk splitlines_unbroken by blast
  then show ?thesis
    unfolding t using in_join [of _ "newline_of text" out] by (auto split: if_splits)
qed

section \<open>The round trip of envelopes\<close>

fun action_prefix :: "operation \<Rightarrow> ustr" where
  "action_prefix AddFile = lit ''*** Add File: ''"
| "action_prefix UpdateFile = lit ''*** Update File: ''"
| "action_prefix DeleteFile = lit ''*** Delete File: ''"

definition action_text :: "patch_action \<Rightarrow> ustr list" where
  "action_text a = (action_prefix (pa_operation a) @ pa_path a) # pa_body a"

definition envelope_text :: "patch_action list \<Rightarrow> ustr" where
  "envelope_text acts = join [10] (begin_patch # concat (map action_text acts) @ [end_patch]) @ [10]"

definition body_line :: "ustr \<Rightarrow> bool" where
  "body_line l \<longleftrightarrow> unbroken l \<and> l \<noteq> end_patch \<and> action_line l = None \<and> \<not> starts_with move_to l"

definition printable_action :: "(ustr \<Rightarrow> abs_path) \<Rightarrow> patch_action \<Rightarrow> bool" where
  "printable_action absolute a \<longleftrightarrow> unbroken (pa_path a) \<and>
     normalize_patch_path absolute (pa_path a) = Inr (pa_path a) \<and> list_all body_line (pa_body a)"

lemma action_line_prefix [simp]: "action_line (action_prefix op @ p) = Some (op, p)"
  by (cases op) (simp_all add: action_line_def action_prefixes_def starts_with_def)

lemma action_line_markers [simp]: "action_line end_patch = None" "action_line begin_patch = None"
  by (simp_all add: action_line_def action_prefixes_def starts_with_def end_patch_def begin_patch_def)

lemma prefix_not_end [simp]: "action_prefix op @ p \<noteq> end_patch"
  using action_line_prefix [of op p] by (metis action_line_markers(1) option.distinct(1))

lemma action_body_app:
  "list_all body_line body \<Longrightarrow> rest = [] \<or> hd rest = end_patch \<or> action_line (hd rest) \<noteq> None \<Longrightarrow>
   action_body (body @ rest) = Inr (body, rest)"
proof (induction body)
  case Nil
  then show ?case by (cases rest) auto
qed (auto simp: body_line_def)

lemma parse_actions_text:
  "list_all (printable_action absolute) acts \<Longrightarrow> done @ acts \<noteq> [] \<Longrightarrow>
   parse_actions absolute done (concat (map action_text acts) @ [end_patch]) = Inr (done @ acts)"
proof (induction acts arbitrary: "done")
  case (Cons a acts)
  let ?rest = "concat (map action_text acts) @ [end_patch]"
  have "hd ?rest = end_patch \<or> action_line (hd ?rest) \<noteq> None"
    by (cases acts) (simp_all add: action_text_def)
  then have "action_body (pa_body a @ ?rest) = Inr (pa_body a, ?rest)"
    using Cons.prems(1) by (intro action_body_app) (auto simp: printable_action_def)
  moreover have "concat (map action_text (a # acts)) @ [end_patch] =
      (action_prefix (pa_operation a) @ pa_path a) # pa_body a @ ?rest"
    by (simp add: action_text_def)
  moreover have "normalize_patch_path absolute (pa_path a) = Inr (pa_path a)"
    using Cons.prems(1) by (simp add: printable_action_def)
  ultimately show ?case using Cons.prems Cons.IH [of "done @ [a]"] by (cases a) simp
qed simp

lemma literal_unbroken:
  "unbroken begin_patch" "unbroken end_patch" "unbroken (action_prefix op)"
  by (simp_all add: begin_patch_def end_patch_def is_break_def, cases op) (simp_all add: is_break_def)

lemma parse_printed:
  assumes "list_all (printable_action absolute) acts" and "acts \<noteq> []"
  shows "parse_envelope absolute (envelope_text acts) = Inr acts"
proof -
  let ?ls = "begin_patch # concat (map action_text acts) @ [end_patch]"
  have "unbroken l" if "l \<in> set ?ls" for l
    using that literal_unbroken assms(1)
    by (auto simp: list_all_iff action_text_def printable_action_def body_line_def)
  then have "splitlines (join [10] ?ls @ [10]) = ?ls"
    using splitlines_join [of ?ls "[10]" True] by (simp add: line_end_def)
  then show ?thesis
    using parse_actions_text [OF assms(1), of "[]"] assms(2)
    by (simp add: parse_envelope_def envelope_text_def)
qed

text \<open>
  C16. Envelopes round-trip. Writing any non-empty sequence of actions as an envelope, in the format
  that the tool documents, and parsing it gives exactly those actions, in order, with their bodies
  line by line, as long as the paths are normalised and no body line looks like a marker.
\<close>

theorem envelope_round_trip:
  assumes "list_all (printable_action absolute) acts" and "acts \<noteq> []"
  shows "parse_envelope absolute (envelope_text acts) = Inr acts"
  using assms by (rule parse_printed)

section \<open>Actions on a file map\<close>

definition disk_text :: "(ustr \<Rightarrow> target) \<Rightarrow> ustr \<Rightarrow> ustr option" where
  "disk_text disk p = (case disk p of TargetText s _ \<Rightarrow> Some s | _ \<Rightarrow> None)"

definition readable :: "target \<Rightarrow> bool" where
  "readable t \<longleftrightarrow> t \<noteq> TargetEscapes \<and> t \<noteq> TargetOther \<and> t \<noteq> TargetBinary"

fun spec_run :: "(ustr \<Rightarrow> ustr option) \<Rightarrow> patch_action list \<Rightarrow> patch_error + (ustr \<Rightarrow> ustr option)" where
  "spec_run m [] = Inr m"
| "spec_run m (a # acts) =
     (case new_content a (m (pa_path a)) of
        Inl e \<Rightarrow> Inl e
      | Inr x \<Rightarrow> spec_run (m(pa_path a := x)) acts)"

definition initial_state :: "(ustr \<Rightarrow> target) \<Rightarrow> ustr \<Rightarrow> file_state" where
  "initial_state disk p =
     \<lparr>fs_path = p, fs_original = disk_text disk p, fs_current = disk_text disk p, fs_mode = target_mode (disk p)\<rparr>"

definition changed_file :: "(ustr \<Rightarrow> target) \<Rightarrow> (ustr \<Rightarrow> ustr option) \<Rightarrow> ustr \<Rightarrow> file_state" where
  "changed_file disk m p = (initial_state disk p)\<lparr>fs_current := m p\<rparr>"

text \<open>The paths in order of their first mention.\<close>

definition mention :: "ustr list \<Rightarrow> ustr \<Rightarrow> ustr list" where
  "mention order p = (if p \<in> set order then order else order @ [p])"

definition mentioned :: "patch_action list \<Rightarrow> ustr list" where
  "mentioned acts = foldl mention [] (map pa_path acts)"

text \<open>The states represent the map \<open>m\<close> and were all read from the disk.\<close>

definition represents :: "(ustr \<Rightarrow> target) \<Rightarrow> (ustr \<Rightarrow> ustr option) \<Rightarrow> (ustr, file_state) dict \<times> ustr list \<Rightarrow> bool" where
  "represents disk m so \<longleftrightarrow> (case so of (states, order) \<Rightarrow>
     (\<forall>p. map_of states p = (if p \<in> set order then Some (changed_file disk m p) else None)) \<and>
     (\<forall>p. p \<notin> set order \<longrightarrow> m p = disk_text disk p) \<and> (\<forall>p\<in>set order. readable (disk p)))"

lemma file_state_for_iff:
  assumes "represents disk m (states, order)"
  shows "file_state_for disk p (states, order) = Inr r \<longleftrightarrow>
    readable (disk p) \<and> r = (changed_file disk m p,
      if p \<in> set order then states else AList.update p (changed_file disk m p) states, mention order p)"
proof (cases "p \<in> set order")
  case True
  with assms show ?thesis by (auto simp: represents_def file_state_for_def mention_def)
next
  case False
  with assms have "map_of states p = None" "changed_file disk m p = initial_state disk p"
    by (simp_all add: represents_def changed_file_def initial_state_def)
  with False show ?thesis
    by (cases "disk p") (auto simp: file_state_for_def mention_def resolve_target_def read_existing_text_def
        initial_state_def disk_text_def readable_def Let_def)
qed

lemma represents_step:
  assumes "represents disk m (states, order)" and "readable (disk p)"
  shows "represents disk (m(p := x))
    (AList.update p ((changed_file disk m p)\<lparr>fs_current := x\<rparr>)
       (if p \<in> set order then states else AList.update p (changed_file disk m p) states), mention order p)"
  using assms by (auto simp: represents_def mention_def changed_file_def)

lemma run_actions_Cons:
  assumes "represents disk m (states, order)" and "readable (disk (pa_path a))"
  shows "run_actions disk (a # acts) (states, order) = (case new_content a (m (pa_path a)) of Inl e \<Rightarrow> Inl e
      | Inr x \<Rightarrow> run_actions disk acts (AList.update (pa_path a) ((changed_file disk m (pa_path a))\<lparr>fs_current := x\<rparr>)
          (if pa_path a \<in> set order then states else AList.update (pa_path a) (changed_file disk m (pa_path a)) states),
          mention order (pa_path a)))"
proof -
  have "file_state_for disk (pa_path a) (states, order) = Inr (changed_file disk m (pa_path a),
      if pa_path a \<in> set order then states else AList.update (pa_path a) (changed_file disk m (pa_path a)) states,
      mention order (pa_path a))"
    unfolding file_state_for_iff [OF assms(1)] using assms(2) by simp
  then show ?thesis by (simp add: changed_file_def split: sum.split)
qed

lemma run_actions_sound:
  "represents disk m so \<Longrightarrow> run_actions disk acts so = Inr so' \<Longrightarrow>
   (\<forall>a\<in>set acts. readable (disk (pa_path a))) \<and> snd so' = foldl mention (snd so) (map pa_path acts) \<and>
   (\<exists>m'. spec_run m acts = Inr m' \<and> represents disk m' so')"
proof (induction acts arbitrary: m so)
  case (Cons a acts)
  obtain states order where so: "so = (states, order)" by fastforce
  note rep = Cons.prems(1) [unfolded so]
  from Cons.prems(2) obtain r where "file_state_for disk (pa_path a) (states, order) = Inr r"
    unfolding so by (cases "file_state_for disk (pa_path a) (states, order)") auto
  then have r: "readable (disk (pa_path a))" unfolding file_state_for_iff [OF rep] by simp
  from Cons.prems(2) [unfolded so run_actions_Cons [OF rep r]]
  obtain x where x: "new_content a (m (pa_path a)) = Inr x"
    and run: "run_actions disk acts (AList.update (pa_path a) ((changed_file disk m (pa_path a))\<lparr>fs_current := x\<rparr>)
          (if pa_path a \<in> set order then states else AList.update (pa_path a) (changed_file disk m (pa_path a)) states),
          mention order (pa_path a)) = Inr so'"
    by (cases "new_content a (m (pa_path a))") simp_all
  from Cons.IH [OF represents_step [OF rep r] run] x r so show ?case by (simp add: fun_upd_def)
qed simp

lemma run_actions_complete:
  "represents disk m so \<Longrightarrow> \<forall>a\<in>set acts. readable (disk (pa_path a)) \<Longrightarrow> spec_run m acts = Inr m' \<Longrightarrow>
   \<exists>so'. run_actions disk acts so = Inr so'"
proof (induction acts arbitrary: m so)
  case (Cons a acts)
  obtain states order where so: "so = (states, order)" by fastforce
  note rep = Cons.prems(1) [unfolded so]
  have r: "readable (disk (pa_path a))" using Cons.prems(2) by simp
  from Cons.prems(3) obtain x where x: "new_content a (m (pa_path a)) = Inr x" "spec_run (m(pa_path a := x)) acts = Inr m'"
    by (auto split: sum.splits)
  from Cons.IH [OF represents_step [OF rep r] _ x(2)] Cons.prems(2) show ?case
    unfolding so run_actions_Cons [OF rep r] x(1) by simp
qed simp

lemma normalize_iff:
  assumes "dropWhile (\<lambda>c. c \<in> {65279, 13, 10}) patch = envelope" and "starts_with begin_patch envelope"
  shows "normalize_patch_text udiff disk absolute patch = Inr diff \<longleftrightarrow>
    (\<exists>acts m. parse_envelope absolute envelope = Inr acts \<and> (\<forall>a\<in>set acts. readable (disk (pa_path a))) \<and>
       spec_run (disk_text disk) acts = Inr m \<and> diff \<noteq> [] \<and>
       diff = concat (map (\<lambda>p. render_file_diff udiff (changed_file disk m p)) (mentioned acts)))"
proof -
  have init: "represents disk (disk_text disk) ([], [])" by (simp add: represents_def)
  have render: "concat (map (\<lambda>p. case map_of states p of None \<Rightarrow> [] | Some st \<Rightarrow> render_file_diff udiff st) order) =
      concat (map (\<lambda>p. render_file_diff udiff (changed_file disk m p)) order)"
    if "represents disk m (states, order)" for m states order
    using that by (auto simp: represents_def intro!: arg_cong [of _ _ concat])
  have norm: "normalize_patch_text udiff disk absolute patch = Inr diff \<longleftrightarrow>
      (\<exists>acts states order. parse_envelope absolute envelope = Inr acts \<and>
        run_actions disk acts ([], []) = Inr (states, order) \<and> diff \<noteq> [] \<and>
        diff = concat (map (\<lambda>p. case map_of states p of None \<Rightarrow> [] | Some st \<Rightarrow> render_file_diff udiff st) order))"
    using assms by (auto simp: normalize_patch_text_def Let_def split: sum.splits)
  show ?thesis
    unfolding norm
  proof (intro iffI; elim exE conjE)
    fix acts states order
    assume a: "parse_envelope absolute envelope = Inr acts" "run_actions disk acts ([], []) = Inr (states, order)"
      "diff \<noteq> []" "diff = concat (map (\<lambda>p. case map_of states p of None \<Rightarrow> [] | Some st \<Rightarrow> render_file_diff udiff st) order)"
    from run_actions_sound [OF init a(2)] obtain m where m: "spec_run (disk_text disk) acts = Inr m"
      "represents disk m (states, order)" "order = mentioned acts" "\<forall>a\<in>set acts. readable (disk (pa_path a))"
      by (auto simp: mentioned_def)
    have "diff = concat (map (\<lambda>p. render_file_diff udiff (changed_file disk m p)) (mentioned acts))"
      using a(4) render [OF m(2)] m(3) by (simp only:)
    with a(1,3) m(1,4) show "\<exists>acts m. parse_envelope absolute envelope = Inr acts \<and> (\<forall>a\<in>set acts. readable (disk (pa_path a))) \<and>
       spec_run (disk_text disk) acts = Inr m \<and> diff \<noteq> [] \<and>
       diff = concat (map (\<lambda>p. render_file_diff udiff (changed_file disk m p)) (mentioned acts))" by blast
  next
    fix acts m
    assume a: "parse_envelope absolute envelope = Inr acts" "\<forall>a\<in>set acts. readable (disk (pa_path a))"
      "spec_run (disk_text disk) acts = Inr m" "diff \<noteq> []"
      "diff = concat (map (\<lambda>p. render_file_diff udiff (changed_file disk m p)) (mentioned acts))"
    from run_actions_complete [OF init a(2,3)] obtain states order where r: "run_actions disk acts ([], []) = Inr (states, order)"
      by auto
    from run_actions_sound [OF init r] a(3) have m: "represents disk m (states, order)" "order = mentioned acts"
      by (auto simp: mentioned_def)
    have "diff = concat (map (\<lambda>p. case map_of states p of None \<Rightarrow> [] | Some st \<Rightarrow> render_file_diff udiff st) order)"
      using a(5) render [OF m(1)] m(2) by (simp only:)
    with a(1,4) r show "\<exists>acts states order. parse_envelope absolute envelope = Inr acts \<and>
        run_actions disk acts ([], []) = Inr (states, order) \<and> diff \<noteq> [] \<and>
        diff = concat (map (\<lambda>p. case map_of states p of None \<Rightarrow> [] | Some st \<Rightarrow> render_file_diff udiff st) order)" by blast
  qed
qed

text \<open>
  C17. The whole envelope refines a file map. For a patch in envelope form, the result is a diff
  exactly when the envelope parses, every file it names is readable below the working directory, the
  actions succeed one after the other on the map of file contents, and something changes; the diff
  is then that of every named file, in order of first mention, between its text on disk and its
  text in the final map.
\<close>

theorem envelope_refines_file_map:
  assumes "dropWhile (\<lambda>c. c \<in> {65279, 13, 10}) patch = envelope" and "starts_with begin_patch envelope"
  shows "normalize_patch_text udiff disk absolute patch = Inr diff \<longleftrightarrow>
    (\<exists>acts m. parse_envelope absolute envelope = Inr acts \<and> (\<forall>a\<in>set acts. readable (disk (pa_path a))) \<and>
       spec_run (disk_text disk) acts = Inr m \<and> diff \<noteq> [] \<and>
       diff = concat (map (\<lambda>p. render_file_diff udiff (changed_file disk m p)) (mentioned acts)))"
  using assms by (rule normalize_iff)

section \<open>Confinement\<close>

text \<open>A relative path whose components all name a file or directory below.\<close>

definition inside :: "ustr \<Rightarrow> bool" where
  "inside p \<longleftrightarrow> 92 \<notin> set p \<and> p \<noteq> [] \<and> (\<forall>w\<in>set (split_on 47 p). w \<noteq> [] \<and> w \<noteq> lit ''.'' \<and> w \<noteq> lit ''..'')"

lemma path_parts_join:
  assumes "path_parts p \<noteq> []"
  shows "split_on 47 (join (lit ''/'') (path_parts p)) = path_parts p"
  using split_on_join [OF assms, of 47] split_on_free [of _ 47 p] by (simp add: path_parts_def)

lemma normalize_inside:
  assumes "normalize_patch_path absolute raw = Inr p"
  shows "(\<exists>q. absolute q = AbsInside p) \<or> inside p"
proof (cases "starts_with (lit ''/'') (py_strip raw)")
  case True
  with assms show ?thesis by (auto simp: normalize_patch_path_def Let_def split: if_splits abs_path.splits)
next
  case False
  let ?s = "py_strip raw"
  from assms False have parts: "92 \<notin> set ?s" "lit ''..'' \<notin> set (path_parts ?s)" "path_parts ?s \<noteq> []"
    and p: "p = join (lit ''/'') (path_parts ?s)"
    by (auto simp: normalize_patch_path_def Let_def split: if_splits)
  have split: "split_on 47 p = path_parts ?s" unfolding p using path_parts_join [OF parts(3)] .
  have "92 \<notin> set p"
  proof
    assume "92 \<in> set p"
    then obtain w where w: "w \<in> set (path_parts ?s)" "92 \<in> set w"
      using in_join [of 92 "lit ''/''"] p by auto
    then have "92 \<in> set (join [47] (split_on 47 ?s))"
      using in_joinI [of w "split_on 47 ?s" "[47]"] by (auto simp: path_parts_def)
    with parts(1) show False by (simp add: join_split_on)
  qed
  moreover have "p \<noteq> []"
  proof
    assume "p = []"
    then have "[] \<in> set (path_parts ?s)" using split by (metis list.set_intros(1) split_on.simps(1))
    then show False by (simp add: path_parts_def)
  qed
  moreover have "w \<noteq> [] \<and> w \<noteq> lit ''.'' \<and> w \<noteq> lit ''..''" if "w \<in> set (split_on 47 p)" for w
    using that parts(2) unfolding split by (auto simp: path_parts_def)
  ultimately show ?thesis unfolding inside_def by blast
qed

lemma parse_actions_paths:
  "parse_actions absolute acts ls = Inr acts' \<Longrightarrow> (\<And>raw p. normalize_patch_path absolute raw = Inr p \<Longrightarrow> Q p) \<Longrightarrow>
   \<forall>a\<in>set acts. Q (pa_path a) \<Longrightarrow> \<forall>a\<in>set acts'. Q (pa_path a)"
proof (induction absolute acts ls rule: parse_actions.induct)
  case (2 absolute acts l ls)
  show ?case
  proof (cases "l = end_patch")
    case True
    with 2(2,4) show ?thesis by (auto split: if_splits)
  next
    case False
    with 2(2) obtain op raw where l: "action_line l = Some (op, raw)" by (cases "action_line l") auto
    with 2(2) False obtain p where p: "normalize_patch_path absolute raw = Inr p"
      by (cases "normalize_patch_path absolute raw") auto
    with 2(2) False l obtain body rest where b: "action_body ls = Inr (body, rest)"
      by (cases "action_body ls") auto
    have "\<forall>a\<in>set acts'. Q (pa_path a)"
      by (rule 2(1) [OF False l refl p b refl]) (use 2 False l p b in auto)
    then show ?thesis .
  qed
qed simp

text \<open>
  A patch stays below its directory. Whenever an envelope is accepted, each file it names is a
  readable regular file or a missing one below the working directory after resolving links, and its
  name is either the relative form of an absolute path inside the directory or a relative path
  without empty, dot or dot-dot components and without backslashes.
\<close>

theorem envelope_paths_confined:
  assumes "dropWhile (\<lambda>c. c \<in> {65279, 13, 10}) patch = envelope" and "starts_with begin_patch envelope"
    and "normalize_patch_text udiff disk absolute patch = Inr diff"
  shows "\<exists>acts. parse_envelope absolute envelope = Inr acts \<and>
    (\<forall>a\<in>set acts. readable (disk (pa_path a)) \<and> ((\<exists>q. absolute q = AbsInside (pa_path a)) \<or> inside (pa_path a)))"
proof -
  from assms obtain acts where acts: "parse_envelope absolute envelope = Inr acts"
    and run: "\<exists>so. run_actions disk acts ([], []) = Inr so"
    by (auto simp: normalize_patch_text_def Let_def split: sum.splits)
  have "represents disk (disk_text disk) ([], [])" by (simp add: represents_def)
  with run have "\<forall>a\<in>set acts. readable (disk (pa_path a))" using run_actions_sound by blast
  moreover have "\<forall>a\<in>set acts. (\<exists>q. absolute q = AbsInside (pa_path a)) \<or> inside (pa_path a)"
    using acts parse_actions_paths [of absolute "[]" _ acts "\<lambda>p. (\<exists>q. absolute q = AbsInside p) \<or> inside p"]
      normalize_inside [of absolute]
    by (auto simp: parse_envelope_def split: list.splits if_splits)
  ultimately show ?thesis using acts by blast
qed

section \<open>Concrete runs\<close>

definition demo_text :: ustr where
  "demo_text = lit ''one'' @ [12] @ lit ''two'' @ [10]"

definition demo_update :: patch_action where
  "demo_update = \<lparr>pa_operation = UpdateFile, pa_path = lit ''a.txt'',
     pa_body = [lit ''@@'', lit ''-two'', lit ''+three'']\<rparr>"

definition demo_disk :: "ustr \<Rightarrow> target" where
  "demo_disk p = (if p = lit ''a.txt'' then TargetText demo_text False else TargetMissing)"

definition demo_udiff :: "ustr list \<Rightarrow> ustr list \<Rightarrow> ustr \<Rightarrow> ustr \<Rightarrow> ustr list" where
  "demo_udiff old new from_file to_file = map (Cons 45) old @ map (Cons 43) new"

definition demo_absolute :: "ustr \<Rightarrow> abs_path" where
  "demo_absolute q = AbsOutside"

theorem envelope_round_trip_witness:
  "parse_envelope demo_absolute (envelope_text [demo_update]) = Inr [demo_update]"
  by (rule envelope_round_trip)
    (simp_all add: printable_action_def demo_update_def is_break_def normalize_patch_path_def py_strip_def
      py_isspace_def starts_with_def path_parts_def body_line_def end_patch_def action_line_def
      action_prefixes_def move_to_def)

lemma demo_update_text: "apply_update demo_update demo_text = Inr (lit ''one'' @ [10] @ lit ''three'' @ [10])"
  by (simp add: apply_update_def demo_update_def demo_text_def starts_with_def end_of_file_def splitlines_def
      is_break_def hunk_start_def match_positions_def old_lines_def new_lines_def newline_of_def ends_with_def
      upt_rec Let_def)

theorem update_rewrites_line_ends_witness:
  "\<exists>t. apply_update demo_update demo_text = Inr t \<and> 12 \<in> set demo_text \<and> 12 \<notin> set t"
proof -
  have "unbroken l" if "l \<in> set (pa_body demo_update)" for l
    using that by (auto simp: demo_update_def is_break_def)
  moreover obtain t where t: "apply_update demo_update demo_text = Inr t" using demo_update_text by blast
  ultimately have "\<forall>c\<in>set t. is_break c \<longrightarrow> c \<in> set (newline_of demo_text)"
    using update_rewrites_line_ends [OF t] by blast
  moreover have "12 \<in> set demo_text" "newline_of demo_text = [10]" by (simp_all add: demo_text_def newline_of_def)
  ultimately show ?thesis using t by (auto simp: is_break_def)
qed

definition demo_patch :: ustr where
  "demo_patch = 10 # envelope_text [demo_update]"

definition demo_diff :: ustr where
  "demo_diff = render_file_diff demo_udiff
     (changed_file demo_disk (\<lambda>p. Some (lit ''one'' @ [10] @ lit ''three'' @ [10])) (lit ''a.txt''))"

lemma envelope_text_head: "\<exists>t. envelope_text acts = begin_patch @ t"
  by (cases "concat (map action_text acts) @ [end_patch]") (auto simp: envelope_text_def)

lemma demo_envelope:
  "dropWhile (\<lambda>c. c \<in> {65279, 13, 10}) demo_patch = envelope_text [demo_update]"
  "starts_with begin_patch (envelope_text [demo_update])"
  using envelope_text_head [of "[demo_update]"] by (auto simp: demo_patch_def) (simp_all add: begin_patch_def)

lemma demo_parse: "parse_envelope demo_absolute (envelope_text [demo_update]) = Inr [demo_update]"
  by (rule parse_printed)
    (simp_all add: printable_action_def demo_update_def is_break_def normalize_patch_path_def py_strip_def
      py_isspace_def starts_with_def path_parts_def body_line_def end_patch_def action_line_def
      action_prefixes_def move_to_def)

lemma demo_spec:
  "\<exists>m. spec_run (disk_text demo_disk) [demo_update] = Inr m \<and> m (lit ''a.txt'') = Some (lit ''one'' @ [10] @ lit ''three'' @ [10])"
proof -
  have "new_content demo_update (disk_text demo_disk (pa_path demo_update)) = Inr (Some (lit ''one'' @ [10] @ lit ''three'' @ [10]))"
    using demo_update_text by (simp add: new_content_def disk_text_def demo_disk_def demo_update_def)
  then show ?thesis by (simp add: demo_update_def)
qed

lemma demo_readable: "\<forall>a\<in>set [demo_update]. readable (demo_disk (pa_path a))"
  by (simp add: demo_update_def demo_disk_def readable_def)

lemma demo_mentioned: "mentioned [demo_update] = [lit ''a.txt'']"
  by (simp add: mentioned_def mention_def demo_update_def)

lemma demo_diff_nonempty: "demo_diff \<noteq> []"
  by (simp add: demo_diff_def render_file_diff_def changed_file_def initial_state_def disk_text_def demo_disk_def demo_text_def Let_def)

lemma demo_conditions:
  "\<exists>acts m. parse_envelope demo_absolute (envelope_text [demo_update]) = Inr acts \<and>
     (\<forall>a\<in>set acts. readable (demo_disk (pa_path a))) \<and> spec_run (disk_text demo_disk) acts = Inr m \<and> demo_diff \<noteq> [] \<and>
     demo_diff = concat (map (\<lambda>p. render_file_diff demo_udiff (changed_file demo_disk m p)) (mentioned acts))"
proof -
  obtain m where m: "spec_run (disk_text demo_disk) [demo_update] = Inr m"
    "m (lit ''a.txt'') = Some (lit ''one'' @ [10] @ lit ''three'' @ [10])" using demo_spec by blast
  have "demo_diff = concat (map (\<lambda>p. render_file_diff demo_udiff (changed_file demo_disk m p)) (mentioned [demo_update]))"
    unfolding demo_mentioned using m(2) by (simp add: demo_diff_def changed_file_def)
  with m(1) demo_parse demo_readable demo_diff_nonempty show ?thesis by blast
qed

lemma demo_normalized: "normalize_patch_text demo_udiff demo_disk demo_absolute demo_patch = Inr demo_diff"
  unfolding normalize_iff [OF demo_envelope] using demo_conditions by blast

theorem envelope_refines_file_map_witness:
  "normalize_patch_text demo_udiff demo_disk demo_absolute demo_patch = Inr demo_diff"
  unfolding envelope_refines_file_map [OF demo_envelope] by (rule demo_conditions)

theorem envelope_paths_confined_witness:
  "\<exists>acts. parse_envelope demo_absolute (envelope_text [demo_update]) = Inr acts \<and> acts \<noteq> [] \<and>
    list_all (\<lambda>a. inside (pa_path a)) acts"
proof -
  have "(normalize_patch_text demo_udiff demo_disk demo_absolute demo_patch = Inr demo_diff)"
    by (rule demo_normalized)
  from envelope_paths_confined [OF demo_envelope this] demo_parse show ?thesis
    by (auto simp: demo_absolute_def list_all_iff)
qed

end
