(* ===== verification/OAuth_Clients.thy ===== *)
theory OAuth_Clients
  imports Control_State Text_Lines "HOL-Library.Product_Lexorder"
begin

text \<open>
  Scopes, redirect URIs and dynamic clients of the OAuth server,
  \<open>src/src/workgate/oauth/core/scopes.py\<close>, \<open>urls.py\<close>, \<open>client_store.py\<close> and the client half of
  \<open>service.py\<close>.

  Each operation runs under the lock of the registry and is one step; \<open>now\<close> is
  \<open>int(time.time())\<close>. Audit events are left out. A JSON number without a fraction stands for an
  \<open>int\<close>.
\<close>

section \<open>Scopes\<close>

definition supported_scopes :: "ustr list" where
  "supported_scopes =
     [lit ''shell:read'', lit ''shell:write'', lit ''shell:execute'', lit ''git:write'', lit ''file:share'',
      lit ''executor:use'', lit ''browser:use'', lit ''gui:use'', lit ''audit:read'', lit ''audit:full'']"

definition default_scope :: ustr where
  "default_scope = join (lit '' '') supported_scopes"

definition dedupe_scopes :: "ustr list \<Rightarrow> ustr list" where
  "dedupe_scopes scopes = rev (remdups (rev scopes))"

text \<open>\<open>str.split()\<close>: the runs of characters that are not white space.\<close>

fun split_space :: "ustr \<Rightarrow> ustr \<Rightarrow> ustr list" where
  "split_space acc [] = (if acc = [] then [] else [rev acc])"
| "split_space acc (c # s) =
     (if py_isspace c then (if acc = [] then split_space [] s else rev acc # split_space [] s)
      else split_space (c # acc) s)"

text \<open>The error is the first unsupported scope.\<close>

definition normalize_requested_scope :: "ustr option \<Rightarrow> ustr + ustr" where
  "normalize_requested_scope scope =
     (case scope of
        None \<Rightarrow> Inr default_scope
      | Some s \<Rightarrow>
          if py_strip s = [] then Inr default_scope
          else let requested = dedupe_scopes (split_space [] s) in
               case filter (\<lambda>x. x \<notin> set supported_scopes) requested of
                 x # _ \<Rightarrow> Inl x
               | [] \<Rightarrow> Inr (join (lit '' '') requested))"

section \<open>URLs\<close>

definition rstrip_slash :: "ustr \<Rightarrow> ustr" where
  "rstrip_slash s = rev (dropWhile (\<lambda>c. c = 47) (rev s))"

definition normalize_resource :: "ustr \<Rightarrow> ustr" where
  "normalize_resource s = rstrip_slash s"

record oauth_config =
  cf_issuer :: "ustr option"
  cf_resource :: "ustr option"
  cf_base_url :: ustr
  cf_token_ttl_s :: int
  cf_code_ttl_s :: int
  cf_max_codes :: int
  cf_client_ttl_s :: int
  cf_max_clients :: int

definition issuer_url :: "oauth_config \<Rightarrow> ustr" where
  "issuer_url cfg = rstrip_slash (case cf_issuer cfg of
     Some s \<Rightarrow> if s = [] then cf_base_url cfg else s | None \<Rightarrow> cf_base_url cfg)"

definition resource_url :: "oauth_config \<Rightarrow> ustr" where
  "resource_url cfg =
     (case cf_resource cfg of
        Some s \<Rightarrow> if s = [] then cf_base_url cfg @ lit ''/mcp'' else rstrip_slash s
      | None \<Rightarrow> cf_base_url cfg @ lit ''/mcp'')"

text \<open>
  \<open>urlparse\<close>: the scheme, the network location and the fragment. \<open>netloc_ok\<close> stands for the checks
  of bracketed hosts and of Unicode normalisation, which raise \<open>ValueError\<close>; there the result is
  \<open>None\<close>.
\<close>

record parsed_url =
  pu_scheme :: ustr
  pu_netloc :: ustr
  pu_fragment :: ustr

definition ascii_lower :: "ustr \<Rightarrow> ustr" where
  "ascii_lower s = map (\<lambda>c. if is_upper c then c + 32 else c) s"

definition scheme_char :: "nat \<Rightarrow> bool" where
  "scheme_char c \<longleftrightarrow> is_upper c \<or> is_lower c \<or> is_digit c \<or> c = 43 \<or> c = 45 \<or> c = 46"

definition split_scheme :: "ustr \<Rightarrow> ustr \<times> ustr" where
  "split_scheme url =
     (let before = takeWhile (\<lambda>c. c \<noteq> 58) url; after = dropWhile (\<lambda>c. c \<noteq> 58) url
      in if after \<noteq> [] \<and> before \<noteq> [] \<and> (is_upper (hd url) \<or> is_lower (hd url)) \<and> list_all scheme_char before
         then (ascii_lower before, tl after) else ([], url))"

definition urlparse :: "(ustr \<Rightarrow> bool) \<Rightarrow> ustr \<Rightarrow> parsed_url option" where
  "urlparse netloc_ok url =
     (let url = filter (\<lambda>c. c \<noteq> 9 \<and> c \<noteq> 13 \<and> c \<noteq> 10) (dropWhile (\<lambda>c. c \<le> 32) url);
          (scheme, url) = split_scheme url;
          in_netloc = (\<lambda>c. c \<noteq> 47 \<and> c \<noteq> 63 \<and> c \<noteq> 35);
          (netloc, url) = (if starts_with (lit ''//'') url
            then (takeWhile in_netloc (drop 2 url), dropWhile in_netloc (drop 2 url)) else ([], url))
      in if \<not> netloc_ok netloc then None
         else Some \<lparr>pu_scheme = scheme, pu_netloc = netloc, pu_fragment = tl (dropWhile (\<lambda>c. c \<noteq> 35) url)\<rparr>)"

text \<open>\<open>parsed.hostname\<close>; a missing host is empty.\<close>

definition hostname :: "ustr \<Rightarrow> ustr" where
  "hostname netloc =
     (let info = rev (takeWhile (\<lambda>c. c \<noteq> 64) (rev netloc));
          host = (if 91 \<in> set info
            then takeWhile (\<lambda>c. c \<noteq> 93) (tl (dropWhile (\<lambda>c. c \<noteq> 91) info))
            else takeWhile (\<lambda>c. c \<noteq> 58) info)
      in ascii_lower (takeWhile (\<lambda>c. c \<noteq> 37) host) @ dropWhile (\<lambda>c. c \<noteq> 37) host)"

definition loopback_hosts :: "ustr list" where
  "loopback_hosts = [lit ''127.0.0.1'', lit ''::1'', lit ''localhost'']"

definition is_private_use_scheme :: "ustr \<Rightarrow> ustr \<Rightarrow> bool" where
  "is_private_use_scheme scheme netloc \<longleftrightarrow> 46 \<in> set scheme \<and> netloc = []"

text \<open>\<open>None\<close> is the \<open>ValueError\<close> of \<open>urlparse\<close>.\<close>

definition is_allowed_redirect_uri :: "(ustr \<Rightarrow> bool) \<Rightarrow> ustr \<Rightarrow> bool option" where
  "is_allowed_redirect_uri netloc_ok uri =
     map_option (\<lambda>u.
       if pu_scheme u = [] \<or> pu_scheme u \<in> {lit ''javascript'', lit ''data''} then False
       else if pu_fragment u \<noteq> [] then False
       else if pu_scheme u = lit ''https'' then pu_netloc u \<noteq> []
       else if pu_scheme u = lit ''http'' then hostname (pu_netloc u) \<in> set loopback_hosts
       else is_private_use_scheme (pu_scheme u) (pu_netloc u)) (urlparse netloc_ok uri)"

section \<open>Clients and codes\<close>

record oauth_client =
  oc_id :: ustr
  oc_redirect_uris :: "ustr list"
  oc_name :: "ustr option"
  oc_created_at :: int
  oc_approved_at :: "int option"

record auth_code =
  ac_code :: ustr
  ac_client_id :: ustr
  ac_redirect_uri :: ustr
  ac_scope :: ustr
  ac_resource :: ustr
  ac_challenge :: "ustr option"
  ac_method :: "ustr option"
  ac_created_at :: int
  ac_used :: bool

record oauth_state =
  oa_clients :: "(ustr, oauth_client) dict"
  oa_codes :: "(ustr, auth_code) dict"
  oa_started :: bool
  oa_accepting :: bool
  oa_closed :: bool
  oa_file :: cell

datatype oauth_error =
    ShuttingDown
  | NoRestart
  | InvalidRequest ustr
  | InvalidGrant ustr
  | UnsupportedGrantType ustr
  | TemporarilyUnavailable
  | NotRegistered
  | MissingRedirect
  | UrlInvalid
  | RegistryUnreadable
  | RegistryUnsupported
  | RegistryInvalid
  | RegistryWriteFailed

definition require_open :: "oauth_state \<Rightarrow> bool" where
  "require_open s \<longleftrightarrow> \<not> (oa_closed s \<or> (oa_started s \<and> \<not> oa_accepting s))"

section \<open>The client registry file\<close>

fun dec_int :: "json \<Rightarrow> int option" where
  "dec_int (JNum q) = (if of_int \<lfloor>q\<rfloor> = q then Some \<lfloor>q\<rfloor> else None)"
| "dec_int (JBool b) = Some (if b then 1 else 0)"
| "dec_int _ = None"

fun dec_uris :: "json list \<Rightarrow> ustr list option" where
  "dec_uris [] = Some []"
| "dec_uris (JStr u # vs) = (if u = [] then None else map_option (Cons u) (dec_uris vs))"
| "dec_uris (_ # vs) = None"

fun decode_client :: "json \<Rightarrow> oauth_client option" where
  "decode_client (JObj kvs) =
     (case (obj_get kvs (lit ''client_id''), obj_get kvs (lit ''redirect_uris''),
            dec_opt dec_str (obj_get kvs (lit ''client_name'')), dec_int (obj_get kvs (lit ''created_at'')),
            dec_int (obj_get kvs (lit ''approved_at''))) of
        (JStr cid, JList uris, Some name, Some created, Some approved) \<Rightarrow>
          (case dec_uris uris of
             None \<Rightarrow> None
           | Some us \<Rightarrow>
               if cid = [] \<or> approved < created then None
               else Some \<lparr>oc_id = cid, oc_redirect_uris = us, oc_name = name, oc_created_at = created,
                 oc_approved_at = Some approved\<rparr>)
      | _ \<Rightarrow> None)"
| "decode_client _ = None"

fun merge_clients :: "json list \<Rightarrow> (ustr, oauth_client) dict \<Rightarrow> nat \<Rightarrow> oauth_error + (ustr, oauth_client) dict \<times> nat" where
  "merge_clients [] clients loaded = Inr (clients, loaded)"
| "merge_clients (raw # raws) clients loaded =
     (case decode_client raw of
        None \<Rightarrow> Inl RegistryInvalid
      | Some c \<Rightarrow>
          if (case map_of clients (oc_id c) of None \<Rightarrow> True | Some current \<Rightarrow> oc_created_at current \<le> oc_created_at c)
          then merge_clients raws (AList.update (oc_id c) c clients) (Suc loaded)
          else merge_clients raws clients loaded)"

definition load_persisted_clients ::
  "(json \<Rightarrow> nat) \<Rightarrow> cell \<Rightarrow> (ustr, oauth_client) dict \<Rightarrow> oauth_error + (ustr, oauth_client) dict \<times> nat" where
  "load_persisted_clients fsize c clients =
     (case read_json fsize None c of
        Inl _ \<Rightarrow> Inl RegistryUnreadable
      | Inr JNull \<Rightarrow> Inr (clients, 0)
      | Inr (JObj kvs) \<Rightarrow>
          if dec_int (obj_get kvs (lit ''version'')) \<noteq> Some 1 then Inl RegistryUnsupported
          else (case obj_get kvs (lit ''clients'') of
                  JList raws \<Rightarrow> merge_clients raws clients 0
                | _ \<Rightarrow> Inl RegistryInvalid)
      | Inr _ \<Rightarrow> Inl RegistryUnsupported)"

text \<open>\<open>asdict(client)\<close> and the payload of \<open>persist_approved_clients\<close>.\<close>

definition client_dump :: "oauth_client \<Rightarrow> json" where
  "client_dump c = JObj
     [(lit ''approved_at'', enc_opt (\<lambda>t. JNum (of_int t)) (oc_approved_at c)),
      (lit ''client_id'', JStr (oc_id c)), (lit ''client_name'', enc_opt JStr (oc_name c)),
      (lit ''created_at'', JNum (of_int (oc_created_at c))),
      (lit ''redirect_uris'', JList (map JStr (oc_redirect_uris c)))]"

definition approved_clients :: "(ustr, oauth_client) dict \<Rightarrow> oauth_client list" where
  "approved_clients clients =
     filter (\<lambda>c. oc_approved_at c \<noteq> None) (map (\<lambda>k. the (map_of clients k)) (sort (dict_keys clients)))"

definition clients_payload :: "(ustr, oauth_client) dict \<Rightarrow> json" where
  "clients_payload clients = JObj
     [(lit ''clients'', JList (map client_dump (approved_clients clients))), (lit ''version'', JNum 1)]"

section \<open>Registration\<close>

definition client_expired :: "int \<Rightarrow> int \<Rightarrow> oauth_client \<Rightarrow> bool" where
  "client_expired now ttl c \<longleftrightarrow> oc_approved_at c = None \<and> ttl > 0 \<and> now - oc_created_at c > ttl"

definition prune_clients :: "oauth_config \<Rightarrow> int \<Rightarrow> oauth_state \<Rightarrow> oauth_state" where
  "prune_clients cfg now s =
     (if cf_client_ttl_s cfg \<le> 0 then s
      else s\<lparr>oa_clients := dict_sweep (\<lambda>_. client_expired now (cf_client_ttl_s cfg)) (oa_clients s)\<rparr>)"

definition registration_key :: "ustr option \<Rightarrow> ustr list \<Rightarrow> ustr option \<times> ustr list" where
  "registration_key name uris = (name, sort (remdups uris))"

text \<open>The order in which \<open>min\<close> prefers clients.\<close>

definition client_rank :: "oauth_client \<Rightarrow> bool \<times> int \<times> ustr" where
  "client_rank c = (oc_approved_at c = None, oc_created_at c, oc_id c)"

fun min_client :: "oauth_client \<Rightarrow> oauth_client list \<Rightarrow> oauth_client" where
  "min_client best [] = best"
| "min_client best (c # cs) = min_client (if client_rank c < client_rank best then c else best) cs"

definition matching_registered_client :: "ustr option \<Rightarrow> ustr list \<Rightarrow> oauth_state \<Rightarrow> oauth_client option" where
  "matching_registered_client name uris s =
     (case filter (\<lambda>c. registration_key (oc_name c) (oc_redirect_uris c) = registration_key name uris)
             (dict_values (oa_clients s)) of
        [] \<Rightarrow> None
      | c # cs \<Rightarrow> Some (min_client c cs))"

definition new_client_id :: "ustr list \<Rightarrow> oauth_state \<Rightarrow> ustr option" where
  "new_client_id draws s = draw_bounded 8 (map (\<lambda>d. lit ''workgate-'' @ d) draws) (dict_keys (oa_clients s))"

definition pending_clients :: "oauth_state \<Rightarrow> nat" where
  "pending_clients s = length (filter (\<lambda>c. oc_approved_at c = None) (dict_values (oa_clients s)))"

text \<open>
  \<open>any(not allowed(u) for u in uris)\<close> stops at the first that is not allowed or raises. The result
  is the client and whether it existed before.
\<close>

fun uris_allowed :: "(ustr \<Rightarrow> bool) \<Rightarrow> ustr list \<Rightarrow> oauth_error + bool" where
  "uris_allowed netloc_ok [] = Inr True"
| "uris_allowed netloc_ok (u # us) =
     (case is_allowed_redirect_uri netloc_ok u of
        None \<Rightarrow> Inl UrlInvalid
      | Some False \<Rightarrow> Inr False
      | Some True \<Rightarrow> uris_allowed netloc_ok us)"

definition register_dynamic_client ::
  "(ustr \<Rightarrow> bool) \<Rightarrow> oauth_config \<Rightarrow> int \<Rightarrow> int \<Rightarrow> ustr list \<Rightarrow> ustr option \<Rightarrow> ustr list \<Rightarrow> oauth_state \<Rightarrow>
   oauth_state \<times> (oauth_error + oauth_client \<times> bool)" where
  "register_dynamic_client netloc_ok cfg now created draws name uris s =
     (if \<not> require_open s then (s, Inl ShuttingDown)
      else if uris = [] then (s, Inl (InvalidRequest (lit ''redirect_uris must be a non-empty list'')))
      else case uris_allowed netloc_ok uris of
        Inl e \<Rightarrow> (s, Inl e)
      | Inr False \<Rightarrow> (s, Inl (InvalidRequest (lit ''redirect_uris must be https, loopback http, or custom private-use URIs'')))
      | Inr True \<Rightarrow>
          let s = prune_clients cfg now s in
          case matching_registered_client name uris s of
            Some existing \<Rightarrow> (s, Inr (existing, True))
          | None \<Rightarrow>
              if 0 < cf_max_clients cfg \<and> cf_max_clients cfg \<le> int (pending_clients s)
              then (s, Inl (InvalidRequest (lit ''Too many pending OAuth client registrations'')))
              else case new_client_id draws s of
                None \<Rightarrow> (s, Inl (InvalidRequest (lit ''Unable to allocate unique client_id'')))
              | Some cid \<Rightarrow>
                  let c = \<lparr>oc_id = cid, oc_redirect_uris = uris, oc_name = name, oc_created_at = created,
                    oc_approved_at = None\<rparr>
                  in (s\<lparr>oa_clients := AList.update cid c (oa_clients s)\<rparr>, Inr (c, False)))"

text \<open>\<open>w\<close> is the outcome of the write of the registry file.\<close>

definition approve_client :: "outcome \<Rightarrow> int \<Rightarrow> ustr \<Rightarrow> oauth_state \<Rightarrow> oauth_state \<times> (oauth_error + oauth_client)" where
  "approve_client w now cid s =
     (if \<not> require_open s then (s, Inl ShuttingDown)
      else case map_of (oa_clients s) cid of
        None \<Rightarrow> (s, Inl NotRegistered)
      | Some c \<Rightarrow>
          if oc_approved_at c \<noteq> None then (s, Inr c)
          else let c' = c\<lparr>oc_approved_at := Some (max (oc_created_at c) now)\<rparr>;
                   clients = AList.update cid c' (oa_clients s);
                   (file', ok) = write_json w (clients_payload clients) (oa_file s)
               in if ok then (s\<lparr>oa_clients := clients, oa_file := file'\<rparr>, Inr c')
                  else (s\<lparr>oa_file := file'\<rparr>, Inl RegistryWriteFailed))"

section \<open>Life cycle\<close>

definition oauth_start :: "(json \<Rightarrow> nat) \<Rightarrow> oauth_state \<Rightarrow> oauth_state \<times> (oauth_error + nat)" where
  "oauth_start fsize s =
     (if oa_closed s then (s, Inl NoRestart)
      else if oa_started s then (s, Inr 0)
      else case load_persisted_clients fsize (oa_file s) (oa_clients s) of
        Inl e \<Rightarrow> (s, Inl e)
      | Inr (clients, loaded) \<Rightarrow>
          (s\<lparr>oa_clients := clients, oa_accepting := True, oa_started := True\<rparr>, Inr loaded))"

definition stop_admission :: "oauth_state \<Rightarrow> oauth_state" where
  "stop_admission s = s\<lparr>oa_accepting := False\<rparr>"

definition oauth_close :: "oauth_state \<Rightarrow> oauth_state" where
  "oauth_close s =
     (if oa_closed s then s
      else (stop_admission s)\<lparr>oa_codes := [], oa_clients := [], oa_closed := True\<rparr>)"

definition new_oauth :: "cell \<Rightarrow> oauth_state" where
  "new_oauth f = \<lparr>oa_clients = [], oa_codes = [], oa_started = False, oa_accepting = True, oa_closed = False, oa_file = f\<rparr>"

end
