(* ===== verification/OAuth_Codes.thy ===== *)
theory OAuth_Codes
  imports OAuth_Clients
begin

text \<open>
  Authorization requests, codes and their exchange, \<open>src/src/workgate/oauth/core/service.py\<close> and
  \<open>requests.py\<close>.

  The PKCE functions of Authlib are a parameter: the patterns of challenges and verifiers and the
  S256 comparison. The signed token is the data it is issued for.
\<close>

section \<open>Requests\<close>

record auth_input =
  ai_response_type :: "ustr option"
  ai_client_id :: "ustr option"
  ai_redirect_uri :: "ustr option"
  ai_resource :: "ustr option"
  ai_scope :: "ustr option"
  ai_state :: "ustr option"
  ai_challenge :: "ustr option"
  ai_method :: "ustr option"
  ai_extra :: "(ustr, ustr) dict"

record token_input =
  ti_grant_type :: "ustr option"
  ti_code :: "ustr option"
  ti_client_id :: "ustr option"
  ti_redirect_uri :: "ustr option"
  ti_resource :: "ustr option"
  ti_verifier :: "ustr option"

record auth_request =
  ar_client :: oauth_client
  ar_client_name :: ustr
  ar_input :: auth_input
  ar_scope :: ustr
  ar_resource :: ustr

record pkce =
  challenge_pattern :: "ustr \<Rightarrow> bool"
  verifier_pattern :: "ustr \<Rightarrow> bool"
  s256_matches :: "ustr \<Rightarrow> ustr \<Rightarrow> bool"

definition given_text :: "ustr option \<Rightarrow> bool" where
  "given_text x \<longleftrightarrow> (case x of None \<Rightarrow> False | Some s \<Rightarrow> s \<noteq> [])"

definition text_or :: "ustr option \<Rightarrow> ustr" where
  "text_or x = (case x of None \<Rightarrow> [] | Some s \<Rightarrow> s)"

text \<open>\<open>to_oauth_params\<close>: the known parameters that are not empty override the extra ones.\<close>

definition oauth_params :: "auth_input \<Rightarrow> (ustr, ustr) dict" where
  "oauth_params i =
     fold (\<lambda>(k, v) d. if given_text v then AList.update k (text_or v) d else d)
       [(lit ''response_type'', ai_response_type i), (lit ''client_id'', ai_client_id i),
        (lit ''redirect_uri'', ai_redirect_uri i), (lit ''resource'', ai_resource i), (lit ''scope'', ai_scope i),
        (lit ''state'', ai_state i), (lit ''code_challenge'', ai_challenge i),
        (lit ''code_challenge_method'', ai_method i)]
       (ai_extra i)"

definition required_param :: "(ustr, ustr) dict \<Rightarrow> string \<Rightarrow> oauth_error + ustr" where
  "required_param params k =
     (if given_text (map_of params (lit k)) then Inr (text_or (map_of params (lit k)))
      else Inl (InvalidRequest (lit ''Missing '' @ lit k)))"

text \<open>What \<open>validate_authorization_request\<close> checks of the request once the client is known.\<close>

definition check_request ::
  "pkce \<Rightarrow> (ustr, ustr) dict \<Rightarrow> ustr \<Rightarrow> oauth_client \<Rightarrow> oauth_error + ustr" where
  "check_request lib params redirect c =
     (if redirect \<notin> set (oc_redirect_uris c)
      then Inl (InvalidRequest (lit ''redirect_uri is not registered for this client''))
      else case normalize_requested_scope (map_of params (lit ''scope'')) of
        Inl x \<Rightarrow> Inl (InvalidRequest (lit ''Unsupported scope: '' @ x))
      | Inr scope \<Rightarrow>
          let challenge = map_of params (lit ''code_challenge''); mthd = map_of params (lit ''code_challenge_method'')
          in if \<not> given_text challenge then Inl (InvalidRequest (lit ''Missing code_challenge''))
             else if \<not> challenge_pattern lib (text_or challenge) then Inl (InvalidRequest (lit ''Invalid code_challenge''))
             else if \<not> given_text mthd then Inl (InvalidRequest (lit ''Missing code_challenge_method''))
             else if mthd \<noteq> Some (lit ''S256'')
             then Inl (InvalidRequest (lit ''Only code_challenge_method=S256 is supported''))
             else Inr scope)"

definition validate_authorization_request ::
  "pkce \<Rightarrow> oauth_config \<Rightarrow> int \<Rightarrow> auth_input \<Rightarrow> oauth_state \<Rightarrow> oauth_state \<times> (oauth_error + auth_request)" where
  "validate_authorization_request lib cfg now i s =
     (if \<not> require_open s then (s, Inl ShuttingDown)
      else let params = oauth_params i in
      if map_of params (lit ''response_type'') \<noteq> Some (lit ''code'')
      then (s, Inl (InvalidRequest (lit ''Only response_type=code is supported'')))
      else case required_param params ''client_id'' of Inl e \<Rightarrow> (s, Inl e) | Inr cid \<Rightarrow>
      (case required_param params ''redirect_uri'' of Inl e \<Rightarrow> (s, Inl e) | Inr redirect \<Rightarrow>
      (case required_param params ''resource'' of Inl e \<Rightarrow> (s, Inl e) | Inr resource \<Rightarrow>
         if normalize_resource resource \<noteq> resource_url cfg
         then (s, Inl (InvalidRequest (lit ''resource does not match this MCP server'')))
         else let s = prune_clients cfg now s in
         (case map_of (oa_clients s) cid of
            None \<Rightarrow> (s, Inl (InvalidRequest (lit ''Unknown client_id'')))
          | Some c \<Rightarrow>
              (s, map_sum id
                (\<lambda>scope. \<lparr>ar_client = c,
                  ar_client_name = (if given_text (oc_name c) then text_or (oc_name c) else lit ''Unknown client''),
                  ar_input = i, ar_scope = scope, ar_resource = normalize_resource resource\<rparr>)
                (check_request lib params redirect c))))))"

section \<open>Codes\<close>

definition auth_code_expired :: "int \<Rightarrow> int \<Rightarrow> auth_code \<Rightarrow> bool" where
  "auth_code_expired now ttl c \<longleftrightarrow> now - ac_created_at c > ttl"

definition prune_codes :: "oauth_config \<Rightarrow> int \<Rightarrow> oauth_state \<Rightarrow> oauth_state" where
  "prune_codes cfg now s =
     s\<lparr>oa_codes := dict_sweep (\<lambda>_ c. ac_used c \<or> auth_code_expired now (cf_code_ttl_s cfg) c) (oa_codes s)\<rparr>"

definition pending_code_capacity :: "oauth_config \<Rightarrow> oauth_state \<Rightarrow> bool" where
  "pending_code_capacity cfg s \<longleftrightarrow> cf_max_codes cfg \<le> 0 \<or> int (length (oa_codes s)) < cf_max_codes cfg"

definition new_authorization_code :: "ustr list \<Rightarrow> oauth_state \<Rightarrow> ustr option" where
  "new_authorization_code draws s = draw_bounded 8 draws (dict_keys (oa_codes s))"

text \<open>The code, the redirect URI and the query of the response.\<close>

definition issue_authorization_response ::
  "oauth_config \<Rightarrow> outcome \<Rightarrow> int \<Rightarrow> int \<Rightarrow> int \<Rightarrow> ustr list \<Rightarrow> auth_request \<Rightarrow> oauth_state \<Rightarrow>
   oauth_state \<times> (oauth_error + auth_code \<times> (ustr \<times> ustr) list)" where
  "issue_authorization_response cfg w now created approved draws r s =
     (if \<not> require_open s then (s, Inl ShuttingDown)
      else let s = prune_codes cfg now s in
      if \<not> pending_code_capacity cfg s then (s, Inl TemporarilyUnavailable)
      else case new_authorization_code draws s of
        None \<Rightarrow> (s, Inl (InvalidRequest (lit ''Unable to allocate authorization code'')))
      | Some code \<Rightarrow>
          (case ai_redirect_uri (ar_input r) of
             None \<Rightarrow> (s, Inl MissingRedirect)
           | Some redirect \<Rightarrow>
               let c = \<lparr>ac_code = code, ac_client_id = oc_id (ar_client r), ac_redirect_uri = redirect,
                 ac_scope = ar_scope r, ac_resource = ar_resource r, ac_challenge = ai_challenge (ar_input r),
                 ac_method = ai_method (ar_input r), ac_created_at = created, ac_used = False\<rparr>
               in case approve_client w approved (oc_id (ar_client r)) s of
                    (s', Inl e) \<Rightarrow> (s', Inl e)
                  | (s', Inr _) \<Rightarrow>
                      (s'\<lparr>oa_codes := AList.update code c (oa_codes s')\<rparr>,
                       Inr (c, [(lit ''code'', code), (lit ''iss'', issuer_url cfg)] @
                         (if given_text (ai_state (ar_input r))
                          then [(lit ''state'', text_or (ai_state (ar_input r)))] else [])))))"

definition verify_pkce :: "pkce \<Rightarrow> auth_code \<Rightarrow> ustr option \<Rightarrow> bool" where
  "verify_pkce lib c verifier \<longleftrightarrow>
     ac_method c = Some (lit ''S256'') \<and> given_text (ac_challenge c) \<and>
     challenge_pattern lib (text_or (ac_challenge c)) \<and>
     given_text verifier \<and> verifier_pattern lib (text_or verifier) \<and>
     s256_matches lib (text_or verifier) (text_or (ac_challenge c))"

record token_response =
  tr_client_id :: ustr
  tr_scope :: ustr
  tr_resource :: ustr
  tr_expires_in :: "int option"

text \<open>\<open>now\<close> is read when the codes are pruned, \<open>now'\<close> when the code is checked.\<close>

definition exchange_authorization_code ::
  "pkce \<Rightarrow> oauth_config \<Rightarrow> int \<Rightarrow> int \<Rightarrow> token_input \<Rightarrow> oauth_state \<Rightarrow>
   oauth_state \<times> (oauth_error + token_response)" where
  "exchange_authorization_code lib cfg now now' i s =
     (if \<not> require_open s then (s, Inl ShuttingDown)
      else if text_or (ti_grant_type i) \<noteq> lit ''authorization_code''
      then (s, Inl (UnsupportedGrantType (text_or (ti_grant_type i))))
      else if text_or (ti_resource i) = [] then (s, Inl (InvalidRequest (lit ''Missing resource'')))
      else let s = prune_codes cfg now s; code = text_or (ti_code i) in
      case map_of (oa_codes s) code of
        None \<Rightarrow> (s, Inl (InvalidGrant (lit ''Unknown or used code'')))
      | Some c \<Rightarrow>
          if ac_used c then (s, Inl (InvalidGrant (lit ''Unknown or used code'')))
          else if auth_code_expired now' (cf_code_ttl_s cfg) c then (s, Inl (InvalidGrant (lit ''Expired code'')))
          else if ac_client_id c \<noteq> text_or (ti_client_id i) \<or> ac_redirect_uri c \<noteq> text_or (ti_redirect_uri i)
          then (s, Inl (InvalidGrant (lit ''Client or redirect mismatch'')))
          else if normalize_resource (text_or (ti_resource i)) \<noteq> normalize_resource (ac_resource c)
          then (s, Inl (InvalidGrant (lit ''Resource mismatch'')))
          else if \<not> verify_pkce lib c (ti_verifier i) then (s, Inl (InvalidGrant (lit ''PKCE verification failed'')))
          else (s\<lparr>oa_codes := AList.delete code (oa_codes s)\<rparr>,
                Inr \<lparr>tr_client_id = text_or (ti_client_id i), tr_scope = ac_scope c, tr_resource = ac_resource c,
                  tr_expires_in = (if 0 < cf_token_ttl_s cfg then Some (cf_token_ttl_s cfg) else None)\<rparr>))"

section \<open>The machine\<close>

text \<open>
  A step of the running service. A code is issued for a request that was validated earlier, in this
  or in another state; a step tells which code it issues, if any.
\<close>

definition validated :: "pkce \<Rightarrow> oauth_config \<Rightarrow> auth_request \<Rightarrow> bool" where
  "validated lib cfg r \<longleftrightarrow>
     (\<exists>now i s s'. validate_authorization_request lib cfg now i s = (s', Inr r))"

inductive oa_step ::
  "(json \<Rightarrow> nat) \<Rightarrow> (ustr \<Rightarrow> bool) \<Rightarrow> pkce \<Rightarrow> oauth_config \<Rightarrow> ustr option \<Rightarrow> oauth_state \<Rightarrow> oauth_state \<Rightarrow> bool"
  for fsize netloc_ok lib cfg where
  oa_start: "oauth_start fsize s = (s', nres) \<Longrightarrow> oa_step fsize netloc_ok lib cfg None s s'"
| oa_register: "oa_started s \<Longrightarrow> register_dynamic_client netloc_ok cfg now created draws name uris s = (s', cres) \<Longrightarrow>
    oa_step fsize netloc_ok lib cfg None s s'"
| oa_validate: "oa_started s \<Longrightarrow> validate_authorization_request lib cfg now i s = (s', rres) \<Longrightarrow>
    oa_step fsize netloc_ok lib cfg None s s'"
| oa_issue: "oa_started s \<Longrightarrow> validated lib cfg r \<Longrightarrow>
    issue_authorization_response cfg w now created approved draws r s = (s', ires) \<Longrightarrow>
    oa_step fsize netloc_ok lib cfg (case ires of Inl _ \<Rightarrow> None | Inr (c, _) \<Rightarrow> Some (ac_code c)) s s'"
| oa_exchange: "oa_started s \<Longrightarrow> exchange_authorization_code lib cfg now now' ti s = (s', tres) \<Longrightarrow>
    oa_step fsize netloc_ok lib cfg None s s'"
| oa_stop: "oa_step fsize netloc_ok lib cfg None s (stop_admission s)"
| oa_close: "oa_step fsize netloc_ok lib cfg None s (oauth_close s)"

definition oa_any :: "(json \<Rightarrow> nat) \<Rightarrow> (ustr \<Rightarrow> bool) \<Rightarrow> pkce \<Rightarrow> oauth_config \<Rightarrow> oauth_state \<Rightarrow> oauth_state \<Rightarrow> bool" where
  "oa_any fsize netloc_ok lib cfg s s' \<longleftrightarrow> (\<exists>l. oa_step fsize netloc_ok lib cfg l s s')"

text \<open>Steps that do not issue the code \<open>c\<close>.\<close>

definition oa_other :: "(json \<Rightarrow> nat) \<Rightarrow> (ustr \<Rightarrow> bool) \<Rightarrow> pkce \<Rightarrow> oauth_config \<Rightarrow> ustr \<Rightarrow> oauth_state \<Rightarrow> oauth_state \<Rightarrow> bool" where
  "oa_other fsize netloc_ok lib cfg c s s' \<longleftrightarrow> (\<exists>l. oa_step fsize netloc_ok lib cfg l s s' \<and> l \<noteq> Some c)"

end
