(* ===== verification/OAuth_Safety.thy ===== *)
theory OAuth_Safety
  imports OAuth_Codes
begin

text \<open>
  The runs of the OAuth server: the invariant of its tables and of the registry file, the bounds of
  the tables, the binding and single use of authorization codes, idempotent registration, and the
  durability of approved clients.
\<close>

section \<open>Well-formed clients\<close>

definition client_ok :: "ustr \<Rightarrow> oauth_client \<Rightarrow> bool" where
  "client_ok k c \<longleftrightarrow> oc_id c = k \<and> k \<noteq> [] \<and> [] \<notin> set (oc_redirect_uris c) \<and>
     (\<forall>a. oc_approved_at c = Some a \<longrightarrow> oc_created_at c \<le> a)"

definition clients_ok :: "(ustr, oauth_client) dict \<Rightarrow> bool" where
  "clients_ok d \<longleftrightarrow> dict_ok d \<and> (\<forall>k c. map_of d k = Some c \<longrightarrow> client_ok k c)"

lemma clients_okD: "clients_ok d \<Longrightarrow> map_of d k = Some c \<Longrightarrow> client_ok k c"
  by (simp add: clients_ok_def)

lemma clients_ok_put: "clients_ok d \<Longrightarrow> client_ok k c \<Longrightarrow> clients_ok (AList.update k c d)"
  unfolding clients_ok_def by (metis dict_ok_put fun_upd_apply map_of_put option.inject)

lemma clients_ok_sweep: "clients_ok d \<Longrightarrow> clients_ok (dict_sweep p d)"
  by (auto simp: clients_ok_def map_of_sweep split: option.splits if_splits)

lemma dec_uris_map: "[] \<notin> set us \<Longrightarrow> dec_uris (map JStr us) = Some us"
  by (induction us) auto

lemma decode_dump:
  assumes "client_ok k c" and "oc_approved_at c \<noteq> None"
  shows "decode_client (client_dump c) = Some c"
proof -
  from assms obtain a where a: "oc_approved_at c = Some a" "oc_created_at c \<le> a" by (auto simp: client_ok_def)
  have u: "dec_uris (map JStr (oc_redirect_uris c)) = Some (oc_redirect_uris c)"
    using assms(1) by (simp add: client_ok_def dec_uris_map)
  show ?thesis
    using assms(1) a u by (cases c) (simp add: client_dump_def obj_get_def client_ok_def)
qed

lemma merge_dumps:
  "(\<forall>c\<in>set cs. client_ok (oc_id c) c \<and> oc_approved_at c \<noteq> None) \<Longrightarrow> distinct (map oc_id cs) \<Longrightarrow>
   \<forall>c\<in>set cs. map_of d (oc_id c) = None \<Longrightarrow>
   merge_clients (map client_dump cs) d n = Inr (d @ map (\<lambda>c. (oc_id c, c)) cs, n + length cs)"
proof (induction cs arbitrary: d n)
  case (Cons c cs)
  have dec: "decode_client (client_dump c) = Some c" using Cons.prems(1) by (intro decode_dump [of "oc_id c"]) simp_all
  have put: "AList.update (oc_id c) c d = d @ [(oc_id c, c)]" using Cons.prems(3) by (intro put_fresh) simp
  have "\<forall>c'\<in>set cs. map_of (d @ [(oc_id c, c)]) (oc_id c') = None"
  proof
    fix c' assume c': "c' \<in> set cs"
    then have "oc_id c' \<in> oc_id ` set cs" by (rule imageI)
    with Cons.prems(2) have "oc_id c' \<noteq> oc_id c" by auto
    with Cons.prems(3) c' show "map_of (d @ [(oc_id c, c)]) (oc_id c') = None" by (simp add: map_add_def)
  qed
  with Cons.IH [of "d @ [(oc_id c, c)]" "Suc n"] Cons.prems dec put show ?case by simp
qed simp

text \<open>Loading a written registry gives exactly the approved clients.\<close>

definition approved_table :: "(ustr, oauth_client) dict \<Rightarrow> (ustr, oauth_client) dict" where
  "approved_table d = map (\<lambda>c. (oc_id c, c)) (approved_clients d)"

lemma approved_clients_iff:
  assumes "clients_ok d"
  shows "c \<in> set (approved_clients d) \<longleftrightarrow> map_of d (oc_id c) = Some c \<and> oc_approved_at c \<noteq> None"
proof -
  have "c \<in> set (map (\<lambda>k. the (map_of d k)) (sort (dict_keys d))) \<longleftrightarrow> map_of d (oc_id c) = Some c"
  proof
    assume "c \<in> set (map (\<lambda>k. the (map_of d k)) (sort (dict_keys d)))"
    then obtain k where "k \<in> set (dict_keys d)" "c = the (map_of d k)" by auto
    then have "map_of d k = Some c" unfolding dict_keys_iff by auto
    with clients_okD [OF assms] show "map_of d (oc_id c) = Some c" by (auto simp: client_ok_def)
  next
    assume c: "map_of d (oc_id c) = Some c"
    then have "oc_id c \<in> set (dict_keys d)" unfolding dict_keys_iff by simp
    with c show "c \<in> set (map (\<lambda>k. the (map_of d k)) (sort (dict_keys d)))"
      by (auto intro!: image_eqI [of _ _ "oc_id c"])
  qed
  then show ?thesis unfolding approved_clients_def by auto
qed

lemma distinct_approved: "clients_ok d \<Longrightarrow> distinct (map oc_id (approved_clients d))"
proof -
  assume ok: "clients_ok d"
  let ?ks = "sort (dict_keys d)"
  have "oc_id (the (map_of d k)) = k" if "k \<in> set ?ks" for k
  proof -
    from that have "map_of d k \<noteq> None" unfolding dict_keys_iff [symmetric] by simp
    with clients_okD [OF ok] show ?thesis by (auto simp: client_ok_def)
  qed
  then have "map oc_id (map (\<lambda>k. the (map_of d k)) ?ks) = ?ks"
    unfolding map_map by (intro map_idI) (simp only: comp_def)
  moreover have "distinct ?ks" using ok by (simp add: clients_ok_def)
  ultimately show ?thesis unfolding approved_clients_def by (metis distinct_map_filter)
qed

lemma map_of_approved_table:
  assumes "clients_ok d"
  shows "map_of (approved_table d) k = Some c \<longleftrightarrow> map_of d k = Some c \<and> oc_approved_at c \<noteq> None"
proof -
  have dist: "dict_ok (approved_table d)"
    using distinct_approved [OF assms] by (simp add: approved_table_def comp_def)
  have "map_of (approved_table d) k = Some c \<longleftrightarrow> (k, c) \<in> set (approved_table d)"
    using dict_mem_iff [OF dist] by blast
  also have "\<dots> \<longleftrightarrow> c \<in> set (approved_clients d) \<and> oc_id c = k" by (auto simp: approved_table_def)
  also have "\<dots> \<longleftrightarrow> map_of d k = Some c \<and> oc_approved_at c \<noteq> None"
    using approved_clients_iff [OF assms] clients_okD [OF assms] by (auto simp: client_ok_def)
  finally show ?thesis .
qed

lemma load_payload:
  assumes "clients_ok d"
  shows "load_persisted_clients fsize (Doc (clients_payload d)) [] = Inr (approved_table d, length (approved_clients d))"
proof -
  have "\<forall>c\<in>set (approved_clients d). client_ok (oc_id c) c \<and> oc_approved_at c \<noteq> None"
    using approved_clients_iff [OF assms] clients_okD [OF assms] by blast
  from merge_dumps [OF this distinct_approved [OF assms], of "[]" 0] show ?thesis
    by (simp add: load_persisted_clients_def clients_payload_def obj_get_def approved_table_def)
qed

section \<open>The registry file\<close>

definition file_holds :: "(ustr, oauth_client) dict \<Rightarrow> cell \<Rightarrow> bool" where
  "file_holds d f \<longleftrightarrow> clients_ok d \<and> (f = Doc (clients_payload d) \<or> f = Absent \<and> approved_clients d = [])"

lemma load_file:
  assumes "file_holds d f"
  shows "\<exists>n. load_persisted_clients fsize f [] = Inr (approved_table d, n)"
  using assms load_payload [of d fsize]
  by (auto simp: file_holds_def load_persisted_clients_def approved_table_def)

definition durable_in :: "(ustr, oauth_client) dict \<Rightarrow> cell \<Rightarrow> bool" where
  "durable_in d f \<longleftrightarrow> (\<exists>t. file_holds t f \<and>
     (\<forall>k c. map_of d k = Some c \<longrightarrow> oc_approved_at c \<noteq> None \<longrightarrow> map_of t k = Some c))"

lemma durable_inI: "clients_ok d \<Longrightarrow> durable_in d (Doc (clients_payload d))"
  by (auto simp: durable_in_def file_holds_def)

lemma durable_in_mono:
  "durable_in d f \<Longrightarrow> (\<And>k c. map_of d' k = Some c \<Longrightarrow> oc_approved_at c \<noteq> None \<Longrightarrow> map_of d k = Some c) \<Longrightarrow> durable_in d' f"
  unfolding durable_in_def by metis

lemma durable_in_load:
  assumes "durable_in d f"
  obtains t n where "load_persisted_clients fsize f [] = Inr (t, n)"
    "\<And>k c. map_of d k = Some c \<Longrightarrow> oc_approved_at c \<noteq> None \<Longrightarrow> map_of t k = Some c"
    "\<And>k c. map_of t k = Some c \<Longrightarrow> oc_approved_at c \<noteq> None" "clients_ok t" "durable_in t f"
proof -
  from assms obtain t where t: "file_holds t f"
    "\<And>k c. map_of d k = Some c \<Longrightarrow> oc_approved_at c \<noteq> None \<Longrightarrow> map_of t k = Some c"
    by (auto simp: durable_in_def)
  from t(1) have ok: "clients_ok t" by (simp add: file_holds_def)
  note tab = map_of_approved_table [OF ok]
  from load_file [OF t(1)] obtain n where n: "load_persisted_clients fsize f [] = Inr (approved_table t, n)" by blast
  have "clients_ok (approved_table t)"
    unfolding clients_ok_def tab using clients_okD [OF ok] distinct_approved [OF ok]
    by (simp add: approved_table_def comp_def)
  moreover have "durable_in (approved_table t) f" using t(1) tab by (auto simp: durable_in_def)
  ultimately show thesis using that [OF n] t(2) tab by blast
qed

section \<open>Counting pending clients\<close>

lemma length_filter_sweep:
  "length (filter P (dict_values (filter Q d))) \<le> length (filter P (dict_values d))"
  by (induction d) auto

lemma filter_update_le:
  "length (filter P (dict_values (AList.update k v d))) \<le> length (filter P (dict_values d)) + (if P v then 1 else 0)"
  by (induction d) auto

lemma prune_clients_frame [simp]:
  "oa_codes (prune_clients cfg now s) = oa_codes s" "oa_file (prune_clients cfg now s) = oa_file s"
  "oa_started (prune_clients cfg now s) = oa_started s" "oa_closed (prune_clients cfg now s) = oa_closed s"
  "oa_accepting (prune_clients cfg now s) = oa_accepting s"
  by (simp_all add: prune_clients_def)

lemma prune_clients_lookup:
  "dict_ok (oa_clients s) \<Longrightarrow> map_of (oa_clients (prune_clients cfg now s)) k = Some c \<longleftrightarrow>
     map_of (oa_clients s) k = Some c \<and> \<not> client_expired now (cf_client_ttl_s cfg) c"
  by (auto simp: prune_clients_def map_of_sweep client_expired_def simp del: map_of_eq_Some_iff split: option.splits)

lemma prune_clients_ok: "clients_ok (oa_clients s) \<Longrightarrow> clients_ok (oa_clients (prune_clients cfg now s))"
  by (simp add: prune_clients_def clients_ok_sweep)

lemma prune_clients_pending:
  "dict_ok (oa_clients s) \<Longrightarrow> pending_clients (prune_clients cfg now s) \<le> pending_clients s"
  using length_filter_sweep by (auto simp: prune_clients_def pending_clients_def dict_sweep_filter)

lemma prune_codes_frame [simp]:
  "oa_clients (prune_codes cfg now s) = oa_clients s" "oa_file (prune_codes cfg now s) = oa_file s"
  "oa_started (prune_codes cfg now s) = oa_started s" "oa_closed (prune_codes cfg now s) = oa_closed s"
  "oa_accepting (prune_codes cfg now s) = oa_accepting s"
  by (simp_all add: prune_codes_def)

lemma prune_codes_lookup:
  "dict_ok (oa_codes s) \<Longrightarrow> map_of (oa_codes (prune_codes cfg now s)) k = Some c \<longleftrightarrow>
     map_of (oa_codes s) k = Some c \<and> \<not> ac_used c \<and> \<not> auth_code_expired now (cf_code_ttl_s cfg) c"
  by (auto simp: prune_codes_def map_of_sweep simp del: map_of_eq_Some_iff split: option.splits)

section \<open>What each operation does\<close>

lemma not_allowed_empty [simp]: "is_allowed_redirect_uri netloc_ok [] \<noteq> Some True"
  by (auto simp: is_allowed_redirect_uri_def urlparse_def split_scheme_def starts_with_def Let_def)

lemma uris_allowed_nonempty: "uris_allowed netloc_ok us = Inr True \<Longrightarrow> [] \<notin> set us"
  by (induction us) (auto split: option.splits bool.splits)

lemma register_cases:
  assumes "register_dynamic_client netloc_ok cfg now created draws name uris s = (s', res)"
  obtains (refused) "s' = s" "\<exists>e. res = Inl e"
    | (pruned) "s' = prune_clients cfg now s" "\<exists>e. res = Inl e"
    | (reused) c where "s' = prune_clients cfg now s" "res = Inr (c, True)" "require_open s"
        "uris \<noteq> []" "uris_allowed netloc_ok uris = Inr True"
        "matching_registered_client name uris (prune_clients cfg now s) = Some c"
    | (added) cid c where "c = \<lparr>oc_id = cid, oc_redirect_uris = uris, oc_name = name, oc_created_at = created, oc_approved_at = None\<rparr>"
        "s' = (prune_clients cfg now s)\<lparr>oa_clients := AList.update cid c (oa_clients (prune_clients cfg now s))\<rparr>"
        "res = Inr (c, False)" "require_open s" "uris \<noteq> []" "uris_allowed netloc_ok uris = Inr True"
        "matching_registered_client name uris (prune_clients cfg now s) = None"
        "map_of (oa_clients (prune_clients cfg now s)) cid = None" "cid \<noteq> []"
        "0 < cf_max_clients cfg \<Longrightarrow> int (pending_clients (prune_clients cfg now s)) < cf_max_clients cfg"
proof -
  let ?p = "prune_clients cfg now s"
  consider "\<not> require_open s \<or> uris = [] \<or> uris_allowed netloc_ok uris \<noteq> Inr True"
    | "require_open s" "uris \<noteq> []" "uris_allowed netloc_ok uris = Inr True" by blast
  then show thesis
  proof cases
    case 1
    with assms show thesis
      by (intro refused) (auto simp: register_dynamic_client_def split: if_splits sum.splits bool.splits)
  next
    case ok: 2
    show thesis
    proof (cases "matching_registered_client name uris ?p")
      case (Some c)
      with assms ok show thesis by (intro reused) (auto simp: register_dynamic_client_def Let_def)
    next
      case None
      show thesis
      proof (cases "(0 < cf_max_clients cfg \<and> cf_max_clients cfg \<le> int (pending_clients ?p)) \<or> new_client_id draws ?p = None")
        case True
        with assms ok None show thesis
          by (intro pruned) (auto simp: register_dynamic_client_def Let_def split: if_splits)
      next
        case False
        then obtain cid where cid: "new_client_id draws ?p = Some cid" by auto
        have fresh: "map_of (oa_clients ?p) cid = None"
          using bounded.draw_fresh_key cid unfolding new_client_id_def .
        have ne: "cid \<noteq> []"
          using bounded.draw_member [OF cid [unfolded new_client_id_def]] by (auto dest!: in_set_takeD)
        from assms ok None False cid have "s' = ?p\<lparr>oa_clients := AList.update cid \<lparr>oc_id = cid, oc_redirect_uris = uris,
            oc_name = name, oc_created_at = created, oc_approved_at = None\<rparr> (oa_clients ?p)\<rparr> \<and>
            res = Inr (\<lparr>oc_id = cid, oc_redirect_uris = uris, oc_name = name, oc_created_at = created,
              oc_approved_at = None\<rparr>, False)"
          by (auto simp: register_dynamic_client_def Let_def)
        with False ok None fresh ne show thesis by (intro added [OF refl]) auto
      qed
    qed
  qed
qed

lemma approve_cases:
  assumes "approve_client w now cid s = (s', res)"
  obtains (same) "s' = s" "\<And>c. res = Inr c \<Longrightarrow> require_open s"
    | (failed) c where "require_open s" "map_of (oa_clients s) cid = Some c" "oc_approved_at c = None"
        "s' = s\<lparr>oa_file := fst (write_json w (clients_payload (AList.update cid
          (c\<lparr>oc_approved_at := Some (max (oc_created_at c) now)\<rparr>) (oa_clients s))) (oa_file s))\<rparr>" "\<exists>e. res = Inl e"
    | (approved) c where "require_open s" "map_of (oa_clients s) cid = Some c" "oc_approved_at c = None"
        "s' = s\<lparr>oa_clients := AList.update cid (c\<lparr>oc_approved_at := Some (max (oc_created_at c) now)\<rparr>) (oa_clients s),
          oa_file := Doc (clients_payload (AList.update cid (c\<lparr>oc_approved_at := Some (max (oc_created_at c) now)\<rparr>) (oa_clients s)))\<rparr>"
        "\<exists>c'. res = Inr c'"
proof -
  consider "\<not> require_open s" | "map_of (oa_clients s) cid = None"
    | c where "require_open s" "map_of (oa_clients s) cid = Some c" "oc_approved_at c \<noteq> None"
    | c where "require_open s" "map_of (oa_clients s) cid = Some c" "oc_approved_at c = None" by blast
  then show thesis
  proof cases
    case (4 c)
    show thesis
    proof (cases "reports w")
      case True
      with 4 assms reports_lands [OF True] show thesis
        by (intro approved [OF 4]) (auto simp: approve_client_def write_json_def Let_def simp del: map_of_eq_Some_iff)
    next
      case False
      with 4 assms show thesis
        by (intro failed [OF 4]) (auto simp: approve_client_def write_json_def Let_def simp del: map_of_eq_Some_iff)
    qed
  qed (use assms same in \<open>auto simp: approve_client_def simp del: map_of_eq_Some_iff split: if_splits option.splits\<close>)
qed

lemma issue_cases:
  assumes "issue_authorization_response cfg w now created approved draws r s = (s', res)"
  obtains (refused) "s' = s" "\<exists>e. res = Inl e"
    | (pruned) "s' = prune_codes cfg now s" "\<exists>e. res = Inl e"
    | (failed) e where "approve_client w approved (oc_id (ar_client r)) (prune_codes cfg now s) = (s', Inl e)" "res = Inl e"
    | (issued) code redirect c c2 q s2 where
        "require_open s" "pending_code_capacity cfg (prune_codes cfg now s)"
        "map_of (oa_codes (prune_codes cfg now s)) code = None" "ai_redirect_uri (ar_input r) = Some redirect"
        "c = \<lparr>ac_code = code, ac_client_id = oc_id (ar_client r), ac_redirect_uri = redirect,
           ac_scope = ar_scope r, ac_resource = ar_resource r, ac_challenge = ai_challenge (ar_input r),
           ac_method = ai_method (ar_input r), ac_created_at = created, ac_used = False\<rparr>"
        "approve_client w approved (oc_id (ar_client r)) (prune_codes cfg now s) = (s2, Inr c2)"
        "s' = s2\<lparr>oa_codes := AList.update code c (oa_codes s2)\<rparr>" "res = Inr (c, q)"
proof (cases "\<not> require_open s \<or> \<not> pending_code_capacity cfg (prune_codes cfg now s) \<or>
    new_authorization_code draws (prune_codes cfg now s) = None \<or> ai_redirect_uri (ar_input r) = None")
  case True
  show thesis
  proof (cases "require_open s")
    case False
    with assms show thesis by (intro refused) (auto simp: issue_authorization_response_def)
  next
    case open': True
    with True assms show thesis
      by (intro pruned) (auto simp: issue_authorization_response_def Let_def split: if_splits option.splits)
  qed
next
  case False
  then obtain code redirect where c: "new_authorization_code draws (prune_codes cfg now s) = Some code"
    "ai_redirect_uri (ar_input r) = Some redirect" "require_open s" "pending_code_capacity cfg (prune_codes cfg now s)" by auto
  have fresh: "map_of (oa_codes (prune_codes cfg now s)) code = None"
    using bounded.draw_fresh_key c(1) unfolding new_authorization_code_def .
  obtain s2 ar where a: "approve_client w approved (oc_id (ar_client r)) (prune_codes cfg now s) = (s2, ar)" by fastforce
  show thesis
  proof (cases ar)
    case (Inl e)
    with assms c a show thesis by (intro failed [of e]) (auto simp: issue_authorization_response_def Let_def)
  next
    case (Inr c2)
    with assms c a show thesis
      by (intro issued [OF c(3,4) fresh c(2) refl a [unfolded Inr]]) (auto simp: issue_authorization_response_def Let_def)
  qed
qed

lemma exchange_cases:
  assumes "exchange_authorization_code lib cfg now now' i s = (s', res)"
  obtains (refused) "s' = s \<or> s' = prune_codes cfg now s" "\<exists>e. res = Inl e"
    | (granted) c where "map_of (oa_codes (prune_codes cfg now s)) (text_or (ti_code i)) = Some c"
        "\<not> auth_code_expired now' (cf_code_ttl_s cfg) c" "ac_client_id c = text_or (ti_client_id i)"
        "ac_redirect_uri c = text_or (ti_redirect_uri i)"
        "normalize_resource (text_or (ti_resource i)) = normalize_resource (ac_resource c)"
        "verify_pkce lib c (ti_verifier i)"
        "s' = (prune_codes cfg now s)\<lparr>oa_codes := AList.delete (text_or (ti_code i)) (oa_codes (prune_codes cfg now s))\<rparr>"
        "res = Inr \<lparr>tr_client_id = ac_client_id c, tr_scope = ac_scope c, tr_resource = ac_resource c,
           tr_expires_in = (if 0 < cf_token_ttl_s cfg then Some (cf_token_ttl_s cfg) else None)\<rparr>"
proof (cases "\<exists>tok. res = Inr tok")
  case False
  then obtain e where "res = Inl e" by (cases res) auto
  with assms show thesis
    by (intro refused) (auto simp: exchange_authorization_code_def Let_def simp del: map_of_eq_Some_iff split: if_splits option.splits)
next
  case True
  with assms obtain c where c: "map_of (oa_codes (prune_codes cfg now s)) (text_or (ti_code i)) = Some c"
    by (auto simp: exchange_authorization_code_def Let_def simp del: map_of_eq_Some_iff split: if_splits option.splits)
  with True assms show thesis
    by (intro granted [OF c]) (auto simp: exchange_authorization_code_def Let_def simp del: map_of_eq_Some_iff split: if_splits)
qed

section \<open>The invariant\<close>

text \<open>A scope string that may be granted: supported scopes, separated by blanks.\<close>

definition grantable :: "ustr \<Rightarrow> bool" where
  "grantable scope \<longleftrightarrow> (\<exists>ws. scope = join (lit '' '') ws \<and> set ws \<subseteq> set supported_scopes)"

definition code_ok :: "oauth_config \<Rightarrow> ustr \<Rightarrow> auth_code \<Rightarrow> bool" where
  "code_ok cfg k c \<longleftrightarrow> ac_code c = k \<and> \<not> ac_used c \<and> ac_resource c = resource_url cfg \<and> grantable (ac_scope c)"

definition codes_ok :: "oauth_config \<Rightarrow> (ustr, auth_code) dict \<Rightarrow> bool" where
  "codes_ok cfg d \<longleftrightarrow> dict_ok d \<and> (\<forall>k c. map_of d k = Some c \<longrightarrow> code_ok cfg k c) \<and>
     (0 < cf_max_codes cfg \<longrightarrow> int (length d) \<le> cf_max_codes cfg)"

definition oa_inv :: "oauth_config \<Rightarrow> oauth_state \<Rightarrow> bool" where
  "oa_inv cfg s \<longleftrightarrow> clients_ok (oa_clients s) \<and> codes_ok cfg (oa_codes s) \<and>
     (0 < cf_max_clients cfg \<longrightarrow> int (pending_clients s) \<le> cf_max_clients cfg) \<and>
     durable_in (oa_clients s) (oa_file s) \<and> (\<not> oa_started s \<longrightarrow> oa_clients s = [])"

definition oa_init :: "oauth_state \<Rightarrow> bool" where
  "oa_init s \<longleftrightarrow> (\<exists>d f. file_holds d f \<and> s = new_oauth f)"

lemma normalize_scope_grantable:
  assumes "normalize_requested_scope x = Inr scope"
  shows "grantable scope"
proof -
  have "grantable default_scope" unfolding grantable_def default_scope_def by blast
  moreover have "grantable (join (lit '' '') ws)" if "filter (\<lambda>x. x \<notin> set supported_scopes) ws = []" for ws
    using that unfolding grantable_def filter_empty_conv by blast
  ultimately show ?thesis
    using assms by (auto simp: normalize_requested_scope_def Let_def split: option.splits if_splits list.splits)
qed

lemma map_sum_Inr_iff: "map_sum id f x = Inr y \<longleftrightarrow> (\<exists>z. x = Inr z \<and> y = f z)"
  by (cases x) auto

lemma validated_request:
  assumes "validated lib cfg r"
  shows "ar_resource r = resource_url cfg" and "grantable (ar_scope r)"
proof -
  from assms obtain now i s s' where v: "validate_authorization_request lib cfg now i s = (s', Inr r)"
    by (auto simp: validated_def)
  then obtain params redirect c resource where c: "check_request lib params redirect c = Inr (ar_scope r)"
    "normalize_resource resource = resource_url cfg" "ar_resource r = normalize_resource resource"
    by (auto simp: validate_authorization_request_def Let_def map_sum_Inr_iff simp del: map_of_eq_Some_iff
        split: sum.splits option.splits if_split_asm)
  from c show "ar_resource r = resource_url cfg" by simp
  from c(1) obtain x where "normalize_requested_scope x = Inr (ar_scope r)"
    by (auto simp: check_request_def Let_def split: if_splits sum.splits)
  then show "grantable (ar_scope r)" by (rule normalize_scope_grantable)
qed

lemma codes_okD: "codes_ok cfg d \<Longrightarrow> map_of d k = Some c \<Longrightarrow> code_ok cfg k c"
  by (simp add: codes_ok_def)

lemma codes_ok_sub:
  assumes "codes_ok cfg d" and "dict_ok d'" and "length d' \<le> length d"
    and "\<And>k c. map_of d' k = Some c \<Longrightarrow> map_of d k = Some c"
  shows "codes_ok cfg d'"
  using assms unfolding codes_ok_def by fastforce

lemma prune_codes_ok: "codes_ok cfg (oa_codes s) \<Longrightarrow> codes_ok cfg (oa_codes (prune_codes cfg now s))"
proof -
  assume ok: "codes_ok cfg (oa_codes s)"
  then have d: "dict_ok (oa_codes s)" by (simp add: codes_ok_def)
  show ?thesis
    by (rule codes_ok_sub [OF ok]) (use d prune_codes_lookup [OF d] length_sweep_le [OF d] in \<open>simp_all add: prune_codes_def\<close>)
qed

lemma prune_codes_inv: "oa_inv cfg s \<Longrightarrow> oa_inv cfg (prune_codes cfg now s)"
  using prune_codes_ok by (auto simp: oa_inv_def pending_clients_def)

lemma prune_clients_inv:
  assumes "oa_inv cfg s"
  shows "oa_inv cfg (prune_clients cfg now s)"
proof -
  have ok: "clients_ok (oa_clients s)" and d: "dict_ok (oa_clients s)"
    using assms by (simp_all add: oa_inv_def clients_ok_def)
  have "durable_in (oa_clients (prune_clients cfg now s)) (oa_file s)"
    by (rule durable_in_mono [of "oa_clients s"]) (use assms prune_clients_lookup [OF d] in \<open>auto simp: oa_inv_def\<close>)
  moreover have "oa_clients s = [] \<Longrightarrow> oa_clients (prune_clients cfg now s) = []"
    by (simp add: prune_clients_def dict_sweep_def)
  ultimately show ?thesis
    using assms prune_clients_ok [OF ok] prune_clients_pending [OF d, of cfg now] by (auto simp: oa_inv_def)
qed

lemma approve_inv:
  assumes "approve_client w now cid s = (s', res)" and "oa_inv cfg s" and "oa_started s"
  shows "oa_inv cfg s'"
  using assms(1)
proof (cases rule: approve_cases)
  case same
  with assms(2) show ?thesis by simp
next
  case (failed c)
  let ?c = "c\<lparr>oc_approved_at := Some (max (oc_created_at c) now)\<rparr>"
  let ?d = "AList.update cid ?c (oa_clients s)"
  have "client_ok cid ?c" using clients_okD [OF _ failed(2)] assms(2) by (auto simp: oa_inv_def client_ok_def)
  then have "clients_ok ?d" using assms(2) by (simp add: oa_inv_def clients_ok_put)
  then have "durable_in (oa_clients s) (Doc (clients_payload ?d))"
    by (rule durable_in_mono [OF durable_inI]) (use failed(2,3) in \<open>auto simp del: map_of_eq_Some_iff\<close>)
  with failed(4) assms(2) show ?thesis by (simp add: oa_inv_def pending_clients_def write_json_def)
next
  case (approved c)
  let ?c = "c\<lparr>oc_approved_at := Some (max (oc_created_at c) now)\<rparr>"
  let ?d = "AList.update cid ?c (oa_clients s)"
  have "client_ok cid ?c" using clients_okD [OF _ approved(2)] assms(2) by (auto simp: oa_inv_def client_ok_def)
  then have "clients_ok ?d" using assms(2) by (simp add: oa_inv_def clients_ok_put)
  moreover have "pending_clients s' \<le> pending_clients s"
    using filter_update_le [of "\<lambda>c. oc_approved_at c = None" cid ?c "oa_clients s"] approved(4)
    by (simp add: pending_clients_def)
  ultimately show ?thesis using approved(4) assms(2,3) durable_inI by (auto simp: oa_inv_def)
qed

lemma register_inv:
  assumes "register_dynamic_client netloc_ok cfg now created draws name uris s = (s', res)"
    and "oa_inv cfg s" and "oa_started s"
  shows "oa_inv cfg s'"
  using assms(1)
proof (cases rule: register_cases)
  case (added cid c)
  let ?p = "prune_clients cfg now s"
  have inv: "oa_inv cfg ?p" using prune_clients_inv [OF assms(2)] .
  have "client_ok cid c" using added(1,9) uris_allowed_nonempty [OF added(6)] by (simp add: client_ok_def)
  then have "clients_ok (AList.update cid c (oa_clients ?p))" using inv by (simp add: oa_inv_def clients_ok_put)
  moreover have "pending_clients s' \<le> Suc (pending_clients ?p)"
    using filter_update_le [of "\<lambda>c. oc_approved_at c = None" cid c "oa_clients ?p"] added(1,2) by (simp add: pending_clients_def)
  moreover have "durable_in (AList.update cid c (oa_clients ?p)) (oa_file ?p)"
    by (rule durable_in_mono [of "oa_clients ?p"]) (use inv added(1) in \<open>auto simp: oa_inv_def simp del: map_of_eq_Some_iff split: if_splits\<close>)
  ultimately show ?thesis using inv added(2,10) assms(3) by (auto simp: oa_inv_def)
qed (use assms(2) prune_clients_inv in simp_all)

lemma validate_clients:
  "validate_authorization_request lib cfg now i s = (s', res) \<Longrightarrow> s' = s \<or> s' = prune_clients cfg now s"
  by (auto simp: validate_authorization_request_def Let_def simp del: map_of_eq_Some_iff
      split: if_splits sum.splits option.splits)

lemma approve_frame:
  "approve_client w now cid s = (s', res) \<Longrightarrow>
   oa_codes s' = oa_codes s \<and> oa_started s' = oa_started s \<and> oa_closed s' = oa_closed s \<and> oa_accepting s' = oa_accepting s"
  by (erule approve_cases) auto

lemma issue_inv:
  assumes "issue_authorization_response cfg w now created approved draws r s = (s', res)"
    and "oa_inv cfg s" and "oa_started s" and "validated lib cfg r"
  shows "oa_inv cfg s'"
  using assms(1)
proof (cases rule: issue_cases)
  case (failed e)
  show ?thesis by (rule approve_inv [OF failed(1) prune_codes_inv [OF assms(2)]]) (simp add: assms(3))
next
  case (issued code redirect c c2 q s2)
  have inv2: "oa_inv cfg s2" by (rule approve_inv [OF issued(6) prune_codes_inv [OF assms(2)]]) (simp add: assms(3))
  have codes: "oa_codes s2 = oa_codes (prune_codes cfg now s)" using approve_frame [OF issued(6)] by simp
  have "code_ok cfg code c" using validated_request [OF assms(4)] issued(5) by (simp add: code_ok_def)
  moreover have "length (AList.update code c (oa_codes s2)) = Suc (length (oa_codes s2))"
    unfolding codes by (rule length_put_fresh [OF issued(3)])
  ultimately have "codes_ok cfg (AList.update code c (oa_codes s2))"
    using inv2 issued(2) codes
    by (auto simp: oa_inv_def codes_ok_def pending_code_capacity_def simp del: map_of_eq_Some_iff)
  then show ?thesis using inv2 issued(7) by (simp add: oa_inv_def pending_clients_def)
qed (use assms(2) prune_codes_inv in simp_all)

lemma exchange_inv:
  assumes "exchange_authorization_code lib cfg now now' i s = (s', res)" and "oa_inv cfg s"
  shows "oa_inv cfg s'"
  using assms(1)
proof (cases rule: exchange_cases)
  case (granted c)
  let ?p = "prune_codes cfg now s"
  have inv: "oa_inv cfg ?p" using prune_codes_inv [OF assms(2)] .
  then have ok: "codes_ok cfg (oa_codes ?p)" by (simp add: oa_inv_def)
  have "codes_ok cfg (AList.delete (text_or (ti_code i)) (oa_codes ?p))"
    by (rule codes_ok_sub [OF ok]) (use ok length_pop_le in \<open>auto simp: codes_ok_def simp del: map_of_eq_Some_iff split: if_splits\<close>)
  with granted(7) inv show ?thesis by (simp add: oa_inv_def pending_clients_def)
qed (use assms(2) prune_codes_inv in auto)

lemma start_inv:
  assumes "oauth_start fsize s = (s', res)" and "oa_inv cfg s"
  shows "oa_inv cfg s'"
proof (cases "oa_closed s \<or> oa_started s")
  case True
  with assms show ?thesis by (auto simp: oauth_start_def split: if_splits)
next
  case False
  with assms(2) have e: "oa_clients s = []" by (simp add: oa_inv_def)
  from assms(2) have "durable_in (oa_clients s) (oa_file s)" by (simp add: oa_inv_def)
  then obtain t n where t: "load_persisted_clients fsize (oa_file s) [] = Inr (t, n)"
    "\<And>k c. map_of t k = Some c \<Longrightarrow> oc_approved_at c \<noteq> None" "clients_ok t" "durable_in t (oa_file s)"
    by (rule durable_in_load [where fsize = fsize]) blast
  have "filter (\<lambda>c. oc_approved_at c = None) (dict_values t) = []"
  proof -
    have "oc_approved_at c \<noteq> None" if "c \<in> set (dict_values t)" for c
    proof -
      from that obtain k where "(k, c) \<in> set t" by auto
      moreover have "dict_ok t" using t(3) unfolding clients_ok_def by (rule conjunct1)
      ultimately have "map_of t k = Some c" using dict_mem_iff by fast
      then show ?thesis by (rule t(2))
    qed
    then show ?thesis by (auto simp: filter_empty_conv)
  qed
  moreover have "s' = s\<lparr>oa_clients := t, oa_accepting := True, oa_started := True\<rparr>"
    using assms(1) False t(1) by (simp add: oauth_start_def e)
  ultimately show ?thesis using assms(2) t(3,4) by (simp add: oa_inv_def pending_clients_def)
qed

lemma durable_empty: "durable_in d f \<Longrightarrow> durable_in [] f"
  by (rule durable_in_mono) auto

lemma oa_inv_step: "oa_inv cfg s \<Longrightarrow> oa_any fsize netloc_ok lib cfg s s' \<Longrightarrow> oa_inv cfg s'"
  unfolding oa_any_def
proof (elim exE)
  fix l assume inv: "oa_inv cfg s" and step: "oa_step fsize netloc_ok lib cfg l s s'"
  from step show "oa_inv cfg s'"
  proof cases
    case (oa_start nres)
    with inv start_inv show ?thesis by blast
  next
    case (oa_register now created draws name uris cres)
    with inv register_inv show ?thesis by blast
  next
    case (oa_validate now i rres)
    with inv validate_clients prune_clients_inv show ?thesis by metis
  next
    case (oa_issue r w now created approved draws ires)
    with inv issue_inv show ?thesis by blast
  next
    case (oa_exchange now now' ti tres)
    with inv exchange_inv show ?thesis by blast
  next
    case oa_stop
    with inv show ?thesis by (simp add: stop_admission_def oa_inv_def pending_clients_def)
  next
    case oa_close
    with inv durable_empty show ?thesis
      by (auto simp: oauth_close_def stop_admission_def oa_inv_def pending_clients_def clients_ok_def codes_ok_def)
  qed
qed

lemma oa_inv_init: "oa_init s \<Longrightarrow> oa_inv cfg s"
  by (auto simp: oa_init_def new_oauth_def oa_inv_def clients_ok_def codes_ok_def pending_clients_def durable_in_def)

interpretation oauth_machine: invariant_machine oa_init "oa_any fsize netloc_ok lib cfg" "oa_inv cfg"
  for fsize netloc_ok lib cfg
  by unfold_locales (auto intro: oa_inv_init oa_inv_step)

section \<open>Bounds\<close>

text \<open>
  The tables of the OAuth server are bounded. However many registrations, authorization requests
  and failures there are, the live codes and the clients that wait for a first approval never exceed
  their configured limits, where a limit is set.
\<close>

theorem oauth_tables_bounded:
  assumes "reach oa_init (oa_any fsize netloc_ok lib cfg) s"
  shows "(0 < cf_max_codes cfg \<longrightarrow> int (length (oa_codes s)) \<le> cf_max_codes cfg) \<and>
    (0 < cf_max_clients cfg \<longrightarrow> int (pending_clients s) \<le> cf_max_clients cfg)"
  using oauth_machine.reach_inv [OF assms] by (simp add: oa_inv_def codes_ok_def)

section \<open>Codes are bound and used once\<close>

lemma code_stays_gone:
  assumes "oa_step fsize netloc_ok lib cfg l s s'" and "l \<noteq> Some k" and "oa_inv cfg s"
    and "map_of (oa_codes s) k = None"
  shows "map_of (oa_codes s') k = None"
proof -
  have d: "dict_ok (oa_codes s)" using assms(3) by (simp add: oa_inv_def codes_ok_def)
  have gone: "map_of (oa_codes (prune_codes cfg now s)) k = None" for now
  proof (cases "map_of (oa_codes (prune_codes cfg now s)) k")
    case (Some c)
    then show ?thesis unfolding prune_codes_lookup [OF d] using assms(4) by simp
  qed simp
  from assms(1) show ?thesis
  proof cases
    case (oa_start nres)
    then have "oa_codes s' = oa_codes s" by (auto simp: oauth_start_def split: if_splits sum.splits)
    with assms(4) show ?thesis by simp
  next
    case (oa_register now created draws name uris cres)
    have "oa_codes s' = oa_codes s" using oa_register(3) by (cases rule: register_cases) simp_all
    with assms(4) show ?thesis by simp
  next
    case (oa_validate now i rres)
    with validate_clients have "oa_codes s' = oa_codes s" by (metis prune_clients_frame(1))
    with assms(4) show ?thesis by simp
  next
    case (oa_issue r w now created approved draws ires)
    show ?thesis using oa_issue(4)
    proof (cases rule: issue_cases)
      case (failed e)
      with gone approve_frame [OF failed(1)] show ?thesis by simp
    next
      case (issued code redirect c c2 q s2)
      have "code \<noteq> k" using oa_issue(1) issued(5,8) assms(2) by simp
      with gone approve_frame [OF issued(6)] issued(7) show ?thesis by simp
    qed (use assms(4) gone in simp_all)
  next
    case (oa_exchange now now' ti tres)
    show ?thesis using oa_exchange(3)
    proof (cases rule: exchange_cases)
      case (granted c)
      with gone show ?thesis by simp
    qed (use assms(4) gone in auto)
  next
    case oa_stop
    with assms(4) show ?thesis by (simp add: stop_admission_def)
  next
    case oa_close
    with assms(4) show ?thesis by (simp add: oauth_close_def stop_admission_def)
  qed
qed

lemma code_stays_gone_runs:
  assumes "(oa_other fsize netloc_ok lib cfg k)\<^sup>*\<^sup>* s s'" and "oa_inv cfg s" and "map_of (oa_codes s) k = None"
  shows "oa_inv cfg s' \<and> map_of (oa_codes s') k = None"
  using assms
proof (induction rule: rtranclp_induct)
  case (step y z)
  from step(2) obtain l where "oa_step fsize netloc_ok lib cfg l y z" "l \<noteq> Some k" by (auto simp: oa_other_def)
  with step code_stays_gone oa_inv_step show ?case by (metis oa_any_def)
qed simp

text \<open>
  C18. A code is bound to its request and works once. In every reachable state, an exchange that
  succeeds presents a live code that is not expired, by the client and with the redirect URI it was
  issued for, for this server's resource, with a verifier that matches its S256 challenge; the token
  is for that client, this resource and supported scopes. After it, whatever else happens, no
  exchange of the same code succeeds until the server issues that code anew.
\<close>

theorem code_bound_and_used_once:
  assumes "reach oa_init (oa_any fsize netloc_ok lib cfg) s"
    and "exchange_authorization_code lib cfg now now' i s = (s', Inr tok)"
  shows "(\<exists>c. map_of (oa_codes s) (text_or (ti_code i)) = Some c \<and> now' - ac_created_at c \<le> cf_code_ttl_s cfg \<and>
      text_or (ti_client_id i) = ac_client_id c \<and> text_or (ti_redirect_uri i) = ac_redirect_uri c \<and>
      normalize_resource (text_or (ti_resource i)) = normalize_resource (resource_url cfg) \<and>
      ac_method c = Some (lit ''S256'') \<and> s256_matches lib (text_or (ti_verifier i)) (text_or (ac_challenge c)) \<and>
      tr_client_id tok = ac_client_id c \<and> tr_resource tok = resource_url cfg \<and> tr_scope tok = ac_scope c) \<and>
    grantable (tr_scope tok) \<and>
    (\<forall>s2 now2 now2' i2 s3 tok2. (oa_other fsize netloc_ok lib cfg (text_or (ti_code i)))\<^sup>*\<^sup>* s' s2 \<longrightarrow>
       text_or (ti_code i2) = text_or (ti_code i) \<longrightarrow>
       exchange_authorization_code lib cfg now2 now2' i2 s2 \<noteq> (s3, Inr tok2))"
proof -
  have inv: "oa_inv cfg s" using oauth_machine.reach_inv [OF assms(1)] .
  then have d: "dict_ok (oa_codes s)" by (simp add: oa_inv_def codes_ok_def)
  from assms(2) obtain c where c: "map_of (oa_codes (prune_codes cfg now s)) (text_or (ti_code i)) = Some c"
    "\<not> auth_code_expired now' (cf_code_ttl_s cfg) c" "ac_client_id c = text_or (ti_client_id i)"
    "ac_redirect_uri c = text_or (ti_redirect_uri i)"
    "normalize_resource (text_or (ti_resource i)) = normalize_resource (ac_resource c)" "verify_pkce lib c (ti_verifier i)"
    "s' = (prune_codes cfg now s)\<lparr>oa_codes := AList.delete (text_or (ti_code i)) (oa_codes (prune_codes cfg now s))\<rparr>"
    "tok = \<lparr>tr_client_id = ac_client_id c, tr_scope = ac_scope c, tr_resource = ac_resource c,
       tr_expires_in = (if 0 < cf_token_ttl_s cfg then Some (cf_token_ttl_s cfg) else None)\<rparr>"
    by (cases rule: exchange_cases) auto
  have c0: "map_of (oa_codes s) (text_or (ti_code i)) = Some c" using c(1) unfolding prune_codes_lookup [OF d] by simp
  have ok: "code_ok cfg (text_or (ti_code i)) c" using inv c0 codes_okD unfolding oa_inv_def by blast
  have inv': "oa_inv cfg s'" using exchange_inv [OF assms(2) inv] .
  have gone: "map_of (oa_codes s') (text_or (ti_code i)) = None" using c(7) by simp
  have once: "exchange_authorization_code lib cfg now2 now2' i2 s2 \<noteq> (s3, Inr tok2)"
    if run: "(oa_other fsize netloc_ok lib cfg (text_or (ti_code i)))\<^sup>*\<^sup>* s' s2" and same: "text_or (ti_code i2) = text_or (ti_code i)"
    for s2 now2 now2' i2 s3 tok2
  proof
    from code_stays_gone_runs [OF run inv' gone] have s2: "oa_inv cfg s2" "map_of (oa_codes s2) (text_or (ti_code i)) = None" by simp_all
    assume "exchange_authorization_code lib cfg now2 now2' i2 s2 = (s3, Inr tok2)"
    then obtain c2 where "map_of (oa_codes (prune_codes cfg now2 s2)) (text_or (ti_code i2)) = Some c2"
      by (cases rule: exchange_cases) auto
    with s2 same prune_codes_lookup [of s2] show False by (auto simp: oa_inv_def codes_ok_def simp del: map_of_eq_Some_iff)
  qed
  show ?thesis
    using c0 c ok once by (auto simp: code_ok_def auth_code_expired_def verify_pkce_def simp del: map_of_eq_Some_iff)
qed

section \<open>Approved clients are durable\<close>

definition keeps :: "(ustr, oauth_client) dict \<Rightarrow> oauth_state \<Rightarrow> bool" where
  "keeps d s \<longleftrightarrow> (\<forall>k c. map_of d k = Some c \<longrightarrow> oc_approved_at c \<noteq> None \<longrightarrow> map_of (oa_clients s) k = Some c)"

lemma keeps_prune: "dict_ok (oa_clients s) \<Longrightarrow> keeps d s \<Longrightarrow> keeps d (prune_clients cfg now s)"
  unfolding keeps_def prune_clients_lookup by (auto simp: client_expired_def simp del: map_of_eq_Some_iff)

lemma keeps_approve: "approve_client w now cid s = (s', res) \<Longrightarrow> keeps d s \<Longrightarrow> keeps d s'"
proof (erule approve_cases)
  fix c
  assume k: "keeps d s" and c: "map_of (oa_clients s) cid = Some c" "oc_approved_at c = None"
    and s': "s' = s\<lparr>oa_clients := AList.update cid (c\<lparr>oc_approved_at := Some (max (oc_created_at c) now)\<rparr>) (oa_clients s),
      oa_file := Doc (clients_payload (AList.update cid (c\<lparr>oc_approved_at := Some (max (oc_created_at c) now)\<rparr>) (oa_clients s)))\<rparr>"
  show "keeps d s'"
    unfolding keeps_def
  proof (intro allI impI)
    fix k' c' assume "map_of d k' = Some c'" "oc_approved_at c' \<noteq> None"
    with k have "map_of (oa_clients s) k' = Some c'" unfolding keeps_def by blast
    moreover from this c \<open>oc_approved_at c' \<noteq> None\<close> have "k' \<noteq> cid" by auto
    ultimately show "map_of (oa_clients s') k' = Some c'" using s' by simp
  qed
qed (auto simp: keeps_def)

lemma closed_step:
  "oa_step fsize netloc_ok lib cfg l s s' \<Longrightarrow> oa_closed s \<Longrightarrow> oa_file s' = oa_file s \<and> oa_closed s'"
  by (erule oa_step.cases)
    (auto simp: oauth_start_def register_dynamic_client_def validate_authorization_request_def require_open_def
      issue_authorization_response_def exchange_authorization_code_def stop_admission_def oauth_close_def)

lemma keeps_step:
  assumes "oa_step fsize netloc_ok lib cfg l s s'" and "oa_inv cfg s" and "oa_started s" and "keeps d s"
  shows "oa_closed s' \<and> oa_file s' = oa_file s \<or> keeps d s' \<and> oa_started s'"
proof -
  have dk: "dict_ok (oa_clients s)" using assms(2) by (simp add: oa_inv_def clients_ok_def)
  note pruned = keeps_prune [OF dk assms(4)]
  from assms(1) show ?thesis
  proof cases
    case (oa_start nres)
    with assms(3,4) show ?thesis by (auto simp: oauth_start_def split: if_splits)
  next
    case (oa_register now created draws name uris cres)
    show ?thesis using oa_register(3)
    proof (cases rule: register_cases)
      case (added cid c)
      then show ?thesis using pruned [of cfg now] assms(3) unfolding keeps_def
        by (auto simp del: map_of_eq_Some_iff)
    qed (use assms(3,4) pruned in simp_all)
  next
    case (oa_validate now i rres)
    with validate_clients [OF oa_validate(3)] assms(3,4) pruned show ?thesis by auto
  next
    case (oa_issue r w now created approved draws ires)
    have k: "keeps d (prune_codes cfg now s)" using assms(4) by (simp add: keeps_def)
    show ?thesis using oa_issue(4)
    proof (cases rule: issue_cases)
      case (failed e)
      with keeps_approve [OF failed(1) k] approve_frame [OF failed(1)] assms(3) show ?thesis by simp
    next
      case (issued code redirect c c2 q s2)
      with keeps_approve [OF issued(6) k] approve_frame [OF issued(6)] assms(3) show ?thesis by (simp add: keeps_def)
    qed (use k assms(3,4) in simp_all)
  next
    case (oa_exchange now now' ti tres)
    have "oa_clients s' = oa_clients s \<and> oa_started s' = oa_started s"
      using oa_exchange(3) by (cases rule: exchange_cases) auto
    with assms(3,4) show ?thesis by (simp add: keeps_def)
  next
    case oa_stop
    with assms(3,4) show ?thesis by (simp add: stop_admission_def keeps_def)
  next
    case oa_close
    with assms(3,4) show ?thesis by (auto simp: oauth_close_def stop_admission_def)
  qed
qed

lemma keeps_runs:
  assumes "(oa_any fsize netloc_ok lib cfg)\<^sup>*\<^sup>* s s'" and "oa_inv cfg s" and "oa_started s"
  shows "oa_inv cfg s' \<and> durable_in (oa_clients s) (oa_file s') \<and>
    (oa_closed s' \<or> keeps (oa_clients s) s' \<and> oa_started s')"
  using assms
proof (induction rule: rtranclp_induct)
  case base
  then show ?case by (simp add: keeps_def oa_inv_def)
next
  case (step y z)
  from step(2) obtain l where l: "oa_step fsize netloc_ok lib cfg l y z" by (auto simp: oa_any_def)
  have inv: "oa_inv cfg z" using oa_inv_step step by blast
  from step have y: "oa_inv cfg y" "durable_in (oa_clients s) (oa_file y)"
    "oa_closed y \<or> keeps (oa_clients s) y \<and> oa_started y" by simp_all
  show ?case
  proof (cases "oa_closed y")
    case True
    with closed_step [OF l] y inv show ?thesis by simp
  next
    case False
    with keeps_step [OF l y(1)] y have k: "oa_closed z \<and> oa_file z = oa_file y \<or> keeps (oa_clients s) z \<and> oa_started z" by blast
    have "durable_in (oa_clients s) (oa_file z)" if "keeps (oa_clients s) z"
      by (rule durable_in_mono [of "oa_clients z"]) (use inv that in \<open>auto simp: oa_inv_def keeps_def\<close>)
    with k y inv show ?thesis by auto
  qed
qed

text \<open>
  Approved clients survive. A client that the local user has approved is there again, unchanged,
  after any further run of the service, clean or not, when a new process loads the registry file
  that this run leaves behind; and everything loaded was approved.
\<close>

theorem approved_clients_survive:
  assumes "reach oa_init (oa_any fsize netloc_ok lib cfg) s" and "oa_started s"
    and "(oa_any fsize netloc_ok lib cfg)\<^sup>*\<^sup>* s s2"
  shows "\<exists>s3 n. oauth_start fsize (new_oauth (oa_file s2)) = (s3, Inr n) \<and>
    (\<forall>k c. map_of (oa_clients s) k = Some c \<and> oc_approved_at c \<noteq> None \<longrightarrow> map_of (oa_clients s3) k = Some c) \<and>
    (\<forall>k c. map_of (oa_clients s3) k = Some c \<longrightarrow> oc_approved_at c \<noteq> None)"
proof -
  have "oa_inv cfg s" using oauth_machine.reach_inv [OF assms(1)] .
  from keeps_runs [OF assms(3) this assms(2)] have "durable_in (oa_clients s) (oa_file s2)" by simp
  then obtain t n where t: "load_persisted_clients fsize (oa_file s2) [] = Inr (t, n)"
    "\<And>k c. map_of (oa_clients s) k = Some c \<Longrightarrow> oc_approved_at c \<noteq> None \<Longrightarrow> map_of t k = Some c"
    "\<And>k c. map_of t k = Some c \<Longrightarrow> oc_approved_at c \<noteq> None"
    by (rule durable_in_load [where fsize = fsize]) blast
  have "oauth_start fsize (new_oauth (oa_file s2)) =
      ((new_oauth (oa_file s2))\<lparr>oa_clients := t, oa_accepting := True, oa_started := True\<rparr>, Inr n)"
    using t(1) by (simp add: oauth_start_def new_oauth_def)
  with t(2,3) show ?thesis by (auto simp del: map_of_eq_Some_iff)
qed

section \<open>Registration\<close>

lemma min_client_least:
  "min_client b cs \<in> set (b # cs) \<and> (\<forall>c\<in>set (b # cs). client_rank (min_client b cs) \<le> client_rank c)"
proof (induction cs arbitrary: b)
  case (Cons c cs)
  let ?b = "if client_rank c < client_rank b then c else b"
  have "client_rank ?b \<le> client_rank b" "client_rank ?b \<le> client_rank c" by auto
  with Cons [of ?b] show ?case by (auto intro: order_trans split: if_splits)
qed simp

lemma dict_values_iff: "dict_ok d \<Longrightarrow> c \<in> set (dict_values d) \<longleftrightarrow> (\<exists>k. map_of d k = Some c)"
  using dict_mem_iff [of d] by force

abbreviation same_registration :: "ustr option \<Rightarrow> ustr list \<Rightarrow> oauth_client \<Rightarrow> bool" where
  "same_registration name uris c \<equiv> registration_key (oc_name c) (oc_redirect_uris c) = registration_key name uris"

lemma matching_None:
  "matching_registered_client name uris s = None \<longleftrightarrow> (\<forall>c\<in>set (dict_values (oa_clients s)). \<not> same_registration name uris c)"
proof -
  have "matching_registered_client name uris s = None \<longleftrightarrow>
      filter (same_registration name uris) (dict_values (oa_clients s)) = []"
    by (simp add: matching_registered_client_def split: list.split)
  then show ?thesis unfolding filter_empty_conv .
qed

lemma matching_Some:
  assumes "clients_ok (oa_clients s)"
  shows "matching_registered_client name uris s = Some c \<longleftrightarrow>
    c \<in> set (dict_values (oa_clients s)) \<and> same_registration name uris c \<and>
    (\<forall>c'\<in>set (dict_values (oa_clients s)). same_registration name uris c' \<longrightarrow> client_rank c \<le> client_rank c')"
    (is "?l \<longleftrightarrow> ?r")
proof -
  let ?ms = "filter (same_registration name uris) (dict_values (oa_clients s))"
  have least: "m \<in> set ?ms \<and> (\<forall>c'\<in>set ?ms. client_rank m \<le> client_rank c')"
    if "matching_registered_client name uris s = Some m" for m
  proof (cases ?ms)
    case Nil
    with that show ?thesis by (simp add: matching_registered_client_def)
  next
    case (Cons a l)
    then have "m = min_client a l" using that by (simp add: matching_registered_client_def)
    then show ?thesis unfolding Cons using min_client_least [of a l] by blast
  qed
  show ?thesis
  proof
    assume ?l
    from least [OF this] show ?r by auto
  next
    assume r: ?r
    then obtain m where m: "matching_registered_client name uris s = Some m"
      using matching_None [of name uris s] by (cases "matching_registered_client name uris s") auto
    from least [OF m] r have "client_rank m = client_rank c" "m \<in> set (dict_values (oa_clients s))" by force+
    then have "oc_id m = oc_id c" by (simp add: client_rank_def)
    moreover have "map_of (oa_clients s) (oc_id x) = Some x" if "x \<in> set (dict_values (oa_clients s))" for x
      using that assms dict_values_iff [of "oa_clients s"] clients_okD [OF assms]
      unfolding clients_ok_def client_ok_def by blast
    ultimately have "m = c" using r \<open>m \<in> _\<close> by (metis option.inject)
    with m show ?l by simp
  qed
qed

lemma uris_allowed_iff:
  "uris_allowed netloc_ok us = Inr True \<longleftrightarrow> (\<forall>u\<in>set us. is_allowed_redirect_uri netloc_ok u = Some True)"
  by (induction us) (auto split: option.splits bool.splits)

lemma registration_key_cong: "set uris' = set uris \<Longrightarrow> registration_key name uris' = registration_key name uris"
  by (simp add: registration_key_def sorted_list_of_set_sort_remdups [symmetric])

text \<open>
  Registration is idempotent. Registering again with the same name and the same set of redirect
  URIs, in any order and with any repetitions, returns the same client and creates none, as long as
  the registration has not expired in between.
\<close>

theorem registration_idempotent:
  assumes "reach oa_init (oa_any fsize netloc_ok lib cfg) s"
    and "register_dynamic_client netloc_ok cfg now created draws name uris s = (s1, Inr (c, reused))"
    and "set uris' = set uris" and "\<not> client_expired now' (cf_client_ttl_s cfg) c"
  shows "\<exists>s2. register_dynamic_client netloc_ok cfg now' created' draws' name uris' s1 = (s2, Inr (c, True)) \<and>
    set (dict_keys (oa_clients s2)) \<subseteq> set (dict_keys (oa_clients s1))"
proof -
  have inv: "oa_inv cfg s" using oauth_machine.reach_inv [OF assms(1)] .
  let ?p = "prune_clients cfg now s" and ?q = "prune_clients cfg now' s1"
  have okp: "clients_ok (oa_clients ?p)" using inv prune_clients_ok by (simp add: oa_inv_def)
  have first: "clients_ok (oa_clients s1) \<and> require_open s1 \<and> uris \<noteq> [] \<and> uris_allowed netloc_ok uris = Inr True \<and>
      c \<in> set (dict_values (oa_clients s1)) \<and> same_registration name uris c \<and>
      (\<forall>c'\<in>set (dict_values (oa_clients s1)). same_registration name uris c' \<longrightarrow> client_rank c \<le> client_rank c')"
    using assms(2)
  proof (cases rule: register_cases)
    case (reused c2)
    with okp matching_Some [OF okp] show ?thesis by (simp add: require_open_def)
  next
    case (added cid c2)
    have c: "c = c2" using added(3) by simp
    have "client_ok cid c" using added(1,9) c uris_allowed_nonempty [OF added(6)] by (simp add: client_ok_def)
    then have ok1: "clients_ok (oa_clients s1)" using added(2) c okp by (simp add: clients_ok_put)
    have vals: "dict_values (oa_clients s1) = dict_values (oa_clients ?p) @ [c]"
      using added(2) c put_fresh [OF added(8)] by simp
    have "same_registration name uris c" using added(1) c by simp
    then show ?thesis
      using ok1 vals added(2,4,5,6) matching_None [of name uris ?p] added(7) by (auto simp: require_open_def)
  qed auto
  have open1: "require_open s1" and some: "uris \<noteq> []" and allowed: "uris_allowed netloc_ok uris = Inr True"
    using first by blast+
  have ok1: "clients_ok (oa_clients s1)" using first by (rule conjunct1)
  have d1: "dict_ok (oa_clients s1)" using ok1 by (simp add: clients_ok_def)
  have okq: "clients_ok (oa_clients ?q)" using ok1 prune_clients_ok by blast
  have dq: "dict_ok (oa_clients ?q)" using okq by (simp add: clients_ok_def)
  have sub: "x \<in> set (dict_values (oa_clients ?q)) \<longleftrightarrow>
      x \<in> set (dict_values (oa_clients s1)) \<and> \<not> client_expired now' (cf_client_ttl_s cfg) x" for x
    unfolding dict_values_iff [OF dq] dict_values_iff [OF d1] prune_clients_lookup [OF d1] by blast
  have "matching_registered_client name uris' ?q = Some c"
    unfolding matching_Some [OF okq] registration_key_cong [OF assms(3)]
  proof (intro conjI ballI impI)
    show "c \<in> set (dict_values (oa_clients ?q))" unfolding sub using first assms(4) by blast
    show "same_registration name uris c" using first by blast
    fix c' assume "c' \<in> set (dict_values (oa_clients ?q))" "same_registration name uris c'"
    then show "client_rank c \<le> client_rank c'" unfolding sub using first by blast
  qed
  moreover have "uris' \<noteq> []" using some assms(3) by auto
  moreover have "uris_allowed netloc_ok uris' = Inr True"
    using allowed assms(3) unfolding uris_allowed_iff by blast
  ultimately have "register_dynamic_client netloc_ok cfg now' created' draws' name uris' s1 = (?q, Inr (c, True))"
    using open1 by (simp add: register_dynamic_client_def Let_def)
  moreover have "set (dict_keys (oa_clients ?q)) \<subseteq> set (dict_keys (oa_clients s1))"
  proof
    fix k assume "k \<in> set (dict_keys (oa_clients ?q))"
    then obtain x where "map_of (oa_clients ?q) k = Some x" unfolding dict_keys_iff by blast
    then have "map_of (oa_clients s1) k = Some x" unfolding prune_clients_lookup [OF d1] by (rule conjunct1)
    then show "k \<in> set (dict_keys (oa_clients s1))" unfolding dict_keys_iff by simp
  qed
  ultimately show ?thesis by blast
qed

section \<open>Concrete runs\<close>

definition demo_oauth :: oauth_config where
  "demo_oauth = \<lparr>cf_issuer = None, cf_resource = None, cf_base_url = lit ''https://h'', cf_token_ttl_s = 3600,
     cf_code_ttl_s = 300, cf_max_codes = 10, cf_client_ttl_s = 600, cf_max_clients = 5\<rparr>"

definition demo_lib :: pkce where
  "demo_lib = \<lparr>challenge_pattern = (\<lambda>c. length c = 3), verifier_pattern = (\<lambda>v. length v = 3), s256_matches = (\<lambda>v c. v = rev c)\<rparr>"

definition demo_netloc :: "ustr \<Rightarrow> bool" where
  "demo_netloc n = True"

definition demo_bytes :: "json \<Rightarrow> nat" where
  "demo_bytes j = 0"

definition demo_uri :: ustr where
  "demo_uri = lit ''https://c/cb''"

definition demo_cid :: ustr where
  "demo_cid = lit ''workgate-a''"

definition demo_client :: oauth_client where
  "demo_client = \<lparr>oc_id = demo_cid, oc_redirect_uris = [demo_uri], oc_name = None, oc_created_at = 100, oc_approved_at = None\<rparr>"

definition demo_input :: auth_input where
  "demo_input = \<lparr>ai_response_type = Some (lit ''code''), ai_client_id = Some demo_cid, ai_redirect_uri = Some demo_uri,
     ai_resource = Some (lit ''https://h/mcp''), ai_scope = Some (lit ''shell:read''), ai_state = None,
     ai_challenge = Some (lit ''abc''), ai_method = Some (lit ''S256''), ai_extra = []\<rparr>"

definition demo_auth :: auth_request where
  "demo_auth = \<lparr>ar_client = demo_client, ar_client_name = lit ''Unknown client'', ar_input = demo_input,
     ar_scope = lit ''shell:read'', ar_resource = lit ''https://h/mcp''\<rparr>"

definition demo_code :: auth_code where
  "demo_code = \<lparr>ac_code = lit ''k1'', ac_client_id = demo_cid, ac_redirect_uri = demo_uri, ac_scope = lit ''shell:read'',
     ac_resource = lit ''https://h/mcp'', ac_challenge = Some (lit ''abc''), ac_method = Some (lit ''S256''),
     ac_created_at = 120, ac_used = False\<rparr>"

definition demo_token :: token_input where
  "demo_token = \<lparr>ti_grant_type = Some (lit ''authorization_code''), ti_code = Some (lit ''k1''), ti_client_id = Some demo_cid,
     ti_redirect_uri = Some demo_uri, ti_resource = Some (lit ''https://h/mcp/''), ti_verifier = Some (lit ''cba'')\<rparr>"

definition demo_running :: oauth_state where
  "demo_running = (new_oauth Absent)\<lparr>oa_started := True\<rparr>"

definition demo_registered :: oauth_state where
  "demo_registered = demo_running\<lparr>oa_clients := [(demo_cid, demo_client)]\<rparr>"

definition demo_approved_client :: oauth_client where
  "demo_approved_client = demo_client\<lparr>oc_approved_at := Some 120\<rparr>"

definition demo_issued :: oauth_state where
  "demo_issued = demo_registered\<lparr>oa_clients := [(demo_cid, demo_approved_client)],
     oa_file := Doc (clients_payload [(demo_cid, demo_approved_client)]), oa_codes := [(lit ''k1'', demo_code)]\<rparr>"

lemma demo_flags [simp]:
  "require_open demo_running" "require_open demo_registered" "require_open demo_issued"
  "oa_started demo_running" "oa_started demo_registered" "oa_started demo_issued"
  "oa_codes demo_running = []" "oa_codes demo_registered = []" "oa_codes demo_issued = [(lit ''k1'', demo_code)]"
  "oa_clients demo_running = []" "oa_clients demo_registered = [(demo_cid, demo_client)]"
  "oa_clients demo_issued = [(demo_cid, demo_approved_client)]"
  by (simp_all add: demo_running_def demo_registered_def demo_issued_def new_oauth_def require_open_def)

lemma demo_start: "oauth_start demo_bytes (new_oauth Absent) = (demo_running, Inr 0)"
  by (simp add: oauth_start_def new_oauth_def load_persisted_clients_def demo_running_def)

lemma demo_oauth_prune [simp]:
  "now \<le> 700 \<Longrightarrow> prune_clients demo_oauth now demo_registered = demo_registered"
  "prune_clients demo_oauth now demo_running = demo_running"
  "prune_codes demo_oauth now demo_registered = demo_registered"
  "now \<le> 420 \<Longrightarrow> prune_codes demo_oauth now demo_issued = demo_issued"
  by (simp_all add: prune_clients_def prune_codes_def dict_sweep_def client_expired_def auth_code_expired_def
      demo_client_def demo_code_def demo_oauth_def demo_running_def demo_registered_def demo_issued_def new_oauth_def)

lemma demo_allowed: "is_allowed_redirect_uri demo_netloc demo_uri = Some True"
  by (simp add: is_allowed_redirect_uri_def urlparse_def split_scheme_def demo_uri_def demo_netloc_def starts_with_def
      is_lower_def is_upper_def scheme_char_def ascii_lower_def Let_def)

lemma demo_register:
  "register_dynamic_client demo_netloc demo_oauth 100 100 [lit ''a''] None [demo_uri] demo_running =
     (demo_registered, Inr (demo_client, False))"
  using demo_allowed
  by (simp add: register_dynamic_client_def matching_registered_client_def pending_clients_def new_client_id_def
      draw_bounded_def Let_def) (simp add: demo_oauth_def demo_client_def demo_cid_def demo_registered_def)

lemma demo_param:
  "map_of (oauth_params demo_input) (lit ''response_type'') = Some (lit ''code'')"
  "required_param (oauth_params demo_input) ''client_id'' = Inr demo_cid"
  "required_param (oauth_params demo_input) ''redirect_uri'' = Inr demo_uri"
  "required_param (oauth_params demo_input) ''resource'' = Inr (lit ''https://h/mcp'')"
  "map_of (oauth_params demo_input) (lit ''scope'') = Some (lit ''shell:read'')"
  "map_of (oauth_params demo_input) (lit ''code_challenge'') = Some (lit ''abc'')"
  "map_of (oauth_params demo_input) (lit ''code_challenge_method'') = Some (lit ''S256'')"
  by (simp_all add: oauth_params_def required_param_def demo_input_def given_text_def text_or_def demo_cid_def demo_uri_def)

lemma demo_scope: "normalize_requested_scope (Some (lit ''shell:read'')) = Inr (lit ''shell:read'')"
  by (simp add: normalize_requested_scope_def py_strip_def py_isspace_def dedupe_scopes_def supported_scopes_def Let_def)

lemma demo_resource:
  "normalize_resource (lit ''https://h/mcp'') = lit ''https://h/mcp''"
  "normalize_resource (lit ''https://h/mcp/'') = lit ''https://h/mcp''"
  "resource_url demo_oauth = lit ''https://h/mcp''"
  by (simp_all add: normalize_resource_def rstrip_slash_def resource_url_def demo_oauth_def)

lemma demo_check: "check_request demo_lib (oauth_params demo_input) demo_uri demo_client = Inr (lit ''shell:read'')"
proof -
  have "demo_uri \<in> set (oc_redirect_uris demo_client)" by (simp add: demo_client_def)
  then show ?thesis
    unfolding check_request_def demo_param demo_scope
    by (simp add: given_text_def text_or_def demo_lib_def)
qed

lemma demo_validate:
  "validate_authorization_request demo_lib demo_oauth 110 demo_input demo_registered = (demo_registered, Inr demo_auth)"
  unfolding validate_authorization_request_def Let_def demo_param
  using demo_check by (simp add: demo_resource [simplified] demo_auth_def given_text_def demo_client_def)

lemma demo_validated: "validated demo_lib demo_oauth demo_auth"
  using demo_validate unfolding validated_def by blast

lemma demo_issue:
  "issue_authorization_response demo_oauth Landed 120 120 120 [lit ''k1''] demo_auth demo_registered =
     (demo_issued, Inr (demo_code, [(lit ''code'', lit ''k1''), (lit ''iss'', lit ''https://h'')]))"
proof -
  have "approve_client Landed 120 demo_cid demo_registered =
      (demo_registered\<lparr>oa_clients := [(demo_cid, demo_approved_client)],
         oa_file := Doc (clients_payload [(demo_cid, demo_approved_client)])\<rparr>, Inr demo_approved_client)"
    by (simp add: approve_client_def write_json_def demo_approved_client_def Let_def) (simp add: demo_client_def)
  moreover have "oc_id (ar_client demo_auth) = demo_cid" by (simp add: demo_auth_def demo_client_def)
  moreover have "pending_code_capacity demo_oauth demo_registered" by (simp add: pending_code_capacity_def demo_oauth_def)
  moreover have "issuer_url demo_oauth = lit ''https://h''" by (simp add: issuer_url_def rstrip_slash_def demo_oauth_def)
  ultimately show ?thesis
    by (simp add: issue_authorization_response_def new_authorization_code_def draw_bounded_def Let_def)
      (simp add: demo_auth_def demo_input_def demo_code_def demo_issued_def given_text_def Let_def)
qed

lemma demo_exchange:
  "\<exists>s tok. exchange_authorization_code demo_lib demo_oauth 200 200 demo_token demo_issued = (s, Inr tok)"
  by (simp add: exchange_authorization_code_def Let_def)
    (simp add: demo_token_def text_or_def demo_code_def auth_code_expired_def demo_oauth_def [THEN arg_cong [of _ _ cf_code_ttl_s]]
      demo_resource [simplified] verify_pkce_def given_text_def demo_lib_def)

abbreviation demo_oa_step :: "oauth_state \<Rightarrow> oauth_state \<Rightarrow> bool" where
  "demo_oa_step \<equiv> oa_any demo_bytes demo_netloc demo_lib demo_oauth"

lemma demo_running_reach: "reach oa_init demo_oa_step demo_running"
proof (rule reach_step)
  have "file_holds [] Absent" by (simp add: file_holds_def clients_ok_def approved_clients_def)
  then show "reach oa_init demo_oa_step (new_oauth Absent)" by (intro reach_init) (auto simp: oa_init_def)
  show "demo_oa_step (new_oauth Absent) demo_running" using oa_start [OF demo_start] unfolding oa_any_def by blast
qed

lemma demo_issued_reach: "reach oa_init demo_oa_step demo_issued"
proof (rule reach_step [OF reach_step [OF demo_running_reach]])
  show "demo_oa_step demo_running demo_registered"
    using oa_register [OF _ demo_register] unfolding oa_any_def by fastforce
  show "demo_oa_step demo_registered demo_issued"
    using oa_issue [OF _ demo_validated demo_issue] unfolding oa_any_def by fastforce
qed

theorem oauth_tables_bounded_witness:
  "length (oa_codes demo_issued) \<le> 10 \<and> oa_codes demo_issued \<noteq> []"
  using oauth_tables_bounded [OF demo_issued_reach] by (simp add: demo_oauth_def)

theorem code_bound_and_used_once_witness:
  "\<exists>s tok. exchange_authorization_code demo_lib demo_oauth 200 200 demo_token demo_issued = (s, Inr tok) \<and>
    grantable (tr_scope tok) \<and>
    (\<forall>s3 tok2. exchange_authorization_code demo_lib demo_oauth 210 210 demo_token s \<noteq> (s3, Inr tok2))"
proof -
  obtain s tok where e: "exchange_authorization_code demo_lib demo_oauth 200 200 demo_token demo_issued = (s, Inr tok)"
    using demo_exchange by blast
  note facts = code_bound_and_used_once [OF demo_issued_reach e]
  have "(oa_other demo_bytes demo_netloc demo_lib demo_oauth (text_or (ti_code demo_token)))\<^sup>*\<^sup>* s s" by simp
  with facts e show ?thesis by blast
qed

theorem approved_clients_survive_witness:
  "\<exists>s n. oauth_start demo_bytes (new_oauth (oa_file (oauth_close demo_issued))) = (s, Inr n) \<and>
    map_of (oa_clients s) demo_cid = Some demo_approved_client"
proof -
  have "demo_oa_step\<^sup>*\<^sup>* demo_issued (oauth_close demo_issued)"
    using oa_close unfolding oa_any_def by blast
  from approved_clients_survive [OF demo_issued_reach _ this] obtain s n where
    s: "oauth_start demo_bytes (new_oauth (oa_file (oauth_close demo_issued))) = (s, Inr n)"
    "\<forall>k c. map_of (oa_clients demo_issued) k = Some c \<and> oc_approved_at c \<noteq> None \<longrightarrow> map_of (oa_clients s) k = Some c"
    by auto
  have "map_of (oa_clients demo_issued) demo_cid = Some demo_approved_client \<and> oc_approved_at demo_approved_client \<noteq> None"
    by (simp add: demo_approved_client_def)
  with s show ?thesis by blast
qed

theorem registration_idempotent_witness:
  "\<exists>s2. register_dynamic_client demo_netloc demo_oauth 300 300 [] None [demo_uri, demo_uri] demo_registered =
    (s2, Inr (demo_client, True))"
proof -
  have "\<not> client_expired 300 (cf_client_ttl_s demo_oauth) demo_client"
    by (simp add: client_expired_def demo_client_def demo_oauth_def)
  moreover have "set [demo_uri, demo_uri] = set [demo_uri]" by simp
  ultimately show ?thesis
    using registration_idempotent [OF demo_running_reach demo_register, of "[demo_uri, demo_uri]" 300 300 "[]"] by blast
qed

end
