(* ===== verification/Terminal_Streams.thy ===== *)
theory Terminal_Streams
  imports Prelude
begin

text \<open>
  The rendezvous of browser and executor terminal sockets, \<open>src/src/workgate/control/streams.py\<close>, and
  the registry of connection slots it draws on, \<open>UiTerminalConnectionRegistry\<close> of
  \<open>src/src/workgate/ui/http/live_state.py\<close>.

  Every \<open>async with self._lock\<close> block is one step. Sockets, tasks and event loops are numbers. The
  expiry task of a stream is the time at which its sleep ends, \<open>None\<close> when there is none; the relay
  task is a flag. \<open>now\<close> is the monotonic clock and \<open>wall\<close> the wall clock; the random parts of stream
  identities come from a list of draws. The \<open>closed\<close> event of a stream is set exactly when the stream
  leaves the table, so that \<open>wait_closed\<close> is membership in it.
\<close>

section \<open>Connection slots\<close>

record slots =
  sl_next :: nat
  sl_active :: "(nat, nat option) dict"
  sl_loop :: "nat option"
  sl_closed :: bool

datatype stream_error =
    HubClosed
  | TooManyStreams
  | TooManyConnections
  | SlotsClosed
  | SlotsOtherLoop

definition new_slots :: slots where
  "new_slots = \<lparr>sl_next = 1, sl_active = [], sl_loop = None, sl_closed = False\<rparr>"

definition slots_start :: "nat \<Rightarrow> slots \<Rightarrow> slots \<times> (stream_error + unit)" where
  "slots_start loop s =
     (if sl_closed s then (s, Inl SlotsClosed)
      else if sl_loop s \<noteq> None \<and> sl_loop s \<noteq> Some loop then (s, Inl SlotsOtherLoop)
      else (s\<lparr>sl_loop := Some loop\<rparr>, Inr ()))"

definition reserve :: "nat option \<Rightarrow> nat option \<Rightarrow> int \<Rightarrow> slots \<Rightarrow> slots \<times> (stream_error + nat option)" where
  "reserve task loop maximum s =
     (if sl_closed s \<or> maximum \<le> int (length (sl_active s)) then (s, Inr None)
      else if sl_loop s \<noteq> None \<and> loop \<noteq> None \<and> sl_loop s \<noteq> loop then (s, Inl SlotsOtherLoop)
      else (s\<lparr>sl_next := Suc (sl_next s), sl_active := AList.update (sl_next s) task (sl_active s)\<rparr>,
        Inr (Some (sl_next s))))"

definition release :: "nat \<Rightarrow> slots \<Rightarrow> slots" where
  "release marker s = s\<lparr>sl_active := AList.delete marker (sl_active s)\<rparr>"

definition stop_admission :: "slots \<Rightarrow> slots" where
  "stop_admission s = s\<lparr>sl_closed := True\<rparr>"

text \<open>\<open>aclose\<close>; the tasks it cancels are returned. \<open>finished\<close> is the predicate \<open>task.done()\<close>.\<close>

definition slots_aclose ::
  "nat \<Rightarrow> nat option \<Rightarrow> (nat \<Rightarrow> bool) \<Rightarrow> slots \<Rightarrow> slots \<times> (stream_error + nat list)" where
  "slots_aclose loop current finished s =
     (if sl_loop s \<noteq> None \<and> sl_loop s \<noteq> Some loop then (s, Inl SlotsOtherLoop)
      else ((stop_admission s)\<lparr>sl_active := []\<rparr>,
        Inr (remdups (filter (\<lambda>t. Some t \<noteq> current \<and> \<not> finished t)
          (List.map_filter id (dict_values (sl_active s)))))))"

section \<open>The stream hub\<close>

record stream =
  sm_executor_id :: ustr
  sm_token_sha :: ustr
  sm_expires_at :: time
  sm_marker :: "nat option"
  sm_browser :: "nat option"
  sm_executor :: "nat option"
  sm_browser_claimed :: bool
  sm_executor_claimed :: bool
  sm_executor_ready :: bool
  sm_paired :: bool
  sm_relay :: bool
  sm_timer :: "time option"
  sm_last_activity :: time

record stream_grant =
  gr_stream_id :: ustr
  gr_browser_token :: ustr
  gr_expires_at :: time

record stream_hub =
  hb_max_streams :: int
  hb_idle_timeout :: time
  hb_token_ttl :: time
  hb_slots :: "slots option"
  hb_slot_max :: int
  hb_streams :: "(ustr, stream) dict"
  hb_closed :: bool

definition new_hub :: "int \<Rightarrow> time \<Rightarrow> time \<Rightarrow> slots option \<Rightarrow> int \<Rightarrow> stream_hub" where
  "new_hub max_streams idle ttl slots slot_max =
     \<lparr>hb_max_streams = max 1 max_streams, hb_idle_timeout = max 0 idle, hb_token_ttl = max (1/1000) ttl,
      hb_slots = slots, hb_slot_max = slot_max, hb_streams = [], hb_closed = False\<rparr>"

definition put_stream :: "ustr \<Rightarrow> stream \<Rightarrow> stream_hub \<Rightarrow> stream_hub" where
  "put_stream sid s h = h\<lparr>hb_streams := AList.update sid s (hb_streams h)\<rparr>"

text \<open>\<open>_schedule_expiry_locked\<close>: the previous expiry task is cancelled.\<close>

definition schedule_expiry :: "time \<Rightarrow> time \<Rightarrow> stream \<Rightarrow> stream" where
  "schedule_expiry now delay s = s\<lparr>sm_timer := Some (now + delay)\<rparr>"

definition maybe_pair :: "stream \<Rightarrow> stream" where
  "maybe_pair s =
     (if sm_browser s = None \<or> sm_executor s = None \<or> \<not> sm_executor_ready s \<or> sm_relay s then s
      else s\<lparr>sm_timer := None, sm_paired := True, sm_relay := True\<rparr>)"

text \<open>The admission slot of a new stream: none is asked for when the hub has no registry.\<close>

definition admit_stream ::
  "nat option \<Rightarrow> nat option \<Rightarrow> stream_hub \<Rightarrow> stream_hub \<times> (stream_error + nat option)" where
  "admit_stream task loop h =
     (case hb_slots h of
        None \<Rightarrow> (h, Inr None)
      | Some sl \<Rightarrow>
          (case reserve task loop (hb_slot_max h) sl of
             (sl', Inl e) \<Rightarrow> (h\<lparr>hb_slots := Some sl'\<rparr>, Inl e)
           | (sl', Inr None) \<Rightarrow> (h\<lparr>hb_slots := Some sl'\<rparr>, Inl TooManyConnections)
           | (sl', Inr (Some marker)) \<Rightarrow> (h\<lparr>hb_slots := Some sl'\<rparr>, Inr (Some marker))))"

definition stream_create ::
  "(ustr \<Rightarrow> ustr) \<Rightarrow> time \<Rightarrow> time \<Rightarrow> nat option \<Rightarrow> nat option \<Rightarrow> ustr list \<Rightarrow> ustr \<Rightarrow> ustr \<Rightarrow> stream_hub \<Rightarrow>
   (stream_hub \<times> (stream_error + stream_grant)) option" where
  "stream_create sha now wall task loop draws token eid h =
     (if hb_closed h then Some (h, Inl HubClosed)
      else if hb_max_streams h \<le> int (length (hb_streams h)) then Some (h, Inl TooManyStreams)
      else case admit_stream task loop h of
             (h', Inl e) \<Rightarrow> Some (h', Inl e)
           | (h', Inr marker) \<Rightarrow>
               (case draw_fresh (map (\<lambda>d. lit ''stream_'' @ d) draws) (dict_keys (hb_streams h')) of
                  None \<Rightarrow> None
                | Some sid \<Rightarrow>
                    let expires = wall + hb_token_ttl h';
                        s = \<lparr>sm_executor_id = eid, sm_token_sha = sha token, sm_expires_at = expires,
                          sm_marker = marker, sm_browser = None, sm_executor = None,
                          sm_browser_claimed = False, sm_executor_claimed = False,
                          sm_executor_ready = False, sm_paired = False, sm_relay = False,
                          sm_timer = None, sm_last_activity = now\<rparr>
                    in Some (put_stream sid (schedule_expiry now (hb_token_ttl h') s) h',
                         Inr \<lparr>gr_stream_id = sid, gr_browser_token = token, gr_expires_at = expires\<rparr>)))"

definition browser_expires_at :: "time \<Rightarrow> ustr \<Rightarrow> stream_hub \<Rightarrow> time option" where
  "browser_expires_at wall sid h =
     (case map_of (hb_streams h) sid of
        None \<Rightarrow> None
      | Some s \<Rightarrow>
          if sm_browser_claimed s then None
          else if sm_expires_at s \<le> wall then None else Some (sm_expires_at s))"

definition claim_browser ::
  "(ustr \<Rightarrow> ustr) \<Rightarrow> time \<Rightarrow> ustr \<Rightarrow> ustr \<Rightarrow> nat \<Rightarrow> stream_hub \<Rightarrow> stream_hub \<times> bool" where
  "claim_browser sha wall sid token socket h =
     (case map_of (hb_streams h) sid of
        None \<Rightarrow> (h, False)
      | Some s \<Rightarrow>
          if sm_expires_at s \<le> wall \<or> sm_browser_claimed s \<or> sm_token_sha s \<noteq> sha token then (h, False)
          else (put_stream sid
                  (maybe_pair (s\<lparr>sm_browser_claimed := True, sm_token_sha := [], sm_browser := Some socket\<rparr>)) h,
                True))"

definition claim_executor ::
  "time \<Rightarrow> time \<Rightarrow> ustr \<Rightarrow> ustr \<Rightarrow> nat \<Rightarrow> stream_hub \<Rightarrow> stream_hub \<times> bool" where
  "claim_executor now wall sid eid socket h =
     (case map_of (hb_streams h) sid of
        None \<Rightarrow> (h, False)
      | Some s \<Rightarrow>
          if sm_expires_at s \<le> wall \<or> sm_executor_claimed s \<or> sm_executor_id s \<noteq> eid then (h, False)
          else let s = s\<lparr>sm_executor_claimed := True, sm_executor := Some socket\<rparr>;
                   s = (if \<not> sm_browser_claimed s
                        then schedule_expiry now (hb_token_ttl h) (s\<lparr>sm_expires_at := wall + hb_token_ttl h\<rparr>)
                        else s)
               in (put_stream sid s h, True))"

definition activate_executor :: "ustr \<Rightarrow> stream_hub \<Rightarrow> stream_hub \<times> bool" where
  "activate_executor sid h =
     (case map_of (hb_streams h) sid of
        None \<Rightarrow> (h, False)
      | Some s \<Rightarrow>
          if \<not> sm_executor_claimed s \<or> sm_executor s = None \<or> sm_executor_ready s then (h, False)
          else (put_stream sid (maybe_pair (s\<lparr>sm_executor_ready := True\<rparr>)) h, True))"

definition wait_closed_returns :: "ustr \<Rightarrow> stream_hub \<Rightarrow> bool" where
  "wait_closed_returns sid h \<longleftrightarrow> map_of (hb_streams h) sid = None"

text \<open>\<open>_close_stream\<close>; the sockets it closes, with code and reason, are returned in order.\<close>

definition close_stream ::
  "int \<Rightarrow> ustr \<Rightarrow> ustr \<Rightarrow> stream_hub \<Rightarrow> stream_hub \<times> (nat \<times> int \<times> ustr) list" where
  "close_stream code reason sid h =
     (case map_of (hb_streams h) sid of
        None \<Rightarrow> (h, [])
      | Some s \<Rightarrow>
          (h\<lparr>hb_streams := AList.delete sid (hb_streams h),
             hb_slots := (case sm_marker s of
                None \<Rightarrow> hb_slots h | Some m \<Rightarrow> map_option (release m) (hb_slots h))\<rparr>,
           map (\<lambda>socket. (socket, code, take 120 reason)) (List.map_filter id [sm_browser s, sm_executor s])))"

fun close_streams ::
  "int \<Rightarrow> ustr \<Rightarrow> ustr list \<Rightarrow> stream_hub \<Rightarrow> stream_hub \<times> (nat \<times> int \<times> ustr) list" where
  "close_streams code reason [] h = (h, [])"
| "close_streams code reason (sid # sids) h =
     (let (h', out) = close_stream code reason sid h;
          (h'', out') = close_streams code reason sids h'
      in (h'', out @ out'))"

definition cancel_stream :: "ustr \<Rightarrow> stream_hub \<Rightarrow> stream_hub \<times> (nat \<times> int \<times> ustr) list" where
  "cancel_stream = close_stream 1011 (lit ''Terminal attach failed'')"

definition executor_stream_ids :: "ustr \<Rightarrow> stream_hub \<Rightarrow> ustr list" where
  "executor_stream_ids eid h = map fst (filter (\<lambda>(sid, s). sm_executor_id s = eid) (hb_streams h))"

definition close_executor :: "ustr \<Rightarrow> stream_hub \<Rightarrow> stream_hub \<times> (nat \<times> int \<times> ustr) list" where
  "close_executor eid h =
     close_streams 4403 (lit ''Executor credential is no longer valid'') (executor_stream_ids eid h) h"

definition hub_aclose :: "stream_hub \<Rightarrow> stream_hub \<times> (nat \<times> int \<times> ustr) list" where
  "hub_aclose h =
     (if hb_closed h then (h, [])
      else close_streams 1012 (lit ''Control runtime restarted'') (dict_keys (hb_streams h))
             (h\<lparr>hb_closed := True\<rparr>))"

text \<open>The expiry task after its sleep, and the end of the relay task.\<close>

definition expire_stream :: "ustr \<Rightarrow> stream_hub \<Rightarrow> stream_hub \<times> (nat \<times> int \<times> ustr) list" where
  "expire_stream = close_stream 4408 (lit ''Terminal attach token expired'')"

definition relay_finish :: "ustr \<Rightarrow> stream_hub \<Rightarrow> stream_hub \<times> (nat \<times> int \<times> ustr) list" where
  "relay_finish = close_stream 1000 (lit ''Terminal stream closed'')"

definition active_streams :: "stream_hub \<Rightarrow> nat" where
  "active_streams h = length (hb_streams h)"

definition expected_executor :: "ustr \<Rightarrow> stream_hub \<Rightarrow> ustr option" where
  "expected_executor sid h = map_option sm_executor_id (map_of (hb_streams h) sid)"

section \<open>The relay\<close>

definition max_frame_bytes :: nat where
  "max_frame_bytes = 65536"

record ws_message =
  ws_disconnect :: bool
  ws_bytes :: "nat list option"
  ws_text :: "ustr option"

datatype frame = FrameBytes "nat list" | FrameText ustr

text \<open>
  \<open>_relay_direction\<close> over the messages received, each with the time of its arrival: the frames it
  sends on, the last activity, and whether it has returned.
\<close>

fun relay_direction ::
  "(ws_message \<times> time) list \<Rightarrow> time \<Rightarrow> frame list \<times> time \<times> bool" where
  "relay_direction [] seen = ([], seen, False)"
| "relay_direction ((m, now) # ms) seen =
     (if ws_disconnect m then ([], seen, True)
      else case ws_bytes m of
        Some data \<Rightarrow>
          if max_frame_bytes < length data then ([], seen, True)
          else (case relay_direction ms now of (out, l, ended) \<Rightarrow> (FrameBytes data # out, l, ended))
      | None \<Rightarrow>
          (case ws_text m of
             Some text \<Rightarrow>
               if max_frame_bytes < utf8_len text then ([], seen, True)
               else (case relay_direction ms now of (out, l, ended) \<Rightarrow> (FrameText text # out, l, ended))
           | None \<Rightarrow> relay_direction ms seen))"

text \<open>
  \<open>_idle_watchdog\<close> over its rounds, each with the clock and the last activity it reads: the sleeps
  between them, and whether it has returned.
\<close>

fun idle_watchdog :: "time \<Rightarrow> (time \<times> time) list \<Rightarrow> time list \<times> bool" where
  "idle_watchdog idle [] = ([], False)"
| "idle_watchdog idle ((now, seen) # rounds) =
     (let remaining = idle - (now - seen)
      in if remaining \<le> 0 then ([], True)
         else (case idle_watchdog idle rounds of (sleeps, ended) \<Rightarrow> (remaining # sleeps, ended)))"

end
