(* ===== verification/Stream_Safety.thy ===== *)
theory Stream_Safety
  imports Terminal_Streams
begin

text \<open>
  The properties of the terminal stream hub: slots are held exactly by live streams, an unpaired
  stream always has an expiry pending, and a relay only joins the two sockets that claimed the stream
  with its single-use token and as its own executor.
\<close>

section \<open>The state machine\<close>

text \<open>
  The ghost fields record, by stream identity, every grant (executor and token), every accepted claim
  and every relay started. Grants use a new identity each time, as the 192 random bits of the code
  make sure.
\<close>

record hub_world =
  hub :: stream_hub
  hw_granted :: "(ustr, ustr \<times> ustr) dict"
  hw_browser_claims :: "(ustr, ustr \<times> nat) dict"
  hw_executor_claims :: "(ustr, ustr \<times> nat) dict"
  hw_relays :: "(ustr, nat \<times> nat) dict"

definition relay_started :: "ustr \<Rightarrow> stream_hub \<Rightarrow> (ustr, nat \<times> nat) dict" where
  "relay_started sid h =
     (case map_of (hb_streams h) sid of
        None \<Rightarrow> []
      | Some s \<Rightarrow> if sm_relay s then [(sid, the (sm_browser s), the (sm_executor s))] else [])"

inductive hub_step :: "(ustr \<Rightarrow> ustr) \<Rightarrow> hub_world \<Rightarrow> hub_world \<Rightarrow> bool" for sha where
  hub_create:
    "stream_create sha now wall task loop draws token eid (hub w) = Some (h, Inr g) \<Longrightarrow>
     map_of (hw_granted w) (gr_stream_id g) = None \<Longrightarrow>
     hub_step sha w (w\<lparr>hub := h, hw_granted := (gr_stream_id g, eid, token) # hw_granted w\<rparr>)"
| hub_create_refused:
    "stream_create sha now wall task loop draws token eid (hub w) = Some (h, Inl e) \<Longrightarrow>
     hub_step sha w (w\<lparr>hub := h\<rparr>)"
| hub_browser:
    "claim_browser sha wall sid token socket (hub w) = (h, True) \<Longrightarrow>
     hub_step sha w (w\<lparr>hub := h, hw_browser_claims := (sid, token, socket) # hw_browser_claims w,
       hw_relays := relay_started sid h @ hw_relays w\<rparr>)"
| hub_executor:
    "claim_executor now wall sid eid socket (hub w) = (h, True) \<Longrightarrow>
     hub_step sha w (w\<lparr>hub := h, hw_executor_claims := (sid, eid, socket) # hw_executor_claims w\<rparr>)"
| hub_activate:
    "activate_executor sid (hub w) = (h, True) \<Longrightarrow>
     hub_step sha w (w\<lparr>hub := h, hw_relays := relay_started sid h @ hw_relays w\<rparr>)"
| hub_close: "hub_step sha w (w\<lparr>hub := fst (close_stream code reason sid (hub w))\<rparr>)"
| hub_expire: "map_of (hb_streams (hub w)) sid = Some s \<Longrightarrow> sm_timer s = Some due \<Longrightarrow> due \<le> now \<Longrightarrow>
     hub_step sha w (w\<lparr>hub := fst (expire_stream sid (hub w))\<rparr>)"
| hub_relay_finish: "map_of (hb_streams (hub w)) sid = Some s \<Longrightarrow> sm_relay s \<Longrightarrow>
     hub_step sha w (w\<lparr>hub := fst (relay_finish sid (hub w))\<rparr>)"
| hub_mark_closed: "hub_step sha w (w\<lparr>hub := (hub w)\<lparr>hb_closed := True\<rparr>\<rparr>)"
| hub_slots_start:
    "hub_step sha w (w\<lparr>hub := (hub w)\<lparr>hb_slots := map_option (\<lambda>s. fst (slots_start l s)) (hb_slots (hub w))\<rparr>\<rparr>)"
| hub_slots_stop: "hub_step sha w (w\<lparr>hub := (hub w)\<lparr>hb_slots := map_option stop_admission (hb_slots (hub w))\<rparr>\<rparr>)"
| hub_slots_close: "hub_step sha w
     (w\<lparr>hub := (hub w)\<lparr>hb_slots := map_option (\<lambda>s. fst (slots_aclose l c fin s)) (hb_slots (hub w))\<rparr>\<rparr>)"

definition hub_init :: "hub_world \<Rightarrow> bool" where
  "hub_init w \<longleftrightarrow>
     (\<exists>m idle ttl slot_max. hub w = new_hub m idle ttl (Some new_slots) slot_max \<or>
        hub w = new_hub m idle ttl None slot_max) \<and>
     hw_granted w = [] \<and> hw_browser_claims w = [] \<and> hw_executor_claims w = [] \<and> hw_relays w = []"

section \<open>Slots\<close>

definition marker_of :: "stream_hub \<Rightarrow> ustr \<Rightarrow> nat option" where
  "marker_of h sid = Option.bind (map_of (hb_streams h) sid) sm_marker"

definition slot_inv :: "stream_hub \<Rightarrow> bool" where
  "slot_inv h \<longleftrightarrow>
     dict_ok (hb_streams h) \<and> int (length (hb_streams h)) \<le> hb_max_streams h \<and>
     (\<forall>sid sid' m. marker_of h sid = Some m \<longrightarrow> marker_of h sid' = Some m \<longrightarrow> sid' = sid) \<and>
     (\<forall>sid. marker_of h sid \<noteq> None \<longleftrightarrow> map_of (hb_streams h) sid \<noteq> None \<and> hb_slots h \<noteq> None) \<and>
     (\<forall>sl. hb_slots h = Some sl \<longrightarrow>
        (\<forall>m. map_of (sl_active sl) m \<noteq> None \<longrightarrow> m < sl_next sl) \<and>
        (\<forall>m. m \<in> ran (marker_of h) \<longrightarrow> m < sl_next sl) \<and>
        ((\<forall>m. map_of (sl_active sl) m \<noteq> None \<longleftrightarrow> m \<in> ran (marker_of h)) \<or>
         sl_closed sl \<and> sl_active sl = []))"

lemma slot_invD:
  assumes "slot_inv h"
  shows "dict_ok (hb_streams h)" and "int (length (hb_streams h)) \<le> hb_max_streams h"
    and "marker_of h sid = Some m \<Longrightarrow> marker_of h sid' = Some m \<Longrightarrow> sid' = sid"
    and "marker_of h sid \<noteq> None \<longleftrightarrow> map_of (hb_streams h) sid \<noteq> None \<and> hb_slots h \<noteq> None"
    and "hb_slots h = Some sl \<Longrightarrow> map_of (sl_active sl) m \<noteq> None \<Longrightarrow> m < sl_next sl"
    and "hb_slots h = Some sl \<Longrightarrow> m \<in> ran (marker_of h) \<Longrightarrow> m < sl_next sl"
    and "hb_slots h = Some sl \<Longrightarrow>
      (\<forall>m. map_of (sl_active sl) m \<noteq> None \<longleftrightarrow> m \<in> ran (marker_of h)) \<or> sl_closed sl \<and> sl_active sl = []"
  using assms unfolding slot_inv_def by blast+

text \<open>Changes that keep the markers of all live streams.\<close>

lemma slot_inv_frame:
  assumes inv: "slot_inv h" and markers: "marker_of h' = marker_of h"
    and streams: "dict_ok (hb_streams h')" "length (hb_streams h') = length (hb_streams h)"
      "\<And>sid. map_of (hb_streams h') sid = None \<longleftrightarrow> map_of (hb_streams h) sid = None"
    and max: "hb_max_streams h' = hb_max_streams h"
    and none: "hb_slots h' = None \<longleftrightarrow> hb_slots h = None"
    and slots: "\<And>sl sl'. hb_slots h = Some sl \<Longrightarrow> hb_slots h' = Some sl' \<Longrightarrow>
      sl_next sl' = sl_next sl \<and> (sl_active sl' = sl_active sl \<and> (sl_closed sl \<longrightarrow> sl_closed sl') \<or>
        sl_active sl' = [] \<and> sl_closed sl')"
  shows "slot_inv h'"
  unfolding slot_inv_def markers streams(2) max
proof (intro conjI allI impI)
  show "dict_ok (hb_streams h')" by (rule streams(1))
  show "int (length (hb_streams h)) \<le> hb_max_streams h" by (rule slot_invD(2) [OF inv])
  show "\<And>sid sid' m. marker_of h sid = Some m \<Longrightarrow> marker_of h sid' = Some m \<Longrightarrow> sid' = sid"
    by (rule slot_invD(3) [OF inv])
  show "\<And>sid. (marker_of h sid \<noteq> None) = (map_of (hb_streams h') sid \<noteq> None \<and> hb_slots h' \<noteq> None)"
    by (simp only: streams(3) none slot_invD(4) [OF inv])
  fix sl'
  assume sl': "hb_slots h' = Some sl'"
  then obtain sl where sl: "hb_slots h = Some sl" using none by (cases "hb_slots h") auto
  note s = slots [OF sl sl']
  show "m < sl_next sl'" if "map_of (sl_active sl') m \<noteq> None" for m
    using that slot_invD(5) [OF inv sl, of m] s by auto
  show "m < sl_next sl'" if "m \<in> ran (marker_of h)" for m using slot_invD(6) [OF inv sl that] s by simp
  show "(\<forall>m. (map_of (sl_active sl') m \<noteq> None) = (m \<in> ran (marker_of h))) \<or> sl_closed sl' \<and> sl_active sl' = []"
    using slot_invD(7) [OF inv sl] s by auto
qed

lemma slot_inv_put:
  assumes inv: "slot_inv h" and s: "map_of (hb_streams h) sid = Some s" and m: "sm_marker s' = sm_marker s"
  shows "slot_inv (put_stream sid s' h)"
proof (rule slot_inv_frame [OF inv])
  show "marker_of (put_stream sid s' h) = marker_of h"
    using s m by (simp add: fun_eq_iff marker_of_def put_stream_def)
  show "dict_ok (hb_streams (put_stream sid s' h))" using slot_invD(1) [OF inv] by (simp add: put_stream_def)
  show "length (hb_streams (put_stream sid s' h)) = length (hb_streams h)"
    using length_put_present [of "hb_streams h" sid] s by (simp add: put_stream_def)
qed (use s in \<open>auto simp: put_stream_def\<close>)

lemma close_stream_streams:
  "hb_streams (fst (close_stream code reason sid h)) = AList.delete sid (hb_streams h)"
  by (auto simp: close_stream_def map_of_eq_None_iff pop_absent split: option.split)

lemma close_stream_markers: "marker_of (fst (close_stream code reason sid h)) = (marker_of h)(sid := None)"
  by (simp add: fun_eq_iff marker_of_def close_stream_streams)

lemma slot_inv_close:
  assumes inv: "slot_inv h"
  shows "slot_inv (fst (close_stream code reason sid h))"
proof (cases "map_of (hb_streams h) sid")
  case None
  with inv show ?thesis by (simp add: close_stream_def)
next
  case (Some s)
  let ?h = "fst (close_stream code reason sid h)"
  have max: "hb_max_streams ?h = hb_max_streams h" using Some by (simp add: close_stream_def)
  have slots: "hb_slots ?h = (case sm_marker s of None \<Rightarrow> hb_slots h | Some m \<Rightarrow> map_option (release m) (hb_slots h))"
    using Some by (simp add: close_stream_def)
  have none: "hb_slots ?h \<noteq> None \<longleftrightarrow> hb_slots h \<noteq> None" by (simp add: slots split: option.split)
  have mk: "marker_of h sid = sm_marker s" using Some by (simp add: marker_of_def)
  show ?thesis
    unfolding slot_inv_def max close_stream_markers
  proof (intro conjI allI impI)
    show "dict_ok (hb_streams ?h)" using slot_invD(1) [OF inv] by (simp add: close_stream_streams)
    show "int (length (hb_streams ?h)) \<le> hb_max_streams h"
      using slot_invD(2) [OF inv] length_pop_le [of sid "hb_streams h"] by (simp add: close_stream_streams)
    show "y = x" if "((marker_of h)(sid := None)) x = Some m" "((marker_of h)(sid := None)) y = Some m" for x y m
      using that slot_invD(3) [OF inv, of x m y] by (auto split: if_splits)
    show "(((marker_of h)(sid := None)) x \<noteq> None) = (map_of (hb_streams ?h) x \<noteq> None \<and> hb_slots ?h \<noteq> None)" for x
      using slot_invD(4) [OF inv, of x] none by (simp add: close_stream_streams)
    fix sl'
    assume sl': "hb_slots ?h = Some sl'"
    then have "hb_slots h \<noteq> None" using none by simp
    with slot_invD(4) [OF inv, of sid] Some mk obtain sl m0 where
      sl: "hb_slots h = Some sl" and m0: "sm_marker s = Some m0" by auto
    have rel: "sl' = release m0 sl" using sl' slots sl m0 by simp
    have ran: "m \<in> ran ((marker_of h)(sid := None)) \<longleftrightarrow> m \<noteq> m0 \<and> m \<in> ran (marker_of h)" for m
    proof
      assume "m \<in> ran ((marker_of h)(sid := None))"
      then obtain x where x: "x \<noteq> sid" "marker_of h x = Some m" by (auto simp: ran_def split: if_splits)
      then have "m \<noteq> m0" using slot_invD(3) [OF inv, of sid m0 x] mk m0 by metis
      with x show "m \<noteq> m0 \<and> m \<in> ran (marker_of h)" by (blast intro: ranI)
    next
      assume "m \<noteq> m0 \<and> m \<in> ran (marker_of h)"
      then obtain x where x: "m \<noteq> m0" "marker_of h x = Some m" by (auto simp: ran_def)
      then have "x \<noteq> sid" using mk m0 by auto
      with x(2) show "m \<in> ran ((marker_of h)(sid := None))" by (intro ranI [of _ x]) simp
    qed
    show "m < sl_next sl'" if "map_of (sl_active sl') m \<noteq> None" for m
      using that slot_invD(5) [OF inv sl, of m] rel by (auto simp: release_def split: if_splits)
    show "m < sl_next sl'" if "m \<in> ran ((marker_of h)(sid := None))" for m
      using that slot_invD(6) [OF inv sl, of m] ran [of m] by (simp add: rel release_def)
    show "(\<forall>m. (map_of (sl_active sl') m \<noteq> None) = (m \<in> ran ((marker_of h)(sid := None)))) \<or>
      sl_closed sl' \<and> sl_active sl' = []"
      using slot_invD(7) [OF inv sl]
    proof
      assume all: "\<forall>m. (map_of (sl_active sl) m \<noteq> None) = (m \<in> ran (marker_of h))"
      have "(map_of (sl_active sl') m \<noteq> None) = (m \<in> ran ((marker_of h)(sid := None)))" for m
        using all [rule_format, of m] by (simp only: ran) (simp add: rel release_def)
      then show ?thesis by blast
    qed (simp add: rel release_def)
  qed
qed

lemma admit_refused: "admit_stream task loop h = (h', Inl e) \<Longrightarrow> h' = h"
  by (cases h) (auto simp: admit_stream_def reserve_def split: option.splits if_splits)

lemma admit_stream_Inr:
  assumes "admit_stream task loop h = (h', Inr marker)"
  obtains "hb_slots h = None" "h' = h" "marker = None"
  | sl where "hb_slots h = Some sl" "\<not> sl_closed sl" "marker = Some (sl_next sl)"
    "h' = h\<lparr>hb_slots := Some (sl\<lparr>sl_next := Suc (sl_next sl),
       sl_active := AList.update (sl_next sl) task (sl_active sl)\<rparr>)\<rparr>"
  using assms by (auto simp: admit_stream_def reserve_def split: option.splits if_splits)

lemma stream_create_Inl: "stream_create sha now wall task loop draws token eid h = Some (h', Inl e) \<Longrightarrow> h' = h"
  by (auto simp: stream_create_def Let_def split: if_splits option.splits prod.splits sum.splits dest: admit_refused)

definition fresh_stream :: "(ustr \<Rightarrow> ustr) \<Rightarrow> time \<Rightarrow> time \<Rightarrow> time \<Rightarrow> ustr \<Rightarrow> ustr \<Rightarrow> nat option \<Rightarrow> stream" where
  "fresh_stream sha now wall ttl token eid marker =
     \<lparr>sm_executor_id = eid, sm_token_sha = sha token, sm_expires_at = wall + ttl, sm_marker = marker,
      sm_browser = None, sm_executor = None, sm_browser_claimed = False, sm_executor_claimed = False,
      sm_executor_ready = False, sm_paired = False, sm_relay = False, sm_timer = Some (now + ttl),
      sm_last_activity = now\<rparr>"

lemma stream_create_Inr:
  assumes "stream_create sha now wall task loop draws token eid h = Some (h', Inr g)"
  obtains h1 marker where "admit_stream task loop h = (h1, Inr marker)"
    "int (length (hb_streams h)) < hb_max_streams h" "map_of (hb_streams h) (gr_stream_id g) = None"
    "h' = put_stream (gr_stream_id g) (fresh_stream sha now wall (hb_token_ttl h) token eid marker) h1"
proof -
  from assms obtain h1 marker sid where a: "admit_stream task loop h = (h1, Inr marker)"
    "int (length (hb_streams h)) < hb_max_streams h"
    "draw_fresh (map (\<lambda>d. lit ''stream_'' @ d) draws) (dict_keys (hb_streams h1)) = Some sid"
    "gr_stream_id g = sid" "h' = put_stream sid (fresh_stream sha now wall (hb_token_ttl h1) token eid marker) h1"
    by (auto simp: stream_create_def Let_def fresh_stream_def schedule_expiry_def
        split: if_splits option.splits prod.splits sum.splits)
  from a(1) have same: "hb_streams h1 = hb_streams h" "hb_token_ttl h1 = hb_token_ttl h"
    by (auto elim!: admit_stream_Inr)
  have "map_of (hb_streams h) sid = None"
    using a(3) unfolding same(1) by (rule unbounded.draw_fresh_key)
  with a same that show ?thesis by simp
qed

lemma slot_inv_create:
  assumes inv: "slot_inv h" and adm: "admit_stream task loop h = (h1, Inr marker)"
    and room: "int (length (hb_streams h)) < hb_max_streams h"
    and new: "map_of (hb_streams h) sid = None" and s: "sm_marker s = marker"
  shows "slot_inv (put_stream sid s h1)"
proof -
  let ?h = "put_stream sid s h1"
  have same: "hb_streams h1 = hb_streams h" "hb_max_streams h1 = hb_max_streams h"
    using adm by (auto elim!: admit_stream_Inr)
  have mk: "marker_of ?h = (marker_of h)(sid := marker)"
    using s by (auto simp: fun_eq_iff marker_of_def put_stream_def same)
  have old: "marker_of h sid = None" using new by (simp add: marker_of_def)
  have base: "dict_ok (hb_streams ?h)" "int (length (hb_streams ?h)) \<le> hb_max_streams ?h"
    using slot_invD(1) [OF inv] room length_put_fresh [OF new] by (simp_all add: put_stream_def same)
  from adm show ?thesis
  proof (cases rule: admit_stream_Inr)
    case 1
    then have "marker_of h = (\<lambda>_. None)" using slot_invD(4) [OF inv] by (auto simp: fun_eq_iff)
    with 1 base mk show ?thesis by (simp add: slot_inv_def put_stream_def)
  next
    case (2 sl)
    have slots: "hb_slots ?h = Some (sl\<lparr>sl_next := Suc (sl_next sl),
       sl_active := AList.update (sl_next sl) task (sl_active sl)\<rparr>)" using 2(4) by (simp add: put_stream_def)
    have fresh: "sl_next sl \<notin> ran (marker_of h)" using slot_invD(6) [OF inv 2(1)] by blast
    have ran: "ran (marker_of ?h) = insert (sl_next sl) (ran (marker_of h))"
      using old 2(3) by (simp add: mk)
    have act: "map_of (sl_active sl) m \<noteq> None \<longleftrightarrow> m \<in> ran (marker_of h)" for m
      using slot_invD(7) [OF inv 2(1)] 2(2) by blast
    show ?thesis
      unfolding slot_inv_def slots
    proof (intro conjI allI impI base)
      show "y = x" if "marker_of ?h x = Some m" "marker_of ?h y = Some m" for x y m
        using that slot_invD(3) [OF inv, of x m y] fresh 2(3) ranI [of "marker_of h" x m] ranI [of "marker_of h" y m]
        by (auto simp: mk split: if_splits)
      show "(marker_of ?h x \<noteq> None) = (map_of (hb_streams ?h) x \<noteq> None \<and>
          Some (sl\<lparr>sl_next := Suc (sl_next sl), sl_active := AList.update (sl_next sl) task (sl_active sl)\<rparr>) \<noteq> None)" for x
        using slot_invD(4) [OF inv, of x] 2(1,3) unfolding mk by (simp add: put_stream_def same)
      fix sl' m
      assume "Some (sl\<lparr>sl_next := Suc (sl_next sl), sl_active := AList.update (sl_next sl) task (sl_active sl)\<rparr>) = Some sl'"
      then have sl': "sl' = sl\<lparr>sl_next := Suc (sl_next sl), sl_active := AList.update (sl_next sl) task (sl_active sl)\<rparr>" by simp
      show "m < sl_next sl'" if "map_of (sl_active sl') m \<noteq> None"
        using that slot_invD(5) [OF inv 2(1), of m] by (cases "m = sl_next sl") (auto simp: sl')
      show "m < sl_next sl'" if "m \<in> ran (marker_of ?h)"
        using that slot_invD(6) [OF inv 2(1), of m] by (auto simp: sl' ran)
      have "map_of (sl_active sl') m \<noteq> None \<longleftrightarrow> m \<in> ran (marker_of ?h)" for m
        using act [of m] unfolding ran by (simp add: sl')
      then show "(\<forall>m. (map_of (sl_active sl') m \<noteq> None) = (m \<in> ran (marker_of ?h))) \<or>
          sl_closed sl' \<and> sl_active sl' = []" by blast
    qed
  qed
qed

section \<open>Claims\<close>

text \<open>
  What holds of a live stream, given its grant and its accepted claims: it was granted to its
  executor, its token is the granted one until it is claimed, its sockets are the claimed ones, and
  it either has its relay or an expiry pending.
\<close>

definition stream_ok ::
  "(ustr \<Rightarrow> ustr) \<Rightarrow> (ustr \<times> ustr) option \<Rightarrow> (ustr \<times> nat) option \<Rightarrow> (ustr \<times> nat) option \<Rightarrow>
   (nat \<times> nat) option \<Rightarrow> stream \<Rightarrow> bool" where
  "stream_ok sha g bc ec rl s \<longleftrightarrow>
     (case g of None \<Rightarrow> False | Some (eid, token) \<Rightarrow>
        sm_executor_id s = eid \<and> (\<not> sm_browser_claimed s \<longrightarrow> sm_token_sha s = sha token)) \<and>
     sm_browser s = map_option snd bc \<and> sm_executor s = map_option snd ec \<and>
     sm_browser_claimed s = (bc \<noteq> None) \<and> sm_executor_claimed s = (ec \<noteq> None) \<and>
     (sm_executor_ready s \<longrightarrow> sm_executor_claimed s) \<and>
     (sm_relay s \<longleftrightarrow> sm_browser_claimed s \<and> sm_executor_ready s) \<and> sm_paired s = sm_relay s \<and>
     (sm_timer s = None \<longleftrightarrow> sm_relay s) \<and> (sm_relay s \<longleftrightarrow> rl \<noteq> None)"

text \<open>What holds of the records of any stream, live or not.\<close>

definition records_ok ::
  "(ustr \<Rightarrow> ustr) \<Rightarrow> (ustr \<times> ustr) option \<Rightarrow> (ustr \<times> nat) option \<Rightarrow> (ustr \<times> nat) option \<Rightarrow>
   (nat \<times> nat) option \<Rightarrow> bool" where
  "records_ok sha g bc ec rl \<longleftrightarrow>
     (\<forall>token b. bc = Some (token, b) \<longrightarrow> (\<exists>eid granted. g = Some (eid, granted) \<and> sha token = sha granted)) \<and>
     (\<forall>eid e. ec = Some (eid, e) \<longrightarrow> (\<exists>granted. g = Some (eid, granted))) \<and>
     (\<forall>b e. rl = Some (b, e) \<longrightarrow> map_option snd bc = Some b \<and> map_option snd ec = Some e)"

definition hub_inv :: "(ustr \<Rightarrow> ustr) \<Rightarrow> hub_world \<Rightarrow> bool" where
  "hub_inv sha w \<longleftrightarrow>
     slot_inv (hub w) \<and>
     dict_ok (hw_browser_claims w) \<and> dict_ok (hw_executor_claims w) \<and> dict_ok (hw_relays w) \<and>
     (\<forall>sid s. map_of (hb_streams (hub w)) sid = Some s \<longrightarrow>
        stream_ok sha (map_of (hw_granted w) sid) (map_of (hw_browser_claims w) sid)
          (map_of (hw_executor_claims w) sid) (map_of (hw_relays w) sid) s) \<and>
     (\<forall>sid. records_ok sha (map_of (hw_granted w) sid) (map_of (hw_browser_claims w) sid)
        (map_of (hw_executor_claims w) sid) (map_of (hw_relays w) sid))"

lemma hub_invD:
  assumes "hub_inv sha w"
  shows "slot_inv (hub w)" and "dict_ok (hw_browser_claims w)" and "dict_ok (hw_executor_claims w)"
    and "dict_ok (hw_relays w)"
    and "map_of (hb_streams (hub w)) sid = Some s \<Longrightarrow>
      stream_ok sha (map_of (hw_granted w) sid) (map_of (hw_browser_claims w) sid)
        (map_of (hw_executor_claims w) sid) (map_of (hw_relays w) sid) s"
    and "records_ok sha (map_of (hw_granted w) sid) (map_of (hw_browser_claims w) sid)
      (map_of (hw_executor_claims w) sid) (map_of (hw_relays w) sid)"
  using assms unfolding hub_inv_def by blast+

text \<open>Steps that only take streams away, or touch the slots.\<close>

lemma hub_inv_less:
  assumes inv: "hub_inv sha w" and slots: "slot_inv h"
    and less: "\<And>sid s. map_of (hb_streams h) sid = Some s \<Longrightarrow> map_of (hb_streams (hub w)) sid = Some s"
  shows "hub_inv sha (w\<lparr>hub := h\<rparr>)"
  unfolding hub_inv_def using slots hub_invD(2-4,6) [OF inv] hub_invD(5) [OF inv less] by simp

lemma hub_inv_close:
  assumes inv: "hub_inv sha w"
  shows "hub_inv sha (w\<lparr>hub := fst (close_stream code reason sid (hub w))\<rparr>)"
  using slot_inv_close [OF hub_invD(1) [OF inv]]
  by (rule hub_inv_less [OF inv]) (simp add: close_stream_streams split: if_splits)

lemma hub_inv_slots:
  assumes inv: "hub_inv sha w" and h: "hb_streams h = hb_streams (hub w)" "hb_max_streams h = hb_max_streams (hub w)"
    and none: "hb_slots h = None \<longleftrightarrow> hb_slots (hub w) = None"
    and slots: "\<And>sl sl'. hb_slots (hub w) = Some sl \<Longrightarrow> hb_slots h = Some sl' \<Longrightarrow>
      sl_next sl' = sl_next sl \<and> (sl_active sl' = sl_active sl \<and> (sl_closed sl \<longrightarrow> sl_closed sl') \<or>
        sl_active sl' = [] \<and> sl_closed sl')"
  shows "hub_inv sha (w\<lparr>hub := h\<rparr>)"
proof (rule hub_inv_less [OF inv])
  show "slot_inv h"
    by (rule slot_inv_frame [OF hub_invD(1) [OF inv] _ _ _ _ h(2) none slots])
      (use slot_invD(1) [OF hub_invD(1) [OF inv]] in \<open>simp_all add: fun_eq_iff marker_of_def h(1)\<close>)
qed (simp add: h(1))

text \<open>Steps that update one live stream and its records.\<close>

lemma hub_inv_update:
  assumes inv: "hub_inv sha w" and s: "map_of (hb_streams (hub w)) sid = Some s" and m: "sm_marker s' = sm_marker s"
    and h: "hub w' = put_stream sid s' (hub w)" "hw_granted w' = hw_granted w"
    and dicts: "dict_ok (hw_browser_claims w')" "dict_ok (hw_executor_claims w')" "dict_ok (hw_relays w')"
    and other: "\<And>x. x \<noteq> sid \<Longrightarrow> map_of (hw_browser_claims w') x = map_of (hw_browser_claims w) x \<and>
      map_of (hw_executor_claims w') x = map_of (hw_executor_claims w) x \<and>
      map_of (hw_relays w') x = map_of (hw_relays w) x"
    and ok: "stream_ok sha (map_of (hw_granted w) sid) (map_of (hw_browser_claims w') sid)
        (map_of (hw_executor_claims w') sid) (map_of (hw_relays w') sid) s'"
    and rec: "records_ok sha (map_of (hw_granted w) sid) (map_of (hw_browser_claims w') sid)
        (map_of (hw_executor_claims w') sid) (map_of (hw_relays w') sid)"
  shows "hub_inv sha w'"
  unfolding hub_inv_def h
proof (intro conjI allI impI dicts)
  show "slot_inv (put_stream sid s' (hub w))" by (rule slot_inv_put [OF hub_invD(1) [OF inv] s m])
  show "stream_ok sha (map_of (hw_granted w) x) (map_of (hw_browser_claims w') x)
      (map_of (hw_executor_claims w') x) (map_of (hw_relays w') x) y"
    if "map_of (hb_streams (put_stream sid s' (hub w))) x = Some y" for x y
  proof (cases "x = sid")
    case True
    with that ok show ?thesis by (simp add: put_stream_def)
  next
    case False
    with that have "map_of (hb_streams (hub w)) x = Some y" by (simp add: put_stream_def)
    with hub_invD(5) [OF inv] other [OF False] show ?thesis by simp
  qed
  show "records_ok sha (map_of (hw_granted w) x) (map_of (hw_browser_claims w') x)
      (map_of (hw_executor_claims w') x) (map_of (hw_relays w') x)" for x
    using rec other [of x] hub_invD(6) [OF inv, of x] by (cases "x = sid") simp_all
qed

lemma maybe_pair_fields [simp]: "sm_marker (maybe_pair s) = sm_marker s"
  by (simp add: maybe_pair_def)

lemma map_of_NoneD: "map_of d k = None \<Longrightarrow> dict_ok d \<Longrightarrow> dict_ok ((k, v) # d)"
  by (simp add: map_of_eq_None_iff)

lemma relay_started_put:
  "relay_started sid (put_stream sid s h) =
     (if sm_relay s then [(sid, the (sm_browser s), the (sm_executor s))] else [])"
  by (simp add: relay_started_def put_stream_def)

lemma claim_browserE:
  assumes "claim_browser sha wall sid token socket h = (h', True)"
  obtains s where "map_of (hb_streams h) sid = Some s" "\<not> sm_browser_claimed s" "sm_token_sha s = sha token"
    "wall < sm_expires_at s"
    "h' = put_stream sid (maybe_pair (s\<lparr>sm_browser_claimed := True, sm_token_sha := [], sm_browser := Some socket\<rparr>)) h"
  using assms by (auto simp: claim_browser_def split: option.splits if_splits)

lemma claim_executorE:
  assumes "claim_executor now wall sid eid socket h = (h', True)"
  obtains s s' where "map_of (hb_streams h) sid = Some s" "\<not> sm_executor_claimed s" "sm_executor_id s = eid"
    "wall < sm_expires_at s" "h' = put_stream sid s' h"
    "s' = s\<lparr>sm_executor_claimed := True, sm_executor := Some socket\<rparr> \<and> sm_browser_claimed s \<or>
     \<not> sm_browser_claimed s \<and> s' = s\<lparr>sm_executor_claimed := True, sm_executor := Some socket,
       sm_expires_at := wall + hb_token_ttl h, sm_timer := Some (now + hb_token_ttl h)\<rparr>"
proof -
  from assms obtain s where s: "map_of (hb_streams h) sid = Some s" "\<not> sm_executor_claimed s" "sm_executor_id s = eid"
    "wall < sm_expires_at s"
    "h' = put_stream sid (if \<not> sm_browser_claimed s then s\<lparr>sm_executor_claimed := True, sm_executor := Some socket,
       sm_expires_at := wall + hb_token_ttl h, sm_timer := Some (now + hb_token_ttl h)\<rparr>
      else s\<lparr>sm_executor_claimed := True, sm_executor := Some socket\<rparr>) h"
    by (auto simp: claim_executor_def schedule_expiry_def Let_def split: option.splits if_splits)
  show ?thesis by (rule that [OF s]) auto
qed

lemma activate_executorE:
  assumes "activate_executor sid h = (h', True)"
  obtains s where "map_of (hb_streams h) sid = Some s" "sm_executor_claimed s" "sm_executor s \<noteq> None"
    "\<not> sm_executor_ready s" "h' = put_stream sid (maybe_pair (s\<lparr>sm_executor_ready := True\<rparr>)) h"
  using assms by (auto simp: activate_executor_def split: option.splits if_splits)

lemma hub_inv_browser:
  assumes inv: "hub_inv sha w" and step: "claim_browser sha wall sid token socket (hub w) = (h, True)"
  shows "hub_inv sha (w\<lparr>hub := h, hw_browser_claims := (sid, token, socket) # hw_browser_claims w,
    hw_relays := relay_started sid h @ hw_relays w\<rparr>)"
proof -
  from step obtain s where s: "map_of (hb_streams (hub w)) sid = Some s" "\<not> sm_browser_claimed s"
    "sm_token_sha s = sha token"
    "h = put_stream sid (maybe_pair (s\<lparr>sm_browser_claimed := True, sm_token_sha := [], sm_browser := Some socket\<rparr>)) (hub w)"
    by (rule claim_browserE)
  note ok = hub_invD(5) [OF inv s(1), unfolded stream_ok_def]
  have none: "map_of (hw_browser_claims w) sid = None" "map_of (hw_relays w) sid = None"
    using ok s(2) by blast+
  obtain granted where g: "map_of (hw_granted w) sid = Some (sm_executor_id s, granted)" "sha token = sha granted"
    using ok s(2,3) by (auto split: option.splits)
  let ?s = "maybe_pair (s\<lparr>sm_browser_claimed := True, sm_token_sha := [], sm_browser := Some socket\<rparr>)"
  have relay: "sm_relay ?s = sm_executor_ready s" "sm_browser ?s = Some socket" "sm_executor ?s = sm_executor s"
    using ok s(2) by (auto simp: maybe_pair_def)
  show ?thesis
  proof (rule hub_inv_update [OF inv s(1), of ?s])
    show "stream_ok sha (map_of (hw_granted w) sid)
        (map_of (hw_browser_claims (w\<lparr>hub := h, hw_browser_claims := (sid, token, socket) # hw_browser_claims w,
          hw_relays := relay_started sid h @ hw_relays w\<rparr>)) sid)
        (map_of (hw_executor_claims (w\<lparr>hub := h, hw_browser_claims := (sid, token, socket) # hw_browser_claims w,
          hw_relays := relay_started sid h @ hw_relays w\<rparr>)) sid)
        (map_of (hw_relays (w\<lparr>hub := h, hw_browser_claims := (sid, token, socket) # hw_browser_claims w,
          hw_relays := relay_started sid h @ hw_relays w\<rparr>)) sid) ?s"
      using ok s(2) none g(1) by (auto simp: stream_ok_def s(4) relay_started_put maybe_pair_def)
    show "records_ok sha (map_of (hw_granted w) sid)
        (map_of (hw_browser_claims (w\<lparr>hub := h, hw_browser_claims := (sid, token, socket) # hw_browser_claims w,
          hw_relays := relay_started sid h @ hw_relays w\<rparr>)) sid)
        (map_of (hw_executor_claims (w\<lparr>hub := h, hw_browser_claims := (sid, token, socket) # hw_browser_claims w,
          hw_relays := relay_started sid h @ hw_relays w\<rparr>)) sid)
        (map_of (hw_relays (w\<lparr>hub := h, hw_browser_claims := (sid, token, socket) # hw_browser_claims w,
          hw_relays := relay_started sid h @ hw_relays w\<rparr>)) sid)"
      using hub_invD(6) [OF inv, of sid] ok none g relay by (auto simp: records_ok_def s(4) relay_started_put)
  qed (use hub_invD(2-4) [OF inv] none in \<open>auto simp: s(4) relay_started_put relay map_of_NoneD intro: map_of_NoneD\<close>)
qed

lemma hub_inv_executor:
  assumes inv: "hub_inv sha w" and step: "claim_executor now wall sid eid socket (hub w) = (h, True)"
  shows "hub_inv sha (w\<lparr>hub := h, hw_executor_claims := (sid, eid, socket) # hw_executor_claims w\<rparr>)"
proof -
  let ?w = "w\<lparr>hub := h, hw_executor_claims := (sid, eid, socket) # hw_executor_claims w\<rparr>"
  from step obtain s s' where s: "map_of (hb_streams (hub w)) sid = Some s" "\<not> sm_executor_claimed s"
    "sm_executor_id s = eid" "h = put_stream sid s' (hub w)" and
    s': "s' = s\<lparr>sm_executor_claimed := True, sm_executor := Some socket\<rparr> \<and> sm_browser_claimed s \<or>
     \<not> sm_browser_claimed s \<and> s' = s\<lparr>sm_executor_claimed := True, sm_executor := Some socket,
       sm_expires_at := wall + hb_token_ttl (hub w), sm_timer := Some (now + hb_token_ttl (hub w))\<rparr>"
    by (rule claim_executorE)
  note ok = hub_invD(5) [OF inv s(1), unfolded stream_ok_def]
  have none: "map_of (hw_executor_claims w) sid = None" "map_of (hw_relays w) sid = None"
    using ok s(2) by blast+
  obtain granted where g: "map_of (hw_granted w) sid = Some (eid, granted)"
    using ok s(3) by (auto split: option.splits)
  show ?thesis
  proof (rule hub_inv_update [OF inv s(1), of s'])
    show "stream_ok sha (map_of (hw_granted w) sid) (map_of (hw_browser_claims ?w) sid)
        (map_of (hw_executor_claims ?w) sid) (map_of (hw_relays ?w) sid) s'"
      using ok s(2) none s' g by (elim disjE conjE) (simp_all add: stream_ok_def)
    show "records_ok sha (map_of (hw_granted w) sid) (map_of (hw_browser_claims ?w) sid)
        (map_of (hw_executor_claims ?w) sid) (map_of (hw_relays ?w) sid)"
      using hub_invD(6) [OF inv, of sid] none g by (simp add: records_ok_def)
    show "sm_marker s' = sm_marker s" using s' by auto
    show "dict_ok (hw_executor_claims ?w)" using map_of_NoneD [OF none(1)] hub_invD(3) [OF inv] by simp
  qed (use hub_invD(2-4) [OF inv] s(4) in simp_all)
qed

lemma hub_inv_activate:
  assumes inv: "hub_inv sha w" and step: "activate_executor sid (hub w) = (h, True)"
  shows "hub_inv sha (w\<lparr>hub := h, hw_relays := relay_started sid h @ hw_relays w\<rparr>)"
proof -
  let ?w = "w\<lparr>hub := h, hw_relays := relay_started sid h @ hw_relays w\<rparr>"
  from step obtain s where s: "map_of (hb_streams (hub w)) sid = Some s" "sm_executor_claimed s"
    "\<not> sm_executor_ready s" "h = put_stream sid (maybe_pair (s\<lparr>sm_executor_ready := True\<rparr>)) (hub w)"
    by (rule activate_executorE)
  let ?s = "maybe_pair (s\<lparr>sm_executor_ready := True\<rparr>)"
  note ok = hub_invD(5) [OF inv s(1), unfolded stream_ok_def]
  have none: "map_of (hw_relays w) sid = None" using ok s(3) by blast
  obtain granted where g: "map_of (hw_granted w) sid = Some (sm_executor_id s, granted)"
    using ok by (auto split: option.splits)
  have relay: "sm_relay ?s = sm_browser_claimed s" "sm_browser ?s = sm_browser s" "sm_executor ?s = sm_executor s"
    using ok s(2,3) by (auto simp: maybe_pair_def)
  show ?thesis
  proof (rule hub_inv_update [OF inv s(1), of ?s])
    show "stream_ok sha (map_of (hw_granted w) sid) (map_of (hw_browser_claims ?w) sid)
        (map_of (hw_executor_claims ?w) sid) (map_of (hw_relays ?w) sid) ?s"
      using ok s(2,3) none g by (auto simp: stream_ok_def s(4) relay_started_put maybe_pair_def)
    show "records_ok sha (map_of (hw_granted w) sid) (map_of (hw_browser_claims ?w) sid)
        (map_of (hw_executor_claims ?w) sid) (map_of (hw_relays ?w) sid)"
      using hub_invD(6) [OF inv, of sid] ok s(2) none relay by (auto simp: records_ok_def s(4) relay_started_put)
  qed (use hub_invD(2-4) [OF inv] none in \<open>auto simp: s(4) relay_started_put relay map_of_eq_None_iff\<close>)
qed

lemma hub_inv_create:
  assumes inv: "hub_inv sha w"
    and step: "stream_create sha now wall task loop draws token eid (hub w) = Some (h, Inr g)"
    and new: "map_of (hw_granted w) (gr_stream_id g) = None"
  shows "hub_inv sha (w\<lparr>hub := h, hw_granted := (gr_stream_id g, eid, token) # hw_granted w\<rparr>)"
proof -
  let ?sid = "gr_stream_id g"
  from step obtain h1 marker where c: "admit_stream task loop (hub w) = (h1, Inr marker)"
    "int (length (hb_streams (hub w))) < hb_max_streams (hub w)" "map_of (hb_streams (hub w)) ?sid = None"
    "h = put_stream ?sid (fresh_stream sha now wall (hb_token_ttl (hub w)) token eid marker) h1"
    by (rule stream_create_Inr)
  have same: "hb_streams h1 = hb_streams (hub w)" using c(1) by (auto elim!: admit_stream_Inr)
  have slots: "slot_inv h"
    unfolding c(4) by (rule slot_inv_create [OF hub_invD(1) [OF inv] c(1-3)]) (simp add: fresh_stream_def)
  have none: "map_of (hw_browser_claims w) ?sid = None" "map_of (hw_executor_claims w) ?sid = None"
    "map_of (hw_relays w) ?sid = None"
    using hub_invD(6) [OF inv, of ?sid] new unfolding records_ok_def by (metis option.exhaust surj_pair option.distinct(1) option.simps(8))+
  show ?thesis
    unfolding hub_inv_def
  proof (intro conjI allI impI)
    fix sid s
    assume "map_of (hb_streams (hub (w\<lparr>hub := h, hw_granted := (?sid, eid, token) # hw_granted w\<rparr>))) sid = Some s"
    then show "stream_ok sha (map_of (hw_granted (w\<lparr>hub := h, hw_granted := (?sid, eid, token) # hw_granted w\<rparr>)) sid)
        (map_of (hw_browser_claims (w\<lparr>hub := h, hw_granted := (?sid, eid, token) # hw_granted w\<rparr>)) sid)
        (map_of (hw_executor_claims (w\<lparr>hub := h, hw_granted := (?sid, eid, token) # hw_granted w\<rparr>)) sid)
        (map_of (hw_relays (w\<lparr>hub := h, hw_granted := (?sid, eid, token) # hw_granted w\<rparr>)) sid) s"
      using hub_invD(5) [OF inv, of sid s] none
      by (cases "sid = ?sid") (auto simp: c(4) put_stream_def same fresh_stream_def stream_ok_def)
  next
    fix sid
    show "records_ok sha (map_of (hw_granted (w\<lparr>hub := h, hw_granted := (?sid, eid, token) # hw_granted w\<rparr>)) sid)
        (map_of (hw_browser_claims (w\<lparr>hub := h, hw_granted := (?sid, eid, token) # hw_granted w\<rparr>)) sid)
        (map_of (hw_executor_claims (w\<lparr>hub := h, hw_granted := (?sid, eid, token) # hw_granted w\<rparr>)) sid)
        (map_of (hw_relays (w\<lparr>hub := h, hw_granted := (?sid, eid, token) # hw_granted w\<rparr>)) sid)"
      using hub_invD(6) [OF inv, of sid] none by (cases "sid = ?sid") (simp_all add: records_ok_def)
  qed (use slots hub_invD(2-4) [OF inv] in simp_all)
qed

lemma hub_inv_init: "hub_init w \<Longrightarrow> hub_inv sha w"
  by (auto simp: hub_init_def hub_inv_def slot_inv_def records_ok_def new_hub_def new_slots_def marker_of_def ran_def)

lemma hub_inv_step:
  assumes "hub_inv sha w" and "hub_step sha w w'"
  shows "hub_inv sha w'"
  using assms(2)
proof cases
  case (hub_create now wall task loop draws token eid h g)
  then show ?thesis using hub_inv_create [OF assms(1)] by simp
next
  case (hub_create_refused now wall task loop draws token eid h e)
  then have "w' = w" using stream_create_Inl by auto
  with assms(1) show ?thesis by simp
next
  case (hub_browser wall sid token socket h)
  then show ?thesis using hub_inv_browser [OF assms(1)] by simp
next
  case (hub_executor now wall sid eid socket h)
  then show ?thesis using hub_inv_executor [OF assms(1)] by simp
next
  case (hub_activate sid h)
  then show ?thesis using hub_inv_activate [OF assms(1)] by simp
next
  case (hub_close code reason sid)
  then show ?thesis using hub_inv_close [OF assms(1)] by simp
next
  case (hub_expire sid s due now)
  then show ?thesis using hub_inv_close [OF assms(1)] by (simp add: expire_stream_def)
next
  case (hub_relay_finish sid s)
  then show ?thesis using hub_inv_close [OF assms(1)] by (simp add: relay_finish_def)
next
  case hub_mark_closed
  then show ?thesis by (simp only:) (rule hub_inv_slots [OF assms(1)], simp_all)
next
  case (hub_slots_start l)
  then show ?thesis by (simp only:) (rule hub_inv_slots [OF assms(1)], auto simp: slots_start_def)
next
  case hub_slots_stop
  then show ?thesis by (simp only:) (rule hub_inv_slots [OF assms(1)], auto simp: stop_admission_def)
next
  case (hub_slots_close l c fin)
  then show ?thesis
    by (simp only:) (rule hub_inv_slots [OF assms(1)], auto simp: slots_aclose_def stop_admission_def split: if_splits)
qed

interpretation terminals: invariant_machine hub_init "hub_step sha" "hub_inv sha" for sha
  by unfold_locales (auto intro: hub_inv_init hub_inv_step)

section \<open>Properties\<close>

text \<open>
  C23. A terminal relay joins exactly the two sides its stream was created for. In every reachable
  state, each stream is claimed at most once from each side and relayed at most once; a relay joins
  the socket that presented the token of the stream's grant with the socket the executor named in
  that grant claimed, and the state of a live stream is the one its claims say.
\<close>

theorem terminal_relay_joins_claimants:
  assumes "reach hub_init (hub_step sha) w"
  shows "dict_ok (hw_browser_claims w) \<and> dict_ok (hw_executor_claims w) \<and> dict_ok (hw_relays w) \<and>
    (map_of (hw_relays w) sid = Some (b, e) \<longrightarrow>
      (\<exists>eid granted token. map_of (hw_granted w) sid = Some (eid, granted) \<and> sha token = sha granted \<and>
         map_of (hw_browser_claims w) sid = Some (token, b) \<and> map_of (hw_executor_claims w) sid = Some (eid, e))) \<and>
    (map_of (hb_streams (hub w)) sid = Some s \<longrightarrow>
      (sm_relay s \<longleftrightarrow> map_of (hw_relays w) sid \<noteq> None) \<and>
      (sm_browser_claimed s \<longleftrightarrow> map_of (hw_browser_claims w) sid \<noteq> None) \<and>
      (sm_executor_claimed s \<longleftrightarrow> map_of (hw_executor_claims w) sid \<noteq> None))"
proof -
  note inv = terminals.reach_inv [OF assms]
  have joins: "\<exists>eid granted token. map_of (hw_granted w) sid = Some (eid, granted) \<and> sha token = sha granted \<and>
         map_of (hw_browser_claims w) sid = Some (token, b) \<and> map_of (hw_executor_claims w) sid = Some (eid, e)"
    if "map_of (hw_relays w) sid = Some (b, e)"
  proof -
    note rec = hub_invD(6) [OF inv, of sid, unfolded records_ok_def]
    have "map_option snd (map_of (hw_browser_claims w) sid) = Some b \<and> map_option snd (map_of (hw_executor_claims w) sid) = Some e"
      using rec that by blast
    then obtain token eid where b: "map_of (hw_browser_claims w) sid = Some (token, b)"
      and e: "map_of (hw_executor_claims w) sid = Some (eid, e)"
      by (auto simp del: map_of_eq_Some_iff)
    obtain eid' granted where "map_of (hw_granted w) sid = Some (eid', granted)" "sha token = sha granted"
      using rec b by blast
    moreover obtain granted' where "map_of (hw_granted w) sid = Some (eid, granted')" using rec e by blast
    ultimately show ?thesis using b e by auto
  qed
  have "(sm_relay s \<longleftrightarrow> map_of (hw_relays w) sid \<noteq> None) \<and>
      (sm_browser_claimed s \<longleftrightarrow> map_of (hw_browser_claims w) sid \<noteq> None) \<and>
      (sm_executor_claimed s \<longleftrightarrow> map_of (hw_executor_claims w) sid \<noteq> None)"
    if "map_of (hb_streams (hub w)) sid = Some s"
    using hub_invD(5) [OF inv that] unfolding stream_ok_def by blast
  with joins hub_invD(2-4) [OF inv] show ?thesis by blast
qed

text \<open>
  C24. Terminal streams hold connection slots exactly, and none lingers. In every reachable state the
  streams are within their limit, and a slot is active exactly when a live stream holds it, a single
  one, until the slots themselves are closed; a live stream either relays or has an expiry pending;
  and closing a stream, for whatever reason, ends every wait for it and frees its slot.
\<close>

theorem terminal_slots_conserved:
  assumes "reach hub_init (hub_step sha) w" and "hb_slots (hub w) = Some sl"
  shows "int (length (hb_streams (hub w))) \<le> hb_max_streams (hub w) \<and>
    (sl_closed sl \<and> sl_active sl = [] \<or>
      (\<forall>m. map_of (sl_active sl) m \<noteq> None \<longleftrightarrow> (\<exists>!sid. marker_of (hub w) sid = Some m))) \<and>
    (map_of (hb_streams (hub w)) sid = Some s \<longrightarrow>
      (\<exists>m. sm_marker s = Some m \<and> (sm_timer s = None \<longleftrightarrow> sm_relay s) \<and>
        (case close_stream code reason sid (hub w) of (h, ended) \<Rightarrow>
           wait_closed_returns sid h \<and> map fst ended = List.map_filter id [sm_browser s, sm_executor s] \<and>
           map_option (\<lambda>sl. map_of (sl_active sl) m) (hb_slots h) = Some None)))"
proof -
  note inv = terminals.reach_inv [OF assms(1)] and slot = hub_invD(1) [OF terminals.reach_inv [OF assms(1)]]
  have "m \<in> ran (marker_of (hub w)) \<longleftrightarrow> (\<exists>!sid. marker_of (hub w) sid = Some m)" for m
    using slot_invD(3) [OF slot] unfolding ran_def by blast
  then have active: "sl_closed sl \<and> sl_active sl = [] \<or>
      (\<forall>m. map_of (sl_active sl) m \<noteq> None \<longleftrightarrow> (\<exists>!sid. marker_of (hub w) sid = Some m))"
    using slot_invD(7) [OF slot assms(2)] by auto
  have live: "\<exists>m. sm_marker s = Some m \<and> (sm_timer s = None \<longleftrightarrow> sm_relay s) \<and>
        (case close_stream code reason sid (hub w) of (h, ended) \<Rightarrow>
           wait_closed_returns sid h \<and> map fst ended = List.map_filter id [sm_browser s, sm_executor s] \<and>
           map_option (\<lambda>sl. map_of (sl_active sl) m) (hb_slots h) = Some None)"
    if s: "map_of (hb_streams (hub w)) sid = Some s"
  proof -
    obtain m where m: "sm_marker s = Some m"
      using slot_invD(4) [OF slot, of sid] s assms(2) by (auto simp: marker_of_def)
    have "sm_timer s = None \<longleftrightarrow> sm_relay s" using hub_invD(5) [OF inv s] unfolding stream_ok_def by blast
    with s m assms(2) show ?thesis
      by (simp add: close_stream_def wait_closed_returns_def release_def comp_def)
  qed
  show ?thesis using slot_invD(2) [OF slot] active live by blast
qed

section \<open>A concrete run\<close>

definition demo_grant :: stream_grant where
  "demo_grant = \<lparr>gr_stream_id = lit ''stream_a'', gr_browser_token = lit ''t'', gr_expires_at = 30\<rparr>"

definition demo_stream :: stream where
  "demo_stream = fresh_stream id 0 0 30 (lit ''t'') (lit ''e'') (Some 1)"

definition demo_hub :: "stream \<Rightarrow> stream_hub" where
  "demo_hub s = \<lparr>hb_max_streams = 1, hb_idle_timeout = 0, hb_token_ttl = 30,
     hb_slots = Some \<lparr>sl_next = 2, sl_active = [(1, None)], sl_loop = None, sl_closed = False\<rparr>,
     hb_slot_max = 1, hb_streams = [(lit ''stream_a'', s)], hb_closed = False\<rparr>"

definition demo_new_hub :: hub_world where
  "demo_new_hub = \<lparr>hub = new_hub 1 0 30 (Some new_slots) 1, hw_granted = [], hw_browser_claims = [],
     hw_executor_claims = [], hw_relays = []\<rparr>"

definition demo_granted :: hub_world where
  "demo_granted = demo_new_hub\<lparr>hub := demo_hub demo_stream, hw_granted := [(lit ''stream_a'', lit ''e'', lit ''t'')]\<rparr>"

definition demo_attached :: hub_world where
  "demo_attached = demo_granted\<lparr>hub := demo_hub (demo_stream\<lparr>sm_executor_claimed := True, sm_executor := Some 7,
     sm_expires_at := 31, sm_timer := Some 31\<rparr>), hw_executor_claims := [(lit ''stream_a'', lit ''e'', 7)]\<rparr>"

definition demo_ready_stream :: hub_world where
  "demo_ready_stream = demo_attached\<lparr>hub := demo_hub (demo_stream\<lparr>sm_executor_claimed := True, sm_executor := Some 7,
     sm_expires_at := 31, sm_timer := Some 31, sm_executor_ready := True\<rparr>)\<rparr>"

definition demo_relayed :: hub_world where
  "demo_relayed = demo_ready_stream\<lparr>hub := demo_hub (demo_stream\<lparr>sm_executor_claimed := True, sm_executor := Some 7,
     sm_expires_at := 31, sm_timer := None, sm_executor_ready := True, sm_browser_claimed := True,
     sm_token_sha := [], sm_browser := Some 8, sm_paired := True, sm_relay := True\<rparr>),
     hw_browser_claims := [(lit ''stream_a'', lit ''t'', 8)], hw_relays := [(lit ''stream_a'', 8, 7)]\<rparr>"

lemmas demo_hub_defs = demo_grant_def demo_stream_def demo_hub_def demo_new_hub_def demo_granted_def demo_attached_def
  demo_ready_stream_def demo_relayed_def fresh_stream_def

lemma demo_relayed_reach: "reach hub_init (hub_step id) demo_relayed"
proof (rule reach_step, rule reach_step, rule reach_step, rule reach_step, rule reach_init)
  show "hub_init demo_new_hub" by (auto simp: hub_init_def demo_new_hub_def)
  have "stream_create id 0 0 None None [lit ''a''] (lit ''t'') (lit ''e'') (hub demo_new_hub) =
      Some (demo_hub demo_stream, Inr demo_grant)"
    by (simp add: stream_create_def admit_stream_def reserve_def new_hub_def new_slots_def put_stream_def
        schedule_expiry_def demo_hub_defs)
  from hub_step.hub_create [OF this] show "hub_step id demo_new_hub demo_granted"
    by (simp add: demo_granted_def) (simp add: demo_new_hub_def demo_grant_def)
  have "claim_executor 1 1 (lit ''stream_a'') (lit ''e'') 7 (hub demo_granted) = (hub demo_attached, True)"
    by (simp add: claim_executor_def schedule_expiry_def put_stream_def demo_hub_defs)
  from hub_step.hub_executor [OF this] show "hub_step id demo_granted demo_attached"
    by (simp add: demo_attached_def) (simp add: demo_granted_def demo_new_hub_def)
  have "activate_executor (lit ''stream_a'') (hub demo_attached) = (hub demo_ready_stream, True)"
    by (simp add: activate_executor_def maybe_pair_def put_stream_def demo_hub_defs)
  from hub_step.hub_activate [OF this] show "hub_step id demo_attached demo_ready_stream"
    by (simp add: relay_started_def demo_hub_defs)
  have "claim_browser id 2 (lit ''stream_a'') (lit ''t'') 8 (hub demo_ready_stream) = (hub demo_relayed, True)"
    by (simp add: claim_browser_def maybe_pair_def put_stream_def demo_hub_defs)
  from hub_step.hub_browser [OF this] show "hub_step id demo_ready_stream demo_relayed"
    by (simp add: relay_started_def demo_hub_defs)
qed

theorem terminal_relay_joins_claimants_witness:
  "\<exists>eid. map_of (hw_granted demo_relayed) (lit ''stream_a'') = Some (eid, lit ''t'') \<and>
     map_of (hw_executor_claims demo_relayed) (lit ''stream_a'') = Some (eid, 7)"
  using terminal_relay_joins_claimants [OF demo_relayed_reach, of "lit ''stream_a''" 8 7]
  by (simp add: demo_relayed_def demo_ready_stream_def demo_attached_def demo_granted_def demo_new_hub_def)

theorem terminal_slots_conserved_witness:
  "map_of (sl_active (the (hb_slots (hub demo_relayed)))) 1 = Some None \<and>
   (\<exists>sid. marker_of (hub demo_relayed) sid = Some 1)"
proof -
  have slots: "hb_slots (hub demo_relayed) = Some \<lparr>sl_next = 2, sl_active = [(1, None)], sl_loop = None, sl_closed = False\<rparr>"
    by (simp add: demo_hub_defs)
  from terminal_slots_conserved [OF demo_relayed_reach slots, of undefined undefined 0 "[]"]
  have "\<forall>m. map_of [(1, None :: nat option)] m \<noteq> None \<longleftrightarrow> (\<exists>!sid. marker_of (hub demo_relayed) sid = Some m)"
    by (simp del: map_of.simps)
  then have "\<exists>!sid. marker_of (hub demo_relayed) sid = Some 1" by (metis map_of_Cons_code(2) option.distinct(1))
  with slots show ?thesis by auto
qed

end
