(* ===== verification/Job_Rows.thy ===== *)
theory Job_Rows
  imports State_Store
begin

text \<open>
  Tracked jobs: the durable row of a job, its operation tokens and its public projection
  (\<open>src/src/workgate/jobs/state.py\<close>), and the decision that reconciles a row with what was observed
  of its shell, its receipt or its lease (\<open>jobs/reconciliation.py\<close>, \<open>jobs/status.py\<close>).

  A row is a record with one field per key of \<open>JobRow\<close>; an absent key and a key that holds \<open>None\<close> are
  both \<open>None\<close>, as \<open>row.get\<close> reads them. Statuses and kinds are the strings of the code as
  constructors, any other string being \<open>JobOther\<close> or \<open>OtherKind\<close>. \<open>now\<close> is the clock.
\<close>

section \<open>Rows\<close>

datatype job_status =
    JobStarting | JobRunning | JobStopping | JobRetrying
  | JobSucceeded | JobFailed | JobExited | JobStopped | JobLost
  | JobOther ustr

datatype job_kind = ShellJob | ManagedJob | OtherKind ustr

datatype job_operation = OpStart | OpStop | OpRetry

record job_row =
  jr_job_id :: "ustr option"
  jr_kind :: "job_kind option"
  jr_name :: "ustr option"
  jr_status :: "job_status option"
  jr_command :: "ustr option"
  jr_cwd :: "ustr option"
  jr_session_id :: "ustr option"
  jr_shell_id :: "ustr option"
  jr_command_path :: "ustr option"
  jr_log_path :: "ustr option"
  jr_status_path :: "ustr option"
  jr_created_at :: "time option"
  jr_updated_at :: "time option"
  jr_last_started_at :: "time option"
  jr_completed_at :: "time option"
  jr_exit_code :: "int option"
  jr_error :: "ustr option"
  jr_log_truncated :: bool
  jr_output_bytes :: "int option"
  jr_attempts :: "int option"
  jr_managed_kind :: "ustr option"
  jr_managed_payload :: "json option"
  jr_runtime_instance_id :: "ustr option"
  jr_lease_version :: "int option"
  jr_progress :: "json option"
  jr_result :: "json option"
  jr_shell_absent :: bool
  jr_operation_id :: "ustr option"
  jr_operation_kind :: "job_operation option"
  jr_operation_started_at :: "time option"
  jr_pending_attempt :: "int option"
  jr_pending_shell_id :: "ustr option"
  jr_pending_command_path :: "ustr option"
  jr_pending_log_path :: "ustr option"
  jr_pending_status_path :: "ustr option"
  jr_applied :: "ustr list"

text \<open>\<open>str(x or d)\<close> and \<open>float(x or d)\<close>: the empty string and zero count as absent.\<close>

definition str_or :: "ustr \<Rightarrow> ustr option \<Rightarrow> ustr" where
  "str_or d x = (case x of None \<Rightarrow> d | Some s \<Rightarrow> if s = [] then d else s)"

definition num_or :: "'a :: zero \<Rightarrow> 'a option \<Rightarrow> 'a" where
  "num_or d x = (case x of None \<Rightarrow> d | Some n \<Rightarrow> if n = 0 then d else n)"

definition row_status :: "job_row \<Rightarrow> job_status" where
  "row_status j = (case jr_status j of None \<Rightarrow> JobOther (lit ''unknown'') | Some s \<Rightarrow> s)"

definition row_kind :: "job_row \<Rightarrow> job_kind" where
  "row_kind j = (case jr_kind j of None \<Rightarrow> ShellJob | Some k \<Rightarrow> k)"

definition active_statuses :: "job_status list" where
  "active_statuses = [JobStarting, JobRunning, JobStopping, JobRetrying]"

definition confirmed_terminal_statuses :: "job_status list" where
  "confirmed_terminal_statuses = [JobSucceeded, JobFailed, JobExited, JobStopped]"

definition terminal_statuses :: "job_status list" where
  "terminal_statuses = [JobSucceeded, JobFailed, JobExited, JobStopped, JobLost]"

definition job_active :: "job_row \<Rightarrow> bool" where
  "job_active j \<longleftrightarrow> row_status j \<in> set active_statuses"

definition managed_state_max_bytes :: nat where
  "managed_state_max_bytes = 262144"

text \<open>\<open>managed_json_dict\<close>; \<open>bytes\<close> is the length of the compact encoding.\<close>

datatype json_error = NotAnObject | TooLarge

definition managed_json_dict :: "(json \<Rightarrow> nat) \<Rightarrow> json \<Rightarrow> json_error + json" where
  "managed_json_dict bytes v =
     (case v of
        JObj _ \<Rightarrow> if managed_state_max_bytes < bytes v then Inl TooLarge else Inr v
      | _ \<Rightarrow> Inl NotAnObject)"

definition job_shell_id :: "job_row \<Rightarrow> ustr" where
  "job_shell_id j = str_or [] (jr_shell_id j)"

definition session_jobs :: "job_row list \<Rightarrow> ustr \<Rightarrow> job_row list" where
  "session_jobs rows session = filter (\<lambda>j. jr_session_id j = Some session) rows"

definition is_session_job :: "ustr \<Rightarrow> ustr \<Rightarrow> job_row \<Rightarrow> bool" where
  "is_session_job session job j \<longleftrightarrow> jr_job_id j = Some job \<and> jr_session_id j = Some session"

definition find_session_job :: "job_row list \<Rightarrow> ustr \<Rightarrow> ustr \<Rightarrow> job_row option" where
  "find_session_job rows session job = find (is_session_job session job) rows"

section \<open>Operation tokens\<close>

text \<open>
  \<open>ops\<close> is the set of tokens the process holds, \<open>_ACTIVE_JOB_OPERATIONS\<close>; the random part of a new
  token is an argument.
\<close>

definition operation_name :: "job_operation \<Rightarrow> ustr" where
  "operation_name k = (case k of OpStart \<Rightarrow> lit ''start'' | OpStop \<Rightarrow> lit ''stop'' | OpRetry \<Rightarrow> lit ''retry'')"

definition begin_job_operation ::
  "time \<Rightarrow> ustr \<Rightarrow> job_operation \<Rightarrow> ustr list \<Rightarrow> job_row \<Rightarrow> ustr list \<times> job_row \<times> ustr" where
  "begin_job_operation now hex kind ops j =
     (let token = operation_name kind @ lit ''_'' @ hex
      in (List.insert token ops,
          j\<lparr>jr_operation_id := Some token, jr_operation_kind := Some kind, jr_operation_started_at := Some now\<rparr>,
          token))"

definition job_operation_matches :: "job_row \<Rightarrow> ustr \<Rightarrow> bool" where
  "job_operation_matches j token \<longleftrightarrow> str_or [] (jr_operation_id j) = token"

definition job_operation_is_active :: "ustr list \<Rightarrow> job_row \<Rightarrow> job_operation \<Rightarrow> bool" where
  "job_operation_is_active ops j kind \<longleftrightarrow>
     str_or [] (jr_operation_id j) \<noteq> [] \<and> jr_operation_kind j = Some kind \<and>
     str_or [] (jr_operation_id j) \<in> set ops"

definition discard_job_operation :: "ustr \<Rightarrow> ustr list \<Rightarrow> ustr list" where
  "discard_job_operation token ops = removeAll token ops"

definition clear_operation_keys :: "job_row \<Rightarrow> job_row" where
  "clear_operation_keys j =
     j\<lparr>jr_operation_id := None, jr_operation_kind := None, jr_operation_started_at := None\<rparr>"

definition clear_job_operation :: "ustr list \<Rightarrow> job_row \<Rightarrow> ustr list \<times> job_row" where
  "clear_job_operation ops j =
     (let token = str_or [] (jr_operation_id j)
      in (if token \<noteq> [] then discard_job_operation token ops else ops, clear_operation_keys j))"

definition clear_pending_retry :: "job_row \<Rightarrow> job_row" where
  "clear_pending_retry j =
     j\<lparr>jr_pending_attempt := None, jr_pending_shell_id := None, jr_pending_command_path := None,
       jr_pending_log_path := None, jr_pending_status_path := None\<rparr>"

section \<open>The public projection\<close>

record job_info =
  ji_job_id :: ustr
  ji_kind :: job_kind
  ji_name :: ustr
  ji_status :: job_status
  ji_command :: ustr
  ji_cwd :: ustr
  ji_session_id :: ustr
  ji_progress :: "json option"
  ji_result :: "json option"
  ji_created_at :: time
  ji_updated_at :: time
  ji_last_started_at :: "time option"
  ji_completed_at :: "time option"
  ji_exit_code :: "int option"
  ji_error :: "ustr option"
  ji_log_truncated :: bool
  ji_output_bytes :: int
  ji_attempts :: int

definition public_job :: "job_row \<Rightarrow> job_info" where
  "public_job j =
     \<lparr>ji_job_id = str_or [] (jr_job_id j), ji_kind = row_kind j,
      ji_name = str_or (str_or [] (jr_job_id j)) (jr_name j), ji_status = row_status j,
      ji_command = str_or [] (jr_command j), ji_cwd = str_or (lit ''.'') (jr_cwd j),
      ji_session_id = str_or [] (jr_session_id j), ji_progress = jr_progress j, ji_result = jr_result j,
      ji_created_at = num_or 0 (jr_created_at j), ji_updated_at = num_or 0 (jr_updated_at j),
      ji_last_started_at = jr_last_started_at j, ji_completed_at = jr_completed_at j,
      ji_exit_code = jr_exit_code j, ji_error = jr_error j, ji_log_truncated = jr_log_truncated j,
      ji_output_bytes = num_or 0 (jr_output_bytes j), ji_attempts = num_or 1 (jr_attempts j)\<rparr>"

section \<open>Reconciliation\<close>

datatype shell_liveness = ShellLive | ShellAbsent | ShellUnknown

datatype managed_liveness = LeaseLive | LeaseDead | LeaseUnknown

record status_payload =
  sp_exit_code :: "int option"
  sp_completed_at :: "time option"
  sp_error :: "ustr option"
  sp_log_truncated :: bool
  sp_output_bytes :: "int option"

record job_observation =
  ob_now :: time
  ob_shell :: shell_liveness
  ob_status :: "status_payload option"
  ob_pending_status :: "status_payload option"
  ob_operation :: "job_operation option"
  ob_local_task :: bool
  ob_managed :: managed_liveness

text \<open>The keys a transition writes, and those it removes.\<close>

datatype job_update =
    SetStatus job_status
  | SetUpdatedAt time
  | SetCompletedAt "time option"
  | SetLastStartedAt time
  | SetExitCode "int option"
  | SetError "ustr option"
  | SetLogTruncated bool
  | SetOutputBytes int
  | SetAttempts int
  | SetShellId ustr
  | SetCommandPath ustr
  | SetLogPath ustr
  | SetStatusPath ustr
  | SetShellAbsent

datatype removed_keys = PendingRetryKeys | ShellAbsentKey

record job_transition =
  tr_updates :: "job_update list"
  tr_remove_keys :: "removed_keys list"
  tr_clear_operation :: bool

definition no_transition :: job_transition where
  "no_transition = \<lparr>tr_updates = [], tr_remove_keys = [], tr_clear_operation = False\<rparr>"

definition completion_transition ::
  "status_payload \<Rightarrow> time \<Rightarrow> job_update list \<Rightarrow> removed_keys list \<Rightarrow> job_transition" where
  "completion_transition payload now updates remove_keys =
     (let completed = num_or now (sp_completed_at payload)
      in \<lparr>tr_updates = updates @
            [SetStatus (if sp_exit_code payload = Some 0 then JobSucceeded else JobFailed),
             SetUpdatedAt completed, SetCompletedAt (Some completed), SetExitCode (sp_exit_code payload),
             SetError (sp_error payload), SetLogTruncated (sp_log_truncated payload),
             SetOutputBytes (num_or 0 (sp_output_bytes payload))],
          tr_remove_keys = remove_keys @ [ShellAbsentKey], tr_clear_operation = True\<rparr>)"

definition truthy_updates :: "(ustr \<Rightarrow> job_update) \<Rightarrow> ustr option \<Rightarrow> job_update list" where
  "truthy_updates f v = (case v of None \<Rightarrow> [] | Some s \<Rightarrow> if s = [] then [] else [f s])"

definition pending_retry_updates :: "job_row \<Rightarrow> job_update list" where
  "pending_retry_updates j =
     (case jr_pending_attempt j of None \<Rightarrow> [] | Some n \<Rightarrow> [SetAttempts n]) @
     truthy_updates SetShellId (jr_pending_shell_id j) @
     truthy_updates SetCommandPath (jr_pending_command_path j) @
     truthy_updates SetLogPath (jr_pending_log_path j) @
     truthy_updates SetStatusPath (jr_pending_status_path j)"

definition expected_operation :: "job_status \<Rightarrow> job_operation option" where
  "expected_operation s =
     (case s of JobStarting \<Rightarrow> Some OpStart | JobStopping \<Rightarrow> Some OpStop | JobRetrying \<Rightarrow> Some OpRetry | _ \<Rightarrow> None)"

definition reconcile_lost :: "job_observation \<Rightarrow> job_transition" where
  "reconcile_lost ob =
     (case ob_status ob of
        Some payload \<Rightarrow> completion_transition payload (ob_now ob) [] []
      | None \<Rightarrow>
          (case ob_shell ob of
             ShellUnknown \<Rightarrow> no_transition
           | ShellLive \<Rightarrow>
               \<lparr>tr_updates = [SetStatus JobRunning, SetUpdatedAt (ob_now ob), SetCompletedAt None,
                  SetExitCode None, SetError (Some (lit ''recovered a lost job whose shell is still active''))],
                tr_remove_keys = [ShellAbsentKey], tr_clear_operation = False\<rparr>
           | ShellAbsent \<Rightarrow> \<lparr>tr_updates = [SetShellAbsent], tr_remove_keys = [], tr_clear_operation = False\<rparr>))"

definition reconcile_managed :: "job_status \<Rightarrow> job_observation \<Rightarrow> job_transition" where
  "reconcile_managed status ob =
     (if ob_operation ob \<noteq> None then no_transition
      else if ob_local_task ob then no_transition
      else if ob_managed ob \<noteq> LeaseDead then no_transition
      else \<lparr>tr_updates =
              [SetStatus (if status = JobStopping then JobStopped else JobLost), SetUpdatedAt (ob_now ob),
               SetCompletedAt (Some (ob_now ob)), SetExitCode None,
               SetError (if status = JobStopping then None
                 else Some (lit ''managed job is no longer running; retry it to resume the operation''))],
            tr_remove_keys = [], tr_clear_operation = True\<rparr>)"

definition reconcile_starting :: "job_row \<Rightarrow> job_observation \<Rightarrow> job_transition" where
  "reconcile_starting j ob =
     (case ob_status ob of
        Some payload \<Rightarrow> completion_transition payload (ob_now ob) [] []
      | None \<Rightarrow>
          (case ob_shell ob of
             ShellUnknown \<Rightarrow> no_transition
           | ShellLive \<Rightarrow>
               \<lparr>tr_updates = [SetStatus JobRunning, SetUpdatedAt (ob_now ob),
                  SetLastStartedAt (num_or (ob_now ob) (jr_last_started_at j)), SetCompletedAt None,
                  SetExitCode None, SetError (Some (lit ''recovered job start after an interrupted state commit''))],
                tr_remove_keys = [], tr_clear_operation = True\<rparr>
           | ShellAbsent \<Rightarrow>
               \<lparr>tr_updates = [SetStatus JobFailed, SetUpdatedAt (ob_now ob), SetCompletedAt (Some (ob_now ob)),
                  SetExitCode None,
                  SetError (Some (lit ''job start was interrupted before a recoverable shell was created''))],
                tr_remove_keys = [], tr_clear_operation = True\<rparr>))"

definition reconcile_retrying :: "job_row \<Rightarrow> job_observation \<Rightarrow> job_transition" where
  "reconcile_retrying j ob =
     (case ob_pending_status ob of
        Some payload \<Rightarrow> completion_transition payload (ob_now ob) (pending_retry_updates j) [PendingRetryKeys]
      | None \<Rightarrow>
          (case ob_shell ob of
             ShellUnknown \<Rightarrow> no_transition
           | ShellLive \<Rightarrow>
               \<lparr>tr_updates = pending_retry_updates j @
                  [SetStatus JobRunning, SetUpdatedAt (ob_now ob), SetLastStartedAt (ob_now ob),
                   SetCompletedAt None, SetExitCode None,
                   SetError (Some (lit ''recovered retry after an interrupted state commit''))],
                tr_remove_keys = [PendingRetryKeys], tr_clear_operation = True\<rparr>
           | ShellAbsent \<Rightarrow>
               \<lparr>tr_updates = pending_retry_updates j @
                  [SetStatus JobFailed, SetUpdatedAt (ob_now ob), SetCompletedAt (Some (ob_now ob)),
                   SetExitCode None,
                   SetError (Some (lit ''retry was interrupted before a recoverable shell was committed''))],
                tr_remove_keys = [PendingRetryKeys], tr_clear_operation = True\<rparr>))"

definition reconcile_live :: "job_status \<Rightarrow> job_observation \<Rightarrow> job_transition" where
  "reconcile_live status ob =
     (case ob_status ob of
        Some payload \<Rightarrow> completion_transition payload (ob_now ob) [] []
      | None \<Rightarrow>
          (case ob_shell ob of
             ShellUnknown \<Rightarrow> no_transition
           | ShellLive \<Rightarrow>
               if status = JobStopping
               then \<lparr>tr_updates = [SetStatus JobRunning, SetUpdatedAt (ob_now ob),
                       SetError (Some (lit ''recovered an interrupted stop request; shell is still active''))],
                     tr_remove_keys = [], tr_clear_operation = True\<rparr>
               else no_transition
           | ShellAbsent \<Rightarrow>
               if status = JobStopping
               then \<lparr>tr_updates = [SetStatus JobStopped, SetUpdatedAt (ob_now ob),
                       SetCompletedAt (Some (ob_now ob)), SetExitCode None, SetError None],
                     tr_remove_keys = [], tr_clear_operation = True\<rparr>
               else \<lparr>tr_updates = [SetStatus JobLost, SetUpdatedAt (ob_now ob),
                       SetCompletedAt (Some (ob_now ob)), SetExitCode None,
                       SetError (Some (lit ''job shell exited without a durable completion record'')),
                       SetShellAbsent],
                     tr_remove_keys = [], tr_clear_operation = False\<rparr>))"

definition reconcile_job :: "job_row \<Rightarrow> job_observation \<Rightarrow> job_transition" where
  "reconcile_job j ob =
     (let status = row_status j; kind = row_kind j in
      if status = JobLost \<and> kind = ShellJob then reconcile_lost ob
      else if status \<notin> set active_statuses then no_transition
      else if kind = ManagedJob then reconcile_managed status ob
      else if expected_operation status \<noteq> None \<and> ob_operation ob = expected_operation status then no_transition
      else if status = JobStarting then reconcile_starting j ob
      else if status = JobRetrying then reconcile_retrying j ob
      else reconcile_live status ob)"

section \<open>Observing and applying\<close>

fun apply_update :: "job_update \<Rightarrow> job_row \<Rightarrow> job_row" where
  "apply_update (SetStatus s) j = j\<lparr>jr_status := Some s\<rparr>"
| "apply_update (SetUpdatedAt t) j = j\<lparr>jr_updated_at := Some t\<rparr>"
| "apply_update (SetCompletedAt t) j = j\<lparr>jr_completed_at := t\<rparr>"
| "apply_update (SetLastStartedAt t) j = j\<lparr>jr_last_started_at := Some t\<rparr>"
| "apply_update (SetExitCode c) j = j\<lparr>jr_exit_code := c\<rparr>"
| "apply_update (SetError e) j = j\<lparr>jr_error := e\<rparr>"
| "apply_update (SetLogTruncated b) j = j\<lparr>jr_log_truncated := b\<rparr>"
| "apply_update (SetOutputBytes n) j = j\<lparr>jr_output_bytes := Some n\<rparr>"
| "apply_update (SetAttempts n) j = j\<lparr>jr_attempts := Some n\<rparr>"
| "apply_update (SetShellId s) j = j\<lparr>jr_shell_id := Some s\<rparr>"
| "apply_update (SetCommandPath p) j = j\<lparr>jr_command_path := Some p\<rparr>"
| "apply_update (SetLogPath p) j = j\<lparr>jr_log_path := Some p\<rparr>"
| "apply_update (SetStatusPath p) j = j\<lparr>jr_status_path := Some p\<rparr>"
| "apply_update SetShellAbsent j = j\<lparr>jr_shell_absent := True\<rparr>"

fun remove_keys :: "removed_keys \<Rightarrow> job_row \<Rightarrow> job_row" where
  "remove_keys PendingRetryKeys j = clear_pending_retry j"
| "remove_keys ShellAbsentKey j = j\<lparr>jr_shell_absent := False\<rparr>"

definition apply_job_transition :: "ustr list \<Rightarrow> job_transition \<Rightarrow> job_row \<Rightarrow> ustr list \<times> job_row" where
  "apply_job_transition ops tr j =
     (let (ops, j) = (if tr_clear_operation tr then clear_job_operation ops j else (ops, j));
          j = fold remove_keys (tr_remove_keys tr) j
      in (ops, fold apply_update (tr_updates tr) j))"

definition observed_shell_liveness :: "ustr \<Rightarrow> ustr set option \<Rightarrow> shell_liveness" where
  "observed_shell_liveness shell active =
     (case active of
        None \<Rightarrow> ShellUnknown
      | Some shells \<Rightarrow> if shell \<noteq> [] \<and> shell \<in> shells then ShellLive else ShellAbsent)"

definition observed_active_operation :: "ustr list \<Rightarrow> job_row \<Rightarrow> job_operation option" where
  "observed_active_operation ops j = find (job_operation_is_active ops j) [OpStart, OpStop, OpRetry]"

text \<open>
  \<open>_refresh_job_status\<close>. \<open>receipt\<close> reads the completion receipt at a path (\<open>None\<close> for an absent path),
  \<open>local\<close> and \<open>lease\<close> are the probes of the managed task and of its lease.
\<close>

definition read_receipt :: "(ustr \<Rightarrow> status_payload option) \<Rightarrow> ustr option \<Rightarrow> status_payload option" where
  "read_receipt receipt path = (if str_or [] path = [] then None else receipt (str_or [] path))"

definition observe ::
  "(ustr \<Rightarrow> status_payload option) \<Rightarrow> (job_row \<Rightarrow> bool) \<Rightarrow> (job_row \<Rightarrow> managed_liveness) \<Rightarrow>
   ustr set option \<Rightarrow> time \<Rightarrow> ustr list \<Rightarrow> job_row \<Rightarrow> job_observation" where
  "observe receipt local_task lease shells now ops j =
     (let operation = observed_active_operation ops j;
          ob = \<lparr>ob_now = now, ob_shell = ShellUnknown, ob_status = None, ob_pending_status = None,
            ob_operation = operation, ob_local_task = False, ob_managed = LeaseUnknown\<rparr>
      in if row_kind j = ManagedJob
         then (if operation \<noteq> None then ob
               else if local_task j then ob\<lparr>ob_local_task := True\<rparr> else ob\<lparr>ob_managed := lease j\<rparr>)
         else if row_status j = JobRetrying
         then ob\<lparr>ob_pending_status := read_receipt receipt (jr_pending_status_path j),
                ob_shell := observed_shell_liveness (str_or [] (jr_pending_shell_id j)) shells\<rparr>
         else ob\<lparr>ob_status := read_receipt receipt (jr_status_path j),
                ob_shell := observed_shell_liveness (job_shell_id j) shells\<rparr>)"

definition operation_blocks :: "job_operation option \<Rightarrow> job_row \<Rightarrow> bool" where
  "operation_blocks operation j \<longleftrightarrow>
     operation \<noteq> None \<and>
     (row_kind j = ManagedJob \<or>
      row_status j = JobStarting \<and> operation = Some OpStart \<or>
      row_status j = JobStopping \<and> operation = Some OpStop \<or>
      row_status j = JobRetrying \<and> operation = Some OpRetry)"

definition refresh_job_status ::
  "(ustr \<Rightarrow> status_payload option) \<Rightarrow> (job_row \<Rightarrow> bool) \<Rightarrow> (job_row \<Rightarrow> managed_liveness) \<Rightarrow>
   ustr set option \<Rightarrow> time \<Rightarrow> ustr list \<Rightarrow> job_row \<Rightarrow> ustr list \<times> job_row" where
  "refresh_job_status receipt local_task lease shells now ops j =
     (if \<not> (row_status j = JobLost \<and> row_kind j = ShellJob) \<and> \<not> job_active j then (ops, j)
      else let operation = observed_active_operation ops j in
        if operation_blocks operation j
        then apply_job_transition ops
               (reconcile_job j \<lparr>ob_now = now, ob_shell = ShellUnknown, ob_status = None,
                  ob_pending_status = None, ob_operation = operation, ob_local_task = False,
                  ob_managed = LeaseUnknown\<rparr>) j
        else apply_job_transition ops
               (reconcile_job j (observe receipt local_task lease shells now ops j)) j)"

end
