(* ===== verification/Job_Store.thy ===== *)
theory Job_Store
  imports Job_Rows
begin

text \<open>
  The durable job store, \<open>src/src/workgate/jobs/persistence.py\<close>, and its transactions with the journal
  of deferred updates, \<open>jobs/recovery.py\<close>.

  The store is two files with the same content, the primary and its backup, and a directory with one
  journal file per update that could not be applied at once. A journal file is known by its stem; its
  decoded content has one field per key that the reader checks. \<open>bytes\<close> is the length of the compact
  encoding of a value, \<open>now\<close> the clock, \<open>ops\<close> the operation tokens of the process.
\<close>

section \<open>Store files\<close>

datatype store_cell = StoreAbsent | StoreUnreadable | StoreDoc int "job_row list"

definition job_store_version :: int where
  "job_store_version = 2"

definition job_store_legacy_versions :: "int list" where
  "job_store_legacy_versions = [1]"

definition load_store_file :: "store_cell \<Rightarrow> job_row list option" where
  "load_store_file c =
     (case c of
        StoreDoc v rows \<Rightarrow>
          if v \<noteq> job_store_version \<and> v \<notin> set job_store_legacy_versions then None else Some rows
      | _ \<Rightarrow> None)"

definition load_store :: "store_cell \<Rightarrow> store_cell \<Rightarrow> job_row list option" where
  "load_store main backup =
     (if main = StoreAbsent \<and> backup = StoreAbsent then Some []
      else case (if main \<noteq> StoreAbsent then load_store_file main else None) of
             Some rows \<Rightarrow> Some rows
           | None \<Rightarrow> if backup \<noteq> StoreAbsent then load_store_file backup else None)"

section \<open>Attempt artifacts\<close>

fun digits :: "nat \<Rightarrow> nat \<Rightarrow> ustr" where
  "digits 0 n = []"
| "digits (Suc w) n = (48 + n div 10 ^ w mod 10) # digits w n"

fun decimal :: "nat \<Rightarrow> ustr" where
  "decimal n = (if n < 10 then [48 + n] else decimal (n div 10) @ [48 + n mod 10])"

record attempt_paths =
  ap_command :: ustr
  ap_log :: ustr
  ap_status :: ustr

definition attempt_stem :: "ustr \<Rightarrow> nat \<Rightarrow> ustr" where
  "attempt_stem job n = job @ lit ''-attempt-'' @ decimal n"

definition new_attempt_paths :: "ustr \<Rightarrow> ustr \<Rightarrow> nat \<Rightarrow> attempt_paths" where
  "new_attempt_paths base job n =
     \<lparr>ap_command = base @ lit ''/'' @ attempt_stem job n @ lit ''.command'',
      ap_log = base @ lit ''/'' @ attempt_stem job n @ lit ''.log'',
      ap_status = base @ lit ''/'' @ attempt_stem job n @ lit ''.status.json''\<rparr>"

text \<open>The names left in the runtime directory by \<open>remove_attempt_files\<close>.\<close>

definition remove_attempt_files :: "ustr \<Rightarrow> nat option \<Rightarrow> ustr list \<Rightarrow> ustr list" where
  "remove_attempt_files job keep names =
     (if job = [] then names
      else filter (\<lambda>name. \<not> starts_with (job @ lit ''-attempt-'') name \<or>
             (case keep of None \<Rightarrow> False | Some n \<Rightarrow> starts_with (attempt_stem job n @ lit ''.'') name)) names)"

section \<open>Retention\<close>

definition job_is_retention_terminal :: "job_row \<Rightarrow> bool" where
  "job_is_retention_terminal j \<longleftrightarrow>
     row_status j \<in> set terminal_statuses \<and>
     \<not> (row_kind j = ShellJob \<and> row_status j = JobLost \<and> \<not> jr_shell_absent j)"

definition retention_key :: "job_row \<Rightarrow> time" where
  "retention_key j = num_or (num_or 0 (jr_created_at j)) (jr_updated_at j)"

text \<open>
  \<open>prune_store\<close>: the rows kept, and the identities of those removed. Rows are told apart by their
  position, as the code tells them apart by identity; \<open>sorted(reverse=True)\<close> is stable.
\<close>

definition kept_positions :: "int \<Rightarrow> job_row list \<Rightarrow> nat list" where
  "kept_positions max_jobs rows =
     (let limit = nat (max 0 max_jobs);
          active = filter (\<lambda>i. \<not> job_is_retention_terminal (rows ! i)) [0..<length rows];
          finished = sort_key (\<lambda>i. - retention_key (rows ! i))
            (filter (\<lambda>i. job_is_retention_terminal (rows ! i)) [0..<length rows])
      in active @ take (limit - length active) finished)"

definition prune_store :: "int \<Rightarrow> job_row list \<Rightarrow> job_row list \<times> ustr list" where
  "prune_store max_jobs rows =
     (let keep = kept_positions max_jobs rows
      in (nths rows (set keep), map (\<lambda>j. str_or [] (jr_job_id j)) (nths rows (- set keep))))"

section \<open>The journal of deferred updates\<close>

datatype job_error = JobNotFound | JobValueError | JobOSError | JobRuntimeError

datatype managed_update =
    AppendLog "int option" bool "time option"
  | UpdateProgress json "time option"
  | FinishJob "job_status option" "time option" "int option" "ustr option" bool json

record deferred_record =
  df_version :: int
  df_update_id :: ustr
  df_session_id :: ustr
  df_job_id :: ustr
  df_update :: "managed_update option"

text \<open>
  A file of the journal directory: a symbolic link, a file that cannot be read, or a file that is
  regular or not, of a size, with its decoded object when it is one. \<open>df_update\<close> is \<open>None\<close> for an
  unsupported operation or a payload that is not an object.
\<close>

datatype journal_file =
    JournalLink
  | JournalUnreadable
  | JournalFile bool nat "deferred_record option"

type_synonym journal = "(ustr, journal_file) dict"

definition deferred_version :: int where
  "deferred_version = 1"

definition deferred_max_bytes :: nat where
  "deferred_max_bytes = 524288"

datatype journal_read = ReadRefused | ReadInvalid | ReadRecord deferred_record

definition read_managed_deferred_record :: "ustr \<Rightarrow> journal_file \<Rightarrow> journal_read" where
  "read_managed_deferred_record stem f =
     (case f of
        JournalLink \<Rightarrow> ReadInvalid
      | JournalUnreadable \<Rightarrow> ReadRefused
      | JournalFile regular bytes content \<Rightarrow>
          if \<not> regular then ReadInvalid
          else if deferred_max_bytes < bytes then ReadInvalid
          else (case content of
             None \<Rightarrow> ReadInvalid
           | Some r \<Rightarrow>
               if df_version r \<noteq> deferred_version then ReadInvalid
               else if df_update_id r = [] \<or> df_update_id r \<noteq> stem then ReadInvalid
               else if df_session_id r = [] \<or> df_job_id r = [] then ReadInvalid
               else if df_update r = None then ReadInvalid
               else ReadRecord r))"

text \<open>The rows of \<open>read_managed_deferred_updates\<close>: stem, record and whether the file may be removed.\<close>

definition read_managed_deferred_updates :: "journal \<Rightarrow> (ustr \<times> deferred_record option \<times> bool) list" where
  "read_managed_deferred_updates jn =
     map (\<lambda>(stem, f). case read_managed_deferred_record stem f of
            ReadRefused \<Rightarrow> (stem, None, False)
          | ReadInvalid \<Rightarrow> (stem, None, True)
          | ReadRecord r \<Rightarrow> (stem, Some r, True))
       (sort_key fst jn)"

text \<open>
  \<open>next_managed_deferred_sequence\<close>: the counter starts above every numeric prefix of the directory.
\<close>

definition numeral_value :: "ustr \<Rightarrow> nat" where
  "numeral_value s = foldl (\<lambda>n c. 10 * n + (c - 48)) 0 s"

definition stem_sequence :: "ustr \<Rightarrow> nat option" where
  "stem_sequence stem =
     (let prefix = takeWhile (\<lambda>c. c \<noteq> 45) stem
      in if prefix \<noteq> [] \<and> list_all is_digit prefix then Some (numeral_value prefix) else None)"

definition next_sequence :: "ustr list \<Rightarrow> nat option \<Rightarrow> nat \<times> nat option" where
  "next_sequence stems counter =
     (let n = (case counter of
           Some n \<Rightarrow> n
         | None \<Rightarrow> fold (\<lambda>stem m. case stem_sequence stem of None \<Rightarrow> m | Some k \<Rightarrow> max m (Suc k)) stems 0)
      in (n, Some (Suc n)))"

definition new_update_id :: "nat \<Rightarrow> nat \<Rightarrow> ustr \<Rightarrow> ustr" where
  "new_update_id sequence time_ns hex =
     digits 20 sequence @ lit ''-'' @ digits 20 time_ns @ lit ''-'' @ hex"

text \<open>
  \<open>write_managed_deferred_update\<close>; \<open>enc\<close> is the length of the encoded record, and the write is atomic
  with the outcome \<open>out\<close>.
\<close>

definition write_managed_deferred_update ::
  "(deferred_record \<Rightarrow> nat) \<Rightarrow> outcome \<Rightarrow> ustr \<Rightarrow> ustr \<Rightarrow> ustr \<Rightarrow> managed_update \<Rightarrow> journal \<Rightarrow>
   journal \<times> (job_error + unit)" where
  "write_managed_deferred_update enc out uid session job update jn =
     (let r = \<lparr>df_version = deferred_version, df_update_id = uid, df_session_id = session, df_job_id = job,
            df_update = Some update\<rparr>
      in if deferred_max_bytes < enc r then (jn, Inl JobValueError)
         else (if lands out then AList.update uid (JournalFile True (enc r) (Some r)) jn else jn,
               if reports out then Inr () else Inl JobOSError))"

section \<open>Applying updates\<close>

text \<open>
  \<open>apply_managed_update\<close>; the flag is false when it raises, with whatever it has already changed.
\<close>

definition apply_managed_update ::
  "(json \<Rightarrow> nat) \<Rightarrow> time \<Rightarrow> managed_update \<Rightarrow> ustr list \<times> job_row \<Rightarrow> (ustr list \<times> job_row) \<times> bool" where
  "apply_managed_update bytes now update oj =
     (let (ops, j) = oj in
      case update of
        AppendLog n truncated t \<Rightarrow>
          ((ops, j\<lparr>jr_output_bytes := Some (num_or 0 (jr_output_bytes j) + max 0 (num_or 0 n)),
              jr_log_truncated := jr_log_truncated j \<or> truncated,
              jr_updated_at := Some (num_or now t)\<rparr>), True)
      | UpdateProgress progress t \<Rightarrow>
          if job_active j
          then (case managed_json_dict bytes progress of
                  Inl _ \<Rightarrow> ((ops, j), False)
                | Inr v \<Rightarrow> ((ops, j\<lparr>jr_progress := Some v, jr_updated_at := Some (num_or now t)\<rparr>), True))
          else ((ops, j), True)
      | FinishJob status completed code err has_result result \<Rightarrow>
          if \<not> job_active j then ((ops, j), True)
          else let finished = num_or now completed;
                   j = j\<lparr>jr_status := Some (case status of None \<Rightarrow> JobFailed | Some s \<Rightarrow> s),
                     jr_updated_at := Some finished, jr_completed_at := Some finished, jr_exit_code := code,
                     jr_error := err\<rparr>
               in if has_result
                  then (case managed_json_dict bytes result of
                          Inl _ \<Rightarrow> ((ops, j), False)
                        | Inr v \<Rightarrow> (clear_job_operation ops (j\<lparr>jr_result := Some v\<rparr>), True))
                  else (clear_job_operation ops j, True))"

fun replace_first :: "('a \<Rightarrow> bool) \<Rightarrow> 'a \<Rightarrow> 'a list \<Rightarrow> 'a list" where
  "replace_first p x [] = []"
| "replace_first p x (y # ys) = (if p y then x # ys else y # replace_first p x ys)"

text \<open>One row of the journal, replayed on the store.\<close>

definition replay_one ::
  "(json \<Rightarrow> nat) \<Rightarrow> time \<Rightarrow> ustr \<times> deferred_record option \<times> bool \<Rightarrow> ustr list \<times> job_row list \<Rightarrow>
   ustr list \<times> job_row list" where
  "replay_one bytes now entry st =
     (case (entry, st) of
        ((_, None, _), _) \<Rightarrow> st
      | ((stem, Some r, _), (ops, rows)) \<Rightarrow>
          (case (find_session_job rows (df_session_id r) (df_job_id r), df_update r) of
             (Some j, Some update) \<Rightarrow>
               if df_update_id r \<in> set (jr_applied j) then st
               else (case apply_managed_update bytes now update (ops, j) of
                 ((ops', j'), ok) \<Rightarrow>
                   (ops', replace_first (is_session_job (df_session_id r) (df_job_id r))
                      (if ok then j'\<lparr>jr_applied := jr_applied j @ [df_update_id r]\<rparr> else j') rows))
           | _ \<Rightarrow> st))"

definition trim_applied :: "ustr set \<Rightarrow> job_row \<Rightarrow> job_row" where
  "trim_applied stems j = j\<lparr>jr_applied := filter (\<lambda>u. u \<in> stems) (jr_applied j)\<rparr>"

definition reconcile_managed_deferred_updates ::
  "(json \<Rightarrow> nat) \<Rightarrow> time \<Rightarrow> journal \<Rightarrow> ustr list \<times> job_row list \<Rightarrow> (ustr list \<times> job_row list) \<times> ustr list" where
  "reconcile_managed_deferred_updates bytes now jn st =
     (let entries = read_managed_deferred_updates jn;
          rows = map (trim_applied (set (map fst entries))) (snd st)
      in (fold (replay_one bytes now) entries (fst st, rows),
          map fst (filter (\<lambda>(_, _, removable). removable) entries)))"

section \<open>Transactions\<close>

record job_disk =
  dk_main :: store_cell
  dk_backup :: store_cell
  dk_journal :: journal

datatype txn_error = StoreBusy | StoreBroken | BodyRaised job_error | SaveFailed

text \<open>How one transaction meets the world: whether it gets the locks, how its two writes end, and which
  of the journal files it managed to remove before it returned or the process stopped.\<close>

record txn_io =
  io_locked :: bool
  io_main :: outcome
  io_backup :: outcome
  io_unlinked :: "ustr list"

definition save_store :: "int \<Rightarrow> txn_io \<Rightarrow> job_row list \<Rightarrow> job_disk \<Rightarrow> job_disk \<times> bool" where
  "save_store max_jobs io rows d =
     (let doc = StoreDoc job_store_version (fst (prune_store max_jobs rows));
          d = (if lands (io_main io) then d\<lparr>dk_main := doc\<rparr> else d)
      in if \<not> reports (io_main io) then (d, False)
         else (if lands (io_backup io) then d\<lparr>dk_backup := doc\<rparr> else d, reports (io_backup io)))"

definition remove_managed_deferred_updates :: "txn_io \<Rightarrow> ustr list \<Rightarrow> journal \<Rightarrow> journal" where
  "remove_managed_deferred_updates io stems jn =
     filter (\<lambda>(stem, _). \<not> (stem \<in> set stems \<and> stem \<in> set (io_unlinked io))) jn"

definition store_transaction ::
  "(json \<Rightarrow> nat) \<Rightarrow> time \<Rightarrow> int \<Rightarrow> txn_io \<Rightarrow>
   (ustr list \<times> job_row list \<Rightarrow> (ustr list \<times> job_row list) \<times> (job_error + 'r)) \<Rightarrow> ustr list \<times> job_disk \<Rightarrow>
   (ustr list \<times> job_disk) \<times> (txn_error + 'r)" where
  "store_transaction bytes now max_jobs io body st =
     (let (ops, d) = st in
      if \<not> io_locked io then (st, Inl StoreBusy)
      else case load_store (dk_main d) (dk_backup d) of
             None \<Rightarrow> (st, Inl StoreBroken)
           | Some rows \<Rightarrow>
               (case reconcile_managed_deferred_updates bytes now (dk_journal d) (ops, rows) of
                  (replayed, removable) \<Rightarrow>
                    (case body replayed of
                       ((ops', rows'), Inl e) \<Rightarrow> ((ops', d), Inl (BodyRaised e))
                     | ((ops', rows'), Inr r) \<Rightarrow>
                         (case save_store max_jobs io rows' d of
                            (d', False) \<Rightarrow> ((ops', d'), Inl SaveFailed)
                          | (d', True) \<Rightarrow>
                              ((ops', d'\<lparr>dk_journal :=
                                  remove_managed_deferred_updates io removable (dk_journal d')\<rparr>), Inr r)))))"

text \<open>The bounded retry of \<open>_managed_store_update\<close>, which falls back to the journal.\<close>

definition managed_update_body ::
  "(json \<Rightarrow> nat) \<Rightarrow> time \<Rightarrow> ustr \<Rightarrow> ustr \<Rightarrow> managed_update \<Rightarrow> ustr list \<times> job_row list \<Rightarrow>
   (ustr list \<times> job_row list) \<times> (job_error + unit)" where
  "managed_update_body bytes now session job update st =
     (let (ops, rows) = st in
      case find_session_job rows session job of
        None \<Rightarrow> (st, case update of AppendLog _ _ _ \<Rightarrow> Inr () | _ \<Rightarrow> Inl JobNotFound)
      | Some j \<Rightarrow>
          (case apply_managed_update bytes now update (ops, j) of
             ((ops', j'), ok) \<Rightarrow>
               ((ops', replace_first (is_session_job session job) j' rows),
                if ok then Inr () else Inl JobValueError)))"

fun managed_store_update ::
  "(json \<Rightarrow> nat) \<Rightarrow> (deferred_record \<Rightarrow> nat) \<Rightarrow> time \<Rightarrow> int \<Rightarrow> txn_io list \<Rightarrow> outcome \<Rightarrow> ustr \<Rightarrow>
   ustr \<Rightarrow> ustr \<Rightarrow> managed_update \<Rightarrow> ustr list \<times> job_disk \<Rightarrow> (ustr list \<times> job_disk) \<times> (txn_error + unit)" where
  "managed_store_update bytes enc now max_jobs [] out uid session job update (ops, d) =
     (case write_managed_deferred_update enc out uid session job update (dk_journal d) of
        (jn, res) \<Rightarrow>
          ((ops, d\<lparr>dk_journal := jn\<rparr>), (case res of Inl e \<Rightarrow> Inl (BodyRaised e) | Inr _ \<Rightarrow> Inr ())))"
| "managed_store_update bytes enc now max_jobs (io # ios) out uid session job update st =
     (case store_transaction bytes now max_jobs io (managed_update_body bytes now session job update) st of
        (st', Inl StoreBusy) \<Rightarrow> managed_store_update bytes enc now max_jobs ios out uid session job update st'
      | (st', res) \<Rightarrow> (st', res))"

definition store_retry_attempts :: nat where
  "store_retry_attempts = 2"

end
