(* ===== verification/Job_Journal.thy ===== *)
theory Job_Journal
  imports Job_Store
begin

text \<open>
  The job store with its journal implements an atomic store. What the next transaction would see, the
  \<open>view\<close> of a disk, is its rows with every journaled update replayed. A transaction that fails or
  stops anywhere leaves the view or replaces it by its own result, and a journaled update changes the
  view exactly as if it had been applied at once.
\<close>

section \<open>Replay, row by row\<close>

abbreviation job_key :: "job_row \<Rightarrow> ustr option \<times> ustr option" where
  "job_key j \<equiv> (jr_job_id j, jr_session_id j)"

abbreviation core :: "job_row \<Rightarrow> job_row" where
  "core j \<equiv> j\<lparr>jr_applied := []\<rparr>"

lemma is_session_job_key: "is_session_job session job j \<longleftrightarrow> job_key j = (Some job, Some session)"
  by (simp add: is_session_job_def)

definition effect :: "(json \<Rightarrow> nat) \<Rightarrow> time \<Rightarrow> managed_update \<Rightarrow> job_row \<Rightarrow> job_row" where
  "effect bytes now u j = snd (fst (apply_managed_update bytes now u ([], j)))"

definition accepted :: "(json \<Rightarrow> nat) \<Rightarrow> time \<Rightarrow> managed_update \<Rightarrow> job_row \<Rightarrow> bool" where
  "accepted bytes now u j \<longleftrightarrow> snd (apply_managed_update bytes now u ([], j))"

lemma apply_rows:
  "snd (fst (apply_managed_update bytes now u (ops, j))) = effect bytes now u j"
  "snd (apply_managed_update bytes now u (ops, j)) = accepted bytes now u j"
  by (cases u; auto simp: effect_def accepted_def apply_managed_update_def Let_def clear_job_operation_def
      split: sum.split)+

lemma effect_frame [simp]:
  "jr_job_id (effect bytes now u j) = jr_job_id j"
  "jr_session_id (effect bytes now u j) = jr_session_id j"
  "jr_applied (effect bytes now u j) = jr_applied j"
  by (cases u; auto simp: effect_def apply_managed_update_def Let_def clear_job_operation_def
      clear_operation_keys_def split: sum.split)+

lemma effect_core: "core (effect bytes now u j) = effect bytes now u (core j)"
  by (cases u; cases j)
    (auto simp: effect_def apply_managed_update_def Let_def clear_job_operation_def clear_operation_keys_def
      job_active_def row_status_def split: sum.split option.split)

definition replay_row ::
  "(json \<Rightarrow> nat) \<Rightarrow> time \<Rightarrow> ustr \<times> deferred_record option \<times> bool \<Rightarrow> job_row \<Rightarrow> job_row" where
  "replay_row bytes now entry j =
     (case fst (snd entry) of
        None \<Rightarrow> j
      | Some r \<Rightarrow>
          (case df_update r of
             None \<Rightarrow> j
           | Some u \<Rightarrow>
               if \<not> is_session_job (df_session_id r) (df_job_id r) j \<or> df_update_id r \<in> set (jr_applied j) then j
               else if accepted bytes now u j
               then (effect bytes now u j)\<lparr>jr_applied := jr_applied j @ [df_update_id r]\<rparr>
               else effect bytes now u j))"

lemma replay_row_key [simp]:
  "jr_job_id (replay_row bytes now e j) = jr_job_id j" "jr_session_id (replay_row bytes now e j) = jr_session_id j"
  by (auto simp: replay_row_def split: option.split)

lemma find_unique:
  assumes "distinct (map f xs)" and "find (\<lambda>x. f x = k) xs = Some j"
  shows "replace_first (\<lambda>x. f x = k) y xs = map (\<lambda>x. if f x = k then y else x) xs"
    and "x \<in> set xs \<Longrightarrow> f x = k \<Longrightarrow> x = j"
proof -
  show "replace_first (\<lambda>x. f x = k) y xs = map (\<lambda>x. if f x = k then y else x) xs"
    using assms(1)
  proof (induction xs)
    case (Cons z xs)
    show ?case
    proof (cases "f z = k")
      case True
      with Cons.prems have "f x \<noteq> k" if "x \<in> set xs" for x using that by (metis distinct.simps(2) image_eqI list.simps(9) set_map)
      then have "map (\<lambda>x. if f x = k then y else x) xs = xs" by (intro map_idI) simp
      with True show ?thesis by simp
    qed (use Cons in simp)
  qed simp
  have "j \<in> set xs" "f j = k" using assms(2) by (auto simp: find_Some_iff)
  then show "x \<in> set xs \<Longrightarrow> f x = k \<Longrightarrow> x = j" using assms(1) by (auto simp: distinct_map inj_on_def)
qed

lemma replay_one_rows:
  assumes "distinct (map job_key rows)"
  shows "snd (replay_one bytes now e (ops, rows)) = map (replay_row bytes now e) rows"
proof -
  obtain stem r b where e: "e = (stem, r, b)" by (cases e)
  show ?thesis
  proof (cases "r = None \<or> df_update (the r) = None")
    case True
    then have "replay_row bytes now e = (\<lambda>j. j)" by (auto simp: fun_eq_iff e replay_row_def split: option.split)
    moreover have "replay_one bytes now e (ops, rows) = (ops, rows)"
      using True by (auto simp: e replay_one_def split: option.split)
    ultimately show ?thesis by simp
  next
    case False
    then obtain rc u where r: "r = Some rc" "df_update rc = Some u" by auto
    let ?k = "(Some (df_job_id rc), Some (df_session_id rc))"
    have p: "is_session_job (df_session_id rc) (df_job_id rc) = (\<lambda>x. job_key x = ?k)"
      by (auto simp: fun_eq_iff is_session_job_def)
    show ?thesis
    proof (cases "find_session_job rows (df_session_id rc) (df_job_id rc)")
      case None
      then have "job_key j \<noteq> ?k" if "j \<in> set rows" for j
        using that by (auto simp: find_session_job_def find_None_iff p)
      then have "map (replay_row bytes now e) rows = rows"
        by (intro map_idI) (auto simp: replay_row_def e r p)
      with None show ?thesis by (simp add: replay_one_def e r)
    next
      case (Some j)
      then have f: "find (\<lambda>x. job_key x = ?k) rows = Some j" by (simp add: find_session_job_def p)
      note u = find_unique [OF assms f]
      have j: "job_key j = ?k" using f by (auto simp: find_Some_iff)
      obtain ops' j' ok where a: "apply_managed_update bytes now u (ops, j) = ((ops', j'), ok)" by (metis surj_pair)
      have j': "j' = effect bytes now u j" "ok = accepted bytes now u j"
        using apply_rows [of bytes now u ops j] a by simp_all
      show ?thesis
      proof (cases "df_update_id rc \<in> set (jr_applied j)")
        case True
        have "map (replay_row bytes now e) rows = rows"
          by (rule map_idI) (use u(2) True in \<open>auto simp: replay_row_def e r p\<close>)
        with True Some show ?thesis by (simp add: replay_one_def e r)
      next
        case False
        have "map (replay_row bytes now e) rows =
            map (\<lambda>x. if job_key x = ?k then replay_row bytes now e j else x) rows"
          by (rule map_cong) (use u(2) in \<open>auto simp: replay_row_def e r p\<close>)
        moreover have "replay_row bytes now e j =
            (if ok then j'\<lparr>jr_applied := jr_applied j @ [df_update_id rc]\<rparr> else j')"
          using False j by (simp add: replay_row_def e r p j')
        moreover have "snd (replay_one bytes now e (ops, rows)) =
            replace_first (\<lambda>x. job_key x = ?k) (if ok then j'\<lparr>jr_applied := jr_applied j @ [df_update_id rc]\<rparr> else j') rows"
          using Some False a by (simp add: replay_one_def e r p)
        ultimately show ?thesis using u(1) by simp
      qed
    qed
  qed
qed

lemma replay_fold_rows:
  assumes "distinct (map job_key rows)"
  shows "snd (fold (replay_one bytes now) es (ops, rows)) = map (fold (replay_row bytes now) es) rows"
  using assms
proof (induction es arbitrary: ops rows)
  case (Cons e es)
  obtain ops' rows' where e: "replay_one bytes now e (ops, rows) = (ops', rows')" by (cases "replay_one bytes now e (ops, rows)")
  then have rows': "rows' = map (replay_row bytes now e) rows"
    using replay_one_rows [OF Cons.prems, of bytes now e ops] by simp
  then have "distinct (map job_key rows')" using Cons.prems by (simp add: comp_def)
  with Cons.IH [of rows' ops'] e rows' show ?case by simp
qed simp

lemma replay_fold_key [simp]:
  "jr_job_id (fold (replay_row bytes now) es j) = jr_job_id j"
  "jr_session_id (fold (replay_row bytes now) es j) = jr_session_id j"
  by (induction es arbitrary: j) simp_all

section \<open>Well-formed journals\<close>

definition stamped :: "time option \<Rightarrow> bool" where
  "stamped t \<longleftrightarrow> t \<noteq> None \<and> t \<noteq> Some 0"

text \<open>What the writers of this code put into an update: a time, and values within the bound.\<close>

definition valid_update :: "(json \<Rightarrow> nat) \<Rightarrow> managed_update \<Rightarrow> bool" where
  "valid_update bytes u =
     (case u of
        AppendLog _ _ t \<Rightarrow> stamped t
      | UpdateProgress p t \<Rightarrow> stamped t \<and> managed_json_dict bytes p = Inr p
      | FinishJob _ t _ _ has_result result \<Rightarrow>
          stamped t \<and> (has_result \<longrightarrow> managed_json_dict bytes result = Inr result))"

lemma num_or_stamped: "stamped t \<Longrightarrow> num_or now t = the t"
  by (cases t) (auto simp: stamped_def num_or_def)

lemma valid_accepted: "valid_update bytes u \<Longrightarrow> accepted bytes now u j"
  by (cases u) (auto simp: valid_update_def accepted_def apply_managed_update_def Let_def)

lemma valid_effect: "valid_update bytes u \<Longrightarrow> effect bytes now u j = effect bytes now' u j"
  by (cases u) (simp_all add: valid_update_def effect_def apply_managed_update_def Let_def num_or_stamped)

type_synonym journal_entry = "ustr \<times> deferred_record option \<times> bool"

definition jentry_ok :: "(json \<Rightarrow> nat) \<Rightarrow> journal_entry \<Rightarrow> bool" where
  "jentry_ok bytes e \<longleftrightarrow>
     (\<forall>r. fst (snd e) = Some r \<longrightarrow>
        df_update_id r = fst e \<and> (\<exists>u. df_update r = Some u \<and> valid_update bytes u))"

definition addresses :: "journal_entry \<Rightarrow> job_row \<Rightarrow> bool" where
  "addresses e j \<longleftrightarrow> (\<exists>r. fst (snd e) = Some r \<and> is_session_job (df_session_id r) (df_job_id r) j)"

lemma addresses_key: "job_key j' = job_key j \<Longrightarrow> addresses e j' = addresses e j"
  by (simp add: addresses_def is_session_job_def)

definition journal_ok :: "(json \<Rightarrow> nat) \<Rightarrow> journal \<Rightarrow> bool" where
  "journal_ok bytes jn \<longleftrightarrow> dict_ok jn \<and> (\<forall>e\<in>set (read_managed_deferred_updates jn). jentry_ok bytes e)"

lemma entry_update:
  assumes "jentry_ok bytes e" and "addresses e j"
  obtains r u where "fst (snd e) = Some r" "df_update_id r = fst e" "df_update r = Some u" "valid_update bytes u"
    "is_session_job (df_session_id r) (df_job_id r) j"
  using assms by (auto simp: jentry_ok_def addresses_def)

text \<open>One entry on one row: applied and recorded, once.\<close>

lemma replay_row_skip:
  "jentry_ok bytes e \<Longrightarrow> \<not> addresses e j \<or> fst e \<in> set (jr_applied j) \<Longrightarrow> replay_row bytes now e j = j"
  by (auto simp: replay_row_def addresses_def jentry_ok_def split: option.split)

lemma replay_row_apply:
  assumes "jentry_ok bytes e" and "addresses e j" and "fst e \<notin> set (jr_applied j)"
    and "fst (snd e) = Some r" and "df_update r = Some u"
  shows "replay_row bytes now e j = (effect bytes now u j)\<lparr>jr_applied := jr_applied j @ [fst e]\<rparr>"
  using assms by (auto simp: replay_row_def addresses_def jentry_ok_def valid_accepted)

lemma replay_row_applied:
  assumes "jentry_ok bytes e"
  shows "jr_applied (replay_row bytes now e j) =
    (if addresses e j \<and> fst e \<notin> set (jr_applied j) then jr_applied j @ [fst e] else jr_applied j)"
proof (cases "addresses e j \<and> fst e \<notin> set (jr_applied j)")
  case True
  with assms obtain r u where "fst (snd e) = Some r" "df_update r = Some u" by (elim conjE entry_update)
  with True assms show ?thesis by (simp add: replay_row_apply)
next
  case False
  with assms show ?thesis by (auto simp: replay_row_skip)
qed

lemma replay_fold_applied:
  assumes "\<forall>e\<in>set es. jentry_ok bytes e"
  shows "set (jr_applied (fold (replay_row bytes now) es j)) =
    set (jr_applied j) \<union> fst ` {e \<in> set es. addresses e j}"
  using assms
proof (induction es arbitrary: j)
  case (Cons e es)
  have "addresses e' (replay_row bytes now e j) = addresses e' j" for e' by (rule addresses_key) simp
  then have "{e' \<in> set es. addresses e' (replay_row bytes now e j)} = {e' \<in> set es. addresses e' j}" by simp
  moreover have "fst ` {e' \<in> set (e # es). addresses e' j} =
      (if addresses e j then {fst e} else {}) \<union> fst ` {e' \<in> set es. addresses e' j}" by auto
  ultimately show ?case using Cons by (auto simp: replay_row_applied)
qed simp

lemma replay_fold_skip:
  assumes "\<forall>e\<in>set es. jentry_ok bytes e" and "\<forall>e\<in>set es. addresses e j \<longrightarrow> fst e \<in> set (jr_applied j)"
  shows "fold (replay_row bytes now) es j = j"
  using assms by (induction es) (simp_all add: replay_row_skip)

section \<open>The view of a disk\<close>

definition row_view :: "(json \<Rightarrow> nat) \<Rightarrow> time \<Rightarrow> journal_entry list \<Rightarrow> job_row \<Rightarrow> job_row" where
  "row_view bytes now es j = core (fold (replay_row bytes now) es (trim_applied (set (map fst es)) j))"

definition view :: "(json \<Rightarrow> nat) \<Rightarrow> time \<Rightarrow> job_disk \<Rightarrow> job_row list option" where
  "view bytes now d =
     map_option (\<lambda>rows. map core (snd (fst (reconcile_managed_deferred_updates bytes now (dk_journal d) ([], rows)))))
       (load_store (dk_main d) (dk_backup d))"

lemma trim_applied_frame [simp]:
  "jr_job_id (trim_applied S j) = jr_job_id j" "jr_session_id (trim_applied S j) = jr_session_id j"
  "jr_applied (trim_applied S j) = filter (\<lambda>u. u \<in> S) (jr_applied j)" "core (trim_applied S j) = core j"
  by (simp_all add: trim_applied_def)

lemma reconcile_rows:
  assumes "distinct (map job_key rows)"
  shows "snd (fst (reconcile_managed_deferred_updates bytes now jn (ops, rows))) =
    map (\<lambda>j. fold (replay_row bytes now) (read_managed_deferred_updates jn)
      (trim_applied (set (map fst (read_managed_deferred_updates jn))) j)) rows"
proof -
  have "distinct (map job_key (map (trim_applied S) rows))" for S using assms by (simp add: comp_def)
  from replay_fold_rows [OF this] show ?thesis
    by (simp add: reconcile_managed_deferred_updates_def Let_def comp_def)
qed

lemma view_rows:
  "distinct (map job_key rows) \<Longrightarrow> load_store (dk_main d) (dk_backup d) = Some rows \<Longrightarrow>
   view bytes now d = Some (map (row_view bytes now (read_managed_deferred_updates (dk_journal d))) rows)"
  by (simp add: view_def reconcile_rows row_view_def)

text \<open>A row that already records the updates addressed to it is its own view.\<close>

lemma row_view_settled:
  assumes "\<forall>e\<in>set es. jentry_ok bytes e" and "\<forall>e\<in>set es. addresses e j \<longrightarrow> fst e \<in> set (jr_applied j)"
  shows "row_view bytes now es j = core j"
proof -
  have "addresses e (trim_applied S j) = addresses e j" for e S by (rule addresses_key) simp
  with assms(2) have "fold (replay_row bytes now) es (trim_applied (set (map fst es)) j) = trim_applied (set (map fst es)) j"
    by (intro replay_fold_skip [OF assms(1)]) auto
  then show ?thesis by (simp add: row_view_def)
qed

text \<open>A new entry at the end takes effect on the rows it addresses.\<close>

lemma row_view_snoc:
  assumes "\<forall>e\<in>set es. jentry_ok bytes e" and "jentry_ok bytes e" and "fst (snd e) = Some r" and "df_update r = Some u"
    and "fst e \<notin> set (jr_applied j)" and "fst e \<notin> set (map fst es)"
  shows "row_view bytes now (es @ [e]) j =
    (if is_session_job (df_session_id r) (df_job_id r) j then effect bytes now u (row_view bytes now es j)
     else row_view bytes now es j)"
proof -
  have trim: "trim_applied (set (map fst (es @ [e]))) j = trim_applied (set (map fst es)) j"
    unfolding trim_applied_def using assms(5) by (intro arg_cong [where f = "\<lambda>a. j\<lparr>jr_applied := a\<rparr>"] filter_cong) auto
  define j1 where "j1 = fold (replay_row bytes now) es (trim_applied (set (map fst es)) j)"
  have v: "row_view bytes now (es @ [e]) j = core (replay_row bytes now e j1)" "row_view bytes now es j = core j1"
    unfolding row_view_def trim j1_def by simp_all
  have key: "job_key j1 = job_key j" by (simp add: j1_def)
  have new: "fst e \<notin> set (jr_applied j1)"
    unfolding j1_def replay_fold_applied [OF assms(1)] using assms(5,6) by auto
  have addr: "addresses e j1 = is_session_job (df_session_id r) (df_job_id r) j"
    using assms(3) key by (simp add: addresses_def is_session_job_def)
  show ?thesis
  proof (cases "addresses e j1")
    case True
    then have "replay_row bytes now e j1 = (effect bytes now u j1)\<lparr>jr_applied := jr_applied j1 @ [fst e]\<rparr>"
      using assms(2-4) new by (intro replay_row_apply)
    with True show ?thesis
      using effect_core [of bytes now u j1] by (simp add: v addr)
  next
    case False
    with assms(2) have "replay_row bytes now e j1 = j1" by (intro replay_row_skip) simp_all
    with False show ?thesis by (simp add: v addr)
  qed
qed

section \<open>Retention\<close>

lemma insort_key_agree:
  "f x = g x \<Longrightarrow> \<forall>y\<in>set xs. f y = g y \<Longrightarrow> insort_key f x xs = insort_key g x xs"
  by (induction xs) auto

lemma sort_key_agree: "\<forall>x\<in>set xs. f x = g x \<Longrightarrow> sort_key f xs = sort_key g xs"
  by (induction xs) (auto intro!: insort_key_agree)

lemma core_fields [simp]:
  "row_status (core j) = row_status j" "row_kind (core j) = row_kind j" "retention_key (core j) = retention_key j"
  "job_is_retention_terminal (core j) = job_is_retention_terminal j" "job_active (core j) = job_active j"
  by (simp_all add: row_status_def row_kind_def retention_key_def job_is_retention_terminal_def job_active_def)

lemma kept_positions_core: "kept_positions m (map core rows) = kept_positions m rows"
proof -
  have a: "filter (\<lambda>i. \<not> job_is_retention_terminal (map core rows ! i)) [0..<length rows] =
      filter (\<lambda>i. \<not> job_is_retention_terminal (rows ! i)) [0..<length rows]"
    and b: "filter (\<lambda>i. job_is_retention_terminal (map core rows ! i)) [0..<length rows] =
      filter (\<lambda>i. job_is_retention_terminal (rows ! i)) [0..<length rows]"
    by (auto intro!: filter_cong)
  have c: "sort_key (\<lambda>i. - retention_key (map core rows ! i)) (filter p [0..<length rows]) =
      sort_key (\<lambda>i. - retention_key (rows ! i)) (filter p [0..<length rows])" for p
    by (intro sort_key_agree) auto
  show ?thesis by (simp add: kept_positions_def Let_def a b c)
qed

lemma prune_core: "fst (prune_store m (map core rows)) = map core (fst (prune_store m rows))"
  by (simp add: prune_store_def Let_def kept_positions_core nths_map)

lemma prune_subset: "set (fst (prune_store m rows)) \<subseteq> set rows"
  by (simp add: prune_store_def Let_def set_nths_subset)

lemma prune_distinct: "distinct (map f rows) \<Longrightarrow> distinct (map f (fst (prune_store m rows)))"
  by (simp add: prune_store_def Let_def nths_map [symmetric])

section \<open>Transactions are atomic\<close>

text \<open>
  What the body of a transaction promises: it keeps the identities of rows distinct, leaves the record
  of applied updates to the store and does not look at it. \<open>fresh\<close> says which identities it may add.
\<close>

locale job_body =
  fixes body :: "ustr list \<times> job_row list \<Rightarrow> (ustr list \<times> job_row list) \<times> (job_error + 'r)"
    and fresh :: "ustr option \<times> ustr option \<Rightarrow> bool"
  assumes distinct_body: "distinct (map job_key rows) \<Longrightarrow> body (ops, rows) = ((ops', rows'), Inr r) \<Longrightarrow>
      distinct (map job_key rows')"
    and applied_body: "body (ops, rows) = ((ops', rows'), Inr r) \<Longrightarrow> j' \<in> set rows' \<Longrightarrow>
      (\<exists>j\<in>set rows. job_key j' = job_key j \<and> jr_applied j' = jr_applied j) \<or> fresh (job_key j')"
    and blind_body: "body (ops, map core rows) =
      ((fst (fst (body (ops, rows))), map core (snd (fst (body (ops, rows))))), snd (body (ops, rows)))"

definition store_inv :: "(json \<Rightarrow> nat) \<Rightarrow> job_disk \<Rightarrow> bool" where
  "store_inv bytes d \<longleftrightarrow>
     journal_ok bytes (dk_journal d) \<and>
     (\<exists>rows. load_store (dk_main d) (dk_backup d) = Some rows \<and> distinct (map job_key rows))"

lemma read_updates_subset:
  assumes "set jn' \<subseteq> set jn"
  shows "set (read_managed_deferred_updates jn') \<subseteq> set (read_managed_deferred_updates jn)"
  using assms unfolding read_managed_deferred_updates_def set_map set_sort by (rule image_mono)

lemma removed_subset: "set (remove_managed_deferred_updates io stems jn) \<subseteq> set jn"
  by (auto simp: remove_managed_deferred_updates_def)

lemma removed_ok: "journal_ok bytes jn \<Longrightarrow> journal_ok bytes (remove_managed_deferred_updates io stems jn)"
  using read_updates_subset [OF removed_subset [of io stems jn]]
  by (auto simp: journal_ok_def) (simp add: remove_managed_deferred_updates_def)

text \<open>Rows that record all updates addressed to them are unaffected by what is left of the journal.\<close>

lemma view_settled:
  assumes load: "load_store (dk_main d) (dk_backup d) = Some rows" and dist: "distinct (map job_key rows)"
    and ok: "\<forall>e\<in>set (read_managed_deferred_updates (dk_journal d)). jentry_ok bytes e"
    and settled: "\<And>j e. j \<in> set rows \<Longrightarrow> e \<in> set (read_managed_deferred_updates (dk_journal d)) \<Longrightarrow>
      addresses e j \<Longrightarrow> fst e \<in> set (jr_applied j)"
  shows "view bytes now d = Some (map core rows)"
  using view_rows [OF dist load, of bytes now] row_view_settled [OF ok] settled by simp

lemma load_main [simp]: "load_store (StoreDoc job_store_version rows) b = Some rows"
  by (simp add: load_store_def load_store_file_def)

lemma load_backup [simp]: "load_store StoreUnreadable (StoreDoc job_store_version rows) = Some rows"
  by (simp add: load_store_def load_store_file_def)

text \<open>The ways a transaction that got its locks ends.\<close>

lemma store_transaction_cases:
  assumes "store_transaction bytes now m io body (ops, d) = ((ops', d'), res)" and "io_locked io"
    and "load_store (dk_main d) (dk_backup d) = Some rows"
  obtains (same) e where "d' = d" "res = Inl e"
  | (primary) replayed removable st r doc where
      "reconcile_managed_deferred_updates bytes now (dk_journal d) (ops, rows) = (replayed, removable)"
      "body replayed = (st, Inr r)" "doc = StoreDoc job_store_version (fst (prune_store m (snd st)))"
      "dk_main d' = doc" "dk_journal d' = dk_journal d" "res = Inl SaveFailed"
  | (committed) replayed removable st r doc where
      "reconcile_managed_deferred_updates bytes now (dk_journal d) (ops, rows) = (replayed, removable)"
      "body replayed = (st, Inr r)" "doc = StoreDoc job_store_version (fst (prune_store m (snd st)))"
      "dk_main d' = doc" "dk_backup d' = doc"
      "dk_journal d' = remove_managed_deferred_updates io removable (dk_journal d)" "res = Inr r"
proof -
  obtain replayed removable where rec:
    "reconcile_managed_deferred_updates bytes now (dk_journal d) (ops, rows) = (replayed, removable)"
    by (cases "reconcile_managed_deferred_updates bytes now (dk_journal d) (ops, rows)")
  obtain ops1 rows1 out where body: "body replayed = ((ops1, rows1), out)" by (metis surj_pair)
  show ?thesis
  proof (cases out)
    case (Inl e)
    with assms rec body show ?thesis by (intro same [of "BodyRaised e"]) (simp_all add: store_transaction_def)
  next
    case (Inr r)
    let ?doc = "StoreDoc job_store_version (fst (prune_store m rows1))"
    have lands: "reports (io_main io) \<Longrightarrow> lands (io_main io)" "reports (io_backup io) \<Longrightarrow> lands (io_backup io)"
      by (auto intro: reports_lands)
    consider "\<not> lands (io_main io)" | "lands (io_main io)" "\<not> (reports (io_main io) \<and> reports (io_backup io))"
      | "reports (io_main io)" "reports (io_backup io)" using lands by blast
    then show ?thesis
    proof cases
      case 1
      then have "\<not> reports (io_main io)" using lands by blast
      with 1 assms rec body Inr show ?thesis
        by (intro same [of SaveFailed]) (simp_all add: store_transaction_def save_store_def Let_def)
    next
      case 2
      with assms rec body Inr show ?thesis
        by (intro primary [OF rec _ refl, of "(ops1, rows1)" r])
          (auto simp: store_transaction_def save_store_def Let_def split: if_splits)
    next
      case 3
      with assms rec body Inr lands show ?thesis
        by (intro committed [OF rec _ refl, of "(ops1, rows1)" r])
          (auto simp: store_transaction_def save_store_def Let_def split: if_splits)
    qed
  qed
qed

text \<open>After a replay every row records the updates addressed to it, and the cores of the rows are the view.\<close>

lemma replayed_rows:
  assumes ok: "\<forall>e\<in>set (read_managed_deferred_updates jn). jentry_ok bytes e" and dist: "distinct (map job_key rows)"
    and rec: "reconcile_managed_deferred_updates bytes now jn (ops, rows) = ((ops1, rows1), removable)"
  shows "distinct (map job_key rows1)"
    and "map core rows1 = map (row_view bytes now (read_managed_deferred_updates jn)) rows"
    and "j \<in> set rows1 \<Longrightarrow> e \<in> set (read_managed_deferred_updates jn) \<Longrightarrow> addresses e j \<Longrightarrow>
      fst e \<in> set (jr_applied j)"
proof -
  let ?es = "read_managed_deferred_updates jn"
  have rows1: "rows1 = map (\<lambda>j. fold (replay_row bytes now) ?es (trim_applied (set (map fst ?es)) j)) rows"
    using reconcile_rows [OF dist, of bytes now jn ops] rec by simp
  show "distinct (map job_key rows1)" using dist by (simp add: rows1 comp_def)
  show "map core rows1 = map (row_view bytes now ?es) rows" by (simp add: rows1 row_view_def)
  assume "j \<in> set rows1" and e: "e \<in> set ?es" "addresses e j"
  then obtain i where j: "j = fold (replay_row bytes now) ?es (trim_applied (set (map fst ?es)) i)" by (auto simp: rows1)
  have "addresses e (trim_applied (set (map fst ?es)) i)"
    using e(2) addresses_key [of j "trim_applied (set (map fst ?es)) i" e] by (simp add: j)
  with e(1) show "fst e \<in> set (jr_applied j)" unfolding j replay_fold_applied [OF ok] by blast
qed

text \<open>The content of a committed document, whatever is left of the journal.\<close>

lemma committed_view:
  assumes ok: "\<forall>e\<in>set (read_managed_deferred_updates jn). jentry_ok bytes e" and dist: "distinct (map job_key rows1)"
    and settled: "\<And>j e. j \<in> set rows1 \<Longrightarrow> e \<in> set (read_managed_deferred_updates jn) \<Longrightarrow> addresses e j \<Longrightarrow>
      fst e \<in> set (jr_applied j)"
    and load: "load_store (dk_main d) (dk_backup d) = Some (fst (prune_store m rows1))"
    and jn: "set (read_managed_deferred_updates (dk_journal d)) \<subseteq> set (read_managed_deferred_updates jn)"
  shows "view bytes now d = Some (fst (prune_store m (map core rows1)))"
proof -
  have "view bytes now d = Some (map core (fst (prune_store m rows1)))"
    by (rule view_settled [OF load prune_distinct [OF dist]]) (use ok jn settled prune_subset [of m rows1] in blast)+
  then show ?thesis by (simp add: prune_core)
qed

context job_body
begin

lemma body_settled:
  assumes dist: "distinct (map job_key rows1)" and body: "body (ops1, rows1) = ((ops2, rows2), Inr r)"
    and settled: "\<And>j e. j \<in> set rows1 \<Longrightarrow> e \<in> set es \<Longrightarrow> addresses e j \<Longrightarrow> fst e \<in> set (jr_applied j)"
    and unaddressed: "\<And>e j. e \<in> set es \<Longrightarrow> addresses e j \<Longrightarrow> \<not> fresh (job_key j)"
    and j: "j \<in> set rows2" "e \<in> set es" "addresses e j"
  shows "fst e \<in> set (jr_applied j)"
proof -
  obtain i where i: "i \<in> set rows1" "job_key j = job_key i" "jr_applied j = jr_applied i"
    using applied_body [OF body j(1)] unaddressed [OF j(2,3)] by blast
  moreover have "addresses e i" using j(3) addresses_key [OF i(2)] by simp
  ultimately show ?thesis using settled [OF i(1) j(2)] by simp
qed

lemma transaction_atomic:
  assumes inv: "store_inv bytes d" and locked: "io_locked io"
    and unaddressed: "\<And>e j. e \<in> set (read_managed_deferred_updates (dk_journal d)) \<Longrightarrow> addresses e j \<Longrightarrow> \<not> fresh (job_key j)"
    and txn: "store_transaction bytes now m io body (ops, d) = ((ops', d'), res)"
  shows "store_inv bytes d' \<and> (\<exists>rows. view bytes now d = Some rows \<and>
    ((\<exists>e. res = Inl e \<and> view bytes now d' = Some rows) \<or>
     (\<exists>ops0 ops1 rows1 r. body (ops0, rows) = ((ops1, rows1), Inr r) \<and> (res = Inr r \<or> res = Inl SaveFailed) \<and>
       view bytes now d' = Some (fst (prune_store m rows1)) \<and>
       (res = Inr r \<longrightarrow> view bytes now (d'\<lparr>dk_main := StoreUnreadable\<rparr>) = view bytes now d'))))"
proof -
  obtain rows where load: "load_store (dk_main d) (dk_backup d) = Some rows" and dist: "distinct (map job_key rows)"
    and jn: "journal_ok bytes (dk_journal d)"
    using inv by (auto simp: store_inv_def)
  let ?es = "read_managed_deferred_updates (dk_journal d)"
  have ok: "\<forall>e\<in>set ?es. jentry_ok bytes e" using jn by (simp add: journal_ok_def)
  have v: "view bytes now d = Some (map (row_view bytes now ?es) rows)" by (rule view_rows [OF dist load])
  from txn locked load show ?thesis
  proof (cases rule: store_transaction_cases)
    case (same e)
    then show ?thesis using inv v by auto
  next
    case (primary replayed removable st r doc)
    obtain ops1 rows1 ops2 rows2 where st: "replayed = (ops1, rows1)" "st = (ops2, rows2)" by (metis surj_pair)
    note rep = replayed_rows [OF ok dist primary(1) [unfolded st]]
    have body: "body (ops1, rows1) = ((ops2, rows2), Inr r)" using primary(2) st by simp
    note dist2 = distinct_body [OF rep(1) body]
    have settled: "fst e \<in> set (jr_applied j)" if "j \<in> set rows2" "e \<in> set ?es" "addresses e j" for j e
      using body_settled [OF rep(1) body rep(3) unaddressed that] .
    have load': "load_store (dk_main d') (dk_backup d') = Some (fst (prune_store m rows2))"
      using primary(3,4) st by simp
    have "view bytes now d' = Some (fst (prune_store m (map core rows2)))"
      by (rule committed_view [OF ok dist2 settled load']) (simp_all add: primary(5))
    moreover have "body (ops1, map (row_view bytes now ?es) rows) = ((ops2, map core rows2), Inr r)"
      using blind_body [of ops1 rows1] body rep(2) by simp
    moreover have "store_inv bytes d'"
      using load' prune_distinct [OF dist2] jn primary(5) by (auto simp: store_inv_def)
    ultimately show ?thesis using v primary(6) by auto
  next
    case (committed replayed removable st r doc)
    obtain ops1 rows1 ops2 rows2 where st: "replayed = (ops1, rows1)" "st = (ops2, rows2)" by (metis surj_pair)
    note rep = replayed_rows [OF ok dist committed(1) [unfolded st]]
    have body: "body (ops1, rows1) = ((ops2, rows2), Inr r)" using committed(2) st by simp
    note dist2 = distinct_body [OF rep(1) body]
    have settled: "fst e \<in> set (jr_applied j)" if "j \<in> set rows2" "e \<in> set ?es" "addresses e j" for j e
      using body_settled [OF rep(1) body rep(3) unaddressed that] .
    have sub: "set (read_managed_deferred_updates (dk_journal d')) \<subseteq> set ?es"
      unfolding committed(6) by (rule read_updates_subset [OF removed_subset])
    have load': "load_store (dk_main d') (dk_backup d') = Some (fst (prune_store m rows2))"
      "load_store (dk_main (d'\<lparr>dk_main := StoreUnreadable\<rparr>)) (dk_backup (d'\<lparr>dk_main := StoreUnreadable\<rparr>)) =
        Some (fst (prune_store m rows2))"
      using committed(3-5) st by simp_all
    have "view bytes now d' = Some (fst (prune_store m (map core rows2)))"
      by (rule committed_view [OF ok dist2 settled load'(1) sub])
    moreover have "view bytes now (d'\<lparr>dk_main := StoreUnreadable\<rparr>) = Some (fst (prune_store m (map core rows2)))"
      by (rule committed_view [OF ok dist2 settled load'(2)]) (use sub in simp_all)
    moreover have "body (ops1, map (row_view bytes now ?es) rows) = ((ops2, map core rows2), Inr r)"
      using blind_body [of ops1 rows1] body rep(2) by simp
    moreover have "store_inv bytes d'"
      using load'(1) prune_distinct [OF dist2] removed_ok [OF jn] committed(6) by (auto simp: store_inv_def)
    ultimately show ?thesis using v committed(7) by auto
  qed
qed

end

section \<open>The update of one managed job\<close>

lemma apply_core:
  "apply_managed_update bytes now u (ops, core j) =
     ((fst (fst (apply_managed_update bytes now u (ops, j))), core (snd (fst (apply_managed_update bytes now u (ops, j))))),
      snd (apply_managed_update bytes now u (ops, j)))"
  by (cases u; cases j)
    (auto simp: apply_managed_update_def Let_def clear_job_operation_def clear_operation_keys_def
      job_active_def row_status_def split: sum.split option.split)

lemma is_session_job_core [simp]: "is_session_job session job (core j) = is_session_job session job j"
  by (simp add: is_session_job_def)

lemma find_core: "find_session_job (map core rows) session job = map_option core (find_session_job rows session job)"
  by (induction rows) (simp_all add: find_session_job_def)

lemma replace_core:
  "replace_first (is_session_job session job) (core j) (map core rows) =
     map core (replace_first (is_session_job session job) j rows)"
  by (induction rows) simp_all

lemma replace_first_member:
  "find p xs = Some x \<Longrightarrow> y \<in> set (replace_first p z xs) \<Longrightarrow> y = z \<or> y \<in> set xs"
  by (induction xs) (auto split: if_splits)

lemma replace_first_map:
  "find p xs = Some x \<Longrightarrow> f z = f x \<Longrightarrow> map f (replace_first p z xs) = map f xs"
  by (induction xs) (auto split: if_splits)

interpretation update_body: job_body "managed_update_body bytes now session job u" "\<lambda>_. False"
  for bytes now session job u
proof
  fix rows rows' :: "job_row list" and ops ops' r
  assume body: "managed_update_body bytes now session job u (ops, rows) = ((ops', rows'), Inr r)"
  show "distinct (map job_key rows')" if "distinct (map job_key rows)"
  proof (cases "find_session_job rows session job")
    case None
    with body that show ?thesis by (simp add: managed_update_body_def split: managed_update.splits)
  next
    case (Some j)
    obtain o1 j1 ok where a: "apply_managed_update bytes now u (ops, j) = ((o1, j1), ok)" by (metis surj_pair)
    have "rows' = replace_first (is_session_job session job) j1 rows"
      using body Some a by (simp add: managed_update_body_def split: if_splits)
    moreover have "job_key j1 = job_key j" using apply_rows(1) [of bytes now u ops j] a by simp
    ultimately have "map job_key rows' = map job_key rows"
      using replace_first_map [OF Some [unfolded find_session_job_def], of job_key j1] by simp
    with that show ?thesis by simp
  qed
  show "(\<exists>j\<in>set rows. job_key j' = job_key j \<and> jr_applied j' = jr_applied j) \<or> False" if "j' \<in> set rows'" for j'
  proof (cases "find_session_job rows session job")
    case None
    with body have "rows' = rows" by (simp add: managed_update_body_def split: managed_update.splits)
    with that show ?thesis by blast
  next
    case (Some j)
    obtain o1 j1 ok where a: "apply_managed_update bytes now u (ops, j) = ((o1, j1), ok)" by (metis surj_pair)
    have rows': "rows' = replace_first (is_session_job session job) j1 rows"
      using body Some a by (simp add: managed_update_body_def split: if_splits)
    have "j \<in> set rows" using Some by (auto simp: find_session_job_def find_Some_iff)
    moreover have "job_key j1 = job_key j \<and> jr_applied j1 = jr_applied j" using apply_rows(1) [of bytes now u ops j] a by simp
    ultimately show ?thesis
      using replace_first_member [OF Some [unfolded find_session_job_def] that [unfolded rows']] by blast
  qed
next
  fix ops and rows :: "job_row list"
  show "managed_update_body bytes now session job u (ops, map core rows) =
    ((fst (fst (managed_update_body bytes now session job u (ops, rows))),
      map core (snd (fst (managed_update_body bytes now session job u (ops, rows))))),
     snd (managed_update_body bytes now session job u (ops, rows)))"
  proof (cases "find_session_job rows session job")
    case None
    then show ?thesis by (simp add: managed_update_body_def find_core)
  next
    case (Some j)
    obtain o1 j1 ok where a: "apply_managed_update bytes now u (ops, j) = ((o1, j1), ok)" by (metis surj_pair)
    with Some show ?thesis
      using apply_core [of bytes now u ops j] by (simp add: managed_update_body_def find_core replace_core)
  qed
qed

text \<open>What the update does to the rows of an atomic store.\<close>

definition update_rows :: "(json \<Rightarrow> nat) \<Rightarrow> ustr \<Rightarrow> ustr \<Rightarrow> managed_update \<Rightarrow> job_row list \<Rightarrow> job_row list" where
  "update_rows bytes session job u rows =
     map (\<lambda>j. if is_session_job session job j then effect bytes 0 u j else j) rows"

lemma managed_update_body_rows:
  assumes dist: "distinct (map job_key rows)" and valid: "valid_update bytes u"
    and body: "managed_update_body bytes now session job u (ops, rows) = ((ops', rows'), Inr r)"
  shows "rows' = update_rows bytes session job u rows"
proof (cases "find_session_job rows session job")
  case None
  then have "\<not> is_session_job session job j" if "j \<in> set rows" for j
    using that by (auto simp: find_session_job_def find_None_iff)
  then have "update_rows bytes session job u rows = rows" unfolding update_rows_def by (intro map_idI) simp
  with None body show ?thesis by (simp add: managed_update_body_def split: managed_update.splits)
next
  case (Some j)
  have p: "is_session_job session job = (\<lambda>x. job_key x = (Some job, Some session))"
    by (auto simp: fun_eq_iff is_session_job_def)
  have f: "find (\<lambda>x. job_key x = (Some job, Some session)) rows = Some j" using Some by (simp add: find_session_job_def p)
  obtain o1 j1 ok where a: "apply_managed_update bytes now u (ops, j) = ((o1, j1), ok)" by (metis surj_pair)
  have j1: "j1 = effect bytes 0 u j"
    using apply_rows(1) [of bytes now u ops j] a valid_effect [OF valid, of now j 0] by simp
  have "rows' = replace_first (is_session_job session job) j1 rows"
    using body Some a by (simp add: managed_update_body_def split: if_splits)
  also have "\<dots> = map (\<lambda>x. if job_key x = (Some job, Some session) then j1 else x) rows"
    unfolding p by (rule find_unique(1) [OF dist f])
  also have "\<dots> = update_rows bytes session job u rows"
    unfolding update_rows_def by (rule map_cong) (use find_unique(2) [OF dist f] in \<open>auto simp: p j1\<close>)
  finally show ?thesis .
qed

section \<open>The order of the journal\<close>

lemma digits_less:
  "m mod 10 ^ w < n mod 10 ^ w \<Longrightarrow> digits w m @ s < digits w n @ t"
proof (induction w)
  case (Suc w)
  have split: "k mod 10 ^ Suc w = 10 ^ w * (k div 10 ^ w mod 10) + k mod 10 ^ w" for k :: nat
    using mod_mult2_eq [of k "10 ^ w" 10] by (simp add: mult.commute)
  have bound: "k mod 10 ^ w < 10 ^ w" for k :: nat by simp
  show ?case
  proof (cases "m div 10 ^ w mod 10 = n div 10 ^ w mod 10")
    case True
    with Suc.prems have "m mod 10 ^ w < n mod 10 ^ w" by (simp only: split add_less_cancel_left)
    with True Suc.IH show ?thesis by simp
  next
    case False
    have "\<not> n div 10 ^ w mod 10 < m div 10 ^ w mod 10"
    proof
      assume "n div 10 ^ w mod 10 < m div 10 ^ w mod 10"
      then have le: "10 ^ w * (n div 10 ^ w mod 10 + 1) \<le> 10 ^ w * (m div 10 ^ w mod 10)" by (intro mult_le_mono2) simp
      have "n mod 10 ^ Suc w < 10 ^ w * (n div 10 ^ w mod 10 + 1)"
        unfolding split [of n] using bound [of n] by (simp only: distrib_left mult_1_right add_less_cancel_left)
      also note le
      also have "10 ^ w * (m div 10 ^ w mod 10) \<le> m mod 10 ^ Suc w" unfolding split [of m] by (rule le_add1)
      finally have "n mod 10 ^ Suc w < m mod 10 ^ Suc w" .
      with Suc.prems show False by simp
    qed
    with False show ?thesis by simp
  qed
qed simp

lemma new_update_id_less:
  "k < c \<Longrightarrow> c < 10 ^ 20 \<Longrightarrow> new_update_id k t h < new_update_id c t' h'"
  unfolding new_update_id_def by (intro digits_less) simp

lemma insort_key_snoc: "f a \<le> f x \<Longrightarrow> insort_key f a (ys @ [x]) = insort_key f a ys @ [x]"
  by (induction ys) auto

lemma sort_key_snoc: "\<forall>y\<in>set xs. f y \<le> f x \<Longrightarrow> sort_key f (xs @ [x]) = sort_key f xs @ [x]"
  by (induction xs) (simp_all add: insort_key_snoc)

text \<open>The names this code gives its journal files, numbered below \<open>c\<close>.\<close>

definition sequenced :: "nat \<Rightarrow> journal \<Rightarrow> bool" where
  "sequenced c jn \<longleftrightarrow> c \<le> 10 ^ 20 \<and> (\<forall>stem\<in>set (dict_keys jn). \<exists>k t h. stem = new_update_id k t h \<and> k < c)"

lemma read_written:
  assumes seq: "sequenced c jn" and c: "c < 10 ^ 20" and uid: "uid = new_update_id c t h"
  shows "uid \<notin> set (dict_keys jn)"
    and "read_managed_deferred_updates (AList.update uid f jn) =
      read_managed_deferred_updates jn @ read_managed_deferred_updates [(uid, f)]"
    and "sequenced (Suc c) (AList.update uid f jn)"
proof -
  have less: "stem < uid" if "stem \<in> set (dict_keys jn)" for stem
    using seq that c unfolding sequenced_def uid by (metis new_update_id_less)
  then show new: "uid \<notin> set (dict_keys jn)" by blast
  have upd: "AList.update uid f jn = jn @ [(uid, f)]" using new by (intro put_fresh) (simp add: map_of_eq_None_iff)
  have "sort_key fst (jn @ [(uid, f)]) = sort_key fst jn @ [(uid, f)]"
    using less by (intro sort_key_snoc) (auto intro: less_imp_le)
  then show "read_managed_deferred_updates (AList.update uid f jn) =
      read_managed_deferred_updates jn @ read_managed_deferred_updates [(uid, f)]"
    by (simp add: read_managed_deferred_updates_def upd)
  show "sequenced (Suc c) (AList.update uid f jn)"
    unfolding upd sequenced_def
  proof (intro conjI ballI)
    show "Suc c \<le> 10 ^ 20" using c by simp
    fix stem
    assume "stem \<in> set (dict_keys (jn @ [(uid, f)]))"
    then consider "stem \<in> set (dict_keys jn)" | "stem = uid" by auto
    then show "\<exists>k t h. stem = new_update_id k t h \<and> k < Suc c"
    proof cases
      case 1
      then obtain k t h where "stem = new_update_id k t h" "k < c" using seq unfolding sequenced_def by blast
      then show ?thesis using less_SucI by blast
    qed (use uid in blast)
  qed
qed

lemma read_one:
  assumes "session \<noteq> []" and "job \<noteq> []" and "uid \<noteq> []" and "n \<le> deferred_max_bytes"
  shows "read_managed_deferred_updates [(uid, JournalFile True n (Some \<lparr>df_version = deferred_version,
      df_update_id = uid, df_session_id = session, df_job_id = job, df_update = Some u\<rparr>))] =
    [(uid, Some \<lparr>df_version = deferred_version, df_update_id = uid, df_session_id = session, df_job_id = job,
        df_update = Some u\<rparr>, True)]"
  using assms by (simp add: read_managed_deferred_updates_def read_managed_deferred_record_def)

lemma new_update_id_nonempty [simp]: "new_update_id c t h \<noteq> []"
  by (simp add: new_update_id_def)

text \<open>Journaling an update takes effect on the view as if it had been applied.\<close>

lemma journaled_view:
  assumes load: "load_store (dk_main d) (dk_backup d) = Some rows" and dist: "distinct (map job_key rows)"
    and jn: "journal_ok bytes (dk_journal d)" and valid: "valid_update bytes u"
    and seq: "sequenced c (dk_journal d)" "c < 10 ^ 20" and unused: "\<forall>j\<in>set rows. new_update_id c t h \<notin> set (jr_applied j)"
    and names: "session \<noteq> []" "job \<noteq> []"
    and wrote: "write_managed_deferred_update enc out (new_update_id c t h) session job u (dk_journal d) = (jn', res)"
  shows "journal_ok bytes jn' \<and>
    (if lands out \<and> res \<noteq> Inl JobValueError
     then view bytes now (d\<lparr>dk_journal := jn'\<rparr>) = map_option (update_rows bytes session job u) (view bytes now d)
     else jn' = dk_journal d)"
proof -
  let ?uid = "new_update_id c t h" and ?es = "read_managed_deferred_updates (dk_journal d)"
  let ?r = "\<lparr>df_version = deferred_version, df_update_id = ?uid, df_session_id = session, df_job_id = job,
      df_update = Some u\<rparr>"
  let ?e = "(?uid, Some ?r, True)"
  have ok: "\<forall>e\<in>set ?es. jentry_ok bytes e" using jn by (simp add: journal_ok_def)
  show ?thesis
  proof (cases "deferred_max_bytes < enc ?r \<or> \<not> lands out")
    case True
    with wrote have "jn' = dk_journal d" "res = Inl JobValueError \<or> \<not> lands out"
      by (auto simp: write_managed_deferred_update_def Let_def split: if_splits)
    with jn show ?thesis by auto
  next
    case False
    then have jn': "jn' = AList.update ?uid (JournalFile True (enc ?r) (Some ?r)) (dk_journal d)"
      "res \<noteq> Inl JobValueError" "lands out"
      using wrote by (auto simp: write_managed_deferred_update_def Let_def split: if_splits)
    note w = read_written [OF seq refl, of t h]
    have es': "read_managed_deferred_updates jn' = ?es @ [?e]"
      using w(2) read_one [OF names new_update_id_nonempty, of "enc ?r" c t h u] False by (simp add: jn'(1))
    have e: "jentry_ok bytes ?e" using valid by (simp add: jentry_ok_def)
    have "journal_ok bytes jn'"
      using jn ok e unfolding journal_ok_def es' by (auto simp: jn'(1))
    moreover have fresh: "?uid \<notin> set (map fst ?es)"
      using w(1) by (auto simp: read_managed_deferred_updates_def split: journal_read.splits) (metis fst_conv imageI)+
    have "row_view bytes now (?es @ [?e]) j =
        (if is_session_job session job j then effect bytes 0 u (row_view bytes now ?es j) else row_view bytes now ?es j)"
      if "j \<in> set rows" for j
      using row_view_snoc [OF ok e, of ?r u j now] that unused fresh valid_effect [OF valid, of now _ 0] by simp
    then have "map (row_view bytes now (?es @ [?e])) rows = update_rows bytes session job u (map (row_view bytes now ?es) rows)"
      by (simp add: update_rows_def row_view_def is_session_job_def)
    moreover have "load_store (dk_main (d\<lparr>dk_journal := jn'\<rparr>)) (dk_backup (d\<lparr>dk_journal := jn'\<rparr>)) = Some rows"
      using load by simp
    ultimately show ?thesis
      using jn'(2,3) view_rows [OF dist load, of bytes now]
        view_rows [OF dist, of "d\<lparr>dk_journal := jn'\<rparr>" bytes now] es' by simp
  qed
qed

text \<open>
  C20. A transaction on the job store is atomic, whatever stops it. What the next transaction sees is
  unchanged, or it is the pruned result of the body on what it saw before, with every journaled update
  replayed once; the second holds whenever the transaction returns, and then the backup alone is
  enough. The body may be any that keeps identities distinct and leaves the record of applied updates
  to the store.
\<close>

theorem job_transaction_atomic:
  assumes "job_body body fresh" and "store_inv bytes d" and "io_locked io"
    and "\<And>e j. e \<in> set (read_managed_deferred_updates (dk_journal d)) \<Longrightarrow> addresses e j \<Longrightarrow> \<not> fresh (job_key j)"
    and "store_transaction bytes now m io body (ops, d) = ((ops', d'), res)"
  shows "store_inv bytes d' \<and> (\<exists>rows. view bytes now d = Some rows \<and>
    ((\<exists>e. res = Inl e \<and> view bytes now d' = Some rows) \<or>
     (\<exists>ops0 ops1 rows1 r. body (ops0, rows) = ((ops1, rows1), Inr r) \<and> (res = Inr r \<or> res = Inl SaveFailed) \<and>
       view bytes now d' = Some (fst (prune_store m rows1)) \<and>
       (res = Inr r \<longrightarrow> view bytes now (d'\<lparr>dk_main := StoreUnreadable\<rparr>) = view bytes now d'))))"
  using job_body.transaction_atomic [OF assms(1,2,3,4,5)] .

text \<open>
  C19. An update of a managed job takes effect exactly once. However often the store is found locked,
  wherever the transaction or the journal write fails, and whatever the journal still holds, the next
  view of the store is the old one or the old one with this one update applied; when the call returns
  without an error it is the latter. The name of the update is unused, and the sequence numbers of the
  journal have not run out of their twenty digits.
\<close>

theorem managed_update_exactly_once:
  assumes "store_inv bytes d" and "valid_update bytes u" and "session \<noteq> []" and "job \<noteq> []"
    and "sequenced c (dk_journal d)" and "c < 10 ^ 20"
    and "\<And>rows j. load_store (dk_main d) (dk_backup d) = Some rows \<Longrightarrow> j \<in> set rows \<Longrightarrow>
      new_update_id c t h \<notin> set (jr_applied j)"
    and "managed_store_update bytes enc now m ios out (new_update_id c t h) session job u (ops, d) = ((ops', d'), res)"
  shows "store_inv bytes d' \<and> (\<exists>rows. view bytes now d = Some rows \<and>
    (view bytes now d' = Some (update_rows bytes session job u rows) \<or>
     view bytes now d' = Some (fst (prune_store m (update_rows bytes session job u rows))) \<or>
     (\<exists>e. res = Inl e) \<and> view bytes now d' = Some rows))"
proof -
  obtain rows where load: "load_store (dk_main d) (dk_backup d) = Some rows" and dist: "distinct (map job_key rows)"
    and jn: "journal_ok bytes (dk_journal d)"
    using assms(1) by (auto simp: store_inv_def)
  define v where "v = map (row_view bytes now (read_managed_deferred_updates (dk_journal d))) rows"
  have v: "view bytes now d = Some v" and vdist: "distinct (map job_key v)"
    using view_rows [OF dist load] dist by (simp_all add: v_def row_view_def comp_def)
  show ?thesis
    using assms(8)
  proof (induction ios arbitrary: ops)
    case Nil
    obtain jn' wr where w: "write_managed_deferred_update enc out (new_update_id c t h) session job u (dk_journal d) = (jn', wr)"
      by (cases "write_managed_deferred_update enc out (new_update_id c t h) session job u (dk_journal d)")
    with Nil have d': "d' = d\<lparr>dk_journal := jn'\<rparr>" and res: "(\<exists>e. res = Inl e) \<or> wr = Inr ()"
      by (auto split: sum.splits)
    have "\<forall>j\<in>set rows. new_update_id c t h \<notin> set (jr_applied j)" using assms(7) load by blast
    note jv = journaled_view [OF load dist jn assms(2,5,6) this assms(3,4) w, of now]
    then have inv: "store_inv bytes d'" using load dist by (auto simp: d' store_inv_def)
    show ?case
    proof (cases "lands out \<and> wr \<noteq> Inl JobValueError")
      case True
      with jv v inv show ?thesis by (simp add: d')
    next
      case False
      then have "wr \<noteq> Inr ()"
        using w by (auto simp: write_managed_deferred_update_def Let_def reports_lands split: if_splits)
      moreover have "jn' = dk_journal d" using jv False by auto
      ultimately show ?thesis using res v inv by (simp add: d')
    qed
  next
    case (Cons io ios)
    obtain st1 res1 where txn:
      "store_transaction bytes now m io (managed_update_body bytes now session job u) (ops, d) = (st1, res1)"
      by (cases "store_transaction bytes now m io (managed_update_body bytes now session job u) (ops, d)")
    show ?case
    proof (cases "io_locked io")
      case False
      then have "st1 = (ops, d)" "res1 = Inl StoreBusy" using txn by (simp_all add: store_transaction_def)
      with Cons txn show ?thesis by simp
    next
      case True
      obtain ops1 d1 where st1: "st1 = (ops1, d1)" by (cases st1)
      have no: "res1 \<noteq> Inl StoreBusy"
        using txn True by (auto simp: store_transaction_def split: option.splits prod.splits sum.splits bool.splits)
      have same: "d1 = d'" "res1 = res" using Cons.prems txn st1 no by (auto split: sum.splits txn_error.splits)
      have "store_inv bytes d' \<and> (\<exists>rows. view bytes now d = Some rows \<and>
          ((\<exists>e. res = Inl e \<and> view bytes now d' = Some rows) \<or>
           (\<exists>ops0 ops1 rows1 r. managed_update_body bytes now session job u (ops0, rows) = ((ops1, rows1), Inr r) \<and>
             (res = Inr r \<or> res = Inl SaveFailed) \<and> view bytes now d' = Some (fst (prune_store m rows1)) \<and>
             (res = Inr r \<longrightarrow> view bytes now (d'\<lparr>dk_main := StoreUnreadable\<rparr>) = view bytes now d'))))"
        by (rule update_body.transaction_atomic [OF assms(1) True]) (use txn st1 same in simp_all)
      then obtain rows' where "view bytes now d = Some rows'" and inv: "store_inv bytes d'" and
        "(\<exists>e. res = Inl e \<and> view bytes now d' = Some rows') \<or>
         (\<exists>ops0 ops1 rows1 r. managed_update_body bytes now session job u (ops0, rows') = ((ops1, rows1), Inr r) \<and>
           view bytes now d' = Some (fst (prune_store m rows1)))" by blast
      with v managed_update_body_rows [OF vdist assms(2)] show ?thesis by (metis option.inject)
    qed
  qed
qed

section \<open>Sequence numbers\<close>

lemma numeral_digits: "foldl (\<lambda>n c. 10 * n + (c - 48)) a (digits w k) = a * 10 ^ w + k mod 10 ^ w"
proof (induction w arbitrary: a)
  case (Suc w)
  have "k mod 10 ^ Suc w = 10 ^ w * (k div 10 ^ w mod 10) + k mod 10 ^ w"
    using mod_mult2_eq [of k "10 ^ w" 10] by (simp add: mult.commute)
  with Suc show ?case by (simp add: algebra_simps)
qed simp

lemma length_digits [simp]: "length (digits w k) = w"
  by (induction w) simp_all

lemma digits_are_digits: "list_all is_digit (digits w k)"
  by (induction w) (auto simp: is_digit_def intro: order_trans [OF add_left_mono])

lemma stem_sequence_new: "k < 10 ^ 20 \<Longrightarrow> stem_sequence (new_update_id k t h) = Some k"
proof -
  assume k: "k < 10 ^ 20"
  have "takeWhile (\<lambda>c. c \<noteq> 45) (digits 20 k @ 45 # rest) = digits 20 k" for rest
    using digits_are_digits [of 20 k] by (subst takeWhile_append2) (auto simp: list_all_iff is_digit_def)
  moreover have "digits 20 k \<noteq> []" using length_digits [of 20 k] by fastforce
  ultimately show ?thesis
    using k digits_are_digits [of 20 k] numeral_digits [of 0 20 k]
    by (simp add: stem_sequence_def new_update_id_def numeral_value_def Let_def)
qed

text \<open>A process that finds a journal left behind numbers its own updates after all of them.\<close>

lemma next_sequence_fresh:
  assumes "sequenced c jn"
  shows "sequenced (fst (next_sequence (dict_keys jn) None)) jn"
proof -
  let ?step = "\<lambda>stem m. case stem_sequence stem of None \<Rightarrow> m | Some k \<Rightarrow> max m (Suc k)"
  have ids: "\<exists>k t h. stem = new_update_id k t h \<and> k < c \<and> stem_sequence stem = Some k"
    if "stem \<in> set (dict_keys jn)" for stem
    using assms that stem_sequence_new unfolding sequenced_def by (metis less_le_trans)
  have "m \<le> c \<Longrightarrow> fold ?step stems m \<le> c \<and> m \<le> fold ?step stems m \<and>
      (\<forall>stem\<in>set stems. \<exists>k t h. stem = new_update_id k t h \<and> k < fold ?step stems m)"
    if "set stems \<subseteq> set (dict_keys jn)" for stems m
    using that
  proof (induction stems arbitrary: m)
    case (Cons stem stems)
    obtain k t h where k: "stem = new_update_id k t h" "k < c" "stem_sequence stem = Some k"
      using ids [of stem] Cons.prems(2) by auto
    have "max m (Suc k) \<le> c" using Cons.prems(1) k(2) by simp
    note IH = Cons.IH [OF this] Cons.prems(2)
    then have "k < fold ?step stems (max m (Suc k))" by (metis (no_types, lifting) Suc_le_lessD insert_subset list.simps(15) max.boundedE)
    with IH k show ?case by auto
  qed simp
  from this [of "dict_keys jn" 0] assms show ?thesis by (simp add: next_sequence_def sequenced_def Let_def)
qed

section \<open>A concrete run\<close>

definition demo_job :: job_row where
  "demo_job = \<lparr>jr_job_id = Some (lit ''j''), jr_kind = Some ManagedJob, jr_name = Some (lit ''copy''),
     jr_status = Some JobRunning, jr_command = Some (lit ''copy''), jr_cwd = Some (lit ''.''),
     jr_session_id = Some (lit ''s''), jr_shell_id = None, jr_command_path = None, jr_log_path = None,
     jr_status_path = None, jr_created_at = Some 1, jr_updated_at = Some 1, jr_last_started_at = Some 1,
     jr_completed_at = None, jr_exit_code = None, jr_error = None, jr_log_truncated = False,
     jr_output_bytes = Some 0, jr_attempts = Some 1, jr_managed_kind = Some (lit ''copy''),
     jr_managed_payload = Some (JObj []), jr_runtime_instance_id = None, jr_lease_version = Some 1,
     jr_progress = None, jr_result = None, jr_shell_absent = False, jr_operation_id = None,
     jr_operation_kind = None, jr_operation_started_at = None, jr_pending_attempt = None,
     jr_pending_shell_id = None, jr_pending_command_path = None, jr_pending_log_path = None,
     jr_pending_status_path = None, jr_applied = []\<rparr>"

definition demo_update :: managed_update where
  "demo_update = AppendLog (Some 5) False (Some 2)"

definition demo_journal :: journal where
  "demo_journal = fst (write_managed_deferred_update (\<lambda>_. 0) Landed (new_update_id 0 7 []) (lit ''s'') (lit ''j'')
     demo_update [])"

definition demo_job_disk :: job_disk where
  "demo_job_disk = \<lparr>dk_main = StoreDoc 2 [demo_job], dk_backup = StoreDoc 2 [demo_job], dk_journal = demo_journal\<rparr>"

lemma demo_entries:
  "read_managed_deferred_updates demo_journal =
     [(new_update_id 0 7 [], Some \<lparr>df_version = 1, df_update_id = new_update_id 0 7 [], df_session_id = lit ''s'',
        df_job_id = lit ''j'', df_update = Some demo_update\<rparr>, True)]"
  using read_one [of "lit ''s''" "lit ''j''" "new_update_id 0 7 []" 0 demo_update]
  by (simp add: demo_journal_def write_managed_deferred_update_def Let_def deferred_version_def)

lemma demo_disk_inv: "store_inv (\<lambda>_. 0) demo_job_disk"
proof -
  have "dict_ok demo_journal" by (simp add: demo_journal_def write_managed_deferred_update_def Let_def)
  moreover have "load_store (dk_main demo_job_disk) (dk_backup demo_job_disk) = Some [demo_job]"
    by (simp add: demo_job_disk_def load_store_def load_store_file_def job_store_version_def)
  moreover have "dk_journal demo_job_disk = demo_journal" by (simp add: demo_job_disk_def)
  ultimately show ?thesis
    by (simp add: store_inv_def journal_ok_def demo_entries jentry_ok_def demo_update_def valid_update_def stamped_def)
qed

text \<open>The process stops after it has replaced the primary and before it replaces the backup.\<close>

theorem job_transaction_atomic_witness:
  "store_inv (\<lambda>_. 0) (snd (fst (store_transaction (\<lambda>_. 0) 9 10
     \<lparr>io_locked = True, io_main = Landed, io_backup = Lost, io_unlinked = []\<rparr>
     (managed_update_body (\<lambda>_. 0) 9 (lit ''s'') (lit ''j'') demo_update) ([], demo_job_disk))))"
proof -
  let ?io = "\<lparr>io_locked = True, io_main = Landed, io_backup = Lost, io_unlinked = []\<rparr>"
  let ?t = "store_transaction (\<lambda>_. 0) 9 10 ?io
     (managed_update_body (\<lambda>_. 0) 9 (lit ''s'') (lit ''j'') demo_update) ([], demo_job_disk)"
  have t: "?t = ((fst (fst ?t), snd (fst ?t)), snd ?t)" by simp
  show ?thesis
    using job_transaction_atomic [OF update_body.job_body_axioms demo_disk_inv _ _ t] by simp
qed

text \<open>Both attempts find the store locked, and the update is journaled behind the one already there.\<close>

theorem managed_update_exactly_once_witness:
  "\<exists>rows disk. managed_store_update (\<lambda>_. 0) (\<lambda>_. 0) 9 10
      (replicate store_retry_attempts \<lparr>io_locked = False, io_main = Lost, io_backup = Lost, io_unlinked = []\<rparr>)
      Landed (new_update_id 1 8 []) (lit ''s'') (lit ''j'') demo_update ([], demo_job_disk) = (([], disk), Inr ()) \<and>
    (view (\<lambda>_. 0) 9 disk = Some (update_rows (\<lambda>_. 0) (lit ''s'') (lit ''j'') demo_update rows) \<or>
     view (\<lambda>_. 0) 9 disk = Some (fst (prune_store 10 (update_rows (\<lambda>_. 0) (lit ''s'') (lit ''j'') demo_update rows))))"
proof -
  let ?ios = "replicate store_retry_attempts \<lparr>io_locked = False, io_main = Lost, io_backup = Lost, io_unlinked = []\<rparr>"
  let ?t = "managed_store_update (\<lambda>_. 0) (\<lambda>_. 0) 9 10 ?ios Landed (new_update_id 1 8 []) (lit ''s'') (lit ''j'')
     demo_update ([], demo_job_disk)"
  have valid: "valid_update (\<lambda>_. 0) demo_update" by (simp add: demo_update_def valid_update_def stamped_def)
  have seq: "sequenced 1 (dk_journal demo_job_disk)"
    by (auto simp: sequenced_def demo_job_disk_def demo_journal_def write_managed_deferred_update_def Let_def)
  have unused: "new_update_id 1 8 [] \<notin> set (jr_applied j)"
    if "load_store (dk_main demo_job_disk) (dk_backup demo_job_disk) = Some rows" "j \<in> set rows" for rows j
    using that by (auto simp: demo_job_disk_def load_store_def load_store_file_def job_store_version_def demo_job_def)
  obtain disk where t: "?t = (([], disk), Inr ())"
    by (simp add: store_retry_attempts_def numeral_2_eq_2 store_transaction_def write_managed_deferred_update_def Let_def)
  have "store_inv (\<lambda>_. 0) disk \<and> (\<exists>rows. view (\<lambda>_. 0) 9 demo_job_disk = Some rows \<and>
    (view (\<lambda>_. 0) 9 disk = Some (update_rows (\<lambda>_. 0) (lit ''s'') (lit ''j'') demo_update rows) \<or>
     view (\<lambda>_. 0) 9 disk = Some (fst (prune_store 10 (update_rows (\<lambda>_. 0) (lit ''s'') (lit ''j'') demo_update rows))) \<or>
     (\<exists>e. (Inr () :: txn_error + unit) = Inl e) \<and> view (\<lambda>_. 0) 9 disk = Some rows))"
    by (rule managed_update_exactly_once [OF demo_disk_inv valid _ _ seq _ unused t]) simp_all
  with t show ?thesis by blast
qed

end
