(* ===== verification/Job_Recovery.thy ===== *)
theory Job_Recovery
  imports Job_Store
begin

text \<open>
  What reconciling a job row guarantees: a row changes only on evidence, an interrupted operation is
  settled by one refresh, and a second refresh with the same observations changes nothing. And what
  retention guarantees: unfinished rows are never pruned.
\<close>

section \<open>Applying a transition\<close>

lemma apply_transition_row:
  "snd (apply_job_transition ops tr j) =
     fold apply_update (tr_updates tr) (fold remove_keys (tr_remove_keys tr)
       (if tr_clear_operation tr then clear_operation_keys j else j))"
  by (simp add: apply_job_transition_def clear_job_operation_def Let_def)

lemma no_transition_row [simp]: "apply_job_transition ops no_transition j = (ops, j)"
  by (simp add: apply_job_transition_def no_transition_def)

lemma clear_operation_fields [simp]:
  "row_status (clear_operation_keys j) = row_status j" "row_kind (clear_operation_keys j) = row_kind j"
  by (simp_all add: clear_operation_keys_def row_status_def row_kind_def)

text \<open>Updates and removed keys leave the identity of a row alone.\<close>

definition same_job :: "job_row \<Rightarrow> job_row \<Rightarrow> bool" where
  "same_job j j' \<longleftrightarrow>
     jr_job_id j' = jr_job_id j \<and> jr_session_id j' = jr_session_id j \<and> jr_kind j' = jr_kind j \<and>
     jr_managed_payload j' = jr_managed_payload j \<and> jr_created_at j' = jr_created_at j \<and>
     jr_applied j' = jr_applied j"

lemma same_job_refl [simp]: "same_job j j" and same_job_trans: "same_job i j \<Longrightarrow> same_job j k \<Longrightarrow> same_job i k"
  by (simp_all add: same_job_def)

lemma fold_same_job:
  assumes "\<And>x j. same_job j (f x j)"
  shows "same_job j (fold f xs j)"
proof (induction xs arbitrary: j)
  case (Cons x xs)
  show ?case using same_job_trans [OF assms Cons.IH] by simp
qed simp

lemma apply_transition_same: "same_job j (snd (apply_job_transition ops tr j))"
proof -
  have "same_job j (apply_update u j)" for u j by (cases u) (simp_all add: same_job_def)
  moreover have "same_job j (remove_keys k j)" for k j by (cases k) (simp_all add: same_job_def clear_pending_retry_def)
  moreover have "same_job j (clear_operation_keys j)" by (simp add: same_job_def clear_operation_keys_def)
  ultimately show ?thesis
    unfolding apply_transition_row by (auto intro!: same_job_trans [OF _ same_job_trans [OF fold_same_job fold_same_job]])
qed

lemma same_job_kind: "same_job j j' \<Longrightarrow> row_kind j' = row_kind j"
  by (simp add: same_job_def row_kind_def)

section \<open>What a refresh decides\<close>

definition refresh_transition ::
  "(ustr \<Rightarrow> status_payload option) \<Rightarrow> (job_row \<Rightarrow> bool) \<Rightarrow> (job_row \<Rightarrow> managed_liveness) \<Rightarrow>
   ustr set option \<Rightarrow> time \<Rightarrow> ustr list \<Rightarrow> job_row \<Rightarrow> job_transition" where
  "refresh_transition receipt local_task lease shells now ops j =
     reconcile_job j (observe receipt local_task lease shells now ops j)"

lemma refresh_is_transition:
  "refresh_job_status receipt local_task lease shells now ops j =
     (if \<not> (row_status j = JobLost \<and> row_kind j = ShellJob) \<and> \<not> job_active j then (ops, j)
      else if operation_blocks (observed_active_operation ops j) j then (ops, j)
      else apply_job_transition ops (refresh_transition receipt local_task lease shells now ops j) j)"
proof (cases "operation_blocks (observed_active_operation ops j) j")
  case True
  have "reconcile_job j \<lparr>ob_now = now, ob_shell = ShellUnknown, ob_status = None,
      ob_pending_status = None, ob_operation = observed_active_operation ops j, ob_local_task = False,
      ob_managed = LeaseUnknown\<rparr> = no_transition"
    using True by (auto simp: operation_blocks_def reconcile_job_def reconcile_managed_def reconcile_lost_def
        expected_operation_def active_statuses_def Let_def)
  with True show ?thesis by (simp add: refresh_job_status_def Let_def)
qed (simp add: refresh_job_status_def refresh_transition_def Let_def)

text \<open>The evidence about the current attempt of a shell job: its receipt and its shell.\<close>

definition attempt_receipt :: "(ustr \<Rightarrow> status_payload option) \<Rightarrow> job_row \<Rightarrow> status_payload option" where
  "attempt_receipt receipt j =
     read_receipt receipt (if row_status j = JobRetrying then jr_pending_status_path j else jr_status_path j)"

definition attempt_shell :: "ustr set option \<Rightarrow> job_row \<Rightarrow> shell_liveness" where
  "attempt_shell shells j =
     observed_shell_liveness (if row_status j = JobRetrying then str_or [] (jr_pending_shell_id j) else job_shell_id j) shells"

definition completed_status :: "status_payload \<Rightarrow> job_status" where
  "completed_status p = (if sp_exit_code p = Some 0 then JobSucceeded else JobFailed)"

text \<open>Where an attempt goes that left no receipt, by its status and whether its shell lives.\<close>

definition settled_status :: "job_status \<Rightarrow> shell_liveness \<Rightarrow> job_status" where
  "settled_status s shell =
     (case shell of
        ShellUnknown \<Rightarrow> s
      | ShellLive \<Rightarrow> JobRunning
      | ShellAbsent \<Rightarrow>
          (if s = JobStarting \<or> s = JobRetrying then JobFailed else if s = JobStopping then JobStopped else JobLost))"

definition final_status :: "job_update list \<Rightarrow> job_status \<Rightarrow> job_status" where
  "final_status us = fold (\<lambda>u s. case u of SetStatus t \<Rightarrow> t | _ \<Rightarrow> s) us"

lemma final_status_simps [simp]:
  "final_status [] s = s"
  "final_status (u # us) s = final_status us (case u of SetStatus t \<Rightarrow> t | _ \<Rightarrow> s)"
  "final_status (us @ vs) s = final_status vs (final_status us s)"
  by (simp_all add: final_status_def)

lemma fold_update_status: "row_status (fold apply_update us j) = final_status us (row_status j)"
proof (induction us arbitrary: j)
  case (Cons u us)
  then show ?case by (cases u) (simp_all add: row_status_def)
qed simp

lemma remove_keys_status [simp]: "row_status (fold remove_keys ks j) = row_status j"
proof (induction ks arbitrary: j)
  case (Cons k ks)
  then show ?case by (cases k) (simp_all add: row_status_def clear_pending_retry_def)
qed simp

lemma transition_status:
  "row_status (snd (apply_job_transition ops tr j)) = final_status (tr_updates tr) (row_status j)"
  by (cases "tr_clear_operation tr") (simp_all add: apply_transition_row fold_update_status)

lemma pending_updates_status [simp]: "final_status (pending_retry_updates j) s = s"
  by (simp add: pending_retry_updates_def truthy_updates_def split: option.split)

text \<open>The status that a refresh leaves, for jobs that run in a shell.\<close>

lemma shell_transition_status:
  assumes "row_kind j \<noteq> ManagedJob" and "row_status j = JobLost \<and> row_kind j = ShellJob \<or> job_active j"
    and "\<not> operation_blocks (observed_active_operation ops j) j"
  shows "final_status (tr_updates (refresh_transition receipt local_task lease shells now ops j)) (row_status j) =
    (case attempt_receipt receipt j of
       Some p \<Rightarrow> completed_status p
     | None \<Rightarrow> settled_status (row_status j) (attempt_shell shells j))"
  using assms
  by (auto simp: refresh_transition_def observe_def Let_def reconcile_job_def job_active_def active_statuses_def
      operation_blocks_def expected_operation_def attempt_receipt_def attempt_shell_def settled_status_def
      completed_status_def completion_transition_def reconcile_lost_def reconcile_starting_def
      reconcile_retrying_def reconcile_live_def no_transition_def
      split: option.splits shell_liveness.splits)

lemma managed_transition:
  assumes "row_kind j = ManagedJob" and "job_active j" and "\<not> operation_blocks (observed_active_operation ops j) j"
  shows "refresh_transition receipt local_task lease shells now ops j =
    (if local_task j \<or> lease j \<noteq> LeaseDead then no_transition
     else reconcile_managed (row_status j) (observe receipt local_task lease shells now ops j))"
  using assms
  by (auto simp: refresh_transition_def observe_def Let_def reconcile_job_def job_active_def
      operation_blocks_def reconcile_managed_def active_statuses_def)

lemma unknown_no_transition:
  assumes "row_kind j \<noteq> ManagedJob" and "attempt_receipt receipt j = None" and "attempt_shell shells j = ShellUnknown"
  shows "refresh_transition receipt local_task lease shells now ops j = no_transition"
  using assms
  by (cases "row_status j = JobRetrying")
    (auto simp: refresh_transition_def observe_def Let_def reconcile_job_def attempt_receipt_def attempt_shell_def
      reconcile_lost_def reconcile_starting_def reconcile_retrying_def reconcile_live_def)

text \<open>
  C21. A job row changes only on evidence. A refresh never touches a finished row, a row whose own start,
  stop or retry is still running in this process, or the identity of any row. A managed job is given
  up only when it has no task here and its lease is dead. A shell job takes the outcome of its
  receipt, and without one it changes only when the inventory of shells is known, as its status and
  the presence of its shell demand.
\<close>

theorem job_changes_need_evidence:
  assumes "refresh_job_status receipt local_task lease shells now ops j = (ops', j')" and "j' \<noteq> j"
  shows "same_job j j' \<and> \<not> operation_blocks (observed_active_operation ops j) j \<and>
    (if row_kind j = ManagedJob
     then job_active j \<and> \<not> local_task j \<and> lease j = LeaseDead \<and>
       row_status j' = (if row_status j = JobStopping then JobStopped else JobLost)
     else (job_active j \<or> row_status j = JobLost) \<and>
       (case attempt_receipt receipt j of
          Some p \<Rightarrow> row_status j' = completed_status p
        | None \<Rightarrow> attempt_shell shells j \<noteq> ShellUnknown \<and>
            row_status j' = settled_status (row_status j) (attempt_shell shells j)))"
proof -
  let ?tr = "refresh_transition receipt local_task lease shells now ops j"
  from assms have go: "row_status j = JobLost \<and> row_kind j = ShellJob \<or> job_active j"
    and free: "\<not> operation_blocks (observed_active_operation ops j) j"
    and j': "j' = snd (apply_job_transition ops ?tr j)"
    by (auto simp: refresh_is_transition split: if_splits)
  have status: "row_status j' = final_status (tr_updates ?tr) (row_status j)" by (simp add: j' transition_status)
  have moved: "?tr \<noteq> no_transition" using assms(2) j' by auto
  show ?thesis
  proof (cases "row_kind j = ManagedJob")
    case True
    with go have active: "job_active j" by simp
    note tr = managed_transition [OF True active free, of receipt local_task lease shells now]
    with moved have dead: "\<not> local_task j" "lease j = LeaseDead" by (auto split: if_splits)
    with tr moved have "row_status j' = (if row_status j = JobStopping then JobStopped else JobLost)"
      unfolding status by (auto simp: reconcile_managed_def split: if_splits)
    with True active dead free j' apply_transition_same show ?thesis by simp
  next
    case False
    note shell = shell_transition_status [OF False go free, of receipt local_task lease shells now]
    have "attempt_receipt receipt j \<noteq> None \<or> attempt_shell shells j \<noteq> ShellUnknown"
      using unknown_no_transition [OF False] moved by blast
    with False shell status go free j' apply_transition_same show ?thesis by (auto split: option.split)
  qed
qed

text \<open>Rows that a refresh leaves as they are.\<close>

lemma refresh_live:
  assumes "row_kind j \<noteq> ManagedJob" and "row_status j = JobRunning"
    and "read_receipt receipt (jr_status_path j) = None" and "observed_shell_liveness (job_shell_id j) shells = ShellLive"
  shows "refresh_job_status receipt local_task lease shells now ops j = (ops, j)"
  using assms
  by (simp add: refresh_is_transition operation_blocks_def refresh_transition_def observe_def Let_def
      reconcile_job_def active_statuses_def expected_operation_def reconcile_live_def)

lemma refresh_lost:
  assumes "row_kind j \<noteq> ManagedJob" and "row_status j = JobLost" and "jr_shell_absent j"
    and "read_receipt receipt (jr_status_path j) = None" and "observed_shell_liveness (job_shell_id j) shells = ShellAbsent"
  shows "refresh_job_status receipt local_task lease shells now ops j = (ops, j)"
proof (cases "row_kind j = ShellJob")
  case True
  have "j\<lparr>jr_shell_absent := True\<rparr> = j" using assms(3) by (cases j) simp
  with True assms show ?thesis
    by (simp add: refresh_is_transition operation_blocks_def refresh_transition_def observe_def Let_def
        reconcile_job_def reconcile_lost_def apply_job_transition_def)
qed (use assms in \<open>simp add: refresh_is_transition job_active_def active_statuses_def\<close>)

lemma refresh_finished:
  "\<not> job_active j \<Longrightarrow> row_status j \<noteq> JobLost \<Longrightarrow> refresh_job_status receipt local_task lease shells now ops j = (ops, j)"
  by (simp add: refresh_is_transition)

lemma completed_finished: "completed_status p \<noteq> JobLost" "completed_status p \<notin> set active_statuses"
  by (simp_all add: completed_status_def active_statuses_def)

text \<open>The row after a refresh without a receipt: where the evidence about it is looked for.\<close>

lemma pending_fields [simp]:
  "jr_status_path (fold apply_update (pending_retry_updates j) x) =
     (if str_or [] (jr_pending_status_path j) = [] then jr_status_path x else jr_pending_status_path j)"
  "jr_shell_id (fold apply_update (pending_retry_updates j) x) =
     (if str_or [] (jr_pending_shell_id j) = [] then jr_shell_id x else jr_pending_shell_id j)"
  by (auto simp: pending_retry_updates_def truthy_updates_def str_or_def split: option.split)

lemma refresh_row:
  assumes "row_kind j \<noteq> ManagedJob" and "\<not> operation_blocks (observed_active_operation ops j) j"
    and "attempt_receipt receipt j = None" and "shells \<noteq> None"
    and "row_status j = JobRetrying \<Longrightarrow> str_or [] (jr_pending_status_path j) \<noteq> []"
    and "j' = snd (apply_job_transition ops (refresh_transition receipt local_task lease shells now ops j) j)"
    and "row_status j' = JobRunning \<or> row_status j' = JobLost"
    and "row_status j = JobLost \<and> row_kind j = ShellJob \<or> job_active j"
  shows "read_receipt receipt (jr_status_path j') = None \<and>
    observed_shell_liveness (job_shell_id j') shells = attempt_shell shells j \<and>
    (row_status j' = JobLost \<longrightarrow> jr_shell_absent j')"
proof (cases "row_status j = JobRetrying")
  case True
  have tr: "refresh_transition receipt local_task lease shells now ops j =
      reconcile_retrying j (observe receipt local_task lease shells now ops j)"
    using assms(1,2) True
    by (auto simp: refresh_transition_def reconcile_job_def observe_def Let_def active_statuses_def
        operation_blocks_def expected_operation_def)
  have "row_status j' = settled_status JobRetrying (attempt_shell shells j)"
    using shell_transition_status [OF assms(1,8,2), of receipt local_task lease shells now] assms(3,6) True
    by (simp add: transition_status)
  moreover have "attempt_shell shells j \<noteq> ShellUnknown"
    using assms(4) by (auto simp: attempt_shell_def observed_shell_liveness_def split: if_splits)
  ultimately have live: "attempt_shell shells j = ShellLive"
    using assms(7) by (cases "attempt_shell shells j") (auto simp: settled_status_def)
  then have shell: "str_or [] (jr_pending_shell_id j) \<noteq> []"
    using True assms(4) by (auto simp: attempt_shell_def observed_shell_liveness_def split: if_splits)
  have "jr_status_path j' = jr_pending_status_path j" "jr_shell_id j' = jr_pending_shell_id j"
    using assms(1,3,5,6) True live shell
    by (simp_all add: tr apply_transition_row reconcile_retrying_def observe_def Let_def attempt_receipt_def
        attempt_shell_def)
  moreover have "row_status j' = JobRunning"
    using \<open>row_status j' = settled_status JobRetrying (attempt_shell shells j)\<close> live by (simp add: settled_status_def)
  ultimately show ?thesis
    using assms(3) True by (simp add: attempt_receipt_def attempt_shell_def job_shell_id_def)
next
  case False
  have "jr_status_path j' = jr_status_path j \<and> jr_shell_id j' = jr_shell_id j \<and>
      (row_status j' = JobLost \<longrightarrow> jr_shell_absent j')"
    using assms(1-4,8) False unfolding assms(6) apply_transition_row
    by (auto simp: refresh_transition_def reconcile_job_def observe_def Let_def active_statuses_def job_active_def
        operation_blocks_def expected_operation_def attempt_receipt_def reconcile_lost_def reconcile_starting_def
        reconcile_live_def no_transition_def clear_operation_keys_def row_status_def observed_shell_liveness_def
        split: shell_liveness.split if_splits)
  with False assms(3) show ?thesis by (simp add: attempt_receipt_def attempt_shell_def job_shell_id_def)
qed

text \<open>
  One refresh settles an interrupted shell job. When the inventory of shells could be read and no
  operation of this process owns the row, no row is left starting, stopping or retrying, and any
  later refresh that finds the same receipts and the same shells changes nothing.
\<close>

theorem job_refresh_settles:
  assumes "row_kind j \<noteq> ManagedJob" and "observed_active_operation ops j = None"
    and "row_status j = JobRetrying \<Longrightarrow> str_or [] (jr_pending_status_path j) \<noteq> []"
    and "refresh_job_status receipt local_task lease (Some shells) now ops j = (ops', j')"
  shows "row_status j' \<notin> {JobStarting, JobStopping, JobRetrying} \<and>
    refresh_job_status receipt local_task lease (Some shells) later ops' j' = (ops', j')"
proof (cases "row_status j = JobLost \<and> row_kind j = ShellJob \<or> job_active j")
  case False
  with assms(4) have j': "j' = j" "ops' = ops" by (auto simp: refresh_is_transition)
  have "row_status j \<notin> {JobStarting, JobStopping, JobRetrying}"
    using False by (auto simp: job_active_def active_statuses_def)
  moreover have "refresh_job_status receipt local_task lease (Some shells) later ops j = (ops, j)"
    using False by (auto simp: refresh_is_transition)
  ultimately show ?thesis by (simp add: j')
next
  case go: True
  have free: "\<not> operation_blocks (observed_active_operation ops j) j" using assms(2) by (simp add: operation_blocks_def)
  let ?tr = "refresh_transition receipt local_task lease (Some shells) now ops j"
  have j': "j' = snd (apply_job_transition ops ?tr j)"
    using assms(4) go free by (auto simp: refresh_is_transition split: if_splits)
  have kind: "row_kind j' \<noteq> ManagedJob" using same_job_kind [OF apply_transition_same] assms(1) j' by metis
  have status: "row_status j' = (case attempt_receipt receipt j of
       Some p \<Rightarrow> completed_status p | None \<Rightarrow> settled_status (row_status j) (attempt_shell (Some shells) j))"
    using shell_transition_status [OF assms(1) go free] j' by (simp add: transition_status)
  have known: "attempt_shell (Some shells) j \<noteq> ShellUnknown"
    by (simp add: attempt_shell_def observed_shell_liveness_def)
  show ?thesis
  proof (cases "attempt_receipt receipt j")
    case (Some p)
    with status completed_finished [of p] have "\<not> job_active j'" "row_status j' \<noteq> JobLost"
      by (simp_all add: job_active_def)
    then show ?thesis using refresh_finished by (auto simp: job_active_def active_statuses_def)
  next
    case None
    note row = refresh_row [OF assms(1) free None _ assms(3) j' _ go]
    from known status None consider (live) "attempt_shell (Some shells) j = ShellLive" "row_status j' = JobRunning"
      | (lost) "attempt_shell (Some shells) j = ShellAbsent" "row_status j' = JobLost"
      | (ended) "row_status j' = JobFailed \<or> row_status j' = JobStopped"
      by (cases "attempt_shell (Some shells) j") (auto simp: settled_status_def split: if_splits)
    then show ?thesis
    proof cases
      case live
      with row have "read_receipt receipt (jr_status_path j') = None"
        "observed_shell_liveness (job_shell_id j') (Some shells) = ShellLive" by simp_all
      with live kind show ?thesis by (simp add: refresh_live)
    next
      case lost
      with row have "read_receipt receipt (jr_status_path j') = None" "jr_shell_absent j'"
        "observed_shell_liveness (job_shell_id j') (Some shells) = ShellAbsent" by simp_all
      with lost kind show ?thesis by (simp add: refresh_lost)
    next
      case ended
      then show ?thesis using refresh_finished [of j'] by (auto simp: job_active_def active_statuses_def)
    qed
  qed
qed

section \<open>Retention\<close>

lemma kept_positions_props:
  "distinct (kept_positions m rows)"
  "set (kept_positions m rows) \<subseteq> {..<length rows}"
  "i < length rows \<Longrightarrow> \<not> job_is_retention_terminal (rows ! i) \<Longrightarrow> i \<in> set (kept_positions m rows)"
  by (auto simp: kept_positions_def Let_def distinct_take dest: in_set_takeD)

lemma length_kept_positions:
  "length (kept_positions m rows) \<le>
     max (nat (max 0 m)) (length (filter (\<lambda>j. \<not> job_is_retention_terminal j) rows))"
proof -
  have "length (filter (\<lambda>i. \<not> job_is_retention_terminal (rows ! i)) [0..<length rows]) =
      length (filter (\<lambda>j. \<not> job_is_retention_terminal j) rows)"
    using arg_cong [OF filter_map [of "\<lambda>j. \<not> job_is_retention_terminal j" "(!) rows" "[0..<length rows]"], of length]
    by (simp add: map_nth comp_def)
  then show ?thesis by (simp add: kept_positions_def Let_def)
qed

lemma length_nths_set: "distinct ns \<Longrightarrow> set ns \<subseteq> {..<length xs} \<Longrightarrow> length (nths xs (set ns)) = length ns"
proof -
  assume ns: "distinct ns" "set ns \<subseteq> {..<length xs}"
  then have "{i. i < length xs \<and> i \<in> set ns} = set ns" by auto
  with ns show ?thesis by (simp add: length_nths distinct_card)
qed

lemma filter_nths:
  assumes "\<And>i. i < length xs \<Longrightarrow> p (xs ! i) \<Longrightarrow> i \<in> K"
  shows "filter p (nths xs K) = filter p xs"
proof -
  have "filter p (nths xs K) = map fst (filter (\<lambda>z. p (fst z) \<and> snd z \<in> K) (zip xs [0..<length xs]))"
    by (simp add: nths_def filter_map comp_def conj_commute)
  also have "\<dots> = map fst (filter (\<lambda>z. p (fst z)) (zip xs [0..<length xs]))"
    using assms by (intro arg_cong [where f = "map fst"] filter_cong) (auto simp: set_zip)
  also have "\<dots> = filter p (map fst (zip xs [0..<length xs]))" by (simp only: filter_map comp_def)
  finally show ?thesis by simp
qed

text \<open>Finished rows are kept from the newest on.\<close>

lemma pruned_older:
  assumes "i < length rows" and "i \<notin> set (kept_positions m rows)" and "k \<in> set (kept_positions m rows)"
    and "job_is_retention_terminal (rows ! k)"
  shows "job_is_retention_terminal (rows ! i)" and "retention_key (rows ! i) \<le> retention_key (rows ! k)"
proof -
  show fin: "job_is_retention_terminal (rows ! i)" using kept_positions_props(3) [OF assms(1), of m] assms(2) by blast
  let ?fin = "sort_key (\<lambda>i. - retention_key (rows ! i)) (filter (\<lambda>i. job_is_retention_terminal (rows ! i)) [0..<length rows])"
  obtain n where kept: "kept_positions m rows =
      filter (\<lambda>i. \<not> job_is_retention_terminal (rows ! i)) [0..<length rows] @ take n ?fin"
    by (simp add: kept_positions_def Let_def)
  have "k \<in> set (take n ?fin)" using assms(3,4) kept by auto
  moreover have "i \<in> set (drop n ?fin)"
  proof -
    have "i \<in> set ?fin" using assms(1) fin by simp
    then have "i \<in> set (take n ?fin) \<union> set (drop n ?fin)" by (metis append_take_drop_id set_append)
    moreover have "i \<notin> set (take n ?fin)" using assms(2) kept by auto
    ultimately show ?thesis by blast
  qed
  moreover have "sorted (map (\<lambda>i. - retention_key (rows ! i)) (take n ?fin @ drop n ?fin))" by simp
  ultimately have "- retention_key (rows ! k) \<le> - retention_key (rows ! i)"
    unfolding map_append sorted_append by (metis (no_types, lifting) imageI set_map)
  then show "retention_key (rows ! i) \<le> retention_key (rows ! k)" by simp
qed

text \<open>
  Retention spares unfinished jobs. Pruning keeps the order of the rows, keeps every row that is
  not finished, among them every lost shell job whose shell may still exist, and leaves no more rows
  than the limit or than there are unfinished ones; what it removes is finished and no newer than any
  finished row it keeps.
\<close>

theorem job_retention_spares_work:
  "length (fst (prune_store m rows)) \<le>
     max (nat (max 0 m)) (length (filter (\<lambda>j. \<not> job_is_retention_terminal j) rows)) \<and>
   filter (\<lambda>j. \<not> job_is_retention_terminal j) (fst (prune_store m rows)) =
     filter (\<lambda>j. \<not> job_is_retention_terminal j) rows \<and>
   (\<exists>keep. fst (prune_store m rows) = nths rows keep \<and>
     list_all (\<lambda>gone. job_is_retention_terminal gone \<and>
       list_all (\<lambda>j. job_is_retention_terminal j \<longrightarrow> retention_key gone \<le> retention_key j) (nths rows keep))
       (nths rows (- keep)))"
proof (intro conjI exI)
  let ?K = "kept_positions m rows"
  have keep: "fst (prune_store m rows) = nths rows (set ?K)" by (simp add: prune_store_def Let_def)
  show "fst (prune_store m rows) = nths rows (set ?K)" by (rule keep)
  show "length (fst (prune_store m rows)) \<le>
      max (nat (max 0 m)) (length (filter (\<lambda>j. \<not> job_is_retention_terminal j) rows))"
    using length_kept_positions [of m rows] length_nths_set [OF kept_positions_props(1) [of m rows] kept_positions_props(2) [of m rows]]
    by (simp add: keep)
  show "filter (\<lambda>j. \<not> job_is_retention_terminal j) (fst (prune_store m rows)) =
      filter (\<lambda>j. \<not> job_is_retention_terminal j) rows"
    unfolding keep by (rule filter_nths) (rule kept_positions_props(3))
  show "list_all (\<lambda>gone. job_is_retention_terminal gone \<and>
       list_all (\<lambda>j. job_is_retention_terminal j \<longrightarrow> retention_key gone \<le> retention_key j) (nths rows (set ?K)))
       (nths rows (- set ?K))"
    unfolding list_all_iff
  proof (intro ballI conjI impI)
    fix gone
    assume "gone \<in> set (nths rows (- set ?K))"
    then obtain i where i: "i < length rows" "i \<notin> set ?K" "gone = rows ! i" by (auto simp: set_nths)
    then show "job_is_retention_terminal gone" using kept_positions_props(3) by blast
    fix j
    assume "j \<in> set (nths rows (set ?K))" "job_is_retention_terminal j"
    then obtain k where "k \<in> set ?K" "j = rows ! k" by (auto simp: set_nths)
    with pruned_older(2) [OF i(1,2)] i(3) \<open>job_is_retention_terminal j\<close> show "retention_key gone \<le> retention_key j" by simp
  qed
qed

section \<open>A concrete run\<close>

text \<open>A retry was interrupted after its shell had started; the inventory lists the shell.\<close>

definition demo_retrying :: job_row where
  "demo_retrying = \<lparr>jr_job_id = Some (lit ''j''), jr_kind = None, jr_name = None,
     jr_status = Some JobRetrying, jr_command = None, jr_cwd = None, jr_session_id = Some (lit ''s''),
     jr_shell_id = Some (lit ''old''), jr_command_path = None, jr_log_path = None,
     jr_status_path = Some (lit ''1.json''), jr_created_at = Some 1, jr_updated_at = Some 1,
     jr_last_started_at = Some 1, jr_completed_at = None, jr_exit_code = None, jr_error = None,
     jr_log_truncated = False, jr_output_bytes = Some 0, jr_attempts = Some 1, jr_managed_kind = None,
     jr_managed_payload = None, jr_runtime_instance_id = None, jr_lease_version = None,
     jr_progress = None, jr_result = None, jr_shell_absent = False, jr_operation_id = Some (lit ''retry_1''),
     jr_operation_kind = Some OpRetry, jr_operation_started_at = Some 1, jr_pending_attempt = Some 2,
     jr_pending_shell_id = Some (lit ''new''), jr_pending_command_path = None, jr_pending_log_path = None,
     jr_pending_status_path = Some (lit ''2.json''), jr_applied = []\<rparr>"

abbreviation demo_refresh :: "ustr list \<Rightarrow> job_row \<Rightarrow> ustr list \<times> job_row" where
  "demo_refresh \<equiv> refresh_job_status (\<lambda>_. None) (\<lambda>_. False) (\<lambda>_. LeaseUnknown) (Some {lit ''new''}) 5"

lemma demo_retry_facts:
  "row_kind demo_retrying \<noteq> ManagedJob" "observed_active_operation [] demo_retrying = None"
  "str_or [] (jr_pending_status_path demo_retrying) \<noteq> []" "row_status demo_retrying = JobRetrying"
  by (simp_all add: demo_retrying_def row_kind_def observed_active_operation_def job_operation_is_active_def
      str_or_def row_status_def)

lemma demo_refreshed: "row_status (snd (demo_refresh [] demo_retrying)) = JobRunning"
proof -
  have "attempt_receipt (\<lambda>_. None) demo_retrying = None" by (simp add: attempt_receipt_def read_receipt_def)
  moreover have "attempt_shell (Some {lit ''new''}) demo_retrying = ShellLive"
    using demo_retry_facts(4)
    by (simp add: attempt_shell_def observed_shell_liveness_def) (simp add: demo_retrying_def str_or_def)
  ultimately show ?thesis
    using shell_transition_status [OF demo_retry_facts(1), of "[]" "\<lambda>_. None" "\<lambda>_. False" "\<lambda>_. LeaseUnknown"] demo_retry_facts
    by (simp add: refresh_is_transition job_active_def active_statuses_def operation_blocks_def transition_status settled_status_def)
qed

theorem job_changes_need_evidence_witness:
  "row_status (snd (demo_refresh [] demo_retrying)) = JobRunning \<and> same_job demo_retrying (snd (demo_refresh [] demo_retrying))"
proof -
  have "snd (demo_refresh [] demo_retrying) \<noteq> demo_retrying" using demo_refreshed demo_retry_facts(4) by auto
  with job_changes_need_evidence [of _ _ _ _ _ "[]" demo_retrying, OF prod.collapse [symmetric]] demo_refreshed
  show ?thesis by blast
qed

theorem job_refresh_settles_witness:
  "demo_refresh (fst (demo_refresh [] demo_retrying)) (snd (demo_refresh [] demo_retrying)) = demo_refresh [] demo_retrying"
  using job_refresh_settles [OF demo_retry_facts(1,2) _ prod.collapse [symmetric],
      of "\<lambda>_. None" "\<lambda>_. False" "\<lambda>_. LeaseUnknown" "{lit ''new''}" 5 5] demo_retry_facts(3)
  by simp

text \<open>One slot for two finished jobs and a running one.\<close>

theorem job_retention_spares_work_witness:
  "filter (\<lambda>j. \<not> job_is_retention_terminal j)
     (fst (prune_store 1 [demo_retrying\<lparr>jr_status := Some JobFailed\<rparr>, demo_retrying])) = [demo_retrying]"
proof -
  have "job_is_retention_terminal (demo_retrying\<lparr>jr_status := Some JobFailed\<rparr>)" "\<not> job_is_retention_terminal demo_retrying"
    by (simp_all add: job_is_retention_terminal_def terminal_statuses_def row_status_def demo_retrying_def)
  with job_retention_spares_work [of 1 "[demo_retrying\<lparr>jr_status := Some JobFailed\<rparr>, demo_retrying]"]
  show ?thesis by simp
qed

end
