(* ===== verification/Copy_Checkpoints.thy ===== *)
theory Copy_Checkpoints
  imports Payload_Store Job_Store
begin

text \<open>
  The durable checkpoints of session copies between executors,
  \<open>src/src/workgate/control/session_copy_store.py\<close>, with the decisions of
  \<open>src/src/workgate/control/session_copy.py\<close> that read and write them.

  One JSON file holds the transfers and the reservations. Its decoded content is a \<open>copy_registry\<close>;
  \<open>fsize\<close> is the length of its encoding, which the bounded read compares with its limit. Every
  operation is one transaction under the lock of the file. \<open>now\<close> is the clock reading of the call.
  The keyword arguments that the service passes to \<open>update\<close> are the constructors of
  \<open>checkpoint_change\<close>.
\<close>

section \<open>Records and their validation\<close>

datatype copy_kind = CopyFile | CopyDir

datatype copy_transport = ControlRelay | PeerDirect

datatype copy_step = Exported | Importing | Imported

record checkpoint =
  cp_transfer_id :: ustr
  cp_owner_job_id :: "ustr option"
  cp_source_session_id :: ustr
  cp_source_executor_id :: ustr
  cp_destination_session_id :: ustr
  cp_destination_executor_id :: ustr
  cp_source_path :: ustr
  cp_destination_path :: ustr
  cp_kind :: copy_kind
  cp_overwrite :: bool
  cp_chunk_size :: int
  cp_payload_id :: "ustr option"
  cp_transport :: copy_transport
  cp_payload_size :: int
  cp_payload_sha :: ustr
  cp_source_resolved_path :: ustr
  cp_import_path :: "ustr option"
  cp_import_resource_id :: "ustr option"
  cp_destination_resolved_path :: "ustr option"
  cp_entries :: "int option"
  cp_chunks :: int
  cp_resumed_bytes :: int
  cp_cleanup_errors :: "ustr list"
  cp_receipts_released :: bool
  cp_abandoning :: bool
  cp_last_known_step :: copy_step
  cp_created_at :: time
  cp_updated_at :: time

record reservation =
  rv_transfer_id :: ustr
  rv_owner_job_id :: "ustr option"
  rv_payload_size :: int
  rv_created_at :: time
  rv_updated_at :: time

record copy_registry =
  cr_transfers :: "(ustr, checkpoint) dict"
  cr_reservations :: "(ustr, reservation) dict"

fun opt_ok :: "('a \<Rightarrow> bool) \<Rightarrow> 'a option \<Rightarrow> bool" where
  "opt_ok p None = True"
| "opt_ok p (Some x) = p x"

definition copy_transfer_id_ok :: "ustr \<Rightarrow> bool" where
  "copy_transfer_id_ok = opaque_id (lit ''copy_'') 22 128"

definition copy_job_id_ok :: "ustr \<Rightarrow> bool" where
  "copy_job_id_ok = opaque_id (lit ''job_'') 12 128"

definition copy_payload_id_ok :: "ustr \<Rightarrow> bool" where
  "copy_payload_id_ok = opaque_id (lit ''payload_'') 22 128"

definition copy_sha256_ok :: "ustr \<Rightarrow> bool" where
  "copy_sha256_ok s \<longleftrightarrow> length s = 64 \<and> list_all is_hex s"

definition validate_step :: "checkpoint \<Rightarrow> bool" where
  "validate_step c \<longleftrightarrow>
     (cp_transport c = PeerDirect \<longleftrightarrow> cp_payload_id c = None) \<and>
     cp_created_at c \<le> cp_updated_at c \<and>
     (cp_last_known_step c \<noteq> Exported \<longrightarrow> cp_import_path c \<noteq> None \<and> cp_import_resource_id c \<noteq> None) \<and>
     (if cp_last_known_step c = Imported
      then cp_destination_resolved_path c \<noteq> None \<and> (cp_kind c = CopyDir \<longrightarrow> cp_entries c \<noteq> None)
      else \<not> cp_receipts_released c)"

definition checkpoint_ok :: "checkpoint \<Rightarrow> bool" where
  "checkpoint_ok c \<longleftrightarrow>
     copy_transfer_id_ok (cp_transfer_id c) \<and> opt_ok copy_job_id_ok (cp_owner_job_id c) \<and>
     session_id_ok (cp_source_session_id c) \<and> executor_id_ok (cp_source_executor_id c) \<and>
     session_id_ok (cp_destination_session_id c) \<and> executor_id_ok (cp_destination_executor_id c) \<and>
     0 < cp_chunk_size c \<and> opt_ok copy_payload_id_ok (cp_payload_id c) \<and> 0 \<le> cp_payload_size c \<and>
     copy_sha256_ok (cp_payload_sha c) \<and> opt_ok ((\<le>) 0) (cp_entries c) \<and> 0 \<le> cp_chunks c \<and>
     0 \<le> cp_resumed_bytes c \<and> 0 \<le> cp_created_at c \<and> 0 \<le> cp_updated_at c \<and> validate_step c"

definition reservation_ok :: "reservation \<Rightarrow> bool" where
  "reservation_ok r \<longleftrightarrow>
     copy_transfer_id_ok (rv_transfer_id r) \<and> opt_ok copy_job_id_ok (rv_owner_job_id r) \<and>
     0 \<le> rv_payload_size r \<and> 0 \<le> rv_created_at r \<and> 0 \<le> rv_updated_at r \<and> rv_created_at r \<le> rv_updated_at r"

definition registry_ok :: "copy_registry \<Rightarrow> bool" where
  "registry_ok g \<longleftrightarrow>
     dict_ok (cr_transfers g) \<and> dict_ok (cr_reservations g) \<and>
     list_all (\<lambda>(k, c). copy_transfer_id_ok k \<and> checkpoint_ok c \<and> k = cp_transfer_id c) (cr_transfers g) \<and>
     list_all (\<lambda>(k, r). copy_transfer_id_ok k \<and> reservation_ok r \<and> k = rv_transfer_id r) (cr_reservations g) \<and>
     list_all (\<lambda>k. k \<notin> fst ` set (cr_reservations g)) (dict_keys (cr_transfers g))"

section \<open>The file\<close>

datatype copy_cell = CopyAbsent | CopyUnreadable exn | CopyDoc copy_registry

record copy_store =
  cs_cell :: copy_cell
  cs_payloads :: payload_dir

definition checkpoint_max_bytes :: nat where
  "checkpoint_max_bytes = 2 * 1024 * 1024"

definition unmanaged_checkpoint_stale :: time where
  "unmanaged_checkpoint_stale = 24 * 60 * 60"

definition load_registry_unlocked :: "(copy_registry \<Rightarrow> nat) \<Rightarrow> copy_cell \<Rightarrow> exn + copy_registry" where
  "load_registry_unlocked fsize c =
     (case c of
        CopyAbsent \<Rightarrow> Inr \<lparr>cr_transfers = [], cr_reservations = []\<rparr>
      | CopyUnreadable e \<Rightarrow> Inl e
      | CopyDoc g \<Rightarrow>
          if checkpoint_max_bytes < fsize g then Inl ValueError
          else if registry_ok g then Inr g else Inl RuntimeError)"

definition save_registry_unlocked :: "outcome \<Rightarrow> copy_registry \<Rightarrow> copy_store \<Rightarrow> copy_store \<times> (exn + unit)" where
  "save_registry_unlocked w g s =
     (if lands w then s\<lparr>cs_cell := CopyDoc g\<rparr> else s, if reports w then Inr () else Inl OSError)"

text \<open>A transaction that loads the registry and, in the branches that change it, saves it.\<close>

definition with_registry ::
  "(copy_registry \<Rightarrow> nat) \<Rightarrow> (copy_registry \<Rightarrow> copy_store \<times> (exn + 'a)) \<Rightarrow> copy_store \<Rightarrow> copy_store \<times> (exn + 'a)" where
  "with_registry fsize body s =
     (case load_registry_unlocked fsize (cs_cell s) of Inl e \<Rightarrow> (s, Inl e) | Inr g \<Rightarrow> body g)"

definition save_then :: "outcome \<Rightarrow> copy_registry \<Rightarrow> 'a \<Rightarrow> copy_store \<Rightarrow> copy_store \<times> (exn + 'a)" where
  "save_then w g x s =
     (case save_registry_unlocked w g s of (s, Inl e) \<Rightarrow> (s, Inl e) | (s, Inr _) \<Rightarrow> (s, Inr x))"

definition load_checkpoint :: "(copy_registry \<Rightarrow> nat) \<Rightarrow> ustr \<Rightarrow> copy_store \<Rightarrow> exn + checkpoint option" where
  "load_checkpoint fsize k s = map_sum id (\<lambda>g. map_of (cr_transfers g) k) (load_registry_unlocked fsize (cs_cell s))"

definition load_for_owner_job :: "(copy_registry \<Rightarrow> nat) \<Rightarrow> ustr \<Rightarrow> copy_store \<Rightarrow> exn + checkpoint option" where
  "load_for_owner_job fsize job s =
     (case load_registry_unlocked fsize (cs_cell s) of
        Inl e \<Rightarrow> Inl e
      | Inr g \<Rightarrow>
          (case filter (\<lambda>c. cp_owner_job_id c = Some job) (dict_values (cr_transfers g)) of
             [] \<Rightarrow> Inr None
           | [c] \<Rightarrow> Inr (Some c)
           | _ \<Rightarrow> Inl RuntimeError))"

section \<open>Reserving, committing and updating\<close>

definition retained_bytes :: "copy_registry \<Rightarrow> int" where
  "retained_bytes g =
     sum_list (map cp_payload_size
       (filter (\<lambda>c. cp_payload_id c \<noteq> None \<and> \<not> cp_abandoning c) (dict_values (cr_transfers g))))"

definition reserved_bytes :: "copy_registry \<Rightarrow> int" where
  "reserved_bytes g = sum_list (map rv_payload_size (dict_values (cr_reservations g)))"

definition reserve_export ::
  "(copy_registry \<Rightarrow> nat) \<Rightarrow> outcome \<Rightarrow> time \<Rightarrow> ustr \<Rightarrow> ustr option \<Rightarrow> int \<Rightarrow> int \<Rightarrow> int \<Rightarrow> copy_store \<Rightarrow>
   copy_store \<times> (exn + reservation)" where
  "reserve_export fsize w now k owner requested max_payload max_store s =
     (if requested < 0 then (s, Inl ValueError)
      else if max_payload < requested then (s, Inl RuntimeError)
      else with_registry fsize (\<lambda>g.
        if map_of (cr_transfers g) k \<noteq> None then (s, Inl RuntimeError)
        else case map_of (cr_reservations g) k of
               Some r \<Rightarrow>
                 if rv_payload_size r \<noteq> requested \<or> rv_owner_job_id r \<noteq> owner then (s, Inl RuntimeError)
                 else (s, Inr r)
             | None \<Rightarrow>
                 if max_store < retained_bytes g + reserved_bytes g + requested then (s, Inl RuntimeError)
                 else let r = \<lparr>rv_transfer_id = k, rv_owner_job_id = owner, rv_payload_size = requested,
                            rv_created_at = now, rv_updated_at = now\<rparr>
                      in if \<not> reservation_ok r then (s, Inl ValueError)
                         else save_then w (g\<lparr>cr_reservations := AList.update k r (cr_reservations g)\<rparr>) r s) s)"

text \<open>
  The upload of a payload to its staging file, \<open>_upload\<close> of
  \<open>src/src/workgate/control/transfer_gateway.py\<close>, under a capability with the size \<open>n\<close> and the digest
  that \<open>_export_payload\<close> expects and commits with. \<open>declared\<close> is the header with the length, when there is
  one, and its integer, when it is one; \<open>chunks\<close> is what the stream yields and \<open>broken\<close> whether it then
  raises. \<open>stuck\<close> says that the staging file cannot be unlinked, which raises.
\<close>

datatype upload_answer =
    CapabilityNotFound
  | UploadSizeMismatch
  | UploadIntegrityMismatch
  | UploadAccepted
  | UploadRaised

fun receive_chunks :: "int \<Rightarrow> octets list \<Rightarrow> octets \<Rightarrow> octets \<times> bool" where
  "receive_chunks n [] acc = (acc, False)"
| "receive_chunks n (chunk # chunks) acc =
     (if chunk = [] then receive_chunks n chunks acc
      else if n < int (length acc + length chunk) then (acc, True)
      else receive_chunks n chunks (acc @ chunk))"

definition unlink_upload :: "bool \<Rightarrow> ustr \<Rightarrow> upload_answer \<Rightarrow> payload_dir \<Rightarrow> payload_dir \<times> upload_answer" where
  "unlink_upload stuck name answer d =
     (if stuck then (d, UploadRaised) else (d\<lparr>pd_staging := AList.delete name (pd_staging d)\<rparr>, answer))"

definition gateway_upload ::
  "(octets \<Rightarrow> ustr) \<Rightarrow> bool \<Rightarrow> time \<Rightarrow> ustr option \<Rightarrow> int \<Rightarrow> ustr \<Rightarrow> int option option \<Rightarrow> octets list \<Rightarrow> bool \<Rightarrow>
   payload_dir \<Rightarrow> payload_dir \<times> upload_answer" where
  "gateway_upload sha stuck now staging n digest declared chunks broken d =
     (case staging of
        None \<Rightarrow> (d, CapabilityNotFound)
      | Some name \<Rightarrow>
          if declared \<noteq> None \<and> declared \<noteq> Some (Some n) then (d, UploadSizeMismatch)
          else (case open_private_staging True now name d of
                  (d, Inl _) \<Rightarrow> unlink_upload stuck name UploadRaised d
                | (d, Inr _) \<Rightarrow>
                    (case receive_chunks n chunks [] of
                       (received, oversized) \<Rightarrow>
                         let d = write_staging now name received d in
                         if oversized then unlink_upload stuck name UploadSizeMismatch d
                         else if broken then unlink_upload stuck name UploadRaised d
                         else if int (length received) \<noteq> n \<or> sha received \<noteq> digest
                         then unlink_upload stuck name UploadIntegrityMismatch d
                         else (d, UploadAccepted))))"

text \<open>\<open>template\<close> holds the facts of the caller; the payload and the times are set here.\<close>

definition commit_export ::
  "(copy_registry \<Rightarrow> nat) \<Rightarrow> outcome \<Rightarrow> time \<Rightarrow> ustr \<Rightarrow> bool \<Rightarrow> checkpoint \<Rightarrow> ustr \<Rightarrow> int \<Rightarrow> ustr \<Rightarrow> copy_store \<Rightarrow>
   copy_store \<times> (exn + checkpoint)" where
  "commit_export fsize w now fresh moved template staging n digest s =
     (let k = cp_transfer_id template in
      with_registry fsize (\<lambda>g.
        case map_of (cr_transfers g) k of
          Some c \<Rightarrow> (s, Inr c)
        | None \<Rightarrow>
            (case map_of (cr_reservations g) k of
               None \<Rightarrow> (s, Inl RuntimeError)
             | Some r \<Rightarrow>
                 if rv_payload_size r \<noteq> n \<or> rv_owner_job_id r \<noteq> cp_owner_job_id template then (s, Inl RuntimeError)
                 else (case commit_staging True fresh moved staging n digest (cs_payloads s) of
                         (d, Inl e) \<Rightarrow> (s\<lparr>cs_payloads := d\<rparr>, Inl e)
                       | (d, Inr p) \<Rightarrow>
                           let s = s\<lparr>cs_payloads := d\<rparr>;
                               c = template\<lparr>cp_payload_id := Some (py_id p), cp_payload_size := py_size p,
                                     cp_payload_sha := py_sha p, cp_created_at := now, cp_updated_at := now\<rparr>
                           in if \<not> checkpoint_ok c then (s, Inl ValueError)
                              else save_then w
                                (g\<lparr>cr_reservations := AList.delete k (cr_reservations g),
                                   cr_transfers := AList.update k c (cr_transfers g)\<rparr>) c s))) s)"

definition begin_peer_import ::
  "(copy_registry \<Rightarrow> nat) \<Rightarrow> outcome \<Rightarrow> time \<Rightarrow> checkpoint \<Rightarrow> copy_store \<Rightarrow> copy_store \<times> (exn + checkpoint)" where
  "begin_peer_import fsize w now template s =
     (let c = template\<lparr>cp_transport := PeerDirect, cp_payload_id := None, cp_last_known_step := Importing,
                cp_created_at := now, cp_updated_at := now\<rparr>;
          k = cp_transfer_id c
      in if \<not> checkpoint_ok c then (s, Inl ValueError)
         else with_registry fsize (\<lambda>g.
           if map_of (cr_transfers g) k \<noteq> None \<or> map_of (cr_reservations g) k \<noteq> None then (s, Inl RuntimeError)
           else save_then w (g\<lparr>cr_transfers := AList.update k c (cr_transfers g)\<rparr>) c s) s)"

datatype checkpoint_change =
    BeginImport ustr ustr
  | BindResource ustr
  | FileImported ustr int int
  | DirImported ustr int int int "ustr list"
  | PeerImported ustr "int option" "ustr list"
  | CleanupErrors "ustr list"
  | ReceiptsReleased

fun apply_change :: "checkpoint_change \<Rightarrow> checkpoint \<Rightarrow> checkpoint" where
  "apply_change (BeginImport path resource) c =
     c\<lparr>cp_import_path := Some path, cp_import_resource_id := Some resource, cp_last_known_step := Importing\<rparr>"
| "apply_change (BindResource resource) c =
     c\<lparr>cp_import_resource_id := Some resource, cp_last_known_step := Importing\<rparr>"
| "apply_change (FileImported path chunks resumed) c =
     c\<lparr>cp_destination_resolved_path := Some path, cp_chunks := chunks, cp_resumed_bytes := resumed,
       cp_last_known_step := Imported\<rparr>"
| "apply_change (DirImported path entries chunks resumed errors) c =
     c\<lparr>cp_destination_resolved_path := Some path, cp_entries := Some entries, cp_chunks := chunks,
       cp_resumed_bytes := resumed, cp_cleanup_errors := errors, cp_last_known_step := Imported\<rparr>"
| "apply_change (PeerImported path entries errors) c =
     c\<lparr>cp_destination_resolved_path := Some path, cp_entries := entries, cp_cleanup_errors := errors,
       cp_last_known_step := Imported\<rparr>"
| "apply_change (CleanupErrors errors) c = c\<lparr>cp_cleanup_errors := errors\<rparr>"
| "apply_change ReceiptsReleased c = c\<lparr>cp_receipts_released := True\<rparr>"

definition update_checkpoint ::
  "(copy_registry \<Rightarrow> nat) \<Rightarrow> outcome \<Rightarrow> time \<Rightarrow> ustr \<Rightarrow> checkpoint_change \<Rightarrow> copy_store \<Rightarrow>
   copy_store \<times> (exn + checkpoint)" where
  "update_checkpoint fsize w now k change s =
     with_registry fsize (\<lambda>g.
       case map_of (cr_transfers g) k of
         None \<Rightarrow> (s, Inl RuntimeError)
       | Some c \<Rightarrow>
           let c' = (apply_change change c)\<lparr>cp_updated_at := now\<rparr>
           in if \<not> checkpoint_ok c' then (s, Inl ValueError)
              else save_then w (g\<lparr>cr_transfers := AList.update k c' (cr_transfers g)\<rparr>) c' s) s"

text \<open>The payload goes after the checkpoint, and only when the removal is durable.\<close>

definition remove_checkpoint ::
  "(copy_registry \<Rightarrow> nat) \<Rightarrow> outcome \<Rightarrow> (ustr \<Rightarrow> bool) \<Rightarrow> ustr \<Rightarrow> copy_store \<Rightarrow> copy_store \<times> (exn + unit)" where
  "remove_checkpoint fsize w busy k s =
     with_registry fsize (\<lambda>g.
       case map_of (cr_transfers g) k of
         None \<Rightarrow> (s, Inr ())
       | Some c \<Rightarrow>
           (case save_then w (g\<lparr>cr_transfers := AList.delete k (cr_transfers g)\<rparr>) () s of
              (s, Inl e) \<Rightarrow> (s, Inl e)
            | (s, Inr _) \<Rightarrow>
                (case cp_payload_id c of
                   None \<Rightarrow> (s, Inr ())
                 | Some pid \<Rightarrow> (s\<lparr>cs_payloads := remove_payload busy pid (cs_payloads s)\<rparr>, Inr ())))) s"

section \<open>Abandonment\<close>

definition live_payload_ids :: "copy_registry \<Rightarrow> ustr list" where
  "live_payload_ids g =
     List.map_filter (\<lambda>c. if cp_abandoning c then None else cp_payload_id c) (dict_values (cr_transfers g))"

definition prune_transfer_payloads :: "(ustr \<Rightarrow> bool) \<Rightarrow> copy_registry \<Rightarrow> copy_store \<Rightarrow> copy_store" where
  "prune_transfer_payloads busy g s =
     s\<lparr>cs_payloads := fst (prune_unreferenced_payloads busy (live_payload_ids g) (cs_payloads s))\<rparr>"

definition prepare_abandonment ::
  "(copy_registry \<Rightarrow> nat) \<Rightarrow> outcome \<Rightarrow> (ustr \<Rightarrow> bool) \<Rightarrow> time \<Rightarrow> ustr \<Rightarrow> copy_store \<Rightarrow>
   copy_store \<times> (exn + checkpoint option)" where
  "prepare_abandonment fsize w busy now k s =
     with_registry fsize (\<lambda>g.
       case map_of (cr_transfers g) k of
         None \<Rightarrow>
           if map_of (cr_reservations g) k = None then (s, Inr None)
           else save_then w (g\<lparr>cr_reservations := AList.delete k (cr_reservations g)\<rparr>) None s
       | Some c \<Rightarrow>
           if cp_abandoning c then (prune_transfer_payloads busy g s, Inr (Some c))
           else let c' = c\<lparr>cp_abandoning := True, cp_updated_at := now\<rparr>;
                    g' = g\<lparr>cr_transfers := AList.update k c' (cr_transfers g)\<rparr>
                in if \<not> checkpoint_ok c' then (s, Inl ValueError)
                   else (case save_then w g' () s of
                           (s, Inl e) \<Rightarrow> (s, Inl e)
                         | (s, Inr _) \<Rightarrow> (prune_transfer_payloads busy g' s, Inr (Some c')))) s"

text \<open>
  \<open>_authoritative_job_statuses\<close>: \<open>raw\<close> is what the bounded read of the job store returns. Python's
  \<open>True == 1\<close> makes the version \<open>true\<close> a legacy version.
\<close>

definition job_version_known :: "json \<Rightarrow> bool" where
  "job_version_known v \<longleftrightarrow>
     v = JNum (of_int job_store_version) \<or> (\<exists>l \<in> set job_store_legacy_versions. v = JNum (of_int l)) \<or> v = JBool True"

definition job_row_status :: "json \<Rightarrow> (ustr \<times> ustr) option" where
  "job_row_status row =
     (case row of
        JObj kvs \<Rightarrow>
          (case (obj_get kvs (lit ''job_id''), obj_get kvs (lit ''status'')) of
             (JStr j, JStr st) \<Rightarrow> if j \<noteq> [] \<and> st \<noteq> [] then Some (j, st) else None
           | _ \<Rightarrow> None)
      | _ \<Rightarrow> None)"

definition authoritative_job_statuses :: "exn + json \<Rightarrow> (ustr, ustr) dict option" where
  "authoritative_job_statuses raw =
     (case raw of
        Inr (JObj kvs) \<Rightarrow>
          if \<not> job_version_known (obj_get kvs (lit ''version'')) then None
          else (case obj_get kvs (lit ''jobs'') of
                  JList rows \<Rightarrow>
                    if list_all (\<lambda>r. job_row_status r \<noteq> None) rows
                    then Some (fold (\<lambda>r d. case job_row_status r of Some (j, st) \<Rightarrow> AList.update j st d | None \<Rightarrow> d) rows [])
                    else None
                | _ \<Rightarrow> None)
      | _ \<Rightarrow> None)"

definition owner_gone :: "(ustr, ustr) dict option \<Rightarrow> time \<Rightarrow> ustr option \<Rightarrow> time \<Rightarrow> bool" where
  "owner_gone jobs now owner updated =
     (case owner of
        None \<Rightarrow> unmanaged_checkpoint_stale \<le> now - updated
      | Some job \<Rightarrow>
          (case jobs of
             None \<Rightarrow> False
           | Some statuses \<Rightarrow>
               (case map_of statuses job of None \<Rightarrow> True | Some st \<Rightarrow> st = lit ''succeeded'')))"

definition should_abandon :: "(ustr, ustr) dict option \<Rightarrow> time \<Rightarrow> checkpoint \<Rightarrow> bool" where
  "should_abandon jobs now c \<longleftrightarrow>
     cp_abandoning c \<or> owner_gone jobs now (cp_owner_job_id c) (cp_updated_at c)"

definition should_release :: "(ustr, ustr) dict option \<Rightarrow> time \<Rightarrow> reservation \<Rightarrow> bool" where
  "should_release jobs now r \<longleftrightarrow> owner_gone jobs now (rv_owner_job_id r) (rv_updated_at r)"

definition abandon_now :: "time \<Rightarrow> checkpoint \<Rightarrow> checkpoint" where
  "abandon_now now c = (if cp_abandoning c then c else c\<lparr>cp_abandoning := True, cp_updated_at := now\<rparr>)"

text \<open>The loop over the transfers: the new rows and the candidates, unless a row fails its validation.\<close>

fun abandon_rows ::
  "(ustr, ustr) dict option \<Rightarrow> time \<Rightarrow> ustr option \<Rightarrow> (ustr, checkpoint) dict \<Rightarrow>
   ((ustr, checkpoint) dict \<times> checkpoint list \<times> bool) option" where
  "abandon_rows jobs now executor [] = Some ([], [], False)"
| "abandon_rows jobs now executor ((k, c) # rows) =
     (let c' = (if should_abandon jobs now c then abandon_now now c else c);
          picked = should_abandon jobs now c \<and>
            (case executor of None \<Rightarrow> True | Some e \<Rightarrow> cp_destination_executor_id c = e)
      in if \<not> cp_abandoning c \<and> should_abandon jobs now c \<and> \<not> checkpoint_ok c' then None
         else map_option (\<lambda>(rows', cands, changed).
           ((k, c') # rows', if picked then c' # cands else cands,
            changed \<or> (\<not> cp_abandoning c \<and> should_abandon jobs now c)))
           (abandon_rows jobs now executor rows))"

definition prepare_abandonments ::
  "(copy_registry \<Rightarrow> nat) \<Rightarrow> outcome \<Rightarrow> (ustr \<Rightarrow> bool) \<Rightarrow> time \<Rightarrow> exn + json \<Rightarrow> ustr option \<Rightarrow> copy_store \<Rightarrow>
   copy_store \<times> (exn + checkpoint list)" where
  "prepare_abandonments fsize w busy now raw_jobs executor s =
     (let jobs = authoritative_job_statuses raw_jobs in
      with_registry fsize (\<lambda>g.
        let reservations = dict_sweep (\<lambda>_. should_release jobs now) (cr_reservations g);
            released = list_ex (\<lambda>(_, r). should_release jobs now r) (cr_reservations g)
        in case abandon_rows jobs now executor (cr_transfers g) of
             None \<Rightarrow> (s, Inl ValueError)
           | Some (rows, cands, changed) \<Rightarrow>
               let g' = g\<lparr>cr_transfers := rows, cr_reservations := reservations\<rparr>;
                   finish = (\<lambda>s. let s = prune_transfer_payloads busy g' s
                     in (s\<lparr>cs_payloads := fst (prune_staging_files busy now (cs_payloads s))\<rparr>, Inr cands))
               in if changed \<or> released
                  then (case save_then w g' () s of (s, Inl e) \<Rightarrow> (s, Inl e) | (s, Inr _) \<Rightarrow> finish s)
                  else finish s) s)"

section \<open>Decisions of the copy service\<close>

datatype abandon_reply = AbandonFailed | AbandonAnswer bool

text \<open>
  \<open>_reconcile_abandonment\<close>: whether the checkpoint may be removed. \<open>reply\<close> is what the executor
  answers to \<open>transfer_abandon_import\<close>: an error, or an answer with \<open>safe_to_forget\<close> or without.
\<close>

definition reconcile_abandonment :: "checkpoint \<Rightarrow> abandon_reply \<Rightarrow> exn + unit" where
  "reconcile_abandonment c reply =
     (if cp_last_known_step c = Exported \<or> cp_receipts_released c then Inr ()
      else if cp_import_path c = None then Inl RuntimeError
      else case reply of
             AbandonFailed \<Rightarrow> Inl RuntimeError
           | AbandonAnswer safe_to_forget \<Rightarrow> if safe_to_forget then Inr () else Inl RuntimeError)"

definition retry_require_available :: "exn + checkpoint option \<Rightarrow> ustr list \<Rightarrow> exn + ustr list" where
  "retry_require_available loaded session_ids =
     (case loaded of
        Inl e \<Rightarrow> Inl e
      | Inr None \<Rightarrow> Inr session_ids
      | Inr (Some c) \<Rightarrow>
          if cp_abandoning c then Inl RuntimeError
          else if \<not> {cp_source_session_id c, cp_destination_session_id c} \<subseteq> set session_ids then Inl RuntimeError
          else if cp_last_known_step c = Imported then Inr []
          else Inr [cp_destination_session_id c])"

text \<open>The facts of a copy request that a retained checkpoint must match.\<close>

record copy_request =
  cq_source_session_id :: ustr
  cq_source_executor_id :: ustr
  cq_destination_session_id :: ustr
  cq_destination_executor_id :: ustr
  cq_source_path :: ustr
  cq_destination_path :: ustr
  cq_kind :: "copy_kind option"
  cq_overwrite :: bool
  cq_chunk_size :: int
  cq_owner_job_id :: "ustr option"

definition validate_checkpoint :: "checkpoint \<Rightarrow> copy_request \<Rightarrow> exn + unit" where
  "validate_checkpoint c q =
     (if cp_abandoning c then Inl RuntimeError
      else if cp_source_session_id c \<noteq> cq_source_session_id q \<or> cp_source_executor_id c \<noteq> cq_source_executor_id q \<or>
        cp_destination_session_id c \<noteq> cq_destination_session_id q \<or>
        cp_destination_executor_id c \<noteq> cq_destination_executor_id q \<or>
        cp_source_path c \<noteq> cq_source_path q \<or> cp_destination_path c \<noteq> cq_destination_path q \<or>
        cp_overwrite c \<noteq> cq_overwrite q \<or> cp_chunk_size c \<noteq> cq_chunk_size q \<or>
        cp_owner_job_id c \<noteq> cq_owner_job_id q then Inl RuntimeError
      else if cq_kind q \<noteq> None \<and> cq_kind q \<noteq> Some (cp_kind c) then Inl RuntimeError
      else Inr ())"

text \<open>\<open>require_available\<close> of \<open>copy\<close>: the sessions that must be reachable.\<close>

definition copy_require_available :: "checkpoint option \<Rightarrow> ustr \<Rightarrow> ustr \<Rightarrow> ustr list" where
  "copy_require_available c source destination =
     (case c of
        None \<Rightarrow> [source, destination]
      | Some c \<Rightarrow> if cp_last_known_step c = Imported then [] else [destination])"

end
