(* ===== verification/Copy_Safety.thy ===== *)
theory Copy_Safety
  imports Copy_Checkpoints
begin

text \<open>
  Safety of session-copy checkpoints over any interleaving of their operations, with failing writes.

  The registry is well formed and re-validates, the bytes it retains and reserves stay within the
  capacity, and the payload of every checkpoint that is not being abandoned is in the store with its
  length and digest, so that an interrupted copy can be resumed. The last point is an instance of
  \<open>payload_client\<close>, the contract that public file links rest on too.
\<close>

section \<open>Sums over a dictionary\<close>

definition dict_sum :: "('v \<Rightarrow> int) \<Rightarrow> ('k, 'v) dict \<Rightarrow> int" where
  "dict_sum f d = sum_list (map f (dict_values d))"

lemma dict_sum_simps [simp]: "dict_sum f [] = 0" "dict_sum f ((k, v) # d) = f v + dict_sum f d"
  by (simp_all add: dict_sum_def)

lemma dict_sum_fresh: "map_of d k = None \<Longrightarrow> dict_sum f (AList.update k v d) = dict_sum f d + f v"
  by (induction d) (auto split: if_splits)

lemma dict_sum_put: "map_of d k = Some u \<Longrightarrow> dict_sum f (AList.update k v d) = dict_sum f d - f u + f v"
  by (induction d) (auto split: if_splits)

lemma dict_sum_pop: "dict_ok d \<Longrightarrow> map_of d k = Some u \<Longrightarrow> dict_sum f (AList.delete k d) = dict_sum f d - f u"
  by (induction d) (auto simp: pop_absent split: if_splits)

lemma dict_sum_filter_le:
  assumes "\<And>k v. (k, v) \<in> set d \<Longrightarrow> 0 \<le> f v"
  shows "dict_sum f (filter p d) \<le> dict_sum f d"
  using assms
proof (induction d)
  case (Cons kv d)
  obtain k v where kv: "kv = (k, v)" by (cases kv)
  have "dict_sum f (filter p d) \<le> dict_sum f d" by (rule Cons.IH) (use Cons.prems in auto)
  moreover have "0 \<le> f v" using Cons.prems kv by auto
  ultimately show ?case by (simp add: kv)
qed simp

section \<open>Well-formed registries\<close>

definition copy_weight :: "checkpoint \<Rightarrow> int" where
  "copy_weight c = (if cp_payload_id c \<noteq> None \<and> \<not> cp_abandoning c then cp_payload_size c else 0)"

lemma retained_sum: "retained_bytes g = dict_sum copy_weight (cr_transfers g)"
proof -
  have "sum_list (map cp_payload_size (filter (\<lambda>c. cp_payload_id c \<noteq> None \<and> \<not> cp_abandoning c) cs)) =
      sum_list (map copy_weight cs)" for cs
    by (induction cs) (auto simp: copy_weight_def)
  then show ?thesis by (simp add: retained_bytes_def dict_sum_def)
qed

lemma reserved_sum: "reserved_bytes g = dict_sum rv_payload_size (cr_reservations g)"
  by (simp add: reserved_bytes_def dict_sum_def)

lemma list_all_dict:
  "dict_ok d \<Longrightarrow> list_all (\<lambda>(k, v). P k v) d \<longleftrightarrow> (\<forall>k v. map_of d k = Some v \<longrightarrow> P k v)"
proof -
  assume d: "dict_ok d"
  have "list_all (\<lambda>(k, v). P k v) d \<longleftrightarrow> (\<forall>k v. (k, v) \<in> set d \<longrightarrow> P k v)"
    unfolding list_all_iff by blast
  then show ?thesis unfolding dict_mem_iff [OF d] .
qed

lemma registry_ok_alt:
  "registry_ok g \<longleftrightarrow>
     dict_ok (cr_transfers g) \<and> dict_ok (cr_reservations g) \<and>
     (\<forall>k c. map_of (cr_transfers g) k = Some c \<longrightarrow> checkpoint_ok c \<and> k = cp_transfer_id c) \<and>
     (\<forall>k r. map_of (cr_reservations g) k = Some r \<longrightarrow> reservation_ok r \<and> k = rv_transfer_id r) \<and>
     (\<forall>k. map_of (cr_transfers g) k = None \<or> map_of (cr_reservations g) k = None)"
proof (cases "dict_ok (cr_transfers g) \<and> dict_ok (cr_reservations g)")
  case True
  have "list_all (\<lambda>k. k \<notin> fst ` set (cr_reservations g)) (dict_keys (cr_transfers g)) \<longleftrightarrow>
      (\<forall>k. map_of (cr_transfers g) k = None \<or> map_of (cr_reservations g) k = None)"
    unfolding list_all_iff map_of_eq_None_iff by auto
  moreover have "copy_transfer_id_ok k \<and> checkpoint_ok c \<and> k = cp_transfer_id c \<longleftrightarrow>
      checkpoint_ok c \<and> k = cp_transfer_id c" for k c
    by (auto simp: checkpoint_ok_def)
  moreover have "copy_transfer_id_ok k \<and> reservation_ok r \<and> k = rv_transfer_id r \<longleftrightarrow>
      reservation_ok r \<and> k = rv_transfer_id r" for k r
    by (auto simp: reservation_ok_def)
  ultimately show ?thesis
    using True by (simp add: registry_ok_def list_all_dict del: map_of_eq_Some_iff)
qed (auto simp: registry_ok_def)

lemma registry_okD:
  assumes "registry_ok g"
  shows "dict_ok (cr_transfers g)" "dict_ok (cr_reservations g)"
    "map_of (cr_transfers g) k = Some c \<Longrightarrow> checkpoint_ok c" "map_of (cr_transfers g) k = Some c \<Longrightarrow> cp_transfer_id c = k"
    "map_of (cr_reservations g) k = Some r \<Longrightarrow> reservation_ok r"
    "map_of (cr_reservations g) k = Some r \<Longrightarrow> rv_transfer_id r = k"
    "map_of (cr_transfers g) k = Some c \<Longrightarrow> map_of (cr_reservations g) k = None"
  using assms unfolding registry_ok_alt by (blast, blast, blast, blast, blast, blast, force)

lemma registry_ok_put_transfer:
  assumes "registry_ok g" "checkpoint_ok c" "cp_transfer_id c = k" "map_of (cr_reservations g) k = None"
  shows "registry_ok (g\<lparr>cr_transfers := AList.update k c (cr_transfers g)\<rparr>)"
  using assms unfolding registry_ok_alt by auto

lemma registry_ok_pop_transfer:
  "registry_ok g \<Longrightarrow> registry_ok (g\<lparr>cr_transfers := AList.delete k (cr_transfers g)\<rparr>)"
  unfolding registry_ok_alt by auto

lemma registry_ok_put_reservation:
  assumes "registry_ok g" "reservation_ok r" "rv_transfer_id r = k" "map_of (cr_transfers g) k = None"
  shows "registry_ok (g\<lparr>cr_reservations := AList.update k r (cr_reservations g)\<rparr>)"
  using assms unfolding registry_ok_alt by auto

lemma registry_ok_pop_reservation:
  "registry_ok g \<Longrightarrow> registry_ok (g\<lparr>cr_reservations := AList.delete k (cr_reservations g)\<rparr>)"
  unfolding registry_ok_alt by auto

section \<open>The payloads that checkpoints promise\<close>

definition copy_promises :: "copy_registry \<Rightarrow> payload_descriptor set" where
  "copy_promises g =
     {\<lparr>py_id = pid, py_size = cp_payload_size c, py_sha = cp_payload_sha c\<rparr> |k c pid.
        map_of (cr_transfers g) k = Some c \<and> \<not> cp_abandoning c \<and> cp_payload_id c = Some pid}"

lemma set_live_payload_ids:
  "dict_ok (cr_transfers g) \<Longrightarrow> pid \<in> set (live_payload_ids g) \<longleftrightarrow>
     (\<exists>k c. map_of (cr_transfers g) k = Some c \<and> \<not> cp_abandoning c \<and> cp_payload_id c = Some pid)"
proof -
  assume d: "dict_ok (cr_transfers g)"
  have "pid \<in> set (live_payload_ids g) \<longleftrightarrow>
      (\<exists>k c. (k, c) \<in> set (cr_transfers g) \<and> \<not> cp_abandoning c \<and> cp_payload_id c = Some pid)"
    by (force simp: live_payload_ids_def map_filter_def split: if_splits)
  then show ?thesis unfolding dict_mem_iff [OF d] .
qed

lemma live_payload_mem:
  "map_of (cr_transfers g) k = Some c \<Longrightarrow> \<not> cp_abandoning c \<Longrightarrow> cp_payload_id c = Some pid \<Longrightarrow>
   pid \<in> set (live_payload_ids g)"
  using map_of_SomeD by (force simp: live_payload_ids_def map_filter_def)

interpretation copy_payloads: payload_client copy_promises live_payload_ids
  by unfold_locales (auto simp: copy_promises_def intro: live_payload_mem simp del: map_of_eq_Some_iff)

lemma promises_put:
  "copy_promises (g\<lparr>cr_transfers := AList.update k c (cr_transfers g)\<rparr>) \<subseteq>
     (if cp_abandoning c then {} else
        {\<lparr>py_id = pid, py_size = cp_payload_size c, py_sha = cp_payload_sha c\<rparr> |pid. cp_payload_id c = Some pid})
     \<union> copy_promises g"
  by (auto simp: copy_promises_def split: if_splits)

lemma promises_pop: "copy_promises (g\<lparr>cr_transfers := AList.delete k (cr_transfers g)\<rparr>) \<subseteq> copy_promises g"
  by (auto simp: copy_promises_def split: if_splits)

lemma promises_reservations [simp]: "copy_promises (g\<lparr>cr_reservations := R\<rparr>) = copy_promises g"
  by (simp add: copy_promises_def)

section \<open>The invariant\<close>

definition payloads_distinct :: "copy_registry \<Rightarrow> bool" where
  "payloads_distinct g \<longleftrightarrow>
     (\<forall>k k' c c' pid. map_of (cr_transfers g) k = Some c \<longrightarrow> map_of (cr_transfers g) k' = Some c' \<longrightarrow>
        cp_payload_id c = Some pid \<longrightarrow> cp_payload_id c' = Some pid \<longrightarrow> k = k')"

definition reg_inv :: "(octets \<Rightarrow> ustr) \<Rightarrow> int \<Rightarrow> copy_registry \<Rightarrow> payload_dir \<Rightarrow> bool" where
  "reg_inv sha max_store g d \<longleftrightarrow>
     registry_ok g \<and> payloads_distinct g \<and> retained_bytes g + reserved_bytes g \<le> max_store \<and>
     copy_payloads.backed sha g d"

definition copy_inv :: "(octets \<Rightarrow> ustr) \<Rightarrow> int \<Rightarrow> copy_store \<Rightarrow> bool" where
  "copy_inv sha max_store s \<longleftrightarrow>
     0 \<le> max_store \<and> payload_dir_ok (cs_payloads s) \<and>
     (case cs_cell s of CopyDoc g \<Rightarrow> reg_inv sha max_store g (cs_payloads s) | _ \<Rightarrow> True)"

lemma reg_inv_empty [simp]: "0 \<le> m \<Longrightarrow> reg_inv sha m \<lparr>cr_transfers = [], cr_reservations = []\<rparr> d"
  by (simp add: reg_inv_def registry_ok_def payloads_distinct_def retained_sum reserved_sum
      copy_payloads.backed_def copy_promises_def)

lemma load_inv:
  assumes "copy_inv sha m s" and "load_registry_unlocked fsize (cs_cell s) = Inr g"
  shows "reg_inv sha m g (cs_payloads s)"
  using assms by (auto simp: copy_inv_def load_registry_unlocked_def split: copy_cell.splits if_splits)

lemma inv_save:
  assumes "copy_inv sha m s" and "reg_inv sha m g (cs_payloads s)" and "save_then w g x s = (s', r)"
  shows "copy_inv sha m s'" and "r = Inr y \<Longrightarrow> cs_cell s' = CopyDoc g \<and> y = x"
    and "cs_payloads s' = cs_payloads s"
  using assms by (cases w; auto simp: save_then_def save_registry_unlocked_def copy_inv_def)+

lemma reg_inv_frame:
  assumes "reg_inv sha m g d" and "copy_payloads.backed sha g d'"
  shows "reg_inv sha m g d'"
  using assms by (simp add: reg_inv_def)

lemma inv_payloads:
  assumes "copy_inv sha m s" and "payload_dir_ok d"
    and "\<And>g. cs_cell s = CopyDoc g \<Longrightarrow> copy_payloads.backed sha g d"
  shows "copy_inv sha m (s\<lparr>cs_payloads := d\<rparr>)"
  using assms by (auto simp: copy_inv_def split: copy_cell.splits intro: reg_inv_frame)

lemma inv_backed: "copy_inv sha m s \<Longrightarrow> cs_cell s = CopyDoc g \<Longrightarrow> copy_payloads.backed sha g (cs_payloads s)"
  by (simp add: copy_inv_def reg_inv_def)

lemma inv_dir: "copy_inv sha m s \<Longrightarrow> payload_dir_ok (cs_payloads s)"
  by (simp add: copy_inv_def)

lemma inv_prune:
  assumes "copy_inv sha m s" and "cs_cell s = CopyDoc g \<or> (\<forall>h. cs_cell s \<noteq> CopyDoc h)"
  shows "copy_inv sha m (prune_transfer_payloads busy g s)"
  unfolding prune_transfer_payloads_def
proof (rule inv_payloads [OF assms(1)])
  show "payload_dir_ok (fst (prune_unreferenced_payloads busy (live_payload_ids g) (cs_payloads s)))"
    using inv_dir [OF assms(1)] by simp
  fix h assume h: "cs_cell s = CopyDoc h"
  then have "g = h" using assms(2) by auto
  then show "copy_payloads.backed sha h (fst (prune_unreferenced_payloads busy (live_payload_ids g) (cs_payloads s)))"
    using copy_payloads.backed_prune [OF inv_backed [OF assms(1) h] inv_dir [OF assms(1)]] by simp
qed

section \<open>Every operation keeps the invariant\<close>

lemma inv_with:
  assumes "copy_inv sha m s"
    and "\<And>g. load_registry_unlocked fsize (cs_cell s) = Inr g \<Longrightarrow> reg_inv sha m g (cs_payloads s) \<Longrightarrow>
      copy_inv sha m (fst (body g))"
  shows "copy_inv sha m (fst (with_registry fsize body s))"
  using assms load_inv [OF assms(1)] by (auto simp: with_registry_def split: sum.split)

lemma inv_save_fst:
  assumes "copy_inv sha m s" and "reg_inv sha m g (cs_payloads s)"
  shows "copy_inv sha m (fst (save_then w g x s))"
  using inv_save(1) [OF assms] by (metis surjective_pairing)

lemma reg_inv_reserve:
  assumes "reg_inv sha m g d" and "map_of (cr_transfers g) k = None" and "map_of (cr_reservations g) k = None"
    and "reservation_ok r" "rv_transfer_id r = k" and "retained_bytes g + reserved_bytes g + rv_payload_size r \<le> m"
  shows "reg_inv sha m (g\<lparr>cr_reservations := AList.update k r (cr_reservations g)\<rparr>) d"
proof -
  have "copy_payloads.backed sha (g\<lparr>cr_reservations := AList.update k r (cr_reservations g)\<rparr>) d"
    by (rule copy_payloads.backed_mono) (use assms(1) in \<open>auto simp: reg_inv_def\<close>)
  then show ?thesis
    using assms by (simp add: reg_inv_def registry_ok_put_reservation payloads_distinct_def retained_sum reserved_sum dict_sum_fresh)
qed

lemma inv_reserve:
  "copy_inv sha m s \<Longrightarrow> copy_inv sha m (fst (reserve_export fsize w now k owner n max_payload m s))"
  unfolding reserve_export_def
  by (auto intro!: inv_with inv_save_fst reg_inv_reserve simp: Let_def split: option.split simp del: map_of_eq_Some_iff)

lemma reg_inv_put:
  assumes inv: "reg_inv sha m g d" and old: "map_of (cr_transfers g) k = Some c"
    and ok: "checkpoint_ok c'" "cp_transfer_id c' = k"
    and same: "cp_payload_id c' = cp_payload_id c" "cp_payload_size c' = cp_payload_size c"
      "cp_payload_sha c' = cp_payload_sha c" "cp_abandoning c \<Longrightarrow> cp_abandoning c'"
  shows "reg_inv sha m (g\<lparr>cr_transfers := AList.update k c' (cr_transfers g)\<rparr>) d"
proof -
  let ?g = "g\<lparr>cr_transfers := AList.update k c' (cr_transfers g)\<rparr>"
  have r: "registry_ok g" using inv by (simp add: reg_inv_def)
  have "0 \<le> cp_payload_size c" using registry_okD(3) [OF r old] by (simp add: checkpoint_ok_def)
  then have "copy_weight c' \<le> copy_weight c" using same by (auto simp: copy_weight_def)
  then have "retained_bytes ?g \<le> retained_bytes g" by (simp add: retained_sum dict_sum_put [OF old])
  moreover have "copy_promises ?g \<subseteq> copy_promises g"
  proof
    fix p assume "p \<in> copy_promises ?g"
    with promises_put consider "p \<in> copy_promises g" |
      pid where "p = \<lparr>py_id = pid, py_size = cp_payload_size c', py_sha = cp_payload_sha c'\<rparr>"
        "\<not> cp_abandoning c'" "cp_payload_id c' = Some pid"
      by (force split: if_splits)
    then show "p \<in> copy_promises g"
    proof cases
      case 2
      with old same show ?thesis by (auto simp: copy_promises_def)
    qed
  qed
  then have "copy_payloads.backed sha ?g d"
    using inv copy_payloads.backed_mono by (auto simp: reg_inv_def)
  moreover have "payloads_distinct ?g"
    using inv old same unfolding reg_inv_def payloads_distinct_def by (auto split: if_splits)
  ultimately show ?thesis
    using inv registry_ok_put_transfer [OF r ok registry_okD(7) [OF r old]]
    by (auto simp: reg_inv_def reserved_sum)
qed

lemma apply_change_frame [simp]:
  "cp_transfer_id (apply_change ch c) = cp_transfer_id c" "cp_payload_id (apply_change ch c) = cp_payload_id c"
  "cp_payload_size (apply_change ch c) = cp_payload_size c" "cp_payload_sha (apply_change ch c) = cp_payload_sha c"
  "cp_abandoning (apply_change ch c) = cp_abandoning c" "cp_owner_job_id (apply_change ch c) = cp_owner_job_id c"
  "cp_transport (apply_change ch c) = cp_transport c" "cp_created_at (apply_change ch c) = cp_created_at c"
  by (cases ch; simp)+

lemma reg_inv_id: "reg_inv sha m g d \<Longrightarrow> map_of (cr_transfers g) k = Some c \<Longrightarrow> cp_transfer_id c = k"
  using registry_okD(4) by (auto simp: reg_inv_def)

lemma inv_update: "copy_inv sha m s \<Longrightarrow> copy_inv sha m (fst (update_checkpoint fsize w now k ch s))"
  unfolding update_checkpoint_def
proof (rule inv_with)
  fix g assume s: "copy_inv sha m s" and g: "reg_inv sha m g (cs_payloads s)"
  show "copy_inv sha m (fst (case map_of (cr_transfers g) k of None \<Rightarrow> (s, Inl RuntimeError)
      | Some c \<Rightarrow> let c' = apply_change ch c\<lparr>cp_updated_at := now\<rparr>
          in if \<not> checkpoint_ok c' then (s, Inl ValueError)
             else save_then w (g\<lparr>cr_transfers := AList.update k c' (cr_transfers g)\<rparr>) c' s))"
  proof (cases "map_of (cr_transfers g) k")
    case (Some c)
    let ?c = "apply_change ch c\<lparr>cp_updated_at := now\<rparr>"
    have "reg_inv sha m (g\<lparr>cr_transfers := AList.update k ?c (cr_transfers g)\<rparr>) (cs_payloads s)" if "checkpoint_ok ?c"
      by (rule reg_inv_put [OF g Some that]) (use reg_inv_id [OF g Some] in simp_all)
    then show ?thesis using s Some inv_save_fst by (auto simp: Let_def)
  qed (use s in simp)
qed

lemma reg_inv_peer:
  assumes inv: "reg_inv sha m g d" and new: "map_of (cr_transfers g) k = None" "map_of (cr_reservations g) k = None"
    and ok: "checkpoint_ok c" "cp_transfer_id c = k" "cp_payload_id c = None"
  shows "reg_inv sha m (g\<lparr>cr_transfers := AList.update k c (cr_transfers g)\<rparr>) d"
proof -
  let ?g = "g\<lparr>cr_transfers := AList.update k c (cr_transfers g)\<rparr>"
  have "copy_promises ?g \<subseteq> copy_promises g" using promises_put [where g = g and k = k and c = c] ok(3) by (auto split: if_splits)
  then have "copy_payloads.backed sha ?g d" using inv copy_payloads.backed_mono by (auto simp: reg_inv_def)
  moreover have "payloads_distinct ?g"
    using inv ok(3) unfolding reg_inv_def payloads_distinct_def by (auto split: if_splits)
  moreover have "retained_bytes ?g = retained_bytes g"
    using new ok(3) by (simp add: retained_sum dict_sum_fresh copy_weight_def)
  ultimately show ?thesis
    using inv registry_ok_put_transfer [OF _ ok(1,2) new(2)] by (simp add: reg_inv_def reserved_sum)
qed

lemma inv_peer: "copy_inv sha m s \<Longrightarrow> copy_inv sha m (fst (begin_peer_import fsize w now template s))"
  unfolding begin_peer_import_def Let_def
  by (auto intro!: inv_with inv_save_fst reg_inv_peer simp del: map_of_eq_Some_iff)

lemma reg_inv_commit:
  assumes inv: "reg_inv sha m g d" and new: "map_of (cr_transfers g) k = None"
    and rv: "map_of (cr_reservations g) k = Some r" "rv_payload_size r = cp_payload_size c"
    and ok: "checkpoint_ok c" "cp_transfer_id c = k" "cp_payload_id c = Some pid" "\<not> cp_abandoning c"
    and unused: "\<And>k' c'. map_of (cr_transfers g) k' = Some c' \<Longrightarrow> cp_payload_id c' \<noteq> Some pid"
    and opens: "open_payload sha pid (cp_payload_size c) (cp_payload_sha c) d = Inr bytes"
  shows "reg_inv sha m (g\<lparr>cr_reservations := AList.delete k (cr_reservations g),
      cr_transfers := AList.update k c (cr_transfers g)\<rparr>) d"
proof -
  let ?h = "g\<lparr>cr_reservations := AList.delete k (cr_reservations g)\<rparr>"
  let ?g = "?h\<lparr>cr_transfers := AList.update k c (cr_transfers ?h)\<rparr>"
  have r: "registry_ok g" using inv by (simp add: reg_inv_def)
  have "registry_ok ?g"
    by (rule registry_ok_put_transfer [OF registry_ok_pop_reservation [OF r] ok(1,2)]) simp
  moreover have "retained_bytes ?g = retained_bytes g + cp_payload_size c"
    using new ok by (simp add: retained_sum dict_sum_fresh copy_weight_def)
  moreover have "reserved_bytes ?g = reserved_bytes g - cp_payload_size c"
    using rv dict_sum_pop [OF registry_okD(2) [OF r] rv(1)] by (simp add: reserved_sum)
  moreover have "payloads_distinct ?g"
    using inv unused ok(3) unfolding reg_inv_def payloads_distinct_def by (auto split: if_splits)
  moreover have "copy_payloads.backed sha ?g d"
  proof (rule copy_payloads.backed_new [where q = "\<lparr>py_id = pid, py_size = cp_payload_size c, py_sha = cp_payload_sha c\<rparr>"])
    show "copy_payloads.backed sha g d" using inv by (simp add: reg_inv_def)
    show "open_payload sha (py_id \<lparr>py_id = pid, py_size = cp_payload_size c, py_sha = cp_payload_sha c\<rparr>)
       (py_size \<lparr>py_id = pid, py_size = cp_payload_size c, py_sha = cp_payload_sha c\<rparr>)
       (py_sha \<lparr>py_id = pid, py_size = cp_payload_size c, py_sha = cp_payload_sha c\<rparr>) d = Inr bytes"
      using opens by simp
    show "copy_promises ?g \<subseteq> insert \<lparr>py_id = pid, py_size = cp_payload_size c, py_sha = cp_payload_sha c\<rparr> (copy_promises g)"
      using ok(3) promises_put [where g = ?h and k = k and c = c] by (auto split: if_splits)
  qed
  ultimately show ?thesis using inv by (simp add: reg_inv_def)
qed

definition unused_payload_id :: "ustr \<Rightarrow> copy_store \<Rightarrow> bool" where
  "unused_payload_id pid s \<longleftrightarrow>
     (case cs_cell s of
        CopyDoc g \<Rightarrow> (\<forall>k c. map_of (cr_transfers g) k = Some c \<longrightarrow> cp_payload_id c \<noteq> Some pid)
      | _ \<Rightarrow> True)"

definition upload_verified :: "(octets \<Rightarrow> ustr) \<Rightarrow> ustr \<Rightarrow> ustr \<Rightarrow> payload_dir \<Rightarrow> bool" where
  "upload_verified sha staging digest d \<longleftrightarrow>
     (\<forall>bytes t. map_of (pd_staging d) staging = Some (Regular bytes, t) \<longrightarrow> sha bytes = digest)"

text \<open>What the gateway accepted has the size and the digest that the copy expects.\<close>

lemma gateway_upload_accepted:
  assumes "gateway_upload sha stuck now (Some staging) n digest declared chunks broken d = (d', UploadAccepted)"
  shows "\<exists>bytes. map_of (pd_staging d') staging = Some (Regular bytes, now) \<and> int (length bytes) = n \<and> sha bytes = digest"
  using assms
  by (auto simp: gateway_upload_def unlink_upload_def open_private_staging_def write_staging_def Let_def
      split: if_splits prod.splits sum.splits)

lemma accepted_verified:
  assumes "gateway_upload sha stuck now (Some staging) n digest declared chunks broken d0 = (d1, UploadAccepted)"
    and "map_of (pd_staging d) staging \<in> {None, map_of (pd_staging d1) staging}"
  shows "upload_verified sha staging digest d"
  using gateway_upload_accepted [OF assms(1)] assms(2) by (auto simp: upload_verified_def)

lemma unused_load:
  "unused_payload_id pid s \<Longrightarrow> load_registry_unlocked fsize (cs_cell s) = Inr g \<Longrightarrow>
   map_of (cr_transfers g) k = Some c \<Longrightarrow> cp_payload_id c \<noteq> Some pid"
  by (auto simp: unused_payload_id_def load_registry_unlocked_def split: copy_cell.splits if_splits)

lemma inv_commit:
  assumes inv: "copy_inv sha m s" and fr: "unused_payload_id fresh s"
    and up: "upload_verified sha staging digest (cs_payloads s)" and ab: "\<not> cp_abandoning template"
  shows "copy_inv sha m (fst (commit_export fsize w now fresh moved template staging n digest s))"
  unfolding commit_export_def Let_def
proof (rule inv_with [OF inv], goal_cases)
  case (1 g)
  let ?k = "cp_transfer_id template"
  obtain d res where c: "commit_staging True fresh moved staging n digest (cs_payloads s) = (d, res)" by (metis surj_pair)
  have d: "payload_dir_ok d" by (rule payload_ok_commit [OF c inv_dir [OF inv]])
  have s1: "copy_inv sha m (s\<lparr>cs_payloads := d\<rparr>)"
    by (rule inv_payloads [OF inv d]) (rule copy_payloads.backed_commit [OF inv_backed [OF inv] c])
  have g1: "reg_inv sha m g d"
    by (rule reg_inv_frame [OF 1(2)]) (rule copy_payloads.backed_commit [OF _ c], use 1(2) in \<open>simp add: reg_inv_def\<close>)
  show ?case
  proof (cases "map_of (cr_transfers g) ?k")
    case (Some x)
    with inv show ?thesis by simp
  next
    case new: None
    show ?thesis
    proof (cases "map_of (cr_reservations g) ?k")
      case None
      with inv new show ?thesis by simp
    next
      case (Some r)
      show ?thesis
      proof (cases res)
        case (Inl e)
        with inv new Some s1 c show ?thesis by simp
      next
        case (Inr p)
        let ?c = "template\<lparr>cp_payload_id := Some (py_id p), cp_payload_size := py_size p,
            cp_payload_sha := py_sha p, cp_created_at := now, cp_updated_at := now\<rparr>"
        from c Inr obtain bytes t where st: "map_of (pd_staging (cs_payloads s)) staging = Some (Regular bytes, t)"
          "int (length bytes) = n" "payload_path_ok fresh" "map_of (pd_payloads d) fresh = Some (Regular bytes)"
          "p = \<lparr>py_id = fresh, py_size = n, py_sha = digest\<rparr>"
          by (cases rule: commit_cases) auto
        have "sha bytes = digest" using up st(1) by (simp add: upload_verified_def)
        then have o: "open_payload sha fresh n digest d = Inr bytes" using st by (simp add: open_payload_Inr)
        have "reg_inv sha m (g\<lparr>cr_reservations := AList.delete ?k (cr_reservations g),
            cr_transfers := AList.update ?k ?c (cr_transfers g)\<rparr>) d"
          if "checkpoint_ok ?c" "rv_payload_size r = n"
          by (rule reg_inv_commit [OF g1 new Some _ that(1), of fresh bytes])
            (use that st ab o unused_load [OF fr 1(1)] in simp_all)
        with inv new Some s1 c Inr st(5) show ?thesis
          by (auto intro!: inv_save_fst)
      qed
    qed
  qed
qed

lemma reg_inv_pop:
  assumes inv: "reg_inv sha m g d" and "map_of (cr_transfers g) k = Some c"
  shows "reg_inv sha m (g\<lparr>cr_transfers := AList.delete k (cr_transfers g)\<rparr>) d"
proof -
  let ?g = "g\<lparr>cr_transfers := AList.delete k (cr_transfers g)\<rparr>"
  have r: "registry_ok g" using inv by (simp add: reg_inv_def)
  have "0 \<le> copy_weight c" using registry_okD(3) [OF r assms(2)] by (simp add: checkpoint_ok_def copy_weight_def)
  then have "retained_bytes ?g \<le> retained_bytes g"
    by (simp add: retained_sum dict_sum_pop [OF registry_okD(1) [OF r] assms(2)])
  moreover have "copy_payloads.backed sha ?g d"
    using inv copy_payloads.backed_mono promises_pop by (auto simp: reg_inv_def)
  moreover have "payloads_distinct ?g"
    using inv unfolding reg_inv_def payloads_distinct_def by auto
  ultimately show ?thesis using inv registry_ok_pop_transfer [OF r] by (simp add: reg_inv_def reserved_sum)
qed

lemma inv_remove: "copy_inv sha m s \<Longrightarrow> copy_inv sha m (fst (remove_checkpoint fsize w busy k s))"
  unfolding remove_checkpoint_def
proof (rule inv_with, assumption)
  fix g assume s: "copy_inv sha m s" and g: "reg_inv sha m g (cs_payloads s)"
  show "copy_inv sha m (fst (case map_of (cr_transfers g) k of None \<Rightarrow> (s, Inr ())
      | Some c \<Rightarrow> (case save_then w (g\<lparr>cr_transfers := AList.delete k (cr_transfers g)\<rparr>) () s of
            (s, Inl e) \<Rightarrow> (s, Inl e)
          | (s, Inr _) \<Rightarrow> (case cp_payload_id c of None \<Rightarrow> (s, Inr ())
              | Some pid \<Rightarrow> (s\<lparr>cs_payloads := remove_payload busy pid (cs_payloads s)\<rparr>, Inr ())))))"
  proof (cases "map_of (cr_transfers g) k")
    case None
    with s show ?thesis by simp
  next
    case (Some c)
    let ?g = "g\<lparr>cr_transfers := AList.delete k (cr_transfers g)\<rparr>"
    obtain s1 r1 where sv: "save_then w ?g () s = (s1, r1)" by (metis surj_pair)
    note i = inv_save [OF s reg_inv_pop [OF g Some] sv]
    have rem: "copy_inv sha m (s1\<lparr>cs_payloads := remove_payload busy pid (cs_payloads s1)\<rparr>)"
      if "r1 = Inr ()" "cp_payload_id c = Some pid" for pid
    proof (rule inv_payloads [OF i(1)])
      show "payload_dir_ok (remove_payload busy pid (cs_payloads s1))" using inv_dir [OF i(1)] by simp
      fix h assume h: "cs_cell s1 = CopyDoc h"
      then have hg: "h = ?g" using i(2) [of "()"] that(1) by simp
      have "py_id p \<noteq> pid" if "p \<in> copy_promises ?g" for p
        using that g Some \<open>cp_payload_id c = Some pid\<close>
        unfolding copy_promises_def reg_inv_def payloads_distinct_def by (auto split: if_splits)
      then show "copy_payloads.backed sha h (remove_payload busy pid (cs_payloads s1))"
        using copy_payloads.backed_unlink(2) [OF inv_backed [OF i(1) h]] hg by blast
    qed
    show ?thesis using Some sv i(1) rem by (cases r1) (auto split: option.split)
  qed
qed

lemma reg_inv_release:
  assumes inv: "reg_inv sha m g d" and "map_of (cr_reservations g) k \<noteq> None"
  shows "reg_inv sha m (g\<lparr>cr_reservations := AList.delete k (cr_reservations g)\<rparr>) d"
proof -
  let ?g = "g\<lparr>cr_reservations := AList.delete k (cr_reservations g)\<rparr>"
  obtain r where r: "map_of (cr_reservations g) k = Some r" using assms(2) by auto
  have ok: "registry_ok g" using inv by (simp add: reg_inv_def)
  have "0 \<le> rv_payload_size r" using registry_okD(5) [OF ok r] by (simp add: reservation_ok_def)
  then have "reserved_bytes ?g \<le> reserved_bytes g"
    by (simp add: reserved_sum dict_sum_pop [OF registry_okD(2) [OF ok] r])
  moreover have "copy_payloads.backed sha ?g d"
    by (rule copy_payloads.backed_mono) (use inv in \<open>auto simp: reg_inv_def\<close>)
  ultimately show ?thesis
    using inv registry_ok_pop_reservation [OF ok] by (simp add: reg_inv_def payloads_distinct_def retained_sum)
qed

lemma inv_save_prune:
  assumes "copy_inv sha m s" and "reg_inv sha m g (cs_payloads s)" and "save_then w g () s = (s', Inr u)"
  shows "copy_inv sha m (prune_transfer_payloads busy g s')"
  by (rule inv_prune [OF inv_save(1) [OF assms]]) (use inv_save(2) [OF assms refl] in simp)

lemma load_cell:
  "load_registry_unlocked fsize (cs_cell s) = Inr g \<Longrightarrow> cs_cell s = CopyDoc g \<or> (\<forall>h. cs_cell s \<noteq> CopyDoc h)"
  by (auto simp: load_registry_unlocked_def split: copy_cell.splits if_splits)

lemma inv_abandonment: "copy_inv sha m s \<Longrightarrow> copy_inv sha m (fst (prepare_abandonment fsize w busy now k s))"
  unfolding prepare_abandonment_def
proof (rule inv_with, assumption, goal_cases)
  case (1 g)
  note s = 1(1) and g = 1(3)
  show ?case
  proof (cases "map_of (cr_transfers g) k")
    case None
    with s g show ?thesis by (auto intro!: inv_save_fst reg_inv_release)
  next
    case (Some c)
    let ?c = "c\<lparr>cp_abandoning := True, cp_updated_at := now\<rparr>"
    let ?g = "g\<lparr>cr_transfers := AList.update k ?c (cr_transfers g)\<rparr>"
    show ?thesis
    proof (cases "cp_abandoning c")
      case True
      with Some inv_prune [OF s load_cell [OF 1(2)]] show ?thesis by simp
    next
      case False
      have put: "reg_inv sha m ?g (cs_payloads s)" if "checkpoint_ok ?c"
        by (rule reg_inv_put [OF g Some that]) (use reg_inv_id [OF g Some] in simp_all)
      obtain s1 r1 where sv: "save_then w ?g () s = (s1, r1)" by (metis surj_pair)
      show ?thesis
        using Some False s sv put inv_save(1) [OF s put sv] inv_save_prune [OF s put]
        by (cases r1) (auto simp: Let_def)
    qed
  qed
qed

subsection \<open>Abandoning many transfers at once\<close>

definition settle_row :: "(ustr, ustr) dict option \<Rightarrow> time \<Rightarrow> checkpoint \<Rightarrow> checkpoint" where
  "settle_row jobs now c = (if should_abandon jobs now c then abandon_now now c else c)"

lemma abandon_rows_map:
  assumes "abandon_rows jobs now ex rows = Some (rows', cands, changed)"
  shows "rows' = map (\<lambda>(k, c). (k, settle_row jobs now c)) rows"
    and "(k, c) \<in> set rows \<Longrightarrow> settle_row jobs now c \<noteq> c \<Longrightarrow> checkpoint_ok (settle_row jobs now c)"
    and "\<not> changed \<Longrightarrow> rows' = rows"
    and "set cands \<subseteq> snd ` set rows'"
    and "c \<in> set cands \<Longrightarrow> cp_abandoning c"
proof -
  have "rows' = map (\<lambda>(k, c). (k, settle_row jobs now c)) rows \<and>
      (\<forall>k c. (k, c) \<in> set rows \<longrightarrow> settle_row jobs now c \<noteq> c \<longrightarrow> checkpoint_ok (settle_row jobs now c)) \<and>
      (\<not> changed \<longrightarrow> rows' = rows) \<and> set cands \<subseteq> snd ` set rows' \<and> (\<forall>c \<in> set cands. cp_abandoning c)"
    using assms
  proof (induction rows arbitrary: rows' cands changed)
    case (Cons kc rows)
    obtain k c where kc: "kc = (k, c)" by (cases kc)
    let ?c = "settle_row jobs now c"
    from Cons.prems kc obtain r cs ch where rec: "abandon_rows jobs now ex rows = Some (r, cs, ch)"
      by (auto simp: Let_def split: if_splits)
    have ok: "\<not> (\<not> cp_abandoning c \<and> should_abandon jobs now c \<and> \<not> checkpoint_ok ?c)"
      using Cons.prems kc by (auto simp: Let_def settle_row_def split: if_splits)
    have eq: "rows' = (k, ?c) # r" "set cands \<subseteq> insert ?c (set cs)" "?c \<in> set cands - set cs \<Longrightarrow> should_abandon jobs now c"
      "changed = (ch \<or> (\<not> cp_abandoning c \<and> should_abandon jobs now c))"
      using Cons.prems kc rec by (auto simp: Let_def settle_row_def split: if_splits)
    have ab: "should_abandon jobs now c \<Longrightarrow> cp_abandoning ?c"
      by (simp add: settle_row_def abandon_now_def)
    have same: "\<not> (\<not> cp_abandoning c \<and> should_abandon jobs now c) \<Longrightarrow> ?c = c"
      by (auto simp: settle_row_def abandon_now_def)
    note IH = Cons.IH [OF rec]
    show ?case
    proof (intro conjI allI impI ballI)
      show "rows' = map (\<lambda>(k, c). (k, settle_row jobs now c)) (kc # rows)"
        using IH eq(1) kc by simp
      show "checkpoint_ok (settle_row jobs now b)" if "(j, b) \<in> set (kc # rows)" "settle_row jobs now b \<noteq> b" for j b
        using that IH ok same kc by auto
      show "rows' = kc # rows" if n: "\<not> changed"
      proof -
        have "r = rows" using IH n eq(4) by blast
        moreover have "?c = c" using same n eq(4) by blast
        ultimately show ?thesis using eq(1) kc by metis
      qed
      have "set cs \<subseteq> snd ` set r" using IH by blast
      moreover have "snd ` set rows' = insert ?c (snd ` set r)" by (simp add: eq(1))
      ultimately show "set cands \<subseteq> snd ` set rows'" using eq(2) by blast
      show "cp_abandoning b" if "b \<in> set cands" for b
        using that IH eq(2,3) ab by (cases "b \<in> set cs") auto
    qed
  qed simp
  then show "rows' = map (\<lambda>(k, c). (k, settle_row jobs now c)) rows"
    and "(k, c) \<in> set rows \<Longrightarrow> settle_row jobs now c \<noteq> c \<Longrightarrow> checkpoint_ok (settle_row jobs now c)"
    and "\<not> changed \<Longrightarrow> rows' = rows" and "set cands \<subseteq> snd ` set rows'"
    and "c \<in> set cands \<Longrightarrow> cp_abandoning c" by blast+
qed

lemma settle_row_frame [simp]:
  "cp_transfer_id (settle_row jobs now c) = cp_transfer_id c" "cp_payload_id (settle_row jobs now c) = cp_payload_id c"
  "cp_payload_size (settle_row jobs now c) = cp_payload_size c" "cp_payload_sha (settle_row jobs now c) = cp_payload_sha c"
  "cp_abandoning c \<Longrightarrow> cp_abandoning (settle_row jobs now c)"
  by (simp_all add: settle_row_def abandon_now_def)

lemma settle_row_live: "\<not> cp_abandoning (settle_row jobs now c) \<Longrightarrow> \<not> cp_abandoning c"
  by (auto simp: settle_row_def abandon_now_def split: if_splits)

lemma dict_sum_map_le:
  assumes "\<And>k v. (k, v) \<in> set d \<Longrightarrow> f (h v) \<le> f v"
  shows "dict_sum f (map (\<lambda>(k, v). (k, h v)) d) \<le> dict_sum f d"
  using assms
proof (induction d)
  case (Cons kv d)
  obtain k v where kv: "kv = (k, v)" by (cases kv)
  have "dict_sum f (map (\<lambda>(k, v). (k, h v)) d) \<le> dict_sum f d" by (rule Cons.IH) (use Cons.prems in auto)
  moreover have "f (h v) \<le> f v" using Cons.prems kv by auto
  ultimately show ?case by (simp add: kv)
qed simp

lemma reg_inv_settle:
  assumes inv: "reg_inv sha m g d" and a: "abandon_rows jobs now ex (cr_transfers g) = Some (rows, cands, changed)"
  shows "reg_inv sha m (g\<lparr>cr_transfers := rows,
      cr_reservations := dict_sweep (\<lambda>_. should_release jobs now) (cr_reservations g)\<rparr>) d"
proof -
  let ?R = "dict_sweep (\<lambda>_. should_release jobs now) (cr_reservations g)"
  let ?g = "g\<lparr>cr_transfers := rows, cr_reservations := ?R\<rparr>"
  note am = abandon_rows_map [OF a]
  have ok: "registry_ok g" using inv by (simp add: reg_inv_def)
  note okd = registry_okD [OF ok]
  have lookup: "map_of rows k = map_option (settle_row jobs now) (map_of (cr_transfers g) k)" for k
    unfolding am(1) by (simp add: map_of_map)
  have keys: "map fst rows = map fst (cr_transfers g)" unfolding am(1) by (simp add: case_prod_beta comp_def)
  have "registry_ok ?g"
    unfolding registry_ok_alt
  proof (intro conjI allI impI)
    show "dict_ok (cr_transfers ?g)" using keys okd(1) by simp
    show "dict_ok (cr_reservations ?g)" using okd(2) by simp
    fix k c assume "map_of (cr_transfers ?g) k = Some c"
    then obtain b where b: "map_of (cr_transfers g) k = Some b" "c = settle_row jobs now b" using lookup by auto
    show "k = cp_transfer_id c" using okd(4) [OF b(1)] b(2) by simp
    show "checkpoint_ok c" using am(2) [OF map_of_SomeD [OF b(1)]] okd(3) [OF b(1)] b(2) by metis
  next
    fix k r assume "map_of (cr_reservations ?g) k = Some r"
    then have r: "map_of (cr_reservations g) k = Some r"
      by (auto simp: map_of_sweep [OF okd(2)] split: option.splits if_splits)
    show "reservation_ok r" by (rule okd(5) [OF r])
    show "k = rv_transfer_id r" using okd(6) [OF r] by simp
  next
    fix k show "map_of (cr_transfers ?g) k = None \<or> map_of (cr_reservations ?g) k = None"
    proof (cases "map_of (cr_transfers g) k")
      case None
      then show ?thesis by (simp add: lookup)
    next
      case (Some c)
      then show ?thesis using okd(7) [OF Some] by (simp add: map_of_sweep [OF okd(2)])
    qed
  qed
  moreover have "retained_bytes ?g \<le> retained_bytes g"
    unfolding retained_sum
  proof (simp add: am(1), rule dict_sum_map_le)
    fix k c assume "(k, c) \<in> set (cr_transfers g)"
    then have "checkpoint_ok c" using okd(3) dict_mem_iff [OF okd(1)] by metis
    then show "copy_weight (settle_row jobs now c) \<le> copy_weight c"
      by (auto simp: copy_weight_def checkpoint_ok_def)
  qed
  moreover have "reserved_bytes ?g \<le> reserved_bytes g"
    unfolding reserved_sum
  proof (simp add: dict_sweep_filter [OF okd(2)], rule dict_sum_filter_le)
    fix k r assume "(k, r) \<in> set (cr_reservations g)"
    then have "reservation_ok r" using okd(5) dict_mem_iff [OF okd(2)] by metis
    then show "0 \<le> rv_payload_size r" by (simp add: reservation_ok_def)
  qed
  moreover have "copy_promises ?g \<subseteq> copy_promises g"
    by (auto simp: copy_promises_def lookup dest!: settle_row_live) blast
  then have "copy_payloads.backed sha ?g d"
    using inv copy_payloads.backed_mono by (auto simp: reg_inv_def)
  moreover have "payloads_distinct ?g"
    using inv unfolding reg_inv_def payloads_distinct_def by (auto simp: lookup)
  ultimately show ?thesis using inv by (auto simp: reg_inv_def)
qed

lemma sweep_unchanged: "dict_ok d \<Longrightarrow> \<not> list_ex (\<lambda>(k, v). p k v) d \<Longrightarrow> dict_sweep p d = d"
  by (auto simp: dict_sweep_filter list_ex_iff filter_id_conv)

lemma inv_staging:
  assumes "copy_inv sha m s" and "pd_payloads d = pd_payloads (cs_payloads s)" and "payload_dir_ok d"
  shows "copy_inv sha m (s\<lparr>cs_payloads := d\<rparr>)"
  by (rule inv_payloads [OF assms(1,3)])
    (rule copy_payloads.backed_frame [OF inv_backed [OF assms(1)]], simp_all add: assms(2))

lemma inv_abandonments:
  "copy_inv sha m s \<Longrightarrow> copy_inv sha m (fst (prepare_abandonments fsize w busy now raw ex s))"
  unfolding prepare_abandonments_def Let_def
proof (rule inv_with, assumption, goal_cases)
  case (1 g)
  note s = 1(1) and g = 1(3)
  let ?jobs = "authoritative_job_statuses raw"
  let ?R = "dict_sweep (\<lambda>_. should_release ?jobs now) (cr_reservations g)"
  show ?case
  proof (cases "abandon_rows ?jobs now ex (cr_transfers g)")
    case None
    with s show ?thesis by simp
  next
    case (Some a)
    then obtain rows cands changed where a: "abandon_rows ?jobs now ex (cr_transfers g) = Some (rows, cands, changed)"
      by (cases a) auto
    let ?g = "g\<lparr>cr_transfers := rows, cr_reservations := ?R\<rparr>"
    note put = reg_inv_settle [OF g a]
    have fin: "copy_inv sha m (t\<lparr>cs_payloads := fst (prune_staging_files busy now (cs_payloads t))\<rparr>)"
      if "copy_inv sha m t" for t
      by (rule inv_staging [OF that]) (simp_all add: inv_dir [OF that])
    obtain s1 r1 where sv: "save_then w ?g () s = (s1, r1)" by (metis surj_pair)
    show ?thesis
    proof (cases "changed \<or> list_ex (\<lambda>(_, r). should_release ?jobs now r) (cr_reservations g)")
      case True
      show ?thesis
        using True a sv inv_save(1) [OF s put sv] fin [OF inv_save_prune [OF s put]]
        by (cases r1) auto
    next
      case False
      have "dict_ok (cr_reservations g)" using g registry_okD(2) by (simp add: reg_inv_def)
      then have "?g = g"
        using False abandon_rows_map(3) [OF a] sweep_unchanged [of "cr_reservations g" "\<lambda>_. should_release ?jobs now"] by simp
      then have "copy_inv sha m (prune_transfer_payloads busy ?g s)"
        using inv_prune [OF s load_cell [OF 1(2)]] by simp
      with False a fin show ?thesis by simp
    qed
  qed
qed

section \<open>Runs\<close>

text \<open>
  The operations in any order, as the service and its concurrent transfers may run them. A commit draws
  a payload identity that no checkpoint holds, passes no \<open>abandoning\<close> mark, and names a staging file whose
  upload the gateway accepted; the file is as that upload left it, or gone. The file may become unreadable at any time.
\<close>

inductive copy_step ::
  "(octets \<Rightarrow> ustr) \<Rightarrow> (copy_registry \<Rightarrow> nat) \<Rightarrow> int \<Rightarrow> copy_store \<Rightarrow> copy_store \<Rightarrow> bool" for sha fsize m where
  stage: "d = fst (open_private_staging True now name (cs_payloads s)) \<or> d = write_staging now name bytes (cs_payloads s) \<Longrightarrow>
    copy_step sha fsize m s (s\<lparr>cs_payloads := d\<rparr>)"
| reserve: "copy_step sha fsize m s (fst (reserve_export fsize w now k owner n max_payload m s))"
| commit: "unused_payload_id fresh s \<Longrightarrow>
    gateway_upload sha stuck now' (Some staging) n digest declared chunks broken d0 = (d1, UploadAccepted) \<Longrightarrow>
    map_of (pd_staging (cs_payloads s)) staging \<in> {None, map_of (pd_staging d1) staging} \<Longrightarrow>
    \<not> cp_abandoning template \<Longrightarrow>
    copy_step sha fsize m s (fst (commit_export fsize w now fresh moved template staging n digest s))"
| peer: "copy_step sha fsize m s (fst (begin_peer_import fsize w now template s))"
| update: "copy_step sha fsize m s (fst (update_checkpoint fsize w now k change s))"
| remove: "copy_step sha fsize m s (fst (remove_checkpoint fsize w busy k s))"
| abandon: "copy_step sha fsize m s (fst (prepare_abandonment fsize w busy now k s))"
| abandons: "copy_step sha fsize m s (fst (prepare_abandonments fsize w busy now raw ex s))"
| break: "copy_step sha fsize m s (s\<lparr>cs_cell := CopyUnreadable e\<rparr>)"

text \<open>The capacity is a positive setting.\<close>

definition copy_init :: "int \<Rightarrow> copy_store \<Rightarrow> bool" where
  "copy_init m s \<longleftrightarrow> 0 < m \<and> s = \<lparr>cs_cell = CopyAbsent, cs_payloads = \<lparr>pd_payloads = [], pd_staging = []\<rparr>\<rparr>"

lemma inv_break: "copy_inv sha m s \<Longrightarrow> copy_inv sha m (s\<lparr>cs_cell := CopyUnreadable e\<rparr>)"
  by (simp add: copy_inv_def)

lemma copy_inv_step:
  assumes inv: "copy_inv sha m s" and "copy_step sha fsize m s s'"
  shows "copy_inv sha m s'"
  using assms(2)
proof cases
  case (stage d now name bytes)
  have "pd_payloads d = pd_payloads (cs_payloads s)" "payload_dir_ok d"
    using stage(2) inv_dir [OF inv] by auto
  then show ?thesis unfolding stage(1) by (rule inv_staging [OF inv])
next
  case (commit fresh stuck now' staging n digest declared chunks broken d0 d1 template w now moved)
  from inv_commit [OF inv commit(2) accepted_verified [OF commit(3,4)] commit(5)] commit(1) show ?thesis by simp
qed (use inv in \<open>auto intro: inv_reserve inv_peer inv_update inv_remove inv_abandonment inv_abandonments
  inv_break\<close>)

lemma copy_init_inv: "copy_init m s \<Longrightarrow> copy_inv sha m s"
  by (simp add: copy_init_def copy_inv_def payload_dir_ok_def)

interpretation copy_machine: invariant_machine "copy_init m" "copy_step sha fsize m" "copy_inv sha m" for sha fsize m
  by unfold_locales (auto intro: copy_init_inv copy_inv_step)

lemma copy_reach_doc:
  "reach (copy_init m) (copy_step sha fsize m) s \<Longrightarrow> cs_cell s = CopyDoc g \<Longrightarrow> reg_inv sha m g (cs_payloads s)"
  using copy_machine.reach_inv by (fastforce simp: copy_inv_def)

section \<open>Properties\<close>

text \<open>
  C30. The bytes that session copies retain and reserve never exceed the capacity of the payload store,
  and the registry that any sequence of operations leaves re-validates: keys match, no transfer is both
  reserved and committed, and no two checkpoints share a payload.
\<close>

theorem copy_capacity_respected:
  assumes "reach (copy_init max_store) (copy_step sha fsize max_store) s" and "cs_cell s = CopyDoc g"
  shows "retained_bytes g + reserved_bytes g \<le> max_store \<and> registry_ok g \<and> payloads_distinct g"
  using copy_reach_doc [OF assms] by (simp add: reg_inv_def)


definition copy_evidence :: "exn + json \<Rightarrow> time \<Rightarrow> ustr option \<Rightarrow> time \<Rightarrow> bool" where
  "copy_evidence raw now owner updated \<longleftrightarrow>
     (owner = None \<and> 86400 \<le> now - updated) \<or>
     (\<exists>job statuses. owner = Some job \<and> authoritative_job_statuses raw = Some statuses \<and>
        map_of statuses job \<in> {None, Some (lit ''succeeded'')})"

lemma owner_gone_evidence:
  "owner_gone (authoritative_job_statuses raw) now owner updated \<Longrightarrow> copy_evidence raw now owner updated"
  by (auto simp: owner_gone_def copy_evidence_def unmanaged_checkpoint_stale_def split: option.splits)

lemma settled_row:
  "settle_row jobs now c = c \<or>
   \<not> cp_abandoning c \<and> settle_row jobs now c = c\<lparr>cp_abandoning := True, cp_updated_at := now\<rparr> \<and>
   owner_gone jobs now (cp_owner_job_id c) (cp_updated_at c)"
  by (auto simp: settle_row_def should_abandon_def abandon_now_def)

lemma prepare_cell:
  assumes "cs_cell s = CopyDoc g" and "cs_cell (fst (prepare_abandonments fsize w busy now raw ex s)) = CopyDoc h"
  shows "h = g \<or> registry_ok g \<and>
    cr_transfers h = map (\<lambda>(k, c). (k, settle_row (authoritative_job_statuses raw) now c)) (cr_transfers g) \<and>
    cr_reservations h = dict_sweep (\<lambda>_. should_release (authoritative_job_statuses raw) now) (cr_reservations g)"
proof (cases "load_registry_unlocked fsize (cs_cell s)")
  case (Inl e)
  with assms show ?thesis by (simp add: prepare_abandonments_def with_registry_def Let_def)
next
  case (Inr g')
  then have g': "g' = g" "registry_ok g"
    using assms(1) by (auto simp: load_registry_unlocked_def split: if_splits)
  show ?thesis
  proof (cases "abandon_rows (authoritative_job_statuses raw) now ex (cr_transfers g)")
    case None
    with assms Inr g' show ?thesis by (simp add: prepare_abandonments_def with_registry_def Let_def)
  next
    case (Some a)
    then obtain rows cands changed where
      a: "abandon_rows (authoritative_job_statuses raw) now ex (cr_transfers g) = Some (rows, cands, changed)"
      by (cases a) auto
    have "h = g \<or> cr_transfers h = rows \<and>
        cr_reservations h = dict_sweep (\<lambda>_. should_release (authoritative_job_statuses raw) now) (cr_reservations g)"
      using assms Inr g' a
      by (cases w) (auto simp: prepare_abandonments_def with_registry_def Let_def save_then_def
          save_registry_unlocked_def prune_transfer_payloads_def split: if_splits)
    with g'(2) abandon_rows_map(1) [OF a] show ?thesis by blast
  qed
qed

text \<open>
  C32. Clearing abandoned copies needs evidence: a checkpoint is marked, or a reservation released, only
  when its job is known to be gone or to have succeeded, from a job store that could be read and parsed
  whole, or when it has no job and was last touched at least a day ago. Every other row stays as it is.
\<close>

theorem abandonment_needs_evidence:
  assumes "cs_cell s = CopyDoc g" and "cs_cell (fst (prepare_abandonments fsize w busy now raw ex s)) = CopyDoc h"
  shows "(\<forall>k. case map_of (cr_transfers g) k of
        None \<Rightarrow> map_of (cr_transfers h) k = None
      | Some c \<Rightarrow> map_of (cr_transfers h) k = Some c \<or> copy_evidence raw now (cp_owner_job_id c) (cp_updated_at c) \<and>
          \<not> cp_abandoning c \<and> map_of (cr_transfers h) k = Some (c\<lparr>cp_abandoning := True, cp_updated_at := now\<rparr>)) \<and>
    (\<forall>j. case map_of (cr_reservations g) j of
        None \<Rightarrow> map_of (cr_reservations h) j = None
      | Some r \<Rightarrow> map_of (cr_reservations h) j = Some r \<or> copy_evidence raw now (rv_owner_job_id r) (rv_updated_at r) \<and>
          map_of (cr_reservations h) j = None)"
  using prepare_cell [OF assms(1,2)]
proof
  assume "h = g"
  then show ?thesis by (simp split: option.split)
next
  let ?jobs = "authoritative_job_statuses raw"
  assume h: "registry_ok g \<and> cr_transfers h = map (\<lambda>(k, c). (k, settle_row ?jobs now c)) (cr_transfers g) \<and>
    cr_reservations h = dict_sweep (\<lambda>_. should_release ?jobs now) (cr_reservations g)"
  then have t: "map_of (cr_transfers h) k = map_option (settle_row ?jobs now) (map_of (cr_transfers g) k)" for k
    by (simp add: map_of_map)
  have r: "map_of (cr_reservations h) j = (case map_of (cr_reservations g) j of
      None \<Rightarrow> None | Some r \<Rightarrow> if should_release ?jobs now r then None else Some r)" for j
    using h registry_okD(2) by (simp add: map_of_sweep split: option.split)
  have row: "settle_row ?jobs now c = c \<or> copy_evidence raw now (cp_owner_job_id c) (cp_updated_at c) \<and>
      \<not> cp_abandoning c \<and> settle_row ?jobs now c = c\<lparr>cp_abandoning := True, cp_updated_at := now\<rparr>" for c
    using settled_row [of ?jobs now c] owner_gone_evidence [of raw now "cp_owner_job_id c" "cp_updated_at c"] by blast
  have res: "should_release ?jobs now x \<Longrightarrow> copy_evidence raw now (rv_owner_job_id x) (rv_updated_at x)" for x
    using owner_gone_evidence by (simp add: should_release_def)
  show ?thesis
  proof (intro conjI allI)
    fix k
    show "case map_of (cr_transfers g) k of
        None \<Rightarrow> map_of (cr_transfers h) k = None
      | Some c \<Rightarrow> map_of (cr_transfers h) k = Some c \<or> copy_evidence raw now (cp_owner_job_id c) (cp_updated_at c) \<and>
          \<not> cp_abandoning c \<and> map_of (cr_transfers h) k = Some (c\<lparr>cp_abandoning := True, cp_updated_at := now\<rparr>)"
    proof (cases "map_of (cr_transfers g) k")
      case (Some c)
      with row [of c] t [of k] show ?thesis by simp
    qed (simp add: t)
    fix j
    show "case map_of (cr_reservations g) j of
        None \<Rightarrow> map_of (cr_reservations h) j = None
      | Some r \<Rightarrow> map_of (cr_reservations h) j = Some r \<or> copy_evidence raw now (rv_owner_job_id r) (rv_updated_at r) \<and>
          map_of (cr_reservations h) j = None"
      using res by (simp add: r split: option.split)
  qed
qed

text \<open>
  C33. Reads of the registry are bounded and writes are not: once its encoding outgrows the bound of the
  reader, then, after any further run, every operation on the registry fails and changes nothing. It can
  neither be read, extended, shrunk, swept nor repaired, and every copy is refused.
\<close>

theorem oversized_registry_is_final:
  assumes "cs_cell s = CopyDoc g" and "checkpoint_max_bytes < fsize g"
    and "(copy_step sha fsize max_store)\<^sup>*\<^sup>* s s'"
  shows "isl (load_checkpoint fsize k s') \<and> isl (load_for_owner_job fsize job s') \<and>
    (\<exists>e. reserve_export fsize w now k owner n max_payload max_store s' = (s', Inl e)) \<and>
    (\<exists>e. commit_export fsize w now fresh moved template staging n digest s' = (s', Inl e)) \<and>
    (\<exists>e. begin_peer_import fsize w now template s' = (s', Inl e)) \<and>
    (\<exists>e. update_checkpoint fsize w now k change s' = (s', Inl e)) \<and>
    (\<exists>e. remove_checkpoint fsize w busy k s' = (s', Inl e)) \<and>
    (\<exists>e. prepare_abandonment fsize w busy now k s' = (s', Inl e)) \<and>
    (\<exists>e. prepare_abandonments fsize w busy now raw ex s' = (s', Inl e))"
proof -
  have keeps: "cs_cell b = CopyDoc g \<or> (\<exists>e. cs_cell b = CopyUnreadable e)"
    if "copy_step sha fsize max_store a b" "cs_cell a = CopyDoc g \<or> (\<exists>e. cs_cell a = CopyUnreadable e)" for a b
  proof -
    have l: "\<exists>e. load_registry_unlocked fsize (cs_cell a) = Inl e"
      using that(2) assms(2) by (auto simp: load_registry_unlocked_def)
    from that(1) show ?thesis
    proof cases
      case (stage d now name bytes)
      with that(2) show ?thesis by simp
    qed (use that(2) l in \<open>auto simp: with_registry_def reserve_export_def commit_export_def begin_peer_import_def
      update_checkpoint_def remove_checkpoint_def prepare_abandonment_def prepare_abandonments_def Let_def\<close>)
  qed
  have "cs_cell s' = CopyDoc g \<or> (\<exists>e. cs_cell s' = CopyUnreadable e)"
    using assms(3)
  proof (induction rule: rtranclp_induct)
    case base
    then show ?case using assms(1) by simp
  next
    case (step y z)
    then show ?case using keeps [OF step(2)] by blast
  qed
  then obtain e where e: "load_registry_unlocked fsize (cs_cell s') = Inl e"
    using assms(2) by (auto simp: load_registry_unlocked_def)
  then have refused: "with_registry fsize body s' = (s', Inl e)" for body :: "copy_registry \<Rightarrow> copy_store \<times> (exn + 'a)"
    by (simp add: with_registry_def)
  show ?thesis
    by (simp add: e with_registry_def load_checkpoint_def load_for_owner_job_def reserve_export_def commit_export_def
        begin_peer_import_def update_checkpoint_def remove_checkpoint_def prepare_abandonment_def
        prepare_abandonments_def Let_def)
qed

text \<open>
  A clock that was set back makes the whole clean-up fail, and with it every copy that starts with one:
  a checkpoint whose job is gone cannot be marked before the clock has passed its creation time again.
\<close>

lemma abandon_rows_future:
  assumes "(k, c) \<in> set rows" and "\<not> cp_abandoning c" and "should_abandon jobs now c" and "now < cp_created_at c"
  shows "abandon_rows jobs now ex rows = None"
  using assms(1)
proof (induction rows)
  case (Cons kc rows)
  have "\<not> checkpoint_ok (abandon_now now c)"
    using assms(2,4) by (simp add: abandon_now_def checkpoint_ok_def validate_step_def)
  with Cons assms(2,3) show ?case by (cases kc) (auto simp: Let_def)
qed simp

lemma clock_rollback_blocks_cleanup:
  assumes "load_registry_unlocked fsize (cs_cell s) = Inr g" and "(k, c) \<in> set (cr_transfers g)"
    and "\<not> cp_abandoning c" and "cp_owner_job_id c = Some job"
    and "authoritative_job_statuses raw = Some statuses" and "map_of statuses job = None" and "now < cp_created_at c"
  shows "prepare_abandonments fsize w busy now raw ex s = (s, Inl ValueError)"
proof -
  have "should_abandon (authoritative_job_statuses raw) now c"
    using assms(4-6) by (simp add: should_abandon_def owner_gone_def)
  then show ?thesis
    using assms(1) abandon_rows_future [OF assms(2,3) _ assms(7)]
    by (simp add: prepare_abandonments_def with_registry_def Let_def)
qed

section \<open>Witnesses\<close>

definition copy_demo_sha :: "octets \<Rightarrow> ustr" where
  "copy_demo_sha bytes = replicate 64 (48 + length bytes mod 10)"

definition copy_demo_id :: "ustr" where
  "copy_demo_id = lit ''copy_aaaaaaaaaaaaaaaaaaaaaa''"

definition copy_demo_other :: "ustr" where
  "copy_demo_other = lit ''copy_bbbbbbbbbbbbbbbbbbbbbb''"

definition copy_demo_job :: "ustr" where
  "copy_demo_job = lit ''job_aaaaaaaaaaaa''"

definition copy_demo_payload :: "ustr" where
  "copy_demo_payload = lit ''payload_aaaaaaaaaaaaaaaaaaaaaa''"

definition copy_demo_staging :: "ustr" where
  "copy_demo_staging = lit ''.a.tmp''"

definition copy_demo_row :: checkpoint where
  "copy_demo_row = \<lparr>cp_transfer_id = copy_demo_id, cp_owner_job_id = Some copy_demo_job,
     cp_source_session_id = lit ''sess_aaaaaaaaaaaaaaaaaaaaaa'', cp_source_executor_id = lit ''exec_aaaaaaaaaaaaaaaaaaaaaa'',
     cp_destination_session_id = lit ''sess_bbbbbbbbbbbbbbbbbbbbbb'',
     cp_destination_executor_id = lit ''exec_bbbbbbbbbbbbbbbbbbbbbb'', cp_source_path = lit ''a'',
     cp_destination_path = lit ''b'', cp_kind = CopyFile, cp_overwrite = True, cp_chunk_size = 4,
     cp_payload_id = Some copy_demo_payload, cp_transport = ControlRelay, cp_payload_size = 3,
     cp_payload_sha = copy_demo_sha [1, 2, 3], cp_source_resolved_path = lit ''a'', cp_import_path = None,
     cp_import_resource_id = None, cp_destination_resolved_path = None, cp_entries = None, cp_chunks = 0,
     cp_resumed_bytes = 0, cp_cleanup_errors = [], cp_receipts_released = False, cp_abandoning = False,
     cp_last_known_step = Exported, cp_created_at = 5, cp_updated_at = 5\<rparr>"

definition copy_demo_reservation :: reservation where
  "copy_demo_reservation = \<lparr>rv_transfer_id = copy_demo_other, rv_owner_job_id = None, rv_payload_size = 2,
     rv_created_at = 6, rv_updated_at = 6\<rparr>"

definition copy_demo_registry :: copy_registry where
  "copy_demo_registry = \<lparr>cr_transfers = [(copy_demo_id, copy_demo_row)],
     cr_reservations = [(copy_demo_other, copy_demo_reservation)]\<rparr>"

definition copy_demo_store :: "copy_cell \<Rightarrow> (ustr, leaf) dict \<Rightarrow> (ustr, leaf \<times> time) dict \<Rightarrow> copy_store" where
  "copy_demo_store c ps st = \<lparr>cs_cell = c, cs_payloads = \<lparr>pd_payloads = ps, pd_staging = st\<rparr>\<rparr>"

definition copy_demo_reserved :: copy_registry where
  "copy_demo_reserved = \<lparr>cr_transfers = [], cr_reservations = [(copy_demo_id, \<lparr>rv_transfer_id = copy_demo_id,
     rv_owner_job_id = Some copy_demo_job, rv_payload_size = 3, rv_created_at = 4, rv_updated_at = 4\<rparr>)]\<rparr>"

definition copy_demo_committed :: copy_registry where
  "copy_demo_committed = \<lparr>cr_transfers = [(copy_demo_id, copy_demo_row)], cr_reservations = []\<rparr>"

definition copy_demo_final :: copy_store where
  "copy_demo_final = copy_demo_store (CopyDoc copy_demo_registry) [(copy_demo_payload, Regular [1, 2, 3])] []"

lemma copy_demo_ids:
  "copy_demo_id \<noteq> copy_demo_other" "copy_demo_other \<noteq> copy_demo_id"
  "copy_transfer_id_ok copy_demo_id" "copy_transfer_id_ok copy_demo_other"
  by code_simp+

lemma copy_demo_names:
  "copy_job_id_ok copy_demo_job" "payload_path_ok copy_demo_payload" "copy_payload_id_ok copy_demo_payload"
  "ends_with staging_suffix copy_demo_staging"
  by code_simp+

lemma copy_demo_executors:
  "session_id_ok (lit ''sess_aaaaaaaaaaaaaaaaaaaaaa'')" "executor_id_ok (lit ''exec_aaaaaaaaaaaaaaaaaaaaaa'')"
  "session_id_ok (lit ''sess_bbbbbbbbbbbbbbbbbbbbbb'')" "executor_id_ok (lit ''exec_bbbbbbbbbbbbbbbbbbbbbb'')"
  by code_simp+

lemma copy_demo_digest: "copy_sha256_ok (copy_demo_sha [1, 2, 3])"
  by code_simp

lemma copy_demo_row_ok: "checkpoint_ok copy_demo_row"
  "checkpoint_ok (copy_demo_row\<lparr>cp_abandoning := True, cp_updated_at := 9\<rparr>)"
  using copy_demo_executors
  by (simp_all add: checkpoint_ok_def validate_step_def copy_demo_row_def copy_demo_ids copy_demo_names copy_demo_digest)

lemma copy_demo_reservation_ok:
  "reservation_ok copy_demo_reservation"
  "reservation_ok \<lparr>rv_transfer_id = copy_demo_id, rv_owner_job_id = Some copy_demo_job, rv_payload_size = 3,
     rv_created_at = 4, rv_updated_at = 4\<rparr>"
  by (simp_all add: reservation_ok_def copy_demo_reservation_def copy_demo_ids copy_demo_names)

lemma copy_demo_row_id: "cp_transfer_id copy_demo_row = copy_demo_id"
  by (simp add: copy_demo_row_def)

lemma copy_demo_registries_ok:
  "registry_ok copy_demo_reserved" "registry_ok copy_demo_committed" "registry_ok copy_demo_registry"
  by (simp_all add: registry_ok_def copy_demo_reserved_def copy_demo_committed_def copy_demo_registry_def
      copy_demo_reservation_ok copy_demo_row_ok copy_demo_row_id copy_demo_ids)
     (simp_all add: copy_demo_reservation_def copy_demo_ids)

lemma copy_demo_reserve:
  "reserve_export (\<lambda>_. 0) Landed 4 copy_demo_id (Some copy_demo_job) 3 4 8
     (copy_demo_store CopyAbsent [] [(copy_demo_staging, Regular [1, 2, 3], 4)]) =
   (copy_demo_store (CopyDoc copy_demo_reserved) [] [(copy_demo_staging, Regular [1, 2, 3], 4)],
    Inr (snd (hd (cr_reservations copy_demo_reserved))))"
  by (simp add: reserve_export_def with_registry_def load_registry_unlocked_def copy_demo_store_def
      save_then_def save_registry_unlocked_def copy_demo_reserved_def retained_bytes_def reserved_bytes_def
      copy_demo_reservation_ok Let_def)

lemma copy_demo_commit:
  "commit_export (\<lambda>_. 0) Landed 5 copy_demo_payload True copy_demo_row copy_demo_staging 3 (copy_demo_sha [1, 2, 3])
     (copy_demo_store (CopyDoc copy_demo_reserved) [] [(copy_demo_staging, Regular [1, 2, 3], 4)]) =
   (copy_demo_store (CopyDoc copy_demo_committed) [(copy_demo_payload, Regular [1, 2, 3])] [], Inr copy_demo_row)"
proof -
  have load: "load_registry_unlocked (\<lambda>_. 0) (CopyDoc copy_demo_reserved) = Inr copy_demo_reserved"
    by (simp add: load_registry_unlocked_def copy_demo_registries_ok)
  have row: "copy_demo_row\<lparr>cp_payload_id := Some copy_demo_payload, cp_payload_size := 3,
      cp_payload_sha := copy_demo_sha [1, 2, 3], cp_created_at := 5, cp_updated_at := 5\<rparr> = copy_demo_row"
    by (simp add: copy_demo_row_def)
  have owner: "cp_owner_job_id copy_demo_row = Some copy_demo_job"
    by (simp add: copy_demo_row_def)
  have staged: "commit_staging True copy_demo_payload True copy_demo_staging 3 (copy_demo_sha [1, 2, 3])
      \<lparr>pd_payloads = [], pd_staging = [(copy_demo_staging, Regular [1, 2, 3], 4)]\<rparr> =
    (\<lparr>pd_payloads = [(copy_demo_payload, Regular [1, 2, 3])], pd_staging = []\<rparr>,
     Inr \<lparr>py_id = copy_demo_payload, py_size = 3, py_sha = copy_demo_sha [1, 2, 3]\<rparr>)"
    by (simp add: commit_staging_def copy_demo_names)
  show ?thesis
    by (simp add: commit_export_def with_registry_def copy_demo_store_def load copy_demo_row_id)
       (simp add: copy_demo_reserved_def staged owner row copy_demo_row_ok save_then_def
        save_registry_unlocked_def copy_demo_committed_def)
qed

lemma copy_demo_reserve_other:
  "reserve_export (\<lambda>_. 0) Landed 6 copy_demo_other None 2 4 8
     (copy_demo_store (CopyDoc copy_demo_committed) [(copy_demo_payload, Regular [1, 2, 3])] []) =
   (copy_demo_final, Inr copy_demo_reservation)"
proof -
  have load: "load_registry_unlocked (\<lambda>_. 0) (CopyDoc copy_demo_committed) = Inr copy_demo_committed"
    by (simp add: load_registry_unlocked_def copy_demo_registries_ok)
  have room: "retained_bytes copy_demo_committed + reserved_bytes copy_demo_committed = 3"
    by (simp add: retained_bytes_def reserved_bytes_def copy_demo_committed_def copy_demo_row_def)
  have keys: "map_of (cr_transfers copy_demo_committed) copy_demo_other = None"
    "cr_reservations copy_demo_committed = []"
    by (simp_all add: copy_demo_committed_def copy_demo_ids)
  show ?thesis
    by (simp add: reserve_export_def with_registry_def copy_demo_store_def load room keys Let_def
        copy_demo_reservation_ok(1) [unfolded copy_demo_reservation_def] save_then_def save_registry_unlocked_def
        copy_demo_final_def)
       (simp add: copy_demo_registry_def copy_demo_committed_def copy_demo_reservation_def)
qed

abbreviation copy_demo_reach :: "copy_store \<Rightarrow> bool" where
  "copy_demo_reach \<equiv> reach (copy_init 8) (copy_step copy_demo_sha (\<lambda>_. 0) 8)"

lemma copy_demo_staged_reach:
  "copy_demo_reach (copy_demo_store CopyAbsent [] [(copy_demo_staging, Regular [1, 2, 3], 4)])"
proof -
  let ?s0 = "copy_demo_store CopyAbsent [] []"
  let ?s1 = "copy_demo_store CopyAbsent [] [(copy_demo_staging, Regular [], 4)]"
  let ?s2 = "copy_demo_store CopyAbsent [] [(copy_demo_staging, Regular [1, 2, 3], 4)]"
  have "copy_demo_reach ?s0" by (rule reach_init) (simp add: copy_init_def copy_demo_store_def)
  moreover have "copy_step copy_demo_sha (\<lambda>_. 0) 8 ?s0 ?s1"
    using copy_step.stage [of "cs_payloads ?s1" 4 copy_demo_staging ?s0 "[]" copy_demo_sha "\<lambda>_. 0" 8]
    by (simp add: copy_demo_store_def open_private_staging_def)
  moreover have "copy_step copy_demo_sha (\<lambda>_. 0) 8 ?s1 ?s2"
    using copy_step.stage [of "cs_payloads ?s2" 4 copy_demo_staging ?s1 "[1, 2, 3]" copy_demo_sha "\<lambda>_. 0" 8]
    by (simp add: copy_demo_store_def write_staging_def)
  ultimately show ?thesis by (blast intro: reach_step)
qed

lemma copy_demo_final_reach: "copy_demo_reach copy_demo_final"
proof -
  let ?s2 = "copy_demo_store CopyAbsent [] [(copy_demo_staging, Regular [1, 2, 3], 4)]"
  let ?s3 = "copy_demo_store (CopyDoc copy_demo_reserved) [] [(copy_demo_staging, Regular [1, 2, 3], 4)]"
  let ?s4 = "copy_demo_store (CopyDoc copy_demo_committed) [(copy_demo_payload, Regular [1, 2, 3])] []"
  have "copy_step copy_demo_sha (\<lambda>_. 0) 8 ?s2 ?s3"
    using copy_step.reserve [of copy_demo_sha "\<lambda>_. 0" 8 ?s2 Landed 4 copy_demo_id "Some copy_demo_job" 3 4]
    by (simp add: copy_demo_reserve)
  moreover have "copy_step copy_demo_sha (\<lambda>_. 0) 8 ?s3 ?s4"
  proof -
    have up: "gateway_upload copy_demo_sha False 4 (Some copy_demo_staging) 3 (copy_demo_sha [1, 2, 3]) None [[1], [2, 3]] False
        \<lparr>pd_payloads = [], pd_staging = []\<rparr> =
      (\<lparr>pd_payloads = [], pd_staging = [(copy_demo_staging, Regular [1, 2, 3], 4)]\<rparr>, UploadAccepted)"
      by (simp add: gateway_upload_def open_private_staging_def write_staging_def)
    have "unused_payload_id copy_demo_payload ?s3" "\<not> cp_abandoning copy_demo_row"
      by (simp_all add: unused_payload_id_def copy_demo_store_def copy_demo_reserved_def copy_demo_row_def)
    from copy_step.commit [OF this(1) up _ this(2), of "\<lambda>_. 0" 8 Landed 5 True] show ?thesis
      by (simp add: copy_demo_commit) (simp add: copy_demo_store_def)
  qed
  moreover have "copy_step copy_demo_sha (\<lambda>_. 0) 8 ?s4 copy_demo_final"
    using copy_step.reserve [of copy_demo_sha "\<lambda>_. 0" 8 ?s4 Landed 6 copy_demo_other None 2 4]
    by (simp add: copy_demo_reserve_other)
  ultimately show ?thesis using copy_demo_staged_reach by (blast intro: reach_step)
qed

lemma copy_demo_final_cell: "cs_cell copy_demo_final = CopyDoc copy_demo_registry"
  by (simp add: copy_demo_final_def copy_demo_store_def)

theorem copy_capacity_respected_witness:
  "retained_bytes copy_demo_registry = 3 \<and> reserved_bytes copy_demo_registry = 2 \<and>
   retained_bytes copy_demo_registry + reserved_bytes copy_demo_registry \<le> 8"
  using copy_capacity_respected [OF copy_demo_final_reach copy_demo_final_cell]
  by (simp add: retained_bytes_def reserved_bytes_def copy_demo_registry_def copy_demo_row_def copy_demo_reservation_def)


definition copy_demo_jobs :: "exn + json" where
  "copy_demo_jobs = Inr (JObj [(lit ''jobs'', JList []), (lit ''version'', JNum 2)])"

theorem abandonment_needs_evidence_witness:
  "\<exists>h. cs_cell (fst (prepare_abandonments (\<lambda>_. 0) Landed (\<lambda>_. False) 9 copy_demo_jobs None copy_demo_final)) = CopyDoc h \<and>
     map_of (cr_transfers h) copy_demo_id = Some (copy_demo_row\<lparr>cp_abandoning := True, cp_updated_at := 9\<rparr>) \<and>
     copy_evidence copy_demo_jobs 9 (Some copy_demo_job) 5 \<and>
     map_of (cr_reservations h) copy_demo_other = Some copy_demo_reservation"
proof -
  let ?h = "copy_demo_registry\<lparr>cr_transfers := [(copy_demo_id, copy_demo_row\<lparr>cp_abandoning := True, cp_updated_at := 9\<rparr>)]\<rparr>"
  have h: "cs_cell (fst (prepare_abandonments (\<lambda>_. 0) Landed (\<lambda>_. False) 9 copy_demo_jobs None copy_demo_final)) = CopyDoc ?h"
  proof -
    have jobs: "authoritative_job_statuses copy_demo_jobs = Some []"
      by code_simp
    have load: "load_registry_unlocked (\<lambda>_. 0) (CopyDoc copy_demo_registry) = Inr copy_demo_registry"
      by (simp add: load_registry_unlocked_def copy_demo_registries_ok)
    have gone: "should_abandon (Some []) 9 copy_demo_row" "\<not> should_release (Some []) 9 copy_demo_reservation"
      "\<not> cp_abandoning copy_demo_row"
      by (simp_all add: should_abandon_def should_release_def owner_gone_def copy_demo_row_def
          copy_demo_reservation_def unmanaged_checkpoint_stale_def)
    show ?thesis
      by (simp add: prepare_abandonments_def with_registry_def copy_demo_final_cell jobs load Let_def)
         (simp add: copy_demo_registry_def gone abandon_now_def copy_demo_row_ok dict_sweep_def save_then_def
          save_registry_unlocked_def prune_transfer_payloads_def Let_def)
  qed
  have before: "map_of (cr_transfers copy_demo_registry) copy_demo_id = Some copy_demo_row"
    "map_of (cr_reservations copy_demo_registry) copy_demo_other = Some copy_demo_reservation"
    by (simp_all add: copy_demo_registry_def)
  have after: "map_of (cr_transfers ?h) copy_demo_id = Some (copy_demo_row\<lparr>cp_abandoning := True, cp_updated_at := 9\<rparr>)"
    "map_of (cr_reservations ?h) copy_demo_other = Some copy_demo_reservation"
    by (simp_all add: copy_demo_registry_def)
  have marked: "Some (copy_demo_row\<lparr>cp_abandoning := True, cp_updated_at := 9\<rparr>) \<noteq> Some copy_demo_row"
    by (simp add: copy_demo_row_def)
  have owner: "cp_owner_job_id copy_demo_row = Some copy_demo_job" "cp_updated_at copy_demo_row = 5"
    by (simp_all add: copy_demo_row_def)
  have "copy_evidence copy_demo_jobs 9 (Some copy_demo_job) 5"
  proof -
    note rows = abandonment_needs_evidence [OF copy_demo_final_cell h]
    from rows have "case map_of (cr_transfers copy_demo_registry) copy_demo_id of
        None \<Rightarrow> map_of (cr_transfers ?h) copy_demo_id = None
      | Some c \<Rightarrow> map_of (cr_transfers ?h) copy_demo_id = Some c \<or>
          copy_evidence copy_demo_jobs 9 (cp_owner_job_id c) (cp_updated_at c) \<and> \<not> cp_abandoning c \<and>
          map_of (cr_transfers ?h) copy_demo_id = Some (c\<lparr>cp_abandoning := True, cp_updated_at := 9\<rparr>)" by blast
    then show ?thesis unfolding before after option.case owner using marked by blast
  qed
  then show ?thesis
    using h after by blast
qed

theorem oversized_registry_is_final_witness:
  "isl (load_checkpoint (\<lambda>_. 3000000) copy_demo_id copy_demo_final) \<and>
   fst (remove_checkpoint (\<lambda>_. 3000000) Landed (\<lambda>_. False) copy_demo_id copy_demo_final) = copy_demo_final"
proof -
  have "checkpoint_max_bytes < (\<lambda>_ :: copy_registry. 3000000 :: nat) copy_demo_registry"
    by (simp only: checkpoint_max_bytes_def)
  note final = oversized_registry_is_final [OF copy_demo_final_cell this rtranclp.rtrancl_refl, where k = copy_demo_id
      and w = Landed and busy = "\<lambda>_. False"]
  have "isl (load_checkpoint (\<lambda>_. 3000000) copy_demo_id copy_demo_final)" using final by blast
  moreover obtain e where "remove_checkpoint (\<lambda>_. 3000000) Landed (\<lambda>_. False) copy_demo_id copy_demo_final = (copy_demo_final, Inl e)"
    using final by blast
  ultimately show ?thesis by simp
qed

end
