(* ===== verification/Transfer_Files.thy ===== *)
theory Transfer_Files
  imports Payload_Store
begin

text \<open>
  The host file system as the transfers of an executor see it, \<open>src/src/workgate/executor/transfer.py\<close>.

  A path is a directory and a name; \<open>ho_nodes\<close> holds what \<open>lstat\<close> finds there: a regular file with its
  device and inode (one number) and bytes, a directory with its entries below it, or a symbolic link,
  with whether its target exists. \<open>ho_metas\<close> holds the metadata documents, under the path of the
  temporary file they describe; \<open>ho_writes\<close> and \<open>ho_unpacks\<close> hold the durable receipts by transfer
  identity. A document that does not parse is \<open>Broken\<close>.

  An operation is a \<open>plan\<close>: the durable effects it has in order, and its reply. \<open>complete\<close> runs a plan
  to its end; an effect that the file system refuses ends it with \<open>OSError\<close>. \<open>interrupted k\<close> is the
  state when the process dies, or an I/O error strikes, after \<open>k\<close> effects.
\<close>

section \<open>Nodes, receipts and metadata\<close>

type_synonym path = "ustr \<times> ustr"

definition path_str :: "path \<Rightarrow> ustr" where
  "path_str p = fst p @ [47] @ snd p"

datatype entry = EntryFile "ustr list" octets | EntryDir "ustr list"

datatype node = FileNode nat octets | DirNode "entry list" | LinkNode bool

datatype write_status = Receiving | Committing | Completed

datatype write_abandonment = DiscardTemp | DiscardDestination

record write_receipt =
  wr_destination :: path
  wr_overwrite :: bool
  wr_expected :: "int option"
  wr_existed :: bool
  wr_status :: write_status
  wr_abandonment :: "write_abandonment option"
  wr_final_bytes :: "int option"
  wr_final_sha :: "ustr option"
  wr_updated_at :: time
  wr_committed_at :: "time option"
  wr_peer_unclaimed_at :: "time option"

datatype unpack_status = Extracting | Prepared | BackupMoved | Publishing | Unpacked

datatype unpack_abandonment = Rollback | Commit | RollbackArchive | CommitArchive

record unpack_receipt =
  ur_destination :: path
  ur_archive :: path
  ur_overwrite :: bool
  ur_cleanup_archive :: bool
  ur_entries :: int
  ur_existed :: bool
  ur_status :: unpack_status
  ur_abandonment :: "unpack_abandonment option"
  ur_created_at :: time
  ur_committed_at :: "time option"
  ur_backup_deleted :: "bool option"
  ur_archive_deleted :: "bool option"
  ur_cleanup_errors :: "ustr list"
  ur_updated_at :: "time option"

record transfer_meta =
  md_destination :: path
  md_overwrite :: bool
  md_expected :: "int option"
  md_ranges :: "(int \<times> int) list"
  md_existed :: bool
  md_identity :: nat
  md_size :: int

datatype 'a doc = Broken | Doc 'a

record host =
  ho_nodes :: "(path, node) dict"
  ho_metas :: "(path, transfer_meta doc) dict"
  ho_writes :: "(ustr, write_receipt doc) dict"
  ho_unpacks :: "(ustr, unpack_receipt doc) dict"

definition receipt_path_ok :: "path \<Rightarrow> bool" where
  "receipt_path_ok p \<longleftrightarrow> length (path_str p) \<le> 8192"

definition receipt_sha_ok :: "ustr \<Rightarrow> bool" where
  "receipt_sha_ok s \<longleftrightarrow> length s = 64 \<and> list_all is_hex s"

definition write_receipt_ok :: "write_receipt \<Rightarrow> bool" where
  "write_receipt_ok r \<longleftrightarrow>
     receipt_path_ok (wr_destination r) \<and>
     (case wr_expected r of None \<Rightarrow> True | Some n \<Rightarrow> 0 \<le> n) \<and>
     (case wr_final_bytes r of None \<Rightarrow> True | Some n \<Rightarrow> 0 \<le> n) \<and>
     (case wr_final_sha r of None \<Rightarrow> True | Some d \<Rightarrow> receipt_sha_ok d) \<and>
     (wr_status r \<noteq> Receiving \<longrightarrow> wr_final_bytes r \<noteq> None \<and> wr_final_sha r \<noteq> None) \<and>
     \<not> (wr_status r = Receiving \<and> wr_abandonment r = Some DiscardDestination)"

definition unpack_receipt_ok :: "unpack_receipt \<Rightarrow> bool" where
  "unpack_receipt_ok r \<longleftrightarrow>
     receipt_path_ok (ur_destination r) \<and> receipt_path_ok (ur_archive r) \<and> 0 \<le> ur_entries r \<and>
     length (ur_cleanup_errors r) \<le> 32 \<and> list_all (\<lambda>e. length e \<le> 8192) (ur_cleanup_errors r)"

section \<open>What a path holds\<close>

definition node_at :: "host \<Rightarrow> path \<Rightarrow> node option" where
  "node_at s p = map_of (ho_nodes s) p"

definition lexists :: "host \<Rightarrow> path \<Rightarrow> bool" where
  "lexists s p \<longleftrightarrow> node_at s p \<noteq> None"

definition path_exists :: "host \<Rightarrow> path \<Rightarrow> bool" where
  "path_exists s p \<longleftrightarrow> (case node_at s p of None \<Rightarrow> False | Some (LinkNode live) \<Rightarrow> live | Some _ \<Rightarrow> True)"

definition real_dir :: "host \<Rightarrow> path \<Rightarrow> bool" where
  "real_dir s p \<longleftrightarrow> (case node_at s p of Some (DirNode _) \<Rightarrow> True | _ \<Rightarrow> False)"

definition empty_dir :: "host \<Rightarrow> path \<Rightarrow> bool" where
  "empty_dir s p \<longleftrightarrow> node_at s p = Some (DirNode [])"

text \<open>\<open>_open_transfer_source\<close> and \<open>_open_transfer_for_update\<close>: the identity and bytes of a regular file\<close>

definition open_transfer_source :: "host \<Rightarrow> path \<Rightarrow> exn + octets" where
  "open_transfer_source s p =
     (case node_at s p of
        Some (FileNode _ bytes) \<Rightarrow> Inr bytes
      | Some (DirNode _) \<Rightarrow> Inl ValueError
      | _ \<Rightarrow> Inl OSError)"

definition open_transfer_for_update :: "host \<Rightarrow> path \<Rightarrow> exn + nat \<times> octets" where
  "open_transfer_for_update s p =
     (case node_at s p of
        Some (FileNode ino bytes) \<Rightarrow> Inr (ino, bytes)
      | Some (LinkNode _) \<Rightarrow> Inl ValueError
      | _ \<Rightarrow> Inl OSError)"

section \<open>Durable effects\<close>

datatype effect =
    PutWrite ustr write_receipt
  | DropWrite ustr
  | PutUnpack ustr unpack_receipt
  | DropUnpack ustr
  | PutMeta path transfer_meta
  | DropMeta path
  | CreateFile path nat
  | WriteAt path nat octets
  | Truncate path nat
  | Unlink path
  | Rename path path
  | MakeDir path
  | FillDir path entry
  | RemoveTree path

text \<open>\<open>seek\<close> and \<open>write\<close>: a gap is filled with zeros, and writing nothing changes nothing.\<close>

definition write_at :: "nat \<Rightarrow> octets \<Rightarrow> octets \<Rightarrow> octets" where
  "write_at off bytes old =
     (if bytes = [] then old
      else take off (old @ replicate (off - length old) 0) @ bytes @ drop (off + length bytes) old)"

definition set_node :: "path \<Rightarrow> node \<Rightarrow> host \<Rightarrow> host" where
  "set_node p x s = s\<lparr>ho_nodes := AList.update p x (ho_nodes s)\<rparr>"

definition drop_node :: "path \<Rightarrow> host \<Rightarrow> host" where
  "drop_node p s = s\<lparr>ho_nodes := AList.delete p (ho_nodes s)\<rparr>"

text \<open>\<open>None\<close>: the call raises \<open>OSError\<close>. \<open>RemoveTree\<close> is \<open>shutil.rmtree\<close>, \<open>Unlink\<close> has \<open>missing_ok\<close>.\<close>

fun apply_effect :: "effect \<Rightarrow> host \<Rightarrow> host option" where
  "apply_effect (PutWrite k r) s = Some (s\<lparr>ho_writes := AList.update k (Doc r) (ho_writes s)\<rparr>)"
| "apply_effect (DropWrite k) s = Some (s\<lparr>ho_writes := AList.delete k (ho_writes s)\<rparr>)"
| "apply_effect (PutUnpack k r) s = Some (s\<lparr>ho_unpacks := AList.update k (Doc r) (ho_unpacks s)\<rparr>)"
| "apply_effect (DropUnpack k) s = Some (s\<lparr>ho_unpacks := AList.delete k (ho_unpacks s)\<rparr>)"
| "apply_effect (PutMeta p m) s = Some (s\<lparr>ho_metas := AList.update p (Doc m) (ho_metas s)\<rparr>)"
| "apply_effect (DropMeta p) s = Some (s\<lparr>ho_metas := AList.delete p (ho_metas s)\<rparr>)"
| "apply_effect (CreateFile p ino) s = (if lexists s p then None else Some (set_node p (FileNode ino []) s))"
| "apply_effect (WriteAt p off bytes) s =
     (case node_at s p of
        Some (FileNode ino old) \<Rightarrow> Some (set_node p (FileNode ino (write_at off bytes old)) s)
      | _ \<Rightarrow> None)"
| "apply_effect (Truncate p n) s =
     (case node_at s p of
        Some (FileNode ino old) \<Rightarrow> Some (set_node p (FileNode ino (take n old)) s)
      | _ \<Rightarrow> None)"
| "apply_effect (Unlink p) s =
     (case node_at s p of Some (DirNode _) \<Rightarrow> None | _ \<Rightarrow> Some (drop_node p s))"
| "apply_effect (Rename p q) s =
     (case node_at s p of
        None \<Rightarrow> None
      | Some x \<Rightarrow>
          (case (x, node_at s q) of
             (_, None) \<Rightarrow> Some (set_node q x (drop_node p s))
           | (DirNode _, Some (DirNode [])) \<Rightarrow> Some (set_node q x (drop_node p s))
           | (DirNode _, Some _) \<Rightarrow> None
           | (_, Some (DirNode _)) \<Rightarrow> None
           | (_, Some _) \<Rightarrow> Some (set_node q x (drop_node p s))))"
| "apply_effect (MakeDir p) s = (if lexists s p then None else Some (set_node p (DirNode []) s))"
| "apply_effect (FillDir p e) s =
     (case node_at s p of Some (DirNode es) \<Rightarrow> Some (set_node p (DirNode (es @ [e])) s) | _ \<Rightarrow> None)"
| "apply_effect (RemoveTree p) s =
     (case node_at s p of Some (DirNode _) \<Rightarrow> Some (drop_node p s) | _ \<Rightarrow> None)"

fun perform :: "effect list \<Rightarrow> host \<Rightarrow> host \<times> bool" where
  "perform [] s = (s, True)"
| "perform (e # es) s = (case apply_effect e s of None \<Rightarrow> (s, False) | Some s' \<Rightarrow> perform es s')"

type_synonym 'a plan = "effect list \<times> (exn + 'a)"

definition complete :: "'a plan \<Rightarrow> host \<Rightarrow> host \<times> (exn + 'a)" where
  "complete p s = (case perform (fst p) s of (s', ok) \<Rightarrow> (s', if ok then snd p else Inl OSError))"

definition interrupted :: "nat \<Rightarrow> 'a plan \<Rightarrow> host \<Rightarrow> host" where
  "interrupted k p s = fst (perform (take k (fst p)) s)"

text \<open>A plan continued by what is decided in the state it leaves.\<close>

definition chain :: "'a plan \<Rightarrow> host \<Rightarrow> (host \<Rightarrow> 'a \<Rightarrow> 'b plan) \<Rightarrow> 'b plan" where
  "chain p s continue =
     (case perform (fst p) s of
        (s', ok) \<Rightarrow>
          if \<not> ok then (fst p, Inl OSError)
          else (case snd p of
                  Inl e \<Rightarrow> (fst p, Inl e)
                | Inr x \<Rightarrow> (case continue s' x of (es, r) \<Rightarrow> (fst p @ es, r))))"

section \<open>Performing effects\<close>

lemma perform_append:
  "perform (es @ fs) s = (case perform es s of (s', ok) \<Rightarrow> if ok then perform fs s' else (s', False))"
  by (induction es arbitrary: s) (auto split: option.split)

lemma perform_inv:
  assumes "I s" and "\<And>e a b. e \<in> set es \<Longrightarrow> I a \<Longrightarrow> apply_effect e a = Some b \<Longrightarrow> I b"
  shows "I (fst (perform es s))"
  using assms by (induction es arbitrary: s) (auto split: option.split)

lemma complete_chain:
  "complete (chain p s continue) s =
     (case complete p s of
        (s', Inl e) \<Rightarrow> (s', Inl e)
      | (s', Inr x) \<Rightarrow> complete (continue s' x) s')"
  by (auto simp: complete_def chain_def perform_append split: prod.splits sum.splits)

text \<open>The nodes an effect changes\<close>

fun touches :: "effect \<Rightarrow> path set" where
  "touches (CreateFile p _) = {p}"
| "touches (WriteAt p _ _) = {p}"
| "touches (Truncate p _) = {p}"
| "touches (Unlink p) = {p}"
| "touches (Rename p q) = {p, q}"
| "touches (MakeDir p) = {p}"
| "touches (FillDir p _) = {p}"
| "touches (RemoveTree p) = {p}"
| "touches _ = {}"

lemma node_at_set [simp]: "node_at (set_node p x s) q = (if q = p then Some x else node_at s q)"
  by (simp add: node_at_def set_node_def)

lemma node_at_drop [simp]: "node_at (drop_node p s) q = (if q = p then None else node_at s q)"
  by (simp add: node_at_def drop_node_def)

lemma node_at_docs [simp]:
  "node_at (s\<lparr>ho_metas := m\<rparr>) q = node_at s q"
  "node_at (s\<lparr>ho_writes := w\<rparr>) q = node_at s q"
  "node_at (s\<lparr>ho_unpacks := u\<rparr>) q = node_at s q"
  by (simp_all add: node_at_def)

lemma docs_of_nodes [simp]:
  "ho_metas (set_node p x s) = ho_metas s" "ho_metas (drop_node p s) = ho_metas s"
  "ho_writes (set_node p x s) = ho_writes s" "ho_writes (drop_node p s) = ho_writes s"
  "ho_unpacks (set_node p x s) = ho_unpacks s" "ho_unpacks (drop_node p s) = ho_unpacks s"
  by (simp_all add: set_node_def drop_node_def)

lemma apply_untouched:
  assumes "apply_effect e s = Some t" and "q \<notin> touches e"
  shows "node_at t q = node_at s q"
  using assms by (cases e) (auto split: if_splits option.splits node.splits list.splits)

lemma perform_untouched:
  assumes "\<And>e. e \<in> set es \<Longrightarrow> q \<notin> touches e"
  shows "node_at (fst (perform es s)) q = node_at s q"
  by (rule perform_inv [where I = "\<lambda>t. node_at t q = node_at s q"])
    (use assms apply_untouched in \<open>simp, metis\<close>)

end
