(* ===== verification/Transfer_Writes.thy ===== *)
theory Transfer_Writes
  imports Transfer_Files "HOL-Library.Product_Lexorder"
begin

text \<open>
  Resumable file writes of an executor, \<open>src/src/workgate/executor/transfer.py\<close>: the private temporary
  file of a transfer with its metadata, the durable receipt, and the operations that begin, fill,
  finish, abort and abandon a write.

  \<open>transfer_env\<close> collects what the host decides: how a path argument, a bound destination or a
  scratch path resolves, which characters beyond ASCII are alphanumeric, which paths lie in the
  scratch directory, and the SHA-256 digest. \<open>now\<close> is the clock reading of the call and \<open>ino\<close> the
  identity of a file it creates. The locked part of an operation is one plan.
\<close>

record transfer_env =
  te_alnum :: "nat \<Rightarrow> bool"
  te_given :: "ustr \<Rightarrow> exn + path"
  te_bound :: "path \<Rightarrow> exn + path"
  te_scratch :: "path \<Rightarrow> exn + path"
  te_in_scratch :: "path \<Rightarrow> bool"
  te_sha :: "octets \<Rightarrow> ustr"

definition peer_unclaimed_grace :: time where
  "peer_unclaimed_grace = 7 * 24 * 60 * 60"

section \<open>Names\<close>

definition transfer_char :: "transfer_env \<Rightarrow> nat \<Rightarrow> bool" where
  "transfer_char env c \<longleftrightarrow>
     is_digit c \<or> is_upper c \<or> is_lower c \<or> c = 45 \<or> c = 95 \<or> (128 \<le> c \<and> te_alnum env c)"

definition receipt_id :: "transfer_env \<Rightarrow> ustr \<Rightarrow> exn + ustr" where
  "receipt_id env k =
     (let safe = filter (transfer_char env) k in if safe = [] \<or> safe \<noteq> k then Inl ValueError else Inr safe)"

definition transfer_tmp_marker :: ustr where
  "transfer_tmp_marker = lit ''workgate-transfer''"

definition transfer_temp_path :: "path \<Rightarrow> ustr \<Rightarrow> path" where
  "transfer_temp_path d k = (fst d, [46] @ snd d @ [46] @ transfer_tmp_marker @ [45] @ k @ lit ''.tmp'')"

section \<open>Receipts and metadata\<close>

definition load_write_receipt :: "write_receipt doc \<Rightarrow> exn + write_receipt" where
  "load_write_receipt c =
     (case c of Broken \<Rightarrow> Inl ValueError | Doc r \<Rightarrow> if write_receipt_ok r then Inr r else Inl ValueError)"

definition read_transfer_metadata :: "host \<Rightarrow> path \<Rightarrow> path \<Rightarrow> exn + transfer_meta" where
  "read_transfer_metadata s temporary destination =
     (case map_of (ho_metas s) temporary of
        Some (Doc m) \<Rightarrow> if md_destination m \<noteq> destination then Inl ValueError else Inr m
      | _ \<Rightarrow> Inl ValueError)"

fun ranges_from :: "int \<Rightarrow> (int \<times> int) list \<Rightarrow> bool" where
  "ranges_from previous [] = True"
| "ranges_from previous ((a, b) # rs) \<longleftrightarrow> 0 \<le> a \<and> a \<le> b \<and> previous \<le> a \<and> ranges_from b rs"

definition received_ranges :: "transfer_meta \<Rightarrow> exn + (int \<times> int) list" where
  "received_ranges m = (if ranges_from (- 1) (md_ranges m) then Inr (md_ranges m) else Inl ValueError)"

definition merge_range :: "int \<times> int \<Rightarrow> (int \<times> int) list \<Rightarrow> (int \<times> int) list" where
  "merge_range r merged =
     (if merged \<noteq> [] \<and> snd (List.last merged) = fst r
      then butlast merged @ [(fst (List.last merged), snd r)] else merged @ [r])"

definition record_received_range :: "int \<Rightarrow> int \<Rightarrow> transfer_meta \<Rightarrow> exn + transfer_meta" where
  "record_received_range a b m =
     (if b < a then Inl ValueError
      else if b = a then Inr m
      else case received_ranges m of
             Inl e \<Rightarrow> Inl e
           | Inr rs \<Rightarrow>
               if list_ex (\<lambda>(c, d). a < d \<and> c < b) rs then Inl ValueError
               else Inr (m\<lparr>md_ranges := fold merge_range (sort (rs @ [(a, b)])) []\<rparr>))"

text \<open>\<open>_validate_transfer_identity\<close> and the rollback of bytes that the metadata does not cover\<close>

definition validate_transfer_identity :: "nat \<times> octets \<Rightarrow> transfer_meta \<Rightarrow> exn + unit" where
  "validate_transfer_identity f m =
     (if md_identity m \<noteq> fst f then Inl ValueError
      else if md_size m \<noteq> int (length (snd f)) then Inl ValueError else Inr ())"

definition recover_uncommitted_suffix :: "path \<Rightarrow> nat \<times> octets \<Rightarrow> transfer_meta \<Rightarrow> unit plan" where
  "recover_uncommitted_suffix temporary f m =
     (let actual = int (length (snd f)); durable = md_size m in
      if md_identity m \<noteq> fst f then ([], Inl ValueError)
      else if actual = durable then ([], Inr ())
      else case received_ranges m of
             Inl e \<Rightarrow> ([], Inl e)
           | Inr rs \<Rightarrow>
               let prefix = (if rs = [] then 0 else snd (hd rs)) in
               if actual < durable \<or> durable < 0 \<or> (rs \<noteq> [] \<and> rs \<noteq> [(0, prefix)]) \<or> prefix \<noteq> durable
               then ([], Inl ValueError)
               else ([Truncate temporary (nat durable)], Inr ()))"

definition load_unpack_receipt :: "unpack_receipt doc \<Rightarrow> exn + unpack_receipt" where
  "load_unpack_receipt c =
     (case c of Broken \<Rightarrow> Inl ValueError | Doc r \<Rightarrow> if unpack_receipt_ok r then Inr r else Inl ValueError)"

definition completed_unpack_consumed :: "host \<Rightarrow> ustr \<Rightarrow> path \<Rightarrow> exn + bool" where
  "completed_unpack_consumed s k destination =
     (if lexists s destination then Inr False
      else case map_of (ho_unpacks s) k of
             None \<Rightarrow> Inr False
           | Some c \<Rightarrow>
               map_sum id (\<lambda>r. ur_status r = Unpacked \<and> ur_cleanup_archive r \<and> ur_archive r = destination)
                 (load_unpack_receipt c))"

text \<open>The bytes at the destination are those of the receipt; \<open>changed\<close> is what is raised otherwise.\<close>

definition committed_intact :: "transfer_env \<Rightarrow> exn \<Rightarrow> int \<Rightarrow> ustr \<Rightarrow> path \<Rightarrow> host \<Rightarrow> exn + unit" where
  "committed_intact env changed n digest destination s =
     (case open_transfer_source s destination of
        Inl e \<Rightarrow> Inl e
      | Inr bytes \<Rightarrow>
          if int (length bytes) \<noteq> n then Inl changed
          else if te_sha env bytes \<noteq> digest then Inl changed else Inr ())"

definition bound_write_destination ::
  "transfer_env \<Rightarrow> ustr \<Rightarrow> ustr \<Rightarrow> host \<Rightarrow> exn + path \<times> write_receipt option" where
  "bound_write_destination env arg k s =
     (case receipt_id env k of
        Inl e \<Rightarrow> Inl e
      | Inr _ \<Rightarrow>
          (case map_of (ho_writes s) k of
             None \<Rightarrow> map_sum id (\<lambda>d. (d, None)) (te_given env arg)
           | Some c \<Rightarrow>
               (case load_write_receipt c of
                  Inl e \<Rightarrow> Inl e
                | Inr r \<Rightarrow> map_sum id (\<lambda>d. (d, Some r)) (te_bound env (wr_destination r)))))"

text \<open>The receipt under the lock\<close>

definition current_receipt :: "ustr \<Rightarrow> host \<Rightarrow> exn + write_receipt option" where
  "current_receipt k s =
     (case map_of (ho_writes s) k of None \<Rightarrow> Inr None | Some c \<Rightarrow> map_sum id Some (load_write_receipt c))"

section \<open>Aborting\<close>

definition abort_write_locked ::
  "time option \<Rightarrow> ustr \<Rightarrow> path \<times> write_receipt option \<Rightarrow> host \<Rightarrow> bool plan" where
  "abort_write_locked unclaimed_before k b s =
     (case current_receipt k s of
        Inl e \<Rightarrow> ([], Inl e)
      | Inr found \<Rightarrow>
          let current = (case found of None \<Rightarrow> snd b | Some r \<Rightarrow> Some r);
              temporary = transfer_temp_path (fst b) k;
              settled = (case current of None \<Rightarrow> False | Some r \<Rightarrow> wr_status r \<noteq> Receiving);
              claimed = (case unclaimed_before of
                 None \<Rightarrow> False
               | Some limit \<Rightarrow>
                   (case current of
                      None \<Rightarrow> True
                    | Some r \<Rightarrow> (case wr_peer_unclaimed_at r of None \<Rightarrow> True | Some t \<Rightarrow> limit < t)))
          in if settled \<or> claimed then ([], Inr False)
             else ((if path_exists s temporary then [Unlink temporary] else []) @ [DropMeta temporary] @
                   (if current \<noteq> None then [DropWrite k] else []),
                   Inr (path_exists s temporary)))"

definition abort_write :: "transfer_env \<Rightarrow> time option \<Rightarrow> ustr \<Rightarrow> ustr \<Rightarrow> host \<Rightarrow> bool plan" where
  "abort_write env unclaimed_before arg k s =
     (case bound_write_destination env arg k s of
        Inl e \<Rightarrow> ([], Inl e)
      | Inr b \<Rightarrow> abort_write_locked unclaimed_before k b s)"

section \<open>Sweeping scratch files\<close>

text \<open>A plan whose errors are swallowed: what it did stays done.\<close>

fun effective :: "effect list \<Rightarrow> host \<Rightarrow> effect list" where
  "effective [] s = []"
| "effective (e # es) s = (case apply_effect e s of None \<Rightarrow> [] | Some s' \<Rightarrow> e # effective es s')"

fun sweep_plans :: "(host \<Rightarrow> effect list) list \<Rightarrow> host \<Rightarrow> effect list" where
  "sweep_plans [] s = []"
| "sweep_plans (p # ps) s =
     (let es = effective (p s) s in es @ sweep_plans ps (fst (perform es s)))"

definition retire_unclaimed :: "transfer_env \<Rightarrow> time \<Rightarrow> ustr \<Rightarrow> host \<Rightarrow> effect list" where
  "retire_unclaimed env now k s =
     (case map_of (ho_writes s) k of
        None \<Rightarrow> []
      | Some c \<Rightarrow>
          (case load_write_receipt c of
             Inl _ \<Rightarrow> []
           | Inr r \<Rightarrow>
               (case wr_peer_unclaimed_at r of
                  None \<Rightarrow> []
                | Some t \<Rightarrow>
                    if t < now - peer_unclaimed_grace
                    then fst (abort_write env (Some (now - peer_unclaimed_grace)) [] k s) else [])))"

definition receipt_owned_scratch :: "transfer_env \<Rightarrow> host \<Rightarrow> path list option" where
  "receipt_owned_scratch env s =
     (if list_all (\<lambda>(k, c). \<exists>r. load_write_receipt c = Inr r) (ho_writes s) \<and>
         list_all (\<lambda>(k, c). \<exists>r. load_unpack_receipt c = Inr r) (ho_unpacks s)
      then Some (
        concat (map (\<lambda>(k, c). case load_write_receipt c of
           Inr r \<Rightarrow> if te_in_scratch env (wr_destination r)
                   then [wr_destination r, transfer_temp_path (wr_destination r) k] else []
         | Inl _ \<Rightarrow> []) (ho_writes s)) @
        concat (map (\<lambda>(k, c). case load_unpack_receipt c of
           Inr r \<Rightarrow> if te_in_scratch env (ur_archive r) then [ur_archive r] else []
         | Inl _ \<Rightarrow> []) (ho_unpacks s)))
      else None)"

text \<open>
  \<open>_prune_transfer_scratch\<close>; \<open>swept\<close> are the scratch files that \<open>prune_temp_dir\<close> picks by age, number
  and size, of which it spares the protected ones.
\<close>

definition prune_scratch_files :: "transfer_env \<Rightarrow> path list \<Rightarrow> host \<Rightarrow> effect list" where
  "prune_scratch_files env swept s =
     (case receipt_owned_scratch env s of
        None \<Rightarrow> []
      | Some protected \<Rightarrow> map Unlink (filter (\<lambda>p. te_in_scratch env p \<and> p \<notin> set protected) swept))"

definition prune_transfer_scratch :: "transfer_env \<Rightarrow> time \<Rightarrow> path list \<Rightarrow> host \<Rightarrow> effect list" where
  "prune_transfer_scratch env now swept s =
     sweep_plans (map (retire_unclaimed env now) (dict_keys (ho_writes s)) @ [prune_scratch_files env swept]) s"

text \<open>\<open>aged\<close>: the modification time of a path lies a day or more back.\<close>

definition stale_candidate_owned :: "transfer_env \<Rightarrow> host \<Rightarrow> path \<Rightarrow> path \<Rightarrow> bool" where
  "stale_candidate_owned env s destination temporary =
     (let prefix = snd (transfer_temp_path destination []);
          pre = take (length prefix - 4) prefix; name = snd temporary in
      if \<not> starts_with pre name \<or> \<not> ends_with (lit ''.tmp'') name \<or> length name < length pre + 4 then True
      else let k = take (length name - length pre - 4) (drop (length pre) name) in
           case receipt_id env k of Inl _ \<Rightarrow> True | Inr _ \<Rightarrow> map_of (ho_writes s) k \<noteq> None)"

definition prune_stale_destination ::
  "transfer_env \<Rightarrow> (path \<Rightarrow> bool) \<Rightarrow> path \<Rightarrow> host \<Rightarrow> effect list" where
  "prune_stale_destination env aged destination s =
     sweep_plans (
       map (\<lambda>p t. if fst p = fst destination \<and> \<not> stale_candidate_owned env t destination p \<and> aged p
                  then [Unlink p, DropMeta p] else []) (dict_keys (ho_nodes s)) @
       map (\<lambda>p t. if fst p = fst destination \<and> \<not> stale_candidate_owned env t destination p \<and>
                     \<not> path_exists t p \<and> aged p
                  then [DropMeta p] else []) (dict_keys (ho_metas s))) s"

section \<open>Beginning or resuming a write\<close>

record begin_output =
  bo_path :: path
  bo_temp_path :: path
  bo_transfer_id :: ustr
  bo_created :: bool
  bo_expected :: "int option"
  bo_offset :: int
  bo_resumed :: bool
  bo_completed :: bool
  bo_sha :: "ustr option"

text \<open>The write is committed: confirm it, and settle a commit whose acknowledgement was lost.\<close>

definition begin_committed :: "transfer_env \<Rightarrow> time \<Rightarrow> ustr \<Rightarrow> write_receipt \<Rightarrow> host \<Rightarrow> begin_output plan" where
  "begin_committed env now k r s =
     (let destination = wr_destination r; temporary = transfer_temp_path destination k;
          n = the (wr_final_bytes r); digest = the (wr_final_sha r);
          settled = (if wr_status r = Committing
            then [PutWrite k (r\<lparr>wr_status := Completed, wr_updated_at := now,
                    wr_committed_at := (case wr_committed_at r of None \<Rightarrow> Some now
                                        | Some t \<Rightarrow> Some (if t = 0 then now else t))\<rparr>)]
            else []);
          reply = \<lparr>bo_path = destination, bo_temp_path = temporary, bo_transfer_id = k,
            bo_created = (\<not> wr_existed r), bo_expected = wr_expected r, bo_offset = n, bo_resumed = True,
            bo_completed = True, bo_sha = Some digest\<rparr>
      in case (if wr_status r = Completed then completed_unpack_consumed s k destination else Inr False) of
           Inl e \<Rightarrow> ([], Inl e)
         | Inr consumed \<Rightarrow>
             (case (if consumed then Inr () else committed_intact env ValueError n digest destination s) of
                Inl e \<Rightarrow> ([], Inl e)
              | Inr _ \<Rightarrow> (settled @ [DropMeta temporary], Inr reply)))"

text \<open>The temporary file exists: roll it back to what its metadata covers and report the offset.\<close>

definition resume_temporary :: "ustr \<Rightarrow> write_receipt \<Rightarrow> host \<Rightarrow> begin_output plan" where
  "resume_temporary k r s =
     (let destination = wr_destination r; temporary = transfer_temp_path destination k in
      case read_transfer_metadata s temporary destination of
        Inl e \<Rightarrow> ([], Inl e)
      | Inr m \<Rightarrow>
          if md_overwrite m \<noteq> wr_overwrite r \<or> md_expected m \<noteq> wr_expected r then ([], Inl ValueError)
          else case open_transfer_for_update s temporary of
                 Inl e \<Rightarrow> ([], Inl e)
               | Inr f \<Rightarrow>
                   (case recover_uncommitted_suffix temporary f m of
                      (es, Inl e) \<Rightarrow> (es, Inl e)
                    | (es, Inr _) \<Rightarrow>
                        (case received_ranges m of
                           Inl e \<Rightarrow> (es, Inl e)
                         | Inr rs \<Rightarrow>
                             let off = (if rs = [] then 0 else snd (hd rs)) in
                             if rs \<noteq> [] \<and> rs \<noteq> [(0, off)] then (es, Inl ValueError)
                             else (es, Inr \<lparr>bo_path = destination, bo_temp_path = temporary, bo_transfer_id = k,
                                    bo_created = (\<not> wr_existed r), bo_expected = wr_expected r, bo_offset = off,
                                    bo_resumed = True, bo_completed = False, bo_sha = None\<rparr>))))"

definition fresh_temporary :: "nat \<Rightarrow> bool \<Rightarrow> ustr \<Rightarrow> write_receipt \<Rightarrow> begin_output plan" where
  "fresh_temporary ino existed k r =
     (let destination = wr_destination r; temporary = transfer_temp_path destination k in
      ([CreateFile temporary ino,
        PutMeta temporary \<lparr>md_destination = destination, md_overwrite = wr_overwrite r,
          md_expected = wr_expected r, md_ranges = [], md_existed = existed, md_identity = ino, md_size = 0\<rparr>],
       Inr \<lparr>bo_path = destination, bo_temp_path = temporary, bo_transfer_id = k,
         bo_created = (\<not> wr_existed r), bo_expected = wr_expected r, bo_offset = 0,
         bo_resumed = False, bo_completed = False, bo_sha = None\<rparr>))"

definition new_write_receipt :: "time \<Rightarrow> path \<Rightarrow> bool \<Rightarrow> int option \<Rightarrow> bool \<Rightarrow> write_receipt" where
  "new_write_receipt now destination overwrite expected existed =
     \<lparr>wr_destination = destination, wr_overwrite = overwrite, wr_expected = expected, wr_existed = existed,
      wr_status = Receiving, wr_abandonment = None, wr_final_bytes = None, wr_final_sha = None,
      wr_updated_at = now, wr_committed_at = None, wr_peer_unclaimed_at = None\<rparr>"

definition claim_receipt :: "ustr \<Rightarrow> write_receipt option \<Rightarrow> write_receipt \<Rightarrow> write_receipt plan" where
  "claim_receipt k found new =
     (case found of
        Some r \<Rightarrow> ([], Inr r)
      | None \<Rightarrow> if write_receipt_ok new then ([PutWrite k new], Inr new) else ([], Inl ValueError))"

definition begin_receiving ::
  "time \<Rightarrow> nat \<Rightarrow> path \<Rightarrow> bool \<Rightarrow> int option \<Rightarrow> ustr \<Rightarrow> write_receipt option \<Rightarrow> host \<Rightarrow> begin_output plan" where
  "begin_receiving now ino destination overwrite expected k found s =
     (let existed = lexists s destination in
      if existed \<and> (real_dir s destination \<or> \<not> overwrite) then ([], Inl OSError)
      else chain (claim_receipt k found (new_write_receipt now destination overwrite expected existed)) s
             (\<lambda>t r. if path_exists t (transfer_temp_path destination k) then resume_temporary k r t
                    else fresh_temporary ino existed k r))"

definition begin_write_locked ::
  "transfer_env \<Rightarrow> time \<Rightarrow> nat \<Rightarrow> (path \<Rightarrow> bool) \<Rightarrow> path \<Rightarrow> bool \<Rightarrow> int option \<Rightarrow> ustr \<Rightarrow> host \<Rightarrow> begin_output plan" where
  "begin_write_locked env now ino aged destination overwrite expected k s =
     (case current_receipt k s of
        Inl e \<Rightarrow> ([], Inl e)
      | Inr None \<Rightarrow>
          chain (prune_stale_destination env aged destination s, Inr ()) s
            (\<lambda>t _. begin_receiving now ino destination overwrite expected k None t)
      | Inr (Some r) \<Rightarrow>
          if wr_destination r \<noteq> destination \<or> wr_overwrite r \<noteq> overwrite \<or> wr_expected r \<noteq> expected
          then ([], Inl ValueError)
          else if wr_abandonment r \<noteq> None then ([], Inl RuntimeError)
          else if wr_status r = Completed \<or>
            wr_status r = Committing \<and> \<not> path_exists s (transfer_temp_path destination k)
          then begin_committed env now k r s
          else begin_receiving now ino destination overwrite expected k (Some r) s)"

definition begin_write ::
  "transfer_env \<Rightarrow> time \<Rightarrow> nat \<Rightarrow> (path \<Rightarrow> bool) \<Rightarrow> path list \<Rightarrow> ustr \<Rightarrow> bool \<Rightarrow> int option \<Rightarrow> ustr \<Rightarrow> host \<Rightarrow>
   begin_output plan" where
  "begin_write env now ino aged swept arg overwrite expected k s =
     (if (case expected of None \<Rightarrow> False | Some n \<Rightarrow> n < 0) then ([], Inl ValueError)
      else chain (prune_transfer_scratch env now swept s, Inr ()) s
        (\<lambda>t _. case bound_write_destination env arg k t of
                 Inl e \<Rightarrow> ([], Inl e)
               | Inr (destination, _) \<Rightarrow> begin_write_locked env now ino aged destination overwrite expected k t))"

section \<open>Writing and finishing\<close>

definition accepts_data :: "write_receipt option \<Rightarrow> bool" where
  "accepts_data found \<longleftrightarrow>
     (case found of None \<Rightarrow> True | Some r \<Rightarrow> wr_status r = Receiving \<and> wr_abandonment r = None)"

definition digest_mismatch :: "ustr option \<Rightarrow> ustr \<Rightarrow> bool" where
  "digest_mismatch expected digest \<longleftrightarrow>
     (case expected of None \<Rightarrow> False | Some d \<Rightarrow> d \<noteq> [] \<and> digest \<noteq> d)"

definition write_bytes_locked ::
  "transfer_env \<Rightarrow> ustr \<Rightarrow> path \<times> write_receipt option \<Rightarrow> int \<Rightarrow> octets \<Rightarrow> ustr option \<Rightarrow> host \<Rightarrow> int plan" where
  "write_bytes_locked env k b off bytes expected_sha s =
     (let destination = fst b; temporary = transfer_temp_path destination k; n = int (length bytes) in
      if \<not> accepts_data (snd b) then ([], Inl RuntimeError)
      else if off < 0 then ([], Inl ValueError)
      else if digest_mismatch expected_sha (te_sha env bytes) then ([], Inl ValueError)
      else if \<not> path_exists s temporary then ([], Inl OSError)
      else case read_transfer_metadata s temporary destination of
             Inl e \<Rightarrow> ([], Inl e)
           | Inr m \<Rightarrow>
               if (case md_expected m of None \<Rightarrow> False | Some limit \<Rightarrow> limit < off + n) then ([], Inl ValueError)
               else case record_received_range off (off + n) m of
                      Inl e \<Rightarrow> ([], Inl e)
                    | Inr m' \<Rightarrow>
                        (case open_transfer_for_update s temporary of
                           Inl e \<Rightarrow> ([], Inl e)
                         | Inr f \<Rightarrow>
                             (case validate_transfer_identity f m' of
                                Inl e \<Rightarrow> ([], Inl e)
                              | Inr _ \<Rightarrow>
                                  ([WriteAt temporary (nat off) bytes,
                                    PutMeta temporary (m'\<lparr>md_size :=
                                      int (length (write_at (nat off) bytes (snd f)))\<rparr>)],
                                   Inr n))))"

definition write_bytes ::
  "transfer_env \<Rightarrow> ustr \<Rightarrow> ustr \<Rightarrow> int \<Rightarrow> octets \<Rightarrow> ustr option \<Rightarrow> host \<Rightarrow> int plan" where
  "write_bytes env arg k off bytes expected_sha s =
     (case bound_write_destination env arg k s of
        Inl e \<Rightarrow> ([], Inl e)
      | Inr b \<Rightarrow> write_bytes_locked env k b off bytes expected_sha s)"

record finish_output =
  fo_path :: path
  fo_bytes :: int
  fo_sha :: ustr

text \<open>The checks of the temporary file: its size and digest when it is complete.\<close>

definition check_complete ::
  "transfer_env \<Rightarrow> int option \<Rightarrow> ustr option \<Rightarrow> transfer_meta \<Rightarrow> nat \<times> octets \<Rightarrow> exn + int \<times> ustr" where
  "check_complete env expected expected_sha m f =
     (let n = int (length (snd f)); digest = te_sha env (snd f);
          required = (case expected of None \<Rightarrow> n | Some e \<Rightarrow> e) in
      case validate_transfer_identity f m of
        Inl e \<Rightarrow> Inl e
      | Inr _ \<Rightarrow>
          if n \<noteq> required then Inl ValueError
          else case received_ranges m of
                 Inl e \<Rightarrow> Inl e
               | Inr rs \<Rightarrow>
                   if rs \<noteq> (if required = 0 then [] else [(0, required)]) then Inl ValueError
                   else if digest_mismatch expected_sha digest then Inl ValueError
                   else Inr (n, digest))"

text \<open>The receipt that announces the commit\<close>

definition committing_receipt ::
  "time \<Rightarrow> path \<Rightarrow> transfer_meta \<Rightarrow> int \<Rightarrow> ustr \<Rightarrow> write_receipt option \<Rightarrow> exn + write_receipt" where
  "committing_receipt now destination m n digest found =
     (case found of
        Some r \<Rightarrow>
          if wr_destination r \<noteq> destination then Inl ValueError
          else if wr_abandonment r \<noteq> None then Inl RuntimeError
          else if wr_status r = Completed then Inl RuntimeError
          else if wr_overwrite r \<noteq> md_overwrite m \<or> wr_expected r \<noteq> md_expected m then Inl ValueError
          else Inr (r\<lparr>wr_status := Committing, wr_final_bytes := Some n, wr_final_sha := Some digest,
                   wr_updated_at := now\<rparr>)
      | None \<Rightarrow>
          let r = \<lparr>wr_destination = destination, wr_overwrite = md_overwrite m, wr_expected = md_expected m,
            wr_existed = md_existed m, wr_status = Committing, wr_abandonment = None, wr_final_bytes = Some n,
            wr_final_sha = Some digest, wr_updated_at = now, wr_committed_at = None, wr_peer_unclaimed_at = None\<rparr>
          in if write_receipt_ok r then Inr r else Inl ValueError)"

definition sizes_differ :: "int option \<Rightarrow> int option \<Rightarrow> bool" where
  "sizes_differ recorded requested \<longleftrightarrow> recorded \<noteq> None \<and> requested \<noteq> None \<and> recorded \<noteq> requested"

definition finish_write_locked ::
  "transfer_env \<Rightarrow> time \<Rightarrow> ustr \<Rightarrow> path \<times> write_receipt option \<Rightarrow> int option \<Rightarrow> ustr option \<Rightarrow> host \<Rightarrow>
   finish_output plan" where
  "finish_write_locked env now k b expected_bytes expected_sha s =
     (let destination = fst b; temporary = transfer_temp_path destination k in
      if (case snd b of None \<Rightarrow> False | Some r \<Rightarrow> wr_status r = Completed \<or> wr_abandonment r \<noteq> None)
      then ([], Inl RuntimeError)
      else if \<not> path_exists s temporary then ([], Inl OSError)
      else case read_transfer_metadata s temporary destination of
             Inl e \<Rightarrow> ([], Inl e)
           | Inr m \<Rightarrow>
               if sizes_differ (md_expected m) expected_bytes
               then ([], Inl ValueError)
               else case open_transfer_for_update s temporary of
                      Inl e \<Rightarrow> ([], Inl e)
                    | Inr f \<Rightarrow>
                        (case check_complete env (if expected_bytes = None then md_expected m else expected_bytes)
                                expected_sha m f of
                           Inl e \<Rightarrow> ([], Inl e)
                         | Inr (n, digest) \<Rightarrow>
                             if \<not> md_overwrite m \<and> lexists s destination then ([], Inl OSError)
                             else case current_receipt k s of
                                    Inl e \<Rightarrow> ([], Inl e)
                                  | Inr found \<Rightarrow>
                                      (case committing_receipt now destination m n digest found of
                                         Inl e \<Rightarrow> ([], Inl e)
                                       | Inr r \<Rightarrow>
                                           ([PutWrite k r, Rename temporary destination, DropMeta temporary,
                                             PutWrite k (r\<lparr>wr_status := Completed, wr_committed_at := Some now\<rparr>)],
                                            Inr \<lparr>fo_path = destination, fo_bytes = n, fo_sha = digest\<rparr>))))"

definition finish_write ::
  "transfer_env \<Rightarrow> time \<Rightarrow> ustr \<Rightarrow> ustr \<Rightarrow> int option \<Rightarrow> ustr option \<Rightarrow> host \<Rightarrow> finish_output plan" where
  "finish_write env now arg k expected_bytes expected_sha s =
     (case bound_write_destination env arg k s of
        Inl e \<Rightarrow> ([], Inl e)
      | Inr b \<Rightarrow> finish_write_locked env now k b expected_bytes expected_sha s)"

section \<open>Claims and receipts\<close>

definition mark_peer_unclaimed :: "transfer_env \<Rightarrow> time \<Rightarrow> ustr \<Rightarrow> bool \<Rightarrow> host \<Rightarrow> unit plan" where
  "mark_peer_unclaimed env now k unclaimed s =
     (case receipt_id env k of
        Inl e \<Rightarrow> ([], Inl e)
      | Inr _ \<Rightarrow>
          (case current_receipt k s of
             Inl e \<Rightarrow> ([], Inl e)
           | Inr None \<Rightarrow> ([], Inr ())
           | Inr (Some r) \<Rightarrow>
               if wr_status r \<noteq> Receiving then ([], Inr ())
               else ([PutWrite k (r\<lparr>wr_peer_unclaimed_at := if unclaimed then Some now else None\<rparr>)], Inr ())))"

definition release_receipts :: "transfer_env \<Rightarrow> ustr \<Rightarrow> host \<Rightarrow> (bool \<times> bool) plan" where
  "release_receipts env k s =
     (case receipt_id env k of
        Inl e \<Rightarrow> ([], Inl e)
      | Inr _ \<Rightarrow>
          ([DropWrite k, DropUnpack k],
           Inr (map_of (ho_writes s) k \<noteq> None, map_of (ho_unpacks s) k \<noteq> None)))"

section \<open>Abandoning a write\<close>

definition discard_effects :: "ustr \<Rightarrow> path \<Rightarrow> effect list" where
  "discard_effects k temporary = [Unlink temporary, DropMeta temporary, DropWrite k]"

definition abandon_marked ::
  "transfer_env \<Rightarrow> ustr \<Rightarrow> bool \<Rightarrow> write_receipt \<Rightarrow> write_abandonment \<Rightarrow> host \<Rightarrow> bool plan" where
  "abandon_marked env k discard r mark s =
     (let destination = wr_destination r; temporary = transfer_temp_path destination k in
      case mark of
        DiscardTemp \<Rightarrow>
          if wr_status r = Completed then ([], Inl RuntimeError)
          else (discard_effects k temporary, Inr True)
      | DiscardDestination \<Rightarrow>
          if \<not> discard \<or> path_exists s temporary then ([], Inl RuntimeError)
          else if lexists s destination
          then (case committed_intact env RuntimeError (the (wr_final_bytes r)) (the (wr_final_sha r)) destination s of
                  Inl e \<Rightarrow> ([], Inl e)
                | Inr _ \<Rightarrow> ([Unlink destination, DropMeta temporary, DropWrite k], Inr True))
          else ([DropMeta temporary, DropWrite k], Inr True))"

definition abandon_unmarked :: "transfer_env \<Rightarrow> time \<Rightarrow> ustr \<Rightarrow> bool \<Rightarrow> write_receipt \<Rightarrow> host \<Rightarrow> bool plan" where
  "abandon_unmarked env now k discard r s =
     (let destination = wr_destination r; temporary = transfer_temp_path destination k;
          marked = (\<lambda>m. PutWrite k (r\<lparr>wr_abandonment := Some m, wr_updated_at := now\<rparr>))
      in if wr_status r = Receiving \<or> wr_status r = Committing \<and> path_exists s temporary
         then (if wr_status r = Committing \<and> discard \<and> lexists s destination then ([], Inl RuntimeError)
               else (marked DiscardTemp # discard_effects k temporary, Inr True))
         else if path_exists s temporary then ([], Inl RuntimeError)
         else case (if discard \<and> wr_status r = Completed then completed_unpack_consumed s k destination
                    else Inr False) of
                Inl e \<Rightarrow> ([], Inl e)
              | Inr consumed \<Rightarrow>
                  (case (if consumed then Inr ()
                         else committed_intact env RuntimeError (the (wr_final_bytes r)) (the (wr_final_sha r))
                                destination s) of
                     Inl e \<Rightarrow> ([], Inl e)
                   | Inr _ \<Rightarrow>
                       ((if discard then [marked DiscardDestination, Unlink destination] else []) @
                        [DropMeta temporary, DropWrite k], Inr True)))"

definition abandon_final_write_receipt ::
  "transfer_env \<Rightarrow> time \<Rightarrow> ustr \<Rightarrow> bool \<Rightarrow> host \<Rightarrow> bool plan" where
  "abandon_final_write_receipt env now k discard s =
     (case receipt_id env k of
        Inl e \<Rightarrow> ([], Inl e)
      | Inr _ \<Rightarrow>
          (case current_receipt k s of
             Inl e \<Rightarrow> ([], Inl e)
           | Inr None \<Rightarrow> ([], Inr False)
           | Inr (Some r) \<Rightarrow>
               (case (if discard then te_scratch env else te_bound env) (wr_destination r) of
                  Inl e \<Rightarrow> ([], Inl (if e = RuntimeError then RuntimeError else ValueError))
                | Inr d \<Rightarrow>
                    if wr_destination r \<noteq> d then ([], Inl ValueError)
                    else (case wr_abandonment r of
                            Some m \<Rightarrow> abandon_marked env k discard r m s
                          | None \<Rightarrow> abandon_unmarked env now k discard r s))))"

end
