(* ===== verification/Transfer_Safety.thy ===== *)
theory Transfer_Safety
  imports Transfer_Writes
begin

text \<open>
  Safety of resumable writes: what a metadata document claims to have received is in the temporary
  file, through process deaths at any point of any operation and through stale readings of the receipt
  before the lock; so only complete and correct files are published.
\<close>

section \<open>Ranges\<close>

definition covered :: "(int \<times> int) list \<Rightarrow> int set" where
  "covered rs = (\<Union>(a, b) \<in> set rs. {a..<b})"

definition ranges_ok :: "(int \<times> int) list \<Rightarrow> bool" where
  "ranges_ok rs \<longleftrightarrow> (\<forall>(a, b) \<in> set rs. 0 \<le> a \<and> a \<le> b)"

lemma covered_simps [simp]:
  "covered [] = {}" "covered ((a, b) # rs) = {a..<b} \<union> covered rs"
  "covered (rs @ qs) = covered rs \<union> covered qs"
  by (auto simp: covered_def)

lemma ranges_ok_simps [simp]:
  "ranges_ok []" "ranges_ok ((a, b) # rs) \<longleftrightarrow> 0 \<le> a \<and> a \<le> b \<and> ranges_ok rs"
  "ranges_ok (rs @ qs) \<longleftrightarrow> ranges_ok rs \<and> ranges_ok qs"
  by (auto simp: ranges_ok_def)

lemma covered_set_eq: "set rs = set qs \<Longrightarrow> covered rs = covered qs"
  by (simp add: covered_def)

lemma ranges_ok_set_eq: "set rs = set qs \<Longrightarrow> ranges_ok rs \<longleftrightarrow> ranges_ok qs"
  by (simp add: ranges_ok_def)

lemma merge_range_ok:
  assumes "ranges_ok merged" and "0 \<le> fst r" and "fst r \<le> snd r"
  shows "ranges_ok (merge_range r merged)"
    and "covered (merge_range r merged) = covered merged \<union> {fst r..<snd r}"
proof -
  obtain a b where r: "r = (a, b)" by (cases r)
  have "ranges_ok (merge_range r merged) \<and> covered (merge_range r merged) = covered merged \<union> {a..<b}"
  proof (cases "merged \<noteq> [] \<and> snd (List.last merged) = a")
    case True
    obtain front c d where m: "merged = front @ [(c, d)]"
      using True by (metis append_butlast_last_id surj_pair)
    with True assms r show ?thesis by (auto simp: merge_range_def)
  next
    case False
    with assms r show ?thesis by (auto simp: merge_range_def)
  qed
  then show "ranges_ok (merge_range r merged)"
    and "covered (merge_range r merged) = covered merged \<union> {fst r..<snd r}"
    by (simp_all add: r)
qed

lemma merge_fold_ok:
  assumes "ranges_ok acc" and "ranges_ok rs"
  shows "ranges_ok (fold merge_range rs acc) \<and> covered (fold merge_range rs acc) = covered acc \<union> covered rs"
  using assms
proof (induction rs arbitrary: acc)
  case Nil
  then show ?case by simp
next
  case (Cons r rs)
  obtain a b where r: "r = (a, b)" by (cases r)
  with Cons.prems have ok: "0 \<le> a" "a \<le> b" "ranges_ok rs" by simp_all
  have "ranges_ok (merge_range r acc)" "covered (merge_range r acc) = covered acc \<union> {a..<b}"
    using merge_range_ok [OF Cons.prems(1), of r] ok r by simp_all
  with Cons.IH [of "merge_range r acc"] ok(3) r show ?case by auto
qed

lemma ranges_from_ok: "ranges_from previous rs \<Longrightarrow> ranges_ok rs"
  by (induction rs arbitrary: previous) auto

lemma record_received_cases:
  assumes "record_received_range a b m = Inr m'" and "0 \<le> a" and "ranges_ok (md_ranges m)"
  obtains "m' = m\<lparr>md_ranges := md_ranges m'\<rparr>" and "a \<le> b" and "ranges_ok (md_ranges m')"
    and "covered (md_ranges m') = covered (md_ranges m) \<union> {a..<b}"
    and "covered (md_ranges m) \<inter> {a..<b} = {}"
proof (cases "b = a")
  case True
  with assms have "m' = m" by (simp add: record_received_range_def)
  with True assms that show ?thesis by simp
next
  case False
  let ?rs = "md_ranges m"
  from assms(1) False have ab: "a < b"
    by (auto simp: record_received_range_def split: if_splits)
  from assms(1) False obtain disjoint: "\<not> list_ex (\<lambda>(c, d). a < d \<and> c < b) ?rs"
    and m': "m' = m\<lparr>md_ranges := fold merge_range (sort (?rs @ [(a, b)])) []\<rparr>"
    by (auto simp: record_received_range_def received_ranges_def split: if_splits)
  have ok: "ranges_ok (sort (?rs @ [(a, b)]))"
    using assms(2,3) ab by (subst ranges_ok_set_eq [of _ "?rs @ [(a, b)]"]) simp_all
  have cov: "covered (sort (?rs @ [(a, b)])) = covered ?rs \<union> {a..<b}"
    by (subst covered_set_eq [of _ "?rs @ [(a, b)]"]) simp_all
  have "covered ?rs \<inter> {a..<b} = {}"
    using disjoint by (fastforce simp: covered_def list_ex_iff)
  with m' merge_fold_ok [OF _ ok, of "[]"] cov ab that show ?thesis by auto
qed

section \<open>What the metadata claims is there\<close>

definition private_path :: "path \<Rightarrow> bool" where
  "private_path p \<longleftrightarrow> (\<exists>d k. p = transfer_temp_path d k)"

definition meta_ok :: "transfer_meta \<Rightarrow> bool" where
  "meta_ok m \<longleftrightarrow>
     ranges_ok (md_ranges m) \<and> 0 \<le> md_size m \<and> covered (md_ranges m) \<subseteq> {0..<md_size m} \<and>
     (md_size m = 0 \<or> md_size m - 1 \<in> covered (md_ranges m))"

definition holds_received :: "octets \<Rightarrow> transfer_meta \<Rightarrow> octets \<Rightarrow> bool" where
  "holds_received src m bytes \<longleftrightarrow>
     (\<forall>i \<in> covered (md_ranges m). nat i < length src \<and> bytes ! nat i = src ! nat i)"

definition faithful_temp :: "octets \<Rightarrow> host \<Rightarrow> path \<Rightarrow> bool" where
  "faithful_temp src s p \<longleftrightarrow>
     (\<forall>m. map_of (ho_metas s) p = Some (Doc m) \<longrightarrow> meta_ok m \<and>
        (\<forall>bytes. node_at s p = Some (FileNode (md_identity m) bytes) \<and> md_size m \<le> int (length bytes) \<longrightarrow>
           holds_received src m bytes))"

definition xfer_inv :: "ustr \<Rightarrow> octets \<Rightarrow> host \<Rightarrow> bool" where
  "xfer_inv k src s \<longleftrightarrow> (\<forall>d. faithful_temp src s (transfer_temp_path d k))"

lemma xfer_invD: "xfer_inv k src s \<Longrightarrow> faithful_temp src s (transfer_temp_path d k)"
  unfolding xfer_inv_def by blast

lemma xfer_invI: "(\<And>d. faithful_temp src s (transfer_temp_path d k)) \<Longrightarrow> xfer_inv k src s"
  unfolding xfer_inv_def by blast

lemma faithful_cong:
  "node_at t p = node_at s p \<Longrightarrow> map_of (ho_metas t) p = map_of (ho_metas s) p \<Longrightarrow>
   faithful_temp src t p = faithful_temp src s p"
  by (simp add: faithful_temp_def)

lemma faithful_no_file:
  "faithful_temp src s p \<Longrightarrow> map_of (ho_metas t) p = map_of (ho_metas s) p \<Longrightarrow>
   (\<And>ino bytes. node_at t p \<noteq> Some (FileNode ino bytes)) \<Longrightarrow> faithful_temp src t p"
  by (simp add: faithful_temp_def)

lemma faithful_shorter:
  assumes "faithful_temp src s p" and "map_of (ho_metas t) p = map_of (ho_metas s) p"
    and "node_at s p = Some (FileNode ino old)" and "node_at t p = Some (FileNode ino (take n old))"
  shows "faithful_temp src t p"
  unfolding faithful_temp_def
proof (intro allI impI conjI)
  fix m assume m: "map_of (ho_metas t) p = Some (Doc m)"
  then show ok: "meta_ok m" using assms(1,2) by (simp add: faithful_temp_def)
  fix bytes assume b: "node_at t p = Some (FileNode (md_identity m) bytes) \<and> md_size m \<le> int (length bytes)"
  then have "md_size m \<le> int (length old)" "ino = md_identity m" "bytes = take n old"
    using assms(4) by auto
  then have held: "holds_received src m old"
    using assms(1-3) m by (simp add: faithful_temp_def)
  show "holds_received src m bytes"
    unfolding holds_received_def
  proof
    fix i assume i: "i \<in> covered (md_ranges m)"
    with ok have "0 \<le> i" "i < md_size m" by (auto simp: meta_ok_def)
    moreover have "md_size m \<le> int n" using b \<open>bytes = take n old\<close> by (auto simp: min_def split: if_splits)
    ultimately have "nat i < n" by simp
    with held i \<open>bytes = take n old\<close> show "nat i < length src \<and> bytes ! nat i = src ! nat i"
      by (simp add: holds_received_def)
  qed
qed

lemma faithful_empty_file:
  assumes "faithful_temp src s p" and "map_of (ho_metas t) p = map_of (ho_metas s) p"
    and "node_at t p = Some (FileNode ino [])"
  shows "faithful_temp src t p"
  unfolding faithful_temp_def holds_received_def
proof (intro allI impI conjI ballI)
  fix m assume m: "map_of (ho_metas t) p = Some (Doc m)"
  then show ok: "meta_ok m" using assms(1,2) by (simp add: faithful_temp_def)
  fix bytes i
  assume "node_at t p = Some (FileNode (md_identity m) bytes) \<and> md_size m \<le> int (length bytes)"
    and i: "i \<in> covered (md_ranges m)"
  with assms(3) have "md_size m \<le> 0" by auto
  with ok i have False by (fastforce simp: meta_ok_def)
  then show "nat i < length src" "bytes ! nat i = src ! nat i" by simp_all
qed

text \<open>Every effect but the two of a data write keeps the temporaries faithful.\<close>

fun benign :: "effect \<Rightarrow> bool" where
  "benign (WriteAt _ _ _) = False"
| "benign (PutMeta p m) \<longleftrightarrow> md_ranges m = [] \<and> md_size m = 0"
| "benign (Rename p q) \<longleftrightarrow> \<not> private_path q"
| "benign _ = True"

lemma benign_faithful:
  assumes "benign e" and "apply_effect e s = Some t" and "faithful_temp src s p" and "private_path p"
  shows "faithful_temp src t p"
proof (cases e)
  case (PutMeta q m)
  show ?thesis
  proof (cases "q = p")
    case True
    with PutMeta assms(1,2) show ?thesis by (auto simp: faithful_temp_def meta_ok_def holds_received_def)
  next
    case False
    with PutMeta assms(2,3) show ?thesis by (auto simp: faithful_temp_def)
  qed
next
  case (DropMeta q)
  with assms show ?thesis by (auto simp: faithful_temp_def split: if_splits)
next
  case (CreateFile q ino)
  show ?thesis
  proof (cases "q = p")
    case True
    with CreateFile assms show ?thesis
      by (intro faithful_empty_file [OF assms(3)]) (auto split: if_splits)
  next
    case False
    with CreateFile assms show ?thesis by (auto simp: faithful_temp_def split: if_splits)
  qed
next
  case (Truncate q n)
  then obtain ino old where s: "node_at s q = Some (FileNode ino old)"
    and t: "t = set_node q (FileNode ino (take n old)) s"
    using assms(2) by (auto split: option.splits node.splits)
  show ?thesis
  proof (cases "q = p")
    case True
    with s t show ?thesis by (intro faithful_shorter [OF assms(3)]) auto
  next
    case False
    with t assms(3) show ?thesis by (auto simp: faithful_temp_def)
  qed
next
  case (Rename q r)
  with assms have "r \<noteq> p" by auto
  with Rename assms(2,3) show ?thesis
    by (auto simp: faithful_temp_def split: option.splits node.splits list.splits if_splits)
qed (use assms in \<open>auto simp: faithful_temp_def split: option.splits node.splits if_splits\<close>)

lemma private_temp [simp]: "private_path (transfer_temp_path d k)"
  unfolding private_path_def by blast

lemma benign_inv:
  assumes "\<And>e. e \<in> set es \<Longrightarrow> benign e" and "xfer_inv k src s"
  shows "xfer_inv k src (fst (perform es s))"
proof (rule perform_inv [where I = "xfer_inv k src"])
  fix e a b assume "e \<in> set es" "xfer_inv k src a" "apply_effect e a = Some b"
  then show "xfer_inv k src b"
    unfolding xfer_inv_def using assms(1) benign_faithful private_temp by metis
qed (rule assms(2))

lemma benign_interrupted:
  "(\<And>e. e \<in> set (fst P) \<Longrightarrow> benign e) \<Longrightarrow> xfer_inv k src s \<Longrightarrow> xfer_inv k src (interrupted n P s)"
  unfolding interrupted_def by (rule benign_inv) (auto dest: in_set_takeD)

section \<open>Writing data\<close>

lemma length_write_at: "length (write_at off bytes old) = (if bytes = [] then length old else max (length old) (off + length bytes))"
  by (auto simp: write_at_def)

lemma nth_write_at_old:
  assumes "i < length old" and "i < off \<or> off + length bytes \<le> i"
  shows "write_at off bytes old ! i = old ! i"
  using assms by (auto simp: write_at_def nth_append)

lemma nth_write_at_new:
  assumes "off \<le> i" and "i < off + length bytes"
  shows "write_at off bytes old ! i = bytes ! (i - off)"
proof -
  let ?front = "take off (old @ replicate (off - length old) 0)"
  have front: "length ?front = off" by simp
  have "i - off < length bytes" using assms by arith
  have "write_at off bytes old = ?front @ bytes @ drop (off + length bytes) old"
    using assms by (auto simp: write_at_def)
  then have "write_at off bytes old ! i = (?front @ (bytes @ drop (off + length bytes) old)) ! i" by simp
  also have "\<dots> = bytes ! (i - off)"
    unfolding nth_append [of ?front] front using assms \<open>i - off < length bytes\<close> by (simp add: nth_append)
  finally show ?thesis .
qed

lemma write_bytes_cases:
  obtains (refused) "fst (write_bytes_locked env k b off bytes sha s) = []"
  | (written) m m' old where
      "map_of (ho_metas s) (transfer_temp_path (fst b) k) = Some (Doc m)"
      "node_at s (transfer_temp_path (fst b) k) = Some (FileNode (md_identity m) old)"
      "md_size m = int (length old)" "record_received_range off (off + int (length bytes)) m = Inr m'"
      "accepts_data (snd b)" "md_destination m = fst b"
      "write_bytes_locked env k b off bytes sha s =
         ([WriteAt (transfer_temp_path (fst b) k) (nat off) bytes,
           PutMeta (transfer_temp_path (fst b) k) (m'\<lparr>md_size := int (length (write_at (nat off) bytes old))\<rparr>)],
          Inr (int (length bytes)))"
proof -
  let ?P = "write_bytes_locked env k b off bytes sha s" and ?p = "transfer_temp_path (fst b) k"
  have "fst ?P = [] \<or>
    (\<exists>m m' old. map_of (ho_metas s) ?p = Some (Doc m) \<and> node_at s ?p = Some (FileNode (md_identity m) old) \<and>
      md_size m = int (length old) \<and> record_received_range off (off + int (length bytes)) m = Inr m' \<and>
      accepts_data (snd b) \<and> md_destination m = fst b \<and>
      ?P = ([WriteAt ?p (nat off) bytes,
             PutMeta ?p (m'\<lparr>md_size := int (length (write_at (nat off) bytes old))\<rparr>)], Inr (int (length bytes))))"
  proof (cases "record_received_range off (off + int (length bytes)) (the_elem {m. map_of (ho_metas s) ?p = Some (Doc m)})")
    case (Inl e)
    then show ?thesis
      by (auto simp: write_bytes_locked_def Let_def read_transfer_metadata_def split: option.splits doc.splits sum.splits if_splits)
  next
    case (Inr m')
    have keeps: "md_identity m' = md_identity m \<and> md_size m' = md_size m"
      if "record_received_range off (off + int (length bytes)) m = Inr m'" for m
      using that by (auto simp: record_received_range_def split: if_splits sum.splits)
    show ?thesis
      using Inr keeps
      by (auto simp: write_bytes_locked_def Let_def read_transfer_metadata_def open_transfer_for_update_def
          validate_transfer_identity_def split: option.splits doc.splits sum.splits if_splits node.splits)
  qed
  then show thesis using refused written by blast
qed

lemma write_keeps_inv:
  assumes inv: "xfer_inv k src s" and user: "\<not> private_path (fst b)" and off: "0 \<le> off"
    and fits: "nat off + length bytes \<le> length src" and data: "bytes = take (length bytes) (drop (nat off) src)"
  shows "xfer_inv k src (interrupted n (write_bytes_locked env k b off bytes sha s) s)"
proof (cases rule: write_bytes_cases [where env = env and k = k and b = b and off = off and bytes = bytes and sha = sha and s = s])
  case refused
  then show ?thesis using inv by (simp add: interrupted_def)
next
  case (written m m' old)
  let ?p = "transfer_temp_path (fst b) k" and ?new = "write_at (nat off) bytes old"
  let ?s1 = "set_node ?p (FileNode (md_identity m) ?new) s"
  let ?m = "m'\<lparr>md_size := int (length ?new)\<rparr>"
  let ?s2 = "?s1\<lparr>ho_metas := AList.update ?p (Doc ?m) (ho_metas ?s1)\<rparr>"
  have temp: "faithful_temp src s ?p" using inv by (rule xfer_invD)
  then have ok: "meta_ok m" and held: "holds_received src m old"
    using written(1-3) by (simp_all add: faithful_temp_def)
  from ok have "ranges_ok (md_ranges m)" by (simp add: meta_ok_def)
  from record_received_cases [OF written(4) off this]
  have m': "m' = m\<lparr>md_ranges := md_ranges m'\<rparr>" "ranges_ok (md_ranges m')"
    "covered (md_ranges m') = covered (md_ranges m) \<union> {off..<off + int (length bytes)}"
    "covered (md_ranges m) \<inter> {off..<off + int (length bytes)} = {}" by blast+
  have below: "0 \<le> i \<and> nat i < length old" if "i \<in> covered (md_ranges m)" for i
    using that ok written(3) by (force simp: meta_ok_def)
  have keep: "?new ! nat i = old ! nat i" if "i \<in> covered (md_ranges m)" for i
  proof (rule nth_write_at_old)
    show "nat i < length old" using below [OF that] by simp
    have "i \<notin> {off..<off + int (length bytes)}" using that m'(4) by blast
    then show "nat i < nat off \<or> nat off + length bytes \<le> nat i" using below [OF that] off by auto
  qed
  have grown: "length old \<le> length ?new" by (simp add: length_write_at)
  have s1: "faithful_temp src ?s1 ?p"
    using ok held keep written(1) by (auto simp: faithful_temp_def holds_received_def)
  have new: "nat i < length src \<and> ?new ! nat i = src ! nat i" if "i \<in> {off..<off + int (length bytes)}" for i
  proof -
    have i: "nat off \<le> nat i" "nat i < nat off + length bytes" using that off by auto
    have "?new ! nat i = bytes ! (nat i - nat off)" using i by (rule nth_write_at_new)
    also have "\<dots> = src ! nat i"
      using i fits by (subst data) simp
    finally show ?thesis using i fits by simp
  qed
  have "meta_ok ?m"
  proof -
    have "covered (md_ranges m) \<subseteq> {0..<int (length ?new)}" using below grown by fastforce
    moreover have "{off..<off + int (length bytes)} \<subseteq> {0..<int (length ?new)}"
      using off by (auto simp: length_write_at)
    moreover have "length ?new = 0 \<or> int (length ?new) - 1 \<in> covered (md_ranges m')"
    proof (cases "bytes = [] \<or> nat off + length bytes \<le> length old")
      case True
      then have "length ?new = length old" by (auto simp: length_write_at)
      with ok written(3) m'(3) show ?thesis by (auto simp: meta_ok_def)
    next
      case False
      then have "length ?new = nat off + length bytes" by (auto simp: length_write_at)
      with False off m'(3) show ?thesis by auto
    qed
    ultimately show ?thesis using m'(2,3) by (auto simp: meta_ok_def)
  qed
  moreover have "holds_received src ?m ?new"
    using held keep new m'(3) by (auto simp: holds_received_def)
  moreover have "md_identity ?m = md_identity m"
    using arg_cong [OF m'(1), of md_identity] by simp
  ultimately have s2: "faithful_temp src ?s2 ?p" by (auto simp: faithful_temp_def)
  have other: "faithful_temp src t (transfer_temp_path d k)"
    if "t = ?s1 \<or> t = ?s2" for t d
  proof (cases "transfer_temp_path d k = ?p")
    case True
    with that s1 s2 show ?thesis by auto
  next
    case False
    have "faithful_temp src s (transfer_temp_path d k)" using inv by (rule xfer_invD)
    moreover have "faithful_temp src t (transfer_temp_path d k) = faithful_temp src s (transfer_temp_path d k)"
      by (rule faithful_cong) (use that False in auto)
    ultimately show ?thesis by simp
  qed
  consider "n = 0" | "n = 1" | j where "n = Suc (Suc j)" by (metis One_nat_def nat.exhaust)
  then show ?thesis
  proof cases
    case 1
    then show ?thesis using inv by (simp add: interrupted_def)
  next
    case 2
    with written(7) have "interrupted n (write_bytes_locked env k b off bytes sha s) s = ?s1"
      using written(2) by (simp add: interrupted_def)
    with other show ?thesis by (auto intro: xfer_invI)
  next
    case 3
    with written(7) have "interrupted n (write_bytes_locked env k b off bytes sha s) s = ?s2"
      using written(2) by (simp add: interrupted_def)
    with other show ?thesis by (auto intro: xfer_invI)
  qed
qed

section \<open>The effects of the other operations\<close>

text \<open>A quiet effect keeps the temporaries faithful and touches no path a user could name.\<close>

definition quiet :: "effect \<Rightarrow> bool" where
  "quiet e \<longleftrightarrow> benign e \<and> (\<forall>p \<in> touches e. private_path p)"

lemma chain_effects:
  assumes "e \<in> set (fst (chain P s continue))"
  obtains "e \<in> set (fst P)" | t x where "e \<in> set (fst (continue t x))"
proof -
  obtain s' ok where run: "perform (fst P) s = (s', ok)" by fastforce
  have "e \<in> set (fst P) \<or> (\<exists>x. e \<in> set (fst (continue s' x)))"
  proof (cases "snd P")
    case (Inl a)
    with run assms show ?thesis by (simp add: chain_def split: if_split_asm)
  next
    case (Inr x)
    obtain es r where "continue s' x = (es, r)" by fastforce
    with run assms Inr show ?thesis
      by (cases ok) (auto simp: chain_def intro: exI [of _ x])
  qed
  then show thesis using that by blast
qed

lemma effective_subset: "set (effective es s) \<subseteq> set es"
  by (induction es arbitrary: s) (auto split: option.splits)

lemma sweep_effects:
  assumes "\<And>f t e. f \<in> set ps \<Longrightarrow> e \<in> set (f t) \<Longrightarrow> Q e"
  shows "e \<in> set (sweep_plans ps s) \<Longrightarrow> Q e"
  using assms
proof (induction ps arbitrary: s)
  case Nil
  then show ?case by simp
next
  case (Cons f ps)
  then consider "e \<in> set (effective (f s) s)" | t where "e \<in> set (sweep_plans ps t)"
    by (auto simp: Let_def)
  then show ?case
  proof cases
    case 1
    then have "e \<in> set (f s)" using effective_subset by blast
    then show ?thesis by (rule Cons.prems(2) [rotated]) simp
  next
    case 2
    then show ?thesis by (rule Cons.IH) (rule Cons.prems(2), auto)
  qed
qed

lemma stale_candidate_private:
  assumes "\<not> stale_candidate_owned env t d p" and "fst p = fst d"
  shows "private_path p"
proof -
  let ?pre = "[46] @ snd d @ [46] @ transfer_tmp_marker @ [45]" and ?name = "snd p"
  have prefix: "take (length (snd (transfer_temp_path d [])) - 4) (snd (transfer_temp_path d [])) = ?pre"
    by (simp add: transfer_temp_path_def)
  have pre: "starts_with ?pre ?name" and suf: "ends_with (lit ''.tmp'') ?name"
    and len: "length ?pre + 4 \<le> length ?name"
    using assms(1) unfolding stale_candidate_owned_def Let_def prefix by (auto split: if_splits)
  obtain rest where rest: "?name = ?pre @ rest" using pre by (rule starts_withE)
  have "length (lit ''.tmp'') = 4" by simp
  moreover obtain front where front: "?name = front @ lit ''.tmp''"
    using suf unfolding ends_with_def by (metis rev_append rev_rev_ident starts_withE)
  ultimately have "length ?pre \<le> length front" using len by simp
  then have "rest = drop (length ?pre) front @ lit ''.tmp''"
    using rest front by (metis append_eq_conv_conj drop_append append_Nil2 diff_is_0_eq' drop0)
  then have "p = transfer_temp_path d (drop (length ?pre) front)"
    using rest assms(2) by (simp add: transfer_temp_path_def prod_eq_iff)
  then show ?thesis by simp
qed

lemma stale_candidate_private_pair:
  "\<not> stale_candidate_owned env t d (fst d, b) \<Longrightarrow> private_path (fst d, b)"
  by (erule stale_candidate_private) simp

lemma quiet_simps [simp]:
  "quiet (PutWrite k r)" "quiet (DropWrite k)" "quiet (PutUnpack k u)" "quiet (DropUnpack k)" "quiet (DropMeta p)"
  "quiet (CreateFile p ino) \<longleftrightarrow> private_path p" "quiet (Truncate p n) \<longleftrightarrow> private_path p"
  "quiet (Unlink p) \<longleftrightarrow> private_path p" "quiet (PutMeta p m) \<longleftrightarrow> md_ranges m = [] \<and> md_size m = 0"
  by (auto simp: quiet_def)

lemma prune_stale_quiet: "e \<in> set (prune_stale_destination env aged d s) \<Longrightarrow> quiet e"
  unfolding prune_stale_destination_def
  by (erule sweep_effects [rotated], auto split: if_splits) (metis stale_candidate_private_pair)

lemma resume_quiet: "e \<in> set (fst (resume_temporary k r s)) \<Longrightarrow> quiet e"
  by (auto simp: resume_temporary_def recover_uncommitted_suffix_def Let_def
      split: sum.splits if_splits prod.splits)

lemma begin_receiving_quiet: "e \<in> set (fst (begin_receiving now ino d ow ex k found s)) \<Longrightarrow> quiet e"
  unfolding begin_receiving_def Let_def
  by (auto elim!: chain_effects dest: resume_quiet simp: fresh_temporary_def claim_receipt_def Let_def
      split: option.splits if_splits)

lemma begin_quiet: "e \<in> set (fst (begin_write_locked env now ino aged d ow ex k s)) \<Longrightarrow> quiet e"
  unfolding begin_write_locked_def
  by (auto elim!: chain_effects dest: prune_stale_quiet begin_receiving_quiet
      simp: begin_committed_def Let_def split: option.splits if_splits sum.splits)

lemma abort_quiet: "e \<in> set (fst (abort_write_locked limit k b s)) \<Longrightarrow> quiet e"
  by (auto simp: abort_write_locked_def Let_def split: option.splits if_splits sum.splits)

lemma mark_quiet: "e \<in> set (fst (mark_peer_unclaimed env now k u s)) \<Longrightarrow> quiet e"
  by (auto simp: mark_peer_unclaimed_def split: option.splits if_splits sum.splits)

lemma release_quiet: "e \<in> set (fst (release_receipts env k s)) \<Longrightarrow> quiet e"
  by (auto simp: release_receipts_def split: sum.splits)

lemma abandon_benign: "e \<in> set (fst (abandon_final_write_receipt env now k discard s)) \<Longrightarrow> benign e"
  by (auto simp: abandon_final_write_receipt_def abandon_marked_def abandon_unmarked_def discard_effects_def Let_def
      split: option.splits if_splits sum.splits write_abandonment.splits)

lemma retire_benign: "e \<in> set (retire_unclaimed env now k s) \<Longrightarrow> benign e"
  by (auto simp: retire_unclaimed_def abort_write_def quiet_def dest: abort_quiet
      split: option.splits if_splits sum.splits)

lemma prune_scratch_benign: "e \<in> set (prune_transfer_scratch env now swept s) \<Longrightarrow> benign e"
  unfolding prune_transfer_scratch_def
  by (erule sweep_effects [rotated]) (auto dest: retire_benign simp: prune_scratch_files_def split: option.splits)

lemma finish_cases:
  obtains (refused) e where "finish_write_locked env now k b ex sha s = ([], Inl e)"
  | (committed) m old r where
      "map_of (ho_metas s) (transfer_temp_path (fst b) k) = Some (Doc m)"
      "node_at s (transfer_temp_path (fst b) k) = Some (FileNode (md_identity m) old)"
      "md_size m = int (length old)" "ranges_from (- 1) (md_ranges m)"
      "let n = (if ex = None then md_expected m else ex) in
         (case n of None \<Rightarrow> True | Some e \<Rightarrow> int (length old) = e) \<and>
         md_ranges m = (if length old = 0 then [] else [(0, int (length old))])"
      "\<not> digest_mismatch sha (te_sha env old)"
      "finish_write_locked env now k b ex sha s =
         ([PutWrite k r, Rename (transfer_temp_path (fst b) k) (fst b), DropMeta (transfer_temp_path (fst b) k),
           PutWrite k (r\<lparr>wr_status := Completed, wr_committed_at := Some now\<rparr>)],
          Inr \<lparr>fo_path = fst b, fo_bytes = int (length old), fo_sha = te_sha env old\<rparr>)"
      "wr_status r = Committing" "wr_destination r = fst b" "wr_abandonment r = None"
      "wr_final_bytes r = Some (int (length old))" "wr_final_sha r = Some (te_sha env old)"
proof -
  let ?p = "transfer_temp_path (fst b) k"
  note unfold = finish_write_locked_def Let_def
  show thesis
  proof (cases "(case snd b of None \<Rightarrow> False | Some r \<Rightarrow> wr_status r = Completed \<or> wr_abandonment r \<noteq> None)
      \<or> \<not> path_exists s ?p")
    case True
    show thesis
    proof (cases "case snd b of None \<Rightarrow> False | Some r \<Rightarrow> wr_status r = Completed \<or> wr_abandonment r \<noteq> None")
      case True
      then show thesis by - (rule refused, simp add: unfold)
    next
      case False
      with True show thesis by - (rule refused, simp add: unfold)
    qed
  next
    case start: False
    show thesis
    proof (cases "read_transfer_metadata s ?p (fst b)")
      case (Inl e)
      with start show thesis by - (rule refused, simp add: unfold)
    next
      case (Inr m)
      note meta = this
      let ?ex = "if ex = None then md_expected m else ex"
      show thesis
      proof (cases "open_transfer_for_update s ?p")
        case (Inl e)
        with start meta show thesis
          by (cases "sizes_differ (md_expected m) ex") (rule refused, simp add: unfold)+
      next
        case (Inr f)
        note opened = this
        show thesis
        proof (cases "check_complete env ?ex sha m f")
          case (Inl e)
          with start meta opened show thesis
            by (cases "sizes_differ (md_expected m) ex") (rule refused, simp add: unfold)+
        next
          case (Inr nd)
          obtain n digest where check: "check_complete env ?ex sha m f = Inr (n, digest)"
            using Inr by (cases nd) simp
          show thesis
          proof (cases "sizes_differ (md_expected m) ex \<or> (\<not> md_overwrite m \<and> lexists s (fst b))")
            case True
            with start meta opened check show thesis
              by (cases "sizes_differ (md_expected m) ex") (rule refused, simp add: unfold)+
          next
            case guards: False
            from guards have no_clash: "\<not> sizes_differ (md_expected m) ex" "(\<not> md_overwrite m \<and> lexists s (fst b)) = False"
              by blast+
            have eq: "finish_write_locked env now k b ex sha s =
              (case current_receipt k s of
                 Inl e \<Rightarrow> ([], Inl e)
               | Inr found \<Rightarrow>
                   (case committing_receipt now (fst b) m n digest found of
                      Inl e \<Rightarrow> ([], Inl e)
                    | Inr r \<Rightarrow>
                        ([PutWrite k r, Rename ?p (fst b), DropMeta ?p,
                          PutWrite k (r\<lparr>wr_status := Completed, wr_committed_at := Some now\<rparr>)],
                         Inr \<lparr>fo_path = fst b, fo_bytes = n, fo_sha = digest\<rparr>)))"
              using start meta opened check by (simp add: unfold no_clash del: de_Morgan_conj)
            show thesis
            proof (cases "current_receipt k s")
              case (Inl e)
              with eq show thesis by - (rule refused, simp)
            next
              case (Inr found)
              note found = this
              show thesis
              proof (cases "committing_receipt now (fst b) m n digest found")
                case (Inl e)
                with eq found show thesis by - (rule refused, simp)
              next
                case (Inr r)
                show thesis
                proof (rule committed)
                  show "map_of (ho_metas s) ?p = Some (Doc m)"
                    using meta by (auto simp: read_transfer_metadata_def split: option.splits doc.splits if_splits)
                  have c: "fst f = md_identity m" "md_size m = int (length (snd f))" "n = int (length (snd f))"
                    "digest = te_sha env (snd f)" "ranges_from (- 1) (md_ranges m)" "\<not> digest_mismatch sha digest"
                    "case ?ex of None \<Rightarrow> True | Some e \<Rightarrow> int (length (snd f)) = e"
                    "md_ranges m = (if length (snd f) = 0 then [] else [(0, int (length (snd f)))])"
                    using check by (auto simp: check_complete_def Let_def validate_transfer_identity_def
                        received_ranges_def split: if_split_asm option.splits)
                  show "node_at s ?p = Some (FileNode (md_identity m) (snd f))"
                    using opened c(1) by (auto simp: open_transfer_for_update_def split: option.splits node.splits)
                  show "md_size m = int (length (snd f))" "ranges_from (- 1) (md_ranges m)"
                    using c by simp_all
                  show "let n = ?ex in (case n of None \<Rightarrow> True | Some e \<Rightarrow> int (length (snd f)) = e) \<and>
                      md_ranges m = (if length (snd f) = 0 then [] else [(0, int (length (snd f)))])"
                    using c(7,8) by (simp add: Let_def)
                  show "\<not> digest_mismatch sha (te_sha env (snd f))" using c by simp
                  show "finish_write_locked env now k b ex sha s =
                    ([PutWrite k r, Rename ?p (fst b), DropMeta ?p,
                      PutWrite k (r\<lparr>wr_status := Completed, wr_committed_at := Some now\<rparr>)],
                     Inr \<lparr>fo_path = fst b, fo_bytes = int (length (snd f)), fo_sha = te_sha env (snd f)\<rparr>)"
                    using eq found Inr c by simp
                  show "wr_status r = Committing" "wr_destination r = fst b" "wr_abandonment r = None"
                    "wr_final_bytes r = Some (int (length (snd f)))" "wr_final_sha r = Some (te_sha env (snd f))"
                    using Inr c by (auto simp: committing_receipt_def Let_def split: option.splits if_splits)
                qed
              qed
            qed
          qed
        qed
      qed
    qed
  qed
qed

section \<open>The machine of one transfer\<close>

text \<open>
  Operations of the transfer \<open>k\<close>, each of which may stop after any of its effects. The sender offers
  parts of \<open>src\<close>, and Control always names the full length. \<open>b\<close>, the binding read before the lock, is
  arbitrary: it may be stale. The destination of a transfer is no private name of a temporary file.
\<close>

inductive own_step :: "transfer_env \<Rightarrow> ustr \<Rightarrow> octets \<Rightarrow> host \<Rightarrow> host \<Rightarrow> bool" for env k src where
  begins: "\<not> private_path d \<Longrightarrow>
     own_step env k src s (interrupted n (begin_write_locked env now ino aged d ow ex k s) s)"
| writes: "\<not> private_path (fst b) \<Longrightarrow> 0 \<le> off \<Longrightarrow> nat off + length bytes \<le> length src \<Longrightarrow>
     bytes = take (length bytes) (drop (nat off) src) \<Longrightarrow>
     own_step env k src s (interrupted n (write_bytes_locked env k b off bytes sha s) s)"
| finishes: "\<not> private_path (fst b) \<Longrightarrow>
     own_step env k src s (interrupted n (finish_write_locked env now k b (Some (int (length src))) sha s) s)"
| aborts: "own_step env k src s (interrupted n (abort_write_locked limit k b s) s)"
| marks: "own_step env k src s (interrupted n (mark_peer_unclaimed env now k u s) s)"
| releases: "own_step env k src s (interrupted n (release_receipts env k s) s)"

text \<open>
  The host goes on besides: abandonment, the sweep of the scratch directory, and anything that leaves
  the temporary files of this transfer and their metadata alone.
\<close>

inductive xfer_step :: "transfer_env \<Rightarrow> ustr \<Rightarrow> octets \<Rightarrow> host \<Rightarrow> host \<Rightarrow> bool" for env k src where
  own: "own_step env k src s t \<Longrightarrow> xfer_step env k src s t"
| abandons: "xfer_step env k src s (interrupted n (abandon_final_write_receipt env now k discard s) s)"
| sweeps: "xfer_step env k src s (fst (perform (take n (prune_transfer_scratch env now swept s)) s))"
| others: "(\<And>d. node_at t (transfer_temp_path d k) = node_at s (transfer_temp_path d k) \<and>
       map_of (ho_metas t) (transfer_temp_path d k) = map_of (ho_metas s) (transfer_temp_path d k)) \<Longrightarrow>
     xfer_step env k src s t"

definition xfer_init :: "ustr \<Rightarrow> host \<Rightarrow> bool" where
  "xfer_init k s \<longleftrightarrow> (\<forall>d. map_of (ho_metas s) (transfer_temp_path d k) = None)"

lemma finish_keeps_inv:
  "xfer_inv k src s \<Longrightarrow> \<not> private_path (fst b) \<Longrightarrow>
   xfer_inv k src (interrupted n (finish_write_locked env now k b ex sha s) s)"
  by (rule benign_interrupted)
    (cases rule: finish_cases [where env = env and now = now and k = k and b = b and ex = ex and sha = sha and s = s];
     auto)

lemma own_inv:
  assumes "own_step env k src s t" and "xfer_inv k src s"
  shows "xfer_inv k src t"
  using assms
proof cases
  case (writes b off bytes n sha)
  then show ?thesis using assms(2) by (auto intro: write_keeps_inv)
next
  case (finishes b n now sha)
  then show ?thesis using assms(2) by (auto intro: finish_keeps_inv)
qed (auto intro!: benign_interrupted dest: begin_quiet abort_quiet mark_quiet release_quiet simp: quiet_def)

lemma xfer_step_inv:
  assumes "xfer_inv k src s" and "xfer_step env k src s t"
  shows "xfer_inv k src t"
  using assms(2)
proof cases
  case own
  then show ?thesis using assms(1) by (rule own_inv)
next
  case (abandons n now discard)
  then show ?thesis using assms(1) by (auto intro: benign_interrupted dest: abandon_benign)
next
  case (sweeps n now swept)
  then show ?thesis using assms(1) by (auto intro!: benign_inv dest: in_set_takeD prune_scratch_benign)
next
  case others
  show ?thesis
  proof (rule xfer_invI)
    fix d
    show "faithful_temp src t (transfer_temp_path d k)"
      using xfer_invD [OF assms(1), of d] faithful_cong [of t "transfer_temp_path d k" s src] others [of d] by simp
  qed
qed

interpretation transfers: invariant_machine "xfer_init k" "xfer_step env k src" "xfer_inv k src" for env k src
proof
  fix s assume "xfer_init k s"
  then show "xfer_inv k src s" by (auto simp: xfer_init_def faithful_temp_def intro: xfer_invI)
next
  fix s t assume "xfer_inv k src s" "xfer_step env k src s t"
  then show "xfer_inv k src t" by (rule xfer_step_inv)
qed

section \<open>Publication\<close>

lemma complete_temp_is_source:
  assumes "xfer_inv k src s" and "map_of (ho_metas s) (transfer_temp_path d k) = Some (Doc m)"
    and "node_at s (transfer_temp_path d k) = Some (FileNode (md_identity m) old)"
    and "md_size m = int (length old)" and "md_ranges m = (if length old = 0 then [] else [(0, int (length old))])"
    and "length old \<le> length src"
  shows "old = take (length old) src"
proof (rule nth_equalityI)
  have held: "holds_received src m old"
    using xfer_invD [OF assms(1), of d] assms(2-4) by (simp add: faithful_temp_def)
  show "length old = length (take (length old) src)" using assms(6) by simp
  fix i assume i: "i < length old"
  then have "int i \<in> covered (md_ranges m)" using assms(5) by (auto split: if_splits)
  with held have "old ! nat (int i) = src ! nat (int i)" unfolding holds_received_def by blast
  with i show "old ! i = take (length old) src ! i" by simp
qed

lemma finish_node:
  assumes "xfer_inv k src s" and "\<not> private_path p" and "\<not> private_path (fst b)"
  shows "node_at (interrupted n (finish_write_locked env now k b (Some (int (length src))) sha s) s) p = node_at s p \<or>
    p = fst b \<and> (\<exists>ino. node_at (interrupted n (finish_write_locked env now k b (Some (int (length src))) sha s) s) p =
      Some (FileNode ino src))"
proof (cases rule: finish_cases [where env = env and now = now and k = k and b = b and
      ex = "Some (int (length src))" and sha = sha and s = s])
  case refused
  then show ?thesis by (simp add: interrupted_def)
next
  case (committed m old r)
  let ?p = "transfer_temp_path (fst b) k"
  from committed(5) have len: "length old = length src" and ranges: "md_ranges m = (if length old = 0 then [] else [(0, int (length old))])"
    unfolding Let_def by (auto split: if_splits)
  with complete_temp_is_source [OF assms(1) committed(1-3) ranges] have old: "old = src" by simp
  have ne: "p \<noteq> ?p" using assms(2) by auto
  have "node_at (fst (perform (take n (fst (finish_write_locked env now k b (Some (int (length src))) sha s))) s)) p
      \<in> {node_at s p} \<union> (if p = fst b then {Some (FileNode (md_identity m) src)} else {})"
    unfolding committed(7) fst_conv
    using ne committed(2) old
    by (auto simp: take_Cons' split: option.split node.split list.split)
  then show ?thesis unfolding interrupted_def by (auto split: if_splits)
qed

lemma quiet_untouched:
  "(\<And>e. e \<in> set (fst P) \<Longrightarrow> quiet e) \<Longrightarrow> \<not> private_path p \<Longrightarrow> node_at (interrupted n P s) p = node_at s p"
  unfolding interrupted_def by (rule perform_untouched) (auto simp: quiet_def dest!: in_set_takeD)

lemma write_untouched:
  assumes "\<not> private_path p"
  shows "node_at (interrupted n (write_bytes_locked env k b off bytes sha s) s) p = node_at s p"
proof (cases rule: write_bytes_cases [where env = env and k = k and b = b and off = off and bytes = bytes and sha = sha and s = s])
  case refused
  then show ?thesis by (simp add: interrupted_def)
next
  case (written m m' old)
  show ?thesis
    unfolding interrupted_def
    by (rule perform_untouched) (use written(7) assms in \<open>auto dest!: in_set_takeD\<close>)
qed

text \<open>
  C34. A resumable write publishes nothing but the complete file: at every moment, whatever operation of
  the transfer died after whichever effect before, and however stale the receipt was that it had read,
  each path of the user holds what it held, or exactly the bytes of the source.
\<close>

theorem only_complete_files_published:
  assumes "reach (xfer_init k) (xfer_step env k src) s" and "own_step env k src s t" and "\<not> private_path p"
  shows "node_at t p = node_at s p \<or> (\<exists>ino. node_at t p = Some (FileNode ino src))"
  using assms(2)
proof cases
  case (writes b off bytes n sha)
  then show ?thesis using write_untouched [OF assms(3)] by simp
next
  case (finishes b n now sha)
  then show ?thesis
    using finish_node [OF transfers.reach_inv [OF assms(1)] assms(3)] by blast
next
  case (begins d n now ino aged ow ex)
  have "node_at t p = node_at s p"
    unfolding begins(1) by (rule quiet_untouched [OF _ assms(3)]) (rule begin_quiet)
  then show ?thesis ..
next
  case (aborts n limit b)
  have "node_at t p = node_at s p"
    unfolding aborts(1) by (rule quiet_untouched [OF _ assms(3)]) (rule abort_quiet)
  then show ?thesis ..
next
  case (marks n now u)
  have "node_at t p = node_at s p"
    unfolding marks(1) by (rule quiet_untouched [OF _ assms(3)]) (rule mark_quiet)
  then show ?thesis ..
next
  case (releases n)
  have "node_at t p = node_at s p"
    unfolding releases(1) by (rule quiet_untouched [OF _ assms(3)]) (rule release_quiet)
  then show ?thesis ..
qed

section \<open>Resuming\<close>

definition holds_prefix :: "host \<Rightarrow> path \<Rightarrow> octets \<Rightarrow> int \<Rightarrow> bool" where
  "holds_prefix s p src off \<longleftrightarrow>
     0 \<le> off \<and> nat off \<le> length src \<and> (\<exists>ino. node_at s p = Some (FileNode ino (take (nat off) src)))"

lemma contiguous_prefix:
  assumes "meta_ok m" and "holds_received src m bytes" and "md_size m \<le> int (length bytes)"
    and "md_ranges m = [] \<or> md_ranges m = [(0, off)]" and "off = (if md_ranges m = [] then 0 else snd (hd (md_ranges m)))"
  shows "md_size m = off" and "0 \<le> off" and "nat off \<le> length src" and "take (nat off) bytes = take (nat off) src"
proof -
  have all: "md_size m = off \<and> 0 \<le> off \<and> covered (md_ranges m) = {0..<off}"
  proof (cases "md_ranges m = []")
    case True
    with assms(1,5) show ?thesis by (simp add: meta_ok_def)
  next
    case False
    with assms(4) have one: "md_ranges m = [(0, off)]" by simp
    with assms(1) have "0 \<le> off" "{0..<off} \<subseteq> {0..<md_size m}" "md_size m = 0 \<or> md_size m - 1 \<in> {0..<off}"
      by (simp_all add: meta_ok_def)
    with one show ?thesis by (cases "off = 0") auto
  qed
  then show size: "md_size m = off" and nonneg: "0 \<le> off" by simp_all
  have held: "nat i < length src \<and> bytes ! nat i = src ! nat i" if "0 \<le> i" "i < off" for i
    using assms(2) all that by (auto simp: holds_received_def)
  show le: "nat off \<le> length src"
    using held [of "off - 1"] nonneg by (cases "off = 0") auto
  have "nat off \<le> length bytes" using size assms(3) by simp
  with le show "take (nat off) bytes = take (nat off) src"
    using held [of "int i" for i] by (intro nth_equalityI) auto
qed

lemma resume_prefix:
  assumes "xfer_inv k src s" and "complete (resume_temporary k r s) s = (t, Inr out)"
  shows "holds_prefix t (transfer_temp_path (wr_destination r) k) src (bo_offset out)"
proof -
  let ?p = "transfer_temp_path (wr_destination r) k"
  obtain m where meta: "read_transfer_metadata s ?p (wr_destination r) = Inr m"
    using assms(2) by (auto simp: resume_temporary_def Let_def complete_def split: sum.splits)
  obtain f where f: "open_transfer_for_update s ?p = Inr f"
    using assms(2) meta by (auto simp: resume_temporary_def Let_def complete_def split: sum.splits if_splits)
  obtain es where es: "recover_uncommitted_suffix ?p f m = (es, Inr ())"
    using assms(2) meta f
    by (cases "recover_uncommitted_suffix ?p f m"; cases "snd (recover_uncommitted_suffix ?p f m)")
      (auto simp: resume_temporary_def Let_def complete_def split: if_splits prod.splits)
  let ?off = "if md_ranges m = [] then 0 else snd (hd (md_ranges m))"
  have run: "perform es s = (t, True)" and off: "bo_offset out = ?off"
    and shape: "md_ranges m = [] \<or> md_ranges m = [(0, ?off)]"
    using assms(2) meta f es
    by (auto simp: resume_temporary_def Let_def complete_def received_ranges_def
        split: sum.splits if_splits prod.splits)
  have m: "map_of (ho_metas s) ?p = Some (Doc m)"
    using meta by (auto simp: read_transfer_metadata_def split: option.splits doc.splits if_splits)
  have node: "node_at s ?p = Some (FileNode (fst f) (snd f))"
    using f by (auto simp: open_transfer_for_update_def split: option.splits node.splits)
  have temp: "faithful_temp src s ?p" using assms(1) by (rule xfer_invD)
  have id: "fst f = md_identity m" and le: "md_size m \<le> int (length (snd f))"
    and es': "es = (if md_size m = int (length (snd f)) then [] else [Truncate ?p (nat (md_size m))])"
    using es by (auto simp: recover_uncommitted_suffix_def Let_def split: if_splits sum.splits)
  from temp m node id le have ok: "meta_ok m" "holds_received src m (snd f)"
    by (simp_all add: faithful_temp_def)
  have shape': "md_ranges m = [] \<or> md_ranges m = [(0, bo_offset out)]" using shape off by simp
  note prefix = contiguous_prefix [OF ok le shape' off]
  have "node_at t ?p = Some (FileNode (fst f) (take (nat (md_size m)) (snd f)))"
    using run es' node le by (auto split: if_splits)
  with prefix show ?thesis by (auto simp: holds_prefix_def)
qed

lemma fresh_prefix:
  assumes "complete (fresh_temporary ino e k r) s = (t, Inr out)"
  shows "holds_prefix t (transfer_temp_path (wr_destination r) k) src (bo_offset out)"
  using assms by (auto simp: fresh_temporary_def complete_def Let_def holds_prefix_def split: if_splits)

lemma begin_receiving_prefix:
  assumes "xfer_inv k src s" and "complete (begin_receiving now ino d ow ex k found s) s = (t, Inr out)"
    and "\<And>r. found = Some r \<Longrightarrow> wr_destination r = d"
  shows "holds_prefix t (transfer_temp_path d k) src (bo_offset out)"
proof -
  let ?P = "claim_receipt k found (new_write_receipt now d ow ex (lexists s d))"
  obtain u r where start: "complete ?P s = (u, Inr r)"
    and rest: "complete (if path_exists u (transfer_temp_path d k) then resume_temporary k r u
                         else fresh_temporary ino (lexists s d) k r) u = (t, Inr out)"
  proof (cases "lexists s d \<and> (real_dir s d \<or> \<not> ow)")
    case True
    with assms(2) show ?thesis by (simp add: begin_receiving_def complete_def)
  next
    case False
    with assms(2) show ?thesis
      by (simp add: begin_receiving_def complete_chain Let_def split: prod.splits sum.splits) (metis that)
  qed
  have d: "wr_destination r = d"
    using start assms(3) by (auto simp: complete_def claim_receipt_def new_write_receipt_def split: option.splits if_splits)
  have "xfer_inv k src (fst (perform (fst ?P) s))"
    by (rule benign_inv [OF _ assms(1)]) (auto simp: claim_receipt_def split: option.splits if_splits)
  moreover have "u = fst (perform (fst ?P) s)" using start by (auto simp: complete_def split: prod.splits)
  ultimately have inv: "xfer_inv k src u" by simp
  show ?thesis
  proof (cases "path_exists u (transfer_temp_path d k)")
    case True
    with rest have "complete (resume_temporary k r u) u = (t, Inr out)" by simp
    from resume_prefix [OF inv this] d show ?thesis by simp
  next
    case False
    with rest have "complete (fresh_temporary ino (lexists s d) k r) u = (t, Inr out)" by simp
    from fresh_prefix [OF this] d show ?thesis by simp
  qed
qed

text \<open>
  C35. A resumed write continues where the received bytes end: when beginning a write reports an offset,
  the temporary file holds exactly that many first bytes of the source, also after operations of the
  transfer died between writing data and recording it.
\<close>

theorem resume_offset_is_received:
  assumes "reach (xfer_init k) (xfer_step env k src) s"
    and "complete (begin_write_locked env now ino aged d ow ex k s) s = (t, Inr out)" and "\<not> bo_completed out"
  shows "holds_prefix t (transfer_temp_path d k) src (bo_offset out)"
proof -
  have inv: "xfer_inv k src s" using assms(1) by (rule transfers.reach_inv)
  show ?thesis
  proof (cases "current_receipt k s")
    case (Inl e)
    then show ?thesis using assms(2) by (simp add: begin_write_locked_def complete_def)
  next
    case (Inr found)
    show ?thesis
    proof (cases found)
      case None
      let ?es = "prune_stale_destination env aged d s"
      have "xfer_inv k src (fst (perform ?es s))"
        by (rule benign_inv [OF _ inv]) (auto dest: prune_stale_quiet simp: quiet_def)
      moreover obtain u where "fst (perform ?es s) = u"
        and "complete (begin_receiving now ino d ow ex k None u) u = (t, Inr out)"
        using assms(2) Inr None
        by (auto simp: begin_write_locked_def complete_chain) (auto simp: complete_def split: prod.splits if_splits)
      ultimately show ?thesis by (auto intro: begin_receiving_prefix)
    next
      case (Some r)
      have d: "wr_destination r = d"
        using assms(2) Inr Some by (auto simp: begin_write_locked_def complete_def split: if_splits)
      have "bo_completed out" if "complete (begin_committed env now k r s) s = (t, Inr out)"
        using that by (auto simp: begin_committed_def complete_def Let_def split: sum.splits prod.splits if_splits)
      then have "complete (begin_receiving now ino d ow ex k (Some r) s) s = (t, Inr out)"
        using assms(2,3) Inr Some d
        by (auto simp: begin_write_locked_def split: if_splits) (auto simp: complete_def)
      then show ?thesis by (rule begin_receiving_prefix [OF inv]) (use d in simp)
    qed
  qed
qed

section \<open>Witnesses\<close>

lemma private_name_length: "private_path p \<Longrightarrow> 22 < length (snd p)"
  by (auto simp: private_path_def transfer_temp_path_def transfer_tmp_marker_def)

definition xfer_demo_env :: transfer_env where
  "xfer_demo_env = \<lparr>te_alnum = (\<lambda>_. False), te_given = (\<lambda>_. Inr (lit ''/w'', lit ''a'')), te_bound = Inr,
     te_scratch = Inr, te_in_scratch = (\<lambda>_. False), te_sha = (\<lambda>bytes. replicate 64 (48 + length bytes mod 10))\<rparr>"

definition xfer_demo_dest :: path where
  "xfer_demo_dest = (lit ''/w'', lit ''a'')"

definition xfer_demo_id :: ustr where
  "xfer_demo_id = lit ''t1''"

definition xfer_demo_temp :: path where
  "xfer_demo_temp = transfer_temp_path xfer_demo_dest xfer_demo_id"

lemma xfer_demo_user: "\<not> private_path xfer_demo_dest"
  using private_name_length [of xfer_demo_dest] by (auto simp: xfer_demo_dest_def)

lemma xfer_demo_distinct: "xfer_demo_dest \<noteq> xfer_demo_temp" "xfer_demo_temp \<noteq> xfer_demo_dest"
  using xfer_demo_user private_temp unfolding xfer_demo_temp_def by metis+

lemma xfer_demo_fold: "transfer_temp_path xfer_demo_dest xfer_demo_id = xfer_demo_temp"
  by (simp add: xfer_demo_temp_def)

definition xfer_demo_meta :: "(int \<times> int) list \<Rightarrow> int \<Rightarrow> transfer_meta" where
  "xfer_demo_meta rs n = \<lparr>md_destination = xfer_demo_dest, md_overwrite = True, md_expected = Some 3,
     md_ranges = rs, md_existed = False, md_identity = 7, md_size = n\<rparr>"

definition xfer_demo_receipt :: write_receipt where
  "xfer_demo_receipt = new_write_receipt 5 xfer_demo_dest True (Some 3) False"

definition xfer_demo_host :: "octets \<Rightarrow> (int \<times> int) list \<Rightarrow> int \<Rightarrow> host" where
  "xfer_demo_host bytes rs n = \<lparr>ho_nodes = [(xfer_demo_temp, FileNode 7 bytes)],
     ho_metas = [(xfer_demo_temp, Doc (xfer_demo_meta rs n))],
     ho_writes = [(xfer_demo_id, Doc xfer_demo_receipt)], ho_unpacks = []\<rparr>"

definition xfer_demo_empty :: host where
  "xfer_demo_empty = \<lparr>ho_nodes = [], ho_metas = [], ho_writes = [], ho_unpacks = []\<rparr>"

lemma xfer_demo_receipt_ok: "write_receipt_ok xfer_demo_receipt"
  by (simp add: write_receipt_ok_def xfer_demo_receipt_def new_write_receipt_def receipt_path_ok_def path_str_def
      xfer_demo_dest_def)

lemma xfer_demo_receipt_fields:
  "wr_destination xfer_demo_receipt = xfer_demo_dest" "wr_overwrite xfer_demo_receipt = True"
  "wr_expected xfer_demo_receipt = Some 3" "wr_status xfer_demo_receipt = Receiving"
  "wr_abandonment xfer_demo_receipt = None" "wr_existed xfer_demo_receipt = False"
  by (simp_all add: xfer_demo_receipt_def new_write_receipt_def)

definition xfer_demo_reply :: "int \<Rightarrow> bool \<Rightarrow> begin_output" where
  "xfer_demo_reply off resumed = \<lparr>bo_path = xfer_demo_dest, bo_temp_path = xfer_demo_temp, bo_transfer_id = xfer_demo_id,
     bo_created = True, bo_expected = Some 3, bo_offset = off, bo_resumed = resumed, bo_completed = False, bo_sha = None\<rparr>"

lemma xfer_demo_begin:
  "complete (begin_write_locked xfer_demo_env 5 7 (\<lambda>_. False) xfer_demo_dest True (Some 3) xfer_demo_id xfer_demo_empty)
     xfer_demo_empty = (xfer_demo_host [] [] 0, Inr (xfer_demo_reply 0 False))"
proof -
  have "current_receipt xfer_demo_id xfer_demo_empty = Inr None"
    "prune_stale_destination xfer_demo_env (\<lambda>_. False) xfer_demo_dest xfer_demo_empty = []"
    "lexists xfer_demo_empty xfer_demo_dest = False"
    by (simp_all add: current_receipt_def prune_stale_destination_def xfer_demo_empty_def lexists_def node_at_def)
  then show ?thesis
    by (simp add: begin_write_locked_def begin_receiving_def claim_receipt_def xfer_demo_receipt_ok
        xfer_demo_receipt_def [symmetric] chain_def path_exists_def fresh_temporary_def
        xfer_demo_fold xfer_demo_receipt_fields complete_def)
       (simp add: xfer_demo_empty_def node_at_def lexists_def xfer_demo_reply_def xfer_demo_host_def xfer_demo_meta_def
        set_node_def)
qed

lemma xfer_demo_node: "node_at (xfer_demo_host bytes rs n) xfer_demo_temp = Some (FileNode 7 bytes)"
  by (simp add: xfer_demo_host_def node_at_def)

lemma xfer_demo_read: "read_transfer_metadata (xfer_demo_host bytes rs n) xfer_demo_temp xfer_demo_dest = Inr (xfer_demo_meta rs n)"
  by (simp add: xfer_demo_host_def read_transfer_metadata_def xfer_demo_meta_def)

lemma xfer_demo_write:
  "write_bytes_locked xfer_demo_env xfer_demo_id (xfer_demo_dest, None) 0 [1, 2] None (xfer_demo_host [] [] 0) =
     ([WriteAt xfer_demo_temp 0 [1, 2], PutMeta xfer_demo_temp (xfer_demo_meta [(0, 2)] 2)], Inr 2)"
  "write_bytes_locked xfer_demo_env xfer_demo_id (xfer_demo_dest, None) 2 [3] None (xfer_demo_host [1, 2] [(0, 2)] 2) =
     ([WriteAt xfer_demo_temp 2 [3], PutMeta xfer_demo_temp (xfer_demo_meta [(0, 3)] 3)], Inr 1)"
  by (simp_all add: write_bytes_locked_def accepts_data_def digest_mismatch_def path_exists_def xfer_demo_fold
      xfer_demo_node xfer_demo_read Let_def)
     (simp_all add: xfer_demo_meta_def xfer_demo_fold open_transfer_for_update_def xfer_demo_node record_received_range_def received_ranges_def merge_range_def
      validate_transfer_identity_def write_at_def less_eq_prod_def)

text \<open>Two bytes are received; the third is written, and the process dies before recording it.\<close>

abbreviation xfer_demo_reach :: "host \<Rightarrow> bool" where
  "xfer_demo_reach \<equiv> reach (xfer_init xfer_demo_id) (xfer_step xfer_demo_env xfer_demo_id [1, 2, 3])"

lemma xfer_demo_torn: "xfer_demo_reach (xfer_demo_host [1, 2, 3] [(0, 2)] 2)"
proof -
  let ?s0 = "xfer_demo_empty" and ?s1 = "xfer_demo_host [] [] 0" and ?s2 = "xfer_demo_host [1, 2] [(0, 2)] 2"
    and ?s3 = "xfer_demo_host [1, 2, 3] [(0, 2)] 2"
  have "xfer_demo_reach ?s0" by (rule reach_init) (simp add: xfer_init_def xfer_demo_empty_def)
  moreover have "xfer_step xfer_demo_env xfer_demo_id [1, 2, 3] ?s0 ?s1"
  proof (rule xfer_step.own)
    let ?P = "begin_write_locked xfer_demo_env 5 7 (\<lambda>_. False) xfer_demo_dest True (Some 3) xfer_demo_id ?s0"
    have "interrupted (length (fst ?P)) ?P ?s0 = ?s1"
      using xfer_demo_begin by (simp add: interrupted_def complete_def split: prod.splits)
    then show "own_step xfer_demo_env xfer_demo_id [1, 2, 3] ?s0 ?s1"
      using own_step.begins [OF xfer_demo_user] by metis
  qed
  moreover have "xfer_step xfer_demo_env xfer_demo_id [1, 2, 3] ?s1 ?s2"
  proof (rule xfer_step.own)
    have "interrupted 2 (write_bytes_locked xfer_demo_env xfer_demo_id (xfer_demo_dest, None) 0 [1, 2] None ?s1) ?s1 = ?s2"
      by (simp add: xfer_demo_write interrupted_def xfer_demo_node)
         (simp add: write_at_def xfer_demo_host_def set_node_def)
    then show "own_step xfer_demo_env xfer_demo_id [1, 2, 3] ?s1 ?s2"
      using own_step.writes [of "(xfer_demo_dest, None)" 0 "[1, 2]" "[1, 2, 3]" xfer_demo_env xfer_demo_id ?s1 2 None]
        xfer_demo_user by simp
  qed
  moreover have "xfer_step xfer_demo_env xfer_demo_id [1, 2, 3] ?s2 ?s3"
  proof (rule xfer_step.own)
    have "interrupted 1 (write_bytes_locked xfer_demo_env xfer_demo_id (xfer_demo_dest, None) 2 [3] None ?s2) ?s2 = ?s3"
      by (simp add: xfer_demo_write interrupted_def xfer_demo_node)
         (simp add: write_at_def xfer_demo_host_def set_node_def)
    then show "own_step xfer_demo_env xfer_demo_id [1, 2, 3] ?s2 ?s3"
      using own_step.writes [of "(xfer_demo_dest, None)" 2 "[3]" "[1, 2, 3]" xfer_demo_env xfer_demo_id ?s2 1 None]
        xfer_demo_user by simp
  qed
  ultimately show ?thesis by (blast intro: reach_step)
qed

lemma xfer_demo_resume:
  "complete (begin_write_locked xfer_demo_env 6 8 (\<lambda>_. False) xfer_demo_dest True (Some 3) xfer_demo_id
     (xfer_demo_host [1, 2, 3] [(0, 2)] 2)) (xfer_demo_host [1, 2, 3] [(0, 2)] 2) =
   (xfer_demo_host [1, 2] [(0, 2)] 2, Inr (xfer_demo_reply 2 True))"
proof -
  let ?s = "xfer_demo_host [1, 2, 3] [(0, 2)] 2"
  have receipt: "current_receipt xfer_demo_id ?s = Inr (Some xfer_demo_receipt)"
    by (simp add: current_receipt_def xfer_demo_host_def load_write_receipt_def xfer_demo_receipt_ok)
  have dest: "lexists ?s xfer_demo_dest = False"
    by (simp add: lexists_def node_at_def xfer_demo_host_def xfer_demo_distinct)
  have recover: "recover_uncommitted_suffix xfer_demo_temp (7, [1, 2, 3]) (xfer_demo_meta [(0, 2)] 2) =
      ([Truncate xfer_demo_temp 2], Inr ())"
    by (simp add: recover_uncommitted_suffix_def xfer_demo_meta_def received_ranges_def Let_def)
  have cut: "perform [Truncate xfer_demo_temp 2] ?s = (xfer_demo_host [1, 2] [(0, 2)] 2, True)"
    by (simp add: xfer_demo_node) (simp add: xfer_demo_host_def set_node_def)
  show ?thesis
    by (simp add: begin_write_locked_def begin_receiving_def claim_receipt_def chain_def receipt dest
        xfer_demo_receipt_fields xfer_demo_fold path_exists_def xfer_demo_node resume_temporary_def xfer_demo_read
        open_transfer_for_update_def recover Let_def)
       (simp add: xfer_demo_meta_def received_ranges_def complete_def cut xfer_demo_reply_def
        xfer_demo_fold xfer_demo_receipt_fields del: perform.simps)
qed

theorem resume_offset_is_received_witness:
  "holds_prefix (xfer_demo_host [1, 2] [(0, 2)] 2) xfer_demo_temp [1, 2, 3] 2"
  using resume_offset_is_received [OF xfer_demo_torn xfer_demo_resume]
  by (simp add: xfer_demo_reply_def xfer_demo_fold)

text \<open>All three bytes are received; finishing dies right after the rename.\<close>

definition xfer_demo_finish :: "finish_output plan" where
  "xfer_demo_finish = finish_write_locked xfer_demo_env 9 xfer_demo_id (xfer_demo_dest, None) (Some 3) None
     (xfer_demo_host [1, 2, 3] [(0, 3)] 3)"

lemma xfer_demo_full: "xfer_demo_reach (xfer_demo_host [1, 2, 3] [(0, 3)] 3)"
proof -
  let ?s2 = "xfer_demo_host [1, 2] [(0, 2)] 2" and ?s3 = "xfer_demo_host [1, 2, 3] [(0, 3)] 3"
  let ?torn = "xfer_demo_host [1, 2, 3] [(0, 2)] 2"
  have "xfer_step xfer_demo_env xfer_demo_id [1, 2, 3] ?torn ?s2"
  proof (rule xfer_step.own)
    let ?P = "begin_write_locked xfer_demo_env 6 8 (\<lambda>_. False) xfer_demo_dest True (Some 3) xfer_demo_id ?torn"
    have "interrupted (length (fst ?P)) ?P ?torn = ?s2"
      using xfer_demo_resume by (simp add: interrupted_def complete_def split: prod.splits)
    then show "own_step xfer_demo_env xfer_demo_id [1, 2, 3] ?torn ?s2"
      using own_step.begins [OF xfer_demo_user] by metis
  qed
  moreover have "xfer_step xfer_demo_env xfer_demo_id [1, 2, 3] ?s2 ?s3"
  proof (rule xfer_step.own)
    have "interrupted 2 (write_bytes_locked xfer_demo_env xfer_demo_id (xfer_demo_dest, None) 2 [3] None ?s2) ?s2 = ?s3"
      by (simp add: xfer_demo_write interrupted_def xfer_demo_node)
         (simp add: write_at_def xfer_demo_host_def set_node_def)
    then show "own_step xfer_demo_env xfer_demo_id [1, 2, 3] ?s2 ?s3"
      using own_step.writes [of "(xfer_demo_dest, None)" 2 "[3]" "[1, 2, 3]" xfer_demo_env xfer_demo_id ?s2 2 None]
        xfer_demo_user by simp
  qed
  ultimately show ?thesis using xfer_demo_torn by (blast intro: reach_step)
qed

lemma xfer_demo_finish_effects:
  "\<exists>r fs. fst xfer_demo_finish = PutWrite xfer_demo_id r # Rename xfer_demo_temp xfer_demo_dest # fs"
proof -
  let ?s = "xfer_demo_host [1, 2, 3] [(0, 3)] 3"
  have receipt: "current_receipt xfer_demo_id ?s = Inr (Some xfer_demo_receipt)"
    by (simp add: current_receipt_def xfer_demo_host_def load_write_receipt_def xfer_demo_receipt_ok)
  have check: "check_complete xfer_demo_env (Some 3) None (xfer_demo_meta [(0, 3)] 3) (7, [1, 2, 3]) =
      Inr (3, te_sha xfer_demo_env [1, 2, 3])"
    by (simp add: check_complete_def Let_def validate_transfer_identity_def xfer_demo_meta_def received_ranges_def
        digest_mismatch_def)
  have guards: "path_exists ?s xfer_demo_temp" "md_overwrite (xfer_demo_meta [(0, 3)] 3)"
    "\<not> sizes_differ (md_expected (xfer_demo_meta [(0, 3)] 3)) (Some 3)"
    "open_transfer_for_update ?s xfer_demo_temp = Inr (7, [1, 2, 3])"
    by (simp_all add: path_exists_def xfer_demo_node xfer_demo_meta_def sizes_differ_def open_transfer_for_update_def)
  obtain r where "committing_receipt 9 xfer_demo_dest (xfer_demo_meta [(0, 3)] 3) 3 (te_sha xfer_demo_env [1, 2, 3])
      (Some xfer_demo_receipt) = Inr r"
    by (simp add: committing_receipt_def xfer_demo_receipt_fields xfer_demo_meta_def)
  with receipt check guards show ?thesis
    by (simp add: xfer_demo_finish_def finish_write_locked_def xfer_demo_fold xfer_demo_read)
qed

theorem only_complete_files_published_witness:
  "node_at (xfer_demo_host [1, 2, 3] [(0, 3)] 3) xfer_demo_dest = None \<and>
   (\<exists>ino. node_at (interrupted 2 xfer_demo_finish (xfer_demo_host [1, 2, 3] [(0, 3)] 3)) xfer_demo_dest =
      Some (FileNode ino [1, 2, 3]))"
proof -
  let ?s = "xfer_demo_host [1, 2, 3] [(0, 3)] 3"
  have none: "node_at ?s xfer_demo_dest = None"
    by (simp add: node_at_def xfer_demo_host_def xfer_demo_distinct)
  have some: "node_at (interrupted 2 xfer_demo_finish ?s) xfer_demo_dest \<noteq> None"
    using xfer_demo_finish_effects none xfer_demo_node [of "[1, 2, 3]"] by (auto simp: interrupted_def)
  have "own_step xfer_demo_env xfer_demo_id [1, 2, 3] ?s (interrupted 2 xfer_demo_finish ?s)"
    using own_step.finishes [of "(xfer_demo_dest, None)" xfer_demo_env xfer_demo_id "[1, 2, 3]" ?s 2 9 None] xfer_demo_user
    by (simp add: xfer_demo_finish_def)
  from only_complete_files_published [OF xfer_demo_full this xfer_demo_user] none some show ?thesis by simp
qed

end
