(* ===== verification/Transfer_Unpack.thy ===== *)
theory Transfer_Unpack
  imports Transfer_Writes
begin

text \<open>
  Publication of a directory from an archive, \<open>src/src/workgate/executor/transfer.py\<close>: extraction into a
  staging directory, replacement of the destination through a backup, both recorded in a durable
  receipt, and the reconciliation of an abandoned import.

  \<open>unpack_env\<close> adds how archive paths resolve, what \<open>tarfile\<close> reads from an archive (or the error it
  raises) and the configured limits. Modes of files are not modelled; the host follows POSIX paths.
  \<open>stuck\<close> gives the text of the error when the removal of a path fails in the final cleanup.
\<close>

datatype member_kind = MemberFile | MemberDir | MemberLink | MemberDevice | MemberOther

record archive_member =
  am_name :: ustr
  am_kind :: member_kind
  am_sparse :: bool
  am_size :: int
  am_data :: octets

record unpack_env = transfer_env +
  ue_archive :: "ustr \<Rightarrow> exn + path"
  ue_archive_bound :: "path \<Rightarrow> exn + path"
  ue_tar :: "octets \<Rightarrow> exn + archive_member list"
  ue_max_entries :: int
  ue_max_bytes :: int

section \<open>Members of an archive\<close>

fun split_slash :: "ustr \<Rightarrow> ustr \<Rightarrow> ustr list" where
  "split_slash acc [] = [rev acc]"
| "split_slash acc (c # cs) = (if c = 47 then rev acc # split_slash [] cs else split_slash (c # acc) cs)"

text \<open>\<open>Path(name).parts\<close> of a relative name\<close>

definition path_parts :: "ustr \<Rightarrow> ustr list" where
  "path_parts name = filter (\<lambda>p. p \<noteq> [] \<and> p \<noteq> [46]) (split_slash [] name)"

fun safe_members_from ::
  "unpack_env \<Rightarrow> ustr list list \<Rightarrow> int \<Rightarrow> int \<Rightarrow> archive_member list \<Rightarrow> exn + unit" where
  "safe_members_from env seen amount n [] = Inr ()"
| "safe_members_from env seen amount n (m # ms) =
     (let parts = path_parts (am_name m);
          amount = (if am_kind m = MemberFile then amount + max 0 (am_size m) else amount)
      in if max 1 (ue_max_entries env) \<le> n then Inl ValueError
         else if starts_with [47] (am_name m) \<or> [46, 46] \<in> set parts then Inl ValueError
         else if am_kind m = MemberLink \<or> am_kind m = MemberDevice then Inl ValueError
         else if am_sparse m then Inl ValueError
         else if parts \<in> set seen then Inl ValueError
         else if am_kind m = MemberFile \<and> max 1 (ue_max_bytes env) < amount then Inl ValueError
         else safe_members_from env (parts # seen) amount (n + 1) ms)"

definition safe_members :: "unpack_env \<Rightarrow> octets \<Rightarrow> exn + archive_member list" where
  "safe_members env bytes =
     (case ue_tar env bytes of
        Inl e \<Rightarrow> Inl e
      | Inr ms \<Rightarrow> (case safe_members_from env [] 0 0 ms of Inl e \<Rightarrow> Inl e | Inr _ \<Rightarrow> Inr ms))"

fun entry_parts :: "entry \<Rightarrow> ustr list" where
  "entry_parts (EntryFile p _) = p"
| "entry_parts (EntryDir p) = p"

definition file_above :: "entry list \<Rightarrow> ustr list \<Rightarrow> bool" where
  "file_above es p \<longleftrightarrow>
     list_ex (\<lambda>e. case e of EntryFile q _ \<Rightarrow> take (length q) p = q | EntryDir _ \<Rightarrow> False) es"

definition occupied :: "entry list \<Rightarrow> ustr list \<Rightarrow> bool" where
  "occupied es p \<longleftrightarrow> p = [] \<or> list_ex (\<lambda>e. take (length p) (entry_parts e) = p) es"

definition place_member :: "entry list \<Rightarrow> archive_member \<Rightarrow> exn + entry" where
  "place_member es m =
     (let p = path_parts (am_name m) in
      case am_kind m of
        MemberDir \<Rightarrow> if file_above es p then Inl OSError else Inr (EntryDir p)
      | MemberFile \<Rightarrow> if file_above es p \<or> occupied es p then Inl OSError else Inr (EntryFile p (am_data m))
      | _ \<Rightarrow> Inl ValueError)"

fun extract_members :: "path \<Rightarrow> entry list \<Rightarrow> archive_member list \<Rightarrow> unit plan" where
  "extract_members staging es [] = ([], Inr ())"
| "extract_members staging es (m # ms) =
     (case place_member es m of
        Inl e \<Rightarrow> ([], Inl e)
      | Inr x \<Rightarrow> (case extract_members staging (es @ [x]) ms of (fs, r) \<Rightarrow> (FillDir staging x # fs, r)))"

section \<open>Publishing a directory\<close>

definition unpack_staging :: "path \<Rightarrow> ustr \<Rightarrow> path" where
  "unpack_staging d k = (fst d, [46] @ snd d @ lit ''.unpack-'' @ k)"

definition unpack_backup :: "path \<Rightarrow> ustr \<Rightarrow> path" where
  "unpack_backup d k = (fst d, [46] @ snd d @ lit ''.backup-'' @ k)"

definition is_file :: "host \<Rightarrow> path \<Rightarrow> bool" where
  "is_file s p \<longleftrightarrow> (case node_at s p of Some (FileNode _ _) \<Rightarrow> True | _ \<Rightarrow> False)"

definition file_bytes :: "host \<Rightarrow> path \<Rightarrow> octets" where
  "file_bytes s p = (case node_at s p of Some (FileNode _ bytes) \<Rightarrow> bytes | _ \<Rightarrow> [])"

text \<open>\<open>shutil.rmtree(p, ignore_errors=True)\<close>\<close>

definition remove_tree_quietly :: "host \<Rightarrow> path \<Rightarrow> effect list" where
  "remove_tree_quietly s p = (if real_dir s p then [RemoveTree p] else [])"

definition read_unpack_receipt ::
  "unpack_receipt doc \<Rightarrow> path \<Rightarrow> path \<Rightarrow> bool \<Rightarrow> bool \<Rightarrow> exn + unpack_receipt" where
  "read_unpack_receipt c destination archive overwrite cleanup =
     (case load_unpack_receipt c of
        Inl e \<Rightarrow> Inl e
      | Inr r \<Rightarrow>
          if ur_destination r \<noteq> destination \<or> ur_archive r \<noteq> archive \<or> ur_overwrite r \<noteq> overwrite \<or>
            ur_cleanup_archive r \<noteq> cleanup then Inl ValueError else Inr r)"

definition new_unpack_receipt :: "time \<Rightarrow> path \<Rightarrow> path \<Rightarrow> bool \<Rightarrow> bool \<Rightarrow> int \<Rightarrow> bool \<Rightarrow> unpack_receipt" where
  "new_unpack_receipt now destination archive overwrite cleanup entries existed =
     \<lparr>ur_destination = destination, ur_archive = archive, ur_overwrite = overwrite, ur_cleanup_archive = cleanup,
      ur_entries = entries, ur_existed = existed, ur_status = Extracting, ur_abandonment = None,
      ur_created_at = now, ur_committed_at = None, ur_backup_deleted = None, ur_archive_deleted = None,
      ur_cleanup_errors = [], ur_updated_at = None\<rparr>"

definition open_unpack ::
  "unpack_env \<Rightarrow> time \<Rightarrow> ustr \<Rightarrow> path \<Rightarrow> path \<Rightarrow> bool \<Rightarrow> bool \<Rightarrow> host \<Rightarrow> unpack_receipt plan" where
  "open_unpack env now k destination archive overwrite cleanup s =
     (case map_of (ho_unpacks s) k of
        Some c \<Rightarrow> ([], read_unpack_receipt c destination archive overwrite cleanup)
      | None \<Rightarrow>
          let es = remove_tree_quietly s (unpack_staging destination k); existed = lexists s destination in
          if lexists s (unpack_backup destination k) then (es, Inl RuntimeError)
          else if \<not> is_file s archive then (es, Inl OSError)
          else if existed \<and> \<not> overwrite \<and> \<not> empty_dir s destination then (es, Inl OSError)
          else case safe_members env (file_bytes s archive) of
                 Inl e \<Rightarrow> (es, Inl e)
               | Inr ms \<Rightarrow>
                   let r = new_unpack_receipt now destination archive overwrite cleanup (int (length ms)) existed
                   in (es @ [PutUnpack k r], Inr r))"

definition put_status :: "ustr \<Rightarrow> unpack_receipt \<Rightarrow> unpack_receipt plan" where
  "put_status k r = ([PutUnpack k r], Inr r)"

definition extracting_topology :: "unpack_receipt \<Rightarrow> path \<Rightarrow> path \<Rightarrow> host \<Rightarrow> bool" where
  "extracting_topology r destination backup s \<longleftrightarrow>
     \<not> lexists s backup \<and> (lexists s destination \<longleftrightarrow> ur_existed r)"

text \<open>The tail of a plan that removes the staging directory when extraction fails.\<close>

definition extract_archive :: "unpack_env \<Rightarrow> unpack_receipt \<Rightarrow> path \<Rightarrow> host \<Rightarrow> unit plan" where
  "extract_archive env r staging s =
     (case (case safe_members env (file_bytes s (ur_archive r)) of
              Inl e \<Rightarrow> ([], Inl e)
            | Inr ms \<Rightarrow> if int (length ms) \<noteq> ur_entries r then ([], Inl RuntimeError)
                       else extract_members staging [] ms) of
        (es, Inl e) \<Rightarrow> (es @ [RemoveTree staging], Inl e)
      | (es, Inr _) \<Rightarrow> (es, Inr ()))"

definition stage_extract :: "unpack_env \<Rightarrow> time \<Rightarrow> ustr \<Rightarrow> unpack_receipt \<Rightarrow> host \<Rightarrow> unpack_receipt plan" where
  "stage_extract env now k r s =
     (let destination = ur_destination r; staging = unpack_staging destination k in
      if ur_status r \<noteq> Extracting then ([], Inr r)
      else if \<not> extracting_topology r destination (unpack_backup destination k) s then ([], Inl RuntimeError)
      else if \<not> is_file s (ur_archive r) then ([], Inl OSError)
      else case extract_archive env r staging s of
             (es, Inl e) \<Rightarrow> (remove_tree_quietly s staging @ [MakeDir staging] @ es, Inl e)
           | (es, Inr _) \<Rightarrow>
               let r' = r\<lparr>ur_status := Prepared, ur_updated_at := Some now\<rparr>
               in (remove_tree_quietly s staging @ [MakeDir staging] @ es @ [PutUnpack k r'], Inr r'))"

definition stage_backup :: "ustr \<Rightarrow> unpack_receipt \<Rightarrow> host \<Rightarrow> unpack_receipt plan" where
  "stage_backup k r s =
     (let destination = ur_destination r; backup = unpack_backup destination k in
      if ur_status r \<noteq> Prepared then ([], Inr r)
      else if \<not> path_exists s (unpack_staging destination k) then ([], Inl RuntimeError)
      else if \<not> ur_existed r then (if lexists s destination then ([], Inl RuntimeError) else ([], Inr r))
      else if lexists s backup \<longleftrightarrow> lexists s destination then ([], Inl RuntimeError)
      else let r' = r\<lparr>ur_status := BackupMoved\<rparr>
           in ((if lexists s backup then [] else [Rename destination backup]) @ [PutUnpack k r'], Inr r'))"

definition stage_announce :: "ustr \<Rightarrow> unpack_receipt \<Rightarrow> host \<Rightarrow> unpack_receipt plan" where
  "stage_announce k r s =
     (let destination = ur_destination r in
      if ur_status r = BackupMoved \<and>
        (\<not> ur_existed r \<or> \<not> path_exists s (unpack_staging destination k) \<or>
         \<not> lexists s (unpack_backup destination k) \<or> lexists s destination) then ([], Inl RuntimeError)
      else if ur_status r = Prepared \<or> ur_status r = BackupMoved
      then put_status k (r\<lparr>ur_status := Publishing\<rparr>) else ([], Inr r))"

definition stage_publish :: "time \<Rightarrow> ustr \<Rightarrow> unpack_receipt \<Rightarrow> host \<Rightarrow> unpack_receipt plan" where
  "stage_publish now k r s =
     (let destination = ur_destination r; staging = unpack_staging destination k;
          backup = unpack_backup destination k;
          r' = r\<lparr>ur_status := Unpacked, ur_committed_at := Some now\<rparr>
      in if ur_status r \<noteq> Publishing then ([], Inr r)
         else if path_exists s staging
         then (if lexists s destination \<or> ur_existed r \<and> \<not> lexists s backup then ([], Inl RuntimeError)
               else ([Rename staging destination, PutUnpack k r'], Inr r'))
         else if \<not> lexists s destination \<or> ur_existed r \<and> \<not> lexists s backup then ([], Inl RuntimeError)
         else put_status k r')"

record unpack_output =
  uo_path :: path
  uo_entries :: int
  uo_archive_deleted :: bool
  uo_backup_deleted :: bool
  uo_cleanup_errors :: "ustr list"

definition remove_existing_path :: "host \<Rightarrow> path \<Rightarrow> effect list" where
  "remove_existing_path s p = (if real_dir s p then [RemoveTree p] else [Unlink p])"

definition stage_confirm ::
  "(path \<Rightarrow> ustr option) \<Rightarrow> time \<Rightarrow> ustr \<Rightarrow> unpack_receipt \<Rightarrow> host \<Rightarrow> unpack_output plan" where
  "stage_confirm stuck now k r s =
     (let destination = ur_destination r; backup = unpack_backup destination k; archive = ur_archive r;
          drop_backup = lexists s backup; drop_archive = ur_cleanup_archive r \<and> path_exists s archive;
          errors = (if drop_backup then (case stuck backup of None \<Rightarrow> [] | Some e \<Rightarrow> [e]) else []) @
                   (if drop_archive then (case stuck archive of None \<Rightarrow> if real_dir s archive then [lit ''directory''] else []
                                          | Some e \<Rightarrow> [e]) else []);
          unlinked = (drop_archive \<and> stuck archive = None \<and> \<not> real_dir s archive);
          backup_deleted = (\<not> drop_backup \<or> stuck backup = None);
          archive_deleted = (\<not> path_exists s archive \<or> unlinked);
          r' = r\<lparr>ur_backup_deleted := Some backup_deleted, ur_archive_deleted := Some archive_deleted,
                 ur_cleanup_errors := errors, ur_updated_at := Some now\<rparr>
      in if ur_status r \<noteq> Unpacked \<or> \<not> real_dir s destination then ([], Inl RuntimeError)
         else ((if drop_backup \<and> stuck backup = None then remove_existing_path s backup else []) @
               (if unlinked then [Unlink archive] else []) @ [PutUnpack k r'],
               Inr \<lparr>uo_path = destination, uo_entries = ur_entries r, uo_archive_deleted = archive_deleted,
                 uo_backup_deleted = backup_deleted, uo_cleanup_errors = errors\<rparr>))"

definition resumable_unpack ::
  "unpack_env \<Rightarrow> (path \<Rightarrow> ustr option) \<Rightarrow> time \<Rightarrow> ustr \<Rightarrow> path \<Rightarrow> path \<Rightarrow> bool \<Rightarrow> bool \<Rightarrow> host \<Rightarrow> unpack_output plan" where
  "resumable_unpack env stuck now k destination archive overwrite cleanup s =
     chain (chain (chain (chain (chain (open_unpack env now k destination archive overwrite cleanup s) s
       (\<lambda>t r. stage_extract env now k r t)) s
       (\<lambda>t r. stage_backup k r t)) s
       (\<lambda>t r. stage_announce k r t)) s
       (\<lambda>t r. stage_publish now k r t)) s
       (\<lambda>t r. stage_confirm stuck now k r t)"

text \<open>\<open>transfer_unpack_archive\<close> with a transfer identity; the expected size and digest are not looked at.\<close>

definition unpack_archive ::
  "unpack_env \<Rightarrow> (path \<Rightarrow> ustr option) \<Rightarrow> time \<Rightarrow> ustr \<Rightarrow> ustr \<Rightarrow> bool \<Rightarrow> bool \<Rightarrow> ustr \<Rightarrow> int option \<Rightarrow> ustr option \<Rightarrow>
   host \<Rightarrow> unpack_output plan" where
  "unpack_archive env stuck now archive_arg dst_arg overwrite cleanup k expected_bytes expected_sha s =
     (case receipt_id (transfer_env.truncate env) k of
        Inl e \<Rightarrow> ([], Inl e)
      | Inr _ \<Rightarrow>
          (case (case map_of (ho_unpacks s) k of
                   None \<Rightarrow> te_given env dst_arg
                 | Some c \<Rightarrow> (case load_unpack_receipt c of Inl e \<Rightarrow> Inl e | Inr r \<Rightarrow> te_bound env (ur_destination r))) of
             Inl e \<Rightarrow> ([], Inl e)
           | Inr destination \<Rightarrow>
               (case ue_archive env archive_arg of
                  Inl e \<Rightarrow> ([], Inl e)
                | Inr archive \<Rightarrow> resumable_unpack env stuck now k destination archive overwrite cleanup s)))"

section \<open>Abandoning an import\<close>

text \<open>What an unmarked receipt calls for, given what is on disk\<close>

definition abandonment_mark :: "unpack_receipt \<Rightarrow> path \<Rightarrow> path \<Rightarrow> path \<Rightarrow> host \<Rightarrow> exn + unpack_abandonment" where
  "abandonment_mark r destination staging backup s =
     (let d = lexists s destination; b = lexists s backup; existed = ur_existed r in
      case ur_status r of
        Extracting \<Rightarrow> if b \<or> d \<noteq> existed then Inl RuntimeError else Inr Rollback
      | Prepared \<Rightarrow> if (if existed then b = d else b) then Inl RuntimeError else Inr Rollback
      | BackupMoved \<Rightarrow> if \<not> existed \<or> \<not> b \<or> d then Inl RuntimeError else Inr Rollback
      | Publishing \<Rightarrow>
          if path_exists s staging
          then (if (if existed then \<not> b \<or> d else b) then Inl RuntimeError else Inr Rollback)
          else if \<not> real_dir s destination \<or> b \<noteq> existed then Inl RuntimeError else Inr Commit
      | Unpacked \<Rightarrow> if \<not> real_dir s destination then Inl RuntimeError else Inr Commit)"

definition mark_abandonment ::
  "time \<Rightarrow> ustr \<Rightarrow> unpack_receipt \<Rightarrow> path \<Rightarrow> path \<Rightarrow> path \<Rightarrow> host \<Rightarrow> (unpack_receipt \<times> unpack_abandonment) plan" where
  "mark_abandonment now k r destination staging backup s =
     (case ur_abandonment r of
        Some m \<Rightarrow> ([], Inr (r, m))
      | None \<Rightarrow>
          (case abandonment_mark r destination staging backup s of
             Inl e \<Rightarrow> ([], Inl e)
           | Inr m \<Rightarrow>
               let r' = r\<lparr>ur_abandonment := Some m, ur_updated_at := Some now\<rparr> in ([PutUnpack k r'], Inr (r', m))))"

definition rolls_back :: "unpack_abandonment \<Rightarrow> bool" where
  "rolls_back m \<longleftrightarrow> m = Rollback \<or> m = RollbackArchive"

definition first_pass :: "unpack_abandonment \<Rightarrow> bool" where
  "first_pass m \<longleftrightarrow> m = Rollback \<or> m = Commit"

definition drop_staging :: "unpack_abandonment \<Rightarrow> path \<Rightarrow> host \<Rightarrow> effect list" where
  "drop_staging m staging s = (if first_pass m \<and> path_exists s staging then [RemoveTree staging] else [])"

definition restore_topology ::
  "unpack_receipt \<Rightarrow> unpack_abandonment \<Rightarrow> path \<Rightarrow> path \<Rightarrow> path \<Rightarrow> host \<Rightarrow> unit plan" where
  "restore_topology r m destination staging backup s =
     (let d = lexists s destination; b = lexists s backup in
      if rolls_back m
      then (if ur_existed r
            then (if b \<and> \<not> d
                  then ((if m = Rollback then [Rename backup destination] else []) @ drop_staging m staging s, Inr ())
                  else if d \<and> \<not> b then (drop_staging m staging s, Inr ()) else ([], Inl RuntimeError))
            else if b \<or> d then ([], Inl RuntimeError) else (drop_staging m staging s, Inr ()))
      else if \<not> real_dir s destination then ([], Inl RuntimeError)
      else if ur_existed r
      then ((if m = Commit \<and> b then remove_existing_path s backup else []) @ drop_staging m staging s, Inr ())
      else if b then ([], Inl RuntimeError) else (drop_staging m staging s, Inr ()))"

definition advance_mark ::
  "time \<Rightarrow> ustr \<Rightarrow> unpack_receipt \<Rightarrow> unpack_abandonment \<Rightarrow> (unpack_receipt \<times> unpack_abandonment) plan" where
  "advance_mark now k r m =
     (if first_pass m
      then (let m' = (if m = Rollback then RollbackArchive else CommitArchive);
                r' = r\<lparr>ur_abandonment := Some m', ur_updated_at := Some now\<rparr>
            in ([PutUnpack k r'], Inr (r', m')))
      else ([], Inr (r, m)))"

definition forget_unpack ::
  "ustr \<Rightarrow> unpack_receipt \<Rightarrow> unpack_abandonment \<Rightarrow> path \<Rightarrow> path \<Rightarrow> path \<Rightarrow> host \<Rightarrow> bool plan" where
  "forget_unpack k r m destination staging backup s =
     (if (if rolls_back m then lexists s destination \<noteq> ur_existed r else \<not> real_dir s destination)
      then ([], Inl RuntimeError)
      else if lexists s backup \<or> path_exists s staging then ([], Inl RuntimeError)
      else ((if ur_cleanup_archive r then [Unlink (ur_archive r)] else []) @ [DropUnpack k], Inr True))"

definition abandon_unpack_locked ::
  "time \<Rightarrow> ustr \<Rightarrow> unpack_receipt \<Rightarrow> path \<Rightarrow> path \<Rightarrow> path \<Rightarrow> host \<Rightarrow> bool plan" where
  "abandon_unpack_locked now k r destination staging backup s =
     chain (chain (chain (mark_abandonment now k r destination staging backup s) s
       (\<lambda>t (r, m). case restore_topology r m destination staging backup t of
          (es, Inl e) \<Rightarrow> (es, Inl e) | (es, Inr _) \<Rightarrow> (es, Inr (r, m)))) s
       (\<lambda>t (r, m). advance_mark now k r m)) s
       (\<lambda>t (r, m). forget_unpack k r m destination staging backup t)"

definition abandon_unpack_receipt :: "unpack_env \<Rightarrow> time \<Rightarrow> ustr \<Rightarrow> host \<Rightarrow> bool plan" where
  "abandon_unpack_receipt env now k s =
     (case map_of (ho_unpacks s) k of
        None \<Rightarrow> ([], Inr False)
      | Some c \<Rightarrow>
          (case load_unpack_receipt c of
             Inl e \<Rightarrow> ([], Inl e)
           | Inr r \<Rightarrow>
               (case (te_bound env (ur_destination r), ue_archive_bound env (ur_archive r)) of
                  (Inr destination, Inr archive) \<Rightarrow>
                    if ur_destination r \<noteq> destination \<or> ur_archive r \<noteq> archive then ([], Inl ValueError)
                    else abandon_unpack_locked now k r destination (unpack_staging destination k)
                           (unpack_backup destination k) s
                | _ \<Rightarrow> ([], Inl ValueError))))"

definition validate_abandon_identity :: "ustr \<Rightarrow> host \<Rightarrow> exn + unit" where
  "validate_abandon_identity k s =
     (case (map_of (ho_writes s) k, map_of (ho_unpacks s) k) of
        (Some w, Some u) \<Rightarrow>
          (case (load_write_receipt w, load_unpack_receipt u) of
             (Inr wr, Inr ur) \<Rightarrow> if wr_destination wr \<noteq> ur_archive ur then Inl ValueError else Inr ()
           | _ \<Rightarrow> Inl ValueError)
      | _ \<Rightarrow> Inr ())"

text \<open>\<open>transfer_abandon_import\<close> for the kinds \<open>file\<close> and \<open>dir\<close>; its reply says that it is safe to forget.\<close>

definition abandon_import :: "unpack_env \<Rightarrow> time \<Rightarrow> ustr \<Rightarrow> bool \<Rightarrow> host \<Rightarrow> (bool \<times> bool) plan" where
  "abandon_import env now k dir s =
     (case receipt_id (transfer_env.truncate env) k of
        Inl e \<Rightarrow> ([], Inl e)
      | Inr _ \<Rightarrow>
          (case validate_abandon_identity k s of
             Inl e \<Rightarrow> ([], Inl e)
           | Inr _ \<Rightarrow>
               chain (abandon_final_write_receipt (transfer_env.truncate env) now k dir s) s
                 (\<lambda>t write_reconciled. case abandon_unpack_receipt env now k t of
                    (es, Inl e) \<Rightarrow> (es, Inl e)
                  | (es, Inr unpack_reconciled) \<Rightarrow> (es, Inr (write_reconciled, unpack_reconciled)))))"

end
