(* ===== verification/Unpack_Safety.thy ===== *)
theory Unpack_Safety
  imports Transfer_Unpack
begin

text \<open>
  Safety of directory publication: over any sequence of unpacks and abandonments of a transfer, each of
  which may die after any of its effects, the destination holds the old node or the complete new
  directory, or it is absent while the backup holds one of the two.
\<close>

section \<open>Plans that uphold an invariant\<close>

definition upholds :: "(host \<Rightarrow> bool) \<Rightarrow> 'a plan \<Rightarrow> host \<Rightarrow> bool" where
  "upholds I P s \<longleftrightarrow> (\<forall>n. I (interrupted n P s))"

lemma upholds_start: "upholds I P s \<Longrightarrow> I s"
  unfolding upholds_def interrupted_def by (metis take0 perform.simps(1) fst_conv)

lemma upholds_nil [simp]: "upholds I ([], r) s \<longleftrightarrow> I s"
  by (simp add: upholds_def interrupted_def)

lemma upholds_cons:
  "upholds I (e # es, r) s \<longleftrightarrow> I s \<and> (\<forall>t. apply_effect e s = Some t \<longrightarrow> upholds I (es, r) t)"
proof
  assume L: "upholds I (e # es, r) s"
  show "I s \<and> (\<forall>t. apply_effect e s = Some t \<longrightarrow> upholds I (es, r) t)"
  proof (intro conjI allI impI)
    show "I s" using L by (rule upholds_start)
    fix t assume "apply_effect e s = Some t"
    then have "interrupted n (es, r) t = interrupted (Suc n) (e # es, r) s" for n
      by (simp add: interrupted_def)
    with L show "upholds I (es, r) t" by (simp add: upholds_def)
  qed
next
  assume R: "I s \<and> (\<forall>t. apply_effect e s = Some t \<longrightarrow> upholds I (es, r) t)"
  show "upholds I (e # es, r) s"
    unfolding upholds_def
  proof
    fix n show "I (interrupted n (e # es, r) s)"
    proof (cases n)
      case 0
      with R show ?thesis by (simp add: interrupted_def)
    next
      case (Suc m)
      show ?thesis
      proof (cases "apply_effect e s")
        case None
        with R Suc show ?thesis by (simp add: interrupted_def)
      next
        case (Some t)
        with R have "I (interrupted m (es, r) t)" by (simp add: upholds_def)
        with Some Suc show ?thesis by (simp add: interrupted_def)
      qed
    qed
  qed
qed

lemma upholds_effects: "upholds I (es, r) s = upholds I (es, q) s"
  by (simp add: upholds_def interrupted_def)

lemma upholds_append:
  "upholds I (es, q) s \<Longrightarrow> (\<And>t. perform es s = (t, True) \<Longrightarrow> upholds I (fs, r) t) \<Longrightarrow> upholds I (es @ fs, r) s"
proof (induction es arbitrary: s)
  case Nil
  then show ?case by simp
next
  case (Cons e es)
  show ?case
    unfolding append_Cons upholds_cons
  proof (intro conjI allI impI)
    show "I s" using Cons.prems(1) by (rule upholds_start)
    fix t assume t: "apply_effect e s = Some t"
    show "upholds I (es @ fs, r) t"
      by (rule Cons.IH) (use Cons.prems t in \<open>simp_all add: upholds_cons\<close>)
  qed
qed

lemma upholds_chain:
  assumes "upholds I P s" and "\<And>t x. complete P s = (t, Inr x) \<Longrightarrow> upholds I (c t x) t"
  shows "upholds I (chain P s c) s"
proof -
  obtain es q where P: "P = (es, q)" by (cases P)
  obtain s' ok where run: "perform es s = (s', ok)" by fastforce
  show ?thesis
  proof (cases "ok \<and> (\<exists>x. q = Inr x)")
    case True
    then obtain x where x: "q = Inr x" and ok: "ok" by blast
    obtain fs r where c: "c s' x = (fs, r)" by fastforce
    have chain: "chain P s c = (es @ fs, r)"
      using run x ok c by (simp add: chain_def P)
    have "upholds I (c s' x) s'"
      by (rule assms(2)) (use run x ok in \<open>simp add: complete_def P\<close>)
    then show ?thesis
      unfolding chain using assms(1) run ok c
      by (intro upholds_append [of I es q]) (auto simp: P)
  next
    case False
    then have "fst (chain P s c) = es"
      using run by (cases q; cases ok) (auto simp: chain_def P)
    then obtain q' where "chain P s c = (es, q')" by (cases "chain P s c") simp
    with assms(1) show ?thesis using upholds_effects [of I es q s q'] by (simp add: P)
  qed
qed

section \<open>The site of a publication\<close>

record unpack_site =
  us_env :: unpack_env
  us_id :: ustr
  us_dest :: path
  us_archive :: path
  us_bytes :: octets
  us_old :: "node option"

abbreviation site_staging :: "unpack_site \<Rightarrow> path" where
  "site_staging u \<equiv> unpack_staging (us_dest u) (us_id u)"

abbreviation site_backup :: "unpack_site \<Rightarrow> path" where
  "site_backup u \<equiv> unpack_backup (us_dest u) (us_id u)"

definition site_ok :: "unpack_site \<Rightarrow> bool" where
  "site_ok u \<longleftrightarrow> us_archive u \<notin> {us_dest u, site_staging u, site_backup u}"

text \<open>The entries of the directory that an archive describes\<close>

fun place_all :: "entry list \<Rightarrow> archive_member list \<Rightarrow> exn + entry list" where
  "place_all es [] = Inr es"
| "place_all es (m # ms) = (case place_member es m of Inl e \<Rightarrow> Inl e | Inr x \<Rightarrow> place_all (es @ [x]) ms)"

definition archive_tree :: "unpack_env \<Rightarrow> octets \<Rightarrow> exn + entry list" where
  "archive_tree env bytes = (case safe_members env bytes of Inl e \<Rightarrow> Inl e | Inr ms \<Rightarrow> place_all [] ms)"

definition whole :: "unpack_site \<Rightarrow> node option \<Rightarrow> bool" where
  "whole u v \<longleftrightarrow> (\<exists>es. archive_tree (us_env u) (us_bytes u) = Inr es \<and> v = Some (DirNode es))"

definition good :: "unpack_site \<Rightarrow> node option \<Rightarrow> bool" where
  "good u v \<longleftrightarrow> v = us_old u \<or> whole u v"

definition directory_kept :: "unpack_site \<Rightarrow> host \<Rightarrow> bool" where
  "directory_kept u s \<longleftrightarrow>
     (let d = node_at s (us_dest u); b = node_at s (site_backup u) in
      if d \<noteq> None then good u d else if b \<noteq> None then good u b else us_old u = None)"

definition stage_facts :: "unpack_site \<Rightarrow> unpack_receipt \<Rightarrow> host \<Rightarrow> bool" where
  "stage_facts u r s \<longleftrightarrow>
     (let d = node_at s (us_dest u); st = node_at s (site_staging u); b = node_at s (site_backup u) in
      ur_destination r = us_dest u \<and> ur_archive r = us_archive u \<and>
      (ur_status r \<in> {Prepared, BackupMoved, Publishing} \<longrightarrow> st = None \<or> whole u st) \<and>
      (ur_status r = Publishing \<longrightarrow> whole u d \<or> d = None \<or> ur_existed r \<and> b = None) \<and>
      (ur_status r = Unpacked \<longrightarrow> whole u d))"

definition unpack_inv :: "unpack_site \<Rightarrow> host \<Rightarrow> bool" where
  "unpack_inv u s \<longleftrightarrow>
     directory_kept u s \<and> (is_file s (us_archive u) \<longrightarrow> file_bytes s (us_archive u) = us_bytes u) \<and>
     (\<forall>r. map_of (ho_unpacks s) (us_id u) = Some (Doc r) \<longrightarrow> stage_facts u r s)"

definition stored :: "unpack_site \<Rightarrow> unpack_receipt \<Rightarrow> host \<Rightarrow> bool" where
  "stored u r s \<longleftrightarrow> map_of (ho_unpacks s) (us_id u) = Some (Doc r)"

lemma site_paths:
  "site_staging u \<noteq> us_dest u" "site_backup u \<noteq> us_dest u" "site_staging u \<noteq> site_backup u"
  by (auto simp: unpack_staging_def unpack_backup_def prod_eq_iff dest: arg_cong [where f = length])

lemmas site_distinct = site_paths site_paths [symmetric]

lemma whole_some [simp]: "\<not> whole u None"
  by (simp add: whole_def)

section \<open>What an effect keeps\<close>

text \<open>Two states that agree on the site.\<close>

definition same_site :: "unpack_site \<Rightarrow> host \<Rightarrow> host \<Rightarrow> bool" where
  "same_site u s t \<longleftrightarrow>
     node_at t (us_dest u) = node_at s (us_dest u) \<and> node_at t (site_backup u) = node_at s (site_backup u) \<and>
     node_at t (us_archive u) = node_at s (us_archive u) \<and>
     map_of (ho_unpacks t) (us_id u) = map_of (ho_unpacks s) (us_id u)"

lemma kept_cong:
  "node_at t (us_dest u) = node_at s (us_dest u) \<Longrightarrow> node_at t (site_backup u) = node_at s (site_backup u) \<Longrightarrow>
   directory_kept u t = directory_kept u s"
  by (simp add: directory_kept_def)

lemma archive_cong:
  "node_at t p = node_at s p \<Longrightarrow> is_file t p = is_file s p \<and> file_bytes t p = file_bytes s p"
  by (simp add: is_file_def file_bytes_def)

lemma inv_kept: "unpack_inv u s \<Longrightarrow> directory_kept u s"
  by (simp add: unpack_inv_def)

lemma inv_facts: "unpack_inv u s \<Longrightarrow> stored u r s \<Longrightarrow> stage_facts u r s"
  by (simp add: unpack_inv_def stored_def)

lemma inv_archive: "unpack_inv u s \<Longrightarrow> is_file s (us_archive u) \<Longrightarrow> file_bytes s (us_archive u) = us_bytes u"
  by (simp add: unpack_inv_def)

text \<open>The staging directory is free to change while nothing refers to it.\<close>

definition staging_free :: "unpack_site \<Rightarrow> host \<Rightarrow> bool" where
  "staging_free u s \<longleftrightarrow>
     (\<forall>r. stored u r s \<longrightarrow> ur_status r = Extracting \<or> ur_status r = Unpacked)"

lemma inv_same_site:
  assumes "unpack_inv u s" and "same_site u s t"
    and "staging_free u s \<or> node_at t (site_staging u) \<in> {node_at s (site_staging u), None}"
  shows "unpack_inv u t"
  unfolding unpack_inv_def
proof (intro conjI allI impI)
  show "directory_kept u t"
    using assms(1,2) kept_cong [of t u s] by (simp add: same_site_def inv_kept)
  assume "is_file t (us_archive u)"
  then show "file_bytes t (us_archive u) = us_bytes u"
    using assms(1,2) archive_cong [of t "us_archive u" s] inv_archive [of u s] by (simp add: same_site_def)
next
  fix r assume r: "map_of (ho_unpacks t) (us_id u) = Some (Doc r)"
  then have stored: "stored u r s" using assms(2) by (simp add: same_site_def stored_def)
  with assms(1) have "stage_facts u r s" by (rule inv_facts)
  note facts = this
  have d: "node_at t (us_dest u) = node_at s (us_dest u)" and b: "node_at t (site_backup u) = node_at s (site_backup u)"
    using assms(2) by (simp_all add: same_site_def)
  have "ur_status r \<in> {Prepared, BackupMoved, Publishing} \<longrightarrow>
      node_at t (site_staging u) = None \<or> whole u (node_at t (site_staging u))"
    using assms(3)
  proof
    assume "staging_free u s"
    with stored show ?thesis by (auto simp: staging_free_def)
  next
    assume "node_at t (site_staging u) \<in> {node_at s (site_staging u), None}"
    with facts show ?thesis by (metis insertE singletonD stage_facts_def)
  qed
  with facts show "stage_facts u r t"
    unfolding stage_facts_def Let_def d b by blast
qed

lemma same_site_refl [simp]: "same_site u s s"
  by (simp add: same_site_def)

lemma inv_put:
  assumes "unpack_inv u s" and "stage_facts u r s"
  shows "unpack_inv u (s\<lparr>ho_unpacks := AList.update (us_id u) (Doc r) (ho_unpacks s)\<rparr>)"
proof -
  let ?t = "s\<lparr>ho_unpacks := AList.update (us_id u) (Doc r) (ho_unpacks s)\<rparr>"
  have "directory_kept u ?t" using assms(1) kept_cong [of ?t u s] by (simp add: inv_kept)
  moreover have "is_file ?t (us_archive u) \<longrightarrow> file_bytes ?t (us_archive u) = us_bytes u"
    using assms(1) archive_cong [of ?t "us_archive u" s] inv_archive [of u s] by simp
  moreover have "stage_facts u r ?t" using assms(2) by (simp add: stage_facts_def)
  ultimately show ?thesis by (simp add: unpack_inv_def)
qed

lemma upholds_put:
  assumes "unpack_inv u s" and "stage_facts u r s"
  shows "upholds (unpack_inv u) ([PutUnpack (us_id u) r], q) s"
  using assms inv_put [OF assms] by (simp add: upholds_cons)

lemma perform_put [simp]:
  "perform [PutUnpack k r] s = (s\<lparr>ho_unpacks := AList.update k (Doc r) (ho_unpacks s)\<rparr>, True)"
  by simp

lemma stored_put [simp]: "stored u r (s\<lparr>ho_unpacks := AList.update (us_id u) (Doc r) (ho_unpacks s)\<rparr>)"
  by (simp add: stored_def)

text \<open>Effects below the staging directory\<close>

lemma upholds_staging:
  assumes "unpack_inv u s" and "staging_free u s" and "site_ok u" and "\<And>e. e \<in> set es \<Longrightarrow> touches e = {site_staging u}"
  shows "upholds (unpack_inv u) (es, q) s \<and> (\<forall>t. perform es s = (t, True) \<longrightarrow>
     same_site u s t \<and> staging_free u t \<and> unpack_inv u t)"
  using assms
proof (induction es arbitrary: s)
  case Nil
  then show ?case by simp
next
  case (Cons e es)
  have step: "same_site u s t \<and> staging_free u t \<and> unpack_inv u t" if t: "apply_effect e s = Some t" for t
  proof -
    have e: "touches e = {site_staging u}" using Cons.prems(4) by simp
    have docs: "ho_unpacks t = ho_unpacks s"
      using t e by (cases e) (auto split: if_splits option.splits node.splits list.splits)
    have same: "same_site u s t"
      using apply_untouched [OF t] e docs site_paths [of u] Cons.prems(3)
      by (auto simp: same_site_def site_ok_def)
    then have "staging_free u t" using Cons.prems(2) by (simp add: staging_free_def stored_def same_site_def)
    moreover have "unpack_inv u t"
      using inv_same_site [OF Cons.prems(1) same] Cons.prems(2) by blast
    ultimately show ?thesis using same by blast
  qed
  have rest: "upholds (unpack_inv u) (es, q) t \<and> (\<forall>t'. perform es t = (t', True) \<longrightarrow>
     same_site u t t' \<and> staging_free u t' \<and> unpack_inv u t')" if t: "apply_effect e s = Some t" for t
    by (rule Cons.IH) (use step [OF t] Cons.prems(3,4) in auto)
  show ?case
  proof (intro conjI allI impI)
    show "upholds (unpack_inv u) (e # es, q) s"
      using Cons.prems(1) rest by (auto simp: upholds_cons)
    fix t' assume "perform (e # es) s = (t', True)"
    then obtain t where t: "apply_effect e s = Some t" and t': "perform es t = (t', True)"
      by (auto split: option.splits)
    from step [OF t] rest [OF t] t' show "same_site u s t'" "staging_free u t'" "unpack_inv u t'"
      by (auto simp: same_site_def)
  qed
qed

section \<open>Stages\<close>

definition sound :: "unpack_site \<Rightarrow> host \<Rightarrow> 'a plan \<Rightarrow> ('a \<Rightarrow> host \<Rightarrow> bool) \<Rightarrow> bool" where
  "sound u s P post \<longleftrightarrow>
     upholds (unpack_inv u) P s \<and> (\<forall>t x. complete P s = (t, Inr x) \<longrightarrow> unpack_inv u t \<and> post x t)"

lemma upholds_complete: "upholds I P s \<Longrightarrow> complete P s = (t, r) \<Longrightarrow> I t"
  unfolding upholds_def interrupted_def complete_def by (metis (no_types, lifting) case_prod_conv fst_conv order_refl prod.collapse prod.inject take_all)

lemma soundI:
  "upholds (unpack_inv u) P s \<Longrightarrow> (\<And>t x. complete P s = (t, Inr x) \<Longrightarrow> unpack_inv u t \<Longrightarrow> post x t) \<Longrightarrow> sound u s P post"
  unfolding sound_def using upholds_complete by blast

lemma sound_chain:
  assumes "sound u s P Q" and "\<And>t x. unpack_inv u t \<Longrightarrow> Q x t \<Longrightarrow> sound u t (c t x) R"
  shows "sound u s (chain P s c) R"
proof (rule soundI)
  show "upholds (unpack_inv u) (chain P s c) s"
    by (rule upholds_chain) (use assms in \<open>auto simp: sound_def\<close>)
  fix t x assume "complete (chain P s c) s = (t, Inr x)"
  then obtain t' x' where "complete P s = (t', Inr x')" "complete (c t' x') t' = (t, Inr x)"
    by (auto simp: complete_chain split: prod.splits sum.splits)
  with assms show "R x t" unfolding sound_def by blast
qed

lemma sound_weaken: "sound u s P (\<lambda>_. Q) \<Longrightarrow> sound u s P (\<lambda>x t. x \<longrightarrow> Q t)"
  by (auto simp: sound_def)

lemma sound_refused [simp]: "unpack_inv u s \<Longrightarrow> sound u s ([], Inl e) post"
  by (rule soundI) (simp_all add: complete_def)

lemma sound_return: "unpack_inv u s \<Longrightarrow> post x s \<Longrightarrow> sound u s ([], Inr x) post"
  by (rule soundI) (auto simp: complete_def)

lemma sound_put:
  assumes "unpack_inv u s" and "stage_facts u r s"
    and "\<And>t. t = s\<lparr>ho_unpacks := AList.update (us_id u) (Doc r) (ho_unpacks s)\<rparr> \<Longrightarrow> post x t"
  shows "sound u s ([PutUnpack (us_id u) r], Inr x) post"
  by (rule soundI) (use assms(3) in \<open>auto simp: complete_def intro: upholds_put [OF assms(1,2)]\<close>)

text \<open>One effect before the rest of a plan\<close>

lemma sound_cons:
  assumes "unpack_inv u s" and "\<And>t. apply_effect e s = Some t \<Longrightarrow> sound u t (es, q) post"
  shows "sound u s (e # es, q) post"
proof (rule soundI)
  show "upholds (unpack_inv u) (e # es, q) s"
    using assms by (auto simp: upholds_cons sound_def)
  fix t x assume "complete (e # es, q) s = (t, Inr x)"
  then obtain t' where "apply_effect e s = Some t'" "complete (es, q) t' = (t, Inr x)"
    by (auto simp: complete_def split: option.splits prod.splits if_splits)
  with assms(2) show "post x t" unfolding sound_def by blast
qed

lemma sound_append:
  assumes "upholds (unpack_inv u) (es, q) s"
    and "\<And>t. perform es s = (t, True) \<Longrightarrow> sound u t (fs, r) post"
  shows "sound u s (es @ fs, r) post"
proof (rule soundI)
  show "upholds (unpack_inv u) (es @ fs, r) s"
    using assms by (auto simp: sound_def intro: upholds_append)
  fix t x assume "complete (es @ fs, r) s = (t, Inr x)"
  then obtain t' where "perform es s = (t', True)" "complete (fs, r) t' = (t, Inr x)"
    by (auto simp: complete_def perform_append split: prod.splits if_splits)
  with assms(2) show "post x t" unfolding sound_def by blast
qed

lemma inv_drop:
  assumes "unpack_inv u s" and "site_ok u"
    and "p = site_staging u \<or> p = us_archive u \<or> p = site_backup u \<and> lexists s (us_dest u)"
  shows "unpack_inv u (drop_node p s)"
proof -
  let ?t = "drop_node p s"
  have p: "p \<noteq> us_dest u" using assms(2,3) site_distinct [of u] by (auto simp: site_ok_def)
  have d: "node_at ?t (us_dest u) = node_at s (us_dest u)" using p by simp
  have "directory_kept u ?t"
  proof (cases "p = site_backup u")
    case True
    with assms(1-3) d site_distinct [of u] show ?thesis
      using inv_kept [OF assms(1)] by (auto simp: directory_kept_def Let_def lexists_def site_ok_def)
  next
    case False
    with d kept_cong [of ?t u s] inv_kept [OF assms(1)] show ?thesis by simp
  qed
  moreover have "is_file ?t (us_archive u) \<longrightarrow> file_bytes ?t (us_archive u) = us_bytes u"
    using inv_archive [OF assms(1)] by (auto simp: is_file_def file_bytes_def)
  moreover have "stage_facts u r ?t" if "map_of (ho_unpacks ?t) (us_id u) = Some (Doc r)" for r
    using inv_facts [OF assms(1), of r] that d by (auto simp: stored_def stage_facts_def Let_def)
  ultimately show ?thesis by (simp add: unpack_inv_def)
qed

lemma stored_drop [simp]: "stored u r (drop_node p s) = stored u r s"
  by (simp add: stored_def)

lemma open_unpack_sound:
  assumes "unpack_inv u s" and "site_ok u"
  shows "sound u s (open_unpack (us_env u) now (us_id u) (us_dest u) (us_archive u) overwrite cleanup s) (stored u)"
proof (cases "map_of (ho_unpacks s) (us_id u)")
  case (Some c)
  then show ?thesis
    using assms(1) by (cases "read_unpack_receipt c (us_dest u) (us_archive u) overwrite cleanup")
      (auto simp: open_unpack_def read_unpack_receipt_def load_unpack_receipt_def stored_def
        intro!: sound_return split: doc.splits sum.splits if_splits)
next
  case None
  let ?es = "remove_tree_quietly s (site_staging u)"
  have free: "staging_free u s" using None by (simp add: staging_free_def stored_def)
  have touch: "touches e = {site_staging u}" if "e \<in> set ?es" for e
    using that by (auto simp: remove_tree_quietly_def split: if_splits)
  note st = upholds_staging [OF assms(1) free assms(2) touch]
  have refuse: "sound u s (?es, Inl e) (stored u)" for e :: exn
    by (rule soundI) (use st in \<open>auto simp: complete_def split: prod.splits if_splits\<close>)
  let ?r = "\<lambda>ms. new_unpack_receipt now (us_dest u) (us_archive u) overwrite cleanup (int (length ms)) (lexists s (us_dest u))"
  have accept: "sound u s (?es @ [PutUnpack (us_id u) (?r ms)], Inr (?r ms)) (stored u)" for ms :: "archive_member list"
  proof (rule sound_append)
    show "upholds (unpack_inv u) (?es, Inl OSError) s" using st by blast
    fix t assume t: "perform ?es s = (t, True)"
    show "sound u t ([PutUnpack (us_id u) (?r ms)], Inr (?r ms)) (stored u)"
      by (rule sound_put) (use st t in \<open>auto simp: stage_facts_def new_unpack_receipt_def Let_def\<close>)
  qed
  show ?thesis
    unfolding open_unpack_def Let_def
    using refuse accept by (auto simp: None split: sum.split)
qed

lemma extract_result:
  assumes "node_at s p = Some (DirNode es)" and "extract_members p es ms = (fs, Inr ())" and "perform fs s = (t, ok)"
  shows "\<exists>out. place_all es ms = Inr out \<and> node_at t p = Some (DirNode out)"
  using assms
proof (induction ms arbitrary: es fs s)
  case Nil
  then show ?case by simp
next
  case (Cons m ms)
  from Cons.prems(2) obtain x gs where x: "place_member es m = Inr x"
    and rest: "extract_members p (es @ [x]) ms = (gs, Inr ())" and fs: "fs = FillDir p x # gs"
    by (auto split: sum.splits prod.splits)
  from Cons.prems(1,3) fs have "perform gs (set_node p (DirNode (es @ [x])) s) = (t, ok)" by simp
  from Cons.IH [OF _ rest this] x show ?case by simp
qed

lemma extract_touches: "e \<in> set (fst (extract_members p es ms)) \<Longrightarrow> touches e = {p}"
proof (induction ms arbitrary: es)
  case Nil
  then show ?case by simp
next
  case (Cons m ms)
  show ?case
  proof (cases "place_member es m")
    case (Inl a)
    with Cons.prems show ?thesis by simp
  next
    case (Inr x)
    obtain gs r where "extract_members p (es @ [x]) ms = (gs, r)" by fastforce
    with Cons.prems Cons.IH [of "es @ [x]"] Inr show ?thesis by auto
  qed
qed

lemma extract_archive_touches: "e \<in> set (fst (extract_archive env r p s)) \<Longrightarrow> touches e = {p}"
proof (cases "safe_members env (file_bytes s (ur_archive r))")
  case (Inr ms)
  assume e: "e \<in> set (fst (extract_archive env r p s))"
  obtain fs q where x: "extract_members p [] ms = (fs, q)" by fastforce
  with extract_touches [of e p "[]" ms] have "e \<in> set fs \<Longrightarrow> touches e = {p}" by simp
  with e Inr x show ?thesis by (cases q) (auto simp: extract_archive_def split: if_splits)
qed (simp add: extract_archive_def)

lemma extract_archive_whole:
  assumes "extract_archive env r p s = (fs, Inr ())" and "node_at s' p = Some (DirNode [])" and "perform fs s' = (t, ok)"
  shows "\<exists>es. archive_tree env (file_bytes s (ur_archive r)) = Inr es \<and> node_at t p = Some (DirNode es)"
proof -
  obtain ms where ms: "safe_members env (file_bytes s (ur_archive r)) = Inr ms"
    using assms(1) by (auto simp: extract_archive_def split: sum.splits)
  with assms(1) have "extract_members p [] ms = (fs, Inr ())"
    by (auto simp: extract_archive_def split: sum.splits prod.splits if_splits)
  from extract_result [OF assms(2) this assms(3)] ms show ?thesis by (simp add: archive_tree_def)
qed

lemma stage_extract_sound:
  assumes "unpack_inv u s" and "site_ok u" and "stored u r s"
  shows "sound u s (stage_extract (us_env u) now (us_id u) r s) (\<lambda>r t. stored u r t \<and> ur_status r \<noteq> Extracting)"
proof (cases "ur_status r = Extracting \<and> extracting_topology r (us_dest u) (site_backup u) s \<and> is_file s (us_archive u)")
  case False
  have "ur_destination r = us_dest u" "ur_archive r = us_archive u"
    using inv_facts [OF assms(1,3)] by (simp_all add: stage_facts_def Let_def)
  with False show ?thesis
    using assms by (auto simp: stage_extract_def Let_def intro: sound_return)
next
  case True
  have r: "ur_destination r = us_dest u" "ur_archive r = us_archive u"
    using inv_facts [OF assms(1,3)] by (simp_all add: stage_facts_def Let_def)
  have free: "staging_free u s" using True assms(3) by (auto simp: staging_free_def stored_def)
  obtain fs q where x: "extract_archive (us_env u) r (site_staging u) s = (fs, q)" by fastforce
  let ?es = "remove_tree_quietly s (site_staging u) @ [MakeDir (site_staging u)] @ fs"
  have touch: "touches e = {site_staging u}" if "e \<in> set ?es" for e
    using that extract_archive_touches [of e "us_env u" r "site_staging u" s] x
    by (auto simp: remove_tree_quietly_def split: if_splits)
  note st = upholds_staging [OF assms(1) free assms(2), of ?es, OF touch]
  show ?thesis
  proof (cases q)
    case (Inl e)
    have "sound u s (?es, Inl e) (\<lambda>r t. stored u r t \<and> ur_status r \<noteq> Extracting)"
      using st [of "Inl e"] by (intro soundI) (auto simp: complete_def split: prod.splits if_splits)
    with True r x Inl show ?thesis by (simp add: stage_extract_def Let_def)
  next
    case (Inr unit)
    let ?r = "r\<lparr>ur_status := Prepared, ur_updated_at := Some now\<rparr>"
    have "sound u s (?es @ [PutUnpack (us_id u) ?r], Inr ?r) (\<lambda>r t. stored u r t \<and> ur_status r \<noteq> Extracting)"
    proof (rule sound_append)
      show "upholds (unpack_inv u) (?es, Inl OSError) s" using st by blast
      fix t assume t: "perform ?es s = (t, True)"
      then obtain s' where pre: "perform (remove_tree_quietly s (site_staging u) @ [MakeDir (site_staging u)]) s = (s', True)"
        and fill: "perform fs s' = (t, True)"
        using perform_append [of "remove_tree_quietly s (site_staging u) @ [MakeDir (site_staging u)]" fs s]
        by (auto split: prod.splits if_splits)
      have empty: "node_at s' (site_staging u) = Some (DirNode [])"
        using pre by (auto simp: perform_append split: prod.splits if_splits)
      have ex: "extract_archive (us_env u) r (site_staging u) s = (fs, Inr ())" using x Inr by simp
      from extract_archive_whole [OF ex empty fill]
      obtain es where "archive_tree (us_env u) (file_bytes s (ur_archive r)) = Inr es"
        and node: "node_at t (site_staging u) = Some (DirNode es)" by auto
      moreover have "file_bytes s (ur_archive r) = us_bytes u"
        using inv_archive [OF assms(1)] True r by simp
      ultimately have whole: "whole u (node_at t (site_staging u))" by (simp add: whole_def)
      have inv: "unpack_inv u t" using st t by blast
      show "sound u t ([PutUnpack (us_id u) ?r], Inr ?r) (\<lambda>r t. stored u r t \<and> ur_status r \<noteq> Extracting)"
        by (rule sound_put [OF inv]) (use whole r in \<open>auto simp: stage_facts_def Let_def\<close>)
    qed
    with True r x Inr show ?thesis by (simp add: stage_extract_def Let_def)
  qed
qed

text \<open>After the backup stage, a receipt that is still prepared has no old node to move.\<close>

definition ready :: "unpack_site \<Rightarrow> unpack_receipt \<Rightarrow> host \<Rightarrow> bool" where
  "ready u r s \<longleftrightarrow> stored u r s \<and> ur_status r \<noteq> Extracting \<and>
     (ur_status r = Prepared \<longrightarrow> \<not> lexists s (us_dest u) \<and> path_exists s (site_staging u))"

lemma stage_backup_sound:
  assumes "unpack_inv u s" and "site_ok u" and "stored u r s" and "ur_status r \<noteq> Extracting"
  shows "sound u s (stage_backup (us_id u) r s) (ready u)"
proof -
  let ?d = "us_dest u" and ?b = "site_backup u"
  have facts: "stage_facts u r s" using assms(1,3) by (rule inv_facts)
  then have r: "ur_destination r = ?d" by (simp add: stage_facts_def Let_def)
  show ?thesis
  proof (cases "ur_status r = Prepared \<and> path_exists s (site_staging u) \<and> ur_existed r \<and> lexists s ?b \<noteq> lexists s ?d")
    case False
    then show ?thesis
      using assms r unfolding stage_backup_def Let_def
      by (auto simp: ready_def intro!: sound_return)
  next
    case True
    let ?r = "r\<lparr>ur_status := BackupMoved\<rparr>"
    have put: "sound u t ([PutUnpack (us_id u) ?r], Inr ?r) (ready u)"
      if "unpack_inv u t" "node_at t (site_staging u) = node_at s (site_staging u)" for t
      by (rule sound_put [OF that(1)])
        (use facts True that(2) in \<open>auto simp: stage_facts_def Let_def ready_def\<close>)
    show ?thesis
    proof (cases "lexists s ?b")
      case True
      with put [OF assms(1)] \<open>_ \<and> _\<close> r show ?thesis by (simp add: stage_backup_def Let_def)
    next
      case False
      with True obtain x where x: "node_at s ?d = Some x" and none: "node_at s ?b = None" by (auto simp: lexists_def)
      have "sound u s (Rename ?d ?b # [PutUnpack (us_id u) ?r], Inr ?r) (ready u)"
      proof (rule sound_cons [OF assms(1)])
        fix t assume "apply_effect (Rename ?d ?b) s = Some t"
        then have t: "t = set_node ?b x (drop_node ?d s)" using x none by (cases x) simp_all
        have "good u (Some x)" using inv_kept [OF assms(1)] x by (simp add: directory_kept_def Let_def)
        then have "directory_kept u t" using site_distinct [of u] by (simp add: t directory_kept_def Let_def)
        moreover have "is_file t (us_archive u) \<longrightarrow> file_bytes t (us_archive u) = us_bytes u"
          using inv_archive [OF assms(1)] assms(2) archive_cong [of t "us_archive u" s]
          by (auto simp: t site_ok_def)
        moreover have "stage_facts u r' t" if "map_of (ho_unpacks t) (us_id u) = Some (Doc r')" for r'
        proof -
          have "r' = r" using that assms(3) by (simp add: t stored_def)
          with facts \<open>_ \<and> _\<close> site_distinct [of u] show ?thesis by (simp add: t stage_facts_def Let_def)
        qed
        ultimately have "unpack_inv u t" by (simp add: unpack_inv_def)
        then show "sound u t ([PutUnpack (us_id u) ?r], Inr ?r) (ready u)"
          by (rule put) (use site_distinct [of u] in \<open>simp add: t\<close>)
      qed
      with True False r show ?thesis by (simp add: stage_backup_def Let_def)
    qed
  qed
qed

lemma stage_announce_sound:
  assumes "unpack_inv u s" and "ready u r s"
  shows "sound u s (stage_announce (us_id u) r s)
     (\<lambda>r t. stored u r t \<and> (ur_status r = Publishing \<or> ur_status r = Unpacked))"
proof -
  have st: "stored u r s" using assms(2) by (simp add: ready_def)
  then have facts: "stage_facts u r s" using assms(1) by (intro inv_facts)
  then have r: "ur_destination r = us_dest u" by (simp add: stage_facts_def Let_def)
  have put: "sound u s ([PutUnpack (us_id u) (r\<lparr>ur_status := Publishing\<rparr>)], Inr (r\<lparr>ur_status := Publishing\<rparr>))
      (\<lambda>r t. stored u r t \<and> (ur_status r = Publishing \<or> ur_status r = Unpacked))"
    if "ur_status r = Prepared \<or> ur_status r = BackupMoved \<and> \<not> lexists s (us_dest u)"
    by (rule sound_put [OF assms(1)])
      (use that facts assms(2) in \<open>auto simp: stage_facts_def Let_def ready_def lexists_def\<close>)
  show ?thesis
  proof (cases "ur_status r")
    case BackupMoved
    then show ?thesis
      using put assms(1) r by (auto simp: stage_announce_def Let_def put_status_def)
  qed (use put assms r st in \<open>auto simp: stage_announce_def Let_def put_status_def ready_def intro: sound_return\<close>)
qed

lemma stage_publish_sound:
  assumes "unpack_inv u s" and "site_ok u" and "stored u r s" and "ur_status r = Publishing \<or> ur_status r = Unpacked"
  shows "sound u s (stage_publish now (us_id u) r s) (\<lambda>r t. stored u r t \<and> ur_status r = Unpacked)"
proof -
  let ?d = "us_dest u" and ?st = "site_staging u" and ?b = "site_backup u"
  let ?r = "r\<lparr>ur_status := Unpacked, ur_committed_at := Some now\<rparr>"
  have facts: "stage_facts u r s" using assms(1,3) by (rule inv_facts)
  then have r: "ur_destination r = ?d" "ur_archive r = us_archive u" by (simp_all add: stage_facts_def Let_def)
  have put: "sound u t ([PutUnpack (us_id u) ?r], Inr ?r) (\<lambda>r t. stored u r t \<and> ur_status r = Unpacked)"
    if "unpack_inv u t" "whole u (node_at t ?d)" for t
    by (rule sound_put [OF that(1)]) (use that(2) r in \<open>auto simp: stage_facts_def Let_def\<close>)
  show ?thesis
  proof (cases "ur_status r = Unpacked")
    case True
    with assms(1,3) show ?thesis by (auto simp: stage_publish_def Let_def intro: sound_return)
  next
    case False
    with assms(4) have pub: "ur_status r = Publishing" by simp
    show ?thesis
    proof (cases "path_exists s ?st")
      case True
      show ?thesis
      proof (cases "lexists s ?d \<or> ur_existed r \<and> \<not> lexists s ?b")
        case True
        with \<open>path_exists s ?st\<close> pub r assms(1) show ?thesis by (auto simp: stage_publish_def Let_def)
      next
        case False
        then have d: "node_at s ?d = None" by (simp add: lexists_def)
        have "node_at s ?st \<noteq> None" using True by (auto simp: path_exists_def split: option.splits)
        with facts pub have st: "whole u (node_at s ?st)" by (auto simp: stage_facts_def Let_def)
        then obtain es where es: "node_at s ?st = Some (DirNode es)" by (auto simp: whole_def)
        have "sound u s (Rename ?st ?d # [PutUnpack (us_id u) ?r], Inr ?r) (\<lambda>r t. stored u r t \<and> ur_status r = Unpacked)"
        proof (rule sound_cons [OF assms(1)])
          fix t assume "apply_effect (Rename ?st ?d) s = Some t"
          then have t: "t = set_node ?d (DirNode es) (drop_node ?st s)" using es d by simp
          have whole: "whole u (node_at t ?d)" using st es by (simp add: t)
          then have "directory_kept u t" by (auto simp: directory_kept_def Let_def good_def)
          moreover have "is_file t (us_archive u) \<longrightarrow> file_bytes t (us_archive u) = us_bytes u"
            using inv_archive [OF assms(1)] assms(2) archive_cong [of t "us_archive u" s]
            by (auto simp: t site_ok_def)
          moreover have "stage_facts u r' t" if "map_of (ho_unpacks t) (us_id u) = Some (Doc r')" for r'
          proof -
            have "r' = r" using that assms(3) by (simp add: t stored_def)
            with r pub whole site_distinct [of u] show ?thesis by (simp add: stage_facts_def Let_def) (simp add: t)
          qed
          ultimately have "unpack_inv u t" by (simp add: unpack_inv_def)
          then show "sound u t ([PutUnpack (us_id u) ?r], Inr ?r) (\<lambda>r t. stored u r t \<and> ur_status r = Unpacked)"
            using whole by (rule put)
        qed
        with True False pub r show ?thesis by (auto simp: stage_publish_def Let_def)
      qed
    next
      case False
      show ?thesis
      proof (cases "\<not> lexists s ?d \<or> ur_existed r \<and> \<not> lexists s ?b")
        case True
        with False pub r assms(1) show ?thesis by (auto simp: stage_publish_def Let_def)
      next
        case there: False
        with facts pub have "whole u (node_at s ?d)" by (auto simp: stage_facts_def Let_def lexists_def)
        from put [OF assms(1) this] there False pub r show ?thesis
          by (auto simp: stage_publish_def Let_def put_status_def)
      qed
    qed
  qed
qed

text \<open>Once the directory is published, removing the backup and the archive changes nothing that matters.\<close>

lemma upholds_cleanup:
  assumes "unpack_inv u s" and "site_ok u" and "lexists s (us_dest u)"
    and "\<And>e. e \<in> set es \<Longrightarrow> \<exists>p \<in> {site_staging u, us_archive u, site_backup u}. e = Unlink p \<or> e = RemoveTree p"
  shows "upholds (unpack_inv u) (es, q) s \<and> (\<forall>t. perform es s = (t, True) \<longrightarrow>
     unpack_inv u t \<and> (\<forall>r. stored u r t = stored u r s) \<and> node_at t (us_dest u) = node_at s (us_dest u))"
  using assms
proof (induction es arbitrary: s)
  case Nil
  then show ?case by simp
next
  case (Cons e es)
  obtain p where p: "p \<in> {site_staging u, us_archive u, site_backup u}" "e = Unlink p \<or> e = RemoveTree p"
    using Cons.prems(4) by fastforce
  have ne: "p \<noteq> us_dest u" using p(1) Cons.prems(2) site_distinct [of u] by (auto simp: site_ok_def)
  have step: "t = drop_node p s" if "apply_effect e s = Some t" for t
    using that p(2) by (auto split: option.splits node.splits)
  have inv: "unpack_inv u (drop_node p s)" using inv_drop [OF Cons.prems(1,2)] p(1) Cons.prems(3) by blast
  have rest: "upholds (unpack_inv u) (es, q) (drop_node p s) \<and> (\<forall>t. perform es (drop_node p s) = (t, True) \<longrightarrow>
     unpack_inv u t \<and> (\<forall>r. stored u r t = stored u r (drop_node p s)) \<and>
     node_at t (us_dest u) = node_at (drop_node p s) (us_dest u))"
    by (rule Cons.IH) (use inv Cons.prems ne in \<open>auto simp: lexists_def\<close>)
  show ?case
    using Cons.prems(1) step rest ne by (auto simp: upholds_cons split: option.splits)
qed

lemma stage_confirm_sound:
  assumes "unpack_inv u s" and "site_ok u" and "stored u r s" and "ur_status r = Unpacked"
  shows "sound u s (stage_confirm stuck now (us_id u) r s) (\<lambda>_ t. whole u (node_at t (us_dest u)))"
proof (cases "real_dir s (us_dest u)")
  case False
  have "ur_destination r = us_dest u" using inv_facts [OF assms(1,3)] by (simp add: stage_facts_def Let_def)
  with False assms(1) show ?thesis by (simp add: stage_confirm_def Let_def)
next
  case True
  have facts: "stage_facts u r s" using assms(1,3) by (rule inv_facts)
  then have r: "ur_destination r = us_dest u" "ur_archive r = us_archive u" "whole u (node_at s (us_dest u))"
    using assms(4) by (simp_all add: stage_facts_def Let_def)
  have d: "lexists s (us_dest u)" using r(3) by (auto simp: lexists_def whole_def)
  let ?b = "site_backup u" and ?a = "us_archive u"
  define es where "es = (if lexists s ?b \<and> stuck ?b = None then remove_existing_path s ?b else []) @
    (if ur_cleanup_archive r \<and> path_exists s ?a \<and> stuck ?a = None \<and> \<not> real_dir s ?a then [Unlink ?a] else [])"
  have es: "\<exists>p \<in> {site_staging u, us_archive u, site_backup u}. e = Unlink p \<or> e = RemoveTree p" if "e \<in> set es" for e
    using that by (auto simp: es_def remove_existing_path_def split: if_splits)
  have "\<exists>r' out. stage_confirm stuck now (us_id u) r s = (es @ [PutUnpack (us_id u) r'], Inr out) \<and>
      ur_destination r' = us_dest u \<and> ur_archive r' = ?a \<and> ur_status r' = Unpacked"
    using True assms(4) r(1,2) by (simp add: stage_confirm_def Let_def es_def)
  then obtain r' out where plan: "stage_confirm stuck now (us_id u) r s = (es @ [PutUnpack (us_id u) r'], Inr out)"
    and r': "ur_destination r' = us_dest u" "ur_archive r' = ?a" "ur_status r' = Unpacked" by blast
  note clean = upholds_cleanup [OF assms(1,2) d, of es, OF es]
  show ?thesis
    unfolding plan
  proof (rule sound_append)
    show "upholds (unpack_inv u) (es, Inl OSError) s" using clean by blast
    fix t assume "perform es s = (t, True)"
    then have t: "unpack_inv u t" "node_at t (us_dest u) = node_at s (us_dest u)" using clean by blast+
    show "sound u t ([PutUnpack (us_id u) r'], Inr out) (\<lambda>_ t. whole u (node_at t (us_dest u)))"
      by (rule sound_put [OF t(1)]) (use t(2) r r' in \<open>auto simp: stage_facts_def Let_def\<close>)
  qed
qed

lemma resumable_unpack_sound:
  assumes "unpack_inv u s" and "site_ok u"
  shows "sound u s (resumable_unpack (us_env u) stuck now (us_id u) (us_dest u) (us_archive u) overwrite cleanup s)
     (\<lambda>_ t. whole u (node_at t (us_dest u)))"
proof -
  note extracted = sound_chain [OF open_unpack_sound [OF assms] stage_extract_sound [OF _ assms(2)]]
  note moved = sound_chain [OF extracted stage_backup_sound [OF _ assms(2)]]
  note announced = sound_chain [OF moved stage_announce_sound]
  note published = sound_chain [OF announced stage_publish_sound [OF _ assms(2)]]
  show ?thesis
    unfolding resumable_unpack_def
    by (rule sound_chain [OF published stage_confirm_sound [OF _ assms(2)]]) auto
qed

section \<open>Abandonment\<close>

lemma facts_marked:
  "stage_facts u (r\<lparr>ur_abandonment := m, ur_updated_at := t\<rparr>) s = stage_facts u r s"
  by (simp add: stage_facts_def)

lemma drop_staging_sound:
  assumes "unpack_inv u t" and "site_ok u" and "stored u r t"
  shows "sound u t (drop_staging m (site_staging u) s, Inr x) (\<lambda>_. stored u r)"
proof (cases "first_pass m \<and> path_exists s (site_staging u)")
  case True
  have "sound u t ([RemoveTree (site_staging u)], Inr x) (\<lambda>_. stored u r)"
  proof (rule sound_cons [OF assms(1)])
    fix t' assume "apply_effect (RemoveTree (site_staging u)) t = Some t'"
    then have "t' = drop_node (site_staging u) t" by (auto split: option.splits node.splits)
    then have "unpack_inv u t'" "stored u r t'" using inv_drop [OF assms(1,2), of "site_staging u"] assms(3) by simp_all
    then show "sound u t' ([], Inr x) (\<lambda>_. stored u r)" by (rule sound_return)
  qed
  with True show ?thesis by (simp add: drop_staging_def)
next
  case False
  then have "drop_staging m (site_staging u) s = []" by (auto simp: drop_staging_def)
  then show ?thesis using assms by (simp add: sound_return)
qed

lemma rename_back_inv:
  assumes "unpack_inv u s" and "site_ok u" and "stored u r s" and "ur_existed r"
    and "\<not> lexists s (us_dest u)" and "apply_effect (Rename (site_backup u) (us_dest u)) s = Some t"
  shows "unpack_inv u t" and "stored u r t"
proof -
  let ?d = "us_dest u" and ?b = "site_backup u"
  from assms(6) obtain x where x: "node_at s ?b = Some x" by (auto split: option.splits)
  have none: "node_at s ?d = None" using assms(5) by (simp add: lexists_def)
  have t: "t = set_node ?d x (drop_node ?b s)" using assms(6) x none by (cases x) simp_all
  show stored: "stored u r t" using assms(3) by (simp add: t stored_def)
  have "good u (Some x)" using inv_kept [OF assms(1)] x none by (simp add: directory_kept_def Let_def)
  then have "directory_kept u t" by (simp add: t directory_kept_def Let_def)
  moreover have "is_file t (us_archive u) \<longrightarrow> file_bytes t (us_archive u) = us_bytes u"
    using inv_archive [OF assms(1)] assms(2) archive_cong [of t "us_archive u" s] by (auto simp: t site_ok_def)
  moreover have "stage_facts u r' t" if "map_of (ho_unpacks t) (us_id u) = Some (Doc r')" for r'
  proof -
    have "r' = r" using that stored by (simp add: stored_def)
    moreover have "stage_facts u r s" using assms(1,3) by (rule inv_facts)
    ultimately show ?thesis
      using none assms(4) site_distinct [of u] by (auto simp: t stage_facts_def Let_def)
  qed
  ultimately show "unpack_inv u t" by (simp add: unpack_inv_def)
qed

lemma restore_sound:
  assumes "unpack_inv u s" and "site_ok u" and "stored u r s"
  shows "sound u s (restore_topology r m (us_dest u) (site_staging u) (site_backup u) s) (\<lambda>_. stored u r)"
proof -
  let ?d = "us_dest u" and ?b = "site_backup u" and ?st = "site_staging u"
  note quietly = drop_staging_sound [OF assms]
  note refused = sound_refused [OF assms(1)]
  show ?thesis
  proof (cases "rolls_back m")
    case True
    show ?thesis
    proof (cases "m = Rollback \<and> ur_existed r \<and> lexists s ?b \<and> \<not> lexists s ?d")
      case restoring: True
      have "sound u s (Rename ?b ?d # drop_staging m ?st s, Inr ()) (\<lambda>_. stored u r)"
      proof (rule sound_cons [OF assms(1)])
        fix t assume t: "apply_effect (Rename ?b ?d) s = Some t"
        have ex: "ur_existed r" and gone: "\<not> lexists s ?d" using restoring by blast+
        show "sound u t (drop_staging m ?st s, Inr ()) (\<lambda>_. stored u r)"
          by (rule drop_staging_sound [OF rename_back_inv(1) [OF assms ex gone t] assms(2)
                rename_back_inv(2) [OF assms ex gone t]])
      qed
      with True restoring show ?thesis by (simp add: restore_topology_def Let_def)
    next
      case False
      with True quietly refused show ?thesis by (auto simp: restore_topology_def Let_def)
    qed
  next
    case False
    show ?thesis
    proof (cases "m = Commit \<and> real_dir s ?d \<and> ur_existed r \<and> lexists s ?b")
      case removing: True
      have d: "lexists s ?d" using removing by (auto simp: real_dir_def lexists_def split: option.splits)
      have es: "\<exists>p \<in> {site_staging u, us_archive u, site_backup u}. e = Unlink p \<or> e = RemoveTree p"
        if "e \<in> set (remove_existing_path s ?b)" for e
        using that by (auto simp: remove_existing_path_def split: if_splits)
      note clean = upholds_cleanup [OF assms(1,2) d, of "remove_existing_path s ?b", OF es]
      have "sound u s (remove_existing_path s ?b @ drop_staging m ?st s, Inr ()) (\<lambda>_. stored u r)"
      proof (rule sound_append)
        show "upholds (unpack_inv u) (remove_existing_path s ?b, Inl OSError) s" using clean by blast
        fix t assume "perform (remove_existing_path s ?b) s = (t, True)"
        then have t: "unpack_inv u t" "stored u r t" using clean assms(3) by blast+
        show "sound u t (drop_staging m ?st s, Inr ()) (\<lambda>_. stored u r)"
          by (rule drop_staging_sound [OF t(1) assms(2) t(2)])
      qed
      with False removing show ?thesis by (simp add: restore_topology_def Let_def)
    next
      case other: False
      with False quietly refused show ?thesis by (auto simp: restore_topology_def Let_def)
    qed
  qed
qed

lemma sound_relabel:
  assumes "sound u s P (\<lambda>_. Q)"
  shows "sound u s (case P of (es, Inl e) \<Rightarrow> (es, Inl e) | (es, Inr _) \<Rightarrow> (es, Inr x)) (\<lambda>y t. y = x \<and> Q t)"
proof -
  obtain es q where P: "P = (es, q)" by (cases P)
  show ?thesis
  proof (cases q)
    case (Inl e)
    have "upholds (unpack_inv u) (es, Inl e) s"
      using assms upholds_effects [of "unpack_inv u" es q s "Inl e"] by (simp add: sound_def P)
    with Inl P show ?thesis by (intro soundI) (auto simp: complete_def split: prod.splits if_splits)
  next
    case (Inr y)
    have "upholds (unpack_inv u) (es, Inr x) s"
      using assms upholds_effects [of "unpack_inv u" es q s "Inr x"] by (simp add: sound_def P)
    with assms Inr P show ?thesis by (auto simp: sound_def complete_def split: prod.splits if_splits)
  qed
qed

lemma inv_forget:
  assumes "unpack_inv u s" and "ho_nodes t = ho_nodes s" and "map_of (ho_unpacks t) (us_id u) = None"
  shows "unpack_inv u t"
proof -
  have same: "node_at t p = node_at s p" for p using assms(2) by (simp add: node_at_def)
  show ?thesis
    using inv_kept [OF assms(1)] inv_archive [OF assms(1)] assms(3)
      kept_cong [OF same same] archive_cong [OF same]
    by (simp add: unpack_inv_def)
qed

definition settled :: "unpack_site \<Rightarrow> host \<Rightarrow> bool" where
  "settled u s \<longleftrightarrow> map_of (ho_unpacks s) (us_id u) = None \<and> node_at s (site_backup u) = None"

lemma abandon_unpack_sound:
  assumes "unpack_inv u s" and "site_ok u" and "stored u r s"
  shows "sound u s (abandon_unpack_locked now (us_id u) r (us_dest u) (site_staging u) (site_backup u) s) (\<lambda>_. settled u)"
proof -
  let ?Q = "\<lambda>(r, m :: unpack_abandonment). stored u r"
  have put: "sound u t ([PutUnpack (us_id u) (r'\<lparr>ur_abandonment := Some m, ur_updated_at := Some now\<rparr>)],
      Inr (r'\<lparr>ur_abandonment := Some m, ur_updated_at := Some now\<rparr>, m)) ?Q"
    if "unpack_inv u t" "stored u r' t" for t r' m
    by (rule sound_put [OF that(1)]) (use inv_facts [OF that] facts_marked in simp_all)
  have mark: "sound u s (mark_abandonment now (us_id u) r (us_dest u) (site_staging u) (site_backup u) s) ?Q"
    using assms put [OF assms(1,3)]
    by (auto simp: mark_abandonment_def Let_def intro: sound_return split: option.splits sum.splits)
  have restore: "sound u t (case x of (r, m) \<Rightarrow>
      case restore_topology r m (us_dest u) (site_staging u) (site_backup u) t of
        (es, Inl e) \<Rightarrow> (es, Inl e) | (es, Inr _) \<Rightarrow> (es, Inr (r, m))) ?Q"
    if "unpack_inv u t" "?Q x t" for t x
  proof (cases x)
    case (Pair r' m)
    with that have "stored u r' t" by simp
    from sound_relabel [OF restore_sound [OF that(1) assms(2) this], where x = "(r', m)"] Pair
    show ?thesis by (auto simp: sound_def)
  qed
  have advance: "sound u t (case x of (r, m) \<Rightarrow> advance_mark now (us_id u) r m) ?Q"
    if "unpack_inv u t" "?Q x t" for t x
    using that put by (cases x) (auto simp: advance_mark_def Let_def intro: sound_return)
  have forget: "sound u t (case x of (r, m) \<Rightarrow>
      forget_unpack (us_id u) r m (us_dest u) (site_staging u) (site_backup u) t) (\<lambda>_. settled u)"
    if "unpack_inv u t" "?Q x t" for t x
  proof (cases x)
    case (Pair r' m)
    with that have st: "stored u r' t" by simp
    then have a: "ur_archive r' = us_archive u" using inv_facts [OF that(1)] by (simp add: stage_facts_def Let_def)
    have dropped: "sound u t' ([DropUnpack (us_id u)], Inr True) (\<lambda>_. settled u)"
      if "unpack_inv u t'" and "node_at t' (site_backup u) = None" for t'
    proof (rule sound_cons [OF that(1)])
      fix t'' assume "apply_effect (DropUnpack (us_id u)) t' = Some t''"
      then have t'': "t'' = t'\<lparr>ho_unpacks := AList.delete (us_id u) (ho_unpacks t')\<rparr>" by simp
      have "unpack_inv u t''" by (rule inv_forget [OF that(1)]) (simp_all add: t'')
      moreover have "settled u t''" using that(2) by (simp add: settled_def t'')
      ultimately show "sound u t'' ([], Inr True) (\<lambda>_. settled u)" by (rule sound_return)
    qed
    show ?thesis
    proof (cases "lexists t (site_backup u)")
      case True
      with Pair that(1) show ?thesis by (simp add: forget_unpack_def)
    next
      case False
      then have none: "node_at t (site_backup u) = None" by (simp add: lexists_def)
      have both: "sound u t (Unlink (us_archive u) # [DropUnpack (us_id u)], Inr True) (\<lambda>_. settled u)"
      proof (rule sound_cons [OF that(1)])
        fix t' assume "apply_effect (Unlink (us_archive u)) t = Some t'"
        then have t': "t' = drop_node (us_archive u) t" by (auto split: option.splits node.splits)
        have "unpack_inv u t'" unfolding t' using inv_drop [OF that(1) assms(2)] by blast
        then show "sound u t' ([DropUnpack (us_id u)], Inr True) (\<lambda>_. settled u)"
          by (rule dropped) (simp add: t' none)
      qed
      show ?thesis
        using Pair dropped [OF that(1) none] both that(1) a by (simp add: forget_unpack_def)
    qed
  qed
  show ?thesis
    unfolding abandon_unpack_locked_def
    by (rule sound_chain [OF sound_chain [OF sound_chain [OF mark restore] advance] forget])
qed

lemma abandon_receipt_sound:
  assumes "unpack_inv u s" and "site_ok u"
  shows "sound u s (abandon_unpack_receipt (us_env u) now (us_id u) s)
     (\<lambda>settles t. settles \<longrightarrow> settled u t)"
proof (cases "map_of (ho_unpacks s) (us_id u)")
  case None
  with assms(1) show ?thesis by (simp add: abandon_unpack_receipt_def sound_return)
next
  case (Some c)
  show ?thesis
  proof (cases "load_unpack_receipt c")
    case (Inl e)
    with Some assms(1) show ?thesis by (simp add: abandon_unpack_receipt_def)
  next
    case (Inr r)
    then have "c = Doc r" by (cases c) (auto simp: load_unpack_receipt_def split: if_splits)
    with Some have st: "stored u r s" by (simp add: stored_def)
    then have d: "ur_destination r = us_dest u"
      using inv_facts [OF assms(1)] by (simp add: stage_facts_def Let_def)
    show ?thesis
      using Some Inr d assms(1) sound_weaken [OF abandon_unpack_sound [OF assms st]]
      by (auto simp: abandon_unpack_receipt_def split: sum.splits)
  qed
qed

section \<open>The machine\<close>

text \<open>
  Unpacks and abandonments of the transfer, each of which may stop after any of its effects, and the
  release of its receipts. The rest of the host may do anything that leaves the two directories and the
  receipt alone and puts nothing but the same bytes in place of the archive.
\<close>

inductive unpack_step :: "unpack_site \<Rightarrow> host \<Rightarrow> host \<Rightarrow> bool" for u where
  unpacks: "unpack_step u s (interrupted n
     (resumable_unpack (us_env u) stuck now (us_id u) (us_dest u) (us_archive u) overwrite cleanup s) s)"
| abandons: "unpack_step u s (interrupted n (abandon_unpack_receipt (us_env u) now (us_id u) s) s)"
| releases: "unpack_step u s (interrupted n (release_receipts (transfer_env.truncate (us_env u)) (us_id u) s) s)"
| others: "node_at t (us_dest u) = node_at s (us_dest u) \<Longrightarrow>
     node_at t (site_backup u) = node_at s (site_backup u) \<Longrightarrow>
     node_at t (site_staging u) = node_at s (site_staging u) \<Longrightarrow>
     map_of (ho_unpacks t) (us_id u) = map_of (ho_unpacks s) (us_id u) \<Longrightarrow>
     (\<not> is_file t (us_archive u) \<or> file_bytes t (us_archive u) = us_bytes u) \<Longrightarrow> unpack_step u s t"

definition unpack_init :: "unpack_site \<Rightarrow> host \<Rightarrow> bool" where
  "unpack_init u s \<longleftrightarrow>
     site_ok u \<and> node_at s (us_dest u) = us_old u \<and> node_at s (site_backup u) = None \<and>
     (is_file s (us_archive u) \<longrightarrow> file_bytes s (us_archive u) = us_bytes u) \<and>
     map_of (ho_unpacks s) (us_id u) = None"

definition site_inv :: "unpack_site \<Rightarrow> host \<Rightarrow> bool" where
  "site_inv u s \<longleftrightarrow> site_ok u \<and> unpack_inv u s"

lemma sound_interrupted: "sound u s P post \<Longrightarrow> unpack_inv u (interrupted n P s)"
  by (simp add: sound_def upholds_def)

lemma release_sound:
  assumes "unpack_inv u s"
  shows "sound u s (release_receipts env (us_id u) s) (\<lambda>_ _. True)"
proof -
  have "sound u s ([DropWrite (us_id u), DropUnpack (us_id u)], Inr x) (\<lambda>_ _. True)" for x :: "bool \<times> bool"
  proof (rule sound_cons [OF assms])
    fix t assume "apply_effect (DropWrite (us_id u)) s = Some t"
    then have t: "t = s\<lparr>ho_writes := AList.delete (us_id u) (ho_writes s)\<rparr>" by simp
    have inv: "unpack_inv u t"
      by (rule inv_same_site [OF assms]) (simp_all add: t same_site_def node_at_def)
    show "sound u t ([DropUnpack (us_id u)], Inr x) (\<lambda>_ _. True)"
    proof (rule sound_cons [OF inv])
      fix t' assume "apply_effect (DropUnpack (us_id u)) t = Some t'"
      then have "unpack_inv u t'" by (intro inv_forget [OF inv]) auto
      then show "sound u t' ([], Inr x) (\<lambda>_ _. True)" by (rule sound_return) simp
    qed
  qed
  with assms show ?thesis by (auto simp: release_receipts_def split: sum.splits)
qed

lemma others_inv:
  assumes "unpack_inv u s"
    and "node_at t (us_dest u) = node_at s (us_dest u)" and "node_at t (site_backup u) = node_at s (site_backup u)"
    and "node_at t (site_staging u) = node_at s (site_staging u)"
    and "map_of (ho_unpacks t) (us_id u) = map_of (ho_unpacks s) (us_id u)"
    and "\<not> is_file t (us_archive u) \<or> file_bytes t (us_archive u) = us_bytes u"
  shows "unpack_inv u t"
  unfolding unpack_inv_def
proof (intro conjI allI impI)
  show "directory_kept u t" using inv_kept [OF assms(1)] kept_cong [OF assms(2,3)] by simp
  show "is_file t (us_archive u) \<Longrightarrow> file_bytes t (us_archive u) = us_bytes u" using assms(6) by simp
  fix r assume "map_of (ho_unpacks t) (us_id u) = Some (Doc r)"
  then have "stage_facts u r s" using inv_facts [OF assms(1)] assms(5) by (simp add: stored_def)
  then show "stage_facts u r t" using assms(2-4) by (simp add: stage_facts_def)
qed

lemma unpack_step_inv:
  assumes "site_inv u s" and "unpack_step u s t"
  shows "site_inv u t"
proof -
  have ok: "site_ok u" and inv: "unpack_inv u s" using assms(1) by (simp_all add: site_inv_def)
  from assms(2) have "unpack_inv u t"
  proof cases
    case unpacks
    then show ?thesis using sound_interrupted [OF resumable_unpack_sound [OF inv ok]] by simp
  next
    case abandons
    then show ?thesis using sound_interrupted [OF abandon_receipt_sound [OF inv ok]] by simp
  next
    case releases
    then show ?thesis using sound_interrupted [OF release_sound [OF inv]] by simp
  next
    case others
    then show ?thesis by (intro others_inv [OF inv])
  qed
  with ok show ?thesis by (simp add: site_inv_def)
qed

interpretation unpacks: invariant_machine "unpack_init u" "unpack_step u" "site_inv u" for u
proof
  fix s assume "unpack_init u s"
  then show "site_inv u s"
    by (auto simp: unpack_init_def site_inv_def unpack_inv_def directory_kept_def good_def Let_def)
next
  fix s t assume "site_inv u s" "unpack_step u s t"
  then show "site_inv u t" by (rule unpack_step_inv)
qed

text \<open>C36. A directory is never lost while an archive replaces it: whatever unpacks, abandonments and
  releases of a transfer run, and wherever the process dies in them, the destination is the old directory or
  the complete content of the archive, or it is absent and the backup beside it is one of the two
  (unless there was nothing at the destination to begin with).\<close>

theorem directory_never_lost:
  assumes "reach (unpack_init u) (unpack_step u) s"
  shows "directory_kept u s"
  using unpacks.reach_inv [OF assms] inv_kept by (simp add: site_inv_def)

text \<open>C37. An unpack that reports success has published exactly what the archive describes, however often
  the process died on the way to it.\<close>

theorem unpacked_directory_is_archive:
  assumes "reach (unpack_init u) (unpack_step u) s"
    and "complete (resumable_unpack (us_env u) stuck now (us_id u) (us_dest u) (us_archive u) overwrite cleanup s) s =
      (t, Inr out)"
  shows "\<exists>es. archive_tree (us_env u) (us_bytes u) = Inr es \<and> node_at t (us_dest u) = Some (DirNode es)"
proof -
  have "site_inv u s" using assms(1) by (rule unpacks.reach_inv)
  then have "sound u s (resumable_unpack (us_env u) stuck now (us_id u) (us_dest u) (us_archive u) overwrite cleanup s)
      (\<lambda>_ t. whole u (node_at t (us_dest u)))"
    by (intro resumable_unpack_sound) (simp_all add: site_inv_def)
  with assms(2) show ?thesis by (auto simp: sound_def whole_def)
qed

text \<open>An abandonment that reports that it reconciled the transfer leaves no receipt and no backup behind,
  and the destination is what it was before the transfer or the complete content of the archive.\<close>

theorem abandonment_settles_directory:
  assumes "reach (unpack_init u) (unpack_step u) s"
    and "complete (abandon_unpack_receipt (us_env u) now (us_id u) s) s = (t, Inr True)"
  shows "map_of (ho_unpacks t) (us_id u) = None \<and> node_at t (site_backup u) = None \<and>
     (node_at t (us_dest u) = us_old u \<or> whole u (node_at t (us_dest u)))"
proof -
  have "site_inv u s" using assms(1) by (rule unpacks.reach_inv)
  then have "sound u s (abandon_unpack_receipt (us_env u) now (us_id u) s) (\<lambda>settles t. settles \<longrightarrow> settled u t)"
    by (intro abandon_receipt_sound) (simp_all add: site_inv_def)
  with assms(2) have inv: "unpack_inv u t" and settled: "settled u t" by (auto simp: sound_def)
  from inv_kept [OF inv] settled have "good u (node_at t (us_dest u))"
    by (auto simp: directory_kept_def settled_def good_def Let_def split: if_splits)
  with settled show ?thesis by (simp add: settled_def good_def)
qed

section \<open>An unpack that dies between its two renames\<close>

definition pub_demo_member :: archive_member where
  "pub_demo_member = \<lparr>am_name = lit ''f'', am_kind = MemberFile, am_sparse = False, am_size = 1, am_data = [7]\<rparr>"

definition pub_demo_old :: node where
  "pub_demo_old = DirNode [EntryFile [lit ''o''] [1]]"

definition pub_demo_env :: unpack_env where
  "pub_demo_env = \<lparr>te_alnum = (\<lambda>_. False), te_given = (\<lambda>_. Inr (lit ''/w'', lit ''d'')), te_bound = Inr,
     te_scratch = Inr, te_in_scratch = (\<lambda>_. False), te_sha = (\<lambda>_. []),
     ue_archive = (\<lambda>_. Inr (lit ''/x'', lit ''a'')), ue_archive_bound = Inr,
     ue_tar = (\<lambda>_. Inr [pub_demo_member]),
     ue_max_entries = 10, ue_max_bytes = 10\<rparr>"

definition pub_demo :: unpack_site where
  "pub_demo = \<lparr>us_env = pub_demo_env, us_id = lit ''t1'', us_dest = (lit ''/w'', lit ''d''),
     us_archive = (lit ''/x'', lit ''a''), us_bytes = [9],
     us_old = Some pub_demo_old\<rparr>"

definition pub_demo_entry :: entry where
  "pub_demo_entry = EntryFile [lit ''f''] [7]"

definition pub_demo_start :: host where
  "pub_demo_start = \<lparr>ho_nodes = [(us_dest pub_demo, pub_demo_old),
     (us_archive pub_demo, FileNode 3 [9])], ho_metas = [], ho_writes = [], ho_unpacks = []\<rparr>"

definition pub_demo_receipt :: "unpack_status \<Rightarrow> unpack_receipt" where
  "pub_demo_receipt st =
     (new_unpack_receipt 5 (us_dest pub_demo) (us_archive pub_demo) True False 1 True)\<lparr>ur_status := st,
       ur_updated_at := (if st = Extracting then None else Some 5)\<rparr>"

lemma pub_demo_site_ok: "site_ok pub_demo"
  by (auto simp: site_ok_def pub_demo_def unpack_staging_def unpack_backup_def)

lemma pub_demo_archive:
  "us_archive pub_demo \<noteq> us_dest pub_demo" "us_archive pub_demo \<noteq> site_staging pub_demo"
  "us_archive pub_demo \<noteq> site_backup pub_demo"
  using pub_demo_site_ok by (simp_all add: site_ok_def)

lemmas pub_demo_distinct = pub_demo_archive pub_demo_archive [symmetric] site_distinct [of pub_demo]

lemma pub_demo_env_ok: "us_env pub_demo = pub_demo_env"
  by (simp add: pub_demo_def)

lemma pub_demo_fields:
  "ur_destination (pub_demo_receipt st) = us_dest pub_demo" "ur_archive (pub_demo_receipt st) = us_archive pub_demo"
  "ur_overwrite (pub_demo_receipt st)" "\<not> ur_cleanup_archive (pub_demo_receipt st)"
  "ur_entries (pub_demo_receipt st) = 1" "ur_existed (pub_demo_receipt st)" "ur_status (pub_demo_receipt st) = st"
  "ur_abandonment (pub_demo_receipt st) = None"
  by (simp_all add: pub_demo_receipt_def new_unpack_receipt_def)

lemma pub_demo_receipt_ok: "unpack_receipt_ok (pub_demo_receipt st)"
  by (simp add: unpack_receipt_ok_def pub_demo_receipt_def new_unpack_receipt_def pub_demo_def receipt_path_ok_def path_str_def)

lemma pub_demo_members:
  "safe_members pub_demo_env bs = Inr [pub_demo_member]"
  by (simp add: safe_members_def pub_demo_env_def pub_demo_member_def path_parts_def starts_with_def)

lemma pub_demo_place:
  "place_member [] pub_demo_member = Inr pub_demo_entry"
  by (simp add: place_member_def pub_demo_member_def path_parts_def pub_demo_entry_def file_above_def occupied_def)

lemma pub_demo_tree: "archive_tree pub_demo_env bs = Inr [pub_demo_entry]"
  by (simp add: archive_tree_def pub_demo_members pub_demo_place)

lemma pub_demo_open:
  "open_unpack pub_demo_env 5 (us_id pub_demo) (us_dest pub_demo) (us_archive pub_demo) True False pub_demo_start =
     ([PutUnpack (us_id pub_demo) (pub_demo_receipt Extracting)], Inr (pub_demo_receipt Extracting))"
proof -
  have "new_unpack_receipt 5 (us_dest pub_demo) (us_archive pub_demo) True False 1 True = pub_demo_receipt Extracting"
    by (simp add: pub_demo_receipt_def new_unpack_receipt_def)
  then show ?thesis
    using pub_demo_distinct
    by (simp add: open_unpack_def pub_demo_members pub_demo_start_def remove_tree_quietly_def real_dir_def
        node_at_def lexists_def is_file_def Let_def)
qed

lemma pub_demo_extract:
  assumes "node_at s (us_dest pub_demo) \<noteq> None" "node_at s (site_backup pub_demo) = None"
    "node_at s (site_staging pub_demo) = None" "node_at s (us_archive pub_demo) = Some (FileNode 3 [9])"
  shows "stage_extract pub_demo_env 5 (us_id pub_demo) (pub_demo_receipt Extracting) s =
     ([MakeDir (site_staging pub_demo), FillDir (site_staging pub_demo) pub_demo_entry,
       PutUnpack (us_id pub_demo) (pub_demo_receipt Prepared)], Inr (pub_demo_receipt Prepared))"
  using assms
  by (simp add: stage_extract_def extract_archive_def extracting_topology_def pub_demo_fields lexists_def is_file_def
      pub_demo_members pub_demo_place remove_tree_quietly_def real_dir_def Let_def)
     (simp add: pub_demo_receipt_def)

lemma pub_demo_backup:
  assumes "node_at s (site_staging pub_demo) = Some (DirNode es)"
    "(node_at s (site_backup pub_demo) = None) \<noteq> (node_at s (us_dest pub_demo) = None)"
  shows "stage_backup (us_id pub_demo) (pub_demo_receipt Prepared) s =
     ((if node_at s (site_backup pub_demo) = None then [Rename (us_dest pub_demo) (site_backup pub_demo)] else []) @
      [PutUnpack (us_id pub_demo) (pub_demo_receipt BackupMoved)], Inr (pub_demo_receipt BackupMoved))"
  using assms
  by (auto simp: stage_backup_def pub_demo_fields lexists_def path_exists_def Let_def)
     (simp_all add: pub_demo_receipt_def)

lemma pub_demo_announce:
  assumes "node_at s (site_staging pub_demo) = Some (DirNode es)"
    "node_at s (site_backup pub_demo) \<noteq> None" "node_at s (us_dest pub_demo) = None"
  shows "stage_announce (us_id pub_demo) (pub_demo_receipt BackupMoved) s =
     ([PutUnpack (us_id pub_demo) (pub_demo_receipt Publishing)], Inr (pub_demo_receipt Publishing))"
  using assms
  by (simp add: stage_announce_def pub_demo_fields lexists_def path_exists_def put_status_def Let_def)
     (simp add: pub_demo_receipt_def)

lemma pub_demo_publish:
  assumes "node_at s (site_staging pub_demo) = Some (DirNode es)"
    "node_at s (site_backup pub_demo) \<noteq> None" "node_at s (us_dest pub_demo) = None"
  shows "\<exists>r. ur_status r = Unpacked \<and> ur_destination r = us_dest pub_demo \<and>
     stage_publish 5 (us_id pub_demo) (pub_demo_receipt Publishing) s =
       ([Rename (site_staging pub_demo) (us_dest pub_demo), PutUnpack (us_id pub_demo) r], Inr r)"
  using assms by (simp add: stage_publish_def pub_demo_fields lexists_def path_exists_def Let_def)

lemma pub_demo_confirm:
  assumes "node_at s (us_dest pub_demo) = Some (DirNode es)" "node_at s (site_backup pub_demo) = Some (DirNode fs)"
    "ur_status r = Unpacked" "ur_destination r = us_dest pub_demo"
  shows "\<exists>t x. complete (stage_confirm (\<lambda>_. Some []) 5 (us_id pub_demo) r s) s = (t, Inr x)"
  using assms by (simp add: stage_confirm_def complete_def lexists_def real_dir_def Let_def)

lemma interrupted_chain:
  "n \<le> length (fst p) \<Longrightarrow> interrupted n (chain p s c) s = interrupted n p s"
  by (auto simp: interrupted_def chain_def split: prod.splits sum.splits)

lemma length_chain: "length (fst p) \<le> length (fst (chain p s c))"
  by (auto simp: chain_def split: prod.splits sum.splits)

lemma interrupted_chains:
  assumes "n \<le> length (fst p)"
  shows "interrupted n (chain (chain (chain p s a) s b) s c) s = interrupted n p s"
proof -
  have a: "n \<le> length (fst (chain p s a))" using assms length_chain by (rule le_trans)
  then have "n \<le> length (fst (chain (chain p s a) s b))" using length_chain by (rule le_trans)
  with a assms show ?thesis by (simp add: interrupted_chain)
qed

abbreviation pub_demo_run :: "host \<Rightarrow> unpack_output plan" where
  "pub_demo_run \<equiv> resumable_unpack pub_demo_env (\<lambda>_. Some []) 5 (us_id pub_demo) (us_dest pub_demo)
     (us_archive pub_demo) True False"

definition pub_demo_crash :: host where
  "pub_demo_crash = interrupted 5 (pub_demo_run pub_demo_start) pub_demo_start"

lemma rename_fresh:
  "node_at s q = None \<Longrightarrow> node_at s p = Some x \<Longrightarrow> apply_effect (Rename p q) s = Some (set_node q x (drop_node p s))"
  by (cases x) simp_all

lemma pub_demo_start_nodes:
  "node_at pub_demo_start (us_dest pub_demo) = Some pub_demo_old"
  "node_at pub_demo_start (us_archive pub_demo) = Some (FileNode 3 [9])"
  "node_at pub_demo_start (site_staging pub_demo) = None" "node_at pub_demo_start (site_backup pub_demo) = None"
  "ho_unpacks pub_demo_start = []"
  using pub_demo_distinct by (simp_all add: pub_demo_start_def node_at_def)

lemma pub_demo_crash_state:
  "node_at pub_demo_crash (us_dest pub_demo) = None"
  "node_at pub_demo_crash (site_staging pub_demo) = Some (DirNode [pub_demo_entry])"
  "node_at pub_demo_crash (site_backup pub_demo) = Some pub_demo_old"
  "map_of (ho_unpacks pub_demo_crash) (us_id pub_demo) = Some (Doc (pub_demo_receipt Prepared))"
proof -
  let ?P = "chain (chain (open_unpack pub_demo_env 5 (us_id pub_demo) (us_dest pub_demo) (us_archive pub_demo) True False pub_demo_start) pub_demo_start
    (\<lambda>t r. stage_extract pub_demo_env 5 (us_id pub_demo) r t)) pub_demo_start (\<lambda>t r. stage_backup (us_id pub_demo) r t)"
  note nodes = pub_demo_start_nodes pub_demo_distinct
  have P: "fst ?P = [PutUnpack (us_id pub_demo) (pub_demo_receipt Extracting), MakeDir (site_staging pub_demo),
      FillDir (site_staging pub_demo) pub_demo_entry, PutUnpack (us_id pub_demo) (pub_demo_receipt Prepared),
      Rename (us_dest pub_demo) (site_backup pub_demo), PutUnpack (us_id pub_demo) (pub_demo_receipt BackupMoved)]"
    by (simp add: chain_def pub_demo_open pub_demo_extract nodes lexists_def pub_demo_backup)
  have "pub_demo_crash = interrupted 5 ?P pub_demo_start"
    unfolding pub_demo_crash_def resumable_unpack_def
    by (rule interrupted_chains) (simp add: P)
  then have crash: "pub_demo_crash = fst (perform (take 5 (fst ?P)) pub_demo_start)" by (simp add: interrupted_def)
  show "node_at pub_demo_crash (us_dest pub_demo) = None"
    "node_at pub_demo_crash (site_staging pub_demo) = Some (DirNode [pub_demo_entry])"
    "node_at pub_demo_crash (site_backup pub_demo) = Some pub_demo_old"
    "map_of (ho_unpacks pub_demo_crash) (us_id pub_demo) = Some (Doc (pub_demo_receipt Prepared))"
    unfolding crash P by (simp_all add: nodes lexists_def rename_fresh del: apply_effect.simps(11))
qed


lemma pub_demo_reach: "reach (unpack_init pub_demo) (unpack_step pub_demo) pub_demo_crash"
proof -
  have "unpack_init pub_demo pub_demo_start"
    by (simp add: unpack_init_def pub_demo_site_ok pub_demo_start_nodes is_file_def file_bytes_def)
       (simp add: pub_demo_def)
  moreover have "unpack_step pub_demo pub_demo_start pub_demo_crash"
    unfolding pub_demo_crash_def pub_demo_env_ok [symmetric] by (rule unpacks)
  ultimately show ?thesis by (blast intro: reach_init reach_step)
qed

theorem directory_never_lost_witness:
  "node_at pub_demo_crash (us_dest pub_demo) = None \<and> directory_kept pub_demo pub_demo_crash"
  using pub_demo_crash_state(1) directory_never_lost [OF pub_demo_reach] by simp

lemma pub_demo_resume:
  obtains t x where "complete (pub_demo_run pub_demo_crash) pub_demo_crash = (t, Inr x)"
proof -
  let ?c = "pub_demo_crash" and ?k = "us_id pub_demo"
  note nodes = pub_demo_crash_state pub_demo_distinct
  have opened: "complete (open_unpack pub_demo_env 5 ?k (us_dest pub_demo) (us_archive pub_demo) True False ?c) ?c =
      (?c, Inr (pub_demo_receipt Prepared))"
    by (simp add: open_unpack_def nodes read_unpack_receipt_def load_unpack_receipt_def pub_demo_receipt_ok
        pub_demo_fields complete_def)
  have extracted: "complete (stage_extract pub_demo_env 5 ?k (pub_demo_receipt Prepared) ?c) ?c =
      (?c, Inr (pub_demo_receipt Prepared))"
    by (simp add: stage_extract_def pub_demo_fields complete_def)
  define c1 where "c1 = ?c\<lparr>ho_unpacks := AList.update ?k (Doc (pub_demo_receipt BackupMoved)) (ho_unpacks ?c)\<rparr>"
  have moved: "complete (stage_backup ?k (pub_demo_receipt Prepared) ?c) ?c = (c1, Inr (pub_demo_receipt BackupMoved))"
    by (simp add: pub_demo_backup [OF nodes(2)] nodes complete_def c1_def)
  have n1: "node_at c1 p = node_at ?c p" for p by (simp add: c1_def)
  define c2 where "c2 = c1\<lparr>ho_unpacks := AList.update ?k (Doc (pub_demo_receipt Publishing)) (ho_unpacks c1)\<rparr>"
  have announced: "complete (stage_announce ?k (pub_demo_receipt BackupMoved) c1) c1 = (c2, Inr (pub_demo_receipt Publishing))"
    by (simp add: pub_demo_announce [of c1] n1 nodes complete_def c2_def)
  have n2: "node_at c2 p = node_at ?c p" for p by (simp add: c2_def n1)
  obtain r where r: "ur_status r = Unpacked" "ur_destination r = us_dest pub_demo"
    "stage_publish 5 ?k (pub_demo_receipt Publishing) c2 =
       ([Rename (site_staging pub_demo) (us_dest pub_demo), PutUnpack ?k r], Inr r)"
    using pub_demo_publish [of c2] n2 nodes by auto
  define c3 where "c3 = (set_node (us_dest pub_demo) (DirNode [pub_demo_entry]) (drop_node (site_staging pub_demo) c2))
      \<lparr>ho_unpacks := AList.update ?k (Doc r) (ho_unpacks c2)\<rparr>"
  have published: "complete (stage_publish 5 ?k (pub_demo_receipt Publishing) c2) c2 = (c3, Inr r)"
    by (simp add: r n2 nodes complete_def c3_def)
  have "node_at c3 (us_dest pub_demo) = Some (DirNode [pub_demo_entry])"
    "node_at c3 (site_backup pub_demo) = Some pub_demo_old"
    by (simp_all add: c3_def n2 nodes)
  from pub_demo_confirm [OF this [unfolded pub_demo_old_def] r(1,2)]
  obtain t x where "complete (stage_confirm (\<lambda>_. Some []) 5 ?k r c3) c3 = (t, Inr x)" by blast
  then have "complete (pub_demo_run ?c) ?c = (t, Inr x)"
    unfolding resumable_unpack_def complete_chain by (simp add: opened extracted moved announced published)
  then show ?thesis by (rule that)
qed

theorem unpacked_directory_is_archive_witness:
  "\<exists>t. node_at t (us_dest pub_demo) = Some (DirNode [pub_demo_entry]) \<and>
     fst (complete (pub_demo_run pub_demo_crash) pub_demo_crash) = t"
proof -
  obtain t x where t: "complete (pub_demo_run pub_demo_crash) pub_demo_crash = (t, Inr x)" by (rule pub_demo_resume)
  from unpacked_directory_is_archive [OF pub_demo_reach t [folded pub_demo_env_ok]]
  have "node_at t (us_dest pub_demo) = Some (DirNode [pub_demo_entry])"
    by (simp add: pub_demo_env_ok pub_demo_tree)
  with t show ?thesis by simp
qed

lemma pub_demo_abandon:
  obtains t where "complete (abandon_unpack_receipt pub_demo_env 5 (us_id pub_demo) pub_demo_crash) pub_demo_crash = (t, Inr True)"
    and "node_at t (us_dest pub_demo) = Some pub_demo_old"
proof -
  let ?c = "pub_demo_crash" and ?k = "us_id pub_demo" and ?d = "us_dest pub_demo"
    and ?st = "site_staging pub_demo" and ?b = "site_backup pub_demo"
  note nodes = pub_demo_crash_state pub_demo_distinct
  define r1 where "r1 = pub_demo_receipt Prepared\<lparr>ur_abandonment := Some Rollback, ur_updated_at := Some 5\<rparr>"
  define r2 where "r2 = r1\<lparr>ur_abandonment := Some RollbackArchive, ur_updated_at := Some 5\<rparr>"
  have r: "ur_existed r1" "ur_existed r2" "\<not> ur_cleanup_archive r2"
    by (simp_all add: r1_def r2_def pub_demo_fields)
  define c1 where "c1 = ?c\<lparr>ho_unpacks := AList.update ?k (Doc r1) (ho_unpacks ?c)\<rparr>"
  have n1: "node_at c1 p = node_at ?c p" for p by (simp add: c1_def)
  have marked: "complete (mark_abandonment 5 ?k (pub_demo_receipt Prepared) ?d ?st ?b ?c) ?c = (c1, Inr (r1, Rollback))"
    by (simp add: mark_abandonment_def abandonment_mark_def pub_demo_fields lexists_def nodes complete_def c1_def r1_def Let_def)
  define c2 where "c2 = drop_node ?st (set_node ?d pub_demo_old (drop_node ?b c1))"
  have "restore_topology r1 Rollback ?d ?st ?b c1 = ([Rename ?b ?d, RemoveTree ?st], Inr ())"
    by (simp add: restore_topology_def rolls_back_def drop_staging_def first_pass_def lexists_def path_exists_def
        n1 nodes r Let_def)
  moreover have "perform [Rename ?b ?d, RemoveTree ?st] c1 = (c2, True)"
    by (simp add: rename_fresh n1 nodes c2_def del: apply_effect.simps(11))
  ultimately have restored: "complete (case restore_topology r1 Rollback ?d ?st ?b c1 of
      (es, Inl e) \<Rightarrow> (es, Inl e) | (es, Inr _) \<Rightarrow> (es, Inr (r1, Rollback))) c1 = (c2, Inr (r1, Rollback))"
    by (simp add: complete_def del: perform.simps)
  define c3 where "c3 = c2\<lparr>ho_unpacks := AList.update ?k (Doc r2) (ho_unpacks c2)\<rparr>"
  have advanced: "complete (advance_mark 5 ?k r1 Rollback) c2 = (c3, Inr (r2, RollbackArchive))"
    by (simp add: advance_mark_def first_pass_def complete_def c3_def r2_def Let_def)
  have n3: "node_at c3 ?d = Some pub_demo_old" "node_at c3 ?b = None" "node_at c3 ?st = None"
    using nodes by (simp_all add: c3_def c2_def n1)
  define c4 where "c4 = c3\<lparr>ho_unpacks := AList.delete ?k (ho_unpacks c3)\<rparr>"
  have forgotten: "complete (forget_unpack ?k r2 RollbackArchive ?d ?st ?b c3) c3 = (c4, Inr True)"
    by (simp add: forget_unpack_def rolls_back_def lexists_def path_exists_def n3 r complete_def c4_def)
  have "complete (abandon_unpack_locked 5 ?k (pub_demo_receipt Prepared) ?d ?st ?b ?c) ?c = (c4, Inr True)"
    unfolding abandon_unpack_locked_def complete_chain by (simp add: marked restored advanced forgotten)
  moreover have "te_bound pub_demo_env p = Inr p" "ue_archive_bound pub_demo_env p = Inr p" for p
    by (simp_all add: pub_demo_env_def)
  ultimately have "complete (abandon_unpack_receipt pub_demo_env 5 ?k ?c) ?c = (c4, Inr True)"
    by (simp add: abandon_unpack_receipt_def nodes load_unpack_receipt_def pub_demo_receipt_ok pub_demo_fields)
  then show ?thesis by (rule that) (simp add: c4_def n3)
qed

theorem abandonment_settles_directory_witness:
  "\<exists>t. fst (complete (abandon_unpack_receipt pub_demo_env 5 (us_id pub_demo) pub_demo_crash) pub_demo_crash) = t \<and>
     node_at t (site_backup pub_demo) = None \<and> node_at t (us_dest pub_demo) = Some pub_demo_old"
proof -
  obtain t where t: "complete (abandon_unpack_receipt pub_demo_env 5 (us_id pub_demo) pub_demo_crash) pub_demo_crash = (t, Inr True)"
    and d: "node_at t (us_dest pub_demo) = Some pub_demo_old" by (rule pub_demo_abandon)
  from abandonment_settles_directory [OF pub_demo_reach t [folded pub_demo_env_ok]] t d show ?thesis by simp
qed

end
