(* ===== verification/Tool_Sessions.thy ===== *)
theory Tool_Sessions
  imports State_Store Protocol "HOL-Library.Product_Lexorder"
begin

text \<open>
  Execution sessions on an executor and the snapshots that ground edits,
  \<open>src/src/workgate/executor/tool_session\<close>: \<open>records.py\<close>, \<open>repository.py\<close>, \<open>resources.py\<close>,
  \<open>snapshots.py\<close> and \<open>store.py\<close>.

  Every session is a directory with two JSON files, its metadata and its snapshots. Both caches of the
  code are refreshed from the files at the start of every operation that reads them, so they are not
  part of the state. Each operation is one transaction of the session and one step here; \<open>now\<close> is the
  clock and \<open>w\<close> the outcome of its durable write.

  \<open>text_of\<close> is \<open>str(v)\<close> of a JSON value that is no string, \<open>int_of\<close> is \<open>int(v)\<close> of one that is no number.
  A JSON number without a fraction stands for an \<open>int\<close>. \<open>snap_bytes\<close> is the length of the encoding of
  a list of snapshots.
\<close>

section \<open>Records\<close>

record agent_session =
  as_id :: ustr
  as_workdir :: ustr
  as_created_at :: time
  as_updated_at :: time
  as_label :: "ustr option"
  as_termination :: "time option"
  as_shells :: "ustr list"

record snapshot_record =
  gs_session :: ustr
  gs_id :: ustr
  gs_path :: ustr
  gs_sha :: ustr
  gs_total :: int
  gs_ranges :: "(int \<times> int) list"
  gs_created_at :: time
  gs_sequence :: int

fun valid_session_id :: "json \<Rightarrow> ustr option" where
  "valid_session_id (JStr s) = (if session_id_ok s then Some s else None)"
| "valid_session_id _ = None"

fun json_truthy :: "json \<Rightarrow> bool" where
  "json_truthy JNull = False"
| "json_truthy (JBool b) = b"
| "json_truthy (JNum q) = (q \<noteq> 0)"
| "json_truthy (JStr s) = (s \<noteq> [])"
| "json_truthy (JList vs) = (vs \<noteq> [])"
| "json_truthy (JObj kvs) = (kvs \<noteq> [])"

fun json_str :: "(json \<Rightarrow> ustr) \<Rightarrow> json \<Rightarrow> ustr" where
  "json_str text_of (JStr s) = s"
| "json_str text_of v = text_of v"

definition json_str_or_empty :: "(json \<Rightarrow> ustr) \<Rightarrow> json \<Rightarrow> ustr" where
  "json_str_or_empty text_of v = (if json_truthy v then json_str text_of v else [])"

fun required_float :: "json \<Rightarrow> exn + time" where
  "required_float (JNum q) = Inr q"
| "required_float _ = Inl ValueError"

definition whole_number :: "rat \<Rightarrow> bool" where
  "whole_number q \<longleftrightarrow> of_int \<lfloor>q\<rfloor> = q"

fun required_int :: "json \<Rightarrow> exn + int" where
  "required_int (JNum q) = (if whole_number q then Inr \<lfloor>q\<rfloor> else Inl ValueError)"
| "required_int _ = Inl ValueError"

text \<open>\<open>int(v)\<close> truncates a number towards zero.\<close>

fun json_int :: "(json \<Rightarrow> exn + int) \<Rightarrow> json \<Rightarrow> exn + int" where
  "json_int int_of (JNum q) = Inr (if 0 \<le> q then \<lfloor>q\<rfloor> else \<lceil>q\<rceil>)"
| "json_int int_of v = int_of v"

text \<open>\<open>dict.fromkeys\<close> keeps the first of equal keys.\<close>

definition from_keys :: "'a list \<Rightarrow> 'a list" where
  "from_keys xs = rev (remdups (rev xs))"

fun bind_sum :: "exn + 'a \<Rightarrow> ('a \<Rightarrow> exn + 'b) \<Rightarrow> exn + 'b" where
  "bind_sum (Inl e) f = Inl e"
| "bind_sum (Inr x) f = f x"

definition opt_json :: "(json \<Rightarrow> exn + 'a) \<Rightarrow> json \<Rightarrow> exn + 'a option" where
  "opt_json f v = (if v = JNull then Inr None else map_sum id Some (f v))"

definition obj_or :: "json \<Rightarrow> (ustr \<times> json) list \<Rightarrow> ustr \<Rightarrow> json" where
  "obj_or d kvs k = (case map_of kvs k of None \<Rightarrow> d | Some v \<Rightarrow> v)"

definition session_from_payload :: "(json \<Rightarrow> ustr) \<Rightarrow> json \<Rightarrow> exn + agent_session" where
  "session_from_payload text_of v =
     (case v of
        JObj kvs \<Rightarrow>
          (case valid_session_id (obj_get kvs (lit ''session_id'')) of
             None \<Rightarrow> Inl ValueError
           | Some i \<Rightarrow>
               let wd = json_str_or_empty text_of (obj_get kvs (lit ''workdir'')) in
               if wd = [] then Inl ValueError
               else (case obj_or (JList []) kvs (lit ''persistent_shell_ids'') of
                 JList ids \<Rightarrow>
                   bind_sum (required_float (obj_get kvs (lit ''created_at''))) (\<lambda>c.
                   bind_sum (required_float (obj_get kvs (lit ''updated_at''))) (\<lambda>u.
                   bind_sum (opt_json required_float (obj_get kvs (lit ''termination_requested_at''))) (\<lambda>t.
                     Inr \<lparr>as_id = i, as_workdir = wd, as_created_at = c, as_updated_at = u,
                       as_label = (case obj_get kvs (lit ''label'') of JNull \<Rightarrow> None | l \<Rightarrow> Some (json_str text_of l)),
                       as_termination = t,
                       as_shells = from_keys (map (json_str text_of) (filter json_truthy ids))\<rparr>)))
               | _ \<Rightarrow> Inl ValueError))
      | _ \<Rightarrow> Inl ValueError)"

definition json_opt :: "('a \<Rightarrow> json) \<Rightarrow> 'a option \<Rightarrow> json" where
  "json_opt f v = (case v of None \<Rightarrow> JNull | Some x \<Rightarrow> f x)"

definition session_as_json :: "agent_session \<Rightarrow> json" where
  "session_as_json s = JObj
     [(lit ''created_at'', JNum (as_created_at s)),
      (lit ''label'', json_opt JStr (as_label s)),
      (lit ''persistent_shell_ids'', JList (map JStr (as_shells s))),
      (lit ''session_id'', JStr (as_id s)),
      (lit ''termination_requested_at'', json_opt JNum (as_termination s)),
      (lit ''updated_at'', JNum (as_updated_at s)),
      (lit ''workdir'', JStr (as_workdir s))]"

definition session_to_payload :: "(json \<Rightarrow> ustr) \<Rightarrow> agent_session \<Rightarrow> exn + json" where
  "session_to_payload text_of s =
     bind_sum (session_from_payload text_of (session_as_json s))
       (\<lambda>s'. if s' \<noteq> s then Inl ValueError else Inr (session_as_json s))"

definition range_from_json :: "(json \<Rightarrow> exn + int) \<Rightarrow> json \<Rightarrow> exn + int \<times> int" where
  "range_from_json int_of v =
     (case v of
        JList [a, b] \<Rightarrow> bind_sum (json_int int_of a) (\<lambda>x. bind_sum (json_int int_of b) (\<lambda>y. Inr (x, y)))
      | _ \<Rightarrow> Inl ValueError)"

fun all_sums :: "(exn + 'a) list \<Rightarrow> exn + 'a list" where
  "all_sums [] = Inr []"
| "all_sums (x # xs) = bind_sum x (\<lambda>y. bind_sum (all_sums xs) (\<lambda>ys. Inr (y # ys)))"

definition snapshot_from_payload ::
  "(json \<Rightarrow> ustr) \<Rightarrow> (json \<Rightarrow> exn + int) \<Rightarrow> int \<Rightarrow> json \<Rightarrow> exn + snapshot_record" where
  "snapshot_from_payload text_of int_of fallback v =
     (case v of
        JObj kvs \<Rightarrow>
          (case obj_get kvs (lit ''seen_ranges'') of
             JList rs \<Rightarrow>
               bind_sum (all_sums (map (range_from_json int_of) rs)) (\<lambda>ranges.
               bind_sum (if obj_get kvs (lit ''sequence'') = JNull then Inr fallback
                         else required_int (obj_get kvs (lit ''sequence''))) (\<lambda>sequence.
               if sequence < 0 then Inl ValueError
               else
                 bind_sum (required_int (obj_get kvs (lit ''total_lines''))) (\<lambda>n.
                 bind_sum (required_float (obj_get kvs (lit ''created_at''))) (\<lambda>c.
                   Inr \<lparr>gs_session = json_str_or_empty text_of (obj_get kvs (lit ''session_id'')),
                     gs_id = json_str_or_empty text_of (obj_get kvs (lit ''snapshot_id'')),
                     gs_path = json_str_or_empty text_of (obj_get kvs (lit ''path'')),
                     gs_sha = json_str_or_empty text_of (obj_get kvs (lit ''file_sha256'')),
                     gs_total = n, gs_ranges = ranges, gs_created_at = c, gs_sequence = sequence\<rparr>))))
           | _ \<Rightarrow> Inl ValueError)
      | _ \<Rightarrow> Inl ValueError)"

definition snapshot_as_json :: "snapshot_record \<Rightarrow> json" where
  "snapshot_as_json r = JObj
     [(lit ''created_at'', JNum (gs_created_at r)),
      (lit ''file_sha256'', JStr (gs_sha r)),
      (lit ''path'', JStr (gs_path r)),
      (lit ''seen_ranges'', JList (map (\<lambda>(a, b). JList [JNum (of_int a), JNum (of_int b)]) (gs_ranges r))),
      (lit ''sequence'', JNum (of_int (gs_sequence r))),
      (lit ''session_id'', JStr (gs_session r)),
      (lit ''snapshot_id'', JStr (gs_id r)),
      (lit ''total_lines'', JNum (of_int (gs_total r)))]"

definition snapshots_as_json :: "snapshot_record list \<Rightarrow> json" where
  "snapshots_as_json rs = JObj [(lit ''snapshots'', JList (map snapshot_as_json rs))]"

definition encoded_snapshot_payload_bytes :: "(json \<Rightarrow> nat) \<Rightarrow> snapshot_record list \<Rightarrow> nat" where
  "encoded_snapshot_payload_bytes fsize rs = fsize (snapshots_as_json rs)"

section \<open>Files of the sessions\<close>

record tool_store =
  ts_meta :: "(ustr, cell) dict"
  ts_snaps :: "(ustr, cell) dict"

definition cell_of :: "(ustr, cell) dict \<Rightarrow> ustr \<Rightarrow> cell" where
  "cell_of d k = (case map_of d k of None \<Rightarrow> Absent | Some c \<Rightarrow> c)"

text \<open>What the environment of a store is: the size of an encoding and the conversions of the language.\<close>

record store_env =
  se_size :: "json \<Rightarrow> nat"
  se_text :: "json \<Rightarrow> ustr"
  se_int :: "json \<Rightarrow> exn + int"
  se_max_snapshots :: nat
  se_max_snapshot_bytes :: nat

definition session_metadata_max_bytes :: nat where
  "session_metadata_max_bytes = 256000"

definition session_snapshots_max_bytes :: nat where
  "session_snapshots_max_bytes = 16000000"

definition load_session :: "store_env \<Rightarrow> ustr \<Rightarrow> tool_store \<Rightarrow> exn + agent_session option" where
  "load_session env k s =
     bind_sum (read_json (se_size env) (Some session_metadata_max_bytes) (cell_of (ts_meta s) k)) (\<lambda>v.
       if v = JNull then Inr None
       else bind_sum (session_from_payload (se_text env) v) (\<lambda>x.
              if as_id x \<noteq> k then Inl ValueError else Inr (Some x)))"

text \<open>\<open>UnknownAgentSessionError\<close> is a \<open>ValueError\<close> that the callers tell apart.\<close>

datatype session_error = UnknownSession | TerminationRequested | Failed exn

definition require_session_locked :: "store_env \<Rightarrow> ustr \<Rightarrow> tool_store \<Rightarrow> session_error + agent_session" where
  "require_session_locked env k s =
     (case load_session env k s of
        Inl e \<Rightarrow> Inl (Failed e)
      | Inr None \<Rightarrow> Inl UnknownSession
      | Inr (Some x) \<Rightarrow> Inr x)"

definition write_session :: "store_env \<Rightarrow> outcome \<Rightarrow> agent_session \<Rightarrow> tool_store \<Rightarrow> tool_store \<times> (session_error + unit)" where
  "write_session env w x s =
     (case session_to_payload (se_text env) x of
        Inl e \<Rightarrow> (s, Inl (Failed e))
      | Inr v \<Rightarrow>
          (case write_json w v (cell_of (ts_meta s) (as_id x)) of
             (c, ok) \<Rightarrow> (s\<lparr>ts_meta := AList.update (as_id x) c (ts_meta s)\<rparr>,
                         if ok then Inr () else Inl (Failed OSError))))"

text \<open>The sessions whose metadata is valid, in the order of their directories\<close>

definition read_all :: "store_env \<Rightarrow> tool_store \<Rightarrow> agent_session list" where
  "read_all env s =
     List.map_filter (\<lambda>k. case load_session env k s of Inr (Some x) \<Rightarrow> Some x | _ \<Rightarrow> None)
       (sort (remdups (map fst (ts_meta s))))"

section \<open>Ownership of persistent shells\<close>

definition normalize_shell_id :: "ustr \<Rightarrow> exn + ustr" where
  "normalize_shell_id shell = (if py_strip shell = [] then Inl ValueError else Inr (py_strip shell))"

definition bind_shell :: "time \<Rightarrow> ustr \<Rightarrow> agent_session \<Rightarrow> agent_session" where
  "bind_shell now shell x = x\<lparr>as_updated_at := now, as_shells := from_keys (as_shells x @ [shell])\<rparr>"

definition shell_unowned :: "ustr \<Rightarrow> ustr \<Rightarrow> agent_session list \<Rightarrow> bool" where
  "shell_unowned k shell xs \<longleftrightarrow> \<not> list_ex (\<lambda>x. as_id x \<noteq> k \<and> shell \<in> set (as_shells x)) xs"

definition reserve_shell :: "time \<Rightarrow> ustr \<Rightarrow> agent_session \<Rightarrow> agent_session \<times> bool" where
  "reserve_shell now shell x =
     (if shell \<in> set (as_shells x) then (x, False)
      else (x\<lparr>as_updated_at := now, as_shells := as_shells x @ [shell]\<rparr>, True))"

definition release_shell :: "ustr \<Rightarrow> agent_session \<Rightarrow> agent_session" where
  "release_shell shell x = x\<lparr>as_shells := filter (\<lambda>i. i \<noteq> shell) (as_shells x)\<rparr>"

definition replace_shells :: "ustr list \<Rightarrow> agent_session \<Rightarrow> agent_session" where
  "replace_shells owned x =
     x\<lparr>as_shells := sort (remdups (filter (\<lambda>i. i \<noteq> []) (map py_strip owned)))\<rparr>"

definition retain_live_shells :: "ustr list \<Rightarrow> agent_session \<Rightarrow> agent_session" where
  "retain_live_shells live x = x\<lparr>as_shells := filter (\<lambda>i. i \<in> set live \<and> i \<noteq> []) (as_shells x)\<rparr>"

section \<open>Snapshots of one session\<close>

fun index_snapshots ::
  "store_env \<Rightarrow> ustr \<Rightarrow> int \<Rightarrow> json list \<Rightarrow> (ustr, snapshot_record) dict \<Rightarrow> exn + (ustr, snapshot_record) dict" where
  "index_snapshots env k n [] d = Inr d"
| "index_snapshots env k n (v # vs) d =
     bind_sum (snapshot_from_payload (se_text env) (se_int env) n v) (\<lambda>r.
       if gs_session r \<noteq> k then Inl ValueError
       else index_snapshots env k (n + 1) vs (AList.update (gs_id r) r d))"

definition load_snapshots :: "store_env \<Rightarrow> ustr \<Rightarrow> tool_store \<Rightarrow> exn + (ustr, snapshot_record) dict" where
  "load_snapshots env k s =
     bind_sum (read_json (se_size env) (Some session_snapshots_max_bytes) (cell_of (ts_snaps s) k)) (\<lambda>v.
       case v of
         JNull \<Rightarrow> Inr []
       | JObj kvs \<Rightarrow>
           (case obj_get kvs (lit ''snapshots'') of
              JList vs \<Rightarrow> index_snapshots env k 1 vs []
            | _ \<Rightarrow> Inl ValueError)
       | _ \<Rightarrow> Inl ValueError)"

definition newest_first :: "snapshot_record list \<Rightarrow> snapshot_record list" where
  "newest_first rs = rev (sort_key (\<lambda>r. (gs_created_at r, gs_sequence r)) (rev rs))"

text \<open>The bisection of \<open>_prune\<close>: the length of the longest prefix that it finds to fit\<close>

function fitting_prefix :: "(nat \<Rightarrow> bool) \<Rightarrow> nat \<Rightarrow> nat \<Rightarrow> nat" where
  "fitting_prefix fits low high =
     (if low < high
      then (let middle = (low + high + 1) div 2 in
            if fits middle then fitting_prefix fits middle high else fitting_prefix fits low (middle - 1))
      else low)"
  by pat_completeness auto

termination
  by (relation "measure (\<lambda>(_, low, high). high - low)") auto

declare fitting_prefix.simps [simp del]

definition prune_snapshots :: "store_env \<Rightarrow> snapshot_record list \<Rightarrow> snapshot_record list" where
  "prune_snapshots env rs =
     (let newest = take (se_max_snapshots env) (newest_first rs);
          n = fitting_prefix
                (\<lambda>m. encoded_snapshot_payload_bytes (se_size env) (take m newest) \<le> se_max_snapshot_bytes env)
                0 (length newest)
      in take n newest)"

definition next_sequence :: "snapshot_record list \<Rightarrow> int" where
  "next_sequence rs = 1 + (if rs = [] then 0 else Max (gs_sequence ` set rs))"

definition put_snapshots :: "outcome \<Rightarrow> ustr \<Rightarrow> snapshot_record list \<Rightarrow> tool_store \<Rightarrow> tool_store \<times> (session_error + unit)" where
  "put_snapshots w k rs s =
     (if rs = []
      then (s\<lparr>ts_snaps := if lands w then AList.delete k (ts_snaps s) else ts_snaps s\<rparr>,
            if reports w then Inr () else Inl (Failed OSError))
      else case write_json w (snapshots_as_json rs) (cell_of (ts_snaps s) k) of
             (c, ok) \<Rightarrow> (s\<lparr>ts_snaps := AList.update k c (ts_snaps s)\<rparr>,
                         if ok then Inr () else Inl (Failed OSError)))"

definition new_snapshot ::
  "ustr \<Rightarrow> ustr \<Rightarrow> ustr \<Rightarrow> ustr \<Rightarrow> int \<Rightarrow> (int \<times> int) list \<Rightarrow> time \<Rightarrow> snapshot_record list \<Rightarrow> snapshot_record" where
  "new_snapshot k i p sha n ranges now rs =
     \<lparr>gs_session = k, gs_id = i, gs_path = p, gs_sha = sha, gs_total = n, gs_ranges = ranges,
      gs_created_at = now, gs_sequence = next_sequence rs\<rparr>"

definition record_file_snapshot ::
  "store_env \<Rightarrow> outcome \<Rightarrow> time \<Rightarrow> ustr \<Rightarrow> ustr \<Rightarrow> ustr \<Rightarrow> ustr \<Rightarrow> int \<Rightarrow> (int \<times> int) list \<Rightarrow> tool_store \<Rightarrow>
   tool_store \<times> (session_error + snapshot_record)" where
  "record_file_snapshot env w now k i p sha n ranges s =
     (case require_session_locked env k s of
        Inl e \<Rightarrow> (s, Inl e)
      | Inr _ \<Rightarrow>
          (case load_snapshots env k s of
             Inl e \<Rightarrow> (s, Inl (Failed e))
           | Inr d \<Rightarrow>
               let r = new_snapshot k i p sha n ranges now (dict_values d) in
               if se_max_snapshot_bytes env < encoded_snapshot_payload_bytes (se_size env) [r]
               then (s, Inl (Failed ValueError))
               else case put_snapshots w k (prune_snapshots env (dict_values (AList.update i r d))) s of
                      (s', Inl e) \<Rightarrow> (s', Inl e)
                    | (s', Inr _) \<Rightarrow> (s', Inr r)))"

definition get_snapshot :: "store_env \<Rightarrow> ustr \<Rightarrow> ustr \<Rightarrow> tool_store \<Rightarrow> session_error + snapshot_record option" where
  "get_snapshot env k i s =
     (case require_session_locked env k s of
        Inl e \<Rightarrow> Inl e
      | Inr _ \<Rightarrow> (case load_snapshots env k s of Inl e \<Rightarrow> Inl (Failed e) | Inr d \<Rightarrow> Inr (map_of d i)))"

section \<open>The operations of the store\<close>

text \<open>
  \<open>resolved\<close> is what resolving the requested working directory gives, \<open>Inl\<close> when it does not exist or
  is no directory.
\<close>

definition create_session ::
  "store_env \<Rightarrow> outcome \<Rightarrow> time \<Rightarrow> ustr \<Rightarrow> exn + ustr \<Rightarrow> ustr option \<Rightarrow> tool_store \<Rightarrow>
   tool_store \<times> (session_error + agent_session)" where
  "create_session env w now k resolved label_arg s =
     (if \<not> session_id_ok k then (s, Inl (Failed ValueError))
      else case resolved of
        Inl e \<Rightarrow> (s, Inl (Failed e))
      | Inr wd \<Rightarrow>
          if cell_of (ts_meta s) k \<notin> {Absent, Dangling} then (s, Inl (Failed ValueError))
          else let x = \<lparr>as_id = k, as_workdir = wd, as_created_at = now, as_updated_at = now, as_label = label_arg,
                 as_termination = None, as_shells = []\<rparr>
               in case write_session env w x s of
                    (s', Inl e) \<Rightarrow> (s', Inl e)
                  | (s', Inr _) \<Rightarrow> (s', Inr x))"

text \<open>Read one session, change it, write it back unless nothing changed.\<close>

definition update_stored ::
  "store_env \<Rightarrow> outcome \<Rightarrow> ustr \<Rightarrow> (agent_session \<Rightarrow> agent_session option) \<Rightarrow> tool_store \<Rightarrow>
   tool_store \<times> (session_error + agent_session)" where
  "update_stored env w k f s =
     (case require_session_locked env k s of
        Inl e \<Rightarrow> (s, Inl e)
      | Inr x \<Rightarrow>
          (case f x of
             None \<Rightarrow> (s, Inr x)
           | Some y \<Rightarrow> (case write_session env w y s of
                          (s', Inl e) \<Rightarrow> (s', Inl e)
                        | (s', Inr _) \<Rightarrow> (s', Inr y))))"

definition when_changed :: "(agent_session \<Rightarrow> agent_session) \<Rightarrow> agent_session \<Rightarrow> agent_session option" where
  "when_changed f x = (if f x = x then None else Some (f x))"

definition request_termination ::
  "store_env \<Rightarrow> outcome \<Rightarrow> time \<Rightarrow> ustr \<Rightarrow> tool_store \<Rightarrow> tool_store \<times> (session_error + agent_session)" where
  "request_termination env w now k s =
     update_stored env w k
       (\<lambda>x. Some (x\<lparr>as_updated_at := now,
          as_termination := (case as_termination x of Some t \<Rightarrow> if t = 0 then Some now else Some t | None \<Rightarrow> Some now)\<rparr>)) s"

definition touch_session ::
  "store_env \<Rightarrow> outcome \<Rightarrow> time \<Rightarrow> ustr \<Rightarrow> tool_store \<Rightarrow> tool_store \<times> (session_error + agent_session)" where
  "touch_session env w now k s = update_stored env w k (\<lambda>x. Some (x\<lparr>as_updated_at := now\<rparr>)) s"

definition register_persistent_shell ::
  "store_env \<Rightarrow> outcome \<Rightarrow> time \<Rightarrow> ustr \<Rightarrow> ustr \<Rightarrow> tool_store \<Rightarrow> tool_store \<times> (session_error + agent_session)" where
  "register_persistent_shell env w now k shell s =
     (case normalize_shell_id shell of
        Inl e \<Rightarrow> (s, Inl (Failed e))
      | Inr i \<Rightarrow> update_stored env w k (\<lambda>x. Some (bind_shell now i x)) s)"

definition reserve_persistent_shell ::
  "store_env \<Rightarrow> outcome \<Rightarrow> time \<Rightarrow> ustr \<Rightarrow> ustr \<Rightarrow> bool \<Rightarrow> tool_store \<Rightarrow> tool_store \<times> (session_error + bool)" where
  "reserve_persistent_shell env w now k shell exclusive s =
     (case normalize_shell_id shell of
        Inl e \<Rightarrow> (s, Inl (Failed e))
      | Inr i \<Rightarrow>
          (case require_session_locked env k s of
             Inl e \<Rightarrow> (s, Inl e)
           | Inr x \<Rightarrow>
               if exclusive \<and> \<not> shell_unowned k i (read_all env s) then (s, Inl (Failed RuntimeError))
               else (case reserve_shell now i x of
                       (y, False) \<Rightarrow> (s, Inr False)
                     | (y, True) \<Rightarrow> (case write_session env w y s of
                                       (s', Inl e) \<Rightarrow> (s', Inl e)
                                     | (s', Inr _) \<Rightarrow> (s', Inr True)))))"

definition release_session_persistent_shell ::
  "store_env \<Rightarrow> outcome \<Rightarrow> ustr \<Rightarrow> ustr \<Rightarrow> tool_store \<Rightarrow> tool_store \<times> (session_error + agent_session)" where
  "release_session_persistent_shell env w k shell s =
     (case normalize_shell_id shell of
        Inl e \<Rightarrow> (s, Inl (Failed e))
      | Inr i \<Rightarrow> update_stored env w k (when_changed (release_shell i)) s)"

text \<open>One change of every listed session, each its own transaction; \<open>ws\<close> has the outcomes of the writes.\<close>

fun update_each ::
  "store_env \<Rightarrow> (ustr \<Rightarrow> outcome) \<Rightarrow> (agent_session \<Rightarrow> agent_session) \<Rightarrow> agent_session list \<Rightarrow> tool_store \<Rightarrow>
   tool_store \<times> (session_error + unit)" where
  "update_each env ws f [] s = (s, Inr ())"
| "update_each env ws f (x # xs) s =
     (if f x = x then update_each env ws f xs s
      else case load_session env (as_id x) s of
        Inl e \<Rightarrow> (s, Inl (Failed e))
      | Inr None \<Rightarrow> update_each env ws f xs s
      | Inr (Some y) \<Rightarrow>
          if f y = y then update_each env ws f xs s
          else (case write_session env (ws (as_id x)) (f y) s of
                  (s', Inl e) \<Rightarrow> (s', Inl e)
                | (s', Inr _) \<Rightarrow> update_each env ws f xs s'))"

definition release_persistent_shell ::
  "store_env \<Rightarrow> (ustr \<Rightarrow> outcome) \<Rightarrow> ustr \<Rightarrow> tool_store \<Rightarrow> tool_store \<times> (session_error + unit)" where
  "release_persistent_shell env ws shell s =
     (if py_strip shell = [] then (s, Inr ())
      else update_each env ws (release_shell (py_strip shell)) (read_all env s) s)"

definition persistent_shell_ids :: "store_env \<Rightarrow> tool_store \<Rightarrow> ustr set" where
  "persistent_shell_ids env s = (\<Union>x \<in> set (read_all env s). set (as_shells x))"

definition reconcile_session_persistent_shells ::
  "store_env \<Rightarrow> outcome \<Rightarrow> ustr \<Rightarrow> ustr list \<Rightarrow> tool_store \<Rightarrow> tool_store \<times> (session_error + agent_session)" where
  "reconcile_session_persistent_shells env w k owned s =
     update_stored env w k (when_changed (replace_shells owned)) s"

definition reconcile_persistent_shells ::
  "store_env \<Rightarrow> (ustr \<Rightarrow> outcome) \<Rightarrow> ustr list \<Rightarrow> tool_store \<Rightarrow> tool_store \<times> (session_error + unit)" where
  "reconcile_persistent_shells env ws live s = update_each env ws (retain_live_shells live) (read_all env s) s"

fun require_all :: "store_env \<Rightarrow> ustr list \<Rightarrow> tool_store \<Rightarrow> session_error + agent_session list" where
  "require_all env [] s = Inr []"
| "require_all env (k # ks) s =
     (case require_session_locked env k s of
        Inl e \<Rightarrow> Inl e
      | Inr x \<Rightarrow> (case require_all env ks s of Inl e \<Rightarrow> Inl e | Inr xs \<Rightarrow> Inr (x # xs)))"

fun write_each ::
  "store_env \<Rightarrow> (ustr \<Rightarrow> outcome) \<Rightarrow> agent_session list \<Rightarrow> tool_store \<Rightarrow> tool_store \<times> (session_error + unit)" where
  "write_each env ws [] s = (s, Inr ())"
| "write_each env ws (x # xs) s =
     (case write_session env (ws (as_id x)) x s of
        (s', Inl e) \<Rightarrow> (s', Inl e)
      | (s', Inr _) \<Rightarrow> write_each env ws xs s')"

definition admit_tool_sessions ::
  "store_env \<Rightarrow> (ustr \<Rightarrow> outcome) \<Rightarrow> time \<Rightarrow> ustr list \<Rightarrow> tool_store \<Rightarrow>
   tool_store \<times> (session_error + agent_session list)" where
  "admit_tool_sessions env ws now ks s =
     (case require_all env (from_keys ks) s of
        Inl e \<Rightarrow> (s, Inl e)
      | Inr xs \<Rightarrow>
          if list_ex (\<lambda>x. as_termination x \<noteq> None) xs then (s, Inl TerminationRequested)
          else (let ys = map (\<lambda>x. x\<lparr>as_updated_at := now\<rparr>) xs in
                case write_each env ws ys s of
                  (s', Inl e) \<Rightarrow> (s', Inl e)
                | (s', Inr _) \<Rightarrow> (s', Inr ys)))"

definition admit_active_session ::
  "store_env \<Rightarrow> outcome \<Rightarrow> time \<Rightarrow> ustr \<Rightarrow> tool_store \<Rightarrow> tool_store \<times> (session_error + agent_session)" where
  "admit_active_session env w now k s =
     (case admit_tool_sessions env (\<lambda>_. w) now [k] s of
        (s', Inl e) \<Rightarrow> (s', Inl e)
      | (s', Inr xs) \<Rightarrow> (s', Inr (hd xs)))"

text \<open>\<open>jobs\<close> is what the durable jobs protect, \<open>None\<close> when they cannot be read.\<close>

definition session_has_active_jobs :: "ustr \<Rightarrow> ustr list option \<Rightarrow> bool" where
  "session_has_active_jobs k jobs \<longleftrightarrow> (case jobs of None \<Rightarrow> True | Some ks \<Rightarrow> k \<in> set ks)"

definition session_cleanup_metadata ::
  "store_env \<Rightarrow> ustr list option \<Rightarrow> ustr \<Rightarrow> tool_store \<Rightarrow> session_error + time \<times> bool \<times> bool" where
  "session_cleanup_metadata env jobs k s =
     (case require_session_locked env k s of
        Inl e \<Rightarrow> Inl e
      | Inr x \<Rightarrow> Inr (as_updated_at x, as_shells x \<noteq> [], session_has_active_jobs k jobs))"

text \<open>
  The snapshots go before the working directory changes. \<open>rw\<close> and \<open>w\<close> are the outcomes of the removal
  and of the write.
\<close>

definition remove_snapshots :: "outcome \<Rightarrow> ustr \<Rightarrow> tool_store \<Rightarrow> tool_store \<times> (session_error + unit)" where
  "remove_snapshots rw k s =
     (s\<lparr>ts_snaps := if lands rw then AList.delete k (ts_snaps s) else ts_snaps s\<rparr>,
      if reports rw then Inr () else Inl (Failed OSError))"

definition change_session_workdir ::
  "store_env \<Rightarrow> outcome \<Rightarrow> outcome \<Rightarrow> time \<Rightarrow> ustr \<Rightarrow> exn + ustr \<Rightarrow> tool_store \<Rightarrow>
   tool_store \<times> (session_error + agent_session)" where
  "change_session_workdir env rw w now k resolved s =
     (case resolved of
        Inl e \<Rightarrow> (s, Inl (Failed e))
      | Inr wd \<Rightarrow>
          (case require_session_locked env k s of
             Inl e \<Rightarrow> (s, Inl e)
           | Inr x \<Rightarrow>
               let y = x\<lparr>as_workdir := wd, as_updated_at := now\<rparr> in
               (case remove_snapshots rw k s of
                  (s', Inl e) \<Rightarrow> (s', Inl e)
                | (s', Inr _) \<Rightarrow> (case write_session env w y s' of
                                   (s'', Inl e) \<Rightarrow> (s'', Inl e)
                                 | (s'', Inr _) \<Rightarrow> (s'', Inr y)))))"

text \<open>What \<open>shutil.rmtree\<close> leaves of a session directory when it fails.\<close>

datatype removal = Removed | RemoveFailed bool bool

definition end_session ::
  "store_env \<Rightarrow> removal \<Rightarrow> ustr \<Rightarrow> tool_store \<Rightarrow> tool_store \<times> (session_error + agent_session)" where
  "end_session env rm k s =
     (case require_session_locked env k s of
        Inl e \<Rightarrow> (s, Inl e)
      | Inr x \<Rightarrow>
          (case rm of
             Removed \<Rightarrow>
               (s\<lparr>ts_meta := AList.delete k (ts_meta s), ts_snaps := AList.delete k (ts_snaps s)\<rparr>, Inr x)
           | RemoveFailed meta snaps \<Rightarrow>
               (s\<lparr>ts_meta := if meta then AList.delete k (ts_meta s) else ts_meta s,
                  ts_snaps := if snaps then AList.delete k (ts_snaps s) else ts_snaps s\<rparr>, Inl (Failed OSError))))"

definition list_sessions :: "store_env \<Rightarrow> tool_store \<Rightarrow> agent_session list" where
  "list_sessions env s = rev (sort_key (\<lambda>x. (as_updated_at x, as_created_at x)) (rev (read_all env s)))"

definition require_cleanup_sessions :: "store_env \<Rightarrow> ustr list \<Rightarrow> tool_store \<Rightarrow> session_error + agent_session list" where
  "require_cleanup_sessions env ks s = require_all env (from_keys ks) s"

end
