(* ===== verification/Grounded_Edits.thy ===== *)
theory Grounded_Edits
  imports Tool_Sessions Text_Lines
begin

text \<open>
  Reading and editing text files on an executor, \<open>src/src/workgate/executor/files.py\<close> and
  \<open>files_service.py\<close>, with the hashline format of grounded edits.

  A file is its decoded text, or \<open>NotText n\<close> when its \<open>n\<close> bytes are not UTF-8. Paths are resolved to their list of
  names below the root. \<open>fv_resolve wd p\<close> is where the argument \<open>p\<close> leads from the working directory
  \<open>wd\<close> (links, \<open>~\<close> and variables followed), \<open>fv_root wd\<close> the directory itself, and \<open>fv_join wd p\<close> the text of
  \<open>Path(wd) / p\<close>. \<open>fv_digit\<close> is the value of a decimal digit beyond ASCII. \<open>fv_udiff\<close> is
  \<open>difflib.unified_diff\<close>.

  Each operation runs without interruption and holds the locks of its paths, so it is one step.
  \<open>draw n\<close> is the \<open>n\<close>-th snapshot identity that it draws, \<open>wr\<close> has the outcomes of its durable writes.
\<close>

section \<open>Files and paths\<close>

type_synonym rpath = "ustr list"

datatype fnode = TextFile ustr | NotText nat | Folder

record files_env =
  fv_resolve :: "ustr \<Rightarrow> ustr \<Rightarrow> rpath"
  fv_root :: "ustr \<Rightarrow> rpath"
  fv_join :: "ustr \<Rightarrow> ustr \<Rightarrow> ustr"
  fv_default :: ustr
  fv_digit :: "nat \<Rightarrow> nat option"
  fv_sha :: "fnode \<Rightarrow> ustr"
  fv_udiff :: "ustr list \<Rightarrow> ustr list \<Rightarrow> ustr \<Rightarrow> ustr"
  fv_max_read :: nat
  fv_max_write :: nat
  fv_store :: store_env

type_synonym line_spec = "int option \<times> int option"

text \<open>\<open>eh_reads\<close> is a history variable: what the sessions have read, newest first.\<close>

record read_event =
  re_session :: ustr
  re_id :: ustr
  re_path :: rpath
  re_text :: ustr
  re_specs :: "line_spec list"

record edit_host =
  eh_files :: "(rpath, fnode) dict"
  eh_store :: tool_store
  eh_reads :: "read_event list"

record session_binding =
  sb_id :: ustr
  sb_workdir :: ustr

definition slash :: ustr where
  "slash = lit ''/''"

definition display_path :: "rpath \<Rightarrow> rpath \<Rightarrow> ustr" where
  "display_path base p =
     (if take (length base) p = base
      then (if drop (length base) p = [] then lit ''.'' else join slash (drop (length base) p))
      else slash @ join slash p)"

definition workdir_of :: "files_env \<Rightarrow> session_binding option \<Rightarrow> ustr" where
  "workdir_of env b = (case b of None \<Rightarrow> fv_default env | Some x \<Rightarrow> sb_workdir x)"

definition display_file :: "files_env \<Rightarrow> session_binding option \<Rightarrow> rpath \<Rightarrow> ustr" where
  "display_file env b p = display_path (fv_root env (workdir_of env b)) p"

definition resolve_existing :: "files_env \<Rightarrow> session_binding option \<Rightarrow> ustr \<Rightarrow> edit_host \<Rightarrow> session_error + rpath \<times> fnode" where
  "resolve_existing env b arg s =
     (let p = fv_resolve env (workdir_of env b) arg in
      case map_of (eh_files s) p of
        None \<Rightarrow> Inl (Failed OSError)
      | Some x \<Rightarrow> Inr (p, x))"

text \<open>The longest prefix of a text that fits into \<open>n\<close> bytes\<close>

fun utf8_prefix :: "nat \<Rightarrow> ustr \<Rightarrow> ustr" where
  "utf8_prefix n [] = []"
| "utf8_prefix n (c # s) = (if utf8_width c \<le> n then c # utf8_prefix (n - utf8_width c) s else [])"

text \<open>\<open>Path.read_text\<close> translates line ends, \<open>open\<close> in binary mode does not.\<close>

fun universal_newlines :: "ustr \<Rightarrow> ustr" where
  "universal_newlines [] = []"
| "universal_newlines (c # s) =
     (if c = 13 then 10 # universal_newlines (if s \<noteq> [] \<and> hd s = 10 then tl s else s)
      else c # universal_newlines s)"

section \<open>Reading\<close>

definition int_or :: "int option \<Rightarrow> int \<Rightarrow> int" where
  "int_or v d = (case v of None \<Rightarrow> d | Some n \<Rightarrow> if n = 0 then d else n)"

definition selected_read_lines :: "ustr list \<Rightarrow> line_spec \<Rightarrow> (int \<times> ustr) list" where
  "selected_read_lines ls spec =
     (let amount = int (length ls); a = max 1 (int_or (fst spec) 1); b = min amount (int_or (snd spec) amount)
      in if amount = 0 \<or> b < a then [] else map (\<lambda>n. (n, ls ! nat (n - 1))) [a..b])"

definition selected_by_ranges :: "ustr list \<Rightarrow> line_spec list \<Rightarrow> (int \<times> ustr) list \<times> (int \<times> int) list" where
  "selected_by_ranges ls specs =
     (let parts = filter (\<lambda>xs. xs \<noteq> []) (map (selected_read_lines ls) specs)
      in (concat parts, map (\<lambda>xs. (fst (hd xs), fst (last xs))) parts))"

fun dec_digits :: "nat \<Rightarrow> nat \<Rightarrow> ustr" where
  "dec_digits 0 n = []"
| "dec_digits (Suc f) n = (if n < 10 then [48 + n] else dec_digits f (n div 10) @ [48 + n mod 10])"

definition dec_show :: "int \<Rightarrow> ustr" where
  "dec_show n = (if n < 0 then 45 # dec_digits (Suc (nat (- n))) (nat (- n)) else dec_digits (Suc (nat n)) (nat n))"

definition numbered_row :: "int \<times> ustr \<Rightarrow> ustr" where
  "numbered_row l = dec_show (fst l) @ [58] @ snd l"

definition hashline_header :: "ustr \<Rightarrow> ustr \<Rightarrow> ustr" where
  "hashline_header p i = [91] @ p @ [35] @ i @ [93]"

definition numbered_content :: "(int \<times> ustr) list \<Rightarrow> (ustr \<times> ustr) option \<Rightarrow> ustr" where
  "numbered_content ls ground =
     (let body = join [10] (map numbered_row ls) in
      case ground of
        None \<Rightarrow> body
      | Some (p, i) \<Rightarrow> if body = [] then hashline_header p i else hashline_header p i @ [10] @ body)"

record read_output =
  ro_path :: ustr
  ro_bytes :: nat
  ro_bytes_read :: nat
  ro_total_lines :: int
  ro_lines :: "(int \<times> ustr) list"
  ro_numbered :: ustr
  ro_snapshot :: "snapshot_record option"
  ro_truncated :: bool
  ro_content :: ustr

text \<open>
  \<open>read_file_explicit\<close>: \<open>specs\<close> is \<open>None\<close> when neither lines nor ranges are asked for. A snapshot is
  recorded for a bound session.
\<close>

definition read_file ::
  "files_env \<Rightarrow> outcome \<Rightarrow> time \<Rightarrow> ustr \<Rightarrow> session_binding option \<Rightarrow> ustr \<Rightarrow> line_spec list option \<Rightarrow> edit_host \<Rightarrow>
   edit_host \<times> (session_error + read_output)" where
  "read_file env w now i b arg specs s =
     (case resolve_existing env b arg s of
        Inl e \<Rightarrow> (s, Inl e)
      | Inr (p, Folder) \<Rightarrow> (s, Inl (Failed OSError))
      | Inr (p, NotText n) \<Rightarrow> (s, Inl (Failed ValueError))
      | Inr (p, TextFile t) \<Rightarrow>
          let text = utf8_prefix (fv_max_read env) t;
              lines = splitlines text;
              asked = (case specs of None \<Rightarrow> [(None, None)] | Some r \<Rightarrow> r);
              (sel, ranges) = selected_by_ranges lines asked;
              shown = display_file env b p;
              out = (\<lambda>r. \<lparr>ro_path = shown, ro_bytes = utf8_len t, ro_bytes_read = min (utf8_len t) (fv_max_read env),
                  ro_total_lines = int (length lines), ro_lines = sel,
                  ro_numbered = numbered_content sel (map_option (\<lambda>x. (shown, gs_id x)) r),
                  ro_snapshot = r, ro_truncated = (fv_max_read env < utf8_len t),
                  ro_content = (if specs = None then text else join [10] (map snd sel))\<rparr>)
          in case b of
               None \<Rightarrow> (s, Inr (out None))
             | Some x \<Rightarrow>
                 let s' = s\<lparr>eh_reads := \<lparr>re_session = sb_id x, re_id = i, re_path = p, re_text = t, re_specs = asked\<rparr>
                            # eh_reads s\<rparr> in
                 (case record_file_snapshot (fv_store env) w now (sb_id x) i shown (fv_sha env (TextFile t))
                         (int (length lines)) ranges (eh_store s) of
                    (st, Inl e) \<Rightarrow> (s'\<lparr>eh_store := st\<rparr>, Inl e)
                  | (st, Inr r) \<Rightarrow> (s'\<lparr>eh_store := st\<rparr>, Inr (out (Some r)))))"

section \<open>Replacing whole lines\<close>

fun has_crlf :: "ustr \<Rightarrow> bool" where
  "has_crlf (a # b # s) = (a = 13 \<and> b = 10 \<or> has_crlf (b # s))"
| "has_crlf _ = False"

definition newline_for_text :: "ustr \<Rightarrow> ustr" where
  "newline_for_text t = (if has_crlf t then [13, 10] else [10])"

text \<open>\<open>s.endswith(("\n", "\r"))\<close>\<close>

definition ends_line :: "ustr \<Rightarrow> bool" where
  "ends_line s \<longleftrightarrow> s \<noteq> [] \<and> (last s = 10 \<or> last s = 13)"

definition replacement_lines :: "ustr \<Rightarrow> ustr \<Rightarrow> bool \<Rightarrow> bool \<Rightarrow> ustr list" where
  "replacement_lines replacement newline ended following =
     (if replacement = [] then []
      else splitlines_keep
             (if \<not> ends_line replacement \<and> (ended \<or> following) then replacement @ newline else replacement))"

definition range_is_visible :: "int \<Rightarrow> int \<Rightarrow> (int \<times> int) list \<Rightarrow> bool" where
  "range_is_visible a b ranges \<longleftrightarrow> list_ex (\<lambda>(x, y). x \<le> a \<and> b \<le> y) ranges"

definition validate_snapshot_for_edit ::
  "files_env \<Rightarrow> session_binding option \<Rightarrow> ustr \<Rightarrow> ustr \<Rightarrow> int \<Rightarrow> int \<Rightarrow> ustr option \<Rightarrow> tool_store \<Rightarrow> session_error + unit" where
  "validate_snapshot_for_edit env b shown sha a z snapshot st =
     (case snapshot of
        None \<Rightarrow> Inr ()
      | Some i \<Rightarrow>
          (case b of
             None \<Rightarrow> Inl (Failed ValueError)
           | Some x \<Rightarrow>
               (case get_snapshot (fv_store env) (sb_id x) i st of
                  Inl e \<Rightarrow> Inl e
                | Inr None \<Rightarrow> Inl (Failed ValueError)
                | Inr (Some r) \<Rightarrow>
                    if gs_path r \<noteq> shown then Inl (Failed ValueError)
                    else if gs_sha r \<noteq> sha then Inl (Failed ValueError)
                    else if gs_ranges r \<noteq> [] \<and> \<not> range_is_visible a z (gs_ranges r) then Inl (Failed ValueError)
                    else Inr ())))"

definition splice :: "int \<Rightarrow> int \<Rightarrow> ustr list \<Rightarrow> ustr list \<Rightarrow> ustr list" where
  "splice a z new ls = take (nat (a - 1)) ls @ new @ drop (nat z) ls"

definition replace_file :: "outcome \<Rightarrow> rpath \<Rightarrow> ustr \<Rightarrow> edit_host \<Rightarrow> edit_host \<times> (session_error + unit)" where
  "replace_file w p t s =
     (if lands w then s\<lparr>eh_files := AList.update p (TextFile t) (eh_files s)\<rparr> else s,
      if reports w then Inr () else Inl (Failed OSError))"

definition unified_diff :: "files_env \<Rightarrow> ustr \<Rightarrow> ustr \<Rightarrow> ustr \<Rightarrow> ustr" where
  "unified_diff env old new shown = fv_udiff env (splitlines_keep old) (splitlines_keep new) shown"

definition context_spec :: "int \<Rightarrow> int \<Rightarrow> nat \<Rightarrow> line_spec list" where
  "context_spec a amount n =
     [(Some (max 1 (a - 3)), Some (min (int n) (max a (a + max amount 1 + 3))))]"

record edit_output =
  eo_path :: ustr
  eo_start :: int
  eo_end :: int
  eo_amount :: int
  eo_diff :: ustr
  eo_context :: read_output

text \<open>\<open>edit_lines\<close>; the two writes are of the file and of the snapshot of the context.\<close>

definition edit_lines ::
  "files_env \<Rightarrow> outcome \<Rightarrow> outcome \<Rightarrow> time \<Rightarrow> ustr \<Rightarrow> session_binding option \<Rightarrow> ustr \<Rightarrow> int \<Rightarrow> int \<Rightarrow> ustr \<Rightarrow>
   ustr option \<Rightarrow> edit_host \<Rightarrow> edit_host \<times> (session_error + edit_output)" where
  "edit_lines env w sw now draw b arg a z replacement snapshot s =
     (if a < 1 \<or> z < a then (s, Inl (Failed ValueError))
      else case resolve_existing env b arg s of
        Inl e \<Rightarrow> (s, Inl e)
      | Inr (p, Folder) \<Rightarrow> (s, Inl (Failed OSError))
      | Inr (p, NotText n) \<Rightarrow>
          (s, Inl (if fv_max_write env < n then Failed ValueError
                   else case validate_snapshot_for_edit env b (display_file env b p) (fv_sha env (NotText n)) a z snapshot
                          (eh_store s) of
                          Inl e \<Rightarrow> e | Inr _ \<Rightarrow> Failed ValueError))
      | Inr (p, TextFile t) \<Rightarrow>
          if fv_max_write env < utf8_len t then (s, Inl (Failed ValueError))
          else (let shown = display_file env b p in
            case validate_snapshot_for_edit env b shown (fv_sha env (TextFile t)) a z snapshot (eh_store s) of
              Inl e \<Rightarrow> (s, Inl e)
            | Inr _ \<Rightarrow>
                let original = universal_newlines t; lines = splitlines_keep original; amount = int (length lines) in
                if amount < z then (s, Inl (Failed ValueError))
                else (let selected = take (nat (z - a + 1)) (drop (nat (a - 1)) lines);
                          new = replacement_lines replacement (newline_for_text original)
                                  (selected \<noteq> [] \<and> ends_line (last selected)) (z < amount);
                          result = splice a z new lines;
                          updated = concat result
                      in if fv_max_write env < utf8_len updated then (s, Inl (Failed ValueError))
                         else case replace_file w p updated s of
                                (s', Inl e) \<Rightarrow> (s', Inl e)
                              | (s', Inr _) \<Rightarrow>
                                  (case read_file env sw now draw b (slash @ join slash p)
                                          (Some (context_spec a (int (length new)) (length result))) s' of
                                     (s'', Inl e) \<Rightarrow> (s'', Inl e)
                                   | (s'', Inr c) \<Rightarrow>
                                       (s'', Inr \<lparr>eo_path = shown, eo_start = a, eo_end = z, eo_amount = int (length new),
                                          eo_diff = unified_diff env original updated shown, eo_context = c\<rparr>)))))"

section \<open>The hashline format\<close>

datatype hash_operation =
    HashEdit ustr ustr int int ustr "(int \<times> ustr) list"
  | HashInsert ustr ustr int bool "ustr list"

definition hash_replacement_text :: "ustr list \<Rightarrow> ustr" where
  "hash_replacement_text ls =
     (if ls = [] then [] else join [10] ls @ (if last ls = [] then [10] else []))"

definition hash_plus_lines :: "bool \<Rightarrow> ustr list \<Rightarrow> ustr list option" where
  "hash_plus_lines needed ls =
     (if needed \<and> ls = [] then None
      else if list_all (\<lambda>l. starts_with [43] l) ls then Some (map (drop 1) ls) else None)"

text \<open>\<open>\d\<close> and \<open>int\<close> know the decimal digits of every script.\<close>

definition digit_value :: "files_env \<Rightarrow> nat \<Rightarrow> nat option" where
  "digit_value env c = (if is_digit c then Some (c - 48) else if c < 128 then None else fv_digit env c)"

definition is_decimal :: "files_env \<Rightarrow> nat \<Rightarrow> bool" where
  "is_decimal env c \<longleftrightarrow> digit_value env c \<noteq> None"

definition decimal_value :: "files_env \<Rightarrow> ustr \<Rightarrow> int" where
  "decimal_value env ds = fold (\<lambda>c n. 10 * n + int (the (digit_value env c))) ds 0"

text \<open>\<open>(\d+)\<close> at the front of a text, with what follows\<close>

definition take_decimal :: "files_env \<Rightarrow> ustr \<Rightarrow> (int \<times> ustr) option" where
  "take_decimal env s =
     (let ds = takeWhile (is_decimal env) s in
      if ds = [] then None else Some (decimal_value env ds, dropWhile (is_decimal env) s))"

text \<open>A letter of a pattern under \<open>re.IGNORECASE\<close>: its two cases and the letters that fold to it.\<close>

definition same_letter :: "nat \<Rightarrow> nat \<Rightarrow> bool" where
  "same_letter l c \<longleftrightarrow>
     c = l \<or> c = l + 32 \<or> l = 83 \<and> c = 383 \<or> l = 73 \<and> (c = 304 \<or> c = 305)"

definition take_word :: "ustr \<Rightarrow> ustr \<Rightarrow> ustr option" where
  "take_word word s =
     (if length word \<le> length s \<and> list_all2 same_letter word (take (length word) s)
      then Some (drop (length word) s) else None)"

definition take_spaces :: "ustr \<Rightarrow> ustr option" where
  "take_spaces s = (case s of [] \<Rightarrow> None | c # _ \<Rightarrow> if py_isspace c then Some (dropWhile py_isspace s) else None)"

definition colon_end :: "ustr \<Rightarrow> bool" where
  "colon_end s \<longleftrightarrow> s \<noteq> [] \<and> hd s = 58 \<and> list_all py_isspace (tl s)"

text \<open>\<open>_HASHLINE_SWAP_RE\<close>\<close>

definition match_swap :: "files_env \<Rightarrow> ustr \<Rightarrow> (int \<times> int) option" where
  "match_swap env s =
     Option.bind (take_word (lit ''SWAP'') s) (\<lambda>s1.
     Option.bind (take_spaces s1) (\<lambda>s2.
     Option.bind (take_decimal env s2) (\<lambda>(a, s3).
       if colon_end s3 then Some (a, a)
       else if s3 \<noteq> [] \<and> hd s3 = 45
       then Option.bind (take_decimal env (tl s3)) (\<lambda>(z, s4). if colon_end s4 then Some (a, z) else None)
       else None)))"

text \<open>\<open>_HASHLINE_INSERT_RE\<close>: the line and whether to insert after it\<close>

definition match_insert :: "files_env \<Rightarrow> ustr \<Rightarrow> (int \<times> bool) option" where
  "match_insert env s =
     Option.bind (take_word (lit ''INSERT'') s) (\<lambda>s1.
     Option.bind (take_spaces s1) (\<lambda>s2.
       let place = (\<lambda>after t. Option.bind (take_decimal env t) (\<lambda>(n, r). if colon_end r then Some (n, after) else None)) in
       case take_word (lit ''BEFORE'') s2 of
         Some s3 \<Rightarrow> Option.bind (take_spaces s3) (place False)
       | None \<Rightarrow>
           (case take_word (lit ''AFTER'') s2 of
              Some s3 \<Rightarrow> Option.bind (take_spaces s3) (place True)
            | None \<Rightarrow> place False s2)))"

text \<open>\<open>_HASHLINE_ROW_RE\<close>\<close>

definition match_row :: "files_env \<Rightarrow> ustr \<Rightarrow> (int \<times> ustr) option" where
  "match_row env s =
     Option.bind (take_decimal env s) (\<lambda>(n, r). if r \<noteq> [] \<and> hd r = 58 then Some (n, tl r) else None)"

text \<open>\<open>_HASHLINE_HEADER_RE\<close>: the path ends at the last \<open>#\<close> that leaves a snapshot without \<open>]\<close>.\<close>

definition match_header :: "ustr \<Rightarrow> (ustr \<times> ustr) option" where
  "match_header s =
     (if 2 \<le> length s \<and> hd s = 91 \<and> last s = 93
      then (let inner = butlast (tl s) in
            case filter (\<lambda>n. inner ! n = 35 \<and> drop (Suc n) inner \<noteq> [] \<and> 93 \<notin> set (drop (Suc n) inner))
                   (rev [1..<length inner]) of
              [] \<Rightarrow> None
            | n # _ \<Rightarrow> Some (take n inner, drop (Suc n) inner))
      else None)"

text \<open>The rows before the first line that starts with \<open>+\<close>\<close>

fun old_rows :: "files_env \<Rightarrow> ustr list \<Rightarrow> ((int \<times> ustr) list \<times> ustr list) option" where
  "old_rows env [] = Some ([], [])"
| "old_rows env (l # ls) =
     (if starts_with [43] l then Some ([], l # ls)
      else Option.bind (match_row env l) (\<lambda>r. map_option (\<lambda>(rs, rest). (r # rs, rest)) (old_rows env ls)))"

fun consecutive_from :: "int \<Rightarrow> (int \<times> ustr) list \<Rightarrow> bool" where
  "consecutive_from n [] = True"
| "consecutive_from n (r # rs) = (fst r = n \<and> consecutive_from (n + 1) rs)"

text \<open>\<open>None\<close> is \<open>ValueError\<close>.\<close>

definition parse_hash_hunk :: "files_env \<Rightarrow> ustr \<Rightarrow> ustr \<Rightarrow> ustr list \<Rightarrow> hash_operation option" where
  "parse_hash_hunk env p i body =
     (case body of
        [] \<Rightarrow> None
      | l # ls \<Rightarrow>
          (case match_swap env (py_strip l) of
             Some (a, z) \<Rightarrow>
               if z < a then None
               else map_option (\<lambda>new. HashEdit p i a z (hash_replacement_text new) []) (hash_plus_lines False ls)
           | None \<Rightarrow>
               (case match_insert env (py_strip l) of
                  Some (n, after) \<Rightarrow> map_option (HashInsert p i n after) (hash_plus_lines True ls)
                | None \<Rightarrow>
                    Option.bind (old_rows env body) (\<lambda>(rows, rest).
                      if rows = [] \<or> \<not> consecutive_from (fst (hd rows)) rows then None
                      else map_option (\<lambda>new. HashEdit p i (fst (hd rows)) (fst (last rows)) (hash_replacement_text new) rows)
                             (hash_plus_lines False rest)))))"

definition blank :: "ustr \<Rightarrow> bool" where
  "blank l \<longleftrightarrow> py_strip l = []"

definition trim_blank :: "ustr list \<Rightarrow> ustr list" where
  "trim_blank ls = rev (dropWhile blank (rev (dropWhile blank ls)))"

text \<open>\<open>cur\<close> is the header in force, \<open>body\<close> the lines of the current hunk.\<close>

fun hash_operations ::
  "files_env \<Rightarrow> (ustr \<times> ustr) option \<Rightarrow> ustr list \<Rightarrow> ustr list \<Rightarrow> hash_operation list option" where
  "hash_operations env cur body [] =
     (case cur of
        None \<Rightarrow> Some []
      | Some (p, i) \<Rightarrow> if body = [] then Some [] else map_option (\<lambda>x. [x]) (parse_hash_hunk env p i body))"
| "hash_operations env cur body (l # ls) =
     (case match_header (py_strip l) of
        Some h \<Rightarrow>
          (case cur of
             None \<Rightarrow> hash_operations env (Some h) [] ls
           | Some (p, i) \<Rightarrow>
               if body = [] then hash_operations env (Some h) [] ls
               else Option.bind (parse_hash_hunk env p i body) (\<lambda>x. map_option ((#) x) (hash_operations env (Some h) [] ls)))
      | None \<Rightarrow>
          (case cur of
             None \<Rightarrow> None
           | Some (p, i) \<Rightarrow>
               if blank l
               then (if body = [] then hash_operations env cur [] ls
                     else Option.bind (parse_hash_hunk env p i body) (\<lambda>x. map_option ((#) x) (hash_operations env cur [] ls)))
               else hash_operations env cur (body @ [l]) ls))"

definition strip_returns :: "ustr \<Rightarrow> ustr" where
  "strip_returns l = rev (dropWhile (\<lambda>c. c = 13) (rev l))"

definition parse_hashline_edit_input :: "files_env \<Rightarrow> ustr \<Rightarrow> hash_operation list option" where
  "parse_hashline_edit_input env input =
     (let ls = trim_blank (map strip_returns (splitlines input)) in
      if ls = [] then None
      else Option.bind (hash_operations env None [] ls) (\<lambda>ops. if ops = [] then None else Some ops))"

section \<open>Hashline edits\<close>

fun operation_path :: "hash_operation \<Rightarrow> ustr" where
  "operation_path (HashEdit p i a z t rows) = p"
| "operation_path (HashInsert p i n after ls) = p"

fun operation_snapshot :: "hash_operation \<Rightarrow> ustr" where
  "operation_snapshot (HashEdit p i a z t rows) = i"
| "operation_snapshot (HashInsert p i n after ls) = i"

fun operation_range :: "hash_operation \<Rightarrow> int \<times> int" where
  "operation_range (HashEdit p i a z t rows) = (a, z)"
| "operation_range (HashInsert p i n after ls) = (n, n)"

text \<open>\<open>Path(workdir) / record.path\<close> exists: the recorded path is taken as it stands, without expansion.\<close>

definition path_for_operation ::
  "files_env \<Rightarrow> session_binding option \<Rightarrow> (ustr \<Rightarrow> rpath) \<Rightarrow> hash_operation \<Rightarrow> edit_host \<Rightarrow> session_error + ustr" where
  "path_for_operation env b plain op s =
     (case b of
        None \<Rightarrow> Inr (operation_path op)
      | Some x \<Rightarrow>
          (case get_snapshot (fv_store env) (sb_id x) (operation_snapshot op) (eh_store s) of
             Inl e \<Rightarrow> Inl e
           | Inr None \<Rightarrow> Inr (operation_path op)
           | Inr (Some r) \<Rightarrow>
               let candidate = fv_join env (sb_workdir x) (gs_path r) in
               if gs_path r \<noteq> operation_path op \<or> map_of (eh_files s) (plain candidate) = None
               then Inr (operation_path op) else Inr candidate))"

record hash_hunk =
  hh_index :: nat
  hh_path :: rpath
  hh_shown :: ustr
  hh_start :: int
  hh_end :: int
  hh_lines :: "ustr list"

text \<open>\<open>_hashline_file_snapshot\<close>: the file with its text as \<open>read_text\<close> decodes it\<close>

definition file_snapshot ::
  "files_env \<Rightarrow> session_binding option \<Rightarrow> ustr \<Rightarrow> edit_host \<Rightarrow> session_error + rpath \<times> ustr" where
  "file_snapshot env b arg s =
     (case resolve_existing env b arg s of
        Inl e \<Rightarrow> Inl e
      | Inr (p, TextFile t) \<Rightarrow> if fv_max_write env < utf8_len t then Inl (Failed ValueError) else Inr (p, t)
      | Inr (p, NotText n) \<Rightarrow> Inl (Failed ValueError)
      | Inr (p, Folder) \<Rightarrow> Inl (Failed OSError))"

definition operation_text :: "hash_operation \<Rightarrow> ustr list \<Rightarrow> session_error + ustr" where
  "operation_text op lines =
     (case op of
        HashInsert p i n after ls \<Rightarrow>
          (let anchor = lines ! nat (n - 1) in
           Inr (hash_replacement_text (if after then anchor # ls else ls @ [anchor])))
      | HashEdit p i a z text rows \<Rightarrow>
          if rows \<noteq> [] \<and> take (nat (z - a + 1)) (drop (nat (a - 1)) lines) \<noteq> map snd rows
          then Inl (Failed ValueError) else Inr text)"

definition prepare_hunk ::
  "files_env \<Rightarrow> session_binding option \<Rightarrow> (ustr \<Rightarrow> rpath) \<Rightarrow> nat \<Rightarrow> hash_operation \<Rightarrow> edit_host \<Rightarrow> session_error + hash_hunk" where
  "prepare_hunk env b plain n op s =
     (case path_for_operation env b plain op s of
        Inl e \<Rightarrow> Inl e
      | Inr arg \<Rightarrow>
          (case file_snapshot env b arg s of
             Inl e \<Rightarrow> Inl e
           | Inr (p, t) \<Rightarrow>
               let (a, z) = operation_range op; original = universal_newlines t;
                   lines = splitlines_keep original; amount = int (length lines); shown = display_file env b p in
               if a < 1 \<or> z < a \<or> amount < z then Inl (Failed ValueError)
               else case validate_snapshot_for_edit env b shown (fv_sha env (TextFile t)) a z
                           (Some (operation_snapshot op)) (eh_store s) of
                 Inl e \<Rightarrow> Inl e
               | Inr _ \<Rightarrow>
                   (case operation_text op (splitlines original) of
                      Inl e \<Rightarrow> Inl e
                    | Inr text \<Rightarrow>
                        let selected = take (nat (z - a + 1)) (drop (nat (a - 1)) lines) in
                        Inr \<lparr>hh_index = n, hh_path = p, hh_shown = shown, hh_start = a, hh_end = z,
                          hh_lines = replacement_lines text (newline_for_text original)
                                       (selected \<noteq> [] \<and> ends_line (last selected)) (z < amount)\<rparr>)))"

fun prepare_hunks ::
  "files_env \<Rightarrow> session_binding option \<Rightarrow> (ustr \<Rightarrow> rpath) \<Rightarrow> nat \<Rightarrow> hash_operation list \<Rightarrow> edit_host \<Rightarrow>
   session_error + hash_hunk list" where
  "prepare_hunks env b plain n [] s = Inr []"
| "prepare_hunks env b plain n (op # ops) s =
     (case prepare_hunk env b plain n op s of
        Inl e \<Rightarrow> Inl e
      | Inr h \<Rightarrow> (case prepare_hunks env b plain (Suc n) ops s of Inl e \<Rightarrow> Inl e | Inr hs \<Rightarrow> Inr (h # hs)))"

definition hunks_of :: "rpath \<Rightarrow> hash_hunk list \<Rightarrow> hash_hunk list" where
  "hunks_of p hs = filter (\<lambda>h. hh_path h = p) hs"

fun ordered_hunks :: "hash_hunk list \<Rightarrow> bool" where
  "ordered_hunks (h # k # hs) = (hh_end h < hh_start k \<and> ordered_hunks (k # hs))"
| "ordered_hunks _ = True"

text \<open>\<open>_validate_hashline_hunk_overlap\<close>\<close>

definition no_overlap :: "hash_hunk list \<Rightarrow> bool" where
  "no_overlap hs \<longleftrightarrow> list_all (\<lambda>p. ordered_hunks (sort_key hh_start (hunks_of p hs))) (from_keys (map hh_path hs))"

text \<open>The hunks of a file are applied from the last to the first.\<close>

definition apply_hunks :: "hash_hunk list \<Rightarrow> ustr list \<Rightarrow> ustr list" where
  "apply_hunks hs ls =
     fold (\<lambda>h acc. splice (hh_start h) (hh_end h) (hh_lines h) acc) (rev (sort_key hh_start (rev hs))) ls"

definition file_text :: "edit_host \<Rightarrow> rpath \<Rightarrow> ustr" where
  "file_text s p = (case map_of (eh_files s) p of Some (TextFile t) \<Rightarrow> universal_newlines t | _ \<Rightarrow> [])"

text \<open>One file after the other; what was written stays when a later file fails. \<open>old\<close> is the host before.\<close>

fun apply_files ::
  "files_env \<Rightarrow> session_binding option \<Rightarrow> (rpath \<Rightarrow> outcome) \<Rightarrow> hash_hunk list \<Rightarrow> edit_host \<Rightarrow> rpath list \<Rightarrow> edit_host \<Rightarrow>
   edit_host \<times> (session_error + ustr)" where
  "apply_files env b wr hs old [] s = (s, Inr [])"
| "apply_files env b wr hs old (p # ps) s =
     (let original = file_text old p; updated = concat (apply_hunks (hunks_of p hs) (splitlines_keep original)) in
      if fv_max_write env < utf8_len updated then (s, Inl (Failed ValueError))
      else case replace_file (wr p) p updated s of
             (s', Inl e) \<Rightarrow> (s', Inl e)
           | (s', Inr _) \<Rightarrow>
               (case apply_files env b wr hs old ps s' of
                  (s'', Inl e) \<Rightarrow> (s'', Inl e)
                | (s'', Inr d) \<Rightarrow> (s'', Inr (unified_diff env original updated (display_file env b p) @ d))))"

record hunk_output =
  ho_index :: nat
  ho_shown :: ustr
  ho_start :: int
  ho_end :: int
  ho_amount :: int
  ho_context :: read_output

text \<open>The contexts of the hunks of one file, read in order; \<open>delta\<close> is how far the lines have moved.\<close>

fun file_contexts ::
  "files_env \<Rightarrow> outcome \<Rightarrow> time \<Rightarrow> (nat \<Rightarrow> ustr) \<Rightarrow> session_binding option \<Rightarrow> rpath \<Rightarrow> nat \<Rightarrow> int \<Rightarrow> nat \<Rightarrow> hash_hunk list \<Rightarrow>
   edit_host \<Rightarrow> edit_host \<times> (session_error + hunk_output list)" where
  "file_contexts env sw now draw b p amount delta n [] s = (s, Inr [])"
| "file_contexts env sw now draw b p amount delta n (h # hs) s =
     (let start = max 1 (hh_start h + delta); added = int (length (hh_lines h));
          spec = (if amount = 0 then [(Some 1, Some 1)] else context_spec start added amount) in
      case read_file env sw now (draw n) b (slash @ join slash p) (Some spec) s of
        (s', Inl e) \<Rightarrow> (s', Inl e)
      | (s', Inr c) \<Rightarrow>
          (case file_contexts env sw now draw b p amount (delta + added - (hh_end h - hh_start h + 1)) (Suc n) hs s' of
             (s'', Inl e) \<Rightarrow> (s'', Inl e)
           | (s'', Inr os) \<Rightarrow>
               (s'', Inr (\<lparr>ho_index = hh_index h, ho_shown = hh_shown h, ho_start = hh_start h, ho_end = hh_end h,
                  ho_amount = added, ho_context = c\<rparr> # os))))"

fun hunk_contexts ::
  "files_env \<Rightarrow> outcome \<Rightarrow> time \<Rightarrow> (nat \<Rightarrow> ustr) \<Rightarrow> session_binding option \<Rightarrow> edit_host \<Rightarrow> hash_hunk list \<Rightarrow> nat \<Rightarrow> rpath list \<Rightarrow>
   edit_host \<Rightarrow> edit_host \<times> (session_error + hunk_output list)" where
  "hunk_contexts env sw now draw b old hs n [] s = (s, Inr [])"
| "hunk_contexts env sw now draw b old hs n (p # ps) s =
     (let own = hunks_of p hs; amount = length (apply_hunks own (splitlines_keep (file_text old p))) in
      case file_contexts env sw now draw b p amount 0 n (sort_key hh_start own) s of
        (s', Inl e) \<Rightarrow> (s', Inl e)
      | (s', Inr os) \<Rightarrow>
          (case hunk_contexts env sw now draw b old hs (n + length own) ps s' of
             (s'', Inl e) \<Rightarrow> (s'', Inl e)
           | (s'', Inr rest) \<Rightarrow> (s'', Inr (os @ rest))))"

record hashline_output =
  hl_path :: ustr
  hl_start :: int
  hl_end :: int
  hl_amount :: int
  hl_diff :: ustr
  hl_hunks :: "hunk_output list"

definition hashline_result :: "ustr \<Rightarrow> hunk_output list \<Rightarrow> hashline_output" where
  "hashline_result diff os =
     (let first = hd os; alone = list_all (\<lambda>x. ho_shown x = ho_shown first) os in
      \<lparr>hl_path = ho_shown first,
       hl_start = (if alone then Min (ho_start ` set os) else ho_start first),
       hl_end = (if alone then Max (ho_end ` set os) else ho_end first),
       hl_amount = sum_list (map ho_amount os), hl_diff = diff, hl_hunks = os\<rparr>)"

definition hashline_edit_locked ::
  "files_env \<Rightarrow> (rpath \<Rightarrow> outcome) \<Rightarrow> outcome \<Rightarrow> time \<Rightarrow> (nat \<Rightarrow> ustr) \<Rightarrow> session_binding option \<Rightarrow> (ustr \<Rightarrow> rpath) \<Rightarrow>
   hash_operation list \<Rightarrow> edit_host \<Rightarrow> edit_host \<times> (session_error + hashline_output)" where
  "hashline_edit_locked env wr sw now draw b plain ops s =
     (case prepare_hunks env b plain 0 ops s of
        Inl e \<Rightarrow> (s, Inl e)
      | Inr hs \<Rightarrow>
          if \<not> no_overlap hs then (s, Inl (Failed ValueError))
          else (let ps = from_keys (map hh_path hs) in
                case apply_files env b wr hs s ps s of
                  (s', Inl e) \<Rightarrow> (s', Inl e)
                | (s', Inr diff) \<Rightarrow>
                    (case hunk_contexts env sw now draw b s hs 0 ps s' of
                       (s'', Inl e) \<Rightarrow> (s'', Inl e)
                     | (s'', Inr os) \<Rightarrow> (s'', Inr (hashline_result diff (sort_key ho_index os))))))"

fun operation_paths ::
  "files_env \<Rightarrow> session_binding option \<Rightarrow> (ustr \<Rightarrow> rpath) \<Rightarrow> hash_operation list \<Rightarrow> edit_host \<Rightarrow> session_error + rpath list" where
  "operation_paths env b plain [] s = Inr []"
| "operation_paths env b plain (op # ops) s =
     (case path_for_operation env b plain op s of
        Inl e \<Rightarrow> Inl e
      | Inr arg \<Rightarrow>
          (case resolve_existing env b arg s of
             Inl e \<Rightarrow> Inl e
           | Inr (p, _) \<Rightarrow> (case operation_paths env b plain ops s of Inl e \<Rightarrow> Inl e | Inr ps \<Rightarrow> Inr (p # ps))))"

definition hashline_edit ::
  "files_env \<Rightarrow> (rpath \<Rightarrow> outcome) \<Rightarrow> outcome \<Rightarrow> time \<Rightarrow> (nat \<Rightarrow> ustr) \<Rightarrow> session_binding option \<Rightarrow> (ustr \<Rightarrow> rpath) \<Rightarrow>
   ustr \<Rightarrow> edit_host \<Rightarrow> edit_host \<times> (session_error + hashline_output)" where
  "hashline_edit env wr sw now draw b plain input s =
     (case parse_hashline_edit_input env input of
        None \<Rightarrow> (s, Inl (Failed ValueError))
      | Some ops \<Rightarrow>
          (case operation_paths env b plain ops s of
             Inl e \<Rightarrow> (s, Inl e)
           | Inr _ \<Rightarrow> hashline_edit_locked env wr sw now draw b plain ops s))"

section \<open>Writing and deleting\<close>

definition sha256_text :: "ustr \<Rightarrow> bool" where
  "sha256_text s \<longleftrightarrow> length s = 64 \<and> list_all is_hex s"

definition write_file ::
  "files_env \<Rightarrow> outcome \<Rightarrow> session_binding option \<Rightarrow> ustr \<Rightarrow> ustr \<Rightarrow> bool \<Rightarrow> ustr option \<Rightarrow> edit_host \<Rightarrow>
   edit_host \<times> (session_error + ustr \<times> nat \<times> bool)" where
  "write_file env w b arg content overwrite expected s =
     (let p = fv_resolve env (workdir_of env b) arg; found = map_of (eh_files s) p in
      if fv_max_write env < utf8_len content then (s, Inl (Failed ValueError))
      else if (case expected of None \<Rightarrow> False | Some d \<Rightarrow> \<not> sha256_text d) then (s, Inl (Failed ValueError))
      else if found \<noteq> None \<and> \<not> overwrite then (s, Inl (Failed OSError))
      else if (case (expected, found) of
                 (None, _) \<Rightarrow> False
               | (Some d, None) \<Rightarrow> True
               | (Some d, Some Folder) \<Rightarrow> True
               | (Some d, Some x) \<Rightarrow> fv_sha env x \<noteq> d) then (s, Inl (Failed ValueError))
      else if found = Some Folder then (s, Inl (Failed OSError))
      else case replace_file w p content s of
             (s', Inl e) \<Rightarrow> (s', Inl e)
           | (s', Inr _) \<Rightarrow> (s', Inr (display_file env b p, utf8_len content, found = None)))"

text \<open>Deletion of a file, a link to nowhere apart; \<open>ok\<close> says whether the removal succeeds.\<close>

definition beneath :: "rpath \<Rightarrow> rpath \<Rightarrow> bool" where
  "beneath p q \<longleftrightarrow> take (length p) q = p"

definition delete_file_or_dir ::
  "files_env \<Rightarrow> bool \<Rightarrow> session_binding option \<Rightarrow> ustr \<Rightarrow> bool \<Rightarrow> edit_host \<Rightarrow> edit_host \<times> (session_error + ustr)" where
  "delete_file_or_dir env ok b arg recursive s =
     (case resolve_existing env b arg s of
        Inl e \<Rightarrow> (s, Inl e)
      | Inr (p, x) \<Rightarrow>
          if x = Folder \<and> \<not> recursive then (s, Inl (Failed OSError))
          else if \<not> ok then (s, Inl (Failed OSError))
          else (s\<lparr>eh_files := filter (\<lambda>(q, y). \<not> (if x = Folder then beneath p q else q = p)) (eh_files s)\<rparr>,
                Inr (display_file env b p)))"

section \<open>The service\<close>

text \<open>Every operation first admits its session; \<open>aw\<close> is the outcome of that write.\<close>

definition bound ::
  "files_env \<Rightarrow> outcome \<Rightarrow> time \<Rightarrow> ustr \<Rightarrow> (session_binding \<Rightarrow> edit_host \<Rightarrow> edit_host \<times> (session_error + 'a)) \<Rightarrow>
   edit_host \<Rightarrow> edit_host \<times> (session_error + 'a)" where
  "bound env aw now k f s =
     (case admit_active_session (fv_store env) aw now k (eh_store s) of
        (st, Inl e) \<Rightarrow> (s\<lparr>eh_store := st\<rparr>, Inl e)
      | (st, Inr x) \<Rightarrow> f \<lparr>sb_id = as_id x, sb_workdir = as_workdir x\<rparr> (s\<lparr>eh_store := st\<rparr>))"

end
