(* ===== verification/Edit_Safety.thy ===== *)
theory Edit_Safety
  imports Grounded_Edits "HOL-Library.Multiset"
begin

text \<open>
  What grounded edits guarantee: an accepted edit rewrites exactly the lines it names, in a file whose
  present content the session has read, and every line it replaces was among those shown.
\<close>

section \<open>Codecs\<close>

lemma bind_sum_Inr: "bind_sum x f = Inr y \<longleftrightarrow> (\<exists>z. x = Inr z \<and> f z = Inr y)"
  by (cases x) auto

lemma session_to_payload_Inr:
  "session_to_payload text x = Inr v \<Longrightarrow> v = session_as_json x \<and> session_from_payload text v = Inr x"
  by (auto simp: session_to_payload_def bind_sum_Inr split: if_splits)

lemma json_str_or_empty_JStr [simp]: "json_str_or_empty text (JStr s) = s"
  by (simp add: json_str_or_empty_def)

lemma whole_number_int [simp]: "whole_number (of_int n)"
  by (simp add: whole_number_def)

lemma all_sums_ranges:
  "all_sums (map (range_from_json int_of \<circ> (\<lambda>(a, b). JList [JNum (of_int a), JNum (of_int b)])) rs) = Inr rs"
  by (induction rs) (auto simp: range_from_json_def)

lemma snapshot_round_trip:
  assumes "0 \<le> gs_sequence r"
  shows "snapshot_from_payload text int_of n (snapshot_as_json r) = Inr r"
  using assms all_sums_ranges
  by (simp add: snapshot_from_payload_def snapshot_as_json_def obj_get_def comp_def)

lemma index_round_trip:
  "\<forall>r\<in>set rs. 0 \<le> gs_sequence r \<and> gs_session r = k \<Longrightarrow>
   index_snapshots env k n (map snapshot_as_json rs) d = Inr (fold (\<lambda>r. AList.update (gs_id r) r) rs d)"
  by (induction rs arbitrary: n d) (simp_all add: snapshot_round_trip)

lemma fold_index_values:
  "v \<in> set (dict_values (fold (\<lambda>r. AList.update (gs_id r) r) rs d)) \<Longrightarrow> v \<in> set rs \<or> v \<in> set (dict_values d)"
proof (induction rs arbitrary: d)
  case (Cons r rs)
  have "v \<in> set (dict_values (AList.update k r d)) \<Longrightarrow> v = r \<or> v \<in> set (dict_values d)" for k
    by (induction d) (auto split: if_splits)
  with Cons show ?case by fastforce
qed simp

lemma fold_index_keys:
  "\<forall>r\<in>set (dict_values d). True \<Longrightarrow> \<forall>(i, r)\<in>set d. i = gs_id r \<Longrightarrow>
   \<forall>(i, r)\<in>set (fold (\<lambda>r. AList.update (gs_id r) r) rs d). i = gs_id r"
proof (induction rs arbitrary: d)
  case (Cons r rs)
  have "\<forall>(i, r')\<in>set (AList.update (gs_id r) r d). i = gs_id r'"
    using Cons.prems(2) by (induction d) (auto split: if_splits)
  with Cons show ?case by simp
qed simp

lemma update_values: "v \<in> set (dict_values (AList.update k r d)) \<Longrightarrow> v = r \<or> v \<in> set (dict_values d)"
  by (induction d) (auto split: if_splits)

lemma pruned_subset: "set (prune_snapshots env rs) \<subseteq> set rs"
proof -
  have "set (newest_first rs) = set rs" by (simp add: newest_first_def)
  then show ?thesis
    unfolding prune_snapshots_def Let_def by (metis order_trans set_take_subset)
qed

section \<open>What the files of the sessions hold\<close>

definition rows_at :: "tool_store \<Rightarrow> ustr \<Rightarrow> snapshot_record list \<Rightarrow> bool" where
  "rows_at st k rs \<longleftrightarrow>
     cell_of (ts_snaps st) k = Absent \<and> rs = [] \<or> cell_of (ts_snaps st) k = Doc (snapshots_as_json rs)"

definition session_at :: "files_env \<Rightarrow> tool_store \<Rightarrow> ustr \<Rightarrow> agent_session \<Rightarrow> bool" where
  "session_at env st k x \<longleftrightarrow>
     cell_of (ts_meta st) k = Doc (session_as_json x) \<and>
     session_from_payload (se_text (fv_store env)) (session_as_json x) = Inr x \<and> as_id x = k"

definition store_ok :: "files_env \<Rightarrow> tool_store \<Rightarrow> bool" where
  "store_ok env st \<longleftrightarrow>
     (\<forall>k. (\<exists>rs. rows_at st k rs \<and> (\<forall>r\<in>set rs. 0 \<le> gs_sequence r \<and> gs_session r = k)) \<and>
          (cell_of (ts_meta st) k = Absent \<or> (\<exists>x. session_at env st k x)))"

definition read_backs :: "files_env \<Rightarrow> ustr \<Rightarrow> read_event \<Rightarrow> snapshot_record \<Rightarrow> bool" where
  "read_backs env wd e r \<longleftrightarrow>
     re_session e = gs_session r \<and> re_id e = gs_id r \<and> (\<exists>d arg. re_path e = fv_resolve env d arg) \<and>
     gs_path r = display_path (fv_root env wd) (re_path e) \<and> gs_sha r = fv_sha env (TextFile (re_text e)) \<and>
     gs_ranges r = snd (selected_by_ranges (splitlines (utf8_prefix (fv_max_read env) (re_text e))) (re_specs e))"

definition edit_inv :: "files_env \<Rightarrow> edit_host \<Rightarrow> bool" where
  "edit_inv env s \<longleftrightarrow>
     store_ok env (eh_store s) \<and>
     (\<forall>k rs x. rows_at (eh_store s) k rs \<longrightarrow> session_at env (eh_store s) k x \<longrightarrow>
        (\<forall>r\<in>set rs. \<exists>e\<in>set (eh_reads s). read_backs env (as_workdir x) e r))"

lemma session_as_json_not_null [simp]: "session_as_json x \<noteq> JNull"
  by (simp add: session_as_json_def)

lemma cell_of_put [simp]: "cell_of (AList.update k c d) j = (if j = k then c else cell_of d j)"
  by (simp add: cell_of_def)

lemma cell_of_pop [simp]: "cell_of (AList.delete k d) j = (if j = k then Absent else cell_of d j)"
  by (simp add: cell_of_def)

lemma session_at_unique: "session_at env st k x \<Longrightarrow> session_at env st k y \<Longrightarrow> x = y"
  by (auto simp: session_at_def)

lemma ranges_as_json_inj:
  "map (\<lambda>(a :: int, b :: int). JList [JNum (of_int a), JNum (of_int b)]) xs =
   map (\<lambda>(a, b). JList [JNum (of_int a), JNum (of_int b)]) ys \<Longrightarrow> xs = ys"
proof (induction xs arbitrary: ys)
  case (Cons x xs)
  then obtain y zs where ys: "ys = y # zs" by (cases ys) auto
  with Cons.prems Cons.IH [of zs] show ?case by (auto split: prod.splits)
qed simp

lemma snapshot_as_json_inj: "snapshot_as_json r = snapshot_as_json q \<Longrightarrow> r = q"
  using ranges_as_json_inj [of "gs_ranges r" "gs_ranges q"] by (cases r; cases q) (simp add: snapshot_as_json_def)

lemma snapshots_as_json_inj: "snapshots_as_json rs = snapshots_as_json qs \<longleftrightarrow> rs = qs"
proof -
  have "inj snapshot_as_json" by (rule injI) (rule snapshot_as_json_inj)
  then show ?thesis by (simp add: snapshots_as_json_def inj_map_eq_map)
qed

lemma rows_at_unique: "rows_at st k rs \<Longrightarrow> rows_at st k qs \<Longrightarrow> rs = qs"
  by (auto simp: rows_at_def snapshots_as_json_inj)

lemma load_session_at:
  assumes "store_ok env st" and "load_session (fv_store env) k st = Inr (Some x)"
  shows "session_at env st k x"
proof -
  from assms(1) consider "cell_of (ts_meta st) k = Absent" | y where "session_at env st k y"
    unfolding store_ok_def by blast
  then show ?thesis
  proof cases
    case 1
    with assms(2) show ?thesis by (simp add: load_session_def read_json_def)
  next
    case 2
    with assms(2) have "x = y"
      by (auto simp: load_session_def session_at_def read_json_def bind_sum_Inr split: if_splits)
    with 2 show ?thesis by simp
  qed
qed

lemma require_session_at:
  "store_ok env st \<Longrightarrow> require_session_locked (fv_store env) k st = Inr x \<Longrightarrow> session_at env st k x"
  by (auto simp: require_session_locked_def intro: load_session_at split: sum.splits option.splits)

lemma load_snapshots_rows:
  assumes "rows_at st k rs" and "\<forall>r\<in>set rs. 0 \<le> gs_sequence r \<and> gs_session r = k"
    and "load_snapshots env k st = Inr d"
  shows "d = fold (\<lambda>r. AList.update (gs_id r) r) rs []"
  using assms
  by (auto simp: load_snapshots_def rows_at_def read_json_def bind_sum_Inr snapshots_as_json_def obj_get_def
      index_round_trip split: if_splits)

section \<open>Changes that leave the snapshots and the working directories alone\<close>

definition calm :: "files_env \<Rightarrow> tool_store \<Rightarrow> tool_store \<Rightarrow> bool" where
  "calm env s t \<longleftrightarrow>
     ts_snaps t = ts_snaps s \<and>
     (\<forall>k. cell_of (ts_meta t) k = cell_of (ts_meta s) k \<or>
        (\<exists>x y. session_at env s k x \<and> session_at env t k y \<and> as_workdir x = as_workdir y))"

lemma quiet_refl [simp]: "calm env s s"
  by (simp add: calm_def)

lemma calmI:
  assumes "ts_snaps t = ts_snaps s"
    and "\<And>k. cell_of (ts_meta t) k \<noteq> cell_of (ts_meta s) k \<Longrightarrow>
        \<exists>x y. session_at env s k x \<and> session_at env t k y \<and> as_workdir x = as_workdir y"
  shows "calm env s t"
  using assms unfolding calm_def by blast

lemma quiet_trans:
  assumes "calm env s t" and "calm env t u"
  shows "calm env s u"
proof (rule calmI)
  show "ts_snaps u = ts_snaps s" using assms by (simp add: calm_def)
  fix k assume changed: "cell_of (ts_meta u) k \<noteq> cell_of (ts_meta s) k"
  show "\<exists>x y. session_at env s k x \<and> session_at env u k y \<and> as_workdir x = as_workdir y"
  proof (cases "cell_of (ts_meta t) k = cell_of (ts_meta s) k")
    case True
    with changed assms(2) obtain x y where "session_at env t k x" "session_at env u k y" "as_workdir x = as_workdir y"
      unfolding calm_def by metis
    with True show ?thesis by (metis session_at_def)
  next
    case False
    with assms(1) obtain x y where xy: "session_at env s k x" "session_at env t k y" "as_workdir x = as_workdir y"
      unfolding calm_def by metis
    show ?thesis
    proof (cases "cell_of (ts_meta u) k = cell_of (ts_meta t) k")
      case True
      with xy(2) have "session_at env u k y" by (simp add: session_at_def)
      with xy show ?thesis by blast
    next
      case False
      with assms(2) obtain y' z where yz: "session_at env t k y'" "session_at env u k z" "as_workdir y' = as_workdir z"
        unfolding calm_def by metis
      from session_at_unique [OF xy(2) yz(1)] xy yz show ?thesis by metis
    qed
  qed
qed

lemma calm_ok: "store_ok env s \<Longrightarrow> calm env s t \<Longrightarrow> store_ok env t"
proof -
  assume ok: "store_ok env s" and calm: "calm env s t"
  have "\<exists>rs. rows_at t k rs \<and> (\<forall>r\<in>set rs. 0 \<le> gs_sequence r \<and> gs_session r = k)" for k
    using ok calm unfolding store_ok_def calm_def rows_at_def by metis
  moreover have "cell_of (ts_meta t) k = Absent \<or> (\<exists>x. session_at env t k x)" for k
  proof (cases "cell_of (ts_meta t) k = cell_of (ts_meta s) k")
    case True
    with ok show ?thesis unfolding store_ok_def by (metis session_at_def)
  next
    case False
    with calm show ?thesis unfolding calm_def by metis
  qed
  ultimately show ?thesis by (simp add: store_ok_def)
qed

lemma calm_inv:
  assumes "edit_inv env s" and "calm env (eh_store s) (eh_store t)" and "set (eh_reads s) \<subseteq> set (eh_reads t)"
  shows "edit_inv env t"
  unfolding edit_inv_def
proof (intro conjI allI impI ballI)
  show "store_ok env (eh_store t)" using assms(1,2) calm_ok by (auto simp: edit_inv_def)
  fix k rs x r
  assume rows: "rows_at (eh_store t) k rs" and x: "session_at env (eh_store t) k x" and r: "r \<in> set rs"
  have rows': "rows_at (eh_store s) k rs" using rows assms(2) by (simp add: calm_def rows_at_def)
  obtain y where y: "session_at env (eh_store s) k y" "as_workdir y = as_workdir x"
    using assms(2) x session_at_unique [OF x] unfolding calm_def by (metis session_at_def)
  from assms(1) rows' y(1) r obtain e where "e \<in> set (eh_reads s)" "read_backs env (as_workdir y) e r"
    unfolding edit_inv_def by blast
  with y(2) assms(3) show "\<exists>e\<in>set (eh_reads t). read_backs env (as_workdir x) e r" by auto
qed

lemma write_session_calm:
  assumes "session_at env s (as_id y) x" and "as_workdir y = as_workdir x"
    and "write_session (fv_store env) w y s = (t, r)"
  shows "calm env s t"
proof (cases "session_to_payload (se_text (fv_store env)) y")
  case (Inl e)
  with assms(3) show ?thesis by (simp add: write_session_def)
next
  case (Inr v)
  then have v: "v = session_as_json y" "session_from_payload (se_text (fv_store env)) (session_as_json y) = Inr y"
    using session_to_payload_Inr [OF Inr] by auto
  have t: "t = s\<lparr>ts_meta := AList.update (as_id y) (if lands w then Doc v else cell_of (ts_meta s) (as_id y)) (ts_meta s)\<rparr>"
    using assms(3) Inr by (simp add: write_session_def write_json_def)
  show ?thesis
  proof (rule calmI)
    show "ts_snaps t = ts_snaps s" by (simp add: t)
    fix k assume "cell_of (ts_meta t) k \<noteq> cell_of (ts_meta s) k"
    then have "k = as_id y" "lands w" by (auto simp: t split: if_splits)
    then have "session_at env t k y" using v by (simp add: t session_at_def)
    with assms(1,2) \<open>k = as_id y\<close> show "\<exists>x y. session_at env s k x \<and> session_at env t k y \<and> as_workdir x = as_workdir y"
      by metis
  qed
qed

lemma update_stored_calm:
  assumes "store_ok env s" and "\<And>x y. f x = Some y \<Longrightarrow> as_id y = as_id x \<and> as_workdir y = as_workdir x"
    and "update_stored (fv_store env) w k f s = (t, r)"
  shows "calm env s t"
proof (cases "require_session_locked (fv_store env) k s")
  case (Inl e)
  with assms(3) show ?thesis by (simp add: update_stored_def)
next
  case (Inr x)
  then have x: "session_at env s k x" by (rule require_session_at [OF assms(1)])
  show ?thesis
  proof (cases "f x")
    case None
    with Inr assms(3) show ?thesis by (simp add: update_stored_def)
  next
    case (Some y)
    obtain t' q where w: "write_session (fv_store env) w y s = (t', q)" by fastforce
    with Some Inr assms(3) have "t = t'" by (auto simp: update_stored_def split: sum.splits)
    moreover have "calm env s t'"
      by (rule write_session_calm [OF _ _ w, of x]) (use assms(2) [OF Some] x in \<open>auto simp: session_at_def\<close>)
    ultimately show ?thesis by simp
  qed
qed

lemma calm_session:
  assumes "calm env s t" and "session_at env s k x"
  obtains y where "session_at env t k y" and "as_workdir y = as_workdir x"
proof (cases "cell_of (ts_meta t) k = cell_of (ts_meta s) k")
  case True
  with assms(2) have "session_at env t k x" by (simp add: session_at_def)
  then show ?thesis by (rule that) simp
next
  case False
  with assms(1) obtain x' y where "session_at env s k x'" "session_at env t k y" "as_workdir x' = as_workdir y"
    unfolding calm_def by metis
  with session_at_unique [OF assms(2)] that show ?thesis by metis
qed

lemma write_each_calm:
  "\<forall>y\<in>set ys. \<exists>x. session_at env s (as_id y) x \<and> as_workdir y = as_workdir x \<Longrightarrow>
   write_each (fv_store env) ws ys s = (t, r) \<Longrightarrow> calm env s t"
proof (induction ys arbitrary: s)
  case (Cons y ys)
  obtain s' q where w: "write_session (fv_store env) (ws (as_id y)) y s = (s', q)" by fastforce
  from Cons.prems(1) have "\<exists>x. session_at env s (as_id y) x \<and> as_workdir y = as_workdir x" by simp
  then obtain x where "session_at env s (as_id y) x" "as_workdir y = as_workdir x" by blast
  then have first: "calm env s s'" using w by (rule write_session_calm)
  show ?case
  proof (cases q)
    case (Inl e)
    with Cons.prems(2) w first show ?thesis by simp
  next
    case (Inr u)
    have "\<exists>x'. session_at env s' (as_id z) x' \<and> as_workdir z = as_workdir x'" if z: "z \<in> set ys" for z
    proof -
      from Cons.prems(1) z have "\<exists>x. session_at env s (as_id z) x \<and> as_workdir z = as_workdir x" by simp
      then obtain x' where "session_at env s (as_id z) x'" "as_workdir z = as_workdir x'" by blast
      with calm_session [OF first this(1)] show ?thesis by metis
    qed
    moreover have "write_each (fv_store env) ws ys s' = (t, r)" using Cons.prems(2) w Inr by simp
    ultimately have "calm env s' t" by (intro Cons.IH) blast+
    with first show ?thesis by (rule quiet_trans)
  qed
qed simp

lemma require_all_at:
  "store_ok env s \<Longrightarrow> require_all (fv_store env) ks s = Inr xs \<Longrightarrow> x \<in> set xs \<Longrightarrow> session_at env s (as_id x) x"
proof (induction ks arbitrary: xs)
  case (Cons k ks)
  then obtain y ys where "require_session_locked (fv_store env) k s = Inr y" "require_all (fv_store env) ks s = Inr ys" "xs = y # ys"
    by (auto split: sum.splits)
  with Cons require_session_at [OF Cons.prems(1), of k y] show ?case by (auto simp: session_at_def)
qed simp

lemma admit_calm:
  assumes "store_ok env s" and "admit_tool_sessions (fv_store env) ws now ks s = (t, r)"
  shows "calm env s t"
proof (cases "require_all (fv_store env) (from_keys ks) s")
  case (Inl e)
  with assms(2) show ?thesis by (simp add: admit_tool_sessions_def)
next
  case (Inr xs)
  let ?ys = "map (\<lambda>x. x\<lparr>as_updated_at := now\<rparr>) xs"
  obtain t' q where w: "write_each (fv_store env) ws ?ys s = (t', q)" by fastforce
  have "calm env s t'"
    by (rule write_each_calm [OF _ w]) (use require_all_at [OF assms(1) Inr] in auto)
  with assms(2) Inr w show ?thesis
    by (auto simp: admit_tool_sessions_def Let_def split: if_splits sum.splits)
qed

lemma admit_active_bound:
  assumes "store_ok env s" and "admit_active_session (fv_store env) w now k s = (t, Inr x)"
  shows "\<exists>y. session_at env t k y \<and> as_workdir y = as_workdir x \<and> as_id x = k"
proof -
  have keys: "from_keys [k] = [k]" by (simp add: from_keys_def)
  obtain t' q where a: "admit_tool_sessions (fv_store env) (\<lambda>_. w) now [k] s = (t', q)" by fastforce
  with assms(2) obtain xs where q: "q = Inr xs" "x = hd xs" "t' = t"
    by (auto simp: admit_active_session_def split: sum.splits)
  from a q obtain y where y: "require_session_locked (fv_store env) k s = Inr y" "xs = [y\<lparr>as_updated_at := now\<rparr>]"
    by (auto simp: admit_tool_sessions_def keys Let_def split: sum.splits if_splits prod.splits)
  have "session_at env s k y" using y(1) by (rule require_session_at [OF assms(1)])
  with admit_calm [OF assms(1) a] obtain z where "session_at env t' k z" "as_workdir z = as_workdir y"
    by (metis calm_session)
  with y q \<open>session_at env s k y\<close> show ?thesis by (auto simp: session_at_def)
qed

lemma admit_active_calm:
  assumes "store_ok env s" and "admit_active_session (fv_store env) w now k s = (t, r)"
  shows "calm env s t"
proof -
  obtain t' q where a: "admit_tool_sessions (fv_store env) (\<lambda>_. w) now [k] s = (t', q)" by fastforce
  with assms(2) have "t = t'" by (auto simp: admit_active_session_def split: sum.splits)
  with admit_calm [OF assms(1) a] show ?thesis by simp
qed

lemma update_each_calm:
  assumes f: "\<And>x. as_id (f x) = as_id x \<and> as_workdir (f x) = as_workdir x"
  shows "store_ok env s \<Longrightarrow> update_each (fv_store env) ws f xs s = (t, r) \<Longrightarrow> calm env s t"
proof (induction xs arbitrary: s)
  case (Cons x xs)
  show ?case
  proof (cases "f x = x")
    case True
    with Cons show ?thesis by simp
  next
    case changed: False
    show ?thesis
    proof (cases "load_session (fv_store env) (as_id x) s")
      case (Inl e)
      with Cons.prems(2) changed show ?thesis by simp
    next
      case (Inr found)
      show ?thesis
      proof (cases found)
        case None
        with Cons Inr changed show ?thesis by simp
      next
        case (Some y)
        show ?thesis
        proof (cases "f y = y")
          case True
          with Cons Inr Some changed show ?thesis by simp
        next
          case False
          have y: "session_at env s (as_id x) y" using Inr Some load_session_at [OF Cons.prems(1)] by simp
          obtain s' q where w: "write_session (fv_store env) (ws (as_id x)) (f y) s = (s', q)" by fastforce
          have first: "calm env s s'"
            by (rule write_session_calm [OF _ _ w, of y]) (use f y in \<open>auto simp: session_at_def\<close>)
          show ?thesis
          proof (cases q)
            case (Inl e)
            with Cons.prems(2) Inr Some changed False w first show ?thesis by simp
          next
            case (Inr u)
            with Cons.prems(2) \<open>load_session (fv_store env) (as_id x) s = Inr found\<close> Some changed False w
            have "update_each (fv_store env) ws f xs s' = (t, r)" by simp
            with Cons.IH [OF calm_ok [OF Cons.prems(1) first]] have "calm env s' t" .
            with first show ?thesis by (rule quiet_trans)
          qed
        qed
      qed
    qed
  qed
qed simp

section \<open>Recording a snapshot\<close>

lemma next_sequence_nonneg: "\<forall>r\<in>set rs. 0 \<le> gs_sequence r \<Longrightarrow> 0 \<le> next_sequence rs"
proof (cases rs)
  case (Cons r rs')
  assume nonneg: "\<forall>r\<in>set rs. 0 \<le> gs_sequence r"
  have "gs_sequence r \<le> Max (gs_sequence ` set rs)" by (rule Max_ge) (simp_all add: Cons)
  moreover have "0 \<le> gs_sequence r" using nonneg Cons by simp
  ultimately have "0 \<le> 1 + Max (gs_sequence ` set rs)" by linarith
  with Cons show ?thesis unfolding next_sequence_def by simp
qed (simp add: next_sequence_def)

lemma put_snapshots_rows:
  assumes "put_snapshots w k qs s = (t, q)"
  shows "ts_meta t = ts_meta s" and "j \<noteq> k \<Longrightarrow> cell_of (ts_snaps t) j = cell_of (ts_snaps s) j"
    and "cell_of (ts_snaps t) k = cell_of (ts_snaps s) k \<or> rows_at t k qs"
  using assms by (auto simp: put_snapshots_def write_json_def rows_at_def split: if_splits)

text \<open>What \<open>record_file_snapshot\<close> may leave in the file of its session\<close>

lemma record_rows:
  assumes ok: "store_ok env s" and rows: "rows_at s k rs"
    and run: "record_file_snapshot (fv_store env) w now k i p sha n ranges s = (t, q)"
  shows "ts_meta t = ts_meta s" and "\<And>j. j \<noteq> k \<Longrightarrow> cell_of (ts_snaps t) j = cell_of (ts_snaps s) j"
    and "cell_of (ts_snaps t) k = cell_of (ts_snaps s) k \<or>
      (\<exists>qs. rows_at t k qs \<and> (\<forall>r\<in>set qs. 0 \<le> gs_sequence r \<and> gs_session r = k \<and>
        (r \<in> set rs \<or> gs_id r = i \<and> gs_path r = p \<and> gs_sha r = sha \<and> gs_ranges r = ranges)))"
proof -
  have good: "\<forall>r\<in>set rs. 0 \<le> gs_sequence r \<and> gs_session r = k"
    using ok rows rows_at_unique unfolding store_ok_def by metis
  consider "t = s" | d r where "load_snapshots (fv_store env) k s = Inr d" and "r = new_snapshot k i p sha n ranges now (dict_values d)"
      and "\<exists>q'. put_snapshots w k (prune_snapshots (fv_store env) (dict_values (AList.update i r d))) s = (t, q')"
    using run by (auto simp: record_file_snapshot_def Let_def split: sum.splits if_splits prod.splits)
  then have all: "ts_meta t = ts_meta s \<and> (\<forall>j. j \<noteq> k \<longrightarrow> cell_of (ts_snaps t) j = cell_of (ts_snaps s) j) \<and>
     (cell_of (ts_snaps t) k = cell_of (ts_snaps s) k \<or>
      (\<exists>qs. rows_at t k qs \<and> (\<forall>r\<in>set qs. 0 \<le> gs_sequence r \<and> gs_session r = k \<and>
        (r \<in> set rs \<or> gs_id r = i \<and> gs_path r = p \<and> gs_sha r = sha \<and> gs_ranges r = ranges))))"
  proof cases
    case 1
    then show ?thesis by simp
  next
    case 2
    then obtain q' where put: "put_snapshots w k (prune_snapshots (fv_store env) (dict_values (AList.update i r d))) s = (t, q')"
      by blast
    have d: "d = fold (\<lambda>r. AList.update (gs_id r) r) rs []" using load_snapshots_rows [OF rows good 2(1)] .
    have old: "v \<in> set rs" if "v \<in> set (dict_values d)" for v
      using fold_index_values [of v rs "[]"] that by (simp add: d)
    have seq: "0 \<le> gs_sequence r"
      using next_sequence_nonneg [of "dict_values d"] old good by (auto simp: 2(2) new_snapshot_def)
    have "0 \<le> gs_sequence v \<and> gs_session v = k \<and>
        (v \<in> set rs \<or> gs_id v = i \<and> gs_path v = p \<and> gs_sha v = sha \<and> gs_ranges v = ranges)"
      if v: "v \<in> set (prune_snapshots (fv_store env) (dict_values (AList.update i r d)))" for v
    proof -
      have "v = r \<or> v \<in> set rs" using v pruned_subset update_values [of v i r d] old by blast
      with seq good 2(2) show ?thesis by (auto simp: new_snapshot_def)
    qed
    then show ?thesis using put_snapshots_rows [OF put] by blast
  qed
  from all show "ts_meta t = ts_meta s" "\<And>j. j \<noteq> k \<Longrightarrow> cell_of (ts_snaps t) j = cell_of (ts_snaps s) j"
    "cell_of (ts_snaps t) k = cell_of (ts_snaps s) k \<or>
      (\<exists>qs. rows_at t k qs \<and> (\<forall>r\<in>set qs. 0 \<le> gs_sequence r \<and> gs_session r = k \<and>
        (r \<in> set rs \<or> gs_id r = i \<and> gs_path r = p \<and> gs_sha r = sha \<and> gs_ranges r = ranges)))"
    by blast+
qed

section \<open>Reads keep the invariant\<close>

definition bound_to :: "files_env \<Rightarrow> session_binding option \<Rightarrow> edit_host \<Rightarrow> bool" where
  "bound_to env b s \<longleftrightarrow>
     (case b of None \<Rightarrow> True
      | Some x \<Rightarrow> \<exists>y. session_at env (eh_store s) (sb_id x) y \<and> as_workdir y = sb_workdir x)"

lemma edit_inv_ok: "edit_inv env s \<Longrightarrow> store_ok env (eh_store s)"
  by (simp add: edit_inv_def)

lemma edit_inv_files [simp]: "edit_inv env (s\<lparr>eh_files := f\<rparr>) = edit_inv env s"
  by (simp add: edit_inv_def)

lemma bound_to_files [simp]: "bound_to env b (s\<lparr>eh_files := f\<rparr>) = bound_to env b s"
  by (simp add: bound_to_def split: option.splits)

lemma session_at_meta: "ts_meta t = ts_meta s \<Longrightarrow> session_at env t k x = session_at env s k x"
  by (simp add: session_at_def)

lemma rows_at_snaps: "cell_of (ts_snaps t) k = cell_of (ts_snaps s) k \<Longrightarrow> rows_at t k rs = rows_at s k rs"
  by (simp add: rows_at_def)

lemma record_keeps_inv:
  assumes inv: "edit_inv env s" and b: "session_at env (eh_store s) k y" and p: "p = fv_resolve env d arg"
    and run: "record_file_snapshot (fv_store env) w now k i (display_path (fv_root env (as_workdir y)) p)
        (fv_sha env (TextFile t)) n (snd (selected_by_ranges (splitlines (utf8_prefix (fv_max_read env) t)) specs))
        (eh_store s) = (st, q)"
  shows "edit_inv env (s\<lparr>eh_store := st,
      eh_reads := \<lparr>re_session = k, re_id = i, re_path = p, re_text = t, re_specs = specs\<rparr> # eh_reads s\<rparr>)"
proof -
  let ?e = "\<lparr>re_session = k, re_id = i, re_path = p, re_text = t, re_specs = specs\<rparr>"
  have ok: "store_ok env (eh_store s)" using inv by (rule edit_inv_ok)
  then obtain rs where rows: "rows_at (eh_store s) k rs" and good: "\<forall>r\<in>set rs. 0 \<le> gs_sequence r \<and> gs_session r = k"
    unfolding store_ok_def by blast
  note keep = record_rows [OF ok rows run]
  have meta: "session_at env st j x = session_at env (eh_store s) j x" for j x
    using keep(1) by (rule session_at_meta)
  obtain qs where qs: "rows_at st k qs"
    and new: "\<And>r. r \<in> set qs \<Longrightarrow> 0 \<le> gs_sequence r \<and> gs_session r = k \<and> (r \<in> set rs \<or> read_backs env (as_workdir y) ?e r)"
  proof (cases "cell_of (ts_snaps st) k = cell_of (ts_snaps (eh_store s)) k")
    case True
    with rows have "rows_at st k rs" by (simp add: rows_at_def)
    then show ?thesis by (rule that) (use good in blast)
  next
    case False
    with keep(3) obtain qs where "rows_at st k qs" and "\<forall>r\<in>set qs. 0 \<le> gs_sequence r \<and> gs_session r = k \<and>
        (r \<in> set rs \<or> gs_id r = i \<and> gs_path r = display_path (fv_root env (as_workdir y)) p \<and>
          gs_sha r = fv_sha env (TextFile t) \<and>
          gs_ranges r = snd (selected_by_ranges (splitlines (utf8_prefix (fv_max_read env) t)) specs))" by blast
    then show ?thesis by (intro that) (use p in \<open>auto simp: read_backs_def\<close>)
  qed
  have ok': "store_ok env st"
    unfolding store_ok_def
  proof
    fix j
    have "\<exists>rs. rows_at st j rs \<and> (\<forall>r\<in>set rs. 0 \<le> gs_sequence r \<and> gs_session r = j)"
    proof (cases "j = k")
      case True
      with qs new show ?thesis by blast
    next
      case False
      with ok keep(2) [OF False] show ?thesis unfolding store_ok_def rows_at_def by metis
    qed
    moreover have "cell_of (ts_meta st) j = Absent \<or> (\<exists>x. session_at env st j x)"
      using ok unfolding store_ok_def meta keep(1) by blast
    ultimately show "(\<exists>rs. rows_at st j rs \<and> (\<forall>r\<in>set rs. 0 \<le> gs_sequence r \<and> gs_session r = j)) \<and>
        (cell_of (ts_meta st) j = Absent \<or> (\<exists>x. session_at env st j x))" ..
  qed
  have backed: "\<exists>e\<in>set (?e # eh_reads s). read_backs env (as_workdir x) e r"
    if "rows_at st j ps" "session_at env st j x" "r \<in> set ps" for j ps x r
  proof (cases "j = k")
    case True
    have "ps = qs" using that(1) qs True rows_at_unique by blast
    moreover have "x = y" using that(2) b True session_at_unique unfolding meta by blast
    ultimately have "r \<in> set rs \<or> read_backs env (as_workdir x) ?e r" using new that(3) by blast
    moreover have "\<exists>e\<in>set (eh_reads s). read_backs env (as_workdir x) e r" if "r \<in> set rs"
      using inv rows b \<open>x = y\<close> that unfolding edit_inv_def by blast
    ultimately show ?thesis by auto
  next
    case False
    then have "rows_at (eh_store s) j ps" using that(1) keep(2) by (simp add: rows_at_def)
    with inv that(2,3) have "\<exists>e\<in>set (eh_reads s). read_backs env (as_workdir x) e r"
      unfolding edit_inv_def meta by blast
    then show ?thesis by auto
  qed
  show ?thesis
    unfolding edit_inv_def using ok' backed by simp
qed

lemma read_keeps_inv:
  assumes inv: "edit_inv env s" and b: "bound_to env b s" and run: "read_file env w now i b arg specs s = (t, q)"
  shows "edit_inv env t \<and> bound_to env b t \<and> eh_files t = eh_files s"
proof (cases "resolve_existing env b arg s")
  case (Inl e)
  with assms show ?thesis by (simp add: read_file_def)
next
  case (Inr px)
  obtain p x where px: "px = (p, x)" by fastforce
  show ?thesis
  proof (cases x)
    case (TextFile body)
    show ?thesis
    proof (cases b)
      case None
      with run Inr px TextFile inv show ?thesis by (auto simp: read_file_def bound_to_def Let_def split: prod.splits)
    next
      case (Some z)
      with b obtain y where y: "session_at env (eh_store s) (sb_id z) y" "as_workdir y = sb_workdir z"
        by (auto simp: bound_to_def)
      let ?asked = "case specs of None \<Rightarrow> [(None, None)] | Some r \<Rightarrow> r"
      let ?e = "\<lparr>re_session = sb_id z, re_id = i, re_path = p, re_text = body, re_specs = ?asked\<rparr>"
      let ?lines = "splitlines (utf8_prefix (fv_max_read env) body)"
      obtain st q' where rec: "record_file_snapshot (fv_store env) w now (sb_id z) i (display_path (fv_root env (as_workdir y)) p)
          (fv_sha env (TextFile body)) (int (length ?lines)) (snd (selected_by_ranges ?lines ?asked)) (eh_store s) = (st, q')"
        by fastforce
      have t: "t = s\<lparr>eh_store := st, eh_reads := ?e # eh_reads s\<rparr>"
        using run Inr px TextFile Some rec y(2)
        by (auto simp: read_file_def display_file_def workdir_of_def Let_def split: prod.splits sum.splits)
      have p: "p = fv_resolve env (workdir_of env b) arg"
        using Inr px by (auto simp: resolve_existing_def Let_def split: option.splits)
      have inv': "edit_inv env t" unfolding t by (rule record_keeps_inv [OF inv y(1) p rec])
      have ok: "store_ok env (eh_store s)" using inv by (rule edit_inv_ok)
      then obtain rs where rows: "rows_at (eh_store s) (sb_id z) rs" unfolding store_ok_def by blast
      have "ts_meta st = ts_meta (eh_store s)" by (rule record_rows(1) [OF ok rows rec])
      then have "session_at env st (sb_id z) y" using y(1) by (simp add: session_at_def)
      with y(2) inv' Some show ?thesis by (auto simp: bound_to_def t)
    qed
  next
    case (NotText n)
    with assms Inr px show ?thesis by (simp add: read_file_def)
  next
    case Folder
    with assms Inr px show ?thesis by (simp add: read_file_def)
  qed
qed

section \<open>Edits keep the invariant\<close>

definition keeps :: "files_env \<Rightarrow> session_binding option \<Rightarrow> edit_host \<Rightarrow> edit_host \<Rightarrow> bool" where
  "keeps env b s t \<longleftrightarrow> edit_inv env s \<and> bound_to env b s \<longrightarrow> edit_inv env t \<and> bound_to env b t"

lemma keeps_refl [simp]: "keeps env b s s"
  by (simp add: keeps_def)

lemma keeps_trans: "keeps env b s t \<Longrightarrow> keeps env b t u \<Longrightarrow> keeps env b s u"
  by (simp add: keeps_def)

lemma read_keeps: "read_file env w now i b arg specs s = (t, q) \<Longrightarrow> keeps env b s t"
  unfolding keeps_def using read_keeps_inv by blast

lemma replace_keeps: "replace_file w p x s = (t, q) \<Longrightarrow> keeps env b s t"
  by (auto simp: keeps_def replace_file_def)

lemma edit_lines_keeps:
  assumes "edit_lines env w sw now i b arg a z new snapshot s = (t, q)"
  shows "keeps env b s t"
proof -
  consider "t = s" | p x s' r where "replace_file w p x s = (s', r)" "t = s'"
    | p x s' r spec q' where "replace_file w p x s = (s', r)"
        "read_file env sw now i b (slash @ join slash p) spec s' = (t, q')"
    using assms by (auto simp: edit_lines_def Let_def split: if_splits sum.splits prod.splits fnode.splits)
  then show ?thesis
    by cases (auto dest: read_keeps replace_keeps intro: keeps_trans)
qed

lemma apply_files_keeps: "apply_files env b wr hs old ps s = (t, q) \<Longrightarrow> keeps env b s t"
proof (induction ps arbitrary: s t q)
  case (Cons p ps)
  let ?u = "concat (apply_hunks (hunks_of p hs) (splitlines_keep (file_text old p)))"
  obtain s' r where r: "replace_file (wr p) p ?u s = (s', r)" by fastforce
  show ?case
  proof (cases "fv_max_write env < utf8_len ?u")
    case True
    with Cons.prems show ?thesis by (simp add: Let_def)
  next
    case False
    obtain s'' r' where rest: "apply_files env b wr hs old ps s' = (s'', r')" by fastforce
    have "t = s' \<or> t = s''" using Cons.prems False r rest by (auto simp: Let_def split: sum.splits)
    with Cons.IH [OF rest] replace_keeps [OF r] show ?thesis by (blast intro: keeps_trans)
  qed
qed simp

lemma file_contexts_keeps: "file_contexts env sw now draw b p amount delta n hs s = (t, q) \<Longrightarrow> keeps env b s t"
proof (induction hs arbitrary: s t q delta n)
  case (Cons h hs)
  let ?start = "max 1 (hh_start h + delta)" and ?added = "int (length (hh_lines h))"
  let ?spec = "if amount = 0 then [(Some 1, Some 1)] else context_spec ?start ?added amount"
  obtain s' r where r: "read_file env sw now (draw n) b (slash @ join slash p) (Some ?spec) s = (s', r)" by fastforce
  obtain s'' r' where rest: "file_contexts env sw now draw b p amount (delta + ?added - (hh_end h - hh_start h + 1)) (Suc n) hs s' = (s'', r')"
    by fastforce
  have "t = s' \<or> t = s''" using Cons.prems r rest by (auto simp: Let_def split: sum.splits)
  with Cons.IH [OF rest] read_keeps [OF r] show ?case by (blast intro: keeps_trans)
qed simp

lemma hunk_contexts_keeps: "hunk_contexts env sw now draw b old hs n ps s = (t, q) \<Longrightarrow> keeps env b s t"
proof (induction ps arbitrary: s t q n)
  case (Cons p ps)
  let ?own = "hunks_of p hs"
  let ?amount = "length (apply_hunks ?own (splitlines_keep (file_text old p)))"
  obtain s' r where r: "file_contexts env sw now draw b p ?amount 0 n (sort_key hh_start ?own) s = (s', r)" by fastforce
  obtain s'' r' where rest: "hunk_contexts env sw now draw b old hs (n + length ?own) ps s' = (s'', r')" by fastforce
  have "t = s' \<or> t = s''" using Cons.prems r rest by (auto simp: Let_def split: sum.splits)
  with Cons.IH [OF rest] file_contexts_keeps [OF r] show ?case by (blast intro: keeps_trans)
qed simp

lemma hashline_locked_keeps:
  assumes "hashline_edit_locked env wr sw now draw b plain ops s = (t, q)"
  shows "keeps env b s t"
proof (cases "prepare_hunks env b plain 0 ops s")
  case (Inl e)
  with assms show ?thesis by (simp add: hashline_edit_locked_def)
next
  case (Inr hs)
  let ?ps = "from_keys (map hh_path hs)"
  obtain s' r where a: "apply_files env b wr hs s ?ps s = (s', r)" by fastforce
  obtain s'' r' where c: "hunk_contexts env sw now draw b s hs 0 ?ps s' = (s'', r')" by fastforce
  have "t = s \<or> t = s' \<or> t = s''"
    using assms Inr a c by (auto simp: hashline_edit_locked_def Let_def split: if_splits sum.splits)
  with apply_files_keeps [OF a] hunk_contexts_keeps [OF c] show ?thesis
    by (auto intro: keeps_trans)
qed

lemma hashline_keeps: "hashline_edit env wr sw now draw b plain input s = (t, q) \<Longrightarrow> keeps env b s t"
  by (auto simp: hashline_edit_def dest: hashline_locked_keeps split: option.splits sum.splits)

lemma write_file_keeps: "write_file env w b arg content overwrite expected s = (t, q) \<Longrightarrow> edit_inv env s \<Longrightarrow> edit_inv env t"
  by (auto simp: write_file_def replace_file_def Let_def split: if_splits sum.splits prod.splits)

lemma delete_keeps: "delete_file_or_dir env ok b arg recursive s = (t, q) \<Longrightarrow> edit_inv env s \<Longrightarrow> edit_inv env t"
  by (auto simp: delete_file_or_dir_def split: if_splits sum.splits prod.splits)

lemma bound_keeps:
  assumes "edit_inv env s" and "bound env aw now k f s = (t, q)"
    and "\<And>b s' t' q'. f b s' = (t', q') \<Longrightarrow> edit_inv env s' \<Longrightarrow> bound_to env (Some b) s' \<Longrightarrow> edit_inv env t'"
  shows "edit_inv env t"
proof -
  have ok: "store_ok env (eh_store s)" using assms(1) by (rule edit_inv_ok)
  obtain st r where a: "admit_active_session (fv_store env) aw now k (eh_store s) = (st, r)" by fastforce
  have inv: "edit_inv env (s\<lparr>eh_store := st\<rparr>)"
    by (rule calm_inv [OF assms(1)]) (use admit_active_calm [OF ok a] in simp_all)
  show ?thesis
  proof (cases r)
    case (Inl e)
    with assms(2) a inv show ?thesis by (simp add: bound_def)
  next
    case (Inr x)
    let ?b = "\<lparr>sb_id = as_id x, sb_workdir = as_workdir x\<rparr>"
    from admit_active_bound [OF ok a [unfolded Inr]] have "bound_to env (Some ?b) (s\<lparr>eh_store := st\<rparr>)"
      by (auto simp: bound_to_def)
    moreover have "f ?b (s\<lparr>eh_store := st\<rparr>) = (t, q)" using assms(2) a Inr by (simp add: bound_def)
    ultimately show ?thesis using assms(3) inv by blast
  qed
qed

section \<open>Runs\<close>

text \<open>The operations of the store that leave snapshots and working directories alone\<close>

inductive session_upkeep :: "files_env \<Rightarrow> tool_store \<Rightarrow> tool_store \<Rightarrow> bool" for env where
  "request_termination (fv_store env) w now k s = (t, q) \<Longrightarrow> session_upkeep env s t"
| "touch_session (fv_store env) w now k s = (t, q) \<Longrightarrow> session_upkeep env s t"
| "register_persistent_shell (fv_store env) w now k shell s = (t, q) \<Longrightarrow> session_upkeep env s t"
| "reserve_persistent_shell (fv_store env) w now k shell exclusive s = (t, r) \<Longrightarrow> session_upkeep env s t"
| "release_session_persistent_shell (fv_store env) w k shell s = (t, q) \<Longrightarrow> session_upkeep env s t"
| "release_persistent_shell (fv_store env) ws shell s = (t, u) \<Longrightarrow> session_upkeep env s t"
| "reconcile_session_persistent_shells (fv_store env) w k owned s = (t, q) \<Longrightarrow> session_upkeep env s t"
| "reconcile_persistent_shells (fv_store env) ws live s = (t, u) \<Longrightarrow> session_upkeep env s t"
| "admit_tool_sessions (fv_store env) ws now ks s = (t, qs) \<Longrightarrow> session_upkeep env s t"

lemma reserve_calm:
  assumes "store_ok env s" and "reserve_persistent_shell (fv_store env) w now k shell exclusive s = (t, r)"
  shows "calm env s t"
proof -
  consider "t = s" | x i y q where "require_session_locked (fv_store env) k s = Inr x"
      and "reserve_shell now i x = (y, True)" and "write_session (fv_store env) w y s = (t, q)"
    using assms(2) unfolding reserve_persistent_shell_def
    by (auto split: sum.splits if_splits prod.splits bool.splits)
  then show ?thesis
  proof cases
    case 2
    have "session_at env s k x" by (rule require_session_at [OF assms(1) 2(1)])
    with 2(2) have "session_at env s (as_id y) x \<and> as_workdir y = as_workdir x"
      by (auto simp: reserve_shell_def session_at_def split: if_splits)
    with write_session_calm [OF _ _ 2(3)] show ?thesis by blast
  qed simp
qed

lemma upkeep_calm: "session_upkeep env s t \<Longrightarrow> store_ok env s \<Longrightarrow> calm env s t"
proof (induction rule: session_upkeep.induct)
  case (3 w now k shell s t q)
  then show ?case
    by (auto simp: register_persistent_shell_def bind_shell_def elim!: update_stored_calm [rotated 2] split: sum.splits)
next
  case (5 w k shell s t q)
  then show ?case
    by (auto simp: release_session_persistent_shell_def when_changed_def release_shell_def
        elim!: update_stored_calm [rotated 2] split: sum.splits if_splits)
next
  case (7 w k owned s t q)
  then show ?case
    by (auto simp: reconcile_session_persistent_shells_def when_changed_def replace_shells_def
        elim!: update_stored_calm [rotated 2] split: if_splits)
next
  case (6 ws shell s t u)
  then show ?case
    by (auto simp: release_persistent_shell_def release_shell_def intro: update_each_calm [rotated] split: if_splits)
next
  case (8 ws live s t u)
  then show ?case
    by (auto simp: reconcile_persistent_shells_def retain_live_shells_def intro: update_each_calm [rotated])
next
  case (1 w now k s t q)
  then show ?case
    by (auto simp: request_termination_def elim!: update_stored_calm [rotated 2])
next
  case (2 w now k s t q)
  then show ?case
    by (auto simp: touch_session_def elim!: update_stored_calm [rotated 2])
qed (auto intro: reserve_calm admit_calm)

text \<open>
  Sessions are created under identities that were not used before. Other programs may change files at
  any time.
\<close>

inductive edit_step :: "files_env \<Rightarrow> (ustr \<Rightarrow> rpath) \<Rightarrow> edit_host \<Rightarrow> edit_host \<Rightarrow> bool" for env plain where
  reads: "bound env aw now k (\<lambda>b. read_file env w now i (Some b) arg specs) s = (t, q) \<Longrightarrow> edit_step env plain s t"
| edits: "bound env aw now k (\<lambda>b. edit_lines env w sw now i (Some b) arg a z new snapshot) s = (t, q) \<Longrightarrow>
     edit_step env plain s t"
| hashlines: "bound env aw now k (\<lambda>b. hashline_edit env wr sw now draw (Some b) plain input) s = (t, q) \<Longrightarrow>
     edit_step env plain s t"
| writes: "bound env aw now k (\<lambda>b. write_file env w (Some b) arg content overwrite expected) s = (t, q) \<Longrightarrow>
     edit_step env plain s t"
| deletes: "bound env aw now k (\<lambda>b. delete_file_or_dir env ok (Some b) arg recursive) s = (t, q) \<Longrightarrow>
     edit_step env plain s t"
| creates: "cell_of (ts_snaps (eh_store s)) k = Absent \<Longrightarrow>
     create_session (fv_store env) w now k resolved lab (eh_store s) = (st, q) \<Longrightarrow> edit_step env plain s (s\<lparr>eh_store := st\<rparr>)"
| moves: "change_session_workdir (fv_store env) rw w now k resolved (eh_store s) = (st, q) \<Longrightarrow>
     edit_step env plain s (s\<lparr>eh_store := st\<rparr>)"
| ends: "end_session (fv_store env) rm k (eh_store s) = (st, q) \<Longrightarrow> edit_step env plain s (s\<lparr>eh_store := st\<rparr>)"
| upkeep: "session_upkeep env (eh_store s) st \<Longrightarrow> edit_step env plain s (s\<lparr>eh_store := st\<rparr>)"
| others: "edit_step env plain s (s\<lparr>eh_files := f\<rparr>)"

definition edit_init :: "edit_host \<Rightarrow> bool" where
  "edit_init s \<longleftrightarrow> eh_store s = \<lparr>ts_meta = [], ts_snaps = []\<rparr> \<and> eh_reads s = []"

lemma store_same [simp]: "s\<lparr>eh_store := eh_store s\<rparr> = s"
  by simp

text \<open>Losing a file of a session keeps the invariant.\<close>

lemma drop_files_inv:
  assumes "edit_inv env s"
    and "\<And>j. cell_of (ts_snaps st) j \<in> {cell_of (ts_snaps (eh_store s)) j, Absent}"
    and "\<And>j. cell_of (ts_meta st) j \<in> {cell_of (ts_meta (eh_store s)) j, Absent}"
  shows "edit_inv env (s\<lparr>eh_store := st\<rparr>)"
proof -
  have meta: "session_at env (eh_store s) j x" if "session_at env st j x" for j x
    using that assms(3) [of j] by (auto simp: session_at_def)
  have rows: "rows_at (eh_store s) j rs \<or> rs = []" if "rows_at st j rs" for j rs
    using that assms(2) [of j] by (auto simp: rows_at_def)
  have "store_ok env st"
    unfolding store_ok_def
  proof
    fix j
    have "\<exists>rs. rows_at st j rs \<and> (\<forall>r\<in>set rs. 0 \<le> gs_sequence r \<and> gs_session r = j)"
    proof (cases "cell_of (ts_snaps st) j = Absent")
      case True
      then have "rows_at st j []" by (simp add: rows_at_def)
      then show ?thesis by force
    next
      case False
      then have "cell_of (ts_snaps st) j = cell_of (ts_snaps (eh_store s)) j" using assms(2) [of j] by auto
      with edit_inv_ok [OF assms(1)] show ?thesis unfolding store_ok_def rows_at_def by metis
    qed
    moreover have "cell_of (ts_meta st) j = Absent \<or> (\<exists>x. session_at env st j x)"
    proof (cases "cell_of (ts_meta st) j = Absent")
      case False
      then have "cell_of (ts_meta st) j = cell_of (ts_meta (eh_store s)) j" using assms(3) [of j] by auto
      with edit_inv_ok [OF assms(1)] show ?thesis unfolding store_ok_def session_at_def by metis
    qed simp
    ultimately show "(\<exists>rs. rows_at st j rs \<and> (\<forall>r\<in>set rs. 0 \<le> gs_sequence r \<and> gs_session r = j)) \<and>
        (cell_of (ts_meta st) j = Absent \<or> (\<exists>x. session_at env st j x))" ..
  qed
  then show ?thesis
    using assms(1) meta rows unfolding edit_inv_def by fastforce
qed

text \<open>A session whose snapshots are gone may get new metadata.\<close>

lemma write_session_inv:
  assumes "edit_inv env s" and "cell_of (ts_snaps (eh_store s)) (as_id y) = Absent"
    and "write_session (fv_store env) w y (eh_store s) = (st, q)"
  shows "edit_inv env (s\<lparr>eh_store := st\<rparr>)"
proof (cases "session_to_payload (se_text (fv_store env)) y")
  case (Inl e)
  with assms(3) have "st = eh_store s" by (simp add: write_session_def)
  with assms(1) show ?thesis by simp
next
  case (Inr v)
  then have v: "v = session_as_json y" "session_from_payload (se_text (fv_store env)) (session_as_json y) = Inr y"
    using session_to_payload_Inr [OF Inr] by auto
  have st: "st = (eh_store s)\<lparr>ts_meta := AList.update (as_id y)
      (if lands w then Doc v else cell_of (ts_meta (eh_store s)) (as_id y)) (ts_meta (eh_store s))\<rparr>"
    using assms(3) Inr by (simp add: write_session_def write_json_def)
  have rows: "rows_at st j rs = rows_at (eh_store s) j rs" for j rs by (simp add: st rows_at_def)
  have meta: "session_at env st j x = session_at env (eh_store s) j x" if "j \<noteq> as_id y \<or> \<not> lands w" for j x
    using that by (auto simp: st session_at_def)
  have ok: "store_ok env st"
    unfolding store_ok_def
  proof
    fix j
    have "cell_of (ts_meta st) j = Absent \<or> (\<exists>x. session_at env st j x)"
    proof (cases "j = as_id y \<and> lands w")
      case True
      then have "session_at env st j y" using v by (simp add: st session_at_def)
      then show ?thesis by blast
    next
      case False
      then have "cell_of (ts_meta st) j = cell_of (ts_meta (eh_store s)) j" by (auto simp: st)
      with edit_inv_ok [OF assms(1)] show ?thesis unfolding store_ok_def session_at_def by metis
    qed
    with edit_inv_ok [OF assms(1)] show "(\<exists>rs. rows_at st j rs \<and> (\<forall>r\<in>set rs. 0 \<le> gs_sequence r \<and> gs_session r = j)) \<and>
        (cell_of (ts_meta st) j = Absent \<or> (\<exists>x. session_at env st j x))"
      unfolding store_ok_def rows by blast
  qed
  have "\<exists>e\<in>set (eh_reads s). read_backs env (as_workdir x) e r"
    if "rows_at st j rs" "session_at env st j x" "r \<in> set rs" for j rs x r
  proof (cases "j = as_id y")
    case True
    have "rs = []" using that(1) assms(2) True unfolding rows by (simp add: rows_at_def)
    with that(3) show ?thesis by simp
  next
    case False
    with that assms(1) show ?thesis unfolding edit_inv_def by (auto simp: rows meta)
  qed
  with ok show ?thesis by (simp add: edit_inv_def)
qed

lemma edit_step_inv:
  assumes "edit_inv env s" and "edit_step env plain s t"
  shows "edit_inv env t"
  using assms(2)
proof cases
  case reads
  show ?thesis by (rule bound_keeps [OF assms(1) reads]) (use read_keeps in \<open>auto simp: keeps_def\<close>)
next
  case edits
  show ?thesis by (rule bound_keeps [OF assms(1) edits]) (use edit_lines_keeps in \<open>auto simp: keeps_def\<close>)
next
  case hashlines
  show ?thesis by (rule bound_keeps [OF assms(1) hashlines]) (use hashline_keeps in \<open>auto simp: keeps_def\<close>)
next
  case writes
  show ?thesis by (rule bound_keeps [OF assms(1) writes]) (use write_file_keeps in blast)
next
  case deletes
  show ?thesis by (rule bound_keeps [OF assms(1) deletes]) (use delete_keeps in blast)
next
  case (creates k w now resolved lab st q)
  show ?thesis
  proof (cases "st = eh_store s")
    case True
    with assms(1) creates(1) show ?thesis by simp
  next
    case False
    with creates(3) obtain wd q' where run: "write_session (fv_store env) w \<lparr>as_id = k, as_workdir = wd, as_created_at = now,
        as_updated_at = now, as_label = lab, as_termination = None, as_shells = []\<rparr> (eh_store s) = (st, q')"
      by (cases resolved) (auto simp: create_session_def Let_def split: if_splits sum.splits prod.splits)
    show ?thesis
      unfolding creates(1) by (rule write_session_inv [OF assms(1) _ run]) (use creates(2) in simp)
  qed
next
  case (moves rw w now k resolved st q)
  let ?r = "eh_store s\<lparr>ts_snaps := if lands rw then AList.delete k (ts_snaps (eh_store s)) else ts_snaps (eh_store s)\<rparr>"
  have inv: "edit_inv env (s\<lparr>eh_store := ?r\<rparr>)"
    by (rule drop_files_inv [OF assms(1)]) auto
  show ?thesis
  proof (cases "st = eh_store s \<or> st = ?r")
    case True
    with assms(1) inv moves(1) show ?thesis by auto
  next
    case False
    with moves(2) obtain wd x q' where x: "require_session_locked (fv_store env) k (eh_store s) = Inr x" and "reports rw"
      and run: "write_session (fv_store env) w (x\<lparr>as_workdir := wd, as_updated_at := now\<rparr>) ?r = (st, q')"
      by (cases resolved)
        (auto simp: change_session_workdir_def remove_snapshots_def Let_def split: if_splits sum.splits prod.splits)
    have "as_id x = k" using require_session_at [OF edit_inv_ok [OF assms(1)] x] by (simp add: session_at_def)
    then have "edit_inv env (s\<lparr>eh_store := ?r\<rparr>\<lparr>eh_store := st\<rparr>)"
      by (intro write_session_inv [OF inv, where y = "x\<lparr>as_workdir := wd, as_updated_at := now\<rparr>"])
        (use run reports_lands [OF \<open>reports rw\<close>] in simp_all)
    then show ?thesis using moves(1) by simp
  qed
next
  case (ends rm k st q)
  then show ?thesis
    by (auto simp: end_session_def intro!: drop_files_inv [OF assms(1)] split: sum.splits removal.splits if_splits)
next
  case (upkeep st)
  then show ?thesis
    using calm_inv [OF assms(1)] upkeep_calm edit_inv_ok [OF assms(1)] by simp
next
  case (others f)
  with assms(1) show ?thesis by simp
qed

interpretation edits: invariant_machine edit_init "edit_step env plain" "edit_inv env" for env plain
proof
  fix s assume "edit_init s"
  then show "edit_inv env s"
    by (auto simp: edit_init_def edit_inv_def store_ok_def rows_at_def session_at_def cell_of_def)
next
  fix s t assume "edit_inv env s" "edit_step env plain s t"
  then show "edit_inv env t" by (rule edit_step_inv)
qed

section \<open>Paths and shown lines\<close>

text \<open>A resolved path is a list of names without slashes.\<close>

definition name_ok :: "ustr \<Rightarrow> bool" where
  "name_ok n \<longleftrightarrow> n \<noteq> [] \<and> n \<noteq> lit ''.'' \<and> 47 \<notin> set n"

definition path_ok :: "rpath \<Rightarrow> bool" where
  "path_ok p \<longleftrightarrow> list_all name_ok p"

lemma join_slash_inj:
  assumes "path_ok p" and "path_ok q" and "join slash p = join slash q"
  shows "p = q"
proof -
  have free: "\<forall>w\<in>set r. 47 \<notin> set w" if "path_ok r" for r
    using that by (auto simp: path_ok_def list_all_iff name_ok_def)
  have sl: "slash = [47]" by (simp add: slash_def)
  have empty: "join slash r = [] \<longleftrightarrow> r = []" if "path_ok r" for r
    using that by (cases r rule: remdups_adj.cases) (auto simp: path_ok_def name_ok_def sl)
  show ?thesis
  proof (cases "p = [] \<or> q = []")
    case True
    with assms empty show ?thesis by metis
  next
    case False
    then have "p \<noteq> []" "q \<noteq> []" by blast+
    have "p = split_on 47 (join [47] p)" by (rule split_on_join [OF \<open>p \<noteq> []\<close> free [OF assms(1)], symmetric])
    also have "\<dots> = split_on 47 (join [47] q)" using assms(3) unfolding sl by (rule arg_cong)
    also have "\<dots> = q" by (rule split_on_join [OF \<open>q \<noteq> []\<close> free [OF assms(2)]])
    finally show ?thesis .
  qed
qed

lemma join_relative:
  assumes "path_ok p" and "p \<noteq> []"
  shows "hd (join slash p) \<noteq> 47" and "join slash p \<noteq> []" and "join slash p \<noteq> lit ''.''"
proof -
  obtain n ns where p: "p = n # ns" using assms(2) by (cases p) auto
  have n: "n \<noteq> []" "n \<noteq> [46]" "47 \<notin> set n" using assms(1) p by (simp_all add: path_ok_def name_ok_def)
  show "hd (join slash p) \<noteq> 47" "join slash p \<noteq> []"
    using n by (cases ns; auto simp: p neq_Nil_conv)+
  show "join slash p \<noteq> lit ''.''"
    using n by (cases ns) (auto simp: p slash_def neq_Nil_conv append_eq_Cons_conv)
qed

lemma display_path_inj:
  assumes "path_ok p" and "path_ok q" and "display_path base p = display_path base q"
  shows "p = q"
proof -
  have drop_ok: "path_ok (drop n r)" if "path_ok r" for n r
    using that by (auto simp: path_ok_def list_all_iff dest: in_set_dropD)
  have rel: "display_path base r = (if drop (length base) r = [] then lit ''.'' else join slash (drop (length base) r))"
    if "take (length base) r = base" for r
    using that by (simp add: display_path_def)
  have whole: "r = base @ drop (length base) r" if "take (length base) r = base" for r
    using that by (metis append_take_drop_id)
  have head: "hd (display_path base r) = 47 \<longleftrightarrow> take (length base) r \<noteq> base" if "path_ok r" for r
    using join_relative(1) [OF drop_ok [OF that]] by (auto simp: display_path_def slash_def)
  show ?thesis
  proof (cases "take (length base) p = base")
    case True
    then have q: "take (length base) q = base" using head assms by metis
    let ?p = "drop (length base) p" and ?q = "drop (length base) q"
    have "?p = ?q"
    proof (cases "?p = [] \<or> ?q = []")
      case True
      with \<open>take (length base) p = base\<close> q assms(3) join_relative(3) [OF drop_ok] assms(1,2)
      show ?thesis by (metis rel)
    next
      case False
      with True q assms(3) have "join slash ?p = join slash ?q" by (simp add: rel)
      with join_slash_inj drop_ok assms(1,2) show ?thesis by blast
    qed
    with whole True q show ?thesis by metis
  next
    case False
    then have "take (length base) q \<noteq> base" using head assms by metis
    with False assms join_slash_inj show ?thesis by (simp add: display_path_def)
  qed
qed

text \<open>The lines that a read displayed\<close>

definition displayed :: "files_env \<Rightarrow> read_event \<Rightarrow> (int \<times> ustr) list" where
  "displayed env e = fst (selected_by_ranges (splitlines (utf8_prefix (fv_max_read env) (re_text e))) (re_specs e))"

lemma selected_lines_range:
  assumes "selected_read_lines ls spec \<noteq> []" and "fst (hd (selected_read_lines ls spec)) \<le> n"
    and "n \<le> fst (last (selected_read_lines ls spec))"
  shows "(n, ls ! nat (n - 1)) \<in> set (selected_read_lines ls spec)"
proof -
  define a where "a = max 1 (int_or (fst spec) 1)"
  define b where "b = min (int (length ls)) (int_or (snd spec) (int (length ls)))"
  have sel: "selected_read_lines ls spec = (if int (length ls) = 0 \<or> b < a then [] else map (\<lambda>n. (n, ls ! nat (n - 1))) [a..b])"
    by (simp add: selected_read_lines_def a_def b_def Let_def)
  with assms(1) have some: "selected_read_lines ls spec = map (\<lambda>n. (n, ls ! nat (n - 1))) [a..b]" and ab: "a \<le> b"
    by (auto split: if_splits)
  have ends: "hd [a..b] = a" "last [a..b] = b" using ab
    by (simp add: upto_rec1, simp add: upto_rec2)
  have "[a..b] \<noteq> []" using ab by simp
  then have "a \<le> n" "n \<le> b" using assms(2,3) ends by (simp_all add: some hd_map last_map)
  then show ?thesis by (simp add: some)
qed

lemma visible_lines_displayed:
  assumes "range_is_visible a z (snd (selected_by_ranges ls specs))" and "a \<le> n" and "n \<le> z"
  shows "(n, ls ! nat (n - 1)) \<in> set (fst (selected_by_ranges ls specs))"
proof -
  from assms(1) obtain xs where xs: "xs \<in> set (filter (\<lambda>xs. xs \<noteq> []) (map (selected_read_lines ls) specs))"
    "fst (hd xs) \<le> a" "z \<le> fst (last xs)"
    by (auto simp: range_is_visible_def selected_by_ranges_def list_ex_iff Let_def)
  then obtain spec where spec: "xs = selected_read_lines ls spec" "xs \<noteq> []" by auto
  have "(n, ls ! nat (n - 1)) \<in> set xs"
    using selected_lines_range [of ls spec n] spec xs(2,3) assms(2,3) by simp
  with xs(1) show ?thesis by (auto simp: selected_by_ranges_def Let_def)
qed

lemma nothing_displayed: "snd (selected_by_ranges ls specs) = [] \<Longrightarrow> fst (selected_by_ranges ls specs) = []"
  by (simp add: selected_by_ranges_def Let_def)

section \<open>Accepted edits are grounded\<close>

definition env_ok :: "files_env \<Rightarrow> bool" where
  "env_ok env \<longleftrightarrow>
     (\<forall>d arg. path_ok (fv_resolve env d arg)) \<and>
     (\<forall>x y. fv_sha env (TextFile x) = fv_sha env (TextFile y) \<longrightarrow> x = y)"

definition grounded :: "files_env \<Rightarrow> ustr \<Rightarrow> ustr \<Rightarrow> rpath \<Rightarrow> int \<times> int \<Rightarrow> edit_host \<Rightarrow> bool" where
  "grounded env k i p az s \<longleftrightarrow>
     (\<exists>e\<in>set (eh_reads s). re_session e = k \<and> re_id e = i \<and> re_path e = p \<and>
        map_of (eh_files s) p = Some (TextFile (re_text e)) \<and>
        (displayed env e = [] \<or>
         (\<forall>n\<in>{fst az..snd az}.
            (n, splitlines (utf8_prefix (fv_max_read env) (re_text e)) ! nat (n - 1)) \<in> set (displayed env e))))"

lemma fold_index_mem:
  assumes "map_of (fold (\<lambda>r. AList.update (gs_id r) r) rs []) i = Some r"
  shows "r \<in> set rs" and "gs_id r = i"
proof -
  have "(i, r) \<in> set (fold (\<lambda>r. AList.update (gs_id r) r) rs [])" using assms by (rule map_of_SomeD)
  then show "gs_id r = i" "r \<in> set rs"
    using fold_index_keys [of "[]" rs] fold_index_values [of r rs "[]"] by force+
qed

lemma validated_snapshot:
  assumes "validate_snapshot_for_edit env (Some b) shown sha a z (Some i) st = Inr u"
  obtains r where "get_snapshot (fv_store env) (sb_id b) i st = Inr (Some r)" and "gs_path r = shown"
    and "gs_sha r = sha" and "gs_ranges r = [] \<or> range_is_visible a z (gs_ranges r)"
  using assms by (auto simp: validate_snapshot_for_edit_def split: sum.splits option.splits if_splits)

lemma snapshot_grounds:
  assumes inv: "edit_inv env s" and b: "bound_to env (Some b) s" and env: "env_ok env"
    and p: "path_ok p" and t: "map_of (eh_files s) p = Some (TextFile t)"
    and ok: "validate_snapshot_for_edit env (Some b) (display_file env (Some b) p) (fv_sha env (TextFile t)) a z (Some i)
        (eh_store s) = Inr u"
  shows "grounded env (sb_id b) i p (a, z) s"
proof -
  obtain r where r: "get_snapshot (fv_store env) (sb_id b) i (eh_store s) = Inr (Some r)"
    and shown: "gs_path r = display_file env (Some b) p" and sha: "gs_sha r = fv_sha env (TextFile t)"
    and vis: "gs_ranges r = [] \<or> range_is_visible a z (gs_ranges r)"
    using ok by (rule validated_snapshot)
  obtain y where y: "session_at env (eh_store s) (sb_id b) y" "as_workdir y = sb_workdir b"
    using b by (auto simp: bound_to_def)
  obtain rs where rows: "rows_at (eh_store s) (sb_id b) rs" and good: "\<forall>r\<in>set rs. 0 \<le> gs_sequence r \<and> gs_session r = sb_id b"
    using edit_inv_ok [OF inv] unfolding store_ok_def by blast
  obtain d where d: "load_snapshots (fv_store env) (sb_id b) (eh_store s) = Inr d" "map_of d i = Some r"
    using r by (auto simp: get_snapshot_def split: sum.splits)
  have mem: "r \<in> set rs" "gs_id r = i"
    using fold_index_mem d(2) load_snapshots_rows [OF rows good d(1)] by blast+
  obtain e where e: "e \<in> set (eh_reads s)" "read_backs env (as_workdir y) e r"
    using inv rows y(1) mem(1) unfolding edit_inv_def by blast
  have content: "re_text e = t" using e(2) sha env by (auto simp: read_backs_def env_ok_def)
  have path: "re_path e = p"
  proof -
    have "path_ok (re_path e)" using e(2) env by (auto simp: read_backs_def env_ok_def)
    moreover have "display_path (fv_root env (as_workdir y)) (re_path e) = display_path (fv_root env (as_workdir y)) p"
      using e(2) shown y(2) by (simp add: read_backs_def display_file_def workdir_of_def)
    ultimately show ?thesis using p display_path_inj by blast
  qed
  have ids: "re_session e = sb_id b" "re_id e = i" using e(2) mem good by (auto simp: read_backs_def)
  have ranges: "gs_ranges r = snd (selected_by_ranges (splitlines (utf8_prefix (fv_max_read env) (re_text e))) (re_specs e))"
    using e(2) by (simp add: read_backs_def)
  have "displayed env e = [] \<or>
      (\<forall>n\<in>{a..z}. (n, splitlines (utf8_prefix (fv_max_read env) (re_text e)) ! nat (n - 1)) \<in> set (displayed env e))"
    using vis
  proof
    assume "gs_ranges r = []"
    with ranges show ?thesis using nothing_displayed by (simp add: displayed_def)
  next
    assume "range_is_visible a z (gs_ranges r)"
    then show ?thesis using visible_lines_displayed unfolding ranges displayed_def by (metis atLeastAtMost_iff)
  qed
  with e(1) ids path content t show ?thesis unfolding grounded_def by (intro bexI [of _ e]) auto
qed

lemma resolved_existing:
  "resolve_existing env b arg s = Inr (p, x) \<Longrightarrow> p = fv_resolve env (workdir_of env b) arg \<and> map_of (eh_files s) p = Some x"
  by (auto simp: resolve_existing_def Let_def split: option.splits)

lemma prepared_hunk:
  assumes "prepare_hunk env b plain n op s = Inr h"
  obtains arg t u where "hh_path h = fv_resolve env (workdir_of env b) arg" and "map_of (eh_files s) (hh_path h) = Some (TextFile t)"
    and "hh_start h = fst (operation_range op)" and "hh_end h = snd (operation_range op)"
    and "1 \<le> hh_start h" and "hh_start h \<le> hh_end h" and "hh_end h \<le> int (length (splitlines_keep (universal_newlines t)))"
    and "hh_index h = n"
    and "validate_snapshot_for_edit env b (display_file env b (hh_path h)) (fv_sha env (TextFile t)) (hh_start h) (hh_end h)
        (Some (operation_snapshot op)) (eh_store s) = Inr u"
proof -
  obtain arg where arg: "path_for_operation env b plain op s = Inr arg"
    using assms by (auto simp: prepare_hunk_def split: sum.splits)
  obtain p t where found: "file_snapshot env b arg s = Inr (p, t)"
    using assms arg by (auto simp: prepare_hunk_def split: sum.splits)
  obtain a z where az: "operation_range op = (a, z)" by fastforce
  have h: "hh_path h = p" "hh_start h = a" "hh_end h = z" "1 \<le> a" "a \<le> z" "z \<le> int (length (splitlines_keep (universal_newlines t)))"
    "hh_index h = n"
    using assms arg found az by (auto simp: prepare_hunk_def Let_def split: sum.splits if_splits)
  have "\<exists>u. validate_snapshot_for_edit env b (display_file env b p) (fv_sha env (TextFile t)) a z
      (Some (operation_snapshot op)) (eh_store s) = Inr u"
    using assms arg found az by (auto simp: prepare_hunk_def Let_def split: sum.splits if_splits)
  moreover have "p = fv_resolve env (workdir_of env b) arg" "map_of (eh_files s) p = Some (TextFile t)"
    using found resolved_existing [of env b arg s p]
    by (auto simp: file_snapshot_def split: sum.splits prod.splits fnode.splits if_splits)
  ultimately show ?thesis using that h az by auto
qed

lemma prepared_all:
  "prepare_hunks env b plain n ops s = Inr hs \<Longrightarrow> op \<in> set ops \<Longrightarrow> \<exists>m h. prepare_hunk env b plain m op s = Inr h \<and> h \<in> set hs"
proof (induction ops arbitrary: n hs)
  case (Cons x ops)
  then obtain h rest where "prepare_hunk env b plain n x s = Inr h" "prepare_hunks env b plain (Suc n) ops s = Inr rest" "hs = h # rest"
    by (auto split: sum.splits)
  with Cons show ?case by (metis list.set_intros set_ConsD)
qed simp

lemma hashline_grounded:
  assumes inv: "edit_inv env s" and b: "bound_to env (Some b) s" and env: "env_ok env"
    and ops: "parse_hashline_edit_input env input = Some ops" and op: "op \<in> set ops"
    and run: "hashline_edit env wr sw now draw (Some b) plain input s = (t, Inr out)"
  shows "\<exists>p. grounded env (sb_id b) (operation_snapshot op) p (operation_range op) s"
proof -
  have "hashline_edit_locked env wr sw now draw (Some b) plain ops s = (t, Inr out)"
    using run ops by (auto simp: hashline_edit_def split: sum.splits)
  then obtain hs where hs: "prepare_hunks env (Some b) plain 0 ops s = Inr hs"
    by (auto simp: hashline_edit_locked_def split: sum.splits)
  obtain m h where "prepare_hunk env (Some b) plain m op s = Inr h" using prepared_all [OF hs op] by blast
  then obtain arg x u where h: "hh_path h = fv_resolve env (workdir_of env (Some b)) arg"
    "map_of (eh_files s) (hh_path h) = Some (TextFile x)"
    "hh_start h = fst (operation_range op)" "hh_end h = snd (operation_range op)"
    "validate_snapshot_for_edit env (Some b) (display_file env (Some b) (hh_path h)) (fv_sha env (TextFile x)) (hh_start h)
        (hh_end h) (Some (operation_snapshot op)) (eh_store s) = Inr u"
    by (rule prepared_hunk)
  have "path_ok (hh_path h)" using env h(1) by (simp add: env_ok_def)
  from snapshot_grounds [OF inv b env this h(2,5)] h(3,4) show ?thesis by auto
qed

section \<open>An edit rewrites exactly its lines\<close>

text \<open>
  The specification: going through a file from the front, each hunk replaces the lines from its start to
  its end; all line numbers are those of the original file. \<open>n\<close> lines are already behind.
\<close>

fun rewritten :: "hash_hunk list \<Rightarrow> nat \<Rightarrow> ustr list \<Rightarrow> ustr list" where
  "rewritten [] n ls = ls"
| "rewritten (h # hs) n ls =
     take (nat (hh_start h) - 1 - n) ls @ hh_lines h @ rewritten hs (nat (hh_end h)) (drop (nat (hh_end h) - n) ls)"

fun hunks_fit :: "nat \<Rightarrow> nat \<Rightarrow> hash_hunk list \<Rightarrow> bool" where
  "hunks_fit n m [] = True"
| "hunks_fit n m (h # hs) =
     (int n < hh_start h \<and> hh_start h \<le> hh_end h \<and> hh_end h \<le> int m \<and> hunks_fit (nat (hh_end h)) m hs)"

lemma take_front:
  assumes "length pre \<le> a" and "a \<le> z" and "z \<le> length pre + length ls"
  shows "take a ((pre @ take (z - length pre) ls) @ rest) = pre @ take (a - length pre) ls"
proof -
  have "length (pre @ take (z - length pre) ls) = z" using assms by simp
  then have "take a ((pre @ take (z - length pre) ls) @ rest) = take a (pre @ take (z - length pre) ls)"
    using assms(2) by (simp only: take_append diff_is_0_eq' take_0 append_Nil2)
  also have "\<dots> = pre @ take (a - length pre) (take (z - length pre) ls)" using assms(1) by simp
  also have "take (a - length pre) (take (z - length pre) ls) = take (a - length pre) ls"
    using assms by (simp only: take_take) (simp add: min_absorb1 diff_le_mono)
  finally show ?thesis .
qed

lemma splices_rewrite:
  "hunks_fit (length pre) (length pre + length ls) hs \<Longrightarrow>
   fold (\<lambda>h acc. splice (hh_start h) (hh_end h) (hh_lines h) acc) (rev hs) (pre @ ls) = pre @ rewritten hs (length pre) ls"
proof (induction hs arbitrary: pre ls)
  case (Cons h hs)
  let ?n = "length pre" and ?a = "nat (hh_start h) - 1" and ?z = "nat (hh_end h)"
  let ?pre = "pre @ take (?z - ?n) ls" and ?ls = "drop (?z - ?n) ls"
  have bounds: "?n \<le> ?a" "?a < ?z" "?z \<le> ?n + length ls" "nat (hh_start h - 1) = ?a" using Cons.prems by auto
  have "?n < ?z" using bounds(1,2) by linarith
  then have len: "length ?pre = ?z" using bounds(3) by simp
  have "length ?pre + length ?ls = ?n + length ls" unfolding len using bounds(3) \<open>?n < ?z\<close> by simp
  then have "hunks_fit (length ?pre) (length ?pre + length ?ls) hs"
    using Cons.prems unfolding len by (simp add: add.commute)
  from Cons.IH [OF this] have rest: "fold (\<lambda>h acc. splice (hh_start h) (hh_end h) (hh_lines h) acc) (rev hs) (pre @ ls) =
      ?pre @ rewritten hs ?z ?ls"
    using len by simp
  have "take ?a (?pre @ rewritten hs ?z ?ls) = pre @ take (?a - ?n) ls"
    by (rule take_front) (use bounds in simp_all)
  moreover have "drop ?z (?pre @ rewritten hs ?z ?ls) = rewritten hs ?z ?ls"
    using len by (metis append_eq_conv_conj)
  ultimately have "splice (hh_start h) (hh_end h) (hh_lines h) (?pre @ rewritten hs ?z ?ls) =
      (pre @ take (?a - ?n) ls) @ hh_lines h @ rewritten hs ?z ?ls"
    by (simp only: splice_def bounds(4))
  moreover have "fold (\<lambda>h acc. splice (hh_start h) (hh_end h) (hh_lines h) acc) (rev (h # hs)) (pre @ ls) =
      splice (hh_start h) (hh_end h) (hh_lines h)
        (fold (\<lambda>h acc. splice (hh_start h) (hh_end h) (hh_lines h) acc) (rev hs) (pre @ ls))"
    by simp
  ultimately show ?case unfolding rest by simp
qed simp

lemma ordered_starts:
  assumes "ordered_hunks hs" and "\<forall>h\<in>set hs. hh_start h \<le> hh_end h"
  shows "sorted_wrt (<) (map hh_start hs)"
  using assms
proof (induction hs rule: ordered_hunks.induct)
  case (1 h k hs)
  then have "sorted_wrt (<) (map hh_start (k # hs))" by simp
  moreover have "hh_start h < hh_start k" using 1(2,3) by simp
  ultimately show ?case by (auto simp: less_trans)
qed simp_all

lemma ordered_fit:
  assumes "ordered_hunks hs" and "\<forall>h\<in>set hs. hh_start h \<le> hh_end h \<and> hh_end h \<le> int m"
    and "hs \<noteq> [] \<Longrightarrow> int n < hh_start (hd hs)"
  shows "hunks_fit n m hs"
  using assms
proof (induction hs arbitrary: n rule: ordered_hunks.induct)
  case (1 h k hs)
  have "hunks_fit (nat (hh_end h)) m (k # hs)"
    by (rule 1(1)) (use 1(2-4) in auto)
  with 1(2-4) show ?case by simp
qed auto

lemma apply_hunks_rewrites:
  assumes "ordered_hunks (sort_key hh_start hs)"
    and "\<forall>h\<in>set hs. 1 \<le> hh_start h \<and> hh_start h \<le> hh_end h \<and> hh_end h \<le> int (length ls)"
  shows "apply_hunks hs ls = rewritten (sort_key hh_start hs) 0 ls"
proof -
  let ?hs = "sort_key hh_start hs"
  have starts: "sorted_wrt (<) (map hh_start ?hs)" by (rule ordered_starts [OF assms(1)]) (use assms(2) in simp)
  then have "distinct (map hh_start ?hs)" by (simp add: strict_sorted_iff)
  then have "inj_on hh_start (set hs)" by (simp add: distinct_map)
  then have same: "sort_key hh_start (rev hs) = ?hs"
    by (intro sort_key_inj_key_eq) (simp_all add: strict_sorted_iff)
  have "hunks_fit (length []) (length [] + length ls) ?hs"
  proof (rule ordered_fit [OF assms(1)])
    show "\<forall>h\<in>set ?hs. hh_start h \<le> hh_end h \<and> hh_end h \<le> int (length [] + length ls)" using assms(2) by simp
    assume "?hs \<noteq> []"
    then have "hd ?hs \<in> set hs" by (metis hd_in_set set_sort)
    with assms(2) show "int (length []) < hh_start (hd ?hs)" by fastforce
  qed
  from splices_rewrite [OF this] show ?thesis by (simp add: apply_hunks_def same)
qed

lemma apply_files_result:
  "apply_files env b wr hs old ps s = (t, Inr d) \<Longrightarrow>
   map_of (eh_files t) p =
     (if p \<in> set ps
      then Some (TextFile (concat (apply_hunks (hunks_of p hs) (splitlines_keep (file_text old p)))))
      else map_of (eh_files s) p)"
proof (induction ps arbitrary: s d)
  case (Cons q ps)
  let ?u = "concat (apply_hunks (hunks_of q hs) (splitlines_keep (file_text old q)))"
  obtain s' d' where r: "replace_file (wr q) q ?u s = (s', Inr ())" and rest: "apply_files env b wr hs old ps s' = (t, Inr d')"
    using Cons.prems by (auto simp: Let_def split: if_splits sum.splits prod.splits)
  have "eh_files s' = AList.update q (TextFile ?u) (eh_files s)"
    using r reports_lands [of "wr q"] by (auto simp: replace_file_def split: if_splits)
  with Cons.IH [OF rest] show ?case by auto
qed simp

lemma read_keeps_files: "read_file env w now i b arg specs s = (t, q) \<Longrightarrow> eh_files t = eh_files s"
  by (auto simp: read_file_def Let_def split: sum.splits prod.splits fnode.splits option.splits)

lemma contexts_keep_files:
  "file_contexts env sw now draw b p amount delta n hs s = (t, q) \<Longrightarrow> eh_files t = eh_files s"
proof (induction hs arbitrary: s t q delta n)
  case (Cons h hs)
  then show ?case
    by (auto simp: Let_def dest!: read_keeps_files split: sum.splits prod.splits)
qed simp

lemma hunk_contexts_keep_files: "hunk_contexts env sw now draw b old hs n ps s = (t, q) \<Longrightarrow> eh_files t = eh_files s"
proof (induction ps arbitrary: s t q n)
  case (Cons p ps)
  then show ?case
    by (auto simp: Let_def dest!: contexts_keep_files split: sum.splits prod.splits)
qed simp

lemma set_from_keys [simp]: "set (from_keys xs) = set xs"
  by (simp add: from_keys_def)

lemma hashline_locked_result:
  assumes "hashline_edit_locked env wr sw now draw b plain ops s = (t, Inr out)"
  obtains hs where "prepare_hunks env b plain 0 ops s = Inr hs" and "no_overlap hs"
    and "\<And>p. map_of (eh_files t) p =
      (if p \<in> hh_path ` set hs
       then Some (TextFile (concat (apply_hunks (hunks_of p hs) (splitlines_keep (file_text s p)))))
       else map_of (eh_files s) p)"
proof -
  obtain hs where hs: "prepare_hunks env b plain 0 ops s = Inr hs"
    using assms by (auto simp: hashline_edit_locked_def split: sum.splits)
  obtain s' d os where no: "no_overlap hs" and a: "apply_files env b wr hs s (from_keys (map hh_path hs)) s = (s', Inr d)"
    and c: "hunk_contexts env sw now draw b s hs 0 (from_keys (map hh_path hs)) s' = (t, Inr os)"
    using assms hs by (auto simp: hashline_edit_locked_def Let_def split: sum.splits if_splits prod.splits)
  from apply_files_result [OF a] hunk_contexts_keep_files [OF c] that [OF hs no] show ?thesis by simp
qed

text \<open>What an operation replaces a line range with\<close>

definition hunk_matches :: "hash_operation \<Rightarrow> hash_hunk \<Rightarrow> bool" where
  "hunk_matches op h \<longleftrightarrow> operation_range op = (hh_start h, hh_end h)"

lemma prepared_match: "prepare_hunks env b plain n ops s = Inr hs \<Longrightarrow> list_all2 hunk_matches ops hs"
proof (induction ops arbitrary: n hs)
  case (Cons op ops)
  then obtain h rest where h: "prepare_hunk env b plain n op s = Inr h"
    and rest: "prepare_hunks env b plain (Suc n) ops s = Inr rest" "hs = h # rest"
    by (auto split: sum.splits)
  from h have "operation_range op = (hh_start h, hh_end h)" by (rule prepared_hunk) simp
  with Cons.IH rest show ?case by (simp add: hunk_matches_def)
qed simp

lemma prepared_in:
  "prepare_hunks env b plain n ops s = Inr hs \<Longrightarrow> h \<in> set hs \<Longrightarrow> \<exists>m op. prepare_hunk env b plain m op s = Inr h"
proof (induction ops arbitrary: n hs)
  case (Cons x ops)
  then obtain k rest where "prepare_hunk env b plain n x s = Inr k" "prepare_hunks env b plain (Suc n) ops s = Inr rest" "hs = k # rest"
    by (auto split: sum.splits)
  with Cons show ?case by (metis set_ConsD)
qed simp



text \<open>A read that displays nothing grounds an edit of any line of the file.\<close>

lemma empty_read_grounds_any_line:
  assumes "get_snapshot (fv_store env) (sb_id b) i st = Inr (Some r)" and "gs_ranges r = []"
  shows "validate_snapshot_for_edit env (Some b) (gs_path r) (gs_sha r) a z (Some i) st = Inr ()"
  using assms by (simp add: validate_snapshot_for_edit_def)

text \<open>\<open>read_text\<close> has translated the line ends, so the dominant line end is never found to be CRLF.\<close>

lemma universal_newlines_free: "13 \<notin> set (universal_newlines t)"
  by (induction t rule: universal_newlines.induct) auto

lemma has_crlf_return: "has_crlf t \<Longrightarrow> 13 \<in> set t"
  by (induction t rule: has_crlf.induct) auto

lemma crlf_never_detected: "newline_for_text (universal_newlines t) = [10]"
  using has_crlf_return universal_newlines_free by (auto simp: newline_for_text_def)

end
