(* ===== verification/Edit_Progress.thy ===== *)
theory Edit_Progress
  imports Edit_Safety
begin

text \<open>
  What a read displays can be edited: the snapshot of a read is retained, found again and accepted as long
  as the file does not change.
\<close>

section \<open>What a read displays can be edited\<close>

lemma fitting_prefix_step:
  "low < high \<Longrightarrow> fitting_prefix fits low high =
     (if fits ((low + high + 1) div 2) then fitting_prefix fits ((low + high + 1) div 2) high
      else fitting_prefix fits low ((low + high + 1) div 2 - 1))"
  by (subst fitting_prefix.simps) (simp add: Let_def)

lemma fitting_prefix_done: "\<not> low < high \<Longrightarrow> fitting_prefix fits low high = low"
  by (subst fitting_prefix.simps) simp

lemma middle_bounds:
  fixes low high :: nat
  assumes "low < high"
  shows "low < (low + high + 1) div 2" and "(low + high + 1) div 2 \<le> high"
  using assms by simp_all

lemma fitting_prefix_bounds:
  "low \<le> high \<Longrightarrow> low \<le> fitting_prefix fits low high \<and> fitting_prefix fits low high \<le> high \<and>
   (fitting_prefix fits low high = low \<or> fits (fitting_prefix fits low high))"
proof (induction "high - low" arbitrary: low high rule: less_induct)
  case less
  let ?m = "(low + high + 1) div 2"
  show ?case
  proof (cases "low < high")
    case True
    note m = middle_bounds [OF True]
    show ?thesis
    proof (cases "fits ?m")
      case fit: True
      have "high - ?m < high - low" using m by linarith
      from less.hyps [OF this m(2)] have "?m \<le> fitting_prefix fits ?m high \<and> fitting_prefix fits ?m high \<le> high \<and>
          (fitting_prefix fits ?m high = ?m \<or> fits (fitting_prefix fits ?m high))" .
      with fit m(1) show ?thesis unfolding fitting_prefix_step [OF True] by auto
    next
      case fail: False
      have "?m - 1 - low < high - low" "low \<le> ?m - 1" using m by linarith+
      from less.hyps [OF this] have "low \<le> fitting_prefix fits low (?m - 1) \<and> fitting_prefix fits low (?m - 1) \<le> ?m - 1 \<and>
          (fitting_prefix fits low (?m - 1) = low \<or> fits (fitting_prefix fits low (?m - 1)))" .
      moreover have "?m - 1 \<le> high" using m(2) by linarith
      ultimately show ?thesis using fail unfolding fitting_prefix_step [OF True] by auto
    qed
  next
    case False
    with less.prems show ?thesis by (simp add: fitting_prefix_done)
  qed
qed

lemma fitting_prefix_pos: "fits (Suc low) \<Longrightarrow> low < high \<Longrightarrow> low < fitting_prefix fits low high"
proof (induction "high - low" arbitrary: high rule: less_induct)
  case less
  let ?m = "(low + high + 1) div 2"
  note m = middle_bounds [OF less.prems(2)]
  show ?case
  proof (cases "fits ?m")
    case True
    have "?m \<le> fitting_prefix fits ?m high" using fitting_prefix_bounds [OF m(2), of fits] by blast
    with m(1) True show ?thesis unfolding fitting_prefix_step [OF less.prems(2)] by simp
  next
    case False
    then have "Suc low \<noteq> ?m" using less.prems(1) by metis
    then have "low < ?m - 1" using m(1) by linarith
    moreover have "?m - 1 - low < high - low" using m by linarith
    ultimately have "low < fitting_prefix fits low (?m - 1)" using less.hyps less.prems(1) by blast
    with False show ?thesis unfolding fitting_prefix_step [OF less.prems(2)] by simp
  qed
qed

text \<open>The bisection finds the longest prefix that fits, if every part of a prefix that fits does.\<close>

lemma fitting_prefix_longest:
  assumes "low \<le> high" and "\<And>m n. m \<le> n \<Longrightarrow> fits n \<Longrightarrow> fits m" and "low \<le> n" and "n \<le> high" and "fits n"
  shows "n \<le> fitting_prefix fits low high"
  using assms(1,3,4)
proof (induction "high - low" arbitrary: low high rule: less_induct)
  case less
  let ?m = "(low + high + 1) div 2"
  show ?case
  proof (cases "low < high")
    case True
    note m = middle_bounds [OF True]
    show ?thesis
    proof (cases "fits ?m")
      case fit: True
      show ?thesis
      proof (cases "?m \<le> n")
        case le: True
        have "high - ?m < high - low" using m by linarith
        from less.hyps [OF this m(2) le less.prems(3)] have "n \<le> fitting_prefix fits ?m high" .
        with fit show ?thesis unfolding fitting_prefix_step [OF True] by simp
      next
        case False
        have "?m \<le> fitting_prefix fits ?m high" using fitting_prefix_bounds [OF m(2), of fits] by blast
        with fit False show ?thesis unfolding fitting_prefix_step [OF True] by simp
      qed
    next
      case fail: False
      have "\<not> ?m \<le> n" using fail assms(2,5) by blast
      then have "?m - 1 - low < high - low" "low \<le> ?m - 1" "n \<le> ?m - 1" using m by linarith+
      from less.hyps [OF this(1,2) less.prems(2) this(3)] have "n \<le> fitting_prefix fits low (?m - 1)" .
      with fail show ?thesis unfolding fitting_prefix_step [OF True] by simp
    qed
  next
    case False
    with less.prems show ?thesis by (simp add: fitting_prefix_done)
  qed
qed

lemma sort_key_last:
  assumes "r \<in> set xs" and "\<And>x. x \<in> set xs \<Longrightarrow> x \<noteq> r \<Longrightarrow> f x < f r"
  shows "last (sort_key f xs) = r"
proof -
  have ne: "sort_key f xs \<noteq> []" using assms(1) by (metis empty_iff empty_set set_sort)
  have "f r \<le> f (last (sort_key f xs))"
  proof -
    have "r \<in> set (sort_key f xs)" using assms(1) by simp
    then obtain i where i: "i < length (sort_key f xs)" "sort_key f xs ! i = r" by (metis in_set_conv_nth)
    have "map f (sort_key f xs) ! i \<le> map f (sort_key f xs) ! (length (sort_key f xs) - 1)"
      by (rule sorted_nth_mono) (use i in simp_all)
    with i show ?thesis by (simp add: last_conv_nth [OF ne] del: length_sort)
  qed
  moreover have "last (sort_key f xs) \<in> set xs" using last_in_set [OF ne] by simp
  ultimately show ?thesis using assms(2) leD by blast
qed

lemma newest_first_head:
  assumes "r \<in> set rs" and "\<And>x. x \<in> set rs \<Longrightarrow> x \<noteq> r \<Longrightarrow> gs_created_at x \<le> gs_created_at r \<and> gs_sequence x < gs_sequence r"
  obtains tl where "newest_first rs = r # tl"
proof -
  have ne: "newest_first rs \<noteq> []" using assms(1) by (metis empty_iff empty_set newest_first_def rev_is_Nil_conv set_rev set_sort)
  have "hd (newest_first rs) = r"
    unfolding newest_first_def hd_rev
    by (rule sort_key_last) (use assms in \<open>auto simp: less_prod_def' order_le_less\<close>)
  with that show ?thesis using ne by (metis list.collapse)
qed

section \<open>Loading what was stored\<close>

lemma from_keys_distinct: "distinct xs \<Longrightarrow> from_keys xs = xs"
  by (simp add: from_keys_def distinct_remdups_id)

definition session_wf :: "agent_session \<Rightarrow> bool" where
  "session_wf x \<longleftrightarrow> session_id_ok (as_id x) \<and> as_workdir x \<noteq> [] \<and> distinct (as_shells x) \<and> [] \<notin> set (as_shells x)"

lemma shells_round_trip:
  "[] \<notin> set xs \<Longrightarrow> map (json_str text) (filter json_truthy (map JStr xs)) = xs"
  by (induction xs) auto

lemma session_round_trip: "session_wf x \<Longrightarrow> session_from_payload text (session_as_json x) = Inr x"
  by (cases x; cases "as_label x"; cases "as_termination x")
    (simp_all add: session_wf_def session_from_payload_def session_as_json_def obj_get_def obj_or_def json_opt_def
      opt_json_def shells_round_trip from_keys_distinct json_str_or_empty_def)

lemma load_session_doc:
  assumes "session_at env st k x" and "se_size (fv_store env) (session_as_json x) \<le> session_metadata_max_bytes"
  shows "load_session (fv_store env) k st = Inr (Some x)"
  using assms by (simp add: load_session_def session_at_def read_json_def)

lemma load_snapshots_doc:
  assumes "rows_at st k rs" and "\<forall>r\<in>set rs. 0 \<le> gs_sequence r \<and> gs_session r = k"
    and "se_size (fv_store env) (snapshots_as_json rs) \<le> session_snapshots_max_bytes"
  shows "load_snapshots (fv_store env) k st = Inr (fold (\<lambda>r. AList.update (gs_id r) r) rs [])"
proof -
  have idx: "index_snapshots (fv_store env) k 1 (map snapshot_as_json rs) [] = Inr (fold (\<lambda>r. AList.update (gs_id r) r) rs [])"
    using index_round_trip [OF assms(2)] .
  from assms(1) consider "cell_of (ts_snaps st) k = Absent" "rs = []" | "cell_of (ts_snaps st) k = Doc (snapshots_as_json rs)"
    unfolding rows_at_def by blast
  then show ?thesis
  proof cases
    case 1
    then show ?thesis by (simp add: load_snapshots_def read_json_def)
  next
    case 2
    with assms(3) idx show ?thesis
      by (simp add: load_snapshots_def read_json_def snapshots_as_json_def obj_get_def)
  qed
qed

text \<open>Snapshots are found by their identity; of two with the same identity, by the later.\<close>

lemma map_of_fold_update:
  "r \<in> set rs \<Longrightarrow> \<forall>q\<in>set rs. gs_id q = gs_id r \<longrightarrow> q = r \<Longrightarrow>
   map_of (fold (\<lambda>r. AList.update (gs_id r) r) rs d) (gs_id r) = Some r"
proof (induction rs rule: rev_induct)
  case (snoc q rs)
  show ?case
  proof (cases "gs_id q = gs_id r")
    case True
    with snoc.prems have "q = r" by simp
    then show ?thesis by (simp add: update_conv')
  next
    case False
    with snoc.prems have "r \<in> set rs" by auto
    with snoc False show ?thesis by (simp add: update_conv')
  qed
qed simp

lemma prune_keeps_newest:
  assumes "newest_first rs = r # older" and "1 \<le> se_max_snapshots env"
    and "encoded_snapshot_payload_bytes (se_size env) [r] \<le> se_max_snapshot_bytes env"
  shows "r \<in> set (prune_snapshots env rs)"
    and "encoded_snapshot_payload_bytes (se_size env) (prune_snapshots env rs) \<le> se_max_snapshot_bytes env"
proof -
  define newest where "newest = take (se_max_snapshots env) (newest_first rs)"
  define fits where "fits m \<longleftrightarrow> encoded_snapshot_payload_bytes (se_size env) (take m newest) \<le> se_max_snapshot_bytes env" for m
  define n where "n = fitting_prefix fits 0 (length newest)"
  obtain tl' where newest: "newest = r # tl'" using assms(1,2) by (cases "se_max_snapshots env") (auto simp: newest_def)
  have prune: "prune_snapshots env rs = take n newest"
    by (simp add: prune_snapshots_def newest_def n_def fits_def [abs_def] Let_def)
  have "fits (Suc 0)" using assms(3) by (simp add: fits_def newest)
  then have pos: "0 < n" unfolding n_def by (rule fitting_prefix_pos) (simp add: newest)
  then show "r \<in> set (prune_snapshots env rs)" unfolding prune newest by (cases n) simp_all
  have "n = 0 \<or> fits n" using fitting_prefix_bounds [of 0 "length newest" fits] by (simp add: n_def)
  with pos show "encoded_snapshot_payload_bytes (se_size env) (prune_snapshots env rs) \<le> se_max_snapshot_bytes env"
    by (simp add: prune fits_def)
qed

lemma next_sequence_above: "q \<in> set rs \<Longrightarrow> gs_sequence q < next_sequence rs"
proof -
  assume q: "q \<in> set rs"
  then have "gs_sequence q \<le> Max (gs_sequence ` set rs)" by (intro Max_ge) auto
  moreover have "rs \<noteq> []" using q by auto
  ultimately show ?thesis by (simp only: next_sequence_def if_False)
qed

lemma updated_values:
  assumes "distinct (map fst d)"
  shows "v \<in> set (dict_values (AList.update k r d)) \<longleftrightarrow> v = r \<or> (\<exists>j. j \<noteq> k \<and> (j, v) \<in> set d)"
proof -
  have fresh: "k \<notin> set (map fst d) \<Longrightarrow> (k, v) \<notin> set d" by force
  from assms show ?thesis
  proof (induction d)
    case (Cons p d)
    obtain j u where p: "p = (j, u)" by fastforce
    show ?case
    proof (cases "j = k")
      case True
      have "(k, w) \<notin> set d" for w using Cons.prems True p by (force simp: image_iff)
      then have "(\<exists>j. j \<noteq> k \<and> (j, v) \<in> set d) \<longleftrightarrow> v \<in> snd ` set d" by force
      with True p show ?thesis by auto
    next
      case False
      with Cons p show ?thesis by auto
    qed
  qed simp
qed

lemma fold_index_distinct: "distinct (map fst d) \<Longrightarrow> distinct (map fst (fold (\<lambda>r. AList.update (gs_id r) r) rs d))"
  by (induction rs arbitrary: d) (simp_all add: distinct_update)

text \<open>A snapshot that was recorded is found, whatever had to be pruned for it.\<close>

definition store_limits_ok :: "store_env \<Rightarrow> bool" where
  "store_limits_ok env \<longleftrightarrow> 1 \<le> se_max_snapshots env \<and> se_max_snapshot_bytes env \<le> session_snapshots_max_bytes"

definition clock_ahead :: "tool_store \<Rightarrow> ustr \<Rightarrow> time \<Rightarrow> bool" where
  "clock_ahead st k now \<longleftrightarrow> (\<forall>rs. rows_at st k rs \<longrightarrow> (\<forall>q\<in>set rs. gs_created_at q \<le> now))"

lemma record_found:
  assumes ok: "store_ok env st" and limits: "store_limits_ok (fv_store env)" and clock: "clock_ahead st k now"
    and run: "record_file_snapshot (fv_store env) w now k i p sha n ranges st = (st', Inr r)"
  shows "get_snapshot (fv_store env) k i st' = Inr (Some r)"
    and "gs_path r = p" and "gs_sha r = sha" and "gs_ranges r = ranges" and "gs_id r = i"
proof -
  let ?env = "fv_store env"
  obtain rs where rows: "rows_at st k rs" "\<forall>r\<in>set rs. 0 \<le> gs_sequence r \<and> gs_session r = k"
    using ok unfolding store_ok_def by blast
  obtain x d u where x: "require_session_locked ?env k st = Inr x" and d: "load_snapshots ?env k st = Inr d"
    and r: "r = new_snapshot k i p sha n ranges now (dict_values d)"
    and small: "encoded_snapshot_payload_bytes (se_size ?env) [r] \<le> se_max_snapshot_bytes ?env"
    and put: "put_snapshots w k (prune_snapshots ?env (dict_values (AList.update i r d))) st = (st', Inr u)"
    using run by (auto simp: record_file_snapshot_def Let_def split: sum.splits if_splits prod.splits)
  show "gs_path r = p" "gs_sha r = sha" "gs_ranges r = ranges" "gs_id r = i" by (simp_all add: r new_snapshot_def)
  let ?vs = "dict_values (AList.update i r d)"
  have d': "d = fold (\<lambda>r. AList.update (gs_id r) r) rs []" using load_snapshots_rows [OF rows d] .
  have dist: "distinct (map fst d)" unfolding d' by (rule fold_index_distinct) simp
  have keys: "\<forall>(j, v)\<in>set d. j = gs_id v" unfolding d' by (rule fold_index_keys) simp_all
  have old: "v \<in> set rs" if "v \<in> set (dict_values d)" for v using fold_index_values [of v rs "[]"] that by (simp add: d')
  have vs: "v = r \<or> v \<in> set (dict_values d) \<and> gs_id v \<noteq> i" if "v \<in> set ?vs" for v
    using that keys unfolding updated_values [OF dist] by force
  have older: "gs_created_at v \<le> gs_created_at r \<and> gs_sequence v < gs_sequence r" if "v \<in> set ?vs" "v \<noteq> r" for v
    using vs [OF that(1)] that(2) old clock rows(1) next_sequence_above [of v "dict_values d"]
    by (auto simp: r new_snapshot_def clock_ahead_def)
  have "r \<in> set ?vs" unfolding updated_values [OF dist] by simp
  then obtain rest where newest: "newest_first ?vs = r # rest" using older by (rule newest_first_head)
  let ?qs = "prune_snapshots ?env ?vs"
  have kept: "r \<in> set ?qs" "encoded_snapshot_payload_bytes (se_size ?env) ?qs \<le> se_max_snapshot_bytes ?env"
    using prune_keeps_newest [OF newest _ small] limits by (simp_all add: store_limits_ok_def)
  have ne: "?qs \<noteq> []" using kept(1) by (metis empty_iff empty_set)
  have lands: "st' = st\<lparr>ts_snaps := AList.update k (Doc (snapshots_as_json ?qs)) (ts_snaps st)\<rparr>"
    using put ne reports_lands [of w] by (auto simp: put_snapshots_def write_json_def split: if_splits)
  have rows': "rows_at st' k ?qs" by (simp add: lands rows_at_def)
  have good: "\<forall>q\<in>set ?qs. 0 \<le> gs_sequence q \<and> gs_session q = k"
  proof
    fix q assume "q \<in> set ?qs"
    then have "q = r \<or> q \<in> set rs" using pruned_subset vs old by blast
    moreover have "0 \<le> gs_sequence r"
      unfolding r new_snapshot_def using next_sequence_nonneg [of "dict_values d"] old rows(2) by auto
    ultimately show "0 \<le> gs_sequence q \<and> gs_session q = k" using rows(2) by (auto simp: r new_snapshot_def)
  qed
  have load: "load_snapshots ?env k st' = Inr (fold (\<lambda>r. AList.update (gs_id r) r) ?qs [])"
    by (rule load_snapshots_doc [OF rows' good])
      (use kept(2) limits in \<open>simp add: store_limits_ok_def encoded_snapshot_payload_bytes_def\<close>)
  have only: "\<forall>q\<in>set ?qs. gs_id q = gs_id r \<longrightarrow> q = r"
    using vs pruned_subset \<open>gs_id r = i\<close> by blast
  have "map_of (fold (\<lambda>r. AList.update (gs_id r) r) ?qs []) i = Some r"
    using map_of_fold_update [OF kept(1) only, of "[]"] by (simp only: \<open>gs_id r = i\<close>)
  moreover have "require_session_locked ?env k st' = Inr x"
    using x by (simp add: lands require_session_locked_def load_session_def)
  ultimately show "get_snapshot ?env k i st' = Inr (Some r)" by (simp add: get_snapshot_def load)
qed

section \<open>Line numbers of a read are line numbers of the file\<close>

lemma cut_lines_some: "acc \<noteq> [] \<or> s \<noteq> [] \<Longrightarrow> cut_lines acc s \<noteq> []"
  by (induction acc s rule: cut_lines.induct) auto

lemma cut_lines_prefix: "length (cut_lines acc u) \<le> length (cut_lines acc (u @ v))"
proof (induction acc u rule: cut_lines.induct)
  case (1 acc)
  show ?case
  proof (cases "acc = []")
    case False
    then have "cut_lines acc v \<noteq> []" by (simp add: cut_lines_some)
    with False show ?thesis by (simp add: Suc_le_eq)
  qed simp
next
  case (2 acc c u)
  consider "c = 13 \<and> u \<noteq> [] \<and> hd u = 10" | "c = 13" "u = []" | "\<not> (c = 13 \<and> u \<noteq> [] \<and> hd u = 10)" "\<not> (c = 13 \<and> u = [])"
    by blast
  then show ?case
  proof cases
    case 1
    with 2(1) [OF 1] show ?thesis by simp
  next
    case 2
    then have "cut_lines acc ([c] @ v) \<noteq> []" by (intro cut_lines_some) simp
    with 2 show ?thesis by (simp add: is_break_def Suc_le_eq)
  next
    case 3
    then have same: "(c = 13 \<and> u @ v \<noteq> [] \<and> hd (u @ v) = 10) = False" "(c = 13 \<and> u \<noteq> [] \<and> hd u = 10) = False"
      by (auto simp: hd_append split: if_splits)
    show ?thesis using 2(2,3) [OF 3(1)] by (simp only: append_Cons cut_lines.simps same if_False) auto
  qed
qed

lemma utf8_prefix_take: "\<exists>v. s = utf8_prefix n s @ v"
  by (induction s arbitrary: n) auto

lemma cut_lines_universal: "map fst (cut_lines acc (universal_newlines s)) = map fst (cut_lines acc s)"
proof (induction s arbitrary: acc rule: universal_newlines.induct)
  case (2 c s)
  show ?case
  proof (cases "c = 13")
    case True
    then have "map fst (cut_lines acc (universal_newlines (c # s))) =
        rev acc # map fst (cut_lines [] (universal_newlines (if s \<noteq> [] \<and> hd s = 10 then tl s else s)))"
      by (simp add: is_break_def)
    also have "\<dots> = rev acc # map fst (cut_lines [] (if s \<noteq> [] \<and> hd s = 10 then tl s else s))" using 2(1) [OF True] by simp
    also have "\<dots> = map fst (cut_lines acc (c # s))" using True by (simp add: is_break_def)
    finally show ?thesis .
  next
    case False
    with 2(2) [OF False] show ?thesis by simp
  qed
qed simp

lemma lines_universal: "length (splitlines_keep (universal_newlines s)) = length (splitlines s)"
  using arg_cong [OF cut_lines_universal [of "[]" s], of length] by (simp add: splitlines_keep_def splitlines_def)

lemma lines_prefix: "length (splitlines (utf8_prefix n s)) \<le> length (splitlines s)"
  using utf8_prefix_take [of s n] cut_lines_prefix [of "[]" "utf8_prefix n s"] by (metis length_map splitlines_def)

lemma visible_bounds:
  assumes "range_is_visible a z (snd (selected_by_ranges ls specs))"
  shows "1 \<le> a" and "z \<le> int (length ls)"
proof -
  from assms obtain spec where spec: "selected_read_lines ls spec \<noteq> []"
    "fst (hd (selected_read_lines ls spec)) \<le> a" "z \<le> fst (last (selected_read_lines ls spec))"
    by (auto simp: range_is_visible_def selected_by_ranges_def list_ex_iff Let_def)
  define lo where "lo = max 1 (int_or (fst spec) 1)"
  define hi where "hi = min (int (length ls)) (int_or (snd spec) (int (length ls)))"
  have sel: "selected_read_lines ls spec = (if int (length ls) = 0 \<or> hi < lo then [] else map (\<lambda>n. (n, ls ! nat (n - 1))) [lo..hi])"
    by (simp add: selected_read_lines_def lo_def hi_def Let_def)
  with spec(1) have some: "selected_read_lines ls spec = map (\<lambda>n. (n, ls ! nat (n - 1))) [lo..hi]" and le: "lo \<le> hi"
    by (auto split: if_splits)
  have "hd [lo..hi] = lo" "last [lo..hi] = hi" using le by (simp add: upto_rec1, simp add: upto_rec2)
  moreover have "[lo..hi] \<noteq> []" using le by simp
  ultimately have "lo \<le> a" "z \<le> hi" using spec(2,3) by (simp_all add: some hd_map last_map)
  then show "1 \<le> a" "z \<le> int (length ls)" by (simp_all add: lo_def hi_def)
qed

section \<open>An edit of displayed lines is carried out\<close>

definition edited_text :: "int \<Rightarrow> int \<Rightarrow> ustr \<Rightarrow> ustr \<Rightarrow> ustr" where
  "edited_text a z new x =
     (let lines = splitlines_keep (universal_newlines x); selected = take (nat (z - a + 1)) (drop (nat (a - 1)) lines)
      in concat (splice a z (replacement_lines new [10] (selected \<noteq> [] \<and> ends_line (last selected)) (z < int (length lines))) lines))"

lemma edit_lines_lands:
  assumes "resolve_existing env b arg s = Inr (p, TextFile x)" and "1 \<le> a" and "a \<le> z"
    and "z \<le> int (length (splitlines_keep (universal_newlines x)))"
    and "validate_snapshot_for_edit env b (display_file env b p) (fv_sha env (TextFile x)) a z snapshot (eh_store s) = Inr ()"
    and "utf8_len x \<le> fv_max_write env" and "utf8_len (edited_text a z new x) \<le> fv_max_write env" and "lands ew"
  shows "map_of (eh_files (fst (edit_lines env ew sw now j b arg a z new snapshot s))) p = Some (TextFile (edited_text a z new x))"
proof -
  let ?s = "s\<lparr>eh_files := AList.update p (TextFile (edited_text a z new x)) (eh_files s)\<rparr>"
  have w: "replace_file ew p (edited_text a z new x) s = (?s, if reports ew then Inr () else Inl (Failed OSError))"
    using assms(8) by (simp add: replace_file_def)
  let ?r = "edit_lines env ew sw now j b arg a z new snapshot s"
  have "fst ?r = ?s \<or> (\<exists>c d q. read_file env sw now j b c d ?s = (fst ?r, q))"
    using assms w
    by (auto simp: edit_lines_def Let_def edited_text_def crlf_never_detected split: sum.splits prod.splits)
  then show ?thesis
  proof
    assume "\<exists>c d q. read_file env sw now j b c d ?s = (fst ?r, q)"
    then obtain c d q where "read_file env sw now j b c d ?s = (fst ?r, q)" by blast
    then have "eh_files (fst ?r) = eh_files ?s" by (rule read_keeps_files)
    then show ?thesis by simp
  qed simp
qed

text \<open>
  C40. What a read displays can be edited: after a read by a session, an edit of a range that the read
  displayed is not refused, however many older snapshots had to make room, and the file then holds the
  lines with the range replaced, if the size limits allow and the write lands.
\<close>

theorem displayed_lines_can_be_edited:
  assumes "reach edit_init (edit_step env plain) s" and "store_limits_ok (fv_store env)"
    and "clock_ahead (eh_store s) k now" and "session_at env (eh_store s) k y"
    and "map_of (eh_files s) (fv_resolve env (as_workdir y) arg) = Some (TextFile x)"
    and "bound env aw now k (\<lambda>b. read_file env w now i (Some b) arg specs) s = (t, Inr out)"
    and "ro_snapshot out = Some r" and "range_is_visible a z (gs_ranges r)" and "a \<le> z"
    and "utf8_len x \<le> fv_max_write env" and "utf8_len (edited_text a z new x) \<le> fv_max_write env" and "lands ew"
  shows "map_of (eh_files (fst (edit_lines env ew sw now' j (Some \<lparr>sb_id = k, sb_workdir = as_workdir y\<rparr>) arg a z new (Some i) t)))
           (fv_resolve env (as_workdir y) arg) = Some (TextFile (edited_text a z new x))"
proof -
  let ?p = "fv_resolve env (as_workdir y) arg" and ?b = "\<lparr>sb_id = k, sb_workdir = as_workdir y\<rparr>"
  let ?asked = "case specs of None \<Rightarrow> [(None, None)] | Some r \<Rightarrow> r" and ?lines = "splitlines (utf8_prefix (fv_max_read env) x)"
  have ok: "store_ok env (eh_store s)" using assms(1) by (intro edit_inv_ok) (rule edits.reach_inv)
  obtain st q where a: "admit_active_session (fv_store env) aw now k (eh_store s) = (st, q)" by fastforce
  with assms(6) obtain x' where q: "q = Inr x'" by (cases q) (auto simp: bound_def)
  have calm: "calm env (eh_store s) st" by (rule admit_active_calm [OF ok a])
  have ok': "store_ok env st" using ok calm by (rule calm_ok)
  obtain y' where y': "session_at env st k y'" "as_workdir y' = as_workdir x'" "as_id x' = k"
    using admit_active_bound [OF ok a [unfolded q]] by blast
  obtain y2 where "session_at env st k y2" "as_workdir y2 = as_workdir y" using calm_session [OF calm assms(4)] .
  with y' have wd: "as_workdir x' = as_workdir y" using session_at_unique by metis
  have clock: "clock_ahead st k now" using assms(3) calm by (simp add: clock_ahead_def rows_at_def calm_def)
  let ?s = "s\<lparr>eh_store := st\<rparr>"
  have run: "read_file env w now i (Some ?b) arg specs ?s = (t, Inr out)"
    using assms(6) a q y'(3) wd by (simp add: bound_def)
  have res: "resolve_existing env (Some ?b) arg u = Inr (?p, TextFile x)" if "eh_files u = eh_files s" for u
    using that assms(5) by (simp add: resolve_existing_def workdir_of_def)
  obtain st' q' where rec: "record_file_snapshot (fv_store env) w now k i (display_file env (Some ?b) ?p)
      (fv_sha env (TextFile x)) (int (length ?lines)) (snd (selected_by_ranges ?lines ?asked)) st = (st', q')" by fastforce
  with run res [of ?s] have q': "q' = Inr r" and t: "eh_store t = st'"
    using assms(7) by (auto simp: read_file_def Let_def split: sum.splits prod.splits)
  note found = record_found [OF ok' assms(2) clock rec [unfolded q']]
  have visible: "range_is_visible a z (snd (selected_by_ranges ?lines ?asked))" using assms(8) found(4) by simp
  have files: "eh_files t = eh_files s" using read_keeps_files [OF run] by simp
  show ?thesis
  proof (rule edit_lines_lands [OF res [OF files] _ assms(9) _ _ assms(10-12)])
    show "1 \<le> a" by (rule visible_bounds(1) [OF visible])
    show "z \<le> int (length (splitlines_keep (universal_newlines x)))"
      using visible_bounds(2) [OF visible] lines_prefix [of "fv_max_read env" x] by (simp add: lines_universal)
    show "validate_snapshot_for_edit env (Some ?b) (display_file env (Some ?b) ?p) (fv_sha env (TextFile x)) a z (Some i) (eh_store t) = Inr ()"
      using found visible by (simp add: validate_snapshot_for_edit_def t)
  qed
qed

end
