(* ===== verification/Edit_Runs.thy ===== *)
theory Edit_Runs
  imports Edit_Progress
begin

text \<open>
  When the operations on files succeed, and a concrete run: a session is created, reads a file and edits
  it with a hashline envelope.
\<close>

section \<open>Success\<close>

lemma require_session_doc:
  assumes "session_at env st k x" and "se_size (fv_store env) (session_as_json x) \<le> session_metadata_max_bytes"
  shows "require_session_locked (fv_store env) k st = Inr x"
  using load_session_doc [OF assms] by (simp add: require_session_locked_def)

lemma write_session_lands:
  "session_wf x \<Longrightarrow> write_session env Landed x st =
     (st\<lparr>ts_meta := AList.update (as_id x) (Doc (session_as_json x)) (ts_meta st)\<rparr>, Inr ())"
  by (simp add: write_session_def session_to_payload_def session_round_trip write_json_def)

lemma create_lands:
  assumes "session_id_ok k" and "wd \<noteq> []" and "cell_of (ts_meta st) k = Absent"
  shows "create_session env Landed now k (Inr wd) lab st =
    (let x = \<lparr>as_id = k, as_workdir = wd, as_created_at = now, as_updated_at = now, as_label = lab,
       as_termination = None, as_shells = []\<rparr>
     in (st\<lparr>ts_meta := AList.update k (Doc (session_as_json x)) (ts_meta st)\<rparr>, Inr x))"
  using assms by (simp add: create_session_def write_session_lands session_wf_def Let_def)

lemma admit_lands:
  assumes "session_at env st k x" and "se_size (fv_store env) (session_as_json x) \<le> session_metadata_max_bytes"
    and "as_termination x = None" and "session_wf x"
  shows "admit_active_session (fv_store env) Landed now k st =
    (st\<lparr>ts_meta := AList.update k (Doc (session_as_json (x\<lparr>as_updated_at := now\<rparr>))) (ts_meta st)\<rparr>,
     Inr (x\<lparr>as_updated_at := now\<rparr>))"
proof -
  have "as_id x = k" using assms(1) by (simp add: session_at_def)
  moreover have "session_wf (x\<lparr>as_updated_at := now\<rparr>)" using assms(4) by (simp add: session_wf_def)
  moreover have "from_keys [k] = [k]" by (simp add: from_keys_def)
  ultimately show ?thesis
    using require_session_doc [OF assms(1,2)] assms(3)
    by (simp add: admit_active_session_def admit_tool_sessions_def write_session_lands Let_def)
qed

lemma record_succeeds:
  assumes "require_session_locked env k st = Inr x" and "load_snapshots env k st = Inr d"
    and "\<And>r. encoded_snapshot_payload_bytes (se_size env) [r] \<le> se_max_snapshot_bytes env"
  shows "\<exists>st' r. record_file_snapshot env Landed now k i p sha n ranges st = (st', Inr r)"
  using assms(1,2) leD [OF assms(3)]
  by (auto simp: record_file_snapshot_def Let_def put_snapshots_def write_json_def)

lemma record_first:
  assumes "require_session_locked env k st = Inr x" and "cell_of (ts_snaps st) k = Absent"
    and "\<And>r. encoded_snapshot_payload_bytes (se_size env) [r] \<le> se_max_snapshot_bytes env" and "1 \<le> se_max_snapshots env"
  shows "record_file_snapshot env Landed now k i p sha n ranges st =
    (let r = new_snapshot k i p sha n ranges now []
     in (st\<lparr>ts_snaps := AList.update k (Doc (snapshots_as_json [r])) (ts_snaps st)\<rparr>, Inr r))"
proof -
  let ?r = "new_snapshot k i p sha n ranges now []"
  have "newest_first [?r] = [?r]" by (simp add: newest_first_def)
  from prune_keeps_newest(1) [OF this assms(4,3)] have "?r \<in> set (prune_snapshots env [?r])" .
  moreover have "length (prune_snapshots env [?r]) \<le> 1" by (simp add: prune_snapshots_def newest_first_def Let_def)
  ultimately have "prune_snapshots env [?r] = [?r]" by (cases "prune_snapshots env [?r]") auto
  moreover have "load_snapshots env k st = Inr []" using assms(2) by (simp add: load_snapshots_def read_json_def)
  ultimately show ?thesis
    using assms(1) leD [OF assms(3)]
    by (simp add: record_file_snapshot_def Let_def put_snapshots_def write_json_def)
qed

lemma read_succeeds:
  assumes "resolve_existing env (Some b) arg s = Inr (p, TextFile x)"
    and "\<And>i sh sha n ranges. \<exists>st r. record_file_snapshot (fv_store env) w now (sb_id b) i sh sha n ranges (eh_store s) = (st, Inr r)"
  shows "\<exists>t out. read_file env w now i (Some b) arg specs s = (t, Inr out)"
proof -
  let ?asked = "case specs of None \<Rightarrow> [(None, None)] | Some r \<Rightarrow> r" and ?lines = "splitlines (utf8_prefix (fv_max_read env) x)"
  obtain sel ranges where sel: "selected_by_ranges ?lines ?asked = (sel, ranges)" by fastforce
  obtain st r where "record_file_snapshot (fv_store env) w now (sb_id b) i (display_file env (Some b) p) (fv_sha env (TextFile x))
      (int (length ?lines)) ranges (eh_store s) = (st, Inr r)" using assms(2) by blast
  with assms(1) sel show ?thesis by (simp add: read_file_def Let_def)
qed

section \<open>A run\<close>

definition demo_env :: files_env where
  "demo_env = \<lparr>fv_resolve = (\<lambda>_ _. [lit ''f'']), fv_root = (\<lambda>_. []), fv_join = (\<lambda>_ p. p), fv_default = [], fv_digit = (\<lambda>_. None),
     fv_sha = (\<lambda>n. case n of TextFile t \<Rightarrow> t | _ \<Rightarrow> []), fv_udiff = (\<lambda>_ _ _. []), fv_max_read = 100, fv_max_write = 100,
     fv_store = \<lparr>se_size = (\<lambda>_. 0), se_text = (\<lambda>_. []), se_int = (\<lambda>_. Inr 0), se_max_snapshots = 10,
       se_max_snapshot_bytes = 10\<rparr>\<rparr>"

definition demo_key :: ustr where
  "demo_key = lit ''sess_aaaaaaaaaaaaaaaaaaaaaa''"

definition demo_agent :: agent_session where
  "demo_agent = \<lparr>as_id = demo_key, as_workdir = [119], as_created_at = 1, as_updated_at = 1, as_label = None,
     as_termination = None, as_shells = []\<rparr>"

definition demo_binding :: session_binding where
  "demo_binding = \<lparr>sb_id = demo_key, sb_workdir = [119]\<rparr>"

definition demo_file :: ustr where
  "demo_file = [97, 10, 98, 10]"

definition demo_empty :: edit_host where
  "demo_empty = \<lparr>eh_files = [([[102]], TextFile demo_file)], eh_store = \<lparr>ts_meta = [], ts_snaps = []\<rparr>, eh_reads = []\<rparr>"

definition demo_created :: edit_host where
  "demo_created = demo_empty\<lparr>eh_store := \<lparr>ts_meta = [(demo_key, Doc (session_as_json demo_agent))], ts_snaps = []\<rparr>\<rparr>"

definition demo_snapshot :: snapshot_record where
  "demo_snapshot = new_snapshot demo_key [115] [102] demo_file 2 [(1, 2)] 1 []"

definition demo_read :: edit_host where
  "demo_read = \<lparr>eh_files = [([[102]], TextFile demo_file)],
     eh_store = \<lparr>ts_meta = [(demo_key, Doc (session_as_json demo_agent))],
       ts_snaps = [(demo_key, Doc (snapshots_as_json [demo_snapshot]))]\<rparr>,
     eh_reads = [\<lparr>re_session = demo_key, re_id = [115], re_path = [[102]], re_text = demo_file, re_specs = [(None, None)]\<rparr>]\<rparr>"

lemma demo_agent_wf: "session_wf demo_agent"
  by (simp add: session_wf_def demo_agent_def demo_key_def session_id_ok_def opaque_id_def starts_with_def
      is_token_char_def is_upper_def is_lower_def is_digit_def)

lemma demo_env_simps [simp]:
  "fv_resolve demo_env d arg = [[102]]" "fv_root demo_env d = []" "fv_join demo_env d q = q" "fv_digit demo_env c = None"
  "fv_max_read demo_env = 100" "fv_max_write demo_env = 100" "fv_sha demo_env (TextFile t) = t"
  "se_size (fv_store demo_env) v = 0" "se_max_snapshots (fv_store demo_env) = 10"
  "se_max_snapshot_bytes (fv_store demo_env) = 10"
  by (simp_all add: demo_env_def)

lemma demo_session_at:
  "ts_meta st = [(demo_key, Doc (session_as_json demo_agent))] \<Longrightarrow> session_at demo_env st demo_key demo_agent"
  using session_round_trip [OF demo_agent_wf] by (simp add: session_at_def cell_of_def demo_agent_def)

lemma demo_admit:
  assumes "ts_meta st = [(demo_key, Doc (session_as_json demo_agent))]"
  shows "admit_active_session (fv_store demo_env) Landed 1 demo_key st = (st, Inr demo_agent)"
proof -
  have "demo_agent\<lparr>as_updated_at := 1\<rparr> = demo_agent" "as_termination demo_agent = None" by (simp_all add: demo_agent_def)
  with admit_lands [OF demo_session_at [OF assms] _ _ demo_agent_wf, of 1] assms show ?thesis by simp
qed

lemma demo_bound:
  "ts_meta (eh_store s) = [(demo_key, Doc (session_as_json demo_agent))] \<Longrightarrow>
   bound demo_env Landed 1 demo_key f s = f demo_binding s"
  by (simp add: bound_def demo_admit) (simp add: demo_agent_def demo_binding_def)

lemma demo_create:
  "create_session (fv_store demo_env) Landed 1 demo_key (Inr [119]) None (eh_store demo_empty) =
   (eh_store demo_created, Inr demo_agent)"
proof -
  have "session_id_ok demo_key" using demo_agent_wf by (simp add: session_wf_def demo_agent_def)
  from create_lands [OF this, of "[119]" "eh_store demo_empty" "fv_store demo_env" 1 None] show ?thesis
    by (simp add: demo_empty_def demo_created_def demo_agent_def cell_of_def Let_def)
qed

lemma demo_require:
  "ts_meta st = [(demo_key, Doc (session_as_json demo_agent))] \<Longrightarrow>
   require_session_locked (fv_store demo_env) demo_key st = Inr demo_agent"
  by (rule require_session_doc [OF demo_session_at]) simp_all

lemma demo_lines:
  "utf8_prefix 100 demo_file = demo_file" "utf8_len demo_file = 4" "splitlines demo_file = [[97], [98]]"
  "universal_newlines demo_file = demo_file" "splitlines_keep demo_file = [[97, 10], [98, 10]]"
  by (simp_all add: demo_file_def splitlines_def splitlines_keep_def is_break_def)

lemma demo_selected: "selected_by_ranges [[97], [98]] [(None, None)] = ([(1, [97]), (2, [98])], [(1, 2)])"
  by (simp add: selected_by_ranges_def selected_read_lines_def int_or_def upto.simps)

lemma demo_resolve:
  "eh_files s = [([[102]], TextFile x)] \<Longrightarrow> resolve_existing demo_env b arg s = Inr ([[102]], TextFile x)"
  by (simp add: resolve_existing_def)

lemma demo_display: "display_file demo_env b [[102]] = [102]"
  by (simp add: display_file_def display_path_def)

definition demo_output :: read_output where
  "demo_output = \<lparr>ro_path = [102], ro_bytes = 4, ro_bytes_read = 4, ro_total_lines = 2,
     ro_lines = [(1, [97]), (2, [98])], ro_numbered = numbered_content [(1, [97]), (2, [98])] (Some ([102], [115])),
     ro_snapshot = Some demo_snapshot, ro_truncated = False, ro_content = demo_file\<rparr>"

lemma demo_reading:
  "read_file demo_env Landed 1 [115] (Some demo_binding) [102] None demo_created = (demo_read, Inr demo_output)"
proof -
  let ?st = "\<lparr>ts_meta = [(demo_key, Doc (session_as_json demo_agent))], ts_snaps = []\<rparr>"
  have files: "eh_files demo_created = [([[102]], TextFile demo_file)]" "eh_store demo_created = ?st" "eh_reads demo_created = []"
    by (simp_all add: demo_created_def demo_empty_def)
  have rec: "record_file_snapshot (fv_store demo_env) Landed 1 demo_key [115] [102] demo_file 2 [(1, 2)] ?st =
      (eh_store demo_read, Inr demo_snapshot)"
    by (subst record_first [OF demo_require])
      (simp_all add: cell_of_def encoded_snapshot_payload_bytes_def demo_read_def demo_snapshot_def Let_def)
  have "gs_id demo_snapshot = [115]" by (simp add: demo_snapshot_def new_snapshot_def)
  with rec show ?thesis
    unfolding read_file_def demo_resolve [OF files(1)]
    by (simp add: demo_lines demo_selected demo_display Let_def files demo_binding_def demo_output_def demo_read_def demo_created_def
        demo_empty_def)
qed

lemma demo_created_reached: "reach edit_init (edit_step demo_env plain) demo_created"
proof -
  have init: "edit_init demo_empty" by (simp add: edit_init_def demo_empty_def)
  have "cell_of (ts_snaps (eh_store demo_empty)) demo_key = Absent" by (simp add: demo_empty_def cell_of_def)
  from edit_step.creates [OF this demo_create] have "edit_step demo_env plain demo_empty demo_created"
    by (simp add: demo_created_def)
  with init show ?thesis by (metis reach_init reach_step)
qed

lemma demo_reached: "reach edit_init (edit_step demo_env plain) demo_read"
proof -
  have "bound demo_env Landed 1 demo_key (\<lambda>b. read_file demo_env Landed 1 [115] (Some b) [102] None) demo_created =
      (demo_read, Inr demo_output)"
    by (subst demo_bound) (simp_all add: demo_reading, simp add: demo_created_def)
  with demo_created_reached show ?thesis by (metis edit_step.reads reach_step)
qed

text \<open>The edit that replaces the second line\<close>

definition demo_input :: ustr where
  "demo_input = lit ''[f#s]'' @ [10] @ lit ''SWAP 2:'' @ [10] @ lit ''+c''"

definition demo_operation :: hash_operation where
  "demo_operation = HashEdit [102] [115] 2 2 [99] []"

lemma demo_input_lines: "splitlines demo_input = [[91, 102, 35, 115, 93], [83, 87, 65, 80, 32, 50, 58], [43, 99]]"
  by (simp add: demo_input_def splitlines_def is_break_def)

lemma demo_stripped:
  "py_strip [91, 102, 35, 115, 93] = [91, 102, 35, 115, 93]" "py_strip [83, 87, 65, 80, 32, 50, 58] = [83, 87, 65, 80, 32, 50, 58]"
  "py_strip [43, 99] = [43, 99]"
  by (simp_all add: py_strip_def py_isspace_def)

lemma demo_header:
  "match_header [91, 102, 35, 115, 93] = Some ([102], [115])" "match_header (83 # l) = None" "match_header (43 # l) = None"
  by (simp_all add: match_header_def upt_conv_Cons)

lemma demo_swap: "match_swap env [83, 87, 65, 80, 32, 50, 58] = Some (2, 2)"
  by (simp add: match_swap_def take_word_def same_letter_def take_spaces_def take_decimal_def is_decimal_def decimal_value_def
      digit_value_def is_digit_def py_isspace_def colon_end_def)

lemma demo_hunk: "parse_hash_hunk env p i [[83, 87, 65, 80, 32, 50, 58], [43, 99]] = Some (HashEdit p i 2 2 [99] [])"
  by (simp add: parse_hash_hunk_def demo_stripped demo_swap hash_plus_lines_def hash_replacement_text_def starts_with_def)

lemma demo_parsed: "parse_hashline_edit_input demo_env demo_input = Some [demo_operation]"
  by (simp add: parse_hashline_edit_input_def demo_input_lines strip_returns_def trim_blank_def blank_def demo_stripped demo_header
      demo_hunk demo_operation_def Let_def)

text \<open>The snapshot that the run has recorded is found.\<close>

lemma demo_snapshots:
  assumes "ts_snaps st = [(demo_key, Doc (snapshots_as_json [demo_snapshot]))]"
  shows "load_snapshots (fv_store demo_env) demo_key st = Inr [([115], demo_snapshot)]"
proof -
  have "gs_id demo_snapshot = [115]" by (simp add: demo_snapshot_def new_snapshot_def)
  moreover have "rows_at st demo_key [demo_snapshot]" using assms by (simp add: rows_at_def cell_of_def)
  moreover have "\<forall>r\<in>set [demo_snapshot]. 0 \<le> gs_sequence r \<and> gs_session r = demo_key"
    by (simp add: demo_snapshot_def new_snapshot_def next_sequence_def)
  ultimately show ?thesis using load_snapshots_doc [of st demo_key "[demo_snapshot]" demo_env] by simp
qed

lemma demo_store:
  "ts_meta (eh_store demo_read) = [(demo_key, Doc (session_as_json demo_agent))]"
  "ts_snaps (eh_store demo_read) = [(demo_key, Doc (snapshots_as_json [demo_snapshot]))]"
  "eh_files demo_read = [([[102]], TextFile demo_file)]"
  by (simp_all add: demo_read_def)

lemma demo_found:
  "get_snapshot (fv_store demo_env) demo_key [115] (eh_store demo_read) = Inr (Some demo_snapshot)"
  by (simp add: get_snapshot_def demo_require demo_snapshots demo_store)

lemma demo_valid:
  "validate_snapshot_for_edit demo_env (Some demo_binding) [102] demo_file 2 2 (Some [115]) (eh_store demo_read) = Inr ()"
  by (simp add: validate_snapshot_for_edit_def demo_binding_def demo_found)
    (simp add: demo_snapshot_def new_snapshot_def range_is_visible_def)

definition demo_hunk :: hash_hunk where
  "demo_hunk = \<lparr>hh_index = 0, hh_path = [[102]], hh_shown = [102], hh_start = 2, hh_end = 2, hh_lines = [[99, 10]]\<rparr>"

lemma demo_path_arg: "path_for_operation demo_env (Some demo_binding) (\<lambda>_. [[102]]) demo_operation demo_read = Inr [102]"
proof -
  have "gs_path demo_snapshot = [102]" by (simp add: demo_snapshot_def new_snapshot_def)
  then show ?thesis by (simp add: path_for_operation_def demo_binding_def demo_operation_def demo_found)
qed

lemma demo_replacement: "replacement_lines [99] [10] True False = [[99, 10]]"
  by (simp add: replacement_lines_def ends_line_def splitlines_keep_def is_break_def)

lemma demo_prepared:
  "prepare_hunks demo_env (Some demo_binding) (\<lambda>_. [[102]]) 0 [demo_operation] demo_read = Inr [demo_hunk]"
proof -
  have "newline_for_text demo_file = [10]" by (simp add: newline_for_text_def demo_file_def)
  moreover have "file_snapshot demo_env (Some demo_binding) [102] demo_read = Inr ([[102]], demo_file)"
    by (simp add: file_snapshot_def demo_resolve [OF demo_store(3)] demo_lines)
  moreover have "operation_range demo_operation = (2, 2)" "operation_snapshot demo_operation = [115]"
    "operation_text demo_operation ls = Inr [99]" for ls
    by (simp_all add: demo_operation_def operation_text_def)
  ultimately have "prepare_hunk demo_env (Some demo_binding) (\<lambda>_. [[102]]) 0 demo_operation demo_read = Inr demo_hunk"
    by (simp add: prepare_hunk_def demo_path_arg demo_lines demo_display demo_valid demo_replacement ends_line_def demo_hunk_def Let_def)
  then show ?thesis by simp
qed

lemma demo_applied: "apply_hunks [demo_hunk] [[97, 10], [98, 10]] = [[97, 10], [99, 10]]"
  by (simp add: apply_hunks_def demo_hunk_def splice_def)

lemma demo_locked:
  obtains t out where "hashline_edit_locked demo_env (\<lambda>_. Landed) Landed 1 (\<lambda>n. [116, n]) (Some demo_binding) (\<lambda>_. [[102]])
    [demo_operation] demo_read = (t, Inr out)"
proof -
  let ?new = "[97, 10, 99, 10]"
  let ?s = "demo_read\<lparr>eh_files := [([[102]], TextFile ?new)]\<rparr>"
  have own: "hunks_of [[102]] [demo_hunk] = [demo_hunk]" "hh_path demo_hunk = [[102]]" by (simp_all add: hunks_of_def demo_hunk_def)
  have body: "file_text demo_read [[102]] = demo_file" by (simp add: file_text_def demo_store demo_lines)
  have a: "apply_files demo_env (Some demo_binding) (\<lambda>_. Landed) [demo_hunk] demo_read [[[102]]] demo_read =
      (?s, Inr (unified_diff demo_env demo_file ?new [102]))"
    by (simp add: own body demo_lines demo_applied replace_file_def demo_store demo_display Let_def)
  have "\<exists>st r. record_file_snapshot (fv_store demo_env) Landed 1 (sb_id demo_binding) i sh sha n ranges (eh_store ?s) = (st, Inr r)"
    for i sh sha n ranges
    by (rule record_succeeds)
      (simp_all add: demo_binding_def demo_require demo_store demo_snapshots encoded_snapshot_payload_bytes_def)
  then have "\<exists>t out. read_file demo_env Landed 1 i (Some demo_binding) arg specs ?s = (t, Inr out)" for i arg specs
    by (intro read_succeeds) (rule demo_resolve, simp, simp)
  then obtain t out where r: "read_file demo_env Landed 1 [116, 0] (Some demo_binding) (slash @ join slash [[102]])
      (Some (context_spec 2 1 2)) ?s = (t, Inr out)" by blast
  have c: "\<exists>os. hunk_contexts demo_env Landed 1 (\<lambda>n. [116, n]) (Some demo_binding) demo_read [demo_hunk] 0 [[[102]]] ?s = (t, Inr os)"
  proof -
    have sorted: "sort_key hh_start [demo_hunk] = [demo_hunk]" by simp
    have len: "length (apply_hunks [demo_hunk] (splitlines_keep (file_text demo_read [[102]]))) = 2"
      by (simp only: body demo_lines demo_applied) simp
    have "hh_start demo_hunk = 2" "length (hh_lines demo_hunk) = 1" by (simp_all add: demo_hunk_def)
    with r show ?thesis by (simp add: own sorted len Let_def del: join.simps)
  qed
  have keys: "from_keys (map hh_path [demo_hunk]) = [[[102]]]" by (simp add: from_keys_def own)
  have no: "no_overlap [demo_hunk]" unfolding no_overlap_def keys by (simp add: own)
  from c obtain os where os: "hunk_contexts demo_env Landed 1 (\<lambda>n. [116, n]) (Some demo_binding) demo_read [demo_hunk] 0 [[[102]]] ?s =
      (t, Inr os)" by blast
  have "hashline_edit_locked demo_env (\<lambda>_. Landed) Landed 1 (\<lambda>n. [116, n]) (Some demo_binding) (\<lambda>_. [[102]])
      [demo_operation] demo_read = (t, Inr (hashline_result (unified_diff demo_env demo_file ?new [102]) (sort_key ho_index os)))"
    unfolding hashline_edit_locked_def demo_prepared by (simp only: sum.case no not_True_eq_False if_False keys Let_def a os prod.case)
  with that show ?thesis .
qed

definition demo_edited :: edit_host where
  "demo_edited = fst (hashline_edit_locked demo_env (\<lambda>_. Landed) Landed 1 (\<lambda>n. [116, n]) (Some demo_binding) (\<lambda>_. [[102]])
    [demo_operation] demo_read)"


lemma demo_env_ok: "env_ok demo_env"
  by (simp add: env_ok_def path_ok_def name_ok_def)


theorem displayed_lines_can_be_edited_witness:
  "map_of (eh_files (fst (edit_lines demo_env Landed Landed 2 [117] (Some \<lparr>sb_id = demo_key, sb_workdir = as_workdir demo_agent\<rparr>)
     [102] 2 2 [99] (Some [115]) demo_read))) [[102]] = Some (TextFile [97, 10, 99, 10])"
proof -
  have limits: "store_limits_ok (fv_store demo_env)" by (simp add: store_limits_ok_def session_snapshots_max_bytes_def)
  have files: "eh_files demo_created = [([[102]], TextFile demo_file)]"
    "eh_store demo_created = \<lparr>ts_meta = [(demo_key, Doc (session_as_json demo_agent))], ts_snaps = []\<rparr>"
    by (simp_all add: demo_created_def demo_empty_def)
  have clock: "clock_ahead (eh_store demo_created) demo_key 1"
    by (simp add: clock_ahead_def rows_at_def files cell_of_def)
  have run: "bound demo_env Landed 1 demo_key (\<lambda>b. read_file demo_env Landed 1 [115] (Some b) [102] None) demo_created =
      (demo_read, Inr demo_output)"
    by (subst demo_bound) (simp_all add: demo_reading files)
  have new: "edited_text 2 2 [99] demo_file = [97, 10, 99, 10]"
    by (simp add: edited_text_def demo_lines ends_line_def demo_replacement splice_def Let_def)
  have at: "session_at demo_env (eh_store demo_created) demo_key demo_agent" by (rule demo_session_at) (simp add: files)
  have seen: "ro_snapshot demo_output = Some demo_snapshot" "range_is_visible 2 2 (gs_ranges demo_snapshot)"
    by (simp_all add: demo_output_def demo_snapshot_def new_snapshot_def range_is_visible_def)
  from displayed_lines_can_be_edited [OF demo_created_reached limits clock at _ run seen, of demo_file "[99]" Landed Landed 2 "[117]"]
  show ?thesis by (simp add: files demo_lines new)
qed

end
