(* ===== verification/Spec2Isabelle.thy ===== *)
theory Spec2Isabelle
  imports Link_Service Progress Task_Safety Patch_Refinement OAuth_Safety Stream_Safety Job_Journal
    Job_Recovery Copy_Safety Transfer_Safety Unpack_Safety Edit_Runs
begin

text \<open>
  Workgate is a server (the Control plane) that lets remote principals work on machines, each of which
  runs an executor. Executors poll Control for commands; sessions, tasks, jobs, file links and copies
  between executors are kept by Control in durable JSON files; files move between an executor and
  Control as resumable transfers. This library models the parts of \<open>src/src/workgate\<close> that decide
  who may do what and what survives a crash, and proves the properties that make them correct.

  \<^bold>\<open>How the parts interact.\<close> Every durable file goes through the state store (\<open>persistence/store.py\<close>).
  The two registries that Control needs at every start, executor trust and sessions
  (\<open>control/state.py\<close>), are kept by generation-fenced recovery (\<open>control/registry_recovery.py\<close>) on top
  of it. Pairing (\<open>control/pairing.py\<close>) lets an administrator approve a new executor: it publishes the
  trust record through the control state and hands a bearer out. The transport
  (\<open>control/executor_transport.py\<close>) authenticates that bearer against the trust record, queues the
  commands of callers and delivers them to polls. Tasks (\<open>control/task_state.py\<close>) attach sessions and
  look at jobs. Jobs (\<open>jobs/\<close>) are rows of a store file that are reconciled with what an executor
  observes. Public file links (\<open>control/downloads.py\<close>) and session copies
  (\<open>control/session_copy_store.py\<close>) both keep references to the immutable payloads of
  \<open>control/payload_store.py\<close>. A copy ends in a transfer on the receiving executor
  (\<open>executor/transfer.py\<close>). The OAuth server (\<open>oauth/core\<close>) authorizes the principals.

  \<^bold>\<open>Theories and code.\<close>
  \<^item> \<open>Prelude\<close>, \<open>Text_Lines\<close>: strings, dictionaries, clock readings, reachability and the locale
    \<open>invariant_machine\<close> of an invariant kept by a step relation; lines as \<open>str.splitlines\<close> sees them.
  \<^item> \<open>State_Store\<close>: \<open>persistence/store.py\<close>. JSON values, one file as a \<open>cell\<close>, writes with their
    outcomes, and the table of reference-counted locks.
  \<^item> \<open>Registry_Recovery\<close>: \<open>control/registry_recovery.py\<close>, the three files of a registry, and the runs of
    writes, restarts and damage.
  \<^item> \<open>Protocol\<close>: \<open>protocol/ids.py\<close>, \<open>credentials.py\<close>, \<open>errors.py\<close>, \<open>pairing.py\<close>.
  \<^item> \<open>Control_State\<close>: \<open>control/state.py\<close>. The records, their JSON codecs, every mutation with its publication.
  \<^item> \<open>Executor_Transport\<close>: \<open>control/executor_transport.py\<close>. Channels, polls, calls and results, and the
    step relation of all of them. \<open>Pairing\<close>: \<open>control/pairing.py\<close>. \<open>Progress\<close>: termination of the retry
    loops of a pairing request and delivery of queued commands.
  \<^item> \<open>Task_Plan\<close>, \<open>Task_State\<close>, \<open>Task_Safety\<close>: \<open>control/task_state.py\<close> with the normalisation of plans,
    the operations of the task service, and the runs of both.
  \<^item> \<open>Patch_Envelope\<close>, \<open>Patch_Refinement\<close>: \<open>executor/patch/envelope.py\<close>, and the specification it refines.
  \<^item> \<open>OAuth_Clients\<close>, \<open>OAuth_Codes\<close>, \<open>OAuth_Safety\<close>: \<open>oauth/core\<close>.
  \<^item> \<open>Terminal_Streams\<close>, \<open>Stream_Safety\<close>: \<open>control/streams.py\<close>, the rendezvous of terminal sockets.
  \<^item> \<open>Job_Rows\<close>, \<open>Job_Store\<close>, \<open>Job_Journal\<close>, \<open>Job_Recovery\<close>: \<open>jobs/state.py\<close>, \<open>reconciliation.py\<close>,
    \<open>status.py\<close>, \<open>persistence.py\<close> and \<open>recovery.py\<close>.
  \<^item> \<open>Payload_Store\<close>: \<open>control/payload_store.py\<close>, with the locale \<open>payload_client\<close>: what a registry that
    references payloads must keep so that no payload it promises is lost.
  \<^item> \<open>File_Links\<close>, \<open>Link_Safety\<close>, \<open>Link_Service\<close>: \<open>control/download_store.py\<close> and \<open>downloads.py\<close>.
  \<^item> \<open>Copy_Checkpoints\<close>, \<open>Copy_Safety\<close>: \<open>control/session_copy_store.py\<close>, and the decisions of
    \<open>session_copy.py\<close> on a checkpoint.
  \<^item> \<open>Transfer_Files\<close>, \<open>Transfer_Writes\<close>, \<open>Transfer_Safety\<close>: resumable file writes of
    \<open>executor/transfer.py\<close>. \<open>Transfer_Unpack\<close>, \<open>Unpack_Safety\<close>: publication of directories and
    abandonment of imports, same file.
  \<^item> \<open>Tool_Sessions\<close>: the sessions of an executor and the snapshots of what they were shown,
    \<open>executor/tool_session\<close>. \<open>Grounded_Edits\<close>: \<open>executor/files.py\<close> with the hashline format.
    \<open>Edit_Safety\<close>, \<open>Edit_Progress\<close>, \<open>Edit_Runs\<close>: runs of both, and a run in full.

  \<^bold>\<open>What the lemmas show.\<close> For each component, the invariant of its state and that every operation keeps
  it (the \<open>*_inv\<close> lemmas and the interpretations of \<open>invariant_machine\<close>); what each operation does on
  its branches, errors included; and properties of whole runs: no stale registry is ever loaded, a
  revoked executor receives nothing, a command is offered at most once and its result reaches one
  caller, a code is exchanged once, a link is not served more often than its limit, a session copy
  stays within its capacity and keeps the payload it names, a crash at any effect of a transfer leaves
  a user's file old or complete, a directory is never lost while it is replaced, and an edit touches only
  lines that its session was shown in their present form. Refinements:
  \<open>Patch_Refinement\<close> (an envelope is the diff of a transformation of an abstract file map),
  \<open>Job_Journal\<close> (the store with its journal is an atomic store). The contracts between components are
  locales, interpreted on the definitions of the component that keeps them.

  \<^bold>\<open>How effects are modelled.\<close>
  \<^item> A locked block (\<open>async with lock\<close>, a file lock, a transaction) is one atomic step. Where a handler
    reads before it locks, the handler is split at the lock and any step may come between.
  \<^item> A durable write has an outcome: it landed, it raised before the replacement, or it raised after it.
    A process that dies during a write leaves what one of the last two leaves.
  \<^item> The executor's transfers are plans: the list of durable effects of a call, computed from the state it
    reads, with its result. \<open>interrupted n\<close> is the state after a death behind the first \<open>n\<close> effects.
  \<^item> A clock reading is a rational, an argument of the operation; where the code needs two clocks there
    are two. A random draw is an argument, or a list of draws for a loop that retries; the loop's
    termination is proved from enough distinct draws.
  \<^item> A Python dictionary is an association list in insertion order. An absent key and a key holding
    \<open>None\<close> are both \<open>None\<close> where the code reads them with \<open>get\<close>. An exception is the left side of a sum.
  \<^item> Parameters: SHA-256 digests, \<open>urlparse\<close>, Authlib's PKCE functions, \<open>difflib.unified_diff\<close>, the lengths
    of JSON encodings, \<open>tarfile\<close>, base64 and gzip decoding, the resolution of paths and the answers of a
    remote executor. What a theorem needs of them is among its hypotheses.

  \<^bold>\<open>Bounds and fuel.\<close> No definition uses fuel: the recursions are structural or have a measure, as
  the chunked export \<open>export_loop\<close> has, whose number of requests \<open>export_calls_bounded\<close> bounds. The limits
  of the code (file sizes, counts, rates, lifetimes) are the code's constants or arguments.

  \<^bold>\<open>Not modelled.\<close>
  \<^item> Operating-system work: processes and shells, GUI and browser automation, the service manager,
    ptys, searching and listing of files, HTTP and WebSocket servers. Their code is calls of libraries.
  \<^item> Rendering: the MCP tool surface, result schemas, the web UI, command lines, telemetry and audit.
  \<^item> In \<open>executor/transfer.py\<close>: reading, statting and packing; file modes; unpacking without a transfer
    identity; Windows paths.
  \<^item> Rounding of clock readings, and the coercions that pydantic accepts beyond the values the code writes.
\<close>

end
